(* ===== verification/Prelude.thy ===== *)
theory Prelude
  imports Main "HOL-Library.Word"
begin

unbundle bit_operations_syntax

text \<open>
  The prelude of the development: the machine types of the C code, the faults a C expression
  can run into, the sequencing of fallible operations, and the generic lemmas on words, lists
  and results the components share.

  An operation of the firmware that cannot fail is a total function on the state. An operation
  that dereferences a pointer, indexes an array, divides, converts a float or asserts returns
  a result of type \<open>'a res\<close>: \<open>Inl\<close> of the fault that stops the C program (an undefined
  behaviour of the C standard, or an \<open>RT_ASSERT\<close> that loops for ever), or \<open>Inr\<close> of the value.
\<close>

section \<open>Machine types\<close>

type_synonym u8 = "8 word"
type_synonym u16 = "16 word"
type_synonym u32 = "32 word"

text \<open>Conversions of a C \<open>int\<close> value to the fixed-width types of the code.\<close>

definition to_u8 :: "int \<Rightarrow> u8" where
  "to_u8 i = word_of_int i"

definition to_u16 :: "int \<Rightarrow> u16" where
  "to_u16 i = word_of_int i"

definition to_u32 :: "int \<Rightarrow> u32" where
  "to_u32 i = word_of_int i"

definition to_s16 :: "int \<Rightarrow> int" where
  "to_s16 i = sint (word_of_int i :: u16)"

lemma to_s16_id: "-32768 \<le> i \<Longrightarrow> i < 32768 \<Longrightarrow> to_s16 i = i"
  by (simp add: to_s16_def sint_sbintrunc' signed_take_bit_int_eq_self)

lemma uint_to_u16: "0 \<le> i \<Longrightarrow> i < 65536 \<Longrightarrow> uint (to_u16 i) = i"
  by (simp add: to_u16_def uint_word_of_int)

lemma uint_to_u32: "0 \<le> i \<Longrightarrow> i < 4294967296 \<Longrightarrow> uint (to_u32 i) = i"
  by (simp add: to_u32_def uint_word_of_int)

section \<open>Faults and results\<close>

datatype fault =
    Null_Deref          \<comment> \<open>a null pointer is dereferenced\<close>
  | Out_Of_Bounds       \<comment> \<open>an array is indexed outside its bounds\<close>
  | Div_By_Zero         \<comment> \<open>an integer division by zero\<close>
  | Bad_Conversion      \<comment> \<open>a float outside the range of the integer type it is converted to\<close>
  | Uninit_Read         \<comment> \<open>an uninitialised variable is read\<close>
  | Signed_Overflow     \<comment> \<open>a signed integer overflows\<close>
  | Assert_Failed       \<comment> \<open>an \<open>RT_ASSERT\<close> fails: the thread spins for ever\<close>
  | No_Return           \<comment> \<open>a loop of the code never ends\<close>
  | System_Reset        \<comment> \<open>\<open>NVIC_SystemReset\<close> was called: nothing after it runs\<close>

type_synonym 'a res = "fault + 'a"

fun bindE :: "'a res \<Rightarrow> ('a \<Rightarrow> 'b res) \<Rightarrow> 'b res" where
  "bindE (Inl e) f = Inl e"
| "bindE (Inr a) f = f a"

definition assertE :: "bool \<Rightarrow> unit res" where
  "assertE b = (if b then Inr () else Inl Assert_Failed)"

definition okE :: "'a res \<Rightarrow> bool" where
  "okE r = (case r of Inl _ \<Rightarrow> False | Inr _ \<Rightarrow> True)"

lemma okE_simps [simp]: "okE (Inl e) = False" "okE (Inr a) = True"
  by (simp_all add: okE_def)

text \<open>A loop that may not end is a \<open>partial_function\<close>, whose value is \<open>None\<close> where it does not.\<close>

definition returns :: "'a res option \<Rightarrow> 'a res" where
  "returns r = (case r of None \<Rightarrow> Inl No_Return | Some x \<Rightarrow> x)"

lemma returns_simps [simp]: "returns None = Inl No_Return" "returns (Some x) = x"
  by (simp_all add: returns_def)

lemma okE_iff: "okE r \<longleftrightarrow> (\<exists>a. r = Inr a)"
  by (cases r) auto

lemma bindE_Inr_iff: "bindE r f = Inr b \<longleftrightarrow> (\<exists>a. r = Inr a \<and> f a = Inr b)"
  by (cases r) auto

lemma bindE_Inl_iff: "bindE r f = Inl e \<longleftrightarrow> r = Inl e \<or> (\<exists>a. r = Inr a \<and> f a = Inl e)"
  by (cases r) auto

lemma bindE_Inr_right [simp]: "bindE r Inr = r"
  by (cases r) auto

lemma bindE_assoc: "bindE (bindE r f) g = bindE r (\<lambda>a. bindE (f a) g)"
  by (cases r) auto

lemma bindE_cong [fundef_cong]:
  "r = r' \<Longrightarrow> (\<And>a. r' = Inr a \<Longrightarrow> f a = f' a) \<Longrightarrow> bindE r f = bindE r' f'"
  by (cases r') auto

lemma assertE_Inr_iff [simp]: "assertE b = Inr u \<longleftrightarrow> b"
  by (simp add: assertE_def)

lemma assertE_True [simp]: "assertE True = Inr ()"
  by (simp add: assertE_def)

lemma assertE_False [simp]: "assertE False = Inl Assert_Failed"
  by (simp add: assertE_def)

section \<open>Error codes of RT-Thread\<close>

abbreviation (input) RT_EOK :: int where "RT_EOK \<equiv> 0"
abbreviation (input) RT_ERROR :: int where "RT_ERROR \<equiv> 1"
abbreviation (input) RT_ETIMEOUT :: int where "RT_ETIMEOUT \<equiv> 2"
abbreviation (input) RT_EFULL :: int where "RT_EFULL \<equiv> 3"
abbreviation (input) RT_EEMPTY :: int where "RT_EEMPTY \<equiv> 4"
abbreviation (input) RT_ENOMEM :: int where "RT_ENOMEM \<equiv> 5"
abbreviation (input) RT_ENOSYS :: int where "RT_ENOSYS \<equiv> 6"
abbreviation (input) RT_EBUSY :: int where "RT_EBUSY \<equiv> 7"

section \<open>C integer division\<close>

text \<open>C truncates towards zero; the remainder has the sign of the dividend.\<close>

definition c_quot :: "int \<Rightarrow> int \<Rightarrow> int" where
  "c_quot a b = sgn a * sgn b * (\<bar>a\<bar> div \<bar>b\<bar>)"

definition c_div :: "int \<Rightarrow> int \<Rightarrow> int res" where
  "c_div a b = (if b = 0 then Inl Div_By_Zero else Inr (c_quot a b))"

lemma c_quot_nonneg: "0 \<le> a \<Longrightarrow> 0 < b \<Longrightarrow> c_quot a b = a div b"
  by (cases "a = 0") (simp_all add: c_quot_def)

lemma c_quot_neg: "a \<le> 0 \<Longrightarrow> 0 < b \<Longrightarrow> c_quot a b = - ((- a) div b)"
  by (cases "a = 0") (simp_all add: c_quot_def sgn_if)

lemma c_quot_nonpos: "a \<le> 0 \<Longrightarrow> 0 < b \<Longrightarrow> c_quot a b \<le> 0"
  by (simp add: c_quot_neg pos_imp_zdiv_nonneg_iff)

lemma int_div_less:
  assumes "0 < d" "x < b * d"
  shows "x div d < (b :: int)"
proof (rule ccontr)
  assume "\<not> x div d < b"
  then have "b * d \<le> x div d * d" using assms(1) by (intro mult_right_mono) simp_all
  moreover have "x div d * d \<le> x"
    using assms(1) pos_mod_sign[of d x] div_mult_mod_eq[of x d] by linarith
  ultimately show False using assms(2) by linarith
qed

section \<open>Array access\<close>

definition arr_get :: "'a list \<Rightarrow> nat \<Rightarrow> 'a res" where
  "arr_get xs i = (if i < length xs then Inr (xs ! i) else Inl Out_Of_Bounds)"

definition arr_set :: "'a list \<Rightarrow> nat \<Rightarrow> 'a \<Rightarrow> 'a list res" where
  "arr_set xs i x = (if i < length xs then Inr (xs[i := x]) else Inl Out_Of_Bounds)"

lemma arr_get_in [simp]: "i < length xs \<Longrightarrow> arr_get xs i = Inr (xs ! i)"
  by (simp add: arr_get_def)

lemma arr_get_out [simp]: "length xs \<le> i \<Longrightarrow> arr_get xs i = Inl Out_Of_Bounds"
  by (simp add: arr_get_def)

lemma arr_set_in [simp]: "i < length xs \<Longrightarrow> arr_set xs i x = Inr (xs[i := x])"
  by (simp add: arr_set_def)

lemma arr_set_out [simp]: "length xs \<le> i \<Longrightarrow> arr_set xs i x = Inl Out_Of_Bounds"
  by (simp add: arr_set_def)

lemma arr_set_length: "arr_set xs i x = Inr ys \<Longrightarrow> length ys = length xs"
  by (auto simp: arr_set_def split: if_splits)

section \<open>Single bits of words\<close>

text \<open>A register bit is tested, set and cleared by a mask with one bit.\<close>

lemma bit_one_hot: "bit (2 ^ n :: 'a::len word) k \<longleftrightarrow> k = n \<and> n < LENGTH('a)"
  by (auto simp: bit_exp_iff)

lemma word_eq_0_iff_bits: "w = (0 :: 'a::len word) \<longleftrightarrow> (\<forall>k. \<not> bit w k)"
  by (auto simp: bit_eq_iff dest: bit_imp_le_length)

lemma word_and_one_hot_neq_0:
  "(w AND 2 ^ n \<noteq> (0 :: 'a::len word)) \<longleftrightarrow> n < LENGTH('a) \<and> bit w n"
  by (auto simp: word_eq_0_iff_bits bit_and_iff bit_one_hot)

lemma bit_set_one_hot:
  "n < LENGTH('a) \<Longrightarrow> bit (w OR 2 ^ n :: 'a::len word) k \<longleftrightarrow> k = n \<or> bit w k"
  by (auto simp: bit_or_iff bit_one_hot)

lemma bit_clear_one_hot:
  "bit (w AND NOT (2 ^ n) :: 'a::len word) k \<longleftrightarrow> bit w k \<and> k \<noteq> n"
  by (auto simp: bit_and_iff bit_not_iff bit_one_hot dest: bit_imp_le_length)

lemma one_hot_inj:
  "n < LENGTH('a) \<Longrightarrow> m < LENGTH('a) \<Longrightarrow> ((2 :: 'a::len word) ^ n = 2 ^ m) \<longleftrightarrow> n = m"
  by (metis bit_one_hot)

section \<open>Indices that go round\<close>

lemma u16_bound: "unat (w :: u16) < 65536"
  using unsigned_less[of w, where 'a = nat] by simp

lemma ring_next:
  fixes a n :: u16
  assumes "a < n"
  shows "unat (if a + 1 \<ge> n then 0 else a + 1) = (unat a + 1) mod unat n"
proof -
  have u: "unat a + 1 \<le> unat n" "unat (a + 1) = unat a + 1"
  proof -
    show 1: "unat a + 1 \<le> unat n" using assms by (simp add: word_less_nat_alt)
    have "unat n < 65536" using u16_bound .
    then show "unat (a + 1) = unat a + 1" using 1 by (simp add: unat_word_ariths)
  qed
  show ?thesis
  proof (cases "a + 1 \<ge> n")
    case True
    then have "unat a + 1 = unat n" using u by (simp add: word_le_nat_alt)
    then show ?thesis using True by simp
  next
    case False
    then have "unat a + 1 < unat n" using u by (simp add: word_le_nat_alt)
    then show ?thesis using False u(2) by simp
  qed
qed

lemma ring_next_less:
  fixes a n :: u16
  assumes "a < n"
  shows "(if a + 1 \<ge> n then 0 else a + 1) < n"
  using assms by (auto simp: not_le dest: order_le_less_trans[OF word_zero_le])

section \<open>The C library\<close>

text \<open>
  The one function of the C library the shell commands of the application use: \<open>atoi\<close>, which
  skips white space, reads an optional sign and a run of decimal digits, and is undefined when
  the value does not fit an \<open>int\<close>. Strings are lists of characters without the final zero.
\<close>

definition c_isspace :: "char \<Rightarrow> bool" where
  "c_isspace c \<longleftrightarrow> (of_char c :: nat) \<in> {9, 10, 11, 12, 13, 32}"

definition c_isdigit :: "char \<Rightarrow> bool" where
  "c_isdigit c \<longleftrightarrow> 48 \<le> (of_char c :: nat) \<and> (of_char c :: nat) \<le> 57"

fun atoi_digits :: "int \<Rightarrow> string \<Rightarrow> int" where
  "atoi_digits acc [] = acc"
| "atoi_digits acc (c # cs) =
     (if c_isdigit c then atoi_digits (10 * acc + (of_char c - 48)) cs else acc)"

definition atoi :: "string \<Rightarrow> int res" where
  "atoi s =
     (let t = dropWhile c_isspace s;
          v = (case t of [] \<Rightarrow> 0
               | c # cs \<Rightarrow> (if c = CHR ''-'' then - atoi_digits 0 cs
                            else if c = CHR ''+'' then atoi_digits 0 cs
                            else atoi_digits 0 t))
      in if -2147483648 \<le> v \<and> v \<le> 2147483647 then Inr v else Inl Signed_Overflow)"

lemma atoi_examples:
  "atoi '' 12'' = Inr 12" "atoi ''-7x'' = Inr (-7)" "atoi ''on'' = Inr 0"
  "atoi ''9999999999'' = Inl Signed_Overflow"
  by (simp_all add: atoi_def c_isspace_def c_isdigit_def of_char_def)

end
