(* ===== verification/Gpio.thy ===== *)
theory Gpio
  imports Prelude
begin

text \<open>
  The pin layer: the GPIO registers of the STM32F103xE, the HAL functions the pin driver calls
  (\<open>stm32f1xx_hal_gpio.c\<close>), the pin driver (\<open>libraries/HAL_Drivers/drv_gpio.c\<close>) and the
  device-independent pin interface (\<open>components/drivers/misc/pin.c\<close>) the application calls.

  The registers are the state: \<open>odr\<close> is the output latch of a port and changes only through a
  write of the set/reset registers, \<open>idr\<close> holds the input levels and belongs to the
  environment, \<open>cr\<close> holds the four configuration bits of each pin (its nibble of CRL or CRH),
  and the remaining fields are the external-interrupt registers, the NVIC enable bits and the
  driver's own tables. The model starts after \<open>rt_hw_pin_init\<close>, which the board start-up calls
  before any other pin operation, so \<open>_hw_pin.ops\<close> is the STM32 operation table and the
  assertions on it hold.
\<close>

section \<open>Registers\<close>

datatype gpio_port = GPIOA | GPIOB | GPIOC | GPIOD | GPIOE | GPIOF | GPIOG

fun port_index :: "gpio_port \<Rightarrow> nat" where
  "port_index GPIOA = 0"
| "port_index GPIOB = 1"
| "port_index GPIOC = 2"
| "port_index GPIOD = 3"
| "port_index GPIOE = 4"
| "port_index GPIOF = 5"
| "port_index GPIOG = 6"

datatype irqn = EXTI0_IRQn | EXTI1_IRQn | EXTI2_IRQn | EXTI3_IRQn | EXTI4_IRQn
  | EXTI9_5_IRQn | EXTI15_10_IRQn

text \<open>An entry of \<open>pin_irq_hdr_tab\<close>; a handler and its argument are named by numbers, 0 is null.\<close>

record pin_irq_hdr_t =
  hdr_pin :: int
  hdr_mode :: u32
  hdr_fn :: nat
  hdr_args :: nat

record gpio_regs =
  odr :: "gpio_port \<Rightarrow> u16"
  idr :: "gpio_port \<Rightarrow> u16"
  cr :: "gpio_port \<Rightarrow> nat \<Rightarrow> u32"
  exticr :: "nat \<Rightarrow> gpio_port"
  exti_imr :: u32
  exti_emr :: u32
  exti_rtsr :: u32
  exti_ftsr :: u32
  nvic_enabled :: "irqn \<Rightarrow> bool"
  pin_irq_hdr_tab :: "pin_irq_hdr_t list"
  pin_irq_enable_mask :: u32

text \<open>
  Writes of the bit set/reset registers: the low half of BSRR sets bits of the output latch,
  the high half clears them, and a set wins over a clear; BRR clears.
\<close>

definition bsrr_write :: "gpio_port \<Rightarrow> u32 \<Rightarrow> gpio_regs \<Rightarrow> gpio_regs" where
  "bsrr_write p v g =
     (let set_bits = (ucast v :: u16); clr_bits = (ucast (drop_bit 16 v) :: u16)
      in g\<lparr>odr := (odr g)(p := (odr g p AND NOT clr_bits) OR set_bits)\<rparr>)"

definition brr_write :: "gpio_port \<Rightarrow> u32 \<Rightarrow> gpio_regs \<Rightarrow> gpio_regs" where
  "brr_write p v g = g\<lparr>odr := (odr g)(p := odr g p AND NOT (ucast v))\<rparr>"

section \<open>The HAL functions\<close>

abbreviation (input) GPIO_MODE_INPUT :: u32 where "GPIO_MODE_INPUT \<equiv> 0x00000000"
abbreviation (input) GPIO_MODE_OUTPUT_PP :: u32 where "GPIO_MODE_OUTPUT_PP \<equiv> 0x00000001"
abbreviation (input) GPIO_MODE_OUTPUT_OD :: u32 where "GPIO_MODE_OUTPUT_OD \<equiv> 0x00000011"
abbreviation (input) GPIO_MODE_AF_PP :: u32 where "GPIO_MODE_AF_PP \<equiv> 0x00000002"
abbreviation (input) GPIO_MODE_AF_OD :: u32 where "GPIO_MODE_AF_OD \<equiv> 0x00000012"
abbreviation (input) GPIO_MODE_ANALOG :: u32 where "GPIO_MODE_ANALOG \<equiv> 0x00000003"
abbreviation (input) GPIO_MODE_IT_RISING :: u32 where "GPIO_MODE_IT_RISING \<equiv> 0x10110000"
abbreviation (input) GPIO_MODE_IT_FALLING :: u32 where "GPIO_MODE_IT_FALLING \<equiv> 0x10210000"
abbreviation (input) GPIO_MODE_IT_RISING_FALLING :: u32 where
  "GPIO_MODE_IT_RISING_FALLING \<equiv> 0x10310000"
abbreviation (input) GPIO_MODE_EVT_RISING :: u32 where "GPIO_MODE_EVT_RISING \<equiv> 0x10120000"
abbreviation (input) GPIO_MODE_EVT_FALLING :: u32 where "GPIO_MODE_EVT_FALLING \<equiv> 0x10220000"
abbreviation (input) GPIO_MODE_EVT_RISING_FALLING :: u32 where
  "GPIO_MODE_EVT_RISING_FALLING \<equiv> 0x10320000"
abbreviation (input) GPIO_NOPULL :: u32 where "GPIO_NOPULL \<equiv> 0"
abbreviation (input) GPIO_PULLUP :: u32 where "GPIO_PULLUP \<equiv> 1"
abbreviation (input) GPIO_PULLDOWN :: u32 where "GPIO_PULLDOWN \<equiv> 2"
abbreviation (input) GPIO_SPEED_FREQ_HIGH :: u32 where "GPIO_SPEED_FREQ_HIGH \<equiv> 3"

record gpio_init_t =
  Pin :: u32
  Mode :: u32
  Pull :: u32
  Speed :: u32

definition HAL_GPIO_WritePin :: "gpio_port \<Rightarrow> u16 \<Rightarrow> int \<Rightarrow> gpio_regs \<Rightarrow> gpio_regs" where
  "HAL_GPIO_WritePin p pin state g =
     (if state \<noteq> 0 then bsrr_write p (ucast pin) g
      else bsrr_write p (push_bit 16 (ucast pin)) g)"

definition HAL_GPIO_ReadPin :: "gpio_port \<Rightarrow> u16 \<Rightarrow> gpio_regs \<Rightarrow> int" where
  "HAL_GPIO_ReadPin p pin g = (if idr g p AND pin \<noteq> 0 then 1 else 0)"

text \<open>
  \<open>HAL_GPIO_Init\<close> walks over the positions of the pin mask. The mode decides the four
  configuration bits (the \<open>config\<close> variable, 0 when the mode is none of the listed ones), an
  input with a pull resistor also writes the output latch, and an interrupt or event mode
  routes the external-interrupt line of that position to the port.
\<close>

definition gpio_is_input_mode :: "u32 \<Rightarrow> bool" where
  "gpio_is_input_mode m \<longleftrightarrow> m \<in> {GPIO_MODE_INPUT, GPIO_MODE_IT_RISING, GPIO_MODE_IT_FALLING,
     GPIO_MODE_IT_RISING_FALLING, GPIO_MODE_EVT_RISING, GPIO_MODE_EVT_FALLING,
     GPIO_MODE_EVT_RISING_FALLING}"

definition gpio_init_config :: "gpio_init_t \<Rightarrow> u32" where
  "gpio_init_config i =
     (if Mode i = GPIO_MODE_OUTPUT_PP then Speed i + 0x0
      else if Mode i = GPIO_MODE_OUTPUT_OD then Speed i + 0x4
      else if Mode i = GPIO_MODE_AF_PP then Speed i + 0x8
      else if Mode i = GPIO_MODE_AF_OD then Speed i + 0xC
      else if gpio_is_input_mode (Mode i) then
        (if Pull i = GPIO_NOPULL then 0x0 + 0x4 else 0x0 + 0x8)
      else 0x0)"

definition gpio_init_pull :: "gpio_port \<Rightarrow> gpio_init_t \<Rightarrow> nat \<Rightarrow> gpio_regs \<Rightarrow> gpio_regs" where
  "gpio_init_pull p i pos g =
     (if gpio_is_input_mode (Mode i) \<and> Pull i \<noteq> GPIO_NOPULL
      then (if Pull i = GPIO_PULLUP then bsrr_write p (push_bit pos 1) g
            else brr_write p (push_bit pos 1) g)
      else g)"

definition set_or_clear :: "bool \<Rightarrow> u32 \<Rightarrow> u32 \<Rightarrow> u32" where
  "set_or_clear b m r = (if b then r OR m else r AND NOT m)"

definition gpio_init_exti :: "gpio_port \<Rightarrow> gpio_init_t \<Rightarrow> nat \<Rightarrow> gpio_regs \<Rightarrow> gpio_regs" where
  "gpio_init_exti p i pos g =
     (if Mode i AND 0x10000000 = 0x10000000
      then g\<lparr>exticr := (exticr g)(pos := p),
             exti_imr := set_or_clear (Mode i AND 0x00010000 = 0x00010000) (push_bit pos 1) (exti_imr g),
             exti_emr := set_or_clear (Mode i AND 0x00020000 = 0x00020000) (push_bit pos 1) (exti_emr g),
             exti_rtsr := set_or_clear (Mode i AND 0x00100000 = 0x00100000) (push_bit pos 1) (exti_rtsr g),
             exti_ftsr := set_or_clear (Mode i AND 0x00200000 = 0x00200000) (push_bit pos 1) (exti_ftsr g)\<rparr>
      else g)"

definition gpio_init_pos :: "gpio_port \<Rightarrow> gpio_init_t \<Rightarrow> nat \<Rightarrow> gpio_regs \<Rightarrow> gpio_regs" where
  "gpio_init_pos p i pos g =
     (if bit (Pin i) pos
      then (let g1 = gpio_init_pull p i pos g;
                g2 = g1\<lparr>cr := (cr g1)(p := (cr g1 p)(pos := gpio_init_config i))\<rparr>
            in gpio_init_exti p i pos g2)
      else g)"

definition HAL_GPIO_Init :: "gpio_port \<Rightarrow> gpio_init_t \<Rightarrow> gpio_regs \<Rightarrow> gpio_regs" where
  "HAL_GPIO_Init p i g = fold (gpio_init_pos p i) [0..<16] g"

definition gpio_deinit_pos :: "gpio_port \<Rightarrow> u32 \<Rightarrow> nat \<Rightarrow> gpio_regs \<Rightarrow> gpio_regs" where
  "gpio_deinit_pos p pin pos g =
     (if bit pin pos
      then (let g1 = (if exticr g pos = p
                      then g\<lparr>exticr := (exticr g)(pos := GPIOA),
                             exti_imr := exti_imr g AND NOT (push_bit pos 1),
                             exti_emr := exti_emr g AND NOT (push_bit pos 1),
                             exti_rtsr := exti_rtsr g AND NOT (push_bit pos 1),
                             exti_ftsr := exti_ftsr g AND NOT (push_bit pos 1)\<rparr>
                      else g)
            in g1\<lparr>cr := (cr g1)(p := (cr g1 p)(pos := 0x4)),
                  odr := (odr g1)(p := odr g1 p AND NOT (push_bit pos 1))\<rparr>)
      else g)"

definition HAL_GPIO_DeInit :: "gpio_port \<Rightarrow> u32 \<Rightarrow> gpio_regs \<Rightarrow> gpio_regs" where
  "HAL_GPIO_DeInit p pin g = fold (gpio_deinit_pos p pin) [0..<16] g"

definition HAL_NVIC_EnableIRQ :: "irqn \<Rightarrow> gpio_regs \<Rightarrow> gpio_regs" where
  "HAL_NVIC_EnableIRQ i g = g\<lparr>nvic_enabled := (nvic_enabled g)(i := True)\<rparr>"

definition HAL_NVIC_DisableIRQ :: "irqn \<Rightarrow> gpio_regs \<Rightarrow> gpio_regs" where
  "HAL_NVIC_DisableIRQ i g = g\<lparr>nvic_enabled := (nvic_enabled g)(i := False)\<rparr>"

section \<open>The pin driver\<close>

text \<open>
  \<open>pins\<close> is the driver's table for a device with the ports A to G: entry \<open>i\<close> is pin
  \<open>i mod 16\<close> of port \<open>i div 16\<close>. \<open>GET_PIN\<close> computes the number of a pin from its port.
\<close>

record pin_index_t =
  ix_index :: int
  ix_gpio :: gpio_port
  ix_pin :: u32

definition gpio_ports :: "gpio_port list" where
  "gpio_ports = [GPIOA, GPIOB, GPIOC, GPIOD, GPIOE, GPIOF, GPIOG]"

definition pins :: "pin_index_t list" where
  "pins = map (\<lambda>i. \<lparr>ix_index = int i, ix_gpio = gpio_ports ! (i div 16),
                    ix_pin = push_bit (i mod 16) 1\<rparr>) [0..<112]"

definition GET_PIN :: "gpio_port \<Rightarrow> nat \<Rightarrow> int" where
  "GET_PIN p n = 16 * int (port_index p) + int n"

abbreviation (input) PIN_LOW :: int where "PIN_LOW \<equiv> 0"
abbreviation (input) PIN_HIGH :: int where "PIN_HIGH \<equiv> 1"
abbreviation (input) PIN_MODE_OUTPUT :: int where "PIN_MODE_OUTPUT \<equiv> 0"
abbreviation (input) PIN_MODE_INPUT :: int where "PIN_MODE_INPUT \<equiv> 1"
abbreviation (input) PIN_MODE_INPUT_PULLUP :: int where "PIN_MODE_INPUT_PULLUP \<equiv> 2"
abbreviation (input) PIN_MODE_INPUT_PULLDOWN :: int where "PIN_MODE_INPUT_PULLDOWN \<equiv> 3"
abbreviation (input) PIN_MODE_OUTPUT_OD :: int where "PIN_MODE_OUTPUT_OD \<equiv> 4"

text \<open>The pin number is converted to \<open>uint8_t\<close> by the call of \<open>get_pin\<close>.\<close>

definition get_pin :: "int \<Rightarrow> pin_index_t option" where
  "get_pin pin =
     (let i = nat (pin mod 256)
      in if i < length pins
         then (if ix_index (pins ! i) = -1 then None else Some (pins ! i))
         else None)"

definition stm32_pin_write :: "int \<Rightarrow> int \<Rightarrow> gpio_regs \<Rightarrow> gpio_regs" where
  "stm32_pin_write pin value g =
     (case get_pin pin of None \<Rightarrow> g
      | Some ix \<Rightarrow> HAL_GPIO_WritePin (ix_gpio ix) (ucast (ix_pin ix)) value g)"

definition stm32_pin_read :: "int \<Rightarrow> gpio_regs \<Rightarrow> int" where
  "stm32_pin_read pin g =
     (case get_pin pin of None \<Rightarrow> PIN_LOW
      | Some ix \<Rightarrow> HAL_GPIO_ReadPin (ix_gpio ix) (ucast (ix_pin ix)) g)"

definition stm32_pin_init_struct :: "u32 \<Rightarrow> int \<Rightarrow> gpio_init_t" where
  "stm32_pin_init_struct m mode =
     (let i = \<lparr>Pin = m, Mode = GPIO_MODE_OUTPUT_PP, Pull = GPIO_NOPULL,
               Speed = GPIO_SPEED_FREQ_HIGH\<rparr>
      in if mode = PIN_MODE_OUTPUT then i\<lparr>Mode := GPIO_MODE_OUTPUT_PP, Pull := GPIO_NOPULL\<rparr>
         else if mode = PIN_MODE_INPUT then i\<lparr>Mode := GPIO_MODE_INPUT, Pull := GPIO_NOPULL\<rparr>
         else if mode = PIN_MODE_INPUT_PULLUP then i\<lparr>Mode := GPIO_MODE_INPUT, Pull := GPIO_PULLUP\<rparr>
         else if mode = PIN_MODE_INPUT_PULLDOWN
           then i\<lparr>Mode := GPIO_MODE_INPUT, Pull := GPIO_PULLDOWN\<rparr>
         else if mode = PIN_MODE_OUTPUT_OD then i\<lparr>Mode := GPIO_MODE_OUTPUT_OD, Pull := GPIO_NOPULL\<rparr>
         else i)"

definition stm32_pin_mode :: "int \<Rightarrow> int \<Rightarrow> gpio_regs \<Rightarrow> gpio_regs" where
  "stm32_pin_mode pin mode g =
     (case get_pin pin of None \<Rightarrow> g
      | Some ix \<Rightarrow> HAL_GPIO_Init (ix_gpio ix) (stm32_pin_init_struct (ix_pin ix) mode) g)"

definition bit2bitno :: "u32 \<Rightarrow> int" where
  "bit2bitno b = (case List.find (\<lambda>i. push_bit i 1 = b) [0..<32] of None \<Rightarrow> -1 | Some i \<Rightarrow> int i)"

definition pin_irq_map :: "(u16 \<times> irqn) list" where
  "pin_irq_map = map (\<lambda>i. (push_bit i 1,
      [EXTI0_IRQn, EXTI1_IRQn, EXTI2_IRQn, EXTI3_IRQn, EXTI4_IRQn,
       EXTI9_5_IRQn, EXTI9_5_IRQn, EXTI9_5_IRQn, EXTI9_5_IRQn, EXTI9_5_IRQn,
       EXTI15_10_IRQn, EXTI15_10_IRQn, EXTI15_10_IRQn, EXTI15_10_IRQn,
       EXTI15_10_IRQn, EXTI15_10_IRQn] ! i)) [0..<16]"

definition get_pin_irq_map :: "u32 \<Rightarrow> (u16 \<times> irqn) option" where
  "get_pin_irq_map pinbit =
     (let mapindex = bit2bitno pinbit
      in if mapindex < 0 \<or> mapindex \<ge> int (length pin_irq_map) then None
         else Some (pin_irq_map ! nat mapindex))"

text \<open>
  The interrupt side of the driver. A slot of the handler table is free when its pin is -1.
  Attaching and detaching run with interrupts disabled, so each is one step.
\<close>

abbreviation (input) free_slot :: pin_irq_hdr_t where
  "free_slot \<equiv> \<lparr>hdr_pin = -1, hdr_mode = 0, hdr_fn = 0, hdr_args = 0\<rparr>"

definition stm32_pin_attach_irq ::
    "int \<Rightarrow> u32 \<Rightarrow> nat \<Rightarrow> nat \<Rightarrow> gpio_regs \<Rightarrow> int \<times> gpio_regs" where
  "stm32_pin_attach_irq pin mode hdr args g =
     (case get_pin pin of None \<Rightarrow> (RT_ENOSYS, g)
      | Some ix \<Rightarrow>
        (let irqindex = bit2bitno (ix_pin ix)
         in if irqindex < 0 \<or> irqindex \<ge> int (length pin_irq_map) then (RT_ENOSYS, g)
            else (let k = nat irqindex; slot = pin_irq_hdr_tab g ! k
                  in if hdr_pin slot = pin \<and> hdr_fn slot = hdr \<and> hdr_mode slot = mode
                        \<and> hdr_args slot = args
                     then (RT_EOK, g)
                     else if hdr_pin slot \<noteq> -1 then (RT_EBUSY, g)
                     else (RT_EOK, g\<lparr>pin_irq_hdr_tab := (pin_irq_hdr_tab g)
                             [k := \<lparr>hdr_pin = to_s16 pin, hdr_mode = ucast (ucast mode :: u16),
                                    hdr_fn = hdr, hdr_args = args\<rparr>]\<rparr>))))"

definition stm32_pin_dettach_irq :: "int \<Rightarrow> gpio_regs \<Rightarrow> int \<times> gpio_regs" where
  "stm32_pin_dettach_irq pin g =
     (case get_pin pin of None \<Rightarrow> (RT_ENOSYS, g)
      | Some ix \<Rightarrow>
        (let irqindex = bit2bitno (ix_pin ix)
         in if irqindex < 0 \<or> irqindex \<ge> int (length pin_irq_map) then (RT_ENOSYS, g)
            else (let k = nat irqindex
                  in if hdr_pin (pin_irq_hdr_tab g ! k) = -1 then (RT_EOK, g)
                     else (RT_EOK, g\<lparr>pin_irq_hdr_tab := (pin_irq_hdr_tab g)[k := free_slot]\<rparr>))))"

text \<open>
  The mode of the slot decides the edge. Any other value leaves the structure that
  \<open>HAL_GPIO_Init\<close> reads uninitialised.
\<close>

definition irq_init_struct :: "u32 \<Rightarrow> u32 \<Rightarrow> gpio_init_t res" where
  "irq_init_struct m mode =
     (if mode = 0 then Inr \<lparr>Pin = m, Mode = GPIO_MODE_IT_RISING, Pull = GPIO_PULLDOWN,
                            Speed = GPIO_SPEED_FREQ_HIGH\<rparr>
      else if mode = 1 then Inr \<lparr>Pin = m, Mode = GPIO_MODE_IT_FALLING, Pull = GPIO_PULLUP,
                            Speed = GPIO_SPEED_FREQ_HIGH\<rparr>
      else if mode = 2 then Inr \<lparr>Pin = m, Mode = GPIO_MODE_IT_RISING_FALLING, Pull = GPIO_NOPULL,
                            Speed = GPIO_SPEED_FREQ_HIGH\<rparr>
      else Inl Uninit_Read)"

text \<open>
  Disabling a line switches its NVIC interrupt off only when no other enabled line shares it:
  lines 5 to 9 share one interrupt, lines 10 to 15 another.
\<close>

definition irq_disable_nvic :: "u16 \<Rightarrow> irqn \<Rightarrow> gpio_regs \<Rightarrow> gpio_regs" where
  "irq_disable_nvic pinbit irqno g =
     (if pinbit \<ge> 0x0020 \<and> pinbit \<le> 0x0200
      then (if pin_irq_enable_mask g AND 0x03E0 = 0 then HAL_NVIC_DisableIRQ irqno g else g)
      else if pinbit \<ge> 0x0400 \<and> pinbit \<le> 0x8000
      then (if pin_irq_enable_mask g AND 0xFC00 = 0 then HAL_NVIC_DisableIRQ irqno g else g)
      else HAL_NVIC_DisableIRQ irqno g)"

definition pin_irq_switch_on :: "pin_index_t \<Rightarrow> gpio_regs \<Rightarrow> (int \<times> gpio_regs) res" where
  "pin_irq_switch_on ix g =
     (let irqindex = bit2bitno (ix_pin ix)
      in if irqindex < 0 \<or> irqindex \<ge> int (length pin_irq_map) then Inr (RT_ENOSYS, g)
         else (let slot = pin_irq_hdr_tab g ! nat irqindex;
                   irqmap = pin_irq_map ! nat irqindex
               in if hdr_pin slot = -1 then Inr (RT_ENOSYS, g)
                  else bindE (irq_init_struct (ix_pin ix) (hdr_mode slot)) (\<lambda>i.
                    (let g1 = HAL_GPIO_Init (ix_gpio ix) i g;
                         g2 = HAL_NVIC_EnableIRQ (snd irqmap) g1
                     in Inr (RT_EOK, g2\<lparr>pin_irq_enable_mask :=
                                pin_irq_enable_mask g2 OR ucast (fst irqmap)\<rparr>)))))"

definition pin_irq_switch_off :: "pin_index_t \<Rightarrow> gpio_regs \<Rightarrow> int \<times> gpio_regs" where
  "pin_irq_switch_off ix g =
     (case get_pin_irq_map (ix_pin ix) of None \<Rightarrow> (RT_ENOSYS, g)
      | Some irqmap \<Rightarrow>
        (let g1 = HAL_GPIO_DeInit (ix_gpio ix) (ix_pin ix) g;
             g2 = g1\<lparr>pin_irq_enable_mask := pin_irq_enable_mask g1 AND NOT (ucast (fst irqmap))\<rparr>
         in (RT_EOK, irq_disable_nvic (fst irqmap) (snd irqmap) g2)))"

definition stm32_pin_irq_enable :: "int \<Rightarrow> u32 \<Rightarrow> gpio_regs \<Rightarrow> (int \<times> gpio_regs) res" where
  "stm32_pin_irq_enable pin enabled g =
     (case get_pin pin of None \<Rightarrow> Inr (RT_ENOSYS, g)
      | Some ix \<Rightarrow> (if enabled = 1 then pin_irq_switch_on ix g
                    else if enabled = 0 then Inr (pin_irq_switch_off ix g)
                    else Inr (- RT_ENOSYS, g)))"

text \<open>\<open>pin_irq_hdr\<close>: which handler the interrupt of a line calls, with its argument.\<close>

definition pin_irq_hdr :: "int \<Rightarrow> gpio_regs \<Rightarrow> (nat \<times> nat) option res" where
  "pin_irq_hdr irqno g =
     (if irqno < 0 then Inl Out_Of_Bounds
      else bindE (arr_get (pin_irq_hdr_tab g) (nat irqno)) (\<lambda>slot.
        Inr (if hdr_fn slot \<noteq> 0 then Some (hdr_fn slot, hdr_args slot) else None)))"

definition HAL_GPIO_EXTI_Callback :: "u16 \<Rightarrow> gpio_regs \<Rightarrow> (nat \<times> nat) option res" where
  "HAL_GPIO_EXTI_Callback pin g = pin_irq_hdr (bit2bitno (ucast pin)) g"

section \<open>The pin interface\<close>

definition rt_pin_mode :: "int \<Rightarrow> int \<Rightarrow> gpio_regs \<Rightarrow> gpio_regs" where
  "rt_pin_mode pin mode g = stm32_pin_mode pin mode g"

definition rt_pin_write :: "int \<Rightarrow> int \<Rightarrow> gpio_regs \<Rightarrow> gpio_regs" where
  "rt_pin_write pin value g = stm32_pin_write pin value g"

definition rt_pin_read :: "int \<Rightarrow> gpio_regs \<Rightarrow> int" where
  "rt_pin_read pin g = stm32_pin_read pin g"

definition rt_pin_attach_irq ::
    "int \<Rightarrow> u32 \<Rightarrow> nat \<Rightarrow> nat \<Rightarrow> gpio_regs \<Rightarrow> int \<times> gpio_regs" where
  "rt_pin_attach_irq pin mode hdr args g = stm32_pin_attach_irq pin mode hdr args g"

definition rt_pin_detach_irq :: "int \<Rightarrow> gpio_regs \<Rightarrow> int \<times> gpio_regs" where
  "rt_pin_detach_irq pin g = stm32_pin_dettach_irq pin g"

definition rt_pin_irq_enable :: "int \<Rightarrow> u32 \<Rightarrow> gpio_regs \<Rightarrow> (int \<times> gpio_regs) res" where
  "rt_pin_irq_enable pin enabled g = stm32_pin_irq_enable pin enabled g"

section \<open>Pin numbers\<close>

definition valid_pin :: "int \<Rightarrow> bool" where
  "valid_pin p \<longleftrightarrow> 0 \<le> p \<and> p < 112"

definition pin_port :: "int \<Rightarrow> gpio_port" where
  "pin_port p = gpio_ports ! (nat p div 16)"

definition pin_pos :: "int \<Rightarrow> nat" where
  "pin_pos p = nat p mod 16"

text \<open>The level the output latch drives a pin with.\<close>

definition pin_out :: "gpio_regs \<Rightarrow> int \<Rightarrow> bool" where
  "pin_out g p \<longleftrightarrow> bit (odr g (pin_port p)) (pin_pos p)"

lemma pin_pos_less [simp]: "pin_pos p < 16"
  by (simp add: pin_pos_def)

lemma length_pins [simp]: "length pins = 112"
  by (simp add: pins_def)

lemma length_gpio_ports [simp]: "length gpio_ports = 7"
  by (simp add: gpio_ports_def)

lemma length_pin_irq_map [simp]: "length pin_irq_map = 16"
  by (simp add: pin_irq_map_def)

lemma nth_pins:
  "i < 112 \<Longrightarrow> pins ! i =
     \<lparr>ix_index = int i, ix_gpio = gpio_ports ! (i div 16), ix_pin = push_bit (i mod 16) 1\<rparr>"
  by (simp add: pins_def)

lemma get_pin_valid:
  "valid_pin p \<Longrightarrow> get_pin p = Some \<lparr>ix_index = p, ix_gpio = pin_port p, ix_pin = 2 ^ pin_pos p\<rparr>"
  by (auto simp: get_pin_def valid_pin_def nth_pins pin_port_def pin_pos_def Let_def)

lemma get_pin_invalid: "112 \<le> p \<Longrightarrow> p < 256 \<Longrightarrow> get_pin p = None"
  by (auto simp: get_pin_def Let_def)

lemma GET_PIN_valid: "n < 16 \<Longrightarrow> valid_pin (GET_PIN p n)"
  by (cases p) (auto simp: valid_pin_def GET_PIN_def)

lemma pin_port_GET_PIN: "n < 16 \<Longrightarrow> pin_port (GET_PIN p n) = p"
  by (cases p) (auto simp: pin_port_def GET_PIN_def gpio_ports_def nat_add_distrib)

lemma pin_pos_GET_PIN: "n < 16 \<Longrightarrow> pin_pos (GET_PIN p n) = n"
  by (cases p) (simp_all add: pin_pos_def GET_PIN_def nat_add_distrib mod_add_left_eq [symmetric])

lemma pin_port_pos_inj:
  assumes "valid_pin p" "valid_pin q" "pin_port p = pin_port q" "pin_pos p = pin_pos q"
  shows "p = q"
proof -
  have d: "distinct gpio_ports" by (simp add: gpio_ports_def)
  have "nat p div 16 = nat q div 16"
    using assms(1-3) d by (auto simp: pin_port_def valid_pin_def nth_eq_iff_index_eq)
  with assms(4) have "nat p = nat q"
    by (metis pin_pos_def div_mod_decomp)
  with assms(1,2) show ?thesis by (auto simp: valid_pin_def)
qed

lemma ucast_one_hot: "n < 16 \<Longrightarrow> (ucast (2 ^ n :: u32) :: u16) = 2 ^ n"
  by (rule bit_word_eqI) (auto simp: bit_ucast_iff bit_one_hot)

lemma ucast_one_hot_32: "n < 16 \<Longrightarrow> (ucast (2 ^ n :: u16) :: u32) = 2 ^ n"
  by (rule bit_word_eqI) (auto simp: bit_ucast_iff bit_one_hot)

lemma ucast_high_one_hot:
  "n < 16 \<Longrightarrow> (ucast (push_bit 16 (2 ^ n :: u32)) :: u16) = 0"
  "n < 16 \<Longrightarrow> (ucast (drop_bit 16 (push_bit 16 (2 ^ n :: u32))) :: u16) = 2 ^ n"
  "n < 16 \<Longrightarrow> (ucast (drop_bit 16 (2 ^ n :: u32)) :: u16) = 0"
  by (rule bit_word_eqI; auto simp: bit_ucast_iff bit_push_bit_iff bit_drop_bit_eq bit_one_hot)+

lemma rt_pin_write_valid:
  assumes "valid_pin p"
  shows "rt_pin_write p v g =
    g\<lparr>odr := (odr g)(pin_port p :=
        (if v \<noteq> 0 then odr g (pin_port p) OR 2 ^ pin_pos p
         else odr g (pin_port p) AND NOT (2 ^ pin_pos p)))\<rparr>"
  using assms
  by (simp add: rt_pin_write_def stm32_pin_write_def get_pin_valid HAL_GPIO_WritePin_def
      bsrr_write_def ucast_one_hot ucast_one_hot_32 ucast_high_one_hot Let_def)

lemma pin_out_write:
  assumes "valid_pin p" "valid_pin q"
  shows "pin_out (rt_pin_write p v g) q \<longleftrightarrow> (if p = q then v \<noteq> 0 else pin_out g q)"
proof (cases "pin_port p = pin_port q")
  case True
  have eq: "pin_pos p = pin_pos q \<longleftrightarrow> p = q"
    using pin_port_pos_inj[OF assms True] by auto
  show ?thesis
    using assms(1) True eq
    by (auto simp: rt_pin_write_valid pin_out_def bit_set_one_hot bit_clear_one_hot)
next
  case False
  then have "p \<noteq> q" by auto
  with False show ?thesis
    using assms(1) by (simp add: rt_pin_write_valid pin_out_def)
qed

text \<open>A pin write changes the output latch and nothing else.\<close>

lemma rt_pin_write_frame [simp]:
  "idr (rt_pin_write p v g) = idr g"
  "cr (rt_pin_write p v g) = cr g"
  "exticr (rt_pin_write p v g) = exticr g"
  "exti_imr (rt_pin_write p v g) = exti_imr g"
  "nvic_enabled (rt_pin_write p v g) = nvic_enabled g"
  "pin_irq_hdr_tab (rt_pin_write p v g) = pin_irq_hdr_tab g"
  "pin_irq_enable_mask (rt_pin_write p v g) = pin_irq_enable_mask g"
  by (simp_all add: rt_pin_write_def stm32_pin_write_def HAL_GPIO_WritePin_def bsrr_write_def
      Let_def split: option.splits)

lemma rt_pin_read_valid:
  "valid_pin p \<Longrightarrow> rt_pin_read p g = (if bit (idr g (pin_port p)) (pin_pos p) then 1 else 0)"
  by (simp add: rt_pin_read_def stm32_pin_read_def get_pin_valid HAL_GPIO_ReadPin_def
      ucast_one_hot word_and_one_hot_neq_0)

text \<open>The registers after reset: floating inputs, no interrupt routed, the driver's table empty.\<close>

definition gpio_reset :: gpio_regs where
  "gpio_reset = \<lparr>odr = (\<lambda>_. 0), idr = (\<lambda>_. 0), cr = (\<lambda>_ _. 4), exticr = (\<lambda>_. GPIOA), exti_imr = 0,
     exti_emr = 0, exti_rtsr = 0, exti_ftsr = 0, nvic_enabled = (\<lambda>_. False),
     pin_irq_hdr_tab = replicate 16 free_slot, pin_irq_enable_mask = 0\<rparr>"

section \<open>The contract of a pin driver\<close>

text \<open>
  What the application relies on: a write to a valid pin sets the level of that pin and leaves
  the others. From it follows the effect of a sequence of writes, which is how every LED
  pattern of the application is displayed.
\<close>

locale pin_driver =
  fixes wr :: "int \<Rightarrow> int \<Rightarrow> 's \<Rightarrow> 's"
    and level :: "'s \<Rightarrow> int \<Rightarrow> bool"
    and valid :: "int \<Rightarrow> bool"
  assumes level_wr:
    "valid p \<Longrightarrow> valid q \<Longrightarrow> level (wr p v s) q \<longleftrightarrow> (if p = q then v \<noteq> 0 else level s q)"
begin

lemma level_writes:
  assumes "\<forall>x \<in> set ws. valid (fst x)" "valid q" "distinct (map fst ws)"
  shows "level (fold (\<lambda>(p, v). wr p v) ws s) q \<longleftrightarrow>
    (case map_of ws q of None \<Rightarrow> level s q | Some v \<Rightarrow> v \<noteq> 0)"
  using assms
proof (induction ws arbitrary: s)
  case Nil
  then show ?case by simp
next
  case (Cons w ws)
  obtain p v where w: "w = (p, v)" by (cases w)
  have vp: "valid p" using Cons.prems(1) w by auto
  have none: "p = q \<Longrightarrow> map_of ws q = None"
    using Cons.prems(3) w by (auto simp: map_of_eq_None_iff)
  have IH: "level (fold (\<lambda>(p, v). wr p v) ws (wr p v s)) q \<longleftrightarrow>
      (case map_of ws q of None \<Rightarrow> level (wr p v s) q | Some v \<Rightarrow> v \<noteq> 0)"
    by (rule Cons.IH) (use Cons.prems in auto)
  show ?case
    using IH none level_wr[OF vp Cons.prems(2), of v s]
    by (auto simp: w split: option.splits)
qed

end

interpretation stm32: pin_driver rt_pin_write pin_out valid_pin
  by unfold_locales (rule pin_out_write)

definition pin_writes :: "(int \<times> int) list \<Rightarrow> gpio_regs \<Rightarrow> gpio_regs" where
  "pin_writes ws g = fold (\<lambda>(p, v). rt_pin_write p v) ws g"

definition pin_modes :: "(int \<times> int) list \<Rightarrow> gpio_regs \<Rightarrow> gpio_regs" where
  "pin_modes ms g = fold (\<lambda>(p, m). rt_pin_mode p m) ms g"

lemma pin_out_writes:
  "\<forall>x \<in> set ws. valid_pin (fst x) \<Longrightarrow> valid_pin q \<Longrightarrow> distinct (map fst ws) \<Longrightarrow>
    pin_out (pin_writes ws g) q \<longleftrightarrow> (case map_of ws q of None \<Rightarrow> pin_out g q | Some v \<Rightarrow> v \<noteq> 0)"
  unfolding pin_writes_def by (rule stm32.level_writes)

lemma pin_writes_idr [simp]: "idr (pin_writes ws g) = idr g"
proof (induction ws arbitrary: g)
  case Nil
  then show ?case by (simp add: pin_writes_def)
next
  case (Cons w ws)
  then show ?case by (cases w) (simp add: pin_writes_def)
qed

end
