(* ===== verification/Sys_Conf.thy ===== *)
theory Sys_Conf
  imports Prelude
begin

text \<open>
  The global data of the firmware (\<open>applications/sys_conf.h\<close>, \<open>applications/sys_def.h\<close>): the
  configuration and status registers in \<open>g_sys\<close>, the pointers the register tables hold into
  them, and the error codes. The configuration's \<open>rect_freq\<close> is named \<open>rect_freq_conf\<close>, since the
  status has a field of the same name.
\<close>

record config_st =
  pwr_en :: u16
  freq_set :: u16
  volum_set :: u16
  dt_half_shift :: u16
  phase_offset :: u16
  wg_mode :: u16
  rect_freq_conf :: u16
  rect_val :: u16
  dac_offset :: u16
  volum_step :: u16
  bat_mav_cnt :: u16
  bat_up_lim :: u16
  bat_low_lim :: u16

record status_st =
  software_ver :: u16
  hardware_ver :: u16
  mcu_temp :: u16
  bat_adc_raw :: u16
  bat_volt :: u16
  bat_volum :: u16
  ms_status :: u16
  half_period :: u16
  mul_factor :: u16
  freq_index :: u16
  volum_index :: u16
  out_en :: u16
  rect_freq :: u16
  volum_reg :: u16

record sys_reg_st =
  conf :: config_st
  stat :: status_st

text \<open>\<open>g_sys\<close> is a global variable: the C start-up code fills it with zeros.\<close>

definition config_zero :: config_st where
  "config_zero = \<lparr>pwr_en = 0, freq_set = 0, volum_set = 0, dt_half_shift = 0, phase_offset = 0,
     wg_mode = 0, rect_freq_conf = 0, rect_val = 0, dac_offset = 0, volum_step = 0,
     bat_mav_cnt = 0, bat_up_lim = 0, bat_low_lim = 0\<rparr>"

definition status_zero :: status_st where
  "status_zero = \<lparr>software_ver = 0, hardware_ver = 0, mcu_temp = 0, bat_adc_raw = 0, bat_volt = 0,
     bat_volum = 0, ms_status = 0, half_period = 0, mul_factor = 0, freq_index = 0,
     volum_index = 0, out_en = 0, rect_freq = 0, volum_reg = 0\<rparr>"

definition g_sys_zero :: sys_reg_st where
  "g_sys_zero = \<lparr>conf = config_zero, stat = status_zero\<rparr>"

section \<open>Pointers into the registers\<close>

text \<open>The \<open>reg_ptr\<close> fields of the tables point to the fields of \<open>g_sys\<close> named here.\<close>

datatype reg_ptr =
    P_pwr_en | P_freq_set | P_volum_set | P_conf_rect_freq | P_phase_offset | P_volum_step
  | P_dac_offset | P_bat_up_lim | P_bat_low_lim | P_bat_mav_cnt
  | P_software_ver | P_hardware_ver | P_mcu_temp | P_volum_reg | P_rect_freq | P_ms_status
  | P_bat_volt | P_bat_volum | P_bat_adc_raw | P_half_period | P_mul_factor | P_out_en
  | P_freq_index | P_volum_index

fun reg_load :: "reg_ptr \<Rightarrow> sys_reg_st \<Rightarrow> u16" where
  "reg_load P_pwr_en g = pwr_en (conf g)"
| "reg_load P_freq_set g = freq_set (conf g)"
| "reg_load P_volum_set g = volum_set (conf g)"
| "reg_load P_conf_rect_freq g = rect_freq_conf (conf g)"
| "reg_load P_phase_offset g = phase_offset (conf g)"
| "reg_load P_volum_step g = volum_step (conf g)"
| "reg_load P_dac_offset g = dac_offset (conf g)"
| "reg_load P_bat_up_lim g = bat_up_lim (conf g)"
| "reg_load P_bat_low_lim g = bat_low_lim (conf g)"
| "reg_load P_bat_mav_cnt g = bat_mav_cnt (conf g)"
| "reg_load P_software_ver g = software_ver (stat g)"
| "reg_load P_hardware_ver g = hardware_ver (stat g)"
| "reg_load P_mcu_temp g = mcu_temp (stat g)"
| "reg_load P_volum_reg g = volum_reg (stat g)"
| "reg_load P_rect_freq g = rect_freq (stat g)"
| "reg_load P_ms_status g = ms_status (stat g)"
| "reg_load P_bat_volt g = bat_volt (stat g)"
| "reg_load P_bat_volum g = bat_volum (stat g)"
| "reg_load P_bat_adc_raw g = bat_adc_raw (stat g)"
| "reg_load P_half_period g = half_period (stat g)"
| "reg_load P_mul_factor g = mul_factor (stat g)"
| "reg_load P_out_en g = out_en (stat g)"
| "reg_load P_freq_index g = freq_index (stat g)"
| "reg_load P_volum_index g = volum_index (stat g)"

definition upd_conf :: "(config_st \<Rightarrow> config_st) \<Rightarrow> sys_reg_st \<Rightarrow> sys_reg_st" where
  "upd_conf f g = g\<lparr>conf := f (conf g)\<rparr>"

definition upd_stat :: "(status_st \<Rightarrow> status_st) \<Rightarrow> sys_reg_st \<Rightarrow> sys_reg_st" where
  "upd_stat f g = g\<lparr>stat := f (stat g)\<rparr>"

fun reg_store :: "reg_ptr \<Rightarrow> u16 \<Rightarrow> sys_reg_st \<Rightarrow> sys_reg_st" where
  "reg_store P_pwr_en v = upd_conf (pwr_en_update (\<lambda>_. v))"
| "reg_store P_freq_set v = upd_conf (freq_set_update (\<lambda>_. v))"
| "reg_store P_volum_set v = upd_conf (volum_set_update (\<lambda>_. v))"
| "reg_store P_conf_rect_freq v = upd_conf (rect_freq_conf_update (\<lambda>_. v))"
| "reg_store P_phase_offset v = upd_conf (phase_offset_update (\<lambda>_. v))"
| "reg_store P_volum_step v = upd_conf (volum_step_update (\<lambda>_. v))"
| "reg_store P_dac_offset v = upd_conf (dac_offset_update (\<lambda>_. v))"
| "reg_store P_bat_up_lim v = upd_conf (bat_up_lim_update (\<lambda>_. v))"
| "reg_store P_bat_low_lim v = upd_conf (bat_low_lim_update (\<lambda>_. v))"
| "reg_store P_bat_mav_cnt v = upd_conf (bat_mav_cnt_update (\<lambda>_. v))"
| "reg_store P_software_ver v = upd_stat (software_ver_update (\<lambda>_. v))"
| "reg_store P_hardware_ver v = upd_stat (hardware_ver_update (\<lambda>_. v))"
| "reg_store P_mcu_temp v = upd_stat (mcu_temp_update (\<lambda>_. v))"
| "reg_store P_volum_reg v = upd_stat (volum_reg_update (\<lambda>_. v))"
| "reg_store P_rect_freq v = upd_stat (rect_freq_update (\<lambda>_. v))"
| "reg_store P_ms_status v = upd_stat (ms_status_update (\<lambda>_. v))"
| "reg_store P_bat_volt v = upd_stat (bat_volt_update (\<lambda>_. v))"
| "reg_store P_bat_volum v = upd_stat (bat_volum_update (\<lambda>_. v))"
| "reg_store P_bat_adc_raw v = upd_stat (bat_adc_raw_update (\<lambda>_. v))"
| "reg_store P_half_period v = upd_stat (half_period_update (\<lambda>_. v))"
| "reg_store P_mul_factor v = upd_stat (mul_factor_update (\<lambda>_. v))"
| "reg_store P_out_en v = upd_stat (out_en_update (\<lambda>_. v))"
| "reg_store P_freq_index v = upd_stat (freq_index_update (\<lambda>_. v))"
| "reg_store P_volum_index v = upd_stat (volum_index_update (\<lambda>_. v))"

text \<open>The pointers are distinct: a store changes what its own pointer reads, and nothing else.\<close>

lemma reg_load_store: "reg_load p (reg_store q v g) = (if p = q then v else reg_load p g)"
  by (cases p; cases q) (simp_all add: upd_conf_def upd_stat_def)

fun is_conf_ptr :: "reg_ptr \<Rightarrow> bool" where
  "is_conf_ptr p = (p \<in> {P_pwr_en, P_freq_set, P_volum_set, P_conf_rect_freq, P_phase_offset,
     P_volum_step, P_dac_offset, P_bat_up_lim, P_bat_low_lim, P_bat_mav_cnt})"

lemma stat_reg_store_conf [simp]: "is_conf_ptr p \<Longrightarrow> stat (reg_store p v g) = stat g"
  by (cases p) (simp_all add: upd_conf_def)

lemma conf_reg_store_stat [simp]: "\<not> is_conf_ptr p \<Longrightarrow> conf (reg_store p v g) = conf g"
  by (cases p) (simp_all add: upd_stat_def)

lemma wg_mode_reg_store [simp]: "wg_mode (conf (reg_store p v g)) = wg_mode (conf g)"
  by (cases p) (simp_all add: upd_conf_def upd_stat_def)

section \<open>Error codes and status bits\<close>

abbreviation (input) REGMAP_ERR_NOERR :: u16 where "REGMAP_ERR_NOERR \<equiv> 0"
abbreviation (input) REGMAP_ERR_ADDR_OR :: u16 where "REGMAP_ERR_ADDR_OR \<equiv> 1"
abbreviation (input) REGMAP_ERR_DATA_OR :: u16 where "REGMAP_ERR_DATA_OR \<equiv> 2"
abbreviation (input) REGMAP_ERR_PERM_OR :: u16 where "REGMAP_ERR_PERM_OR \<equiv> 3"
abbreviation (input) REGMAP_ERR_WR_OR :: u16 where "REGMAP_ERR_WR_OR \<equiv> 4"
abbreviation (input) REGMAP_ERR_CONFLICT_OR :: u16 where "REGMAP_ERR_CONFLICT_OR \<equiv> 5"

abbreviation (input) GBM_GPRS :: nat where "GBM_GPRS \<equiv> 0"
abbreviation (input) GBM_LINK :: nat where "GBM_LINK \<equiv> 1"
abbreviation (input) GBM_POUT :: nat where "GBM_POUT \<equiv> 2"
abbreviation (input) GBM_LOAD :: nat where "GBM_LOAD \<equiv> 3"

abbreviation (input) STAT_REG_MAP_NUM :: nat where "STAT_REG_MAP_NUM \<equiv> 16"
abbreviation (input) CONF_REG_MAP_NUM :: nat where "CONF_REG_MAP_NUM \<equiv> 16"
abbreviation (input) SOFTWARE_VER :: u16 where "SOFTWARE_VER \<equiv> 0x0202"
abbreviation (input) HARDWARE_VER :: u16 where "HARDWARE_VER \<equiv> 0x0200"

end
