(* ===== verification/Ieee_Float.thy ===== *)
theory Ieee_Float
  imports Complex_Main Prelude
begin

text \<open>
  The floating-point arithmetic of the code. A finite float is the rational number it stands
  for; every operation of the C code computes the exact rational result and rounds it to the
  format, to nearest with ties to even, as IEEE 754 and the compilers of this target do. A
  format has a precision \<open>p\<close> and a least exponent \<open>emin\<close>, so gradual underflow is part of the
  model. Values never come near the overflow threshold of either format (the largest quantity
  the firmware computes in floats is a counter frequency), so infinities are not modelled.
\<close>

section \<open>Binary logarithms\<close>

fun ilog2 :: "nat \<Rightarrow> nat" where
  "ilog2 n = (if n < 2 then 0 else Suc (ilog2 (n div 2)))"

declare ilog2.simps [simp del]

lemma ilog2_bounds: "0 < n \<Longrightarrow> 2 ^ ilog2 n \<le> n \<and> n < 2 ^ Suc (ilog2 n)"
proof (induction n rule: ilog2.induct)
  case (1 n)
  show ?case
  proof (cases "n < 2")
    case True
    with "1.prems" show ?thesis by (simp add: ilog2.simps [of n])
  next
    case False
    with "1.IH" have "2 ^ ilog2 (n div 2) \<le> n div 2 \<and> n div 2 < 2 ^ Suc (ilog2 (n div 2))" by simp
    with False show ?thesis by (auto simp: ilog2.simps [of n])
  qed
qed

definition rlog2 :: "rat \<Rightarrow> int" where
  "rlog2 x =
     (let (n, d) = quotient_of x;
          k = int (ilog2 (nat n)) - int (ilog2 (nat d))
      in if 2 powi k \<le> x then k else k - 1)"

lemma powi_add_rat: "(2 :: rat) powi (a + b) = 2 powi a * 2 powi b"
  by (simp add: power_int_add)

lemma powi_pos [simp]: "0 < (2 :: rat) powi k"
  by simp

lemma powi_mono_rat: "a \<le> b \<Longrightarrow> (2 :: rat) powi a \<le> 2 powi b"
  by (rule power_int_increasing) simp_all

lemma rlog2_bounds:
  assumes "0 < x"
  shows "2 powi rlog2 x \<le> x" "x < 2 powi (rlog2 x + 1)"
proof -
  obtain n d where q: "quotient_of x = (n, d)" by (cases "quotient_of x")
  have d: "0 < d" using quotient_of_denom_pos[OF q] .
  have x: "x = of_int n / of_int d" by (rule quotient_of_div[OF q])
  have n: "0 < n" using assms d x by (auto simp: zero_less_divide_iff)
  define a b where "a = ilog2 (nat n)" and "b = ilog2 (nat d)"
  have "2 ^ a \<le> nat n" "nat n < 2 ^ Suc a" "2 ^ b \<le> nat d" "nat d < 2 ^ Suc b"
    using ilog2_bounds[of "nat n"] ilog2_bounds[of "nat d"] n d by (simp_all add: a_def b_def)
  then have "int (2 ^ a) \<le> n" "n < int (2 ^ Suc a)" "int (2 ^ b) \<le> d" "d < int (2 ^ Suc b)"
    using n d by linarith+
  then have "(2 :: rat) ^ a \<le> of_int n" "of_int n < (2 :: rat) ^ Suc a"
    "(2 :: rat) ^ b \<le> of_int d" "of_int d < (2 :: rat) ^ Suc b"
    by (metis of_int_le_iff of_int_less_iff of_int_of_nat_eq of_nat_numeral of_nat_power)+
  note bds = this
  have dpos: "0 < (of_int d :: rat)" using d by simp
  have lo: "2 ^ a / 2 ^ Suc b < x"
    unfolding x using bds dpos by (intro frac_less2) simp_all
  have hi: "x < 2 ^ Suc a / 2 ^ b"
    unfolding x using bds dpos n by (intro frac_less) simp_all
  have e1: "(2 :: rat) ^ a / 2 ^ Suc b = 2 powi (int a - int b - 1)"
    by (simp add: power_int_diff)
  have e2: "(2 :: rat) ^ Suc a / 2 ^ b = 2 powi (int a - int b + 1)"
    by (simp add: power_int_diff power_int_add)
  have r: "rlog2 x = (if 2 powi (int a - int b) \<le> x then int a - int b else int a - int b - 1)"
    by (simp add: rlog2_def q a_def b_def)
  show "2 powi rlog2 x \<le> x" using lo unfolding r e1 by simp
  show "x < 2 powi (rlog2 x + 1)" using hi unfolding r e2 by simp
qed

section \<open>Rounding\<close>

definition round_half_even :: "rat \<Rightarrow> int" where
  "round_half_even x =
     (let f = \<lfloor>x\<rfloor>; r = x - of_int f
      in if r < 1 / 2 then f else if r > 1 / 2 then f + 1 else if even f then f else f + 1)"

definition fl :: "nat \<Rightarrow> int \<Rightarrow> rat \<Rightarrow> rat" where
  "fl p emin x =
     (if x = 0 then 0
      else (let e = max (rlog2 \<bar>x\<bar> - int p + 1) emin
            in of_int (round_half_even (x / 2 powi e)) * 2 powi e))"

definition fl32 :: "rat \<Rightarrow> rat" where
  "fl32 x = fl 24 (-149) x"

definition fl64 :: "rat \<Rightarrow> rat" where
  "fl64 x = fl 53 (-1074) x"

text \<open>Conversion to an unsigned integer of \<open>w\<close> bits truncates; out of range it is undefined.\<close>

definition c_trunc :: "rat \<Rightarrow> int" where
  "c_trunc x = (if 0 \<le> x then \<lfloor>x\<rfloor> else \<lceil>x\<rceil>)"

definition float_to_uint :: "nat \<Rightarrow> rat \<Rightarrow> int res" where
  "float_to_uint w x =
     (let t = c_trunc x in if 0 \<le> t \<and> t < 2 ^ w then Inr t else Inl Bad_Conversion)"

definition float_to_int :: "nat \<Rightarrow> rat \<Rightarrow> int res" where
  "float_to_int w x =
     (let t = c_trunc x
      in if - (2 ^ (w - 1)) \<le> t \<and> t < 2 ^ (w - 1) then Inr t else Inl Bad_Conversion)"

section \<open>Error bounds\<close>

lemma round_half_even_error: "\<bar>of_int (round_half_even x) - x\<bar> \<le> 1 / 2"
proof -
  define f where "f = \<lfloor>x\<rfloor>"
  have "of_int f \<le> x" "x < of_int f + 1" using floor_correct[of x] by (simp_all add: f_def)
  then show ?thesis
    unfolding round_half_even_def Let_def f_def [symmetric] by (auto simp: abs_le_iff field_simps)
qed

lemma fl_0 [simp]: "fl p emin 0 = 0" "fl32 0 = 0" "fl64 0 = 0"
  by (simp_all add: fl_def fl32_def fl64_def)

lemma fl_error:
  "\<bar>fl p emin x - x\<bar> \<le> \<bar>x\<bar> * 2 powi (- int p) + 2 powi (emin - 1)"
proof (cases "x = 0")
  case True
  then show ?thesis by simp
next
  case False
  then have x0: "0 < \<bar>x\<bar>" by simp
  define l where "l = rlog2 \<bar>x\<bar>"
  have lb: "2 powi l \<le> \<bar>x\<bar>" using rlog2_bounds[OF x0] by (simp add: l_def)
  define e where "e = max (l - int p + 1) emin"
  have flx: "fl p emin x = of_int (round_half_even (x / 2 powi e)) * 2 powi e"
    using False by (simp add: fl_def e_def l_def [symmetric] Let_def)
  have "\<bar>fl p emin x - x\<bar> = \<bar>of_int (round_half_even (x / 2 powi e)) - x / 2 powi e\<bar> * 2 powi e"
  proof -
    have "fl p emin x - x = (of_int (round_half_even (x / 2 powi e)) - x / 2 powi e) * 2 powi e"
      unfolding flx by (simp add: left_diff_distrib)
    then show ?thesis by (simp add: abs_mult)
  qed
  also have "\<dots> \<le> 1 / 2 * 2 powi e"
    by (rule mult_right_mono[OF round_half_even_error]) simp
  also have "\<dots> \<le> \<bar>x\<bar> * 2 powi (- int p) + 2 powi (emin - 1)"
  proof (cases "emin \<le> l - int p + 1")
    case True
    then have "(1 :: rat) / 2 * 2 powi e = 2 powi l * 2 powi (- int p)"
      by (simp add: e_def power_int_add power_int_diff power_int_minus field_simps)
    also have "\<dots> \<le> \<bar>x\<bar> * 2 powi (- int p)" by (rule mult_right_mono[OF lb]) simp
    finally show ?thesis using powi_pos[of "emin - 1"] by linarith
  next
    case False
    then have "(1 :: rat) / 2 * 2 powi e = 2 powi (emin - 1)"
      by (simp add: e_def power_int_diff)
    then show ?thesis by simp
  qed
  finally show ?thesis .
qed

lemma fl_error_le:
  assumes "(2 :: rat) powi (emin - 1) \<le> 2 powi (- int k)" "2 powi (- int p) = c" "2 powi (- int k) \<le> d"
  shows "\<bar>fl p emin x - x\<bar> \<le> \<bar>x\<bar> * c + d"
  using fl_error[of p emin x] assms by simp

text \<open>The bounds in the form the component proofs use: rationals, no powers.\<close>

lemma fl32_error: "\<bar>fl32 x - x\<bar> \<le> \<bar>x\<bar> * (1 / 16777216) + 1 / 100000000000000000000"
  unfolding fl32_def
proof (rule fl_error_le)
  show "(2 :: rat) powi (-149 - 1) \<le> 2 powi (- int 70)" by (rule powi_mono_rat) simp
qed (simp_all add: power_int_def power_one_over)

lemma fl64_error: "\<bar>fl64 x - x\<bar> \<le> \<bar>x\<bar> * (1 / 9007199254740992) + 1 / 100000000000000000000"
  unfolding fl64_def
proof (rule fl_error_le)
  show "(2 :: rat) powi (-1074 - 1) \<le> 2 powi (- int 70)" by (rule powi_mono_rat) simp
qed (simp_all add: power_int_def power_one_over)

lemma fl32_le: "fl32 x \<le> x + \<bar>x\<bar> * (1 / 16777216) + 1 / 100000000000000000000"
  using fl32_error[of x] by (simp add: abs_le_iff)

lemma fl32_ge: "x - \<bar>x\<bar> * (1 / 16777216) - 1 / 100000000000000000000 \<le> fl32 x"
  using fl32_error[of x] by (simp add: abs_le_iff)

lemma round_half_even_nonneg: "0 \<le> x \<Longrightarrow> 0 \<le> round_half_even x"
  by (simp add: round_half_even_def Let_def)

lemma fl_nonneg: "0 \<le> x \<Longrightarrow> 0 \<le> fl p emin x"
  by (simp add: fl_def Let_def round_half_even_nonneg)

lemma fl32_nonneg: "0 \<le> x \<Longrightarrow> 0 \<le> fl32 x"
  by (simp add: fl32_def fl_nonneg)

lemma fl64_nonneg: "0 \<le> x \<Longrightarrow> 0 \<le> fl64 x"
  by (simp add: fl64_def fl_nonneg)

text \<open>The error of a product with a scale factor, for chains of roundings.\<close>

lemma fl32_error_scaled:
  assumes "0 \<le> x" "0 \<le> k"
  shows "\<bar>fl32 x * k - x * k\<bar> \<le> x * k * (1 / 16777216) + k * (1 / 100000000000000000000)"
proof -
  have "\<bar>fl32 x * k - x * k\<bar> = \<bar>fl32 x - x\<bar> * k"
    using assms(2) by (simp add: abs_mult flip: left_diff_distrib)
  also have "\<dots> \<le> (\<bar>x\<bar> * (1 / 16777216) + 1 / 100000000000000000000) * k"
    by (rule mult_right_mono[OF fl32_error assms(2)])
  also have "\<dots> = x * k * (1 / 16777216) + k * (1 / 100000000000000000000)"
    using assms(1) by (simp add: algebra_simps)
  finally show ?thesis .
qed

section \<open>Exactness\<close>

lemma round_half_even_int: "round_half_even (of_int k) = k"
  by (simp add: round_half_even_def)

lemma rlog2_upper: "0 < x \<Longrightarrow> x < 2 powi k \<Longrightarrow> rlog2 x < k"
  using rlog2_bounds(1)[of x] powi_mono_rat[of k "rlog2 x"] by linarith

text \<open>Integers with at most \<open>p\<close> bits are represented exactly.\<close>

lemma fl_int:
  assumes "\<bar>m\<bar> < 2 ^ p" "emin \<le> 0"
  shows "fl p emin (of_int m) = of_int m"
proof (cases "m = 0")
  case True
  then show ?thesis by simp
next
  case False
  have "\<bar>of_int m :: rat\<bar> < 2 powi int p"
    using assms(1) by (simp add: power_int_of_nat flip: of_int_abs)
  then have "rlog2 \<bar>of_int m\<bar> < int p" using False by (intro rlog2_upper) simp_all
  then have "max (rlog2 \<bar>of_int m\<bar> - int p + 1) emin \<le> 0" using assms(2) by simp
  then obtain k where e: "max (rlog2 \<bar>of_int m\<bar> - int p + 1) emin = - int k"
    by (metis nonpos_int_cases)
  have "of_int m / 2 powi (- int k) = (of_int (m * 2 ^ k) :: rat)"
    by (simp add: power_int_minus divide_inverse)
  then have "round_half_even (of_int m / 2 powi (- int k)) = m * 2 ^ k"
    by (simp only: round_half_even_int)
  then show ?thesis
    using False by (simp add: fl_def e Let_def power_int_minus)
qed

lemma fl32_int: "\<bar>m\<bar> < 16777216 \<Longrightarrow> fl32 (of_int m) = of_int m"
  by (simp add: fl32_def fl_int)

lemma fl32_numeral [simp]: "numeral k < (16777216 :: int) \<Longrightarrow> fl32 (numeral k) = numeral k"
  using fl32_int[of "numeral k"] by simp

end
