(* ===== verification/Hwtimer.thy ===== *)
theory Hwtimer
  imports Ieee_Float
begin

text \<open>
  The hardware timer device: the device layer of RT-Thread (\<open>rt-thread/src/device.c\<close>) for this
  device, the timer framework (\<open>rt-thread/components/drivers/hwtimer/hwtimer.c\<close>), the STM32
  driver behind it (\<open>libraries/HAL_Drivers/drv_hwtimer.c\<close>) and the HAL calls the driver makes on
  TIM2. The period of the output waveform is what \<open>timeout_calc\<close> makes of a time value, so its
  float arithmetic is modelled step by step.
\<close>

section \<open>State\<close>

text \<open>The registers of TIM2 the driver touches; the counter is 16 bits wide on this part.\<close>

record tim_regs =
  tim_psc :: u16
  tim_arr :: u16
  tim_cnt :: u16
  tim_dir_down :: bool   \<comment> \<open>CR1.DIR\<close>
  tim_opm :: bool        \<comment> \<open>CR1.OPM\<close>
  tim_urs :: bool        \<comment> \<open>CR1.URS\<close>
  tim_cen :: bool        \<comment> \<open>CR1.CEN\<close>
  tim_uie :: bool        \<comment> \<open>DIER.UIE\<close>
  tim_trigger :: bool    \<comment> \<open>SMCR.SMS selects the trigger mode\<close>
  tim_ccer :: bool       \<comment> \<open>a capture/compare channel is enabled\<close>
  tim_irq_en :: bool     \<comment> \<open>the NVIC line of TIM2\<close>
  tim_pclk1 :: int       \<comment> \<open>\<open>HAL_RCC_GetPCLK1Freq\<close>\<close>

record rt_hwtimer_info =
  maxfreq :: int
  minfreq :: int
  maxcnt :: int
  cntmode :: int

abbreviation (input) HWTIMER_CNTMODE_UP :: int where "HWTIMER_CNTMODE_UP \<equiv> 1"
abbreviation (input) HWTIMER_CNTMODE_DW :: int where "HWTIMER_CNTMODE_DW \<equiv> 2"
abbreviation (input) HWTIMER_MODE_ONESHOT :: int where "HWTIMER_MODE_ONESHOT \<equiv> 1"
abbreviation (input) HWTIMER_MODE_PERIOD :: int where "HWTIMER_MODE_PERIOD \<equiv> 2"

definition tim_dev_info :: rt_hwtimer_info where
  "tim_dev_info =
     \<lparr>maxfreq = 1000000, minfreq = 2000, maxcnt = 65535, cntmode = HWTIMER_CNTMODE_UP\<rparr>"

text \<open>The one callback the firmware installs.\<close>

datatype rx_ind = Dac_Cb

record rt_hwtimer_t =
  dev_activated :: bool
  dev_open :: bool
  dev_ref_count :: u8
  rx_indicate :: "rx_ind option"
  hwt_info :: rt_hwtimer_info
  hwt_freq :: int
  hwt_overflow :: int
  hwt_period_sec :: rat
  hwt_cycles :: int
  hwt_reload :: int
  hwt_mode :: int
  tim :: tim_regs

record rt_hwtimerval_t =
  tv_sec :: int
  tv_usec :: int

text \<open>The registers after a reset, for a given peripheral clock.\<close>

definition tim_reset :: "int \<Rightarrow> tim_regs" where
  "tim_reset pclk1 =
     \<lparr>tim_psc = 0, tim_arr = 0xFFFF, tim_cnt = 0, tim_dir_down = False, tim_opm = False,
      tim_urs = False, tim_cen = False, tim_uie = False, tim_trigger = False, tim_ccer = False,
      tim_irq_en = False, tim_pclk1 = pclk1\<rparr>"

section \<open>The STM32 driver\<close>

definition upd_tim :: "(tim_regs \<Rightarrow> tim_regs) \<Rightarrow> rt_hwtimer_t \<Rightarrow> rt_hwtimer_t" where
  "upd_tim f t = t\<lparr>tim := f (tim t)\<rparr>"

text \<open>\<open>TIM_Base_SetConfig\<close>: an update event reloads the prescaler and clears the counter.\<close>

definition TIM_Base_SetConfig :: "int \<Rightarrow> int \<Rightarrow> bool \<Rightarrow> tim_regs \<Rightarrow> tim_regs" where
  "TIM_Base_SetConfig period prescaler down r =
     r\<lparr>tim_dir_down := down, tim_arr := to_u16 period, tim_psc := to_u16 prescaler, tim_cnt := 0\<rparr>"

definition HAL_TIM_Base_Start_IT :: "tim_regs \<Rightarrow> tim_regs" where
  "HAL_TIM_Base_Start_IT r =
     (let r1 = r\<lparr>tim_uie := True\<rparr> in if \<not> tim_trigger r1 then r1\<lparr>tim_cen := True\<rparr> else r1)"

definition HAL_TIM_Base_Stop_IT :: "tim_regs \<Rightarrow> tim_regs" where
  "HAL_TIM_Base_Stop_IT r =
     (let r1 = r\<lparr>tim_uie := False\<rparr> in if \<not> tim_ccer r1 then r1\<lparr>tim_cen := False\<rparr> else r1)"

definition timer_init :: "rt_hwtimer_t \<Rightarrow> u32 \<Rightarrow> rt_hwtimer_t" where
  "timer_init t state =
     (if state \<noteq> 0
      then let prescaler_value = (tim_pclk1 (tim t) * 2 mod 2 ^ 32) div 10000 - 1
           in upd_tim (\<lambda>r. (TIM_Base_SetConfig (10000 - 1) prescaler_value
                              (cntmode (hwt_info t) \<noteq> HWTIMER_CNTMODE_UP) r)
                             \<lparr>tim_irq_en := True, tim_urs := True\<rparr>) t
      else t)"

definition timer_start :: "rt_hwtimer_t \<Rightarrow> int \<Rightarrow> int \<Rightarrow> int \<times> rt_hwtimer_t" where
  "timer_start t cnt opmode =
     (RT_EOK,
      upd_tim (\<lambda>r. HAL_TIM_Base_Start_IT
                 (r\<lparr>tim_cnt := 0, tim_arr := to_u16 (cnt - 1),
                    tim_opm := (opmode = HWTIMER_MODE_ONESHOT)\<rparr>)) t)"

definition timer_stop :: "rt_hwtimer_t \<Rightarrow> rt_hwtimer_t" where
  "timer_stop = upd_tim (\<lambda>r. (HAL_TIM_Base_Stop_IT r)\<lparr>tim_cnt := 0\<rparr>)"

text \<open>The only command of \<open>timer_ctrl\<close> is \<open>HWTIMER_CTRL_FREQ_SET\<close>; \<open>val\<close> has 16 bits.\<close>

definition timer_ctrl_freq_set :: "rt_hwtimer_t \<Rightarrow> int \<Rightarrow> (int \<times> rt_hwtimer_t) res" where
  "timer_ctrl_freq_set t freq =
     bindE (c_div (tim_pclk1 (tim t) * 2 mod 2 ^ 32) freq)
       (\<lambda>q. let val = uint (to_u16 q)
            in Inr (RT_EOK, upd_tim (\<lambda>r. r\<lparr>tim_psc := to_u16 (val - 1), tim_cnt := 0\<rparr>) t))"

definition timer_counter_get :: "rt_hwtimer_t \<Rightarrow> int" where
  "timer_counter_get t = uint (tim_cnt (tim t))"

section \<open>The timer framework\<close>

text \<open>
  One pass of the loop of \<open>timeout_calc\<close> for a divisor \<open>i\<close>: the overflow period that divides the
  time value \<open>tv\<close> by \<open>i\<close>, and the deviation of \<open>i\<close> such periods from \<open>tv\<close>.
\<close>

definition tc_timeout :: "rat \<Rightarrow> int \<Rightarrow> rat" where
  "tc_timeout tv i = fl32 (tv / fl32 (of_int i))"

definition tc_counter :: "rat \<Rightarrow> rat \<Rightarrow> int res" where
  "tc_counter fr timeout = float_to_uint 32 (fl32 (timeout * fr))"

definition tc_devi :: "rat \<Rightarrow> rat \<Rightarrow> int \<Rightarrow> int \<Rightarrow> rat" where
  "tc_devi tv fr counter i =
     fl32 (tv - fl32 (fl32 (fl32 (of_int counter) / fr) * fl32 (of_int i)))"

text \<open>
  The loop \<open>for (i = 1; i > 0; i ++)\<close>. It ends by a break, or when the increment of the
  \<open>int\<close> overflows. Leaving it with \<open>index = 0\<close> makes the timeout \<open>tv / 0\<close>, an infinity, and the
  conversion of that to the counter after the loop is undefined.
\<close>

function timeout_loop ::
  "rat \<Rightarrow> rat \<Rightarrow> rat \<Rightarrow> rat \<Rightarrow> int \<Rightarrow> int \<Rightarrow> (int \<times> rat) res" where
  "timeout_loop overflow tv fr devi_min index i =
     (if i \<le> 0 \<or> 2147483647 < i then Inl Signed_Overflow
      else let timeout = tc_timeout tv i in
        if timeout \<le> overflow
        then bindE (tc_counter fr timeout) (\<lambda>counter.
               let devi = tc_devi tv fr counter i in
               if devi > devi_min
               then if index = 0 then Inl Bad_Conversion
                    else Inr (index, tc_timeout tv index)
               else if devi = 0 then Inr (i, timeout)
               else if devi < devi_min then timeout_loop overflow tv fr devi i (i + 1)
               else timeout_loop overflow tv fr devi_min index (i + 1))
        else timeout_loop overflow tv fr devi_min index (i + 1))"
  by pat_completeness auto
termination
  by (relation "measure (\<lambda>(_, _, _, _, _, i). nat (2147483648 - i))") auto

declare timeout_loop.simps [simp del]

text \<open>A zero frequency makes every quotient an infinity and the counter a NaN.\<close>

definition timeout_calc :: "rt_hwtimer_t \<Rightarrow> rt_hwtimerval_t \<Rightarrow> (int \<times> rt_hwtimer_t) res" where
  "timeout_calc t v =
     (if hwt_freq t = 0 then Inl Bad_Conversion
      else let fr = fl32 (of_int (hwt_freq t));
               overflow = fl32 (fl32 (of_int (maxcnt (hwt_info t))) / fr);
               tvs = fl32 (fl32 (of_int (tv_sec v)) + fl32 (fl32 (of_int (tv_usec v)) / fl32 1000000));
               period = fl32 (1 / fr)
           in bindE (if tvs < period then Inr (0, period)
                     else timeout_loop overflow tvs fr 1 0 1)
                (\<lambda>(i, timeout).
                   bindE (tc_counter fr timeout)
                     (\<lambda>counter. Inr (counter,
                        t\<lparr>hwt_cycles := i, hwt_reload := i, hwt_period_sec := timeout\<rparr>))))"

definition rt_hwtimer_init :: "rt_hwtimer_t \<Rightarrow> int \<times> rt_hwtimer_t" where
  "rt_hwtimer_init t =
     (let t1 = t\<lparr>hwt_freq := (if 1000000 \<le> maxfreq (hwt_info t) \<and> 1000000 \<ge> minfreq (hwt_info t)
                              then 1000000 else minfreq (hwt_info t)),
                 hwt_mode := HWTIMER_MODE_ONESHOT, hwt_cycles := 0, hwt_overflow := 0\<rparr>
      in (RT_EOK, timer_init t1 1))"

text \<open>\<open>rt_hwtimer_open\<close> ignores what the driver's control operation returns.\<close>

definition rt_hwtimer_open :: "rt_hwtimer_t \<Rightarrow> (int \<times> rt_hwtimer_t) res" where
  "rt_hwtimer_open t =
     bindE (timer_ctrl_freq_set t (uint (to_u32 (hwt_freq t)))) (\<lambda>(_, t1). Inr (RT_EOK, t1))"

definition rt_hwtimer_close :: "rt_hwtimer_t \<Rightarrow> int \<times> rt_hwtimer_t" where
  "rt_hwtimer_close t = (RT_EOK, (timer_init t 0)\<lparr>dev_activated := False, rx_indicate := None\<rparr>)"

text \<open>The bytes read are a prefix of the time value.\<close>

definition rt_hwtimer_read :: "rt_hwtimer_t \<Rightarrow> int \<Rightarrow> (int \<times> rt_hwtimerval_t) res" where
  "rt_hwtimer_read t sz =
     (let fr = fl32 (of_int (hwt_freq t)); cnt0 = timer_counter_get t in
      bindE (if cntmode (hwt_info t) = HWTIMER_CNTMODE_DW
             then float_to_uint 32 (fl32 (fl32 (fr * hwt_period_sec t) - fl32 (of_int cnt0)))
             else Inr cnt0) (\<lambda>cnt.
      let s = fl32 (fl32 (fl32 (of_int (hwt_overflow t)) * hwt_period_sec t)
                    + fl32 (fl32 (of_int cnt) / fr)) in
      bindE (float_to_int 32 s) (\<lambda>sec.
      bindE (float_to_int 32 (fl32 (fl32 (s - fl32 (of_int sec)) * fl32 1000000)))
        (\<lambda>usec. Inr (if sz > 8 then 8 else sz, \<lparr>tv_sec = sec, tv_usec = usec\<rparr>)))))"

text \<open>\<open>sizeof (rt_hwtimerval_t)\<close> is 8.\<close>

definition rt_hwtimer_write ::
  "rt_hwtimer_t \<Rightarrow> rt_hwtimerval_t \<Rightarrow> int \<Rightarrow> (int \<times> rt_hwtimer_t) res" where
  "rt_hwtimer_write t v sz =
     (if sz \<noteq> 8 then Inr (0, t)
      else bindE (timeout_calc ((timer_stop t)\<lparr>hwt_overflow := 0\<rparr>) v)
             (\<lambda>(cnt, t1).
                let opm = (if hwt_cycles t1 \<le> 1 \<and> hwt_mode t1 = HWTIMER_MODE_ONESHOT
                           then HWTIMER_MODE_ONESHOT else HWTIMER_MODE_PERIOD);
                    (r, t2) = timer_start t1 cnt opm
                in Inr (if r \<noteq> RT_EOK then 0 else sz, t2)))"

text \<open>
  The commands with what their argument points to (\<open>None\<close> for a null pointer).
  \<open>HWTIMER_CTRL_INFO_GET\<close> copies the information into the argument and then falls through into
  \<open>HWTIMER_CTRL_MODE_SET\<close>, which reads a mode from the start of the copy, \<open>maxfreq\<close>.
\<close>

datatype hwtimer_cmd =
    Ctrl_Freq_Set "int option"
  | Ctrl_Stop
  | Ctrl_Info_Get "rt_hwtimer_info option"
  | Ctrl_Mode_Set "int option"
  | Ctrl_Other int

definition hwtimer_mode_set :: "rt_hwtimer_t \<Rightarrow> int \<Rightarrow> int \<times> rt_hwtimer_t" where
  "hwtimer_mode_set t m =
     (if m \<noteq> HWTIMER_MODE_ONESHOT \<and> m \<noteq> HWTIMER_MODE_PERIOD then (- RT_ERROR, t)
      else (RT_EOK, t\<lparr>hwt_mode := m\<rparr>))"

fun rt_hwtimer_control ::
  "rt_hwtimer_t \<Rightarrow> hwtimer_cmd \<Rightarrow> (int \<times> hwtimer_cmd \<times> rt_hwtimer_t) res" where
  "rt_hwtimer_control t Ctrl_Stop = Inr (RT_EOK, Ctrl_Stop, timer_stop t)"
| "rt_hwtimer_control t (Ctrl_Freq_Set None) = Inr (- RT_EEMPTY, Ctrl_Freq_Set None, t)"
| "rt_hwtimer_control t (Ctrl_Freq_Set (Some f)) =
     (if f > uint (to_u32 (maxfreq (hwt_info t))) \<or> f < uint (to_u32 (minfreq (hwt_info t)))
      then Inr (- RT_ERROR, Ctrl_Freq_Set (Some f), t)
      else bindE (timer_ctrl_freq_set t f) (\<lambda>(r, t1).
             Inr (r, Ctrl_Freq_Set (Some f), if r = RT_EOK then t1\<lparr>hwt_freq := f\<rparr> else t1)))"
| "rt_hwtimer_control t (Ctrl_Info_Get None) = Inr (- RT_EEMPTY, Ctrl_Info_Get None, t)"
| "rt_hwtimer_control t (Ctrl_Info_Get (Some _)) =
     (let copied = hwt_info t; (r, t1) = hwtimer_mode_set t (maxfreq copied)
      in Inr (r, Ctrl_Info_Get (Some copied), t1))"
| "rt_hwtimer_control t (Ctrl_Mode_Set None) = Inr (- RT_EEMPTY, Ctrl_Mode_Set None, t)"
| "rt_hwtimer_control t (Ctrl_Mode_Set (Some m)) =
     (let (r, t1) = hwtimer_mode_set t m in Inr (r, Ctrl_Mode_Set (Some m), t1))"
| "rt_hwtimer_control t (Ctrl_Other c) = Inr (- RT_ENOSYS, Ctrl_Other c, t)"

text \<open>
  The interrupt service routine returns the timer and the callback the framework calls next, if
  any.
\<close>

definition rt_device_hwtimer_isr :: "rt_hwtimer_t \<Rightarrow> (rt_hwtimer_t \<times> rx_ind option) res" where
  "rt_device_hwtimer_isr t =
     (if hwt_overflow t = 2147483647 then Inl Signed_Overflow
      else let t1 = t\<lparr>hwt_overflow := hwt_overflow t + 1\<rparr>;
               t2 = (if hwt_cycles t1 \<noteq> 0 then t1\<lparr>hwt_cycles := hwt_cycles t1 - 1\<rparr> else t1)
           in if hwt_cycles t2 = 0
              then let t3 = t2\<lparr>hwt_cycles := hwt_reload t2\<rparr>;
                       t4 = (if hwt_mode t3 = HWTIMER_MODE_ONESHOT then timer_stop t3 else t3)
                   in Inr (t4, rx_indicate t4)
              else Inr (t2, None))"

section \<open>The device layer\<close>

text \<open>
  The device is registered with \<open>RT_DEVICE_FLAG_STANDALONE\<close>, so a second open fails. The
  reference count is an 8-bit counter whose wrap-around is asserted against.
\<close>

definition rt_hwtimer_registered :: "tim_regs \<Rightarrow> rt_hwtimer_t" where
  "rt_hwtimer_registered r =
     \<lparr>dev_activated = False, dev_open = False, dev_ref_count = 0, rx_indicate = None,
      hwt_info = tim_dev_info, hwt_freq = 0, hwt_overflow = 0, hwt_period_sec = 0,
      hwt_cycles = 0, hwt_reload = 0, hwt_mode = 0, tim = r\<rparr>"

definition rt_device_open :: "rt_hwtimer_t \<Rightarrow> (int \<times> rt_hwtimer_t) res" where
  "rt_device_open t =
     (let (r, t1) = (if \<not> dev_activated t
                     then let (r0, t0) = rt_hwtimer_init t
                          in (r0, if r0 = RT_EOK then t0\<lparr>dev_activated := True\<rparr> else t0)
                     else (RT_EOK, t)) in
      if r \<noteq> RT_EOK then Inr (r, t1)
      else if dev_open t1 then Inr (- RT_EBUSY, t1)
      else bindE (rt_hwtimer_open t1) (\<lambda>(r2, t2).
        if r2 = RT_EOK \<or> r2 = - RT_ENOSYS
        then let t3 = t2\<lparr>dev_open := True, dev_ref_count := dev_ref_count t2 + 1\<rparr>
             in bindE (assertE (dev_ref_count t3 \<noteq> 0)) (\<lambda>_. Inr (r2, t3))
        else Inr (r2, t2)))"

definition rt_device_close :: "rt_hwtimer_t \<Rightarrow> int \<times> rt_hwtimer_t" where
  "rt_device_close t =
     (if dev_ref_count t = 0 then (- RT_ERROR, t)
      else let t1 = t\<lparr>dev_ref_count := dev_ref_count t - 1\<rparr>
           in if dev_ref_count t1 \<noteq> 0 then (RT_EOK, t1)
              else let (r, t2) = rt_hwtimer_close t1
                   in (r, if r = RT_EOK \<or> r = - RT_ENOSYS then t2\<lparr>dev_open := False\<rparr> else t2))"

text \<open>A read that fails leaves the buffer alone.\<close>

definition rt_device_read :: "rt_hwtimer_t \<Rightarrow> int \<Rightarrow> (int \<times> rt_hwtimerval_t option) res" where
  "rt_device_read t sz =
     (if dev_ref_count t = 0 then Inr (0, None)
      else bindE (rt_hwtimer_read t sz) (\<lambda>(n, v). Inr (n, Some v)))"

definition rt_device_write ::
  "rt_hwtimer_t \<Rightarrow> rt_hwtimerval_t \<Rightarrow> int \<Rightarrow> (int \<times> rt_hwtimer_t) res" where
  "rt_device_write t v sz =
     (if dev_ref_count t = 0 then Inr (0, t) else rt_hwtimer_write t v sz)"

definition rt_device_control ::
  "rt_hwtimer_t \<Rightarrow> hwtimer_cmd \<Rightarrow> (int \<times> hwtimer_cmd \<times> rt_hwtimer_t) res" where
  "rt_device_control t cmd = rt_hwtimer_control t cmd"

definition rt_device_set_rx_indicate :: "rt_hwtimer_t \<Rightarrow> rx_ind option \<Rightarrow> rt_hwtimer_t" where
  "rt_device_set_rx_indicate t cb = t\<lparr>rx_indicate := cb\<rparr>"

end
