(* ===== verification/Board.thy ===== *)
theory Board
  imports Gpio Sys_Conf Hwtimer
begin

text \<open>
  The state of the running firmware: the global registers \<open>g_sys\<close>, the peripherals the
  application drives (GPIO, the timer device on TIM2, the DAC, the ADC) and the static variables
  of the application's modules. An operation of the application takes this record and returns it
  updated.
\<close>

text \<open>A moving average (\<open>bat_st\<close> of \<open>applications/bat_drv.c\<close>).\<close>

record bat_st =
  mav_buffer :: "u16 list"
  mav_cnt :: u16
  accum_sum :: u32
  buffer_ff :: u16

text \<open>
  The ADC is an input of the firmware: \<open>w_adc\<close> is what the data register holds after a
  conversion of a channel. \<open>w_adc_on\<close> is \<open>CR2.ADON\<close>; the converter is switched on by a
  conversion as well.
\<close>

record world =
  w_sys :: sys_reg_st
  w_gpio :: gpio_regs
  w_tim :: rt_hwtimer_t
  w_tim_found :: bool        \<comment> \<open>\<open>timer2\<close> is registered\<close>
  w_hw_dev :: bool           \<comment> \<open>\<open>hw_dev\<close> of \<open>dac_drv.c\<close> is not null\<close>
  w_dac_en :: bool           \<comment> \<open>DAC channel 1 enabled\<close>
  w_dac_dhr :: u32           \<comment> \<open>\<open>DHR12R1\<close>, 12 bits\<close>
  w_dac_boff :: bool         \<comment> \<open>DAC output buffer of channel 1 off\<close>
  w_rect_flag :: u16         \<comment> \<open>\<open>rect_flag\<close> of \<open>dac_cb\<close>\<close>
  w_bat_reg :: u8            \<comment> \<open>\<open>bat_reg\<close> of \<open>set_bat_led\<close>\<close>
  w_adc :: "u32 \<Rightarrow> u16"
  w_adc_on :: bool
  w_adc_found :: bool        \<comment> \<open>\<open>adc1\<close> is registered\<close>
  w_adc_device :: bool       \<comment> \<open>\<open>adc_device\<close> of \<open>bat_drv.c\<close> is not null\<close>
  w_bat_inst :: bat_st
  w_temp_inst :: bat_st
  w_bitmap_reg :: u8         \<comment> \<open>statics of \<open>pb_sts_update\<close>\<close>
  w_stage_reg :: u8
  w_pb_timer :: bool         \<comment> \<open>the periodic timer \<open>tim_pb\<close> runs\<close>
  w_slept :: nat             \<comment> \<open>ticks the callers have slept\<close>

definition upd_sys :: "(sys_reg_st \<Rightarrow> sys_reg_st) \<Rightarrow> world \<Rightarrow> world" where
  "upd_sys f w = w\<lparr>w_sys := f (w_sys w)\<rparr>"

definition upd_gpio :: "(gpio_regs \<Rightarrow> gpio_regs) \<Rightarrow> world \<Rightarrow> world" where
  "upd_gpio f w = w\<lparr>w_gpio := f (w_gpio w)\<rparr>"

definition set_stat :: "(status_st \<Rightarrow> status_st) \<Rightarrow> world \<Rightarrow> world" where
  "set_stat f = upd_sys (upd_stat f)"

abbreviation (input) w_stat :: "world \<Rightarrow> status_st" where "w_stat w \<equiv> stat (w_sys w)"
abbreviation (input) w_conf :: "world \<Rightarrow> config_st" where "w_conf w \<equiv> conf (w_sys w)"

named_theorems world_upd

lemmas [world_upd] = upd_sys_def upd_gpio_def set_stat_def upd_stat_def upd_conf_def

text \<open>\<open>rt_thread_delay\<close> suspends the caller; the model, whose state has no threads, counts the
  ticks and goes on.\<close>

definition rt_thread_delay :: "nat \<Rightarrow> world \<Rightarrow> world" where
  "rt_thread_delay n w = w\<lparr>w_slept := w_slept w + n\<rparr>"

declare rt_thread_delay_def [world_upd]

end
