(* ===== verification/Led_Drv.thy ===== *)
theory Led_Drv
  imports Gpio Sys_Conf
begin

text \<open>
  The LED driver (\<open>applications/led_drv.c\<close>): the battery bar, the volume and frequency
  indicators and the two status LEDs. Every LED is active low. Each branch of the source's
  switches is the list of its \<open>rt_pin_write\<close> calls in their order; \<open>bat_reg\<close> is the static
  variable that makes the last battery LED blink at 0.
\<close>

section \<open>Pins\<close>

abbreviation (input) LED_STS :: int where "LED_STS \<equiv> GET_PIN GPIOB 3"
abbreviation (input) LED_COM :: int where "LED_COM \<equiv> GET_PIN GPIOB 4"
abbreviation (input) LED_BAT0 :: int where "LED_BAT0 \<equiv> GET_PIN GPIOC 0"
abbreviation (input) LED_BAT1 :: int where "LED_BAT1 \<equiv> GET_PIN GPIOC 1"
abbreviation (input) LED_BAT2 :: int where "LED_BAT2 \<equiv> GET_PIN GPIOC 2"
abbreviation (input) LED_BAT3 :: int where "LED_BAT3 \<equiv> GET_PIN GPIOC 3"
abbreviation (input) LED_BAT4 :: int where "LED_BAT4 \<equiv> GET_PIN GPIOC 4"
abbreviation (input) LED_BAT5 :: int where "LED_BAT5 \<equiv> GET_PIN GPIOC 5"
abbreviation (input) LED_BAT6 :: int where "LED_BAT6 \<equiv> GET_PIN GPIOC 6"
abbreviation (input) LED_BAT7 :: int where "LED_BAT7 \<equiv> GET_PIN GPIOC 7"
abbreviation (input) LED_BAT8 :: int where "LED_BAT8 \<equiv> GET_PIN GPIOC 8"
abbreviation (input) LED_BAT9 :: int where "LED_BAT9 \<equiv> GET_PIN GPIOC 9"
abbreviation (input) LED_F0 :: int where "LED_F0 \<equiv> GET_PIN GPIOC 10"
abbreviation (input) LED_F1 :: int where "LED_F1 \<equiv> GET_PIN GPIOC 11"
abbreviation (input) LED_F2 :: int where "LED_F2 \<equiv> GET_PIN GPIOC 12"
abbreviation (input) LED_F3 :: int where "LED_F3 \<equiv> GET_PIN GPIOA 3"
abbreviation (input) LED_P0 :: int where "LED_P0 \<equiv> GET_PIN GPIOA 5"
abbreviation (input) LED_P1 :: int where "LED_P1 \<equiv> GET_PIN GPIOA 6"
abbreviation (input) LED_P2 :: int where "LED_P2 \<equiv> GET_PIN GPIOA 7"
abbreviation (input) LED_P3 :: int where "LED_P3 \<equiv> GET_PIN GPIOA 8"
abbreviation (input) LED_P4 :: int where "LED_P4 \<equiv> GET_PIN GPIOB 12"
abbreviation (input) LED_P5 :: int where "LED_P5 \<equiv> GET_PIN GPIOB 2"
abbreviation (input) LED_P6 :: int where "LED_P6 \<equiv> GET_PIN GPIOB 1"
abbreviation (input) LED_P7 :: int where "LED_P7 \<equiv> GET_PIN GPIOB 0"
abbreviation (input) FAN_CTRL :: int where "FAN_CTRL \<equiv> GET_PIN GPIOA 12"

section \<open>Indicators\<close>

definition bat_led_blink :: "u8 \<Rightarrow> gpio_regs \<Rightarrow> u8 \<times> gpio_regs" where
  "bat_led_blink bat_reg g =
     (if bat_reg = 0 then (1, pin_writes
     [(LED_BAT0, PIN_HIGH), (LED_BAT1, PIN_HIGH), (LED_BAT2, PIN_HIGH), (LED_BAT3, PIN_HIGH),
      (LED_BAT4, PIN_HIGH), (LED_BAT5, PIN_HIGH), (LED_BAT6, PIN_HIGH), (LED_BAT7, PIN_HIGH),
      (LED_BAT8, PIN_HIGH), (LED_BAT9, PIN_LOW)] g)
      else (0, pin_writes
     [(LED_BAT0, PIN_HIGH), (LED_BAT1, PIN_HIGH), (LED_BAT2, PIN_HIGH), (LED_BAT3, PIN_HIGH),
      (LED_BAT4, PIN_HIGH), (LED_BAT5, PIN_HIGH), (LED_BAT6, PIN_HIGH), (LED_BAT7, PIN_HIGH),
      (LED_BAT8, PIN_HIGH), (LED_BAT9, PIN_HIGH)] g))"

definition bat_led_bars :: "u16 \<Rightarrow> (int \<times> int) list" where
  "bat_led_bars n =
  (    if n = 1 then
     [(LED_BAT0, PIN_HIGH), (LED_BAT1, PIN_HIGH), (LED_BAT2, PIN_HIGH), (LED_BAT3, PIN_HIGH),
      (LED_BAT4, PIN_HIGH), (LED_BAT5, PIN_HIGH), (LED_BAT6, PIN_HIGH), (LED_BAT7, PIN_HIGH),
      (LED_BAT8, PIN_HIGH), (LED_BAT9, PIN_LOW)]
  else if n = 2 then
     [(LED_BAT0, PIN_HIGH), (LED_BAT1, PIN_HIGH), (LED_BAT2, PIN_HIGH), (LED_BAT3, PIN_HIGH),
      (LED_BAT4, PIN_HIGH), (LED_BAT5, PIN_HIGH), (LED_BAT6, PIN_HIGH), (LED_BAT7, PIN_HIGH),
      (LED_BAT8, PIN_LOW), (LED_BAT9, PIN_LOW)]
  else if n = 3 then
     [(LED_BAT0, PIN_HIGH), (LED_BAT1, PIN_HIGH), (LED_BAT2, PIN_HIGH), (LED_BAT3, PIN_HIGH),
      (LED_BAT4, PIN_HIGH), (LED_BAT5, PIN_HIGH), (LED_BAT6, PIN_HIGH), (LED_BAT7, PIN_LOW),
      (LED_BAT8, PIN_LOW), (LED_BAT9, PIN_LOW)]
  else if n = 4 then
     [(LED_BAT0, PIN_HIGH), (LED_BAT1, PIN_HIGH), (LED_BAT2, PIN_HIGH), (LED_BAT3, PIN_HIGH),
      (LED_BAT4, PIN_HIGH), (LED_BAT5, PIN_HIGH), (LED_BAT6, PIN_LOW), (LED_BAT7, PIN_LOW),
      (LED_BAT8, PIN_LOW), (LED_BAT9, PIN_LOW)]
  else if n = 5 then
     [(LED_BAT0, PIN_HIGH), (LED_BAT1, PIN_HIGH), (LED_BAT2, PIN_HIGH), (LED_BAT3, PIN_HIGH),
      (LED_BAT4, PIN_HIGH), (LED_BAT5, PIN_LOW), (LED_BAT6, PIN_LOW), (LED_BAT7, PIN_LOW),
      (LED_BAT8, PIN_LOW), (LED_BAT9, PIN_LOW)]
  else if n = 6 then
     [(LED_BAT0, PIN_HIGH), (LED_BAT1, PIN_HIGH), (LED_BAT2, PIN_HIGH), (LED_BAT3, PIN_HIGH),
      (LED_BAT4, PIN_LOW), (LED_BAT5, PIN_LOW), (LED_BAT6, PIN_LOW), (LED_BAT7, PIN_LOW),
      (LED_BAT8, PIN_LOW), (LED_BAT9, PIN_LOW)]
  else if n = 7 then
     [(LED_BAT0, PIN_HIGH), (LED_BAT1, PIN_HIGH), (LED_BAT2, PIN_HIGH), (LED_BAT3, PIN_LOW),
      (LED_BAT4, PIN_LOW), (LED_BAT5, PIN_LOW), (LED_BAT6, PIN_LOW), (LED_BAT7, PIN_LOW),
      (LED_BAT8, PIN_LOW), (LED_BAT9, PIN_LOW)]
  else if n = 8 then
     [(LED_BAT0, PIN_HIGH), (LED_BAT1, PIN_HIGH), (LED_BAT2, PIN_LOW), (LED_BAT3, PIN_LOW),
      (LED_BAT4, PIN_LOW), (LED_BAT5, PIN_LOW), (LED_BAT6, PIN_LOW), (LED_BAT7, PIN_LOW),
      (LED_BAT8, PIN_LOW), (LED_BAT9, PIN_LOW)]
  else if n = 9 then
     [(LED_BAT0, PIN_HIGH), (LED_BAT1, PIN_LOW), (LED_BAT2, PIN_LOW), (LED_BAT3, PIN_LOW),
      (LED_BAT4, PIN_LOW), (LED_BAT5, PIN_LOW), (LED_BAT6, PIN_LOW), (LED_BAT7, PIN_LOW),
      (LED_BAT8, PIN_LOW), (LED_BAT9, PIN_LOW)]
  else if n = 10 then
     [(LED_BAT0, PIN_LOW), (LED_BAT1, PIN_LOW), (LED_BAT2, PIN_LOW), (LED_BAT3, PIN_LOW),
      (LED_BAT4, PIN_LOW), (LED_BAT5, PIN_LOW), (LED_BAT6, PIN_LOW), (LED_BAT7, PIN_LOW),
      (LED_BAT8, PIN_LOW), (LED_BAT9, PIN_LOW)]
  else
     [(LED_BAT0, PIN_HIGH), (LED_BAT1, PIN_HIGH), (LED_BAT2, PIN_HIGH), (LED_BAT3, PIN_HIGH),
      (LED_BAT4, PIN_HIGH), (LED_BAT5, PIN_HIGH), (LED_BAT6, PIN_HIGH), (LED_BAT7, PIN_HIGH),
      (LED_BAT8, PIN_HIGH), (LED_BAT9, PIN_HIGH)])"

definition set_bat_led :: "u16 \<Rightarrow> u8 \<Rightarrow> gpio_regs \<Rightarrow> u8 \<times> gpio_regs" where
  "set_bat_led bat_cnt bat_reg g =
     (if bat_cnt = 0 then bat_led_blink bat_reg g
      else (bat_reg, pin_writes (bat_led_bars bat_cnt) g))"

definition vol_led_pattern :: "u16 \<Rightarrow> (int \<times> int) list" where
  "vol_led_pattern n =
  (    if n = 5 then
     [(LED_P0, PIN_LOW), (LED_P1, PIN_HIGH), (LED_P2, PIN_HIGH), (LED_P3, PIN_HIGH),
      (LED_P4, PIN_HIGH), (LED_P5, PIN_HIGH), (LED_P6, PIN_HIGH), (LED_P7, PIN_HIGH)]
  else if n = 1 then
     [(LED_P0, PIN_HIGH), (LED_P1, PIN_LOW), (LED_P2, PIN_HIGH), (LED_P3, PIN_HIGH),
      (LED_P4, PIN_HIGH), (LED_P5, PIN_HIGH), (LED_P6, PIN_HIGH), (LED_P7, PIN_HIGH)]
  else if n = 6 then
     [(LED_P0, PIN_HIGH), (LED_P1, PIN_HIGH), (LED_P2, PIN_LOW), (LED_P3, PIN_HIGH),
      (LED_P4, PIN_HIGH), (LED_P5, PIN_HIGH), (LED_P6, PIN_HIGH), (LED_P7, PIN_HIGH)]
  else if n = 2 then
     [(LED_P0, PIN_HIGH), (LED_P1, PIN_HIGH), (LED_P2, PIN_HIGH), (LED_P3, PIN_LOW),
      (LED_P4, PIN_HIGH), (LED_P5, PIN_HIGH), (LED_P6, PIN_HIGH), (LED_P7, PIN_HIGH)]
  else if n = 7 then
     [(LED_P0, PIN_HIGH), (LED_P1, PIN_HIGH), (LED_P2, PIN_HIGH), (LED_P3, PIN_HIGH),
      (LED_P4, PIN_LOW), (LED_P5, PIN_HIGH), (LED_P6, PIN_HIGH), (LED_P7, PIN_HIGH)]
  else if n = 3 then
     [(LED_P0, PIN_HIGH), (LED_P1, PIN_HIGH), (LED_P2, PIN_HIGH), (LED_P3, PIN_HIGH),
      (LED_P4, PIN_HIGH), (LED_P5, PIN_LOW), (LED_P6, PIN_HIGH), (LED_P7, PIN_HIGH)]
  else if n = 8 then
     [(LED_P0, PIN_HIGH), (LED_P1, PIN_HIGH), (LED_P2, PIN_HIGH), (LED_P3, PIN_HIGH),
      (LED_P4, PIN_HIGH), (LED_P5, PIN_HIGH), (LED_P6, PIN_LOW), (LED_P7, PIN_HIGH)]
  else if n = 4 then
     [(LED_P0, PIN_HIGH), (LED_P1, PIN_HIGH), (LED_P2, PIN_HIGH), (LED_P3, PIN_HIGH),
      (LED_P4, PIN_HIGH), (LED_P5, PIN_HIGH), (LED_P6, PIN_HIGH), (LED_P7, PIN_LOW)]
  else
     [(LED_P0, PIN_HIGH), (LED_P1, PIN_HIGH), (LED_P2, PIN_HIGH), (LED_P3, PIN_HIGH),
      (LED_P4, PIN_HIGH), (LED_P5, PIN_HIGH), (LED_P6, PIN_HIGH), (LED_P7, PIN_HIGH)])"

definition set_vol_led :: "u16 \<Rightarrow> gpio_regs \<Rightarrow> gpio_regs" where
  "set_vol_led vol_cnt g = pin_writes (vol_led_pattern vol_cnt) g"

definition freq_led_pattern :: "u16 \<Rightarrow> (int \<times> int) list" where
  "freq_led_pattern n =
  (    if n = 0 then
     [(LED_F0, PIN_LOW), (LED_F1, PIN_HIGH), (LED_F2, PIN_HIGH), (LED_F3, PIN_HIGH)]
  else if n = 1 then
     [(LED_F0, PIN_HIGH), (LED_F1, PIN_LOW), (LED_F2, PIN_HIGH), (LED_F3, PIN_HIGH)]
  else if n = 2 then
     [(LED_F0, PIN_HIGH), (LED_F1, PIN_HIGH), (LED_F2, PIN_LOW), (LED_F3, PIN_HIGH)]
  else if n = 3 then
     [(LED_F0, PIN_HIGH), (LED_F1, PIN_HIGH), (LED_F2, PIN_HIGH), (LED_F3, PIN_LOW)]
  else
     [(LED_F0, PIN_HIGH), (LED_F1, PIN_HIGH), (LED_F2, PIN_HIGH), (LED_F3, PIN_HIGH)])"

definition set_freq_led :: "u16 \<Rightarrow> gpio_regs \<Rightarrow> gpio_regs" where
  "set_freq_led freq_cnt g = pin_writes (freq_led_pattern freq_cnt) g"

definition set_ind_led :: "u8 \<Rightarrow> u8 \<Rightarrow> gpio_regs \<Rightarrow> gpio_regs" where
  "set_ind_led led_type bit_action g =
     (let g1 = (if led_type = 0 then rt_pin_write LED_STS (uint bit_action) g else g)
      in if led_type = 1 then rt_pin_write LED_COM (uint bit_action) g1 else g1)"

definition sts_led_update :: "sys_reg_st \<Rightarrow> gpio_regs \<Rightarrow> gpio_regs" where
  "sts_led_update g_sys g =
     (let g1 = (if out_en (stat g_sys) \<noteq> 0 then set_ind_led 0 0 g else set_ind_led 0 1 g)
      in if drop_bit GBM_LINK (ms_status (stat g_sys)) AND 0x0001 = 1
         then set_ind_led 1 0 g1 else set_ind_led 1 1 g1)"

definition led_init :: "gpio_regs \<Rightarrow> gpio_regs" where
  "led_init g = set_vol_led 0 (set_freq_led 5 (pin_modes
     (map (\<lambda>p. (p, PIN_MODE_OUTPUT))
       [LED_STS, LED_COM,
        LED_BAT0, LED_BAT1, LED_BAT2, LED_BAT3, LED_BAT4,
        LED_BAT5, LED_BAT6, LED_BAT7, LED_BAT8, LED_BAT9,
        LED_F0, LED_F1, LED_F2, LED_F3,
        LED_P0, LED_P1, LED_P2, LED_P3, LED_P4, LED_P5, LED_P6, LED_P7,
        FAN_CTRL]) g))"

definition led_en :: "u16 \<Rightarrow> sys_reg_st \<Rightarrow> gpio_regs \<Rightarrow> gpio_regs" where
  "led_en enable g_sys g =
     (if enable \<noteq> 0
      then set_vol_led (volum_index (stat g_sys)) (set_freq_led (freq_index (stat g_sys)) g)
      else set_vol_led 0 (set_freq_led 5 g))"

text \<open>The shell commands: without an argument they print a usage line and change nothing.\<close>

definition led_set_vol :: "string list \<Rightarrow> gpio_regs \<Rightarrow> gpio_regs res" where
  "led_set_vol argv g =
     (if length argv < 2 then Inr g
      else bindE (atoi (argv ! 1)) (\<lambda>v. Inr (set_vol_led (to_u16 v) g)))"

definition led_set_freq :: "string list \<Rightarrow> gpio_regs \<Rightarrow> gpio_regs res" where
  "led_set_freq argv g =
     (if length argv < 2 then Inr g
      else bindE (atoi (argv ! 1)) (\<lambda>v. Inr (set_freq_led (to_u16 v) g)))"

section \<open>What the indicators show\<close>

text \<open>A LED is lit when its pin is low.\<close>

definition lit :: "gpio_regs \<Rightarrow> int \<Rightarrow> bool" where
  "lit g p \<longleftrightarrow> \<not> pin_out g p"

definition bat_leds :: "int list" where
  "bat_leds = [LED_BAT0, LED_BAT1, LED_BAT2, LED_BAT3, LED_BAT4,
               LED_BAT5, LED_BAT6, LED_BAT7, LED_BAT8, LED_BAT9]"

definition vol_leds :: "int list" where
  "vol_leds = [LED_P0, LED_P1, LED_P2, LED_P3, LED_P4, LED_P5, LED_P6, LED_P7]"

definition freq_leds :: "int list" where
  "freq_leds = [LED_F0, LED_F1, LED_F2, LED_F3]"

named_theorems led_num \<open>pin numbers evaluated\<close>

lemma GET_PIN_num [led_num]:
  "GET_PIN GPIOA n = int n" "GET_PIN GPIOB n = 16 + int n" "GET_PIN GPIOC n = 32 + int n"
  by (simp_all add: GET_PIN_def)

unbundle bit_operations_syntax

lemma word_of_unat: "(n :: 'a::len word) = of_nat (unat n)"
  by simp

lemma u16_cases_10:
  assumes "unat (n :: u16) \<le> 10"
  shows "n \<in> {0, 1, 2, 3, 4, 5, 6, 7, 8, 9, 10}"
proof -
  have "unat n = 0 \<or> unat n = 1 \<or> unat n = 2 \<or> unat n = 3 \<or> unat n = 4 \<or> unat n = 5 \<or>
      unat n = 6 \<or> unat n = 7 \<or> unat n = 8 \<or> unat n = 9 \<or> unat n = 10"
    using assms by arith
  then have "of_nat (unat n) \<in> {0 :: u16, 1, 2, 3, 4, 5, 6, 7, 8, 9, 10}"
    by (elim disjE) simp_all
  then show ?thesis by simp
qed

lemma replicate_num: "replicate (numeral k) x = x # replicate (pred_numeral k) x"
  by (simp add: numeral_eq_Suc)

text \<open>A written pattern shows, at each of its pins, the level the pattern names.\<close>

lemma lit_writes:
  assumes "\<forall>x \<in> set ws. valid_pin (fst x)" "valid_pin q" "distinct (map fst ws)"
    "map_of ws q = Some v"
  shows "lit (pin_writes ws g) q \<longleftrightarrow> v = 0"
  using assms by (simp add: lit_def pin_out_writes)

lemma pin_writes_other:
  assumes "\<forall>x \<in> set ws. valid_pin (fst x)" "valid_pin q" "distinct (map fst ws)"
    "q \<notin> fst ` set ws"
  shows "pin_out (pin_writes ws g) q = pin_out g q"
  using assms by (simp add: pin_out_writes map_of_eq_None_iff [THEN iffD2])

text \<open>The patterns drive exactly the LEDs of their indicator.\<close>

lemma bat_led_bars_pins: "map fst (bat_led_bars n) = bat_leds"
  by (simp add: bat_led_bars_def bat_leds_def)

lemma vol_led_pattern_pins: "map fst (vol_led_pattern n) = vol_leds"
  by (simp add: vol_led_pattern_def vol_leds_def)

lemma freq_led_pattern_pins: "map fst (freq_led_pattern n) = freq_leds"
  by (simp add: freq_led_pattern_def freq_leds_def)

lemma led_lists_valid:
  "\<forall>p \<in> set bat_leds. valid_pin p" "\<forall>p \<in> set vol_leds. valid_pin p"
  "\<forall>p \<in> set freq_leds. valid_pin p"
  by (simp_all add: bat_leds_def vol_leds_def freq_leds_def GET_PIN_valid)

lemma led_lists_distinct: "distinct (bat_leds @ vol_leds @ freq_leds)"
  by (simp add: bat_leds_def vol_leds_def freq_leds_def led_num)

lemma fst_image: "fst ` set ws = set (map fst ws)"
  by simp

lemma pattern_lit:
  assumes "map fst ws = ps" "\<forall>p \<in> set ps. valid_pin p" "distinct ps" "i < length ps"
  shows "lit (pin_writes ws g) (ps ! i) \<longleftrightarrow> snd (ws ! i) = 0"
proof -
  have len: "length ws = length ps" using assms(1) by auto
  have "(ps ! i, snd (ws ! i)) \<in> set ws"
    using assms(1,4) len by (metis fst_conv length_map nth_map nth_mem prod.collapse)
  then have "map_of ws (ps ! i) = Some (snd (ws ! i))"
    using assms(1,3) by (intro map_of_is_SomeI) auto
  moreover have "\<forall>x \<in> set ws. valid_pin (fst x)" "distinct (map fst ws)"
    using assms(2,3) unfolding assms(1) [symmetric] by auto
  ultimately show ?thesis using assms by (intro lit_writes) simp_all
qed

lemma bat_led_bars_levels:
  assumes "1 \<le> unat n" "unat n \<le> 10"
  shows "map snd (bat_led_bars n) = replicate (10 - unat n) 1 @ replicate (unat n) 0"
proof -
  have "n \<in> {1, 2, 3, 4, 5, 6, 7, 8, 9, 10}"
    using assms(1) u16_cases_10[OF assms(2)] by auto
  then show ?thesis
    by (elim insertE) (simp_all add: bat_led_bars_def replicate_num)
qed

lemma bat_led_bars_nth:
  assumes "i < 10" "1 \<le> unat n" "unat n \<le> 10"
  shows "snd (bat_led_bars n ! i) = 0 \<longleftrightarrow> 10 - unat n \<le> i"
proof -
  have "length (bat_led_bars n) = 10" by (simp add: bat_led_bars_def)
  with assms(1) have "snd (bat_led_bars n ! i) = map snd (bat_led_bars n) ! i" by simp
  then show ?thesis
    using assms by (simp add: bat_led_bars_levels nth_append)
qed

lemma bat_led_bars_off:
  assumes "10 < unat n"
  shows "map snd (bat_led_bars n) = replicate 10 1"
proof -
  have "n \<notin> {1, 2, 3, 4, 5, 6, 7, 8, 9, 10}" using assms by auto
  then show ?thesis by (simp add: bat_led_bars_def replicate_num)
qed

lemma vol_led_levels:
  assumes "i < 8"
  shows "snd (vol_led_pattern n ! i) = 0 \<longleftrightarrow>
    (1 \<le> unat n \<and> unat n \<le> 4 \<and> i = 2 * unat n - 1) \<or>
    (5 \<le> unat n \<and> unat n \<le> 8 \<and> i = 2 * unat n - 10)"
proof (cases "unat n \<le> 8")
  case True
  have i: "i = 0 \<or> i = 1 \<or> i = 2 \<or> i = 3 \<or> i = 4 \<or> i = 5 \<or> i = 6 \<or> i = 7"
    using assms by arith
  have "n \<in> {0, 1, 2, 3, 4, 5, 6, 7, 8, 9, 10}" using True by (intro u16_cases_10) simp
  with True have "n \<in> {0, 1, 2, 3, 4, 5, 6, 7, 8}" by auto
  then show ?thesis using i
    by (elim insertE; elim disjE) (simp_all add: vol_led_pattern_def)
next
  case False
  have i: "i = 0 \<or> i = 1 \<or> i = 2 \<or> i = 3 \<or> i = 4 \<or> i = 5 \<or> i = 6 \<or> i = 7"
    using assms by arith
  have "n \<notin> {1, 2, 3, 4, 5, 6, 7, 8}" using False by auto
  then have "vol_led_pattern n = map (\<lambda>p. (p, 1)) vol_leds"
    by (simp add: vol_led_pattern_def vol_leds_def)
  with i False show ?thesis by (elim disjE) (simp_all add: vol_leds_def)
qed

lemma freq_led_levels:
  assumes "i < 4"
  shows "snd (freq_led_pattern n ! i) = 0 \<longleftrightarrow> i = unat n"
proof -
  have i: "i = 0 \<or> i = 1 \<or> i = 2 \<or> i = 3" using assms by arith
  show ?thesis
  proof (cases "unat n \<le> 3")
    case True
    have "n \<in> {0, 1, 2, 3, 4, 5, 6, 7, 8, 9, 10}" using True by (intro u16_cases_10) simp
    with True have "n \<in> {0, 1, 2, 3}" by auto
    then show ?thesis using i
      by (elim insertE; elim disjE) (simp_all add: freq_led_pattern_def)
  next
    case False
    have "n \<notin> {0, 1, 2, 3}" using False by auto
    then have "freq_led_pattern n = map (\<lambda>p. (p, 1)) freq_leds"
      by (simp add: freq_led_pattern_def freq_leds_def)
    with i False show ?thesis by (elim disjE) (simp_all add: freq_leds_def)
  qed
qed

lemma bat_led_blink_pattern:
  "bat_led_blink r g = (if r = 0 then 1 else 0,
     pin_writes (zip bat_leds (replicate 9 1 @ [if r = 0 then 0 else 1])) g)"
  by (simp add: bat_led_blink_def bat_leds_def replicate_num)

lemma zip_pins: "length vs = length ps \<Longrightarrow> map fst (zip ps vs) = ps"
  by simp

lemma bat_led_blink_lit:
  assumes "i < 10"
  shows "lit (snd (bat_led_blink r g)) (bat_leds ! i) \<longleftrightarrow> r = 0 \<and> i = 9"
proof -
  let ?vs = "replicate 9 1 @ [if r = 0 then 0 else 1 :: int]"
  have len: "length bat_leds = 10" by (simp add: bat_leds_def)
  have "lit (pin_writes (zip bat_leds ?vs) g) (bat_leds ! i) \<longleftrightarrow> snd (zip bat_leds ?vs ! i) = 0"
    by (rule pattern_lit)
      (use assms len led_lists_valid led_lists_distinct in \<open>auto simp: map_fst_zip\<close>)
  also have "\<dots> \<longleftrightarrow> r = 0 \<and> i = 9"
    using assms len by (auto simp: nth_append)
  finally show ?thesis by (simp add: bat_led_blink_pattern)
qed

text \<open>
The battery bar. With a level from 1 to 10 exactly that many LEDs are lit, counted from the
last one; above 10 none is; at 0 only the last LED is lit, on every second call: the static
\<open>bat_reg\<close> flips at each call with level 0 and is kept otherwise.
\<close>

theorem set_bat_led_bar:
  assumes "i < 10"
  shows "(lit (snd (set_bat_led n r g)) (bat_leds ! i) \<longleftrightarrow>
      (if n = 0 then r = 0 \<and> i = 9 else unat n \<le> 10 \<and> 10 - unat n \<le> i)) \<and>
    fst (set_bat_led n r g) = (if n = 0 then (if r = 0 then 1 else 0) else r)"
proof -
  have "lit (pin_writes (bat_led_bars n) g) (bat_leds ! i) \<longleftrightarrow> snd (bat_led_bars n ! i) = 0"
    by (rule pattern_lit) (use assms led_lists_valid led_lists_distinct in
        \<open>auto simp: bat_led_bars_pins bat_leds_def\<close>)
  moreover have "snd (bat_led_bars n ! i) = 0 \<longleftrightarrow> unat n \<le> 10 \<and> 10 - unat n \<le> i" if "n \<noteq> 0"
  proof (cases "unat n \<le> 10")
    case True
    with that assms show ?thesis
      by (subst bat_led_bars_nth) (simp_all add: unat_gt_0 Suc_le_eq)
  next
    case False
    have "snd (bat_led_bars n ! i) = map snd (bat_led_bars n) ! i"
      using assms by (simp add: bat_led_bars_def)
    with False assms show ?thesis by (simp add: bat_led_bars_off)
  qed
  moreover have "fst (set_bat_led n r g) = (if n = 0 then (if r = 0 then 1 else 0) else r)"
    by (simp add: set_bat_led_def bat_led_blink_def)
  ultimately show ?thesis
    using assms by (simp add: set_bat_led_def bat_led_blink_lit)
qed

lemma set_bat_led_bar_witness:
  "(lit (snd (set_bat_led 3 0 gpio_reset)) (bat_leds ! 7) \<longleftrightarrow>
      (if (3::u16) = 0 then (0::u8) = 0 \<and> (7::nat) = 9 else unat (3::u16) \<le> 10 \<and> 10 - unat (3::u16) \<le> 7)) \<and>
   fst (set_bat_led 3 0 gpio_reset) = 0"
  using set_bat_led_bar [of 7 3 0 gpio_reset] by simp

text \<open>
The volume indicator. For a volume from 1 to 8 exactly one of the eight LEDs is lit, a
different one for each volume (1 to 4 the odd positions, 5 to 8 the even ones); for any other
value all are dark.
\<close>

theorem set_vol_led_one_hot:
  assumes "i < 8"
  shows "lit (set_vol_led n g) (vol_leds ! i) \<longleftrightarrow>
    (1 \<le> unat n \<and> unat n \<le> 4 \<and> i = 2 * unat n - 1) \<or>
    (5 \<le> unat n \<and> unat n \<le> 8 \<and> i = 2 * unat n - 10)"
proof -
  have "lit (pin_writes (vol_led_pattern n) g) (vol_leds ! i) \<longleftrightarrow> snd (vol_led_pattern n ! i) = 0"
    by (rule pattern_lit) (use assms led_lists_valid led_lists_distinct in
        \<open>auto simp: vol_led_pattern_pins vol_leds_def\<close>)
  with assms show ?thesis by (simp add: set_vol_led_def vol_led_levels)
qed

lemma set_vol_led_one_hot_witness:
  "lit (set_vol_led 4 gpio_reset) (vol_leds ! 7) \<and> \<not> lit (set_vol_led 5 gpio_reset) (vol_leds ! 7)"
  using set_vol_led_one_hot[of 7 4 gpio_reset] set_vol_led_one_hot[of 7 5 gpio_reset] by simp

lemma set_freq_led_one_hot:
  assumes "i < 4"
  shows "lit (set_freq_led n g) (freq_leds ! i) \<longleftrightarrow> i = unat n"
proof -
  have "lit (pin_writes (freq_led_pattern n) g) (freq_leds ! i) \<longleftrightarrow> snd (freq_led_pattern n ! i) = 0"
    by (rule pattern_lit) (use assms led_lists_valid led_lists_distinct in
        \<open>auto simp: freq_led_pattern_pins freq_leds_def\<close>)
  with assms show ?thesis by (simp add: set_freq_led_def freq_led_levels)
qed

text \<open>An indicator leaves every pin that is not its own as it was.\<close>

lemma set_bat_led_frame:
  assumes "valid_pin q" "q \<notin> set bat_leds"
  shows "pin_out (snd (set_bat_led n r g)) q = pin_out g q"
proof -
  have "pin_out (pin_writes ws g) q = pin_out g q" if "map fst ws = bat_leds" for ws
    using that assms led_lists_valid(1) led_lists_distinct
    by (intro pin_writes_other) (auto simp flip: that)
  then show ?thesis
    by (simp add: set_bat_led_def bat_led_blink_pattern bat_led_bars_pins bat_leds_def)
qed

lemma set_vol_led_frame:
  assumes "valid_pin q" "q \<notin> set vol_leds"
  shows "pin_out (set_vol_led n g) q = pin_out g q"
  unfolding set_vol_led_def
  using assms led_lists_valid(2) led_lists_distinct
  by (intro pin_writes_other) (auto simp flip: vol_led_pattern_pins [of n])

lemma set_freq_led_frame:
  assumes "valid_pin q" "q \<notin> set freq_leds"
  shows "pin_out (set_freq_led n g) q = pin_out g q"
  unfolding set_freq_led_def
  using assms led_lists_valid(3) led_lists_distinct
  by (intro pin_writes_other) (auto simp flip: freq_led_pattern_pins [of n])

end
