(* ===== verification/Timeout_Calc.thy ===== *)
theory Timeout_Calc
  imports Hwtimer
begin

text \<open>
  What \<open>timeout_calc\<close> computes at the frequency the framework selects, 1 MHz: for a time value
  of \<open>u\<close> microseconds that fits the 16-bit counter it returns, and the counter times the number
  of cycles is \<open>u\<close> or \<open>u - 1\<close>. The proof bounds the rounding error of each float operation.
\<close>

section \<open>The deviation of one divisor\<close>

definition tvs :: "int \<Rightarrow> rat" where
  "tvs u = fl32 (fl32 (of_int 0) + fl32 (fl32 (of_int u) / fl32 1000000))"

lemma tvs_error:
  assumes "0 \<le> u" "u \<le> 65000"
  shows "\<bar>tvs u * 1000000 - of_int u\<bar> \<le> 82 / 10000"
proof -
  have u: "fl32 (of_int u) = of_int u" using assms by (intro fl32_int) simp
  have ub: "0 \<le> (of_int u :: rat)" "(of_int u :: rat) \<le> 65000" using assms by simp_all
  define x where "x = (of_int u :: rat) / 1000000"
  define y where "y = fl32 x"
  have x0: "0 \<le> x" "x * 1000000 = of_int u" using ub by (simp_all add: x_def)
  have y0: "0 \<le> y" using fl32_nonneg[OF x0(1)] by (simp add: y_def)
  have t: "tvs u = fl32 y" by (simp add: tvs_def u y_def x_def)
  have "\<bar>y * 1000000 - of_int u\<bar> \<le> of_int u * (1 / 16777216) + 1 / 100000000000000"
    using fl32_error_scaled[OF x0(1), of 1000000] by (simp add: y_def x0)
  moreover have "\<bar>tvs u * 1000000 - y * 1000000\<bar> \<le> y * 1000000 * (1 / 16777216) + 1 / 100000000000000"
    using fl32_error_scaled[OF y0, of 1000000] by (simp add: t)
  ultimately show ?thesis using ub by linarith
qed

lemma tvs_nonneg: "0 \<le> u \<Longrightarrow> u \<le> 65000 \<Longrightarrow> 0 \<le> tvs u"
  unfolding tvs_def by (intro fl32_nonneg add_nonneg_nonneg divide_nonneg_nonneg) simp_all

lemma float_to_uint_floor:
  assumes "0 \<le> y" "y < 2 ^ w"
  shows "float_to_uint w y = Inr \<lfloor>y\<rfloor>"
proof -
  have "\<lfloor>y\<rfloor> < 2 ^ w" using assms(2) by (simp add: floor_less_iff)
  then show ?thesis using assms(1) by (simp add: float_to_uint_def c_trunc_def)
qed

lemma tc_counter_bounds:
  assumes "2 \<le> u" "u \<le> 65000" "1 \<le> i" "i \<le> 131072"
  obtains c where "tc_counter 1000000 (tc_timeout (tvs u) i) = Inr c"
    "0 \<le> c" "of_int (c * i) \<le> (of_int u + 1 / 50 :: rat)" "(of_int u - 1 / 50 :: rat) < of_int ((c + 1) * i)"
proof -
  define k where "k = (of_int i :: rat)"
  have k: "1 \<le> k" "k \<le> 131072" "fl32 (of_int i) = k"
    using assms(3,4) fl32_int[of i] by (simp_all add: k_def)
  have T: "\<bar>tvs u * 1000000 - of_int u\<bar> \<le> 82 / 10000" "0 \<le> tvs u"
    using assms tvs_error[of u] tvs_nonneg[of u] by simp_all
  have ub: "2 \<le> (of_int u :: rat)" "(of_int u :: rat) \<le> 65000" using assms by simp_all
  define t where "t = tc_timeout (tvs u) i"
  have q0: "0 \<le> tvs u / k" using T(2) k by simp
  have t: "t = fl32 (tvs u / k)" by (simp add: t_def tc_timeout_def k)
  have t0: "0 \<le> t" using fl32_nonneg[OF q0] t by simp
  have e1: "\<bar>t * (k * 1000000) - tvs u * 1000000\<bar>
              \<le> tvs u * 1000000 * (1 / 16777216) + k * 1000000 * (1 / 100000000000000000000)"
    using fl32_error_scaled[OF q0, of "k * 1000000"] k by (simp add: t)
  define y where "y = fl32 (t * 1000000)"
  have m0: "0 \<le> t * 1000000" using t0 by simp
  have y0: "0 \<le> y" using fl32_nonneg[OF m0] by (simp add: y_def)
  have e2: "\<bar>y * k - t * 1000000 * k\<bar> \<le> t * 1000000 * k * (1 / 16777216) + k * (1 / 100000000000000000000)"
    using fl32_error_scaled[OF m0, of k] k by (simp add: y_def)
  define P where "P = t * 1000000 * k"
  have P: "t * (k * 1000000) = P" by (simp add: P_def)
  have yk: "\<bar>y * k - of_int u\<bar> \<le> 1 / 50"
    using T ub e1 e2 k(1,2) unfolding P P_def [symmetric] by linarith
  have "y * 1 \<le> y * k" using y0 k by (intro mult_left_mono) simp_all
  then have "y < 65001" using yk ub by linarith
  then have "y < 2 ^ 32" by simp
  then have c: "tc_counter 1000000 t = Inr \<lfloor>y\<rfloor>"
    using y0 by (simp add: tc_counter_def float_to_uint_floor flip: y_def)
  have "of_int \<lfloor>y\<rfloor> * k \<le> y * k" using k by (intro mult_right_mono) simp_all
  then have up: "of_int (\<lfloor>y\<rfloor> * i) \<le> (of_int u + 1 / 50 :: rat)"
    using yk unfolding k_def of_int_mult by linarith
  have "y * k < (of_int \<lfloor>y\<rfloor> + 1) * k"
    using k by (intro mult_strict_right_mono) linarith+
  then have lo: "(of_int u - 1 / 50 :: rat) < of_int ((\<lfloor>y\<rfloor> + 1) * i)"
    using yk unfolding k_def by (simp only: of_int_mult of_int_add of_int_1)
  show thesis
    by (rule that[of "\<lfloor>y\<rfloor>"]) (use c up lo y0 in \<open>simp_all add: t_def\<close>)
qed

lemma int_le_of_close:
  assumes "of_int a \<le> (of_int b + 1 / 50 :: rat)"
  shows "a \<le> b"
proof -
  have "(of_int a :: rat) < of_int (b + 1)" using assms by simp
  then show ?thesis by (simp only: of_int_less_iff)
qed

text \<open>The deviation the loop compares, in microseconds, is the integer one up to 0.03.\<close>

lemma tc_devi_error:
  assumes "2 \<le> u" "u \<le> 65000" "1 \<le> i" "i \<le> 131072" "0 \<le> c" "c * i \<le> u"
  shows "\<bar>tc_devi (tvs u) 1000000 c i * 1000000 - of_int (u - c * i)\<bar> \<le> 3 / 100"
proof -
  define k where "k = (of_int i :: rat)"
  define d where "d = (of_int c :: rat)"
  have k: "1 \<le> k" "k \<le> 131072" "fl32 (of_int i) = k"
    using assms(3,4) fl32_int[of i] by (simp_all add: k_def)
  have "c * 1 \<le> c * i" using assms by (intro mult_left_mono) simp_all
  then have "c \<le> 65000" using assms by simp
  then have d: "0 \<le> d" "fl32 (of_int c) = d"
    using assms(5) fl32_int[of c] by (simp_all add: d_def)
  have "(of_int (c * i) :: rat) \<le> of_int u" using assms(6) by (simp only: of_int_le_iff)
  then have dk: "0 \<le> d * k" "d * k \<le> of_int u" using d k by (simp_all add: d_def k_def)
  have ub: "2 \<le> (of_int u :: rat)" "(of_int u :: rat) \<le> 65000" using assms by simp_all
  have T: "\<bar>tvs u * 1000000 - of_int u\<bar> \<le> 82 / 10000" using assms by (intro tvs_error) simp_all
  define w2 where "w2 = fl32 (d / 1000000)"
  have w20: "0 \<le> d / 1000000" "0 \<le> w2 * k"
    using d k fl32_nonneg[of "d / 1000000"] by (simp_all add: w2_def)
  have e2: "\<bar>w2 * (k * 1000000) - d * k\<bar> \<le> d * k * (1 / 16777216) + k * (1 / 100000000000000)"
    using fl32_error_scaled[OF w20(1), of "k * 1000000"] k by (simp add: w2_def)
  define w3 where "w3 = fl32 (w2 * k)"
  have e3: "\<bar>w3 * 1000000 - w2 * k * 1000000\<bar> \<le> w2 * k * 1000000 * (1 / 16777216) + 1 / 100000000000000"
    using fl32_error_scaled[OF w20(2), of 1000000] by (simp add: w3_def)
  define P where "P = w2 * k * 1000000"
  have P: "w2 * (k * 1000000) = P" by (simp add: P_def)
  have W: "\<bar>w3 * 1000000 - d * k\<bar> \<le> 8 / 1000"
    using e2 e3 dk ub k(1,2) unfolding P P_def [symmetric] by linarith
  define D where "D = tvs u - w3"
  define z where "z = fl32 D"
  have "D * 1000000 = tvs u * 1000000 - w3 * 1000000" by (simp add: D_def algebra_simps)
  then have D: "\<bar>D * 1000000 - (of_int u - d * k)\<bar> \<le> 17 / 1000"
    using T W by linarith
  have "\<bar>z - D\<bar> \<le> \<bar>D\<bar> * (1 / 16777216) + 1 / 100000000000000000000" unfolding z_def by (rule fl32_error)
  moreover have "\<bar>D\<bar> \<le> 65001 / 1000000"
    using D dk ub by linarith
  ultimately have "\<bar>z - D\<bar> \<le> 4 / 1000000000" by linarith
  then have "\<bar>z * 1000000 - D * 1000000\<bar> \<le> 4 / 1000"
    unfolding abs_le_iff by (simp add: field_simps)
  then have "\<bar>z * 1000000 - (of_int u - d * k)\<bar> \<le> 3 / 100"
    using D by linarith
  then show ?thesis
    by (simp add: tc_devi_def z_def D_def w3_def w2_def d k d_def k_def flip: tvs_def)
qed

section \<open>The loop\<close>

text \<open>The counter and deviation of a divisor, as functions of it.\<close>

definition ctr :: "int \<Rightarrow> int \<Rightarrow> int" where
  "ctr u i = (case tc_counter 1000000 (tc_timeout (tvs u) i) of Inl _ \<Rightarrow> 0 | Inr c \<Rightarrow> c)"

abbreviation (input) dev :: "int \<Rightarrow> int \<Rightarrow> rat" where
  "dev u i \<equiv> tc_devi (tvs u) 1000000 (ctr u i) i"

lemma ctr_facts:
  assumes "2 \<le> u" "u \<le> 65000" "1 \<le> i" "i \<le> 131072"
  shows "tc_counter 1000000 (tc_timeout (tvs u) i) = Inr (ctr u i)" "0 \<le> ctr u i"
    "ctr u i * i \<le> u" "u \<le> (ctr u i + 1) * i"
    "\<bar>dev u i * 1000000 - of_int (u - ctr u i * i)\<bar> \<le> 3 / 100"
proof -
  obtain c where c: "tc_counter 1000000 (tc_timeout (tvs u) i) = Inr c" "0 \<le> c"
    "of_int (c * i) \<le> (of_int u + 1 / 50 :: rat)" "(of_int u - 1 / 50 :: rat) < of_int ((c + 1) * i)"
    by (rule tc_counter_bounds[OF assms])
  have e: "ctr u i = c" by (simp add: ctr_def c)
  have le: "c * i \<le> u" using c(3) by (rule int_le_of_close)
  have "of_int u \<le> (of_int ((c + 1) * i) + 1 / 50 :: rat)" using c(4) by linarith
  then have ge: "u \<le> (c + 1) * i" by (rule int_le_of_close)
  show "tc_counter 1000000 (tc_timeout (tvs u) i) = Inr (ctr u i)" "0 \<le> ctr u i"
    "ctr u i * i \<le> u" "u \<le> (ctr u i + 1) * i"
    "\<bar>dev u i * 1000000 - of_int (u - ctr u i * i)\<bar> \<le> 3 / 100"
    unfolding e using c(1,2) le ge tc_devi_error[OF assms c(2) le] by simp_all
qed

text \<open>A divisor is good when its cycles come within a microsecond of the time value.\<close>

definition good_divisor :: "int \<Rightarrow> int \<Rightarrow> bool" where
  "good_divisor u j \<longleftrightarrow> 1 \<le> j \<and> j \<le> 131072 \<and> u - 1 \<le> ctr u j * j \<and> ctr u j * j \<le> u"

lemma small_dev_good:
  assumes "2 \<le> u" "u \<le> 65000" "1 \<le> i" "i \<le> 131072" "dev u i \<le> 103 / 100000000"
  shows "good_divisor u i"
proof -
  note f = ctr_facts[OF assms(1-4)]
  have "(of_int (u - ctr u i * i) :: rat) < of_int 2" using f(5) assms(5) by linarith
  then have "u - ctr u i * i < 2" by (simp only: of_int_less_iff)
  then show ?thesis using f assms by (simp add: good_divisor_def)
qed

lemma first_dev:
  assumes "2 \<le> u" "u \<le> 65000"
  shows "dev u 1 \<le> 103 / 100000000"
proof -
  note f = ctr_facts[OF assms, of 1]
  have "(of_int (u - ctr u 1 * 1) :: rat) \<le> of_int 1" using f(4) by (simp only: of_int_le_iff) simp
  then show ?thesis using f(5) by linarith
qed

text \<open>At the divisor \<open>2 * u\<close> the counter is zero and the deviation is the whole time value.\<close>

lemma last_dev:
  assumes "2 \<le> u" "u \<le> 65000"
  shows "103 / 100000000 < dev u (2 * u)"
proof -
  note f = ctr_facts[OF assms, of "2 * u"]
  have "ctr u (2 * u) = 0"
  proof (rule ccontr)
    assume "ctr u (2 * u) \<noteq> 0"
    then have "1 * (2 * u) \<le> ctr u (2 * u) * (2 * u)"
      using f(2) assms by (intro mult_right_mono) simp_all
    then show False using f(3) assms by simp
  qed
  then have "\<bar>dev u (2 * u) * 1000000 - of_int u\<bar> \<le> 3 / 100" using f(5) assms by simp
  moreover have "2 \<le> (of_int u :: rat)" using assms(1) by simp
  ultimately show ?thesis by linarith
qed

definition ovf :: rat where
  "ovf = fl32 (fl32 (of_int 65535) / fl32 1000000)"

lemma timeout_le_ovf:
  assumes "2 \<le> u" "u \<le> 65000" "1 \<le> i" "i \<le> 131072"
  shows "tc_timeout (tvs u) i \<le> ovf"
proof -
  define k where "k = (of_int i :: rat)"
  have k: "1 \<le> k" "fl32 (of_int i) = k"
    using assms(3,4) fl32_int[of i] by (simp_all add: k_def)
  have ub: "(of_int u :: rat) \<le> 65000" using assms by simp
  have T: "\<bar>tvs u * 1000000 - of_int u\<bar> \<le> 82 / 10000" "0 \<le> tvs u"
    using assms tvs_error[of u] tvs_nonneg[of u] by simp_all
  have le: "tvs u / k \<le> 650001 / 10000000"
  proof -
    have "tvs u / k \<le> tvs u / 1" using T(2) k by (intro divide_left_mono) simp_all
    then show ?thesis using T(1) ub by linarith
  qed
  define q where "q = tvs u / k"
  have "0 \<le> q" using T(2) k by (simp add: q_def)
  then have "tc_timeout (tvs u) i \<le> 65001 / 1000000"
    using fl32_le[of q] le unfolding tc_timeout_def k q_def [symmetric] by linarith
  also have "\<dots> \<le> ovf"
    using fl32_ge[of "65535 / 1000000"] unfolding ovf_def by simp
  finally show ?thesis .
qed

lemma timeout_loop_step:
  assumes "2 \<le> u" "u \<le> 65000" "1 \<le> i" "i \<le> 131072"
  shows "timeout_loop ovf (tvs u) 1000000 m k i =
    (if dev u i > m then if k = 0 then Inl Bad_Conversion else Inr (k, tc_timeout (tvs u) k)
     else if dev u i = 0 then Inr (i, tc_timeout (tvs u) i)
     else if dev u i < m then timeout_loop ovf (tvs u) 1000000 (dev u i) i (i + 1)
     else timeout_loop ovf (tvs u) 1000000 m k (i + 1))"
  using assms timeout_le_ovf[OF assms] ctr_facts(1)[OF assms]
  by (subst timeout_loop.simps) (simp add: Let_def)

lemma timeout_loop_good:
  assumes u: "2 \<le> u" "u \<le> 65000"
    and "1 \<le> k" "k < i" "i \<le> 2 * u" "m = dev u k" "m \<le> 103 / 100000000"
  shows "\<exists>j. timeout_loop ovf (tvs u) 1000000 m k i = Inr (j, tc_timeout (tvs u) j) \<and> good_divisor u j"
  using assms(3-)
proof (induction "nat (2 * u - i)" arbitrary: i k m rule: less_induct)
  case less
  have b: "1 \<le> i" "i \<le> 131072" "k \<le> 131072" using less.prems u by simp_all
  have gk: "good_divisor u k" using small_dev_good[OF u less.prems(1) b(3)] less.prems by simp
  note st = timeout_loop_step[OF u b(1,2), of m k]
  consider "dev u i > m" | "dev u i \<le> m" "dev u i = 0" | "dev u i < m" "dev u i \<noteq> 0"
    | "dev u i = m" "dev u i \<noteq> 0" by fastforce
  then show ?case
  proof cases
    case 1
    then show ?thesis using gk less.prems(1) unfolding st by auto
  next
    case 2
    then show ?thesis using small_dev_good[OF u b(1,2)] unfolding st by auto
  next
    case 3
    then have d: "dev u i \<le> 103 / 100000000" using less.prems by simp
    then have "i \<noteq> 2 * u" using last_dev[OF u] by auto
    then show ?thesis using 3 d less.prems b less.hyps[of "i + 1" i "dev u i"] unfolding st by auto
  next
    case 4
    then have "i \<noteq> 2 * u" using last_dev[OF u] less.prems by auto
    then show ?thesis using 4 less.prems b less.hyps[of "i + 1" k m] unfolding st by auto
  qed
qed

lemma timeout_loop_start:
  assumes u: "2 \<le> u" "u \<le> 65000"
  shows "\<exists>j. timeout_loop ovf (tvs u) 1000000 1 0 1 = Inr (j, tc_timeout (tvs u) j) \<and> good_divisor u j"
proof -
  note d = first_dev[OF u]
  then have l: "dev u 1 < 1" by linarith
  show ?thesis
  proof (cases "dev u 1 = 0")
    case True
    then show ?thesis
      using small_dev_good[OF u, of 1] timeout_loop_step[OF u, of 1 1 0] by auto
  next
    case False
    then show ?thesis
      using l d u timeout_loop_step[OF u, of 1 1 0] timeout_loop_good[OF u, of 1 2 "dev u 1"] by simp
  qed
qed

section \<open>The property\<close>

definition freq_1MHz :: "rt_hwtimer_t \<Rightarrow> bool" where
  "freq_1MHz t \<longleftrightarrow> hwt_freq t = 1000000 \<and> maxcnt (hwt_info t) = 65535"

lemma period_bounds: "fl32 (1 / fl32 1000000) \<le> 11 / 10000000"
  using fl32_le[of "1 / 1000000"] by simp

lemma timeout_calc_accurate_aux:
  assumes "freq_1MHz t" "tv_sec v = 0" "2 \<le> tv_usec v" "tv_usec v \<le> 65000"
  shows "\<exists>n j p. timeout_calc t v = Inr (n, t\<lparr>hwt_cycles := j, hwt_reload := j, hwt_period_sec := p\<rparr>)
           \<and> 1 \<le> j \<and> 1 \<le> n \<and> tv_usec v - 1 \<le> n * j \<and> n * j \<le> tv_usec v"
proof -
  define u where "u = tv_usec v"
  have u: "2 \<le> u" "u \<le> 65000" using assms by (simp_all add: u_def)
  have "2 \<le> (of_int u :: rat)" using u by simp
  then have np: "\<not> tvs u < fl32 (1 / fl32 1000000)"
    using period_bounds tvs_error[of u] u by linarith
  obtain j where j: "timeout_loop ovf (tvs u) 1000000 1 0 1 = Inr (j, tc_timeout (tvs u) j)"
    "good_divisor u j" using timeout_loop_start[OF u] by auto
  then have g: "1 \<le> j" "j \<le> 131072" "u - 1 \<le> ctr u j * j" "ctr u j * j \<le> u"
    by (simp_all add: good_divisor_def)
  note c = ctr_facts[OF u g(1,2)]
  have n: "1 \<le> ctr u j" using c(2) g(3) u by (cases "ctr u j = 0") simp_all
  have "timeout_calc t v =
    Inr (ctr u j, t\<lparr>hwt_cycles := j, hwt_reload := j, hwt_period_sec := tc_timeout (tvs u) j\<rparr>)"
    using assms np j(1) c(1)
    by (simp add: timeout_calc_def freq_1MHz_def Let_def tvs_def ovf_def flip: u_def)
  then show ?thesis using g n unfolding u_def by blast
qed

text \<open>C6: at 1 MHz, for a time value of 2 to 65000 microseconds, \<open>timeout_calc\<close> returns, and its
  counter times the number of cycles it stores differs from the time value by at most one
  microsecond, never above it; all else in the timer stays as it is.\<close>

theorem timeout_calc_accurate:
  assumes "freq_1MHz t" "tv_sec v = 0" "2 \<le> tv_usec v" "tv_usec v \<le> 65000"
  shows "\<exists>n j p. timeout_calc t v = Inr (n, t\<lparr>hwt_cycles := j, hwt_reload := j, hwt_period_sec := p\<rparr>)
           \<and> 1 \<le> j \<and> 1 \<le> n \<and> tv_usec v - 1 \<le> n * j \<and> n * j \<le> tv_usec v"
  using assms by (rule timeout_calc_accurate_aux)

definition timer_1MHz :: rt_hwtimer_t where
  "timer_1MHz = (rt_hwtimer_registered (tim_reset 32000000))\<lparr>hwt_freq := 1000000\<rparr>"

lemma timeout_calc_accurate_witness:
  "\<exists>n j p. timeout_calc timer_1MHz \<lparr>tv_sec = 0, tv_usec = 1064\<rparr> =
       Inr (n, timer_1MHz\<lparr>hwt_cycles := j, hwt_reload := j, hwt_period_sec := p\<rparr>)
     \<and> 1 \<le> j \<and> 1 \<le> n \<and> 1063 \<le> n * j \<and> n * j \<le> 1064"
  using timeout_calc_accurate[of timer_1MHz "\<lparr>tv_sec = 0, tv_usec = 1064\<rparr>"]
  by (simp add: freq_1MHz_def timer_1MHz_def rt_hwtimer_registered_def tim_dev_info_def)

end
