(* ===== verification/Hwtimer_Period.thy ===== *)
theory Hwtimer_Period
  imports Timeout_Calc
begin

text \<open>
  The contract between the timer device and the client that drives the output: starting it with
  a time value makes it run, its interrupts call the client back once per \<open>reload\<close> of them, and
  stopping it ends that. The contract is a locale; its interpretation on the device model
  discharges the laws.
\<close>

section \<open>The contract\<close>

fun run_ticks :: "('s \<Rightarrow> ('s \<times> 'b option) res) \<Rightarrow> nat \<Rightarrow> 's \<Rightarrow> ('s \<times> nat) res" where
  "run_ticks tick 0 s = Inr (s, 0)"
| "run_ticks tick (Suc n) s =
     bindE (tick s) (\<lambda>(s1, f).
     bindE (run_ticks tick n s1) (\<lambda>(s2, k). Inr (s2, k + (if f = None then 0 else 1))))"

locale periodic_timer =
  fixes start :: "'p \<Rightarrow> 's \<Rightarrow> 's res" and stop :: "'s \<Rightarrow> 's"
    and tick :: "'s \<Rightarrow> ('s \<times> 'b option) res"
    and ready :: "'s \<Rightarrow> bool" and okp :: "'p \<Rightarrow> bool" and running :: "'s \<Rightarrow> bool"
    and left :: "'s \<Rightarrow> nat" and per :: "'s \<Rightarrow> nat" and budget :: "'s \<Rightarrow> nat"
  assumes start: "ready s \<Longrightarrow> okp p \<Longrightarrow>
      \<exists>s'. start p s = Inr s' \<and> ready s' \<and> running s' \<and> left s' = per s' \<and> 0 < per s'
           \<and> budget s' = 2147483647"
    and stop: "ready s \<Longrightarrow> ready (stop s) \<and> \<not> running (stop s)"
    and tick: "ready s \<Longrightarrow> 0 < left s \<Longrightarrow> left s \<le> per s \<Longrightarrow> 0 < budget s \<Longrightarrow>
      \<exists>s' f. tick s = Inr (s', f) \<and> ready s' \<and> running s' = running s \<and> per s' = per s
           \<and> Suc (budget s') = budget s
           \<and> (f \<noteq> None \<longleftrightarrow> left s = 1) \<and> left s' = (if left s = 1 then per s else left s - 1)"
begin

lemma ticks_count:
  "ready s \<Longrightarrow> 0 < left s \<Longrightarrow> left s \<le> per s \<Longrightarrow> n \<le> budget s \<Longrightarrow>
   \<exists>s'. run_ticks tick n s = Inr (s', (n + (per s - left s)) div per s)
      \<and> ready s' \<and> running s' = running s \<and> per s' = per s"
proof (induction n arbitrary: s)
  case 0
  then show ?case by simp
next
  case (Suc n)
  then obtain s1 f where t: "tick s = Inr (s1, f)" "ready s1" "running s1 = running s"
    "per s1 = per s" "Suc (budget s1) = budget s" "f \<noteq> None \<longleftrightarrow> left s = 1"
    "left s1 = (if left s = 1 then per s else left s - 1)"
    using tick[of s] by auto
  have "0 < left s1" "left s1 \<le> per s1" using Suc.prems t by auto
  then obtain s2 where r: "run_ticks tick n s1 = Inr (s2, (n + (per s1 - left s1)) div per s1)"
    "ready s2" "running s2 = running s1" "per s2 = per s1"
    using Suc.IH[of s1] Suc.prems t by auto
  have "(n + (per s1 - left s1)) div per s1 + (if f = None then 0 else 1)
      = (Suc n + (per s - left s)) div per s"
  proof (cases "left s = 1")
    case True
    then have "Suc n + (per s - left s) = n + per s" using Suc.prems by simp
    then show ?thesis using True t Suc.prems by simp
  next
    case False
    then have "n + (per s1 - left s1) = Suc n + (per s - left s)" using t Suc.prems by simp
    then show ?thesis using False t by simp
  qed
  then show ?case using t r by simp
qed

lemma start_ticks:
  assumes "ready s" "okp p" "n \<le> 2147483647"
  shows "\<exists>s1 s2. start p s = Inr s1 \<and> run_ticks tick n s1 = Inr (s2, n div per s1)
                \<and> ready s2 \<and> running s2 \<and> 0 < per s1"
proof -
  obtain s1 where s1: "start p s = Inr s1" "ready s1" "running s1" "left s1 = per s1"
    "0 < per s1" "budget s1 = 2147483647" using start[OF assms(1,2)] by auto
  then show ?thesis using ticks_count[of s1 n] assms(3) by auto
qed

lemma restart: "ready s \<Longrightarrow> okp p \<Longrightarrow> \<exists>s'. start p (stop s) = Inr s' \<and> ready s' \<and> running s'"
  using start[of "stop s" p] stop[of s] by auto

end

section \<open>The device\<close>

definition hwt_running :: "rt_hwtimer_t \<Rightarrow> bool" where
  "hwt_running t \<longleftrightarrow> tim_cen (tim t) \<and> tim_uie (tim t)"

text \<open>Opened, in the periodic mode, with the callback installed and the hardware as it resets.\<close>

definition hwt_ready :: "rt_hwtimer_t \<Rightarrow> bool" where
  "hwt_ready t \<longleftrightarrow> dev_ref_count t \<noteq> 0 \<and> freq_1MHz t \<and> hwt_mode t = HWTIMER_MODE_PERIOD
     \<and> rx_indicate t = Some Dac_Cb \<and> \<not> tim_trigger (tim t) \<and> \<not> tim_ccer (tim t)
     \<and> hwt_overflow t \<le> 2147483647"

definition ok_timeval :: "rt_hwtimerval_t \<Rightarrow> bool" where
  "ok_timeval v \<longleftrightarrow> tv_sec v = 0 \<and> 2 \<le> tv_usec v \<and> tv_usec v \<le> 65000"

definition hwt_write :: "rt_hwtimerval_t \<Rightarrow> rt_hwtimer_t \<Rightarrow> rt_hwtimer_t res" where
  "hwt_write v t = bindE (rt_device_write t v 8) (\<lambda>(_, t1). Inr t1)"

lemma hwt_ready_upd:
  "hwt_ready t \<Longrightarrow> hwt_ready (timer_stop t)"
  by (simp add: hwt_ready_def timer_stop_def upd_tim_def HAL_TIM_Base_Stop_IT_def freq_1MHz_def Let_def)

lemma rt_device_write_started:
  assumes "hwt_ready t" "ok_timeval v"
  shows "\<exists>t' n. rt_device_write t v 8 = Inr (8, t') \<and> hwt_ready t' \<and> hwt_running t'
    \<and> hwt_overflow t' = 0 \<and> hwt_cycles t' = hwt_reload t' \<and> 1 \<le> hwt_reload t'
    \<and> tim_arr (tim t') = to_u16 (n - 1) \<and> 1 \<le> n \<and> \<not> tim_opm (tim t')
    \<and> tv_usec v - 1 \<le> n * hwt_reload t' \<and> n * hwt_reload t' \<le> tv_usec v
    \<and> tim_pclk1 (tim t') = tim_pclk1 (tim t) \<and> tim_psc (tim t') = tim_psc (tim t)
    \<and> dev_open t' = dev_open t \<and> dev_activated t' = dev_activated t"
proof -
  define t0 where "t0 = (timer_stop t)\<lparr>hwt_overflow := 0\<rparr>"
  have f: "freq_1MHz t0" using assms(1)
    by (simp add: t0_def timer_stop_def upd_tim_def hwt_ready_def freq_1MHz_def)
  have v: "tv_sec v = 0" "2 \<le> tv_usec v" "tv_usec v \<le> 65000"
    using assms(2) by (simp_all add: ok_timeval_def)
  obtain n j p where c: "timeout_calc t0 v = Inr (n, t0\<lparr>hwt_cycles := j, hwt_reload := j, hwt_period_sec := p\<rparr>)"
    "1 \<le> j" "1 \<le> n" "tv_usec v - 1 \<le> n * j" "n * j \<le> tv_usec v"
    using timeout_calc_accurate_aux[OF f v] by auto
  show ?thesis
    using assms(1) c f
    by (simp add: rt_device_write_def rt_hwtimer_write_def flip: t0_def)
      (simp add: t0_def hwt_ready_def hwt_running_def timer_start_def timer_stop_def upd_tim_def
        HAL_TIM_Base_Start_IT_def HAL_TIM_Base_Stop_IT_def freq_1MHz_def Let_def exI[of _ n])
qed

lemma isr_tick:
  assumes "hwt_ready t" "0 < hwt_cycles t" "hwt_overflow t < 2147483647"
  shows "rt_device_hwtimer_isr t =
    (if hwt_cycles t = 1
     then Inr (t\<lparr>hwt_overflow := hwt_overflow t + 1, hwt_cycles := hwt_reload t\<rparr>, Some Dac_Cb)
     else Inr (t\<lparr>hwt_overflow := hwt_overflow t + 1, hwt_cycles := hwt_cycles t - 1\<rparr>, None))"
  using assms by (simp add: rt_device_hwtimer_isr_def hwt_ready_def Let_def)

interpretation tim2: periodic_timer hwt_write timer_stop rt_device_hwtimer_isr hwt_ready ok_timeval
  hwt_running "\<lambda>t. nat (hwt_cycles t)" "\<lambda>t. nat (hwt_reload t)"
  "\<lambda>t. nat (2147483647 - hwt_overflow t)"
proof unfold_locales
  fix s :: rt_hwtimer_t and p :: rt_hwtimerval_t
  assume "hwt_ready s" "ok_timeval p"
  then show "\<exists>s'. hwt_write p s = Inr s' \<and> hwt_ready s' \<and> hwt_running s'
      \<and> nat (hwt_cycles s') = nat (hwt_reload s') \<and> 0 < nat (hwt_reload s')
      \<and> nat (2147483647 - hwt_overflow s') = 2147483647"
    using rt_device_write_started[of s p] by (auto simp: hwt_write_def)
next
  fix s :: rt_hwtimer_t
  assume "hwt_ready s"
  then show "hwt_ready (timer_stop s) \<and> \<not> hwt_running (timer_stop s)"
    using hwt_ready_upd[of s]
    by (simp add: hwt_running_def timer_stop_def upd_tim_def HAL_TIM_Base_Stop_IT_def hwt_ready_def Let_def)
next
  fix s :: rt_hwtimer_t
  assume "hwt_ready s" "0 < nat (hwt_cycles s)" "nat (hwt_cycles s) \<le> nat (hwt_reload s)"
    "0 < nat (2147483647 - hwt_overflow s)"
  then show "\<exists>s' f. rt_device_hwtimer_isr s = Inr (s', f) \<and> hwt_ready s'
      \<and> hwt_running s' = hwt_running s \<and> nat (hwt_reload s') = nat (hwt_reload s)
      \<and> Suc (nat (2147483647 - hwt_overflow s')) = nat (2147483647 - hwt_overflow s)
      \<and> (f \<noteq> None) = (nat (hwt_cycles s) = 1)
      \<and> nat (hwt_cycles s') = (if nat (hwt_cycles s) = 1 then nat (hwt_reload s) else nat (hwt_cycles s) - 1)"
    using isr_tick[of s] by (auto simp: hwt_ready_def hwt_running_def freq_1MHz_def)
qed

section \<open>Properties\<close>

lemma uint_arr: "1 \<le> n \<Longrightarrow> n \<le> 65000 \<Longrightarrow> uint (to_u16 (n - 1)) + 1 = n"
  by (simp add: uint_to_u16)

text \<open>A write of a time value to the opened timer starts it so that its interrupts call the
  client back once every \<open>reload\<close> interrupts, and \<open>reload\<close> counter periods take the time value
  to within one microsecond, for as many interrupts as the overflow counter can count.\<close>

theorem timer_write_period:
  assumes "hwt_ready t" "ok_timeval v" "n \<le> 2147483647"
  shows "\<exists>t1 t2. hwt_write v t = Inr t1
     \<and> run_ticks rt_device_hwtimer_isr n t1 = Inr (t2, n div nat (hwt_reload t1))
     \<and> hwt_running t2 \<and> 1 \<le> hwt_reload t1
     \<and> (uint (tim_arr (tim t1)) + 1) * hwt_reload t1 \<in> {tv_usec v - 1 .. tv_usec v}"
proof -
  obtain t1 m where w: "rt_device_write t v 8 = Inr (8, t1)" "tim_arr (tim t1) = to_u16 (m - 1)" "1 \<le> m"
    "tv_usec v - 1 \<le> m * hwt_reload t1" "m * hwt_reload t1 \<le> tv_usec v" "1 \<le> hwt_reload t1"
    using rt_device_write_started[OF assms(1,2)] by auto
  have "m * 1 \<le> m * hwt_reload t1" using w by (intro mult_left_mono) simp_all
  then have "m \<le> 65000" using w(5) assms(2) unfolding ok_timeval_def by linarith
  then have "uint (tim_arr (tim t1)) + 1 = m" using w by (simp add: uint_arr)
  moreover obtain t2 where "run_ticks rt_device_hwtimer_isr n t1 = Inr (t2, n div nat (hwt_reload t1))"
    "hwt_running t2" using tim2.start_ticks[OF assms] w by (auto simp: hwt_write_def)
  ultimately show ?thesis using w by (auto simp: hwt_write_def)
qed

definition timer_ready :: rt_hwtimer_t where
  "timer_ready = timer_1MHz\<lparr>dev_ref_count := 1, hwt_mode := HWTIMER_MODE_PERIOD,
     rx_indicate := Some Dac_Cb\<rparr>"

lemma timer_ready_ready: "hwt_ready timer_ready"
  by (simp add: timer_ready_def timer_1MHz_def hwt_ready_def freq_1MHz_def rt_hwtimer_registered_def
      tim_dev_info_def tim_reset_def)

lemma timer_write_period_witness:
  "\<exists>t1 t2. hwt_write \<lparr>tv_sec = 0, tv_usec = 1064\<rparr> timer_ready = Inr t1
     \<and> run_ticks rt_device_hwtimer_isr 5 t1 = Inr (t2, 5 div nat (hwt_reload t1))
     \<and> hwt_running t2 \<and> 1 \<le> hwt_reload t1
     \<and> (uint (tim_arr (tim t1)) + 1) * hwt_reload t1 \<in> {1063 .. 1064}"
  using timer_write_period[OF timer_ready_ready, of "\<lparr>tv_sec = 0, tv_usec = 1064\<rparr>" 5]
  by (simp add: ok_timeval_def)

text \<open>\<open>HWTIMER_CTRL_INFO_GET\<close> falls through into the mode command: it copies the timer's
  information and still returns an error, whatever the state.\<close>

theorem info_get_fails:
  assumes "hwt_info t = tim_dev_info"
  shows "rt_device_control t (Ctrl_Info_Get (Some i)) =
           Inr (- RT_ERROR, Ctrl_Info_Get (Some tim_dev_info), t)"
  using assms by (simp add: rt_device_control_def hwtimer_mode_set_def tim_dev_info_def)

lemma info_get_fails_witness:
  "rt_device_control timer_ready (Ctrl_Info_Get (Some tim_dev_info)) =
     Inr (- 1, Ctrl_Info_Get (Some tim_dev_info), timer_ready)"
  using info_get_fails[of timer_ready tim_dev_info]
  by (simp add: timer_ready_def timer_1MHz_def rt_hwtimer_registered_def)

end
