(* ===== verification/Dac_Drv.thy ===== *)
theory Dac_Drv
  imports Board Led_Drv Hwtimer_Period
begin

text \<open>
  The output stage (\<open>applications/dac_drv.c\<close>): the DAC that sets the amplitude, and the timer
  callback that toggles the analog multiplexer and the beeper, which makes the rectangle wave.
\<close>

section \<open>Operations\<close>

abbreviation (input) MUX_SEL :: int where "MUX_SEL \<equiv> GET_PIN GPIOA 2"
abbreviation (input) BEEPER :: int where "BEEPER \<equiv> GET_PIN GPIOA 11"

definition OPWR_IND :: "u16 list" where
  "OPWR_IND = [203, 438, 639, 817, 966, 1217, 1428, 1615, 1783, 2453]"

definition dac_cb :: "world \<Rightarrow> world" where
  "dac_cb w =
     (if w_rect_flag w = 0
      then (upd_gpio (\<lambda>g. rt_pin_write BEEPER PIN_HIGH (rt_pin_write MUX_SEL PIN_HIGH g)) w)
             \<lparr>w_rect_flag := 1\<rparr>
      else (upd_gpio (\<lambda>g. rt_pin_write BEEPER PIN_LOW (rt_pin_write MUX_SEL PIN_LOW g)) w)
             \<lparr>w_rect_flag := 0\<rparr>)"

text \<open>Calls of the device layer through \<open>hw_dev\<close>, which is asserted not to be null.\<close>

definition on_hw_dev :: "(rt_hwtimer_t \<Rightarrow> ('a \<times> rt_hwtimer_t) res) \<Rightarrow> world \<Rightarrow> ('a \<times> world) res" where
  "on_hw_dev f w =
     bindE (assertE (w_hw_dev w)) (\<lambda>_.
     bindE (f (w_tim w)) (\<lambda>(r, t). Inr (r, w\<lparr>w_tim := t\<rparr>)))"

definition hwt_init :: "world \<Rightarrow> (int \<times> world) res" where
  "hwt_init w =
     (let w1 = w\<lparr>w_hw_dev := w_tim_found w\<rparr> in
      if \<not> w_hw_dev w1 then Inr (RT_ERROR, w1)
      else bindE (on_hw_dev rt_device_open w1) (\<lambda>(ret, w2).
        if ret \<noteq> RT_EOK then Inr (ret, w2)
        else bindE (on_hw_dev (\<lambda>t. Inr ((), rt_device_set_rx_indicate t (Some Dac_Cb))) w2) (\<lambda>(_, w3).
             bindE (on_hw_dev (\<lambda>t. bindE (rt_device_control t (Ctrl_Mode_Set (Some HWTIMER_MODE_PERIOD)))
                                     (\<lambda>(r, _, t1). Inr (r, t1))) w3) Inr)))"

definition sr_hwt_start :: "int \<Rightarrow> int \<Rightarrow> world \<Rightarrow> (int \<times> world) res" where
  "sr_hwt_start sec u_sec w =
     bindE (if wg_mode (w_conf w) = 0
            then bindE (c_div 500000 u_sec) (\<lambda>q. Inr (q + 1)) else Inr u_sec) (\<lambda>usec.
     bindE (on_hw_dev (\<lambda>t. rt_device_write t \<lparr>tv_sec = sec, tv_usec = usec\<rparr> 8) w) (\<lambda>(n, w1).
       Inr (if n \<noteq> 8 then RT_ERROR else RT_EOK, w1)))"

definition sr_hwt_stop :: "world \<Rightarrow> (int \<times> world) res" where
  "sr_hwt_stop w =
     on_hw_dev (\<lambda>t. bindE (rt_device_control t Ctrl_Stop) (\<lambda>(r, _, t1). Inr (r, t1))) w"

text \<open>\<open>HAL_DAC_SetValue\<close> writes the data holding register, of which the hardware keeps 12 bits.\<close>

definition HAL_DAC_SetValue :: "u32 \<Rightarrow> world \<Rightarrow> world" where
  "HAL_DAC_SetValue d w = w\<lparr>w_dac_dhr := d AND 0xFFF\<rparr>"

definition MX_DAC_Init :: "world \<Rightarrow> world" where
  "MX_DAC_Init w = w\<lparr>w_dac_boff := True\<rparr>"

definition dac_set :: "u32 \<Rightarrow> world \<Rightarrow> world" where
  "dac_set dac_val w = HAL_DAC_SetValue dac_val w"

definition dac_set_volum :: "world \<Rightarrow> world res" where
  "dac_set_volum w =
     bindE (arr_get OPWR_IND (unat (volum_index (w_stat w)))) (\<lambda>v. Inr (dac_set (ucast v) w))"

definition dac_set_val :: "string list \<Rightarrow> world \<Rightarrow> world res" where
  "dac_set_val argv w =
     (if length argv < 2 then Inr w
      else bindE (atoi (argv ! 1)) (\<lambda>v. Inr (dac_set (to_u32 v) w)))"

definition dac_start :: "world \<Rightarrow> world" where
  "dac_start w = dac_set 1000 (w\<lparr>w_dac_en := True\<rparr>)"

definition dac_init :: "world \<Rightarrow> (int \<times> world) res" where
  "dac_init w =
     hwt_init (dac_start (MX_DAC_Init (upd_gpio (\<lambda>g.
       rt_pin_write BEEPER PIN_LOW (rt_pin_write MUX_SEL PIN_LOW
         (rt_pin_mode BEEPER PIN_MODE_OUTPUT (rt_pin_mode MUX_SEL PIN_MODE_OUTPUT g)))) w)))"

text \<open>The update interrupt of TIM2: the framework's routine, then the callback it asks for.\<close>

definition tim2_irq :: "world \<Rightarrow> world res" where
  "tim2_irq w =
     bindE (rt_device_hwtimer_isr (w_tim w)) (\<lambda>(t, cb).
       let w1 = w\<lparr>w_tim := t\<rparr>
       in Inr (case cb of None \<Rightarrow> w1 | Some Dac_Cb \<Rightarrow> dac_cb w1))"

end
