(* ===== verification/Reg_Chk.thy ===== *)
theory Reg_Chk
  imports Dac_Drv
begin

text \<open>
  The actions behind the configuration registers and the buttons
  (\<open>applications/reg_chk.c\<close>): switching the output, setting volume and frequency, resetting.
  Each returns 1 and the updated state.
\<close>

definition b2w :: "bool \<Rightarrow> u8" where
  "b2w b = (if b then 1 else 0)"

text \<open>The \<open>int16_t\<close> parameters of \<open>sr_hwt_start\<close> truncate the registers they are called with.\<close>

definition reg_s16 :: "u16 \<Rightarrow> int" where
  "reg_s16 v = to_s16 (uint v)"

definition power_en_opt :: "u16 \<Rightarrow> world \<Rightarrow> (u16 \<times> world) res" where
  "power_en_opt pram w =
     bindE (if pram = 1 \<and> drop_bit GBM_LOAD (ms_status (w_stat w)) AND 1 = 0
            then let w1 = set_stat (volum_reg_update (\<lambda>_. 0)) w in
                 bindE (sr_hwt_start 0 (reg_s16 (rect_freq (w_stat w1))) w1) (\<lambda>(_, w2).
                   Inr (set_stat (out_en_update (\<lambda>_. 1)) w2))
            else bindE (sr_hwt_stop (set_stat (out_en_update (\<lambda>_. 0)) w)) (\<lambda>(_, w2). Inr w2))
       (\<lambda>w3. let w4 = upd_gpio (led_en (out_en (w_stat w3)) (w_sys w3)) w3
             in Inr (1, upd_gpio (set_ind_led 0 (b2w (out_en (w_stat w4) = 0))) w4))"

definition volum_opt :: "u16 \<Rightarrow> world \<Rightarrow> (u16 \<times> world) res" where
  "volum_opt pram w =
     bindE (dac_set_volum w) (\<lambda>w1.
       let w2 = set_stat (volum_index_update (\<lambda>_. pram)) w1
       in Inr (1, upd_gpio (set_vol_led (volum_index (w_stat w2))) w2))"

definition rect_freq_opt :: "u16 \<Rightarrow> world \<Rightarrow> (u16 \<times> world) res" where
  "rect_freq_opt pram w =
     bindE (sr_hwt_stop (set_stat (rect_freq_update (\<lambda>_. pram)) w)) (\<lambda>(_, w1).
     bindE (sr_hwt_start 0 (reg_s16 pram) (rt_thread_delay 1 w1)) (\<lambda>(_, w2). Inr (1, w2)))"

definition freq_select :: "u16 \<Rightarrow> config_st \<Rightarrow> status_st \<Rightarrow> status_st" where
  "freq_select pram c s =
     (if pram = 0 then s\<lparr>half_period := 27, mul_factor := 2, freq_index := 0, rect_freq := 290\<rparr>
      else if pram = 1 then s\<lparr>half_period := 50, mul_factor := 6, freq_index := 1, rect_freq := 470\<rparr>
      else if pram = 2 then s\<lparr>half_period := 27, mul_factor := 4, freq_index := 2, rect_freq := 580\<rparr>
      else if pram = 3 then s\<lparr>half_period := 34, mul_factor := 6, freq_index := 3, rect_freq := 690\<rparr>
      else if pram = 4 then s\<lparr>freq_index := 4, rect_freq := rect_freq_conf c\<rparr>
      else s\<lparr>half_period := 50, mul_factor := 6, freq_index := 0, rect_freq := 470\<rparr>)"

definition freq_opt :: "u16 \<Rightarrow> world \<Rightarrow> (u16 \<times> world) res" where
  "freq_opt pram w =
     (let w1 = set_stat (freq_select pram (w_conf w)) w in
      bindE (rect_freq_opt (rect_freq (w_stat w1)) w1) (\<lambda>(_, w2).
        Inr (1, upd_gpio (set_freq_led (freq_index (w_stat w2))) w2)))"

definition sys_reset_opt :: "u16 \<Rightarrow> world \<Rightarrow> (u16 \<times> world) res" where
  "sys_reset_opt pram w = (if pram = 9527 then Inl System_Reset else Inr (1, w))"

section \<open>What the output stage needs\<close>

text \<open>
  The output stage is set up when \<open>hwt_init\<close> has opened the timer device and the wave generator
  mode is the rectangle wave, the only one the registers offer. Then starting the timer with a
  frequency from 8 Hz on succeeds.
\<close>

definition stage_ready :: "world \<Rightarrow> bool" where
  "stage_ready w \<longleftrightarrow> w_hw_dev w \<and> hwt_ready (w_tim w) \<and> wg_mode (w_conf w) = 0"

definition half_period_usec :: "u16 \<Rightarrow> int" where
  "half_period_usec f = 500000 div uint f + 1"

lemma ok_half_period:
  assumes "8 \<le> uint f" "uint f \<le> 32767"
  shows "ok_timeval \<lparr>tv_sec = 0, tv_usec = half_period_usec f\<rparr>"
proof -
  have "500000 div uint f \<le> 500000 div 8" using assms by (intro zdiv_mono2) simp_all
  moreover have "500000 div 32767 \<le> 500000 div uint f" using assms by (intro zdiv_mono2) simp_all
  ultimately show ?thesis by (simp add: ok_timeval_def half_period_usec_def)
qed

lemma sr_hwt_stop_ready:
  assumes "stage_ready w"
  shows "sr_hwt_stop w = Inr (RT_EOK, w\<lparr>w_tim := timer_stop (w_tim w)\<rparr>)"
  using assms by (simp add: sr_hwt_stop_def on_hw_dev_def stage_ready_def rt_device_control_def)

lemma sr_hwt_start_ready:
  assumes "stage_ready w" "8 \<le> uint f" "uint f \<le> 32767"
  shows "\<exists>t. sr_hwt_start 0 (reg_s16 f) w = Inr (RT_EOK, w\<lparr>w_tim := t\<rparr>)
     \<and> hwt_write \<lparr>tv_sec = 0, tv_usec = half_period_usec f\<rparr> (w_tim w) = Inr t
     \<and> hwt_ready t \<and> hwt_running t \<and> hwt_overflow t = 0 \<and> 1 \<le> hwt_reload t
     \<and> hwt_cycles t = hwt_reload t"
proof -
  have s: "reg_s16 f = uint f" using assms by (simp add: reg_s16_def to_s16_id)
  have q: "c_div 500000 (uint f) = Inr (500000 div uint f)"
    using assms by (simp add: c_div_def c_quot_nonneg)
  show ?thesis
    using rt_device_write_started[OF _ ok_half_period[OF assms(2,3)], of "w_tim w"] assms(1)
    by (auto simp: sr_hwt_start_def on_hw_dev_def stage_ready_def s q half_period_usec_def
        hwt_write_def)
qed

lemma stage_ready_upd [simp]:
  "stage_ready (upd_gpio f w) = stage_ready w"
  "stage_ready (set_stat h w) = stage_ready w"
  "stage_ready (rt_thread_delay n w) = stage_ready w"
  "hwt_ready t \<Longrightarrow> stage_ready w \<Longrightarrow> stage_ready (w\<lparr>w_tim := t\<rparr>)"
  by (simp_all add: stage_ready_def world_upd)

end
