(* ===== verification/Gvar.thy ===== *)
theory Gvar
  imports Reg_Chk
begin

text \<open>
  The register maps of the firmware (\<open>applications/gvar.c\<close>): the tables of configuration and
  status registers, their initialisation, checked multi-register writes and reads, and the two
  shell commands on top of them.
\<close>

section \<open>Tables\<close>

datatype chk_fn = Power_En_Opt | Freq_Opt | Volum_Opt | Rect_Freq_Opt | Sys_Reset_Opt

fun run_chk :: "chk_fn \<Rightarrow> u16 \<Rightarrow> world \<Rightarrow> (u16 \<times> world) res" where
  "run_chk Power_En_Opt = power_en_opt"
| "run_chk Freq_Opt = freq_opt"
| "run_chk Volum_Opt = volum_opt"
| "run_chk Rect_Freq_Opt = rect_freq_opt"
| "run_chk Sys_Reset_Opt = sys_reset_opt"

text \<open>The minimum is an \<open>int16_t\<close>, the maximum a \<open>uint16_t\<close>; both are compared as \<open>int\<close>.\<close>

record conf_reg_map_st =
  c_id :: u16
  c_reg_ptr :: "reg_ptr option"
  c_min :: int
  c_max :: int
  c_dft :: u16
  c_type :: u8
  c_chk_ptr :: "chk_fn option"

record sts_reg_map_st =
  s_id :: u16
  s_reg_ptr :: "reg_ptr option"
  s_dft :: u16

definition conf_reg_map_inst :: "conf_reg_map_st list" where
  "conf_reg_map_inst =
    [\<lparr>c_id = 0, c_reg_ptr = Some P_pwr_en, c_min = 0, c_max = 1, c_dft = 0, c_type = 0,
      c_chk_ptr = Some Power_En_Opt\<rparr>,
     \<lparr>c_id = 1, c_reg_ptr = Some P_freq_set, c_min = 0, c_max = 4, c_dft = 1, c_type = 0,
      c_chk_ptr = Some Freq_Opt\<rparr>,
     \<lparr>c_id = 2, c_reg_ptr = Some P_volum_set, c_min = 0, c_max = 8, c_dft = 4, c_type = 0,
      c_chk_ptr = Some Volum_Opt\<rparr>,
     \<lparr>c_id = 3, c_reg_ptr = None, c_min = 0, c_max = 0, c_dft = 0, c_type = 0, c_chk_ptr = None\<rparr>,
     \<lparr>c_id = 4, c_reg_ptr = None, c_min = 0, c_max = 0, c_dft = 0, c_type = 0, c_chk_ptr = None\<rparr>,
     \<lparr>c_id = 5, c_reg_ptr = Some P_conf_rect_freq, c_min = 100, c_max = 6000, c_dft = 470,
      c_type = 0, c_chk_ptr = Some Rect_Freq_Opt\<rparr>,
     \<lparr>c_id = 6, c_reg_ptr = Some P_phase_offset, c_min = 0, c_max = 255, c_dft = 0, c_type = 0,
      c_chk_ptr = None\<rparr>,
     \<lparr>c_id = 7, c_reg_ptr = Some P_volum_step, c_min = 1, c_max = 100, c_dft = 1, c_type = 0,
      c_chk_ptr = None\<rparr>,
     \<lparr>c_id = 8, c_reg_ptr = Some P_dac_offset, c_min = 0, c_max = 2048, c_dft = 2047, c_type = 0,
      c_chk_ptr = None\<rparr>,
     \<lparr>c_id = 9, c_reg_ptr = Some P_bat_up_lim, c_min = 3000, c_max = 6400, c_dft = 4200,
      c_type = 0, c_chk_ptr = None\<rparr>,
     \<lparr>c_id = 10, c_reg_ptr = Some P_bat_low_lim, c_min = 0, c_max = 4500, c_dft = 2800,
      c_type = 0, c_chk_ptr = None\<rparr>,
     \<lparr>c_id = 11, c_reg_ptr = Some P_bat_mav_cnt, c_min = 0, c_max = 128, c_dft = 32, c_type = 0,
      c_chk_ptr = None\<rparr>,
     \<lparr>c_id = 12, c_reg_ptr = None, c_min = 0, c_max = 0, c_dft = 0, c_type = 0, c_chk_ptr = None\<rparr>,
     \<lparr>c_id = 13, c_reg_ptr = None, c_min = 0, c_max = 0, c_dft = 0, c_type = 0, c_chk_ptr = None\<rparr>,
     \<lparr>c_id = 14, c_reg_ptr = None, c_min = 0, c_max = 0, c_dft = 0, c_type = 0, c_chk_ptr = None\<rparr>,
     \<lparr>c_id = 15, c_reg_ptr = None, c_min = 9527, c_max = 9527, c_dft = 0, c_type = 0,
      c_chk_ptr = Some Sys_Reset_Opt\<rparr>]"

definition status_reg_map_inst :: "sts_reg_map_st list" where
  "status_reg_map_inst =
    [\<lparr>s_id = 0, s_reg_ptr = Some P_software_ver, s_dft = SOFTWARE_VER\<rparr>,
     \<lparr>s_id = 1, s_reg_ptr = Some P_hardware_ver, s_dft = HARDWARE_VER\<rparr>,
     \<lparr>s_id = 2, s_reg_ptr = None, s_dft = 0\<rparr>,
     \<lparr>s_id = 3, s_reg_ptr = None, s_dft = 0\<rparr>,
     \<lparr>s_id = 4, s_reg_ptr = Some P_mcu_temp, s_dft = 0\<rparr>,
     \<lparr>s_id = 5, s_reg_ptr = Some P_volum_reg, s_dft = 0\<rparr>,
     \<lparr>s_id = 6, s_reg_ptr = Some P_rect_freq, s_dft = 470\<rparr>,
     \<lparr>s_id = 7, s_reg_ptr = Some P_ms_status, s_dft = 0\<rparr>,
     \<lparr>s_id = 8, s_reg_ptr = Some P_bat_volt, s_dft = 0\<rparr>,
     \<lparr>s_id = 9, s_reg_ptr = Some P_bat_volum, s_dft = 0\<rparr>,
     \<lparr>s_id = 10, s_reg_ptr = Some P_bat_adc_raw, s_dft = 0\<rparr>,
     \<lparr>s_id = 11, s_reg_ptr = Some P_half_period, s_dft = 50\<rparr>,
     \<lparr>s_id = 12, s_reg_ptr = Some P_mul_factor, s_dft = 6\<rparr>,
     \<lparr>s_id = 13, s_reg_ptr = Some P_out_en, s_dft = 0\<rparr>,
     \<lparr>s_id = 14, s_reg_ptr = Some P_freq_index, s_dft = 1\<rparr>,
     \<lparr>s_id = 15, s_reg_ptr = Some P_volum_index, s_dft = 4\<rparr>]"

definition conf_entry :: "nat \<Rightarrow> conf_reg_map_st res" where
  "conf_entry i = arr_get conf_reg_map_inst i"

section \<open>Initialisation\<close>

definition store_dft :: "reg_ptr option \<times> u16 \<Rightarrow> sys_reg_st \<Rightarrow> sys_reg_st" where
  "store_dft e g = (case fst e of None \<Rightarrow> g | Some p \<Rightarrow> reg_store p (snd e) g)"

definition init_load_status :: "sys_reg_st \<Rightarrow> sys_reg_st" where
  "init_load_status g = fold (\<lambda>e. store_dft (s_reg_ptr e, s_dft e)) status_reg_map_inst g"

definition init_load_default :: "sys_reg_st \<Rightarrow> sys_reg_st" where
  "init_load_default g = fold (\<lambda>e. store_dft (c_reg_ptr e, c_dft e)) conf_reg_map_inst g"

definition gvar_init :: "world \<Rightarrow> world" where
  "gvar_init = upd_sys (\<lambda>g. init_load_default (init_load_status g))"

section \<open>Writes\<close>

text \<open>The check loop: it runs the actions as it goes. \<open>Inr (Inl (c, w))\<close> is an early return.\<close>

fun write_check :: "nat \<Rightarrow> u16 list \<Rightarrow> world \<Rightarrow> (u16 \<times> world + world) res" where
  "write_check a [] w = Inr (Inr w)"
| "write_check a (d # ds) w =
     bindE (conf_entry a) (\<lambda>e.
       if uint d > c_max e \<or> uint d < c_min e then Inr (Inl (REGMAP_ERR_DATA_OR, w))
       else case c_chk_ptr e of
              None \<Rightarrow> write_check (Suc a) ds w
            | Some f \<Rightarrow> bindE (run_chk f d w) (\<lambda>(r, w1).
                if r = 0 then Inr (Inl (REGMAP_ERR_CONFLICT_OR, w1))
                else write_check (Suc a) ds w1))"

fun write_data :: "nat \<Rightarrow> u16 list \<Rightarrow> world \<Rightarrow> world res" where
  "write_data a [] w = Inr w"
| "write_data a (d # ds) w =
     bindE (conf_entry a) (\<lambda>e. write_data (Suc a) ds (upd_sys (store_dft (c_reg_ptr e, d)) w))"

text \<open>\<open>wr_cnt\<close> values are read from the caller's buffer; reading past it is a fault, when the
  check loop gets there.\<close>

definition reg_map_write :: "u16 \<Rightarrow> u16 list \<Rightarrow> u8 \<Rightarrow> world \<Rightarrow> (u16 \<times> world) res" where
  "reg_map_write reg_addr wr_data wr_cnt w =
     (if unat reg_addr + unat wr_cnt > CONF_REG_MAP_NUM then Inr (REGMAP_ERR_ADDR_OR, w)
      else let ds = take (unat wr_cnt) wr_data in
        bindE (write_check (unat reg_addr) ds w) (\<lambda>r. case r of
          Inl (err, w1) \<Rightarrow> Inr (err, w1)
        | Inr w1 \<Rightarrow> if length wr_data < unat wr_cnt then Inl Out_Of_Bounds
                    else bindE (write_data (unat reg_addr) ds w1) (\<lambda>w2.
                           Inr (REGMAP_ERR_NOERR, w2))))"

section \<open>Reads\<close>

text \<open>The buffer's elements are \<open>None\<close> until they are written.\<close>

fun read_loop ::
  "(nat \<Rightarrow> reg_ptr option res) \<Rightarrow> nat \<Rightarrow> nat \<Rightarrow> nat \<Rightarrow> sys_reg_st \<Rightarrow> u16 option list
   \<Rightarrow> u16 option list res" where
  "read_loop entry a i 0 g buf = Inr buf"
| "read_loop entry a i (Suc n) g buf =
     bindE (entry (a + i)) (\<lambda>p. case p of
       None \<Rightarrow> Inl Null_Deref
     | Some p \<Rightarrow> bindE (arr_set buf i (Some (reg_load p g))) (\<lambda>buf1.
         read_loop entry a (Suc i) n g buf1))"

definition conf_ptr :: "nat \<Rightarrow> reg_ptr option res" where
  "conf_ptr i = bindE (arr_get conf_reg_map_inst i) (\<lambda>e. Inr (c_reg_ptr e))"

definition status_ptr :: "nat \<Rightarrow> reg_ptr option res" where
  "status_ptr i = bindE (arr_get status_reg_map_inst i) (\<lambda>e. Inr (s_reg_ptr e))"

definition reg_map_read ::
  "u16 \<Rightarrow> u16 option list \<Rightarrow> u8 \<Rightarrow> sys_reg_st \<Rightarrow> (u16 \<times> u16 option list) res" where
  "reg_map_read reg_addr buf read_cnt g =
     (if reg_addr AND 0x8000 \<noteq> 0
      then let reg_addr1 = reg_addr AND 0x7fff in
           if unat reg_addr1 > STAT_REG_MAP_NUM then Inr (REGMAP_ERR_ADDR_OR, buf)
           else bindE (read_loop status_ptr (unat reg_addr1) 0 (unat read_cnt) g buf)
                  (\<lambda>b. Inr (REGMAP_ERR_NOERR, b))
      else if unat reg_addr > CONF_REG_MAP_NUM then Inr (REGMAP_ERR_ADDR_OR, buf)
      else bindE (read_loop conf_ptr (unat reg_addr) 0 (unat read_cnt) g buf)
             (\<lambda>b. Inr (REGMAP_ERR_NOERR, b)))"

section \<open>Shell commands\<close>

text \<open>\<open>argv\<close> is followed by null pointers, so an argument beyond \<open>argc\<close> is one.\<close>

definition argv_get :: "string list \<Rightarrow> nat \<Rightarrow> string res" where
  "argv_get argv i = (if i < length argv then Inr (argv ! i) else Inl Null_Deref)"

definition atoi_u16 :: "string \<Rightarrow> u16 res" where
  "atoi_u16 s = bindE (atoi s) (\<lambda>v. Inr (to_u16 v))"

fun print_regs :: "u16 \<Rightarrow> nat \<Rightarrow> nat \<Rightarrow> u16 option list \<Rightarrow> (u16 \<times> u16) list res" where
  "print_regs a i 0 buf = Inr []"
| "print_regs a i (Suc n) buf =
     bindE (arr_get buf i) (\<lambda>v. case v of
       None \<Rightarrow> Inl Uninit_Read
     | Some v \<Rightarrow> bindE (print_regs a (Suc i) n buf) (\<lambda>out.
         Inr (((a + of_nat i) AND 0x3fff, v) # out)))"

text \<open>The lines printed; \<open>reg_map_read\<close> takes the count as a \<open>uint8_t\<close> and its error is ignored.\<close>

definition rd_reg_map :: "string list \<Rightarrow> world \<Rightarrow> (u16 \<times> u16) list res" where
  "rd_reg_map argv w =
     bindE (argv_get argv 1) (\<lambda>s1. bindE (atoi_u16 s1) (\<lambda>reg_addr.
     bindE (argv_get argv 2) (\<lambda>s2. bindE (atoi_u16 s2) (\<lambda>reg_cnt.
       if length argv < 3 then Inr []
       else bindE (reg_map_read reg_addr (replicate 32 None) (ucast reg_cnt) (w_sys w)) (\<lambda>(_, buf).
              print_regs reg_addr 0 (unat reg_cnt) buf)))))"

definition wr_reg_map :: "string list \<Rightarrow> world \<Rightarrow> (u16 \<times> world) res" where
  "wr_reg_map argv w =
     (if length argv < 3 then Inr (0, w)
      else bindE (atoi_u16 (argv ! 2)) (\<lambda>wr_data.
           bindE (atoi_u16 (argv ! 1)) (\<lambda>addr. reg_map_write addr [wr_data] 1 w)))"

end
