(* ===== verification/App_Inv.thy ===== *)
theory App_Inv
  imports Gvar
begin

text \<open>
  The invariant of the application's registers and output stage, that the actions of
  \<open>reg_chk.c\<close> never fail under it and keep it, and what a register write does.
\<close>

section \<open>The invariant\<close>

definition in_range :: "conf_reg_map_st \<Rightarrow> sys_reg_st \<Rightarrow> bool" where
  "in_range e g = (case c_reg_ptr e of None \<Rightarrow> True
     | Some p \<Rightarrow> c_min e \<le> uint (reg_load p g) \<and> uint (reg_load p g) \<le> c_max e)"

definition conf_in_range :: "sys_reg_st \<Rightarrow> bool" where
  "conf_in_range g = list_all (\<lambda>e. in_range e g) conf_reg_map_inst"

definition app_inv :: "world \<Rightarrow> bool" where
  "app_inv w \<longleftrightarrow> stage_ready w \<and> conf_in_range (w_sys w)
     \<and> freq_index (w_stat w) \<le> 4 \<and> volum_index (w_stat w) \<le> 8 \<and> out_en (w_stat w) \<le> 1
     \<and> 100 \<le> uint (rect_freq (w_stat w)) \<and> uint (rect_freq (w_stat w)) \<le> 6000"

lemma length_maps [simp]: "length conf_reg_map_inst = 16" "length status_reg_map_inst = 16"
  by (simp_all add: conf_reg_map_inst_def status_reg_map_inst_def)

lemma reg_load_conf: "is_conf_ptr p \<Longrightarrow> conf g' = conf g \<Longrightarrow> reg_load p g' = reg_load p g"
  by (cases p) simp_all

lemma conf_ptrs: "list_all (\<lambda>e. case c_reg_ptr e of None \<Rightarrow> True | Some p \<Rightarrow> is_conf_ptr p) conf_reg_map_inst"
  by (simp add: conf_reg_map_inst_def)

lemma conf_in_range_cong: "conf g' = conf g \<Longrightarrow> conf_in_range g' = conf_in_range g"
  using conf_ptrs unfolding conf_in_range_def list_all_iff in_range_def
  by (intro ball_cong refl) (fastforce split: option.splits simp: reg_load_conf[of _ g' g] simp del: is_conf_ptr.simps)

lemma conf_in_range_stat [simp]: "conf_in_range (g\<lparr>stat := s\<rparr>) = conf_in_range g"
  by (rule conf_in_range_cong) simp

lemma conf_rect_freq_range:
  "conf_in_range (w_sys w) \<Longrightarrow> 100 \<le> uint (rect_freq_conf (w_conf w)) \<and> uint (rect_freq_conf (w_conf w)) \<le> 6000"
  by (simp add: conf_in_range_def in_range_def conf_reg_map_inst_def)

lemma stage_ready_conf: "w_hw_dev w' = w_hw_dev w \<Longrightarrow> w_tim w' = w_tim w \<Longrightarrow> wg_mode (w_conf w') = wg_mode (w_conf w)
   \<Longrightarrow> stage_ready w' = stage_ready w"
  by (simp add: stage_ready_def)

text \<open>The invariant of a state that differs in the status, the pins or the timer only.\<close>

lemma app_inv_intro:
  assumes "app_inv w" "w_hw_dev w' = w_hw_dev w" "hwt_ready (w_tim w')" "w_conf w' = w_conf w"
    "freq_index (w_stat w') \<le> 4" "volum_index (w_stat w') \<le> 8" "out_en (w_stat w') \<le> 1"
    "100 \<le> uint (rect_freq (w_stat w'))" "uint (rect_freq (w_stat w')) \<le> 6000"
  shows "app_inv w'"
  using assms conf_in_range_cong[of "w_sys w'" "w_sys w"] by (simp add: app_inv_def stage_ready_def)

lemma app_inv_timer: "app_inv w \<Longrightarrow> hwt_ready t \<Longrightarrow> app_inv (w\<lparr>w_tim := t\<rparr>)"
  by (rule app_inv_intro[of w]) (simp_all add: app_inv_def)

lemma app_inv_ready: "app_inv w \<Longrightarrow> stage_ready w" "app_inv w \<Longrightarrow> hwt_ready (w_tim w)"
  by (simp_all add: app_inv_def stage_ready_def)

lemma app_inv_rect_freq: "app_inv w \<Longrightarrow> 8 \<le> uint (rect_freq (w_stat w)) \<and> uint (rect_freq (w_stat w)) \<le> 32767"
  by (simp add: app_inv_def)

section \<open>The actions\<close>

text \<open>What the output does after an action: the timer stands still, or runs at a frequency.\<close>

definition wave_at :: "u16 \<Rightarrow> world \<Rightarrow> bool" where
  "wave_at f w \<longleftrightarrow> hwt_running (w_tim w)
     \<and> (\<exists>t. hwt_ready t \<and> hwt_write \<lparr>tv_sec = 0, tv_usec = half_period_usec f\<rparr> t = Inr (w_tim w))"

definition wave_off :: "world \<Rightarrow> bool" where
  "wave_off w \<longleftrightarrow> \<not> hwt_running (w_tim w)"

definition load_bit :: "world \<Rightarrow> bool" where
  "load_bit w \<longleftrightarrow> bit (ms_status (w_stat w)) GBM_LOAD"

lemma load_bit_test: "(drop_bit GBM_LOAD s AND 1 = (0 :: u16)) = (\<not> bit s GBM_LOAD)"
  by (simp add: and_one_eq mod_2_eq_odd flip: bit_iff_odd_drop_bit)

lemma power_en_opt_on:
  assumes "app_inv w" "\<not> load_bit w"
  shows "\<exists>w'. power_en_opt 1 w = Inr (1, w') \<and> app_inv w' \<and> w_conf w' = w_conf w
    \<and> w_stat w' = (w_stat w)\<lparr>volum_reg := 0, out_en := 1\<rparr> \<and> wave_at (rect_freq (w_stat w)) w'"
proof -
  define w1 where "w1 = set_stat (volum_reg_update (\<lambda>_. 0)) w"
  have r1: "stage_ready w1" using assms by (simp add: w1_def app_inv_ready)
  have f: "rect_freq (w_stat w1) = rect_freq (w_stat w)" by (simp add: w1_def world_upd)
  obtain t where t: "sr_hwt_start 0 (reg_s16 (rect_freq (w_stat w))) w1 = Inr (RT_EOK, w1\<lparr>w_tim := t\<rparr>)"
    "hwt_write \<lparr>tv_sec = 0, tv_usec = half_period_usec (rect_freq (w_stat w))\<rparr> (w_tim w1) = Inr t"
    "hwt_ready t" "hwt_running t"
    using sr_hwt_start_ready[OF r1] app_inv_rect_freq[OF assms(1)] by blast
  have rw: "hwt_ready (w_tim w1)" using r1 by (simp add: stage_ready_def)
  have b: "drop_bit GBM_LOAD (ms_status (w_stat w)) AND 1 = 0"
    using assms(2) by (simp only: load_bit_test load_bit_def) simp
  show ?thesis
    unfolding power_en_opt_def
    using assms(1) b t rw
    by (auto simp: Let_def f simp flip: w1_def intro!: app_inv_intro[OF assms(1)] exI[of _ "w_tim w1"]
        simp: wave_at_def)
      (auto simp: w1_def world_upd app_inv_def)
qed

lemma hwt_stop_facts: "app_inv w \<Longrightarrow> hwt_ready (timer_stop (w_tim w)) \<and> \<not> hwt_running (timer_stop (w_tim w))"
  using tim2.stop[of "w_tim w"] by (simp add: app_inv_ready)

lemma power_en_opt_off:
  assumes "app_inv w" "pram \<noteq> 1 \<or> load_bit w"
  shows "\<exists>w'. power_en_opt pram w = Inr (1, w') \<and> app_inv w' \<and> w_conf w' = w_conf w
    \<and> w_stat w' = (w_stat w)\<lparr>out_en := 0\<rparr> \<and> wave_off w'"
proof -
  have c: "\<not> (pram = 1 \<and> drop_bit GBM_LOAD (ms_status (w_stat w)) AND 1 = 0)"
    using assms(2) by (simp only: load_bit_test load_bit_def) auto
  define w1 where "w1 = set_stat (out_en_update (\<lambda>_. 0)) w"
  have "stage_ready w1" using assms by (simp add: w1_def app_inv_ready)
  note st = sr_hwt_stop_ready[OF this]
  show ?thesis
    unfolding power_en_opt_def
    using assms(1) c st hwt_stop_facts[OF assms(1)]
    by (auto simp: Let_def simp flip: w1_def intro!: app_inv_intro[OF assms(1)] simp: wave_off_def)
      (auto simp: w1_def world_upd app_inv_def)
qed

lemma length_OPWR_IND [simp]: "length OPWR_IND = 10"
  by (simp add: OPWR_IND_def)

lemma dac_set_volum_ok:
  assumes "volum_index (w_stat w) \<le> 8"
  shows "dac_set_volum w = Inr (dac_set (ucast (OPWR_IND ! unat (volum_index (w_stat w)))) w)"
proof -
  have "unat (volum_index (w_stat w)) \<le> 8" using assms by (simp add: word_le_nat_alt)
  then show ?thesis by (simp add: dac_set_volum_def)
qed

lemma volum_opt_ok:
  assumes "app_inv w" "pram \<le> 8"
  shows "\<exists>w'. volum_opt pram w = Inr (1, w') \<and> app_inv w' \<and> w_conf w' = w_conf w
    \<and> w_stat w' = (w_stat w)\<lparr>volum_index := pram\<rparr> \<and> w_tim w' = w_tim w
    \<and> w_gpio w' = set_vol_led pram (w_gpio w)
    \<and> w_dac_dhr w' = ucast (OPWR_IND ! unat (volum_index (w_stat w))) AND 0xFFF"
  using assms dac_set_volum_ok[of w]
  by (auto simp: app_inv_def volum_opt_def dac_set_def HAL_DAC_SetValue_def Let_def
      intro!: app_inv_intro[OF assms(1)])
    (auto simp: world_upd stage_ready_def)

lemma rect_freq_opt_ok:
  assumes "app_inv w" "100 \<le> uint pram" "uint pram \<le> 6000"
  shows "\<exists>w'. rect_freq_opt pram w = Inr (1, w') \<and> app_inv w' \<and> w_conf w' = w_conf w
    \<and> w_stat w' = (w_stat w)\<lparr>rect_freq := pram\<rparr> \<and> wave_at pram w' \<and> w_gpio w' = w_gpio w"
proof -
  define w1 where "w1 = set_stat (rect_freq_update (\<lambda>_. pram)) w"
  have r1: "stage_ready w1" using assms by (simp add: w1_def app_inv_ready)
  define w2 where "w2 = rt_thread_delay 1 (w1\<lparr>w_tim := timer_stop (w_tim w1)\<rparr>)"
  have rt: "hwt_ready (timer_stop (w_tim w1))" using r1 by (simp add: stage_ready_def hwt_ready_upd)
  then have r2: "stage_ready w2" using r1 by (simp add: w2_def)
  obtain t where t: "sr_hwt_start 0 (reg_s16 pram) w2 = Inr (RT_EOK, w2\<lparr>w_tim := t\<rparr>)"
    "hwt_write \<lparr>tv_sec = 0, tv_usec = half_period_usec pram\<rparr> (w_tim w2) = Inr t"
    "hwt_ready t" "hwt_running t"
    using sr_hwt_start_ready[OF r2, of pram] assms(2,3) by force
  define w3 where "w3 = w2\<lparr>w_tim := t\<rparr>"
  have s3: "w_stat w3 = (w_stat w)\<lparr>rect_freq := pram\<rparr>" "w_conf w3 = w_conf w" "w_tim w3 = t"
    "w_gpio w3 = w_gpio w" "w_hw_dev w3 = w_hw_dev w"
    by (simp_all add: w3_def w2_def w1_def world_upd)
  have e: "rect_freq_opt pram w = Inr (1, w3)"
    using t(1) by (simp add: rect_freq_opt_def sr_hwt_stop_ready[OF r1] w3_def del: One_nat_def flip: w1_def w2_def)
  have "app_inv w3"
    using assms s3 t by (intro app_inv_intro[OF assms(1)]) (simp_all add: app_inv_def)
  moreover have "wave_at pram w3"
    using t r2 s3 by (auto simp: wave_at_def stage_ready_def)
  ultimately show ?thesis using e s3 by auto
qed

lemma freq_select_facts:
  "rect_freq (freq_select p c s) =
     (if p = 0 then 290 else if p = 1 then 470 else if p = 2 then 580 else if p = 3 then 690
      else if p = 4 then rect_freq_conf c else 470)"
  "freq_index (freq_select p c s) = (if p \<le> 4 then p else 0)"
  "out_en (freq_select p c s) = out_en s" "volum_index (freq_select p c s) = volum_index s"
  "ms_status (freq_select p c s) = ms_status s"
proof -
  show "freq_index (freq_select p c s) = (if p \<le> 4 then p else 0)"
  proof (cases "p \<le> 4")
    case True
    then have "p = 0 \<or> p = 1 \<or> p = 2 \<or> p = 3 \<or> p = 4"
      by (simp add: word_le_nat_alt word_unat_eq_iff) arith
    then show ?thesis by (auto simp: freq_select_def)
  qed (auto simp: freq_select_def)
qed (simp_all add: freq_select_def)

lemma freq_opt_ok:
  assumes "app_inv w" "pram \<le> 4"
  shows "\<exists>w'. freq_opt pram w = Inr (1, w') \<and> app_inv w' \<and> w_conf w' = w_conf w
    \<and> w_stat w' = freq_select pram (w_conf w) (w_stat w)
    \<and> wave_at (rect_freq (w_stat w')) w' \<and> w_gpio w' = set_freq_led pram (w_gpio w)"
proof -
  define w1 where "w1 = set_stat (freq_select pram (w_conf w)) w"
  have s1: "w_stat w1 = freq_select pram (w_conf w) (w_stat w)" "w_conf w1 = w_conf w"
    "w_gpio w1 = w_gpio w" "w_tim w1 = w_tim w" "w_hw_dev w1 = w_hw_dev w"
    by (simp_all add: w1_def world_upd)
  have f: "100 \<le> uint (rect_freq (w_stat w1)) \<and> uint (rect_freq (w_stat w1)) \<le> 6000"
    using conf_rect_freq_range[of w] assms(1) by (simp add: s1 freq_select_facts app_inv_def)
  have i1: "app_inv w1"
    using assms f s1 by (intro app_inv_intro[OF assms(1)]) (simp_all add: freq_select_facts app_inv_def stage_ready_def)
  obtain w2 where w2: "rect_freq_opt (rect_freq (w_stat w1)) w1 = Inr (1, w2)" "app_inv w2"
    "w_conf w2 = w_conf w1" "w_stat w2 = (w_stat w1)\<lparr>rect_freq := rect_freq (w_stat w1)\<rparr>"
    "wave_at (rect_freq (w_stat w1)) w2" "w_gpio w2 = w_gpio w1"
    using rect_freq_opt_ok[OF i1] f by blast
  have st: "w_stat w2 = freq_select pram (w_conf w) (w_stat w)" using w2(4) by (simp add: s1)
  have fi: "freq_index (w_stat w2) = pram" using assms(2) by (simp add: st freq_select_facts)
  define w3 where "w3 = upd_gpio (set_freq_led (freq_index (w_stat w2))) w2"
  have e: "freq_opt pram w = Inr (1, w3)"
    by (simp add: freq_opt_def Let_def w2(1) w3_def flip: w1_def)
  have s3: "w_stat w3 = w_stat w2" "w_conf w3 = w_conf w2" "w_tim w3 = w_tim w2"
    "w_hw_dev w3 = w_hw_dev w2" "w_gpio w3 = set_freq_led pram (w_gpio w2)"
    by (simp_all add: w3_def world_upd fi)
  have "app_inv w3"
    using w2(2) s3 by (intro app_inv_intro[OF w2(2)]) (simp_all add: app_inv_def stage_ready_def)
  then show ?thesis
    using e s3 st w2 s1 by (auto simp: wave_at_def)
qed

section \<open>A running firmware\<close>

text \<open>A state with the registers as initialised, the timer device opened and the output off.\<close>

definition mav_zero :: bat_st where
  "mav_zero = \<lparr>mav_buffer = replicate 64 0, mav_cnt = 0, accum_sum = 0, buffer_ff = 0\<rparr>"

definition ready_world :: world where
  "ready_world =
     \<lparr>w_sys = init_load_default (init_load_status g_sys_zero), w_gpio = gpio_reset, w_tim = timer_ready,
      w_tim_found = True, w_hw_dev = True, w_dac_en = True, w_dac_dhr = 1000, w_dac_boff = True,
      w_rect_flag = 0, w_bat_reg = 0, w_adc = (\<lambda>_. 0), w_adc_on = False, w_adc_found = True,
      w_adc_device = True, w_bat_inst = mav_zero, w_temp_inst = mav_zero, w_bitmap_reg = 0,
      w_stage_reg = 0, w_pb_timer = True, w_slept = 0\<rparr>"

definition g_sys_init :: sys_reg_st where
  "g_sys_init =
     \<lparr>conf = config_zero\<lparr>freq_set := 1, volum_set := 4, rect_freq_conf := 470, volum_step := 1,
        dac_offset := 2047, bat_up_lim := 4200, bat_low_lim := 2800, bat_mav_cnt := 32\<rparr>,
      stat = status_zero\<lparr>software_ver := SOFTWARE_VER, hardware_ver := HARDWARE_VER, rect_freq := 470,
        half_period := 50, mul_factor := 6, freq_index := 1, volum_index := 4\<rparr>\<rparr>"

lemma init_loads: "init_load_default (init_load_status g_sys_zero) = g_sys_init"
  by (simp add: init_load_default_def init_load_status_def conf_reg_map_inst_def
      status_reg_map_inst_def store_dft_def world_upd g_sys_zero_def g_sys_init_def
      config_zero_def status_zero_def)

lemma g_sys_init_in_range: "conf_in_range g_sys_init"
  by (simp add: conf_in_range_def in_range_def conf_reg_map_inst_def g_sys_init_def config_zero_def)

lemma ready_world_inv: "app_inv ready_world"
  using g_sys_init_in_range timer_ready_ready
  by (simp add: app_inv_def ready_world_def stage_ready_def init_loads)
    (simp add: g_sys_init_def config_zero_def status_zero_def word_le_def)

end
