(* ===== verification/Gvar_Facts.thy ===== *)
theory Gvar_Facts
  imports App_Inv
begin

text \<open>
  What register writes and reads do: a write that succeeds stores every value and nothing else, it
  keeps the application invariant, and the only fault it can run into is the requested reset; a
  read returns what was written.
\<close>

section \<open>The table\<close>

lemma conf_entry_ok [simp]: "a < 16 \<Longrightarrow> conf_entry a = Inr (conf_reg_map_inst ! a)"
  by (simp add: conf_entry_def)

lemma conf_nth:
  "conf_reg_map_inst ! 0 = \<lparr>c_id = 0, c_reg_ptr = Some P_pwr_en, c_min = 0, c_max = 1, c_dft = 0, c_type = 0, c_chk_ptr = Some Power_En_Opt\<rparr>"
  "conf_reg_map_inst ! Suc 0 = \<lparr>c_id = 1, c_reg_ptr = Some P_freq_set, c_min = 0, c_max = 4, c_dft = 1, c_type = 0, c_chk_ptr = Some Freq_Opt\<rparr>"
  "conf_reg_map_inst ! 2 = \<lparr>c_id = 2, c_reg_ptr = Some P_volum_set, c_min = 0, c_max = 8, c_dft = 4, c_type = 0, c_chk_ptr = Some Volum_Opt\<rparr>"
  "conf_reg_map_inst ! 3 = \<lparr>c_id = 3, c_reg_ptr = None, c_min = 0, c_max = 0, c_dft = 0, c_type = 0, c_chk_ptr = None\<rparr>"
  "conf_reg_map_inst ! 4 = \<lparr>c_id = 4, c_reg_ptr = None, c_min = 0, c_max = 0, c_dft = 0, c_type = 0, c_chk_ptr = None\<rparr>"
  "conf_reg_map_inst ! 5 = \<lparr>c_id = 5, c_reg_ptr = Some P_conf_rect_freq, c_min = 100, c_max = 6000, c_dft = 470, c_type = 0, c_chk_ptr = Some Rect_Freq_Opt\<rparr>"
  "conf_reg_map_inst ! 6 = \<lparr>c_id = 6, c_reg_ptr = Some P_phase_offset, c_min = 0, c_max = 255, c_dft = 0, c_type = 0, c_chk_ptr = None\<rparr>"
  "conf_reg_map_inst ! 7 = \<lparr>c_id = 7, c_reg_ptr = Some P_volum_step, c_min = 1, c_max = 100, c_dft = 1, c_type = 0, c_chk_ptr = None\<rparr>"
  "conf_reg_map_inst ! 8 = \<lparr>c_id = 8, c_reg_ptr = Some P_dac_offset, c_min = 0, c_max = 2048, c_dft = 2047, c_type = 0, c_chk_ptr = None\<rparr>"
  "conf_reg_map_inst ! 9 = \<lparr>c_id = 9, c_reg_ptr = Some P_bat_up_lim, c_min = 3000, c_max = 6400, c_dft = 4200, c_type = 0, c_chk_ptr = None\<rparr>"
  "conf_reg_map_inst ! 10 = \<lparr>c_id = 10, c_reg_ptr = Some P_bat_low_lim, c_min = 0, c_max = 4500, c_dft = 2800, c_type = 0, c_chk_ptr = None\<rparr>"
  "conf_reg_map_inst ! 11 = \<lparr>c_id = 11, c_reg_ptr = Some P_bat_mav_cnt, c_min = 0, c_max = 128, c_dft = 32, c_type = 0, c_chk_ptr = None\<rparr>"
  "conf_reg_map_inst ! 12 = \<lparr>c_id = 12, c_reg_ptr = None, c_min = 0, c_max = 0, c_dft = 0, c_type = 0, c_chk_ptr = None\<rparr>"
  "conf_reg_map_inst ! 13 = \<lparr>c_id = 13, c_reg_ptr = None, c_min = 0, c_max = 0, c_dft = 0, c_type = 0, c_chk_ptr = None\<rparr>"
  "conf_reg_map_inst ! 14 = \<lparr>c_id = 14, c_reg_ptr = None, c_min = 0, c_max = 0, c_dft = 0, c_type = 0, c_chk_ptr = None\<rparr>"
  "conf_reg_map_inst ! 15 = \<lparr>c_id = 15, c_reg_ptr = None, c_min = 9527, c_max = 9527, c_dft = 0, c_type = 0, c_chk_ptr = Some Sys_Reset_Opt\<rparr>"
  by (simp_all add: conf_reg_map_inst_def)

lemma nat16_cases:
  "a < (16 :: nat) \<Longrightarrow> a \<in> {0, 1, 2, 3, 4, 5, 6, 7, 8, 9, 10, 11, 12, 13, 14, 15}"
  by (simp) arith

text \<open>The address of a configuration register; 16 for a pointer the table does not hold.\<close>

fun conf_addr :: "reg_ptr \<Rightarrow> nat" where
  "conf_addr P_pwr_en = 0" | "conf_addr P_freq_set = 1" | "conf_addr P_volum_set = 2"
| "conf_addr P_conf_rect_freq = 5" | "conf_addr P_phase_offset = 6" | "conf_addr P_volum_step = 7"
| "conf_addr P_dac_offset = 8" | "conf_addr P_bat_up_lim = 9" | "conf_addr P_bat_low_lim = 10"
| "conf_addr P_bat_mav_cnt = 11" | "conf_addr _ = 16"

lemma conf_addr_ptr:
  "a < 16 \<Longrightarrow> c_reg_ptr (conf_reg_map_inst ! a) = Some p \<Longrightarrow> conf_addr p = a \<and> is_conf_ptr p"
  by (drule nat16_cases) (auto simp: conf_nth)

lemma conf_ptr_inj:
  assumes "a < 16" "b < 16" "c_reg_ptr (conf_reg_map_inst ! a) = Some p"
    "c_reg_ptr (conf_reg_map_inst ! b) = Some p"
  shows "a = b"
  using conf_addr_ptr[OF assms(1,3)] conf_addr_ptr[OF assms(2,4)] by simp

text \<open>The value of the configuration register at an address, if there is one.\<close>

definition conf_val :: "sys_reg_st \<Rightarrow> nat \<Rightarrow> u16 option" where
  "conf_val g a = map_option (\<lambda>p. reg_load p g) (c_reg_ptr (conf_reg_map_inst ! a))"

lemma conf_val_store:
  assumes "a < 16" "b < 16"
  shows "conf_val (store_dft (c_reg_ptr (conf_reg_map_inst ! a), v) g) b =
    (if a = b then map_option (\<lambda>_. v) (c_reg_ptr (conf_reg_map_inst ! b)) else conf_val g b)"
  using conf_ptr_inj[OF assms]
  by (auto simp: conf_val_def store_dft_def reg_load_store split: option.splits)

definition val_ok :: "nat \<Rightarrow> u16 \<Rightarrow> bool" where
  "val_ok a v \<longleftrightarrow> c_min (conf_reg_map_inst ! a) \<le> uint v \<and> uint v \<le> c_max (conf_reg_map_inst ! a)"

lemma conf_in_range_iff:
  "conf_in_range g \<longleftrightarrow> (\<forall>a<16. \<forall>v. conf_val g a = Some v \<longrightarrow> val_ok a v)"
  by (auto simp: conf_in_range_def list_all_length in_range_def conf_val_def val_ok_def split: option.splits)

section \<open>The check loop\<close>

text \<open>Each action succeeds and keeps the invariant, or is the reset that was asked for.\<close>

lemma run_chk_ok:
  assumes "app_inv w" "a < 16" "val_ok a v" "c_chk_ptr (conf_reg_map_inst ! a) = Some f"
  shows "(a \<noteq> 15 \<and> (\<exists>w'. run_chk f v w = Inr (1, w') \<and> app_inv w' \<and> w_conf w' = w_conf w))
    \<or> (a = 15 \<and> run_chk f v w = Inl System_Reset)"
proof -
  have "(a = 0 \<and> f = Power_En_Opt) \<or> (a = 1 \<and> f = Freq_Opt \<and> uint v \<le> 4) \<or> (a = 2 \<and> f = Volum_Opt \<and> uint v \<le> 8)
     \<or> (a = 5 \<and> f = Rect_Freq_Opt \<and> 100 \<le> uint v \<and> uint v \<le> 6000)
     \<or> (a = 15 \<and> f = Sys_Reset_Opt \<and> uint v = 9527)"
    using nat16_cases[OF assms(2)] assms(3,4) unfolding insert_iff empty_iff
    by (elim disjE) (simp_all add: conf_nth val_ok_def)
  moreover have v4: "uint v \<le> 4 \<longleftrightarrow> v \<le> 4" and v8: "uint v \<le> 8 \<longleftrightarrow> v \<le> 8"
    and vr: "uint v = 9527 \<longleftrightarrow> v = 9527"
    by (simp_all add: word_le_def word_uint_eq_iff)
  ultimately consider "a = 0" "f = Power_En_Opt" | "a = 1" "f = Freq_Opt" "v \<le> 4"
    | "a = 2" "f = Volum_Opt" "v \<le> 8" | "a = 5" "f = Rect_Freq_Opt" "100 \<le> uint v" "uint v \<le> 6000"
    | "a = 15" "f = Sys_Reset_Opt" "v = 9527"
    using v4 v8 vr by blast
  then show ?thesis
  proof cases
    case 1
    then show ?thesis
      using power_en_opt_on[OF assms(1)] power_en_opt_off[OF assms(1), of v]
      by (cases "v = 1 \<and> \<not> load_bit w") auto
  next
    case 2
    then show ?thesis using freq_opt_ok[OF assms(1), of v] by auto
  next
    case 3
    then show ?thesis using volum_opt_ok[OF assms(1), of v] by auto
  next
    case 4
    then show ?thesis using rect_freq_opt_ok[OF assms(1), of v] by auto
  next
    case 5
    then show ?thesis by (simp add: sys_reset_opt_def)
  qed
qed

lemma write_check_ok:
  "app_inv w \<Longrightarrow> a + length ds \<le> 16 \<Longrightarrow>
   (case write_check a ds w of
      Inl e \<Rightarrow> e = System_Reset \<and> a + length ds = 16
    | Inr (Inl (err, w')) \<Rightarrow> err = REGMAP_ERR_DATA_OR \<and> app_inv w' \<and> w_conf w' = w_conf w
        \<and> (\<exists>i<length ds. \<not> val_ok (a + i) (ds ! i))
    | Inr (Inr w') \<Rightarrow> app_inv w' \<and> w_conf w' = w_conf w \<and> (\<forall>i<length ds. val_ok (a + i) (ds ! i)))"
proof (induction ds arbitrary: a w)
  case Nil
  then show ?case by simp
next
  case (Cons d ds)
  have a: "a < 16" using Cons.prems by simp
  note IH = Cons.IH[of _ "Suc a"]
  show ?case
  proof (cases "val_ok a d")
    case False
    then show ?thesis
      using a Cons.prems by (auto simp: val_ok_def not_le intro!: exI[of _ 0])
  next
    case True
    then have v: "\<not> (uint d > c_max (conf_reg_map_inst ! a) \<or> uint d < c_min (conf_reg_map_inst ! a))"
      by (auto simp: val_ok_def)
    have lift: "(\<exists>i<length ds. \<not> val_ok (Suc a + i) (ds ! i)) \<Longrightarrow>
        (\<exists>i<length (d # ds). \<not> val_ok (a + i) ((d # ds) ! i))"
      by (metis Suc_less_eq add_Suc_shift length_Cons nth_Cons_Suc)
    have lift2: "(\<forall>i<length ds. val_ok (Suc a + i) (ds ! i)) \<Longrightarrow>
        (\<forall>i<length (d # ds). val_ok (a + i) ((d # ds) ! i))"
      using True by (auto simp: less_Suc_eq_0_disj)
    show ?thesis
    proof (cases "c_chk_ptr (conf_reg_map_inst ! a)")
      case None
      then show ?thesis
        using a v Cons.prems IH[of w] lift lift2
        by (auto simp: Let_def split: sum.splits)
    next
      case (Some f)
      from run_chk_ok[OF Cons.prems(1) a True Some]
      consider w1 where "run_chk f d w = Inr (1, w1)" "app_inv w1" "w_conf w1 = w_conf w"
        | "a = 15" "run_chk f d w = Inl System_Reset" by auto
      then show ?thesis
      proof cases
        case 1
        then show ?thesis
          using Some a v Cons.prems IH[of w1] lift lift2 by (auto split: sum.splits)
      next
        case 2
        then show ?thesis using Some v Cons.prems by simp
      qed
    qed
  qed
qed

section \<open>The write loop\<close>

lemma write_data_ok:
  "a + length ds \<le> 16 \<Longrightarrow>
   \<exists>g. write_data a ds w = Inr (w\<lparr>w_sys := g\<rparr>) \<and> stat g = w_stat w \<and> wg_mode (conf g) = wg_mode (w_conf w)
     \<and> (\<forall>b<16. conf_val g b = (if a \<le> b \<and> b < a + length ds
            then map_option (\<lambda>_. ds ! (b - a)) (c_reg_ptr (conf_reg_map_inst ! b))
            else conf_val (w_sys w) b))"
proof (induction ds arbitrary: a w)
  case Nil
  then show ?case by (auto intro!: exI[of _ "w_sys w"])
next
  case (Cons d ds)
  have a: "a < 16" using Cons.prems by simp
  define g1 where "g1 = store_dft (c_reg_ptr (conf_reg_map_inst ! a), d) (w_sys w)"
  define w1 where "w1 = w\<lparr>w_sys := g1\<rparr>"
  have sw1: "w_sys w1 = g1" by (simp add: w1_def)
  note cv = conf_val_store[OF a, of _ d "w_sys w", folded g1_def]
  have s1: "stat g1 = w_stat w \<and> wg_mode (conf g1) = wg_mode (w_conf w)"
    using conf_addr_ptr[OF a] by (auto simp: g1_def store_dft_def split: option.splits simp del: is_conf_ptr.simps)
  obtain g where g: "write_data (Suc a) ds w1 = Inr (w1\<lparr>w_sys := g\<rparr>)" "stat g = w_stat w1"
    "wg_mode (conf g) = wg_mode (w_conf w1)"
    "\<And>b. b < 16 \<Longrightarrow> conf_val g b = (if Suc a \<le> b \<and> b < Suc a + length ds
            then map_option (\<lambda>_. ds ! (b - Suc a)) (c_reg_ptr (conf_reg_map_inst ! b))
            else conf_val (w_sys w1) b)"
    using Cons.IH[of "Suc a" w1] Cons.prems by auto
  have e: "write_data a (d # ds) w = Inr (w\<lparr>w_sys := g\<rparr>)"
    using g(1) a by (simp add: upd_sys_def w1_def flip: g1_def)
  have "conf_val g b = (if a \<le> b \<and> b < a + length (d # ds)
            then map_option (\<lambda>_. (d # ds) ! (b - a)) (c_reg_ptr (conf_reg_map_inst ! b))
            else conf_val (w_sys w) b)" if b: "b < 16" for b
  proof (cases "a = b")
    case True
    then show ?thesis using g(4)[OF b] cv[OF b] by (simp add: sw1)
  next
    case False
    then show ?thesis using g(4)[OF b] cv[OF b] by (auto simp: sw1 nth_Cons')
  qed
  then show ?case using e g s1 by (auto simp: w1_def)
qed

section \<open>Writes\<close>

text \<open>What a window of written values makes of the configuration.\<close>

definition stored :: "nat \<Rightarrow> u16 list \<Rightarrow> sys_reg_st \<Rightarrow> sys_reg_st \<Rightarrow> bool" where
  "stored a ds g g' \<longleftrightarrow> (\<forall>b<16. conf_val g' b =
     (if a \<le> b \<and> b < a + length ds
      then map_option (\<lambda>_. ds ! (b - a)) (c_reg_ptr (conf_reg_map_inst ! b)) else conf_val g b))"

lemma conf_val_cong: "a < 16 \<Longrightarrow> conf g' = conf g \<Longrightarrow> conf_val g' a = conf_val g a"
  unfolding conf_val_def
  by (cases "c_reg_ptr (conf_reg_map_inst ! a)")
    (use conf_addr_ptr[of a] reg_load_conf[of _ g' g] in auto)

lemma stored_in_range:
  assumes "conf_in_range g" "stored a ds g g'" "\<And>i. i < length ds \<Longrightarrow> val_ok (a + i) (ds ! i)"
  shows "conf_in_range g'"
  unfolding conf_in_range_iff
proof (intro allI impI)
  fix b v
  assume b: "b < 16" and v: "conf_val g' b = Some v"
  show "val_ok b v"
  proof (cases "a \<le> b \<and> b < a + length ds")
    case True
    then have "v = ds ! (b - a)" using assms(2) b v by (auto simp: stored_def)
    then show ?thesis using assms(3)[of "b - a"] True by auto
  next
    case False
    then have "conf_val g b = Some v" using assms(2) b v unfolding stored_def by presburger
    then show ?thesis using assms(1) b by (simp add: conf_in_range_iff)
  qed
qed

lemma reg_map_write_cases:
  assumes "app_inv w" "unat cnt \<le> length ds"
  shows "(\<exists>err w'. reg_map_write a ds cnt w = Inr (err, w') \<and> app_inv w'
      \<and> (err = REGMAP_ERR_NOERR \<longrightarrow> unat a + unat cnt \<le> 16
          \<and> stored (unat a) (take (unat cnt) ds) (w_sys w) (w_sys w')
          \<and> (\<forall>i<unat cnt. val_ok (unat a + i) (ds ! i)))
      \<and> (err = REGMAP_ERR_ADDR_OR \<longrightarrow> unat a + unat cnt > 16 \<and> w' = w)
      \<and> (err = REGMAP_ERR_DATA_OR \<longrightarrow> w_conf w' = w_conf w
          \<and> (\<exists>i<unat cnt. \<not> val_ok (unat a + i) (ds ! i)))
      \<and> err \<in> {REGMAP_ERR_NOERR, REGMAP_ERR_ADDR_OR, REGMAP_ERR_DATA_OR})
    \<or> (reg_map_write a ds cnt w = Inl System_Reset \<and> unat a + unat cnt = 16)"
proof (cases "unat a + unat cnt > 16")
  case True
  then show ?thesis using assms(1) by (simp add: reg_map_write_def)
next
  case False
  define vs where "vs = take (unat cnt) ds"
  have len: "length vs = unat cnt" using assms(2) by (simp add: vs_def)
  have nth: "i < unat cnt \<Longrightarrow> vs ! i = ds ! i" for i by (simp add: vs_def)
  have le: "unat a + length vs \<le> 16" using False len by simp
  note wc = write_check_ok[OF assms(1) le]
  note rw = reg_map_write_def[of a ds cnt w, folded vs_def]
  show ?thesis
  proof (cases "write_check (unat a) vs w")
    case (Inl e)
    then show ?thesis using wc False len by (simp add: rw)
  next
    case (Inr r)
    show ?thesis
    proof (cases r)
      case (Inl p)
      then show ?thesis
        using Inr wc False len nth by (cases p) (auto simp: rw)
    next
      case i: (Inr w1)
      then have w1: "app_inv w1" "w_conf w1 = w_conf w" "\<forall>i<length vs. val_ok (unat a + i) (vs ! i)"
        using wc Inr by simp_all
      obtain g where g: "write_data (unat a) vs w1 = Inr (w1\<lparr>w_sys := g\<rparr>)" "stat g = w_stat w1"
        "wg_mode (conf g) = wg_mode (w_conf w1)" "stored (unat a) vs (w_sys w1) g"
        using write_data_ok[OF le, of w1] unfolding stored_def by auto
      have "stored (unat a) vs (w_sys w) g"
        using g(4) conf_val_cong[of _ "w_sys w1" "w_sys w"] w1(2) by (simp add: stored_def)
      moreover have "app_inv (w1\<lparr>w_sys := g\<rparr>)"
        using w1 g stored_in_range[of "w_sys w1", OF _ g(4)]
        by (simp add: app_inv_def stage_ready_def)
      ultimately show ?thesis
        using Inr i g(1) False assms(2) len nth w1(3) by (simp add: rw flip: vs_def) 
    qed
  qed
qed

end
