(* ===== verification/Pb_Drv.thy ===== *)
theory Pb_Drv
  imports App_Inv
begin

text \<open>
  The push buttons (\<open>applications/pb_drv.c\<close>): reading and debouncing the five buttons from a
  periodic timer, what each button does, and the status inputs.
\<close>

section \<open>Operations\<close>

abbreviation (input) PB_FREQ_U :: int where "PB_FREQ_U \<equiv> GET_PIN GPIOB 9"
abbreviation (input) PB_FREQ_D :: int where "PB_FREQ_D \<equiv> GET_PIN GPIOB 8"
abbreviation (input) PB_VOL_U :: int where "PB_VOL_U \<equiv> GET_PIN GPIOB 7"
abbreviation (input) PB_VOL_D :: int where "PB_VOL_D \<equiv> GET_PIN GPIOB 13"
abbreviation (input) PB_OUT_EN :: int where "PB_OUT_EN \<equiv> GET_PIN GPIOB 14"
abbreviation (input) STS_GPRS :: int where "STS_GPRS \<equiv> GET_PIN GPIOC 15"
abbreviation (input) STS_LINK1 :: int where "STS_LINK1 \<equiv> GET_PIN GPIOA 15"
abbreviation (input) STS_LINK2 :: int where "STS_LINK2 \<equiv> GET_PIN GPIOC 13"
abbreviation (input) STS_LOAD_DET :: int where "STS_LOAD_DET \<equiv> GET_PIN GPIOA 0"

text \<open>The state an action leaves; the actions' return value is not used by the buttons.\<close>

definition run_opt :: "(u16 \<Rightarrow> world \<Rightarrow> (u16 \<times> world) res) \<Rightarrow> u16 \<Rightarrow> world \<Rightarrow> world res" where
  "run_opt opt pram w = bindE (opt pram w) (\<lambda>(_, w1). Inr w1)"

definition pb_evt :: "u16 \<Rightarrow> world \<Rightarrow> world res" where
  "pb_evt pin_id w =
     (let s = w_stat w in
      if uint pin_id = PB_FREQ_D then
        if out_en s = 0 then Inr w
        else let w1 = (if freq_index s > 0 then set_stat (freq_index_update (\<lambda>n. n - 1)) w else w)
             in run_opt freq_opt (freq_index (w_stat w1)) w1
      else if uint pin_id = PB_VOL_D then
        if out_en s = 0 then Inr w
        else let w1 = (if volum_index s > 0 then set_stat (volum_index_update (\<lambda>n. n - 1)) w else w)
             in run_opt volum_opt (volum_index (w_stat w1)) w1
      else if uint pin_id = PB_FREQ_U then
        if out_en s = 0 then Inr w
        else let w1 = (if freq_index s < 4 then set_stat (freq_index_update (\<lambda>n. n + 1)) w else w)
             in run_opt freq_opt (freq_index (w_stat w1)) w1
      else if uint pin_id = PB_VOL_U then
        if out_en s = 0 then Inr w
        else let w1 = (if volum_index s < 8 then set_stat (volum_index_update (\<lambda>n. n + 1)) w else w)
             in run_opt volum_opt (volum_index (w_stat w1)) w1
      else if uint pin_id = PB_OUT_EN then run_opt power_en_opt (if out_en s = 0 then 1 else 0) w
      else Inr w)"

text \<open>\<open>rt_timer_create\<close> needs memory; whether it gets it is an argument.\<close>

definition tim_init :: "bool \<Rightarrow> world \<Rightarrow> world" where
  "tim_init created w = (if created then w\<lparr>w_pb_timer := True\<rparr> else w)"

definition pb_init :: "bool \<Rightarrow> world \<Rightarrow> int \<times> world" where
  "pb_init created w =
     (0, tim_init created (upd_gpio (pin_modes
       [(PB_FREQ_D, PIN_MODE_INPUT_PULLUP), (PB_FREQ_U, PIN_MODE_INPUT_PULLUP),
        (PB_OUT_EN, PIN_MODE_INPUT_PULLUP), (PB_VOL_D, PIN_MODE_INPUT_PULLUP),
        (PB_VOL_U, PIN_MODE_INPUT_PULLUP), (STS_GPRS, PIN_MODE_INPUT_PULLUP),
        (STS_LINK1, PIN_MODE_INPUT_PULLUP), (STS_LINK2, PIN_MODE_INPUT_PULLUP),
        (STS_LOAD_DET, PIN_MODE_INPUT_PULLUP)]) w))"

definition get_pb_sts :: "gpio_regs \<Rightarrow> u8" where
  "get_pb_sts g =
     to_u8 (rt_pin_read PB_FREQ_D g)
     OR to_u8 (push_bit 1 (rt_pin_read PB_FREQ_U g))
     OR to_u8 (push_bit 2 (rt_pin_read PB_OUT_EN g))
     OR to_u8 (push_bit 3 (rt_pin_read PB_VOL_D g))
     OR to_u8 (push_bit 4 (rt_pin_read PB_VOL_U g))"

definition in_sts_bitmap :: "gpio_regs \<Rightarrow> u16 \<Rightarrow> u16" where
  "in_sts_bitmap g out =
     to_u16 (rt_pin_read STS_GPRS g)
     OR to_u16 (push_bit 1 (rt_pin_read STS_LINK1 g))
     OR to_u16 (push_bit 2 (rt_pin_read STS_LOAD_DET g))
     OR push_bit 3 out"

definition in_sts_update :: "world \<Rightarrow> u8 \<times> world" where
  "in_sts_update w =
     (let bitmap = in_sts_bitmap (w_gpio w) (out_en (w_stat w))
      in (ucast bitmap,
          set_stat (ms_status_update (\<lambda>m. (m AND 0xfff0) OR (bitmap AND 0x000f))) w))"

definition resolve_pin_id :: "nat \<Rightarrow> u16" where
  "resolve_pin_id pin_id =
     (if pin_id = 0 then to_u16 PB_FREQ_D
      else if pin_id = 1 then to_u16 PB_FREQ_U
      else if pin_id = 2 then to_u16 PB_OUT_EN
      else if pin_id = 3 then to_u16 PB_VOL_D
      else if pin_id = 4 then to_u16 PB_VOL_U
      else 0xffff)"

text \<open>
  The scan takes the lowest bit; the debouncing of one sample goes from the buttons pressed now and at the last sample and the
  stage to the button to act on, if any, and the next stage.
\<close>

definition pb_scan :: "u8 \<Rightarrow> nat option" where
  "pb_scan bitmap_and = find (\<lambda>i. drop_bit i bitmap_and AND 1 \<noteq> 0) [0, 1, 2, 3, 4]"

definition pb_stage :: "u8 \<Rightarrow> u8 \<Rightarrow> u8 \<Rightarrow> nat option \<times> u8" where
  "pb_stage bitmap bitmap_reg stage_reg =
     (if stage_reg = 0
      then (None, if bitmap XOR bitmap_reg \<noteq> 0 \<and> bitmap \<noteq> 0 then 1 else 0)
      else let bitmap_and = bitmap AND bitmap_reg
           in (if bitmap_and \<noteq> 0 then pb_scan bitmap_and else None, 0))"

definition pb_pressed :: "gpio_regs \<Rightarrow> u8" where
  "pb_pressed g = NOT (get_pb_sts g) AND 0x1f"

definition pb_sts_update :: "world \<Rightarrow> world res" where
  "pb_sts_update w =
     (let bitmap = pb_pressed (w_gpio w);
          (evt, stage) = pb_stage bitmap (w_bitmap_reg w) (w_stage_reg w)
      in bindE (case evt of None \<Rightarrow> Inr w | Some i \<Rightarrow> pb_evt (resolve_pin_id i) w)
           (\<lambda>w1. Inr (w1\<lparr>w_stage_reg := stage, w_bitmap_reg := bitmap\<rparr>)))"

definition pb_timer_cb :: "world \<Rightarrow> world res" where
  "pb_timer_cb = pb_sts_update"

definition get_atten :: "world \<Rightarrow> u8" where
  "get_atten w = (if volum_index (w_stat w) > 3 then 4 else ucast (3 - volum_index (w_stat w)))"

definition show_pin_sts :: "world \<Rightarrow> (u8 \<times> u8) \<times> world" where
  "show_pin_sts w = (let (s, w1) = in_sts_update w in ((get_pb_sts (w_gpio w), s), w1))"

section \<open>Buttons\<close>

text \<open>The buttons by the bit they have in the sampled bitmap.\<close>

datatype button = Freq_Down | Freq_Up | Out_En | Vol_Down | Vol_Up

fun button_bit :: "button \<Rightarrow> nat" where
  "button_bit Freq_Down = 0" | "button_bit Freq_Up = 1" | "button_bit Out_En = 2"
| "button_bit Vol_Down = 3" | "button_bit Vol_Up = 4"

lemma pb_pin_num:
  "PB_FREQ_U = 25" "PB_FREQ_D = 24" "PB_VOL_U = 23" "PB_VOL_D = 29" "PB_OUT_EN = 30"
  "STS_GPRS = 47" "STS_LINK1 = 15" "STS_LOAD_DET = 0"
  by (simp_all add: GET_PIN_def)

lemma resolve_button:
  "uint (resolve_pin_id (button_bit b)) =
     (case b of Freq_Down \<Rightarrow> 24 | Freq_Up \<Rightarrow> 25 | Out_En \<Rightarrow> 30 | Vol_Down \<Rightarrow> 29 | Vol_Up \<Rightarrow> 23)"
  by (cases b) (simp_all add: resolve_pin_id_def pb_pin_num to_u16_def)

text \<open>What a button does to the volume or frequency it steps: saturating at the ends.\<close>

definition step_down :: "u16 \<Rightarrow> u16" where "step_down n = (if n > 0 then n - 1 else n)"
definition step_up :: "u16 \<Rightarrow> u16 \<Rightarrow> u16" where "step_up m n = (if n < m then n + 1 else n)"

lemma step_down_le: "n \<le> m \<Longrightarrow> step_down n \<le> m"
proof (cases "n = 0")
  case False
  then have "unat (n - 1) = unat n - 1" by (rule unat_minus_one)
  then show "n \<le> m \<Longrightarrow> step_down n \<le> m"
    by (simp add: step_down_def word_le_nat_alt) linarith
qed (simp add: step_down_def)

lemma step_up_le: "n \<le> m \<Longrightarrow> step_up m n \<le> m"
  by (simp add: step_up_def inc_le)

text \<open>What an event does, and that it keeps the invariant.\<close>

definition unchanged :: "world \<Rightarrow> world \<Rightarrow> bool" where
  "unchanged w w' \<longleftrightarrow> w_stat w' = w_stat w \<and> w_tim w' = w_tim w \<and> w_dac_dhr w' = w_dac_dhr w"

definition button_result :: "button \<Rightarrow> world \<Rightarrow> world \<Rightarrow> bool" where
  "button_result b w w' \<longleftrightarrow>
     (let s = w_stat w; s' = w_stat w' in
      case b of
        Out_En \<Rightarrow>
          if out_en s = 0 \<and> \<not> load_bit w
          then out_en s' = 1 \<and> wave_at (rect_freq s) w' else out_en s' = 0 \<and> wave_off w'
      | Freq_Down \<Rightarrow> if out_en s = 0 then unchanged w w'
          else freq_index s' = step_down (freq_index s) \<and> wave_at (rect_freq s') w'
      | Freq_Up \<Rightarrow> if out_en s = 0 then unchanged w w'
          else freq_index s' = step_up 4 (freq_index s) \<and> wave_at (rect_freq s') w'
      | Vol_Down \<Rightarrow> if out_en s = 0 then unchanged w w'
          else volum_index s' = step_down (volum_index s)
            \<and> w_dac_dhr w' = ucast (OPWR_IND ! unat (volum_index s')) AND 0xFFF
      | Vol_Up \<Rightarrow> if out_en s = 0 then unchanged w w'
          else volum_index s' = step_up 8 (volum_index s)
            \<and> w_dac_dhr w' = ucast (OPWR_IND ! unat (volum_index s')) AND 0xFFF)"

lemma set_freq_index_inv:
  "app_inv w \<Longrightarrow> n \<le> 4 \<Longrightarrow> app_inv (set_stat (freq_index_update (\<lambda>_. n)) w)"
  by (rule app_inv_intro[of w]) (simp_all add: world_upd app_inv_def stage_ready_def)

lemma set_volum_index_inv:
  "app_inv w \<Longrightarrow> n \<le> 8 \<Longrightarrow> app_inv (set_stat (volum_index_update (\<lambda>_. n)) w)"
  by (rule app_inv_intro[of w]) (simp_all add: world_upd app_inv_def stage_ready_def)

lemma step_as_set:
  "(if freq_index s > 0 then set_stat (freq_index_update (\<lambda>n. n - 1)) w else w)
     = set_stat (freq_index_update (\<lambda>_. step_down (freq_index s))) w"
  "(if freq_index s < 4 then set_stat (freq_index_update (\<lambda>n. n + 1)) w else w)
     = set_stat (freq_index_update (\<lambda>_. step_up 4 (freq_index s))) w"
  "(if volum_index s > 0 then set_stat (volum_index_update (\<lambda>n. n - 1)) w else w)
     = set_stat (volum_index_update (\<lambda>_. step_down (volum_index s))) w"
  "(if volum_index s < 8 then set_stat (volum_index_update (\<lambda>n. n + 1)) w else w)
     = set_stat (volum_index_update (\<lambda>_. step_up 8 (volum_index s))) w"
  if "s = w_stat w"
  using that by (simp_all add: world_upd step_down_def step_up_def)

lemma freq_button:
  assumes "app_inv w" "n \<le> 4"
  shows "\<exists>w'. run_opt freq_opt n (set_stat (freq_index_update (\<lambda>_. n)) w) = Inr w' \<and> app_inv w'
    \<and> freq_index (w_stat w') = n \<and> wave_at (rect_freq (w_stat w')) w'"
proof -
  obtain w' where "freq_opt n (set_stat (freq_index_update (\<lambda>_. n)) w) = Inr (1, w')" "app_inv w'"
    "freq_index (w_stat w') = n" "wave_at (rect_freq (w_stat w')) w'"
    using freq_opt_ok[OF set_freq_index_inv[OF assms] assms(2)] assms(2)
    by (auto simp: freq_select_facts)
  then show ?thesis by (simp add: run_opt_def)
qed

lemma volum_button:
  assumes "app_inv w" "n \<le> 8"
  shows "\<exists>w'. run_opt volum_opt n (set_stat (volum_index_update (\<lambda>_. n)) w) = Inr w' \<and> app_inv w'
    \<and> volum_index (w_stat w') = n \<and> w_dac_dhr w' = ucast (OPWR_IND ! unat n) AND 0xFFF"
proof -
  define w1 where "w1 = set_stat (volum_index_update (\<lambda>_. n)) w"
  have "volum_index (w_stat w1) = n" by (simp add: w1_def world_upd)
  then show ?thesis
    using volum_opt_ok[OF set_volum_index_inv[OF assms] assms(2)]
    by (auto simp: run_opt_def simp flip: w1_def)
qed

lemma set_index_get:
  "freq_index (w_stat (set_stat (freq_index_update (\<lambda>_. n)) w)) = n"
  "volum_index (w_stat (set_stat (volum_index_update (\<lambda>_. n)) w)) = n"
  by (simp_all add: world_upd)

text \<open>\<open>pb_evt\<close> for the pin of each button.\<close>

lemma pb_evt_button:
  "pb_evt (resolve_pin_id (button_bit b)) w =
     (let s = w_stat w in
      case b of
        Out_En \<Rightarrow> run_opt power_en_opt (if out_en s = 0 then 1 else 0) w
      | Freq_Down \<Rightarrow> if out_en s = 0 then Inr w
          else run_opt freq_opt (step_down (freq_index s)) (set_stat (freq_index_update (\<lambda>_. step_down (freq_index s))) w)
      | Freq_Up \<Rightarrow> if out_en s = 0 then Inr w
          else run_opt freq_opt (step_up 4 (freq_index s)) (set_stat (freq_index_update (\<lambda>_. step_up 4 (freq_index s))) w)
      | Vol_Down \<Rightarrow> if out_en s = 0 then Inr w
          else run_opt volum_opt (step_down (volum_index s)) (set_stat (volum_index_update (\<lambda>_. step_down (volum_index s))) w)
      | Vol_Up \<Rightarrow> if out_en s = 0 then Inr w
          else run_opt volum_opt (step_up 8 (volum_index s)) (set_stat (volum_index_update (\<lambda>_. step_up 8 (volum_index s))) w))"
proof -
  have u: "uint (resolve_pin_id (button_bit b)) =
     (case b of Freq_Down \<Rightarrow> 24 | Freq_Up \<Rightarrow> 25 | Out_En \<Rightarrow> 30 | Vol_Down \<Rightarrow> 29 | Vol_Up \<Rightarrow> 23)"
    by (rule resolve_button)
  show ?thesis
    unfolding pb_evt_def Let_def u pb_pin_num step_as_set[OF refl] set_index_get
    by (cases b) (simp_all only: button.case simp_thms if_True if_False num.distinct numeral_eq_iff num.inject)
qed

lemma pb_evt_ok:
  assumes "app_inv w"
  shows "\<exists>w'. pb_evt (resolve_pin_id (button_bit b)) w = Inr w' \<and> app_inv w' \<and> button_result b w w'"
proof -
  have fb: "freq_index (w_stat w) \<le> 4" and vb: "volum_index (w_stat w) \<le> 8"
    using assms by (simp_all add: app_inv_def)
  show ?thesis
  proof (cases b)
    case Out_En
    show ?thesis
    proof (cases "out_en (w_stat w) = 0 \<and> \<not> load_bit w")
      case True
      then show ?thesis
        using power_en_opt_on[OF assms] Out_En
        by (auto simp: pb_evt_button button_result_def run_opt_def Let_def simp del: button_bit.simps)
    next
      case False
      then show ?thesis
        using power_en_opt_off[OF assms, of "if out_en (w_stat w) = 0 then 1 else 0"] Out_En
        by (auto simp: pb_evt_button button_result_def run_opt_def Let_def simp del: button_bit.simps)
    qed
  next
    case Freq_Down
    then show ?thesis
      using freq_button[OF assms step_down_le[OF fb]] assms
      by (auto simp: pb_evt_button button_result_def unchanged_def Let_def simp del: button_bit.simps)
  next
    case Freq_Up
    then show ?thesis
      using freq_button[OF assms step_up_le[OF fb]] assms
      by (auto simp: pb_evt_button button_result_def unchanged_def Let_def simp del: button_bit.simps)
  next
    case Vol_Down
    then show ?thesis
      using volum_button[OF assms step_down_le[OF vb]] assms
      by (auto simp: pb_evt_button button_result_def unchanged_def Let_def simp del: button_bit.simps)
  next
    case Vol_Up
    then show ?thesis
      using volum_button[OF assms step_up_le[OF vb]] assms
      by (auto simp: pb_evt_button button_result_def unchanged_def Let_def simp del: button_bit.simps)
  qed
qed

section \<open>Debouncing\<close>

text \<open>The events the sampling of a sequence of bitmaps gives.\<close>

fun pb_events :: "u8 list \<Rightarrow> u8 \<Rightarrow> u8 \<Rightarrow> nat option list" where
  "pb_events [] reg stage = []"
| "pb_events (b # bs) reg stage =
     (let (evt, stage1) = pb_stage b reg stage in evt # pb_events bs b stage1)"

lemma test_bit_u8: "(drop_bit i x AND 1 \<noteq> (0 :: u8)) = bit x i"
  by (simp add: and_one_eq mod_2_eq_odd flip: bit_iff_odd_drop_bit)

lemma upt_5: "[0, 1, 2, 3, 4] = [0..<5 :: nat]"
  by (simp add: upt_rec)

text \<open>An event needs the button in two samples, and takes the lowest common button.\<close>

lemma pb_stage_event:
  "fst (pb_stage b reg stage) = Some i \<longleftrightarrow>
     stage \<noteq> 0 \<and> i < 5 \<and> bit b i \<and> bit reg i \<and> (\<forall>j<i. \<not> (bit b j \<and> bit reg j))"
proof -
  have f: "pb_scan x = Some i \<longleftrightarrow>
      i < 5 \<and> bit x i \<and> (\<forall>j<i. \<not> bit x j)" for x
    unfolding pb_scan_def test_bit_u8 upt_5 find_Some_iff by auto
  show ?thesis
  proof (cases "b AND reg = 0")
    case True
    then have "\<not> (bit b i \<and> bit reg i)" by (simp add: word_eq_0_iff_bits bit_and_iff)
    then show ?thesis using True by (auto simp: pb_stage_def Let_def)
  next
    case False
    then show ?thesis unfolding pb_stage_def Let_def by (auto simp: f bit_and_iff)
  qed
qed

lemma pb_stage_next: "stage \<noteq> 0 \<Longrightarrow> snd (pb_stage b reg stage) = 0"
  by (simp add: pb_stage_def Let_def)

lemma length_pb_events [simp]: "length (pb_events bs reg stage) = length bs"
  by (induction bs arbitrary: reg stage) (simp_all split: prod.splits)

lemma pb_events_sound:
  "k < length bs \<Longrightarrow> pb_events bs reg stage ! k = Some i \<Longrightarrow>
     i < 5 \<and> bit (bs ! k) i \<and> bit ((reg # bs) ! k) i \<and> (0 < k \<longrightarrow> pb_events bs reg stage ! (k - 1) = None)"
proof (induction bs arbitrary: k reg stage)
  case Nil
  then show ?case by simp
next
  case (Cons b bs)
  obtain e s1 where st: "pb_stage b reg stage = (e, s1)" by (cases "pb_stage b reg stage")
  show ?case
  proof (cases k)
    case 0
    then have "fst (pb_stage b reg stage) = Some i" using Cons.prems(2) st by simp
    then show ?thesis using 0 by (simp add: pb_stage_event)
  next
    case (Suc k')
    then have e': "pb_events bs b s1 ! k' = Some i" "k' < length bs" using Cons.prems st by simp_all
    note IH = Cons.IH[OF e'(2,1)]
    have "e = None" if "k' = 0"
    proof -
      obtain b2 bs2 where bs: "bs = b2 # bs2" using e'(2) by (cases bs) auto
      have "fst (pb_stage b2 b s1) = Some i" using e'(1) that bs by (simp split: prod.splits)
      then have "s1 \<noteq> 0" by (simp add: pb_stage_event)
      then have "stage = 0" using pb_stage_next[of stage b reg] st by fastforce
      then have "\<not> (\<exists>j. fst (pb_stage b reg stage) = Some j)" by (simp add: pb_stage_event)
      then show ?thesis using st by (cases e) auto
    qed
    then show ?thesis using IH Suc st by (cases k') simp_all
  qed
qed

section \<open>Samples of the running firmware\<close>

definition set_idr :: "(gpio_port \<Rightarrow> u16) \<Rightarrow> world \<Rightarrow> world" where
  "set_idr v = upd_gpio (idr_update (\<lambda>_. v))"

text \<open>One tick of the button timer with the inputs at given levels, and a sequence of them.\<close>

definition pb_sample :: "(gpio_port \<Rightarrow> u16) \<Rightarrow> world \<Rightarrow> world res" where
  "pb_sample v w = pb_timer_cb (set_idr v w)"

fun pb_samples :: "(gpio_port \<Rightarrow> u16) list \<Rightarrow> world \<Rightarrow> world res" where
  "pb_samples [] w = Inr w"
| "pb_samples (v # vs) w = bindE (pb_sample v w) (pb_samples vs)"

lemma app_inv_cong:
  "w_sys w' = w_sys w \<Longrightarrow> w_tim w' = w_tim w \<Longrightarrow> w_hw_dev w' = w_hw_dev w \<Longrightarrow> app_inv w' = app_inv w"
  by (simp add: app_inv_def stage_ready_def)

lemma app_inv_set_idr [simp]: "app_inv (set_idr v w) = app_inv w"
  by (rule app_inv_cong) (simp_all add: set_idr_def world_upd)

lemma pb_sts_update_ok:
  assumes "app_inv w"
  shows "\<exists>w'. pb_sts_update w = Inr w' \<and> app_inv w'"
proof -
  obtain e s1 where st: "pb_stage (pb_pressed (w_gpio w)) (w_bitmap_reg w) (w_stage_reg w) = (e, s1)"
    by (cases "pb_stage (pb_pressed (w_gpio w)) (w_bitmap_reg w) (w_stage_reg w)")
  have "\<exists>w1. (case e of None \<Rightarrow> Inr w | Some i \<Rightarrow> pb_evt (resolve_pin_id i) w) = Inr w1 \<and> app_inv w1"
  proof (cases e)
    case None
    then show ?thesis using assms by simp
  next
    case (Some i)
    then have "fst (pb_stage (pb_pressed (w_gpio w)) (w_bitmap_reg w) (w_stage_reg w)) = Some i"
      using st by simp
    then have "i < 5" by (simp add: pb_stage_event)
    then have "i \<in> {0, 1, 2, 3, 4}" by (simp; arith)
    then obtain b where "i = button_bit b" by (auto intro: that[of Freq_Down] that[of Freq_Up]
        that[of Out_En] that[of Vol_Down] that[of Vol_Up])
    then show ?thesis using Some pb_evt_ok[OF assms, of b] by auto
  qed
  then obtain w1 where w1: "(case e of None \<Rightarrow> Inr w | Some i \<Rightarrow> pb_evt (resolve_pin_id i) w) = Inr w1"
    "app_inv w1" by auto
  then have "pb_sts_update w = Inr (w1\<lparr>w_stage_reg := s1, w_bitmap_reg := pb_pressed (w_gpio w)\<rparr>)"
    using st by (simp add: pb_sts_update_def)
  moreover have "app_inv (w1\<lparr>w_stage_reg := s1, w_bitmap_reg := pb_pressed (w_gpio w)\<rparr>)"
    using w1(2) app_inv_cong[of "w1\<lparr>w_stage_reg := s1, w_bitmap_reg := pb_pressed (w_gpio w)\<rparr>" w1] by simp
  ultimately show ?thesis by blast
qed

lemma pb_samples_ok: "app_inv w \<Longrightarrow> \<exists>w'. pb_samples vs w = Inr w' \<and> app_inv w'"
proof (induction vs arbitrary: w)
  case Nil
  then show ?case by simp
next
  case (Cons v vs)
  obtain w1 where "pb_sample v w = Inr w1" "app_inv w1"
    using pb_sts_update_ok[of "set_idr v w"] Cons.prems by (auto simp: pb_sample_def pb_timer_cb_def)
  then show ?case using Cons.IH[of w1] by simp
qed

section \<open>Properties\<close>

lemma pb_pressed_idr: "pb_pressed (g\<lparr>idr := v\<rparr>) = pb_pressed (g'\<lparr>idr := v\<rparr>)"
  by (simp add: pb_pressed_def get_pb_sts_def rt_pin_read_valid GET_PIN_valid)

definition same_out :: "world \<Rightarrow> world \<Rightarrow> bool" where
  "same_out w w' \<longleftrightarrow> w_sys w' = w_sys w \<and> w_tim w' = w_tim w \<and> w_dac_dhr w' = w_dac_dhr w
     \<and> w_hw_dev w' = w_hw_dev w"

lemma button_result_same:
  assumes "same_out w w0" "same_out w1 w'"
  shows "button_result b w0 w1 \<Longrightarrow> button_result b w w'"
proof -
  have eqs: "w_sys w' = w_sys w1" "w_tim w' = w_tim w1" "w_dac_dhr w' = w_dac_dhr w1"
    "w_sys w0 = w_sys w" "w_tim w0 = w_tim w" "w_dac_dhr w0 = w_dac_dhr w"
    using assms by (simp_all add: same_out_def)
  show "button_result b w0 w1 \<Longrightarrow> button_result b w w'"
    unfolding button_result_def unchanged_def wave_at_def wave_off_def load_bit_def Let_def eqs .
qed

lemma same_out_inv: "same_out w w' \<Longrightarrow> app_inv w' = app_inv w"
  by (rule app_inv_cong) (simp_all add: same_out_def)

text \<open>Once the last sample showed the same buttons, further samples of them do nothing.\<close>

lemma pb_held:
  "w_stage_reg w = 0 \<Longrightarrow> w_bitmap_reg w = pb_pressed ((w_gpio w)\<lparr>idr := v\<rparr>) \<Longrightarrow>
   \<exists>w'. pb_samples (replicate n v) w = Inr w' \<and> same_out w w'"
proof (induction n arbitrary: w)
  case 0
  then show ?case by (simp add: same_out_def)
next
  case (Suc n)
  define w1 where "w1 = (set_idr v w)\<lparr>w_stage_reg := 0, w_bitmap_reg := w_bitmap_reg w\<rparr>"
  have g: "w_gpio (set_idr v w) = (w_gpio w)\<lparr>idr := v\<rparr>" by (simp add: set_idr_def world_upd)
  have st: "w_stage_reg (set_idr v w) = 0" "w_bitmap_reg (set_idr v w) = w_bitmap_reg w"
    using Suc.prems by (simp_all add: set_idr_def world_upd)
  have s: "pb_sample v w = Inr w1"
    using Suc.prems by (simp add: pb_sample_def pb_timer_cb_def pb_sts_update_def g st pb_stage_def w1_def)
  have "w_stage_reg w1 = 0" "w_bitmap_reg w1 = pb_pressed ((w_gpio w1)\<lparr>idr := v\<rparr>)"
    using Suc.prems(2) pb_pressed_idr[of v "w_gpio w1" "w_gpio w"] by (simp_all add: w1_def)
  from Suc.IH[OF this] obtain w' where "pb_samples (replicate n v) w1 = Inr w'" "same_out w1 w'" by auto
  moreover have "same_out w w1" by (simp add: w1_def same_out_def set_idr_def world_upd)
  ultimately show ?case using s by (auto simp: same_out_def)
qed

text \<open>C7: a button that is pressed after all were released, and held for two samples or more, does
  its action exactly once: the output is switched, or volume or frequency go one step, within
  their limits and only while the output is on.\<close>

theorem pb_hold_once:
  assumes "app_inv w" "w_stage_reg w = 0" "w_bitmap_reg w = 0"
    "pb_pressed ((w_gpio w)\<lparr>idr := v\<rparr>) = 2 ^ button_bit b" "2 \<le> n"
  shows "\<exists>w'. pb_samples (replicate n v) w = Inr w' \<and> app_inv w' \<and> button_result b w w'"
proof -
  define p where "p = pb_pressed ((w_gpio w)\<lparr>idr := v\<rparr>)"
  have pb: "pb_pressed (g\<lparr>idr := v\<rparr>) = p" for g using pb_pressed_idr by (simp add: p_def)
  have p0: "p \<noteq> 0" using assms(4) by (cases b) (simp_all add: p_def)
  define i where "i = button_bit b"
  have i: "i < 5" by (cases b) (simp_all add: i_def)
  have bits: "bit p k \<longleftrightarrow> k = i" for k using assms(4) i by (simp add: p_def i_def bit_one_hot)
  have gi: "w_gpio (set_idr v x) = (w_gpio x)\<lparr>idr := v\<rparr>" "w_stage_reg (set_idr v x) = w_stage_reg x"
    "w_bitmap_reg (set_idr v x) = w_bitmap_reg x" for x
    by (simp_all add: set_idr_def world_upd)
  define w1 where "w1 = (set_idr v w)\<lparr>w_stage_reg := 1, w_bitmap_reg := p\<rparr>"
  have s1: "pb_sample v w = Inr w1"
    using assms(2,3) p0
    by (simp add: pb_sample_def pb_timer_cb_def pb_sts_update_def gi pb pb_stage_def w1_def)
  define w2 where "w2 = set_idr v w1"
  have so: "same_out w w2" by (simp add: same_out_def w2_def w1_def set_idr_def world_upd)
  then have "app_inv w2" using assms(1) by (simp add: same_out_inv)
  then obtain w3 where w3: "pb_evt (resolve_pin_id i) w2 = Inr w3" "app_inv w3" "button_result b w2 w3"
    using pb_evt_ok[of w2 b] by (auto simp: i_def)
  have st: "pb_stage p p 1 = (Some i, 0)"
  proof -
    have "fst (pb_stage p p 1) = Some i" by (simp add: pb_stage_event bits i)
    then show ?thesis using pb_stage_next[of 1 p p] by (simp add: prod_eq_iff)
  qed
  define w4 where "w4 = w3\<lparr>w_stage_reg := 0, w_bitmap_reg := p\<rparr>"
  have reg: "w_bitmap_reg w2 = p" "w_stage_reg w2 = 1" by (simp_all add: w2_def w1_def gi)
  have prs: "pb_pressed (w_gpio w2) = p" by (simp add: w2_def gi pb)
  have s2: "pb_sample v w1 = Inr w4"
    using w3(1) by (simp add: pb_sample_def pb_timer_cb_def pb_sts_update_def reg prs st w4_def flip: w2_def)
  have h4: "w_stage_reg w4 = 0" "w_bitmap_reg w4 = pb_pressed ((w_gpio w4)\<lparr>idr := v\<rparr>)"
    by (simp_all add: w4_def pb)
  obtain m where m: "n = Suc (Suc m)" using assms(5) by (metis add_2_eq_Suc le_Suc_ex)
  obtain w' where w': "pb_samples (replicate m v) w4 = Inr w'" "same_out w4 w'"
    using pb_held[OF h4] by auto
  have so': "same_out w3 w'" using w'(2) by (simp add: same_out_def w4_def)
  have "pb_samples (replicate n v) w = Inr w'" using s1 s2 w'(1) m by simp
  moreover have "app_inv w'" using so' w3(2) by (simp add: same_out_inv)
  moreover have "button_result b w w'" by (rule button_result_same[OF so so' w3(3)])
  ultimately show ?thesis by blast
qed

definition press_freq_up :: "gpio_port \<Rightarrow> u16" where
  "press_freq_up = (\<lambda>_. 0xffff)(GPIOB := 0xfdff)"

lemma press_freq_up_bit: "pb_pressed (g\<lparr>idr := press_freq_up\<rparr>) = 2 ^ button_bit Freq_Up"
  by (simp add: pb_pressed_def get_pb_sts_def rt_pin_read_valid GET_PIN_valid pin_port_GET_PIN
      pin_pos_GET_PIN press_freq_up_def to_u8_def)

lemma pb_hold_once_witness:
  "\<exists>w'. pb_samples (replicate 10 press_freq_up) ready_world = Inr w' \<and> app_inv w'
     \<and> button_result Freq_Up ready_world w'"
  by (rule pb_hold_once[OF ready_world_inv _ _ press_freq_up_bit]) (simp_all add: ready_world_def)

text \<open>An event is only ever produced for a button pressed in two consecutive samples, and never
  in two consecutive samples, whatever the inputs do.\<close>

theorem pb_events_debounced:
  assumes "k < length bs" "pb_events bs reg stage ! k = Some i"
  shows "i < 5 \<and> bit (bs ! k) i \<and> bit ((reg # bs) ! k) i
    \<and> (0 < k \<longrightarrow> pb_events bs reg stage ! (k - 1) = None)"
  using assms by (rule pb_events_sound)

lemma pb_events_debounced_witness:
  "pb_events [0, 2, 2, 2] 0 0 ! 2 = Some 1 \<and> bit ([0, 2, 2, 2 :: u8] ! 2) 1"
proof -
  have e: "pb_events [0, 2, 2, 2] 0 0 ! 2 = Some 1"
    by (simp add: pb_stage_def pb_scan_def Let_def)
  then show ?thesis using pb_events_debounced[of 2 "[0, 2, 2, 2]" 0 0 1] by simp
qed

lemma pin_read_01: "valid_pin p \<Longrightarrow> rt_pin_read p g \<in> {0, 1}"
  by (simp add: rt_pin_read_valid)

lemma in_sts_bit3: "bit (in_sts_bitmap g out) 3 = bit out 0"
proof -
  have "rt_pin_read STS_GPRS g \<in> {0, 1}" "rt_pin_read STS_LINK1 g \<in> {0, 1}"
    "rt_pin_read STS_LOAD_DET g \<in> {0, 1}"
    by (rule pin_read_01, simp add: GET_PIN_valid)+
  then show ?thesis
    by (auto simp: in_sts_bitmap_def bit_or_iff bit_push_bit_iff to_u16_def)
qed

lemma load_bit_in_sts: "load_bit (snd (in_sts_update w)) = bit (out_en (w_stat w)) 0"
  by (simp add: load_bit_def in_sts_update_def world_upd Let_def bit_or_iff bit_and_iff in_sts_bit3)

lemma in_sts_update_inv: "app_inv w \<Longrightarrow> app_inv (snd (in_sts_update w))"
  by (rule app_inv_intro[of w]) (simp_all add: in_sts_update_def world_upd Let_def app_inv_def stage_ready_def)

text \<open>After the status inputs have been sampled, a request to switch the output on is decided by
  the output's own state, not by the load detection input: bit \<open>GBM_LOAD\<close> of the status holds
  \<open>out_en\<close>, and the load input is two bits below. A request made while the output is on
  switches it off.\<close>

theorem load_detect_ignored:
  assumes "app_inv w"
  shows "\<exists>w'. power_en_opt 1 (snd (in_sts_update w)) = Inr (1, w')
    \<and> out_en (w_stat w') = (if out_en (w_stat w) = 0 then 1 else 0)"
proof -
  define w1 where "w1 = snd (in_sts_update w)"
  have i: "app_inv w1" using assms by (simp add: w1_def in_sts_update_inv)
  have "out_en (w_stat w) \<le> 1" using assms by (simp add: app_inv_def)
  then have "out_en (w_stat w) = 0 \<or> out_en (w_stat w) = 1"
    by (simp add: word_le_nat_alt word_unat_eq_iff) arith
  then have l: "load_bit w1 = (out_en (w_stat w) \<noteq> 0)"
    by (auto simp: w1_def load_bit_in_sts)
  show ?thesis
  proof (cases "load_bit w1")
    case True
    then show ?thesis using power_en_opt_off[OF i, of 1] l by (auto simp flip: w1_def)
  next
    case False
    then show ?thesis using power_en_opt_on[OF i] l by (auto simp flip: w1_def)
  qed
qed

lemma load_detect_ignored_witness:
  "\<exists>w'. power_en_opt 1 (snd (in_sts_update ready_world)) = Inr (1, w') \<and> out_en (w_stat w') = 1"
  using load_detect_ignored[OF ready_world_inv]
  by (simp add: ready_world_def init_loads g_sys_init_def status_zero_def)

end
