(* ===== verification/Adc.thy ===== *)
theory Adc
  imports Board
begin

text \<open>
  The analog-to-digital converter: the device functions of
  \<open>rt-thread/components/drivers/misc/adc.c\<close> and the STM32 driver behind them
  (\<open>libraries/HAL_Drivers/drv_adc.c\<close>). The HAL calls of a conversion are the hardware here: they
  leave the result for the selected channel in the data register.
\<close>

definition stm32_adc_enabled :: "u32 \<Rightarrow> bool \<Rightarrow> world \<Rightarrow> int \<times> world" where
  "stm32_adc_enabled channel enabled w =
     (RT_EOK, if enabled then w\<lparr>w_adc_on := True\<rparr> else w\<lparr>w_adc_on := False\<rparr>)"

text \<open>The HAL numbers the channels of this part from 0 to 17.\<close>

definition stm32_adc_get_channel :: "u32 \<Rightarrow> u32" where
  "stm32_adc_get_channel channel =
     (if channel = 0 then 0 else if channel = 1 then 1 else if channel = 2 then 2
      else if channel = 3 then 3 else if channel = 4 then 4 else if channel = 5 then 5
      else if channel = 6 then 6 else if channel = 7 then 7 else if channel = 8 then 8
      else if channel = 9 then 9 else if channel = 10 then 10 else if channel = 11 then 11
      else if channel = 12 then 12 else if channel = 13 then 13 else if channel = 14 then 14
      else if channel = 15 then 15 else if channel = 16 then 16 else if channel = 17 then 17
      else 0)"

text \<open>The value is written only on success, so it is \<open>None\<close> after an error.\<close>

definition stm32_get_adc_value :: "u32 \<Rightarrow> world \<Rightarrow> int \<times> u32 option \<times> world" where
  "stm32_get_adc_value channel w =
     (if channel \<le> 17
      then (RT_EOK, Some (ucast (w_adc w (stm32_adc_get_channel channel))), w\<lparr>w_adc_on := True\<rparr>)
      else (- RT_ERROR, None, w))"

definition rt_adc_read :: "u32 \<Rightarrow> world \<Rightarrow> (u32 \<times> world) res" where
  "rt_adc_read channel w =
     bindE (assertE (w_adc_device w)) (\<lambda>_.
       case stm32_get_adc_value channel w of
         (_, None, _) \<Rightarrow> Inl Uninit_Read
       | (_, Some v, w1) \<Rightarrow> Inr (v, w1))"

definition rt_adc_enable :: "u32 \<Rightarrow> world \<Rightarrow> (int \<times> world) res" where
  "rt_adc_enable channel w =
     bindE (assertE (w_adc_device w)) (\<lambda>_. Inr (stm32_adc_enabled channel True w))"

definition rt_adc_disable :: "u32 \<Rightarrow> world \<Rightarrow> (int \<times> world) res" where
  "rt_adc_disable channel w =
     bindE (assertE (w_adc_device w)) (\<lambda>_. Inr (stm32_adc_enabled channel False w))"

text \<open>The device's read operation: one channel per \<open>int\<close> of the buffer, from channel \<open>pos\<close>,
  with the byte offset as the channel offset. The loop counter wraps at 32 bits; the loop ends at the
  latest with the first channel that is not there.\<close>

partial_function (option) adc_read_loop :: "u32 \<Rightarrow> u32 \<Rightarrow> u32 \<Rightarrow> world \<Rightarrow> (u32 \<times> u32 list \<times> world) option" where
  "adc_read_loop i pos sz w =
     (if i < sz
      then (let (_, r, w1) = stm32_get_adc_value (pos + i) w in
            case r of None \<Rightarrow> Some (0, [], w1)
            | Some v \<Rightarrow> Option.bind (adc_read_loop (i + 4) pos sz w1) (\<lambda>(n, vs, w2). Some (n, v # vs, w2)))
      else Some (i, [], w))"

definition adc_read :: "u32 \<Rightarrow> u32 \<Rightarrow> world \<Rightarrow> (u32 \<times> u32 list \<times> world) option" where
  "adc_read pos sz w = adc_read_loop 0 pos sz w"

definition adc_control :: "int \<Rightarrow> u32 \<Rightarrow> world \<Rightarrow> int \<times> world" where
  "adc_control cmd arg w =
     (if cmd = 0 then stm32_adc_enabled arg True w
      else if cmd = 1 then stm32_adc_enabled arg False w
      else (RT_EOK, w))"

lemma stm32_adc_get_channel_id: "c \<le> 17 \<Longrightarrow> stm32_adc_get_channel c = c"
proof -
  assume "c \<le> 17"
  then have "unat c \<le> 17" by (simp add: word_le_nat_alt)
  then have "unat c \<in> {..17}" by simp
  moreover have "c = (of_nat (unat c) :: u32)" by simp
  ultimately have "c \<in> (\<lambda>n. of_nat n :: u32) ` {..17}" by blast
  then show ?thesis by (auto simp: stm32_adc_get_channel_def atMost_nat_numeral le_Suc_eq)
qed

lemma rt_adc_read_ok:
  "w_adc_device w \<Longrightarrow> c \<le> 17 \<Longrightarrow> rt_adc_read c w = Inr (ucast (w_adc w c), w\<lparr>w_adc_on := True\<rparr>)"
  by (simp add: rt_adc_read_def stm32_get_adc_value_def stm32_adc_get_channel_id)

text \<open>A read returns, whatever the size.\<close>

lemma adc_read_returns: "\<exists>r. adc_read pos sz w = Some r"
proof -
  have "\<exists>r. adc_read_loop i pos sz w = Some r" if "18 - unat (pos + i) \<le> n \<or> \<not> pos + i \<le> 17" for n i w
    using that
  proof (induction n arbitrary: i w)
    case 0
    then have "\<not> pos + i \<le> 17" by (auto simp: word_le_nat_alt)
    then show ?case by (subst adc_read_loop.simps) (simp add: stm32_get_adc_value_def)
  next
    case (Suc n)
    show ?case
    proof (cases "pos + i \<le> 17")
      case True
      then have "unat (pos + i) \<le> 17" by (simp add: word_le_nat_alt)
      then have "unat (pos + (i + 4)) = unat (pos + i) + 4" by (simp add: unat_word_ariths flip: add.assoc)
      then have "18 - unat (pos + (i + 4)) \<le> n" using Suc.prems True by simp
      then obtain r where "adc_read_loop (i + 4) pos sz (snd (snd (stm32_get_adc_value (pos + i) w))) = Some r"
        using Suc.IH by blast
      then show ?thesis using True by (subst adc_read_loop.simps) (auto simp: stm32_get_adc_value_def split: prod.split)
    next
      case False
      then show ?thesis by (subst adc_read_loop.simps) (simp add: stm32_get_adc_value_def)
    qed
  qed
  from this[of 0 18] show ?thesis by (simp add: adc_read_def)
qed

end
