(* ===== verification/Bat_Drv.thy ===== *)
theory Bat_Drv
  imports Adc Led_Drv
begin

text \<open>
  Battery and temperature monitoring (\<open>applications/bat_drv.c\<close>): conversion of the ADC readings
  in floating point, the moving averages, the charge in percent and the bar display.
\<close>

section \<open>Operations\<close>

abbreviation (input) MAV_MAX_CNT :: nat where "MAV_MAX_CNT \<equiv> 64"
abbreviation (input) ADC_CHANNEL_TEMPSENSOR :: u8 where "ADC_CHANNEL_TEMPSENSOR \<equiv> 16"

definition adc_init :: "world \<Rightarrow> world" where
  "adc_init w = w\<lparr>w_adc_device := w_adc_found w\<rparr>"

definition adc_get_raw :: "u8 \<Rightarrow> world \<Rightarrow> (u16 \<times> world) res" where
  "adc_get_raw chan_id w =
     bindE (rt_adc_read (ucast chan_id) w) (\<lambda>(v, w1). Inr (ucast v, w1))"

text \<open>\<open>0.8059*temp\<close> is computed in \<open>double\<close>.\<close>

definition volt_of_raw :: "u16 \<Rightarrow> u16 res" where
  "volt_of_raw temp =
     bindE (float_to_uint 16 (fl64 (fl64 (8059 / 10000) * of_int (uint temp)))) (\<lambda>v. Inr (to_u16 v))"

definition adc_get_volt :: "u8 \<Rightarrow> world \<Rightarrow> (u16 \<times> world) res" where
  "adc_get_volt chan_id w =
     bindE (adc_get_raw chan_id w) (\<lambda>(temp, w1).
     bindE (volt_of_raw temp) (\<lambda>volt. Inr (volt, w1)))"

text \<open>The temperature mixes \<open>float\<close> variables with \<open>double\<close> constants.\<close>

definition temperate_of_raw :: "u16 \<Rightarrow> rat" where
  "temperate_of_raw temp =
     (let t1 = fl32 (fl64 (fl64 (fl32 (of_int (uint temp)) * fl64 (33 / 10)) / 4096))
      in fl32 (fl64 (25 + fl64 (fl64 (fl64 (134 / 100) - t1) / fl64 (43 / 10000)))))"

definition temp_of_raw :: "u16 \<Rightarrow> u16 res" where
  "temp_of_raw temp =
     bindE (float_to_uint 16 (fl32 (temperate_of_raw temp * 10))) (\<lambda>v. Inr (to_u16 v))"

definition adc_get_temp :: "world \<Rightarrow> (u16 \<times> world) res" where
  "adc_get_temp w =
     bindE (adc_get_raw ADC_CHANNEL_TEMPSENSOR w) (\<lambda>(temp, w1).
     bindE (temp_of_raw temp) (\<lambda>volt. Inr (volt, w1)))"

text \<open>
  One step of a moving average over \<open>mav_cnt_set\<close> samples; both monitors have this body. The sum
  is divided as an unsigned integer and truncated to 16 bits.
\<close>

definition udiv :: "u32 \<Rightarrow> u16 \<Rightarrow> u16 res" where
  "udiv a b = (if b = 0 then Inl Div_By_Zero else Inr (ucast (a div ucast b)))"

definition mav_step :: "u16 \<Rightarrow> u16 \<Rightarrow> bat_st \<Rightarrow> (u16 \<times> bat_st) res" where
  "mav_step mav_cnt_set cur m =
     (if buffer_ff m = 0
      then bindE (arr_set (mav_buffer m) (unat (mav_cnt m)) cur) (\<lambda>buf.
           let m1 = m\<lparr>mav_buffer := buf, accum_sum := accum_sum m + ucast cur,
                      mav_cnt := mav_cnt m + 1\<rparr>
           in bindE (udiv (accum_sum m1) (mav_cnt m1)) (\<lambda>v.
                Inr (v, if mav_cnt m1 \<ge> mav_cnt_set then m1\<lparr>mav_cnt := 0, buffer_ff := 1\<rparr> else m1)))
      else bindE (arr_get (mav_buffer m) (unat (mav_cnt m))) (\<lambda>old.
           bindE (arr_set (mav_buffer m) (unat (mav_cnt m)) cur) (\<lambda>buf.
           let m1 = m\<lparr>mav_buffer := buf, accum_sum := accum_sum m - ucast old + ucast cur,
                      mav_cnt := mav_cnt m + 1\<rparr>;
               m2 = (if mav_cnt m1 \<ge> mav_cnt_set then m1\<lparr>mav_cnt := 0\<rparr> else m1)
           in bindE (udiv (accum_sum m2) mav_cnt_set) (\<lambda>v. Inr (v, m2)))))"

text \<open>\<open>bat_mav_volt*105/50\<close> is computed in \<open>int\<close> and truncated on return.\<close>

definition bat_mav_calc :: "u16 \<Rightarrow> world \<Rightarrow> (u16 \<times> world) res" where
  "bat_mav_calc mav_cnt_set w =
     bindE (adc_get_volt 1 w) (\<lambda>(cur_volt, w1).
     bindE (mav_step mav_cnt_set cur_volt (w_bat_inst w1)) (\<lambda>(bat_mav_volt, m).
       Inr (to_u16 (uint bat_mav_volt * 105 div 50), w1\<lparr>w_bat_inst := m\<rparr>)))"

definition temp_mav_calc :: "u16 \<Rightarrow> world \<Rightarrow> (u16 \<times> world) res" where
  "temp_mav_calc mav_cnt_set w =
     bindE (adc_get_temp w) (\<lambda>(temp_volt, w1).
     bindE (mav_step mav_cnt_set temp_volt (w_temp_inst w1)) (\<lambda>(temp_mav_volt, m).
       Inr (temp_mav_volt, w1\<lparr>w_temp_inst := m\<rparr>)))"

text \<open>The quotient is an \<open>int\<close>; storing it in \<open>res_pwr\<close> truncates it to 16 bits.\<close>

definition bat_pwr_calc :: "u16 \<Rightarrow> u16 \<Rightarrow> u16 \<Rightarrow> int res" where
  "bat_pwr_calc up_lim low_lim volt =
     bindE (c_div (100 * (uint volt - uint low_lim)) (uint up_lim - uint low_lim)) (\<lambda>q.
       let res_pwr = to_s16 q
       in Inr (if res_pwr > 100 then 100 else if res_pwr < 0 then 0 else res_pwr))"

definition bat_update :: "world \<Rightarrow> world res" where
  "bat_update w =
     bindE (bat_mav_calc (bat_mav_cnt (w_conf w)) w) (\<lambda>(v, w1).
     let w2 = set_stat (bat_volt_update (\<lambda>_. v)) w1 in
     bindE (bat_pwr_calc (bat_up_lim (w_conf w2)) (bat_low_lim (w_conf w2)) (bat_volt (w_stat w2)))
       (\<lambda>p. let w3 = set_stat (bat_volum_update (\<lambda>_. to_u16 p)) w2 in
     bindE (temp_mav_calc (bat_mav_cnt (w_conf w3)) w3) (\<lambda>(t, w4).
     let w5 = set_stat (mcu_temp_update (\<lambda>_. t)) w4;
         (r, g) = set_bat_led (bat_volum (w_stat w5) div 10) (w_bat_reg w5) (w_gpio w5)
     in Inr (w5\<lparr>w_bat_reg := r, w_gpio := g\<rparr>))))"

text \<open>\<open>temp_inst\<close> and the \<open>buffer_ff\<close> flags keep the zeros of the start-up code.\<close>

definition bat_ds_init :: "world \<Rightarrow> world" where
  "bat_ds_init w =
     adc_init (w\<lparr>w_bat_inst := (w_bat_inst w)\<lparr>mav_buffer := replicate MAV_MAX_CNT 0,
                   accum_sum := 0, mav_cnt := 0\<rparr>\<rparr>)"

definition bat_drv_init :: "world \<Rightarrow> int \<times> world" where
  "bat_drv_init w = (RT_EOK, bat_ds_init (adc_init w))"

definition bat_volt_cmd :: "world \<Rightarrow> ((u16 \<times> u16) \<times> world) res" where
  "bat_volt_cmd w =
     bindE (adc_get_volt 1 w) (\<lambda>(v, w1). bindE (adc_get_temp w1) (\<lambda>(t, w2). Inr ((v, t), w2)))"

text \<open>The monitoring thread: a delay, then an update every 1000 ticks.\<close>

fun bat_app_loop :: "nat \<Rightarrow> world \<Rightarrow> world res" where
  "bat_app_loop 0 w = Inr w"
| "bat_app_loop (Suc n) w = bindE (bat_update w) (\<lambda>w1. bat_app_loop n (rt_thread_delay 1000 w1))"

definition bat_app_entry :: "nat \<Rightarrow> world \<Rightarrow> world res" where
  "bat_app_entry n w = bat_app_loop n (rt_thread_delay 200 w)"

end
