(* ===== verification/App_Main.thy ===== *)
theory App_Main
  imports Gvar_Facts Pb_Drv Bat_Drv
begin

text \<open>
  The application as a whole (\<open>applications/main.c\<close>): start-up, the main loop, the shell commands
  of \<open>main.c\<close>, and the transition system made of the main loop, the button timer, the timer
  interrupt, the battery thread, the shell and the changing inputs. Each transition is one call
  of an entry point; entry points do not interleave within a transition.
\<close>

section \<open>Start-up and main loop\<close>

abbreviation (input) LED3_PIN :: int where "LED3_PIN \<equiv> GET_PIN GPIOB 15"

text \<open>The state when the C program starts, with the two devices the drivers register.\<close>

definition reset_world :: "int \<Rightarrow> (u32 \<Rightarrow> u16) \<Rightarrow> world" where
  "reset_world pclk1 adc =
     \<lparr>w_sys = g_sys_zero, w_gpio = gpio_reset, w_tim = rt_hwtimer_registered (tim_reset pclk1),
      w_tim_found = True, w_hw_dev = False, w_dac_en = False, w_dac_dhr = 0, w_dac_boff = False,
      w_rect_flag = 0, w_bat_reg = 0, w_adc = adc, w_adc_on = False, w_adc_found = True,
      w_adc_device = False, w_bat_inst = mav_zero, w_temp_inst = mav_zero, w_bitmap_reg = 0,
      w_stage_reg = 0, w_pb_timer = False, w_slept = 0\<rparr>"

text \<open>The board initialisation calls of the application, then \<open>main\<close> up to its loop.\<close>

definition board_init :: "world \<Rightarrow> world" where
  "board_init w = upd_gpio led_init (snd (bat_drv_init w))"

definition main_start :: "bool \<Rightarrow> world \<Rightarrow> world res" where
  "main_start timer_created w =
     (let w1 = upd_gpio (rt_pin_mode LED3_PIN PIN_MODE_OUTPUT) (gvar_init w)
      in bindE (dac_init w1) (\<lambda>(_, w2). Inr (snd (pb_init timer_created w2))))"

definition main_body :: "world \<Rightarrow> world" where
  "main_body w =
     (let w1 = snd (in_sts_update w);
          w2 = upd_gpio (sts_led_update (w_sys w1)) w1;
          w3 = rt_thread_delay 500 (upd_gpio (rt_pin_write LED3_PIN PIN_HIGH) w2)
      in rt_thread_delay 500 (upd_gpio (rt_pin_write LED3_PIN PIN_LOW) w3))"

section \<open>Shell commands\<close>

text \<open>\<open>atrd\<close> and \<open>atwr\<close> convert their arguments before they check how many there are; then they
  send a command to the modem with the two numbers, or print a usage line (\<open>None\<close>).\<close>

definition at_args :: "string list \<Rightarrow> (u16 \<times> u16) option res" where
  "at_args argv =
     bindE (argv_get argv 1) (\<lambda>s1. bindE (atoi_u16 s1) (\<lambda>a.
     bindE (argv_get argv 2) (\<lambda>s2. bindE (atoi_u16 s2) (\<lambda>d.
       Inr (if length argv < 3 then None else Some (a, d))))))"

definition atrd :: "string list \<Rightarrow> (u16 \<times> u16) option res" where
  "atrd argv = at_args argv"

definition atwr :: "string list \<Rightarrow> (u16 \<times> u16) option res" where
  "atwr argv = at_args argv"

section \<open>The transition system\<close>

datatype shell_cmd =
    Wr_Reg_Map "string list" | Dac_Set_Val "string list" | Led_Set_Vol "string list"
  | Led_Set_Freq "string list" | Bat_Volt | Show_Pin_Sts

fun shell :: "shell_cmd \<Rightarrow> world \<Rightarrow> world res" where
  "shell (Wr_Reg_Map argv) w = bindE (wr_reg_map argv w) (\<lambda>(_, w1). Inr w1)"
| "shell (Dac_Set_Val argv) w = dac_set_val argv w"
| "shell (Led_Set_Vol argv) w = bindE (led_set_vol argv (w_gpio w)) (\<lambda>g. Inr (w\<lparr>w_gpio := g\<rparr>))"
| "shell (Led_Set_Freq argv) w = bindE (led_set_freq argv (w_gpio w)) (\<lambda>g. Inr (w\<lparr>w_gpio := g\<rparr>))"
| "shell Bat_Volt w = bindE (bat_volt_cmd w) (\<lambda>(_, w1). Inr w1)"
| "shell Show_Pin_Sts w = Inr (snd (show_pin_sts w))"

inductive app_step :: "world \<Rightarrow> world \<Rightarrow> bool" where
  step_main: "app_step w (main_body w)"
| step_buttons: "pb_sample v w = Inr w' \<Longrightarrow> app_step w w'"
| step_tim2: "hwt_running (w_tim w) \<Longrightarrow> tim2_irq w = Inr w' \<Longrightarrow> app_step w w'"
| step_battery: "bat_update w = Inr w' \<Longrightarrow> app_step w w'"
| step_shell: "shell c w = Inr w' \<Longrightarrow> app_step w w'"
| step_adc: "app_step w (w\<lparr>w_adc := adc\<rparr>)"

inductive app_reachable :: "world \<Rightarrow> bool" where
  reach_start: "main_start b (board_init (reset_world pclk1 adc)) = Inr w \<Longrightarrow> app_reachable w"
| reach_step: "app_reachable w \<Longrightarrow> app_step w w' \<Longrightarrow> app_reachable w'"

inductive_cases app_stepE: "app_step w w'"

section \<open>The invariant holds after start-up\<close>

lemma hwt_init_ready:
  assumes "w_tim w = rt_hwtimer_registered (tim_reset pclk1)" "w_tim_found w"
  shows "\<exists>t. hwt_init w = Inr (RT_EOK, w\<lparr>w_hw_dev := True, w_tim := t\<rparr>) \<and> hwt_ready t
     \<and> \<not> hwt_running t \<and> tim_psc (tim t) = to_u16 (uint (to_u16 (pclk1 * 2 mod 2 ^ 32 div 1000000)) - 1)"
  using assms
  by (simp add: hwt_init_def on_hw_dev_def rt_device_open_def rt_hwtimer_registered_def
      rt_hwtimer_init_def rt_hwtimer_open_def timer_init_def TIM_Base_SetConfig_def upd_tim_def
      timer_ctrl_freq_set_def c_div_def c_quot_nonneg tim_dev_info_def Let_def uint_to_u32
      rt_device_set_rx_indicate_def rt_device_control_def hwtimer_mode_set_def tim_reset_def
      hwt_ready_def freq_1MHz_def hwt_running_def)
    (intro exI conjI, rule refl, simp_all)

lemma main_start_ok:
  "\<exists>w. main_start b (board_init (reset_world pclk1 adc)) = Inr w \<and> app_inv w
     \<and> w_sys w = g_sys_init \<and> \<not> hwt_running (w_tim w) \<and> w_adc_device w
     \<and> w_stage_reg w = 0 \<and> w_bitmap_reg w = 0 \<and> w_pb_timer w = b
     \<and> w_bat_inst w = mav_zero \<and> w_temp_inst w = mav_zero
     \<and> tim_psc (tim (w_tim w)) = to_u16 (uint (to_u16 (pclk1 * 2 mod 2 ^ 32 div 1000000)) - 1)"
proof -
  define w1 where "w1 = dac_start (MX_DAC_Init (upd_gpio (\<lambda>g.
       rt_pin_write BEEPER PIN_LOW (rt_pin_write MUX_SEL PIN_LOW
         (rt_pin_mode BEEPER PIN_MODE_OUTPUT (rt_pin_mode MUX_SEL PIN_MODE_OUTPUT g))))
       (upd_gpio (rt_pin_mode LED3_PIN PIN_MODE_OUTPUT) (gvar_init (board_init (reset_world pclk1 adc))))))"
  have f: "w_tim w1 = rt_hwtimer_registered (tim_reset pclk1)" "w_tim_found w1" "w_sys w1 = g_sys_init"
    "w_adc_device w1" "w_stage_reg w1 = 0" "w_bitmap_reg w1 = 0" "\<not> w_pb_timer w1"
    "w_bat_inst w1 = mav_zero" "w_temp_inst w1 = mav_zero"
    by (simp_all add: w1_def dac_start_def dac_set_def HAL_DAC_SetValue_def MX_DAC_Init_def world_upd
        gvar_init_def board_init_def bat_drv_init_def bat_ds_init_def adc_init_def reset_world_def
        init_loads mav_zero_def)
  obtain t where t: "hwt_init w1 = Inr (RT_EOK, w1\<lparr>w_hw_dev := True, w_tim := t\<rparr>)" "hwt_ready t"
    "\<not> hwt_running t" "tim_psc (tim t) = to_u16 (uint (to_u16 (pclk1 * 2 mod 2 ^ 32 div 1000000)) - 1)"
    using hwt_init_ready[OF f(1,2)] by auto
  define w2 where "w2 = snd (pb_init b (w1\<lparr>w_hw_dev := True, w_tim := t\<rparr>))"
  have s: "main_start b (board_init (reset_world pclk1 adc)) = Inr w2"
    by (simp add: main_start_def dac_init_def t(1) w2_def flip: w1_def)
  have g: "w_tim w2 = t" "w_hw_dev w2" "w_sys w2 = g_sys_init" "w_adc_device w2" "w_stage_reg w2 = 0"
    "w_bitmap_reg w2 = 0" "w_pb_timer w2 = b" "w_bat_inst w2 = mav_zero" "w_temp_inst w2 = mav_zero"
    by (simp_all add: w2_def pb_init_def tim_init_def world_upd f)
  have "app_inv w2"
    using t(2) g g_sys_init_in_range
    by (simp add: app_inv_def stage_ready_def)
      (simp add: g_sys_init_def config_zero_def status_zero_def word_le_def)
  then show ?thesis using s t g by auto
qed

section \<open>Every transition keeps it\<close>

lemma main_body_inv: "app_inv w \<Longrightarrow> app_inv (main_body w)"
  using in_sts_update_inv[of w]
  by (rule iffD1[OF app_inv_cong, rotated -1])
    (simp_all add: main_body_def Let_def world_upd)

lemma tim2_irq_inv:
  assumes "app_inv w" "tim2_irq w = Inr w'"
  shows "app_inv w'"
proof -
  have r: "hwt_ready (w_tim w)" using assms(1) by (rule app_inv_ready)
  obtain t cb where t: "rt_device_hwtimer_isr (w_tim w) = Inr (t, cb)"
    "w' = (case cb of None \<Rightarrow> w\<lparr>w_tim := t\<rparr> | Some Dac_Cb \<Rightarrow> dac_cb (w\<lparr>w_tim := t\<rparr>))"
    using assms(2) by (auto simp: tim2_irq_def bindE_Inr_iff Let_def)
  have "hwt_ready t"
    using t(1) r
    by (auto simp: rt_device_hwtimer_isr_def hwt_ready_def freq_1MHz_def Let_def split: if_splits)
  then have i: "app_inv (w\<lparr>w_tim := t\<rparr>)" using assms(1) by (rule app_inv_timer[rotated])
  have "app_inv (dac_cb w1) = app_inv w1" for w1
    by (rule app_inv_cong) (simp_all add: dac_cb_def world_upd)
  then show ?thesis using t(2) i by (auto split: option.splits rx_ind.splits)
qed

lemma rt_adc_read_frame:
  "rt_adc_read c w = Inr (v, w') \<Longrightarrow> w' = w\<lparr>w_adc_on := True\<rparr>"
  by (auto simp: rt_adc_read_def bindE_Inr_iff stm32_get_adc_value_def split: if_splits)

lemma adc_get_frame:
  "adc_get_volt c w = Inr (v, w') \<Longrightarrow> w' = w\<lparr>w_adc_on := True\<rparr>"
  "adc_get_temp w = Inr (v, w') \<Longrightarrow> w' = w\<lparr>w_adc_on := True\<rparr>"
  by (auto simp: adc_get_volt_def adc_get_temp_def adc_get_raw_def bindE_Inr_iff dest: rt_adc_read_frame)

lemma mav_calc_frame:
  "bat_mav_calc k w = Inr (v, w') \<Longrightarrow> \<exists>m. w' = w\<lparr>w_adc_on := True, w_bat_inst := m\<rparr>"
  "temp_mav_calc k w = Inr (v, w') \<Longrightarrow> \<exists>m. w' = w\<lparr>w_adc_on := True, w_temp_inst := m\<rparr>"
  by (auto simp: bat_mav_calc_def temp_mav_calc_def bindE_Inr_iff dest!: adc_get_frame)

lemma bat_update_inv:
  assumes "app_inv w" "bat_update w = Inr w'"
  shows "app_inv w'"
proof -
  have "w_conf w' = w_conf w \<and> w_tim w' = w_tim w \<and> w_hw_dev w' = w_hw_dev w
    \<and> freq_index (w_stat w') = freq_index (w_stat w) \<and> volum_index (w_stat w') = volum_index (w_stat w)
    \<and> out_en (w_stat w') = out_en (w_stat w) \<and> rect_freq (w_stat w') = rect_freq (w_stat w)"
    using assms(2)
    by (auto simp: bat_update_def bindE_Inr_iff Let_def world_upd case_prod_unfold
        dest!: mav_calc_frame)
  then show ?thesis
    using assms(1) by (intro app_inv_intro[OF assms(1)]) (simp_all add: app_inv_def stage_ready_def)
qed

lemma wr_reg_map_inv:
  assumes "app_inv w" "wr_reg_map argv w = Inr (r, w')"
  shows "app_inv w'"
proof (cases "length argv < 3")
  case True
  then show ?thesis using assms by (simp add: wr_reg_map_def)
next
  case False
  then obtain d a where "reg_map_write a [d] 1 w = Inr (r, w')"
    using assms(2) by (auto simp: wr_reg_map_def bindE_Inr_iff)
  then show ?thesis using reg_map_write_cases[OF assms(1), of 1 "[d]" a] by auto
qed

lemma shell_inv:
  assumes "app_inv w" "shell c w = Inr w'"
  shows "app_inv w'"
proof (cases c)
  case (Wr_Reg_Map argv)
  then show ?thesis using assms wr_reg_map_inv by (auto simp: bindE_Inr_iff)
next
  case (Dac_Set_Val argv)
  then have "w_sys w' = w_sys w \<and> w_tim w' = w_tim w \<and> w_hw_dev w' = w_hw_dev w"
    using assms(2) by (auto simp: dac_set_val_def bindE_Inr_iff dac_set_def HAL_DAC_SetValue_def split: if_splits)
  then show ?thesis using assms(1) app_inv_cong[of w' w] by simp
next
  case (Led_Set_Vol argv)
  then show ?thesis using assms app_inv_cong[of w' w] by (auto simp: bindE_Inr_iff)
next
  case (Led_Set_Freq argv)
  then show ?thesis using assms app_inv_cong[of w' w] by (auto simp: bindE_Inr_iff)
next
  case Bat_Volt
  then have "w' = w\<lparr>w_adc_on := True\<rparr>"
    using assms(2) by (auto simp: bat_volt_cmd_def bindE_Inr_iff dest!: adc_get_frame)
  then show ?thesis using assms(1) app_inv_cong[of w' w] by simp
next
  case Show_Pin_Sts
  then show ?thesis using assms in_sts_update_inv[OF assms(1)]
    by (simp add: show_pin_sts_def case_prod_unfold Let_def)
qed

lemma app_step_inv: "app_step w w' \<Longrightarrow> app_inv w \<Longrightarrow> app_inv w'"
proof (induction rule: app_step.induct)
  case (step_main w)
  then show ?case by (rule main_body_inv)
next
  case (step_buttons v w w')
  then show ?case using pb_sts_update_ok[of "set_idr v w"] by (auto simp: pb_sample_def pb_timer_cb_def)
next
  case (step_tim2 w w')
  then show ?case using tim2_irq_inv by blast
next
  case (step_battery w w')
  then show ?case using bat_update_inv by blast
next
  case (step_shell c w w')
  then show ?case using shell_inv by blast
next
  case (step_adc w adc)
  then show ?case using app_inv_cong[of "w\<lparr>w_adc := adc\<rparr>" w] by simp
qed

end
