(* ===== verification/Gvar_Props.thy ===== *)
theory Gvar_Props
  imports Gvar_Facts
begin

text \<open>The properties of the register maps, with the facts on reads they need.\<close>

section \<open>Reads\<close>

lemma read_loop_ok:
  "(\<And>k. i \<le> k \<Longrightarrow> k < i + n \<Longrightarrow> entry (a + k) = Inr (Some (P k))) \<Longrightarrow> i + n \<le> length buf \<Longrightarrow>
   read_loop entry a i n g buf =
     Inr (take i buf @ map (\<lambda>k. Some (reg_load (P k) g)) [i..<i + n] @ drop (i + n) buf)"
proof (induction n arbitrary: i buf)
  case 0
  then show ?case by simp
next
  case (Suc n)
  have e: "entry (a + i) = Inr (Some (P i))" using Suc.prems(1)[of i] by simp
  define v where "v = Some (reg_load (P i) g)"
  have "read_loop entry a i (Suc n) g buf = read_loop entry a (Suc i) n g (buf[i := v])"
    using e Suc.prems(2) by (simp add: v_def)
  also have "\<dots> = Inr (take (Suc i) (buf[i := v]) @ map (\<lambda>k. Some (reg_load (P k) g)) [Suc i..<Suc i + n]
                        @ drop (Suc i + n) (buf[i := v]))"
    using Suc.prems by (intro Suc.IH) simp_all
  also have "take (Suc i) (buf[i := v]) = take i buf @ [v]"
    using Suc.prems(2) by (simp add: take_Suc_conv_app_nth)
  also have "drop (Suc i + n) (buf[i := v]) = drop (i + Suc n) buf" by simp
  finally show ?case
    using upt_conv_Cons[of i "i + Suc n"] by (simp add: v_def)
qed

lemma read_loop_okE:
  "okE (read_loop entry a i n g buf) \<Longrightarrow> k < n \<Longrightarrow>
   (\<exists>p. entry (a + i + k) = Inr (Some p)) \<and> i + k < length buf"
proof (induction n arbitrary: i buf k)
  case 0
  then show ?case by simp
next
  case (Suc n)
  obtain p where p: "entry (a + i) = Inr (Some p)" "i < length buf"
    "okE (read_loop entry a (Suc i) n g (buf[i := Some (reg_load p g)]))"
    using Suc.prems(1) by (auto simp: okE_iff bindE_Inr_iff arr_set_def split: option.splits if_splits)
  show ?case
  proof (cases k)
    case 0
    then show ?thesis using p by simp
  next
    case (Suc k')
    then show ?thesis using Suc.IH[OF p(3), of k'] Suc.prems(2) p(2) by simp
  qed
qed

lemma read_loop_null:
  "(\<And>k. i \<le> k \<Longrightarrow> k < i + n \<Longrightarrow> entry (a + k) = Inr (P k)) \<Longrightarrow> \<exists>k. i \<le> k \<and> k < i + n \<and> P k = None \<Longrightarrow>
   i + n \<le> length buf \<Longrightarrow> read_loop entry a i n g buf = Inl Null_Deref"
proof (induction n arbitrary: i buf)
  case (Suc n)
  have e: "entry (a + i) = Inr (P i)" using Suc.prems(1)[of i] by simp
  show ?case
  proof (cases "P i")
    case None
    then show ?thesis using e by simp
  next
    case (Some p)
    have "\<exists>k. Suc i \<le> k \<and> k < Suc i + n \<and> P k = None"
      using Suc.prems(2) Some by (metis Suc_leI add_Suc_shift le_neq_implies_less option.distinct(1))
    then have "read_loop entry a (Suc i) n g (buf[i := Some (reg_load p g)]) = Inl Null_Deref"
      using Suc.prems(1,3) by (intro Suc.IH) simp_all
    then show ?thesis using e Some Suc.prems(3) by simp
  qed
qed auto

lemma read_loop_length: "read_loop entry a i n g buf = Inr b \<Longrightarrow> length b = length buf"
proof (induction n arbitrary: i buf)
  case 0
  then show ?case by simp
next
  case (Suc n)
  then obtain p where "read_loop entry a (Suc i) n g (buf[i := Some (reg_load p g)]) = Inr b"
    by (auto simp: bindE_Inr_iff arr_set_def split: option.splits if_splits)
  from Suc.IH[OF this] show ?case by simp
qed

lemma conf_ptr_eq: "a < 16 \<Longrightarrow> conf_ptr a = Inr (c_reg_ptr (conf_reg_map_inst ! a))"
  by (simp add: conf_ptr_def)

lemma high_bit_clear:
  assumes "unat (a :: u16) < 32768"
  shows "a AND 0x8000 = 0"
proof -
  have "\<not> bit a 15"
    using assms by (simp add: bit_iff_odd word_arith_nat_div unat_div)
  then show ?thesis using word_and_one_hot_neq_0[of a 15] by auto
qed

section \<open>Properties\<close>

text \<open>C4: a register write from a buffer that holds the values never faults, unless it ends with
  the reset register and asks for the reset; it keeps the application invariant. Without an error
  the written window of the configuration holds the values and the rest is unchanged; an address
  error changes nothing; a data error leaves the configuration as it was.\<close>

theorem reg_map_write_spec:
  assumes "app_inv w" "unat cnt \<le> length ds"
  shows "(\<exists>err w'. reg_map_write a ds cnt w = Inr (err, w') \<and> app_inv w'
      \<and> (err = REGMAP_ERR_NOERR \<longrightarrow> unat a + unat cnt \<le> 16
          \<and> stored (unat a) (take (unat cnt) ds) (w_sys w) (w_sys w')
          \<and> (\<forall>i<unat cnt. val_ok (unat a + i) (ds ! i)))
      \<and> (err = REGMAP_ERR_ADDR_OR \<longrightarrow> unat a + unat cnt > 16 \<and> w' = w)
      \<and> (err = REGMAP_ERR_DATA_OR \<longrightarrow> w_conf w' = w_conf w
          \<and> (\<exists>i<unat cnt. \<not> val_ok (unat a + i) (ds ! i)))
      \<and> err \<in> {REGMAP_ERR_NOERR, REGMAP_ERR_ADDR_OR, REGMAP_ERR_DATA_OR})
    \<or> (reg_map_write a ds cnt w = Inl System_Reset \<and> unat a + unat cnt = 16)"
  using assms by (rule reg_map_write_cases)

text \<open>C5: In a state of the application, what a register write without error wrote, a read of the same
  addresses returns, when each of them has a variable behind it. Those without one are 3, 4 and 12 to
  15: they take a write of 0 (15 only the code for the reset, which ends the program), and the read
  dereferences the null pointer.\<close>

theorem reg_map_roundtrip:
  assumes "app_inv w" "reg_map_write a ds cnt w = Inr (REGMAP_ERR_NOERR, w')" "unat cnt = length ds"
  shows "reg_map_read a (replicate (length ds) None) cnt (w_sys w') =
    (if {unat a..<unat a + length ds} \<inter> {3, 4, 12, 13, 14, 15} = {} then Inr (REGMAP_ERR_NOERR, map Some ds) else Inl Null_Deref)"
proof -
  have r: "unat a + length ds \<le> 16" "stored (unat a) ds (w_sys w) (w_sys w')"
    using reg_map_write_cases[OF assms(1), of cnt ds a] assms(2,3) by auto
  define P where "P k = c_reg_ptr (conf_reg_map_inst ! (unat a + k))" for k
  have e: "conf_ptr (unat a + k) = Inr (P k)" if "k < length ds" for k
    using that r(1) by (simp add: conf_ptr_eq P_def)
  have n: "P k = None \<longleftrightarrow> unat a + k \<in> {3, 4, 12, 13, 14, 15}" if "k < length ds" for k
    using nat16_cases[of "unat a + k"] that r(1) unfolding P_def by (auto simp: conf_nth)
  have rd: "reg_map_read a (replicate (length ds) None) cnt (w_sys w') =
      bindE (read_loop conf_ptr (unat a) 0 (length ds) (w_sys w') (replicate (length ds) None)) (\<lambda>b. Inr (REGMAP_ERR_NOERR, b))"
    using r(1) assms(3) high_bit_clear[of a] by (simp add: reg_map_read_def)
  show ?thesis
  proof (cases "{unat a..<unat a + length ds} \<inter> {3, 4, 12, 13, 14, 15} = {}")
    case True
    have p: "P k \<noteq> None" if k: "k < length ds" for k
    proof -
      have "unat a + k \<in> {unat a..<unat a + length ds}" using k by simp
      then have "unat a + k \<notin> {3, 4, 12, 13, 14, 15}" using True by blast
      then show ?thesis using n[OF k] by simp
    qed
    have v: "reg_load (the (P k)) (w_sys w') = ds ! k" if "k < length ds" for k
      using r p[OF that] that unfolding stored_def conf_val_def P_def by (auto dest!: spec[of _ "unat a + k"])
    have "read_loop conf_ptr (unat a) 0 (length ds) (w_sys w') (replicate (length ds) None)
        = Inr (map (\<lambda>k. Some (reg_load (the (P k)) (w_sys w'))) [0..<length ds])"
      using read_loop_ok[of 0 "length ds" conf_ptr "unat a" "\<lambda>k. the (P k)"] p e by simp
    also have "map (\<lambda>k. Some (reg_load (the (P k)) (w_sys w'))) [0..<length ds] = map Some ds"
      using v by (intro nth_equalityI) simp_all
    finally show ?thesis using True rd by simp
  next
    case False
    then obtain b where b: "unat a \<le> b" "b < unat a + length ds" "b \<in> {3, 4, 12, 13, 14, 15}" by auto
    then have "0 \<le> b - unat a \<and> b - unat a < 0 + length ds \<and> P (b - unat a) = None" using n[of "b - unat a"] by simp
    then have "\<exists>k. 0 \<le> k \<and> k < 0 + length ds \<and> P k = None" by (rule exI)
    from read_loop_null[where entry = conf_ptr and a = "unat a", OF _ this]
    have "read_loop conf_ptr (unat a) 0 (length ds) (w_sys w') (replicate (length ds) None) = Inl Null_Deref" using e by simp
    then show ?thesis using False rd by simp
  qed
qed

text \<open>A read of \<open>n\<close> configuration registers into a buffer for them faults exactly when the
  start address is accepted and some address read has no register behind it: the range check
  looks at the start address only, and accepts 16.\<close>

theorem reg_map_read_faults:
  assumes "unat a < 32768"
  shows "okE (reg_map_read a (replicate (unat n) None) n g) \<longleftrightarrow>
    16 < unat a \<or> (\<forall>i<unat n. unat a + i < 16 \<and> c_reg_ptr (conf_reg_map_inst ! (unat a + i)) \<noteq> None)"
proof (cases "16 < unat a")
  case True
  then show ?thesis using high_bit_clear[OF assms] by (simp add: reg_map_read_def)
next
  case False
  define buf where "buf = (replicate (unat n) None :: u16 option list)"
  have e: "okE (reg_map_read a buf n g) = okE (read_loop conf_ptr (unat a) 0 (unat n) g buf)"
    using False high_bit_clear[OF assms] by (auto simp: reg_map_read_def okE_iff bindE_Inr_iff)
  have "okE (read_loop conf_ptr (unat a) 0 (unat n) g buf) \<longleftrightarrow>
    (\<forall>i<unat n. unat a + i < 16 \<and> c_reg_ptr (conf_reg_map_inst ! (unat a + i)) \<noteq> None)" (is "?l = ?r")
  proof
    assume ?l
    have "\<exists>p. conf_ptr (unat a + i) = Inr (Some p)" if "i < unat n" for i
      using read_loop_okE[OF \<open>?l\<close> that] by simp
    then show ?r by (fastforce simp: conf_ptr_def arr_get_def split: if_splits)
  next
    assume r: ?r
    have "conf_ptr (unat a + k) = Inr (Some (the (c_reg_ptr (conf_reg_map_inst ! (unat a + k)))))"
      if "k < unat n" for k using r that by (auto simp: conf_ptr_eq)
    then show ?l
      using read_loop_ok[of 0 "unat n" conf_ptr "unat a"
          "\<lambda>k. the (c_reg_ptr (conf_reg_map_inst ! (unat a + k)))" buf g]
      by (simp add: buf_def)
  qed
  then show ?thesis using e False by (simp add: buf_def)
qed

lemma reg_map_write_spec_witness:
  "unat (2 :: u8) \<le> length [4300, 2900 :: u16] \<and>
   (\<exists>err w'. reg_map_write 9 [4300, 2900] 2 ready_world = Inr (err, w') \<and> app_inv w'
      \<and> (err = REGMAP_ERR_NOERR \<longrightarrow> stored 9 [4300, 2900] (w_sys ready_world) (w_sys w')))"
  using reg_map_write_spec[OF ready_world_inv, of 2 "[4300, 2900]" 9] by auto

lemma write_9_ok: "\<exists>w'. reg_map_write 9 [4300, 2900] 2 ready_world = Inr (REGMAP_ERR_NOERR, w')"
  by (simp add: reg_map_write_def conf_nth upd_sys_def)

lemma write_11_ok: "\<exists>w'. reg_map_write 11 [64, 0] 2 ready_world = Inr (REGMAP_ERR_NOERR, w')"
  by (simp add: reg_map_write_def conf_nth upd_sys_def)

lemma reg_map_roundtrip_witness:
  "(\<exists>w'. reg_map_write 9 [4300, 2900] 2 ready_world = Inr (REGMAP_ERR_NOERR, w')
      \<and> reg_map_read 9 [None, None] 2 (w_sys w') = Inr (REGMAP_ERR_NOERR, [Some 4300, Some 2900]))
   \<and> (\<exists>w'. reg_map_write 11 [64, 0] 2 ready_world = Inr (REGMAP_ERR_NOERR, w')
      \<and> reg_map_read 11 [None, None] 2 (w_sys w') = Inl Null_Deref)"
proof -
  obtain w1 w2 where w: "reg_map_write 9 [4300, 2900] 2 ready_world = Inr (REGMAP_ERR_NOERR, w1)"
    "reg_map_write 11 [64, 0] 2 ready_world = Inr (REGMAP_ERR_NOERR, w2)"
    using write_9_ok write_11_ok by auto
  have "{9..<11} \<inter> {3, 4, 12, 13, 14, 15} = ({} :: nat set)" "12 \<in> {11..<13} \<inter> {3, 4, 12, 13, 14, 15 :: nat}" by auto
  then show ?thesis
    using reg_map_roundtrip[OF ready_world_inv w(1)] reg_map_roundtrip[OF ready_world_inv w(2)] w
    by (auto simp: replicate_num split: if_splits)
qed

lemma reg_map_read_faults_witness:
  "\<not> okE (reg_map_read 16 [None] 1 g_sys_zero) \<and> \<not> okE (reg_map_read 3 [None] 1 g_sys_zero)
   \<and> okE (reg_map_read 17 [None] 1 g_sys_zero) \<and> okE (reg_map_read 9 [None] 1 g_sys_zero)"
  using reg_map_read_faults[of 16 1 g_sys_zero] reg_map_read_faults[of 3 1 g_sys_zero]
    reg_map_read_faults[of 17 1 g_sys_zero] reg_map_read_faults[of 9 1 g_sys_zero]
  by (simp add: conf_nth)

text \<open>A multi-register write is not atomic. The check loop runs the action of each register
  before it has checked the next, so a write that is rejected for its second value has already
  switched the output on, while the register behind the switch keeps its old value.\<close>

theorem reg_map_write_partial:
  assumes "app_inv w" "\<not> load_bit w" "4 < uint v"
  shows "\<exists>w'. reg_map_write 0 [1, v] 2 w = Inr (REGMAP_ERR_DATA_OR, w')
    \<and> out_en (w_stat w') = 1 \<and> wave_at (rect_freq (w_stat w)) w' \<and> w_conf w' = w_conf w"
proof -
  obtain w' where "power_en_opt 1 w = Inr (1, w')" "w_conf w' = w_conf w"
    "w_stat w' = (w_stat w)\<lparr>volum_reg := 0, out_en := 1\<rparr>" "wave_at (rect_freq (w_stat w)) w'"
    using power_en_opt_on[OF assms(1,2)] by auto
  then show ?thesis using assms(3) by (simp add: reg_map_write_def conf_nth)
qed

lemma ready_world_load: "\<not> load_bit ready_world"
  by (simp add: load_bit_def ready_world_def init_loads g_sys_init_def status_zero_def)

lemma reg_map_write_partial_witness:
  "\<exists>w'. reg_map_write 0 [1, 9] 2 ready_world = Inr (REGMAP_ERR_DATA_OR, w')
    \<and> out_en (w_stat w') = 1 \<and> wave_at (rect_freq (w_stat ready_world)) w' \<and> w_conf w' = w_conf ready_world"
  using reg_map_write_partial[OF ready_world_inv ready_world_load, of 9] by simp

text \<open>Writing the volume register sets the DAC to the level of the volume that was selected
  before the write, since \<open>volum_opt\<close> sets the DAC before it stores the new index.\<close>

theorem volum_write_lags:
  assumes "app_inv w" "uint v \<le> 8"
  shows "\<exists>w'. reg_map_write 2 [v] 1 w = Inr (REGMAP_ERR_NOERR, w') \<and> volum_index (w_stat w') = v
    \<and> w_dac_dhr w' = ucast (OPWR_IND ! unat (volum_index (w_stat w)))"
proof -
  have v: "v \<le> 8" using assms(2) by (simp add: word_le_def)
  obtain w1 where w1: "volum_opt v w = Inr (1, w1)" "app_inv w1" "w_stat w1 = (w_stat w)\<lparr>volum_index := v\<rparr>"
    "w_dac_dhr w1 = ucast (OPWR_IND ! unat (volum_index (w_stat w))) AND 0xFFF"
    using volum_opt_ok[OF assms(1) v] by auto
  have i: "unat (volum_index (w_stat w)) \<le> 8"
    using assms(1) by (simp add: app_inv_def word_le_nat_alt)
  then have "unat (volum_index (w_stat w)) \<in> {0, 1, 2, 3, 4, 5, 6, 7, 8}" by (simp; arith)
  then have "ucast (OPWR_IND ! unat (volum_index (w_stat w))) AND 0xFFF
      = (ucast (OPWR_IND ! unat (volum_index (w_stat w))) :: u32)"
    by (auto simp: OPWR_IND_def)
  then show ?thesis
    using w1 assms(2) by (simp add: reg_map_write_def conf_nth store_dft_def world_upd)
qed

lemma volum_write_lags_witness:
  "\<exists>w'. reg_map_write 2 [8] 1 ready_world = Inr (REGMAP_ERR_NOERR, w') \<and> volum_index (w_stat w') = 8
    \<and> w_dac_dhr w' = 966"
  using volum_write_lags[OF ready_world_inv, of 8]
  by (simp add: ready_world_def init_loads g_sys_init_def OPWR_IND_def)

text \<open>Writing the frequency selection starts the output wave, also while the output is
  switched off, and the status keeps saying that it is off.\<close>

theorem freq_write_starts_output:
  assumes "app_inv w" "uint v \<le> 4" "out_en (w_stat w) = 0"
  shows "\<exists>w'. reg_map_write 1 [v] 1 w = Inr (REGMAP_ERR_NOERR, w') \<and> out_en (w_stat w') = 0
    \<and> freq_index (w_stat w') = v \<and> wave_at (rect_freq (w_stat w')) w'"
proof -
  have v: "v \<le> 4" using assms(2) by (simp add: word_le_def)
  obtain w1 where w1: "freq_opt v w = Inr (1, w1)" "w_stat w1 = freq_select v (w_conf w) (w_stat w)"
    "wave_at (rect_freq (w_stat w1)) w1"
    using freq_opt_ok[OF assms(1) v] by auto
  then show ?thesis
    using assms(2,3) v by (simp add: reg_map_write_def conf_nth store_dft_def world_upd freq_select_facts wave_at_def)
qed

lemma freq_write_starts_output_witness:
  "\<exists>w'. reg_map_write 1 [3] 1 ready_world = Inr (REGMAP_ERR_NOERR, w') \<and> out_en (w_stat w') = 0
    \<and> freq_index (w_stat w') = 3 \<and> wave_at (rect_freq (w_stat w')) w'"
  using freq_write_starts_output[OF ready_world_inv, of 3]
  by (simp add: ready_world_def init_loads g_sys_init_def status_zero_def)

text \<open>The shell command that shows registers faults on every count above 32: its buffer has
  32 elements, and the loop that prints them trusts the count it was given.\<close>

theorem rd_reg_map_overrun:
  assumes "atoi_u16 s2 = Inr n" "32 < unat n"
  shows "\<not> okE (rd_reg_map [c, s1, s2] w)"
proof -
  have p: "\<not> okE (print_regs a i m buf)" if "length buf < i + m" "i \<le> length buf" for a i m buf
    using that
  proof (induction m arbitrary: i)
    case 0
    then show ?case by simp
  next
    case (Suc m)
    show ?case
    proof (cases "i < length buf")
      case True
      then have "\<not> okE (print_regs a (Suc i) m buf)" using Suc by simp
      then show ?thesis using True by (cases "buf ! i") (auto simp: okE_iff bindE_Inr_iff)
    qed simp
  qed
  have len: "length b = 32" if "reg_map_read a (replicate 32 None) k g = Inr (e, b)" for a k g e b
  proof -
    note l = read_loop_length
    show ?thesis using that
      by (auto simp: reg_map_read_def Let_def bindE_Inr_iff dest!: l split: if_splits)
  qed
  show ?thesis
    using assms p[of _ 0] len
    by (fastforce simp: rd_reg_map_def argv_get_def okE_iff bindE_Inr_iff)
qed

lemma rd_reg_map_overrun_witness: "\<not> okE (rd_reg_map [''rd_reg_map'', ''0'', ''33''] ready_world)"
  by (rule rd_reg_map_overrun[of _ 33]) (simp_all add: atoi_u16_def atoi_def c_isspace_def c_isdigit_def of_char_def to_u16_def)

end
