(* ===== verification/Bat_Facts.thy ===== *)
theory Bat_Facts
  imports Bat_Drv
begin

text \<open>
  What the battery monitor computes: the rounding of the conversions, the moving average against
  the mean of the last samples, and the charge in percent.
\<close>

section \<open>Conversions\<close>

lemma fl64_0_8059: "\<bar>fl64 (8059 / 10000) - 8059 / 10000\<bar> \<le> 1 / 1000000000000000"
  using fl64_error[of "8059 / 10000"] by simp

lemma volt_error:
  assumes "0 \<le> r" "r \<le> 4095"
  shows "\<bar>fl64 (fl64 (8059 / 10000) * r) - 8059 / 10000 * r\<bar> \<le> 1 / 100000000000"
proof -
  define c where "c = fl64 (8059 / 10000)"
  have c: "\<bar>c - 8059 / 10000\<bar> \<le> 1 / 1000000000000000" unfolding c_def by (rule fl64_0_8059)
  have "\<bar>c * r - 8059 / 10000 * r\<bar> = \<bar>c - 8059 / 10000\<bar> * r"
    using assms(1) by (simp only: abs_mult abs_of_nonneg left_diff_distrib [symmetric])
  also have "\<dots> \<le> 1 / 1000000000000000 * r" using c assms(1) by (rule mult_right_mono)
  finally have e1: "\<bar>c * r - 8059 / 10000 * r\<bar> \<le> 1 / 1000000000000000 * r" .
  define y where "y = c * r"
  have "\<bar>fl64 y - y\<bar> \<le> \<bar>y\<bar> * (1 / 9007199254740992) + 1 / 100000000000000000000"
    by (rule fl64_error)
  then show ?thesis using e1 assms unfolding c_def [symmetric] y_def [symmetric] by linarith
qed

lemma float_to_uint_eqI:
  assumes "of_int k \<le> y" "y < of_int k + 1" "0 \<le> k" "k < 2 ^ w"
  shows "float_to_uint w y = Inr k"
proof -
  have "\<lfloor>y\<rfloor> = k" using assms(1,2) by (simp add: floor_unique)
  moreover have "0 \<le> y" using assms(1,3) by (metis of_int_0_le_iff order_trans)
  ultimately show ?thesis using assms(3,4) by (simp add: float_to_uint_def c_trunc_def)
qed

lemma volt_of_raw_aux:
  assumes "uint raw \<le> 4095"
  shows "volt_of_raw raw = Inr (to_u16 (8059 * uint raw div 10000))"
proof -
  define n where "n = uint raw"
  define q where "q = 8059 * n div 10000"
  define m where "m = 8059 * n mod 10000"
  have n: "0 \<le> n" "n \<le> 4095" using assms by (simp_all add: n_def)
  have qm: "8059 * n = 10000 * q + m" "0 \<le> m" "m < 10000"
    by (simp_all add: q_def m_def)
  have q: "0 \<le> q" "q < 65536" using n qm by linarith+
  define x where "x = 8059 / 10000 * (of_int n :: rat)"
  have "(of_int (8059 * n) :: rat) = of_int (10000 * q + m)" by (simp only: qm(1))
  then have x: "x = of_int q + of_int m / 10000" by (simp add: x_def)
  define y where "y = fl64 (fl64 (8059 / 10000) * of_int n)"
  have e: "\<bar>y - x\<bar> \<le> 1 / 100000000000"
    unfolding y_def x_def by (rule volt_error) (use n in simp_all)
  have y0: "0 \<le> y" using n fl64_nonneg[of "8059 / 10000"] by (simp add: y_def fl64_nonneg)
  have m1: "(of_int m :: rat) \<le> 9999" using qm(3) by simp
  have low: "of_int q \<le> y"
  proof (cases "m = 0")
    case True
    then have "10000 dvd 8059 * n" by (simp add: m_def mod_eq_0_iff_dvd)
    moreover have "coprime (10000 :: int) 8059" by (simp add: coprime_iff_gcd_eq_1 gcd_non_0_int)
    ultimately have "10000 dvd n" by (simp add: coprime_dvd_mult_right_iff)
    then have "n = 0" using n by (auto elim: dvdE)
    then show ?thesis by (simp add: q_def y_def)
  next
    case False
    then have "(1 :: rat) \<le> of_int m" using qm(2) by simp
    then show ?thesis using e x by linarith
  qed
  have "y < of_int q + 1" using e x m1 by linarith
  then have "float_to_uint 16 y = Inr q" using low q by (intro float_to_uint_eqI) simp_all
  then show ?thesis by (simp add: volt_of_raw_def y_def q_def n_def)
qed

text \<open>The temperature: the exact value is linear in the reading.\<close>

lemma temperate_error:
  assumes "0 \<le> n" "n \<le> 4095" "uint raw = n"
  shows "\<bar>temperate_of_raw raw - (25 + (134 / 100 - of_int n * (33 / 10) / 4096) / (43 / 10000))\<bar> \<le> 1 / 1000"
proof -
  define r where "r = (of_int n :: rat)"
  have r: "0 \<le> r" "r \<le> 4095" "fl32 (of_int n) = r" using assms fl32_int[of n] by (simp_all add: r_def)
  define c1 where "c1 = fl64 (33 / 10)"
  have c1: "\<bar>c1 - 33 / 10\<bar> \<le> 1 / 1000000000000" using fl64_error[of "33 / 10"] by (simp add: c1_def)
  define a where "a = fl64 (r * c1)"
  have "\<bar>r * c1 - r * (33 / 10)\<bar> = r * \<bar>c1 - 33 / 10\<bar>"
    using r(1) by (simp only: abs_mult abs_of_nonneg right_diff_distrib [symmetric])
  also have "\<dots> \<le> r * (1 / 1000000000000)" using c1 r(1) by (rule mult_left_mono)
  finally have "\<bar>r * c1 - r * (33 / 10)\<bar> \<le> r * (1 / 1000000000000)" .
  moreover have "\<bar>a - r * c1\<bar> \<le> \<bar>r * c1\<bar> * (1 / 9007199254740992) + 1 / 100000000000000000000"
    unfolding a_def by (rule fl64_error)
  ultimately have a: "\<bar>a - r * (33 / 10)\<bar> \<le> 1 / 10000000" using r(1,2) by linarith
  define b where "b = fl64 (a / 4096)"
  have "\<bar>b - a / 4096\<bar> \<le> \<bar>a / 4096\<bar> * (1 / 9007199254740992) + 1 / 100000000000000000000"
    unfolding b_def by (rule fl64_error)
  then have b: "\<bar>b - r * (33 / 10) / 4096\<bar> \<le> 1 / 10000000" using a r(1,2) by linarith
  define t1 where "t1 = fl32 b"
  have "\<bar>t1 - b\<bar> \<le> \<bar>b\<bar> * (1 / 16777216) + 1 / 100000000000000000000"
    unfolding t1_def by (rule fl32_error)
  then have t1: "\<bar>t1 - r * (33 / 10) / 4096\<bar> \<le> 4 / 10000000" using b r(1,2) by linarith
  define c2 where "c2 = fl64 (134 / 100)"
  have c2: "\<bar>c2 - 134 / 100\<bar> \<le> 1 / 10000000" using fl64_error[of "134 / 100"] by (simp add: c2_def)
  define g where "g = c2 - t1"
  define d where "d = fl64 g"
  have "\<bar>d - g\<bar> \<le> \<bar>g\<bar> * (1 / 9007199254740992) + 1 / 100000000000000000000"
    unfolding d_def by (rule fl64_error)
  moreover have "\<bar>g\<bar> \<le> 4" using t1 c2 r(1,2) unfolding g_def by linarith
  ultimately have "\<bar>d - g\<bar> \<le> 1 / 100000000" by linarith
  then have d: "\<bar>d - (134 / 100 - r * (33 / 10) / 4096)\<bar> \<le> 6 / 10000000"
    using t1 c2 unfolding g_def by linarith
  define c3 where "c3 = fl64 (43 / 10000)"
  have c3: "\<bar>c3 - 43 / 10000\<bar> \<le> 1 / 1000000000000" using fl64_error[of "43 / 10000"] by (simp add: c3_def)
  define q where "q = d / c3"
  have qc: "q * c3 = d" using c3 by (auto simp: q_def)
  have dl: "\<bar>d\<bar> \<le> 2" using d r(1,2) by linarith
  have c3p: "42 / 10000 \<le> c3" using c3 by linarith
  have "\<bar>q\<bar> * (42 / 10000) \<le> \<bar>q\<bar> * c3" using c3p by (intro mult_left_mono) simp_all
  also have "\<dots> = \<bar>d\<bar>" using c3p by (simp add: abs_mult flip: qc)
  finally have ql: "\<bar>q\<bar> \<le> 500" using dl by linarith
  have "\<bar>q * (43 / 10000) - d\<bar> = \<bar>q\<bar> * \<bar>43 / 10000 - c3\<bar>"
    by (simp only: abs_mult right_diff_distrib [symmetric] qc [symmetric])
  also have "\<dots> \<le> 500 * (1 / 1000000000000)" using ql c3 by (intro mult_mono) (simp_all add: abs_minus_commute)
  finally have qd: "\<bar>q * (43 / 10000) - d\<bar> \<le> 500 * (1 / 1000000000000)" .
  define X where "X = 134 / 100 - r * (33 / 10) / 4096"
  have "\<bar>q - X * (10000 / 43)\<bar> \<le> 1 / 5000"
    using d qd unfolding X_def [symmetric] by linarith
  then have q: "\<bar>q - (134 / 100 - r * (33 / 10) / 4096) / (43 / 10000)\<bar> \<le> 1 / 5000"
    unfolding X_def [symmetric] by simp
  define e where "e = fl64 q"
  have "\<bar>e - q\<bar> \<le> \<bar>q\<bar> * (1 / 9007199254740992) + 1 / 100000000000000000000"
    unfolding e_def by (rule fl64_error)
  then have e: "\<bar>e - q\<bar> \<le> 1 / 1000000000" using ql by linarith
  define h where "h = 25 + e"
  define f where "f = fl64 h"
  have "\<bar>f - h\<bar> \<le> \<bar>h\<bar> * (1 / 9007199254740992) + 1 / 100000000000000000000"
    unfolding f_def by (rule fl64_error)
  moreover have "\<bar>h\<bar> \<le> 600" using e ql unfolding h_def by linarith
  ultimately have "\<bar>f - h\<bar> \<le> 1 / 1000000000" by linarith
  then have f: "\<bar>f - (25 + e)\<bar> \<le> 1 / 1000000000" unfolding h_def .
  have "\<bar>fl32 f - f\<bar> \<le> \<bar>f\<bar> * (1 / 16777216) + 1 / 100000000000000000000" by (rule fl32_error)
  then have g: "\<bar>fl32 f - f\<bar> \<le> 1 / 20000" using f e ql by linarith
  have "temperate_of_raw raw = fl32 f"
    by (simp add: temperate_of_raw_def Let_def assms(3) r f_def h_def e_def q_def c3_def d_def g_def c2_def t1_def
        b_def a_def c1_def)
  moreover define z where "z = (134 / 100 - r * (33 / 10) / 4096) / (43 / 10000)"
  ultimately show ?thesis using g f e q unfolding r_def [symmetric] z_def [symmetric] by linarith
qed

lemma temp_of_raw_aux:
  assumes "uint raw \<le> 4095"
  shows "okE (temp_of_raw raw) \<longleftrightarrow> uint raw \<le> 1797"
    and "\<not> okE (temp_of_raw raw) \<Longrightarrow> temp_of_raw raw = Inl Bad_Conversion"
proof -
  define n where "n = uint raw"
  have n: "0 \<le> n" "n \<le> 4095" using assms by (simp_all add: n_def)
  define r where "r = (of_int n :: rat)"
  define t where "t = temperate_of_raw raw"
  have t: "\<bar>t - (25 + (134 / 100 - r * (33 / 10) / 4096) / (43 / 10000))\<bar> \<le> 1 / 1000"
    using temperate_error[OF n] by (simp add: t_def r_def n_def)
  have r: "0 \<le> r" "r \<le> 4095" using n by (simp_all add: r_def)
  have eq: "(134 / 100 - r * (33 / 10) / 4096) / (43 / 10000) = 13400 / 43 - r * (33000 / 176128)"
    by (simp add: field_simps)
  have t: "\<bar>t - (25 + (13400 / 43 - r * (33000 / 176128)))\<bar> \<le> 1 / 1000" using t unfolding eq .
  have tl: "\<bar>t\<bar> \<le> 500" using t r by linarith
  define y where "y = fl32 (t * 10)"
  have "\<bar>y - t * 10\<bar> \<le> \<bar>t * 10\<bar> * (1 / 16777216) + 1 / 100000000000000000000"
    unfolding y_def by (rule fl32_error)
  then have y: "\<bar>y - t * 10\<bar> \<le> 1 / 1000" using tl by linarith
  have d: "temp_of_raw raw = bindE (float_to_uint 16 y) (\<lambda>v. Inr (to_u16 v))"
    by (simp add: temp_of_raw_def y_def t_def)
  have ok: "float_to_uint 16 y = Inr (c_trunc y)" if "n \<le> 1797"
  proof -
    have "r \<le> 1797" using that by (simp add: r_def)
    then have b: "- 1 < y" "y < 60000" using y t r by linarith+
    have "0 \<le> c_trunc y" "c_trunc y < 65536"
      using b by (auto simp: c_trunc_def le_floor_iff floor_less_iff zero_le_ceiling ceiling_less_iff
          ceiling_le_iff intro: le_less_trans)
    then show ?thesis by (simp add: float_to_uint_def)
  qed
  have bad: "float_to_uint 16 y = Inl Bad_Conversion" if "1798 \<le> n"
  proof -
    have "1798 \<le> r" using that by (simp add: r_def)
    then have b: "y \<le> - 1" using y t r by linarith
    then have "c_trunc y < 0" by (simp add: c_trunc_def ceiling_less_iff)
    then show ?thesis by (simp add: float_to_uint_def)
  qed
  show "okE (temp_of_raw raw) \<longleftrightarrow> uint raw \<le> 1797"
    using ok bad by (cases "n \<le> 1797") (simp_all add: d n_def)
  show "\<not> okE (temp_of_raw raw) \<Longrightarrow> temp_of_raw raw = Inl Bad_Conversion"
    using ok bad by (cases "n \<le> 1797") (simp_all add: d n_def)
qed

section \<open>The moving average\<close>

text \<open>A moving average \<open>m\<close> with window \<open>k\<close> has seen the samples \<open>xs\<close>: sample \<open>j\<close> of the last \<open>k\<close>
  is at index \<open>j mod k\<close> of the buffer, and the sum is theirs.\<close>

definition last_n :: "nat \<Rightarrow> 'a list \<Rightarrow> 'a list" where
  "last_n k xs = drop (length xs - k) xs"

definition usum :: "u16 list \<Rightarrow> nat" where
  "usum xs = sum_list (map unat xs)"

definition mav_rel :: "nat \<Rightarrow> u16 list \<Rightarrow> bat_st \<Rightarrow> bool" where
  "mav_rel k xs m \<longleftrightarrow> length (mav_buffer m) = 64
     \<and> mav_cnt m = of_nat (length xs mod k)
     \<and> buffer_ff m = (if length xs < k then 0 else 1)
     \<and> (\<forall>j<length xs. length xs - k \<le> j \<longrightarrow> mav_buffer m ! (j mod k) = xs ! j)
     \<and> accum_sum m = of_nat (usum (last_n k xs))"

lemma usum_bound: "usum xs \<le> length xs * 65535"
proof (induction xs)
  case Nil
  then show ?case by (simp add: usum_def)
next
  case (Cons x xs)
  have "unat x < 2 ^ LENGTH(16)" by (rule unsigned_less)
  then show ?case using Cons.IH by (simp add: usum_def)
qed

lemma last_n_snoc:
  "length xs < k \<Longrightarrow> last_n k (xs @ [x]) = last_n k xs @ [x]"
  "0 < k \<Longrightarrow> k \<le> length xs \<Longrightarrow> last_n k xs = xs ! (length xs - k) # drop (Suc (length xs - k)) xs
     \<and> last_n k (xs @ [x]) = drop (Suc (length xs - k)) xs @ [x]"
  by (auto simp: last_n_def Cons_nth_drop_Suc Suc_diff_le)

lemma usum_simps [simp]: "usum [] = 0" "usum (x # xs) = unat x + usum xs" "usum (xs @ ys) = usum xs + usum ys"
  by (simp_all add: usum_def)

text \<open>The mean of the last \<open>k\<close> samples, rounded down.\<close>

definition mav_mean :: "nat \<Rightarrow> u16 list \<Rightarrow> nat" where
  "mav_mean k xs = usum (last_n k xs) div min k (length xs)"

lemma udiv_of_nat:
  assumes "s < 2 ^ 32" "0 < d" "d < 65536"
  shows "udiv (of_nat s) (of_nat d) = Inr (of_nat (s div d))"
proof -
  have dn: "unat (of_nat d :: u16) = d" using assms(3) by (simp add: unat_of_nat)
  have d0: "(of_nat d :: u16) \<noteq> 0"
  proof
    assume "(of_nat d :: u16) = 0"
    then have "unat (of_nat d :: u16) = 0" by simp
    then show False using dn assms(2) by simp
  qed
  have uc: "(ucast (of_nat d :: u16) :: u32) = of_nat d"
    using dn by (simp add: unsigned_of_nat take_bit_nat_eq_self)
  have q: "(of_nat s :: u32) div of_nat d = of_nat (s div d)"
    using assms by (simp add: word_arith_nat_div unat_of_nat)
  have "s div d < 2 ^ 32" using assms(1) by (meson div_le_dividend le_less_trans)
  then have "(ucast (of_nat (s div d) :: u32) :: u16) = of_nat (s div d)"
    by (simp add: unsigned_of_nat take_bit_nat_eq_self)
  then show ?thesis using d0 by (simp add: udiv_def uc q)
qed

lemma mav_step_rel:
  assumes rel: "mav_rel k xs m" and k: "0 < k" "k \<le> 64"
  shows "\<exists>m'. mav_step (of_nat k) x m = Inr (of_nat (mav_mean k (xs @ [x])), m') \<and> mav_rel k (xs @ [x]) m'"
proof -
  define n where "n = length xs"
  define i where "i = n mod k"
  have "i < k" using k by (simp add: i_def)
  then have i: "i < 64" "i < k" using k by simp_all
  have ui: "unat (mav_cnt m) = i" using rel i by (simp add: mav_rel_def n_def i_def unat_of_nat)
  have cnt1: "mav_cnt m + 1 = of_nat (i + 1)" using rel by (simp add: mav_rel_def n_def i_def)
  have ge: "((of_nat k :: u16) \<le> of_nat (i + 1)) = (k \<le> i + 1)"
  proof -
    have "unat (of_nat (i + 1) :: u16) = i + 1" "unat (of_nat k :: u16) = k"
      using i k by (subst unat_of_nat; simp)+
    then show ?thesis unfolding word_le_nat_alt by simp
  qed
  define buf where "buf = (mav_buffer m)[i := x]"
  have lb: "length (mav_buffer m) = 64" using rel by (simp add: mav_rel_def)
  have lbuf: "length buf = 64" by (simp add: buf_def lb)
  have acc: "accum_sum m = of_nat (usum (last_n k xs))" using rel by (simp add: mav_rel_def)
  have ux: "(ucast x :: u32) = of_nat (unat x)" by simp
  have bufj: "buf ! (j mod k) = (xs @ [x]) ! j" if "j < n + 1" "n + 1 - k \<le> j" for j
  proof (cases "j = n")
    case True
    then show ?thesis using i lb by (simp add: buf_def i_def n_def)
  next
    case False
    then have jn: "j < n" using that by simp
    have "j mod k \<noteq> i"
    proof
      assume "j mod k = i"
      then have "n mod k = j mod k" by (simp add: i_def)
      then have "k dvd n - j" using mod_eq_dvd_iff_nat less_imp_le[OF jn] by blast
      then have "k \<le> n - j" using jn by (intro dvd_imp_le) simp_all
      then show False using that jn by linarith
    qed
    moreover have "mav_buffer m ! (j mod k) = xs ! j"
      using rel jn that by (simp add: mav_rel_def n_def)
    ultimately show ?thesis using jn by (simp add: buf_def nth_append n_def)
  qed
  have sb: "usum (last_n k ys) < 2 ^ 32" for ys
  proof -
    have "length (last_n k ys) \<le> 64" using k by (simp add: last_n_def)
    then have "usum (last_n k ys) \<le> 64 * 65535"
      using usum_bound[of "last_n k ys"] by (meson le_trans mult_le_mono1)
    then show ?thesis by simp
  qed
  have nmod: "(if k \<le> i + 1 then 0 else of_nat i + 1) = (of_nat ((n + 1) mod k) :: u16)"
    using i(2) by (auto simp: i_def mod_Suc)
  show ?thesis
  proof (cases "n < k")
    case True
    have iN: "i = n" using True by (simp add: i_def)
    have s: "usum (last_n k (xs @ [x])) = usum (last_n k xs) + unat x"
      using last_n_snoc(1)[of xs k x] True by (simp add: n_def)
    have a: "accum_sum m + ucast x = of_nat (usum (last_n k (xs @ [x])))"
      by (simp only: acc s of_nat_add ux)
    have ff: "buffer_ff m = 0" using rel True by (simp add: mav_rel_def n_def)
    have q: "udiv (of_nat (usum (last_n k (xs @ [x])))) (of_nat (i + 1)) =
        Inr (of_nat (mav_mean k (xs @ [x])))"
      using udiv_of_nat[OF sb[of "xs @ [x]"], of "i + 1"] i True iN by (simp add: mav_mean_def n_def)
    define m1 where "m1 = m\<lparr>mav_buffer := buf, accum_sum := accum_sum m + ucast x, mav_cnt := mav_cnt m + 1\<rparr>"
    define m' where "m' = (if k \<le> i + 1 then m1\<lparr>mav_cnt := 0, buffer_ff := 1\<rparr> else m1)"
    have "mav_step (of_nat k) x m = Inr (of_nat (mav_mean k (xs @ [x])), m')"
      using i lb q ge ff by (simp add: mav_step_def ui cnt1 a buf_def [symmetric] m'_def m1_def Let_def del: of_nat_add)
    moreover have "mav_rel k (xs @ [x]) m'"
      using bufj nmod a lbuf ff iN True cnt1
      by (auto simp: mav_rel_def m'_def m1_def buf_def [symmetric] n_def [symmetric] simp del: of_nat_add)
    ultimately show ?thesis by blast
  next
    case False
    then have kn: "k \<le> length xs" by (simp add: n_def)
    note ls = last_n_snoc(2)[OF k(1) kn, of x]
    have old: "mav_buffer m ! i = xs ! (n - k)"
    proof -
      have "(n - k) mod k = i" using False by (simp add: i_def le_mod_geq)
      then show ?thesis using rel False k by (auto simp: mav_rel_def n_def dest!: spec[of _ "n - k"])
    qed
    have s: "usum (last_n k xs) + unat x = usum (last_n k (xs @ [x])) + unat (xs ! (n - k))"
      using ls by (simp add: n_def)
    have a: "accum_sum m - ucast (mav_buffer m ! i) + ucast x = of_nat (usum (last_n k (xs @ [x])))"
    proof -
      have "(of_nat (usum (last_n k xs) + unat x) :: u32) = of_nat (usum (last_n k (xs @ [x])) + unat (xs ! (n - k)))"
        by (simp only: s)
      then show ?thesis by (simp add: acc old algebra_simps)
    qed
    have ff: "buffer_ff m = 1" using rel False by (simp add: mav_rel_def n_def)
    have q: "udiv (of_nat (usum (last_n k (xs @ [x])))) (of_nat k) = Inr (of_nat (mav_mean k (xs @ [x])))"
      using udiv_of_nat[OF sb[of "xs @ [x]"], of k] k False by (simp add: mav_mean_def n_def)
    define m1 where "m1 = m\<lparr>mav_buffer := buf, accum_sum := accum_sum m - ucast (mav_buffer m ! i) + ucast x,
      mav_cnt := mav_cnt m + 1\<rparr>"
    define m' where "m' = (if k \<le> i + 1 then m1\<lparr>mav_cnt := 0\<rparr> else m1)"
    have "mav_step (of_nat k) x m = Inr (of_nat (mav_mean k (xs @ [x])), m')"
      using i lb q ge ff by (simp add: mav_step_def ui cnt1 a buf_def [symmetric] m'_def m1_def Let_def del: of_nat_add)
    moreover have "mav_rel k (xs @ [x]) m'"
      using bufj nmod a lbuf ff False cnt1
      by (auto simp: mav_rel_def m'_def m1_def buf_def [symmetric] n_def [symmetric] simp del: of_nat_add)
    ultimately show ?thesis by blast
  qed
qed

text \<open>A run of a moving average over a list of samples.\<close>

fun mav_run :: "u16 \<Rightarrow> u16 list \<Rightarrow> bat_st \<Rightarrow> (u16 list \<times> bat_st) res" where
  "mav_run k [] m = Inr ([], m)"
| "mav_run k (x # xs) m =
     bindE (mav_step k x m) (\<lambda>(v, m1). bindE (mav_run k xs m1) (\<lambda>(vs, m2). Inr (v # vs, m2)))"

definition mav_init :: bat_st where
  "mav_init = \<lparr>mav_buffer = replicate 64 0, mav_cnt = 0, accum_sum = 0, buffer_ff = 0\<rparr>"

lemma mav_init_rel: "0 < k \<Longrightarrow> mav_rel k [] mav_init"
  by (simp add: mav_rel_def mav_init_def last_n_def)

lemma mav_run_rel:
  "mav_rel k ys m \<Longrightarrow> 0 < k \<Longrightarrow> k \<le> 64 \<Longrightarrow>
   \<exists>m'. mav_run (of_nat k) xs m =
      Inr (map (\<lambda>i. of_nat (mav_mean k (ys @ take (Suc i) xs))) [0..<length xs], m') \<and> mav_rel k (ys @ xs) m'"
proof (induction xs arbitrary: ys m)
  case Nil
  then show ?case by simp
next
  case (Cons x xs)
  obtain m1 where m1: "mav_step (of_nat k) x m = Inr (of_nat (mav_mean k (ys @ [x])), m1)"
    "mav_rel k (ys @ [x]) m1" using mav_step_rel[OF Cons.prems, of x] by auto
  obtain m2 where m2: "mav_run (of_nat k) xs m1 =
      Inr (map (\<lambda>i. of_nat (mav_mean k ((ys @ [x]) @ take (Suc i) xs))) [0..<length xs], m2)"
    "mav_rel k ((ys @ [x]) @ xs) m2" using Cons.IH[OF m1(2) Cons.prems(2,3)] by auto
  have "map (\<lambda>i. of_nat (mav_mean k (ys @ take (Suc i) (x # xs)))) [0..<length (x # xs)]
      = (of_nat (mav_mean k (ys @ [x])) :: u16)
        # map (\<lambda>i. of_nat (mav_mean k ((ys @ [x]) @ take (Suc i) xs))) [0..<length xs]"
    by (simp add: upt_conv_Cons map_Suc_upt [symmetric] del: upt_Suc)
  then show ?case using m1(1) m2 by simp
qed

text \<open>A window larger than the buffer: the 65th sample is written behind it.\<close>

lemma mav_fill:
  assumes "64 < k" "k < 65536"
  shows "n \<le> 64 \<Longrightarrow> length xs = n \<Longrightarrow>
    \<exists>vs m. mav_run (of_nat k) xs mav_init = Inr (vs, m) \<and> buffer_ff m = 0 \<and> mav_cnt m = of_nat n
      \<and> length (mav_buffer m) = 64"
proof (induction n arbitrary: xs)
  case 0
  then show ?case by (simp add: mav_init_def)
next
  case (Suc n)
  obtain ys x where xs: "xs = ys @ [x]" "length ys = n"
    using Suc.prems(2) by (metis append_butlast_last_id length_append_singleton length_greater_0_conv nat.inject zero_less_Suc)
  obtain vs m where m: "mav_run (of_nat k) ys mav_init = Inr (vs, m)" "buffer_ff m = 0" "mav_cnt m = of_nat n"
    "length (mav_buffer m) = 64" using Suc.IH[OF _ xs(2)] Suc.prems(1) by auto
  have app: "mav_run c (as @ bs) m0 = bindE (mav_run c as m0) (\<lambda>(v1, m1).
      bindE (mav_run c bs m1) (\<lambda>(v2, m2). Inr (v1 @ v2, m2)))" for c as bs m0
  proof (induction as arbitrary: m0)
    case Nil
    then show ?case by (cases "mav_run c bs m0") auto
  next
    case (Cons a as)
    then show ?case by (cases "mav_step c a m0") (auto simp: bindE_assoc case_prod_unfold)
  qed
  have un: "unat (of_nat n :: u16) = n" "unat (of_nat (n + 1) :: u16) = n + 1" "unat (of_nat k :: u16) = k"
    using Suc.prems(1) assms(2) by (subst unat_of_nat; simp)+
  have c: "of_nat n + (1 :: u16) = of_nat (Suc n)" by simp
  have nz: "(of_nat (n + 1) :: u16) \<noteq> 0" using un(2) by (metis add_is_0 one_neq_zero unsigned_0)
  have lt: "\<not> (of_nat k :: u16) \<le> of_nat (n + 1)"
    unfolding word_le_nat_alt un using Suc.prems(1) assms(1) by simp
  define st where "st = mav_step (of_nat k) x m"
  have "\<exists>v m2. st = Inr (v, m2) \<and> buffer_ff m2 = 0 \<and> mav_cnt m2 = of_nat (n + 1) \<and> length (mav_buffer m2) = 64"
    using m(2-) un Suc.prems(1) nz lt
    by (simp add: st_def mav_step_def udiv_def c Let_def del: of_nat_add of_nat_Suc)
  then obtain v m2 where "st = Inr (v, m2)" "buffer_ff m2 = 0" "mav_cnt m2 = of_nat (n + 1)"
    "length (mav_buffer m2) = 64" by auto
  then show ?case using m(1) xs(1) by (simp add: app st_def)
qed

lemma mav_run_app:
  "mav_run c (as @ bs) m0 = bindE (mav_run c as m0) (\<lambda>(v1, m1).
      bindE (mav_run c bs m1) (\<lambda>(v2, m2). Inr (v1 @ v2, m2)))"
proof (induction as arbitrary: m0)
  case Nil
  then show ?case by (cases "mav_run c bs m0") auto
next
  case (Cons a as)
  then show ?case by (cases "mav_step c a m0") (auto simp: bindE_assoc case_prod_unfold)
qed

section \<open>Properties\<close>

text \<open>C11: the battery voltage is the reading times 0.8059, rounded down, for every reading of the
  12-bit converter: the rounding of the \<open>double\<close> arithmetic never moves it to another millivolt.\<close>

theorem volt_of_raw_exact:
  assumes "uint raw \<le> 4095"
  shows "volt_of_raw raw = Inr (to_u16 (8059 * uint raw div 10000))"
  using assms by (rule volt_of_raw_aux)

lemma volt_of_raw_exact_witness: "volt_of_raw 4095 = Inr 3300"
  using volt_of_raw_exact[of 4095] by (simp add: to_u16_def)

text \<open>The temperature of a 12-bit reading is defined exactly up to the reading 1797; from 1798
  on, below 0 degrees Celsius, a negative \<open>float\<close> is converted to an unsigned integer.\<close>

theorem temp_of_raw_defined:
  assumes "uint raw \<le> 4095"
  shows "okE (temp_of_raw raw) = (uint raw \<le> 1797)
     \<and> (1798 \<le> uint raw \<longrightarrow> temp_of_raw raw = Inl Bad_Conversion)"
  using temp_of_raw_aux[OF assms] by auto

lemma temp_of_raw_defined_witness: "temp_of_raw 2000 = Inl Bad_Conversion \<and> okE (temp_of_raw 1500)"
  using temp_of_raw_defined[of 2000] temp_of_raw_defined[of 1500] by simp

text \<open>C9: with a window of 1 to 64 samples the moving average never faults, and after every sample
  returns the mean, rounded down, of the last samples in the window.\<close>

theorem mav_is_mean:
  assumes "1 \<le> k" "k \<le> 64"
  shows "\<exists>m. mav_run (of_nat k) xs mav_init =
    Inr (map (\<lambda>i. of_nat (mav_mean k (take (Suc i) xs))) [0..<length xs], m)"
  using mav_run_rel[OF mav_init_rel, of k xs] assms by auto

lemma mav_is_mean_witness:
  "\<exists>m. mav_run 2 [10, 20, 40] mav_init = Inr ([10, 15, 30], m)"
  using mav_is_mean[of 2 "[10, 20, 40]"]
  by (simp add: mav_mean_def last_n_def upt_rec numeral_2_eq_2 [symmetric])

text \<open>Outside of these windows the average does fault, and register 11 accepts 0 and 65 to 128:
  with 0 the second sample divides by zero, above 64 the 65th is written behind the buffer.\<close>

lemma mav_window_faults:
  shows "mav_run 0 [x, y] mav_init = Inl Div_By_Zero
    \<and> (64 < k \<and> k < 65536 \<and> length xs = 65 \<longrightarrow> mav_run (of_nat k) xs mav_init = Inl Out_Of_Bounds)"
proof (intro conjI impI)
  show "mav_run 0 [x, y] mav_init = Inl Div_By_Zero"
    by (simp add: mav_step_def mav_init_def udiv_def Let_def)
next
  assume a: "64 < k \<and> k < 65536 \<and> length xs = 65"
  then obtain ys z where xs: "xs = ys @ [z]" "length ys = 64"
    by (metis Suc_numeral add.commute append_butlast_last_id length_append_singleton list.size(3)
        nat.inject semiring_norm(5) zero_neq_numeral)
  obtain vs m where m: "mav_run (of_nat k) ys mav_init = Inr (vs, m)" "buffer_ff m = 0"
    "mav_cnt m = of_nat 64" "length (mav_buffer m) = 64"
    using mav_fill[of k 64 ys] a xs(2) by auto
  then show "mav_run (of_nat k) xs mav_init = Inl Out_Of_Bounds"
    by (simp add: xs(1) mav_run_app mav_step_def)
qed

text \<open>The charge is the voltage's position between the limits in percent, clamped to 0 and 100,
  as long as the quotient fits 16 bits.\<close>

theorem bat_pwr_calc_percent:
  assumes "uint low < uint up" "100 * (uint v - uint low) < 32768 * (uint up - uint low)"
    "- (32768 * (uint up - uint low)) < 100 * (uint v - uint low)"
  shows "bat_pwr_calc up low v =
    Inr (if uint v \<le> uint low then 0
         else min 100 (100 * (uint v - uint low) div (uint up - uint low)))"
proof -
  define d where "d = uint up - uint low"
  define x where "x = 100 * (uint v - uint low)"
  have d: "0 < d" using assms(1) by (simp add: d_def)
  have q: "c_div x d = Inr (c_quot x d)" using d by (simp add: c_div_def)
  show ?thesis
  proof (cases "uint v \<le> uint low")
    case True
    then have "x \<le> 0" by (simp add: x_def)
    then have c: "c_quot x d \<le> 0" "- 32768 \<le> c_quot x d"
    proof -
      have "(- x) div d < 32768"
        by (rule int_div_less[OF d]) (use assms(3) in \<open>simp add: x_def d_def\<close>)
      then show "- 32768 \<le> c_quot x d" using \<open>x \<le> 0\<close> d by (simp add: c_quot_neg)
      show "c_quot x d \<le> 0" using \<open>x \<le> 0\<close> d by (rule c_quot_nonpos)
    qed
    then have "to_s16 (c_quot x d) = c_quot x d" by (simp add: to_s16_id)
    then show ?thesis
      using True c q unfolding bat_pwr_calc_def x_def [symmetric] d_def [symmetric] by (auto simp: Let_def)
  next
    case False
    then have x: "0 \<le> x" by (simp add: x_def)
    then have c: "c_quot x d = x div d" using d by (rule c_quot_nonneg)
    have "x div d < 32768"
      by (rule int_div_less[OF d]) (use assms(2) in \<open>simp add: x_def d_def\<close>)
    moreover have "0 \<le> x div d" using d x by (simp add: pos_imp_zdiv_nonneg_iff)
    ultimately have "x div d < 32768" "0 \<le> x div d" .
    then have "to_s16 (x div d) = x div d" by (simp add: to_s16_id)
    then show ?thesis
      using False c q \<open>0 \<le> x div d\<close>
      unfolding bat_pwr_calc_def x_def [symmetric] d_def [symmetric] by (auto simp: Let_def min_def)
  qed
qed

lemma bat_pwr_calc_percent_witness:
  "bat_pwr_calc 4200 2800 3500 = Inr 50 \<and> bat_pwr_calc 4200 2800 5000 = Inr 100"
  using bat_pwr_calc_percent[of 2800 4200 3500] bat_pwr_calc_percent[of 2800 4200 5000] by simp

text \<open>Limits the registers accept make the charge fault or wrap: equal limits divide by zero,
  and limits one millivolt apart show a battery above them as empty.\<close>

theorem bat_pwr_calc_limits:
  "bat_pwr_calc up up v = Inl Div_By_Zero \<and> bat_pwr_calc 4500 4499 4900 = Inr 0"
  by (simp add: bat_pwr_calc_def c_div_def c_quot_def to_s16_def Let_def)

end
