(* ===== verification/App_Props.thy ===== *)
theory App_Props
  imports App_Main Gvar_Props Bat_Facts
begin

text \<open>
  Properties of the application as a whole: what holds in every reachable state, the output wave
  as the interrupts make it, the battery update, and the shell commands.
\<close>

section \<open>The output wave\<close>

fun tim2_irqs :: "nat \<Rightarrow> world \<Rightarrow> world res" where
  "tim2_irqs 0 w = Inr w"
| "tim2_irqs (Suc n) w = bindE (tim2_irq w) (tim2_irqs n)"

text \<open>After \<open>k\<close> callbacks the flag has been flipped \<open>k\<close> times and the pins follow it.\<close>

definition toggled :: "nat \<Rightarrow> world \<Rightarrow> world \<Rightarrow> bool" where
  "toggled k w w' \<longleftrightarrow> (w_rect_flag w' \<noteq> 0) = (if even k then w_rect_flag w \<noteq> 0 else w_rect_flag w = 0)
     \<and> (0 < k \<longrightarrow> pin_out (w_gpio w') MUX_SEL = (w_rect_flag w' \<noteq> 0)
                \<and> pin_out (w_gpio w') BEEPER = (w_rect_flag w' \<noteq> 0))"

lemma dac_cb_toggles: "toggled 1 w (dac_cb w)" "w_tim (dac_cb w) = w_tim w"
proof -
  have n: "GET_PIN GPIOA 2 \<noteq> GET_PIN GPIOA 11" by (simp add: GET_PIN_def)
  show "toggled 1 w (dac_cb w)"
    using n by (auto simp: toggled_def dac_cb_def world_upd pin_out_write GET_PIN_valid)
  show "w_tim (dac_cb w) = w_tim w" by (simp add: dac_cb_def world_upd)
qed

lemma toggled_trans:
  "toggled a w w1 \<Longrightarrow> toggled b w1 w2 \<Longrightarrow> (b = 0 \<Longrightarrow> w_gpio w2 = w_gpio w1) \<Longrightarrow> toggled (a + b) w w2"
  by (cases "b = 0") (auto simp: toggled_def split: if_splits)

lemma irqs_ticks:
  "run_ticks rt_device_hwtimer_isr n (w_tim w) = Inr (t, k) \<Longrightarrow>
   \<exists>w'. tim2_irqs n w = Inr w' \<and> w_tim w' = t \<and> toggled k w w' \<and> (k = 0 \<longrightarrow> w_gpio w' = w_gpio w)"
proof (induction n arbitrary: w k)
  case 0
  then show ?case by (simp add: toggled_def)
next
  case (Suc n)
  obtain t1 f k1 where s: "rt_device_hwtimer_isr (w_tim w) = Inr (t1, f)"
    "run_ticks rt_device_hwtimer_isr n t1 = Inr (t, k1)" "k = k1 + (if f = None then 0 else 1)"
    using Suc.prems by (auto simp: bindE_Inr_iff)
  define w1 where "w1 = (case f of None \<Rightarrow> w\<lparr>w_tim := t1\<rparr> | Some Dac_Cb \<Rightarrow> dac_cb (w\<lparr>w_tim := t1\<rparr>))"
  have w1: "tim2_irq w = Inr w1" by (simp add: tim2_irq_def s(1) w1_def Let_def)
  have tw: "w_tim w1 = t1" by (auto simp: w1_def dac_cb_toggles split: option.splits rx_ind.splits)
  obtain w' where w': "tim2_irqs n w1 = Inr w'" "w_tim w' = t" "toggled k1 w1 w'"
    "k1 = 0 \<longrightarrow> w_gpio w' = w_gpio w1" using Suc.IH[of w1 k1] s(2) tw by auto
  have "toggled k w w' \<and> (k = 0 \<longrightarrow> w_gpio w' = w_gpio w)"
  proof (cases f)
    case None
    then show ?thesis using w' s(3) by (simp add: w1_def toggled_def)
  next
    case (Some x)
    then have d: "w1 = dac_cb (w\<lparr>w_tim := t1\<rparr>)" by (cases x) (simp add: w1_def)
    have "toggled 1 w w1" using dac_cb_toggles(1)[of "w\<lparr>w_tim := t1\<rparr>"] by (simp add: d toggled_def)
    then have "toggled (1 + k1) w w'" using w'(3,4) by (intro toggled_trans[of 1 w w1 k1 w']) auto
    then show ?thesis using Some s(3) by simp
  qed
  then show ?case using w1 w'(1,2) by auto
qed

text \<open>C1: the output wave. When the timer has been started for a frequency of 8 to 32767 Hz, its
  interrupts flip the multiplexer and the beeper pin together, once every \<open>reload\<close> interrupts; and
  \<open>reload\<close> counter periods are the half period in microseconds, at most one short of it.\<close>

theorem wave_toggles:
  assumes "wave_at f w" "8 \<le> uint f" "uint f \<le> 32767" "n \<le> 2147483647"
  shows "\<exists>w'. tim2_irqs n w = Inr w' \<and> toggled (n div nat (hwt_reload (w_tim w))) w w'
    \<and> 1 \<le> hwt_reload (w_tim w)
    \<and> (uint (tim_arr (tim (w_tim w))) + 1) * hwt_reload (w_tim w)
        \<in> {half_period_usec f - 1 .. half_period_usec f}"
proof -
  obtain t where t: "hwt_ready t" "hwt_write \<lparr>tv_sec = 0, tv_usec = half_period_usec f\<rparr> t = Inr (w_tim w)"
    using assms(1) by (auto simp: wave_at_def)
  note ok = ok_half_period[OF assms(2,3)]
  obtain t2 where "run_ticks rt_device_hwtimer_isr n (w_tim w) = Inr (t2, n div nat (hwt_reload (w_tim w)))"
    using tim2.start_ticks[OF t(1) ok assms(4)] t(2) by auto
  then obtain w' where "tim2_irqs n w = Inr w'" "toggled (n div nat (hwt_reload (w_tim w))) w w'"
    using irqs_ticks by blast
  moreover obtain m where w: "tim_arr (tim (w_tim w)) = to_u16 (m - 1)" "1 \<le> m"
    "half_period_usec f - 1 \<le> m * hwt_reload (w_tim w)" "m * hwt_reload (w_tim w) \<le> half_period_usec f"
    "1 \<le> hwt_reload (w_tim w)"
    using rt_device_write_started[OF t(1) ok] t(2) by (auto simp: hwt_write_def)
  moreover have "m * 1 \<le> m * hwt_reload (w_tim w)" using w by (intro mult_left_mono) simp_all
  then have "m \<le> 65000" using w(4) ok unfolding ok_timeval_def by simp
  then have "uint (tim_arr (tim (w_tim w))) + 1 = m" using w(1,2) by (simp add: uint_arr)
  ultimately show ?thesis by auto
qed

lemma wave_toggles_witness:
  "\<exists>w w'. power_en_opt 1 ready_world = Inr (1, w) \<and> tim2_irqs 3 w = Inr w'
     \<and> toggled (3 div nat (hwt_reload (w_tim w))) w w'
     \<and> (uint (tim_arr (tim (w_tim w))) + 1) * hwt_reload (w_tim w) \<in> {1063 .. 1064}"
proof -
  obtain w where w: "power_en_opt 1 ready_world = Inr (1, w)" "wave_at (rect_freq (w_stat ready_world)) w"
    using power_en_opt_on[OF ready_world_inv ready_world_load] by auto
  have f: "rect_freq (w_stat ready_world) = 470"
    by (simp add: ready_world_def init_loads g_sys_init_def)
  show ?thesis using w wave_toggles[of 470 w 3] by (auto simp: f half_period_usec_def)
qed

section \<open>Reachable states\<close>

text \<open>The firmware starts: from the state after a reset, the board initialisation and \<open>main\<close> up
  to its loop run without a fault and leave the registers at their defaults, the output off, the
  timer set up for its callback and its prescaler at the value the driver computes for 1 MHz.\<close>

theorem start_up:
  "\<exists>w. main_start b (board_init (reset_world pclk1 adc)) = Inr w \<and> app_inv w
     \<and> w_sys w = g_sys_init \<and> wave_off w
     \<and> tim_psc (tim (w_tim w)) = to_u16 (uint (to_u16 (pclk1 * 2 mod 2 ^ 32 div 1000000)) - 1)"
  using main_start_ok[of b pclk1 adc] by (auto simp: wave_off_def)

lemma reachable_inv: "app_reachable w \<Longrightarrow> app_inv w"
proof (induction rule: app_reachable.induct)
  case (reach_start b pclk1 adc w)
  then show ?case using main_start_ok[of b pclk1 adc] by auto
next
  case (reach_step w w')
  then show ?case using app_step_inv by blast
qed

text \<open>C2: in every state the firmware can reach, the timer device is open in the periodic mode with
  the callback installed, all configuration registers are within the limits of their table, and
  frequency index, volume index, output flag and frequency are within theirs.\<close>

theorem reachable_app_inv:
  assumes "app_reachable w"
  shows "hwt_ready (w_tim w) \<and> w_hw_dev w \<and> wg_mode (w_conf w) = 0 \<and> conf_in_range (w_sys w)
    \<and> freq_index (w_stat w) \<le> 4 \<and> volum_index (w_stat w) \<le> 8 \<and> out_en (w_stat w) \<le> 1
    \<and> 100 \<le> uint (rect_freq (w_stat w)) \<and> uint (rect_freq (w_stat w)) \<le> 6000"
  using reachable_inv[OF assms] by (simp add: app_inv_def stage_ready_def)

lemma start_reachable: "\<exists>w. app_reachable w \<and> w_sys w = g_sys_init"
  using main_start_ok[of True 32000000 "\<lambda>_. 0"] reach_start by blast

lemma reachable_app_inv_witness: "\<exists>w. app_reachable w \<and> hwt_ready (w_tim w) \<and> conf_in_range (w_sys w)"
proof -
  obtain w where "app_reachable w" using start_reachable by auto
  then show ?thesis using reachable_app_inv[of w] by auto
qed

section \<open>The battery update\<close>

lemma adc_get_raw_ok:
  "w_adc_device w \<Longrightarrow> (ucast c :: u32) \<le> 17 \<Longrightarrow>
   adc_get_raw c w = Inr (w_adc w (ucast c), w\<lparr>w_adc_on := True\<rparr>)"
  by (simp add: adc_get_raw_def rt_adc_read_ok ucast_down_ucast_id is_down)

lemma bat_pwr_calc_total:
  assumes "low \<noteq> up"
  shows "\<exists>p. bat_pwr_calc up low v = Inr p \<and> 0 \<le> p \<and> p \<le> 100"
  using assms by (auto simp: bat_pwr_calc_def c_div_def Let_def word_uint_eq_iff)

text \<open>C8: with limits that differ, a window of 1 to 64 samples and readings of the converter that
  stand for temperatures above zero, the battery update never faults. It adds the new voltage and
  temperature to the averages, stores the mean voltage scaled by 105/50, and a charge of at most
  100 percent.\<close>

theorem bat_update_spec:
  assumes "w_adc_device w" "mav_rel k xs (w_bat_inst w)" "mav_rel k ts (w_temp_inst w)"
    "bat_mav_cnt (w_conf w) = of_nat k" "1 \<le> k" "k \<le> 64" "bat_low_lim (w_conf w) \<noteq> bat_up_lim (w_conf w)"
    "uint (w_adc w 1) \<le> 4095" "uint (w_adc w 16) \<le> 1797"
  shows "\<exists>w' v t. bat_update w = Inr w' \<and> volt_of_raw (w_adc w 1) = Inr v \<and> temp_of_raw (w_adc w 16) = Inr t
    \<and> mav_rel k (xs @ [v]) (w_bat_inst w') \<and> mav_rel k (ts @ [t]) (w_temp_inst w')
    \<and> bat_volt (w_stat w') = to_u16 (uint (of_nat (mav_mean k (xs @ [v])) :: u16) * 105 div 50)
    \<and> mcu_temp (w_stat w') = of_nat (mav_mean k (ts @ [t]))
    \<and> uint (bat_volum (w_stat w')) \<le> 100 \<and> w_conf w' = w_conf w"
proof -
  have k: "0 < k" "k \<le> 64" using assms(5,6) by simp_all
  obtain v where v: "volt_of_raw (w_adc w 1) = Inr v" using volt_of_raw_aux[OF assms(8)] by auto
  have "okE (temp_of_raw (w_adc w 16))" using temp_of_raw_aux(1)[of "w_adc w 16"] assms(9) by simp
  then obtain t where t: "temp_of_raw (w_adc w 16) = Inr t" by (auto simp: okE_iff)
  obtain m1 where m1: "mav_step (of_nat k) v (w_bat_inst w) = Inr (of_nat (mav_mean k (xs @ [v])), m1)"
    "mav_rel k (xs @ [v]) m1" using mav_step_rel[OF assms(2) k, of v] by auto
  obtain m2 where m2: "mav_step (of_nat k) t (w_temp_inst w) = Inr (of_nat (mav_mean k (ts @ [t])), m2)"
    "mav_rel k (ts @ [t]) m2" using mav_step_rel[OF assms(3) k, of t] by auto
  define bv where "bv = to_u16 (uint (of_nat (mav_mean k (xs @ [v])) :: u16) * 105 div 50)"
  obtain p where p: "bat_pwr_calc (bat_up_lim (w_conf w)) (bat_low_lim (w_conf w)) bv = Inr p"
    "0 \<le> p" "p \<le> 100" using bat_pwr_calc_total[OF assms(7)] by blast
  define w1 where "w1 = w\<lparr>w_adc_on := True, w_bat_inst := m1\<rparr>"
  have c1: "bat_mav_calc (of_nat k) w = Inr (bv, w1)"
    using assms(1) v m1(1) by (simp add: bat_mav_calc_def adc_get_volt_def adc_get_raw_ok bv_def w1_def)
  define w2 where "w2 = set_stat (bat_volt_update (\<lambda>_. bv)) w1"
  have f2: "w_conf w2 = w_conf w" "bat_volt (w_stat w2) = bv" by (simp_all add: w2_def w1_def world_upd)
  define w3 where "w3 = set_stat (bat_volum_update (\<lambda>_. to_u16 p)) w2"
  have f3: "w_adc_device w3" "w_adc w3 = w_adc w" "w_temp_inst w3 = w_temp_inst w" "w_conf w3 = w_conf w"
    "w_bat_inst w3 = m1" "bat_volt (w_stat w3) = bv" "bat_volum (w_stat w3) = to_u16 p"
    using assms(1) by (simp_all add: w3_def w2_def w1_def world_upd)
  define w4 where "w4 = w3\<lparr>w_adc_on := True, w_temp_inst := m2\<rparr>"
  have c2: "temp_mav_calc (of_nat k) w3 = Inr (of_nat (mav_mean k (ts @ [t])), w4)"
    using f3 t m2(1) by (simp add: temp_mav_calc_def adc_get_temp_def adc_get_raw_ok w4_def)
  define w5 where "w5 = set_stat (mcu_temp_update (\<lambda>_. of_nat (mav_mean k (ts @ [t])))) w4"
  define rg where "rg = set_bat_led (bat_volum (w_stat w5) div 10) (w_bat_reg w5) (w_gpio w5)"
  define w' where "w' = w5\<lparr>w_bat_reg := fst rg, w_gpio := snd rg\<rparr>"
  have "bat_update w = Inr w'"
    using c1 c2 p(1) assms(4) f3(4)
    by (simp add: bat_update_def Let_def case_prod_unfold f2 w'_def rg_def flip: w2_def w3_def w5_def)
  moreover have "w_bat_inst w' = m1" "w_temp_inst w' = m2" "bat_volt (w_stat w') = bv" "w_conf w' = w_conf w"
    "mcu_temp (w_stat w') = of_nat (mav_mean k (ts @ [t]))" "bat_volum (w_stat w') = to_u16 p"
    by (simp_all add: w'_def w5_def w4_def world_upd f3)
  moreover have "uint (to_u16 p) \<le> 100" using p by (simp add: uint_to_u16)
  ultimately show ?thesis using v t m1(2) m2(2) unfolding bv_def
    by (intro exI[of _ w'] exI[of _ v] exI[of _ t]) simp
qed

lemma bat_update_spec_witness:
  "\<exists>w'. bat_update (ready_world\<lparr>w_adc := \<lambda>_. 1500\<rparr>) = Inr w' \<and> uint (bat_volum (w_stat w')) \<le> 100"
proof -
  define w where "w = ready_world\<lparr>w_adc := \<lambda>_. 1500\<rparr>"
  have "mav_init = mav_zero" by (simp add: mav_init_def mav_zero_def)
  then have r: "mav_rel 32 [] mav_zero" using mav_init_rel[of 32] by simp
  have "\<exists>w' v t. bat_update w = Inr w' \<and> volt_of_raw (w_adc w 1) = Inr v \<and> temp_of_raw (w_adc w 16) = Inr t
    \<and> mav_rel 32 ([] @ [v]) (w_bat_inst w') \<and> mav_rel 32 ([] @ [t]) (w_temp_inst w')
    \<and> bat_volt (w_stat w') = to_u16 (uint (of_nat (mav_mean 32 ([] @ [v])) :: u16) * 105 div 50)
    \<and> mcu_temp (w_stat w') = of_nat (mav_mean 32 ([] @ [t]))
    \<and> uint (bat_volum (w_stat w')) \<le> 100 \<and> w_conf w' = w_conf w"
    by (rule bat_update_spec) (use r in \<open>simp_all add: w_def ready_world_def init_loads g_sys_init_def config_zero_def\<close>)
  then show ?thesis by (auto simp: w_def)
qed

text \<open>C12: values the configuration registers accept make the battery update fault. Register 11 takes a
  window of 128 samples for a buffer of 64, so that the 65th sample is written behind it, and a
  window of 0, so that the second sample divides by zero; registers 9 and 10 take equal limits, so
  that every voltage divides by zero.\<close>

theorem battery_registers_fault:
  assumes "app_inv w"
  shows "(\<exists>w'. reg_map_write 11 [128] 1 w = Inr (REGMAP_ERR_NOERR, w')
        \<and> (length xs = 65 \<longrightarrow> mav_run (bat_mav_cnt (w_conf w')) xs mav_init = Inl Out_Of_Bounds))
    \<and> (\<exists>w'. reg_map_write 11 [0] 1 w = Inr (REGMAP_ERR_NOERR, w')
        \<and> mav_run (bat_mav_cnt (w_conf w')) [x, y] mav_init = Inl Div_By_Zero)
    \<and> (\<exists>w'. reg_map_write 9 [4500, 4500] 2 w = Inr (REGMAP_ERR_NOERR, w')
        \<and> bat_pwr_calc (bat_up_lim (w_conf w')) (bat_low_lim (w_conf w')) v = Inl Div_By_Zero)"
proof -
  have c128: "(of_nat 128 :: u16) = 128" by simp
  show ?thesis
    using mav_window_faults[of x y 128 xs, unfolded c128]
    by (simp add: reg_map_write_def conf_nth store_dft_def world_upd bat_pwr_calc_def c_div_def)
qed

lemma battery_registers_fault_witness:
  "\<exists>w'. reg_map_write 11 [128] 1 ready_world = Inr (REGMAP_ERR_NOERR, w')
        \<and> mav_run (bat_mav_cnt (w_conf w')) (replicate 65 3000) mav_init = Inl Out_Of_Bounds"
  using battery_registers_fault[OF ready_world_inv, of "replicate 65 3000" 0 0 0] by auto

section \<open>Shell commands\<close>

text \<open>The commands \<open>rd_reg_map\<close>, \<open>atrd\<close> and \<open>atwr\<close> convert their arguments before they count
  them, so with too few arguments they fault and never print their usage line.\<close>

theorem usage_unreachable:
  assumes "length argv < 3"
  shows "\<not> okE (rd_reg_map argv w) \<and> \<not> okE (atrd argv) \<and> \<not> okE (atwr argv)"
proof -
  have n: "argv_get argv 2 = Inl Null_Deref" using assms by (simp add: argv_get_def)
  show ?thesis
    by (auto simp: rd_reg_map_def atrd_def atwr_def at_args_def okE_iff bindE_Inr_iff n)
qed

lemma usage_unreachable_witness: "\<not> okE (atrd [''atrd''])"
  using usage_unreachable[of "[''atrd'']"] by simp

end
