(* ===== verification/Gpio_Irq.thy ===== *)
theory Gpio_Irq
  imports Gpio
begin

unbundle bit_operations_syntax

text \<open>
  The interrupt side of the pin driver: the NVIC interrupts that several external lines share
  stay enabled exactly as long as one of their lines is enabled in the driver's mask, whatever
  sequence of attach, detach, enable and disable calls the driver serves.
\<close>

section \<open>Interrupt lines\<close>

text \<open>The NVIC interrupt of a line, and the invariant that ties the NVIC to the driver's mask.\<close>

definition line_irq :: "nat \<Rightarrow> irqn" where
  "line_irq n = snd (pin_irq_map ! n)"

definition irq_wf :: "gpio_regs \<Rightarrow> bool" where
  "irq_wf g \<longleftrightarrow> length (pin_irq_hdr_tab g) = 16 \<and>
     (\<forall>i. nvic_enabled g i \<longleftrightarrow> (\<exists>n<16. line_irq n = i \<and> bit (pin_irq_enable_mask g) n))"

lemma bit2bitno_one_hot: "k < 32 \<Longrightarrow> bit2bitno (2 ^ k) = int k"
proof -
  assume k: "k < 32"
  have "List.find (\<lambda>i. push_bit i 1 = (2 :: u32) ^ k) [0..<32] = Some k"
    unfolding find_Some_iff using k
    by (intro exI [of _ k]) (auto simp: one_hot_inj)
  then show ?thesis by (simp add: bit2bitno_def)
qed

lemma nth_pin_irq_map: "k < 16 \<Longrightarrow> pin_irq_map ! k = (2 ^ k, line_irq k)"
  by (simp add: line_irq_def pin_irq_map_def)

lemma line_irq_group:
  "n < 16 \<Longrightarrow> line_irq n =
     (if n < 5 then [EXTI0_IRQn, EXTI1_IRQn, EXTI2_IRQn, EXTI3_IRQn, EXTI4_IRQn] ! n
      else if n < 10 then EXTI9_5_IRQn else EXTI15_10_IRQn)"
  by (auto simp: line_irq_def pin_irq_map_def nth_Cons split: nat.splits)

lemma line_irq_eq:
  assumes "n < 16" "k < 16"
  shows "line_irq n = line_irq k \<longleftrightarrow> n = k \<or> (5 \<le> n \<and> n < 10 \<and> 5 \<le> k \<and> k < 10) \<or> (10 \<le> n \<and> 10 \<le> k)"
  using assms by (auto simp: line_irq_group nth_Cons split: nat.splits if_splits)

lemma mask_group:
  "(m :: u32) AND 0x03E0 = 0 \<longleftrightarrow> (\<forall>n. 5 \<le> n \<and> n < 10 \<longrightarrow> \<not> bit m n)"
  "(m :: u32) AND 0xFC00 = 0 \<longleftrightarrow> (\<forall>n. 10 \<le> n \<and> n < 16 \<longrightarrow> \<not> bit m n)"
proof -
  have b1: "bit (0x03E0 :: u32) n \<longleftrightarrow> 5 \<le> n \<and> n < 10" for n
  proof -
    have "(0x03E0 :: u32) = push_bit 5 (mask 5)" by (simp add: mask_eq_exp_minus_1)
    then show ?thesis by (simp only: bit_push_bit_iff bit_mask_iff) auto
  qed
  have b2: "bit (0xFC00 :: u32) n \<longleftrightarrow> 10 \<le> n \<and> n < 16" for n
  proof -
    have "(0xFC00 :: u32) = push_bit 10 (mask 6)" by (simp add: mask_eq_exp_minus_1)
    then show ?thesis by (simp only: bit_push_bit_iff bit_mask_iff) auto
  qed
  show "(m :: u32) AND 0x03E0 = 0 \<longleftrightarrow> (\<forall>n. 5 \<le> n \<and> n < 10 \<longrightarrow> \<not> bit m n)"
    unfolding word_eq_0_iff_bits bit_and_iff b1 by blast
  show "(m :: u32) AND 0xFC00 = 0 \<longleftrightarrow> (\<forall>n. 10 \<le> n \<and> n < 16 \<longrightarrow> \<not> bit m n)"
    unfolding word_eq_0_iff_bits bit_and_iff b2 by blast
qed

lemma uint_one_hot: "n < LENGTH('a) \<Longrightarrow> uint ((2 :: 'a::len word) ^ n) = 2 ^ n"
  by (intro uint_2p) (simp add: word_gt_0)

lemma one_hot_le:
  "a < LENGTH('a) \<Longrightarrow> b < LENGTH('a) \<Longrightarrow> ((2 :: 'a::len word) ^ a \<le> 2 ^ b) \<longleftrightarrow> a \<le> b"
  by (simp add: word_le_def uint_one_hot)

lemma one_hot_range:
  assumes "k < 16"
  shows "(2 ^ k :: u16) \<ge> 0x0020 \<and> (2 ^ k :: u16) \<le> 0x0200 \<longleftrightarrow> 5 \<le> k \<and> k < 10"
    and "(2 ^ k :: u16) \<ge> 0x0400 \<and> (2 ^ k :: u16) \<le> 0x8000 \<longleftrightarrow> 10 \<le> k"
proof -
  have e: "(0x0020 :: u16) = 2 ^ 5" "(0x0200 :: u16) = 2 ^ 9" "(0x0400 :: u16) = 2 ^ 10"
    "(0x8000 :: u16) = 2 ^ 15" by simp_all
  have i: "((2 :: u16) ^ 5 \<le> 2 ^ k) \<longleftrightarrow> 5 \<le> k" "((2 :: u16) ^ 10 \<le> 2 ^ k) \<longleftrightarrow> 10 \<le> k"
    "((2 :: u16) ^ k \<le> 2 ^ 9) \<longleftrightarrow> k \<le> 9" "((2 :: u16) ^ k \<le> 2 ^ 15) \<longleftrightarrow> k \<le> 15"
    by (rule one_hot_le; use assms in simp)+
  show "(2 ^ k :: u16) \<ge> 0x0020 \<and> (2 ^ k :: u16) \<le> 0x0200 \<longleftrightarrow> 5 \<le> k \<and> k < 10"
    unfolding e i by auto
  show "(2 ^ k :: u16) \<ge> 0x0400 \<and> (2 ^ k :: u16) \<le> 0x8000 \<longleftrightarrow> 10 \<le> k"
    unfolding e i using assms by auto
qed

lemma irq_disable_nvic_line:
  assumes "k < 16" "\<not> bit (pin_irq_enable_mask g) k"
  shows "irq_disable_nvic (2 ^ k) (line_irq k) g =
    (if \<exists>n<16. line_irq n = line_irq k \<and> bit (pin_irq_enable_mask g) n
     then g else HAL_NVIC_DisableIRQ (line_irq k) g)"
proof -
  consider "k < 5" | "5 \<le> k" "k < 10" | "10 \<le> k" by linarith
  then show ?thesis
  proof cases
    case 1
    have no: "\<not> (\<exists>n<16. line_irq n = line_irq k \<and> bit (pin_irq_enable_mask g) n)"
      using 1 assms by (auto simp: line_irq_eq)
    show ?thesis
      unfolding irq_disable_nvic_def one_hot_range[OF assms(1)] if_not_P[OF no] using 1 by simp
  next
    case 2
    have ex: "(\<exists>n<16. line_irq n = line_irq k \<and> bit (pin_irq_enable_mask g) n) \<longleftrightarrow>
       \<not> (pin_irq_enable_mask g AND 0x03E0 = 0)"
      unfolding mask_group using 2 assms by (force simp: line_irq_eq cong: conj_cong)
    show ?thesis
      unfolding irq_disable_nvic_def one_hot_range[OF assms(1)] ex using 2 by simp
  next
    case 3
    have ex: "(\<exists>n<16. line_irq n = line_irq k \<and> bit (pin_irq_enable_mask g) n) \<longleftrightarrow>
       \<not> (pin_irq_enable_mask g AND 0xFC00 = 0)"
      unfolding mask_group using 3 assms by (auto simp: line_irq_eq)
    show ?thesis
      unfolding irq_disable_nvic_def one_hot_range[OF assms(1)] ex using 3 by simp
  qed
qed

text \<open>Configuring a pin does not touch the driver's tables or the NVIC.\<close>

lemma gpio_init_pos_frame:
  "nvic_enabled (gpio_init_pos p i k g) = nvic_enabled g"
  "pin_irq_hdr_tab (gpio_init_pos p i k g) = pin_irq_hdr_tab g"
  "pin_irq_enable_mask (gpio_init_pos p i k g) = pin_irq_enable_mask g"
  by (simp_all add: gpio_init_pos_def gpio_init_pull_def gpio_init_exti_def bsrr_write_def
      brr_write_def Let_def)

lemma gpio_deinit_pos_frame:
  "nvic_enabled (gpio_deinit_pos p i k g) = nvic_enabled g"
  "pin_irq_hdr_tab (gpio_deinit_pos p i k g) = pin_irq_hdr_tab g"
  "pin_irq_enable_mask (gpio_deinit_pos p i k g) = pin_irq_enable_mask g"
  by (simp_all add: gpio_deinit_pos_def Let_def)

lemma fold_frame: "(\<And>k s. f (h k s) = f s) \<Longrightarrow> f (fold h ks s) = f s"
  by (induction ks arbitrary: s) auto

lemma HAL_GPIO_Init_frame [simp]:
  "nvic_enabled (HAL_GPIO_Init p i g) = nvic_enabled g"
  "pin_irq_hdr_tab (HAL_GPIO_Init p i g) = pin_irq_hdr_tab g"
  "pin_irq_enable_mask (HAL_GPIO_Init p i g) = pin_irq_enable_mask g"
  unfolding HAL_GPIO_Init_def
  by (rule fold_frame, rule gpio_init_pos_frame)+

lemma HAL_GPIO_DeInit_frame [simp]:
  "nvic_enabled (HAL_GPIO_DeInit p i g) = nvic_enabled g"
  "pin_irq_hdr_tab (HAL_GPIO_DeInit p i g) = pin_irq_hdr_tab g"
  "pin_irq_enable_mask (HAL_GPIO_DeInit p i g) = pin_irq_enable_mask g"
  unfolding HAL_GPIO_DeInit_def
  by (rule fold_frame, rule gpio_deinit_pos_frame)+

lemma pin_irq_switch_on_wf:
  assumes "irq_wf g" "k < 16" "ix_pin ix = 2 ^ k" "pin_irq_switch_on ix g = Inr (r, g')"
  shows "irq_wf g'"
proof -
  have b: "bit2bitno (ix_pin ix) = int k" using assms(2,3) by (simp add: bit2bitno_one_hot)
  show ?thesis
  proof (cases "hdr_pin (pin_irq_hdr_tab g ! k) = -1")
    case True
    with assms show ?thesis by (simp add: pin_irq_switch_on_def bit2bitno_one_hot Let_def)
  next
    case False
    with assms b obtain i where g': "g' = (HAL_NVIC_EnableIRQ (line_irq k)
        (HAL_GPIO_Init (ix_gpio ix) i g))\<lparr>pin_irq_enable_mask := pin_irq_enable_mask g OR 2 ^ k\<rparr>"
      by (auto simp: pin_irq_switch_on_def b Let_def bindE_Inr_iff nth_pin_irq_map
          ucast_one_hot_32 HAL_NVIC_EnableIRQ_def)
    show ?thesis
      using assms(1,2) unfolding g' irq_wf_def HAL_NVIC_EnableIRQ_def
      by (auto simp: bit_set_one_hot)
  qed
qed

lemma pin_irq_switch_off_wf:
  assumes "irq_wf g" "k < 16" "ix_pin ix = 2 ^ k"
  shows "irq_wf (snd (pin_irq_switch_off ix g))"
proof -
  have m: "get_pin_irq_map (ix_pin ix) = Some (2 ^ k, line_irq k)"
    using assms(2,3) by (simp add: get_pin_irq_map_def bit2bitno_one_hot nth_pin_irq_map)
  define g2 where "g2 = (HAL_GPIO_DeInit (ix_gpio ix) (ix_pin ix) g)
      \<lparr>pin_irq_enable_mask := pin_irq_enable_mask g AND NOT (2 ^ k)\<rparr>"
  have off: "snd (pin_irq_switch_off ix g) = irq_disable_nvic (2 ^ k) (line_irq k) g2"
    using assms(2) by (simp add: pin_irq_switch_off_def m g2_def Let_def ucast_one_hot_32)
  have nb: "\<not> bit (pin_irq_enable_mask g2) k" by (simp add: g2_def bit_clear_one_hot)
  have g2: "length (pin_irq_hdr_tab g2) = 16" "nvic_enabled g2 = nvic_enabled g"
    "\<And>n. bit (pin_irq_enable_mask g2) n \<longleftrightarrow> bit (pin_irq_enable_mask g) n \<and> n \<noteq> k"
    using assms(1) by (simp_all add: g2_def bit_clear_one_hot irq_wf_def)
  have wf: "nvic_enabled g i \<longleftrightarrow> (\<exists>n<16. line_irq n = i \<and> bit (pin_irq_enable_mask g) n)" for i
    using assms(1) by (simp add: irq_wf_def)
  show ?thesis
    unfolding off irq_disable_nvic_line[OF assms(2) nb] irq_wf_def HAL_NVIC_DisableIRQ_def
    using g2 wf by (auto split: if_splits)
qed

lemma get_pin_line: "get_pin p = Some ix \<Longrightarrow> \<exists>k<16. ix_pin ix = 2 ^ k"
proof -
  assume a: "get_pin p = Some ix"
  then have "nat (p mod 256) < 112" "ix = pins ! nat (p mod 256)"
    by (auto simp: get_pin_def Let_def split: if_splits)
  then have "ix_pin ix = 2 ^ (nat (p mod 256) mod 16)" by (simp add: nth_pins)
  then show ?thesis by (meson mod_less_divisor zero_less_numeral)
qed

lemma stm32_pin_attach_irq_wf: "irq_wf g \<Longrightarrow> irq_wf (snd (stm32_pin_attach_irq pin m h a g))"
  by (auto simp: stm32_pin_attach_irq_def irq_wf_def Let_def split: option.splits)

lemma stm32_pin_dettach_irq_wf: "irq_wf g \<Longrightarrow> irq_wf (snd (stm32_pin_dettach_irq pin g))"
  by (auto simp: stm32_pin_dettach_irq_def irq_wf_def Let_def split: option.splits)

lemma stm32_pin_irq_enable_wf:
  assumes "irq_wf g" "stm32_pin_irq_enable pin e g = Inr (r, g')"
  shows "irq_wf g'"
proof (cases "get_pin pin")
  case None
  with assms show ?thesis by (simp add: stm32_pin_irq_enable_def)
next
  case (Some ix)
  obtain k where k: "k < 16" "ix_pin ix = 2 ^ k" using get_pin_line[OF Some] by blast
  show ?thesis
    using assms pin_irq_switch_on_wf[OF assms(1) k] pin_irq_switch_off_wf[OF assms(1) k]
    by (auto simp: stm32_pin_irq_enable_def Some split: if_splits)
qed

text \<open>The steps of the driver's interrupt interface, and the states it reaches from reset.\<close>

inductive irq_step :: "gpio_regs \<Rightarrow> gpio_regs \<Rightarrow> bool" where
  attach: "rt_pin_attach_irq pin m h a g = (r, g') \<Longrightarrow> irq_step g g'"
| detach: "rt_pin_detach_irq pin g = (r, g') \<Longrightarrow> irq_step g g'"
| enable: "rt_pin_irq_enable pin e g = Inr (r, g') \<Longrightarrow> irq_step g g'"

inductive_cases irq_stepE: "irq_step g g'"

definition irq_reset :: "gpio_regs \<Rightarrow> bool" where
  "irq_reset g \<longleftrightarrow> pin_irq_hdr_tab g = replicate 16 free_slot \<and> pin_irq_enable_mask g = 0
     \<and> nvic_enabled g = (\<lambda>_. False)"

inductive irq_reachable :: "gpio_regs \<Rightarrow> bool" where
  start: "irq_reset g \<Longrightarrow> irq_reachable g"
| step: "irq_reachable g \<Longrightarrow> irq_step g g' \<Longrightarrow> irq_reachable g'"

lemma irq_step_wf: "irq_step g g' \<Longrightarrow> irq_wf g \<Longrightarrow> irq_wf g'"
proof (elim irq_stepE)
  fix pin m h a r
  assume "irq_wf g" "rt_pin_attach_irq pin m h a g = (r, g')"
  then show "irq_wf g'"
    using stm32_pin_attach_irq_wf[of g pin m h a] by (simp add: rt_pin_attach_irq_def)
next
  fix pin r
  assume "irq_wf g" "rt_pin_detach_irq pin g = (r, g')"
  then show "irq_wf g'"
    using stm32_pin_dettach_irq_wf[of g pin] by (simp add: rt_pin_detach_irq_def)
next
  fix pin e r
  assume "irq_wf g" "rt_pin_irq_enable pin e g = Inr (r, g')"
  then show "irq_wf g'" by (auto simp: rt_pin_irq_enable_def dest: stm32_pin_irq_enable_wf)
qed

lemma irq_reachable_wf: "irq_reachable g \<Longrightarrow> irq_wf g"
proof (induction rule: irq_reachable.induct)
  case (start g)
  then show ?case by (simp add: irq_reset_def irq_wf_def)
next
  case (step g g')
  then show ?case by (blast intro: irq_step_wf)
qed

text \<open>
C10 In every state the pin driver reaches from reset by attaching, detaching, enabling and
disabling pin interrupts, an NVIC interrupt is enabled exactly when some line that is routed
to it is enabled in the driver's mask: disabling one of the lines 5 to 9 (or 10 to 15) never
cuts off another line that shares the interrupt, and the last one does switch it off.
\<close>

theorem pin_irq_nvic_shared:
  assumes "irq_reachable g"
  shows "nvic_enabled g i \<longleftrightarrow>
    (\<exists>n<16. snd (pin_irq_map ! n) = i \<and> bit (pin_irq_enable_mask g) n)"
  using irq_reachable_wf[OF assms] by (simp add: irq_wf_def line_irq_def)

definition irq_demo_on :: "int \<Rightarrow> gpio_regs \<Rightarrow> gpio_regs" where
  "irq_demo_on pin g =
     snd (projr (rt_pin_irq_enable pin 1 (snd (rt_pin_attach_irq pin 0 7 0 g))))"

lemma irq_demo_on_reachable:
  assumes "irq_reachable g" "valid_pin pin" "hdr_pin (pin_irq_hdr_tab g ! pin_pos pin) = -1"
  shows "irq_reachable (irq_demo_on pin g)"
proof -
  let ?g1 = "snd (rt_pin_attach_irq pin 0 7 0 g)"
  have r1: "irq_reachable ?g1"
    using irq_reachable.step[OF assms(1) irq_step.attach] by (metis surjective_pairing)
  have len: "length (pin_irq_hdr_tab g) = 16" using irq_reachable_wf[OF assms(1)] by (simp add: irq_wf_def)
  have s: "to_s16 pin = pin"
    using assms(2) by (simp add: to_s16_id valid_pin_def)
  have b: "bit2bitno (2 ^ pin_pos pin) = int (pin_pos pin)"
    using pin_pos_less[of pin] by (intro bit2bitno_one_hot) linarith
  have "okE (rt_pin_irq_enable pin 1 ?g1)"
    using assms(2,3) len s b
    by (simp add: rt_pin_irq_enable_def stm32_pin_irq_enable_def get_pin_valid
        rt_pin_attach_irq_def stm32_pin_attach_irq_def pin_irq_switch_on_def bit2bitno_one_hot
        irq_init_struct_def valid_pin_def Let_def)
  then obtain r g' where "rt_pin_irq_enable pin 1 ?g1 = Inr (r, g')" by (auto simp: okE_iff)
  then show ?thesis
    using irq_reachable.step[OF r1 irq_step.enable] by (simp add: irq_demo_on_def)
qed

lemma pin_irq_nvic_shared_witness:
  "nvic_enabled (irq_demo_on 5 gpio_reset) EXTI9_5_IRQn \<longleftrightarrow>
    (\<exists>n<16. snd (pin_irq_map ! n) = EXTI9_5_IRQn \<and>
       bit (pin_irq_enable_mask (irq_demo_on 5 gpio_reset)) n)"
proof (rule pin_irq_nvic_shared, rule irq_demo_on_reachable)
  show "irq_reachable gpio_reset"
    by (rule irq_reachable.start) (simp add: irq_reset_def gpio_reset_def)
  show "valid_pin 5" by (simp add: valid_pin_def)
  show "hdr_pin (pin_irq_hdr_tab gpio_reset ! pin_pos 5) = -1"
    by (simp add: gpio_reset_def pin_pos_def)
qed

end
