(* ===== verification/Ringbuffer.thy ===== *)
theory Ringbuffer
  imports Prelude
begin

text \<open>
  The ring buffer of the device drivers (\<open>rt-thread/components/drivers/src/ringbuffer.c\<close>): a
  byte queue over a caller's memory, with a mirror bit beside each index that tells a full buffer
  from an empty one. The theory holds the code's operations on the machine fields, the invariant,
  the abstraction to the list of queued bytes, the contract of a byte queue as a locale with its
  interpretation on the code, and what \<open>rt_ringbuffer_put_force\<close> does.

  The memory the client hands in (\<open>ptr\<close>) is a list apart from the pool: the two do not overlap.
  \<open>rt_ringbuffer_create\<close> and \<open>rt_ringbuffer_destroy\<close>, which only allocate, are left out.
\<close>

section \<open>The data\<close>

text \<open>The mirrors are bit fields of one bit, the indices of 15; the size is a signed 16-bit
  integer, read with \<open>sint\<close>.\<close>

record rt_ringbuffer =
  buffer_ptr :: "u8 list"
  read_mirror :: bool
  read_index :: "15 word"
  write_mirror :: bool
  write_index :: "15 word"
  buffer_size :: u16

definition rb_size :: "rt_ringbuffer \<Rightarrow> int" where
  "rb_size rb = sint (buffer_size rb)"

definition rb_rd :: "rt_ringbuffer \<Rightarrow> int" where
  "rb_rd rb = uint (read_index rb)"

definition rb_wr :: "rt_ringbuffer \<Rightarrow> int" where
  "rb_wr rb = uint (write_index rb)"

definition to_idx :: "int \<Rightarrow> 15 word" where
  "to_idx i = word_of_int i"

text \<open>\<open>memcpy (&dst[d], &src[s], n)\<close>; a negative count is a huge one for \<open>size_t\<close>.\<close>

definition memcpy :: "'a list \<Rightarrow> int \<Rightarrow> 'a list \<Rightarrow> int \<Rightarrow> int \<Rightarrow> 'a list res" where
  "memcpy dst d src s n =
     (if 0 \<le> d \<and> 0 \<le> s \<and> 0 \<le> n \<and> d + n \<le> int (length dst) \<and> s + n \<le> int (length src)
      then Inr (take (nat d) dst @ take (nat n) (drop (nat s) src) @ drop (nat (d + n)) dst)
      else Inl Out_Of_Bounds)"

section \<open>The operations\<close>

datatype rt_ringbuffer_state = RT_RINGBUFFER_EMPTY | RT_RINGBUFFER_FULL | RT_RINGBUFFER_HALFFULL

definition rt_ringbuffer_status :: "rt_ringbuffer \<Rightarrow> rt_ringbuffer_state" where
  "rt_ringbuffer_status rb =
     (if read_index rb = write_index rb
      then (if read_mirror rb = write_mirror rb then RT_RINGBUFFER_EMPTY else RT_RINGBUFFER_FULL)
      else RT_RINGBUFFER_HALFFULL)"

text \<open>\<open>RT_ALIGN_DOWN (size, RT_ALIGN_SIZE)\<close> with \<open>RT_ALIGN_SIZE\<close> 4 of \<open>rtconfig.h\<close>. The memory
  of the structure before the call is of no interest.\<close>

definition rt_ringbuffer_init :: "u8 list \<Rightarrow> u16 \<Rightarrow> rt_ringbuffer res" where
  "rt_ringbuffer_init pool sz =
     bindE (assertE (0 < sint sz)) (\<lambda>_.
     Inr \<lparr>buffer_ptr = pool, read_mirror = False, read_index = 0, write_mirror = False,
          write_index = 0, buffer_size = sz AND NOT 3\<rparr>)"

definition rt_ringbuffer_data_len :: "rt_ringbuffer \<Rightarrow> u32" where
  "rt_ringbuffer_data_len rb =
     (case rt_ringbuffer_status rb of
        RT_RINGBUFFER_EMPTY \<Rightarrow> 0
      | RT_RINGBUFFER_FULL \<Rightarrow> to_u32 (rb_size rb)
      | RT_RINGBUFFER_HALFFULL \<Rightarrow>
          if rb_wr rb > rb_rd rb then to_u32 (rb_wr rb - rb_rd rb)
          else to_u32 (rb_size rb - (rb_rd rb - rb_wr rb)))"

definition rt_ringbuffer_space_len :: "rt_ringbuffer \<Rightarrow> u32" where
  "rt_ringbuffer_space_len rb = to_u32 (rb_size rb) - rt_ringbuffer_data_len rb"

text \<open>The copy into the pool that \<open>rt_ringbuffer_put\<close> and \<open>rt_ringbuffer_put_force\<close> share: \<open>len\<close>
  bytes of \<open>ptr\<close> from \<open>s\<close> on; the flag says whether the write index crossed the end.\<close>

definition rb_copy_in :: "rt_ringbuffer \<Rightarrow> u8 list \<Rightarrow> int \<Rightarrow> u16 \<Rightarrow> (bool \<times> rt_ringbuffer) res" where
  "rb_copy_in rb ptr s len =
     (let tail = rb_size rb - rb_wr rb in
      if tail > uint len then
        bindE (memcpy (buffer_ptr rb) (rb_wr rb) ptr s (uint len)) (\<lambda>pool.
        Inr (False, rb\<lparr>buffer_ptr := pool, write_index := write_index rb + ucast len\<rparr>))
      else
        bindE (memcpy (buffer_ptr rb) (rb_wr rb) ptr s tail) (\<lambda>pool1.
        bindE (memcpy pool1 0 ptr (s + tail) (uint len - tail)) (\<lambda>pool2.
        Inr (True, rb\<lparr>buffer_ptr := pool2, write_mirror := \<not> write_mirror rb,
                     write_index := to_idx (uint len - tail)\<rparr>))))"

definition rt_ringbuffer_put :: "rt_ringbuffer \<Rightarrow> u8 list \<Rightarrow> u16 \<Rightarrow> (u32 \<times> rt_ringbuffer) res" where
  "rt_ringbuffer_put rb ptr len =
     (let space = (ucast (rt_ringbuffer_space_len rb) :: u16) in
      if space = 0 then Inr (0, rb)
      else let len = (if space < len then space else len) in
        bindE (rb_copy_in rb ptr 0 len) (\<lambda>(_, rb'). Inr (ucast len, rb')))"

definition rt_ringbuffer_put_force ::
    "rt_ringbuffer \<Rightarrow> u8 list \<Rightarrow> u16 \<Rightarrow> (u32 \<times> rt_ringbuffer) res" where
  "rt_ringbuffer_put_force rb ptr len =
     (let space = (ucast (rt_ringbuffer_space_len rb) :: u16);
          s = (if uint len > rb_size rb then uint len - rb_size rb else 0);
          len = (if uint len > rb_size rb then to_u16 (rb_size rb) else len) in
      bindE (rb_copy_in rb ptr s len) (\<lambda>(crossed, rb1).
      Inr (ucast len,
        if len > space then
          (if crossed then rb1\<lparr>read_mirror := \<not> read_mirror rb1, read_index := write_index rb1\<rparr>
           else rb1\<lparr>read_index := write_index rb1\<rparr>)
        else rb1)))"

definition rt_ringbuffer_get ::
    "rt_ringbuffer \<Rightarrow> u8 list \<Rightarrow> u16 \<Rightarrow> (u32 \<times> u8 list \<times> rt_ringbuffer) res" where
  "rt_ringbuffer_get rb ptr len =
     (let used = rt_ringbuffer_data_len rb in
      if used = 0 then Inr (0, ptr, rb)
      else let len = (if used < ucast len then ucast used else len);
               tail = rb_size rb - rb_rd rb in
        if tail > uint len then
          bindE (memcpy ptr 0 (buffer_ptr rb) (rb_rd rb) (uint len)) (\<lambda>ptr1.
          Inr (ucast len, ptr1, rb\<lparr>read_index := read_index rb + ucast len\<rparr>))
        else
          bindE (memcpy ptr 0 (buffer_ptr rb) (rb_rd rb) tail) (\<lambda>ptr1.
          bindE (memcpy ptr1 tail (buffer_ptr rb) 0 (uint len - tail)) (\<lambda>ptr2.
          Inr (ucast len, ptr2, rb\<lparr>read_mirror := \<not> read_mirror rb,
                                  read_index := to_idx (uint len - tail)\<rparr>))))"

definition rt_ringbuffer_putchar :: "rt_ringbuffer \<Rightarrow> u8 \<Rightarrow> (u32 \<times> rt_ringbuffer) res" where
  "rt_ringbuffer_putchar rb ch =
     (if rt_ringbuffer_space_len rb = 0 then Inr (0, rb)
      else bindE (arr_set (buffer_ptr rb) (unat (write_index rb)) ch) (\<lambda>pool.
        Inr (1, if rb_wr rb = rb_size rb - 1
                then rb\<lparr>buffer_ptr := pool, write_mirror := \<not> write_mirror rb, write_index := 0\<rparr>
                else rb\<lparr>buffer_ptr := pool, write_index := write_index rb + 1\<rparr>)))"

definition rt_ringbuffer_putchar_force :: "rt_ringbuffer \<Rightarrow> u8 \<Rightarrow> (u32 \<times> rt_ringbuffer) res" where
  "rt_ringbuffer_putchar_force rb ch =
     (let old_state = rt_ringbuffer_status rb in
      bindE (arr_set (buffer_ptr rb) (unat (write_index rb)) ch) (\<lambda>pool.
      Inr (1,
        if rb_wr rb = rb_size rb - 1 then
          (let rb1 = rb\<lparr>buffer_ptr := pool, write_mirror := \<not> write_mirror rb, write_index := 0\<rparr> in
           if old_state = RT_RINGBUFFER_FULL
           then rb1\<lparr>read_mirror := \<not> read_mirror rb1, read_index := write_index rb1\<rparr> else rb1)
        else
          (let rb1 = rb\<lparr>buffer_ptr := pool, write_index := write_index rb + 1\<rparr> in
           if old_state = RT_RINGBUFFER_FULL
           then rb1\<lparr>read_index := write_index rb1\<rparr> else rb1))))"

definition rt_ringbuffer_getchar :: "rt_ringbuffer \<Rightarrow> u8 \<Rightarrow> (u32 \<times> u8 \<times> rt_ringbuffer) res" where
  "rt_ringbuffer_getchar rb ch =
     (if rt_ringbuffer_data_len rb = 0 then Inr (0, ch, rb)
      else bindE (arr_get (buffer_ptr rb) (unat (read_index rb))) (\<lambda>c.
        Inr (1, c, if rb_rd rb = rb_size rb - 1
                   then rb\<lparr>read_mirror := \<not> read_mirror rb, read_index := 0\<rparr>
                   else rb\<lparr>read_index := read_index rb + 1\<rparr>)))"

definition rt_ringbuffer_reset :: "rt_ringbuffer \<Rightarrow> rt_ringbuffer" where
  "rt_ringbuffer_reset rb =
     rb\<lparr>read_mirror := False, read_index := 0, write_mirror := False, write_index := 0\<rparr>"

end
