(* ===== verification/Ringbuffer_Facts.thy ===== *)
theory Ringbuffer_Facts
  imports Ringbuffer
begin

text \<open>
  What the operations of the ring buffer do on the list of queued bytes: the invariant
  \<open>rb_ok\<close>, the abstraction \<open>rb_data\<close>, the copies in and out across the end of the pool
  (\<open>copied\<close>, \<open>advanced\<close>), and one lemma per operation.
\<close>

section \<open>Circular sequences\<close>

lemma rb_field_simps [simp]:
  "rb_size (rb\<lparr>buffer_ptr := p\<rparr>) = rb_size rb" "rb_wr (rb\<lparr>buffer_ptr := p\<rparr>) = rb_wr rb"
  "rb_rd (rb\<lparr>buffer_ptr := p\<rparr>) = rb_rd rb"
  "rb_size (rb\<lparr>write_mirror := b\<rparr>) = rb_size rb" "rb_wr (rb\<lparr>write_mirror := b\<rparr>) = rb_wr rb"
  "rb_rd (rb\<lparr>write_mirror := b\<rparr>) = rb_rd rb"
  "rb_size (rb\<lparr>read_mirror := b\<rparr>) = rb_size rb" "rb_wr (rb\<lparr>read_mirror := b\<rparr>) = rb_wr rb"
  "rb_rd (rb\<lparr>read_mirror := b\<rparr>) = rb_rd rb"
  "rb_size (rb\<lparr>write_index := i\<rparr>) = rb_size rb" "rb_wr (rb\<lparr>write_index := i\<rparr>) = uint i"
  "rb_rd (rb\<lparr>write_index := i\<rparr>) = rb_rd rb"
  "rb_size (rb\<lparr>read_index := i\<rparr>) = rb_size rb" "rb_wr (rb\<lparr>read_index := i\<rparr>) = rb_wr rb"
  "rb_rd (rb\<lparr>read_index := i\<rparr>) = uint i"
  by (simp_all add: rb_size_def rb_wr_def rb_rd_def)

definition ring :: "'a list \<Rightarrow> nat \<Rightarrow> nat \<Rightarrow> nat \<Rightarrow> 'a list" where
  "ring p n r k = map (\<lambda>i. p ! ((r + i) mod n)) [0..<k]"

lemma ring_length [simp]: "length (ring p n r k) = k"
  by (simp add: ring_def)

lemma ring_0 [simp]: "ring p n r 0 = []"
  by (simp add: ring_def)

lemma ring_nth: "i < k \<Longrightarrow> ring p n r k ! i = p ! ((r + i) mod n)"
  by (simp add: ring_def)

lemma ring_take: "m \<le> k \<Longrightarrow> take m (ring p n r k) = ring p n r m"
  by (auto intro!: nth_equalityI simp: ring_nth)

lemma ring_drop: "drop m (ring p n r k) = ring p n ((r + m) mod n) (k - m)"
  by (auto intro!: nth_equalityI simp: ring_nth mod_add_left_eq add.assoc)

lemma ring_split: "m \<le> k \<Longrightarrow> ring p n r k = ring p n r m @ ring p n ((r + m) mod n) (k - m)"
  using append_take_drop_id[of m "ring p n r k"] by (simp add: ring_take ring_drop)

lemma ring_cong:
  assumes "\<And>i. i < k \<Longrightarrow> p ! ((r + i) mod n) = q ! ((r + i) mod n)"
  shows "ring p n r k = ring q n r k"
  using assms by (simp add: ring_def)

lemma mod_neq_less: "i < j \<Longrightarrow> j < n \<Longrightarrow> (r + i) mod n \<noteq> (r + j) mod (n :: nat)"
  using mod_eq_dvd_iff_nat[of "r + i" "r + j" n] dvd_imp_le[of n "j - i"] by auto

lemma mod_neq_within: "i < n \<Longrightarrow> j < n \<Longrightarrow> i \<noteq> j \<Longrightarrow> (r + i) mod n \<noteq> (r + j) mod (n :: nat)"
  using mod_neq_less[of i j n r] mod_neq_less[of j i n r] by (cases "i < j") auto

text \<open>Bytes written behind the last one are appended; those ahead are not touched.\<close>

lemma ring_append:
  assumes "k + length ds \<le> n" and new: "\<And>i. i < length ds \<Longrightarrow> q ! ((r + k + i) mod n) = ds ! i"
    and old: "\<And>j. j < n \<Longrightarrow> (\<And>i. i < length ds \<Longrightarrow> j \<noteq> (r + k + i) mod n) \<Longrightarrow> q ! j = p ! j"
  shows "ring q n r (k + length ds) = ring p n r k @ ds"
proof (rule nth_equalityI)
  fix i assume "i < length (ring q n r (k + length ds))"
  then have i: "i < k + length ds" by simp
  then have n: "0 < n" using assms(1) by simp
  show "ring q n r (k + length ds) ! i = (ring p n r k @ ds) ! i"
  proof (cases "i < k")
    case True
    have "q ! ((r + i) mod n) = p ! ((r + i) mod n)"
    proof (rule old)
      show "(r + i) mod n < n" using n by simp
      show "(r + i) mod n \<noteq> (r + k + j) mod n" if "j < length ds" for j
        using mod_neq_less[of i "k + j" n r] True that assms(1) by (simp add: add.assoc)
    qed
    then show ?thesis using True i by (simp add: ring_nth nth_append)
  next
    case False
    then show ?thesis using i new[of "i - k"] by (simp add: ring_nth nth_append)
  qed
qed simp

section \<open>Copies\<close>

lemma memcpy_ok:
  assumes "d + n \<le> length dst" "s + n \<le> length src"
  obtains q where "memcpy dst (int d) src (int s) (int n) = Inr q" "length q = length dst"
    "\<forall>j<length dst. q ! j = (if d \<le> j \<and> j < d + n then src ! (s + (j - d)) else dst ! j)"
proof -
  have m: "min (length src - s) n = n" "min (length dst) d = d" using assms by simp_all
  define q where "q = take d dst @ take n (drop s src) @ drop (d + n) dst"
  have "memcpy dst (int d) src (int s) (int n) = Inr q"
    using assms by (simp add: memcpy_def q_def nat_int_add)
  moreover have "length q = length dst" using assms m by (simp add: q_def)
  moreover have "\<forall>j<length dst. q ! j = (if d \<le> j \<and> j < d + n then src ! (s + (j - d)) else dst ! j)"
    using assms m by (auto simp: q_def nth_append)
  ultimately show ?thesis by (rule that)
qed

section \<open>The invariant\<close>

definition rb_ok :: "rt_ringbuffer \<Rightarrow> bool" where
  "rb_ok rb \<longleftrightarrow> 0 < rb_size rb \<and> rb_size rb \<le> int (length (buffer_ptr rb))
     \<and> rb_rd rb < rb_size rb \<and> rb_wr rb < rb_size rb
     \<and> (if read_mirror rb = write_mirror rb then rb_rd rb \<le> rb_wr rb else rb_wr rb \<le> rb_rd rb)"

text \<open>The number of queued bytes, and the bytes themselves, oldest first.\<close>

definition rb_used :: "rt_ringbuffer \<Rightarrow> int" where
  "rb_used rb = (if read_mirror rb = write_mirror rb then rb_wr rb - rb_rd rb
                 else rb_size rb - (rb_rd rb - rb_wr rb))"

definition rb_data :: "rt_ringbuffer \<Rightarrow> u8 list" where
  "rb_data rb = ring (buffer_ptr rb) (nat (rb_size rb)) (nat (rb_rd rb)) (nat (rb_used rb))"

lemma rb_bounds: "0 \<le> rb_rd rb" "0 \<le> rb_wr rb" "rb_size rb < 32768"
  using sint_lt[of "buffer_size rb"] by (simp_all add: rb_rd_def rb_wr_def rb_size_def)

lemma rb_used_bounds: "rb_ok rb \<Longrightarrow> 0 \<le> rb_used rb \<and> rb_used rb \<le> rb_size rb"
  using rb_bounds[of rb] by (auto simp: rb_ok_def rb_used_def split: if_splits)

lemma rb_data_length: "length (rb_data rb) = nat (rb_used rb)"
  by (simp add: rb_data_def)

lemma rb_index_eq: "read_index rb = write_index rb \<longleftrightarrow> rb_rd rb = rb_wr rb"
  by (simp add: rb_rd_def rb_wr_def word_uint_eq_iff)

lemma data_len_uint:
  assumes "rb_ok rb"
  shows "uint (rt_ringbuffer_data_len rb) = rb_used rb"
proof -
  have b: "0 \<le> rb_rd rb" "0 \<le> rb_wr rb" "rb_size rb < 32768" using rb_bounds by auto
  show ?thesis
    using assms b
    by (auto simp: rt_ringbuffer_data_len_def rt_ringbuffer_status_def rb_index_eq rb_ok_def rb_used_def
        uint_to_u32 split: if_splits)
qed

lemma space_len_uint:
  assumes "rb_ok rb"
  shows "uint (rt_ringbuffer_space_len rb) = rb_size rb - rb_used rb"
proof -
  have b: "rb_size rb < 32768" using rb_bounds by auto
  have s: "uint (to_u32 (rb_size rb)) = rb_size rb"
    using assms b by (intro uint_to_u32) (auto simp: rb_ok_def)
  have u: "rb_used rb \<le> rb_size rb" using rb_used_bounds[OF assms] by simp
  show ?thesis
    by (simp add: rt_ringbuffer_space_len_def uint_sub_lem[THEN iffD1] data_len_uint[OF assms] s u)
qed

lemma space_u16:
  assumes "rb_ok rb"
  shows "uint (ucast (rt_ringbuffer_space_len rb) :: u16) = rb_size rb - rb_used rb"
  using space_len_uint[OF assms] rb_used_bounds[OF assms] rb_bounds(3)[of rb]
  by (simp add: unsigned_ucast_eq unsigned_take_bit_eq take_bit_int_eq_self)

lemma to_idx_uint: "0 \<le> i \<Longrightarrow> i < 32768 \<Longrightarrow> uint (to_idx i) = i"
  by (simp add: to_idx_def uint_word_of_int)

lemma idx_add:
  assumes "uint i + uint (n :: u16) < 32768"
  shows "uint (i + ucast n :: 15 word) = uint i + uint n"
proof -
  have "uint n < 32768" using assms uint_ge_0[of i] by linarith
  then have "uint (ucast n :: 15 word) = uint n" by (simp add: unsigned_ucast_eq unsigned_take_bit_eq take_bit_int_eq_self)
  then show ?thesis using assms by (simp add: uint_add_lem[THEN iffD1])
qed

lemma int_mod_once: "0 \<le> x \<Longrightarrow> x < 2 * (n :: int) \<Longrightarrow> x mod n = (if x < n then x else x - n)"
  using mod_pos_pos_trivial[of "x - n" n] by auto

lemma nat_mod_once: "x < 2 * n \<Longrightarrow> x mod n = (if x < n then x else x - n :: nat)"
  by (simp add: le_mod_geq)

section \<open>The copy into the pool\<close>

definition copied :: "rt_ringbuffer \<Rightarrow> u8 list \<Rightarrow> nat \<Rightarrow> nat \<Rightarrow> bool \<Rightarrow> rt_ringbuffer \<Rightarrow> bool" where
  "copied rb ptr s l crossed rb' \<longleftrightarrow>
     crossed = (rb_size rb \<le> rb_wr rb + int l) \<and> rb_wr rb' = rb_wr rb + int l - (if crossed then rb_size rb else 0)
     \<and> write_mirror rb' = (write_mirror rb \<noteq> crossed) \<and> read_mirror rb' = read_mirror rb
     \<and> read_index rb' = read_index rb \<and> buffer_size rb' = buffer_size rb
     \<and> length (buffer_ptr rb') = length (buffer_ptr rb)
     \<and> (\<forall>i<l. buffer_ptr rb' ! ((nat (rb_wr rb) + i) mod nat (rb_size rb)) = ptr ! (s + i))
     \<and> (\<forall>j<nat (rb_size rb). (\<forall>i<l. j \<noteq> (nat (rb_wr rb) + i) mod nat (rb_size rb))
           \<longrightarrow> buffer_ptr rb' ! j = buffer_ptr rb ! j)"

lemma write_once:
  assumes "w + l < n" "\<forall>j<length p. q ! j = (if w \<le> j \<and> j < w + l then ptr ! (s + (j - w)) else p ! j)"
    "n \<le> length p"
  shows "(\<forall>i<l. q ! ((w + i) mod n) = ptr ! (s + i))
    \<and> (\<forall>j<n. (\<forall>i<l. j \<noteq> (w + i) mod n) \<longrightarrow> q ! j = p ! (j :: nat))"
proof (intro conjI allI impI)
  fix i assume "i < l"
  then show "q ! ((w + i) mod n) = ptr ! (s + i)" using assms by simp
next
  fix j assume j: "j < n" "\<forall>i<l. j \<noteq> (w + i) mod n"
  have "\<not> (w \<le> j \<and> j < w + l)"
  proof
    assume a: "w \<le> j \<and> j < w + l"
    then have "j - w < l" by arith
    then show False using j(2)[rule_format, of "j - w"] j(1) a by simp
  qed
  then show "q ! j = p ! j" using assms(2)[rule_format, of j] assms(3) j(1) by auto
qed

lemma write_twice:
  assumes "n \<le> w + l" "w < n" "l \<le> n" "n \<le> length p"
    and q: "\<And>j. j < length p \<Longrightarrow> q ! j = (if j < w + l - n then ptr ! (s + (n - w) + j)
        else if w \<le> j \<and> j < n then ptr ! (s + (j - w)) else p ! j)"
  shows "(\<forall>i<l. q ! ((w + i) mod n) = ptr ! (s + i))
    \<and> (\<forall>j<n. (\<forall>i<l. j \<noteq> (w + i) mod n) \<longrightarrow> q ! j = p ! (j :: nat))"
proof (intro conjI allI impI)
  fix i assume i: "i < l"
  have m: "(w + i) mod n = (if w + i < n then w + i else w + i - n)"
    using i assms by (intro nat_mod_once) simp
  show "q ! ((w + i) mod n) = ptr ! (s + i)"
  proof (cases "w + i < n")
    case True
    then have "\<not> w + i < w + l - n" "w + i < length p" using assms by simp_all
    then show ?thesis using True m q[rule_format, of "w + i"] by simp
  next
    case False
    then have "w + i - n < w + l - n" "w + i - n < length p" "s + (n - w) + (w + i - n) = s + i"
      using i assms by simp_all
    then show ?thesis using False m q[rule_format, of "w + i - n"] by simp
  qed
next
  fix j assume j: "j < n" "\<forall>i<l. j \<noteq> (w + i) mod n"
  have "\<not> j < w + l - n"
  proof
    assume "j < w + l - n"
    then have "j + n - w < l" using assms(1,2) by arith
    then show False using j(2)[rule_format, of "j + n - w"] j(1) assms(2) by simp
  qed
  moreover have "\<not> (w \<le> j \<and> j < n)"
  proof
    assume a: "w \<le> j \<and> j < n"
    then have "j - w < l" using assms(1) by arith
    then show False using j(2)[rule_format, of "j - w"] j(1) a by simp
  qed
  ultimately show "q ! j = p ! j" using q[rule_format, of j] assms j by simp
qed

lemma rb_copy_in_ok:
  assumes ok: "rb_ok rb" and len: "uint len \<le> rb_size rb" and s: "s + unat len \<le> length ptr"
  shows "\<exists>crossed rb'. rb_copy_in rb ptr (int s) len = Inr (crossed, rb')
    \<and> copied rb ptr s (unat len) crossed rb'"
proof -
  define p where "p = buffer_ptr rb"
  obtain n where n: "rb_size rb = int n" using ok zero_le_imp_eq_int[of "rb_size rb"] by (auto simp: rb_ok_def)
  obtain w where w: "rb_wr rb = int w" using rb_bounds(2) zero_le_imp_eq_int by blast
  define l where "l = unat len"
  have l1: "uint len = int l" by (simp only: l_def uint_nat)
  then have l: "uint len = int l" "l \<le> n" using len n by simp_all
  have nw: "w < n" "n \<le> length p" "n < 32768" using ok rb_bounds(3)[of rb] by (simp_all add: rb_ok_def n w p_def)
  show ?thesis
  proof (cases "w + l < n")
    case True
    have pre: "w + l \<le> length p" "s + l \<le> length ptr" using True nw s by (simp_all add: l_def)
    obtain q where q: "memcpy p (int w) ptr (int s) (int l) = Inr q" "length q = length p"
      "\<forall>j<length p. q ! j = (if w \<le> j \<and> j < w + l then ptr ! (s + (j - w)) else p ! j)"
      by (rule memcpy_ok[OF pre])
    have "uint (write_index rb + ucast len) = int w + int l"
      using idx_add[of "write_index rb" len] w True nw by (simp add: rb_wr_def l)
    moreover have "(\<forall>i<l. q ! ((w + i) mod n) = ptr ! (s + i))
        \<and> (\<forall>j<n. (\<forall>i<l. j \<noteq> (w + i) mod n) \<longrightarrow> q ! j = p ! j)"
      by (rule write_once[OF True _ nw(2)]) (use q(3) in simp)
    ultimately show ?thesis
      using True q(1,2)
      by (simp add: rb_copy_in_def Let_def n w l copied_def ex_bool_eq flip: p_def l_def)
  next
    case False
    define t where "t = n - w"
    define m where "m = w + l - n"
    have tm: "int n - int w = int t" "int l - int t = int m" "w + t = n" "t + m = l"
      using False nw by (simp_all add: t_def m_def)
    have pre: "w + t \<le> length p" "s + t \<le> length ptr" "m \<le> length p" "s + t + m \<le> length ptr"
      using tm nw s l(2) by (simp_all add: l_def)
    obtain q1 where q1: "memcpy p (int w) ptr (int s) (int t) = Inr q1" "length q1 = length p"
      "\<forall>j<length p. q1 ! j = (if w \<le> j \<and> j < w + t then ptr ! (s + (j - w)) else p ! j)"
      by (rule memcpy_ok[OF pre(1,2)])
    have pre1: "0 + m \<le> length q1" using pre q1(2) by simp
    obtain q where q: "memcpy q1 (int 0) ptr (int (s + t)) (int m) = Inr q" "length q = length q1"
      "\<forall>j<length q1. q ! j = (if 0 \<le> j \<and> j < 0 + m then ptr ! (s + t + (j - 0)) else q1 ! j)"
      by (rule memcpy_ok[OF pre1 pre(4)])
    have "(\<forall>i<l. q ! ((w + i) mod n) = ptr ! (s + i))
        \<and> (\<forall>j<n. (\<forall>i<l. j \<noteq> (w + i) mod n) \<longrightarrow> q ! j = p ! j)"
      by (rule write_twice[OF _ nw(1) l(2) nw(2)])
        (use False q(3) q1(2,3) tm in \<open>simp_all add: m_def t_def\<close>)
    moreover have "uint (to_idx (int m)) = int m" using tm l nw by (intro to_idx_uint) simp_all
    moreover have "int m = int w + int l - int n" "\<not> l < t" using tm by simp_all
    ultimately show ?thesis
      using False q(1,2) q1(1,2)
      by (simp add: rb_copy_in_def Let_def n w l tm copied_def ex_bool_eq flip: p_def l_def)
  qed
qed

lemma copied_append:
  assumes ok: "rb_ok rb" and c: "copied rb ptr s l crossed rb'" and l: "rb_used rb + int l \<le> rb_size rb"
    and s: "s + l \<le> length ptr"
  shows "rb_ok rb' \<and> rb_data rb' = rb_data rb @ take l (drop s ptr) \<and> rb_size rb' = rb_size rb"
proof -
  define n where "n = nat (rb_size rb)"
  define r where "r = nat (rb_rd rb)"
  define k where "k = nat (rb_used rb)"
  have f: "rb_size rb' = rb_size rb" "rb_rd rb' = rb_rd rb"
    using c by (simp_all add: copied_def rb_size_def rb_rd_def)
  have b: "0 \<le> rb_rd rb" "0 \<le> rb_wr rb" "0 \<le> rb_used rb" using rb_bounds rb_used_bounds[OF ok] by auto
  have u: "rb_used rb' = rb_used rb + int l" "rb_ok rb'"
    using ok c l b by (auto simp: copied_def f rb_used_def rb_ok_def split: if_splits)
  have w: "(r + k + i) mod n = (nat (rb_wr rb) + i) mod n" for i
  proof -
    have "r + k = nat (rb_wr rb) \<or> r + k = nat (rb_wr rb) + n"
      using ok b by (auto simp: r_def k_def n_def rb_ok_def rb_used_def split: if_splits)
    then have "r + k + i = nat (rb_wr rb) + i \<or> r + k + i = nat (rb_wr rb) + i + n" by linarith
    then show ?thesis by (metis mod_add_self2)
  qed
  have "ring (buffer_ptr rb') n r (k + length (take l (drop s ptr))) = ring (buffer_ptr rb) n r k @ take l (drop s ptr)"
  proof (rule ring_append)
    have len: "length (take l (drop s ptr)) = l" using s by simp
    show "k + length (take l (drop s ptr)) \<le> n" unfolding len using l b by (simp add: k_def n_def nat_le_iff)
    show "buffer_ptr rb' ! ((r + k + i) mod n) = take l (drop s ptr) ! i" if "i < length (take l (drop s ptr))" for i
      using c that s unfolding w len unfolding copied_def n_def by simp
    show "buffer_ptr rb' ! j = buffer_ptr rb ! j"
      if "j < n" "\<And>i. i < length (take l (drop s ptr)) \<Longrightarrow> j \<noteq> (r + k + i) mod n" for j
      using c that unfolding w len unfolding copied_def n_def by blast
  qed
  moreover have "nat (rb_used rb') = k + l" using u b by (simp add: k_def)
  ultimately show ?thesis using s u by (simp add: rb_data_def f n_def r_def k_def)
qed

lemma rt_ringbuffer_put_ok:
  assumes "rb_ok rb" "unat len \<le> length ptr"
  shows "\<exists>n rb'. rt_ringbuffer_put rb ptr len = Inr (of_nat n, rb') \<and> rb_ok rb' \<and> rb_size rb' = rb_size rb
    \<and> n = min (unat len) (nat (rb_size rb) - length (rb_data rb))
    \<and> rb_data rb' = rb_data rb @ take n ptr"
proof -
  define sp where "sp = (ucast (rt_ringbuffer_space_len rb) :: u16)"
  have sp: "int (unat sp) = rb_size rb - rb_used rb" using space_u16[OF assms(1)] by (simp add: sp_def flip: uint_nat)
  have u: "0 \<le> rb_used rb" "rb_used rb \<le> rb_size rb" using rb_used_bounds[OF assms(1)] by auto
  have "unat sp = nat (rb_size rb - rb_used rb)" by (metis nat_int sp)
  then have free: "nat (rb_size rb) - length (rb_data rb) = unat sp" using u by (simp add: rb_data_length nat_diff_distrib)
  show ?thesis
  proof (cases "sp = 0")
    case True
    then show ?thesis using assms free by (simp add: rt_ringbuffer_put_def flip: sp_def)
  next
    case False
    define l where "l = (if sp < len then sp else len)"
    have l: "unat l = min (unat len) (unat sp)" by (simp add: l_def word_less_nat_alt)
    have "unat l \<le> unat sp" using l by simp
    then have "int (unat l) \<le> rb_size rb" "rb_used rb + int (unat l) \<le> rb_size rb"
      using sp u by linarith+
    then have lb: "uint l \<le> rb_size rb" "0 + unat l \<le> length ptr" "rb_used rb + int (unat l) \<le> rb_size rb"
      using l assms(2) by (simp_all only: uint_nat; simp)+
    obtain crossed rb' where c: "rb_copy_in rb ptr (int 0) l = Inr (crossed, rb')" "copied rb ptr 0 (unat l) crossed rb'"
      using rb_copy_in_ok[OF assms(1) lb(1,2)] by blast
    have "rt_ringbuffer_put rb ptr len = Inr (ucast l, rb')"
      using False c(1) by (simp add: rt_ringbuffer_put_def Let_def flip: sp_def l_def)
    moreover have "(ucast l :: u32) = of_nat (unat l)" by (simp only: of_nat_unat)
    ultimately show ?thesis
      using copied_append[OF assms(1) c(2) lb(3,2)] l free by auto
  qed
qed

section \<open>Moving the read index\<close>

definition advanced :: "rt_ringbuffer \<Rightarrow> nat \<Rightarrow> rt_ringbuffer \<Rightarrow> bool" where
  "advanced rb l rb' \<longleftrightarrow>
     buffer_ptr rb' = buffer_ptr rb \<and> buffer_size rb' = buffer_size rb \<and> write_index rb' = write_index rb
     \<and> write_mirror rb' = write_mirror rb
     \<and> read_mirror rb' = (read_mirror rb \<noteq> (rb_size rb \<le> rb_rd rb + int l))
     \<and> rb_rd rb' = rb_rd rb + int l - (if rb_size rb \<le> rb_rd rb + int l then rb_size rb else 0)"

lemma advanced_drop:
  assumes ok: "rb_ok rb" and a: "advanced rb l rb'" and l: "int l \<le> rb_used rb"
  shows "rb_ok rb' \<and> rb_data rb' = drop l (rb_data rb) \<and> rb_size rb' = rb_size rb
    \<and> rb_used rb' = rb_used rb - int l"
proof -
  have f: "rb_size rb' = rb_size rb" "rb_wr rb' = rb_wr rb" "buffer_ptr rb' = buffer_ptr rb"
    using a by (simp_all add: advanced_def rb_size_def rb_wr_def)
  have b: "0 \<le> rb_rd rb" "0 \<le> rb_wr rb" "0 \<le> rb_used rb" using rb_bounds rb_used_bounds[OF ok] by auto
  have u: "rb_used rb' = rb_used rb - int l" "rb_ok rb'"
    using ok a l b by (auto simp: advanced_def f rb_used_def rb_ok_def split: if_splits)
  have r: "nat (rb_rd rb') = (nat (rb_rd rb) + l) mod nat (rb_size rb)"
  proof -
    have "nat (rb_rd rb) + l < 2 * nat (rb_size rb)"
      using ok a l b rb_used_bounds[OF ok] by (auto simp: rb_ok_def)
    moreover have "nat (rb_rd rb') = nat (rb_rd rb) + l - (if nat (rb_size rb) \<le> nat (rb_rd rb) + l then nat (rb_size rb) else 0)"
      using a b ok by (auto simp: advanced_def rb_ok_def)
    ultimately show ?thesis by (simp add: nat_mod_once)
  qed
  have k: "nat (rb_used rb - int l) = nat (rb_used rb) - l" using b by (simp add: nat_diff_distrib)
  show ?thesis using u by (simp add: rb_data_def f r k ring_drop)
qed

lemma rb_data_nth:
  "i < length (rb_data rb) \<Longrightarrow> rb_data rb ! i = buffer_ptr rb ! ((nat (rb_rd rb) + i) mod nat (rb_size rb))"
  by (simp add: rb_data_def ring_nth)

lemma rt_ringbuffer_get_ok:
  assumes ok: "rb_ok rb" and room: "min (unat len) (length (rb_data rb)) \<le> length ptr"
  shows "\<exists>n ptr' rb'. rt_ringbuffer_get rb ptr len = Inr (of_nat n, ptr', rb') \<and> rb_ok rb'
    \<and> rb_size rb' = rb_size rb \<and> n = min (unat len) (length (rb_data rb))
    \<and> ptr' = take n (rb_data rb) @ drop n ptr \<and> rb_data rb' = drop n (rb_data rb)"
proof -
  define us where "us = rt_ringbuffer_data_len rb"
  define p where "p = buffer_ptr rb"
  obtain n where n: "rb_size rb = int n" using ok zero_le_imp_eq_int[of "rb_size rb"] by (auto simp: rb_ok_def)
  obtain r where r: "rb_rd rb = int r" using rb_bounds(1) zero_le_imp_eq_int by blast
  have us: "int (unat us) = rb_used rb" using data_len_uint[OF ok] by (simp add: us_def flip: uint_nat)
  then have k: "length (rb_data rb) = unat us" by (metis rb_data_length nat_int)
  have nw: "r < n" "n \<le> length p" "n < 32768" using ok rb_bounds(3)[of rb] by (simp_all add: rb_ok_def n r p_def)
  have un: "unat us \<le> n" using us rb_used_bounds[OF ok] n by linarith
  show ?thesis
  proof (cases "us = 0")
    case True
    then show ?thesis using ok k by (simp add: rt_ringbuffer_get_def flip: us_def)
  next
    case False
    define l where "l = (if us < ucast len then ucast us else len)"
    have uu: "unat (ucast us :: u16) = unat us" using un nw by (simp add: unsigned_ucast_eq unsigned_take_bit_eq take_bit_nat_eq_self)
    have "unat (ucast len :: u32) = unat len"
    proof -
      have "unat len < 2 ^ LENGTH(16)" by (rule unsigned_less)
      then show ?thesis by (simp add: unsigned_ucast_eq unsigned_take_bit_eq take_bit_nat_eq_self)
    qed
    then have l: "unat l = min (unat len) (unat us)"
      using uu by (auto simp: l_def word_less_nat_alt)
    have al: "(ucast l :: u32) = of_nat (unat l)" by (simp only: of_nat_unat)
    have lr: "unat l \<le> length ptr" "unat l \<le> n" "unat l \<le> unat us" using l room k un by simp_all
    define x where "x = unat l"
    have lx: "uint l = int x" by (simp only: uint_nat x_def)
    have nth: "rb_data rb ! j = p ! ((r + j) mod n)" if "j < x" for j
      using rb_data_nth[of j rb] that lr k by (simp add: x_def p_def n r)
    have adv: ?thesis if g: "rt_ringbuffer_get rb ptr len = Inr (ucast l, ptr', rb')" "advanced rb x rb'"
        "length ptr' = length ptr" "\<forall>j<length ptr. ptr' ! j = (if j < x then p ! ((r + j) mod n) else ptr ! j)"
      for ptr' rb'
    proof -
      have "ptr' = take x (rb_data rb) @ drop x ptr"
        using g(3,4) lr k nth by (intro nth_equalityI) (auto simp: x_def nth_append)
      then show ?thesis
        using g(1) advanced_drop[OF ok g(2)] lr us l k by (auto simp: al x_def)
    qed
    show ?thesis
    proof (cases "r + x < n")
      case True
      have pre: "0 + x \<le> length ptr" "r + x \<le> length p" using True nw lr by (simp_all add: x_def)
      obtain q where q: "memcpy ptr (int 0) p (int r) (int x) = Inr q" "length q = length ptr"
        "\<forall>j<length ptr. q ! j = (if 0 \<le> j \<and> j < 0 + x then p ! (r + (j - 0)) else ptr ! j)"
        by (rule memcpy_ok[OF pre])
      have "uint (read_index rb + ucast l) = int r + int x"
        using idx_add[of "read_index rb" l] r True nw by (simp add: rb_rd_def lx)
      then show ?thesis
        using False True q lx
        by (intro adv[of q "rb\<lparr>read_index := read_index rb + ucast l\<rparr>"]) (simp_all add: rt_ringbuffer_get_def Let_def n r advanced_def
            flip: us_def l_def p_def x_def)
    next
      case crossing: False
      define t where "t = n - r"
      define m where "m = r + x - n"
      have tm: "int n - int r = int t" "int x - int t = int m" "r + t = n" "t + m = x"
        using crossing nw by (simp_all add: t_def m_def)
      have pre: "0 + t \<le> length ptr" "r + t \<le> length p" "0 + m \<le> length p"
        using tm nw lr by (simp_all flip: x_def)
      obtain q1 where q1: "memcpy ptr (int 0) p (int r) (int t) = Inr q1" "length q1 = length ptr"
        "\<forall>j<length ptr. q1 ! j = (if 0 \<le> j \<and> j < 0 + t then p ! (r + (j - 0)) else ptr ! j)"
        by (rule memcpy_ok[OF pre(1,2)])
      have pre2: "t + m \<le> length q1" using tm lr q1(2) by (simp flip: x_def)
      obtain q where q: "memcpy q1 (int t) p (int 0) (int m) = Inr q" "length q = length q1"
        "\<forall>j<length q1. q ! j = (if t \<le> j \<and> j < t + m then p ! (0 + (j - t)) else q1 ! j)"
        by (rule memcpy_ok[OF pre2 pre(3)])
      have "p ! ((r + j) mod n) = (if t \<le> j then p ! (j - t) else p ! (r + j))" if "j < x" for j
        using nat_mod_once[of "r + j" n] that lr nw by (auto simp: t_def x_def add.commute)
      then have nths: "\<forall>j<length ptr. q ! j = (if j < x then p ! ((r + j) mod n) else ptr ! j)"
        using q q1 tm by auto
      have im: "int r + int x - int n = int m" "\<not> x < t" using tm by simp_all
      have "uint (to_idx (int m)) = int m" using tm lr nw by (intro to_idx_uint) (simp_all add: x_def)
      then show ?thesis
        using False crossing q(1,2) q1(1,2) lx nths
        by (intro adv[of q "rb\<lparr>read_mirror := \<not> read_mirror rb, read_index := to_idx (int m)\<rparr>"])
          (simp_all add: rt_ringbuffer_get_def Let_def n r advanced_def tm(1,2) im flip: us_def l_def p_def x_def)
    qed
  qed
qed

section \<open>Single bytes\<close>

lemma putchar_index:
  assumes "rb_ok rb"
  shows "(if rb_wr rb = rb_size rb - 1 then 0 else uint (write_index rb + 1)) =
    rb_wr rb + 1 - (if rb_size rb \<le> rb_wr rb + 1 then rb_size rb else 0)"
    "(if rb_rd rb = rb_size rb - 1 then 0 else uint (read_index rb + 1)) =
    rb_rd rb + 1 - (if rb_size rb \<le> rb_rd rb + 1 then rb_size rb else 0)"
  using assms rb_bounds(3)[of rb]
  by (auto simp: rb_ok_def rb_wr_def rb_rd_def uint_plus_if')

lemma index_in_pool:
  assumes "rb_ok rb"
  shows "unat (write_index rb) = nat (rb_wr rb)" "unat (read_index rb) = nat (rb_rd rb)"
    "nat (rb_wr rb) < length (buffer_ptr rb)" "nat (rb_rd rb) < length (buffer_ptr rb)"
proof -
  show w: "unat (write_index rb) = nat (rb_wr rb)" "unat (read_index rb) = nat (rb_rd rb)"
    by (simp_all add: rb_wr_def rb_rd_def)
  show "nat (rb_wr rb) < length (buffer_ptr rb)" "nat (rb_rd rb) < length (buffer_ptr rb)"
    using assms rb_bounds[of rb] by (auto simp: rb_ok_def)
qed

text \<open>The two ways a byte is stored.\<close>

lemma copied_char:
  assumes "rb_ok rb"
    "rb' = (if rb_wr rb = rb_size rb - 1
      then rb\<lparr>buffer_ptr := (buffer_ptr rb)[nat (rb_wr rb) := ch], write_mirror := \<not> write_mirror rb, write_index := 0\<rparr>
      else rb\<lparr>buffer_ptr := (buffer_ptr rb)[nat (rb_wr rb) := ch], write_index := write_index rb + 1\<rparr>)"
  shows "copied rb [ch] 0 1 (rb_size rb \<le> rb_wr rb + 1) rb'"
proof -
  have m: "nat (rb_wr rb) mod nat (rb_size rb) = nat (rb_wr rb)"
    using assms(1) rb_bounds(2)[of rb] by (simp add: rb_ok_def)
  have c: "rb_wr rb = rb_size rb - 1 \<longleftrightarrow> rb_size rb \<le> rb_wr rb + 1" using assms(1) by (auto simp: rb_ok_def)
  show ?thesis
    using putchar_index(1)[OF assms(1)] index_in_pool(3)[OF assms(1)]
    by (auto simp: copied_def assms(2) m c)
qed

lemma rt_ringbuffer_putchar_ok:
  assumes ok: "rb_ok rb"
  shows "\<exists>n rb'. rt_ringbuffer_putchar rb ch = Inr (n, rb') \<and> rb_ok rb' \<and> rb_size rb' = rb_size rb
    \<and> (if length (rb_data rb) < nat (rb_size rb) then n = 1 \<and> rb_data rb' = rb_data rb @ [ch]
       else n = 0 \<and> rb' = rb)"
proof -
  have z: "rt_ringbuffer_space_len rb = 0 \<longleftrightarrow> rb_used rb = rb_size rb"
    using space_len_uint[OF ok] by (auto simp: word_uint_eq_iff)
  have u: "0 \<le> rb_used rb" "rb_used rb \<le> rb_size rb" using rb_used_bounds[OF ok] by auto
  have f: "length (rb_data rb) < nat (rb_size rb) \<longleftrightarrow> rb_used rb \<noteq> rb_size rb"
    using u by (auto simp: rb_data_length)
  show ?thesis
  proof (cases "rb_used rb = rb_size rb")
    case True
    then show ?thesis using ok z f by (simp add: rt_ringbuffer_putchar_def)
  next
    case False
    obtain rb' where r: "rt_ringbuffer_putchar rb ch = Inr (1, rb')" "copied rb [ch] 0 1 (rb_size rb \<le> rb_wr rb + 1) rb'"
      using copied_char[OF ok refl] False z index_in_pool[OF ok] by (simp add: rt_ringbuffer_putchar_def)
    then show ?thesis using copied_append[OF ok r(2)] u False f by auto
  qed
qed

lemma rt_ringbuffer_getchar_ok:
  assumes ok: "rb_ok rb"
  shows "\<exists>n c rb'. rt_ringbuffer_getchar rb ch = Inr (n, c, rb') \<and> rb_ok rb' \<and> rb_size rb' = rb_size rb
    \<and> (case rb_data rb of [] \<Rightarrow> n = 0 \<and> c = ch \<and> rb' = rb
       | b # bs \<Rightarrow> n = 1 \<and> c = b \<and> rb_data rb' = bs)"
proof -
  have z: "rt_ringbuffer_data_len rb = 0 \<longleftrightarrow> rb_data rb = []"
    using data_len_uint[OF ok] rb_used_bounds[OF ok] rb_data_length[of rb] by (auto simp: word_uint_eq_iff)
  show ?thesis
  proof (cases "rb_data rb")
    case Nil
    then show ?thesis using ok z by (simp add: rt_ringbuffer_getchar_def)
  next
    case (Cons b bs)
    define rb' where "rb' = (if rb_rd rb = rb_size rb - 1
                   then rb\<lparr>read_mirror := \<not> read_mirror rb, read_index := 0\<rparr>
                   else rb\<lparr>read_index := read_index rb + 1\<rparr>)"
    have c: "rb_rd rb = rb_size rb - 1 \<longleftrightarrow> rb_size rb \<le> rb_rd rb + 1" using ok by (auto simp: rb_ok_def)
    have a: "advanced rb 1 rb'" using putchar_index(2)[OF ok] by (auto simp: advanced_def rb'_def c)
    have "nat (rb_rd rb) mod nat (rb_size rb) = nat (rb_rd rb)"
      using ok rb_bounds(1)[of rb] by (simp add: rb_ok_def)
    then have "buffer_ptr rb ! nat (rb_rd rb) = b" using rb_data_nth[of 0 rb] Cons by simp
    then have "rt_ringbuffer_getchar rb ch = Inr (1, b, rb')"
      using z Cons index_in_pool[OF ok] by (simp add: rt_ringbuffer_getchar_def rb'_def)
    moreover have "int 1 \<le> rb_used rb" using rb_data_length[of rb] Cons by simp
    ultimately show ?thesis using advanced_drop[OF ok a] Cons by simp
  qed
qed

text \<open>Room is made by moving the read index to where the write index ends up; the mirrors must
  differ for that.\<close>

definition read_at :: "rt_ringbuffer \<Rightarrow> bool \<Rightarrow> 15 word \<Rightarrow> rt_ringbuffer" where
  "read_at rb crossed i = rb\<lparr>read_mirror := (read_mirror rb \<noteq> crossed), read_index := i\<rparr>"

lemma copied_over:
  assumes ok: "rb_ok rb" and c: "copied rb ptr s l crossed rb1" and l: "int l \<le> rb_size rb"
    and full: "rb_size rb \<le> rb_used rb + int l" and m: "read_mirror rb \<noteq> write_mirror rb"
    and s: "s + l \<le> length ptr"
  shows "rb_ok (read_at rb1 crossed (write_index rb1))
    \<and> rb_data (read_at rb1 crossed (write_index rb1))
        = drop (length (rb_data rb) + l - nat (rb_size rb)) (rb_data rb) @ take l (drop s ptr)
    \<and> rb_size (read_at rb1 crossed (write_index rb1)) = rb_size rb"
proof -
  define x where "x = length (rb_data rb) + l - nat (rb_size rb)"
  define rb0 where "rb0 = read_at rb crossed (write_index rb1)"
  have u: "0 \<le> rb_used rb" "rb_used rb \<le> rb_size rb" using rb_used_bounds[OF ok] by auto
  have x: "int x = rb_used rb + int l - rb_size rb" using u full by (simp add: x_def rb_data_length)
  have rx: "rb_rd rb + int x = rb_wr rb + int l" using x m by (simp add: rb_used_def)
  have wr1: "uint (write_index rb1) = rb_wr rb + int l - (if crossed then rb_size rb else 0)"
    "crossed = (rb_size rb \<le> rb_wr rb + int l)" using c by (simp_all add: copied_def rb_wr_def)
  have a: "advanced rb x rb0" using wr1 by (simp add: advanced_def rb0_def read_at_def rx)
  have xl: "int x \<le> rb_used rb" using x l by simp
  note d = advanced_drop[OF ok a xl]
  have "copied rb0 ptr s l crossed (read_at rb1 crossed (write_index rb1))"
    using c by (simp add: copied_def rb0_def read_at_def)
  moreover have "rb_used rb0 + int l \<le> rb_size rb0" using d x by simp
  ultimately show ?thesis using copied_append[of rb0 ptr s l crossed] d s by (simp add: x_def)
qed

lemma rt_ringbuffer_putchar_force_ok:
  assumes ok: "rb_ok rb"
  shows "\<exists>rb'. rt_ringbuffer_putchar_force rb ch = Inr (1, rb') \<and> rb_ok rb' \<and> rb_size rb' = rb_size rb
    \<and> rb_data rb' = (if length (rb_data rb) < nat (rb_size rb) then rb_data rb else tl (rb_data rb)) @ [ch]"
proof -
  define rb1 where "rb1 = (if rb_wr rb = rb_size rb - 1
      then rb\<lparr>buffer_ptr := (buffer_ptr rb)[nat (rb_wr rb) := ch], write_mirror := \<not> write_mirror rb, write_index := 0\<rparr>
      else rb\<lparr>buffer_ptr := (buffer_ptr rb)[nat (rb_wr rb) := ch], write_index := write_index rb + 1\<rparr>)"
  define crossed where "crossed = (rb_size rb \<le> rb_wr rb + 1)"
  have c: "copied rb [ch] 0 1 crossed rb1" using copied_char[OF ok rb1_def] by (simp add: crossed_def)
  have cr: "crossed \<longleftrightarrow> rb_wr rb = rb_size rb - 1" using ok by (auto simp: rb_ok_def crossed_def)
  have u: "0 \<le> rb_used rb" "rb_used rb \<le> rb_size rb" "0 < rb_size rb"
    using rb_used_bounds[OF ok] ok by (auto simp: rb_ok_def)
  have full: "rt_ringbuffer_status rb = RT_RINGBUFFER_FULL \<longleftrightarrow> rb_used rb = rb_size rb"
    using ok rb_bounds[of rb] by (auto simp: rt_ringbuffer_status_def rb_index_eq rb_used_def rb_ok_def split: if_splits)
  have eq: "rt_ringbuffer_putchar_force rb ch
      = Inr (1, if rb_used rb = rb_size rb then read_at rb1 crossed (write_index rb1) else rb1)"
    using index_in_pool[OF ok]
    by (auto simp: rt_ringbuffer_putchar_force_def Let_def full rb1_def cr read_at_def)
  show ?thesis
  proof (cases "rb_used rb = rb_size rb")
    case True
    then have m: "read_mirror rb \<noteq> write_mirror rb"
      using ok rb_bounds[of rb] by (cases "read_mirror rb = write_mirror rb") (simp_all add: rb_used_def rb_ok_def)
    have "length (rb_data rb) + 1 - nat (rb_size rb) = Suc 0" using True u by (simp add: rb_data_length)
    then show ?thesis using copied_over[OF ok c _ _ m] True u eq by (simp add: rb_data_length drop_Suc)
  next
    case False
    then show ?thesis using copied_append[OF ok c] u eq by (simp add: rb_data_length)
  qed
qed

lemma rt_ringbuffer_put_force_ok:
  assumes ok: "rb_ok rb" and len: "unat len \<le> length ptr"
  defines "new \<equiv> rb_data rb @ take (unat len) ptr"
  shows "\<exists>rb'. rt_ringbuffer_put_force rb ptr len = Inr (of_nat (min (unat len) (nat (rb_size rb))), rb')
    \<and> rb_ok rb' \<and> rb_size rb' = rb_size rb
    \<and> rb_data rb' =
        (if length new \<le> nat (rb_size rb) then new
         else if rb_data rb \<noteq> [] \<and> read_mirror rb = write_mirror rb then []
         else drop (length new - nat (rb_size rb)) new)"
proof -
  define sp where "sp = (ucast (rt_ringbuffer_space_len rb) :: u16)"
  define k where "k = length (rb_data rb)"
  obtain n where n: "rb_size rb = int n" using ok zero_le_imp_eq_int[of "rb_size rb"] by (auto simp: rb_ok_def)
  have n16: "n < 32768" "0 < n" using rb_bounds(3)[of rb] ok n by (simp_all add: rb_ok_def)
  have k: "rb_used rb = int k" "k \<le> n"
    using rb_used_bounds[OF ok] n by (auto simp: k_def rb_data_length nat_le_iff)
  have "int (unat sp) = int n - int k" using space_u16[OF ok] n k by (simp add: sp_def flip: uint_nat)
  then have sp: "unat sp = n - k" by linarith
  define s where "s = unat len - n"
  define l where "l = (if uint len > int n then to_u16 (int n) else len)"
  have ui: "uint len = int (unat len)" by (simp only: uint_nat)
  then have cond: "uint len > int n \<longleftrightarrow> n < unat len" by linarith
  have tn: "unat (to_u16 (int n)) = n"
    using n16 by (simp add: to_u16_def unat_of_nat take_bit_nat_eq_self)
  have ul: "unat l = min (unat len) n"
    using tn by (simp add: l_def cond)
  have il: "uint l \<le> rb_size rb" "s + unat l \<le> length ptr"
    using ul len n by (simp_all only: s_def uint_nat; simp)+
  obtain crossed rb1 where c: "rb_copy_in rb ptr (int s) l = Inr (crossed, rb1)" "copied rb ptr s (unat l) crossed rb1"
    using rb_copy_in_ok[OF ok il] by blast
  define rb' where "rb' = (if l > sp then read_at rb1 crossed (write_index rb1) else rb1)"
  have eq: "rt_ringbuffer_put_force rb ptr len = Inr (of_nat (min (unat len) n), rb')"
  proof -
    have "n < unat len \<Longrightarrow> uint len - int n = int s" "\<not> n < unat len \<Longrightarrow> int s = 0"
      unfolding s_def ui by simp_all
    then have "(if uint len > rb_size rb then uint len - rb_size rb else 0) = int s"
      unfolding n cond by presburger
    moreover have "(ucast l :: u32) = of_nat (min (unat len) n)" by (simp only: of_nat_unat flip: ul)
    ultimately show ?thesis
      using c(1) unfolding rt_ringbuffer_put_force_def Let_def sp_def[symmetric] n l_def[symmetric] rb'_def read_at_def
      by (auto)
  qed
  have cut: "drop (length new - n) new = drop (k + unat l - n) (rb_data rb) @ take (unat l) (drop s ptr)"
    using len ul k by (auto simp: new_def k_def s_def drop_take min_def)
  have over: "l > sp \<longleftrightarrow> n < k + unat l"
    using sp k by (auto simp: word_less_nat_alt)
  have ln: "length new = k + unat len" using len by (simp add: new_def k_def)
  have ne: "rb_data rb \<noteq> [] \<longleftrightarrow> 0 < k" by (simp add: k_def)
  consider (fits) "k + unat l \<le> n" | (lost) "n < k + unat l" "read_mirror rb = write_mirror rb"
    | (over) "n < k + unat l" "read_mirror rb \<noteq> write_mirror rb" by linarith
  then have "rb_ok rb' \<and> rb_size rb' = rb_size rb \<and> rb_data rb' =
        (if length new \<le> nat (rb_size rb) then new
         else if rb_data rb \<noteq> [] \<and> read_mirror rb = write_mirror rb then []
         else drop (length new - nat (rb_size rb)) new)"
  proof cases
    case fits
    then have pre: "rb_used rb + int (unat l) \<le> rb_size rb" unfolding n k(1) by linarith
    have r: "rb' = rb1" "rb_data rb1 = rb_data rb @ take (unat l) (drop s ptr)" "rb_ok rb1" "rb_size rb1 = rb_size rb"
      using over fits copied_append[OF ok c(2) pre il(2)] by (simp_all add: rb'_def)
    show ?thesis
    proof (cases "unat len \<le> n")
      case True
      then have "s = 0" "unat l = unat len" using ul by (simp_all add: s_def)
      then show ?thesis using r fits ln n by (simp add: new_def)
    next
      case False
      then have "unat l = n" "k = 0" using ul fits by simp_all
      then show ?thesis using r False ln n cut ne by simp
    qed
  next
    case lost
    have rd: "0 \<le> rb_rd rb" "0 \<le> rb_wr rb" "rb_wr rb < int n" "n \<le> length (buffer_ptr rb)"
      using rb_bounds ok n by (auto simp: rb_ok_def)
    have "rb_wr rb = rb_rd rb + int k" using k(1) lost(2) by (simp add: rb_used_def)
    then have "crossed" using c(2) ul lost(1) n rd(1) by (auto simp: copied_def)
    then have f: "rb' = read_at rb1 True (write_index rb1)" "rb_wr rb1 = rb_wr rb + int (unat l) - int n"
      "read_mirror rb1 = read_mirror rb" "write_mirror rb1 = (\<not> write_mirror rb)"
      "length (buffer_ptr rb1) = length (buffer_ptr rb)" "buffer_size rb1 = buffer_size rb"
      using c(2) lost(1) over n by (simp_all add: rb'_def copied_def)
    have "unat l \<le> n" using ul by simp
    then have "rb_wr rb1 < int n" using f(2) rd(3) by linarith
    moreover have "rb_size rb1 = int n" using f(6) n by (simp add: rb_size_def)
    ultimately have "rb_ok rb' \<and> rb_size rb' = int n \<and> rb_used rb' = 0"
      using f rd n16 lost(2) by (simp add: rb_ok_def rb_used_def read_at_def rb_wr_def)
    moreover have "0 < k" "n < k + unat len" using lost(1) ul by auto
    ultimately show ?thesis using ln lost(2) n ne by (simp add: rb_data_def)
  next
    case gt: over
    have pre: "int (unat l) \<le> rb_size rb" "rb_size rb \<le> rb_used rb + int (unat l)"
      using ul gt(1) unfolding n k(1) by linarith+
    have "n < length new" "length new - n + n = length new" using gt(1) ul ln by simp_all
    moreover have "rb' = read_at rb1 crossed (write_index rb1)" using over gt(1) by (simp add: rb'_def)
    ultimately show ?thesis
      using copied_over[OF ok c(2) pre gt(2) il(2)] gt(2) n cut by (simp add: k_def)
  qed
  then show ?thesis using eq n by simp
qed

end
