(* ===== verification/Ringbuffer_Props.thy ===== *)
theory Ringbuffer_Props
  imports Ringbuffer_Facts
begin

text \<open>
  The contract of a byte queue, its interpretation on the ring buffer, and the properties of the
  ring buffer.
\<close>

section \<open>The contract of a byte queue\<close>

datatype 'a qop = QPut "'a list" | QGet nat

text \<open>A run of operations: the bytes the queue accepted, the bytes it handed out, its state.\<close>

fun run_queue :: "('s \<Rightarrow> 'a list \<Rightarrow> (nat \<times> 's) res) \<Rightarrow> ('s \<Rightarrow> nat \<Rightarrow> ('a list \<times> 's) res)
    \<Rightarrow> 'a qop list \<Rightarrow> 's \<Rightarrow> ('a list \<times> 'a list \<times> 's) res" where
  "run_queue put get [] s = Inr ([], [], s)"
| "run_queue put get (QPut bs # ops) s =
     bindE (put s bs) (\<lambda>(n, s1).
     bindE (run_queue put get ops s1) (\<lambda>(a, g, s2). Inr (take n bs @ a, g, s2)))"
| "run_queue put get (QGet n # ops) s =
     bindE (get s n) (\<lambda>(bs, s1).
     bindE (run_queue put get ops s1) (\<lambda>(a, g, s2). Inr (a, bs @ g, s2)))"

definition qop_small :: "nat \<Rightarrow> 'a qop \<Rightarrow> bool" where
  "qop_small lim q = (case q of QPut bs \<Rightarrow> length bs < lim | QGet n \<Rightarrow> n < lim)"

locale byte_queue =
  fixes put :: "'s \<Rightarrow> 'a list \<Rightarrow> (nat \<times> 's) res" and get :: "'s \<Rightarrow> nat \<Rightarrow> ('a list \<times> 's) res"
    and ok :: "'s \<Rightarrow> bool" and queued :: "'s \<Rightarrow> 'a list" and cap :: "'s \<Rightarrow> nat" and lim :: nat
  assumes put: "ok s \<Longrightarrow> length bs < lim \<Longrightarrow>
      \<exists>s'. put s bs = Inr (min (length bs) (cap s - length (queued s)), s') \<and> ok s' \<and> cap s' = cap s
         \<and> queued s' = queued s @ take (cap s - length (queued s)) bs"
    and get: "ok s \<Longrightarrow> n < lim \<Longrightarrow>
      \<exists>s'. get s n = Inr (take n (queued s), s') \<and> ok s' \<and> cap s' = cap s \<and> queued s' = drop n (queued s)"
    and cap: "ok s \<Longrightarrow> length (queued s) \<le> cap s"
begin

lemma fifo:
  "ok s \<Longrightarrow> list_all (qop_small lim) ops \<Longrightarrow>
   \<exists>a g s'. run_queue put get ops s = Inr (a, g, s') \<and> ok s' \<and> cap s' = cap s
     \<and> queued s @ a = g @ queued s' \<and> length (queued s') \<le> cap s"
proof (induction ops arbitrary: s)
  case Nil
  then show ?case using cap by simp
next
  case (Cons q ops)
  show ?case
  proof (cases q)
    case (QPut bs)
    then obtain s1 where s1: "put s bs = Inr (min (length bs) (cap s - length (queued s)), s1)" "ok s1"
      "cap s1 = cap s" "queued s1 = queued s @ take (cap s - length (queued s)) bs"
      using put[of s bs] Cons.prems by (auto simp: qop_small_def)
    then obtain a g s2 where "run_queue put get ops s1 = Inr (a, g, s2)" "ok s2" "cap s2 = cap s"
      "queued s1 @ a = g @ queued s2" "length (queued s2) \<le> cap s"
      using Cons.IH[of s1] Cons.prems by auto
    then show ?thesis using s1 QPut by (auto simp: min_def split: if_splits)
  next
    case (QGet n)
    then obtain s1 where s1: "get s n = Inr (take n (queued s), s1)" "ok s1" "cap s1 = cap s"
      "queued s1 = drop n (queued s)"
      using get[of s n] Cons.prems by (auto simp: qop_small_def)
    then obtain a g s2 where "run_queue put get ops s1 = Inr (a, g, s2)" "ok s2" "cap s2 = cap s"
      "queued s1 @ a = g @ queued s2" "length (queued s2) \<le> cap s"
      using Cons.IH[of s1] Cons.prems by auto
    moreover have "queued s @ a = take n (queued s) @ (drop n (queued s) @ a)"
      by (simp flip: append_assoc)
    ultimately show ?thesis using s1 QGet by simp
  qed
qed

end

section \<open>The ring buffer is a byte queue\<close>

text \<open>The client's view: put all bytes of a list; get up to \<open>n\<close> bytes into a buffer for them.\<close>

definition rb_put :: "rt_ringbuffer \<Rightarrow> u8 list \<Rightarrow> (nat \<times> rt_ringbuffer) res" where
  "rb_put rb bs = bindE (rt_ringbuffer_put rb bs (of_nat (length bs))) (\<lambda>(n, rb'). Inr (unat n, rb'))"

definition rb_get :: "rt_ringbuffer \<Rightarrow> nat \<Rightarrow> (u8 list \<times> rt_ringbuffer) res" where
  "rb_get rb n = bindE (rt_ringbuffer_get rb (replicate n 0) (of_nat n))
     (\<lambda>(k, buf, rb'). Inr (take (unat k) buf, rb'))"

lemma rb_cap: "rb_ok rb \<Longrightarrow> length (rb_data rb) \<le> nat (rb_size rb) \<and> nat (rb_size rb) < 32768"
  using rb_used_bounds[of rb] rb_bounds(3)[of rb] by (simp add: rb_data_length nat_mono)

lemma unat_of_nat16: "n < 65536 \<Longrightarrow> unat (of_nat n :: u16) = n"
  by (simp add: unat_of_nat take_bit_nat_eq_self)

lemma unat_of_nat32: "n < 65536 \<Longrightarrow> unat (of_nat n :: u32) = n"
  by (simp add: unat_of_nat take_bit_nat_eq_self)

interpretation rbq: byte_queue rb_put rb_get rb_ok rb_data "\<lambda>rb. nat (rb_size rb)" 65536
proof
  fix rb and bs :: "u8 list" assume a: "rb_ok rb" "length bs < 65536"
  then obtain rb' where "rt_ringbuffer_put rb bs (of_nat (length bs))
      = Inr (of_nat (min (length bs) (nat (rb_size rb) - length (rb_data rb))), rb')" "rb_ok rb'"
    "rb_size rb' = rb_size rb"
    "rb_data rb' = rb_data rb @ take (min (length bs) (nat (rb_size rb) - length (rb_data rb))) bs"
    using rt_ringbuffer_put_ok[of rb "of_nat (length bs)" bs] by (auto simp: unat_of_nat16)
  then show "\<exists>rb'. rb_put rb bs = Inr (min (length bs) (nat (rb_size rb) - length (rb_data rb)), rb') \<and> rb_ok rb'
      \<and> nat (rb_size rb') = nat (rb_size rb)
      \<and> rb_data rb' = rb_data rb @ take (nat (rb_size rb) - length (rb_data rb)) bs"
    using a by (simp add: rb_put_def unat_of_nat32 min_def)
next
  fix rb and n :: nat assume a: "rb_ok rb" "n < 65536"
  then obtain rb' where "rt_ringbuffer_get rb (replicate n 0) (of_nat n)
      = Inr (of_nat (min n (length (rb_data rb))),
          take (min n (length (rb_data rb))) (rb_data rb) @ drop (min n (length (rb_data rb))) (replicate n 0), rb')"
    "rb_ok rb'" "rb_size rb' = rb_size rb" "rb_data rb' = drop (min n (length (rb_data rb))) (rb_data rb)"
    using rt_ringbuffer_get_ok[of rb "of_nat n" "replicate n 0"] by (auto simp: unat_of_nat16)
  then show "\<exists>rb'. rb_get rb n = Inr (take n (rb_data rb), rb') \<and> rb_ok rb'
      \<and> nat (rb_size rb') = nat (rb_size rb) \<and> rb_data rb' = drop n (rb_data rb)"
    using a by (simp add: rb_get_def unat_of_nat32 min_def)
next
  fix rb assume "rb_ok rb"
  then show "length (rb_data rb) \<le> nat (rb_size rb)" using rb_cap by simp
qed

section \<open>Properties\<close>

text \<open>C13: in any sequence of puts and gets the ring buffer is a queue: what was in it and what it
  accepted come out in order, nothing is lost or duplicated, no access leaves the pool, and it never
  holds more than its size.\<close>

theorem ringbuffer_fifo:
  assumes "rb_ok rb" "list_all (qop_small 65536) ops"
  shows "\<exists>a g rb'. run_queue rb_put rb_get ops rb = Inr (a, g, rb') \<and> rb_ok rb'
     \<and> rb_data rb @ a = g @ rb_data rb' \<and> length (rb_data rb') \<le> nat (rb_size rb)"
  using rbq.fifo[OF assms] by blast

definition rb_demo :: rt_ringbuffer where
  "rb_demo = \<lparr>buffer_ptr = replicate 4 0, read_mirror = False, read_index = 3, write_mirror = False,
     write_index = 3, buffer_size = 4\<rparr>"

lemma rb_demo_ok: "rb_ok rb_demo" "rb_data rb_demo = []" "rb_size rb_demo = 4"
  by (simp_all add: rb_ok_def rb_demo_def rb_size_def rb_rd_def rb_wr_def rb_data_def rb_used_def)

lemma ringbuffer_fifo_witness:
  "\<exists>a g rb'. run_queue rb_put rb_get [QPut [1, 2, 3], QGet 2, QPut [4, 5, 6, 7]] rb_demo = Inr (a, g, rb')
     \<and> a = g @ rb_data rb'"
  using ringbuffer_fifo[OF rb_demo_ok(1), of "[QPut [1, 2, 3], QGet 2, QPut [4, 5, 6, 7]]"]
  by (auto simp: qop_small_def rb_demo_ok)

text \<open>\<open>rt_ringbuffer_put_force\<close> keeps the last bytes that fit, unless some are queued, the new ones
  do not fit and the mirrors are equal: it flips both mirrors, and the buffer it reports to have filled is
  empty.\<close>

theorem put_force_spec:
  assumes "rb_ok rb" "unat len \<le> length ptr"
  shows "\<exists>rb'. rt_ringbuffer_put_force rb ptr len = Inr (of_nat (min (unat len) (nat (rb_size rb))), rb')
    \<and> rb_ok rb' \<and> rb_data rb' =
        (let new = rb_data rb @ take (unat len) ptr; n = nat (rb_size rb) in
         if length new \<le> n then new
         else if rb_data rb \<noteq> [] \<and> read_mirror rb = write_mirror rb then []
         else drop (length new - n) new)"
  using rt_ringbuffer_put_force_ok[OF assms] by (auto simp: Let_def)

text \<open>Two bytes, then three more into a buffer of four: all five are gone.\<close>

definition rb_two :: rt_ringbuffer where
  "rb_two = \<lparr>buffer_ptr = [1, 2, 0, 0], read_mirror = False, read_index = 0, write_mirror = False,
     write_index = 2, buffer_size = 4\<rparr>"

lemma rb_two_ok: "rb_ok rb_two" "rb_data rb_two = [1, 2]" "rb_size rb_two = 4"
  by (simp_all add: rb_ok_def rb_two_def rb_size_def rb_rd_def rb_wr_def rb_data_def rb_used_def ring_def
      upt_rec)

lemma put_force_spec_witness:
  "\<exists>rb'. rt_ringbuffer_put_force rb_two [3, 4, 5] 3 = Inr (3, rb') \<and> rb_data rb' = []"
  using put_force_spec[OF rb_two_ok(1), of 3 "[3, 4, 5]"]
  by (simp add: rb_two_ok) (auto simp: rb_two_def)

fun putchars_force :: "u8 list \<Rightarrow> rt_ringbuffer \<Rightarrow> rt_ringbuffer res" where
  "putchars_force [] rb = Inr rb"
| "putchars_force (c # cs) rb = bindE (rt_ringbuffer_putchar_force rb c) (\<lambda>(_, rb1). putchars_force cs rb1)"

definition last_part :: "nat \<Rightarrow> 'a list \<Rightarrow> 'a list" where
  "last_part n xs = drop (length xs - n) xs"

lemma putchars_force_aux:
  "rb_ok rb \<Longrightarrow> \<exists>rb'. putchars_force cs rb = Inr rb' \<and> rb_ok rb'
     \<and> rb_data rb' = last_part (nat (rb_size rb)) (rb_data rb @ cs)"
proof (induction cs arbitrary: rb)
  case Nil
  then show ?case using rb_cap by (simp add: last_part_def)
next
  case (Cons c cs)
  obtain rb1 where r: "rt_ringbuffer_putchar_force rb c = Inr (1, rb1)" "rb_ok rb1" "rb_size rb1 = rb_size rb"
    "rb_data rb1 = (if length (rb_data rb) < nat (rb_size rb) then rb_data rb else tl (rb_data rb)) @ [c]"
    using rt_ringbuffer_putchar_force_ok[OF Cons.prems] by blast
  have n: "length (rb_data rb) \<le> nat (rb_size rb)" "0 < nat (rb_size rb)"
    using rb_cap[OF Cons.prems] Cons.prems by (simp_all add: rb_ok_def)
  have "last_part (nat (rb_size rb)) (rb_data rb1 @ cs) = last_part (nat (rb_size rb)) (rb_data rb @ c # cs)"
  proof (cases "length (rb_data rb) < nat (rb_size rb)")
    case False
    then have f: "length (rb_data rb) = nat (rb_size rb)" using n by simp
    then obtain x xs where x: "rb_data rb = x # xs" using n by (cases "rb_data rb") auto
    with f have "nat (rb_size rb) = Suc (length xs)" by simp
    then show ?thesis using r(4) x by (simp add: last_part_def)
  qed (use r(4) in \<open>simp add: last_part_def\<close>)
  then show ?case using Cons.IH[OF r(2)] r by simp
qed

text \<open>Storing any bytes one by one with \<open>rt_ringbuffer_putchar_force\<close> leaves the last ones, as many as
  the buffer holds, and never faults.\<close>

theorem putchar_force_last:
  assumes "rb_ok rb"
  shows "\<exists>rb'. putchars_force cs rb = Inr rb' \<and> rb_data rb' = last_part (nat (rb_size rb)) (rb_data rb @ cs)"
  using putchars_force_aux[OF assms] by blast

lemma putchar_force_last_witness:
  "\<exists>rb'. putchars_force [1, 2, 3, 4, 5, 6] rb_demo = Inr rb' \<and> rb_data rb' = [3, 4, 5, 6]"
  using putchar_force_last[OF rb_demo_ok(1), of "[1, 2, 3, 4, 5, 6]"] by (simp add: rb_demo_ok last_part_def)

lemma and_split: "(x AND m) + (x AND NOT m) = (x :: int)"
proof -
  have "(x AND m) AND (x AND NOT m) = 0" "(x AND m) OR (x AND NOT m) = x"
    by (rule bit_eqI; auto simp: bit_simps)+
  then show ?thesis using plus_and_or[of "x AND m" "x AND NOT m"] by simp
qed

lemma align_down:
  fixes sz :: u16
  shows "sint (sz AND NOT 3) = sint sz - sint sz mod 4"
proof -
  have "sint (sz AND NOT 3) = sint sz AND NOT 3" by (simp add: signed_and_eq signed_not_eq)
  also have "\<dots> = sint sz - (sint sz AND 3)" using and_split[of "sint sz" 3] by simp
  also have "sint sz AND 3 = sint sz mod 4"
    using take_bit_eq_mask[of 2 "sint sz"] by (simp add: take_bit_eq_mod mask_eq_exp_minus_1)
  finally show ?thesis .
qed

text \<open>\<open>rt_ringbuffer_init\<close> makes an empty buffer of the size rounded down to a multiple of four; it
  accepts sizes below four, which it rounds to a buffer that never takes a byte.\<close>

theorem ringbuffer_init_spec:
  assumes "sint sz \<le> int (length pool)"
  shows "case rt_ringbuffer_init pool sz of
      Inl e \<Rightarrow> e = Assert_Failed \<and> sint sz \<le> 0
    | Inr rb \<Rightarrow> 0 < sint sz \<and> rb_size rb = sint sz - sint sz mod 4 \<and> rb_data rb = []
        \<and> (if 4 \<le> sint sz then rb_ok rb else rt_ringbuffer_putchar rb ch = Inr (0, rb))"
proof (cases "0 < sint sz")
  case True
  define rb where "rb = \<lparr>buffer_ptr = pool, read_mirror = False, read_index = 0, write_mirror = False,
          write_index = 0, buffer_size = sz AND NOT 3\<rparr>"
  have i: "rt_ringbuffer_init pool sz = Inr rb" using True by (simp add: rt_ringbuffer_init_def rb_def)
  have z: "rb_size rb = sint sz - sint sz mod 4" using align_down[of sz] by (simp add: rb_def rb_size_def)
  define r where "r = sint sz mod 4"
  have m: "0 \<le> r" "r < 4" "sint sz < 4 \<Longrightarrow> r = sint sz"
    using True by (simp_all add: r_def)
  have d: "rb_data rb = []" "rb_rd rb = 0" "rb_wr rb = 0"
    by (simp_all add: rb_data_def rb_used_def rb_def rb_rd_def rb_wr_def)
  have "rb_ok rb" if "4 \<le> sint sz"
    using that m assms z d by (simp add: rb_ok_def flip: r_def) (simp add: rb_def)
  moreover have "rt_ringbuffer_putchar rb ch = Inr (0, rb)" if "sint sz < 4"
    using that m(3) z by (simp add: r_def rt_ringbuffer_putchar_def rt_ringbuffer_space_len_def
        rt_ringbuffer_data_len_def rt_ringbuffer_status_def to_u32_def) (simp add: rb_def)
  ultimately show ?thesis using True i z d by simp
next
  case False
  then show ?thesis by (simp add: rt_ringbuffer_init_def)
qed

lemma ringbuffer_init_spec_witness:
  "case rt_ringbuffer_init (replicate 6 0) 6 of Inl e \<Rightarrow> False | Inr rb \<Rightarrow> rb_size rb = 4 \<and> rb_ok rb"
  using ringbuffer_init_spec[of 6 "replicate 6 0" 0] by (simp split: sum.splits)

end
