(* ===== verification/Rt_List.thy ===== *)
theory Rt_List
  imports Prelude
begin

text \<open>
  The circular doubly linked lists of the kernel (\<open>rt_list_t\<close> of
  \<open>rt-thread/include/rtservice.h\<close>), on an explicit store of links: a list is a head node and the
  nodes that hang on it. The operations are the code's assignments in their order; \<open>dlist\<close> says
  which sequence of nodes a head holds, and a lemma per operation what becomes of it.
\<close>

section \<open>The operations\<close>

record 'n links =
  nxt :: "'n \<Rightarrow> 'n"
  prv :: "'n \<Rightarrow> 'n"

definition set_next :: "'n \<Rightarrow> 'n \<Rightarrow> 'n links \<Rightarrow> 'n links" where
  "set_next a b s = s\<lparr>nxt := (nxt s)(a := b)\<rparr>"

definition set_prev :: "'n \<Rightarrow> 'n \<Rightarrow> 'n links \<Rightarrow> 'n links" where
  "set_prev a b s = s\<lparr>prv := (prv s)(a := b)\<rparr>"

definition rt_list_init :: "'n \<Rightarrow> 'n links \<Rightarrow> 'n links" where
  "rt_list_init l s = set_next l l (set_prev l l s)"

definition rt_list_insert_after :: "'n \<Rightarrow> 'n \<Rightarrow> 'n links \<Rightarrow> 'n links" where
  "rt_list_insert_after l n s =
     (let s = set_prev (nxt s l) n s;
          s = set_next n (nxt s l) s;
          s = set_next l n s in
      set_prev n l s)"

definition rt_list_insert_before :: "'n \<Rightarrow> 'n \<Rightarrow> 'n links \<Rightarrow> 'n links" where
  "rt_list_insert_before l n s =
     (let s = set_next (prv s l) n s;
          s = set_prev n (prv s l) s;
          s = set_prev l n s in
      set_next n l s)"

definition rt_list_remove :: "'n \<Rightarrow> 'n links \<Rightarrow> 'n links" where
  "rt_list_remove n s =
     (let s = set_prev (nxt s n) (prv s n) s;
          s = set_next (prv s n) (nxt s n) s;
          s = set_prev n n s in
      set_next n n s)"

definition rt_list_isempty :: "'n \<Rightarrow> 'n links \<Rightarrow> bool" where
  "rt_list_isempty l s = (nxt s l = l)"

lemma link_simps [simp]:
  "nxt (set_next a b s) = (nxt s)(a := b)" "prv (set_next a b s) = prv s"
  "prv (set_prev a b s) = (prv s)(a := b)" "nxt (set_prev a b s) = nxt s"
  by (simp_all add: set_next_def set_prev_def)

section \<open>Which nodes a head holds\<close>

text \<open>The links lead from \<open>a\<close> over the nodes of the list to \<open>b\<close>, and back.\<close>

fun chain :: "'n links \<Rightarrow> 'n \<Rightarrow> 'n list \<Rightarrow> 'n \<Rightarrow> bool" where
  "chain s a [] b = (nxt s a = b \<and> prv s b = a)"
| "chain s a (x # xs) b = (nxt s a = x \<and> prv s x = a \<and> chain s x xs b)"

definition dlist :: "'n links \<Rightarrow> 'n \<Rightarrow> 'n list \<Rightarrow> bool" where
  "dlist s h xs \<longleftrightarrow> chain s h xs h \<and> distinct (h # xs)"

definition lone :: "'n links \<Rightarrow> 'n \<Rightarrow> bool" where
  "lone s n \<longleftrightarrow> nxt s n = n \<and> prv s n = n"

lemma chain_app: "chain s a (xs @ y # ys) b \<longleftrightarrow> chain s a xs y \<and> chain s y ys b"
  by (induction xs arbitrary: a) simp_all

lemma chain_cong:
  assumes "\<And>n. n \<in> set (a # xs) \<Longrightarrow> nxt s n = nxt t n" "\<And>n. n \<in> set (xs @ [b]) \<Longrightarrow> prv s n = prv t n"
  shows "chain s a xs b = chain t a xs b"
  using assms by (induction xs arbitrary: a) auto

lemma chain_ends: "chain s a xs b \<Longrightarrow> nxt s a = hd (xs @ [b]) \<and> prv s b = last (a # xs)"
  by (induction xs arbitrary: a) auto

lemma chain_snoc: "chain s a (xs @ [y]) b \<longleftrightarrow> chain s a xs y \<and> nxt s y = b \<and> prv s b = y"
  by (simp add: chain_app)

lemma dlist_empty: "dlist s h xs \<Longrightarrow> rt_list_isempty h s \<longleftrightarrow> xs = []"
  by (cases xs) (simp_all add: dlist_def rt_list_isempty_def, metis)

lemma dlist_first: "dlist s h (x # xs) \<Longrightarrow> nxt s h = x"
  by (simp add: dlist_def)

lemma dlist_last: "dlist s h xs \<Longrightarrow> prv s h = last (h # xs)"
  using chain_ends[of s h xs h] by (simp add: dlist_def)

lemma dlist_nxt: "dlist s h (xs @ y # ys) \<Longrightarrow> nxt s (last (h # xs)) = y"
  by (cases xs rule: rev_cases) (auto simp: dlist_def chain_app)

lemma dlist_cong:
  assumes "\<And>n. n \<in> set (h # xs) \<Longrightarrow> nxt s n = nxt t n \<and> prv s n = prv t n"
  shows "dlist s h xs = dlist t h xs"
  using assms chain_cong[of h xs s t h] by (auto simp: dlist_def)

lemma rt_list_init_dlist: "dlist (rt_list_init h s) h []"
  by (simp add: dlist_def rt_list_init_def)

lemma rt_list_init_other: "n \<noteq> h \<Longrightarrow> nxt (rt_list_init h s) n = nxt s n \<and> prv (rt_list_init h s) n = prv s n"
  by (simp add: rt_list_init_def)

section \<open>Insertion and removal\<close>

lemma insert_after_chain:
  assumes "chain s l ys b" "n \<notin> set (l # ys)" "l \<notin> set ys" "b \<notin> set ys" "n \<noteq> b" "distinct ys"
  shows "chain (rt_list_insert_after l n s) l (n # ys) b"
proof (cases ys)
  case Nil
  then show ?thesis using assms by (auto simp: rt_list_insert_after_def Let_def)
next
  case (Cons y zs)
  have "chain (rt_list_insert_after l n s) y zs b = chain s y zs b"
    using assms Cons by (intro chain_cong) (auto simp: rt_list_insert_after_def Let_def)
  then show ?thesis using assms Cons by (auto simp: rt_list_insert_after_def Let_def)
qed

lemma insert_after_dlist:
  assumes d: "dlist s h (xs @ ys)" and n: "n \<notin> set (h # xs @ ys)"
  shows "dlist (rt_list_insert_after (last (h # xs)) n s) h (xs @ n # ys)"
proof (cases xs rule: rev_cases)
  case Nil
  then show ?thesis
    using d n insert_after_chain[of s h ys h n] by (auto simp: dlist_def)
next
  case (snoc zs l)
  define t where "t = rt_list_insert_after l n s"
  have c: "chain s h zs l" "chain s l ys h" using d snoc by (simp_all add: dlist_def chain_app)
  have "nxt s l \<in> set (ys @ [h])" using chain_ends[OF c(2)] by (cases ys) auto
  then have "chain t h zs l = chain s h zs l"
    using d n snoc by (intro chain_cong) (auto simp: t_def rt_list_insert_after_def Let_def dlist_def)
  moreover have "chain t l (n # ys) h"
    unfolding t_def using d n snoc c(2) by (intro insert_after_chain) (auto simp: dlist_def)
  ultimately show ?thesis using c d n snoc by (auto simp: dlist_def chain_app t_def)
qed

lemma insert_after_other:
  assumes "m \<noteq> l" "m \<noteq> n" "m \<noteq> nxt s l"
  shows "nxt (rt_list_insert_after l n s) m = nxt s m \<and> prv (rt_list_insert_after l n s) m = prv s m"
  using assms by (simp add: rt_list_insert_after_def Let_def)

lemma remove_lone: "lone s n \<Longrightarrow> rt_list_remove n s = s"
  by (cases s) (simp add: lone_def rt_list_remove_def Let_def set_next_def set_prev_def fun_upd_idem)

lemma remove_is_lone: "lone (rt_list_remove n s) n"
  by (simp add: lone_def rt_list_remove_def Let_def)

lemma remove_dlist:
  assumes d: "dlist s h (xs @ n # ys)"
  shows "dlist (rt_list_remove n s) h (xs @ ys)"
proof -
  define t where "t = rt_list_remove n s"
  have c: "chain s h xs n" "chain s n ys h" using d by (simp_all add: dlist_def chain_app)
  have p: "prv s n = last (h # xs)" "nxt s n = hd (ys @ [h])"
    using chain_ends[OF c(1)] chain_ends[OF c(2)] by simp_all
  show ?thesis
  proof (cases xs rule: rev_cases)
    case Nil
    show ?thesis
    proof (cases ys)
      case Nil
      then show ?thesis using d \<open>xs = []\<close> by (auto simp: dlist_def rt_list_remove_def Let_def)
    next
      case (Cons y zs)
      have "chain t y zs h = chain s y zs h"
        using d p Cons \<open>xs = []\<close> by (intro chain_cong) (auto simp: t_def rt_list_remove_def Let_def dlist_def)
      then show ?thesis
        using d p c Cons \<open>xs = []\<close> by (auto simp: dlist_def t_def rt_list_remove_def Let_def)
    qed
  next
    case (snoc zs l)
    have l: "chain s h zs l" using c(1) snoc by (simp add: chain_app)
    have t1: "chain t h zs l = chain s h zs l"
      using d p snoc by (intro chain_cong)
        (auto simp: t_def rt_list_remove_def Let_def dlist_def hd_append split: if_splits)
    show ?thesis
    proof (cases ys)
      case Nil
      then show ?thesis
        using d p l t1 snoc by (auto simp: dlist_def chain_app t_def rt_list_remove_def Let_def)
    next
      case (Cons y us)
      have "chain t y us h = chain s y us h"
        using d p Cons snoc by (intro chain_cong) (auto simp: t_def rt_list_remove_def Let_def dlist_def)
      then show ?thesis
        using d p c l t1 Cons snoc by (auto simp: dlist_def chain_app t_def rt_list_remove_def Let_def)
    qed
  qed
qed

lemma remove_other:
  assumes "m \<noteq> n" "m \<noteq> nxt s n" "m \<noteq> prv s n"
  shows "nxt (rt_list_remove n s) m = nxt s m \<and> prv (rt_list_remove n s) m = prv s m"
  using assms by (auto simp: rt_list_remove_def Let_def)

text \<open>A node outside of a list keeps its links when the list changes.\<close>

lemma insert_after_frame:
  assumes d: "dlist s h (xs @ ys)" and m: "m \<notin> set (h # xs @ n # ys)"
  shows "nxt (rt_list_insert_after (last (h # xs)) n s) m = nxt s m
    \<and> prv (rt_list_insert_after (last (h # xs)) n s) m = prv s m"
proof -
  have "nxt s (last (h # xs)) \<in> set (ys @ [h])"
    using d dlist_nxt[of s h xs "hd ys" "tl ys"]
    by (cases ys; cases xs rule: rev_cases) (auto simp: dlist_def chain_snoc chain_app)
  moreover have "last (h # xs) \<in> set (h # xs)" by (rule last_in_set) simp
  ultimately show ?thesis using m by (intro insert_after_other) auto
qed

lemma remove_frame:
  assumes d: "dlist s h (xs @ n # ys)" and m: "m \<notin> set (h # xs @ n # ys)"
  shows "nxt (rt_list_remove n s) m = nxt s m \<and> prv (rt_list_remove n s) m = prv s m"
proof -
  have c: "chain s h xs n" "chain s n ys h" using d by (simp_all add: dlist_def chain_app)
  have "prv s n = last (h # xs)" "nxt s n = hd (ys @ [h])"
    using chain_ends[OF c(1)] chain_ends[OF c(2)] by simp_all
  then have "prv s n \<in> set (h # xs)" "nxt s n \<in> set (ys @ [h])"
    using last_in_set[of "h # xs"] hd_in_set[of "ys @ [h]"] by (metis list.distinct(1), simp)
  then show ?thesis using m by (intro remove_other) auto
qed

lemma insert_before_after:
  "nxt s (prv s l) = l \<Longrightarrow> n \<noteq> l \<Longrightarrow> n \<noteq> prv s l \<Longrightarrow>
   rt_list_insert_before l n s = rt_list_insert_after (prv s l) n s"
  by (cases s) (auto simp: rt_list_insert_before_def rt_list_insert_after_def Let_def set_next_def
      set_prev_def fun_eq_iff)

lemma insert_before_dlist:
  assumes d: "dlist s h xs" and n: "n \<notin> set (h # xs)"
  shows "dlist (rt_list_insert_before h n s) h (xs @ [n])"
proof -
  have p: "prv s h = last (h # xs)" using dlist_last[OF d] .
  have "nxt s (last (h # xs)) = h"
    using d by (cases xs rule: rev_cases) (simp_all add: dlist_def chain_snoc)
  moreover have "n \<noteq> last (h # xs)" using n last_in_set[of "h # xs"] by (metis list.distinct(1))
  ultimately have "rt_list_insert_before h n s = rt_list_insert_after (last (h # xs)) n s"
    using insert_before_after[of s h n] n p by simp
  then show ?thesis using insert_after_dlist[of s h xs "[]" n] d n by simp
qed

end
