(* ===== verification/Rt_Timer.thy ===== *)
theory Rt_Timer
  imports Rt_List
begin

text \<open>
  The timers of the kernel (\<open>rt-thread/src/timer.c\<close>, with the tick of \<open>clock.c\<close>): timer objects,
  the list of started ones, sorted by the tick they run out at, and the check the tick interrupt
  makes. The list is the code's, with its links (theory \<open>Rt_List\<close>); the configuration has one
  level of the skip list (\<open>RT_TIMER_SKIP_LIST_LEVEL\<close> is 1), so that the rows are plain lists and
  the level counters and \<open>random_nr\<close> have no effect. Hooks are not set in this firmware.

  A timer's function is a parameter of the operations that call it; it may change the whole
  timer system and the client's state. The soft timer's thread and its check are left out: the
  firmware starts no soft timer. The time slice of the running thread is a parameter of the tick.
\<close>

section \<open>The data\<close>

abbreviation RT_TIMER_FLAG_ACTIVATED :: u8 where "RT_TIMER_FLAG_ACTIVATED \<equiv> 1"
abbreviation RT_TIMER_FLAG_PERIODIC :: u8 where "RT_TIMER_FLAG_PERIODIC \<equiv> 2"
abbreviation RT_TIMER_FLAG_SOFT_TIMER :: u8 where "RT_TIMER_FLAG_SOFT_TIMER \<equiv> 4"

abbreviation RT_TICK_MAX :: u32 where "RT_TICK_MAX \<equiv> 0xFFFFFFFF"

text \<open>\<open>RT_TICK_MAX / 2\<close>\<close>

abbreviation HALF_TICK :: u32 where "HALF_TICK \<equiv> 0x7FFFFFFF"

text \<open>The nodes of the two lists: their heads and the rows of the timers.\<close>

datatype tnode = Hard_List | Soft_List | Row nat

record rt_timer =
  tm_flag :: u8
  init_tick :: u32
  timeout_tick :: u32

text \<open>\<open>tm_obj t\<close> is the type of the object at \<open>t\<close>: \<open>None\<close> when it is no timer, otherwise whether
  it is static. \<open>soft_waits\<close> is whether the thread of the soft timers is suspended.\<close>

record 'w tmsys =
  tm_links :: "tnode links"
  tm_obj :: "nat \<Rightarrow> bool option"
  tm_timer :: "nat \<Rightarrow> rt_timer"
  rt_tick :: u32
  soft_waits :: bool
  client :: 'w

definition upd_links :: "(tnode links \<Rightarrow> tnode links) \<Rightarrow> 'w tmsys \<Rightarrow> 'w tmsys" where
  "upd_links f s = s\<lparr>tm_links := f (tm_links s)\<rparr>"

definition upd_timer :: "nat \<Rightarrow> (rt_timer \<Rightarrow> rt_timer) \<Rightarrow> 'w tmsys \<Rightarrow> 'w tmsys" where
  "upd_timer t f s = s\<lparr>tm_timer := (tm_timer s)(t := f (tm_timer s t))\<rparr>"

definition upd_obj :: "nat \<Rightarrow> bool option \<Rightarrow> 'w tmsys \<Rightarrow> 'w tmsys" where
  "upd_obj t b s = s\<lparr>tm_obj := (tm_obj s)(t := b)\<rparr>"

definition set_flag :: "u8 \<Rightarrow> rt_timer \<Rightarrow> rt_timer" where
  "set_flag b tm = tm\<lparr>tm_flag := tm_flag tm OR b\<rparr>"

definition clear_flag :: "u8 \<Rightarrow> rt_timer \<Rightarrow> rt_timer" where
  "clear_flag b tm = tm\<lparr>tm_flag := tm_flag tm AND NOT b\<rparr>"

definition has_flag :: "u8 \<Rightarrow> rt_timer \<Rightarrow> bool" where
  "has_flag b tm = (tm_flag tm AND b \<noteq> 0)"

section \<open>Timer objects\<close>

definition timer_obj_init :: "nat \<Rightarrow> u32 \<Rightarrow> u8 \<Rightarrow> 'w tmsys \<Rightarrow> 'w tmsys" where
  "timer_obj_init t time flags s =
     upd_links (rt_list_init (Row t)) (upd_timer t (\<lambda>_.
       clear_flag RT_TIMER_FLAG_ACTIVATED \<lparr>tm_flag = flags, init_tick = time, timeout_tick = 0\<rparr>) s)"

definition rt_timer_init :: "nat \<Rightarrow> u32 \<Rightarrow> u8 \<Rightarrow> 'w tmsys \<Rightarrow> 'w tmsys" where
  "rt_timer_init t time flags s = timer_obj_init t time flags (upd_obj t (Some True) s)"

text \<open>The allocation of the object is the first argument: the address, or nothing.\<close>

definition rt_timer_create :: "nat option \<Rightarrow> u32 \<Rightarrow> u8 \<Rightarrow> 'w tmsys \<Rightarrow> nat option \<times> 'w tmsys" where
  "rt_timer_create alloc time flags s =
     (case alloc of None \<Rightarrow> (None, s)
      | Some t \<Rightarrow> (Some t, timer_obj_init t time flags (upd_obj t (Some False) s)))"

definition rt_timer_remove :: "nat \<Rightarrow> 'w tmsys \<Rightarrow> 'w tmsys" where
  "rt_timer_remove t s = upd_links (rt_list_remove (Row t)) s"

definition rt_timer_detach :: "nat \<Rightarrow> 'w tmsys \<Rightarrow> (int \<times> 'w tmsys) res" where
  "rt_timer_detach t s =
     bindE (assertE (tm_obj s t \<noteq> None)) (\<lambda>_.
     bindE (assertE (tm_obj s t = Some True)) (\<lambda>_.
     Inr (RT_EOK, upd_obj t None (rt_timer_remove t s))))"

definition rt_timer_delete :: "nat \<Rightarrow> 'w tmsys \<Rightarrow> (int \<times> 'w tmsys) res" where
  "rt_timer_delete t s =
     bindE (assertE (tm_obj s t \<noteq> None)) (\<lambda>_.
     bindE (assertE (tm_obj s t = Some False)) (\<lambda>_.
     Inr (RT_EOK, upd_obj t None (rt_timer_remove t s))))"

section \<open>Starting and stopping\<close>

text \<open>The walk to the row behind which the timer goes: over those that run out before it or with
  it. \<open>rt_list_entry\<close> of a list's head would be no timer.\<close>

partial_function (option) insert_point ::
    "tnode links \<Rightarrow> (nat \<Rightarrow> rt_timer) \<Rightarrow> tnode \<Rightarrow> u32 \<Rightarrow> tnode \<Rightarrow> tnode res option" where
  "insert_point ls tms lst tout row =
     (if row = prv ls lst then Some (Inr row)
      else (case nxt ls row of
          Row t \<Rightarrow>
            (if timeout_tick (tms t) - tout = 0 then insert_point ls tms lst tout (nxt ls row)
             else if timeout_tick (tms t) - tout < HALF_TICK then Some (Inr row)
             else insert_point ls tms lst tout (nxt ls row))
        | _ \<Rightarrow> Some (Inl Out_Of_Bounds)))"

definition timer_list_of :: "rt_timer \<Rightarrow> tnode" where
  "timer_list_of tm = (if has_flag RT_TIMER_FLAG_SOFT_TIMER tm then Soft_List else Hard_List)"

definition rt_timer_start :: "nat \<Rightarrow> 'w tmsys \<Rightarrow> (int \<times> 'w tmsys) res" where
  "rt_timer_start t s =
     bindE (assertE (tm_obj s t \<noteq> None)) (\<lambda>_.
     let s1 = upd_timer t (clear_flag RT_TIMER_FLAG_ACTIVATED) (rt_timer_remove t s) in
     bindE (assertE (init_tick (tm_timer s1 t) < HALF_TICK)) (\<lambda>_.
     let s2 = upd_timer t (\<lambda>tm. tm\<lparr>timeout_tick := rt_tick s1 + init_tick tm\<rparr>) s1;
         lst = timer_list_of (tm_timer s2 t) in
     bindE (returns (insert_point (tm_links s2) (tm_timer s2) lst (timeout_tick (tm_timer s2 t)) lst)) (\<lambda>row.
     let s3 = upd_timer t (set_flag RT_TIMER_FLAG_ACTIVATED)
                (upd_links (rt_list_insert_after row (Row t)) s2) in
     Inr (RT_EOK,
       if has_flag RT_TIMER_FLAG_SOFT_TIMER (tm_timer s3 t) \<and> soft_waits s3
       then s3\<lparr>soft_waits := False\<rparr> else s3))))"

definition rt_timer_stop :: "nat \<Rightarrow> 'w tmsys \<Rightarrow> (int \<times> 'w tmsys) res" where
  "rt_timer_stop t s =
     bindE (assertE (tm_obj s t \<noteq> None)) (\<lambda>_.
     if \<not> has_flag RT_TIMER_FLAG_ACTIVATED (tm_timer s t) then Inr (- RT_ERROR, s)
     else Inr (RT_EOK, upd_timer t (clear_flag RT_TIMER_FLAG_ACTIVATED) (rt_timer_remove t s)))"

datatype timer_cmd = Timer_Get_Time | Timer_Set_Time u32 | Timer_Set_Oneshot | Timer_Set_Periodic
  | Timer_Other

text \<open>The value returned in the middle is what \<open>arg\<close> points to afterwards, when it is written.\<close>

definition rt_timer_control :: "nat \<Rightarrow> timer_cmd \<Rightarrow> 'w tmsys \<Rightarrow> (int \<times> u32 option \<times> 'w tmsys) res" where
  "rt_timer_control t cmd s =
     bindE (assertE (tm_obj s t \<noteq> None)) (\<lambda>_.
     case cmd of
       Timer_Get_Time \<Rightarrow> Inr (RT_EOK, Some (init_tick (tm_timer s t)), s)
     | Timer_Set_Time v \<Rightarrow> Inr (RT_EOK, None, upd_timer t (\<lambda>tm. tm\<lparr>init_tick := v\<rparr>) s)
     | Timer_Set_Oneshot \<Rightarrow> Inr (RT_EOK, None, upd_timer t (clear_flag RT_TIMER_FLAG_PERIODIC) s)
     | Timer_Set_Periodic \<Rightarrow> Inr (RT_EOK, None, upd_timer t (set_flag RT_TIMER_FLAG_PERIODIC) s)
     | Timer_Other \<Rightarrow> Inr (RT_EOK, None, s))"

section \<open>The check in the tick interrupt\<close>

definition timer_fire ::
    "(nat \<Rightarrow> 'w tmsys \<Rightarrow> 'w tmsys res) \<Rightarrow> nat \<Rightarrow> 'w tmsys \<Rightarrow> 'w tmsys res" where
  "timer_fire timeout_func t s =
     bindE (timeout_func t (rt_timer_remove t s)) (\<lambda>s1.
     let s2 = upd_timer t (clear_flag RT_TIMER_FLAG_ACTIVATED) s1 in
     if has_flag RT_TIMER_FLAG_PERIODIC (tm_timer s1 t) \<and> has_flag RT_TIMER_FLAG_ACTIVATED (tm_timer s1 t)
     then bindE (rt_timer_start t s2) (\<lambda>(_, s3). Inr s3)
     else Inr s2)"

partial_function (option) check_loop ::
    "(nat \<Rightarrow> 'w tmsys \<Rightarrow> 'w tmsys res) \<Rightarrow> u32 \<Rightarrow> 'w tmsys \<Rightarrow> 'w tmsys res option" where
  "check_loop timeout_func current_tick s =
     (if rt_list_isempty Hard_List (tm_links s) then Some (Inr s)
      else (case nxt (tm_links s) Hard_List of
          Row t \<Rightarrow>
            (if current_tick - timeout_tick (tm_timer s t) < HALF_TICK
             then (case timer_fire timeout_func t s of
                 Inl e \<Rightarrow> Some (Inl e)
               | Inr s' \<Rightarrow> check_loop timeout_func (rt_tick s') s')
             else Some (Inr s))
        | _ \<Rightarrow> Some (Inl Out_Of_Bounds)))"

definition rt_timer_check :: "(nat \<Rightarrow> 'w tmsys \<Rightarrow> 'w tmsys res) \<Rightarrow> 'w tmsys \<Rightarrow> 'w tmsys res" where
  "rt_timer_check timeout_func s = returns (check_loop timeout_func (rt_tick s) s)"

definition rt_timer_list_next_timeout :: "tnode \<Rightarrow> 'w tmsys \<Rightarrow> u32 res" where
  "rt_timer_list_next_timeout lst s =
     (if rt_list_isempty lst (tm_links s) then Inr RT_TICK_MAX
      else (case nxt (tm_links s) lst of
          Row t \<Rightarrow> Inr (timeout_tick (tm_timer s t))
        | _ \<Rightarrow> Inl Out_Of_Bounds))"

definition rt_timer_next_timeout_tick :: "'w tmsys \<Rightarrow> u32 res" where
  "rt_timer_next_timeout_tick s = rt_timer_list_next_timeout Hard_List s"

definition rt_system_timer_init :: "'w tmsys \<Rightarrow> 'w tmsys" where
  "rt_system_timer_init s = upd_links (rt_list_init Hard_List) s"

section \<open>The tick\<close>

definition rt_tick_set :: "u32 \<Rightarrow> 'w tmsys \<Rightarrow> 'w tmsys" where
  "rt_tick_set v s = s\<lparr>rt_tick := v\<rparr>"

text \<open>The argument \<open>tslice\<close> is what the tick does to the running thread, its time slice.\<close>

definition rt_tick_increase ::
    "('w tmsys \<Rightarrow> 'w tmsys res) \<Rightarrow> (nat \<Rightarrow> 'w tmsys \<Rightarrow> 'w tmsys res) \<Rightarrow> 'w tmsys \<Rightarrow> 'w tmsys res" where
  "rt_tick_increase tslice timeout_func s =
     bindE (tslice (s\<lparr>rt_tick := rt_tick s + 1\<rparr>)) (rt_timer_check timeout_func)"

text \<open>\<open>RT_TICK_PER_SECOND\<close> is 1000; the argument is a signed number of milliseconds.\<close>

definition rt_tick_from_millisecond :: "int \<Rightarrow> u32" where
  "rt_tick_from_millisecond ms =
     (if ms < 0 then to_u32 (-1)
      else to_u32 (1000 * c_quot ms 1000) + to_u32 (c_quot (1000 * (ms mod 1000) + 999) 1000))"

end
