(* ===== verification/Rt_Timer_Facts.thy ===== *)
theory Rt_Timer_Facts
  imports Rt_Timer
begin

text \<open>
  What the timer operations do to the list of started timers: \<open>tm_lists\<close> ties the links to the
  lists of timers, \<open>tm_ok\<close> adds that the hard list is sorted by the ticks left and that no timer
  has half the tick range left, whatever the tick counter's value, and \<open>tm_ready\<close> that none is due.
  A lemma per operation, the check of the tick interrupt, and the locale of a timer whose
  functions leave the timers alone, with the rate at which a periodic timer runs.
\<close>

section \<open>The lists of a timer system\<close>

definition tm_lists :: "'w tmsys \<Rightarrow> nat list \<Rightarrow> nat list \<Rightarrow> bool" where
  "tm_lists s xs ys \<longleftrightarrow> dlist (tm_links s) Hard_List (map Row xs) \<and> dlist (tm_links s) Soft_List (map Row ys)
     \<and> set xs \<inter> set ys = {} \<and> (\<forall>t \<in> set xs \<union> set ys. tm_obj s t \<noteq> None)
     \<and> (\<forall>t. tm_obj s t \<noteq> None \<and> t \<notin> set xs \<union> set ys \<longrightarrow> lone (tm_links s) (Row t))"

lemma upd_simps [simp]:
  "tm_links (upd_links f s) = f (tm_links s)" "tm_obj (upd_links f s) = tm_obj s"
  "tm_timer (upd_links f s) = tm_timer s" "rt_tick (upd_links f s) = rt_tick s"
  "client (upd_links f s) = client s" "soft_waits (upd_links f s) = soft_waits s"
  "tm_links (upd_timer t g s) = tm_links s" "tm_obj (upd_timer t g s) = tm_obj s"
  "tm_timer (upd_timer t g s) = (tm_timer s)(t := g (tm_timer s t))" "rt_tick (upd_timer t g s) = rt_tick s"
  "client (upd_timer t g s) = client s" "soft_waits (upd_timer t g s) = soft_waits s"
  "tm_links (rt_timer_remove t s) = rt_list_remove (Row t) (tm_links s)"
  "tm_obj (rt_timer_remove t s) = tm_obj s" "tm_timer (rt_timer_remove t s) = tm_timer s"
  "rt_tick (rt_timer_remove t s) = rt_tick s" "client (rt_timer_remove t s) = client s"
  "soft_waits (rt_timer_remove t s) = soft_waits s"
  by (simp_all add: upd_links_def upd_timer_def rt_timer_remove_def)

lemma tm_lists_cong: "tm_links s = tm_links t \<Longrightarrow> tm_obj s = tm_obj t \<Longrightarrow> tm_lists s = tm_lists t"
  by (simp add: tm_lists_def fun_eq_iff)

lemma tm_lists_distinct: "tm_lists s xs ys \<Longrightarrow> distinct xs"
  by (simp add: tm_lists_def dlist_def distinct_map)

lemma remove_lists:
  assumes l: "tm_lists s xs ys" and t: "tm_obj s t \<noteq> None" "t \<notin> set ys"
  shows "tm_lists (rt_timer_remove t s) (remove1 t xs) ys"
proof (cases "t \<in> set xs")
  case False
  then have "lone (tm_links s) (Row t)" using l t by (simp add: tm_lists_def)
  then have "tm_links (rt_timer_remove t s) = tm_links s" by (simp add: remove_lone)
  then show ?thesis using l False tm_lists_cong[of "rt_timer_remove t s" s] by (simp add: remove1_idem)
next
  case True
  then obtain us vs where x: "xs = us @ t # vs" by (auto simp: in_set_conv_decomp)
  have dx: "distinct xs" using l by (rule tm_lists_distinct)
  then have r: "remove1 t xs = us @ vs" using x by (simp add: remove1_append)
  define ls where "ls = tm_links s"
  define ls' where "ls' = rt_list_remove (Row t) ls"
  have d: "dlist ls Hard_List (map Row us @ Row t # map Row vs)" using l x by (simp add: tm_lists_def ls_def)
  have f: "m \<notin> set (Hard_List # map Row xs) \<Longrightarrow> nxt ls' m = nxt ls m \<and> prv ls' m = prv ls m" for m
    using remove_frame[OF d, of m] x by (simp add: ls'_def)
  have "dlist ls' Soft_List (map Row ys) = dlist ls Soft_List (map Row ys)"
    using l by (intro dlist_cong f) (auto simp: tm_lists_def)
  moreover have "lone ls' (Row q)" if "tm_obj s q \<noteq> None" "q \<notin> set (us @ vs) \<union> set ys" for q
  proof (cases "q = t")
    case True
    then show ?thesis by (simp add: ls'_def remove_is_lone)
  next
    case False
    then show ?thesis using f[of "Row q"] that l x by (auto simp: tm_lists_def lone_def ls_def)
  qed
  moreover have "dlist ls' Hard_List (map Row (us @ vs))" using remove_dlist[OF d] by (simp add: ls'_def)
  ultimately show ?thesis using l x dx unfolding r by (auto simp: tm_lists_def ls'_def ls_def)
qed

lemma insert_lists:
  assumes l: "tm_lists s (us @ vs) ys" and t: "tm_obj s t \<noteq> None" "t \<notin> set (us @ vs @ ys)"
  shows "tm_lists (upd_links (rt_list_insert_after (last (Hard_List # map Row us)) (Row t)) s) (us @ t # vs) ys"
proof -
  define ls where "ls = tm_links s"
  define ls' where "ls' = rt_list_insert_after (last (Hard_List # map Row us)) (Row t) ls"
  have d: "dlist ls Hard_List (map Row us @ map Row vs)" using l by (simp add: tm_lists_def ls_def)
  have f: "m \<notin> set (Hard_List # map Row (us @ t # vs)) \<Longrightarrow> nxt ls' m = nxt ls m \<and> prv ls' m = prv ls m" for m
    using insert_after_frame[OF d, of m "Row t"] by (simp add: ls'_def)
  have "dlist ls' Hard_List (map Row us @ Row t # map Row vs)"
    unfolding ls'_def using t by (intro insert_after_dlist[OF d]) auto
  moreover have "dlist ls' Soft_List (map Row ys) = dlist ls Soft_List (map Row ys)"
    using l t by (intro dlist_cong f) (auto simp: tm_lists_def)
  moreover have "lone ls' (Row q)" if "tm_obj s q \<noteq> None" "q \<notin> set (us @ t # vs) \<union> set ys" for q
    using f[of "Row q"] that l by (auto simp: tm_lists_def lone_def ls_def)
  ultimately show ?thesis using l t by (auto simp: tm_lists_def ls'_def ls_def)
qed

section \<open>Where a timer is inserted\<close>

definition runs_later :: "(nat \<Rightarrow> rt_timer) \<Rightarrow> u32 \<Rightarrow> nat \<Rightarrow> bool" where
  "runs_later tms tout x \<longleftrightarrow> timeout_tick (tms x) - tout \<noteq> 0 \<and> timeout_tick (tms x) - tout < HALF_TICK"

lemma last_app_neq:
  assumes "distinct (h # as @ bs)" "bs \<noteq> []"
  shows "last (h # as @ bs) \<noteq> last (h # as)"
proof -
  have "last (h # as @ bs) = last bs" using assms(2) by simp
  moreover have "last bs \<in> set bs" using assms(2) by simp
  moreover have "last (h # as) \<in> set (h # as)" by (rule last_in_set) simp
  ultimately show ?thesis using assms(1) by auto
qed

lemma insert_point_walk:
  "dlist ls h (map Row (us @ vs)) \<Longrightarrow>
   insert_point ls tms h tout (last (h # map Row us))
     = Some (Inr (last (h # map Row (us @ takeWhile (\<lambda>x. \<not> runs_later tms tout x) vs))))"
proof (induction vs arbitrary: us)
  case Nil
  then show ?case using dlist_last[OF Nil] by (subst insert_point.simps) simp
next
  case (Cons v vs)
  have "last (h # map Row (us @ v # vs)) \<noteq> last (h # map Row us)"
    using Cons.prems last_app_neq[of h "map Row us" "map Row (v # vs)"] by (simp add: dlist_def)
  moreover have "nxt ls (last (h # map Row us)) = Row v"
    using dlist_nxt[of ls h "map Row us" "Row v" "map Row vs"] Cons.prems by simp
  moreover have "insert_point ls tms h tout (Row v)
      = Some (Inr (last (h # map Row ((us @ [v]) @ takeWhile (\<lambda>x. \<not> runs_later tms tout x) vs))))"
    using Cons.IH[of "us @ [v]"] Cons.prems by simp
  ultimately show ?case
    using dlist_last[OF Cons.prems] by (subst insert_point.simps) (simp add: runs_later_def)
qed

definition timer_insert :: "(nat \<Rightarrow> rt_timer) \<Rightarrow> nat \<Rightarrow> nat list \<Rightarrow> nat list" where
  "timer_insert tms t xs =
     (let P = (\<lambda>x. \<not> runs_later tms (timeout_tick (tms t)) x) in takeWhile P xs @ t # dropWhile P xs)"

lemma flag_simps [simp]:
  "has_flag RT_TIMER_FLAG_ACTIVATED (set_flag RT_TIMER_FLAG_ACTIVATED tm)"
  "\<not> has_flag RT_TIMER_FLAG_ACTIVATED (clear_flag RT_TIMER_FLAG_ACTIVATED tm)"
  "has_flag RT_TIMER_FLAG_PERIODIC (set_flag RT_TIMER_FLAG_ACTIVATED tm) = has_flag RT_TIMER_FLAG_PERIODIC tm"
  "has_flag RT_TIMER_FLAG_SOFT_TIMER (set_flag RT_TIMER_FLAG_ACTIVATED tm) = has_flag RT_TIMER_FLAG_SOFT_TIMER tm"
  "has_flag RT_TIMER_FLAG_PERIODIC (clear_flag RT_TIMER_FLAG_ACTIVATED tm) = has_flag RT_TIMER_FLAG_PERIODIC tm"
  "has_flag RT_TIMER_FLAG_SOFT_TIMER (clear_flag RT_TIMER_FLAG_ACTIVATED tm) = has_flag RT_TIMER_FLAG_SOFT_TIMER tm"
  "has_flag b (tm\<lparr>timeout_tick := v\<rparr>) = has_flag b tm"
  "init_tick (set_flag b tm) = init_tick tm" "init_tick (clear_flag b tm) = init_tick tm"
  "timeout_tick (set_flag b tm) = timeout_tick tm" "timeout_tick (clear_flag b tm) = timeout_tick tm"
  by (simp_all add: has_flag_def set_flag_def clear_flag_def word_ao_dist and.assoc)

definition started :: "u32 \<Rightarrow> rt_timer \<Rightarrow> rt_timer" where
  "started now tm = set_flag RT_TIMER_FLAG_ACTIVATED
     ((clear_flag RT_TIMER_FLAG_ACTIVATED tm)\<lparr>timeout_tick := now + init_tick tm\<rparr>)"

lemma started_simps [simp]:
  "timeout_tick (started now tm) = now + init_tick tm" "init_tick (started now tm) = init_tick tm"
  "has_flag RT_TIMER_FLAG_ACTIVATED (started now tm)"
  "has_flag RT_TIMER_FLAG_PERIODIC (started now tm) = has_flag RT_TIMER_FLAG_PERIODIC tm"
  "has_flag RT_TIMER_FLAG_SOFT_TIMER (started now tm) = has_flag RT_TIMER_FLAG_SOFT_TIMER tm"
  by (simp_all add: started_def)

definition same_rest :: "'w tmsys \<Rightarrow> 'w tmsys \<Rightarrow> bool" where
  "same_rest s s' \<longleftrightarrow> tm_obj s' = tm_obj s \<and> rt_tick s' = rt_tick s \<and> client s' = client s
     \<and> soft_waits s' = soft_waits s"

lemma rt_timer_start_ok:
  assumes l: "tm_lists s xs ys" and t: "tm_obj s t \<noteq> None" "t \<notin> set ys"
    and i: "init_tick (tm_timer s t) < HALF_TICK" and h: "\<not> has_flag RT_TIMER_FLAG_SOFT_TIMER (tm_timer s t)"
  shows "\<exists>s'. rt_timer_start t s = Inr (RT_EOK, s')
    \<and> tm_lists s' (timer_insert (tm_timer s') t (remove1 t xs)) ys
    \<and> tm_timer s' = (tm_timer s)(t := started (rt_tick s) (tm_timer s t)) \<and> same_rest s s'"
proof -
  define r where "r = rt_timer_remove t s"
  define zs where "zs = remove1 t xs"
  define s1 where "s1 = upd_timer t (clear_flag RT_TIMER_FLAG_ACTIVATED) r"
  define s2 where "s2 = upd_timer t (\<lambda>tm. tm\<lparr>timeout_tick := rt_tick s1 + init_tick tm\<rparr>) s1"
  define tms where "tms = (tm_timer s)(t := started (rt_tick s) (tm_timer s t))"
  define P where "P x = (\<not> runs_later tms (timeout_tick (tms t)) x)" for x
  have lr: "tm_lists r zs ys" unfolding r_def zs_def using l t by (rule remove_lists)
  then have l2: "tm_lists s2 zs ys" using tm_lists_cong[of s2 r] by (simp add: s2_def s1_def)
  have tz: "t \<notin> set zs" using tm_lists_distinct[OF l] by (simp add: zs_def)
  have tt: "timeout_tick (tm_timer s2 x) = timeout_tick (tms x)" for x
    by (simp add: s2_def s1_def r_def tms_def)
  have P: "(\<lambda>x. \<not> runs_later (tm_timer s2) (timeout_tick (tm_timer s2 t)) x) = P"
    by (simp add: fun_eq_iff P_def runs_later_def tt)
  define row where "row = last (Hard_List # map Row (takeWhile P zs))"
  have ip: "insert_point (tm_links s2) (tm_timer s2) Hard_List (timeout_tick (tm_timer s2 t)) Hard_List = Some (Inr row)"
    using insert_point_walk[of "tm_links s2" Hard_List "[]" zs "tm_timer s2" "timeout_tick (tm_timer s2 t)"] l2
    unfolding P row_def by (simp add: tm_lists_def)
  define s3 where "s3 = upd_timer t (set_flag RT_TIMER_FLAG_ACTIVATED) (upd_links (rt_list_insert_after row (Row t)) s2)"
  have "rt_timer_start t s = Inr (RT_EOK, s3)"
    using t i h ip unfolding rt_timer_start_def Let_def r_def[symmetric] s1_def[symmetric] s2_def[symmetric]
    by (simp add: timer_list_of_def s3_def s2_def s1_def r_def)
  moreover have "tm_lists (upd_links (rt_list_insert_after row (Row t)) s2) (takeWhile P zs @ t # dropWhile P zs) ys"
    unfolding row_def using l2 t tz
    by (intro insert_lists) (auto simp: s2_def s1_def r_def dest: set_takeWhileD set_dropWhileD)
  then have "tm_lists s3 (takeWhile P zs @ t # dropWhile P zs) ys"
    using tm_lists_cong[of s3 "upd_links (rt_list_insert_after row (Row t)) s2"] by (simp add: s3_def)
  moreover have "tm_timer s3 = tms"
    by (simp add: s3_def s2_def s1_def r_def tms_def started_def)
  moreover have "same_rest s s3" by (simp add: same_rest_def s3_def s2_def s1_def r_def)
  ultimately show ?thesis
    by (auto simp: timer_insert_def Let_def tms_def[symmetric] P_def[symmetric, abs_def] zs_def)
qed

section \<open>Sorted by the time left\<close>

definition left_of :: "u32 \<Rightarrow> rt_timer \<Rightarrow> int" where
  "left_of now tm = uint (timeout_tick tm - now)"

definition left :: "'w tmsys \<Rightarrow> nat \<Rightarrow> int" where
  "left s t = left_of (rt_tick s) (tm_timer s t)"

definition tm_ok :: "'w tmsys \<Rightarrow> nat list \<Rightarrow> nat list \<Rightarrow> bool" where
  "tm_ok s xs ys \<longleftrightarrow> tm_lists s xs ys \<and> sorted (map (left s) xs)
     \<and> (\<forall>t\<in>set xs. left s t < 2147483647 \<and> has_flag RT_TIMER_FLAG_ACTIVATED (tm_timer s t)
          \<and> \<not> has_flag RT_TIMER_FLAG_SOFT_TIMER (tm_timer s t) \<and> init_tick (tm_timer s t) < HALF_TICK)"

lemma left_nonneg [simp]: "0 \<le> left s t"
  by (simp add: left_def left_of_def)

lemma left_started: "left_of now (started now tm) = uint (init_tick tm)"
  by (simp add: left_of_def)

text \<open>The comparisons of the code, on timers that have less than half the tick range left.\<close>

lemma runs_later_left:
  assumes "left_of now (tms x) < 2147483647" "left_of now (tms t) < 2147483647"
  shows "runs_later tms (timeout_tick (tms t)) x \<longleftrightarrow> left_of now (tms t) < left_of now (tms x)"
proof -
  define a where "a = timeout_tick (tms x) - now"
  define b where "b = timeout_tick (tms t) - now"
  have d: "timeout_tick (tms x) - timeout_tick (tms t) = a - b" by (simp add: a_def b_def)
  have ab: "uint a < 2147483647" "uint b < 2147483647" using assms by (simp_all add: left_of_def a_def b_def)
  define A where "A = uint a"
  define B where "B = uint b"
  have AB: "0 \<le> A" "0 \<le> B" "A < 2147483647" "B < 2147483647" using ab by (simp_all add: A_def B_def)
  have u: "uint (a - b) = (if B \<le> A then A - B else A - B + 4294967296)"
    by (simp add: uint_sub_if' A_def B_def)
  have z: "a - b \<noteq> 0 \<longleftrightarrow> uint (a - b) \<noteq> 0" by (simp add: word_uint_eq_iff)
  have l: "a - b < HALF_TICK \<longleftrightarrow> uint (a - b) < 2147483647" by (simp add: word_less_def)
  have "a - b \<noteq> 0 \<and> a - b < HALF_TICK \<longleftrightarrow> B < A"
    unfolding z l u using AB by auto
  then have "a - b \<noteq> 0 \<and> a - b < HALF_TICK \<longleftrightarrow> uint b < uint a" by (simp only: A_def B_def)
  then show ?thesis unfolding runs_later_def d left_of_def a_def[symmetric] b_def[symmetric] .
qed

lemma due_left:
  assumes "left_of now tm < 2147483647"
  shows "now - timeout_tick tm < HALF_TICK \<longleftrightarrow> left_of now tm = 0"
proof -
  define a where "a = timeout_tick tm - now"
  have d: "now - timeout_tick tm = 0 - a" by (simp add: a_def)
  have a: "uint a < 2147483647" using assms by (simp add: left_of_def a_def)
  have "0 - a < HALF_TICK \<longleftrightarrow> uint a = 0"
    using a unfolding word_less_def uint_sub_if' by auto
  then show ?thesis by (simp only: d left_of_def flip: a_def)
qed

lemma sorted_insert:
  assumes "sorted (map f xs)"
  shows "sorted (map f (takeWhile (\<lambda>x. f x \<le> f t) xs @ t # dropWhile (\<lambda>x. f x \<le> (f t :: int)) xs))"
  using assms
proof (induction xs)
  case Nil
  then show ?case by simp
next
  case (Cons x xs)
  show ?case
  proof (cases "f x \<le> f t")
    case True
    have "\<forall>y \<in> set (map f (takeWhile (\<lambda>x. f x \<le> f t) xs @ t # dropWhile (\<lambda>x. f x \<le> f t) xs)). f x \<le> y"
      using Cons.prems True by (auto dest: set_takeWhileD set_dropWhileD)
    then show ?thesis using Cons True by auto
  next
    case False
    then show ?thesis using Cons.prems by fastforce
  qed
qed

lemma timer_insert_left:
  assumes "\<And>x. x \<in> set xs \<Longrightarrow> left s x < 2147483647" "left s t < 2147483647"
  shows "timer_insert (tm_timer s) t xs
    = takeWhile (\<lambda>x. left s x \<le> left s t) xs @ t # dropWhile (\<lambda>x. left s x \<le> left s t) xs"
proof -
  have e: "\<not> runs_later (tm_timer s) (timeout_tick (tm_timer s t)) x \<longleftrightarrow> left s x \<le> left s t" if "x \<in> set xs" for x
    using runs_later_left[of "rt_tick s" "tm_timer s" x t] assms that by (simp add: left_def linorder_not_less)
  have "takeWhile (\<lambda>x. \<not> runs_later (tm_timer s) (timeout_tick (tm_timer s t)) x) xs
      = takeWhile (\<lambda>x. left s x \<le> left s t) xs"
    using e by (intro takeWhile_cong) auto
  moreover have "dropWhile (\<lambda>x. \<not> runs_later (tm_timer s) (timeout_tick (tm_timer s t)) x) xs
      = dropWhile (\<lambda>x. left s x \<le> left s t) xs"
    using e by (intro dropWhile_cong) auto
  ultimately show ?thesis by (simp add: timer_insert_def Let_def)
qed

lemma set_timer_insert: "set (timer_insert tms t xs) = insert t (set xs)"
  unfolding timer_insert_def Let_def using takeWhile_dropWhile_id by (metis Un_insert_right list.simps(15) set_append)

lemma tm_ok_start:
  assumes ok: "tm_ok s xs ys" and t: "tm_obj s t \<noteq> None" "t \<notin> set ys"
    and i: "init_tick (tm_timer s t) < HALF_TICK" and h: "\<not> has_flag RT_TIMER_FLAG_SOFT_TIMER (tm_timer s t)"
  shows "\<exists>s' xs'. rt_timer_start t s = Inr (RT_EOK, s') \<and> tm_ok s' xs' ys \<and> set xs' = insert t (set xs)
    \<and> xs' = takeWhile (\<lambda>x. left s' x \<le> left s' t) (remove1 t xs) @ t
              # dropWhile (\<lambda>x. left s' x \<le> left s' t) (remove1 t xs)
    \<and> tm_timer s' = (tm_timer s)(t := started (rt_tick s) (tm_timer s t)) \<and> same_rest s s'"
proof -
  have l: "tm_lists s xs ys" using ok by (simp add: tm_ok_def)
  obtain s' where s': "rt_timer_start t s = Inr (RT_EOK, s')"
    "tm_lists s' (timer_insert (tm_timer s') t (remove1 t xs)) ys"
    "tm_timer s' = (tm_timer s)(t := started (rt_tick s) (tm_timer s t))" "same_rest s s'"
    using rt_timer_start_ok[OF l t i h] by blast
  define zs where "zs = remove1 t xs"
  have z: "set zs = set xs - {t}" using tm_lists_distinct[OF l] by (simp add: zs_def)
  have same: "left s' x = left s x \<and> tm_timer s' x = tm_timer s x" if "x \<noteq> t" for x
    using that s'(3,4) by (simp add: left_def same_rest_def)
  have lt: "left s' t = uint (init_tick (tm_timer s t))" "left s' t < 2147483647"
    using s'(3,4) i by (simp_all add: left_def same_rest_def left_started word_less_def)
  have win: "left s' x < 2147483647" if "x \<in> set zs" for x
    using that z same ok by (auto simp: tm_ok_def)
  have "sorted (map (left s) zs)" using ok by (simp add: tm_ok_def zs_def sorted_map_remove1)
  then have "sorted (map (left s') zs)" using z same by (metis DiffD2 map_eq_conv singletonI)
  then have "sorted (map (left s') (timer_insert (tm_timer s') t zs))"
    using timer_insert_left[of zs s' t] win lt(2) sorted_insert[of "left s'" zs t] by simp
  moreover have "set (timer_insert (tm_timer s') t zs) = insert t (set xs)"
    using z by (auto simp: set_timer_insert)
  moreover have "timer_insert (tm_timer s') t zs = takeWhile (\<lambda>x. left s' x \<le> left s' t) zs @ t
      # dropWhile (\<lambda>x. left s' x \<le> left s' t) zs"
    using timer_insert_left[of zs s' t] win lt(2) by simp
  ultimately show ?thesis
    using s' ok lt i h win z same by (intro exI[of _ s'] exI[of _ "timer_insert (tm_timer s') t zs"])
      (auto simp: tm_ok_def zs_def)
qed

section \<open>Creating and stopping\<close>

lemma timer_obj_init_ok:
  assumes ok: "tm_ok s xs ys" and n: "tm_obj s t = None"
  shows "tm_ok (timer_obj_init t time flags (upd_obj t b s)) xs ys"
proof -
  define s1 where "s1 = timer_obj_init t time flags (upd_obj t b s)"
  have l: "tm_lists s xs ys" using ok by (simp add: tm_ok_def)
  have "\<forall>x\<in>set xs \<union> set ys. tm_obj s x \<noteq> None" using l unfolding tm_lists_def by blast
  then have t: "t \<notin> set xs" "t \<notin> set ys" using n by blast+
  have f: "tm_links s1 = rt_list_init (Row t) (tm_links s)" "tm_obj s1 = (tm_obj s)(t := b)" "rt_tick s1 = rt_tick s"
    "x \<noteq> t \<Longrightarrow> tm_timer s1 x = tm_timer s x" for x
    by (simp_all add: s1_def timer_obj_init_def upd_links_def upd_timer_def upd_obj_def)
  have d: "dlist (rt_list_init (Row t) (tm_links s)) h (map Row zs) = dlist (tm_links s) h (map Row zs)"
    if "t \<notin> set zs" "h = Hard_List \<or> h = Soft_List" for zs h
    using that by (intro dlist_cong rt_list_init_other) auto
  have "lone (rt_list_init (Row t) (tm_links s)) (Row x) = (x = t \<or> lone (tm_links s) (Row x))" for x
    using rt_list_init_other[of "Row x" "Row t" "tm_links s"]
    by (cases "x = t") (auto simp: lone_def rt_list_init_def)
  then have l1: "tm_lists s1 xs ys" using l t d by (auto simp: tm_lists_def f(1,2))
  have "left s1 x = left s x" "tm_timer s1 x = tm_timer s x" if "x \<in> set xs" for x
  proof -
    have "x \<noteq> t" using that t by auto
    then show "left s1 x = left s x" "tm_timer s1 x = tm_timer s x" by (simp_all add: left_def f)
  qed
  moreover from this have "map (left s1) xs = map (left s) xs" by simp
  ultimately have "tm_ok s1 xs ys" using ok l1 unfolding tm_ok_def by metis
  then show ?thesis by (simp add: s1_def)
qed

lemma rt_timer_stop_ok:
  assumes ok: "tm_ok s xs ys" and t: "tm_obj s t \<noteq> None" "t \<notin> set ys"
  shows "if has_flag RT_TIMER_FLAG_ACTIVATED (tm_timer s t)
    then \<exists>s'. rt_timer_stop t s = Inr (RT_EOK, s') \<and> tm_ok s' (remove1 t xs) ys
      \<and> \<not> has_flag RT_TIMER_FLAG_ACTIVATED (tm_timer s' t)
    else rt_timer_stop t s = Inr (- RT_ERROR, s)"
proof -
  define s1 where "s1 = upd_timer t (clear_flag RT_TIMER_FLAG_ACTIVATED) (rt_timer_remove t s)"
  have l: "tm_lists s xs ys" using ok by (simp add: tm_ok_def)
  have tx: "x \<in> set (remove1 t xs) \<Longrightarrow> x \<in> set xs \<and> x \<noteq> t" for x
    using tm_lists_distinct[OF l] by auto
  have "tm_lists s1 (remove1 t xs) ys"
    using remove_lists[OF l t] tm_lists_cong[of s1 "rt_timer_remove t s"] by (simp add: s1_def)
  moreover have "sorted (map (left s) (remove1 t xs))" using ok by (simp add: tm_ok_def sorted_map_remove1)
  moreover have same: "left s1 x = left s x" "tm_timer s1 x = tm_timer s x" if "x \<in> set (remove1 t xs)" for x
    using tx[OF that] by (simp_all add: s1_def left_def)
  moreover have "map (left s1) (remove1 t xs) = map (left s) (remove1 t xs)"
    by (intro map_cong refl same)
  ultimately have "tm_ok s1 (remove1 t xs) ys"
    using ok tx unfolding tm_ok_def by metis
  then show ?thesis using t by (auto simp: rt_timer_stop_def s1_def)
qed

section \<open>Timers whose functions leave the timers alone\<close>

text \<open>A client: \<open>act t\<close> is what the function of timer \<open>t\<close> does to the client's state.\<close>

definition client_cb :: "(nat \<Rightarrow> 'w \<Rightarrow> 'w res) \<Rightarrow> nat \<Rightarrow> 'w tmsys \<Rightarrow> 'w tmsys res" where
  "client_cb act t s = bindE (act t (client s)) (\<lambda>w. Inr (s\<lparr>client := w\<rparr>))"

definition fired :: "u32 \<Rightarrow> rt_timer \<Rightarrow> rt_timer" where
  "fired now tm = (if has_flag RT_TIMER_FLAG_PERIODIC tm then started now tm
                   else clear_flag RT_TIMER_FLAG_ACTIVATED tm)"

lemma started_clear: "started now (clear_flag RT_TIMER_FLAG_ACTIVATED tm) = started now tm"
  by (cases tm) (simp add: started_def clear_flag_def set_flag_def and.assoc)

lemma timer_fire_ok:
  assumes ok: "tm_ok s (t # xs) ys" and w: "act t (client s) = Inr w"
  shows "\<exists>s' xs'. timer_fire (client_cb act) t s = Inr s' \<and> tm_ok s' xs' ys
    \<and> set xs' = (if has_flag RT_TIMER_FLAG_PERIODIC (tm_timer s t) then insert t (set xs) else set xs)
    \<and> tm_timer s' = (tm_timer s)(t := fired (rt_tick s) (tm_timer s t))
    \<and> client s' = w \<and> rt_tick s' = rt_tick s \<and> tm_obj s' = tm_obj s"
proof -
  have l: "tm_lists s (t # xs) ys" using ok by (simp add: tm_ok_def)
  have t: "tm_obj s t \<noteq> None" "t \<notin> set ys" "t \<notin> set xs"
    using l tm_lists_distinct[OF l] by (auto simp: tm_lists_def)
  define s1 where "s1 = (rt_timer_remove t s)\<lparr>client := w\<rparr>"
  define s2 where "s2 = upd_timer t (clear_flag RT_TIMER_FLAG_ACTIVATED) s1"
  have cb: "client_cb act t (rt_timer_remove t s) = Inr s1" using w by (simp add: client_cb_def s1_def)
  have f1: "tm_timer s1 = tm_timer s" by (simp add: s1_def)
  have f2: "tm_timer s2 = (tm_timer s)(t := clear_flag RT_TIMER_FLAG_ACTIVATED (tm_timer s t))"
    "rt_tick s2 = rt_tick s" "tm_obj s2 = tm_obj s" "client s2 = w" by (simp_all add: s2_def s1_def)
  have "tm_lists (rt_timer_remove t s) xs ys" using remove_lists[OF l t(1,2)] by simp
  then have l2: "tm_lists s2 xs ys" using tm_lists_cong[of s2 "rt_timer_remove t s"] by (simp add: s2_def s1_def)
  have lf: "left s2 x = left s x" if "x \<in> set xs" for x using that t(3) by (auto simp: left_def f2)
  have "sorted (map (left s2) xs)" using ok lf by (simp add: tm_ok_def cong: map_cong)
  then have ok2: "tm_ok s2 xs ys" using ok l2 lf t(3) by (auto simp: tm_ok_def f2)
  have fire: "timer_fire (client_cb act) t s =
    (if has_flag RT_TIMER_FLAG_PERIODIC (tm_timer s t)
     then bindE (rt_timer_start t s2) (\<lambda>(_, s3). Inr s3) else Inr s2)"
    using ok by (simp add: timer_fire_def cb f1 Let_def tm_ok_def flip: s2_def)
  show ?thesis
  proof (cases "has_flag RT_TIMER_FLAG_PERIODIC (tm_timer s t)")
    case False
    then show ?thesis using fire ok2 f2 by (intro exI[of _ s2] exI[of _ xs]) (auto simp: fired_def)
  next
    case True
    have "tm_obj s2 t \<noteq> None" "init_tick (tm_timer s2 t) < HALF_TICK"
      "\<not> has_flag RT_TIMER_FLAG_SOFT_TIMER (tm_timer s2 t)" using t ok by (simp_all add: f2 tm_ok_def)
    then obtain s3 xs' where s3: "rt_timer_start t s2 = Inr (RT_EOK, s3)" "tm_ok s3 xs' ys"
      "set xs' = insert t (set xs)" "tm_timer s3 = (tm_timer s2)(t := started (rt_tick s2) (tm_timer s2 t))"
      "same_rest s2 s3" using tm_ok_start[OF ok2 _ t(2)] by blast
    then show ?thesis using fire True f2
      by (intro exI[of _ s3] exI[of _ xs']) (auto simp: fired_def started_clear same_rest_def)
  qed
qed

definition tm_ready :: "'w tmsys \<Rightarrow> nat list \<Rightarrow> nat list \<Rightarrow> bool" where
  "tm_ready s xs ys \<longleftrightarrow> tm_ok s xs ys \<and> (\<forall>x\<in>set xs. left s x \<noteq> 0
     \<and> (has_flag RT_TIMER_FLAG_PERIODIC (tm_timer s x) \<longrightarrow> init_tick (tm_timer s x) \<noteq> 0))"

text \<open>The time slice of the running thread does not touch the timers.\<close>

definition quiet_slice :: "('w tmsys \<Rightarrow> 'w tmsys res) \<Rightarrow> bool" where
  "quiet_slice y \<longleftrightarrow> (\<forall>s. case y s of Inl _ \<Rightarrow> False
     | Inr s' \<Rightarrow> tm_links s' = tm_links s \<and> tm_obj s' = tm_obj s
         \<and> tm_timer s' = tm_timer s \<and> rt_tick s' = rt_tick s \<and> client s' = client s)"

fun rt_ticks :: "('w tmsys \<Rightarrow> 'w tmsys res) \<Rightarrow> (nat \<Rightarrow> 'w tmsys \<Rightarrow> 'w tmsys res) \<Rightarrow> nat \<Rightarrow> 'w tmsys \<Rightarrow> 'w tmsys res" where
  "rt_ticks tslice cb 0 s = Inr s"
| "rt_ticks tslice cb (Suc n) s = bindE (rt_tick_increase tslice cb s) (rt_ticks tslice cb n)"

lemma sorted_minus_one: "sorted (map f xs) \<Longrightarrow> sorted (map (\<lambda>x. f x - (1 :: int)) xs)"
  by (induction xs) auto

lemma left_next: "left_of now tm \<noteq> 0 \<Longrightarrow> left_of (now + 1) tm = left_of now tm - 1"
proof -
  assume a: "left_of now tm \<noteq> 0"
  define d where "d = timeout_tick tm - now"
  have "timeout_tick tm - (now + 1) = d - 1" by (simp add: d_def)
  moreover have "uint d \<noteq> 0" using a by (simp add: left_of_def d_def)
  then have "1 \<le> uint d" using uint_ge_0[of d] by linarith
  then have "uint (d - 1) = uint d - 1" by (simp add: uint_sub_if')
  ultimately show "left_of (now + 1) tm = left_of now tm - 1" by (simp only: left_of_def flip: d_def)
qed

locale timer_clients =
  fixes act :: "nat \<Rightarrow> 'w \<Rightarrow> 'w res" and j :: nat and R :: "nat \<Rightarrow> 'w \<Rightarrow> bool"
  assumes act_j: "R k w \<Longrightarrow> \<exists>w'. act j w = Inr w' \<and> R (Suc k) w'"
    and act_other: "R k w \<Longrightarrow> t \<noteq> j \<Longrightarrow> \<exists>w'. act t w = Inr w' \<and> R k w'"
begin

lemma check_loop_ok:
  "tm_ok s xs ys \<Longrightarrow> (\<And>x. x \<in> set xs \<Longrightarrow> has_flag RT_TIMER_FLAG_PERIODIC (tm_timer s x) \<Longrightarrow> init_tick (tm_timer s x) \<noteq> 0)
   \<Longrightarrow> R k (client s) \<Longrightarrow>
   \<exists>s' xs'. check_loop (client_cb act) (rt_tick s) s = Some (Inr s') \<and> tm_ok s' xs' ys
     \<and> (\<forall>x\<in>set xs'. left s' x \<noteq> 0) \<and> R (k + (if j \<in> set xs \<and> left s j = 0 then 1 else 0)) (client s')
     \<and> set xs' = {x \<in> set xs. left s x \<noteq> 0 \<or> has_flag RT_TIMER_FLAG_PERIODIC (tm_timer s x)}
     \<and> tm_timer s' = (\<lambda>x. if x \<in> set xs \<and> left s x = 0 then fired (rt_tick s) (tm_timer s x) else tm_timer s x)
     \<and> rt_tick s' = rt_tick s \<and> tm_obj s' = tm_obj s"
proof (induction "card {x \<in> set xs. left s x = 0}" arbitrary: s xs k)
  case 0
  then have nz: "\<forall>x\<in>set xs. left s x \<noteq> 0" by auto
  have d: "dlist (tm_links s) Hard_List (map Row xs)" using 0 by (simp add: tm_ok_def tm_lists_def)
  have "check_loop (client_cb act) (rt_tick s) s = Some (Inr s)"
  proof (cases xs)
    case Nil
    then show ?thesis using dlist_empty[OF d] by (subst check_loop.simps) simp
  next
    case (Cons t us)
    have "\<not> rt_tick s - timeout_tick (tm_timer s t) < HALF_TICK"
      using due_left[of "rt_tick s" "tm_timer s t"] 0(2) nz Cons by (simp add: tm_ok_def left_def)
    then show ?thesis
      using dlist_empty[OF d] dlist_first[of "tm_links s" Hard_List "Row t" "map Row us"] d Cons
      by (subst check_loop.simps) simp
  qed
  then show ?case using 0 nz by (intro exI[of _ s] exI[of _ xs]) (auto simp: fun_eq_iff)
next
  case (Suc n)
  have "{x \<in> set xs. left s x = 0} \<noteq> {}"
  proof
    assume "{x \<in> set xs. left s x = 0} = {}"
    then have "card {x \<in> set xs. left s x = 0} = 0" by (simp only: card.empty)
    then show False using Suc.hyps(2) by linarith
  qed
  then obtain z where z: "z \<in> set xs" "left s z = 0" by auto
  then obtain t us where xs: "xs = t # us" by (cases xs) auto
  have l: "tm_lists s xs ys" and so: "sorted (map (left s) xs)" using Suc.prems by (simp_all add: tm_ok_def)
  have "left s t \<le> left s z" using so z xs by auto
  then have t0: "left s t = 0" using z(2) left_nonneg[of s t] by linarith
  have d: "dlist (tm_links s) Hard_List (map Row xs)" using l by (simp add: tm_lists_def)
  have tus: "t \<notin> set us" using tm_lists_distinct[OF l] xs by simp
  define k1 where "k1 = k + (if j = t then 1 else 0)"
  obtain w where w: "act t (client s) = Inr w" "R k1 w"
    using act_j[of k "client s"] act_other[of k "client s" t] Suc.prems(3) by (cases "j = t") (auto simp: k1_def)
  obtain s1 xs1 where s1: "timer_fire (client_cb act) t s = Inr s1" "tm_ok s1 xs1 ys"
    "set xs1 = (if has_flag RT_TIMER_FLAG_PERIODIC (tm_timer s t) then insert t (set us) else set us)"
    "tm_timer s1 = (tm_timer s)(t := fired (rt_tick s) (tm_timer s t))"
    "client s1 = w" "rt_tick s1 = rt_tick s" "tm_obj s1 = tm_obj s"
    using timer_fire_ok[of s t us ys act w] Suc.prems(1) w xs by blast
  have lf: "left s1 x = left s x" if "x \<noteq> t" for x using that s1 by (simp add: left_def)
  have lfu: "left s1 x = left s x" "tm_timer s1 x = tm_timer s x" if "x \<in> set us" for x
    using that tus lf[of x] s1(4) by auto
  have lt: "left s1 t \<noteq> 0" if "has_flag RT_TIMER_FLAG_PERIODIC (tm_timer s t)"
    using that Suc.prems(2)[of t] s1(4,6) xs by (simp add: left_def fired_def left_started uint_0_iff)
  have zs: "{x \<in> set xs1. left s1 x = 0} = {x \<in> set xs. left s x = 0} - {t}"
    using s1(3) lfu lt xs tus by (auto split: if_splits)
  have "n = card {x \<in> set xs1. left s1 x = 0}"
    unfolding zs using Suc.hyps(2) t0 xs by simp
  moreover have "init_tick (tm_timer s1 x) \<noteq> 0" if "x \<in> set xs1" "has_flag RT_TIMER_FLAG_PERIODIC (tm_timer s1 x)" for x
    using that Suc.prems(2)[of x] s1(3,4) xs by (auto simp: fired_def split: if_splits)
  moreover have "R k1 (client s1)" using w s1 by simp
  ultimately obtain s' xs' where s': "check_loop (client_cb act) (rt_tick s1) s1 = Some (Inr s')" "tm_ok s' xs' ys"
    "\<forall>x\<in>set xs'. left s' x \<noteq> 0" "R (k1 + (if j \<in> set xs1 \<and> left s1 j = 0 then 1 else 0)) (client s')"
    "set xs' = {x \<in> set xs1. left s1 x \<noteq> 0 \<or> has_flag RT_TIMER_FLAG_PERIODIC (tm_timer s1 x)}"
    "tm_timer s' = (\<lambda>x. if x \<in> set xs1 \<and> left s1 x = 0 then fired (rt_tick s1) (tm_timer s1 x) else tm_timer s1 x)"
    "rt_tick s' = rt_tick s1" "tm_obj s' = tm_obj s1"
    using Suc.hyps(1)[of xs1 s1 k1] s1(2) by blast
  have "rt_tick s - timeout_tick (tm_timer s t) < HALF_TICK"
    using due_left[of "rt_tick s" "tm_timer s t"] Suc.prems(1) t0 xs by (simp add: tm_ok_def left_def)
  then have c: "check_loop (client_cb act) (rt_tick s) s = Some (Inr s')"
    using dlist_empty[OF d] dlist_first[of "tm_links s" Hard_List "Row t" "map Row us"] d xs s1(1) s'(1)
    by (subst check_loop.simps) simp
  have "k1 + (if j \<in> set xs1 \<and> left s1 j = 0 then 1 else 0) = k + (if j \<in> set xs \<and> left s j = 0 then 1 else 0)"
  proof (cases "j = t")
    case True
    then show ?thesis using s1(3) lt tus t0 xs by (auto simp: k1_def split: if_splits)
  next
    case False
    then show ?thesis using s1(3) lf[of j] xs by (auto simp: k1_def)
  qed
  moreover have "set xs' = {x \<in> set xs. left s x \<noteq> 0 \<or> has_flag RT_TIMER_FLAG_PERIODIC (tm_timer s x)}"
    unfolding s'(5) using s1(3,4) lfu lt t0 tus xs by (auto simp: fired_def split: if_splits)
  moreover have "tm_timer s' = (\<lambda>x. if x \<in> set xs \<and> left s x = 0 then fired (rt_tick s) (tm_timer s x) else tm_timer s x)"
    unfolding s'(6) using s1(3,4,6) lf lt t0 tus xs by (auto simp: fun_eq_iff split: if_splits)
  ultimately show ?case using c s' s1 by (intro exI[of _ s'] exI[of _ xs']) auto
qed

text \<open>One tick of the clock.\<close>

lemma tick_ok:
  assumes r: "tm_ready s xs ys" and y: "quiet_slice tslice" and k: "R k (client s)"
  shows "\<exists>s' xs'. rt_tick_increase tslice (client_cb act) s = Inr s' \<and> tm_ready s' xs' ys
    \<and> R (k + (if j \<in> set xs \<and> left s j = 1 then 1 else 0)) (client s')
    \<and> (\<forall>x\<in>set xs. if has_flag RT_TIMER_FLAG_PERIODIC (tm_timer s x)
         then x \<in> set xs' \<and> has_flag RT_TIMER_FLAG_PERIODIC (tm_timer s' x)
           \<and> init_tick (tm_timer s' x) = init_tick (tm_timer s x)
           \<and> left s' x = (if left s x = 1 then uint (init_tick (tm_timer s x)) else left s x - 1)
         else x \<in> set xs' \<longleftrightarrow> left s x \<noteq> 1)"
proof -
  obtain s0 where s0: "tslice (s\<lparr>rt_tick := rt_tick s + 1\<rparr>) = Inr s0"
    and f: "tm_links s0 = tm_links s" "tm_obj s0 = tm_obj s" "tm_timer s0 = tm_timer s"
    "rt_tick s0 = rt_tick s + 1" "client s0 = client s"
    using y[unfolded quiet_slice_def, rule_format, of "s\<lparr>rt_tick := rt_tick s + 1\<rparr>"]
    by (auto split: sum.splits)
  have l0: "left s0 x = left s x - 1" if "x \<in> set xs" for x
    using r that left_next[of "rt_tick s" "tm_timer s x"] by (simp add: tm_ready_def left_def f)
  have ok: "tm_ok s0 xs ys"
  proof -
    have "map (left s0) xs = map (\<lambda>x. left s x - 1) xs" using l0 by simp
    moreover have "sorted (map (\<lambda>x. left s x - 1) xs)"
      using r by (intro sorted_minus_one) (simp add: tm_ready_def tm_ok_def)
    ultimately have "sorted (map (left s0) xs)" by (simp only:)
    then show ?thesis
      using r l0 f tm_lists_cong[of s0 s] by (force simp: tm_ready_def tm_ok_def)
  qed
  have per: "init_tick (tm_timer s0 x) \<noteq> 0"
    if "x \<in> set xs" "has_flag RT_TIMER_FLAG_PERIODIC (tm_timer s0 x)" for x
    using r that by (simp add: tm_ready_def f)
  have k0: "R k (client s0)" using k by (simp add: f)
  obtain s' xs' where c: "check_loop (client_cb act) (rt_tick s0) s0 = Some (Inr s')" "tm_ok s' xs' ys"
    "\<forall>x\<in>set xs'. left s' x \<noteq> 0" "R (k + (if j \<in> set xs \<and> left s0 j = 0 then 1 else 0)) (client s')"
    "set xs' = {x \<in> set xs. left s0 x \<noteq> 0 \<or> has_flag RT_TIMER_FLAG_PERIODIC (tm_timer s0 x)}"
    "tm_timer s' = (\<lambda>x. if x \<in> set xs \<and> left s0 x = 0 then fired (rt_tick s0) (tm_timer s0 x) else tm_timer s0 x)"
    "rt_tick s' = rt_tick s0" "tm_obj s' = tm_obj s0"
    using check_loop_ok[OF ok per k0] by blast
  have "rt_tick_increase tslice (client_cb act) s = Inr s'"
    using c(1) s0 by (simp add: rt_tick_increase_def rt_timer_check_def)
  moreover have "tm_ready s' xs' ys"
    using c r by (auto simp: tm_ready_def f fired_def)
  moreover have "(j \<in> set xs \<and> left s0 j = 0) = (j \<in> set xs \<and> left s j = 1)" using l0 by auto
  moreover have "left s' x = (if left s x = 1 then uint (init_tick (tm_timer s x)) else left s x - 1)"
    "has_flag RT_TIMER_FLAG_PERIODIC (tm_timer s' x)" "init_tick (tm_timer s' x) = init_tick (tm_timer s x)"
    if "x \<in> set xs" "has_flag RT_TIMER_FLAG_PERIODIC (tm_timer s x)" for x
    using that l0[of x] c(6,7) by (simp_all add: f left_def fired_def left_started)
  moreover have "x \<in> set xs' \<longleftrightarrow> left s x \<noteq> 1 \<or> has_flag RT_TIMER_FLAG_PERIODIC (tm_timer s x)" if "x \<in> set xs" for x
    using that l0[of x] c(5) by (auto simp: f)
  ultimately show ?thesis using c(4) by (intro exI[of _ s'] exI[of _ xs']) auto
qed

text \<open>Many ticks: a periodic timer runs once per period.\<close>

lemma ticks_ok:
  "tm_ready s xs ys \<Longrightarrow> quiet_slice tslice \<Longrightarrow> R k (client s) \<Longrightarrow> j \<in> set xs
   \<Longrightarrow> has_flag RT_TIMER_FLAG_PERIODIC (tm_timer s j) \<Longrightarrow> left s j \<le> uint (init_tick (tm_timer s j))
   \<Longrightarrow> p = unat (init_tick (tm_timer s j)) \<Longrightarrow>
   \<exists>s' xs'. rt_ticks tslice (client_cb act) n s = Inr s' \<and> tm_ready s' xs' ys
     \<and> R (k + (n + (p - nat (left s j))) div p) (client s')"
proof (induction n arbitrary: s xs k)
  case 0
  have "left s j \<noteq> 0" using 0(1,4) by (simp add: tm_ready_def)
  then have "1 \<le> left s j" using left_nonneg[of s j] by linarith
  moreover have "left s j \<le> int p" using 0(6,7) by (simp only: uint_nat)
  ultimately have "p - nat (left s j) < p" by arith
  then show ?case using 0 by auto
next
  case (Suc n)
  obtain s1 xs1 where s1: "rt_tick_increase tslice (client_cb act) s = Inr s1" "tm_ready s1 xs1 ys"
    "R (k + (if j \<in> set xs \<and> left s j = 1 then 1 else 0)) (client s1)"
    "\<forall>x\<in>set xs. if has_flag RT_TIMER_FLAG_PERIODIC (tm_timer s x)
         then x \<in> set xs1 \<and> has_flag RT_TIMER_FLAG_PERIODIC (tm_timer s1 x)
           \<and> init_tick (tm_timer s1 x) = init_tick (tm_timer s x)
           \<and> left s1 x = (if left s x = 1 then uint (init_tick (tm_timer s x)) else left s x - 1)
         else x \<in> set xs1 \<longleftrightarrow> left s x \<noteq> 1"
    using tick_ok[OF Suc.prems(1-3)] by blast
  have j1: "j \<in> set xs1" "has_flag RT_TIMER_FLAG_PERIODIC (tm_timer s1 j)"
    "init_tick (tm_timer s1 j) = init_tick (tm_timer s j)"
    "left s1 j = (if left s j = 1 then uint (init_tick (tm_timer s j)) else left s j - 1)"
    using s1(4) Suc.prems(4,5) by (auto split: if_splits)
  define L where "L = nat (left s j)"
  have l: "left s j = int L" by (simp add: L_def)
  have pi: "uint (init_tick (tm_timer s j)) = int p" using Suc.prems(7) by (simp only: uint_nat)
  have L: "1 \<le> L" "L \<le> p"
    using Suc.prems(1,4,6) by (auto simp: tm_ready_def l pi)
  have "left s1 j \<le> uint (init_tick (tm_timer s1 j))" using j1(3,4) L by (simp add: l pi)
  moreover have "p = unat (init_tick (tm_timer s1 j))" using Suc.prems(7) j1(3) by simp
  moreover define k1 where "k1 = k + (if L = 1 then 1 else 0)"
  moreover have "R k1 (client s1)" using s1(3) Suc.prems(4) by (simp add: k1_def l)
  ultimately obtain s2 xs2 where s2: "rt_ticks tslice (client_cb act) n s1 = Inr s2" "tm_ready s2 xs2 ys"
    "R (k1 + (n + (p - nat (left s1 j))) div p) (client s2)"
    using Suc.IH[of s1 xs1 k1] s1(2) Suc.prems(2) j1(1,2) by blast
  have "k1 + (n + (p - nat (left s1 j))) div p = k + (Suc n + (p - L)) div p"
  proof (cases "L = 1")
    case True
    then have "Suc n + (p - L) = n + p" using L by simp
    moreover have "(n + p) div p = Suc (n div p)" using L by (subst div_add_self2) simp_all
    ultimately show ?thesis using True L j1(4) by (simp add: k1_def l pi)
  next
    case False
    then have "n + (p - nat (left s1 j)) = Suc n + (p - L)" using j1(4) L by (simp add: l nat_diff_distrib)
    then show ?thesis using False by (simp add: k1_def)
  qed
  then show ?case using s1(1) s2 by (auto simp: L_def)
qed

end

end
