(* ===== verification/Rt_Timer_Props.thy ===== *)
theory Rt_Timer_Props
  imports Rt_Timer_Facts Pb_Drv
begin

text \<open>
  Properties of the timers, the client of the button timer (\<open>applications/pb_drv.c\<close>) among them.
\<close>

section \<open>The rate of a periodic timer\<close>

text \<open>A client that logs which timers ran.\<close>

definition log_act :: "nat \<Rightarrow> nat list \<Rightarrow> nat list res" where
  "log_act t ids = Inr (ids @ [t])"

interpretation logged: timer_clients log_act j "\<lambda>k ids. count_list ids j = k" for j
  by unfold_locales (auto simp: log_act_def)

section \<open>The button timer\<close>

fun pb_runs :: "nat \<Rightarrow> world \<Rightarrow> world res" where
  "pb_runs 0 w = Inr w"
| "pb_runs (Suc k) w = bindE (pb_runs k w) pb_timer_cb"

text \<open>The button timer's function is \<open>pb_timer_cb\<close>; the other timers of the firmware wake threads,
  which leaves the application's state alone.\<close>

definition pb_act :: "nat \<Rightarrow> nat \<Rightarrow> world \<Rightarrow> world res" where
  "pb_act tim_pb t w = (if t = tim_pb then pb_timer_cb w else Inr w)"

lemma pb_timer_cb_inv: "app_inv w \<Longrightarrow> \<exists>w'. pb_timer_cb w = Inr w' \<and> app_inv w'"
  using pb_sts_update_ok[of w] by (auto simp: pb_timer_cb_def)

interpretation buttons: timer_clients "pb_act j" j "\<lambda>k w. app_inv w \<and> pb_runs k w0 = Inr w" for j w0
proof
  fix k w assume "app_inv w \<and> pb_runs k w0 = Inr w"
  then show "\<exists>w'. pb_act j j w = Inr w' \<and> app_inv w' \<and> pb_runs (Suc k) w0 = Inr w'"
    using pb_timer_cb_inv[of w] by (auto simp: pb_act_def)
qed (auto simp: pb_act_def)

text \<open>The state the examples start from: no timer, a tick counter about to wrap round.\<close>

definition timers_reset :: "'w \<Rightarrow> 'w tmsys" where
  "timers_reset w = rt_system_timer_init \<lparr>tm_links = \<lparr>nxt = \<lambda>n. n, prv = \<lambda>n. n\<rparr>, tm_obj = \<lambda>_. None,
     tm_timer = \<lambda>_. \<lparr>tm_flag = 0, init_tick = 0, timeout_tick = 0\<rparr>, rt_tick = 0xFFFFFFFA,
     soft_waits = True, client = w\<rparr>"

lemma timers_reset_ready: "tm_ready (timers_reset w) [] []"
  by (simp add: tm_ready_def tm_ok_def tm_lists_def timers_reset_def rt_system_timer_init_def upd_links_def
      rt_list_init_def set_next_def set_prev_def dlist_def lone_def)

lemma quiet_id: "quiet_slice Inr"
  by (simp add: quiet_slice_def)

text \<open>A new periodic timer, started.\<close>

lemma new_timer_started:
  assumes r: "tm_ready s xs ys" and n: "tm_obj s t = None" and p: "time \<noteq> 0" "time < HALF_TICK"
  defines "s1 \<equiv> snd (rt_timer_create (Some t) time RT_TIMER_FLAG_PERIODIC s)"
  shows "\<exists>s2 xs'. rt_timer_start t s1 = Inr (RT_EOK, s2) \<and> tm_ready s2 xs' ys \<and> t \<in> set xs'
    \<and> has_flag RT_TIMER_FLAG_PERIODIC (tm_timer s2 t) \<and> init_tick (tm_timer s2 t) = time
    \<and> left s2 t = uint time \<and> client s2 = client s"
proof -
  have s1: "s1 = timer_obj_init t time RT_TIMER_FLAG_PERIODIC (upd_obj t (Some False) s)"
    by (simp add: s1_def rt_timer_create_def)
  have ok: "tm_ok s1 xs ys" using timer_obj_init_ok[OF _ n] r by (simp add: s1 tm_ready_def)
  have f: "tm_obj s1 t = Some False" "init_tick (tm_timer s1 t) = time"
    "has_flag RT_TIMER_FLAG_PERIODIC (tm_timer s1 t)" "\<not> has_flag RT_TIMER_FLAG_SOFT_TIMER (tm_timer s1 t)"
    "client s1 = client s" "rt_tick s1 = rt_tick s" "\<And>x. x \<noteq> t \<Longrightarrow> tm_timer s1 x = tm_timer s x"
    by (simp_all add: s1 timer_obj_init_def upd_obj_def has_flag_def upd_links_def upd_timer_def clear_flag_def)
  have mem: "\<forall>x\<in>set xs \<union> set ys. tm_obj s x \<noteq> None" using r unfolding tm_ready_def tm_ok_def tm_lists_def by blast
  then have t: "t \<notin> set ys" "t \<notin> set xs" using n by blast+
  obtain s2 xs' where s2: "rt_timer_start t s1 = Inr (RT_EOK, s2)" "tm_ok s2 xs' ys" "set xs' = insert t (set xs)"
    "tm_timer s2 = (tm_timer s1)(t := started (rt_tick s1) (tm_timer s1 t))" "same_rest s1 s2"
    using tm_ok_start[OF ok _ t(1)] f p by (auto simp del: not_None_eq)
  have l: "left s2 t = uint time" using s2(4,5) f by (simp add: left_def left_started same_rest_def)
  have o: "left s2 x = left s x \<and> tm_timer s2 x = tm_timer s x" if "x \<in> set xs" for x
    using that t s2(4,5) f by (auto simp: left_def same_rest_def)
  have "tm_ready s2 xs' ys"
    using s2(2,3,4) r l o p f by (auto simp: tm_ready_def uint_0_iff)
  then show ?thesis using s2 l f by (auto simp: same_rest_def)
qed

text \<open>C14: with other timers running or none, and whatever the tick counter's value, a new periodic timer
  of \<open>p\<close> ticks, started, runs exactly every \<open>p\<close> ticks, also across the wrap-around of the counter, as long
  as the timers' functions leave the timers alone.\<close>

theorem periodic_timer_rate:
  assumes "tm_ready s xs ys" "tm_obj s t = None" "p \<noteq> 0" "p < HALF_TICK" "quiet_slice tslice"
    "count_list (client s) t = 0"
  shows "\<exists>s1 s2. rt_timer_start t (snd (rt_timer_create (Some t) p RT_TIMER_FLAG_PERIODIC s)) = Inr (RT_EOK, s1)
    \<and> rt_ticks tslice (client_cb log_act) n s1 = Inr s2 \<and> count_list (client s2) t = n div unat p"
proof -
  obtain s1 xs' where s1: "rt_timer_start t (snd (rt_timer_create (Some t) p RT_TIMER_FLAG_PERIODIC s)) = Inr (RT_EOK, s1)"
    "tm_ready s1 xs' ys" "t \<in> set xs'" "has_flag RT_TIMER_FLAG_PERIODIC (tm_timer s1 t)"
    "init_tick (tm_timer s1 t) = p" "left s1 t = uint p" "client s1 = client s"
    using new_timer_started[OF assms(1-4)] by blast
  then show ?thesis
    using logged.ticks_ok[OF s1(2) assms(5), where j = t and k = 0 and p = "unat p" and n = n] assms(6) by auto
qed

lemma periodic_timer_rate_witness:
  "\<exists>s1 s2. rt_timer_start 7 (snd (rt_timer_create (Some 7) 30 RT_TIMER_FLAG_PERIODIC (timers_reset []))) = Inr (RT_EOK, s1)
    \<and> rt_ticks Inr (client_cb log_act) 100 s1 = Inr s2 \<and> count_list (client s2) 7 = 3"
  using periodic_timer_rate[OF timers_reset_ready[of "[]"] _ _ _ quiet_id, where t = 7 and p = 30 and n = 100]
  by (simp add: timers_reset_def rt_system_timer_init_def upd_links_def)

text \<open>The button timer. In any state of the application that keeps its invariant, the timer \<open>tim_init\<close>
  creates and starts, of 30 ticks, samples the buttons once every 30 ticks; no sample faults.\<close>

theorem button_timer_samples:
  assumes "tm_ready s xs ys" "tm_obj s tim_pb = None" "quiet_slice tslice" "app_inv (client s)"
  shows "\<exists>s1 s2. rt_timer_start tim_pb (snd (rt_timer_create (Some tim_pb) 30 RT_TIMER_FLAG_PERIODIC s)) = Inr (RT_EOK, s1)
    \<and> rt_ticks tslice (client_cb (pb_act tim_pb)) n s1 = Inr s2
    \<and> pb_runs (n div 30) (client s) = Inr (client s2) \<and> app_inv (client s2)"
proof -
  have p: "(30 :: u32) \<noteq> 0" "(30 :: u32) < HALF_TICK" by simp_all
  obtain s1 xs' where s1: "rt_timer_start tim_pb (snd (rt_timer_create (Some tim_pb) 30 RT_TIMER_FLAG_PERIODIC s)) = Inr (RT_EOK, s1)"
    "tm_ready s1 xs' ys" "tim_pb \<in> set xs'" "has_flag RT_TIMER_FLAG_PERIODIC (tm_timer s1 tim_pb)"
    "init_tick (tm_timer s1 tim_pb) = 30" "left s1 tim_pb = uint (30 :: u32)" "client s1 = client s"
    using new_timer_started[OF assms(1,2) p] by blast
  have c: "app_inv (client s1) \<and> pb_runs 0 (client s) = Inr (client s1)" using assms(4) s1(7) by simp
  have l: "left s1 tim_pb \<le> uint (init_tick (tm_timer s1 tim_pb))" "30 = unat (init_tick (tm_timer s1 tim_pb))"
    unfolding s1(5,6) by simp_all
  have "0 + (n + (30 - nat (left s1 tim_pb))) div 30 = n div 30" unfolding s1(6) by simp
  then show ?thesis
    using buttons.ticks_ok[OF s1(2) assms(3) c s1(3,4) l, of n] s1(1) by metis
qed

lemma button_timer_samples_witness:
  "\<exists>s1 s2. rt_timer_start 7 (snd (rt_timer_create (Some 7) 30 RT_TIMER_FLAG_PERIODIC (timers_reset ready_world))) = Inr (RT_EOK, s1)
    \<and> rt_ticks Inr (client_cb (pb_act 7)) 65 s1 = Inr s2 \<and> pb_runs 2 ready_world = Inr (client s2)"
proof -
  have c: "client (timers_reset ready_world) = ready_world" "tm_obj (timers_reset ready_world) 7 = None"
    by (simp_all add: timers_reset_def rt_system_timer_init_def upd_links_def)
  have i: "app_inv (client (timers_reset ready_world))" by (simp only: c(1) ready_world_inv)
  have "(65 :: nat) div 30 = 2" by simp
  then show ?thesis
    using button_timer_samples[OF timers_reset_ready c(2) quiet_id i, of 65] unfolding c(1) by metis
qed

section \<open>The list of started timers\<close>

text \<open>C15: starting a timer refines the insertion into a list sorted by the ticks left, behind those that
  run out with it; nothing else changes. The pointer walk of the code ends, and the links stay those of a
  doubly linked list.\<close>

theorem timer_start_sorted:
  assumes "tm_ok s xs ys" "tm_obj s t \<noteq> None" "t \<notin> set ys" "init_tick (tm_timer s t) < HALF_TICK"
    "\<not> has_flag RT_TIMER_FLAG_SOFT_TIMER (tm_timer s t)"
  shows "\<exists>s'. rt_timer_start t s = Inr (RT_EOK, s') \<and> client s' = client s
    \<and> left s' t = uint (init_tick (tm_timer s t))
    \<and> (\<forall>x. x \<noteq> t \<longrightarrow> left s' x = left s x)
    \<and> tm_ok s' (takeWhile (\<lambda>x. left s' x \<le> left s' t) (remove1 t xs) @ t
              # dropWhile (\<lambda>x. left s' x \<le> left s' t) (remove1 t xs)) ys"
proof -
  obtain s' xs' where s': "rt_timer_start t s = Inr (RT_EOK, s')" "tm_ok s' xs' ys"
    "xs' = takeWhile (\<lambda>x. left s' x \<le> left s' t) (remove1 t xs) @ t
              # dropWhile (\<lambda>x. left s' x \<le> left s' t) (remove1 t xs)"
    "tm_timer s' = (tm_timer s)(t := started (rt_tick s) (tm_timer s t))" "same_rest s s'"
    using tm_ok_start[OF assms] by blast
  then show ?thesis by (auto simp: same_rest_def left_def left_started)
qed

definition timers_two :: "unit tmsys" where
  "timers_two = snd (rt_timer_create (Some 2) 9 RT_TIMER_FLAG_PERIODIC
     (snd (rt_timer_create (Some 1) 5 RT_TIMER_FLAG_PERIODIC (timers_reset ()))))"

lemma timers_two_ok: "tm_ok timers_two [] []" "tm_obj timers_two 1 = Some False" "tm_obj timers_two 2 = Some False"
    "init_tick (tm_timer timers_two 1) = 5" "init_tick (tm_timer timers_two 2) = 9"
    "\<not> has_flag RT_TIMER_FLAG_SOFT_TIMER (tm_timer timers_two 1)"
    "\<not> has_flag RT_TIMER_FLAG_ACTIVATED (tm_timer timers_two 1)"
proof -
  have a: "tm_ok (timers_reset ()) [] []" using timers_reset_ready by (simp add: tm_ready_def)
  have "tm_ok (timer_obj_init 1 5 RT_TIMER_FLAG_PERIODIC (upd_obj 1 (Some False) (timers_reset ()))) [] []"
    by (rule timer_obj_init_ok[OF a])
      (simp add: timers_reset_def rt_system_timer_init_def upd_links_def)
  then have "tm_ok (timer_obj_init 2 9 RT_TIMER_FLAG_PERIODIC (upd_obj 2 (Some False)
      (timer_obj_init 1 5 RT_TIMER_FLAG_PERIODIC (upd_obj 1 (Some False) (timers_reset ()))))) [] []"
    by (rule timer_obj_init_ok)
      (simp add: timer_obj_init_def upd_obj_def upd_links_def upd_timer_def timers_reset_def rt_system_timer_init_def)
  then show "tm_ok timers_two [] []" by (simp add: timers_two_def rt_timer_create_def)
qed (simp_all add: timers_two_def rt_timer_create_def timer_obj_init_def upd_obj_def upd_links_def upd_timer_def
    has_flag_def clear_flag_def)

lemma timer_start_sorted_witness:
  "\<exists>s1 s2. rt_timer_start 1 timers_two = Inr (RT_EOK, s1) \<and> left s1 1 = 5 \<and> tm_ok s1 [1] []"
  using timer_start_sorted[OF timers_two_ok(1), of 1] timers_two_ok by auto

text \<open>Stopping a started timer takes it out of its list and clears its flag; stopping another one is an
  error that changes nothing.\<close>

theorem timer_stop_spec:
  assumes "tm_ok s xs ys" "tm_obj s t \<noteq> None" "t \<notin> set ys"
  shows "if has_flag RT_TIMER_FLAG_ACTIVATED (tm_timer s t)
    then \<exists>s'. rt_timer_stop t s = Inr (RT_EOK, s') \<and> tm_ok s' (remove1 t xs) ys
      \<and> \<not> has_flag RT_TIMER_FLAG_ACTIVATED (tm_timer s' t)
    else rt_timer_stop t s = Inr (- RT_ERROR, s)"
  using assms by (rule rt_timer_stop_ok)

lemma timer_stop_spec_witness: "rt_timer_stop 1 timers_two = Inr (- 1, timers_two)"
proof -
  have "tm_obj timers_two 1 \<noteq> None" "1 \<notin> set []" unfolding timers_two_ok by simp_all
  from timer_stop_spec[OF timers_two_ok(1) this] show ?thesis using timers_two_ok(7) by simp
qed

section \<open>A period of no ticks\<close>

definition stuck :: "'w tmsys \<Rightarrow> bool" where
  "stuck s \<longleftrightarrow> (\<exists>xs ys t. tm_ok s xs ys \<and> t \<in> set xs \<and> left s t = 0
     \<and> has_flag RT_TIMER_FLAG_PERIODIC (tm_timer s t) \<and> init_tick (tm_timer s t) = 0)"

text \<open>The first timer of the list is due; it runs, and the stuck one is still there and still due.\<close>

lemma stuck_step:
  assumes s: "stuck s" and act: "\<And>t w. \<exists>w'. act t w = Inr w'"
  shows "\<exists>h s'. \<not> rt_list_isempty Hard_List (tm_links s) \<and> nxt (tm_links s) Hard_List = Row h
    \<and> rt_tick s - timeout_tick (tm_timer s h) < HALF_TICK
    \<and> timer_fire (client_cb act) h s = Inr s' \<and> stuck s'"
proof -
  obtain xs ys t where t: "tm_ok s xs ys" "t \<in> set xs" "left s t = 0"
    "has_flag RT_TIMER_FLAG_PERIODIC (tm_timer s t)" "init_tick (tm_timer s t) = 0"
    using s by (auto simp: stuck_def)
  obtain h us where xs: "xs = h # us" using t(2) by (cases xs) auto
  have d: "dlist (tm_links s) Hard_List (map Row xs)" using t(1) by (simp add: tm_ok_def tm_lists_def)
  have "left s h \<le> left s t" using t(1,2) xs by (auto simp: tm_ok_def)
  then have h0: "left s h = 0" using t(3) left_nonneg[of s h] by linarith
  obtain w where "act h (client s) = Inr w" using act by blast
  then obtain s' xs' where s': "timer_fire (client_cb act) h s = Inr s'" "tm_ok s' xs' ys"
    "set xs' = (if has_flag RT_TIMER_FLAG_PERIODIC (tm_timer s h) then insert h (set us) else set us)"
    "tm_timer s' = (tm_timer s)(h := fired (rt_tick s) (tm_timer s h))" "rt_tick s' = rt_tick s"
    using timer_fire_ok[of s h us ys act w] t(1) xs by blast
  have "t \<in> set xs'" using s'(3) t(2,4) xs by auto
  moreover have "left s' t = 0 \<and> has_flag RT_TIMER_FLAG_PERIODIC (tm_timer s' t) \<and> init_tick (tm_timer s' t) = 0"
    using t s'(4,5) by (cases "t = h") (auto simp: left_def fired_def left_started)
  ultimately have "stuck s'" using s'(2) unfolding stuck_def by blast
  moreover have "rt_tick s - timeout_tick (tm_timer s h) < HALF_TICK"
    using due_left[of "rt_tick s" "tm_timer s h"] h0 t(1) xs by (simp add: tm_ok_def left_def)
  ultimately show ?thesis
    using dlist_empty[OF d] dlist_first[of "tm_links s" Hard_List "Row h" "map Row us"] d xs s'(1) by auto
qed

lemma stuck_loop:
  assumes act: "\<And>t w. \<exists>w'. act t w = Inr w'"
  shows "check_loop cb cur s = Some y \<Longrightarrow> \<not> (cb = client_cb act \<and> cur = rt_tick s \<and> stuck s)"
proof (rule check_loop.raw_induct[of "\<lambda>cb cur s y. \<not> (cb = client_cb act \<and> cur = rt_tick s \<and> stuck s)"],
    goal_cases)
  case (1 loop cb cur s y)
  show ?case
  proof
    assume a: "cb = client_cb act \<and> cur = rt_tick s \<and> stuck s"
    then obtain h s' where "\<not> rt_list_isempty Hard_List (tm_links s)" "nxt (tm_links s) Hard_List = Row h"
      "rt_tick s - timeout_tick (tm_timer s h) < HALF_TICK" "timer_fire (client_cb act) h s = Inr s'" "stuck s'"
      using stuck_step[where act = act, OF _ act] by blast
    then show False using 1 a by simp
  qed
qed

text \<open>A due periodic timer of 0 ticks, which \<open>rt_timer_create\<close> and \<open>rt_timer_start\<close> accept, keeps the
  check of the tick interrupt from ever returning, whatever the timers' functions do to the client.\<close>

theorem zero_period_hangs:
  assumes "tm_ok s xs ys" "t \<in> set xs" "left s t = 0" "has_flag RT_TIMER_FLAG_PERIODIC (tm_timer s t)"
    "init_tick (tm_timer s t) = 0" "\<And>t w. \<exists>w'. act t w = Inr w'"
  shows "rt_timer_check (client_cb act) s = Inl No_Return"
proof -
  have "stuck s" using assms(1-5) unfolding stuck_def by blast
  then have "check_loop (client_cb act) (rt_tick s) s = None"
    using stuck_loop[OF assms(6)] by (cases "check_loop (client_cb act) (rt_tick s) s") auto
  then show ?thesis by (simp add: rt_timer_check_def)
qed

lemma zero_period_hangs_witness:
  "\<exists>s. rt_timer_start 7 (snd (rt_timer_create (Some 7) 0 RT_TIMER_FLAG_PERIODIC (timers_reset []))) = Inr (RT_EOK, s)
    \<and> rt_timer_check (client_cb log_act) s = Inl No_Return"
proof -
  define s0 where "s0 = snd (rt_timer_create (Some 7) 0 RT_TIMER_FLAG_PERIODIC (timers_reset ([] :: nat list)))"
  have e: "s0 = timer_obj_init 7 0 RT_TIMER_FLAG_PERIODIC (upd_obj 7 (Some False) (timers_reset []))"
    by (simp add: s0_def rt_timer_create_def)
  have r: "tm_ok (timers_reset ([] :: nat list)) [] []" using timers_reset_ready by (simp add: tm_ready_def)
  have n: "tm_obj (timers_reset ([] :: nat list)) 7 = None"
    by (simp add: timers_reset_def rt_system_timer_init_def upd_links_def)
  have ok0: "tm_ok s0 [] []" unfolding e using r n by (rule timer_obj_init_ok)
  have f: "tm_obj s0 7 \<noteq> None" "(7 :: nat) \<notin> set []" "init_tick (tm_timer s0 7) < HALF_TICK"
    "\<not> has_flag RT_TIMER_FLAG_SOFT_TIMER (tm_timer s0 7)" "has_flag RT_TIMER_FLAG_PERIODIC (tm_timer s0 7)"
    "init_tick (tm_timer s0 7) = 0"
    by (simp_all add: e timer_obj_init_def upd_obj_def upd_links_def upd_timer_def has_flag_def clear_flag_def)
  obtain s xs' where s: "rt_timer_start 7 s0 = Inr (RT_EOK, s)" "tm_ok s xs' []" "set xs' = insert 7 (set [])"
    "tm_timer s = (tm_timer s0)(7 := started (rt_tick s0) (tm_timer s0 7))" "same_rest s0 s"
    using tm_ok_start[OF ok0 f(1-4)] by blast
  have "7 \<in> set xs'" "left s 7 = 0" "has_flag RT_TIMER_FLAG_PERIODIC (tm_timer s 7)" "init_tick (tm_timer s 7) = 0"
    using s f by (simp_all add: left_def left_started same_rest_def)
  then have "rt_timer_check (client_cb log_act) s = Inl No_Return"
    by (rule zero_period_hangs[OF s(2)]) (simp add: log_act_def)
  then show ?thesis using s(1) by (simp add: s0_def)
qed

section \<open>Milliseconds\<close>

text \<open>\<open>rt_tick_from_millisecond\<close> is exact at 1000 ticks a second, and makes a negative time the
  value that means waiting forever.\<close>

theorem tick_from_millisecond_exact:
  assumes "ms \<le> 2147483647"
  shows "uint (rt_tick_from_millisecond ms) = (if ms < 0 then 4294967295 else ms)"
proof (cases "ms < 0")
  case True
  then show ?thesis
    by (simp add: rt_tick_from_millisecond_def to_u32_def unsigned_minus_1_eq_mask mask_eq_exp_minus_1)
next
  case False
  define a where "a = 1000 * (ms div 1000)"
  define b where "b = (1000 * (ms mod 1000) + 999) div 1000"
  have m: "0 \<le> ms mod 1000" by simp
  have b: "b = ms mod 1000" using m by (simp add: b_def)
  have ab: "a + b = ms" by (simp add: a_def b)
  have n: "0 \<le> a" "0 \<le> b" using False by (simp_all add: a_def b)
  have "rt_tick_from_millisecond ms = to_u32 a + to_u32 b"
    using False m by (simp add: rt_tick_from_millisecond_def c_quot_nonneg a_def b_def)
  then have "rt_tick_from_millisecond ms = to_u32 ms" by (simp add: to_u32_def flip: ab)
  then show ?thesis using False assms by (simp add: uint_to_u32)
qed

lemma tick_from_millisecond_exact_witness: "uint (rt_tick_from_millisecond 1500) = 1500"
  using tick_from_millisecond_exact[of 1500] by simp

end
