(* ===== verification/Mem.thy ===== *)
theory Mem
  imports Prelude
begin

text \<open>
  The small-memory allocator of the kernel (\<open>rt-thread/src/mem.c\<close>): blocks that follow one
  another in the heap, each behind a header with the offsets of the next and the previous one.

  Pointers are addresses. The headers live in a store of their own, by address; reading where no
  header was ever written is a fault. The bytes behind the headers are the users'; \<open>rt_realloc\<close> and
  \<open>rt_calloc\<close> write them, and a header they run over is lost. \<open>sizeof (struct heap_mem)\<close> is 12 on this target and
  \<open>RT_ALIGN_SIZE\<close> is 4. The semaphore \<open>heap_sem\<close> excludes other threads, so that every operation
  runs as a whole; \<open>in_isr\<close> is whether an interrupt runs, which \<open>RT_DEBUG_NOT_IN_INTERRUPT\<close>
  asserts against. Hooks are not set, \<open>RT_USING_MEMTRACE\<close> is not defined.
\<close>

section \<open>The heap\<close>

abbreviation HEAP_MAGIC :: u16 where "HEAP_MAGIC \<equiv> 0x1ea0"
abbreviation SIZEOF_STRUCT_MEM :: u32 where "SIZEOF_STRUCT_MEM \<equiv> 12"
abbreviation MIN_SIZE :: u32 where "MIN_SIZE \<equiv> 12"
abbreviation MIN_SIZE_ALIGNED :: u32 where "MIN_SIZE_ALIGNED \<equiv> 12"

record heap_mem =
  hm_magic :: u16
  hm_used :: u16
  hm_next :: u32
  hm_prev :: u32

record heap =
  hdrs :: "u32 \<Rightarrow> heap_mem option"
  heap_bytes :: "u32 \<Rightarrow> u8"
  heap_ptr :: u32
  heap_end :: u32
  lfree :: u32
  mem_size_aligned :: u32
  used_mem :: u32
  max_mem :: u32
  in_isr :: bool

text \<open>\<open>RT_ALIGN (size, 4)\<close> and \<open>RT_ALIGN_DOWN (size, 4)\<close>; the sum wraps round.\<close>

definition rt_align :: "u32 \<Rightarrow> u32" where
  "rt_align sz = (sz + 3) AND NOT 3"

definition rt_align_down :: "u32 \<Rightarrow> u32" where
  "rt_align_down sz = sz AND NOT 3"

definition hdr :: "heap \<Rightarrow> u32 \<Rightarrow> heap_mem res" where
  "hdr h a = (case hdrs h a of None \<Rightarrow> Inl Uninit_Read | Some m \<Rightarrow> Inr m)"

definition put_hdr :: "u32 \<Rightarrow> heap_mem \<Rightarrow> heap \<Rightarrow> heap" where
  "put_hdr a m h = h\<lparr>hdrs := (hdrs h)(a \<mapsto> m)\<rparr>"

text \<open>An assignment to fields of the header at an address, which must be one.\<close>

definition upd_hdr :: "u32 \<Rightarrow> (heap_mem \<Rightarrow> heap_mem) \<Rightarrow> heap \<Rightarrow> heap res" where
  "upd_hdr a f h = bindE (hdr h a) (\<lambda>m. Inr (put_hdr a (f m) h))"

definition set_lfree :: "u32 \<Rightarrow> heap \<Rightarrow> heap" where
  "set_lfree a h = h\<lparr>lfree := a\<rparr>"

definition set_used_mem :: "u32 \<Rightarrow> heap \<Rightarrow> heap" where
  "set_used_mem v h = h\<lparr>used_mem := v\<rparr>"

text \<open>\<open>used_mem += v; if (max_mem < used_mem) max_mem = used_mem;\<close>\<close>

definition count_used :: "u32 \<Rightarrow> heap \<Rightarrow> heap" where
  "count_used v h =
     (let h1 = set_used_mem (used_mem h + v) h in
      if max_mem h1 < used_mem h1 then h1\<lparr>max_mem := used_mem h1\<rparr> else h1)"

section \<open>Initialisation\<close>

definition rt_system_heap_init :: "u32 \<Rightarrow> u32 \<Rightarrow> heap \<Rightarrow> heap res" where
  "rt_system_heap_init begin_addr end_addr h =
     (let begin_align = rt_align begin_addr; end_align = rt_align_down end_addr in
      bindE (assertE (\<not> in_isr h)) (\<lambda>_.
      if end_align > 2 * SIZEOF_STRUCT_MEM \<and> end_align - 2 * SIZEOF_STRUCT_MEM \<ge> begin_align
      then let sz = end_align - begin_align - 2 * SIZEOF_STRUCT_MEM;
               fin = sz + SIZEOF_STRUCT_MEM;
               h1 = h\<lparr>mem_size_aligned := sz, heap_ptr := begin_align\<rparr>;
               h2 = put_hdr begin_align \<lparr>hm_magic = HEAP_MAGIC, hm_used = 0, hm_next = fin, hm_prev = 0\<rparr> h1;
               h3 = put_hdr (begin_align + fin) \<lparr>hm_magic = HEAP_MAGIC, hm_used = 1, hm_next = fin, hm_prev = fin\<rparr>
                      (h2\<lparr>heap_end := begin_align + fin\<rparr>)
           in Inr (set_lfree begin_align h3)
      else Inr h))"

section \<open>Joining free blocks\<close>

definition plug_forward :: "u32 \<Rightarrow> heap \<Rightarrow> heap res" where
  "plug_forward mem h =
     bindE (hdr h mem) (\<lambda>m.
     let nmem = heap_ptr h + hm_next m in
     bindE (hdr h nmem) (\<lambda>n.
     if mem \<noteq> nmem \<and> hm_used n = 0 \<and> nmem \<noteq> heap_end h
     then let h1 = (if lfree h = nmem then set_lfree mem h else h) in
       bindE (upd_hdr mem (\<lambda>m. m\<lparr>hm_next := hm_next n\<rparr>) h1) (\<lambda>h2.
       upd_hdr (heap_ptr h + hm_next n) (\<lambda>x. x\<lparr>hm_prev := mem - heap_ptr h\<rparr>) h2)
     else Inr h))"

definition plug_backward :: "u32 \<Rightarrow> heap \<Rightarrow> heap res" where
  "plug_backward mem h =
     bindE (hdr h mem) (\<lambda>m.
     let pmem = heap_ptr h + hm_prev m in
     bindE (hdr h pmem) (\<lambda>p.
     if pmem \<noteq> mem \<and> hm_used p = 0
     then let h1 = (if lfree h = mem then set_lfree pmem h else h) in
       bindE (upd_hdr pmem (\<lambda>p. p\<lparr>hm_next := hm_next m\<rparr>) h1) (\<lambda>h2.
       upd_hdr (heap_ptr h + hm_next m) (\<lambda>x. x\<lparr>hm_prev := pmem - heap_ptr h\<rparr>) h2)
     else Inr h))"

definition plug_holes :: "u32 \<Rightarrow> heap \<Rightarrow> heap res" where
  "plug_holes mem h =
     bindE (assertE (mem \<ge> heap_ptr h)) (\<lambda>_.
     bindE (assertE (mem < heap_end h)) (\<lambda>_.
     bindE (hdr h mem) (\<lambda>m.
     bindE (assertE (hm_used m = 0)) (\<lambda>_.
     bindE (plug_forward mem h) (\<lambda>h1. plug_backward mem h1)))))"

section \<open>Allocation\<close>

text \<open>The search from the lowest free block on, for a free block of \<open>sz\<close> bytes.\<close>

partial_function (option) find_block :: "heap \<Rightarrow> u32 \<Rightarrow> u32 \<Rightarrow> u32 option res option" where
  "find_block h sz ptr =
     (if ptr < mem_size_aligned h - sz
      then (case hdrs h (heap_ptr h + ptr) of
          None \<Rightarrow> Some (Inl Uninit_Read)
        | Some m \<Rightarrow>
            if hm_used m = 0 \<and> hm_next m - (ptr + SIZEOF_STRUCT_MEM) \<ge> sz then Some (Inr (Some ptr))
            else find_block h sz (hm_next m))
      else Some (Inr None))"

text \<open>\<open>while (lfree->used && lfree != heap_end) lfree = &heap_ptr[lfree->next];\<close>\<close>

partial_function (option) next_free :: "heap \<Rightarrow> u32 \<Rightarrow> u32 res option" where
  "next_free h a =
     (case hdrs h a of
        None \<Rightarrow> Some (Inl Uninit_Read)
      | Some m \<Rightarrow>
          if hm_used m \<noteq> 0 \<and> a \<noteq> heap_end h then next_free h (heap_ptr h + hm_next m)
          else Some (Inr a))"

text \<open>The block found is split when what is left can hold a header and \<open>MIN_SIZE_ALIGNED\<close> bytes.\<close>

definition take_block :: "u32 \<Rightarrow> u32 \<Rightarrow> heap \<Rightarrow> heap res" where
  "take_block ptr sz h =
     (let mem = heap_ptr h + ptr in
      bindE (hdr h mem) (\<lambda>m.
      if hm_next m - (ptr + SIZEOF_STRUCT_MEM) \<ge> sz + SIZEOF_STRUCT_MEM + MIN_SIZE_ALIGNED
      then let ptr2 = ptr + SIZEOF_STRUCT_MEM + sz;
               h1 = put_hdr (heap_ptr h + ptr2)
                      \<lparr>hm_magic = HEAP_MAGIC, hm_used = 0, hm_next = hm_next m, hm_prev = ptr\<rparr> h in
           bindE (upd_hdr mem (\<lambda>m. m\<lparr>hm_next := ptr2, hm_used := 1\<rparr>) h1) (\<lambda>h2.
           bindE (if hm_next m \<noteq> mem_size_aligned h + SIZEOF_STRUCT_MEM
                  then upd_hdr (heap_ptr h + hm_next m) (\<lambda>x. x\<lparr>hm_prev := ptr2\<rparr>) h2 else Inr h2) (\<lambda>h3.
           Inr (count_used (sz + SIZEOF_STRUCT_MEM) h3)))
      else
           bindE (upd_hdr mem (\<lambda>m. m\<lparr>hm_used := 1\<rparr>) h) (\<lambda>h2.
           Inr (count_used (hm_next m - (mem - heap_ptr h)) h2))))"

definition rt_malloc :: "u32 \<Rightarrow> heap \<Rightarrow> (u32 option \<times> heap) res" where
  "rt_malloc sz h =
     (if sz = 0 then Inr (None, h)
      else bindE (assertE (\<not> in_isr h)) (\<lambda>_.
        if rt_align sz > mem_size_aligned h then Inr (None, h)
        else let sz = (if rt_align sz < MIN_SIZE_ALIGNED then MIN_SIZE_ALIGNED else rt_align sz) in
          bindE (returns (find_block h sz (lfree h - heap_ptr h))) (\<lambda>found.
          case found of
            None \<Rightarrow> Inr (None, h)
          | Some ptr \<Rightarrow>
              let mem = heap_ptr h + ptr in
              bindE (take_block ptr sz h) (\<lambda>h1.
              bindE (upd_hdr mem (\<lambda>m. m\<lparr>hm_magic := HEAP_MAGIC\<rparr>) h1) (\<lambda>h2.
              bindE (if mem = lfree h2
                     then bindE (returns (next_free h2 (lfree h2))) (\<lambda>a. Inr (set_lfree a h2))
                     else Inr h2) (\<lambda>h3.
              bindE (assertE (mem + SIZEOF_STRUCT_MEM + sz \<le> heap_end h3)) (\<lambda>_.
              bindE (assertE ((mem + SIZEOF_STRUCT_MEM) mod 4 = 0)) (\<lambda>_.
              bindE (assertE (mem AND 3 = 0)) (\<lambda>_.
              Inr (Some (mem + SIZEOF_STRUCT_MEM), h3))))))))))"

section \<open>Release\<close>

definition rt_free :: "u32 option \<Rightarrow> heap \<Rightarrow> heap res" where
  "rt_free rmem h =
     (case rmem of None \<Rightarrow> Inr h
      | Some a \<Rightarrow>
        bindE (assertE (\<not> in_isr h)) (\<lambda>_.
        bindE (assertE (a AND 3 = 0)) (\<lambda>_.
        bindE (assertE (a \<ge> heap_ptr h \<and> a < heap_end h)) (\<lambda>_.
        let mem = a - SIZEOF_STRUCT_MEM in
        bindE (hdr h mem) (\<lambda>m.
        bindE (assertE (hm_used m \<noteq> 0)) (\<lambda>_.
        bindE (assertE (hm_magic m = HEAP_MAGIC)) (\<lambda>_.
        let h1 = put_hdr mem (m\<lparr>hm_used := 0, hm_magic := HEAP_MAGIC\<rparr>) h;
            h2 = (if mem < lfree h1 then set_lfree mem h1 else h1);
            h3 = set_used_mem (used_mem h2 - (hm_next m - (mem - heap_ptr h))) h2 in
        plug_holes mem h3)))))))"

section \<open>Changing the size, and zeroed blocks\<close>

text \<open>\<open>rt_memcpy\<close> and \<open>rt_memset\<close> to zero: a header with a byte in the range is no header any more.\<close>

definition overwrite_hdrs :: "u32 \<Rightarrow> u32 \<Rightarrow> heap \<Rightarrow> heap" where
  "overwrite_hdrs dst n h =
     h\<lparr>hdrs := (\<lambda>a. if list_ex (\<lambda>i. a + i - dst < n) [0, 1, 2, 3, 4, 5, 6, 7, 8, 9, 10, 11]
                  then None else hdrs h a)\<rparr>"

definition copy_bytes :: "u32 \<Rightarrow> u32 \<Rightarrow> u32 \<Rightarrow> heap \<Rightarrow> heap" where
  "copy_bytes dst src n h =
     overwrite_hdrs dst n
       (h\<lparr>heap_bytes := (\<lambda>a. if a - dst < n then heap_bytes h (src + (a - dst)) else heap_bytes h a)\<rparr>)"

definition zero_bytes :: "u32 \<Rightarrow> u32 \<Rightarrow> heap \<Rightarrow> heap" where
  "zero_bytes dst n h =
     overwrite_hdrs dst n (h\<lparr>heap_bytes := (\<lambda>a. if a - dst < n then 0 else heap_bytes h a)\<rparr>)"

definition shrink_block :: "u32 \<Rightarrow> u32 \<Rightarrow> u32 \<Rightarrow> heap \<Rightarrow> heap res" where
  "shrink_block mem sz newsize h =
     (let ptr = mem - heap_ptr h;
          h0 = set_used_mem (used_mem h - (sz - newsize)) h;
          ptr2 = ptr + SIZEOF_STRUCT_MEM + newsize;
          mem2 = heap_ptr h + ptr2 in
      bindE (hdr h0 mem) (\<lambda>m.
      let h1 = put_hdr mem2 \<lparr>hm_magic = HEAP_MAGIC, hm_used = 0, hm_next = hm_next m, hm_prev = ptr\<rparr> h0 in
      bindE (upd_hdr mem (\<lambda>m. m\<lparr>hm_next := ptr2\<rparr>) h1) (\<lambda>h2.
      bindE (if hm_next m \<noteq> mem_size_aligned h + SIZEOF_STRUCT_MEM
             then upd_hdr (heap_ptr h + hm_next m) (\<lambda>x. x\<lparr>hm_prev := ptr2\<rparr>) h2 else Inr h2) (\<lambda>h3.
      plug_holes mem2 h3))))"

definition rt_realloc :: "u32 option \<Rightarrow> u32 \<Rightarrow> heap \<Rightarrow> (u32 option \<times> heap) res" where
  "rt_realloc rmem newsize h =
     bindE (assertE (\<not> in_isr h)) (\<lambda>_.
     let newsize = rt_align newsize in
     if newsize > mem_size_aligned h then Inr (None, h)
     else if newsize = 0 then bindE (rt_free rmem h) (\<lambda>h1. Inr (None, h1))
     else case rmem of
       None \<Rightarrow> rt_malloc newsize h
     | Some a \<Rightarrow>
         if a < heap_ptr h \<or> a \<ge> heap_end h then Inr (Some a, h)
         else let mem = a - SIZEOF_STRUCT_MEM; ptr = mem - heap_ptr h in
           bindE (hdr h mem) (\<lambda>m.
           let sz = hm_next m - ptr - SIZEOF_STRUCT_MEM in
           if sz = newsize then Inr (Some a, h)
           else if newsize + SIZEOF_STRUCT_MEM + MIN_SIZE < sz
           then bindE (shrink_block mem sz newsize h) (\<lambda>h1. Inr (Some a, h1))
           else bindE (rt_malloc newsize h) (\<lambda>(nmem, h1).
             case nmem of
               None \<Rightarrow> Inr (None, h1)
             | Some b \<Rightarrow>
                 bindE (rt_free (Some a) (copy_bytes b a (if sz < newsize then sz else newsize) h1)) (\<lambda>h2.
                 Inr (Some b, h2)))))"

definition rt_calloc :: "u32 \<Rightarrow> u32 \<Rightarrow> heap \<Rightarrow> (u32 option \<times> heap) res" where
  "rt_calloc cnt sz h =
     bindE (rt_malloc (cnt * sz) h) (\<lambda>(p, h1).
     case p of None \<Rightarrow> Inr (None, h1) | Some a \<Rightarrow> Inr (Some a, zero_bytes a (cnt * sz) h1))"

definition rt_memory_info :: "heap \<Rightarrow> u32 \<times> u32 \<times> u32" where
  "rt_memory_info h = (mem_size_aligned h, used_mem h, max_mem h)"

end
