(* ===== verification/Mem_Layout.thy ===== *)
theory Mem_Layout
  imports Mem
begin

text \<open>
  The heap as a sequence of blocks: \<open>(z, u)\<close> stands for a block of \<open>z\<close> bytes, header included, that
  is in use or free. \<open>layout h bs\<close> says that the headers of \<open>h\<close> are those of the blocks \<open>bs\<close>, one
  behind the other from \<open>heap_ptr\<close> to \<open>heap_end\<close>; \<open>heap_wf\<close> adds that no two free blocks are
  neighbours and that \<open>lfree\<close> is a free block or the end, \<open>heap_ok\<close> that it is the lowest one.
  What the allocator promises is stated on the sequence: \<open>alloc_blocks\<close> and \<open>free_blocks\<close>.
\<close>

section \<open>Addresses and offsets\<close>

abbreviation off :: "heap \<Rightarrow> nat \<Rightarrow> u32" where "off h k \<equiv> heap_ptr h + of_nat k"

lemma unat_of_nat_u32 [simp]: "k < 4294967296 \<Longrightarrow> unat (of_nat k :: u32) = k"
  by (simp add: unat_of_nat)

lemma unat_u32_less: "unat (w :: u32) < 4294967296"
  using unsigned_less[of w] by simp

lemma of_nat_u32_eq_iff: "j < 4294967296 \<Longrightarrow> k < 4294967296 \<Longrightarrow> (of_nat j :: u32) = of_nat k \<longleftrightarrow> j = k"
  by (metis unat_of_nat_u32)

lemma of_nat_u32_less_iff: "j < 4294967296 \<Longrightarrow> k < 4294967296 \<Longrightarrow> (of_nat j :: u32) < of_nat k \<longleftrightarrow> j < k"
  by (simp add: word_less_nat_alt)

lemma of_nat_u32_le_iff: "j < 4294967296 \<Longrightarrow> k < 4294967296 \<Longrightarrow> (of_nat j :: u32) \<le> of_nat k \<longleftrightarrow> j \<le> k"
  by (simp add: word_le_nat_alt)

lemmas of_nat_u32_iffs = of_nat_u32_eq_iff of_nat_u32_less_iff of_nat_u32_le_iff

lemma off_eq_iff: "j < 4294967296 \<Longrightarrow> k < 4294967296 \<Longrightarrow> off h j = off h k \<longleftrightarrow> j = k"
  by (simp add: of_nat_u32_iffs)

lemma unat_off: "unat (heap_ptr h) + k < 4294967296 \<Longrightarrow> unat (off h k) = unat (heap_ptr h) + k"
  by (simp add: unat_word_ariths)

lemma off_less_iff:
  "unat (heap_ptr h) + j < 4294967296 \<Longrightarrow> unat (heap_ptr h) + k < 4294967296 \<Longrightarrow>
   off h j < off h k \<longleftrightarrow> j < k"
  by (simp only: word_less_nat_alt unat_off) simp

text \<open>The header at an offset from the start of the heap.\<close>

definition hat :: "heap \<Rightarrow> nat \<Rightarrow> heap_mem option" where
  "hat h k = (if k < 4294967296 then hdrs h (off h k) else None)"

lemma hdrs_off: "k < 4294967296 \<Longrightarrow> hdrs h (off h k) = hat h k"
  by (simp add: hat_def)

lemma hdr_off: "k < 4294967296 \<Longrightarrow> hat h k = Some m \<Longrightarrow> hdr h (off h k) = Inr m"
  by (simp add: hat_def hdr_def)

lemma hat_put_hdr: "k < 4294967296 \<Longrightarrow> hat (put_hdr (off h k) m h) = (hat h)(k \<mapsto> m)"
  by (rule ext) (auto simp: hat_def put_hdr_def of_nat_u32_iffs)

lemma upd_hdr_off:
  "k < 4294967296 \<Longrightarrow> hat h k = Some m \<Longrightarrow> upd_hdr (off h k) f h = Inr (put_hdr (off h k) (f m) h)"
  by (simp add: upd_hdr_def hdr_off)

text \<open>Field by field: writing a header leaves the rest, and the rest leaves the headers.\<close>

lemma put_hdr_simps [simp]:
  "heap_ptr (put_hdr a m h) = heap_ptr h" "heap_end (put_hdr a m h) = heap_end h"
  "lfree (put_hdr a m h) = lfree h" "mem_size_aligned (put_hdr a m h) = mem_size_aligned h"
  "used_mem (put_hdr a m h) = used_mem h" "max_mem (put_hdr a m h) = max_mem h"
  "in_isr (put_hdr a m h) = in_isr h" "heap_bytes (put_hdr a m h) = heap_bytes h"
  by (simp_all add: put_hdr_def)

lemma set_lfree_simps [simp]:
  "heap_ptr (set_lfree a h) = heap_ptr h" "heap_end (set_lfree a h) = heap_end h"
  "lfree (set_lfree a h) = a" "mem_size_aligned (set_lfree a h) = mem_size_aligned h"
  "used_mem (set_lfree a h) = used_mem h" "max_mem (set_lfree a h) = max_mem h"
  "in_isr (set_lfree a h) = in_isr h" "heap_bytes (set_lfree a h) = heap_bytes h"
  "hat (set_lfree a h) = hat h"
  by (auto simp: set_lfree_def hat_def)

lemma set_used_mem_simps [simp]:
  "heap_ptr (set_used_mem v h) = heap_ptr h" "heap_end (set_used_mem v h) = heap_end h"
  "lfree (set_used_mem v h) = lfree h" "mem_size_aligned (set_used_mem v h) = mem_size_aligned h"
  "used_mem (set_used_mem v h) = v" "max_mem (set_used_mem v h) = max_mem h"
  "in_isr (set_used_mem v h) = in_isr h" "heap_bytes (set_used_mem v h) = heap_bytes h"
  "hat (set_used_mem v h) = hat h"
  by (auto simp: set_used_mem_def hat_def)

lemma count_used_simps [simp]:
  "heap_ptr (count_used v h) = heap_ptr h" "heap_end (count_used v h) = heap_end h"
  "lfree (count_used v h) = lfree h" "mem_size_aligned (count_used v h) = mem_size_aligned h"
  "used_mem (count_used v h) = used_mem h + v"
  "in_isr (count_used v h) = in_isr h" "heap_bytes (count_used v h) = heap_bytes h"
  "hat (count_used v h) = hat h"
  by (auto simp: count_used_def set_used_mem_def hat_def Let_def)

section \<open>Sequences of blocks\<close>

type_synonym block = "nat \<times> bool"

fun total :: "block list \<Rightarrow> nat" where
  "total [] = 0"
| "total ((z, u) # bs) = z + total bs"

definition used_total :: "block list \<Rightarrow> nat" where
  "used_total bs = total (filter snd bs)"

lemma total_append [simp]: "total (xs @ ys) = total xs + total ys"
  by (induction xs rule: total.induct) simp_all

lemma total_filter_le: "total (filter P bs) \<le> total bs"
  by (induction bs rule: total.induct) auto

lemma used_total_append [simp]: "used_total (xs @ ys) = used_total xs + used_total ys"
  by (simp add: used_total_def)

lemma used_total_Cons [simp]: "used_total ((z, u) # bs) = (if u then z else 0) + used_total bs"
  by (simp add: used_total_def)

lemma used_total_Nil [simp]: "used_total [] = 0"
  by (simp add: used_total_def)

lemma used_total_le: "used_total bs \<le> total bs"
  by (simp add: used_total_def total_filter_le)

text \<open>No two neighbours are free.\<close>

fun no_adj :: "block list \<Rightarrow> bool" where
  "no_adj ((z, u) # (y, v) # bs) = ((u \<or> v) \<and> no_adj ((y, v) # bs))"
| "no_adj [b] = True"
| "no_adj [] = True"

definition mk_hdr :: "bool \<Rightarrow> nat \<Rightarrow> nat \<Rightarrow> heap_mem" where
  "mk_hdr u nx pv = \<lparr>hm_magic = HEAP_MAGIC, hm_used = (if u then 1 else 0),
     hm_next = of_nat nx, hm_prev = of_nat pv\<rparr>"

lemma mk_hdr_simps [simp]:
  "hm_magic (mk_hdr u nx pv) = HEAP_MAGIC" "hm_used (mk_hdr u nx pv) = (if u then 1 else 0)"
  "hm_next (mk_hdr u nx pv) = of_nat nx" "hm_prev (mk_hdr u nx pv) = of_nat pv"
  "(mk_hdr u nx pv)\<lparr>hm_magic := HEAP_MAGIC\<rparr> = mk_hdr u nx pv"
  "(mk_hdr u nx pv)\<lparr>hm_used := 0\<rparr> = mk_hdr False nx pv"
  "(mk_hdr u nx pv)\<lparr>hm_used := 1\<rparr> = mk_hdr True nx pv"
  "(mk_hdr u nx pv)\<lparr>hm_prev := of_nat q\<rparr> = mk_hdr u nx q"
  "(mk_hdr u nx pv)\<lparr>hm_next := of_nat k\<rparr> = mk_hdr u k pv"
  by (simp_all add: mk_hdr_def)

lemma mk_hdr_eqs:
  "\<lparr>hm_magic = HEAP_MAGIC, hm_used = 0, hm_next = of_nat nx, hm_prev = of_nat pv\<rparr> = mk_hdr False nx pv"
  "\<lparr>hm_magic = HEAP_MAGIC, hm_used = 1, hm_next = of_nat nx, hm_prev = of_nat pv\<rparr> = mk_hdr True nx pv"
  by (simp_all add: mk_hdr_def)

text \<open>
  The blocks from offset \<open>k\<close> on, behind a block at offset \<open>p\<close>: \<open>seg\<close> without, \<open>chain\<close> with the header
  at the end of the heap, whose \<open>prev\<close> the code does not keep up.
\<close>

fun seg :: "(nat \<Rightarrow> heap_mem option) \<Rightarrow> nat \<Rightarrow> nat \<Rightarrow> block list \<Rightarrow> bool" where
  "seg f p k [] = True"
| "seg f p k ((z, u) # bs) =
     (f k = Some (mk_hdr u (k + z) p) \<and> 16 \<le> z \<and> 4 dvd z \<and> seg f k (k + z) bs)"

definition end_hdr :: "(nat \<Rightarrow> heap_mem option) \<Rightarrow> nat \<Rightarrow> bool" where
  "end_hdr f k = (case f k of None \<Rightarrow> False | Some e \<Rightarrow> hm_used e = 1 \<and> hm_next e = of_nat k)"

definition chain :: "(nat \<Rightarrow> heap_mem option) \<Rightarrow> nat \<Rightarrow> nat \<Rightarrow> block list \<Rightarrow> bool" where
  "chain f p k bs = (seg f p k bs \<and> end_hdr f (k + total bs))"

fun prv :: "nat \<Rightarrow> nat \<Rightarrow> block list \<Rightarrow> nat" where
  "prv p k [] = p"
| "prv p k ((z, u) # bs) = prv k (k + z) bs"

lemma prv_snoc [simp]: "prv p k (xs @ [(z, u)]) = k + total xs"
  by (induction p k xs rule: prv.induct) simp_all

lemma prv_le: "p \<le> k \<Longrightarrow> prv p k xs \<le> k + total xs"
  by (induction p k xs rule: prv.induct) fastforce+

lemma seg_append: "seg f p k (xs @ ys) \<longleftrightarrow> seg f p k xs \<and> seg f (prv p k xs) (k + total xs) ys"
  by (induction f p k xs rule: seg.induct) (auto simp: add.assoc)

lemma chain_append: "chain f p k (xs @ ys) \<longleftrightarrow> seg f p k xs \<and> chain f (prv p k xs) (k + total xs) ys"
  by (auto simp: chain_def seg_append add.assoc)

lemma chain_Cons: "chain f p k ((z, u) # bs) \<longleftrightarrow>
    f k = Some (mk_hdr u (k + z) p) \<and> 16 \<le> z \<and> 4 dvd z \<and> chain f k (k + z) bs"
  by (auto simp: chain_def add.assoc)

lemma seg_upd [simp]: "j < k \<or> k + total bs \<le> j \<Longrightarrow> seg (f(j \<mapsto> m)) p k bs = seg f p k bs"
  by (induction f p k bs rule: seg.induct) auto

lemma chain_upd [simp]: "j < k \<or> k + total bs < j \<Longrightarrow> chain (f(j \<mapsto> m)) p k bs = chain f p k bs"
  by (auto simp: chain_def end_hdr_def)

text \<open>The first header of a chain can get another \<open>prev\<close>.\<close>

lemma chain_head: "chain f p k bs \<Longrightarrow> \<exists>x. f k = Some x \<and> chain (f(k \<mapsto> x\<lparr>hm_prev := of_nat q\<rparr>)) q k bs"
  by (cases bs rule: total.cases) (auto simp: chain_def end_hdr_def split: option.splits)

lemma chain_Nil_prev: "chain f p k [] = chain f q k []"
  by (simp add: chain_def)

lemma seg_total_dvd: "seg f p k bs \<Longrightarrow> 4 dvd total bs"
  by (induction f p k bs rule: seg.induct) auto

lemma seg_len: "seg f p k bs \<Longrightarrow> 12 * length bs \<le> total bs"
  by (induction f p k bs rule: seg.induct) auto

section \<open>Alignment\<close>

lemma and_not_3: "unat ((y :: u32) AND NOT 3) = 4 * (unat y div 4)"
proof -
  have m: "(3 :: u32) = mask 2" by (simp add: mask_eq_exp_minus_1)
  have "y AND NOT 3 = push_bit 2 (drop_bit 2 y)"
    unfolding m by (rule bit_word_eqI) (auto simp: bit_simps not_less dest!: le_Suc_ex)
  also have "unat \<dots> = 4 * (unat y div 4)"
  proof -
    have "unat y div 4 < 1073741824" using unat_u32_less[of y] by simp
    then show ?thesis
      by (simp add: push_bit_eq_mult unat_word_ariths unat_drop_bit_eq drop_bit_nat_def)
  qed
  finally show ?thesis .
qed

lemma and_3_eq_0: "(y :: u32) AND 3 = 0 \<longleftrightarrow> 4 dvd unat y"
proof -
  have "y AND 3 = take_bit 2 y" by (simp add: take_bit_eq_mask mask_eq_exp_minus_1)
  then have "unat (y AND 3) = unat y mod 4"
    by (simp add: unsigned_take_bit_eq take_bit_nat_def)
  then show ?thesis by (simp flip: unat_eq_0 add: dvd_eq_mod_eq_0)
qed

lemma mod_4_eq_0: "(y :: u32) mod 4 = 0 \<longleftrightarrow> 4 dvd unat y"
  by (simp flip: unat_eq_0 add: unat_mod_distrib dvd_eq_mod_eq_0)

text \<open>The size a request is served with; a request within 3 of the largest word wraps round to 0.\<close>

definition req :: "u32 \<Rightarrow> nat" where
  "req sz = max 12 (unat (rt_align sz))"

lemma unat_rt_align: "unat sz < 4294967293 \<Longrightarrow> unat (rt_align sz) = 4 * ((unat sz + 3) div 4)"
  unfolding rt_align_def and_not_3 by (simp add: unat_word_ariths)

lemma rt_align_wraps: "4294967293 \<le> unat sz \<Longrightarrow> rt_align sz = 0"
proof -
  assume a: "4294967293 \<le> unat sz"
  with unat_u32_less[of sz] have "(unat sz + 3) mod 4294967296 div 4 = 0"
    by (subst mod_if) (simp add: le_mod_geq)
  then have "unat (rt_align sz) = 0"
    unfolding rt_align_def and_not_3 by (simp add: unat_word_ariths)
  then show ?thesis by (simp only: unat_eq_0)
qed

section \<open>The invariant\<close>

definition layout :: "heap \<Rightarrow> block list \<Rightarrow> bool" where
  "layout h bs \<longleftrightarrow>
     chain (hat h) 0 0 bs \<and> total bs = unat (mem_size_aligned h) + 12 \<and> 24 \<le> total bs \<and>
     heap_end h = off h (total bs) \<and> unat (heap_ptr h) + total bs + 12 < 4294967296 \<and>
     4 dvd unat (heap_ptr h) \<and> unat (used_mem h) = used_total bs"

text \<open>\<open>lfree\<close> is the first block of \<open>ys\<close>, which is free, or the end of the heap.\<close>

definition heap_wf :: "heap \<Rightarrow> block list \<Rightarrow> block list \<Rightarrow> bool" where
  "heap_wf h xs ys \<longleftrightarrow> layout h (xs @ ys) \<and> no_adj (xs @ ys) \<and> lfree h = off h (total xs) \<and>
     (case ys of [] \<Rightarrow> True | b # _ \<Rightarrow> \<not> snd b)"

definition heap_ok :: "heap \<Rightarrow> block list \<Rightarrow> bool" where
  "heap_ok h bs \<longleftrightarrow> heap_wf h (takeWhile snd bs) (dropWhile snd bs)"

text \<open>First fit: the requested block is carved out of the first free one that is large enough.\<close>

definition carve :: "nat \<Rightarrow> nat \<Rightarrow> block list" where
  "carve n z = (if n + 36 \<le> z then [(n + 12, True), (z - n - 12, False)] else [(z, True)])"

fun alloc_blocks :: "nat \<Rightarrow> nat \<Rightarrow> nat \<Rightarrow> block list \<Rightarrow> (nat \<times> block list) option" where
  "alloc_blocks n lim k [] = None"
| "alloc_blocks n lim k ((z, u) # bs) =
     (if lim \<le> k then None
      else if \<not> u \<and> n + 12 \<le> z then Some (k, carve n z @ bs)
      else map_option (\<lambda>(a, r). (a, (z, u) # r)) (alloc_blocks n lim (k + z) bs))"

text \<open>Free neighbours are joined; a block joined with the free one behind it, if there is one.\<close>

fun absorb :: "nat \<Rightarrow> block list \<Rightarrow> block list" where
  "absorb z ((y, False) # ys) = (z + y, False) # ys"
| "absorb z ys = (z, False) # ys"

lemma absorb_cases:
  obtains y ys where "qs = (y, False) # ys" "absorb z qs = (z + y, False) # ys"
  | "absorb z qs = (z, False) # qs" "qs = [] \<or> snd (hd qs)"
  by (cases "(z, qs)" rule: absorb.cases) auto

lemma absorb_shift: "\<exists>y r. absorb z qs = (y, False) # r \<and> (\<forall>w. absorb (w + z) qs = (w + y, False) # r)"
  by (cases "(z, qs)" rule: absorb.cases) auto

definition free_blocks :: "block list \<Rightarrow> nat \<Rightarrow> block list \<Rightarrow> block list" where
  "free_blocks ps z qs =
     (if ps \<noteq> [] \<and> \<not> snd (last ps) then butlast ps @ absorb (fst (last ps) + z) qs
      else ps @ absorb z qs)"

fun join :: "block list \<Rightarrow> block list" where
  "join ((z, False) # (y, False) # bs) = join ((z + y, False) # bs)"
| "join (b # bs) = b # join bs"
| "join [] = []"

definition malloc_blocks :: "u32 \<Rightarrow> block list \<Rightarrow> (nat \<times> block list) option" where
  "malloc_blocks sz bs =
     (if sz = 0 then None else alloc_blocks (req sz) (total bs - 12 - req sz) 0 bs)"

lemma total_carve [simp]: "n + 12 \<le> z \<Longrightarrow> total (carve n z) = z"
  by (simp add: carve_def)

lemma alloc_blocks_SomeD:
  "alloc_blocks n lim k ys = Some (a, r) \<Longrightarrow>
   \<exists>xs z bs. ys = xs @ (z, False) # bs \<and> r = xs @ carve n z @ bs \<and> a = k + total xs \<and>
     n + 12 \<le> z \<and> a < lim"
proof (induction n lim k ys arbitrary: a r rule: alloc_blocks.induct)
  case (2 n lim k z u bs)
  show ?case
  proof (cases "\<not> u \<and> n + 12 \<le> z")
    case True
    then show ?thesis using 2(2) by (intro exI[of _ "[]"]) (auto split: if_splits)
  next
    case False
    then have l: "\<not> lim \<le> k" and "\<exists>r'. alloc_blocks n lim (k + z) bs = Some (a, r') \<and> r = (z, u) # r'"
      using 2(2) by (auto split: if_splits)
    then obtain r' where r: "alloc_blocks n lim (k + z) bs = Some (a, r')" "r = (z, u) # r'" by blast
    obtain xs y cs where "bs = xs @ (y, False) # cs" "r' = xs @ carve n y @ cs"
      "a = k + z + total xs" "n + 12 \<le> y" "a < lim"
      using 2(1)[OF l False r(1)] by blast
    then show ?thesis using r(2) by (intro exI[of _ "(z, u) # xs"]) auto
  qed
qed simp

text \<open>Blocks in use in front do not matter.\<close>

lemma alloc_blocks_used:
  "\<forall>b\<in>set xs. snd b \<Longrightarrow> alloc_blocks n lim k (xs @ ys) =
     (if xs \<noteq> [] \<and> lim \<le> k then None
      else map_option (\<lambda>(a, r). (a, xs @ r)) (alloc_blocks n lim (k + total xs) ys))"
proof (induction xs arbitrary: k rule: total.induct)
  case (2 z u xs)
  then show ?case
    by (cases ys rule: total.cases) (auto simp: option.map_comp comp_def case_prod_beta add.assoc)
qed (simp add: option.map_id)

lemma limit_iff:
  "k < 4294967296 \<Longrightarrow> n \<le> unat (s :: u32) \<Longrightarrow> (of_nat k :: u32) < s - of_nat n \<longleftrightarrow> k < unat s - n"
  using unat_u32_less[of s] by (simp add: word_less_nat_alt unat_sub word_le_nat_alt)

text \<open>The room behind a header: \<open>mem->next - (ptr + SIZEOF_STRUCT_MEM)\<close>.\<close>

lemma room_eq: "12 \<le> z \<Longrightarrow> (of_nat (k + z) :: u32) - (of_nat k + 12) = of_nat (z - 12)"
  by (simp add: of_nat_diff)

lemma fits_iff:
  assumes "12 \<le> z" "n < 4294967296" "z < 4294967296"
  shows "of_nat n \<le> (of_nat (k + z) :: u32) - (of_nat k + 12) \<longleftrightarrow> n + 12 \<le> z"
proof -
  have "z - 12 < 4294967296" using assms(3) by simp
  then have "(of_nat n :: u32) \<le> of_nat (z - 12) \<longleftrightarrow> n \<le> z - 12" by (intro of_nat_u32_le_iff assms(2))
  then show ?thesis using assms(1) unfolding room_eq[OF assms(1)] by linarith
qed

section \<open>The two loops of \<open>rt_malloc\<close>\<close>

lemma find_block_refines:
  assumes "chain (hat h) p k bs" "k + total bs = unat (mem_size_aligned h) + 12"
    "n \<le> unat (mem_size_aligned h)" "unat (mem_size_aligned h) + 24 < 4294967296"
  shows "find_block h (of_nat n) (of_nat k) =
    Some (Inr (map_option (\<lambda>x. of_nat (fst x)) (alloc_blocks n (unat (mem_size_aligned h) - n) k bs)))"
  using assms
proof (induction bs arbitrary: p k rule: total.induct)
  case 1
  have "\<not> k < unat (mem_size_aligned h) - n" "k < 4294967296" using 1 by simp_all
  then have "\<not> (of_nat k :: u32) < mem_size_aligned h - of_nat n" using 1(3) by (simp only: limit_iff) simp
  then show ?case by (subst find_block.simps) simp
next
  case (2 z u bs)
  let ?S = "unat (mem_size_aligned h)"
  from 2(2) have c: "hat h k = Some (mk_hdr u (k + z) p)" "16 \<le> z" "chain (hat h) k (k + z) bs"
    by (auto simp: chain_Cons)
  have lim: "(of_nat k :: u32) < mem_size_aligned h - of_nat n \<longleftrightarrow> k < ?S - n"
    using 2 by (simp add: limit_iff)
  have fit: "of_nat n \<le> (of_nat (k + z) :: u32) - (of_nat k + 12) \<longleftrightarrow> n + 12 \<le> z"
    using 2(3-5) c(2) by (intro fits_iff) simp_all
  have at: "hdrs h (off h k) = Some (mk_hdr u (k + z) p)"
    using c(1) 2(3,5) by (simp add: hdrs_off)
  have step: "find_block h (of_nat n) (of_nat (k + z)) =
    Some (Inr (map_option (\<lambda>x. of_nat (fst x)) (alloc_blocks n (?S - n) (k + z) bs)))"
    using 2(3-5) by (intro 2(1)[OF c(3)]) simp_all
  show ?case
    by (subst find_block.simps)
      (use step in \<open>auto simp: lim at fit option.map_comp comp_def case_prod_beta simp del: of_nat_add\<close>)
qed

lemma next_free_refines:
  assumes "chain (hat h) p k bs" "heap_end h = off h (k + total bs)" "k + total bs < 4294967296"
  shows "next_free h (off h k) = Some (Inr (off h (k + total (takeWhile snd bs))))"
  using assms
proof (induction bs arbitrary: p k rule: total.induct)
  case 1
  then have "\<exists>e. hdrs h (off h k) = Some e \<and> hm_used e = 1"
    by (auto simp: chain_def end_hdr_def hdrs_off split: option.splits)
  then show ?case using 1 by (subst next_free.simps) auto
next
  case (2 z u bs)
  from 2(2) have c: "hat h k = Some (mk_hdr u (k + z) p)" "16 \<le> z" "chain (hat h) k (k + z) bs"
    by (auto simp: chain_Cons)
  have "hdrs h (off h k) = Some (mk_hdr u (k + z) p)" using c(1) 2(4) by (simp add: hdrs_off)
  moreover have "off h k \<noteq> heap_end h" using 2(3,4) c(2) by (simp add: of_nat_u32_eq_iff del: of_nat_add)
  moreover have "next_free h (off h (k + z)) = Some (Inr (off h (k + z + total (takeWhile snd bs))))"
    using 2(3,4) by (intro 2(1)[OF c(3)]) (simp_all add: add.assoc)
  ultimately show ?case by (subst next_free.simps) (simp add: add.assoc)
qed

section \<open>Looking into a layout\<close>

lemma seg_cong:
  "(\<And>j. k \<le> j \<Longrightarrow> j < k + total bs \<Longrightarrow> f j = g j) \<Longrightarrow> seg f p k bs = seg g p k bs"
proof (induction f p k bs rule: seg.induct)
  case (2 f p k z u bs)
  have "seg f k (k + z) bs = seg g k (k + z) bs" using 2(2) by (intro 2(1)) auto
  then show ?case using 2(2)[of k] by auto
qed simp

lemma chain_blocks_cong:
  "(\<And>j. k \<le> j \<Longrightarrow> j \<le> k + total bs \<Longrightarrow> f j = g j) \<Longrightarrow> chain f p k bs = chain g p k bs"
  using seg_cong[of k bs f g p] by (simp add: chain_def end_hdr_def)

lemma chain_total_0: "chain f p k bs \<Longrightarrow> total bs = 0 \<longleftrightarrow> bs = []"
  using seg_len[of f p k bs] by (cases bs) (auto simp: chain_def)

text \<open>Everything the operations read of the block that starts behind \<open>xs\<close>.\<close>

lemma layout_block:
  assumes "layout h (xs @ (z, u) # ys)"
  shows "hat h (total xs) = Some (mk_hdr u (total xs + z) (prv 0 0 xs))"
    and "16 \<le> z" and "4 dvd z" and "4 dvd total xs"
    and "seg (hat h) 0 0 xs" and "chain (hat h) (total xs) (total xs + z) ys"
    and "unat (heap_ptr h) + total xs + z + total ys + 12 < 4294967296"
    and "mem_size_aligned h + 12 = of_nat (total xs + z + total ys)"
    and "unat (mem_size_aligned h) + 12 = total xs + z + total ys"
    and "prv 0 0 xs \<le> total xs"
    and "heap_end h = off h (total xs + z + total ys)"
proof -
  show s: "unat (mem_size_aligned h) + 12 = total xs + z + total ys"
    using assms by (simp add: layout_def)
  have "mem_size_aligned h + 12 = of_nat (unat (mem_size_aligned h) + 12)" by simp
  then show "mem_size_aligned h + 12 = of_nat (total xs + z + total ys)" unfolding s .
  have "total (xs @ (z, u) # ys) = total xs + z + total ys" by simp
  then show "heap_end h = off h (total xs + z + total ys)"
    using assms by (simp only: layout_def)
qed (use assms seg_total_dvd prv_le[of 0 0 xs] in \<open>auto simp: layout_def chain_append chain_Cons\<close>)

text \<open>What an operation on headers leaves alone.\<close>

definition same_env :: "heap \<Rightarrow> heap \<Rightarrow> bool" where
  "same_env h h' \<longleftrightarrow> heap_ptr h' = heap_ptr h \<and> heap_end h' = heap_end h \<and>
     mem_size_aligned h' = mem_size_aligned h \<and> in_isr h' = in_isr h \<and> heap_bytes h' = heap_bytes h"

lemma same_env_refl [simp]: "same_env h h"
  by (simp add: same_env_def)

lemma same_env_trans: "same_env h h' \<Longrightarrow> same_env h' h'' \<Longrightarrow> same_env h h''"
  by (simp add: same_env_def)

lemma same_env_ops [simp]:
  "same_env h (put_hdr a m h') = same_env h h'" "same_env h (set_lfree a h') = same_env h h'"
  "same_env h (set_used_mem v h') = same_env h h'" "same_env h (count_used v h') = same_env h h'"
  by (auto simp: same_env_def)

text \<open>A layout is set up by the chain and the count of used bytes alone.\<close>

lemma layout_transfer:
  assumes "layout h bs" "same_env h h'" "chain (hat h') 0 0 cs" "total cs = total bs"
    "unat (used_mem h') = used_total cs"
  shows "layout h' cs"
  using assms by (auto simp: layout_def same_env_def)

lemma layout_same:
  "layout h bs \<Longrightarrow> same_env h h' \<Longrightarrow> hat h' = hat h \<Longrightarrow> used_mem h' = used_mem h \<Longrightarrow> layout h' bs"
  by (auto simp: layout_def same_env_def)

lemma layout_set_lfree [simp]: "layout (set_lfree a h) bs = layout h bs"
  by (auto simp: layout_def)

lemma dvd_rt_align: "4 dvd unat (rt_align sz)"
  unfolding rt_align_def and_not_3 by simp

lemma dvd_req: "4 dvd req sz"
  using dvd_rt_align[of sz] by (simp add: req_def max_def)

lemma req_ge: "12 \<le> req sz"
  by (simp add: req_def)

section \<open>Neighbours\<close>

lemma dropWhile_head: "case dropWhile P xs of [] \<Rightarrow> True | b # _ \<Rightarrow> \<not> P b"
  by (induction xs) simp_all

lemma no_adj_append: "no_adj (xs @ ys) \<longleftrightarrow>
    no_adj xs \<and> no_adj ys \<and> (xs = [] \<or> ys = [] \<or> snd (last xs) \<or> snd (hd ys))"
proof (induction xs rule: no_adj.induct)
  case (2 b)
  then show ?case by (cases b; cases ys rule: no_adj.cases) auto
qed auto

lemma no_adj_carve:
  "no_adj (xs @ (z, False) # ys) \<Longrightarrow> no_adj (xs @ carve n z @ ys)"
  by (cases ys rule: total.cases) (auto simp: no_adj_append carve_def)

lemma heap_ok_iff:
  "heap_ok h bs \<longleftrightarrow> (\<exists>xs ys. bs = xs @ ys \<and> heap_wf h xs ys \<and> (\<forall>b\<in>set xs. snd b))"
proof
  assume "heap_ok h bs"
  then show "\<exists>xs ys. bs = xs @ ys \<and> heap_wf h xs ys \<and> (\<forall>b\<in>set xs. snd b)"
    unfolding heap_ok_def by (intro exI[of _ "takeWhile snd bs"] exI[of _ "dropWhile snd bs"])
      (auto dest: set_takeWhileD)
next
  assume "\<exists>xs ys. bs = xs @ ys \<and> heap_wf h xs ys \<and> (\<forall>b\<in>set xs. snd b)"
  then obtain xs ys where s: "bs = xs @ ys" "heap_wf h xs ys" "\<forall>b\<in>set xs. snd b" by blast
  then have "takeWhile snd bs = xs" "dropWhile snd bs = ys"
    by (cases ys; simp add: takeWhile_append dropWhile_append heap_wf_def)+
  then show "heap_ok h bs" using s(2) by (simp add: heap_ok_def)
qed

text \<open>The offsets of the free blocks; \<open>lfree\<close> is at one of them or at the end.\<close>

fun free_offs :: "nat \<Rightarrow> block list \<Rightarrow> nat set" where
  "free_offs k [] = {}"
| "free_offs k ((z, u) # bs) = (if u then {} else {k}) \<union> free_offs (k + z) bs"

lemma free_offs_append [simp]: "free_offs k (xs @ ys) = free_offs k xs \<union> free_offs (k + total xs) ys"
  by (induction k xs rule: free_offs.induct) (auto simp: add.assoc)

lemma free_offs_split:
  "i \<in> free_offs k bs \<Longrightarrow> \<exists>xs z ys. bs = xs @ (z, False) # ys \<and> i = k + total xs"
proof (induction k bs rule: free_offs.induct)
  case (2 k z u bs)
  show ?case
  proof (cases "\<not> u \<and> i = k")
    case True
    then show ?thesis by (intro exI[of _ "[]"]) auto
  next
    case False
    then obtain xs y ys where "bs = xs @ (y, False) # ys" "i = k + z + total xs"
      using 2 by (auto split: if_splits)
    then show ?thesis by (intro exI[of _ "(z, u) # xs"]) auto
  qed
qed simp

lemma free_offs_less: "i \<in> free_offs k bs \<Longrightarrow> seg f p j bs \<Longrightarrow> i < k + total bs"
  by (induction k bs arbitrary: p j rule: free_offs.induct) (fastforce split: if_splits)+

lemma heap_wf_iff:
  "(\<exists>xs ys. bs = xs @ ys \<and> heap_wf h xs ys) \<longleftrightarrow>
   layout h bs \<and> no_adj bs \<and> (\<exists>i\<in>insert (total bs) (free_offs 0 bs). lfree h = off h i)" (is "?A \<longleftrightarrow> ?B")
proof
  assume ?A
  then obtain xs ys where a: "bs = xs @ ys" "heap_wf h xs ys" by blast
  then have "total xs \<in> insert (total bs) (free_offs 0 bs)"
    by (cases ys rule: total.cases) (auto simp: heap_wf_def)
  then show ?B using a unfolding heap_wf_def by metis
next
  assume b: ?B
  then obtain i where i: "i \<in> insert (total bs) (free_offs 0 bs)" "lfree h = off h i" by blast
  show ?A
  proof (cases "i = total bs")
    case True
    then show ?thesis using b i(2) by (intro exI[of _ bs] exI[of _ "[]"]) (simp add: heap_wf_def)
  next
    case False
    then obtain xs z ys where "bs = xs @ (z, False) # ys" "i = total xs"
      using free_offs_split[of i 0 bs] i(1) by auto
    then show ?thesis
      using b i(2) by (intro exI[of _ xs] exI[of _ "(z, False) # ys"]) (simp add: heap_wf_def)
  qed
qed

lemma heap_ok_lfree:
  "heap_ok h bs \<longleftrightarrow> layout h bs \<and> no_adj bs \<and> lfree h = off h (total (takeWhile snd bs))"
  using dropWhile_head[of snd bs] by (auto simp: heap_ok_def heap_wf_def split: list.splits)

lemma heap_okD: "heap_ok h bs \<Longrightarrow> layout h bs" "heap_ok h bs \<Longrightarrow> no_adj bs"
  by (auto simp: heap_ok_iff heap_wf_def)

text \<open>What \<open>rt_free\<close> does is to mark the block and to join free neighbours.\<close>

lemma join_no_adj: "no_adj bs \<Longrightarrow> join bs = bs"
  by (induction bs rule: join.induct) (auto split: list.splits elim: no_adj.elims)

lemma no_adj_Cons: "no_adj (b # bs) \<Longrightarrow> no_adj bs"
  by (cases "b # bs" rule: no_adj.cases) auto

lemma join_absorb: "no_adj qs \<Longrightarrow> join ((z, False) # qs) = absorb z qs"
proof (cases qs rule: absorb_cases[of _ z])
  case (1 y ys)
  moreover assume "no_adj qs"
  ultimately show ?thesis by (cases ys rule: no_adj.cases) (auto simp: join_no_adj)
next
  case 2
  moreover assume "no_adj qs"
  ultimately show ?thesis by (cases qs) (auto simp: join_no_adj dest: no_adj_Cons)
qed

lemma total_absorb [simp]: "total (absorb z qs) = z + total qs"
  by (cases "(z, qs)" rule: absorb.cases) auto

lemma used_total_absorb [simp]: "used_total (absorb z qs) = used_total qs"
  by (cases "(z, qs)" rule: absorb.cases) auto

lemma snoc_free_cases:
  obtains ws w where "ps = ws @ [(w, False)]" "free_blocks ps z qs = ws @ absorb (w + z) qs"
  | "free_blocks ps z qs = ps @ absorb z qs" "ps = [] \<or> snd (last ps)"
proof (cases "ps \<noteq> [] \<and> \<not> snd (last ps)")
  case True
  then show thesis using that(1) by (cases ps rule: rev_cases) (auto simp: free_blocks_def)
next
  case False
  then show thesis using that(2) by (auto simp: free_blocks_def)
qed

lemma total_free_blocks [simp]: "total (free_blocks ps z qs) = total ps + z + total qs"
  by (cases ps z qs rule: snoc_free_cases) simp_all

lemma used_total_free_blocks [simp]: "used_total (free_blocks ps z qs) = used_total ps + used_total qs"
  by (cases ps z qs rule: snoc_free_cases) simp_all

lemma no_adj_absorb: "no_adj qs \<Longrightarrow> no_adj (absorb z qs)"
  by (cases qs rule: absorb_cases[of _ z]; cases qs rule: no_adj.cases) auto

lemma no_adj_free_blocks:
  assumes "no_adj (ps @ (z, True) # qs)"
  shows "no_adj (free_blocks ps z qs)"
proof -
  have q: "no_adj qs" "no_adj ps" using assms no_adj_Cons by (auto simp: no_adj_append)
  show ?thesis
  proof (cases ps z qs rule: snoc_free_cases)
    case (1 ws w)
    then show ?thesis using q no_adj_absorb[of qs "w + z"] by (auto simp: no_adj_append)
  next
    case 2
    then show ?thesis using q no_adj_absorb[of qs z] by (auto simp: no_adj_append)
  qed
qed

lemma join_append: "no_adj (ws @ [(w, True)]) \<Longrightarrow> join (ws @ (w, True) # qs) = ws @ (w, True) # join qs"
proof (induction ws rule: no_adj.induct)
  case (2 b)
  then show ?case by (cases b) (auto elim: join.elims)
qed auto

lemma join_free:
  assumes "no_adj (ps @ (z, True) # qs)"
  shows "join (ps @ (z, False) # qs) = free_blocks ps z qs"
proof -
  have q: "no_adj qs" "no_adj ps" using assms no_adj_Cons by (auto simp: no_adj_append)
  show ?thesis
  proof (cases ps z qs rule: snoc_free_cases)
    case (1 ws w)
    then have "no_adj ws" "ws = [] \<or> snd (last ws)" using q(2) by (auto simp: no_adj_append)
    then show ?thesis
      using 1 join_append[of "butlast ws" "fst (last ws)" "(w, False) # (z, False) # qs"] join_absorb[OF q(1)]
      by (cases ws rule: rev_cases) (auto simp: no_adj_append)
  next
    case 2
    then show ?thesis
      using q join_append[of "butlast ps" "fst (last ps)" "(z, False) # qs"] join_absorb[OF q(1)]
      by (cases ps rule: rev_cases) (auto simp: no_adj_append)
  qed
qed

end
