(* ===== verification/Mem_Facts.thy ===== *)
theory Mem_Facts
  imports Mem_Layout
begin

text \<open>
  The operations of the allocator on layouts: the block that \<open>take_block\<close> carves, \<open>rt_malloc\<close> as
  first fit, \<open>plug_holes\<close> as the joining of free neighbours, \<open>rt_free\<close>, \<open>rt_realloc\<close> and
  \<open>rt_system_heap_init\<close>.
\<close>

section \<open>Taking a block\<close>

lemma take_whole:
  assumes l: "layout h (xs @ (z, False) # ys)" and n: "n + 12 \<le> z" "z < n + 36"
  shows "\<exists>h'. take_block (of_nat (total xs)) (of_nat n) h = Inr h' \<and> layout h' (xs @ (z, True) # ys) \<and>
    lfree h' = lfree h \<and> same_env h h'"
proof -
  note b = layout_block[OF l]
  let ?k = "total xs"
  let ?h' = "count_used (of_nat z) (put_hdr (off h ?k) (mk_hdr True (?k + z) (prv 0 0 xs)) h)"
  have k: "?k < 4294967296" "z < 4294967296" using b(7) by simp_all
  have "\<not> (of_nat (n + 24) :: u32) \<le> of_nat (?k + z) - (of_nat ?k + 12)"
    using fits_iff[of z "n + 24" ?k] b(2,7) n by (simp del: of_nat_add)
  then have "\<not> (of_nat n + 12 + 12 :: u32) \<le> of_nat (?k + z) - (of_nat ?k + 12)"
    by (simp add: add.assoc)
  moreover have "(of_nat (?k + z) :: u32) - (off h ?k - heap_ptr h) = of_nat z" by simp
  ultimately have "take_block (of_nat ?k) (of_nat n) h = Inr ?h'"
    using hdr_off[OF k(1) b(1)] upd_hdr_off[OF k(1) b(1)]
    by (simp add: take_block_def Let_def del: of_nat_add)
  moreover have "layout ?h' (xs @ (z, True) # ys)"
  proof (rule layout_transfer[OF l])
    show "chain (hat ?h') 0 0 (xs @ (z, True) # ys)"
      using b(2,3,5,6) k by (simp add: hat_put_hdr chain_append chain_Cons)
    have "unat (used_mem h) + z < 4294967296"
      using l b(7) used_total_le[of xs] used_total_le[of ys] by (simp add: layout_def)
    then show "unat (used_mem ?h') = used_total (xs @ (z, True) # ys)"
      using l k(2) by (simp add: layout_def unat_word_ariths)
  qed simp_all
  ultimately show ?thesis by auto
qed

lemma take_split:
  assumes l: "layout h (xs @ (z, False) # ys)" and n: "12 \<le> n" "4 dvd n" "n + 36 \<le> z"
  shows "\<exists>h'. take_block (of_nat (total xs)) (of_nat n) h = Inr h' \<and>
    layout h' (xs @ (n + 12, True) # (z - n - 12, False) # ys) \<and> lfree h' = lfree h \<and> same_env h h'"
proof -
  note b = layout_block[OF l]
  let ?k = "total xs" and ?p = "prv 0 0 xs"
  let ?m = "?k + n + 12" and ?e = "?k + z"
  let ?h1 = "put_hdr (off h ?m) (mk_hdr False ?e ?k) h"
  let ?h2 = "put_hdr (off h ?k) (mk_hdr True ?m ?p) ?h1"
  have k: "?k < 4294967296" "?m < 4294967296" "?e < 4294967296" "?k + z + total ys < 4294967296"
    using b(7) n by simp_all
  obtain x where x: "hat h ?e = Some x" "chain ((hat h)(?e \<mapsto> x\<lparr>hm_prev := of_nat ?m\<rparr>)) ?m ?e ys"
    using chain_head[OF b(6), of ?m] by blast
  let ?h3 = "if total ys = 0 then ?h2 else put_hdr (off h ?e) (x\<lparr>hm_prev := of_nat ?m\<rparr>) ?h2"
  let ?h' = "count_used (of_nat (n + 12)) ?h3"
  have hat1: "hat ?h1 = (hat h)(?m \<mapsto> mk_hdr False ?e ?k)"
    using k by (simp add: hat_put_hdr del: of_nat_add)
  have hat2: "hat ?h2 = (hat h)(?m \<mapsto> mk_hdr False ?e ?k, ?k \<mapsto> mk_hdr True ?m ?p)"
    using k hat_put_hdr[of ?k ?h1 "mk_hdr True ?m ?p"] by (simp add: hat1 del: of_nat_add)
  have hat3: "hat ?h3 = (if total ys = 0 then hat ?h2 else (hat ?h2)(?e \<mapsto> x\<lparr>hm_prev := of_nat ?m\<rparr>))"
    using k hat_put_hdr[of ?e ?h2 "x\<lparr>hm_prev := of_nat ?m\<rparr>"] by (simp del: of_nat_add)
  define K M E N :: u32 where w: "K = of_nat ?k" "M = of_nat ?m" "E = of_nat ?e" "N = of_nat n"
  have "hdr h (heap_ptr h + K) = Inr (mk_hdr False ?e ?p)" using hdr_off[OF k(1) b(1)] by (simp add: w)
  moreover have "N + 12 + 12 \<le> E - (K + 12)"
    using fits_iff[of z "n + 24" ?k] b(2,7) n by (simp add: w add.assoc)
  moreover have "hm_next (mk_hdr False ?e ?p) = E" by (simp add: w)
  moreover have "E \<noteq> mem_size_aligned h + 12 \<longleftrightarrow> total ys \<noteq> 0"
    unfolding b(8) w using of_nat_u32_eq_iff[OF k(3,4)] by auto
  moreover have "K + 12 + N = M" "N + 12 = of_nat (n + 12)" by (simp_all add: w)
  moreover have "\<lparr>hm_magic = HEAP_MAGIC, hm_used = 0, hm_next = E, hm_prev = K\<rparr> = mk_hdr False ?e ?k"
    by (simp add: w mk_hdr_def)
  moreover have "upd_hdr (heap_ptr h + K) (\<lambda>m. m\<lparr>hm_next := M, hm_used := 1\<rparr>)
      (put_hdr (heap_ptr h + M) (mk_hdr False ?e ?k) h) = Inr ?h2"
    using upd_hdr_off[of ?k ?h1 "mk_hdr False ?e ?p"] hat1 k(1) b(1) n
    by (simp add: w del: of_nat_add)
  moreover have "total ys \<noteq> 0 \<Longrightarrow> upd_hdr (heap_ptr h + E) (\<lambda>x. x\<lparr>hm_prev := M\<rparr>) ?h2 = Inr ?h3"
    using upd_hdr_off[of ?e ?h2 x] hat2 k(3) x(1) n by (simp add: w del: of_nat_add)
  ultimately have "take_block K N h = Inr ?h'"
    unfolding take_block_def Let_def by (simp del: mk_hdr_simps)
  then have "take_block (of_nat ?k) (of_nat n) h = Inr ?h'" unfolding w .
  moreover have "layout ?h' (xs @ (n + 12, True) # (z - n - 12, False) # ys)"
  proof (rule layout_transfer[OF l])
    have "chain (hat ?h3) ?m ?e ys"
    proof (cases "total ys = 0")
      case True
      then have "ys = []" using b(6) by (simp add: chain_total_0)
      then show ?thesis using b(6) n unfolding hat3 hat2 by (simp add: chain_def end_hdr_def)
    next
      case False
      show ?thesis
        using x(2) unfolding hat3 hat2
        by (rule chain_blocks_cong[THEN iffD1, rotated]) (use False n in auto)
    qed
    then show "chain (hat ?h') 0 0 (xs @ (n + 12, True) # (z - n - 12, False) # ys)"
      using b(3,5) n unfolding count_used_simps hat3 hat2
      by (auto simp: chain_append chain_Cons add.assoc dvd_diff_nat)
    have "unat (used_mem h) + n + 12 < 4294967296"
      using l b(7) n used_total_le[of xs] used_total_le[of ys] by (simp add: layout_def)
    then show "unat (used_mem ?h') = used_total (xs @ (n + 12, True) # (z - n - 12, False) # ys)"
      using l k(2) n by (simp add: layout_def unat_word_ariths)
  qed (use n in simp_all)
  ultimately show ?thesis by (intro exI[of _ ?h']) simp
qed

lemma take_block_refines:
  assumes "layout h (xs @ (z, False) # ys)" "12 \<le> n" "4 dvd n" "n + 12 \<le> z"
  shows "\<exists>h'. take_block (of_nat (total xs)) (of_nat n) h = Inr h' \<and> layout h' (xs @ carve n z @ ys) \<and>
    lfree h' = lfree h \<and> same_env h h'"
  using take_whole[OF assms(1,4)] take_split[OF assms(1-3)] by (auto simp: carve_def not_le)

section \<open>\<open>rt_malloc\<close>\<close>

lemma rewrite_hdr:
  assumes "hat h k = Some m" "k < 4294967296"
  shows "hat (put_hdr (off h k) m h) = hat h"
  using assms by (auto simp: hat_put_hdr)

text \<open>What is done once a block is found.\<close>

lemma taken_lfree:
  assumes l: "layout h (xs @ as @ (z, True) # bs)" and f: "lfree h = off h (total xs)"
  shows "(if off h (total xs + total as) = lfree h
          then bindE (returns (next_free h (lfree h))) (\<lambda>a. Inr (set_lfree a h)) else Inr h)
       = Inr (if as = [] then set_lfree (off h (total xs + z + total (takeWhile snd bs))) h else h)"
proof -
  note b = layout_block[OF l[folded append_assoc]]
  have "as = [] \<longleftrightarrow> total as = 0"
    using b(5) chain_total_0[of "hat h"] seg_len[of "hat h" "prv 0 0 xs" "total xs" as]
    by (auto simp: seg_append)
  then have eq: "off h (total xs + total as) = lfree h \<longleftrightarrow> as = []"
    using b(7) unfolding f by (subst off_eq_iff) auto
  show ?thesis
  proof (cases "as = []")
    case True
    then have "chain (hat h) (prv 0 0 xs) (total xs) ((z, True) # bs)"
      using l by (simp add: layout_def chain_append)
    then have "next_free h (off h (total xs)) =
        Some (Inr (off h (total xs + total (takeWhile snd ((z, True) # bs)))))"
      by (rule next_free_refines) (use True b(7,11) in \<open>simp_all add: add.assoc\<close>)
    then show ?thesis using eq True f by (simp add: add.assoc)
  qed (use eq in simp)
qed

lemma carve_split: "n + 12 \<le> z \<Longrightarrow> \<exists>w rest. carve n z = (w, True) # rest \<and> n + 12 \<le> w \<and> w \<le> z"
  by (auto simp: carve_def)

text \<open>The part of \<open>rt_malloc\<close> behind the search.\<close>

lemma serve_found:
  assumes w: "heap_wf h xs (as @ (z, False) # bs)" and n: "12 \<le> n" "4 dvd n" "n + 12 \<le> z"
    and k: "k = total xs + total as"
  shows "\<exists>h1 h2 h3 xs' ys'. take_block (of_nat k) (of_nat n) h = Inr h1 \<and>
    upd_hdr (off h k) (\<lambda>m. m\<lparr>hm_magic := HEAP_MAGIC\<rparr>) h1 = Inr h2 \<and>
    (if off h k = lfree h2 then bindE (returns (next_free h2 (lfree h2))) (\<lambda>a. Inr (set_lfree a h2))
     else Inr h2) = Inr h3 \<and>
    heap_wf h3 xs' ys' \<and> xs' @ ys' = xs @ as @ carve n z @ bs \<and> same_env h h3 \<and>
    ((\<forall>b\<in>set xs. snd b) \<longrightarrow> (\<forall>b\<in>set xs'. snd b))"
proof -
  have l: "layout h ((xs @ as) @ (z, False) # bs)" and lf: "lfree h = off h (total xs)"
    and na: "no_adj ((xs @ as) @ carve n z @ bs)"
    using w no_adj_carve[of "xs @ as"] by (auto simp: heap_wf_def)
  obtain h1 where h1: "take_block (of_nat k) (of_nat n) h = Inr h1"
      "layout h1 ((xs @ as) @ carve n z @ bs)" "lfree h1 = lfree h" "same_env h h1"
    using take_block_refines[OF l n] k by auto
  obtain v rest where v: "carve n z = (v, True) # rest" using carve_split[OF n(3)] by blast
  have l1: "layout h1 ((xs @ as) @ (v, True) # rest @ bs)" using h1(2) v by simp
  note b = layout_block[OF l1]
  have hp: "heap_ptr h1 = heap_ptr h" using h1(4) by (simp add: same_env_def)
  have k32: "k < 4294967296" using b(7) k by simp
  let ?h2 = "put_hdr (off h k) (mk_hdr True (k + v) (prv 0 0 (xs @ as))) h1"
  have at: "hat h1 k = Some (mk_hdr True (k + v) (prv 0 0 (xs @ as)))" using b(1) k by simp
  have upd: "upd_hdr (off h k) (\<lambda>m. m\<lparr>hm_magic := HEAP_MAGIC\<rparr>) h1 = Inr ?h2"
    using upd_hdr_off[OF k32 at] hp by simp
  have hat2: "hat ?h2 = hat h1" using rewrite_hdr[OF at k32] hp by simp
  have env2: "same_env h ?h2" "same_env h1 ?h2" using h1(4) by (simp_all add: same_env_def)
  have l2: "layout ?h2 (xs @ as @ (v, True) # rest @ bs)"
    using layout_same[OF l1 env2(2) hat2] by simp
  let ?t = "takeWhile snd (rest @ bs)" and ?d = "dropWhile snd (rest @ bs)"
  let ?h3 = "if as = [] then set_lfree (off h (total xs + v + total ?t)) ?h2 else ?h2"
  have lf3: "(if off h k = lfree ?h2 then bindE (returns (next_free ?h2 (lfree ?h2))) (\<lambda>a. Inr (set_lfree a ?h2))
      else Inr ?h2) = Inr ?h3"
    using taken_lfree[OF l2] lf h1(3) hp k by simp
  have l3: "layout ?h3 (xs @ as @ (v, True) # rest @ bs)" using l2 by (cases as) simp_all
  have env3: "same_env h ?h3" using env2(1) by simp
  have "heap_wf ?h3 (if as = [] then xs @ (v, True) # ?t else xs) (if as = [] then ?d else as @ (v, True) # rest @ bs)"
  proof (cases "as = []")
    case True
    have "case ?d of [] \<Rightarrow> True | b # _ \<Rightarrow> \<not> snd b"
      by (rule dropWhile_head)
    then show ?thesis using True l3 na v hp by (simp add: heap_wf_def add.assoc)
  next
    case False
    then show ?thesis using w l3 na v hp lf h1(3) by (cases as) (simp_all add: heap_wf_def)
  qed
  moreover have "(if as = [] then xs @ (v, True) # ?t else xs) @ (if as = [] then ?d else as @ (v, True) # rest @ bs)
      = xs @ as @ carve n z @ bs"
    using v by simp
  moreover have "(\<forall>b\<in>set xs. snd b) \<longrightarrow> (\<forall>b\<in>set (if as = [] then xs @ (v, True) # ?t else xs). snd b)"
    by (auto dest: set_takeWhileD)
  ultimately show ?thesis using h1(1) upd lf3 env3 by blast
qed

lemma rt_malloc_wf:
  assumes w: "heap_wf h xs ys" and i: "\<not> in_isr h" and sz: "sz \<noteq> 0"
  shows "case alloc_blocks (req sz) (unat (mem_size_aligned h) - req sz) (total xs) ys of
      None \<Rightarrow> rt_malloc sz h = Inr (None, h)
    | Some (a, r) \<Rightarrow> \<exists>h' xs' ys'. rt_malloc sz h = Inr (Some (off h (a + 12)), h') \<and>
        heap_wf h' xs' ys' \<and> xs' @ ys' = xs @ r \<and> same_env h h' \<and>
        ((\<forall>b\<in>set xs. snd b) \<longrightarrow> (\<forall>b\<in>set xs'. snd b))"
proof -
  let ?S = "unat (mem_size_aligned h)"
  define n where "n = req sz"
  have l: "layout h (xs @ ys)" and lf: "lfree h - heap_ptr h = of_nat (total xs)"
    using w by (auto simp: heap_wf_def)
  then have c: "chain (hat h) (prv 0 0 xs) (total xs) ys" "total xs + total ys = ?S + 12"
    "?S + 24 < 4294967296" "12 \<le> ?S"
    by (auto simp: layout_def chain_append)
  have n: "12 \<le> n" "4 dvd n" by (simp_all add: n_def req_ge dvd_req)
  show ?thesis
  proof (cases "?S < n")
    case True
    then have "mem_size_aligned h < rt_align sz"
      using c(4) by (simp add: n_def req_def word_less_nat_alt max_def split: if_splits)
    moreover have "alloc_blocks n (?S - n) (total xs) ys = None"
      using True by (cases ys rule: total.cases) simp_all
    ultimately show ?thesis using i sz by (simp add: rt_malloc_def n_def)
  next
    case False
    have n': "(if rt_align sz < MIN_SIZE_ALIGNED then MIN_SIZE_ALIGNED else rt_align sz) = of_nat n"
      by (simp add: n_def req_def max_def word_less_nat_alt)
    have gt: "\<not> mem_size_aligned h < rt_align sz"
      using False by (simp add: n_def req_def word_less_nat_alt)
    note fb = find_block_refines[OF c(1,2) _ c(3), of n]
    show ?thesis
    proof (cases "alloc_blocks n (?S - n) (total xs) ys")
      case None
      then show ?thesis
        using i sz gt fb False by (simp add: rt_malloc_def n' lf Let_def flip: n_def)
    next
      case (Some ar)
      obtain a r where ar: "ar = (a, r)" by (cases ar)
      obtain as z bs where s: "ys = as @ (z, False) # bs" "r = as @ carve n z @ bs"
          "a = total xs + total as" "n + 12 \<le> z"
        using alloc_blocks_SomeD[OF Some[unfolded ar]] by blast
      obtain h1 h2 h3 xs' ys' where h: "take_block (of_nat a) (of_nat n) h = Inr h1"
          "upd_hdr (off h a) (\<lambda>m. m\<lparr>hm_magic := HEAP_MAGIC\<rparr>) h1 = Inr h2"
          "(if off h a = lfree h2 then bindE (returns (next_free h2 (lfree h2))) (\<lambda>a. Inr (set_lfree a h2))
            else Inr h2) = Inr h3"
          "heap_wf h3 xs' ys'" "xs' @ ys' = xs @ r" "same_env h h3"
          "(\<forall>b\<in>set xs. snd b) \<longrightarrow> (\<forall>b\<in>set xs'. snd b)"
        using serve_found[OF w[unfolded s(1)] n s(4,3)] s(2) by blast
      have l': "layout h ((xs @ as) @ (z, False) # bs)" using l s(1) by simp
      note b = layout_block[OF l']
      have "4 dvd unat (heap_ptr h)" using l by (simp add: layout_def)
      moreover have "4 dvd a" using b(4) s(3) by simp
      moreover have "unat (off h a) = unat (heap_ptr h) + a" using b(7) s(3) by (intro unat_off) simp
      moreover have "unat (off h (a + 12)) = unat (heap_ptr h) + (a + 12)"
        using b(7) s(3) by (intro unat_off) simp
      ultimately have al: "off h a AND 3 = 0" "(off h a + 12) mod 4 = 0"
        by (simp_all add: and_3_eq_0 mod_4_eq_0 add.assoc)
      have "off h (a + 12 + n) \<le> heap_end h3"
        using h(6) b(7,11) s(3,4) unat_off[of h "a + 12 + n"] unat_off[of h "total (xs @ as) + z + total bs"]
        by (simp add: same_env_def word_le_nat_alt add.assoc)
      then have e: "off h a + 12 + of_nat n \<le> heap_end h3" by (simp add: add.assoc)
      have "rt_malloc sz h = Inr (Some (off h (a + 12)), h3)"
        using i sz gt fb False Some ar h(1-3) al e
        by (simp add: rt_malloc_def n' lf Let_def add.assoc)
      then show ?thesis using Some ar h(4-7) by (auto simp flip: n_def)
    qed
  qed
qed

section \<open>Joining free neighbours\<close>

text \<open>Both halves of \<open>plug_holes\<close> make one block of two.\<close>

lemma merge_blocks:
  assumes l: "layout h (xs @ (z, False) # (y, False) # ys)"
  shows "\<exists>h'. bindE (upd_hdr (off h (total xs)) (\<lambda>m. m\<lparr>hm_next := of_nat (total xs + z + y)\<rparr>) h)
      (upd_hdr (off h (total xs + z + y)) (\<lambda>x. x\<lparr>hm_prev := of_nat (total xs)\<rparr>)) = Inr h' \<and>
    layout h' (xs @ (z + y, False) # ys) \<and> lfree h' = lfree h \<and> same_env h h' \<and> used_mem h' = used_mem h"
proof -
  note b = layout_block[OF l]
  let ?k = "total xs" and ?p = "prv 0 0 xs"
  let ?e = "?k + z + y"
  from b(6) have c: "hat h (?k + z) = Some (mk_hdr False ?e ?k)" "16 \<le> y" "4 dvd y"
    "chain (hat h) (?k + z) ?e ys"
    by (auto simp: chain_Cons)
  have k: "?k < 4294967296" "?e < 4294967296" using b(7) by simp_all
  obtain x where x: "hat h ?e = Some x" "chain ((hat h)(?e \<mapsto> x\<lparr>hm_prev := of_nat ?k\<rparr>)) ?k ?e ys"
    using chain_head[OF c(4), of ?k] by blast
  let ?h1 = "put_hdr (off h ?k) (mk_hdr False ?e ?p) h"
  let ?h2 = "put_hdr (off h ?e) (x\<lparr>hm_prev := of_nat ?k\<rparr>) ?h1"
  have hat1: "hat ?h1 = (hat h)(?k \<mapsto> mk_hdr False ?e ?p)"
    using k by (simp add: hat_put_hdr del: of_nat_add)
  have hat2: "hat ?h2 = (hat h)(?k \<mapsto> mk_hdr False ?e ?p, ?e \<mapsto> x\<lparr>hm_prev := of_nat ?k\<rparr>)"
    using k hat_put_hdr[of ?e ?h1 "x\<lparr>hm_prev := of_nat ?k\<rparr>"] by (simp add: hat1 del: of_nat_add)
  have "upd_hdr (off h ?k) (\<lambda>m. m\<lparr>hm_next := of_nat ?e\<rparr>) h = Inr ?h1"
    using upd_hdr_off[OF k(1) b(1)] by (simp del: of_nat_add)
  moreover have "upd_hdr (off h ?e) (\<lambda>x. x\<lparr>hm_prev := of_nat ?k\<rparr>) ?h1 = Inr ?h2"
    using upd_hdr_off[of ?e ?h1 x] hat1 k(2) x(1) b(2) by (simp del: of_nat_add)
  ultimately have "bindE (upd_hdr (off h ?k) (\<lambda>m. m\<lparr>hm_next := of_nat ?e\<rparr>) h)
      (upd_hdr (off h ?e) (\<lambda>x. x\<lparr>hm_prev := of_nat ?k\<rparr>)) = Inr ?h2" by (simp only: bindE.simps)
  moreover have "layout ?h2 (xs @ (z + y, False) # ys)"
  proof (rule layout_transfer[OF l])
    have "chain (hat ?h2) ?k ?e ys"
      using x(2) unfolding hat2
      by (rule chain_blocks_cong[THEN iffD1, rotated]) (use b(2) in auto)
    then show "chain (hat ?h2) 0 0 (xs @ (z + y, False) # ys)"
      using b(2,3,5) c(2,3) unfolding hat2 by (auto simp: chain_append chain_Cons add.assoc)
  qed (use l in \<open>simp_all add: layout_def\<close>)
  ultimately show ?thesis by (intro exI[of _ ?h2]) simp
qed

lemma plug_forward_refines:
  assumes l: "layout h (xs @ (z, False) # qs)"
  shows "\<exists>h'. plug_forward (off h (total xs)) h = Inr h' \<and> layout h' (xs @ absorb z qs) \<and>
    lfree h' = (if lfree h = off h (total xs + z) \<and> qs \<noteq> [] \<and> \<not> snd (hd qs)
                then off h (total xs) else lfree h) \<and>
    same_env h h' \<and> used_mem h' = used_mem h"
proof -
  note b = layout_block[OF l]
  let ?k = "total xs"
  have k: "?k < 4294967296" "?k + z < 4294967296" using b(7) by simp_all
  have ne: "off h ?k \<noteq> off h (?k + z)" using b(2) off_eq_iff[OF k, of h] by simp
  note read = hdr_off[OF k(1) b(1)]
  show ?thesis
  proof (cases qs rule: absorb_cases[of _ z])
    case (1 y ys)
    then have c: "hat h (?k + z) = Some (mk_hdr False (?k + z + y) ?k)" "16 \<le> y"
      using b(6) by (auto simp: chain_Cons)
    let ?h1 = "if lfree h = off h (?k + z) then set_lfree (off h ?k) h else h"
    have "off h (?k + z) \<noteq> heap_end h"
      unfolding b(11) using b(7) c(2) 1(1) by (subst off_eq_iff) auto
    then have "plug_forward (off h ?k) h =
        bindE (upd_hdr (off h ?k) (\<lambda>m. m\<lparr>hm_next := of_nat (?k + z + y)\<rparr>) ?h1)
          (upd_hdr (off h (?k + z + y)) (\<lambda>x. x\<lparr>hm_prev := of_nat ?k\<rparr>))"
      using read hdr_off[OF k(2) c(1)] ne by (simp add: plug_forward_def Let_def del: of_nat_add)
    moreover have "layout ?h1 (xs @ (z, False) # (y, False) # ys)" using l 1(1) by simp
    moreover have "heap_ptr ?h1 = heap_ptr h" by simp
    ultimately show ?thesis
      using merge_blocks[of ?h1 xs z y ys] 1 by (auto simp: same_env_def)
  next
    case 2
    then have "\<exists>m. hat h (?k + z) = Some m \<and> hm_used m = 1"
      using b(6) by (cases qs) (auto simp: chain_Cons chain_def end_hdr_def split: option.splits)
    then obtain m where "hat h (?k + z) = Some m" "hm_used m = 1" by blast
    then have "plug_forward (off h ?k) h = Inr h"
      using read hdr_off[OF k(2), of h m] by (simp add: plug_forward_def Let_def del: of_nat_add)
    then show ?thesis using l 2 by (cases qs) simp_all
  qed
qed

lemma plug_backward_used:
  assumes l: "layout h (xs @ (z, False) # ys)" and u: "xs = [] \<or> snd (last xs)"
  shows "plug_backward (off h (total xs)) h = Inr h"
proof (cases xs rule: rev_cases)
  case Nil
  then show ?thesis using layout_block(1)[OF l] hdr_off[of 0 h] by (simp add: plug_backward_def)
next
  case (snoc ws b)
  obtain w where b: "b = (w, True)" using u snoc by (cases b) auto
  have l': "layout h (ws @ (w, True) # (z, False) # ys)" using l snoc b by simp
  have "hdr h (off h (total xs)) = Inr (mk_hdr False (total xs + z) (total ws))"
    using layout_block(1,7)[OF l] snoc b by (intro hdr_off) simp_all
  moreover have "hdr h (off h (total ws)) = Inr (mk_hdr True (total ws + w) (prv 0 0 ws))"
    using layout_block(1,7)[OF l'] by (intro hdr_off) simp_all
  ultimately show ?thesis by (simp add: plug_backward_def Let_def)
qed

lemma plug_backward_free:
  assumes l: "layout h (ws @ (w, False) # (z, False) # ys)"
  defines "k \<equiv> total ws + w"
  shows "\<exists>h'. plug_backward (off h k) h = Inr h' \<and> layout h' (ws @ (w + z, False) # ys) \<and>
    lfree h' = (if lfree h = off h k then off h (total ws) else lfree h) \<and> same_env h h' \<and>
    used_mem h' = used_mem h"
proof -
  have l': "layout h ((ws @ [(w, False)]) @ (z, False) # ys)" using l by simp
  note b = layout_block[OF l] and b' = layout_block[OF l']
  have "hat h k = Some (mk_hdr False (k + z) (total ws))" using b'(1) by (simp add: k_def)
  moreover have k: "total ws < 4294967296" "k < 4294967296" using b(7) by (simp_all add: k_def)
  ultimately have r: "hdr h (off h k) = Inr (mk_hdr False (k + z) (total ws))" by (intro hdr_off)
  have ne: "off h (total ws) \<noteq> off h k" using b(2) off_eq_iff[OF k, of h] by (simp add: k_def)
  let ?h1 = "if lfree h = off h k then set_lfree (off h (total ws)) h else h"
  have l1: "layout ?h1 (ws @ (w, False) # (z, False) # ys)" using l by simp
  have hp: "heap_ptr ?h1 = heap_ptr h" by simp
  have "plug_backward (off h k) h =
      bindE (upd_hdr (off h (total ws)) (\<lambda>p. p\<lparr>hm_next := of_nat (k + z)\<rparr>) ?h1)
        (upd_hdr (off h (k + z)) (\<lambda>x. x\<lparr>hm_prev := of_nat (total ws)\<rparr>))"
    using r ne hdr_off[OF k(1) b(1)] by (simp add: plug_backward_def Let_def del: of_nat_add)
  then show ?thesis
    using merge_blocks[OF l1] unfolding hp k_def[symmetric] by (auto simp: same_env_def)
qed

text \<open>Where \<open>lfree\<close> is after the block behind \<open>ps\<close> has been joined with its free neighbours.\<close>

definition plugged_lfree :: "heap \<Rightarrow> block list \<Rightarrow> nat \<Rightarrow> block list \<Rightarrow> u32" where
  "plugged_lfree h ps z qs =
     (let l1 = (if lfree h = off h (total ps + z) \<and> qs \<noteq> [] \<and> \<not> snd (hd qs)
                then off h (total ps) else lfree h)
      in if ps \<noteq> [] \<and> \<not> snd (last ps) \<and> l1 = off h (total ps)
         then off h (total (butlast ps)) else l1)"

lemma plugged_lfree_cong:
  "heap_ptr h' = heap_ptr h \<Longrightarrow> lfree h' = lfree h \<Longrightarrow> plugged_lfree h' ps z qs = plugged_lfree h ps z qs"
  by (simp only: plugged_lfree_def)

lemma plug_holes_refines:
  assumes l: "layout h (ps @ (z, False) # qs)"
  shows "\<exists>h'. plug_holes (off h (total ps)) h = Inr h' \<and> layout h' (free_blocks ps z qs) \<and>
    lfree h' = plugged_lfree h ps z qs \<and> same_env h h' \<and> used_mem h' = used_mem h"
proof -
  note b = layout_block[OF l]
  have k: "total ps < 4294967296" using b(7) by simp
  have ge: "heap_ptr h \<le> off h (total ps)"
    using unat_off[of h "total ps"] b(7) by (simp add: word_le_nat_alt)
  have less: "off h (total ps) < heap_end h"
    unfolding b(11) using b(2,7) by (subst off_less_iff) simp_all
  obtain h1 where h1: "plug_forward (off h (total ps)) h = Inr h1" "layout h1 (ps @ absorb z qs)"
      "lfree h1 = (if lfree h = off h (total ps + z) \<and> qs \<noteq> [] \<and> \<not> snd (hd qs)
                then off h (total ps) else lfree h)"
      "same_env h h1" "used_mem h1 = used_mem h"
    using plug_forward_refines[OF l] by blast
  have step: "plug_holes (off h (total ps)) h = plug_backward (off h (total ps)) h1"
    using ge less hdr_off[OF k b(1)] h1(1) by (simp add: plug_holes_def)
  have hp: "heap_ptr h1 = heap_ptr h" using h1(4) by (simp add: same_env_def)
  obtain y r where a: "absorb z qs = (y, False) # r" "\<forall>w. absorb (w + z) qs = (w + y, False) # r"
    using absorb_shift by blast
  show ?thesis
  proof (cases "ps \<noteq> [] \<and> \<not> snd (last ps)")
    case True
    then obtain ws w where ps: "ps = ws @ [(w, False)]" by (cases ps rule: rev_cases) auto
    have "layout h1 (ws @ (w, False) # (y, False) # r)" using h1(2) a ps by simp
    from plug_backward_free[OF this] show ?thesis
      using ps a h1(3-5) step unfolding hp
      by (auto simp: free_blocks_def plugged_lfree_def Let_def same_env_def)
  next
    case False
    then show ?thesis
      using plug_backward_used[of h1 ps y r] h1 a step hp
      by (auto simp: free_blocks_def plugged_lfree_def Let_def)
  qed
qed

section \<open>\<open>rt_free\<close>\<close>

lemma mark_free:
  assumes l: "layout h (ps @ (z, True) # qs)"
    and h': "hat h' = (hat h)(total ps \<mapsto> mk_hdr False (total ps + z) (prv 0 0 ps))"
      "same_env h h'" "used_mem h' = used_mem h - of_nat z"
  shows "layout h' (ps @ (z, False) # qs)"
proof (rule layout_transfer[OF l h'(2)])
  note b = layout_block[OF l]
  show "chain (hat h') 0 0 (ps @ (z, False) # qs)"
    using b(2,3,5,6) unfolding h'(1) by (simp add: chain_append chain_Cons)
  have "(of_nat z :: u32) \<le> used_mem h" "z < 4294967296"
    using l b(7) by (simp_all add: layout_def word_le_nat_alt)
  then show "unat (used_mem h') = used_total (ps @ (z, False) # qs)"
    using l by (simp add: h'(3) layout_def unat_sub)
qed simp

lemma rt_free_layout:
  assumes l: "layout h (ps @ (z, True) # qs)" and i: "\<not> in_isr h"
  defines "k \<equiv> total ps"
  shows "\<exists>h'. rt_free (Some (off h (k + 12))) h = Inr h' \<and> layout h' (free_blocks ps z qs) \<and>
    same_env h h' \<and>
    lfree h' = plugged_lfree (set_lfree (if off h k < lfree h then off h k else lfree h) h) ps z qs"
proof -
  note b = layout_block[OF l, folded k_def]
  let ?a = "off h (k + 12)"
  have k: "k < 4294967296" and z: "z < 4294967296" using b(7) by simp_all
  have mem: "?a - 12 = off h k" by simp
  have ua: "unat ?a = unat (heap_ptr h) + (k + 12)" using b(7) by (intro unat_off) simp
  have "4 dvd unat (heap_ptr h)" using l by (simp add: layout_def)
  then have al: "?a AND 3 = 0" using ua b(4) by (simp add: and_3_eq_0)
  have ge: "heap_ptr h \<le> ?a" using ua by (simp only: word_le_nat_alt)
  have less: "?a < heap_end h"
    unfolding b(11) using b(2,7) by (subst off_less_iff) simp_all
  let ?h1 = "put_hdr (off h k) (mk_hdr False (k + z) (prv 0 0 ps)) h"
  let ?h2 = "if off h k < lfree ?h1 then set_lfree (off h k) ?h1 else ?h1"
  let ?h3 = "set_used_mem (used_mem ?h2 - of_nat z) ?h2"
  define A N :: u32 where w: "A = ?a" "N = of_nat (k + z)"
  have "A - 12 = off h k" using mem w by simp
  moreover have "N - (off h k - heap_ptr h) = of_nat z" by (simp add: w)
  moreover have "hm_next (mk_hdr True (k + z) (prv 0 0 ps)) = N" by (simp add: w)
  moreover have "(mk_hdr True (k + z) (prv 0 0 ps))\<lparr>hm_used := 0, hm_magic := HEAP_MAGIC\<rparr> = mk_hdr False (k + z) (prv 0 0 ps)"
    by (simp add: mk_hdr_def)
  moreover have "A AND 3 = 0" "A \<ge> heap_ptr h" "A < heap_end h" using al ge less unfolding w by blast+
  moreover have "hm_used (mk_hdr True (k + z) (prv 0 0 ps)) \<noteq> 0"
    "hm_magic (mk_hdr True (k + z) (prv 0 0 ps)) = HEAP_MAGIC" by simp_all
  moreover note hdr_off[OF k b(1)] i
  ultimately have "rt_free (Some A) h = plug_holes (off h k) ?h3"
    unfolding rt_free_def option.case Let_def
    by (simp only: bindE.simps assertE_True simp_thms)
  then have step: "rt_free (Some ?a) h = plug_holes (off h k) ?h3" unfolding w .
  have "layout ?h3 (ps @ (z, False) # qs)"
    by (rule mark_free[OF l]) (use k in \<open>simp_all add: hat_put_hdr k_def\<close>)
  from plug_holes_refines[OF this] obtain h' where h': "plug_holes (off ?h3 (total ps)) ?h3 = Inr h'"
      "layout h' (free_blocks ps z qs)" "lfree h' = plugged_lfree ?h3 ps z qs" "same_env ?h3 h'"
    by blast
  have "same_env h ?h3" "heap_ptr ?h3 = heap_ptr h" by simp_all
  moreover have "plugged_lfree ?h3 ps z qs =
      plugged_lfree (set_lfree (if off h k < lfree h then off h k else lfree h) h) ps z qs"
    by (rule plugged_lfree_cong) simp_all
  ultimately show ?thesis
    using h' step same_env_trans[of h ?h3 h'] by (intro exI[of _ h']) (simp only: k_def)
qed

lemma plugged_stays:
  assumes "lfree h = off h i" "i < total ps" "total ps + z < 4294967296"
  shows "plugged_lfree h ps z qs = off h i"
proof -
  have "off h i \<noteq> off h (total ps + z)" "off h i \<noteq> off h (total ps)"
    using assms by (subst off_eq_iff; simp)+
  then show ?thesis using assms(1) by (simp only: plugged_lfree_def Let_def simp_thms if_False)
qed

text \<open>The first free block of the result.\<close>

lemma takeWhile_free_blocks:
  "takeWhile snd (free_blocks ps z qs) = (if \<forall>b\<in>set ps. snd b then ps else takeWhile snd ps)"
proof (cases "\<forall>b\<in>set ps. snd b")
  case True
  then have "ps = [] \<or> snd (last ps)" using last_in_set by blast
  then have "free_blocks ps z qs = ps @ absorb z qs" by (auto simp: free_blocks_def)
  then show ?thesis using True by (cases qs rule: absorb_cases[of _ z]) auto
next
  case False
  show ?thesis
  proof (cases ps z qs rule: snoc_free_cases)
    case (1 ws w)
    then show ?thesis
      using False by (cases qs rule: absorb_cases[of _ "w + z"]) (auto simp: takeWhile_append)
  qed (use False in \<open>auto simp: takeWhile_append\<close>)
qed

lemma takeWhile_not_all:
  "\<not> (\<forall>b\<in>set ps. snd b) \<Longrightarrow> seg f p k ps \<Longrightarrow> total (takeWhile snd ps) < total ps"
  by (induction f p k ps rule: seg.induct) auto

theorem rt_free_ok:
  assumes ok: "heap_ok h (ps @ (z, True) # qs)" and i: "\<not> in_isr h"
  shows "\<exists>h'. rt_free (Some (off h (total ps + 12))) h = Inr h' \<and> heap_ok h' (free_blocks ps z qs) \<and>
    same_env h h'"
proof -
  have l: "layout h (ps @ (z, True) # qs)" and na: "no_adj (ps @ (z, True) # qs)"
    and lf: "lfree h = off h (total (takeWhile snd (ps @ (z, True) # qs)))"
    using ok by (auto simp: heap_ok_lfree)
  note b = layout_block[OF l]
  let ?k = "total ps" and ?t = "total (takeWhile snd (free_blocks ps z qs))"
  let ?l = "if off h ?k < lfree h then off h ?k else lfree h"
  have b7: "unat (heap_ptr h) + ?k + z < 4294967296" using b(7) by simp
  have le: "total (takeWhile snd qs) \<le> total qs"
    using takeWhile_dropWhile_id[of snd qs] total_append[of "takeWhile snd qs" "dropWhile snd qs"] by simp
  have "plugged_lfree (set_lfree ?l h) ps z qs = off h ?t"
  proof (cases "\<forall>b\<in>set ps. snd b")
    case True
    then have "lfree h = off h (?k + z + total (takeWhile snd qs))"
      using lf by (simp add: takeWhile_append add.assoc)
    then have "off h ?k < lfree h" using b(2,7) le off_less_iff[of h ?k "?k + z + total (takeWhile snd qs)"] by simp
    moreover have "off h ?k \<noteq> off h (?k + z)" using b(2) b7 by (subst off_eq_iff) simp_all
    moreover have "ps = [] \<or> snd (last ps)" using True last_in_set by blast
    ultimately show ?thesis
      using True by (auto simp: plugged_lfree_def takeWhile_free_blocks)
  next
    case False
    then have t: "takeWhile snd (ps @ (z, True) # qs) = takeWhile snd ps"
      by (auto simp: takeWhile_append)
    have less: "total (takeWhile snd ps) < ?k" using takeWhile_not_all[OF False b(5)] .
    have "\<not> off h ?k < lfree h"
      unfolding lf t using less b7 by (subst off_less_iff) simp_all
    then have "plugged_lfree (set_lfree ?l h) ps z qs = plugged_lfree h ps z qs"
      by (intro plugged_lfree_cong) simp_all
    moreover have "takeWhile snd (free_blocks ps z qs) = takeWhile snd ps"
      using False by (simp only: takeWhile_free_blocks if_False)
    ultimately show ?thesis
      using plugged_stays[of h "total (takeWhile snd ps)" ps z qs] lf t less b7 by simp
  qed
  moreover obtain h' where h': "rt_free (Some (off h (?k + 12))) h = Inr h'" "same_env h h'"
      "layout h' (free_blocks ps z qs)" "lfree h' = plugged_lfree (set_lfree ?l h) ps z qs"
    using rt_free_layout[OF l i] by blast
  moreover have "heap_ptr h' = heap_ptr h" using h'(2) by (simp add: same_env_def)
  ultimately show ?thesis
    using no_adj_free_blocks[OF na] by (intro exI[of _ h']) (simp add: heap_ok_lfree)
qed

theorem rt_malloc_ok:
  assumes ok: "heap_ok h bs" and i: "\<not> in_isr h"
  shows "case malloc_blocks sz bs of
      None \<Rightarrow> rt_malloc sz h = Inr (None, h)
    | Some (a, cs) \<Rightarrow> \<exists>h'. rt_malloc sz h = Inr (Some (off h (a + 12)), h') \<and> heap_ok h' cs \<and> same_env h h'"
proof (cases "sz = 0")
  case False
  obtain xs ys where s: "bs = xs @ ys" "heap_wf h xs ys" "\<forall>b\<in>set xs. snd b"
    using ok by (auto simp: heap_ok_iff)
  have S: "unat (mem_size_aligned h) = total bs - 12" using heap_okD(1)[OF ok] by (simp add: layout_def)
  let ?n = "req sz"
  let ?lim = "total bs - 12 - ?n"
  have wf: "case alloc_blocks ?n ?lim (total xs) ys of None \<Rightarrow> rt_malloc sz h = Inr (None, h)
    | Some (a, r) \<Rightarrow> \<exists>h' xs' ys'. rt_malloc sz h = Inr (Some (off h (a + 12)), h') \<and>
        heap_wf h' xs' ys' \<and> xs' @ ys' = xs @ r \<and> same_env h h' \<and>
        ((\<forall>b\<in>set xs. snd b) \<longrightarrow> (\<forall>b\<in>set xs'. snd b))"
    using rt_malloc_wf[OF s(2) i False] unfolding S .
  have "?lim \<le> 0 \<Longrightarrow> alloc_blocks ?n ?lim (total xs) ys = None"
    by (cases ys rule: total.cases) simp_all
  then have m: "malloc_blocks sz bs = map_option (\<lambda>(a, r). (a, xs @ r)) (alloc_blocks ?n ?lim (total xs) ys)"
    using False alloc_blocks_used[OF s(3), of ?n ?lim 0 ys] by (simp add: malloc_blocks_def s(1))
  show ?thesis
  proof (cases "alloc_blocks ?n ?lim (total xs) ys")
    case (Some ar)
    obtain a r where ar: "ar = (a, r)" by (cases ar)
    obtain h' xs' ys' where h': "rt_malloc sz h = Inr (Some (off h (a + 12)), h')"
        "heap_wf h' xs' ys'" "xs' @ ys' = xs @ r" "same_env h h'" "\<forall>b\<in>set xs'. snd b"
      using wf s(3) unfolding Some ar by auto
    then have "heap_ok h' (xs @ r)" unfolding heap_ok_iff by metis
    then show ?thesis using h'(1,4) m Some ar by simp
  qed (use wf m in simp)
qed (simp add: malloc_blocks_def rt_malloc_def)

section \<open>\<open>rt_system_heap_init\<close>\<close>

definition heap_start :: "u32 \<Rightarrow> nat" where
  "heap_start b = unat (rt_align b)"

definition heap_stop :: "u32 \<Rightarrow> nat" where
  "heap_stop e = unat (rt_align_down e)"

lemma heap_init_state:
  assumes room: "heap_start b + 24 < heap_stop e" and i: "\<not> in_isr h"
  defines "z \<equiv> heap_stop e - heap_start b - 12"
  shows "\<exists>h'. rt_system_heap_init b e h = Inr h' \<and> heap_ptr h' = rt_align b \<and> lfree h' = heap_ptr h' \<and>
    hat h' 0 = Some (mk_hdr False z 0) \<and> hat h' z = Some (mk_hdr True z z) \<and> heap_end h' = off h' z \<and>
    unat (mem_size_aligned h') + 12 = z \<and> used_mem h' = used_mem h \<and> \<not> in_isr h' \<and>
    4 dvd z \<and> 4 dvd unat (heap_ptr h') \<and> unat (heap_ptr h') + z + 12 < 4294967296"
proof -
  define B E where w: "B = rt_align b" "E = rt_align_down e"
  have u: "unat B = heap_start b" "unat E = heap_stop e" by (simp_all add: w heap_start_def heap_stop_def)
  have al: "4 dvd unat B" "4 dvd unat E"
    using dvd_rt_align and_not_3[of e] by (simp_all add: w rt_align_down_def)
  have E32: "unat E < 4294967293"
    using al(2) unat_u32_less[of E] by presburger
  have z: "z = unat E - unat B - 12" by (simp add: z_def u)
  have S: "unat (E - B - 24) = unat E - unat B - 24" "(E - B - 24) + 12 = of_nat z"
    using room by (simp_all add: z u[symmetric] unat_sub word_le_nat_alt of_nat_diff)
  have guard: "E > 2 * 12" "E - 2 * 12 \<ge> B"
    using room by (simp_all add: u[symmetric] unat_sub word_le_nat_alt word_less_nat_alt)
  have z32: "z < 4294967296" "0 < z" using E32 room by (simp_all add: z u)
  let ?h1 = "h\<lparr>mem_size_aligned := E - B - 24, heap_ptr := B\<rparr>"
  let ?h2 = "put_hdr B (mk_hdr False z 0) ?h1"
  let ?h3 = "put_hdr (B + of_nat z) (mk_hdr True z z) (?h2\<lparr>heap_end := B + of_nat z\<rparr>)"
  let ?h' = "set_lfree B ?h3"
  have "rt_system_heap_init b e h = Inr ?h'"
    unfolding rt_system_heap_init_def w[symmetric] Let_def
    using i guard by (simp add: S(2) mk_hdr_def)
  moreover have "hat ?h' = (hat ?h1)(0 \<mapsto> mk_hdr False z 0, z \<mapsto> mk_hdr True z z)"
  proof -
    have "hat ?h3 = (hat (?h2\<lparr>heap_end := B + of_nat z\<rparr>))(z \<mapsto> mk_hdr True z z)"
      using hat_put_hdr[OF z32(1), of "?h2\<lparr>heap_end := B + of_nat z\<rparr>" "mk_hdr True z z"] by simp
    moreover have "hat (?h2\<lparr>heap_end := B + of_nat z\<rparr>) = hat ?h2" by (auto simp: hat_def)
    moreover have "hat ?h2 = (hat ?h1)(0 \<mapsto> mk_hdr False z 0)"
      using hat_put_hdr[of 0 ?h1 "mk_hdr False z 0"] by simp
    ultimately show ?thesis by simp
  qed
  then have "hat ?h' 0 = Some (mk_hdr False z 0)" "hat ?h' z = Some (mk_hdr True z z)"
    using z32(2) by simp_all
  moreover have "unat (mem_size_aligned ?h') + 12 = z" using S(1) room by (simp add: z u)
  moreover have "4 dvd z" "unat B + z + 12 < 4294967296"
    using al room E32 by (simp_all add: z u dvd_diff_nat)
  ultimately show ?thesis using i al(1) by (intro exI[of _ ?h']) (simp add: w)
qed

theorem heap_init_ok:
  assumes room: "heap_start b + 36 \<le> heap_stop e" and fresh: "used_mem h = 0" "\<not> in_isr h"
  shows "\<exists>h'. rt_system_heap_init b e h = Inr h' \<and> heap_ok h' [(heap_stop e - heap_start b - 12, False)] \<and>
    \<not> in_isr h' \<and> heap_ptr h' = rt_align b"
proof -
  define z where "z = heap_stop e - heap_start b - 12"
  have "heap_start b + 24 < heap_stop e" "24 \<le> z" using room by (simp_all add: z_def)
  then show ?thesis
    using heap_init_state[of b e h] fresh unfolding z_def[symmetric]
    by (auto simp: heap_ok_lfree layout_def chain_def end_hdr_def)
qed

section \<open>The blocks in use\<close>

fun used_offs :: "nat \<Rightarrow> block list \<Rightarrow> (nat \<times> nat) list" where
  "used_offs k [] = []"
| "used_offs k ((z, u) # bs) = (if u then [(k, z)] else []) @ used_offs (k + z) bs"

lemma used_offs_append [simp]: "used_offs k (xs @ ys) = used_offs k xs @ used_offs (k + total xs) ys"
  by (induction k xs rule: used_offs.induct) (auto simp: add.assoc)

lemma used_offs_absorb [simp]: "used_offs k (absorb z qs) = used_offs (k + z) qs"
  by (cases "(z, qs)" rule: absorb.cases) (auto simp: add.assoc)

lemma used_offs_free [simp]:
  "used_offs 0 (free_blocks ps z qs) = used_offs 0 ps @ used_offs (total ps + z) qs"
  by (cases ps z qs rule: snoc_free_cases) (simp_all add: add.assoc)

lemma used_offs_range: "(i, z) \<in> set (used_offs k bs) \<Longrightarrow> k \<le> i \<and> i + z \<le> k + total bs"
  by (induction k bs rule: used_offs.induct) (auto split: if_splits)

lemma used_offs_sorted: "sorted_wrt (\<lambda>(i, z) (j, y). i + z \<le> j) (used_offs k bs)"
  by (induction k bs rule: used_offs.induct) (auto simp: sorted_wrt_append dest: used_offs_range)

lemma used_offs_min: "seg f p k bs \<Longrightarrow> (i, z) \<in> set (used_offs k bs) \<Longrightarrow> 16 \<le> z"
  by (induction f p k bs rule: seg.induct) (auto split: if_splits)

lemma used_offs_split: "(i, z) \<in> set (used_offs k bs) \<Longrightarrow>
    \<exists>ps qs. bs = ps @ (z, True) # qs \<and> i = k + total ps"
proof (induction k bs rule: used_offs.induct)
  case (2 k y u bs)
  show ?case
  proof (cases "u \<and> i = k \<and> z = y")
    case True
    then show ?thesis by (intro exI[of _ "[]"] exI[of _ bs]) simp
  next
    case False
    then have "(i, z) \<in> set (used_offs (k + y) bs)" using 2(2) by (auto split: if_splits)
    then obtain ps qs where "bs = ps @ (z, True) # qs" "i = k + y + total ps" using 2(1) by blast
    then show ?thesis by (intro exI[of _ "(y, u) # ps"] exI[of _ qs]) simp
  qed
qed simp

end
