(* ===== verification/Mem_Realloc.thy ===== *)
theory Mem_Realloc
  imports Mem_Facts
begin

text \<open>
  The three ways of \<open>rt_realloc\<close>: the block stays when its size does, it is split when it shrinks by
  more than a block can take, and otherwise its contents move to a new block.
\<close>

section \<open>Shrinking in place\<close>

lemma shrink_split:
  assumes l: "layout h (ps @ (z, True) # qs)" and n: "0 < n" "4 dvd n" "n + 36 < z"
  shows "\<exists>h'. shrink_block (off h (total ps)) (of_nat (z - 12)) (of_nat n) h =
      plug_holes (off h (total ps + n + 12)) h' \<and>
    layout h' (ps @ (n + 12, True) # (z - n - 12, False) # qs) \<and> lfree h' = lfree h \<and> same_env h h'"
proof -
  note b = layout_block[OF l]
  let ?k = "total ps" and ?p = "prv 0 0 ps"
  let ?m = "?k + n + 12" and ?e = "?k + z"
  let ?h0 = "set_used_mem (used_mem h - (of_nat (z - 12) - of_nat n)) h"
  let ?h1 = "put_hdr (off h ?m) (mk_hdr False ?e ?k) ?h0"
  let ?h2 = "put_hdr (off h ?k) (mk_hdr True ?m ?p) ?h1"
  have n4: "4 \<le> n" using n(1,2) by (simp add: dvd_imp_le)
  have k: "?k < 4294967296" "?m < 4294967296" "?e < 4294967296" "?k + z + total qs < 4294967296"
    using b(7) n by simp_all
  obtain x where x: "hat h ?e = Some x" "chain ((hat h)(?e \<mapsto> x\<lparr>hm_prev := of_nat ?m\<rparr>)) ?m ?e qs"
    using chain_head[OF b(6), of ?m] by blast
  let ?h3 = "if total qs = 0 then ?h2 else put_hdr (off h ?e) (x\<lparr>hm_prev := of_nat ?m\<rparr>) ?h2"
  have hat1: "hat ?h1 = (hat h)(?m \<mapsto> mk_hdr False ?e ?k)"
    using k hat_put_hdr[of ?m ?h0 "mk_hdr False ?e ?k"] by (simp del: of_nat_add)
  have hat2: "hat ?h2 = (hat h)(?m \<mapsto> mk_hdr False ?e ?k, ?k \<mapsto> mk_hdr True ?m ?p)"
    using k hat_put_hdr[of ?k ?h1 "mk_hdr True ?m ?p"] by (simp add: hat1 del: of_nat_add)
  have hat3: "hat ?h3 = (if total qs = 0 then hat ?h2 else (hat ?h2)(?e \<mapsto> x\<lparr>hm_prev := of_nat ?m\<rparr>))"
    using k hat_put_hdr[of ?e ?h2 "x\<lparr>hm_prev := of_nat ?m\<rparr>"] by (simp del: of_nat_add)
  define K M E N :: u32 where w: "K = of_nat ?k" "M = of_nat ?m" "E = of_nat ?e" "N = of_nat n"
  have "hdr ?h0 (heap_ptr h + K) = Inr (mk_hdr True ?e ?p)"
    using hdr_off[of ?k ?h0] k(1) b(1) by (simp add: w)
  moreover have "hm_next (mk_hdr True ?e ?p) = E" by (simp add: w)
  moreover have "E \<noteq> mem_size_aligned h + 12 \<longleftrightarrow> total qs \<noteq> 0"
    unfolding b(8) w using of_nat_u32_eq_iff[OF k(3,4)] by auto
  moreover have "heap_ptr h + K - heap_ptr h = K" "K + 12 + N = M" by (simp_all add: w)
  moreover have "\<lparr>hm_magic = HEAP_MAGIC, hm_used = 0, hm_next = E, hm_prev = K\<rparr> = mk_hdr False ?e ?k"
    by (simp add: w mk_hdr_def)
  moreover have "upd_hdr (heap_ptr h + K) (\<lambda>m. m\<lparr>hm_next := M\<rparr>)
      (put_hdr (heap_ptr h + M) (mk_hdr False ?e ?k) ?h0) = Inr ?h2"
    using upd_hdr_off[of ?k ?h1 "mk_hdr True ?e ?p"] hat1 k(1) b(1) n
    by (simp add: w del: of_nat_add)
  moreover have "total qs \<noteq> 0 \<Longrightarrow> upd_hdr (heap_ptr h + E) (\<lambda>x. x\<lparr>hm_prev := M\<rparr>) ?h2 = Inr ?h3"
    using upd_hdr_off[of ?e ?h2 x] hat2 k(3) x(1) n by (simp add: w del: of_nat_add)
  ultimately have "shrink_block (heap_ptr h + K) (of_nat (z - 12)) N h = plug_holes (heap_ptr h + M) ?h3"
    unfolding shrink_block_def Let_def w(4)[symmetric] by (simp del: mk_hdr_simps)
  then have "shrink_block (off h ?k) (of_nat (z - 12)) (of_nat n) h = plug_holes (off h ?m) ?h3"
    unfolding w .
  moreover have "layout ?h3 (ps @ (n + 12, True) # (z - n - 12, False) # qs)"
  proof (rule layout_transfer[OF l])
    have "chain (hat ?h3) ?m ?e qs"
    proof (cases "total qs = 0")
      case True
      then have "qs = []" using b(6) by (simp add: chain_total_0)
      then show ?thesis using b(6) n unfolding hat3 hat2 by (simp add: chain_def end_hdr_def)
    next
      case False
      show ?thesis
        using x(2) unfolding hat3 hat2
        by (rule chain_blocks_cong[THEN iffD1, rotated]) (use False n in auto)
    qed
    then show "chain (hat ?h3) 0 0 (ps @ (n + 12, True) # (z - n - 12, False) # qs)"
      using b(3,5) n n4 unfolding hat3 hat2
      by (auto simp: chain_append chain_Cons add.assoc dvd_diff_nat)
    have d: "(of_nat (z - 12) - of_nat n :: u32) = of_nat (z - 12 - n)"
      using n by (simp add: of_nat_diff)
    have "unat (of_nat (z - 12) - of_nat n :: u32) = z - 12 - n"
      unfolding d by (rule unat_of_nat_u32) (use k in simp)
    moreover have "z \<le> unat (used_mem h)" using l by (simp add: layout_def)
    ultimately show "unat (used_mem ?h3) = used_total (ps @ (n + 12, True) # (z - n - 12, False) # qs)"
      using l n by (simp add: layout_def unat_sub word_le_nat_alt)
  qed (use n in simp_all)
  ultimately show ?thesis by (intro exI[of _ ?h3]) simp
qed

text \<open>What \<open>rt_realloc\<close> reads of a block in use.\<close>

lemma used_block_reads:
  assumes l: "layout h (ps @ (z, True) # qs)"
  defines "k \<equiv> total ps"
  shows "\<not> (off h (k + 12) < heap_ptr h \<or> off h (k + 12) \<ge> heap_end h)"
    and "off h (k + 12) - 12 = off h k" and "hdr h (off h k) = Inr (mk_hdr True (k + z) (prv 0 0 ps))"
    and "(of_nat (k + z) :: u32) - (off h k - heap_ptr h) - 12 = of_nat (z - 12)"
proof -
  note b = layout_block[OF l, folded k_def]
  have ua: "unat (off h (k + 12)) = unat (heap_ptr h) + (k + 12)" using b(7) by (intro unat_off) simp
  have "heap_ptr h \<le> off h (k + 12)" using ua by (simp only: word_le_nat_alt)
  moreover have "off h (k + 12) < heap_end h"
    unfolding b(11) using b(2,7) by (subst off_less_iff) simp_all
  ultimately show "\<not> (off h (k + 12) < heap_ptr h \<or> off h (k + 12) \<ge> heap_end h)" by auto
  show "hdr h (off h k) = Inr (mk_hdr True (k + z) (prv 0 0 ps))"
    using b(7) by (intro hdr_off[OF _ b(1)]) simp
  show "(of_nat (k + z) :: u32) - (off h k - heap_ptr h) - 12 = of_nat (z - 12)"
    using b(2) by (simp add: of_nat_diff)
qed simp

theorem realloc_shrink_layout:
  assumes l: "layout h (ps @ (z, True) # qs)" and i: "\<not> in_isr h"
    and n: "n = unat (rt_align newsize)" "0 < n" "n + 36 < z"
  defines "a \<equiv> off h (total ps + 12)"
  shows "\<exists>h'. rt_realloc (Some a) newsize h = Inr (Some a, h') \<and>
    layout h' (ps @ (n + 12, True) # absorb (z - n - 12) qs) \<and> same_env h h' \<and>
    lfree h' = (if lfree h = off h (total ps + z) \<and> qs \<noteq> [] \<and> \<not> snd (hd qs)
                then off h (total ps + n + 12) else lfree h)"
proof -
  let ?k = "total ps"
  note b = layout_block[OF l]
  note r = used_block_reads[OF l, folded a_def]
  have N: "rt_align newsize = of_nat n" using n(1) by simp
  have small: "\<not> rt_align newsize > mem_size_aligned h"
    using n b(9) by (simp add: word_less_nat_alt)
  have ne: "rt_align newsize \<noteq> 0" using n(1,2) by auto
  have z32: "z < 4294967296" "n + 24 < 4294967296" using b(7) n by simp_all
  have neq: "(of_nat (z - 12) :: u32) \<noteq> of_nat n"
    using of_nat_u32_eq_iff[of "z - 12" n] z32 n by simp
  have "(of_nat (n + 24) :: u32) < of_nat (z - 12)"
    using of_nat_u32_less_iff[of "n + 24" "z - 12"] z32 n by simp
  then have less: "(of_nat n :: u32) + 12 + 12 < of_nat (z - 12)" by (simp add: add.assoc)
  obtain h1 where h1: "shrink_block (off h ?k) (of_nat (z - 12)) (of_nat n) h =
      plug_holes (off h (?k + n + 12)) h1"
      "layout h1 (ps @ (n + 12, True) # (z - n - 12, False) # qs)" "lfree h1 = lfree h" "same_env h h1"
    using shrink_split[OF l n(2) _ n(3)] dvd_rt_align[of newsize] n(1) by auto
  have l1: "layout h1 ((ps @ [(n + 12, True)]) @ (z - n - 12, False) # qs)" using h1(2) by simp
  have hp: "heap_ptr h1 = heap_ptr h" using h1(4) by (simp add: same_env_def)
  have e: "total (ps @ [(n + 12, True)]) = ?k + n + 12" "?k + n + 12 + (z - n - 12) = ?k + z"
    using n by simp_all
  obtain h' where h': "plug_holes (off h (?k + n + 12)) h1 = Inr h'"
      "layout h' (free_blocks (ps @ [(n + 12, True)]) (z - n - 12) qs)"
      "lfree h' = plugged_lfree h1 (ps @ [(n + 12, True)]) (z - n - 12) qs" "same_env h1 h'"
    using plug_holes_refines[OF l1] unfolding e hp by blast
  have "lfree h' = (if lfree h = off h (?k + z) \<and> qs \<noteq> [] \<and> \<not> snd (hd qs)
      then off h (?k + n + 12) else lfree h)"
    unfolding h'(3) plugged_lfree_def Let_def e hp h1(3) by simp
  moreover have "free_blocks (ps @ [(n + 12, True)]) (z - n - 12) qs = ps @ (n + 12, True) # absorb (z - n - 12) qs"
    by (simp add: free_blocks_def)
  moreover have "rt_realloc (Some a) newsize h = Inr (Some a, h')"
  proof -
    define S where "S = (of_nat (z - 12) :: u32)"
    define X where "X = (of_nat (?k + z) :: u32)"
    have "hm_next (mk_hdr True (?k + z) (prv 0 0 ps)) = X" by (simp add: X_def)
    moreover have "shrink_block (off h ?k) S (rt_align newsize) h = Inr h'"
      using h1(1) h'(1) by (simp add: S_def N)
    ultimately show ?thesis
      using i small ne r(1) r(4)[folded S_def X_def] neq[folded S_def N] less[folded S_def N]
      unfolding rt_realloc_def option.case Let_def r(2) r(3)
      by (simp add: r(3) del: mk_hdr_simps)
  qed
  ultimately show ?thesis using h' h1(4) same_env_trans[of h h1 h'] by auto
qed

section \<open>Moving the contents\<close>

lemma of_nat_u32_diff:
  "x < 4294967296 \<Longrightarrow> y < 4294967296 \<Longrightarrow>
   (of_nat x - of_nat y :: u32) = of_nat (if y \<le> x then x - y else 4294967296 + x - y)"
proof (cases "y \<le> x")
  case False
  moreover have "(of_nat 4294967296 :: u32) = 0" by simp
  ultimately show "y < 4294967296 \<Longrightarrow> ?thesis" by (simp add: of_nat_diff)
qed (simp add: of_nat_diff)

lemma in_range_iff:
  assumes "x < 4294967296" "d + m < 4294967296"
  shows "(of_nat x - of_nat d :: u32) < of_nat m \<longleftrightarrow> d \<le> x \<and> x < d + m"
  using assms by (subst of_nat_u32_diff) (auto simp: of_nat_u32_less_iff less_diff_conv2 simp del: of_nat_add)

lemma hat_overwrite:
  assumes "j + 12 \<le> d \<or> d + m \<le> j" "j + 12 < 4294967296" "d + m < 4294967296"
  shows "hat (overwrite_hdrs (off h d) (of_nat m) h) j = hat h j"
proof -
  have "[0, 1, 2, 3, 4, 5, 6, 7, 8, 9, 10, 11 :: u32] = map of_nat [0..<12]"
    by (simp add: upt_rec)
  moreover have "\<not> off h j + of_nat i - off h d < of_nat m" if "i < 12" for i
  proof -
    have "off h j + of_nat i - off h d = of_nat (j + i) - of_nat d" by simp
    moreover have "\<not> (of_nat (j + i) - of_nat d :: u32) < of_nat m"
      using assms that by (subst in_range_iff) auto
    ultimately show ?thesis by (simp only: not_False_eq_True)
  qed
  ultimately show ?thesis
    using assms(2) by (auto simp: hat_def overwrite_hdrs_def list_ex_iff)
qed

lemma copy_bytes_simps [simp]:
  "heap_ptr (copy_bytes d s m h) = heap_ptr h" "heap_end (copy_bytes d s m h) = heap_end h"
  "lfree (copy_bytes d s m h) = lfree h" "mem_size_aligned (copy_bytes d s m h) = mem_size_aligned h"
  "used_mem (copy_bytes d s m h) = used_mem h" "in_isr (copy_bytes d s m h) = in_isr h"
  "hat (copy_bytes d s m h) = hat (overwrite_hdrs d m h)"
  "heap_bytes (copy_bytes d s m h) = (\<lambda>a. if a - d < m then heap_bytes h (s + (a - d)) else heap_bytes h a)"
  by (auto simp: copy_bytes_def overwrite_hdrs_def hat_def)

text \<open>Writing within the payload of a block leaves the headers.\<close>

lemma layout_copy:
  assumes l: "layout h (us @ (w, u) # vs)" and m: "m + 12 \<le> w"
  shows "layout (copy_bytes (off h (total us + 12)) src (of_nat m) h) (us @ (w, u) # vs)"
proof -
  note b = layout_block[OF l]
  define f where "f = hat (overwrite_hdrs (off h (total us + 12)) (of_nat m) h)"
  have same: "f j = hat h j" if "j \<le> total us \<or> total us + w \<le> j" "j \<le> total us + w + total vs" for j
    using that b(7) m unfolding f_def by (intro hat_overwrite) auto
  have "chain f (total us) (total us + w) vs"
    using b(6) by (rule chain_blocks_cong[THEN iffD1, rotated]) (auto simp: same)
  moreover have "seg f 0 0 us"
    using b(5) by (rule seg_cong[THEN iffD1, rotated]) (auto simp: same)
  moreover have "f (total us) = Some (mk_hdr u (total us + w) (prv 0 0 us))"
    using b(1) same by simp
  ultimately have "chain f 0 0 (us @ (w, u) # vs)" using b(2,3) by (simp add: chain_append chain_Cons)
  then show ?thesis using l unfolding f_def layout_def copy_bytes_simps by blast
qed

lemma heap_ok_copy:
  assumes "heap_ok h (us @ (w, u) # vs)" "m + 12 \<le> w"
  shows "heap_ok (copy_bytes (off h (total us + 12)) src (of_nat m) h) (us @ (w, u) # vs)"
  using assms layout_copy[of h us w u vs m src] by (simp add: heap_ok_lfree)

lemma rt_align_idem: "rt_align (rt_align x) = rt_align x"
proof -
  obtain q where q: "unat (rt_align x) = 4 * q" using dvd_rt_align[of x] by (elim dvdE)
  then have "4 * q < 4294967293" using unat_u32_less[of "rt_align x"] by presburger
  then have "unat (rt_align (rt_align x)) = 4 * ((4 * q + 3) div 4)"
    using unat_rt_align[of "rt_align x"] q by simp
  then show ?thesis using q by (simp only: word_unat_eq_iff) simp
qed

lemma carve_parts: "n + 12 \<le> z \<Longrightarrow> \<exists>w rest. carve n z = (w, True) # rest \<and> n + 12 \<le> w \<and>
    w + total rest = z \<and> (\<forall>k. used_offs k rest = [])"
  by (auto simp: carve_def)

text \<open>A block in use stays where it is when another is allocated; the new one is in use.\<close>

lemma malloc_blocks_used:
  assumes "malloc_blocks sz bs = Some (a, cs)"
  shows "\<exists>xs z ys w rest. bs = xs @ (z, False) # ys \<and> cs = xs @ (w, True) # rest @ ys \<and> a = total xs \<and>
    req sz + 12 \<le> w \<and> total ((w, True) # rest) = z \<and> used_offs (total xs + w) rest = []"
proof -
  obtain xs z ys where s: "bs = xs @ (z, False) # ys" "cs = xs @ carve (req sz) z @ ys" "a = total xs"
      "req sz + 12 \<le> z"
    using assms alloc_blocks_SomeD[of "req sz" "total bs - 12 - req sz" 0 bs a cs]
    by (auto simp: malloc_blocks_def split: if_splits)
  obtain w rest where "carve (req sz) z = (w, True) # rest" "req sz + 12 \<le> w" "w + total rest = z"
      "\<forall>k. used_offs k rest = []"
    using carve_parts[OF s(4)] by blast
  then show ?thesis using s by (metis append_Cons total.simps(2))
qed

lemma malloc_used_offs:
  assumes "malloc_blocks sz bs = Some (a, cs)"
  shows "\<exists>w us vs. used_offs 0 bs = us @ vs \<and> used_offs 0 cs = us @ (a, w) # vs \<and> req sz + 12 \<le> w"
proof -
  obtain xs z ys w rest where s: "bs = xs @ (z, False) # ys" "cs = xs @ (w, True) # rest @ ys" "a = total xs"
    "req sz + 12 \<le> w" "total ((w, True) # rest) = z" "used_offs (total xs + w) rest = []"
    using malloc_blocks_used[OF assms] by blast
  then show ?thesis
    by (intro exI[of _ w] exI[of _ "used_offs 0 xs"] exI[of _ "used_offs (total xs + z) ys"])
      (auto simp: add.assoc)
qed

theorem realloc_moves_ok:
  assumes ok: "heap_ok h (ps @ (z, True) # qs)" and i: "\<not> in_isr h"
    and n: "n = unat (rt_align newsize)" "0 < n" "n + 12 \<noteq> z" "z \<le> n + 36"
      "n \<le> unat (mem_size_aligned h)"
    and m: "malloc_blocks (rt_align newsize) (ps @ (z, True) # qs) = Some (b, cs)"
  defines "a \<equiv> off h (total ps + 12)" and "len \<equiv> min (z - 12) n"
  shows "\<exists>h' us vs. cs = us @ (z, True) # vs \<and> total us = total ps \<and>
    rt_realloc (Some a) newsize h = Inr (Some (off h (b + 12)), h') \<and> heap_ok h' (free_blocks us z vs) \<and>
    heap_bytes h' = (\<lambda>x. if x - off h (b + 12) < of_nat len
                         then heap_bytes h (a + (x - off h (b + 12))) else heap_bytes h x)"
proof -
  let ?k = "total ps" and ?b = "off h (b + 12)"
  note l = heap_okD(1)[OF ok]
  note bl = layout_block[OF l] and r = used_block_reads[OF l, folded a_def]
  have N: "rt_align newsize = of_nat n" using n(1) by simp
  have z32: "z < 4294967296" "n + 24 < 4294967296" using bl(7,9) n(5) by simp_all
  have small: "\<not> rt_align newsize > mem_size_aligned h" and ne: "rt_align newsize \<noteq> 0"
    using n(1,2,5) by (auto simp: word_less_nat_alt)
  have neq: "(of_nat (z - 12) :: u32) \<noteq> of_nat n"
    using of_nat_u32_eq_iff[of "z - 12" n] z32 n(3) bl(2) by simp
  have "\<not> (of_nat (n + 24) :: u32) < of_nat (z - 12)"
    using of_nat_u32_less_iff[of "n + 24" "z - 12"] z32 n(4) by simp
  then have nless: "\<not> (of_nat n :: u32) + 12 + 12 < of_nat (z - 12)" by (simp add: add.assoc)
  have len: "(if (of_nat (z - 12) :: u32) < of_nat n then of_nat (z - 12) else of_nat n) = (of_nat len :: u32)"
    using of_nat_u32_less_iff[of "z - 12" n] z32 by (simp add: len_def min_def)
  obtain h1 where h1: "rt_malloc (rt_align newsize) h = Inr (Some ?b, h1)" "heap_ok h1 cs" "same_env h h1"
    using rt_malloc_ok[OF ok i, of "rt_align newsize"] m by auto
  obtain w xs ys where u: "used_offs 0 (ps @ (z, True) # qs) = xs @ ys" "used_offs 0 cs = xs @ (b, w) # ys"
      "req (rt_align newsize) + 12 \<le> w"
    using malloc_used_offs[OF m] by blast
  have "(?k, z) \<in> set (used_offs 0 cs)" using arg_cong[OF u(1), of set] u(2) by auto
  then obtain us vs where c: "cs = us @ (z, True) # vs" "total us = ?k" using used_offs_split by fastforce
  have "(b, w) \<in> set (used_offs 0 cs)" using u(2) by simp
  then obtain us' vs' where c': "cs = us' @ (w, True) # vs'" "total us' = b" using used_offs_split by fastforce
  have "n + 12 \<le> w" using u(3) n(1) by (simp add: req_def rt_align_idem)
  then have lw: "len + 12 \<le> w" by (simp add: len_def)
  let ?h2 = "copy_bytes ?b a (of_nat len) h1"
  have hp: "heap_ptr h1 = heap_ptr h" "\<not> in_isr h1" "heap_bytes h1 = heap_bytes h"
    using h1(3) i by (simp_all add: same_env_def)
  have "heap_ok ?h2 cs"
    using heap_ok_copy[of h1 us' w True vs' len a] h1(2) lw unfolding c' hp by simp
  then obtain h' where h': "rt_free (Some a) ?h2 = Inr h'" "heap_ok h' (free_blocks us z vs)" "same_env ?h2 h'"
    using rt_free_ok[of ?h2 us z vs] hp c unfolding a_def by auto
  have "rt_realloc (Some a) newsize h = Inr (Some ?b, h')"
  proof -
    define S where "S = (of_nat (z - 12) :: u32)"
    define X where "X = (of_nat (?k + z) :: u32)"
    have "hm_next (mk_hdr True (?k + z) (prv 0 0 ps)) = X" by (simp add: X_def)
    then show ?thesis
      using i small ne r(1) r(4)[folded S_def X_def] neq[folded S_def N] nless[folded S_def N] h1(1) h'(1)
        len[folded S_def N]
      unfolding rt_realloc_def option.case Let_def r(2) r(3)
      by (simp add: r(3) del: mk_hdr_simps split del: if_split cong del: if_weak_cong)
  qed
  moreover have "heap_bytes h' = heap_bytes ?h2" using h'(3) by (simp add: same_env_def)
  then have "heap_bytes h' = (\<lambda>x. if x - ?b < of_nat len then heap_bytes h (a + (x - ?b)) else heap_bytes h x)"
    unfolding copy_bytes_simps hp(3) .
  ultimately show ?thesis using c h'(2) by blast
qed

end
