(* ===== verification/Mem_Client.thy ===== *)
theory Mem_Client
  imports Mem_Realloc
begin

text \<open>
  The kernel heap as its callers see it. \<open>allocator\<close> is the interface: allocation and release on a
  state, and the map of the addresses handed out to the bytes behind them. Whatever a caller does
  that only releases what it holds (\<open>session\<close>) runs without a fault, and what it holds never
  overlaps. The interpretation \<open>kheap\<close> discharges the laws for \<open>rt_malloc\<close> and \<open>rt_free\<close>.
\<close>

section \<open>A caller and the interface it relies on\<close>

datatype request = Alloc u32 | Release nat

text \<open>A caller keeps the addresses it holds with the sizes it asked for.\<close>

fun session :: "(u32 \<Rightarrow> 's \<Rightarrow> (u32 option \<times> 's) res) \<Rightarrow> (u32 option \<Rightarrow> 's \<Rightarrow> 's res) \<Rightarrow>
    request list \<Rightarrow> (u32 \<times> u32) list \<Rightarrow> 's \<Rightarrow> ((u32 \<times> u32) list \<times> 's) res" where
  "session malloc free [] held s = Inr (held, s)"
| "session malloc free (Alloc n # rs) held s =
     bindE (malloc n s) (\<lambda>(p, s'). session malloc free rs (case p of None \<Rightarrow> held | Some a \<Rightarrow> (a, n) # held) s')"
| "session malloc free (Release i # rs) held s =
     (if i < length held
      then bindE (free (Some (fst (held ! i))) s) (\<lambda>s'. session malloc free rs (take i held @ drop (Suc i) held) s')
      else session malloc free rs held s)"

lemma distinct_map_remove: "distinct (map f (xs @ x # ys)) \<Longrightarrow>
    distinct (map f (xs @ ys)) \<and> f x \<notin> f ` set (xs @ ys)"
  by auto

locale allocator =
  fixes malloc :: "u32 \<Rightarrow> 's \<Rightarrow> (u32 option \<times> 's) res"
    and free :: "u32 option \<Rightarrow> 's \<Rightarrow> 's res"
    and ok :: "'s \<Rightarrow> (u32 \<Rightarrow> nat option) \<Rightarrow> bool"
    and need :: "u32 \<Rightarrow> nat" and low :: nat and high :: nat
  assumes malloc_law: "ok s m \<Longrightarrow> \<exists>p s' m'. malloc n s = Inr (p, s') \<and> ok s' m' \<and>
      (case p of None \<Rightarrow> m' = m | Some a \<Rightarrow> m a = None \<and> (\<exists>k. need n \<le> k \<and> m' = m(a \<mapsto> k)))"
    and free_law: "ok s m \<Longrightarrow> m a = Some k \<Longrightarrow> \<exists>s'. free (Some a) s = Inr s' \<and> ok s' (m(a := None))"
    and apart_law: "ok s m \<Longrightarrow> m a = Some j \<Longrightarrow> m b = Some k \<Longrightarrow> a \<noteq> b \<Longrightarrow>
      unat a + j \<le> unat b \<or> unat b + k \<le> unat a"
    and place_law: "ok s m \<Longrightarrow> m a = Some k \<Longrightarrow> low \<le> unat a \<and> unat a + k \<le> high \<and> 4 dvd unat a"
begin

definition holds :: "(u32 \<Rightarrow> nat option) \<Rightarrow> (u32 \<times> u32) list \<Rightarrow> bool" where
  "holds m held \<longleftrightarrow> distinct (map fst held) \<and> dom m = fst ` set held
     \<and> (\<forall>(a, n)\<in>set held. \<exists>k. m a = Some k \<and> need n \<le> k)"

lemma holds_Cons: "holds m held \<Longrightarrow> m a = None \<Longrightarrow> need n \<le> k \<Longrightarrow> holds (m(a \<mapsto> k)) ((a, n) # held)"
  by (force simp: holds_def)

lemma holds_remove:
  assumes "holds m held" "i < length held"
  shows "holds (m(fst (held ! i) := None)) (take i held @ drop (Suc i) held)"
proof -
  have h: "held = take i held @ held ! i # drop (Suc i) held" using assms(2) by (rule id_take_nth_drop)
  have "distinct (map fst (take i held @ held ! i # drop (Suc i) held))"
    using assms(1) unfolding h[symmetric] by (simp add: holds_def)
  then have d: "distinct (map fst (take i held @ drop (Suc i) held)) \<and>
      fst (held ! i) \<notin> fst ` set (take i held @ drop (Suc i) held)"
    by (rule distinct_map_remove)
  define rest a where "rest = take i held @ drop (Suc i) held" and "a = fst (held ! i)"
  have sub: "set rest \<subseteq> set held"
    unfolding rest_def using set_take_subset[of i held] set_drop_subset[of "Suc i" held] by auto
  have dm: "dom (m(a := None)) = fst ` set rest"
  proof -
    have "set held = insert (held ! i) (set rest)" by (subst h) (auto simp: rest_def)
    then have "fst ` set held = insert a (fst ` set rest)" by (simp add: a_def)
    then show ?thesis using assms(1) d by (auto simp: holds_def rest_def[symmetric] a_def[symmetric])
  qed
  have "\<exists>k. (m(a := None)) b = Some k \<and> need n \<le> k" if r: "(b, n) \<in> set rest" for b n
  proof -
    have "b \<noteq> a" using d r unfolding rest_def[symmetric] a_def[symmetric] by force
    moreover have "(b, n) \<in> set held" using sub r by blast
    ultimately show ?thesis using assms(1) unfolding holds_def by fastforce
  qed
  then show ?thesis using d dm unfolding holds_def rest_def[symmetric] a_def[symmetric] by blast
qed

text \<open>No session faults, and it ends in a state where what is held is still held.\<close>

lemma session_ok:
  "ok s m \<Longrightarrow> holds m held \<Longrightarrow>
   \<exists>held' s' m'. session malloc free rs held s = Inr (held', s') \<and> ok s' m' \<and> holds m' held'"
proof (induction rs arbitrary: held s m)
  case (Cons r rs)
  show ?case
  proof (cases r)
    case (Alloc n)
    obtain p s' m' where p: "malloc n s = Inr (p, s')" "ok s' m'"
      "case p of None \<Rightarrow> m' = m | Some a \<Rightarrow> m a = None \<and> (\<exists>k. need n \<le> k \<and> m' = m(a \<mapsto> k))"
      using malloc_law[OF Cons.prems(1)] by blast
    have "holds m' (case p of None \<Rightarrow> held | Some a \<Rightarrow> (a, n) # held)"
      using p(3) Cons.prems(2) by (auto split: option.splits intro: holds_Cons)
    then show ?thesis using Cons.IH[OF p(2)] p(1) Alloc by simp
  next
    case (Release i)
    show ?thesis
    proof (cases "i < length held")
      case True
      obtain k where "m (fst (held ! i)) = Some k"
        using Cons.prems(2) nth_mem[OF True] by (fastforce simp: holds_def)
      from free_law[OF Cons.prems(1) this] obtain s' where
        "free (Some (fst (held ! i))) s = Inr s'" "ok s' (m(fst (held ! i) := None))"
        by blast
      moreover from this have "session malloc free (r # rs) held s =
          session malloc free rs (take i held @ drop (Suc i) held) s'"
        using Release True by simp
      ultimately show ?thesis using Cons.IH holds_remove[OF Cons.prems(2) True] by metis
    qed (use Cons Release in simp)
  qed
qed auto

text \<open>What is held does not overlap and lies in the heap, aligned.\<close>

lemma holds_apart:
  assumes "ok s m" "holds m held" "i < length held" "j < length held" "i \<noteq> j"
    and "held ! i = (a, n)" "held ! j = (b, l)"
  shows "unat a + need n \<le> unat b \<or> unat b + need l \<le> unat a"
proof -
  have "(a, n) \<in> set held" "(b, l) \<in> set held" using assms(3,4,6,7) nth_mem by metis+
  then obtain k k' where k: "m a = Some k" "need n \<le> k" "m b = Some k'" "need l \<le> k'"
    using assms(2) unfolding holds_def by blast
  have "a \<noteq> b"
    using assms(2-7) nth_eq_iff_index_eq[of "map fst held" i j] by (auto simp: holds_def)
  then show ?thesis using apart_law[OF assms(1) k(1,3)] k(2,4) by auto
qed

lemma holds_place:
  assumes "ok s m" "holds m held" "(a, n) \<in> set held"
  shows "low \<le> unat a \<and> unat a + need n \<le> high \<and> 4 dvd unat a"
proof -
  obtain k where "m a = Some k" "need n \<le> k" using assms(2,3) unfolding holds_def by blast
  then show ?thesis using place_law[OF assms(1)] by fastforce
qed

end

section \<open>The kernel heap is an allocator\<close>

definition live :: "u32 \<Rightarrow> block list \<Rightarrow> u32 \<Rightarrow> nat option" where
  "live b bs = map_of (map (\<lambda>(i, z). (b + of_nat (i + 12), z - 12)) (used_offs 0 bs))"

definition heap_live :: "u32 \<Rightarrow> nat \<Rightarrow> heap \<Rightarrow> (u32 \<Rightarrow> nat option) \<Rightarrow> bool" where
  "heap_live b e h m \<longleftrightarrow>
     (\<exists>bs. heap_ok h bs \<and> \<not> in_isr h \<and> heap_ptr h = b \<and> total bs = e \<and> m = live b bs)"

lemma sorted_wrt_pair: "sorted_wrt R xs \<Longrightarrow> x \<in> set xs \<Longrightarrow> y \<in> set xs \<Longrightarrow> x \<noteq> y \<Longrightarrow> R x y \<or> R y x"
  by (induction xs) auto

lemma used_offs_distinct: "seg f p k bs \<Longrightarrow> distinct (map fst (used_offs k bs))"
  by (induction f p k bs rule: seg.induct) (auto dest!: used_offs_range)

lemma live_iff:
  assumes "layout h bs"
  shows "live (heap_ptr h) bs a = Some k \<longleftrightarrow>
    (\<exists>i z. (i, z) \<in> set (used_offs 0 bs) \<and> a = off h (i + 12) \<and> k = z - 12)"
proof -
  have l: "seg (hat h) 0 0 bs" "unat (heap_ptr h) + total bs + 12 < 4294967296"
    using assms by (auto simp: layout_def chain_def)
  have "inj_on (\<lambda>i. off h (i + 12)) (fst ` set (used_offs 0 bs))"
  proof (rule inj_onI)
    fix i j assume "i \<in> fst ` set (used_offs 0 bs)" "j \<in> fst ` set (used_offs 0 bs)"
    then have "i \<le> total bs" "j \<le> total bs" by (auto dest: used_offs_range)
    then show "off h (i + 12) = off h (j + 12) \<Longrightarrow> i = j" using l(2) by (subst (asm) off_eq_iff) simp_all
  qed
  then have "distinct (map (\<lambda>i. off h (i + 12)) (map fst (used_offs 0 bs)))"
    using used_offs_distinct[OF l(1)] by (simp only: distinct_map set_map)
  moreover have "map (\<lambda>i. off h (i + 12)) (map fst (used_offs 0 bs)) =
      map fst (map (\<lambda>(i, z). (off h (i + 12), z - 12)) (used_offs 0 bs))"
    by (simp add: case_prod_beta)
  ultimately have "distinct (map fst (map (\<lambda>(i, z). (off h (i + 12), z - 12)) (used_offs 0 bs)))"
    by metis
  then show ?thesis unfolding live_def by (subst map_of_eq_Some_iff) (auto simp: image_iff Bex_def)
qed

lemma map_eqI: "(\<And>x k. m x = Some k \<longleftrightarrow> m' x = Some k) \<Longrightarrow> m = m'"
  by (rule ext) (metis not_None_eq)

lemma live_malloc:
  assumes "layout h bs" "layout h' cs" "heap_ptr h' = heap_ptr h"
    and u: "used_offs 0 bs = us @ vs" "used_offs 0 cs = us @ (a, w) # vs"
  shows "live (heap_ptr h) bs (off h (a + 12)) = None"
    and "live (heap_ptr h) cs = (live (heap_ptr h) bs)(off h (a + 12) \<mapsto> w - 12)"
proof -
  define D where "D = (\<lambda>i. off h (i + 12))"
  have D: "off h (i + 12) = D i" for i by (simp add: D_def)
  note b = live_iff[OF assms(1), unfolded u D]
    and c = live_iff[OF assms(2), unfolded assms(3) u D]
  have l: "seg (hat h') 0 0 cs" "unat (heap_ptr h) + total cs + 12 < 4294967296"
    using assms(2,3) by (auto simp: layout_def chain_def)
  have d: "distinct (map fst (us @ (a, w) # vs))" using used_offs_distinct[OF l(1)] u(2) by simp
  have ne: "D i \<noteq> D a" if "(i, z) \<in> set us \<or> (i, z) \<in> set vs" for i z
  proof -
    have "i \<le> total cs" "a \<le> total cs" using that u(2) used_offs_range[of _ _ 0 cs] by fastforce+
    moreover have "i \<noteq> a" using d that by force
    ultimately show ?thesis using l(2) unfolding D_def by (subst off_eq_iff) simp_all
  qed
  show n: "live (heap_ptr h) bs (off h (a + 12)) = None"
  proof (rule ccontr)
    assume "live (heap_ptr h) bs (off h (a + 12)) \<noteq> None"
    then obtain k where "live (heap_ptr h) bs (D a) = Some k" unfolding D by blast
    then obtain i z where "(i, z) \<in> set us \<or> (i, z) \<in> set vs" "D a = D i"
      unfolding b set_append Un_iff by blast
    then show False using ne[of i z] by simp
  qed
  show "live (heap_ptr h) cs = (live (heap_ptr h) bs)(off h (a + 12) \<mapsto> w - 12)"
  proof (rule map_eqI)
    fix x k
    show "live (heap_ptr h) cs x = Some k \<longleftrightarrow> ((live (heap_ptr h) bs)(off h (a + 12) \<mapsto> w - 12)) x = Some k"
    proof (cases "x = D a")
      case True
      then have "live (heap_ptr h) cs x = Some (w - 12)" unfolding c by fastforce
      then show ?thesis unfolding D using True by auto
    next
      case False
      have "live (heap_ptr h) cs x = Some k \<longleftrightarrow> live (heap_ptr h) bs x = Some k"
        unfolding b c using False by auto
      then show ?thesis unfolding D using False by simp
    qed
  qed
qed

lemma heap_ok_total: "heap_ok h bs \<Longrightarrow> total bs = unat (mem_size_aligned h) + 12"
  by (drule heap_okD(1)) (simp add: layout_def)

lemma live_apart:
  assumes l: "layout h bs" and a: "live (heap_ptr h) bs a = Some j" and b: "live (heap_ptr h) bs b = Some k"
    and ne: "a \<noteq> b"
  shows "unat a + j \<le> unat b \<or> unat b + k \<le> unat a"
proof -
  have s: "seg (hat h) 0 0 bs" "unat (heap_ptr h) + total bs + 12 < 4294967296"
    using l by (auto simp: layout_def chain_def)
  obtain i z where i: "(i, z) \<in> set (used_offs 0 bs)" "a = off h (i + 12)" "j = z - 12"
    using a unfolding live_iff[OF l] by blast
  obtain i' z' where i': "(i', z') \<in> set (used_offs 0 bs)" "b = off h (i' + 12)" "k = z' - 12"
    using b unfolding live_iff[OF l] by blast
  have r: "unat a = unat (heap_ptr h) + (i + 12)" "unat b = unat (heap_ptr h) + (i' + 12)"
    using used_offs_range[OF i(1)] used_offs_range[OF i'(1)] s(2) unfolding i(2) i'(2)
    by (intro unat_off; simp)+
  have m: "16 \<le> z" "16 \<le> z'" using used_offs_min[OF s(1)] i(1) i'(1) by blast+
  have "(i, z) \<noteq> (i', z')" using ne i(2) i'(2) by auto
  then have "i + z \<le> i' \<or> i' + z' \<le> i"
    using i(1) i'(1) used_offs_sorted[of 0 bs] sorted_wrt_pair by fastforce
  then show ?thesis using r i(3) i'(3) m by auto
qed

lemma live_place:
  assumes l: "layout h bs" and a: "live (heap_ptr h) bs a = Some k"
  shows "unat (heap_ptr h) + 12 \<le> unat a \<and> unat a + k \<le> unat (heap_ptr h) + total bs \<and> 4 dvd unat a"
proof -
  have s: "seg (hat h) 0 0 bs" "unat (heap_ptr h) + total bs + 12 < 4294967296" "4 dvd unat (heap_ptr h)"
    using l by (auto simp: layout_def chain_def)
  obtain i z where i: "(i, z) \<in> set (used_offs 0 bs)" "a = off h (i + 12)" "k = z - 12"
    using a unfolding live_iff[OF l] by blast
  have r: "unat a = unat (heap_ptr h) + (i + 12)"
    using used_offs_range[OF i(1)] s(2) unfolding i(2) by (intro unat_off) simp
  obtain ps qs where p: "bs = ps @ (z, True) # qs" "i = total ps" using used_offs_split[OF i(1)] by auto
  have "seg (hat h) 0 0 ps" using s(1) unfolding p(1) by (simp add: seg_append)
  then have "4 dvd i" using p(2) seg_total_dvd by simp
  then show ?thesis using r s(3) i(3) used_offs_range[OF i(1)] used_offs_min[OF s(1) i(1)] by auto
qed

interpretation kheap: allocator rt_malloc rt_free "heap_live b e" req "unat b + 12" "unat b + e" for b e
proof
  fix s m n
  assume "heap_live b e s m"
  then obtain bs where s: "heap_ok s bs" "\<not> in_isr s" "heap_ptr s = b" "total bs = e" "m = live b bs"
    by (auto simp: heap_live_def)
  show "\<exists>p s' m'. rt_malloc n s = Inr (p, s') \<and> heap_live b e s' m' \<and>
      (case p of None \<Rightarrow> m' = m | Some a \<Rightarrow> m a = None \<and> (\<exists>k. req n \<le> k \<and> m' = m(a \<mapsto> k)))"
  proof (cases "malloc_blocks n bs")
    case None
    then show ?thesis using rt_malloc_ok[OF s(1,2), of n] s by (auto simp: heap_live_def)
  next
    case (Some ar)
    obtain a cs where ar: "ar = (a, cs)" by (cases ar)
    obtain h' where h': "rt_malloc n s = Inr (Some (off s (a + 12)), h')" "heap_ok h' cs" "same_env s h'"
      using rt_malloc_ok[OF s(1,2), of n] Some ar by auto
    obtain w us vs where u: "used_offs 0 bs = us @ vs" "used_offs 0 cs = us @ (a, w) # vs" "req n + 12 \<le> w"
      using malloc_used_offs Some ar by blast
    have e: "heap_ptr h' = heap_ptr s" "\<not> in_isr h'" "mem_size_aligned h' = mem_size_aligned s"
      using h'(3) s(2) by (simp_all add: same_env_def)
    have "total cs = total bs" using e(3) heap_ok_total[OF h'(2)] heap_ok_total[OF s(1)] by simp
    note e = e(1,2) this
    note lm = live_malloc[OF heap_okD(1)[OF s(1)] heap_okD(1)[OF h'(2)] e(1) u(1,2)]
    have "heap_live b e h' (live b cs)" using h'(2) e s(3,4) by (auto simp: heap_live_def)
    moreover have "req n \<le> w - 12" using u(3) by simp
    moreover have "m (off s (a + 12)) = None" "live b cs = m(off s (a + 12) \<mapsto> w - 12)"
      using lm unfolding s(3,5) .
    ultimately show ?thesis
      using h'(1) by (intro exI[of _ "Some (off s (a + 12))"] exI[of _ h'] exI[of _ "live b cs"]) auto
  qed
next
  fix s m a k
  assume "heap_live b e s m" and a: "m a = Some k"
  then obtain bs where s: "heap_ok s bs" "\<not> in_isr s" "heap_ptr s = b" "total bs = e" "m = live b bs"
    by (auto simp: heap_live_def)
  note l = heap_okD(1)[OF s(1)]
  obtain i z where i: "(i, z) \<in> set (used_offs 0 bs)" "a = off s (i + 12)"
    using a unfolding s(5) s(3)[symmetric] live_iff[OF l] by blast
  obtain ps qs where p: "bs = ps @ (z, True) # qs" "i = total ps" using used_offs_split[OF i(1)] by auto
  obtain h' where h': "rt_free (Some a) s = Inr h'" "heap_ok h' (free_blocks ps z qs)" "same_env s h'"
    using rt_free_ok[OF s(1)[unfolded p(1)] s(2)] i(2) p(2) by blast
  have e: "heap_ptr h' = heap_ptr s" "\<not> in_isr h'" using h'(3) s(2) by (simp_all add: same_env_def)
  have u: "used_offs 0 (free_blocks ps z qs) = used_offs 0 ps @ used_offs (total ps + z) qs"
    "used_offs 0 bs = used_offs 0 ps @ (total ps, z) # used_offs (total ps + z) qs"
    by (simp_all add: p(1))
  note lm = live_malloc[OF heap_okD(1)[OF h'(2)] l e(1)[symmetric] u, unfolded e s(3), folded p(2)]
  have "live b (free_blocks ps z qs) = m(a := None)"
    using lm unfolding s(5) i(2) s(3) by (auto simp: fun_upd_idem simp del: of_nat_add)
  then have "heap_live b e h' (m(a := None))"
    using h'(2) e s(3,4) p(1) unfolding heap_live_def by (intro exI[of _ "free_blocks ps z qs"]) simp
  then show "\<exists>s'. rt_free (Some a) s = Inr s' \<and> heap_live b e s' (m(a := None))" using h'(1) by blast
qed (auto simp: heap_live_def dest: heap_okD live_apart live_place)

end
