(* ===== verification/Mem_Props.thy ===== *)
theory Mem_Props
  imports Mem_Client
begin

text \<open>
  The kernel heap: what allocation, release and resizing promise on the sequence of blocks, what
  every caller can rely on, and where the code falls short of it.
\<close>

section \<open>Allocation\<close>

lemma alloc_blocks_Some_first:
  "alloc_blocks n lim k bs = Some (a, cs) \<Longrightarrow>
   \<exists>xs z ys. bs = xs @ (z, False) # ys \<and> cs = xs @ carve n z @ ys \<and> a = k + total xs \<and> n + 12 \<le> z \<and>
     a < lim \<and> (\<forall>y. (y, False) \<in> set xs \<longrightarrow> y < n + 12)"
proof (induction n lim k bs arbitrary: a cs rule: alloc_blocks.induct)
  case (2 n lim k z u bs)
  show ?case
  proof (cases "\<not> u \<and> n + 12 \<le> z")
    case True
    then show ?thesis
      using 2(2) by (intro exI[of _ "[]"] exI[of _ z] exI[of _ bs]) (auto split: if_splits)
  next
    case False
    then obtain r where r: "alloc_blocks n lim (k + z) bs = Some (a, r)" "cs = (z, u) # r" "\<not> lim \<le> k"
      using 2(2) by (auto split: if_splits)
    obtain xs y ys where x: "bs = xs @ (y, False) # ys" "r = xs @ carve n y @ ys" "a = k + z + total xs"
        "n + 12 \<le> y" "a < lim" "\<forall>y. (y, False) \<in> set xs \<longrightarrow> y < n + 12"
      using 2(1)[OF r(3) False r(1)] by blast
    show ?thesis
      by (rule exI[of _ "(z, u) # xs"], rule exI[of _ y], rule exI[of _ ys]) (use x r(2) False in auto)
  qed
qed simp

lemma alloc_blocks_None_all:
  assumes "alloc_blocks n lim k bs = None" "bs = xs @ (z, False) # ys" "n + 12 \<le> z"
  shows "lim \<le> k + total xs"
  using assms
proof (induction n lim k bs arbitrary: xs rule: alloc_blocks.induct)
  case (2 n lim k y u bs)
  then show ?case by (cases xs) (auto split: if_splits simp: add.assoc)
qed simp

text \<open>
  C16. rt_malloc is a first fit on the blocks: it takes the first free block that is large enough,
  splits it when the rest can hold a block, and leaves every other block as it was; it returns NULL,
  and changes nothing, exactly when no free block is large enough, save that the last block of the
  heap must be strictly larger than the request.
\<close>
theorem malloc_first_fit:
  assumes ok: "heap_ok h bs" and i: "\<not> in_isr h" and sz: "sz \<noteq> 0"
  shows "(\<exists>xs z ys h'. bs = xs @ (z, False) # ys \<and> req sz + 12 \<le> z \<and>
        (\<forall>y. (y, False) \<in> set xs \<longrightarrow> y < req sz + 12) \<and>
        rt_malloc sz h = Inr (Some (off h (total xs + 12)), h') \<and> heap_ok h' (xs @ carve (req sz) z @ ys)) \<or>
    rt_malloc sz h = Inr (None, h) \<and>
      (\<forall>xs z ys. bs = xs @ (z, False) # ys \<longrightarrow> z < req sz + 12 \<or> ys = [] \<and> z = req sz + 12)"
proof (cases "malloc_blocks sz bs")
  case (Some r)
  obtain a cs where r: "r = (a, cs)" by (cases r)
  have "alloc_blocks (req sz) (total bs - 12 - req sz) 0 bs = Some (a, cs)"
    using Some r sz by (simp add: malloc_blocks_def)
  then obtain xs z ys where x: "bs = xs @ (z, False) # ys" "cs = xs @ carve (req sz) z @ ys"
      "a = total xs" "req sz + 12 \<le> z" "\<forall>y. (y, False) \<in> set xs \<longrightarrow> y < req sz + 12"
    using alloc_blocks_Some_first[of "req sz" _ 0 bs a cs] by (metis add_0)
  obtain h' where "rt_malloc sz h = Inr (Some (off h (a + 12)), h')" "heap_ok h' cs"
    using rt_malloc_ok[OF ok i, of sz] Some r by auto
  then show ?thesis using x by blast
next
  case None
  have n: "alloc_blocks (req sz) (total bs - 12 - req sz) 0 bs = None"
    using None sz by (simp add: malloc_blocks_def)
  have "z < req sz + 12 \<or> ys = [] \<and> z = req sz + 12" if b: "bs = xs @ (z, False) # ys" for xs z ys
  proof (rule ccontr)
    assume c: "\<not> ?thesis"
    then have "total bs - 12 - req sz \<le> total xs"
      using alloc_blocks_None_all[OF n b] by simp
    moreover have "ys \<noteq> [] \<Longrightarrow> 16 \<le> total ys"
      using layout_block(6)[OF heap_okD(1)[OF ok, unfolded b]] by (cases ys) (auto simp: chain_Cons)
    ultimately show False using c b by (cases "ys = []") auto
  qed
  then show ?thesis using rt_malloc_ok[OF ok i, of sz] None by auto
qed

text \<open>The heap of the examples: 256 bytes of SRAM right after initialisation.\<close>

definition no_heap :: heap where
  "no_heap = \<lparr>hdrs = Map.empty, heap_bytes = (\<lambda>_. 0), heap_ptr = 0, heap_end = 0, lfree = 0,
     mem_size_aligned = 0, used_mem = 0, max_mem = 0, in_isr = False\<rparr>"

lemma boot_heap: "\<exists>h. rt_system_heap_init 0x20000000 0x20000100 no_heap = Inr h \<and>
    heap_ok h [(244, False)] \<and> \<not> in_isr h \<and> heap_ptr h = 0x20000000"
proof -
  have s: "heap_start 0x20000000 = 536870912" "heap_stop 0x20000100 = 536871168" "rt_align 0x20000000 = 0x20000000"
    by (simp_all add: heap_start_def heap_stop_def rt_align_def rt_align_down_def)
  then show ?thesis using heap_init_ok[of "0x20000000" "0x20000100" no_heap] by (simp add: no_heap_def)
qed

lemma req_100: "req 100 = 100"
  by (simp add: req_def rt_align_def)

lemma malloc_first_fit_witness:
  "\<exists>h h'. heap_ok h [(244, False)] \<and> rt_malloc 100 h = Inr (Some (heap_ptr h + 12), h') \<and>
     heap_ok h' [(112, True), (132, False)]"
proof -
  obtain h where h: "heap_ok h [(244, False)]" "\<not> in_isr h" using boot_heap by blast
  from malloc_first_fit[OF h, of 100] show ?thesis
    using h by (auto simp: req_100 carve_def Cons_eq_append_conv)
qed

section \<open>Release\<close>

lemma free_again_asserts:
  assumes l: "layout h (ps @ (z, False) # qs)" and i: "\<not> in_isr h"
  shows "rt_free (Some (off h (total ps + 12))) h = Inl Assert_Failed"
proof -
  note b = layout_block[OF l]
  have k: "total ps < 4294967296" using b(7) by simp
  have mem: "off h (total ps + 12) - 12 = off h (total ps)" by simp
  have r: "hdr h (off h (total ps + 12) - 12) = Inr (mk_hdr False (total ps + z) (prv 0 0 ps))"
    unfolding mem using hdr_off[OF k b(1)] .
  have "assertE c = Inr () \<or> assertE c = Inl Assert_Failed" for c by (simp add: assertE_def)
  then show ?thesis
    using i r by (auto simp: rt_free_def Let_def bindE_Inl_iff assertE_def split: if_splits)
qed

text \<open>
  C17. rt_free of a block in use joins it with the free blocks next to it and leaves every other
  block as it was, so that no two neighbours are ever free; freeing a block that is free, twice for
  example, stops in the assertion.
\<close>
theorem free_joins:
  assumes ok: "heap_ok h (ps @ (z, u) # qs)" and i: "\<not> in_isr h"
  shows "if u then (\<exists>h'. rt_free (Some (off h (total ps + 12))) h = Inr h' \<and>
        heap_ok h' (join (ps @ (z, False) # qs)))
    else rt_free (Some (off h (total ps + 12))) h = Inl Assert_Failed"
proof (cases u)
  case True
  then show ?thesis
    using rt_free_ok[OF _ i, of ps z qs] join_free[of ps z qs] heap_okD(2)[OF ok] ok by auto
next
  case False
  then show ?thesis using free_again_asserts[OF _ i] heap_okD(1)[OF ok] by simp
qed

lemma free_joins_witness:
  "\<exists>h h'. heap_ok h [(112, True), (132, False)] \<and> \<not> in_isr h \<and>
     rt_free (Some (heap_ptr h + 12)) h = Inr h' \<and> heap_ok h' [(244, False)]"
proof -
  obtain h0 where h0: "heap_ok h0 [(244, False)]" "\<not> in_isr h0" using boot_heap by blast
  have m: "malloc_blocks 100 [(244, False)] = Some (0, [(112, True), (132, False)])"
    by (simp add: malloc_blocks_def req_100 carve_def)
  obtain h where h: "heap_ok h [(112, True), (132, False)]" "\<not> in_isr h"
    using rt_malloc_ok[OF h0, of 100] m h0(2) by (auto simp: same_env_def)
  show ?thesis using free_joins[of h "[]" 112 True "[(132, False)]"] h by auto
qed

lemma free_carved:
  assumes "no_adj (xs @ (z, False) # ys)" "carve n z = (w, True) # rest" "n + 12 \<le> z"
  shows "free_blocks xs w (rest @ ys) = xs @ (z, False) # ys"
proof -
  have "xs = [] \<or> snd (last xs)" "ys = [] \<or> snd (hd ys)"
    using assms(1) by (cases ys rule: total.cases; auto simp: no_adj_append)+
  then show ?thesis
    using assms(2,3) by (cases ys) (auto simp: free_blocks_def carve_def split: if_splits)
qed

text \<open>
  Releasing what was just allocated gives back the heap there was before: the same blocks, the
  same lowest free block and the same count of used bytes.
\<close>
theorem malloc_free_restores:
  assumes ok: "heap_ok h bs" and i: "\<not> in_isr h" and m: "rt_malloc sz h = Inr (Some a, h1)"
  shows "\<exists>h2. rt_free (Some a) h1 = Inr h2 \<and> heap_ok h2 bs \<and> lfree h2 = lfree h \<and> used_mem h2 = used_mem h"
proof -
  obtain k cs where c: "malloc_blocks sz bs = Some (k, cs)" "a = off h (k + 12)" "heap_ok h1 cs" "same_env h h1"
    using rt_malloc_ok[OF ok i, of sz] m by (cases "malloc_blocks sz bs") auto
  obtain xs z ys where x: "bs = xs @ (z, False) # ys" "cs = xs @ carve (req sz) z @ ys" "k = total xs"
      "req sz + 12 \<le> z"
    using c(1) alloc_blocks_SomeD[of "req sz" _ 0 bs k cs] by (auto simp: malloc_blocks_def split: if_splits)
  obtain w rest where w: "carve (req sz) z = (w, True) # rest" using carve_split[OF x(4)] by blast
  have i1: "\<not> in_isr h1" and hp: "heap_ptr h1 = heap_ptr h" using c(4) i by (simp_all add: same_env_def)
  have ok1: "heap_ok h1 (xs @ (w, True) # rest @ ys)" using c(3) x(2) w by simp
  have same: "free_blocks xs w (rest @ ys) = bs"
    using free_carved[OF _ w x(4)] heap_okD(2)[OF ok] unfolding x(1) by blast
  obtain h2 where h2: "rt_free (Some a) h1 = Inr h2" "heap_ok h2 bs" "same_env h1 h2"
    using rt_free_ok[OF ok1 i1] unfolding hp x(3)[symmetric] c(2)[symmetric] same by blast
  have "heap_ptr h2 = heap_ptr h" using h2(3) hp by (simp add: same_env_def)
  moreover have "used_mem h2 = used_mem h"
    using heap_okD(1)[OF h2(2)] heap_okD(1)[OF ok] by (simp add: layout_def word_unat_eq_iff)
  ultimately show ?thesis
    using h2(1,2) ok by (auto simp: heap_ok_lfree)
qed

lemma malloc_free_restores_witness:
  "\<exists>h a h1 h2. heap_ok h [(244, False)] \<and> rt_malloc 100 h = Inr (Some a, h1) \<and>
     rt_free (Some a) h1 = Inr h2 \<and> heap_ok h2 [(244, False)]"
proof -
  obtain h where h: "heap_ok h [(244, False)]" "\<not> in_isr h" using boot_heap by blast
  have m: "malloc_blocks 100 [(244, False)] = Some (0, [(112, True), (132, False)])"
    by (simp add: malloc_blocks_def req_100 carve_def)
  obtain h1 where "rt_malloc 100 h = Inr (Some (off h (0 + 12)), h1)"
    using rt_malloc_ok[OF h, of 100] m by auto
  then show ?thesis using malloc_free_restores[OF h] h by blast
qed

section \<open>Every caller\<close>

lemma session_sizes:
  "session malloc free rs held s = Inr (held', s') \<Longrightarrow>
   snd ` set held' \<subseteq> snd ` set held \<union> {n. Alloc n \<in> set rs}"
proof (induction rs arbitrary: held s)
  case (Cons r rs)
  show ?case
  proof (cases r)
    case (Alloc n)
    obtain p s1 where "malloc n s = Inr (p, s1)"
        "session malloc free rs (case p of None \<Rightarrow> held | Some a \<Rightarrow> (a, n) # held) s1 = Inr (held', s')"
      using Cons.prems Alloc by (auto simp: bindE_Inr_iff)
    from Cons.IH[OF this(2)] show ?thesis using Alloc by (cases p) auto
  next
    case (Release i)
    show ?thesis
    proof (cases "i < length held")
      case True
      then obtain s1 where
          "session malloc free rs (take i held @ drop (Suc i) held) s1 = Inr (held', s')"
        using Cons.prems Release by (auto simp: bindE_Inr_iff)
      moreover have "set (take i held @ drop (Suc i) held) \<subseteq> set held"
        using set_take_subset[of i held] set_drop_subset[of "Suc i" held] by auto
      ultimately have "snd ` set held' \<subseteq> snd ` set held \<union> {n. Alloc n \<in> set rs}"
        using Cons.IH by blast
      then show ?thesis by auto
    next
      case False
      then have "snd ` set held' \<subseteq> snd ` set held \<union> {n. Alloc n \<in> set rs}"
        using Cons Release by (intro Cons.IH) simp
      then show ?thesis by auto
    qed
  qed
qed simp

lemma req_covers: "unat n < 4294967293 \<Longrightarrow> unat n \<le> req n"
  using unat_rt_align[of n] by (simp add: req_def)

text \<open>
  C18. Whatever sequence of allocations and releases of its own blocks a caller runs on the heap
  right after initialisation: no call faults, loops or trips an assertion, and the blocks the caller
  holds in the end lie in the heap, are aligned, are as large as asked for, and do not overlap.
\<close>
theorem heap_sessions_safe:
  assumes room: "heap_start b + 36 \<le> heap_stop e" and fresh: "used_mem h = 0" "\<not> in_isr h"
    and sizes: "\<forall>n. Alloc n \<in> set rs \<longrightarrow> unat n < 4294967293"
  shows "\<exists>h0 held h'. rt_system_heap_init b e h = Inr h0 \<and>
    session rt_malloc rt_free rs [] h0 = Inr (held, h') \<and>
    (\<forall>(a, n)\<in>set held. heap_start b \<le> unat a \<and> unat a + unat n \<le> heap_stop e \<and> 4 dvd unat a) \<and>
    (\<forall>i j. i < length held \<and> j < length held \<and> i \<noteq> j \<longrightarrow>
       (case (held ! i, held ! j) of ((a, n), (c, l)) \<Rightarrow>
          unat a + unat n \<le> unat c \<or> unat c + unat l \<le> unat a))"
proof -
  let ?e = "heap_stop e - heap_start b - 12"
  obtain h0 where h0: "rt_system_heap_init b e h = Inr h0" "heap_ok h0 [(?e, False)]" "\<not> in_isr h0"
      "heap_ptr h0 = rt_align b"
    using heap_init_ok[OF room fresh] by blast
  then have "heap_live (rt_align b) ?e h0 (live (rt_align b) [(?e, False)])"
    by (auto simp: heap_live_def)
  moreover have "kheap.holds (live (rt_align b) [(?e, False)]) []" by (simp add: kheap.holds_def live_def)
  ultimately obtain held h' m where s: "session rt_malloc rt_free rs [] h0 = Inr (held, h')"
      "heap_live (rt_align b) ?e h' m" "kheap.holds m held"
    using kheap.session_ok by blast
  have n: "unat n \<le> req n" if "(a, n) \<in> set held" for a n
    using session_sizes[OF s(1)] that sizes req_covers by force
  have "heap_start b \<le> unat a \<and> unat a + unat n \<le> heap_stop e \<and> 4 dvd unat a" if "(a, n) \<in> set held" for a n
    using kheap.holds_place[OF s(2,3) that] n[OF that] room unfolding heap_start_def by linarith
  moreover have apart: "unat a + unat n \<le> unat c \<or> unat c + unat l \<le> unat a"
    if "i < length held" "j < length held" "i \<noteq> j" "held ! i = (a, n)" "held ! j = (c, l)" for i j a n c l
  proof -
    have "(a, n) \<in> set held" "(c, l) \<in> set held" using that nth_mem by metis+
    then show ?thesis using kheap.holds_apart[OF s(2,3) that] \<open>\<And>a n. (a, n) \<in> set held \<Longrightarrow> unat n \<le> req n\<close>
      by (meson add_left_mono le_trans)
  qed
  moreover have "case (held ! i, held ! j) of ((a, n), (c, l)) \<Rightarrow>
      unat a + unat n \<le> unat c \<or> unat c + unat l \<le> unat a"
    if "i < length held \<and> j < length held \<and> i \<noteq> j" for i j
    using apart[of i j "fst (held ! i)" "snd (held ! i)" "fst (held ! j)" "snd (held ! j)"] that
    by (simp add: case_prod_beta)
  ultimately show ?thesis using h0(1) s(1) by blast
qed

lemma heap_sessions_safe_witness:
  "\<exists>h0 held h'. rt_system_heap_init 0x20000000 0x20000100 no_heap = Inr h0 \<and>
     session rt_malloc rt_free [Alloc 100, Alloc 7, Release 1, Alloc 30] [] h0 = Inr (held, h')"
proof -
  have "heap_start 0x20000000 + 36 \<le> heap_stop 0x20000100"
    by (simp add: heap_start_def heap_stop_def rt_align_def rt_align_down_def)
  from heap_sessions_safe[OF this, of no_heap "[Alloc 100, Alloc 7, Release 1, Alloc 30]"]
  show ?thesis by (auto simp: no_heap_def)
qed

section \<open>Resizing\<close>

text \<open>
  C19. When rt_realloc has to move a block, the new block holds the old contents up to the smaller
  of the two sizes, no other byte of the memory changes, and the old block is released.
\<close>
theorem realloc_keeps_contents:
  assumes ok: "heap_ok h (ps @ (z, True) # qs)" and i: "\<not> in_isr h"
    and n: "n = unat (rt_align newsize)" "0 < n" "n + 12 \<noteq> z" "z \<le> n + 36" "n \<le> unat (mem_size_aligned h)"
    and m: "malloc_blocks (rt_align newsize) (ps @ (z, True) # qs) = Some (b, cs)"
  shows "\<exists>h' us vs. cs = us @ (z, True) # vs \<and> total us = total ps \<and>
    rt_realloc (Some (off h (total ps + 12))) newsize h = Inr (Some (off h (b + 12)), h') \<and>
    heap_ok h' (join (us @ (z, False) # vs)) \<and>
    (\<forall>i < min (z - 12) n. heap_bytes h' (off h (b + 12) + of_nat i) = heap_bytes h (off h (total ps + 12) + of_nat i)) \<and>
    (\<forall>x. of_nat (min (z - 12) n) \<le> x - off h (b + 12) \<longrightarrow> heap_bytes h' x = heap_bytes h x)"
proof -
  let ?len = "min (z - 12) n"
  obtain h' us vs where r: "cs = us @ (z, True) # vs" "total us = total ps"
      "rt_realloc (Some (off h (total ps + 12))) newsize h = Inr (Some (off h (b + 12)), h')"
      "heap_ok h' (free_blocks us z vs)"
      "heap_bytes h' = (\<lambda>x. if x - off h (b + 12) < of_nat ?len
         then heap_bytes h (off h (total ps + 12) + (x - off h (b + 12))) else heap_bytes h x)"
    using realloc_moves_ok[OF ok i n m] by blast
  obtain h1 where "heap_ok h1 cs" using rt_malloc_ok[OF ok i, of "rt_align newsize"] m by auto
  then have "join (us @ (z, False) # vs) = free_blocks us z vs"
    using heap_okD(2) r(1) by (intro join_free) blast
  moreover have len: "?len < 4294967296" using unat_u32_less[of "mem_size_aligned h"] n(5) by simp
  moreover have "heap_bytes h' (off h (b + 12) + of_nat i) = heap_bytes h (off h (total ps + 12) + of_nat i)"
    if "i < ?len" for i
  proof -
    have "(of_nat i :: u32) < of_nat ?len" using that len by (subst of_nat_u32_less_iff) linarith+
    then show ?thesis unfolding r(5) by (simp del: of_nat_add)
  qed
  moreover have "heap_bytes h' x = heap_bytes h x" if "of_nat ?len \<le> x - off h (b + 12)" for x
    using that unfolding r(5) by (simp only: not_less[symmetric] if_False simp_thms)
  ultimately show ?thesis using r(1-4) by (intro exI[of _ h'] exI[of _ us] exI[of _ vs]) simp
qed

lemma two_blocks: "\<exists>h. heap_ok h [(112, True), (132, False)] \<and> \<not> in_isr h"
proof -
  obtain h0 where h0: "heap_ok h0 [(244, False)]" "\<not> in_isr h0" using boot_heap by blast
  have "malloc_blocks 100 [(244, False)] = Some (0, [(112, True), (132, False)])"
    by (simp add: malloc_blocks_def req_100 carve_def)
  then show ?thesis using rt_malloc_ok[OF h0, of 100] h0(2) by (auto simp: same_env_def)
qed

lemma realloc_keeps_contents_witness:
  "\<exists>h h'. heap_ok h [(112, True), (132, False)] \<and>
     rt_realloc (Some (heap_ptr h + 12)) 104 h = Inr (Some (heap_ptr h + 124), h') \<and>
     heap_ok h' [(112, False), (132, True)]"
proof -
  obtain h where h: "heap_ok h ([] @ (112, True) # [(132, False)])" "\<not> in_isr h" using two_blocks by auto
  have a: "rt_align 104 = (104 :: u32)" by (simp add: rt_align_def)
  have m: "malloc_blocks (rt_align 104) ([] @ (112, True) # [(132, False)]) = Some (112, [(112, True), (132, True)])"
    by (simp add: malloc_blocks_def req_def rt_align_idem a carve_def)
  have S: "unat (mem_size_aligned h) = 232" using heap_ok_total[OF h(1)] by simp
  from realloc_keeps_contents[OF h _ _ _ _ _ m, of 104] obtain h' us vs where
      r: "[(112, True), (132, True)] = us @ (112 :: nat, True) # vs" "total us = 0"
      "rt_realloc (Some (off h (total [] + 12))) 104 h = Inr (Some (off h (112 + 12)), h')"
      "heap_ok h' (join (us @ (112, False) # vs))"
    using S by (auto simp: a)
  have "us = []" using r(1,2) by (cases us) auto
  then show ?thesis using r h by (intro exI[of _ h] exI[of _ h']) (auto simp: numeral_eq_Suc)
qed

text \<open>
  Shrinking a block in place leaves lfree where it was: on a full heap the room given back
  cannot be allocated any more, every later rt_malloc returns NULL until another block is freed.
\<close>
theorem realloc_shrink_hides_room:
  assumes ok: "heap_ok h (ps @ (z, True) # qs)" and full: "\<forall>b\<in>set (ps @ qs). snd b" and i: "\<not> in_isr h"
    and n: "n = unat (rt_align newsize)" "0 < n" "n + 36 < z"
  shows "\<exists>h'. rt_realloc (Some (off h (total ps + 12))) newsize h = Inr (Some (off h (total ps + 12)), h') \<and>
    layout h' (ps @ (n + 12, True) # (z - n - 12, False) # qs) \<and>
    (\<forall>sz. rt_malloc sz h' = Inr (None, h'))"
proof -
  let ?bs = "ps @ (n + 12, True) # (z - n - 12, False) # qs"
  have q: "qs = [] \<or> snd (hd qs)" using full by (cases qs) auto
  then have a: "absorb (z - n - 12) qs = (z - n - 12, False) # qs" by (cases qs) auto
  obtain h' where h': "rt_realloc (Some (off h (total ps + 12))) newsize h = Inr (Some (off h (total ps + 12)), h')"
      "layout h' ?bs" "same_env h h'" "lfree h' = lfree h"
    using realloc_shrink_layout[OF heap_okD(1)[OF ok] i n] q unfolding a by auto
  have "takeWhile snd (ps @ (z, True) # qs) = ps @ (z, True) # qs" using full by (auto simp: takeWhile_eq_all_conv)
  then have "lfree h = off h (total (ps @ (z, True) # qs))" using ok unfolding heap_ok_lfree by metis
  moreover have "total (ps @ (z, True) # qs) = total ?bs" using n by simp
  ultimately have "lfree h' = off h' (total ?bs)" using h'(3,4) unfolding same_env_def by metis
  moreover have "no_adj ?bs"
    using heap_okD(2)[OF ok] q by (cases qs) (auto simp: no_adj_append)
  ultimately have "heap_wf h' ?bs []" using h'(2) by (simp add: heap_wf_def)
  moreover have "\<not> in_isr h'" using h'(3) i by (simp add: same_env_def)
  ultimately have "rt_malloc sz h' = Inr (None, h')" for sz
    using rt_malloc_wf[of h' ?bs "[]" sz] by (cases "sz = 0") (auto simp: rt_malloc_def)
  then show ?thesis using h'(1,2) by blast
qed

lemma realloc_shrink_hides_room_witness:
  "\<exists>h h'. heap_ok h [(112, True), (132, True)] \<and>
     rt_realloc (Some (heap_ptr h + 12)) 40 h = Inr (Some (heap_ptr h + 12), h') \<and>
     layout h' [(52, True), (60, False), (132, True)] \<and> rt_malloc 40 h' = Inr (None, h')"
proof -
  obtain h0 where h0: "heap_ok h0 [(112, True), (132, False)]" "\<not> in_isr h0" using two_blocks by blast
  have "malloc_blocks 104 [(112, True), (132, False)] = Some (112, [(112, True), (132, True)])"
    by (simp add: malloc_blocks_def req_def rt_align_def carve_def)
  then obtain h where h: "heap_ok h ([] @ (112, True) # [(132, True)])" "\<not> in_isr h"
    using rt_malloc_ok[OF h0, of 104] h0(2) by (auto simp: same_env_def)
  have "40 = unat (rt_align 40)" by (simp add: rt_align_def)
  from realloc_shrink_hides_room[OF h(1) _ h(2) this] show ?thesis using h(1) by auto
qed

section \<open>A heap too small\<close>

text \<open>
  The search of a heap of 4 or 8 bytes: the limit wraps round, and the header at the end of the
  heap is its own successor.
\<close>

lemma find_block_end_loops:
  assumes e: "hdrs h (heap_ptr h + p) = Some e" "hm_used e = 1" "hm_next e = p" "p < mem_size_aligned h - n"
  shows "find_block h' n' p' = Some y \<Longrightarrow> \<not> (h' = h \<and> n' = n \<and> p' = p)"
proof (rule find_block.raw_induct[of "\<lambda>h' n' p' y. \<not> (h' = h \<and> n' = n \<and> p' = p)"], goal_cases)
  case (1 loop h' n' p' y)
  show ?case
  proof
    assume a: "h' = h \<and> n' = n \<and> p' = p"
    then have "loop h n p = Some y" using 1(3) e by simp
    then show False using 1(2) by blast
  qed
qed

text \<open>
  On a heap of 4 or 8 bytes, which initialisation accepts, rt_malloc of any size that passes the
  size check never returns: the request is raised to 12 bytes and the bound of the search wraps round.
\<close>
theorem tiny_heap_hangs:
  assumes room: "heap_start b + 24 < heap_stop e" "heap_stop e < heap_start b + 36" and i: "\<not> in_isr h"
    and sz: "0 < unat (rt_align sz)" "unat (rt_align sz) + 24 \<le> heap_stop e - heap_start b"
  shows "\<exists>h'. rt_system_heap_init b e h = Inr h' \<and> rt_malloc sz h' = Inl No_Return"
proof -
  define z where "z = heap_stop e - heap_start b - 12"
  have z: "12 < z" "z < 24" using room by (simp_all add: z_def)
  obtain h' where h': "rt_system_heap_init b e h = Inr h'" "lfree h' = heap_ptr h'"
      "hat h' 0 = Some (mk_hdr False z 0)" "hat h' z = Some (mk_hdr True z z)"
      "unat (mem_size_aligned h') + 12 = z" "\<not> in_isr h'" "4 dvd z"
    using heap_init_state[of b e h] room i unfolding z_def[symmetric] by auto
  have "z = 16 \<or> z = 20" using z h'(7) by presburger
  then have c: "(of_nat z :: u32) < mem_size_aligned h' - 12" "0 < mem_size_aligned h' - 12"
      "\<not> (12 :: u32) \<le> of_nat z - 12"
    using h'(5) by (auto simp: word_less_nat_alt word_le_nat_alt unat_sub_if_size word_size)
  have at: "hdrs h' (heap_ptr h') = Some (mk_hdr False z 0)"
    "hdrs h' (heap_ptr h' + of_nat z) = Some (mk_hdr True z z)"
    using h'(3,4) z by (auto simp: hat_def)
  have "find_block h' 12 (of_nat z) = None"
    using find_block_end_loops[OF at(2) _ _ c(1)] by (cases "find_block h' 12 (of_nat z)") auto
  then have "find_block h' 12 0 = None"
    using at(1) c by (subst find_block.simps) simp
  moreover have "\<not> rt_align sz > mem_size_aligned h'" "rt_align sz < 12" "sz \<noteq> 0"
    using sz h'(5) z by (auto simp: word_less_nat_alt z_def rt_align_def)
  ultimately show ?thesis using h'(1,2,6) by (auto simp: rt_malloc_def Let_def)
qed

lemma tiny_heap_hangs_witness:
  "\<exists>h'. rt_system_heap_init 0x20000000 0x20000020 no_heap = Inr h' \<and> rt_malloc 5 h' = Inl No_Return"
proof -
  have "heap_start 0x20000000 = 536870912" "heap_stop 0x20000020 = 536870944" "unat (rt_align 5) = 8"
    by (simp_all add: heap_start_def heap_stop_def rt_align_def rt_align_down_def)
  then show ?thesis
    using tiny_heap_hangs[of "0x20000000" "0x20000020" no_heap 5] by (simp add: no_heap_def)
qed

end
