(* ===== verification/Sched.thy ===== *)
theory Sched
  imports Rt_Timer
begin

text \<open>
  Threads and the scheduler of the kernel (\<open>rt-thread/src/scheduler.c\<close>, \<open>thread.c\<close>, \<open>irq.c\<close>, the tick
  of \<open>clock.c\<close>) on one core with 32 priorities: a list of ready threads for each priority, a bit
  mask of the priorities that have one, and the choice of the next thread. The lists are the
  code's, with their links (theory \<open>Rt_List\<close>); the timers of the threads are the kernel timers of
  theory \<open>Rt_Timer\<close>, whose client is the scheduler.

  A context switch is the change of \<open>rt_current_thread\<close>: an operation that gives up the processor
  is modelled up to its call of \<open>rt_schedule\<close>, and what it does when the thread runs again is a
  definition of its own (\<open>\<dots>_back\<close>). Interrupts are off inside of the operations. The stack of a
  thread is the flag whether it is intact. Hooks are not set; signals and SMP are not configured.
\<close>

section \<open>The data\<close>

abbreviation RT_THREAD_INIT :: u8 where "RT_THREAD_INIT \<equiv> 0"
abbreviation RT_THREAD_READY :: u8 where "RT_THREAD_READY \<equiv> 1"
abbreviation RT_THREAD_SUSPEND :: u8 where "RT_THREAD_SUSPEND \<equiv> 2"
abbreviation RT_THREAD_RUNNING :: u8 where "RT_THREAD_RUNNING \<equiv> 3"
abbreviation RT_THREAD_CLOSE :: u8 where "RT_THREAD_CLOSE \<equiv> 4"
abbreviation RT_THREAD_STAT_MASK :: u8 where "RT_THREAD_STAT_MASK \<equiv> 7"
abbreviation RT_THREAD_STAT_YIELD :: u8 where "RT_THREAD_STAT_YIELD \<equiv> 8"

text \<open>The nodes of the lists: the heads (of the ready lists, of the closed threads, and of the
  threads that wait for an IPC object) and the threads.\<close>

datatype snode = Ready nat | Defunct | Waiters nat | Thread nat

text \<open>\<open>th_object\<close> is whether the object container has the thread, which sets the type of the object;
  \<open>th_static\<close> is whether it is a static object, \<open>th_cleanup\<close> whether it has a cleanup function, and
  \<open>th_timer\<close> the timer object inside of it.\<close>

record rt_thread =
  th_object :: bool
  th_static :: bool
  th_cleanup :: bool
  th_stat :: u8
  current_priority :: u8
  init_priority :: u8
  number_mask :: u32
  th_init_tick :: u32
  remaining_tick :: u32
  th_error :: int
  th_timer :: nat
  stack_intact :: bool

record rt_sem =
  sem_static :: bool
  sem_flag :: u8
  sem_value :: u16

record sched =
  sc_links :: "snode links"
  ready_group :: u32
  threads :: "nat \<Rightarrow> rt_thread"
  timer_param :: "nat \<Rightarrow> nat option"
  current_thread :: "nat option"
  rt_current_priority :: u8
  lock_nest :: int
  interrupt_nest :: u8
  sems :: "nat \<Rightarrow> rt_sem option"

type_synonym kernel = "sched tmsys"

definition upd_sched :: "(sched \<Rightarrow> sched) \<Rightarrow> kernel \<Rightarrow> kernel" where
  "upd_sched f k = k\<lparr>client := f (client k)\<rparr>"

definition upd_sc_links :: "(snode links \<Rightarrow> snode links) \<Rightarrow> sched \<Rightarrow> sched" where
  "upd_sc_links f s = s\<lparr>sc_links := f (sc_links s)\<rparr>"

definition upd_thread :: "nat \<Rightarrow> (rt_thread \<Rightarrow> rt_thread) \<Rightarrow> sched \<Rightarrow> sched" where
  "upd_thread t f s = s\<lparr>threads := (threads s)(t := f (threads s t))\<rparr>"

definition stat_of :: "rt_thread \<Rightarrow> u8" where
  "stat_of th = th_stat th AND RT_THREAD_STAT_MASK"

definition set_stat :: "u8 \<Rightarrow> rt_thread \<Rightarrow> rt_thread" where
  "set_stat v th = th\<lparr>th_stat := v OR (th_stat th AND NOT RT_THREAD_STAT_MASK)\<rparr>"

definition yields :: "rt_thread \<Rightarrow> bool" where
  "yields th = (th_stat th AND RT_THREAD_STAT_YIELD \<noteq> 0)"

section \<open>The ready lists\<close>

text \<open>\<open>__builtin_ffs\<close>: one more than the number of the lowest bit set, 0 when none is.\<close>

definition rt_ffs :: "u32 \<Rightarrow> nat" where
  "rt_ffs w = (case filter (bit w) [0..<32] of [] \<Rightarrow> 0 | n # _ \<Rightarrow> Suc n)"

text \<open>The head of the ready list of a priority; the table has 32.\<close>

definition ready_head :: "u8 \<Rightarrow> snode res" where
  "ready_head p = (if unat p < 32 then Inr (Ready (unat p)) else Inl Out_Of_Bounds)"

definition rt_schedule_insert_thread :: "nat \<Rightarrow> sched \<Rightarrow> sched res" where
  "rt_schedule_insert_thread t s =
     (let th = threads s t in
     if current_thread s = Some t then Inr (upd_thread t (set_stat RT_THREAD_RUNNING) s)
     else
       let s1 = upd_thread t (set_stat RT_THREAD_READY) s in
       bindE (ready_head (current_priority th)) (\<lambda>h.
       let s2 = upd_sc_links (rt_list_insert_before h (Thread t)) s1 in
       Inr (s2\<lparr>ready_group := ready_group s2 OR number_mask th\<rparr>)))"

definition rt_schedule_remove_thread :: "nat \<Rightarrow> sched \<Rightarrow> sched res" where
  "rt_schedule_remove_thread t s =
     (let th = threads s t;
         s1 = upd_sc_links (rt_list_remove (Thread t)) s in
     bindE (ready_head (current_priority th)) (\<lambda>h.
     Inr (if rt_list_isempty h (sc_links s1)
          then s1\<lparr>ready_group := ready_group s1 AND NOT (number_mask th)\<rparr> else s1)))"

definition get_highest_priority_thread :: "sched \<Rightarrow> (nat \<times> nat) res" where
  "get_highest_priority_thread s =
     (let p = rt_ffs (ready_group s) - 1 in
      if ready_group s = 0 then Inl Out_Of_Bounds
      else case nxt (sc_links s) (Ready p) of
        Thread t \<Rightarrow> Inr (t, p)
      | _ \<Rightarrow> Inl Out_Of_Bounds)"

definition rt_scheduler_stack_check :: "nat \<Rightarrow> sched \<Rightarrow> unit res" where
  "rt_scheduler_stack_check t s = assertE (stack_intact (threads s t))"

definition rt_system_scheduler_init :: "sched \<Rightarrow> sched" where
  "rt_system_scheduler_init s =
     upd_sc_links (rt_list_init Defunct)
       (upd_sc_links (fold (\<lambda>p. rt_list_init (Ready p)) [0..<32]) (s\<lparr>lock_nest := 0\<rparr>)\<lparr>ready_group := 0\<rparr>)"

section \<open>Scheduling\<close>

text \<open>The switch to a thread other than the running one.\<close>

definition switch_thread :: "nat \<Rightarrow> bool \<Rightarrow> nat \<Rightarrow> nat \<Rightarrow> sched \<Rightarrow> sched res" where
  "switch_thread from need_insert to prio s =
     (let s1 = s\<lparr>rt_current_priority := of_nat prio, current_thread := Some to\<rparr> in
      bindE (if need_insert then rt_schedule_insert_thread from s1 else Inr s1) (\<lambda>s2.
      bindE (rt_schedule_remove_thread to s2) (\<lambda>s3.
      let s4 = upd_thread to (set_stat RT_THREAD_RUNNING) s3 in
      bindE (rt_scheduler_stack_check to s4) (\<lambda>_. Inr s4))))"

definition rt_schedule :: "sched \<Rightarrow> sched res" where
  "rt_schedule s =
     (if lock_nest s \<noteq> 0 \<or> ready_group s = 0 then Inr s
      else bindE (get_highest_priority_thread s) (\<lambda>(t, p).
        case current_thread s of
          None \<Rightarrow> Inl Null_Deref
        | Some c \<Rightarrow>
          let cur = threads s c;
              running = (stat_of cur = RT_THREAD_RUNNING);
              stays = running \<and> (unat (current_priority cur) < p \<or>
                unat (current_priority cur) = p \<and> \<not> yields cur);
              s1 = (if running \<and> \<not> stays
                    then upd_thread c (\<lambda>th. th\<lparr>th_stat := th_stat th AND NOT RT_THREAD_STAT_YIELD\<rparr>) s else s);
              to = (if stays then c else t) in
          if to \<noteq> c then switch_thread c (running \<and> \<not> stays) to p s1
          else bindE (rt_schedule_remove_thread c s1) (\<lambda>s2.
            Inr (upd_thread c (set_stat RT_THREAD_RUNNING) s2))))"

definition rt_system_scheduler_start :: "sched \<Rightarrow> sched res" where
  "rt_system_scheduler_start s =
     bindE (get_highest_priority_thread s) (\<lambda>(t, p).
     bindE (rt_schedule_remove_thread t (s\<lparr>current_thread := Some t\<rparr>)) (\<lambda>s1.
     Inr (upd_thread t (\<lambda>th. th\<lparr>th_stat := RT_THREAD_RUNNING\<rparr>) s1)))"

definition rt_enter_critical :: "sched \<Rightarrow> sched" where
  "rt_enter_critical s = s\<lparr>lock_nest := to_s16 (lock_nest s + 1)\<rparr>"

definition rt_exit_critical :: "sched \<Rightarrow> sched res" where
  "rt_exit_critical s =
     (let s1 = s\<lparr>lock_nest := to_s16 (lock_nest s - 1)\<rparr> in
      if lock_nest s1 \<le> 0
      then let s2 = s1\<lparr>lock_nest := 0\<rparr> in
           if current_thread s2 \<noteq> None then rt_schedule s2 else Inr s2
      else Inr s1)"

definition rt_interrupt_enter :: "sched \<Rightarrow> sched" where
  "rt_interrupt_enter s = s\<lparr>interrupt_nest := interrupt_nest s + 1\<rparr>"

definition rt_interrupt_leave :: "sched \<Rightarrow> sched" where
  "rt_interrupt_leave s = s\<lparr>interrupt_nest := interrupt_nest s - 1\<rparr>"

end
