(* ===== verification/Rt_Thread.thy ===== *)
theory Rt_Thread
  imports Sched
begin

text \<open>
  The operations on threads (\<open>rt-thread/src/thread.c\<close>), on the scheduler and the timers together:
  creation, start, suspension and resumption, sleeping, the timeout of a thread's timer, priority
  changes and the end of a thread; and the tick of \<open>clock.c\<close> with the time slices.
\<close>

section \<open>The kernel state\<close>

definition on_sched :: "(sched \<Rightarrow> sched res) \<Rightarrow> kernel \<Rightarrow> kernel res" where
  "on_sched f k = bindE (f (client k)) (\<lambda>s. Inr (k\<lparr>client := s\<rparr>))"

text \<open>\<open>RT_ASSERT\<close> that the object is a thread.\<close>

definition assert_thread :: "nat \<Rightarrow> kernel \<Rightarrow> unit res" where
  "assert_thread t k = assertE (th_object (threads (client k) t))"

text \<open>\<open>rt_timer_stop (&thread->thread_timer)\<close>, whose result is not used.\<close>

definition stop_thread_timer :: "nat \<Rightarrow> kernel \<Rightarrow> kernel res" where
  "stop_thread_timer t k = bindE (rt_timer_stop (th_timer (threads (client k) t)) k) (\<lambda>(_, k1). Inr k1)"

text \<open>Set the time of the thread's timer and start it.\<close>

definition start_thread_timer :: "nat \<Rightarrow> u32 \<Rightarrow> kernel \<Rightarrow> kernel res" where
  "start_thread_timer t tick k =
     (let tm = th_timer (threads (client k) t) in
      bindE (rt_timer_control tm (Timer_Set_Time tick) k) (\<lambda>(_, _, k1).
      bindE (rt_timer_start tm k1) (\<lambda>(_, k2). Inr k2)))"

section \<open>Creation\<close>

text \<open>\<open>_rt_thread_init\<close>: \<open>stack_ok\<close> is whether the stack can hold what the switch checks for; the timer
  of the thread is a static object with the thread as its parameter.\<close>

definition thread_obj_init :: "nat \<Rightarrow> nat \<Rightarrow> u8 \<Rightarrow> u32 \<Rightarrow> bool \<Rightarrow> kernel \<Rightarrow> kernel res" where
  "thread_obj_init t tm priority tick stack_ok k =
     bindE (assertE (priority < 32)) (\<lambda>_.
     let k1 = upd_sched (upd_sc_links (rt_list_init (Thread t))) k;
         k2 = upd_sched (upd_thread t (\<lambda>th. th\<lparr>th_cleanup := False, th_stat := RT_THREAD_INIT,
                current_priority := priority, init_priority := priority, number_mask := 0,
                th_init_tick := tick, remaining_tick := tick, th_error := RT_EOK, th_timer := tm,
                stack_intact := stack_ok\<rparr>)) k1;
         k3 = upd_sched (\<lambda>s. s\<lparr>timer_param := (timer_param s)(tm \<mapsto> t)\<rparr>) k2 in
     Inr (rt_timer_init tm 0 0 k3))"

definition rt_thread_init :: "nat \<Rightarrow> nat \<Rightarrow> u8 \<Rightarrow> u32 \<Rightarrow> bool \<Rightarrow> kernel \<Rightarrow> (int \<times> kernel) res" where
  "rt_thread_init t tm priority tick stack_ok k =
     bindE (thread_obj_init t tm priority tick stack_ok
       (upd_sched (upd_thread t (\<lambda>th. th\<lparr>th_object := True, th_static := True\<rparr>)) k)) (\<lambda>k1.
     Inr (RT_EOK, k1))"

text \<open>The allocations of the object (with its timer) and of the stack are arguments.\<close>

definition rt_thread_create ::
    "(nat \<times> nat) option \<Rightarrow> bool option \<Rightarrow> u8 \<Rightarrow> u32 \<Rightarrow> kernel \<Rightarrow> (nat option \<times> kernel) res" where
  "rt_thread_create obj stack priority tick k =
     (case obj of None \<Rightarrow> Inr (None, k)
      | Some (t, tm) \<Rightarrow>
         (case stack of None \<Rightarrow> Inr (None, k)
          | Some stack_ok \<Rightarrow>
              bindE (thread_obj_init t tm priority tick stack_ok
                (upd_sched (upd_thread t (\<lambda>th. th\<lparr>th_object := True, th_static := False\<rparr>)) k)) (\<lambda>k1.
              Inr (Some t, k1))))"

section \<open>Suspension and resumption\<close>

definition rt_thread_suspend :: "nat \<Rightarrow> kernel \<Rightarrow> (int \<times> kernel) res" where
  "rt_thread_suspend t k =
     bindE (assert_thread t k) (\<lambda>_.
     let stat = stat_of (threads (client k) t) in
     if stat \<noteq> RT_THREAD_READY \<and> stat \<noteq> RT_THREAD_RUNNING then Inr (- RT_ERROR, k)
     else
       bindE (if stat = RT_THREAD_RUNNING then assertE (current_thread (client k) = Some t) else Inr ()) (\<lambda>_.
       bindE (on_sched (rt_schedule_remove_thread t) k) (\<lambda>k1.
       bindE (stop_thread_timer t (upd_sched (upd_thread t (set_stat RT_THREAD_SUSPEND)) k1)) (\<lambda>k2.
       Inr (RT_EOK, k2)))))"

definition rt_thread_resume :: "nat \<Rightarrow> kernel \<Rightarrow> (int \<times> kernel) res" where
  "rt_thread_resume t k =
     bindE (assert_thread t k) (\<lambda>_.
     if stat_of (threads (client k) t) \<noteq> RT_THREAD_SUSPEND then Inr (- RT_ERROR, k)
     else
       bindE (stop_thread_timer t (upd_sched (upd_sc_links (rt_list_remove (Thread t))) k)) (\<lambda>k1.
       bindE (on_sched (rt_schedule_insert_thread t) k1) (\<lambda>k2. Inr (RT_EOK, k2))))"

definition rt_thread_timeout :: "nat \<Rightarrow> kernel \<Rightarrow> kernel res" where
  "rt_thread_timeout t k =
     bindE (assertE (stat_of (threads (client k) t) = RT_THREAD_SUSPEND)) (\<lambda>_.
     bindE (assert_thread t k) (\<lambda>_.
     let k1 = upd_sched (upd_sc_links (rt_list_remove (Thread t)))
                (upd_sched (upd_thread t (\<lambda>th. th\<lparr>th_error := - RT_ETIMEOUT\<rparr>)) k) in
     bindE (on_sched (rt_schedule_insert_thread t) k1) (\<lambda>k2.
     on_sched rt_schedule k2)))"

section \<open>Starting, yielding, sleeping\<close>

definition rt_thread_startup :: "nat \<Rightarrow> kernel \<Rightarrow> (int \<times> kernel) res" where
  "rt_thread_startup t k =
     bindE (assertE (stat_of (threads (client k) t) = RT_THREAD_INIT)) (\<lambda>_.
     bindE (assert_thread t k) (\<lambda>_.
     let k1 = upd_sched (upd_thread t (\<lambda>th. th\<lparr>current_priority := init_priority th,
                number_mask := push_bit (unat (init_priority th)) 1, th_stat := RT_THREAD_SUSPEND\<rparr>)) k in
     bindE (rt_thread_resume t k1) (\<lambda>(_, k2).
     if current_thread (client k2) \<noteq> None then bindE (on_sched rt_schedule k2) (\<lambda>k3. Inr (RT_EOK, k3))
     else Inr (RT_EOK, k2))))"

definition rt_thread_yield :: "kernel \<Rightarrow> (int \<times> kernel) res" where
  "rt_thread_yield k = bindE (on_sched rt_schedule k) (\<lambda>k1. Inr (RT_EOK, k1))"

text \<open>\<open>rt_thread_self ()\<close>, asserted not to be null.\<close>

definition self_thread :: "kernel \<Rightarrow> nat res" where
  "self_thread k = (case current_thread (client k) of None \<Rightarrow> Inl Assert_Failed | Some t \<Rightarrow> Inr t)"

definition rt_thread_sleep :: "u32 \<Rightarrow> kernel \<Rightarrow> kernel res" where
  "rt_thread_sleep tick k =
     bindE (self_thread k) (\<lambda>t.
     bindE (assert_thread t k) (\<lambda>_.
     bindE (rt_thread_suspend t k) (\<lambda>(_, k1).
     bindE (start_thread_timer t tick k1) (\<lambda>k2.
     on_sched rt_schedule k2))))"

text \<open>When the thread \<open>t\<close> runs again, the operation returns \<open>RT_EOK\<close>.\<close>

definition rt_thread_sleep_back :: "nat \<Rightarrow> kernel \<Rightarrow> int \<times> kernel" where
  "rt_thread_sleep_back t k =
     (RT_EOK, if th_error (threads (client k) t) = - RT_ETIMEOUT
              then upd_sched (upd_thread t (\<lambda>th. th\<lparr>th_error := RT_EOK\<rparr>)) k else k)"

definition rt_thread_mdelay :: "int \<Rightarrow> kernel \<Rightarrow> kernel res" where
  "rt_thread_mdelay ms k = rt_thread_sleep (rt_tick_from_millisecond ms) k"

text \<open>The value is whether the thread sleeps; if not, \<open>*tick\<close> is the tick now.\<close>

definition rt_thread_delay_until :: "u32 \<Rightarrow> u32 \<Rightarrow> kernel \<Rightarrow> (bool \<times> kernel) res" where
  "rt_thread_delay_until since inc_tick k =
     bindE (self_thread k) (\<lambda>t.
     bindE (assert_thread t k) (\<lambda>_.
     if rt_tick k - since < inc_tick
     then bindE (rt_thread_suspend t k) (\<lambda>(_, k1).
          bindE (start_thread_timer t (rt_tick k - since + inc_tick) k1) (\<lambda>k2.
          bindE (on_sched rt_schedule k2) (\<lambda>k3. Inr (True, k3))))
     else Inr (False, k)))"

section \<open>Priorities\<close>

definition change_priority :: "nat \<Rightarrow> u8 \<Rightarrow> kernel \<Rightarrow> kernel res" where
  "change_priority t p k =
     (let set_prio = upd_sched (upd_thread t (\<lambda>th. th\<lparr>current_priority := p,
            number_mask := push_bit (unat p) 1\<rparr>)) in
      if stat_of (threads (client k) t) = RT_THREAD_READY
      then bindE (on_sched (rt_schedule_remove_thread t) k) (\<lambda>k1.
           on_sched (rt_schedule_insert_thread t) (set_prio k1))
      else Inr (set_prio k))"

section \<open>The end of a thread\<close>

definition detach_thread_timer :: "nat \<Rightarrow> kernel \<Rightarrow> kernel res" where
  "detach_thread_timer t k = bindE (rt_timer_detach (th_timer (threads (client k) t)) k) (\<lambda>(_, k1). Inr k1)"

definition to_defunct :: "nat \<Rightarrow> kernel \<Rightarrow> kernel" where
  "to_defunct t k = upd_sched (upd_sc_links (rt_list_insert_after Defunct (Thread t))) k"

definition detach_or_defunct :: "nat \<Rightarrow> kernel \<Rightarrow> kernel" where
  "detach_or_defunct t k =
     (if th_static (threads (client k) t) \<and> \<not> th_cleanup (threads (client k) t)
      then upd_sched (upd_thread t (\<lambda>th. th\<lparr>th_object := False\<rparr>)) k else to_defunct t k)"

definition rt_thread_exit :: "kernel \<Rightarrow> kernel res" where
  "rt_thread_exit k =
     (case current_thread (client k) of None \<Rightarrow> Inl Assert_Failed
      | Some t \<Rightarrow>
          bindE (on_sched (rt_schedule_remove_thread t) k) (\<lambda>k1.
          bindE (detach_thread_timer t (upd_sched (upd_thread t (\<lambda>th. th\<lparr>th_stat := RT_THREAD_CLOSE\<rparr>)) k1)) (\<lambda>k2.
          on_sched rt_schedule (detach_or_defunct t k2))))"

definition leave_schedule :: "nat \<Rightarrow> kernel \<Rightarrow> kernel res" where
  "leave_schedule t k =
     bindE (if stat_of (threads (client k) t) \<noteq> RT_THREAD_INIT
            then on_sched (rt_schedule_remove_thread t) k else Inr k) (\<lambda>k1.
     bindE (detach_thread_timer t k1) (\<lambda>k2.
     Inr (upd_sched (upd_thread t (\<lambda>th. th\<lparr>th_stat := RT_THREAD_CLOSE\<rparr>)) k2)))"

definition rt_thread_detach :: "nat \<Rightarrow> kernel \<Rightarrow> (int \<times> kernel) res" where
  "rt_thread_detach t k =
     bindE (assert_thread t k) (\<lambda>_.
     bindE (assertE (th_static (threads (client k) t))) (\<lambda>_.
     bindE (leave_schedule t k) (\<lambda>k1. Inr (RT_EOK, detach_or_defunct t k1))))"

definition rt_thread_delete :: "nat \<Rightarrow> kernel \<Rightarrow> (int \<times> kernel) res" where
  "rt_thread_delete t k =
     bindE (assert_thread t k) (\<lambda>_.
     bindE (assertE (\<not> th_static (threads (client k) t))) (\<lambda>_.
     bindE (leave_schedule t k) (\<lambda>k1. Inr (RT_EOK, to_defunct t k1))))"

datatype thread_cmd = Change_Priority u8 | Thread_Startup | Thread_Close | Thread_Other

definition rt_thread_control :: "nat \<Rightarrow> thread_cmd \<Rightarrow> kernel \<Rightarrow> (int \<times> kernel) res" where
  "rt_thread_control t cmd k =
     bindE (assert_thread t k) (\<lambda>_.
     case cmd of
       Change_Priority p \<Rightarrow> bindE (change_priority t p k) (\<lambda>k1. Inr (RT_EOK, k1))
     | Thread_Startup \<Rightarrow> rt_thread_startup t k
     | Thread_Close \<Rightarrow> rt_thread_delete t k
     | Thread_Other \<Rightarrow> Inr (RT_EOK, k))"

section \<open>The tick\<close>

text \<open>The time slice of the running thread in \<open>rt_tick_increase\<close>.\<close>

definition thread_slice :: "kernel \<Rightarrow> kernel res" where
  "thread_slice k =
     (case current_thread (client k) of None \<Rightarrow> Inl Null_Deref
      | Some t \<Rightarrow>
          let k1 = upd_sched (upd_thread t (\<lambda>th. th\<lparr>remaining_tick := remaining_tick th - 1\<rparr>)) k in
          if remaining_tick (threads (client k1) t) = 0
          then bindE (rt_thread_yield (upd_sched (upd_thread t (\<lambda>th. th\<lparr>remaining_tick := th_init_tick th,
                 th_stat := th_stat th OR RT_THREAD_STAT_YIELD\<rparr>)) k1)) (\<lambda>(_, k2). Inr k2)
          else Inr k1)"

text \<open>The function of a thread's timer is \<open>rt_thread_timeout\<close>; what other timers do is an argument.\<close>

definition kernel_timeout :: "(nat \<Rightarrow> kernel \<Rightarrow> kernel res) \<Rightarrow> nat \<Rightarrow> kernel \<Rightarrow> kernel res" where
  "kernel_timeout other tm k =
     (case timer_param (client k) tm of Some t \<Rightarrow> rt_thread_timeout t k | None \<Rightarrow> other tm k)"

definition kernel_tick :: "(nat \<Rightarrow> kernel \<Rightarrow> kernel res) \<Rightarrow> kernel \<Rightarrow> kernel res" where
  "kernel_tick other k = rt_tick_increase thread_slice (kernel_timeout other) k"

end
