(* ===== verification/Ipc_Sem.thy ===== *)
theory Ipc_Sem
  imports Rt_Thread
begin

text \<open>
  The lists of threads that wait for an IPC object, and the semaphores
  (\<open>rt-thread/src/ipc.c\<close>). A call that blocks is split where the thread gives up the processor:
  \<open>rt_sem_take\<close> is the part up to \<open>rt_schedule\<close>, \<open>rt_sem_take_back\<close> what the call returns when the
  thread runs again.
\<close>

abbreviation RT_IPC_FLAG_FIFO :: u8 where "RT_IPC_FLAG_FIFO \<equiv> 0"
abbreviation RT_IPC_FLAG_PRIO :: u8 where "RT_IPC_FLAG_PRIO \<equiv> 1"

section \<open>Waiting lists\<close>

text \<open>The place for a thread of priority \<open>p\<close>: before the first one of a lower priority, or at the end.\<close>

partial_function (option) prio_point ::
    "snode links \<Rightarrow> (nat \<Rightarrow> rt_thread) \<Rightarrow> snode \<Rightarrow> u8 \<Rightarrow> snode \<Rightarrow> snode res option" where
  "prio_point ls ths lst p n =
     (if n = lst then Some (Inr lst)
      else (case n of
          Thread t \<Rightarrow> (if p < current_priority (ths t) then Some (Inr n)
                       else prio_point ls ths lst p (nxt ls n))
        | _ \<Rightarrow> Some (Inl Out_Of_Bounds)))"

definition rt_ipc_list_suspend :: "snode \<Rightarrow> nat \<Rightarrow> u8 \<Rightarrow> kernel \<Rightarrow> kernel res" where
  "rt_ipc_list_suspend lst t flag k =
     bindE (rt_thread_suspend t k) (\<lambda>(_, k1).
     let s = client k1 in
     if flag = RT_IPC_FLAG_FIFO then Inr (upd_sched (upd_sc_links (rt_list_insert_before lst (Thread t))) k1)
     else if flag = RT_IPC_FLAG_PRIO
     then bindE (returns (prio_point (sc_links s) (threads s) lst (current_priority (threads s t)) (nxt (sc_links s) lst)))
            (\<lambda>n. Inr (upd_sched (upd_sc_links (rt_list_insert_before n (Thread t))) k1))
     else Inr k1)"

definition rt_ipc_list_resume :: "snode \<Rightarrow> kernel \<Rightarrow> kernel res" where
  "rt_ipc_list_resume lst k =
     (case nxt (sc_links (client k)) lst of
        Thread t \<Rightarrow> bindE (rt_thread_resume t k) (\<lambda>(_, k1). Inr k1)
      | _ \<Rightarrow> Inl Out_Of_Bounds)"

partial_function (option) rt_ipc_list_resume_all :: "snode \<Rightarrow> kernel \<Rightarrow> kernel res option" where
  "rt_ipc_list_resume_all lst k =
     (if rt_list_isempty lst (sc_links (client k)) then Some (Inr k)
      else (case nxt (sc_links (client k)) lst of
          Thread t \<Rightarrow>
            (case rt_thread_resume t (upd_sched (upd_thread t (\<lambda>th. th\<lparr>th_error := - RT_ERROR\<rparr>)) k) of
               Inl e \<Rightarrow> Some (Inl e)
             | Inr (_, k1) \<Rightarrow> rt_ipc_list_resume_all lst k1)
        | _ \<Rightarrow> Some (Inl Out_Of_Bounds)))"

section \<open>Semaphores\<close>

definition upd_sem :: "nat \<Rightarrow> (rt_sem \<Rightarrow> rt_sem) \<Rightarrow> sched \<Rightarrow> sched" where
  "upd_sem i f s = s\<lparr>sems := (sems s)(i := map_option f (sems s i))\<rparr>"

definition sem_obj_init :: "nat \<Rightarrow> bool \<Rightarrow> u32 \<Rightarrow> u8 \<Rightarrow> kernel \<Rightarrow> kernel" where
  "sem_obj_init i static v flag k =
     upd_sched (\<lambda>s. s\<lparr>sems := (sems s)(i \<mapsto> \<lparr>sem_static = static, sem_flag = flag, sem_value = ucast v\<rparr>)\<rparr>)
       (upd_sched (upd_sc_links (rt_list_init (Waiters i))) k)"

definition rt_sem_init :: "nat \<Rightarrow> u32 \<Rightarrow> u8 \<Rightarrow> kernel \<Rightarrow> (int \<times> kernel) res" where
  "rt_sem_init i v flag k =
     bindE (assertE (v < 0x10000)) (\<lambda>_. Inr (RT_EOK, sem_obj_init i True v flag k))"

definition not_in_interrupt :: "kernel \<Rightarrow> unit res" where
  "not_in_interrupt k = assertE (interrupt_nest (client k) = 0)"

definition rt_sem_create :: "nat option \<Rightarrow> u32 \<Rightarrow> u8 \<Rightarrow> kernel \<Rightarrow> (nat option \<times> kernel) res" where
  "rt_sem_create alloc v flag k =
     bindE (not_in_interrupt k) (\<lambda>_.
     bindE (assertE (v < 0x10000)) (\<lambda>_.
     case alloc of None \<Rightarrow> Inr (None, k) | Some i \<Rightarrow> Inr (Some i, sem_obj_init i False v flag k)))"

definition get_sem :: "nat \<Rightarrow> kernel \<Rightarrow> rt_sem res" where
  "get_sem i k = (case sems (client k) i of None \<Rightarrow> Inl Assert_Failed | Some sem \<Rightarrow> Inr sem)"

definition rt_sem_detach :: "nat \<Rightarrow> kernel \<Rightarrow> (int \<times> kernel) res" where
  "rt_sem_detach i k =
     bindE (get_sem i k) (\<lambda>sem.
     bindE (assertE (sem_static sem)) (\<lambda>_.
     bindE (returns (rt_ipc_list_resume_all (Waiters i) k)) (\<lambda>k1.
     Inr (RT_EOK, upd_sched (\<lambda>s. s\<lparr>sems := (sems s)(i := None)\<rparr>) k1))))"

definition rt_sem_delete :: "nat \<Rightarrow> kernel \<Rightarrow> (int \<times> kernel) res" where
  "rt_sem_delete i k =
     bindE (not_in_interrupt k) (\<lambda>_.
     bindE (get_sem i k) (\<lambda>sem.
     bindE (assertE (\<not> sem_static sem)) (\<lambda>_.
     bindE (returns (rt_ipc_list_resume_all (Waiters i) k)) (\<lambda>k1.
     Inr (RT_EOK, upd_sched (\<lambda>s. s\<lparr>sems := (sems s)(i := None)\<rparr>) k1)))))"

text \<open>What a call did: it returned a value, or its thread waits.\<close>

datatype outcome = Returned int | Waits

text \<open>\<open>time\<close> is a signed number of ticks: 0 does not wait, a negative one waits for ever.\<close>

definition rt_sem_take :: "nat \<Rightarrow> int \<Rightarrow> kernel \<Rightarrow> (outcome \<times> kernel) res" where
  "rt_sem_take i time k =
     bindE (get_sem i k) (\<lambda>sem.
     if sem_value sem > 0
     then Inr (Returned RT_EOK, upd_sched (upd_sem i (\<lambda>sem. sem\<lparr>sem_value := sem_value sem - 1\<rparr>)) k)
     else if time = 0 then Inr (Returned (- RT_ETIMEOUT), k)
     else
       bindE (self_thread k) (\<lambda>t.
       bindE (not_in_interrupt k) (\<lambda>_.
       let k1 = upd_sched (upd_thread t (\<lambda>th. th\<lparr>th_error := RT_EOK\<rparr>)) k in
       bindE (rt_ipc_list_suspend (Waiters i) t (sem_flag sem) k1) (\<lambda>k2.
       bindE (if time > 0 then start_thread_timer t (to_u32 time) k2 else Inr k2) (\<lambda>k3.
       bindE (on_sched rt_schedule k3) (\<lambda>k4. Inr (Waits, k4)))))))"

definition rt_sem_take_back :: "nat \<Rightarrow> kernel \<Rightarrow> int" where
  "rt_sem_take_back t k = (let e = th_error (threads (client k) t) in if e \<noteq> RT_EOK then e else RT_EOK)"

definition rt_sem_trytake :: "nat \<Rightarrow> kernel \<Rightarrow> (outcome \<times> kernel) res" where
  "rt_sem_trytake i k = rt_sem_take i 0 k"

definition rt_sem_release :: "nat \<Rightarrow> kernel \<Rightarrow> (int \<times> kernel) res" where
  "rt_sem_release i k =
     bindE (get_sem i k) (\<lambda>_.
     if \<not> rt_list_isempty (Waiters i) (sc_links (client k))
     then bindE (rt_ipc_list_resume (Waiters i) k) (\<lambda>k1.
          bindE (on_sched rt_schedule k1) (\<lambda>k2. Inr (RT_EOK, k2)))
     else Inr (RT_EOK, upd_sched (upd_sem i (\<lambda>sem. sem\<lparr>sem_value := sem_value sem + 1\<rparr>)) k))"

text \<open>The reset command with the new value, or another command.\<close>

definition rt_sem_control :: "nat \<Rightarrow> u32 option \<Rightarrow> kernel \<Rightarrow> (int \<times> kernel) res" where
  "rt_sem_control i reset k =
     bindE (get_sem i k) (\<lambda>_.
     case reset of
       None \<Rightarrow> Inr (- RT_ERROR, k)
     | Some v \<Rightarrow>
         bindE (returns (rt_ipc_list_resume_all (Waiters i) k)) (\<lambda>k1.
         bindE (on_sched rt_schedule (upd_sched (upd_sem i (\<lambda>sem. sem\<lparr>sem_value := ucast v\<rparr>)) k1)) (\<lambda>k2.
         Inr (RT_EOK, k2))))"

end
