(* ===== verification/Boot.thy ===== *)
theory Boot
  imports Ipc_Sem
begin

text \<open>
  The start of the kernel (\<open>rt-thread/src/components.c\<close>), the threads it starts itself: the idle
  thread with its hooks and the removal of dead threads (\<open>idle.c\<close>), and the thread of the soft
  timers (\<open>timer.c\<close>); and the tick interrupt (\<open>libraries/HAL_Drivers/drv_common.c\<close>).
\<close>

section \<open>The idle thread\<close>

text \<open>The table of hooks has \<open>RT_IDLE_HOOK_LIST_SIZE\<close> = 4 entries; a hook is its address.\<close>

fun first_slot :: "nat option \<Rightarrow> nat option list \<Rightarrow> nat option" where
  "first_slot v [] = None"
| "first_slot v (h # hs) = (if h = v then Some 0 else map_option Suc (first_slot v hs))"

definition rt_thread_idle_sethook :: "nat \<Rightarrow> nat option list \<Rightarrow> int \<times> nat option list" where
  "rt_thread_idle_sethook hook hs =
     (case first_slot None hs of None \<Rightarrow> (- RT_EFULL, hs) | Some i \<Rightarrow> (RT_EOK, hs[i := Some hook]))"

definition rt_thread_idle_delhook :: "nat \<Rightarrow> nat option list \<Rightarrow> int \<times> nat option list" where
  "rt_thread_idle_delhook hook hs =
     (case first_slot (Some hook) hs of None \<Rightarrow> (- RT_ENOSYS, hs) | Some i \<Rightarrow> (RT_EOK, hs[i := None]))"

text \<open>A dead thread leaves the list; its cleanup function runs with the scheduler locked. A static
  one is detached and the loop ends; the memory of another is released.\<close>

definition drop_object :: "nat \<Rightarrow> kernel \<Rightarrow> kernel" where
  "drop_object t k = upd_sched (upd_thread t (\<lambda>th. th\<lparr>th_object := False\<rparr>)) k"

partial_function (option) rt_thread_idle_excute ::
    "(nat \<Rightarrow> kernel \<Rightarrow> kernel res) \<Rightarrow> kernel \<Rightarrow> kernel res option" where
  "rt_thread_idle_excute cleanup k =
     (if rt_list_isempty Defunct (sc_links (client k)) then Some (Inr k)
      else if interrupt_nest (client k) \<noteq> 0 then Some (Inl Assert_Failed)
      else (case nxt (sc_links (client k)) Defunct of
          Thread t \<Rightarrow>
            (let k1 = upd_sched rt_enter_critical (upd_sched (upd_sc_links (rt_list_remove (Thread t))) k) in
             case (if th_cleanup (threads (client k1) t) then cleanup t k1 else Inr k1) of
               Inl e \<Rightarrow> Some (Inl e)
             | Inr k2 \<Rightarrow>
                 (if th_static (threads (client k2) t) then Some (on_sched rt_exit_critical (drop_object t k2))
                  else (case on_sched rt_exit_critical k2 of
                      Inl e \<Rightarrow> Some (Inl e)
                    | Inr k3 \<Rightarrow> rt_thread_idle_excute cleanup (drop_object t k3))))
        | _ \<Rightarrow> Some (Inl Out_Of_Bounds)))"

definition rt_thread_idle_init :: "nat \<Rightarrow> nat \<Rightarrow> bool \<Rightarrow> kernel \<Rightarrow> kernel res" where
  "rt_thread_idle_init t tm stack_ok k =
     bindE (rt_thread_init t tm 31 32 stack_ok k) (\<lambda>(_, k1).
     bindE (rt_thread_startup t k1) (\<lambda>(_, k2). Inr k2))"

section \<open>The thread of the soft timers\<close>

text \<open>One timer of the soft list: out of the list, its function with the scheduler unlocked, and
  started again when it is periodic. The tick read after the function goes with the result.\<close>

definition soft_fire :: "(nat \<Rightarrow> kernel \<Rightarrow> kernel res) \<Rightarrow> nat \<Rightarrow> kernel \<Rightarrow> (u32 \<times> kernel) res" where
  "soft_fire timeout_func t k =
     bindE (on_sched rt_exit_critical (rt_timer_remove t k)) (\<lambda>k1.
     bindE (timeout_func t k1) (\<lambda>k2.
     let now = rt_tick k2;
         k3 = upd_sched rt_enter_critical k2;
         again = (has_flag RT_TIMER_FLAG_PERIODIC (tm_timer k3 t) \<and> has_flag RT_TIMER_FLAG_ACTIVATED (tm_timer k3 t));
         k4 = upd_timer t (clear_flag RT_TIMER_FLAG_ACTIVATED) k3 in
     if again then bindE (rt_timer_start t k4) (\<lambda>(_, k5). Inr (now, k5)) else Inr (now, k4)))"

text \<open>The walk goes on with the node that was next before the function ran.\<close>

partial_function (option) soft_loop ::
    "(nat \<Rightarrow> kernel \<Rightarrow> kernel res) \<Rightarrow> u32 \<Rightarrow> tnode \<Rightarrow> kernel \<Rightarrow> kernel res option" where
  "soft_loop timeout_func now n k =
     (case n of
        Soft_List \<Rightarrow> Some (Inr k)
      | Hard_List \<Rightarrow> Some (Inl Out_Of_Bounds)
      | Row t \<Rightarrow>
          (if now - timeout_tick (tm_timer k t) < HALF_TICK
           then (case soft_fire timeout_func t k of
               Inl e \<Rightarrow> Some (Inl e)
             | Inr (now', k') \<Rightarrow> soft_loop timeout_func now' (nxt (tm_links k) n) k')
           else Some (Inr k)))"

definition rt_soft_timer_check :: "(nat \<Rightarrow> kernel \<Rightarrow> kernel res) \<Rightarrow> kernel \<Rightarrow> kernel res" where
  "rt_soft_timer_check timeout_func k =
     (let k1 = upd_sched rt_enter_critical k in
      bindE (returns (soft_loop timeout_func (rt_tick k) (nxt (tm_links k1) Soft_List) k1)) (\<lambda>k2.
      on_sched rt_exit_critical k2))"

text \<open>One round of the thread's loop up to where it waits: \<open>Inr True\<close> is that it gave up the processor,
  after which (or at once) it checks its timers.\<close>

definition timer_thread_wait :: "kernel \<Rightarrow> (bool \<times> kernel) res" where
  "timer_thread_wait k =
     bindE (rt_timer_list_next_timeout Soft_List k) (\<lambda>next_timeout.
     if next_timeout = RT_TICK_MAX
     then bindE (self_thread k) (\<lambda>t.
          bindE (rt_thread_suspend t k) (\<lambda>(_, k1).
          bindE (on_sched rt_schedule k1) (\<lambda>k2. Inr (True, k2))))
     else if next_timeout - rt_tick k < HALF_TICK
     then bindE (rt_thread_sleep (next_timeout - rt_tick k) k) (\<lambda>k1. Inr (True, k1))
     else Inr (False, k))"

definition rt_system_timer_thread_init :: "nat \<Rightarrow> nat \<Rightarrow> bool \<Rightarrow> kernel \<Rightarrow> kernel res" where
  "rt_system_timer_thread_init t tm stack_ok k =
     bindE (rt_thread_init t tm 0 10 stack_ok (upd_links (rt_list_init Soft_List) k)) (\<lambda>(_, k1).
     bindE (rt_thread_startup t k1) (\<lambda>(_, k2). Inr k2))"

section \<open>The start\<close>

text \<open>\<open>RT_MAIN_THREAD_PRIORITY\<close> is 10.\<close>

definition rt_application_init :: "(nat \<times> nat) option \<Rightarrow> bool option \<Rightarrow> kernel \<Rightarrow> kernel res" where
  "rt_application_init obj stack k =
     bindE (rt_thread_create obj stack 10 20 k) (\<lambda>(tid, k1).
     case tid of
       None \<Rightarrow> Inl Assert_Failed
     | Some t \<Rightarrow> bindE (rt_thread_startup t k1) (\<lambda>(_, k2). Inr k2))"

text \<open>The arguments are the static threads of the soft timers and of the idle loop, with their
  timers, and what the allocator returns for the main thread. The board's own start is not modelled.\<close>

definition rtthread_startup ::
    "nat \<times> nat \<Rightarrow> nat \<times> nat \<Rightarrow> (nat \<times> nat) option \<Rightarrow> bool option \<Rightarrow> kernel \<Rightarrow> kernel res" where
  "rtthread_startup timer_thread idle obj stack k =
     (let k1 = upd_sched rt_system_scheduler_init (rt_system_timer_init k) in
      bindE (rt_application_init obj stack k1) (\<lambda>k2.
      bindE (rt_system_timer_thread_init (fst timer_thread) (snd timer_thread) True k2) (\<lambda>k3.
      bindE (rt_thread_idle_init (fst idle) (snd idle) True k3) (\<lambda>k4.
      on_sched rt_system_scheduler_start k4))))"

section \<open>The tick interrupt\<close>

definition SysTick_Handler :: "(nat \<Rightarrow> kernel \<Rightarrow> kernel res) \<Rightarrow> kernel \<Rightarrow> kernel res" where
  "SysTick_Handler other k =
     bindE (kernel_tick other (upd_sched rt_interrupt_enter k)) (\<lambda>k1. Inr (upd_sched rt_interrupt_leave k1))"

end
