(* ===== verification/Sched_Lists.thy ===== *)
theory Sched_Lists
  imports Ipc_Sem
begin

text \<open>
  The lists of threads: \<open>sc_lists ls H L T\<close> says that in the links \<open>ls\<close> every head of \<open>H\<close> holds the
  threads \<open>L\<close> gives for it, that no thread is in two lists, and that the threads of \<open>T\<close> that are in
  none link to themselves. A lemma for each change of the lists.
\<close>

definition is_head :: "snode \<Rightarrow> bool" where
  "is_head n \<longleftrightarrow> (\<forall>t. n \<noteq> Thread t)"

lemma is_head_simps [simp]: "is_head (Ready p)" "is_head Defunct" "is_head (Waiters i)" "\<not> is_head (Thread t)"
  by (simp_all add: is_head_def)

lemma head_not_thread: "is_head h \<Longrightarrow> h \<noteq> Thread t"
  by (simp add: is_head_def)

definition sc_lists :: "snode links \<Rightarrow> snode set \<Rightarrow> (snode \<Rightarrow> nat list) \<Rightarrow> nat set \<Rightarrow> bool" where
  "sc_lists ls H L T \<longleftrightarrow> (\<forall>h\<in>H. is_head h \<and> dlist ls h (map Thread (L h)) \<and> set (L h) \<subseteq> T)
     \<and> (\<forall>g\<in>H. \<forall>h\<in>H. g \<noteq> h \<longrightarrow> set (L g) \<inter> set (L h) = {})
     \<and> (\<forall>t\<in>T. (\<forall>h\<in>H. t \<notin> set (L h)) \<longrightarrow> lone ls (Thread t))"

text \<open>The thread is taken out of the list it is in.\<close>

definition off :: "nat \<Rightarrow> (snode \<Rightarrow> nat list) \<Rightarrow> snode \<Rightarrow> nat list" where
  "off t L = (\<lambda>h. remove1 t (L h))"

definition in_no_list :: "snode set \<Rightarrow> (snode \<Rightarrow> nat list) \<Rightarrow> nat \<Rightarrow> bool" where
  "in_no_list H L t \<longleftrightarrow> (\<forall>h\<in>H. t \<notin> set (L h))"

lemma sc_dlist: "sc_lists ls H L T \<Longrightarrow> h \<in> H \<Longrightarrow> dlist ls h (map Thread (L h))"
  by (simp add: sc_lists_def)

lemma sc_distinct: "sc_lists ls H L T \<Longrightarrow> h \<in> H \<Longrightarrow> distinct (L h)"
  by (simp add: sc_lists_def dlist_def distinct_map)

lemma sc_subset: "sc_lists ls H L T \<Longrightarrow> h \<in> H \<Longrightarrow> t \<in> set (L h) \<Longrightarrow> t \<in> T"
  by (auto simp: sc_lists_def)

lemma sc_unique: "sc_lists ls H L T \<Longrightarrow> g \<in> H \<Longrightarrow> h \<in> H \<Longrightarrow> t \<in> set (L g) \<Longrightarrow> t \<in> set (L h) \<Longrightarrow> g = h"
  unfolding sc_lists_def by blast

lemma sc_isempty: "sc_lists ls H L T \<Longrightarrow> h \<in> H \<Longrightarrow> rt_list_isempty h ls \<longleftrightarrow> L h = []"
  using dlist_empty[OF sc_dlist] by fastforce

lemma sc_first: "sc_lists ls H L T \<Longrightarrow> h \<in> H \<Longrightarrow> L h = t # ts \<Longrightarrow> nxt ls h = Thread t"
  using dlist_first[of ls h "Thread t" "map Thread ts"] sc_dlist[of ls H L T h] by simp

lemma in_no_list_off: "sc_lists ls H L T \<Longrightarrow> in_no_list H (off t L) t"
  unfolding in_no_list_def off_def using sc_distinct by (metis set_remove1_eq DiffE singletonI)

lemma set_off: "sc_lists ls H L T \<Longrightarrow> h \<in> H \<Longrightarrow> set (off t L h) = set (L h) - {t}"
  by (simp add: off_def sc_distinct)

lemma off_idem: "in_no_list H L t \<Longrightarrow> h \<in> H \<Longrightarrow> off t L h = L h"
  by (simp add: in_no_list_def off_def remove1_idem)

lemma map_Thread_mem [simp]: "Thread t \<in> Thread ` A \<longleftrightarrow> t \<in> A"
  by auto

lemma sc_cong:
  assumes "sc_lists ls H L T" "\<And>h. h \<in> H \<Longrightarrow> L' h = L h"
  shows "sc_lists ls H L' T"
  using assms unfolding sc_lists_def by simp

lemma sc_remove:
  assumes s: "sc_lists ls H L T" and t: "t \<in> T"
  shows "sc_lists (rt_list_remove (Thread t) ls) H (off t L) T"
proof (cases "in_no_list H L t")
  case True
  then have "rt_list_remove (Thread t) ls = ls"
    using s t by (simp add: sc_lists_def in_no_list_def remove_lone)
  then show ?thesis using sc_cong[OF s] off_idem[OF True] by simp
next
  case False
  define ls' where "ls' = rt_list_remove (Thread t) ls"
  obtain g where g: "g \<in> H" "t \<in> set (L g)" using False by (auto simp: in_no_list_def)
  then obtain us vs where L: "L g = us @ t # vs" by (auto simp: in_set_conv_decomp)
  have o: "off t L h = L h" if "h \<in> H" "h \<noteq> g" for h
    proof -
    have "t \<notin> set (L h)" using sc_unique[OF s g(1) that(1) g(2)] that(2) by blast
    then show ?thesis by (simp add: off_def remove1_idem)
  qed
  have og: "off t L g = us @ vs" using sc_distinct[OF s g(1)] L by (simp add: off_def remove1_append)
  have d: "dlist ls g (map Thread us @ Thread t # map Thread vs)" using sc_dlist[OF s g(1)] L by simp
  have f: "nxt ls' m = nxt ls m \<and> prv ls' m = prv ls m" if "m \<notin> set (g # map Thread (L g))" for m
    using remove_frame[OF d, of m] that L by (auto simp: ls'_def)
  have gh: "is_head g" using s g by (simp add: sc_lists_def)
  have dl: "dlist ls' h (map Thread (off t L h))" if h: "h \<in> H" for h
  proof (cases "h = g")
    case True
    then show ?thesis using remove_dlist[OF d] og by (simp add: ls'_def)
  next
    case False
    have hh: "is_head h" using s h by (simp add: sc_lists_def)
    have dj: "set (L h) \<inter> set (L g) = {}" using s h g False by (simp add: sc_lists_def)
    have "nxt ls' n = nxt ls n \<and> prv ls' n = prv ls n" if "n \<in> set (h # map Thread (L h))" for n
      using that dj False gh hh by (intro f) (auto simp: is_head_def)
    then have "dlist ls' h (map Thread (L h)) = dlist ls h (map Thread (L h))" by (rule dlist_cong)
    then show ?thesis using sc_dlist[OF s h] o[OF h False] by simp
  qed
  have lo: "lone ls' (Thread q)" if q: "q \<in> T" "\<forall>h\<in>H. q \<notin> set (off t L h)" for q
  proof (cases "q = t")
    case True
    then show ?thesis using remove_is_lone[of "Thread t" ls] by (simp add: ls'_def)
  next
    case False
    then have n: "\<forall>h\<in>H. q \<notin> set (L h)" using q set_off[OF s] by auto
    then have "lone ls (Thread q)" using s q(1) by (simp add: sc_lists_def)
    then show ?thesis using f[of "Thread q"] n g head_not_thread[OF gh, of q] by (auto simp: lone_def)
  qed
  have sb: "set (off t L h) \<subseteq> set (L h)" for h by (simp add: off_def set_remove1_subset)
  show ?thesis
    unfolding sc_lists_def ls'_def[symmetric]
  proof (intro conjI ballI impI)
    fix h assume h: "h \<in> H"
    then have "is_head h" "set (L h) \<subseteq> T" using s by (simp_all add: sc_lists_def)
    then show "is_head h" "dlist ls' h (map Thread (off t L h))" "set (off t L h) \<subseteq> T"
      using dl[OF h] sb[of h] by auto
  next
    fix h k assume "h \<in> H" "k \<in> H" "h \<noteq> k"
    then show "set (off t L h) \<inter> set (off t L k) = {}" using s sb unfolding sc_lists_def by blast
  next
    fix q assume "q \<in> T" "\<forall>h\<in>H. q \<notin> set (off t L h)"
    then show "lone ls' (Thread q)" by (rule lo)
  qed
qed

lemma sc_insert:
  assumes s: "sc_lists ls H L T" and t: "t \<in> T" "in_no_list H L t" and g: "g \<in> H" and L: "L g = us @ vs"
  shows "sc_lists (rt_list_insert_before (hd (map Thread vs @ [g])) (Thread t) ls) H (L(g := us @ t # vs)) T"
proof -
  define b where "b = hd (map Thread vs @ [g])"
  define a where "a = last (g # map Thread us)"
  define ls' where "ls' = rt_list_insert_before b (Thread t) ls"
  have gh: "is_head g" using s g by (simp add: sc_lists_def)
  have d: "dlist ls g (map Thread us @ map Thread vs)" using sc_dlist[OF s g] L by simp
  have "chain ls g (map Thread us) b"
  proof (cases vs)
    case Nil
    then show ?thesis using d by (simp add: dlist_def b_def)
  next
    case (Cons v ws)
    then show ?thesis using d by (simp add: dlist_def b_def chain_app)
  qed
  then have pb: "prv ls b = a" by (simp only: chain_ends a_def)
  have na: "nxt ls a = b"
  proof (cases vs)
    case Nil
    then show ?thesis using d unfolding a_def b_def
      by (cases us rule: rev_cases) (simp_all add: dlist_def chain_snoc)
  next
    case (Cons v ws)
    then show ?thesis using dlist_nxt[of ls g "map Thread us" "Thread v" "map Thread ws"] d
      unfolding a_def b_def by simp
  qed
  have nt: "t \<notin> set us" "t \<notin> set vs" using t(2) g L by (auto simp: in_no_list_def)
  have tg: "Thread t \<noteq> g" using gh by (auto simp: is_head_def)
  have "b \<in> set (map Thread vs @ [g])" unfolding b_def by (rule hd_in_set) simp
  then have tb: "Thread t \<noteq> b" using nt tg by auto
  have "a \<in> set (g # map Thread us)" unfolding a_def by (rule last_in_set) simp
  then have ta: "Thread t \<noteq> a" using nt tg by auto
  have ls': "ls' = rt_list_insert_after a (Thread t) ls"
    unfolding ls'_def using insert_before_after[of ls b "Thread t"] pb na ta tb by simp
  have tn: "Thread t \<notin> set (g # map Thread us @ map Thread vs)" using nt tg by auto
  have dg: "dlist ls' g (map Thread (us @ t # vs))"
    using insert_after_dlist[OF d tn] by (simp add: ls' a_def)
  have f: "nxt ls' m = nxt ls m \<and> prv ls' m = prv ls m" if "m \<notin> set (g # map Thread us @ Thread t # map Thread vs)" for m
    using insert_after_frame[OF d that] by (simp add: ls' a_def)
  have dh: "dlist ls' h (map Thread (L h))" if h: "h \<in> H" "h \<noteq> g" for h
  proof -
    have hh: "is_head h" using s h by (simp add: sc_lists_def)
    have dj: "set (L h) \<inter> set (L g) = {}" using s h g by (simp add: sc_lists_def)
    have "t \<notin> set (L h)" using t(2) h(1) by (simp add: in_no_list_def)
    then have "nxt ls' n = nxt ls n \<and> prv ls' n = prv ls n" if "n \<in> set (h # map Thread (L h))" for n
      using that dj h(2) gh hh L by (intro f) (auto simp: is_head_def)
    then have "dlist ls' h (map Thread (L h)) = dlist ls h (map Thread (L h))" by (rule dlist_cong)
    then show ?thesis using sc_dlist[OF s h(1)] by simp
  qed
  show ?thesis
    unfolding sc_lists_def b_def[symmetric] ls'_def[symmetric]
  proof (intro conjI ballI impI)
    fix h assume h: "h \<in> H"
    have "set (us @ vs) \<subseteq> T" using s g L by (metis sc_lists_def)
    then show "is_head h" "set ((L(g := us @ t # vs)) h) \<subseteq> T"
      using s t(1) h by (auto simp: sc_lists_def)
    show "dlist ls' h (map Thread ((L(g := us @ t # vs)) h))" using dg dh[OF h] by auto
  next
    fix h k assume hk: "h \<in> H" "k \<in> H" "h \<noteq> k"
    then have "set (L h) \<inter> set (L k) = {}" "t \<notin> set (L h)" "t \<notin> set (L k)"
      using s t(2) by (simp_all add: sc_lists_def in_no_list_def)
    then show "set ((L(g := us @ t # vs)) h) \<inter> set ((L(g := us @ t # vs)) k) = {}"
      using hk L by auto
  next
    fix q assume q: "q \<in> T" "\<forall>h\<in>H. q \<notin> set ((L(g := us @ t # vs)) h)"
    then have "q \<noteq> t" "q \<notin> set (us @ vs)" using g by auto
    moreover have "\<forall>h\<in>H. q \<notin> set (L h)" using q L by (metis fun_upd_apply Un_iff set_append list.set_intros(2))
    then have "lone ls (Thread q)" using s q(1) by (simp add: sc_lists_def)
    ultimately show "lone ls' (Thread q)"
      using f[of "Thread q"] head_not_thread[OF gh, of q] by (auto simp: lone_def)
  qed
qed

lemma sc_append:
  assumes "sc_lists ls H L T" "t \<in> T" "in_no_list H L t" "g \<in> H"
  shows "sc_lists (rt_list_insert_before g (Thread t) ls) H (L(g := L g @ [t])) T"
  using sc_insert[OF assms, of "L g" "[]"] by simp

text \<open>A new empty list, a new thread, and a list that is given up.\<close>

lemma sc_init_head:
  assumes s: "sc_lists ls H L T" and h: "h \<notin> H" "is_head h"
  shows "sc_lists (rt_list_init h ls) (insert h H) (L(h := [])) T"
proof -
  have "dlist (rt_list_init h ls) g (map Thread (L g)) = dlist ls g (map Thread (L g))" if "g \<in> H" for g
    using that h by (intro dlist_cong) (auto simp: rt_list_init_def is_head_def)
  moreover have "lone (rt_list_init h ls) (Thread t) = lone ls (Thread t)" for t
    using rt_list_init_other[of "Thread t" h ls] head_not_thread[OF h(2), of t] by (auto simp: lone_def)
  ultimately show ?thesis using s h rt_list_init_dlist[of h ls] unfolding sc_lists_def by auto
qed

lemma sc_drop_head:
  assumes "sc_lists ls H L T" "L h = []"
  shows "sc_lists ls (H - {h}) L T"
  using assms unfolding sc_lists_def by (metis Diff_iff empty_iff empty_set singletonD)

lemma sc_init_thread:
  assumes s: "sc_lists ls H L T" and t: "t \<notin> T"
  shows "sc_lists (rt_list_init (Thread t) ls) H L (insert t T)"
proof -
  have "dlist (rt_list_init (Thread t) ls) g (map Thread (L g)) = dlist ls g (map Thread (L g))" if "g \<in> H" for g
    using that s t by (intro dlist_cong) (auto simp: rt_list_init_def is_head_def sc_lists_def)
  moreover have "lone (rt_list_init (Thread t) ls) (Thread q)" if "q = t \<or> lone ls (Thread q)" for q
    using that by (auto simp: lone_def rt_list_init_def)
  ultimately show ?thesis using s t unfolding sc_lists_def by (metis insert_iff subset_insertI2)
qed

section \<open>A list is what its links say\<close>

lemma chain_det: "chain s a xs b \<Longrightarrow> chain s a ys b \<Longrightarrow> b \<notin> set xs \<Longrightarrow> b \<notin> set ys \<Longrightarrow> xs = ys"
proof (induction xs arbitrary: a ys)
  case Nil
  then show ?case by (cases ys) auto
next
  case (Cons x xs)
  then show ?case by (cases ys) auto
qed

lemma dlist_det: "dlist s h xs \<Longrightarrow> dlist s h ys \<Longrightarrow> xs = ys"
  by (rule chain_det[of s h xs h ys]) (auto simp: dlist_def)

lemma dlist_threads: "dlist s h (map Thread ws) \<Longrightarrow> dlist s h (map Thread vs) \<Longrightarrow> ws = vs"
  using dlist_det[of s h "map Thread ws" "map Thread vs"] by (simp add: inj_map_eq_map inj_on_def)

end
