(* ===== verification/Sched_Facts.thy ===== *)
theory Sched_Facts
  imports Sched_Lists
begin

text \<open>
  The scheduler on well-formed lists. \<open>sched_core\<close>: the bit of a priority is set exactly when a
  thread of it is ready, and a thread's state is the one its list stands for; \<open>sched_ok\<close> adds that
  the ready threads are in their lists and that only the current thread runs. A lemma for each
  operation says what becomes of the lists; \<open>rt_schedule_ok\<close> is the choice of the thread.
\<close>

unbundle bit_operations_syntax

section \<open>Threads and their state\<close>

abbreviation st :: "sched \<Rightarrow> nat \<Rightarrow> u8" where
  "st s t \<equiv> stat_of (threads s t)"

abbreviation prio :: "sched \<Rightarrow> nat \<Rightarrow> nat" where
  "prio s t \<equiv> unat (current_priority (threads s t))"

lemma sc_simps [simp]:
  "sc_links (upd_sc_links f s) = f (sc_links s)" "ready_group (upd_sc_links f s) = ready_group s"
  "threads (upd_sc_links f s) = threads s" "timer_param (upd_sc_links f s) = timer_param s"
  "current_thread (upd_sc_links f s) = current_thread s" "lock_nest (upd_sc_links f s) = lock_nest s"
  "interrupt_nest (upd_sc_links f s) = interrupt_nest s" "sems (upd_sc_links f s) = sems s"
  "sc_links (upd_thread t g s) = sc_links s" "ready_group (upd_thread t g s) = ready_group s"
  "threads (upd_thread t g s) = (threads s)(t := g (threads s t))" "timer_param (upd_thread t g s) = timer_param s"
  "current_thread (upd_thread t g s) = current_thread s" "lock_nest (upd_thread t g s) = lock_nest s"
  "interrupt_nest (upd_thread t g s) = interrupt_nest s" "sems (upd_thread t g s) = sems s"
  by (simp_all add: upd_sc_links_def upd_thread_def)

lemma mask_split: "(v OR (x AND k)) AND (m :: u8) = (v AND m) OR (x AND (k AND m))"
  by (rule bit_eqI) (auto simp: bit_simps)

lemma stat_set: "v AND 7 = v \<Longrightarrow> stat_of (set_stat v th) = v"
  by (simp add: stat_of_def set_stat_def mask_split)

lemma set_stat_idem: "stat_of th = v \<Longrightarrow> set_stat v th = th"
proof -
  assume "stat_of th = v"
  then have "v OR (th_stat th AND NOT 7) = th_stat th"
    unfolding stat_of_def by (intro bit_eqI) (auto simp: bit_simps)
  then show ?thesis by (cases th) (simp add: set_stat_def)
qed

lemma set_stat_simps [simp]:
  "th_object (set_stat v th) = th_object th" "stack_intact (set_stat v th) = stack_intact th"
  "init_priority (set_stat v th) = init_priority th"
  "current_priority (set_stat v th) = current_priority th" "number_mask (set_stat v th) = number_mask th"
  "th_timer (set_stat v th) = th_timer th" "th_error (set_stat v th) = th_error th"
  "remaining_tick (set_stat v th) = remaining_tick th" "th_init_tick (set_stat v th) = th_init_tick th"
  by (simp_all add: set_stat_def)

lemma yields_set: "v AND 8 = 0 \<Longrightarrow> yields (set_stat v th) = yields th"
  by (simp add: yields_def set_stat_def mask_split)

lemma clear_yield: "stat_of (th\<lparr>th_stat := th_stat th AND NOT 8\<rparr>) = stat_of th"
proof -
  have "(th_stat th AND NOT 8) AND 7 = th_stat th AND (NOT 8 AND 7)" by (simp only: and.assoc)
  also have "(NOT 8 AND 7 :: u8) = 7" by simp
  finally show ?thesis by (cases th) (simp only: stat_of_def rt_thread.simps)
qed

lemma set_yield: "stat_of (th\<lparr>th_stat := th_stat th OR 8\<rparr>) = stat_of th"
proof -
  have "(th_stat th OR 8) AND 7 = (th_stat th AND 7) OR (8 AND 7)" by (simp only: bit.conj_disj_distrib2)
  then show ?thesis by (simp add: stat_of_def)
qed

section \<open>The lowest bit\<close>

lemma rt_ffs_low:
  assumes "w \<noteq> 0"
  shows "rt_ffs w - 1 < 32 \<and> bit w (rt_ffs w - 1) \<and> (\<forall>q < rt_ffs w - 1. \<not> bit w q)"
proof -
  obtain n where "bit w n" using assms by (auto simp: bit_eq_iff)
  then have n: "n < 32" "bit w n" using bit_imp_le_length[of w n] by auto
  define xs where "xs = filter (bit w) [0..<32]"
  have "n \<in> set xs" using n by (simp add: xs_def)
  then obtain x ys where xs: "xs = x # ys" by (cases xs) auto
  have "x \<in> set xs" using xs by simp
  moreover have "sorted xs" unfolding xs_def by (intro sorted_wrt_filter) simp
  then have "\<forall>y\<in>set xs. x \<le> y" using xs by auto
  moreover have "q \<in> set xs" if "q < x" "bit w q" "x < 32" for q using that by (simp add: xs_def)
  ultimately have "x < 32" "bit w x" "\<forall>q<x. \<not> bit w q"
    by (simp_all add: xs_def) (meson leD order.strict_trans)
  moreover have "rt_ffs w = Suc x" using xs by (simp add: rt_ffs_def xs_def)
  ultimately show ?thesis by simp
qed

section \<open>The invariant\<close>

definition heads :: "sched \<Rightarrow> snode set" where
  "heads s = Ready ` {..<32} \<union> {Defunct} \<union> Waiters ` dom (sems s)"

lemma heads_simps [simp]:
  "Ready p \<in> heads s \<longleftrightarrow> p < 32" "Defunct \<in> heads s" "Waiters i \<in> heads s \<longleftrightarrow> sems s i \<noteq> None"
  "Thread t \<notin> heads s"
  by (auto simp: heads_def)

fun head_stat :: "snode \<Rightarrow> u8" where
  "head_stat (Ready p) = RT_THREAD_READY"
| "head_stat Defunct = RT_THREAD_CLOSE"
| "head_stat (Waiters i) = RT_THREAD_SUSPEND"
| "head_stat (Thread t) = RT_THREAD_INIT"

definition masked :: "rt_thread \<Rightarrow> bool" where
  "masked th \<longleftrightarrow> number_mask th = push_bit (unat (current_priority th)) 1"

definition th_ok :: "rt_thread \<Rightarrow> bool" where
  "th_ok th \<longleftrightarrow> th_object th \<and> stack_intact th \<and> unat (current_priority th) < 32
     \<and> unat (init_priority th) < 32
     \<and> (stat_of th \<in> {RT_THREAD_READY, RT_THREAD_RUNNING, RT_THREAD_SUSPEND} \<longrightarrow> masked th)"

definition sched_core :: "sched \<Rightarrow> (snode \<Rightarrow> nat list) \<Rightarrow> nat set \<Rightarrow> bool" where
  "sched_core s L T \<longleftrightarrow> sc_lists (sc_links s) (heads s) L T
     \<and> (\<forall>p<32. bit (ready_group s) p \<longleftrightarrow> L (Ready p) \<noteq> [])
     \<and> (\<forall>t\<in>T. th_ok (threads s t))
     \<and> (\<forall>h\<in>heads s. \<forall>t\<in>set (L h). st s t = head_stat h)
     \<and> (\<forall>p<32. \<forall>t\<in>set (L (Ready p)). prio s t = p)"

definition sched_ok :: "sched \<Rightarrow> (snode \<Rightarrow> nat list) \<Rightarrow> nat set \<Rightarrow> bool" where
  "sched_ok s L T \<longleftrightarrow> sched_core s L T
     \<and> (\<forall>t\<in>T. st s t = RT_THREAD_READY \<longrightarrow> t \<in> set (L (Ready (prio s t))))
     \<and> (\<forall>t\<in>T. st s t = RT_THREAD_RUNNING \<longrightarrow> current_thread s = Some t)
     \<and> (\<forall>c. current_thread s = Some c \<longrightarrow> st s c \<noteq> RT_THREAD_READY \<and> st s c \<noteq> RT_THREAD_INIT
          \<and> (st s c = RT_THREAD_RUNNING \<longrightarrow> c \<in> T))"

lemma core_lists: "sched_core s L T \<Longrightarrow> sc_lists (sc_links s) (heads s) L T"
  by (simp add: sched_core_def)

lemma core_thread: "sched_core s L T \<Longrightarrow> t \<in> T \<Longrightarrow> th_ok (threads s t)"
  by (simp add: sched_core_def)

lemma core_stat: "sched_core s L T \<Longrightarrow> h \<in> heads s \<Longrightarrow> t \<in> set (L h) \<Longrightarrow> st s t = head_stat h"
  by (simp add: sched_core_def)

lemma core_prio: "sched_core s L T \<Longrightarrow> p < 32 \<Longrightarrow> t \<in> set (L (Ready p)) \<Longrightarrow> prio s t = p"
  by (simp add: sched_core_def)

lemma ok_core: "sched_ok s L T \<Longrightarrow> sched_core s L T"
  by (simp add: sched_ok_def)

lemma ok_ready: "sched_ok s L T \<Longrightarrow> t \<in> T \<Longrightarrow> st s t = RT_THREAD_READY \<Longrightarrow> t \<in> set (L (Ready (prio s t)))"
  unfolding sched_ok_def by blast

lemma ok_running: "sched_ok s L T \<Longrightarrow> t \<in> T \<Longrightarrow> st s t = RT_THREAD_RUNNING \<Longrightarrow> current_thread s = Some t"
  unfolding sched_ok_def by blast

lemma ok_current:
  assumes "sched_ok s L T" "current_thread s = Some c"
  shows "st s c \<noteq> RT_THREAD_READY" "st s c \<noteq> RT_THREAD_INIT" "st s c = RT_THREAD_RUNNING \<Longrightarrow> c \<in> T"
  using assms unfolding sched_ok_def by blast+

lemma sched_okI:
  assumes "sched_core s L T"
    "\<And>t. t \<in> T \<Longrightarrow> st s t = RT_THREAD_READY \<Longrightarrow> t \<in> set (L (Ready (prio s t)))"
    "\<And>t. t \<in> T \<Longrightarrow> st s t = RT_THREAD_RUNNING \<Longrightarrow> current_thread s = Some t"
    "\<And>c. current_thread s = Some c \<Longrightarrow> st s c \<noteq> RT_THREAD_READY \<and> st s c \<noteq> RT_THREAD_INIT
      \<and> (st s c = RT_THREAD_RUNNING \<longrightarrow> c \<in> T)"
  shows "sched_ok s L T"
  using assms unfolding sched_ok_def by blast

lemma no_list_if_stat:
  assumes "sched_core s L T" "st s t \<in> {RT_THREAD_INIT, RT_THREAD_RUNNING}"
  shows "in_no_list (heads s) L t"
proof -
  have "t \<notin> set (L h)" if "h \<in> heads s" for h
  proof
    assume "t \<in> set (L h)"
    then have "st s t = head_stat h" using assms that by (auto simp: sched_core_def)
    then show False using assms(2) that by (cases h) auto
  qed
  then show ?thesis by (simp add: in_no_list_def)
qed

lemma group_zero:
  assumes c: "sched_core s L T"
  shows "ready_group s = 0 \<longleftrightarrow> (\<forall>p<32. L (Ready p) = [])"
proof
  assume "ready_group s = 0"
  then show "\<forall>p<32. L (Ready p) = []" using c by (simp add: sched_core_def)
next
  assume a: "\<forall>p<32. L (Ready p) = []"
  show "ready_group s = 0"
  proof (rule ccontr)
    assume "ready_group s \<noteq> 0"
    from rt_ffs_low[OF this] show False using a c by (auto simp: sched_core_def)
  qed
qed

lemma get_highest_ok:
  assumes c: "sched_core s L T" and g: "ready_group s \<noteq> 0"
  obtains t p ts where "get_highest_priority_thread s = Inr (t, p)" "p < 32" "L (Ready p) = t # ts"
    "\<forall>q<p. L (Ready q) = []"
proof -
  define p where "p = rt_ffs (ready_group s) - 1"
  have p: "p < 32" "bit (ready_group s) p" "\<forall>q<p. \<not> bit (ready_group s) q"
    using rt_ffs_low[OF g] by (simp_all add: p_def)
  then obtain t ts where L: "L (Ready p) = t # ts" using c by (cases "L (Ready p)") (auto simp: sched_core_def)
  have "nxt (sc_links s) (Ready p) = Thread t" using sc_first[OF core_lists[OF c] _ L] p by simp
  then have "get_highest_priority_thread s = Inr (t, p)"
    using g unfolding get_highest_priority_thread_def by (simp only: Let_def flip: p_def) simp
  moreover have "\<forall>q<p. L (Ready q) = []" using p c by (auto simp: sched_core_def)
  ultimately show thesis using that p L by blast
qed

section \<open>Changes of the lists\<close>

text \<open>Only the lists and the mask of the priorities change.\<close>

definition relinked :: "sched \<Rightarrow> sched \<Rightarrow> bool" where
  "relinked s s' \<longleftrightarrow> s' = s\<lparr>sc_links := sc_links s', ready_group := ready_group s'\<rparr>"

lemma relinkedD:
  assumes "relinked s s'"
  shows "threads s' = threads s" "timer_param s' = timer_param s" "current_thread s' = current_thread s"
    "lock_nest s' = lock_nest s" "interrupt_nest s' = interrupt_nest s" "sems s' = sems s" "heads s' = heads s"
  using assms by (cases s; cases s'; simp add: relinked_def heads_def)+

lemma core_upd_thread:
  assumes c: "sched_core s L T" and n: "in_no_list (heads s) L t" and k: "t \<in> T \<Longrightarrow> th_ok (f (threads s t))"
  shows "sched_core (upd_thread t f s) L T"
proof -
  have h: "heads (upd_thread t f s) = heads s" by (simp add: heads_def)
  have "x \<noteq> t" if "x \<in> set (L h)" "h \<in> heads s" for x h using that n by (auto simp: in_no_list_def)
  then show ?thesis using c k unfolding sched_core_def h by (auto simp: Ball_def)
qed

lemma core_cong_current: "sched_core (s\<lparr>rt_current_priority := q, current_thread := c\<rparr>) L T = sched_core s L T"
  by (simp add: sched_core_def heads_def)

lemma core_remove:
  assumes c: "sched_core s L T" and t: "t \<in> T" "masked (threads s t) \<or> number_mask (threads s t) = 0 \<and> in_no_list (heads s) L t"
  obtains s' where "rt_schedule_remove_thread t s = Inr s'" "sched_core s' (off t L) T" "relinked s s'"
proof -
  define p where "p = prio s t"
  have p: "p < 32" using core_thread[OF c t(1)] by (simp add: th_ok_def p_def)
  define s1 where "s1 = upd_sc_links (rt_list_remove (Thread t)) s"
  define s' where "s' = (if off t L (Ready p) = []
    then s1\<lparr>ready_group := ready_group s1 AND NOT (number_mask (threads s t))\<rparr> else s1)"
  have l: "sc_lists (sc_links s1) (heads s) (off t L) T"
    using sc_remove[OF core_lists[OF c] t(1)] by (simp add: s1_def)
  have "rt_list_isempty (Ready p) (sc_links s1) \<longleftrightarrow> off t L (Ready p) = []"
    using sc_isempty[OF l, of "Ready p"] p by simp
  then have r: "rt_schedule_remove_thread t s = Inr s'"
    using p unfolding rt_schedule_remove_thread_def
    by (simp add: Let_def ready_head_def s1_def[symmetric] s'_def p_def)
  have rel: "relinked s s'" by (cases s) (simp add: relinked_def s'_def s1_def upd_sc_links_def)
  have other: "off t L (Ready q) = L (Ready q)" if "q < 32" "q \<noteq> p" for q
  proof -
    have "t \<notin> set (L (Ready q))" using c that by (auto simp: sched_core_def p_def)
    then show ?thesis by (simp add: off_def remove1_idem)
  qed
  have same: "bit (ready_group s) q \<longleftrightarrow> L (Ready q) \<noteq> []" if "q < 32" for q
    using c that by (simp add: sched_core_def)
  have bits: "bit (ready_group s') q \<longleftrightarrow> off t L (Ready q) \<noteq> []" if q: "q < 32" for q
  proof (cases "masked (threads s t)")
    case True
    then have "number_mask (threads s t) = push_bit p 1" by (simp add: masked_def p_def)
    then have "bit (number_mask (threads s t)) q \<longleftrightarrow> q = p" using q p by (auto simp: bit_simps)
    moreover have "off t L (Ready p) \<noteq> [] \<Longrightarrow> L (Ready p) \<noteq> []" by (auto simp: off_def)
    ultimately show ?thesis
      using q same[OF q] other[of q] by (auto simp: s'_def s1_def bit_simps)
  next
    case False
    then have "number_mask (threads s t) = 0" "in_no_list (heads s) L t" using t(2) by simp_all
    then show ?thesis using q same[OF q] off_idem[of "heads s" L t "Ready q"] by (auto simp: s'_def s1_def)
  qed
  have sub: "set (off t L h) \<subseteq> set (L h)" for h by (simp add: off_def set_remove1_subset)
  have "sc_links s' = sc_links s1" by (simp add: s'_def)
  then have "sched_core s' (off t L) T"
    using c l bits sub relinkedD[OF rel] unfolding sched_core_def by (auto dest!: subsetD[OF sub])
  then show thesis using that r rel by blast
qed

lemma core_insert:
  assumes c: "sched_core s L T" and t: "t \<in> T" "in_no_list (heads s) L t" "masked (threads s t)"
    and cur: "current_thread s \<noteq> Some t"
  obtains s' where "rt_schedule_insert_thread t s = Inr s'"
    "sched_core s' (L(Ready (prio s t) := L (Ready (prio s t)) @ [t])) T"
    "relinked (upd_thread t (set_stat RT_THREAD_READY) s) s'"
proof -
  define p where "p = prio s t"
  define L' where "L' = L(Ready p := L (Ready p) @ [t])"
  define s1 where "s1 = upd_thread t (set_stat RT_THREAD_READY) s"
  define s2 where "s2 = upd_sc_links (rt_list_insert_before (Ready p) (Thread t)) s1"
  define s' where "s' = s2\<lparr>ready_group := ready_group s2 OR number_mask (threads s t)\<rparr>"
  have k: "th_ok (threads s t)" using core_thread[OF c t(1)] .
  then have p: "p < 32" by (simp add: th_ok_def p_def)
  have st1: "stat_of (set_stat RT_THREAD_READY (threads s t)) = RT_THREAD_READY" by (rule stat_set) simp
  have c1: "sched_core s1 L T"
    unfolding s1_def using k t(3) by (intro core_upd_thread[OF c t(2)]) (simp add: th_ok_def masked_def)
  have h1: "heads s1 = heads s" by (simp add: s1_def heads_def)
  have l: "sc_lists (sc_links s2) (heads s) L' T"
    using sc_append[OF core_lists[OF c1] t(1), of "Ready p"] t(2) p by (simp add: s2_def L'_def h1)
  have r: "rt_schedule_insert_thread t s = Inr s'"
    using cur p unfolding rt_schedule_insert_thread_def
    by (simp add: Let_def ready_head_def p_def[symmetric] s'_def s2_def s1_def)
  have rel: "relinked s1 s'" by (cases s) (simp add: relinked_def s'_def s2_def s1_def upd_sc_links_def upd_thread_def)
  have "number_mask (threads s t) = push_bit p 1" using t(3) by (simp add: masked_def p_def)
  then have "bit (number_mask (threads s t)) q \<longleftrightarrow> q = p" if "q < 32" for q
    using that p by (auto simp: bit_simps)
  then have bits: "\<forall>q<32. bit (ready_group s') q \<longleftrightarrow> L' (Ready q) \<noteq> []"
    using c by (auto simp: sched_core_def s'_def s2_def s1_def bit_simps L'_def)
  have th: "threads s' = (threads s)(t := set_stat RT_THREAD_READY (threads s t))" by (simp add: s'_def s2_def s1_def)
  have hs: "heads s' = heads s" using relinkedD(7)[OF rel] h1 by simp
  have stats: "\<forall>h\<in>heads s. \<forall>x\<in>set (L' h). stat_of (threads s' x) = head_stat h"
  proof (intro ballI)
    fix h x assume h: "h \<in> heads s" "x \<in> set (L' h)"
    show "stat_of (threads s' x) = head_stat h"
    proof (cases "x = t")
      case True
      then have "h = Ready p" using h t(2) by (auto simp: L'_def in_no_list_def split: if_splits)
      then show ?thesis using True st1 th by simp
    next
      case False
      then have "x \<in> set (L h)" using h(2) by (auto simp: L'_def split: if_splits)
      then show ?thesis using core_stat[OF c h(1)] th False by simp
    qed
  qed
  have prios: "\<forall>q<32. \<forall>x\<in>set (L' (Ready q)). prio s' x = q"
    using c th by (auto simp: L'_def sched_core_def p_def)
  have "\<forall>x\<in>T. th_ok (threads s' x)" using c1 th by (auto simp: sched_core_def s1_def)
  moreover have "sc_links s' = sc_links s2" by (simp add: s'_def)
  ultimately have "sched_core s' L' T"
    using l bits stats prios unfolding sched_core_def hs by simp
  then show thesis using that r rel by (simp add: L'_def p_def s1_def)
qed

section \<open>The choice of the thread\<close>

definition same_but_stat :: "sched \<Rightarrow> sched \<Rightarrow> bool" where
  "same_but_stat s s' \<longleftrightarrow> sems s' = sems s \<and> timer_param s' = timer_param s \<and> lock_nest s' = lock_nest s
     \<and> interrupt_nest s' = interrupt_nest s
     \<and> (\<forall>t. \<exists>v. threads s' t = (threads s t)\<lparr>th_stat := v\<rparr>)"

lemma same_stat: "th\<lparr>th_stat := th_stat th\<rparr> = (th :: rt_thread)"
  by (cases th) simp

lemma same_stat_ex: "\<exists>v. (th :: rt_thread) = th\<lparr>th_stat := v\<rparr>"
  by (metis same_stat)

lemma same_but_stat_refl [simp]: "same_but_stat s s"
  unfolding same_but_stat_def by (metis same_stat)

lemma same_but_statD:
  assumes "same_but_stat s s'"
  shows "sems s' = sems s" "timer_param s' = timer_param s" "lock_nest s' = lock_nest s"
    "interrupt_nest s' = interrupt_nest s" "heads s' = heads s"
  using assms by (simp_all add: same_but_stat_def heads_def)

lemma same_but_stat_thread:
  assumes "same_but_stat s s'"
  shows "current_priority (threads s' t) = current_priority (threads s t)"
    "init_priority (threads s' t) = init_priority (threads s t)"
    "th_error (threads s' t) = th_error (threads s t)" "th_timer (threads s' t) = th_timer (threads s t)"
    "remaining_tick (threads s' t) = remaining_tick (threads s t)"
    "th_init_tick (threads s' t) = th_init_tick (threads s t)"
proof -
  obtain v where "threads s' t = (threads s t)\<lparr>th_stat := v\<rparr>" using assms by (auto simp: same_but_stat_def)
  then show "current_priority (threads s' t) = current_priority (threads s t)"
    "init_priority (threads s' t) = init_priority (threads s t)"
    "th_error (threads s' t) = th_error (threads s t)" "th_timer (threads s' t) = th_timer (threads s t)"
    "remaining_tick (threads s' t) = remaining_tick (threads s t)"
    "th_init_tick (threads s' t) = th_init_tick (threads s t)"
    by simp_all
qed

text \<open>The running thread keeps the processor.\<close>

definition keeps_running :: "sched \<Rightarrow> (snode \<Rightarrow> nat list) \<Rightarrow> nat \<Rightarrow> bool" where
  "keeps_running s L c \<longleftrightarrow> lock_nest s \<noteq> 0 \<or> (\<forall>p<32. L (Ready p) = [])
     \<or> st s c = RT_THREAD_RUNNING \<and> (\<forall>p<32. L (Ready p) \<noteq> [] \<longrightarrow>
         prio s c \<le> p \<and> (prio s c = p \<longrightarrow> \<not> yields (threads s c)))"

text \<open>The lists when the processor goes from \<open>c\<close> to \<open>t\<close>.\<close>

definition handed_over :: "sched \<Rightarrow> (snode \<Rightarrow> nat list) \<Rightarrow> nat \<Rightarrow> nat \<Rightarrow> snode \<Rightarrow> nat list" where
  "handed_over s L c t = off t (if st s c = RT_THREAD_RUNNING
     then L(Ready (prio s c) := L (Ready (prio s c)) @ [c]) else L)"

lemma schedule_same:
  assumes ok: "sched_ok s L T" and c: "current_thread s = Some c" and k: "keeps_running s L c"
  shows "rt_schedule s = Inr s"
proof (cases "lock_nest s \<noteq> 0 \<or> ready_group s = 0")
  case True
  then show ?thesis by (auto simp: rt_schedule_def)
next
  case False
  have co: "sched_core s L T" using ok by (rule ok_core)
  have g: "ready_group s \<noteq> 0" using False by simp
  obtain t p ts where t: "get_highest_priority_thread s = Inr (t, p)" "p < 32" "L (Ready p) = t # ts"
    "\<forall>q<p. L (Ready q) = []" by (rule get_highest_ok[OF co g])
  have run: "st s c = RT_THREAD_RUNNING" "prio s c \<le> p" "prio s c = p \<longrightarrow> \<not> yields (threads s c)"
    using k False t group_zero[OF co] by (auto simp: keeps_running_def)
  have cT: "c \<in> T" using ok c run(1) by (simp add: sched_ok_def)
  have th: "th_ok (threads s c)" using core_thread[OF co cT] .
  have n: "in_no_list (heads s) L c" using no_list_if_stat[OF co] run(1) by simp
  have m: "masked (threads s c)" using th run(1) by (simp add: th_ok_def)
  have "lone (sc_links s) (Thread c)" using core_lists[OF co] n cT by (simp add: sc_lists_def in_no_list_def)
  then have rem: "rt_list_remove (Thread c) (sc_links s) = sc_links s" by (rule remove_lone)
  have pc: "prio s c < 32" using th by (simp add: th_ok_def)
  have "ready_group s AND NOT (number_mask (threads s c)) = ready_group s" if "L (Ready (prio s c)) = []"
  proof -
    have "\<not> bit (ready_group s) (prio s c)" using co pc that by (simp add: sched_core_def)
    then show ?thesis using m by (intro bit_eqI) (auto simp: masked_def bit_simps)
  qed
  moreover have "rt_list_isempty (Ready (prio s c)) (sc_links s) \<longleftrightarrow> L (Ready (prio s c)) = []"
    using sc_isempty[OF core_lists[OF co]] pc by simp
  ultimately have r: "rt_schedule_remove_thread c s = Inr s"
    using pc rem by (simp add: rt_schedule_remove_thread_def ready_head_def upd_sc_links_def Let_def)
  have "upd_thread c (set_stat RT_THREAD_RUNNING) s = s"
    using set_stat_idem[OF run(1)] by (simp add: upd_thread_def)
  then show ?thesis
    using False t(1) c run r by (auto simp: rt_schedule_def Let_def)
qed

lemma schedule_switch:
  assumes ok: "sched_ok s L T" and c: "current_thread s = Some c" and k: "\<not> keeps_running s L c"
  obtains s' t p ts where "rt_schedule s = Inr s'" "L (Ready p) = t # ts" "p < 32" "\<forall>q<p. L (Ready q) = []"
    "sched_ok s' (handed_over s L c t) T" "current_thread s' = Some t" "same_but_stat s s'"
    "\<forall>x. st s' x = (if x = t then RT_THREAD_RUNNING
       else if x = c \<and> st s c = RT_THREAD_RUNNING then RT_THREAD_READY else st s x)"
    "st s c = RT_THREAD_RUNNING \<Longrightarrow> \<not> yields (threads s' c)"
proof -
  have co: "sched_core s L T" using ok by (rule ok_core)
  have lk: "lock_nest s = 0" "ready_group s \<noteq> 0" using k group_zero[OF co] by (auto simp: keeps_running_def)
  obtain t p ts where t: "get_highest_priority_thread s = Inr (t, p)" "p < 32" "L (Ready p) = t # ts"
    "\<forall>q<p. L (Ready q) = []"
    by (rule get_highest_ok[OF co lk(2)])
  define run where "run = (st s c = RT_THREAD_RUNNING)"
  have tL: "t \<in> set (L (Ready p))" using t(3) by simp
  have tst: "st s t = RT_THREAD_READY" "prio s t = p" using core_stat[OF co _ tL] core_prio[OF co t(2) tL] t(2) by simp_all
  have tT: "t \<in> T" using sc_subset[OF core_lists[OF co] _ tL] t(2) by simp
  have tc: "t \<noteq> c" using ok c tst by (auto simp: sched_ok_def)
  have stays: "\<not> (run \<and> (prio s c < p \<or> prio s c = p \<and> \<not> yields (threads s c)))"
  proof
    assume a: "run \<and> (prio s c < p \<or> prio s c = p \<and> \<not> yields (threads s c))"
    have "p \<le> q" if "L (Ready q) \<noteq> []" for q using t(4) that by (meson not_le)
    then have "keeps_running s L c" using a by (force simp: keeps_running_def run_def)
    then show False using k by simp
  qed
  define s1 where "s1 = (if run
    then upd_thread c (\<lambda>th. th\<lparr>th_stat := th_stat th AND NOT RT_THREAD_STAT_YIELD\<rparr>) s else s)"
  define s2 where "s2 = s1\<lparr>rt_current_priority := of_nat p, current_thread := Some t\<rparr>"
  have sched: "rt_schedule s = switch_thread c run t p s1"
    using lk t(1) c stays tc by (auto simp: rt_schedule_def Let_def run_def s1_def)
  have h2: "heads s2 = heads s" by (simp add: s2_def s1_def heads_def)
  define th1 where "th1 = (threads s c)\<lparr>th_stat := th_stat (threads s c) AND NOT RT_THREAD_STAT_YIELD\<rparr>"
  have th1: "stat_of th1 = st s c" "current_priority th1 = current_priority (threads s c)"
    "masked th1 = masked (threads s c)" "\<not> yields th1" "th_ok th1 = th_ok (threads s c)"
  proof -
    show 1: "stat_of th1 = st s c" unfolding th1_def by (rule clear_yield)
    have "(th_stat (threads s c) AND NOT 8) AND 8 = 0" by (simp add: and.assoc)
    then show "\<not> yields th1" by (simp add: yields_def th1_def)
    show "current_priority th1 = current_priority (threads s c)" "masked th1 = masked (threads s c)"
      by (simp_all add: th1_def masked_def)
    then show "th_ok th1 = th_ok (threads s c)" unfolding th_ok_def 1 by (simp add: th1_def)
  qed
  have s2t: "threads s2 = (if run then (threads s)(c := th1) else threads s)" "current_thread s2 = Some t"
    by (simp_all add: s2_def s1_def th1_def)
  have cl: "run \<Longrightarrow> in_no_list (heads s) L c" "run \<Longrightarrow> c \<in> T" "run \<Longrightarrow> masked (threads s c)"
    using no_list_if_stat[OF co] ok c core_thread[OF co] by (auto simp: run_def sched_ok_def th_ok_def)
  have c1: "sched_core s1 L T"
  proof (cases run)
    case True
    have "sched_core (upd_thread c (\<lambda>th. th\<lparr>th_stat := th_stat th AND NOT RT_THREAD_STAT_YIELD\<rparr>) s) L T"
      using cl True th1(5) core_thread[OF co] by (intro core_upd_thread[OF co]) (simp_all add: th1_def)
    then show ?thesis using True by (simp add: s1_def)
  qed (simp add: s1_def co)
  have c2: "sched_core s2 L T" using c1 core_cong_current[where s = s1 and c = "Some t" and q = "of_nat p"] by (simp add: s2_def)
  define L3 where "L3 = (if run then L(Ready (prio s c) := L (Ready (prio s c)) @ [c]) else L)"
  define th2 where "th2 = (if run then (threads s2)(c := set_stat RT_THREAD_READY th1) else threads s2)"
  obtain s3 where s3: "(if run then rt_schedule_insert_thread c s2 else Inr s2) = Inr s3" "sched_core s3 L3 T"
    "threads s3 = th2" "heads s3 = heads s2" "current_thread s3 = Some t" "sems s3 = sems s2"
    "timer_param s3 = timer_param s2" "lock_nest s3 = lock_nest s2" "interrupt_nest s3 = interrupt_nest s2"
  proof (cases run)
    case True
    have "in_no_list (heads s2) L c" "masked (threads s2 c)" "current_thread s2 \<noteq> Some c"
      using cl True th1(3) s2t tc by (simp_all add: h2)
    then obtain s' where s': "rt_schedule_insert_thread c s2 = Inr s'"
      "sched_core s' (L(Ready (prio s2 c) := L (Ready (prio s2 c)) @ [c])) T"
      "relinked (upd_thread c (set_stat RT_THREAD_READY) s2) s'"
      using core_insert[OF c2 cl(2)[OF True]] by blast
    show thesis
      using True s' relinkedD[OF s'(3)] s2t th1(2)
      by (intro that[of s']) (simp_all add: L3_def th2_def heads_def)
  next
    case False
    then show thesis using c2 s2t by (intro that[of s2]) (simp_all add: L3_def th2_def)
  qed
  have t3: "threads s3 t = threads s t" using s3(3) s2t tc by (simp add: th2_def)
  have tm: "masked (threads s3 t)" using core_thread[OF co tT] tst t3 by (simp add: th_ok_def)
  obtain s4 where s4: "rt_schedule_remove_thread t s3 = Inr s4" "sched_core s4 (off t L3) T" "relinked s3 s4"
    using core_remove[OF s3(2) tT] tm by blast
  note r4 = relinkedD[OF s4(3)]
  define s5 where "s5 = upd_thread t (set_stat RT_THREAD_RUNNING) s4"
  have n4: "in_no_list (heads s4) (off t L3) t"
    using in_no_list_off[OF core_lists[OF s3(2)]] r4(7) by simp
  have st_run: "stat_of (set_stat RT_THREAD_RUNNING th) = RT_THREAD_RUNNING" for th by (rule stat_set) simp
  have st_rdy: "stat_of (set_stat RT_THREAD_READY th) = RT_THREAD_READY" for th by (rule stat_set) simp
  have kt: "th_ok (threads s t)" using core_thread[OF co tT] .
  have c5: "sched_core s5 (off t L3) T"
    unfolding s5_def using kt tm t3
    by (intro core_upd_thread[OF s4(2) n4]) (simp add: r4 th_ok_def masked_def)
  have th5: "threads s5 = th2(t := set_stat RT_THREAD_RUNNING (threads s t))"
    using t3 by (simp add: s5_def r4 s3(3))
  have st5: "st s5 x = (if x = t then RT_THREAD_RUNNING
       else if x = c \<and> st s c = RT_THREAD_RUNNING then RT_THREAD_READY else st s x)" for x
    using tc by (auto simp: th5 th2_def s2t st_run st_rdy run_def)
  have pr5: "prio s5 x = prio s x" for x using th1(2) by (auto simp: th5 th2_def s2t)
  have L': "off t L3 = handed_over s L c t" by (simp add: L3_def handed_over_def run_def)
  have "stack_intact (threads s4 t)" "stack_intact (threads s5 t)"
    using kt t3 by (simp_all add: th5 th_ok_def r4)
  then have sw: "rt_schedule s = Inr s5"
    using s3(1) s4(1)
    by (simp add: sched switch_thread_def Let_def rt_scheduler_stack_check_def assertE_def
        s2_def[symmetric] s5_def[symmetric] split del: if_split)
  have ready: "x \<in> set (off t L3 (Ready (prio s5 x)))" if x: "x \<in> T" "st s5 x = RT_THREAD_READY" for x
  proof -
    have xt: "x \<noteq> t" using x(2) st5[of t] by auto
    have "x \<in> set (L3 (Ready (prio s x)))"
    proof (cases "x = c \<and> run")
      case True
      then show ?thesis by (simp add: L3_def)
    next
      case False
      then have "st s x = RT_THREAD_READY" using x(2) st5[of x] xt by (auto simp: run_def)
      then have "x \<in> set (L (Ready (prio s x)))" using ok_ready[OF ok x(1)] by simp
      moreover have "set (L h) \<subseteq> set (L3 h)" for h by (simp add: L3_def subset_insertI)
      ultimately show ?thesis by blast
    qed
    then show ?thesis using xt by (simp add: pr5 off_def)
  qed
  have running: "current_thread s5 = Some x" if x: "x \<in> T" "st s5 x = RT_THREAD_RUNNING" for x
  proof -
    have "x = t"
    proof (rule ccontr)
      assume "x \<noteq> t"
      then have "x \<noteq> c \<or> \<not> run" "st s x = RT_THREAD_RUNNING" using x(2) st5[of x] by (auto simp: run_def split: if_splits)
      then show False using ok_running[OF ok x(1)] c by (simp add: run_def)
    qed
    then show ?thesis using s3(5) r4(3) by (simp add: s5_def)
  qed
  have cur5: "current_thread s5 = Some t" using s3(5) r4(3) by (simp add: s5_def)
  have "sched_ok s5 (off t L3) T"
  proof (rule sched_okI[OF c5])
    fix x assume "current_thread s5 = Some x"
    then have "x = t" using cur5 by simp
    then show "st s5 x \<noteq> RT_THREAD_READY \<and> st s5 x \<noteq> RT_THREAD_INIT
      \<and> (st s5 x = RT_THREAD_RUNNING \<longrightarrow> x \<in> T)" using st5[of t] tT by simp
  qed (use ready running in blast)+
  moreover have "same_but_stat s s5"
  proof -
    have "\<exists>v. threads s5 x = (threads s x)\<lparr>th_stat := v\<rparr>" for x
      using tc same_stat_ex[of "threads s x"]
      by (cases "x = t"; cases "x = c \<and> run") (auto simp: th5 th2_def s2t th1_def set_stat_def)
    then show ?thesis by (simp add: same_but_stat_def s5_def r4 s3 s2_def s1_def)
  qed
  moreover have "st s c = RT_THREAD_RUNNING \<Longrightarrow> \<not> yields (threads s5 c)"
    using tc th1(4) yields_set[of RT_THREAD_READY th1] by (simp add: th5 th2_def run_def)
  ultimately show thesis using that[of s5 p t ts] sw t(2-4) cur5 st5 unfolding L' by blast
qed

section \<open>Suspending, waiting, becoming ready\<close>

text \<open>What the operations on a thread leave alone.\<close>

definition sched_frame :: "sched \<Rightarrow> sched \<Rightarrow> bool" where
  "sched_frame s s' \<longleftrightarrow> sems s' = sems s \<and> timer_param s' = timer_param s \<and> lock_nest s' = lock_nest s
     \<and> interrupt_nest s' = interrupt_nest s \<and> current_thread s' = current_thread s"

lemma sched_frameD:
  assumes "sched_frame s s'"
  shows "sems s' = sems s" "timer_param s' = timer_param s" "lock_nest s' = lock_nest s"
    "interrupt_nest s' = interrupt_nest s" "current_thread s' = current_thread s" "heads s' = heads s"
  using assms by (simp_all add: sched_frame_def heads_def)

lemma ready_prio: "sched_core s L T \<Longrightarrow> t \<in> T \<Longrightarrow> prio s t < 32"
  by (drule (1) core_thread) (simp add: th_ok_def)

lemma suspend_sched:
  assumes ok: "sched_ok s L T" and t: "t \<in> T" "st s t = RT_THREAD_READY \<or> st s t = RT_THREAD_RUNNING"
  obtains s1 s' where "rt_schedule_remove_thread t s = Inr s1" "s' = upd_thread t (set_stat RT_THREAD_SUSPEND) s1"
    "sched_ok s' (off t L) T" "in_no_list (heads s') (off t L) t" "sched_frame s s'"
    "threads s' = (threads s)(t := set_stat RT_THREAD_SUSPEND (threads s t))"
proof -
  have co: "sched_core s L T" using ok by (rule ok_core)
  have th: "th_ok (threads s t)" using core_thread[OF co t(1)] .
  have m: "masked (threads s t)" using th t(2) by (auto simp: th_ok_def)
  obtain s1 where s1: "rt_schedule_remove_thread t s = Inr s1" "sched_core s1 (off t L) T" "relinked s s1"
    using core_remove[OF co t(1)] m by blast
  note r = relinkedD[OF s1(3)]
  have n: "in_no_list (heads s1) (off t L) t" using in_no_list_off[OF core_lists[OF co]] r(7) by simp
  define s' where "s' = upd_thread t (set_stat RT_THREAD_SUSPEND) s1"
  have th': "threads s' = (threads s)(t := set_stat RT_THREAD_SUSPEND (threads s t))" by (simp add: s'_def r)
  have sus: "st s' t = RT_THREAD_SUSPEND" unfolding th' by (simp add: stat_set)
  have fr: "sched_frame s s'" by (simp add: sched_frame_def s'_def r)
  have co': "sched_core s' (off t L) T"
    unfolding s'_def using th m by (intro core_upd_thread[OF s1(2) n]) (simp add: r th_ok_def masked_def)
  have eq: "st s' x = st s x" "prio s' x = prio s x" if "x \<noteq> t" for x using that by (simp_all add: th')
  have "sched_ok s' (off t L) T"
  proof (rule sched_okI[OF co'])
    fix x assume x: "x \<in> T" "st s' x = RT_THREAD_READY"
    then have "x \<noteq> t" using sus by auto
    then show "x \<in> set (off t L (Ready (prio s' x)))"
      using ok_ready[OF ok x(1)] x(2) by (simp add: eq off_def)
  next
    fix x assume x: "x \<in> T" "st s' x = RT_THREAD_RUNNING"
    then have "x \<noteq> t" using sus by auto
    then show "current_thread s' = Some x"
      using ok_running[OF ok x(1)] x(2) sched_frameD(5)[OF fr] by (simp add: eq)
  next
    fix c assume c: "current_thread s' = Some c"
    then have "current_thread s = Some c" using sched_frameD(5)[OF fr] by simp
    from ok_current[OF ok this] show "st s' c \<noteq> RT_THREAD_READY \<and> st s' c \<noteq> RT_THREAD_INIT
      \<and> (st s' c = RT_THREAD_RUNNING \<longrightarrow> c \<in> T)"
      using sus by (cases "c = t") (auto simp: eq)
  qed
  moreover have "in_no_list (heads s') (off t L) t" using n by (simp add: s'_def heads_def)
  ultimately show thesis using that s1(1) s'_def fr th' by blast
qed

lemma ready_sched:
  assumes ok: "sched_ok s L T" and t: "t \<in> T" "st s t = RT_THREAD_SUSPEND" "in_no_list (heads s) L t"
  obtains s' where "rt_schedule_insert_thread t s = Inr s'"
    "sched_ok s' (if current_thread s = Some t then L else L(Ready (prio s t) := L (Ready (prio s t)) @ [t])) T"
    "sched_frame s s'"
    "threads s' = (threads s)(t := set_stat (if current_thread s = Some t then RT_THREAD_RUNNING
       else RT_THREAD_READY) (threads s t))"
proof (cases "current_thread s = Some t")
  case True
  have co: "sched_core s L T" using ok by (rule ok_core)
  have th: "th_ok (threads s t)" using core_thread[OF co t(1)] .
  define s' where "s' = upd_thread t (set_stat RT_THREAD_RUNNING) s"
  have co': "sched_core s' L T"
    unfolding s'_def using th t(2) by (intro core_upd_thread[OF co t(3)]) (simp add: th_ok_def masked_def)
  have run: "st s' t = RT_THREAD_RUNNING" by (simp add: s'_def stat_set)
  have eq: "st s' x = st s x" "prio s' x = prio s x" if "x \<noteq> t" for x using that by (simp_all add: s'_def)
  have "sched_ok s' L T"
  proof (rule sched_okI[OF co'])
    fix x assume x: "x \<in> T" "st s' x = RT_THREAD_READY"
    then have "x \<noteq> t" using run by auto
    then show "x \<in> set (L (Ready (prio s' x)))" using ok_ready[OF ok x(1)] x(2) by (simp add: eq)
  next
    fix x assume x: "x \<in> T" "st s' x = RT_THREAD_RUNNING"
    show "current_thread s' = Some x"
      using ok_running[OF ok x(1)] x(2) True by (cases "x = t") (auto simp: eq s'_def)
  next
    fix c assume "current_thread s' = Some c"
    then have "c = t" using True by (simp add: s'_def)
    then show "st s' c \<noteq> RT_THREAD_READY \<and> st s' c \<noteq> RT_THREAD_INIT
      \<and> (st s' c = RT_THREAD_RUNNING \<longrightarrow> c \<in> T)" using run t(1) by simp
  qed
  then show thesis
    using True by (intro that[of s']) (simp_all add: rt_schedule_insert_thread_def sched_frame_def s'_def Let_def)
next
  case False
  have co: "sched_core s L T" using ok by (rule ok_core)
  have th: "th_ok (threads s t)" using core_thread[OF co t(1)] .
  define p where "p = prio s t"
  have m: "masked (threads s t)" using th t(2) by (auto simp: th_ok_def)
  obtain s' where s': "rt_schedule_insert_thread t s = Inr s'" "sched_core s' (L(Ready p := L (Ready p) @ [t])) T"
    "relinked (upd_thread t (set_stat RT_THREAD_READY) s) s'"
    using core_insert[OF co t(1,3) m False] unfolding p_def by blast
  note r = relinkedD[OF s'(3), simplified]
  have rdy: "st s' t = RT_THREAD_READY" by (simp add: r stat_set)
  have eq: "st s' x = st s x" "prio s' x = prio s x" if "x \<noteq> t" for x using that by (simp_all add: r)
  have pt: "prio s' t = p" by (simp add: r p_def)
  have "sched_ok s' (L(Ready p := L (Ready p) @ [t])) T"
  proof (rule sched_okI[OF s'(2)])
    fix x assume x: "x \<in> T" "st s' x = RT_THREAD_READY"
    show "x \<in> set ((L(Ready p := L (Ready p) @ [t])) (Ready (prio s' x)))"
    proof (cases "x = t")
      case False
      then have "x \<in> set (L (Ready (prio s x)))" using ok_ready[OF ok x(1)] x(2) by (simp add: eq)
      then show ?thesis using False by (auto simp: eq)
    qed (simp add: pt)
  next
    fix x assume x: "x \<in> T" "st s' x = RT_THREAD_RUNNING"
    then have "x \<noteq> t" using rdy by auto
    then show "current_thread s' = Some x" using ok_running[OF ok x(1)] x(2) by (simp add: eq r)
  next
    fix c assume c: "current_thread s' = Some c"
    then have "c \<noteq> t" "current_thread s = Some c" using False by (auto simp: r)
    then show "st s' c \<noteq> RT_THREAD_READY \<and> st s' c \<noteq> RT_THREAD_INIT
      \<and> (st s' c = RT_THREAD_RUNNING \<longrightarrow> c \<in> T)" using ok_current[OF ok] by (simp add: eq)
  qed
  then show thesis
    using False s'(1) by (intro that[of s']) (simp_all add: sched_frame_def r p_def)
qed

text \<open>Changes that leave the states, the priorities and the objects alone.\<close>

lemma sched_ok_same_threads:
  assumes ok: "sched_ok s L T" and co: "sched_core s' L' T" and fr: "sched_frame s s'"
    and th: "\<And>x. st s' x = st s x" "\<And>x. prio s' x = prio s x"
    and L: "\<And>x p. x \<in> T \<Longrightarrow> st s x = RT_THREAD_READY \<Longrightarrow> x \<in> set (L (Ready p)) \<Longrightarrow> x \<in> set (L' (Ready p))"
  shows "sched_ok s' L' T"
proof (rule sched_okI[OF co])
  fix x assume x: "x \<in> T" "st s' x = RT_THREAD_READY"
  then show "x \<in> set (L' (Ready (prio s' x)))" using L[OF x(1)] ok_ready[OF ok x(1)] by (simp add: th)
next
  fix x assume x: "x \<in> T" "st s' x = RT_THREAD_RUNNING"
  then show "current_thread s' = Some x" using ok_running[OF ok x(1)] sched_frameD(5)[OF fr] by (simp add: th)
next
  fix c assume "current_thread s' = Some c"
  then have "current_thread s = Some c" using sched_frameD(5)[OF fr] by simp
  then show "st s' c \<noteq> RT_THREAD_READY \<and> st s' c \<noteq> RT_THREAD_INIT
    \<and> (st s' c = RT_THREAD_RUNNING \<longrightarrow> c \<in> T)" using ok_current[OF ok] by (simp add: th)
qed

lemma unlink_sched:
  assumes ok: "sched_ok s L T" and t: "t \<in> T" "st s t = RT_THREAD_SUSPEND"
  shows "sched_ok (upd_sc_links (rt_list_remove (Thread t)) s) (off t L) T"
    "in_no_list (heads s) (off t L) t"
proof -
  have co: "sched_core s L T" using ok by (rule ok_core)
  show "in_no_list (heads s) (off t L) t" using in_no_list_off[OF core_lists[OF co]] .
  define s' where "s' = upd_sc_links (rt_list_remove (Thread t)) s"
  have h: "heads s' = heads s" by (simp add: s'_def heads_def)
  have sub: "set (off t L h) \<subseteq> set (L h)" for h by (simp add: off_def set_remove1_subset)
  have rd: "off t L (Ready p) = L (Ready p)" if "p < 32" for p
  proof -
    have "t \<notin> set (L (Ready p))" using core_stat[OF co, of "Ready p" t] that t(2) by auto
    then show ?thesis by (simp add: off_def remove1_idem)
  qed
  have "sched_core s' (off t L) T"
    using co sc_remove[OF core_lists[OF co] t(1)] rd sub unfolding sched_core_def h
    by (auto simp: s'_def dest!: subsetD[OF sub])
  moreover have "x \<in> set (off t L (Ready p))" if "st s x = RT_THREAD_READY" "x \<in> set (L (Ready p))" for x p
  proof -
    have "x \<noteq> t" using that(1) t(2) by auto
    then show ?thesis using that(2) by (simp add: off_def)
  qed
  ultimately show "sched_ok (upd_sc_links (rt_list_remove (Thread t)) s) (off t L) T"
    unfolding s'_def[symmetric] by (intro sched_ok_same_threads[OF ok]) (simp_all add: s'_def sched_frame_def)
qed

lemma enqueue_sched:
  assumes ok: "sched_ok s L T" and t: "t \<in> T" "st s t = RT_THREAD_SUSPEND" "in_no_list (heads s) L t"
    and i: "sems s i \<noteq> None" and L: "L (Waiters i) = us @ vs"
  shows "sched_ok (upd_sc_links (rt_list_insert_before (hd (map Thread vs @ [Waiters i])) (Thread t)) s)
    (L(Waiters i := us @ t # vs)) T"
proof -
  have co: "sched_core s L T" using ok by (rule ok_core)
  define L' where "L' = L(Waiters i := us @ t # vs)"
  define s' where "s' = upd_sc_links (rt_list_insert_before (hd (map Thread vs @ [Waiters i])) (Thread t)) s"
  have h: "heads s' = heads s" by (simp add: s'_def heads_def)
  have l: "sc_lists (sc_links s') (heads s) L' T"
    using sc_insert[OF core_lists[OF co] t(1,3) _ L] i by (simp add: s'_def L'_def)
  have "st s' x = head_stat g" if g: "g \<in> heads s" "x \<in> set (L' g)" for g x
  proof (cases "x \<in> set (L g)")
    case True
    then show ?thesis using core_stat[OF co g(1) True] by (simp add: s'_def)
  next
    case False
    then have "g = Waiters i" "x = t" using g(2) L by (auto simp: L'_def split: if_splits)
    then show ?thesis using t(2) by (simp add: s'_def)
  qed
  then have "sched_core s' L' T" using co l unfolding sched_core_def h by (simp add: s'_def L'_def)
  then show ?thesis
    unfolding s'_def[symmetric] L'_def[symmetric]
    by (intro sched_ok_same_threads[OF ok]) (simp_all add: s'_def sched_frame_def L'_def)
qed

text \<open>A field of a thread that the scheduler does not look at.\<close>

definition same_sched :: "(rt_thread \<Rightarrow> rt_thread) \<Rightarrow> bool" where
  "same_sched f \<longleftrightarrow> (\<forall>th. stat_of (f th) = stat_of th \<and> th_ok (f th) = th_ok th
     \<and> current_priority (f th) = current_priority th)"

lemma same_sched_ok:
  assumes ok: "sched_ok s L T" and f: "same_sched f"
  shows "sched_ok (upd_thread t f s) L T"
proof -
  have co: "sched_core s L T" using ok by (rule ok_core)
  have h: "heads (upd_thread t f s) = heads s" by (simp add: heads_def)
  have eq: "st (upd_thread t f s) x = st s x" "prio (upd_thread t f s) x = prio s x"
    "th_ok (threads (upd_thread t f s) x) = th_ok (threads s x)" for x
    using f by (simp_all add: same_sched_def)
  have "sched_core (upd_thread t f s) L T" using co unfolding sched_core_def h eq by simp
  then show ?thesis by (intro sched_ok_same_threads[OF ok]) (simp_all add: eq sched_frame_def del: sc_simps(11))
qed

end
