(* ===== verification/Kernel_Facts.thy ===== *)
theory Kernel_Facts
  imports Sched_Facts Rt_Timer_Facts
begin

text \<open>
  The scheduler and the timers together. \<open>kernel_ok\<close>: both are well formed, every thread has its
  timer, and a thread whose timer runs is suspended. A lemma for each operation on threads; \<open>on_top\<close>
  says that the current thread runs and that no ready thread has a higher priority.
\<close>

section \<open>The invariant\<close>

definition thread_timer :: "kernel \<Rightarrow> nat \<Rightarrow> bool" where
  "thread_timer k t \<longleftrightarrow> (let m = th_timer (threads (client k) t) in
     tm_obj k m = Some True \<and> timer_param (client k) m = Some t
     \<and> \<not> has_flag RT_TIMER_FLAG_PERIODIC (tm_timer k m) \<and> \<not> has_flag RT_TIMER_FLAG_SOFT_TIMER (tm_timer k m))"

definition timers_match :: "kernel \<Rightarrow> nat set \<Rightarrow> nat list \<Rightarrow> bool" where
  "timers_match k T xs \<longleftrightarrow> tm_ok k xs [] \<and> (\<forall>t\<in>T. thread_timer k t)
     \<and> (\<forall>m\<in>set xs. \<forall>t. timer_param (client k) m = Some t \<longrightarrow>
          t \<in> T \<and> th_timer (threads (client k) t) = m \<and> st (client k) t = RT_THREAD_SUSPEND)"

definition kernel_ok :: "kernel \<Rightarrow> (snode \<Rightarrow> nat list) \<Rightarrow> nat set \<Rightarrow> nat list \<Rightarrow> bool" where
  "kernel_ok k L T xs \<longleftrightarrow> sched_ok (client k) L T \<and> timers_match k T xs"

text \<open>Whether a thread is ready or runs, otherwise its state.\<close>

definition cls :: "sched \<Rightarrow> nat \<Rightarrow> u8" where
  "cls s t = (if st s t = RT_THREAD_RUNNING then RT_THREAD_READY else st s t)"

lemma cls_suspend [simp]: "cls s t = RT_THREAD_SUSPEND \<longleftrightarrow> st s t = RT_THREAD_SUSPEND"
  by (simp add: cls_def)

lemma cls_eq_suspend: "cls s t = cls s' t \<Longrightarrow> st s t = RT_THREAD_SUSPEND \<longleftrightarrow> st s' t = RT_THREAD_SUSPEND"
  by (metis cls_suspend)

definition busy :: "sched \<Rightarrow> nat set \<Rightarrow> bool" where
  "busy s T \<longleftrightarrow> (\<exists>t\<in>T. cls s t = RT_THREAD_READY)"

definition on_top :: "sched \<Rightarrow> nat set \<Rightarrow> bool" where
  "on_top s T \<longleftrightarrow> (\<exists>c\<in>T. current_thread s = Some c \<and> st s c = RT_THREAD_RUNNING
     \<and> (\<forall>t\<in>T. st s t = RT_THREAD_READY \<longrightarrow> prio s c \<le> prio s t))"

lemma upd_sched_simps [simp]:
  "client (upd_sched f k) = f (client k)" "tm_obj (upd_sched f k) = tm_obj k"
  "tm_timer (upd_sched f k) = tm_timer k" "rt_tick (upd_sched f k) = rt_tick k"
  "tm_links (upd_sched f k) = tm_links k" "soft_waits (upd_sched f k) = soft_waits k"
  by (simp_all add: upd_sched_def)

lemma on_sched_Inr: "f (client k) = Inr s \<Longrightarrow> on_sched f k = Inr (k\<lparr>client := s\<rparr>)"
  by (simp add: on_sched_def)

lemma tm_ok_client: "tm_ok (k\<lparr>client := w\<rparr>) xs ys = tm_ok k xs ys"
proof -
  have "left (k\<lparr>client := w\<rparr>) = left k" by (simp add: left_def fun_eq_iff)
  moreover have "tm_lists (k\<lparr>client := w\<rparr>) = tm_lists k" by (rule tm_lists_cong) simp_all
  moreover have "tm_timer (k\<lparr>client := w\<rparr>) = tm_timer k" by simp
  ultimately show ?thesis unfolding tm_ok_def by (simp only:)
qed

lemma timers_match_client:
  assumes m: "timers_match k T xs" and p: "timer_param s = timer_param (client k)"
    and t: "\<And>t. th_timer (threads s t) = th_timer (threads (client k) t)"
    and u: "\<And>t. t \<in> T \<Longrightarrow> th_timer (threads s t) \<in> set xs \<Longrightarrow> st (client k) t = RT_THREAD_SUSPEND
      \<Longrightarrow> st s t = RT_THREAD_SUSPEND"
  shows "timers_match (k\<lparr>client := s\<rparr>) T xs"
  unfolding timers_match_def
proof (intro conjI ballI allI impI)
  define k' where "k' = k\<lparr>client := s\<rparr>"
  have k': "client k' = s" "thread_timer k' x = thread_timer k x" for x
    by (simp_all add: k'_def thread_timer_def p t Let_def)
  show "tm_ok (k\<lparr>client := s\<rparr>) xs []" using m by (simp add: timers_match_def tm_ok_client)
  show "thread_timer (k\<lparr>client := s\<rparr>) x" if "x \<in> T" for x
    using m that k'(2) by (simp add: timers_match_def k'_def)
  fix y x assume y: "y \<in> set xs" "timer_param (client (k\<lparr>client := s\<rparr>)) y = Some x"
  then have x: "x \<in> T" "th_timer (threads (client k) x) = y" "st (client k) x = RT_THREAD_SUSPEND"
    using m p unfolding timers_match_def by force+
  then show "x \<in> T" "th_timer (threads (client (k\<lparr>client := s\<rparr>)) x) = y"
    "st (client (k\<lparr>client := s\<rparr>)) x = RT_THREAD_SUSPEND"
    using u[of x] t[of x] y(1) by simp_all
qed

lemma same_but_stat_prio: "same_but_stat s s' \<Longrightarrow> prio s' t = prio s t"
  by (simp add: same_but_stat_thread)

section \<open>Scheduling\<close>

lemma on_top_same:
  assumes ok: "sched_ok s L T" and c: "current_thread s = Some c" and k: "keeps_running s L c"
    and b: "busy s T" and l: "lock_nest s = 0"
  shows "on_top s T"
proof -
  have ready: "L (Ready (prio s t)) \<noteq> [] \<and> prio s t < 32" if "t \<in> T" "st s t = RT_THREAD_READY" for t
  proof -
    have "t \<in> set (L (Ready (prio s t)))" using ok_ready[OF ok that] .
    moreover have "prio s t < 32" using core_thread[OF ok_core[OF ok] that(1)] by (simp add: th_ok_def)
    ultimately show ?thesis by auto
  qed
  have run: "st s c = RT_THREAD_RUNNING"
  proof (rule ccontr)
    assume n: "st s c \<noteq> RT_THREAD_RUNNING"
    obtain t where t: "t \<in> T" "st s t = RT_THREAD_READY \<or> st s t = RT_THREAD_RUNNING"
      using b by (auto simp: busy_def cls_def split: if_splits)
    then have "st s t = RT_THREAD_READY" using ok_running[OF ok t(1)] c n by auto
    then show False using ready[OF t(1)] k l n by (auto simp: keeps_running_def)
  qed
  moreover have "prio s c \<le> prio s t" if "t \<in> T" "st s t = RT_THREAD_READY" for t
    using k ready[OF that] l by (auto simp: keeps_running_def)
  moreover have "c \<in> T" using ok_current(3)[OF ok c run] .
  ultimately show ?thesis using c by (auto simp: on_top_def)
qed

lemma on_top_switch:
  assumes ok: "sched_ok s L T" "sched_ok s' L' T" and k: "\<not> keeps_running s L c"
    and t: "L (Ready p) = t # ts" "p < 32" "\<forall>q<p. L (Ready q) = []"
    and s': "current_thread s' = Some t" "same_but_stat s s'"
    "\<forall>x. st s' x = (if x = t then RT_THREAD_RUNNING
       else if x = c \<and> st s c = RT_THREAD_RUNNING then RT_THREAD_READY else st s x)"
  shows "on_top s' T"
proof -
  have p: "prio s t = p" using core_prio[OF ok_core[OF ok(1)] t(2)] t(1) by simp
  have min: "p \<le> q" if "L (Ready q) \<noteq> []" for q using that t(3) by (meson not_le)
  have "p \<le> prio s x" if x: "x \<in> T" "st s' x = RT_THREAD_READY" for x
  proof (cases "x = c \<and> st s c = RT_THREAD_RUNNING")
    case True
    obtain q where "L (Ready q) \<noteq> []" "q \<le> prio s c" using k True by (force simp: keeps_running_def)
    then show ?thesis using min[of q] True by simp
  next
    case False
    then have "st s x = RT_THREAD_READY" using x(2) s'(3) by (auto split: if_splits)
    then have "x \<in> set (L (Ready (prio s x)))" using ok_ready[OF ok(1) x(1)] by simp
    then have "L (Ready (prio s x)) \<noteq> []" by auto
    then show ?thesis by (rule min)
  qed
  moreover have "st s' t = RT_THREAD_RUNNING" using s'(3) by simp
  moreover have "t \<in> T" using ok_current(3)[OF ok(2) s'(1)] calculation(2) by simp
  ultimately show ?thesis using s'(1) p same_but_stat_prio[OF s'(2)] by (auto simp: on_top_def)
qed

text \<open>What scheduling leaves alone, and that it puts the highest priority on top.\<close>

definition rescheduled :: "sched \<Rightarrow> (snode \<Rightarrow> nat list) \<Rightarrow> nat set \<Rightarrow> sched \<Rightarrow> (snode \<Rightarrow> nat list) \<Rightarrow> bool" where
  "rescheduled s L T s' L' \<longleftrightarrow> same_but_stat s s'
     \<and> (\<forall>t. cls s' t = cls s t) \<and> (\<forall>h\<in>heads s. (\<forall>p. h \<noteq> Ready p) \<longrightarrow> L' h = L h)
     \<and> (lock_nest s = 0 \<longrightarrow> busy s T \<longrightarrow> on_top s' T) \<and> current_thread s' \<noteq> None \<and> (lock_nest s \<noteq> 0 \<longrightarrow> s' = s)"

lemma rescheduledD:
  assumes "rescheduled s L T s' L'"
  shows "same_but_stat s s'" "cls s' t = cls s t"
    "sems s i \<noteq> None \<Longrightarrow> L' (Waiters i) = L (Waiters i)"
    "lock_nest s = 0 \<Longrightarrow> busy s T \<Longrightarrow> on_top s' T" "busy s T \<Longrightarrow> busy s' T"
    "current_thread s' \<noteq> None" "lock_nest s \<noteq> 0 \<Longrightarrow> s' = s"
  using assms unfolding rescheduled_def busy_def by auto

lemma kernel_schedule:
  assumes ok: "kernel_ok k L T xs" and c: "current_thread (client k) \<noteq> None"
  obtains s' L' where "on_sched rt_schedule k = Inr (k\<lparr>client := s'\<rparr>)" "kernel_ok (k\<lparr>client := s'\<rparr>) L' T xs"
    "rescheduled (client k) L T s' L'"
proof -
  obtain c where c: "current_thread (client k) = Some c" using c by blast
  show thesis
proof (cases "keeps_running (client k) L c")
  case True
  have so: "sched_ok (client k) L T" using ok by (simp add: kernel_ok_def)
  have "rt_schedule (client k) = Inr (client k)" using schedule_same[OF so c True] .
  then have "on_sched rt_schedule k = Inr (k\<lparr>client := client k\<rparr>)" by (rule on_sched_Inr)
  then show thesis using ok on_top_same[OF so c True] c
    by (intro that[of "client k" L]) (auto simp: rescheduled_def)
next
  case False
  have so: "sched_ok (client k) L T" and tm: "timers_match k T xs" using ok by (simp_all add: kernel_ok_def)
  obtain s' p t ts where s': "rt_schedule (client k) = Inr s'" "L (Ready p) = t # ts" "p < 32"
    "\<forall>q<p. L (Ready q) = []" "sched_ok s' (handed_over (client k) L c t) T" "current_thread s' = Some t"
    "same_but_stat (client k) s'"
    "\<forall>x. st s' x = (if x = t then RT_THREAD_RUNNING
       else if x = c \<and> st (client k) c = RT_THREAD_RUNNING then RT_THREAD_READY else st (client k) x)"
    "st (client k) c = RT_THREAD_RUNNING \<Longrightarrow> \<not> yields (threads s' c)"
    by (rule schedule_switch[OF so c False]) blast
  define L' where "L' = handed_over (client k) L c t"
  have tl: "t \<in> set (L (Ready p))" using s'(2) by simp
  have "st (client k) t = RT_THREAD_READY" using core_stat[OF ok_core[OF so] _ tl] s'(3) by simp
  then have sus: "cls s' x = cls (client k) x" for x using s'(8) by (auto simp: cls_def)
  note sb = same_but_statD[OF s'(7)]
  have same: "L' h = L h" if h: "h \<in> heads s'" "\<forall>p. h \<noteq> Ready p" for h
  proof -
    have "t \<notin> set (L h)"
    proof
      assume "t \<in> set (L h)"
      then have "h = Ready p"
        using sc_unique[OF core_lists[OF ok_core[OF so]], of h "Ready p" t] h s'(3) tl sb(5) by simp
      then show False using h by blast
    qed
    then show ?thesis using h(2) by (auto simp: L'_def handed_over_def off_def remove1_idem)
  qed
  have tm': "timers_match (k\<lparr>client := s'\<rparr>) T xs"
    using cls_eq_suspend[OF sus] sb(2) same_but_stat_thread(4)[OF s'(7)] by (intro timers_match_client[OF tm]) auto
  have top: "on_top s' T" by (rule on_top_switch[OF so s'(5) False s'(2-4,6-8)])
  show thesis
  proof (rule that[of s' L'])
    show "kernel_ok (k\<lparr>client := s'\<rparr>) L' T xs" using s'(5) tm' by (simp add: kernel_ok_def L'_def)
    have "lock_nest (client k) = 0" using False by (simp add: keeps_running_def)
    then show "rescheduled (client k) L T s' L'"
      unfolding rescheduled_def using s'(6,7) sus same sb(5) top by simp
  qed (use s' in \<open>simp add: on_sched_Inr\<close>)
qed
qed

section \<open>The timer of a thread\<close>

abbreviation timer_of :: "kernel \<Rightarrow> nat \<Rightarrow> nat" where
  "timer_of k t \<equiv> th_timer (threads (client k) t)"

lemma thread_timerD:
  assumes "thread_timer k t"
  shows "tm_obj k (timer_of k t) = Some True" "timer_param (client k) (timer_of k t) = Some t"
    "\<not> has_flag RT_TIMER_FLAG_PERIODIC (tm_timer k (timer_of k t))"
    "\<not> has_flag RT_TIMER_FLAG_SOFT_TIMER (tm_timer k (timer_of k t))"
  using assms by (simp_all add: thread_timer_def Let_def)

lemma match_timer: "timers_match k T xs \<Longrightarrow> t \<in> T \<Longrightarrow> thread_timer k t"
  by (simp add: timers_match_def)

lemma match_suspended:
  "timers_match k T xs \<Longrightarrow> m \<in> set xs \<Longrightarrow> timer_param (client k) m = Some t
    \<Longrightarrow> t \<in> T \<and> timer_of k t = m \<and> st (client k) t = RT_THREAD_SUSPEND"
  unfolding timers_match_def by blast

lemma match_active:
  assumes "timers_match k T xs" "t \<in> T" "timer_of k t \<in> set xs"
  shows "st (client k) t = RT_THREAD_SUSPEND"
  using match_suspended[OF assms(1,3) thread_timerD(2)[OF match_timer[OF assms(1,2)]]] by simp

lemma timers_match_same_client:
  assumes m: "timers_match k T xs" and ok: "tm_ok k' xs' []" and c: "client k' = client k" "tm_obj k' = tm_obj k"
    and fl: "\<And>m b. b = RT_TIMER_FLAG_PERIODIC \<or> b = RT_TIMER_FLAG_SOFT_TIMER
      \<Longrightarrow> has_flag b (tm_timer k' m) = has_flag b (tm_timer k m)"
    and sub: "\<And>m. m \<in> set xs' \<Longrightarrow> m \<in> set xs
      \<or> (\<exists>t\<in>T. m = timer_of k t \<and> st (client k) t = RT_THREAD_SUSPEND) \<or> timer_param (client k) m = None"
  shows "timers_match k' T xs'"
  unfolding timers_match_def c(1)
proof (intro conjI ballI allI impI)
  show "tm_ok k' xs' []" by (rule ok)
  show "thread_timer k' t" if "t \<in> T" for t
    using thread_timerD[OF match_timer[OF m that]] fl by (simp add: thread_timer_def Let_def c)
  fix y t assume y: "y \<in> set xs'" "timer_param (client k) y = Some t"
  have "t \<in> T \<and> timer_of k t = y \<and> st (client k) t = RT_THREAD_SUSPEND"
  proof (cases "y \<in> set xs")
    case True
    then show ?thesis using match_suspended[OF m _ y(2)] by blast
  next
    case False
    then obtain q where q: "q \<in> T" "y = timer_of k q" "st (client k) q = RT_THREAD_SUSPEND"
      using sub[OF y(1)] y(2) by auto
    then have "q = t" using thread_timerD(2)[OF match_timer[OF m q(1)]] y(2) by simp
    then show ?thesis using q by simp
  qed
  then show "t \<in> T" "timer_of k t = y" "st (client k) t = RT_THREAD_SUSPEND" by blast+
qed

definition timers_but :: "nat \<Rightarrow> kernel \<Rightarrow> kernel \<Rightarrow> bool" where
  "timers_but m k k' \<longleftrightarrow> client k' = client k \<and> rt_tick k' = rt_tick k \<and> tm_obj k' = tm_obj k
     \<and> (\<forall>x. x \<noteq> m \<longrightarrow> tm_timer k' x = tm_timer k x)"

lemma left_same: "rt_tick k' = rt_tick k \<Longrightarrow> tm_timer k' x = tm_timer k x \<Longrightarrow> left k' x = left k x"
  by (simp add: left_def)

lemma timers_but_left: "timers_but m k k' \<Longrightarrow> x \<noteq> m \<Longrightarrow> left k' x = left k x"
  by (simp add: timers_but_def left_def)

lemma match_distinct: "timers_match k T xs \<Longrightarrow> distinct xs"
  unfolding timers_match_def tm_ok_def using tm_lists_distinct by blast

lemma stop_thread_timer_ok:
  assumes m: "timers_match k T xs" and t: "t \<in> T"
  obtains k' where "stop_thread_timer t k = Inr k'" "timers_match k' T (remove1 (timer_of k t) xs)"
    "timers_but (timer_of k t) k k'"
proof -
  define y where "y = timer_of k t"
  have o: "tm_obj k y \<noteq> None" using thread_timerD(1)[OF match_timer[OF m t]] by (simp add: y_def)
  have ok: "tm_ok k xs []" using m by (simp add: timers_match_def)
  have d: "distinct xs" using match_distinct[OF m] .
  show thesis
  proof (cases "has_flag RT_TIMER_FLAG_ACTIVATED (tm_timer k y)")
    case True
    define k' where "k' = upd_timer y (clear_flag RT_TIMER_FLAG_ACTIVATED) (rt_timer_remove y k)"
    have r: "rt_timer_stop y k = Inr (RT_EOK, k')" using True o by (auto simp: rt_timer_stop_def k'_def)
    then have "tm_ok k' (remove1 y xs) []" using rt_timer_stop_ok[OF ok o] True by auto
    then have "timers_match k' T (remove1 y xs)"
      using d by (intro timers_match_same_client[OF m]) (auto simp: k'_def)
    moreover have "timers_but y k k'" by (simp add: timers_but_def k'_def)
    moreover have "stop_thread_timer t k = Inr k'" using r by (simp add: stop_thread_timer_def y_def)
    ultimately show thesis using that by (simp add: y_def)
  next
    case False
    then have "y \<notin> set xs" using ok by (auto simp: tm_ok_def)
    then have "remove1 y xs = xs" by (rule remove1_idem)
    moreover have "stop_thread_timer t k = Inr k"
      using False o by (auto simp: stop_thread_timer_def rt_timer_stop_def y_def)
    ultimately show thesis using that[of k] m by (simp add: y_def timers_but_def)
  qed
qed

lemma start_thread_timer_ok:
  assumes m: "timers_match k T xs" and t: "t \<in> T" "st (client k) t = RT_THREAD_SUSPEND" and n: "n < HALF_TICK"
  obtains k' xs' where "start_thread_timer t n k = Inr k'" "timers_match k' T xs'"
    "set xs' = insert (timer_of k t) (set xs)" "timers_but (timer_of k t) k k'"
    "left k' (timer_of k t) = uint n"
proof -
  define y where "y = timer_of k t"
  note tt = thread_timerD[OF match_timer[OF m t(1)], folded y_def]
  have ok: "tm_ok k xs []" using m by (simp add: timers_match_def)
  define k1 where "k1 = upd_timer y (\<lambda>tm. tm\<lparr>init_tick := n\<rparr>) k"
  have f1: "tm_links k1 = tm_links k" "tm_obj k1 = tm_obj k" "rt_tick k1 = rt_tick k" "client k1 = client k"
    "tm_timer k1 = (tm_timer k)(y := (tm_timer k y)\<lparr>init_tick := n\<rparr>)" by (simp_all add: k1_def)
  have fl: "has_flag b (tm\<lparr>init_tick := n\<rparr>) = has_flag b tm" for b tm by (simp add: has_flag_def)
  have lf: "left k1 = left k" by (simp add: fun_eq_iff left_def left_of_def f1)
  have ok1: "tm_ok k1 xs []"
    using ok n tm_lists_cong[OF f1(1,2)] by (auto simp: tm_ok_def lf f1(5) fl)
  have soft: "\<not> has_flag RT_TIMER_FLAG_SOFT_TIMER (tm_timer k1 y)" "init_tick (tm_timer k1 y) = n" "tm_obj k1 y \<noteq> None"
    using tt by (simp_all add: f1 fl)
  have n1: "init_tick (tm_timer k1 y) < HALF_TICK" using soft(2) n by simp
  obtain k' xs' where k': "rt_timer_start y k1 = Inr (RT_EOK, k')" "tm_ok k' xs' []" "set xs' = insert y (set xs)"
    "tm_timer k' = (tm_timer k1)(y := started (rt_tick k1) (tm_timer k1 y))" "same_rest k1 k'"
    using tm_ok_start[OF ok1 soft(3) _ n1 soft(1)] by auto
  have sr: "tm_obj k' = tm_obj k" "rt_tick k' = rt_tick k" "client k' = client k"
    using k'(5) by (simp_all add: same_rest_def f1)
  have "timers_match k' T xs'"
    using k'(3,4) t by (intro timers_match_same_client[OF m k'(2) sr(3,1)]) (auto simp: f1 fl y_def)
  moreover have "timers_but y k k'" using k'(4) sr by (simp add: timers_but_def f1)
  moreover have "left k' y = uint n"
    using k'(4) sr(2) by (simp add: left_def left_started soft(2) f1(3) f1(5))
  moreover have "start_thread_timer t n k = Inr k'"
    using k'(1) tt(1) by (auto simp: start_thread_timer_def rt_timer_control_def Let_def k1_def y_def assertE_def)
  ultimately show thesis using that k'(3) by (simp add: y_def)
qed

section \<open>Suspension and resumption\<close>

text \<open>What no operation on the states of the threads changes.\<close>

definition same_setup :: "sched \<Rightarrow> sched \<Rightarrow> bool" where
  "same_setup s s' \<longleftrightarrow> sems s' = sems s \<and> timer_param s' = timer_param s \<and> lock_nest s' = lock_nest s
     \<and> interrupt_nest s' = interrupt_nest s
     \<and> (\<forall>t. current_priority (threads s' t) = current_priority (threads s t)
          \<and> th_timer (threads s' t) = th_timer (threads s t))"

lemma same_setup_trans [trans]: "same_setup a b \<Longrightarrow> same_setup b c \<Longrightarrow> same_setup a c"
  by (simp add: same_setup_def)

lemma same_setup_stat: "same_but_stat s s' \<Longrightarrow> same_setup s s'"
  using same_but_statD[of s s'] same_but_stat_thread[of s s'] by (simp add: same_setup_def)

lemma same_setup_frame:
  "sched_frame s s' \<Longrightarrow> threads s' = (threads s)(t := set_stat v (threads s t)) \<Longrightarrow> same_setup s s'"
  by (simp add: same_setup_def sched_frame_def)

lemma kernel_okD: "kernel_ok k L T xs \<Longrightarrow> sched_ok (client k) L T" "kernel_ok k L T xs \<Longrightarrow> timers_match k T xs"
  by (simp_all add: kernel_ok_def)

lemma kernel_object: "kernel_ok k L T xs \<Longrightarrow> t \<in> T \<Longrightarrow> assert_thread t k = Inr ()"
  using core_thread[OF ok_core[OF kernel_okD(1)]] by (simp add: assert_thread_def assertE_def th_ok_def)

lemma kernel_inactive:
  "kernel_ok k L T xs \<Longrightarrow> t \<in> T \<Longrightarrow> st (client k) t \<noteq> RT_THREAD_SUSPEND \<Longrightarrow> timer_of k t \<notin> set xs"
  using match_active[OF kernel_okD(2)] by blast

lemma thread_suspend_ok:
  assumes ok: "kernel_ok k L T xs" and t: "t \<in> T"
    "st (client k) t = RT_THREAD_READY \<or> st (client k) t = RT_THREAD_RUNNING"
  obtains k' where "rt_thread_suspend t k = Inr (RT_EOK, k')" "kernel_ok k' (off t L) T xs"
    "in_no_list (heads (client k')) (off t L) t" "sched_frame (client k) (client k')"
    "threads (client k') = (threads (client k))(t := set_stat RT_THREAD_SUSPEND (threads (client k) t))"
    "rt_tick k' = rt_tick k" "\<And>x. x \<in> set xs \<Longrightarrow> tm_timer k' x = tm_timer k x"
    "st (client k') t = RT_THREAD_SUSPEND"
proof -
  note so = kernel_okD(1)[OF ok] and tm = kernel_okD(2)[OF ok]
  obtain s1 s' where s: "rt_schedule_remove_thread t (client k) = Inr s1"
    "s' = upd_thread t (set_stat RT_THREAD_SUSPEND) s1" "sched_ok s' (off t L) T"
    "in_no_list (heads s') (off t L) t" "sched_frame (client k) s'"
    "threads s' = (threads (client k))(t := set_stat RT_THREAD_SUSPEND (threads (client k) t))"
    by (rule suspend_sched[OF so t])
  have n: "timer_of k t \<notin> set xs" using kernel_inactive[OF ok t(1)] t(2) by auto
  define k1 where "k1 = k\<lparr>client := s'\<rparr>"
  have th: "th_timer (threads s' x) = timer_of k x" for x by (simp add: s(6))
  have "timers_match k1 T xs"
    unfolding k1_def using n s(6) sched_frameD(2)[OF s(5)] th
    by (intro timers_match_client[OF tm]) (auto simp: stat_set)
  moreover have c1: "client k1 = s'" by (simp add: k1_def)
  ultimately obtain k' where k': "stop_thread_timer t k1 = Inr k'" "timers_match k' T (remove1 (timer_of k1 t) xs)"
    "timers_but (timer_of k1 t) k1 k'" using stop_thread_timer_ok[OF _ t(1)] by blast
  have y: "timer_of k1 t = timer_of k t" by (simp add: c1 th)
  have r: "remove1 (timer_of k1 t) xs = xs" using n by (simp add: y remove1_idem)
  have c': "client k' = s'" "rt_tick k' = rt_tick k" using k'(3) c1 by (simp_all add: timers_but_def k1_def)
  have e: "upd_sched (upd_thread t (set_stat RT_THREAD_SUSPEND)) (k\<lparr>client := s1\<rparr>) = k1"
    by (simp add: upd_sched_def k1_def s(2))
  have "rt_thread_suspend t k = Inr (RT_EOK, k')"
    using t(2) ok_running[OF so t(1)] kernel_object[OF ok t(1)] k'(1) s(1) on_sched_Inr[of "rt_schedule_remove_thread t", OF s(1)]
    by (auto simp: rt_thread_suspend_def Let_def assertE_def e)
  moreover have "tm_timer k' x = tm_timer k x" if "x \<in> set xs" for x
  proof -
    have "x \<noteq> timer_of k t" using that n by auto
    then have "tm_timer k' x = tm_timer k1 x" using k'(3) by (simp add: y timers_but_def)
    then show ?thesis by (simp add: k1_def)
  qed
  moreover have "kernel_ok k' (off t L) T xs" using s(3) k'(2) by (simp add: kernel_ok_def c' r)
  moreover have "st s' t = RT_THREAD_SUSPEND" by (simp add: s(6) stat_set)
  ultimately show thesis using that s(4-6) c' by simp
qed

text \<open>The lists when the thread becomes ready; the current one needs no list.\<close>

definition made_ready :: "sched \<Rightarrow> (snode \<Rightarrow> nat list) \<Rightarrow> nat \<Rightarrow> snode \<Rightarrow> nat list" where
  "made_ready s L t = (if current_thread s = Some t then off t L
     else (off t L)(Ready (prio s t) := off t L (Ready (prio s t)) @ [t]))"

definition ready_stat :: "sched \<Rightarrow> nat \<Rightarrow> u8" where
  "ready_stat s t = (if current_thread s = Some t then RT_THREAD_RUNNING else RT_THREAD_READY)"

lemma made_ready_waiters: "made_ready s L t (Waiters i) = remove1 t (L (Waiters i))"
  by (simp add: made_ready_def off_def)

lemma insert_ready_ok:
  assumes ok: "kernel_ok k L T xs" and t: "t \<in> T" "st (client k) t = RT_THREAD_SUSPEND"
    "in_no_list (heads (client k)) L t" and n: "timer_of k t \<notin> set xs"
  obtains s' where "on_sched (rt_schedule_insert_thread t) k = Inr (k\<lparr>client := s'\<rparr>)"
    "kernel_ok (k\<lparr>client := s'\<rparr>) (if current_thread (client k) = Some t then L
       else L(Ready (prio (client k) t) := L (Ready (prio (client k) t)) @ [t])) T xs"
    "sched_frame (client k) s'"
    "threads s' = (threads (client k))(t := set_stat (ready_stat (client k) t) (threads (client k) t))"
proof -
  note so = kernel_okD(1)[OF ok] and tm = kernel_okD(2)[OF ok]
  obtain s' where s': "rt_schedule_insert_thread t (client k) = Inr s'"
    "sched_ok s' (if current_thread (client k) = Some t then L
       else L(Ready (prio (client k) t) := L (Ready (prio (client k) t)) @ [t])) T"
    "sched_frame (client k) s'"
    "threads s' = (threads (client k))(t := set_stat (if current_thread (client k) = Some t then RT_THREAD_RUNNING
       else RT_THREAD_READY) (threads (client k) t))"
    by (rule ready_sched[OF so t])
  have "timers_match (k\<lparr>client := s'\<rparr>) T xs"
    using n s'(4) sched_frameD(2)[OF s'(3)] by (intro timers_match_client[OF tm]) auto
  then show thesis using that[OF on_sched_Inr[of "rt_schedule_insert_thread t", OF s'(1)]] s'(2-4) by (simp add: kernel_ok_def ready_stat_def)
qed

lemma thread_resume_ok:
  assumes ok: "kernel_ok k L T xs" and t: "t \<in> T" "st (client k) t = RT_THREAD_SUSPEND"
  obtains k' where "rt_thread_resume t k = Inr (RT_EOK, k')"
    "kernel_ok k' (made_ready (client k) L t) T (remove1 (timer_of k t) xs)" "sched_frame (client k) (client k')"
    "threads (client k') = (threads (client k))(t := set_stat (ready_stat (client k) t) (threads (client k) t))"
    "rt_tick k' = rt_tick k" "\<And>x. x \<noteq> timer_of k t \<Longrightarrow> tm_timer k' x = tm_timer k x"
proof -
  note so = kernel_okD(1)[OF ok] and tm = kernel_okD(2)[OF ok]
  define s1 where "s1 = upd_sc_links (rt_list_remove (Thread t)) (client k)"
  define k1 where "k1 = k\<lparr>client := s1\<rparr>"
  have f1: "sched_frame (client k) s1" "threads s1 = threads (client k)" by (simp_all add: s1_def sched_frame_def)
  note so1 = unlink_sched[OF so t, folded s1_def]
  have tm1: "timers_match k1 T xs"
    unfolding k1_def by (intro timers_match_client[OF tm]) (simp_all add: s1_def)
  have c1: "client k1 = s1" by (simp add: k1_def)
  have y1: "timer_of k1 t = timer_of k t" by (simp add: c1 f1)
  obtain k2 where k2: "stop_thread_timer t k1 = Inr k2" "timers_match k2 T (remove1 (timer_of k t) xs)"
    "timers_but (timer_of k t) k1 k2" by (rule stop_thread_timer_ok[OF tm1 t(1), unfolded y1])
  have c2: "client k2 = s1" "rt_tick k2 = rt_tick k" using k2(3) c1 by (simp_all add: timers_but_def k1_def)
  have ok2: "kernel_ok k2 (off t L) T (remove1 (timer_of k t) xs)"
    using so1(1) k2(2) by (simp add: kernel_ok_def c2)
  have n2: "timer_of k2 t \<notin> set (remove1 (timer_of k t) xs)"
    using match_distinct[OF tm] by (simp add: c2 f1)
  have t2: "st (client k2) t = RT_THREAD_SUSPEND" "in_no_list (heads (client k2)) (off t L) t"
    using t(2) so1(2) sched_frameD(6)[OF f1(1)] by (simp_all add: c2 f1)
  obtain s' where s': "on_sched (rt_schedule_insert_thread t) k2 = Inr (k2\<lparr>client := s'\<rparr>)"
    "kernel_ok (k2\<lparr>client := s'\<rparr>) (if current_thread (client k2) = Some t then off t L
       else (off t L)(Ready (prio (client k2) t) := off t L (Ready (prio (client k2) t)) @ [t])) T
       (remove1 (timer_of k t) xs)"
    "sched_frame (client k2) s'"
    "threads s' = (threads (client k2))(t := set_stat (ready_stat (client k2) t) (threads (client k2) t))"
    by (rule insert_ready_ok[OF ok2 t(1) t2 n2])
  have e: "upd_sched (upd_sc_links (rt_list_remove (Thread t))) k = k1" by (simp add: upd_sched_def k1_def s1_def)
  have cur: "current_thread s1 = current_thread (client k)" using sched_frameD(5)[OF f1(1)] .
  have "rt_thread_resume t k = Inr (RT_EOK, k2\<lparr>client := s'\<rparr>)"
    using t(2) kernel_object[OF ok t(1)] k2(1) s'(1) by (simp add: rt_thread_resume_def e)
  moreover have "kernel_ok (k2\<lparr>client := s'\<rparr>) (made_ready (client k) L t) T (remove1 (timer_of k t) xs)"
    using s'(2) unfolding made_ready_def c2 f1 cur .
  moreover have "sched_frame (client k) s'" using f1(1) s'(3) by (simp add: sched_frame_def c2)
  moreover have "threads s' = (threads (client k))(t := set_stat (ready_stat (client k) t) (threads (client k) t))"
    using s'(4) by (simp add: c2 f1 ready_stat_def cur)
  moreover have "tm_timer (k2\<lparr>client := s'\<rparr>) x = tm_timer k x" if "x \<noteq> timer_of k t" for x
    using k2(3) that by (simp add: timers_but_def k1_def)
  ultimately show thesis using that c2(2) by simp
qed

end
