(* ===== verification/Kernel_Calls.thy ===== *)
theory Kernel_Calls
  imports Kernel_Facts
begin

text \<open>
  The calls of a running thread and the tick interrupt, on a kernel that keeps the invariant: what
  each leaves suspended, in which waiting lists, and that the highest priority runs afterwards.
\<close>

section \<open>Small changes\<close>

lemma kernel_upd_thread:
  assumes ok: "kernel_ok k L T xs" and f: "same_sched f" "\<And>th. th_timer (f th) = th_timer th"
  shows "kernel_ok (upd_sched (upd_thread t f) k) L T xs"
proof -
  have "timers_match (k\<lparr>client := upd_thread t f (client k)\<rparr>) T xs"
    using f by (intro timers_match_client[OF kernel_okD(2)[OF ok]]) (auto simp: same_sched_def)
  then show ?thesis
    using same_sched_ok[OF kernel_okD(1)[OF ok] f(1)] by (simp add: kernel_ok_def upd_sched_def)
qed

lemma same_sched_error: "same_sched (\<lambda>th. th\<lparr>th_error := e\<rparr>)"
  by (simp add: same_sched_def stat_of_def th_ok_def masked_def)

lemma same_sched_ticks: "same_sched (\<lambda>th. th\<lparr>remaining_tick := g th\<rparr>)"
  by (simp add: same_sched_def stat_of_def th_ok_def masked_def)

lemma same_sched_yield: "same_sched (\<lambda>th. th\<lparr>remaining_tick := th_init_tick th, th_stat := th_stat th OR RT_THREAD_STAT_YIELD\<rparr>)"
proof -
  have "stat_of (th\<lparr>remaining_tick := v, th_stat := th_stat th OR 8\<rparr>) = stat_of th" for th v
    using set_yield[of th] by (simp add: stat_of_def)
  then show ?thesis by (simp add: same_sched_def th_ok_def masked_def)
qed

lemma kernel_unlink:
  assumes ok: "kernel_ok k L T xs" and t: "t \<in> T" "st (client k) t = RT_THREAD_SUSPEND"
  shows "kernel_ok (upd_sched (upd_sc_links (rt_list_remove (Thread t))) k) (off t L) T xs"
proof -
  have "timers_match (k\<lparr>client := upd_sc_links (rt_list_remove (Thread t)) (client k)\<rparr>) T xs"
    by (intro timers_match_client[OF kernel_okD(2)[OF ok]]) simp_all
  then show ?thesis
    using unlink_sched(1)[OF kernel_okD(1)[OF ok] t] by (simp add: kernel_ok_def upd_sched_def)
qed

lemma cls_ready: "st s t = ready_stat s0 t \<Longrightarrow> cls s t = RT_THREAD_READY"
  by (simp add: cls_def ready_stat_def split: if_splits)

lemma busy_if: "t \<in> T \<Longrightarrow> cls s t = RT_THREAD_READY \<Longrightarrow> busy s T"
  by (auto simp: busy_def)

lemma stat_ready: "stat_of (set_stat (ready_stat s t) th) = ready_stat s t"
  by (simp add: ready_stat_def stat_set)

lemma ready_stat_neq [simp]: "ready_stat s t \<noteq> RT_THREAD_SUSPEND"
  by (simp add: ready_stat_def)

section \<open>Timeouts\<close>

lemma thread_timeout_ok:
  assumes ok: "kernel_ok k L T xs" and t: "t \<in> T" "st (client k) t = RT_THREAD_SUSPEND"
    and n: "timer_of k t \<notin> set xs" and c: "current_thread (client k) = Some c"
  obtains s' L' where "rt_thread_timeout t k = Inr (k\<lparr>client := s'\<rparr>)" "kernel_ok (k\<lparr>client := s'\<rparr>) L' T xs"
    "same_setup (client k) s'"
    "\<And>x. cls s' x = (if x = t then RT_THREAD_READY else cls (client k) x)"
    "\<And>i. sems (client k) i \<noteq> None \<Longrightarrow> L' (Waiters i) = remove1 t (L (Waiters i))"
    "lock_nest (client k) = 0 \<Longrightarrow> on_top s' T" "current_thread s' \<noteq> None"
    "\<And>x. th_error (threads s' x) = (if x = t then - RT_ETIMEOUT else th_error (threads (client k) x))"
proof -
  define f where "f = (\<lambda>th. th\<lparr>th_error := - RT_ETIMEOUT\<rparr> :: rt_thread)"
  define k1 where "k1 = upd_sched (upd_thread t f) k"
  define k2 where "k2 = upd_sched (upd_sc_links (rt_list_remove (Thread t))) k1"
  have fs: "same_sched f" "\<And>th. th_timer (f th) = th_timer th" "\<And>th. stat_of (f th) = stat_of th"
    using same_sched_error by (simp_all add: f_def stat_of_def)
  have ok1: "kernel_ok k1 L T xs" unfolding k1_def by (rule kernel_upd_thread[OF ok fs(1,2)])
  have t1: "st (client k1) t = RT_THREAD_SUSPEND" using t(2) fs(3) by (simp add: k1_def)
  have ok2: "kernel_ok k2 (off t L) T xs" unfolding k2_def by (rule kernel_unlink[OF ok1 t(1) t1])
  have h: "heads (client k2) = heads (client k)" by (simp add: k2_def k1_def heads_def)
  have c2: "threads (client k2) = (threads (client k))(t := f (threads (client k) t))"
    "current_thread (client k2) = Some c" "sems (client k2) = sems (client k)" by (simp_all add: k2_def k1_def c)
  have t2: "st (client k2) t = RT_THREAD_SUSPEND" "in_no_list (heads (client k2)) (off t L) t" "timer_of k2 t \<notin> set xs"
    using t(2) in_no_list_off[OF core_lists[OF ok_core[OF kernel_okD(1)[OF ok]]], of t] n fs
    by (simp_all add: c2 h)
  obtain s3 where s3: "on_sched (rt_schedule_insert_thread t) k2 = Inr (k2\<lparr>client := s3\<rparr>)"
    "kernel_ok (k2\<lparr>client := s3\<rparr>) (if current_thread (client k2) = Some t then off t L
       else (off t L)(Ready (prio (client k2) t) := off t L (Ready (prio (client k2) t)) @ [t])) T xs"
    "sched_frame (client k2) s3"
    "threads s3 = (threads (client k2))(t := set_stat (ready_stat (client k2) t) (threads (client k2) t))"
    by (rule insert_ready_ok[OF ok2 t(1) t2])
  define k3 where "k3 = k2\<lparr>client := s3\<rparr>"
  define L3 where "L3 = (if current_thread (client k2) = Some t then off t L
       else (off t L)(Ready (prio (client k2) t) := off t L (Ready (prio (client k2) t)) @ [t]))"
  have ok3: "kernel_ok k3 L3 T xs" using s3(2) by (simp only: k3_def L3_def)
  note fr = sched_frameD[OF s3(3)]
  have c3: "client k3 = s3" "current_thread (client k3) = Some c" using fr(5) by (simp_all add: k3_def c2)
  have st3: "st s3 x = (if x = t then ready_stat (client k2) t else st (client k) x)" for x
    by (simp add: s3(4) c2 stat_ready)
  have b3: "busy (client k3) T" using busy_if[OF t(1) cls_ready] st3[of t] c3(1) by simp
  obtain s' L' where s': "on_sched rt_schedule k3 = Inr (k3\<lparr>client := s'\<rparr>)" "kernel_ok (k3\<lparr>client := s'\<rparr>) L' T xs"
    "rescheduled (client k3) L3 T s' L'"
    by (rule kernel_schedule[OF ok3]) (use c3 in auto)
  note re = rescheduledD[OF s'(3)]
  have e: "k3\<lparr>client := s'\<rparr> = k\<lparr>client := s'\<rparr>" by (simp add: k3_def k2_def k1_def upd_sched_def)
  have "same_setup (client k) s3"
    using fr by (simp add: same_setup_def s3(4) c2 f_def) (simp add: k2_def k1_def)
  then have su: "same_setup (client k) s'" using same_setup_stat[OF re(1)] same_setup_trans c3(1) by metis
  have run: "rt_thread_timeout t k = Inr (k\<lparr>client := s'\<rparr>)"
    using t(2) kernel_object[OF ok t(1)] s3(1) s'(1)
    by (simp add: rt_thread_timeout_def assertE_def Let_def f_def[symmetric] k1_def[symmetric] k2_def[symmetric]
        k3_def[symmetric] e)
  have L': "L' (Waiters i) = remove1 t (L (Waiters i))" if "sems (client k) i \<noteq> None" for i
  proof -
    have "L' (Waiters i) = L3 (Waiters i)" using re(3) that fr(1) by (simp add: c3 c2)
    then show ?thesis by (simp add: L3_def off_def)
  qed
  have err: "th_error (threads s' x) = (if x = t then - RT_ETIMEOUT else th_error (threads (client k) x))" for x
    using same_but_stat_thread(3)[OF re(1), of x] by (simp add: c3 s3(4) c2 f_def)
  show thesis
  proof (rule that[OF run])
    show "kernel_ok (k\<lparr>client := s'\<rparr>) L' T xs" using s'(2) by (simp add: e)
    show "cls s' x = (if x = t then RT_THREAD_READY else cls (client k) x)" for x
    proof -
      have "cls s3 x = (if x = t then RT_THREAD_READY else cls (client k) x)"
        by (cases "x = t") (simp_all add: cls_def st3 ready_stat_def)
      then show ?thesis by (simp add: re(2) c3)
    qed
    show "lock_nest (client k) = 0 \<Longrightarrow> on_top s' T" using re(4) b3 fr(3) by (simp add: c3 k2_def k1_def)
  qed (use su L' err re(6) in auto)
qed

section \<open>The tick interrupt\<close>

text \<open>Timers that belong to no thread leave the kernel alone.\<close>

definition no_other :: "nat \<Rightarrow> kernel \<Rightarrow> kernel res" where
  "no_other m k = Inr k"

definition due :: "kernel \<Rightarrow> nat set \<Rightarrow> nat list \<Rightarrow> nat \<Rightarrow> bool" where
  "due k T xs t \<longleftrightarrow> t \<in> T \<and> timer_of k t \<in> set xs \<and> left k (timer_of k t) = 0"

text \<open>From one state to a later one the threads of \<open>D\<close> run out of time.\<close>

definition timed_out :: "(nat \<Rightarrow> bool) \<Rightarrow> sched \<Rightarrow> (snode \<Rightarrow> nat list) \<Rightarrow> nat set \<Rightarrow> sched \<Rightarrow> (snode \<Rightarrow> nat list) \<Rightarrow> bool" where
  "timed_out D s L T s' L' \<longleftrightarrow> same_setup s s'
     \<and> (\<forall>t. cls s' t = (if D t then RT_THREAD_READY else cls s t))
     \<and> (\<forall>i. sems s i \<noteq> None \<longrightarrow> L' (Waiters i) = filter (\<lambda>t. \<not> D t) (L (Waiters i)))
     \<and> (\<forall>t. th_error (threads s' t) = (if D t then - RT_ETIMEOUT else th_error (threads s t)))
     \<and> (lock_nest s = 0 \<longrightarrow> on_top s T \<longrightarrow> on_top s' T)
     \<and> (current_thread s \<noteq> None \<longrightarrow> current_thread s' \<noteq> None)"

lemma timed_out_refl: "timed_out (\<lambda>_. False) s L T s L"
  by (simp add: timed_out_def same_setup_def)

lemma timed_out_trans:
  assumes a: "timed_out D s L T s1 L1" and b: "timed_out E s1 L1 T s2 L2"
  shows "timed_out (\<lambda>t. D t \<or> E t) s L T s2 L2"
proof -
  have "sems s1 = sems s" "lock_nest s1 = lock_nest s" using a by (simp_all add: timed_out_def same_setup_def)
  moreover have "same_setup s s2" using a b same_setup_trans by (auto simp: timed_out_def)
  moreover have "L2 (Waiters i) = filter (\<lambda>t. \<not> (D t \<or> E t)) (L (Waiters i))" if "sems s i \<noteq> None" for i
  proof -
    have "L2 (Waiters i) = filter (\<lambda>t. \<not> E t) (L1 (Waiters i))"
      using b that calculation(1) by (simp add: timed_out_def)
    also have "L1 (Waiters i) = filter (\<lambda>t. \<not> D t) (L (Waiters i))" using a that by (simp add: timed_out_def)
    finally show ?thesis by (simp add: conj_commute)
  qed
  ultimately show ?thesis using a b by (simp add: timed_out_def)
qed

lemma on_top_busy: "on_top s T \<Longrightarrow> busy s T"
  by (auto simp: on_top_def busy_def cls_def)

lemma thread_slice_ok:
  assumes ok: "kernel_ok k L T xs" and c: "current_thread (client k) \<noteq> None"
  obtains s' L' where "thread_slice k = Inr (k\<lparr>client := s'\<rparr>)" "kernel_ok (k\<lparr>client := s'\<rparr>) L' T xs"
    "timed_out (\<lambda>_. False) (client k) L T s' L'"
proof -
  obtain t where t: "current_thread (client k) = Some t" using c by blast
  define f where "f = (\<lambda>th. th\<lparr>remaining_tick := remaining_tick th - 1\<rparr> :: rt_thread)"
  define g where "g = (\<lambda>th. th\<lparr>remaining_tick := th_init_tick th, th_stat := th_stat th OR RT_THREAD_STAT_YIELD\<rparr> :: rt_thread)"
  have fs: "same_sched f" "same_sched g" unfolding f_def g_def by (rule same_sched_ticks, rule same_sched_yield)
  have fg: "th_timer (f th) = th_timer th" "th_timer (g th) = th_timer th" "th_error (f th) = th_error th"
    "th_error (g th) = th_error th" for th by (simp_all add: f_def g_def)
  have upd: "timed_out (\<lambda>_. False) s L T (upd_thread t h s) L"
    if "same_sched h" "\<And>th. th_timer (h th) = th_timer th" "\<And>th. th_error (h th) = th_error th" for h s
  proof -
    define s1 where "s1 = upd_thread t h s"
    have "st s1 x = st s x" "current_priority (threads s1 x) = current_priority (threads s x)"
      "th_timer (threads s1 x) = th_timer (threads s x)" "th_error (threads s1 x) = th_error (threads s x)" for x
      using that by (simp_all add: s1_def same_sched_def)
    moreover have "sems s1 = sems s" "timer_param s1 = timer_param s" "lock_nest s1 = lock_nest s"
      "interrupt_nest s1 = interrupt_nest s" "current_thread s1 = current_thread s" by (simp_all add: s1_def)
    ultimately show ?thesis
      unfolding s1_def[symmetric] timed_out_def same_setup_def on_top_def cls_def by simp
  qed
  define k1 where "k1 = upd_sched (upd_thread t f) k"
  have ok1: "kernel_ok k1 L T xs" unfolding k1_def using kernel_upd_thread[OF ok fs(1) fg(1)] .
  have t1: "timed_out (\<lambda>_. False) (client k) L T (client k1) L"
    unfolding k1_def using upd[OF fs(1) fg(1,3)] by simp
  show thesis
  proof (cases "remaining_tick (threads (client k1) t) = 0")
    case False
    then have "thread_slice k = Inr (k\<lparr>client := client k1\<rparr>)"
      using t by (simp add: thread_slice_def Let_def k1_def f_def upd_sched_def)
    then show thesis using that ok1 t1 by (simp add: k1_def upd_sched_def)
  next
    case True
    define k2 where "k2 = upd_sched (upd_thread t g) k1"
    have ok2: "kernel_ok k2 L T xs" unfolding k2_def using kernel_upd_thread[OF ok1 fs(2) fg(2)] .
    have t2: "timed_out (\<lambda>_. False) (client k1) L T (client k2) L"
      unfolding k2_def using upd[OF fs(2) fg(2,4)] by simp
    have c2: "current_thread (client k2) \<noteq> None" using t by (simp add: k2_def k1_def)
    obtain s' L' where s': "on_sched rt_schedule k2 = Inr (k2\<lparr>client := s'\<rparr>)"
      "kernel_ok (k2\<lparr>client := s'\<rparr>) L' T xs" "rescheduled (client k2) L T s' L'"
      by (rule kernel_schedule[OF ok2 c2])
    note re = rescheduledD[OF s'(3)]
    have e: "k2\<lparr>client := s'\<rparr> = k\<lparr>client := s'\<rparr>" by (simp add: k2_def k1_def upd_sched_def)
    have "thread_slice k = Inr (k\<lparr>client := s'\<rparr>)"
      using t True s'(1)
      by (simp add: thread_slice_def Let_def f_def[symmetric] g_def[symmetric] k1_def[symmetric] k2_def[symmetric]
          rt_thread_yield_def e)
    moreover have "timed_out (\<lambda>_. False) (client k2) L T s' L'"
      unfolding timed_out_def using same_setup_stat[OF re(1)] re(2-6) same_but_stat_thread(3)[OF re(1)] on_top_busy
      by simp
    then have "timed_out (\<lambda>_. False) (client k) L T s' L'"
      using timed_out_trans[OF timed_out_trans[OF t1 t2]] by simp
    ultimately show thesis using that s'(2) by (simp add: e)
  qed
qed

text \<open>A timer that is due: its thread, when it has one, times out.\<close>

lemma kernel_timeout_ok:
  assumes ok: "kernel_ok k L T xs" and c: "current_thread (client k) \<noteq> None"
    and m: "m \<notin> set xs" "\<And>t. timer_param (client k) m = Some t
      \<Longrightarrow> t \<in> T \<and> timer_of k t = m \<and> st (client k) t = RT_THREAD_SUSPEND"
  obtains s' L' where "kernel_timeout no_other m k = Inr (k\<lparr>client := s'\<rparr>)" "kernel_ok (k\<lparr>client := s'\<rparr>) L' T xs"
    "timed_out (\<lambda>t. timer_param (client k) m = Some t) (client k) L T s' L'"
proof (cases "timer_param (client k) m")
  case None
  have "kernel_timeout no_other m k = Inr (k\<lparr>client := client k\<rparr>)"
    using None by (simp add: kernel_timeout_def no_other_def)
  then show thesis using that[of "client k" L] ok timed_out_refl None by simp
next
  case (Some t)
  then have t: "t \<in> T" "timer_of k t = m" "st (client k) t = RT_THREAD_SUSPEND" using m(2) by auto
  obtain d where c: "current_thread (client k) = Some d" using c by blast
  have n: "timer_of k t \<notin> set xs" using m(1) t(2) by simp
  have so: "sched_ok (client k) L T" using kernel_okD(1)[OF ok] .
  obtain s' L' where s': "rt_thread_timeout t k = Inr (k\<lparr>client := s'\<rparr>)" "kernel_ok (k\<lparr>client := s'\<rparr>) L' T xs"
    "same_setup (client k) s'"
    "\<And>x. cls s' x = (if x = t then RT_THREAD_READY else cls (client k) x)"
    "\<And>i. sems (client k) i \<noteq> None \<Longrightarrow> L' (Waiters i) = remove1 t (L (Waiters i))"
    "lock_nest (client k) = 0 \<Longrightarrow> on_top s' T" "current_thread s' \<noteq> None"
    "\<And>x. th_error (threads s' x) = (if x = t then - RT_ETIMEOUT else th_error (threads (client k) x))"
    by (rule thread_timeout_ok[OF ok t(1,3) n c]) blast
  have "L' (Waiters i) = filter (\<lambda>x. t \<noteq> x) (L (Waiters i))" if "sems (client k) i \<noteq> None" for i
    using s'(5)[OF that] sc_distinct[OF core_lists[OF ok_core[OF so]], of "Waiters i"] that
    by (simp add: distinct_remove1_removeAll removeAll_filter_not_eq)
  then have "timed_out (\<lambda>x. timer_param (client k) m = Some x) (client k) L T s' L'"
    unfolding timed_out_def Some using s'(3,4,6-8) by auto
  moreover have "kernel_timeout no_other m k = Inr (k\<lparr>client := s'\<rparr>)" using s'(1) Some by (simp add: kernel_timeout_def)
  ultimately show thesis using that s'(2) by blast
qed

lemma kernel_fire_ok:
  assumes ok: "kernel_ok k L T (m # us)" and c: "current_thread (client k) \<noteq> None"
  obtains k' L' xs' where "timer_fire (kernel_timeout no_other) m k = Inr k'" "kernel_ok k' L' T xs'"
    "timed_out (\<lambda>t. timer_param (client k) m = Some t) (client k) L T (client k') L'"
    "set xs' = (if has_flag RT_TIMER_FLAG_PERIODIC (tm_timer k m) then insert m (set us) else set us)"
    "tm_timer k' = (tm_timer k)(m := fired (rt_tick k) (tm_timer k m))" "rt_tick k' = rt_tick k"
proof -
  have tm: "timers_match k T (m # us)" and so: "sched_ok (client k) L T" using kernel_okD[OF ok] by simp_all
  have tok: "tm_ok k (m # us) []" using tm by (simp add: timers_match_def)
  have l: "tm_lists k (m # us) []" using tok by (simp add: tm_ok_def)
  have mo: "tm_obj k m \<noteq> None" "m \<notin> set us" using l tm_lists_distinct[OF l] by (auto simp: tm_lists_def)
  define k1 where "k1 = rt_timer_remove m k"
  have f1: "client k1 = client k" "tm_obj k1 = tm_obj k" "tm_timer k1 = tm_timer k" "rt_tick k1 = rt_tick k"
    by (simp_all add: k1_def)
  have l1: "tm_lists k1 us []" using remove_lists[OF l mo(1)] by (simp add: k1_def)
  have lf: "left k1 = left k" by (simp add: fun_eq_iff left_def f1)
  have tok1: "tm_ok k1 us []" using tok l1 by (simp add: tm_ok_def lf f1)
  have tm1: "timers_match k1 T us" by (rule timers_match_same_client[OF tm tok1 f1(1,2)]) (auto simp: f1)
  have ok1: "kernel_ok k1 L T us" using so tm1 by (simp add: kernel_ok_def f1)
  have mt: "t \<in> T \<and> timer_of k1 t = m \<and> st (client k1) t = RT_THREAD_SUSPEND"
    if "timer_param (client k1) m = Some t" for t
    using match_suspended[OF tm, of m t] that by (simp add: f1)
  have c1: "current_thread (client k1) \<noteq> None" using c by (simp add: f1)
  obtain w L' where w: "kernel_timeout no_other m k1 = Inr (k1\<lparr>client := w\<rparr>)" "kernel_ok (k1\<lparr>client := w\<rparr>) L' T us"
    "timed_out (\<lambda>t. timer_param (client k1) m = Some t) (client k1) L T w L'"
    by (rule kernel_timeout_ok[OF ok1 c1 mo(2) mt])
  define act where "act = (\<lambda>(_ :: nat) (_ :: sched). Inr w :: sched res)"
  have "timer_fire (kernel_timeout no_other) m k = timer_fire (client_cb act) m k"
    using w(1) by (simp add: timer_fire_def client_cb_def act_def k1_def[symmetric])
  moreover obtain k' xs' where k': "timer_fire (client_cb act) m k = Inr k'" "tm_ok k' xs' []"
    "set xs' = (if has_flag RT_TIMER_FLAG_PERIODIC (tm_timer k m) then insert m (set us) else set us)"
    "tm_timer k' = (tm_timer k)(m := fired (rt_tick k) (tm_timer k m))"
    "client k' = w" "rt_tick k' = rt_tick k" "tm_obj k' = tm_obj k"
    using timer_fire_ok[OF tok, of act w] by (auto simp: act_def)
  moreover have "timers_match k' T xs'"
  proof (rule timers_match_same_client[OF kernel_okD(2)[OF w(2)] k'(2)])
    show "client k' = client (k1\<lparr>client := w\<rparr>)" "tm_obj k' = tm_obj (k1\<lparr>client := w\<rparr>)" by (simp_all add: k' f1)
    show "has_flag b (tm_timer k' x) = has_flag b (tm_timer (k1\<lparr>client := w\<rparr>) x)"
      if "b = RT_TIMER_FLAG_PERIODIC \<or> b = RT_TIMER_FLAG_SOFT_TIMER" for x b
      using that by (auto simp: k'(4) f1 fired_def)
    fix x assume x: "x \<in> set xs'"
    have "timer_param (client k) m = None" if "has_flag RT_TIMER_FLAG_PERIODIC (tm_timer k m)"
    proof (rule ccontr)
      assume "timer_param (client k) m \<noteq> None"
      then obtain t where "t \<in> T" "timer_of k t = m" using mt by (auto simp: f1)
      then show False using thread_timerD(3)[OF match_timer[OF tm]] that by auto
    qed
    moreover have "timer_param w = timer_param (client k)" using w(3) by (simp add: timed_out_def same_setup_def f1)
    ultimately show "x \<in> set us \<or> (\<exists>t\<in>T. x = timer_of (k1\<lparr>client := w\<rparr>) t
      \<and> st (client (k1\<lparr>client := w\<rparr>)) t = RT_THREAD_SUSPEND) \<or> timer_param (client (k1\<lparr>client := w\<rparr>)) x = None"
      using x k'(3) by (auto split: if_splits)
  qed
  then have "kernel_ok k' L' T xs'" using kernel_okD(1)[OF w(2)] by (simp add: kernel_ok_def k'(5))
  ultimately show thesis using that w(3) by (simp add: f1)
qed

text \<open>The check of the tick interrupt lets every thread time out whose time is over.\<close>

lemma kernel_check_ok:
  "kernel_ok k L T xs \<Longrightarrow> current_thread (client k) \<noteq> None
   \<Longrightarrow> (\<And>x. x \<in> set xs \<Longrightarrow> has_flag RT_TIMER_FLAG_PERIODIC (tm_timer k x) \<Longrightarrow> init_tick (tm_timer k x) \<noteq> 0)
   \<Longrightarrow> \<exists>k' L' xs'. check_loop (kernel_timeout no_other) (rt_tick k) k = Some (Inr k') \<and> kernel_ok k' L' T xs'
     \<and> (\<forall>x\<in>set xs'. left k' x \<noteq> 0
          \<and> (has_flag RT_TIMER_FLAG_PERIODIC (tm_timer k' x) \<longrightarrow> init_tick (tm_timer k' x) \<noteq> 0))
     \<and> timed_out (due k T xs) (client k) L T (client k') L' \<and> rt_tick k' = rt_tick k
     \<and> (\<forall>x\<in>set xs. left k x \<noteq> 0 \<longrightarrow> x \<in> set xs' \<and> left k' x = left k x)"
proof (induction "card {x \<in> set xs. left k x = 0}" arbitrary: k L xs)
  case 0
  then have nz: "\<forall>x\<in>set xs. left k x \<noteq> 0" by auto
  have tok: "tm_ok k xs []" using 0(2) by (simp add: kernel_ok_def timers_match_def)
  have d: "dlist (tm_links k) Hard_List (map Row xs)" using tok by (simp add: tm_ok_def tm_lists_def)
  have "check_loop (kernel_timeout no_other) (rt_tick k) k = Some (Inr k)"
  proof (cases xs)
    case Nil
    then show ?thesis using dlist_empty[OF d] by (subst check_loop.simps) simp
  next
    case (Cons t us)
    have "\<not> rt_tick k - timeout_tick (tm_timer k t) < HALF_TICK"
      using due_left[of "rt_tick k" "tm_timer k t"] tok nz Cons by (simp add: tm_ok_def left_def)
    then show ?thesis
      using dlist_empty[OF d] dlist_first[of "tm_links k" Hard_List "Row t" "map Row us"] d Cons
      by (subst check_loop.simps) simp
  qed
  moreover have "due k T xs = (\<lambda>_. False)" using nz by (auto simp: due_def fun_eq_iff)
  ultimately show ?case using 0 nz timed_out_refl by (intro exI[of _ k] exI[of _ L] exI[of _ xs]) auto
next
  case (Suc n)
  have tm: "timers_match k T xs" using kernel_okD(2)[OF Suc.prems(1)] .
  have tok: "tm_ok k xs []" using tm by (simp add: timers_match_def)
  have "{x \<in> set xs. left k x = 0} \<noteq> {}" using Suc.hyps(2) by (metis card.empty Zero_not_Suc)
  then obtain z where z: "z \<in> set xs" "left k z = 0" by auto
  then obtain m us where xs: "xs = m # us" by (cases xs) auto
  have l: "tm_lists k xs []" and so: "sorted (map (left k) xs)" using tok by (simp_all add: tm_ok_def)
  have "left k m \<le> left k z" using so z xs by auto
  then have m0: "left k m = 0" using z(2) left_nonneg[of k m] by linarith
  have d: "dlist (tm_links k) Hard_List (map Row xs)" using l by (simp add: tm_lists_def)
  have mus: "m \<notin> set us" using tm_lists_distinct[OF l] xs by simp
  obtain k1 L1 xs1 where k1: "timer_fire (kernel_timeout no_other) m k = Inr k1" "kernel_ok k1 L1 T xs1"
    "timed_out (\<lambda>t. timer_param (client k) m = Some t) (client k) L T (client k1) L1"
    "set xs1 = (if has_flag RT_TIMER_FLAG_PERIODIC (tm_timer k m) then insert m (set us) else set us)"
    "tm_timer k1 = (tm_timer k)(m := fired (rt_tick k) (tm_timer k m))" "rt_tick k1 = rt_tick k"
    by (rule kernel_fire_ok[OF Suc.prems(1)[unfolded xs] Suc.prems(2)])
  have lf: "left k1 x = left k x" if "x \<noteq> m" for x using that k1(5,6) by (simp add: left_def)
  have lm: "left k1 m \<noteq> 0" if "has_flag RT_TIMER_FLAG_PERIODIC (tm_timer k m)"
    using that Suc.prems(3)[of m] k1(5,6) xs by (simp add: left_def fired_def left_started uint_0_iff)
  have lus: "left k1 x = left k x \<and> tm_timer k1 x = tm_timer k x" if "x \<in> set us" for x
    using that mus lf[of x] k1(5) by auto
  have "{x \<in> set xs1. left k1 x = 0} = {x \<in> set xs. left k x = 0} - {m}"
    using k1(4) lus lm xs mus by (auto split: if_splits)
  then have "n = card {x \<in> set xs1. left k1 x = 0}" using Suc.hyps(2) m0 xs by simp
  moreover have per: "init_tick (tm_timer k1 x) \<noteq> 0"
    if "x \<in> set xs1" "has_flag RT_TIMER_FLAG_PERIODIC (tm_timer k1 x)" for x
    using that Suc.prems(3)[of x] k1(4,5) xs by (auto simp: fired_def split: if_splits)
  moreover have c1: "current_thread (client k1) \<noteq> None" using k1(3) Suc.prems(2) by (simp add: timed_out_def)
  ultimately obtain k' L' xs' where k': "check_loop (kernel_timeout no_other) (rt_tick k1) k1 = Some (Inr k')"
    "kernel_ok k' L' T xs'" "\<forall>x\<in>set xs'. left k' x \<noteq> 0
          \<and> (has_flag RT_TIMER_FLAG_PERIODIC (tm_timer k' x) \<longrightarrow> init_tick (tm_timer k' x) \<noteq> 0)"
    "timed_out (due k1 T xs1) (client k1) L1 T (client k') L'" "rt_tick k' = rt_tick k1"
    "\<forall>x\<in>set xs1. left k1 x \<noteq> 0 \<longrightarrow> x \<in> set xs' \<and> left k' x = left k1 x"
    using Suc.hyps(1)[of xs1 k1 L1] k1(2) by blast
  have due: "due k T xs t \<longleftrightarrow> timer_param (client k) m = Some t \<or> due k1 T xs1 t" for t
  proof (cases "t \<in> T")
    case True
    have y: "timer_of k1 t = timer_of k t" using k1(3) by (simp add: timed_out_def same_setup_def)
    have p: "timer_param (client k) m = Some t \<longleftrightarrow> timer_of k t = m"
      using thread_timerD(2)[OF match_timer[OF tm True]] match_suspended[OF tm, of m t] xs by auto
    have np: "\<not> has_flag RT_TIMER_FLAG_PERIODIC (tm_timer k m)" if "timer_of k t = m"
      using thread_timerD(3)[OF match_timer[OF tm True]] that by simp
    show ?thesis
      using True m0 xs k1(4) lus mus np by (cases "timer_of k t = m") (auto simp: due_def y p lf split: if_splits)
  next
    case False
    then show ?thesis using match_suspended[OF tm, of m t] xs by (auto simp: due_def)
  qed
  have "rt_tick k - timeout_tick (tm_timer k m) < HALF_TICK"
    using due_left[of "rt_tick k" "tm_timer k m"] tok m0 xs by (simp add: tm_ok_def left_def)
  then have "check_loop (kernel_timeout no_other) (rt_tick k) k = Some (Inr k')"
    using dlist_empty[OF d] dlist_first[of "tm_links k" Hard_List "Row m" "map Row us"] d xs k1(1) k'(1)
    by (subst check_loop.simps) simp
  moreover have "timed_out (due k T xs) (client k) L T (client k') L'"
  proof -
    have "due k T xs = (\<lambda>t. timer_param (client k) m = Some t \<or> due k1 T xs1 t)" using due by (rule ext)
    then show ?thesis using timed_out_trans[OF k1(3) k'(4)] by (simp only:)
  qed
  moreover have "x \<in> set xs' \<and> left k' x = left k x" if "x \<in> set xs" "left k x \<noteq> 0" for x
  proof -
    have "x \<noteq> m" using that(2) m0 by auto
    then have "x \<in> set us" using that(1) xs by simp
    then have "x \<in> set xs1" "left k1 x = left k x" using k1(4) lus by auto
    then show ?thesis using k'(6) that(2) by simp
  qed
  ultimately show ?case
    using k'(2,3,5) k1(6) by (intro exI[of _ k'] exI[of _ L'] exI[of _ xs']) simp
qed

text \<open>No timer is due between the ticks.\<close>

definition none_due :: "kernel \<Rightarrow> nat list \<Rightarrow> bool" where
  "none_due k xs \<longleftrightarrow> (\<forall>x\<in>set xs. left k x \<noteq> 0
     \<and> (has_flag RT_TIMER_FLAG_PERIODIC (tm_timer k x) \<longrightarrow> init_tick (tm_timer k x) \<noteq> 0))"

definition last_tick :: "kernel \<Rightarrow> nat set \<Rightarrow> nat list \<Rightarrow> nat \<Rightarrow> bool" where
  "last_tick k T xs t \<longleftrightarrow> t \<in> T \<and> timer_of k t \<in> set xs \<and> left k (timer_of k t) = 1"

lemma kernel_tick_ok:
  assumes ok: "kernel_ok k L T xs" and n: "none_due k xs" and c: "current_thread (client k) \<noteq> None"
  obtains k' L' xs' where "kernel_tick no_other k = Inr k'" "kernel_ok k' L' T xs'" "none_due k' xs'"
    "timed_out (last_tick k T xs) (client k) L T (client k') L'" "rt_tick k' = rt_tick k + 1"
    "\<And>x. x \<in> set xs \<Longrightarrow> left k x \<noteq> 1 \<Longrightarrow> x \<in> set xs' \<and> left k' x = left k x - 1"
proof -
  define k0 where "k0 = k\<lparr>rt_tick := rt_tick k + 1\<rparr>"
  have f0: "client k0 = client k" "tm_obj k0 = tm_obj k" "tm_timer k0 = tm_timer k" "tm_links k0 = tm_links k"
    by (simp_all add: k0_def)
  have tm: "timers_match k T xs" using kernel_okD(2)[OF ok] .
  have l0: "left k0 x = left k x - 1" if "x \<in> set xs" for x
    using n that left_next[of "rt_tick k" "tm_timer k x"] by (simp add: none_due_def left_def k0_def)
  have "map (left k0) xs = map (\<lambda>x. left k x - 1) xs" using l0 by simp
  moreover have "sorted (map (\<lambda>x. left k x - 1) xs)"
    using tm by (intro sorted_minus_one) (simp add: timers_match_def tm_ok_def)
  ultimately have "sorted (map (left k0) xs)" by (simp only:)
  then have "tm_ok k0 xs []"
    using tm l0 tm_lists_cong[OF f0(4,2)] by (fastforce simp: timers_match_def tm_ok_def f0)
  then have "timers_match k0 T xs" by (rule timers_match_same_client[OF tm _ f0(1,2)]) (auto simp: f0)
  then have ok0: "kernel_ok k0 L T xs" using kernel_okD(1)[OF ok] by (simp add: kernel_ok_def f0)
  have c0: "current_thread (client k0) \<noteq> None" using c by (simp add: f0)
  obtain s1 L1 where s1: "thread_slice k0 = Inr (k0\<lparr>client := s1\<rparr>)" "kernel_ok (k0\<lparr>client := s1\<rparr>) L1 T xs"
    "timed_out (\<lambda>_. False) (client k0) L T s1 L1"
    by (rule thread_slice_ok[OF ok0 c0])
  define k1 where "k1 = k0\<lparr>client := s1\<rparr>"
  have f1: "tm_timer k1 = tm_timer k" "rt_tick k1 = rt_tick k + 1" "client k1 = s1"
    by (simp_all add: k1_def f0) (simp add: k0_def)
  have l1: "left k1 x = left k0 x" for x by (simp add: k1_def left_def)
  have c1: "current_thread (client k1) \<noteq> None" using s1(3) c0 by (simp add: timed_out_def f1(3))
  have per: "init_tick (tm_timer k1 x) \<noteq> 0" if "x \<in> set xs" "has_flag RT_TIMER_FLAG_PERIODIC (tm_timer k1 x)" for x
    using n that by (simp add: none_due_def f1)
  obtain k' L' xs' where k': "check_loop (kernel_timeout no_other) (rt_tick k1) k1 = Some (Inr k')"
    "kernel_ok k' L' T xs'" "none_due k' xs'" "timed_out (due k1 T xs) (client k1) L1 T (client k') L'"
    "rt_tick k' = rt_tick k1" "\<forall>x\<in>set xs. left k1 x \<noteq> 0 \<longrightarrow> x \<in> set xs' \<and> left k' x = left k1 x"
    using kernel_check_ok[OF s1(2)[folded k1_def] c1 per] unfolding none_due_def by blast
  have y: "timer_of k1 t = timer_of k t" for t using s1(3) by (simp add: timed_out_def same_setup_def f0 f1(3))
  have "due k1 T xs = last_tick k T xs"
    using l0 by (auto simp: due_def last_tick_def y l1 fun_eq_iff)
  then have "timed_out (last_tick k T xs) (client k) L T (client k') L'"
    using timed_out_trans[OF s1(3) k'(4)[unfolded f1(3)]] by (simp add: f0)
  moreover have "kernel_tick no_other k = Inr k'"
    using s1(1) k'(1) by (simp add: kernel_tick_def rt_tick_increase_def rt_timer_check_def k0_def[symmetric] k1_def[symmetric])
  moreover have "x \<in> set xs' \<and> left k' x = left k x - 1" if "x \<in> set xs" "left k x \<noteq> 1" for x
    using k'(6) that l0[OF that(1)] by (auto simp: l1)
  ultimately show thesis using that k'(2,3,5) f1(2) by simp
qed

end
