(* ===== verification/Ipc_Facts.thy ===== *)
theory Ipc_Facts
  imports Kernel_Calls
begin

text \<open>
  Blocking calls and semaphores: what \<open>rt_thread_sleep\<close>, \<open>rt_sem_take\<close> and \<open>rt_sem_release\<close> do to
  the waiting lists, in order of arrival or of priority, and to the value.
\<close>

section \<open>The place in a waiting list\<close>

definition prio_insert :: "(nat \<Rightarrow> rt_thread) \<Rightarrow> u8 \<Rightarrow> nat \<Rightarrow> nat list \<Rightarrow> nat list" where
  "prio_insert ths p t ws = takeWhile (\<lambda>x. current_priority (ths x) \<le> p) ws @ t
     # dropWhile (\<lambda>x. current_priority (ths x) \<le> p) ws"

definition queue_in :: "u8 \<Rightarrow> (nat \<Rightarrow> rt_thread) \<Rightarrow> u8 \<Rightarrow> nat \<Rightarrow> nat list \<Rightarrow> nat list" where
  "queue_in flag ths p t ws = (if flag = RT_IPC_FLAG_FIFO then ws @ [t] else prio_insert ths p t ws)"

lemma set_prio_insert [simp]: "set (prio_insert ths p t ws) = insert t (set ws)"
  unfolding prio_insert_def using takeWhile_dropWhile_id by (metis Un_insert_right list.simps(15) set_append)

lemma set_queue_in [simp]: "set (queue_in flag ths p t ws) = insert t (set ws)"
  by (auto simp: queue_in_def)

lemma prio_point_walk:
  assumes h: "is_head h" and d: "dlist ls h (map Thread (us @ vs))"
  shows "prio_point ls ths h p (hd (map Thread vs @ [h]))
    = Some (Inr (hd (map Thread (dropWhile (\<lambda>x. current_priority (ths x) \<le> p) vs) @ [h])))"
  using d
proof (induction vs arbitrary: us)
  case Nil
  then show ?case by (subst prio_point.simps) simp
next
  case (Cons v vs)
  have hv: "Thread v \<noteq> h" using h by (auto simp: is_head_def)
  have "chain ls h (map Thread us @ Thread v # map Thread vs) h" using Cons.prems by (simp add: dlist_def)
  then have "chain ls (Thread v) (map Thread vs) h" by (simp add: chain_app)
  then have nx: "nxt ls (Thread v) = hd (map Thread vs @ [h])" by (simp add: chain_ends)
  show ?case
  proof (cases "p < current_priority (ths v)")
    case True
    then have "\<not> current_priority (ths v) \<le> p" by simp
    then show ?thesis using True hv by (subst prio_point.simps) simp
  next
    case False
    moreover have "prio_point ls ths h p (hd (map Thread vs @ [h]))
      = Some (Inr (hd (map Thread (dropWhile (\<lambda>x. current_priority (ths x) \<le> p) vs) @ [h])))"
      using Cons.IH[of "us @ [v]"] Cons.prems by simp
    moreover have "current_priority (ths v) \<le> p" using False by simp
    ultimately show ?thesis using hv nx by (subst prio_point.simps) simp
  qed
qed

lemma kernel_enqueue:
  assumes ok: "kernel_ok k L T xs" and t: "t \<in> T" "st (client k) t = RT_THREAD_SUSPEND"
    "in_no_list (heads (client k)) L t" and i: "sems (client k) i \<noteq> None" and L: "L (Waiters i) = us @ vs"
  shows "kernel_ok (upd_sched (upd_sc_links (rt_list_insert_before (hd (map Thread vs @ [Waiters i])) (Thread t))) k)
    (L(Waiters i := us @ t # vs)) T xs"
proof -
  have "timers_match (k\<lparr>client := upd_sc_links (rt_list_insert_before (hd (map Thread vs @ [Waiters i])) (Thread t))
    (client k)\<rparr>) T xs"
    by (intro timers_match_client[OF kernel_okD(2)[OF ok]]) simp_all
  then show ?thesis
    using enqueue_sched[OF kernel_okD(1)[OF ok] t i L] by (simp add: kernel_ok_def upd_sched_def)
qed

text \<open>The running thread is in no list: its suspension changes none.\<close>

lemma suspend_running_ok:
  assumes ok: "kernel_ok k L T xs" and t: "t \<in> T" "st (client k) t = RT_THREAD_RUNNING"
  obtains k1 where "rt_thread_suspend t k = Inr (RT_EOK, k1)" "kernel_ok k1 L T xs"
    "in_no_list (heads (client k1)) L t" "st (client k1) t = RT_THREAD_SUSPEND"
    "sched_frame (client k) (client k1)"
    "threads (client k1) = (threads (client k))(t := set_stat RT_THREAD_SUSPEND (threads (client k) t))"
    "rt_tick k1 = rt_tick k" "\<And>x. x \<in> set xs \<Longrightarrow> tm_timer k1 x = tm_timer k x"
proof -
  note so = kernel_okD(1)[OF ok]
  obtain k1 where k1: "rt_thread_suspend t k = Inr (RT_EOK, k1)" "kernel_ok k1 (off t L) T xs"
    "in_no_list (heads (client k1)) (off t L) t" "sched_frame (client k) (client k1)"
    "threads (client k1) = (threads (client k))(t := set_stat RT_THREAD_SUSPEND (threads (client k) t))"
    "rt_tick k1 = rt_tick k" "\<And>x. x \<in> set xs \<Longrightarrow> tm_timer k1 x = tm_timer k x" "st (client k1) t = RT_THREAD_SUSPEND"
    by (rule thread_suspend_ok[OF ok t(1)]) (use t(2) in auto)
  note fr = sched_frameD[OF k1(4)]
  have nl: "in_no_list (heads (client k)) L t" using no_list_if_stat[OF ok_core[OF so]] t(2) by simp
  have offL: "off t L h = L h" if "h \<in> heads (client k)" for h using off_idem[OF nl that] .
  have ok1: "kernel_ok k1 L T xs"
  proof -
    have "sched_core (client k1) L T"
      using ok_core[OF kernel_okD(1)[OF k1(2)]] offL fr(6) sc_cong[of _ _ "off t L" T L]
      unfolding sched_core_def by (auto simp del: heads_simps) (metis heads_simps(1) offL)+
    then show ?thesis
      using kernel_okD[OF k1(2)] sched_ok_same_threads[OF kernel_okD(1)[OF k1(2)], of "client k1" L]
      by (auto simp: kernel_ok_def sched_frame_def off_def dest: in_set_remove1[THEN iffD1, rotated] notin_set_remove1)
  qed
  have "in_no_list (heads (client k1)) L t" using nl fr(6) by simp
  then show thesis using that[OF k1(1) ok1 _ k1(8,4-7)] by blast
qed

lemma ipc_list_suspend_ok:
  assumes ok: "kernel_ok k L T xs" and t: "t \<in> T" "st (client k) t = RT_THREAD_RUNNING"
    and i: "sems (client k) i \<noteq> None" and fl: "flag = RT_IPC_FLAG_FIFO \<or> flag = RT_IPC_FLAG_PRIO"
  obtains k' where "rt_ipc_list_suspend (Waiters i) t flag k = Inr k'"
    "kernel_ok k' (L(Waiters i := queue_in flag (threads (client k)) (current_priority (threads (client k) t)) t
       (L (Waiters i)))) T xs"
    "sched_frame (client k) (client k')"
    "threads (client k') = (threads (client k))(t := set_stat RT_THREAD_SUSPEND (threads (client k) t))"
    "rt_tick k' = rt_tick k" "\<And>x. x \<in> set xs \<Longrightarrow> tm_timer k' x = tm_timer k x"
proof -
  obtain k1 where k1: "rt_thread_suspend t k = Inr (RT_EOK, k1)" "kernel_ok k1 L T xs"
    "in_no_list (heads (client k1)) L t" "st (client k1) t = RT_THREAD_SUSPEND" "sched_frame (client k) (client k1)"
    "threads (client k1) = (threads (client k))(t := set_stat RT_THREAD_SUSPEND (threads (client k) t))"
    "rt_tick k1 = rt_tick k" "\<And>x. x \<in> set xs \<Longrightarrow> tm_timer k1 x = tm_timer k x"
    by (rule suspend_running_ok[OF ok t]) blast
  note ok1 = k1(2)
  define ws where "ws = L (Waiters i)"
  define p where "p = current_priority (threads (client k) t)"
  have i1: "sems (client k1) i \<noteq> None" using i sched_frameD(1)[OF k1(5)] by simp
  have tp: "prio_point (sc_links (client k1)) (threads (client k1)) (Waiters i) p (nxt (sc_links (client k1)) (Waiters i))
    = Some (Inr (hd (map Thread (dropWhile (\<lambda>x. current_priority (threads (client k) x) \<le> p) ws) @ [Waiters i])))"
  proof -
    have d: "dlist (sc_links (client k1)) (Waiters i) (map Thread ([] @ ws))"
      using sc_dlist[OF core_lists[OF ok_core[OF kernel_okD(1)[OF ok1]]], of "Waiters i"] i1 by (simp add: ws_def)
    have "nxt (sc_links (client k1)) (Waiters i) = hd (map Thread ws @ [Waiters i])"
      using d chain_ends[of "sc_links (client k1)" "Waiters i" "map Thread ws" "Waiters i"] by (simp add: dlist_def)
    moreover have "current_priority (threads (client k1) x) = current_priority (threads (client k) x)" for x
      by (simp add: k1(6))
    ultimately show ?thesis using prio_point_walk[OF _ d, of "threads (client k1)" p] by simp
  qed
  define us vs where "us = (if flag = RT_IPC_FLAG_FIFO then ws
      else takeWhile (\<lambda>x. current_priority (threads (client k) x) \<le> p) ws)"
    and "vs = (if flag = RT_IPC_FLAG_FIFO then []
      else dropWhile (\<lambda>x. current_priority (threads (client k) x) \<le> p) ws)"
  define k' where "k' = upd_sched (upd_sc_links (rt_list_insert_before (hd (map Thread vs @ [Waiters i])) (Thread t))) k1"
  have L: "L (Waiters i) = us @ vs" by (simp add: us_def vs_def ws_def)
  have q: "us @ t # vs = queue_in flag (threads (client k)) p t ws"
    by (simp add: us_def vs_def queue_in_def prio_insert_def)
  have ok': "kernel_ok k' (L(Waiters i := us @ t # vs)) T xs"
    unfolding k'_def by (rule kernel_enqueue[OF ok1 t(1) k1(4,3) i1 L])
  have "current_priority (threads (client k1) t) = p" by (simp add: k1(6) p_def)
  then have "rt_ipc_list_suspend (Waiters i) t flag k = Inr k'"
    using k1(1) tp fl by (auto simp: rt_ipc_list_suspend_def Let_def k'_def vs_def)
  moreover have "tm_timer k' x = tm_timer k1 x" for x by (simp add: k'_def)
  ultimately show thesis
    using that ok' k1(5-8) unfolding q by (simp add: ws_def p_def k'_def sched_frame_def)
qed

section \<open>Giving up the processor\<close>

definition start_if :: "u32 option \<Rightarrow> nat \<Rightarrow> kernel \<Rightarrow> kernel res" where
  "start_if w t k = (case w of None \<Rightarrow> Inr k | Some n \<Rightarrow> start_thread_timer t n k)"

lemma block_schedule:
  assumes ok: "kernel_ok k L T xs" and n: "none_due k xs" and t: "t \<in> T" "st (client k) t = RT_THREAD_SUSPEND"
    and a: "timer_of k t \<notin> set xs" and c: "current_thread (client k) \<noteq> None"
    and w: "\<And>m. w = Some m \<Longrightarrow> 0 < m \<and> m < HALF_TICK"
  obtains k' L' xs' where "bindE (start_if w t k) (on_sched rt_schedule) = Inr k'" "kernel_ok k' L' T xs'"
    "none_due k' xs'" "rescheduled (client k) L T (client k') L'" "rt_tick k' = rt_tick k"
    "set xs' = (if w = None then set xs else insert (timer_of k t) (set xs))"
    "\<And>m. w = Some m \<Longrightarrow> left k' (timer_of k t) = uint m" "\<And>x. x \<in> set xs \<Longrightarrow> left k' x = left k x"
proof -
  obtain k1 xs1 where k1: "start_if w t k = Inr k1" "timers_match k1 T xs1" "client k1 = client k" "rt_tick k1 = rt_tick k"
    "set xs1 = (if w = None then set xs else insert (timer_of k t) (set xs))"
    "\<And>m. w = Some m \<Longrightarrow> left k1 (timer_of k t) = uint m" "\<And>x. x \<in> set xs \<Longrightarrow> left k1 x = left k x"
    "\<And>x. x \<in> set xs \<Longrightarrow> tm_timer k1 x = tm_timer k x"
  proof (cases w)
    case None
    then show thesis using that[of k xs] kernel_okD(2)[OF ok] by (simp add: start_if_def)
  next
    case (Some m)
    obtain k1 xs1 where k1: "start_thread_timer t m k = Inr k1" "timers_match k1 T xs1"
      "set xs1 = insert (timer_of k t) (set xs)" "timers_but (timer_of k t) k k1"
      "left k1 (timer_of k t) = uint m"
      by (rule start_thread_timer_ok[OF kernel_okD(2)[OF ok] t, of m]) (use w Some in blast)+
    have "x \<noteq> timer_of k t" if "x \<in> set xs" for x using a that by auto
    then have "left k1 x = left k x" "tm_timer k1 x = tm_timer k x" if "x \<in> set xs" for x
      using that timers_but_left[OF k1(4)] k1(4) by (auto simp: timers_but_def)
    then show thesis using that[of k1 xs1] k1 Some by (simp add: start_if_def timers_but_def)
  qed
  have ok1: "kernel_ok k1 L T xs1" using k1(2,3) kernel_okD(1)[OF ok] by (simp add: kernel_ok_def)
  obtain s' L' where s': "on_sched rt_schedule k1 = Inr (k1\<lparr>client := s'\<rparr>)" "kernel_ok (k1\<lparr>client := s'\<rparr>) L' T xs1"
    "rescheduled (client k1) L T s' L'"
    by (rule kernel_schedule[OF ok1]) (use c k1(3) in auto)
  have lf: "left (k1\<lparr>client := s'\<rparr>) x = left k1 x" for x by (simp add: left_def)
  have "none_due (k1\<lparr>client := s'\<rparr>) xs1"
  proof -
    have "left k1 x \<noteq> 0 \<and> (has_flag RT_TIMER_FLAG_PERIODIC (tm_timer k1 x) \<longrightarrow> init_tick (tm_timer k1 x) \<noteq> 0)"
      if x: "x \<in> set xs1" for x
    proof (cases "x \<in> set xs")
      case True
      then show ?thesis using n k1(7,8) by (simp add: none_due_def)
    next
      case False
      then obtain m where m: "w = Some m" "x = timer_of k t" using x k1(5) by (auto split: if_splits)
      have "\<not> has_flag RT_TIMER_FLAG_PERIODIC (tm_timer k1 x)"
        using thread_timerD(3)[OF match_timer[OF k1(2) t(1)]] by (simp add: m(2) k1(3))
      moreover have "uint m \<noteq> 0" using w[OF m(1)] by (auto simp: uint_0_iff)
      ultimately show ?thesis using k1(6)[OF m(1)] m(2) by simp
    qed
    then show ?thesis by (simp add: none_due_def lf)
  qed
  then show thesis using that[of "k1\<lparr>client := s'\<rparr>" L' xs1] k1 s' by (simp add: lf)
qed

section \<open>The invariant between the calls\<close>

text \<open>A semaphore with a value has no waiting threads; those of a semaphore that serves by priority
  are sorted.\<close>

definition sem_ok :: "sched \<Rightarrow> rt_sem \<Rightarrow> nat list \<Rightarrow> bool" where
  "sem_ok s sem ws \<longleftrightarrow> (sem_flag sem = RT_IPC_FLAG_FIFO \<or> sem_flag sem = RT_IPC_FLAG_PRIO)
     \<and> (ws \<noteq> [] \<longrightarrow> sem_value sem = 0) \<and> (sem_flag sem = RT_IPC_FLAG_PRIO \<longrightarrow> sorted (map (prio s) ws))"

definition sems_ok :: "sched \<Rightarrow> (snode \<Rightarrow> nat list) \<Rightarrow> bool" where
  "sems_ok s L \<longleftrightarrow> (\<forall>i sem. sems s i = Some sem \<longrightarrow> sem_ok s sem (L (Waiters i)))"

text \<open>The idle thread is always there to run.\<close>

definition kernel_inv :: "nat \<Rightarrow> kernel \<Rightarrow> (snode \<Rightarrow> nat list) \<Rightarrow> nat set \<Rightarrow> nat list \<Rightarrow> bool" where
  "kernel_inv idle k L T xs \<longleftrightarrow> kernel_ok k L T xs \<and> none_due k xs \<and> sems_ok (client k) L
     \<and> idle \<in> T \<and> cls (client k) idle = RT_THREAD_READY \<and> current_thread (client k) \<noteq> None
     \<and> (lock_nest (client k) = 0 \<longrightarrow> on_top (client k) T)"

lemma kernel_invD:
  assumes "kernel_inv idle k L T xs"
  shows "kernel_ok k L T xs" "none_due k xs" "sems_ok (client k) L" "idle \<in> T"
    "cls (client k) idle = RT_THREAD_READY" "current_thread (client k) \<noteq> None"
    "lock_nest (client k) = 0 \<Longrightarrow> on_top (client k) T"
  using assms by (simp_all add: kernel_inv_def)

lemma sems_ok_same:
  assumes "sems_ok s L" "same_setup s s'" "\<And>i. sems s i \<noteq> None \<Longrightarrow> L' (Waiters i) = L (Waiters i)"
  shows "sems_ok s' L'"
proof -
  have "prio s' = prio s" "sems s' = sems s" using assms(2) by (simp_all add: same_setup_def fun_eq_iff)
  then show ?thesis using assms(1,3) unfolding sems_ok_def sem_ok_def by simp
qed

lemma sem_ok_filter: "sem_ok s sem ws \<Longrightarrow> sem_ok s sem (filter P ws)"
  by (auto simp: sem_ok_def sorted_map sorted_wrt_filter)

lemma kernel_inv_tick:
  assumes inv: "kernel_inv idle k L T xs"
  obtains k' L' xs' where "kernel_tick no_other k = Inr k'" "kernel_inv idle k' L' T xs'"
    "timed_out (last_tick k T xs) (client k) L T (client k') L'" "rt_tick k' = rt_tick k + 1"
    "\<And>x. x \<in> set xs \<Longrightarrow> left k x \<noteq> 1 \<Longrightarrow> x \<in> set xs' \<and> left k' x = left k x - 1"
proof -
  note i = kernel_invD[OF inv]
  obtain k' L' xs' where k': "kernel_tick no_other k = Inr k'" "kernel_ok k' L' T xs'" "none_due k' xs'"
    "timed_out (last_tick k T xs) (client k) L T (client k') L'" "rt_tick k' = rt_tick k + 1"
    "\<And>x. x \<in> set xs \<Longrightarrow> left k x \<noteq> 1 \<Longrightarrow> x \<in> set xs' \<and> left k' x = left k x - 1"
    by (rule kernel_tick_ok[OF i(1,2,6)]) blast
  have se: "same_setup (client k) (client k')" using k'(4) by (simp add: timed_out_def)
  have "sems_ok (client k') L'"
    unfolding sems_ok_def
  proof (intro allI impI)
    fix j sem assume "sems (client k') j = Some sem"
    then have j: "sems (client k) j = Some sem" using se by (simp add: same_setup_def)
    have "sem_ok (client k) sem (filter (\<lambda>t. \<not> last_tick k T xs t) (L (Waiters j)))"
      using i(3) j by (simp add: sems_ok_def sem_ok_filter)
    moreover have "L' (Waiters j) = filter (\<lambda>t. \<not> last_tick k T xs t) (L (Waiters j))"
      using k'(4) j by (simp add: timed_out_def)
    ultimately show "sem_ok (client k') sem (L' (Waiters j))"
      using se by (simp add: sem_ok_def same_setup_def)
  qed
  moreover have "cls (client k') idle = RT_THREAD_READY" "current_thread (client k') \<noteq> None"
    "lock_nest (client k') = 0 \<Longrightarrow> on_top (client k') T"
    using k'(4) i(5-7) by (simp_all add: timed_out_def same_setup_def)
  ultimately have "kernel_inv idle k' L' T xs'" using k'(2,3) i(4) by (simp add: kernel_inv_def)
  then show thesis using that k' by blast
qed

section \<open>Blocking\<close>

lemma none_due_same:
  assumes "none_due k xs" "rt_tick k' = rt_tick k" "\<And>x. x \<in> set ys \<Longrightarrow> x \<in> set xs \<and> tm_timer k' x = tm_timer k x"
  shows "none_due k' ys"
  using assms by (simp add: none_due_def left_def)

lemma inv_block:
  assumes ok: "kernel_ok k L T xs" and n: "none_due k xs" and se: "sems_ok (client k) L"
    and t: "t \<in> T" "st (client k) t = RT_THREAD_SUSPEND" and a: "timer_of k t \<notin> set xs"
    and i: "idle \<in> T" "cls (client k) idle = RT_THREAD_READY" and c: "current_thread (client k) \<noteq> None"
    and w: "\<And>m. w = Some m \<Longrightarrow> 0 < m \<and> m < HALF_TICK"
  obtains k' L' xs' where "bindE (start_if w t k) (on_sched rt_schedule) = Inr k'" "kernel_inv idle k' L' T xs'"
    "rescheduled (client k) L T (client k') L'" "rt_tick k' = rt_tick k"
    "set xs' = (if w = None then set xs else insert (timer_of k t) (set xs))"
    "\<And>m. w = Some m \<Longrightarrow> left k' (timer_of k t) = uint m" "\<And>x. x \<in> set xs \<Longrightarrow> left k' x = left k x"
proof -
  obtain k' L' xs' where k': "bindE (start_if w t k) (on_sched rt_schedule) = Inr k'" "kernel_ok k' L' T xs'"
    "none_due k' xs'" "rescheduled (client k) L T (client k') L'" "rt_tick k' = rt_tick k"
    "set xs' = (if w = None then set xs else insert (timer_of k t) (set xs))"
    "\<And>m. w = Some m \<Longrightarrow> left k' (timer_of k t) = uint m" "\<And>x. x \<in> set xs \<Longrightarrow> left k' x = left k x"
    by (rule block_schedule[OF ok n t a c w]) blast+
  note re = rescheduledD[OF k'(4)]
  have "sems_ok (client k') L'" using sems_ok_same[OF se same_setup_stat[OF re(1)]] re(3) by blast
  moreover have "busy (client k) T" using i by (auto simp: busy_def)
  then have "lock_nest (client k') = 0 \<Longrightarrow> on_top (client k') T" using re(4) same_but_statD(3)[OF re(1)] by simp
  ultimately have "kernel_inv idle k' L' T xs'" using k'(2,3) i re(2,6) by (simp add: kernel_inv_def)
  then show thesis using that k' by blast
qed

text \<open>The running thread, when the scheduler is not locked.\<close>

lemma running_thread:
  assumes inv: "kernel_inv idle k L T xs" and l: "lock_nest (client k) = 0"
  obtains c where "current_thread (client k) = Some c" "c \<in> T" "st (client k) c = RT_THREAD_RUNNING"
    "self_thread k = Inr c" "assert_thread c k = Inr ()"
proof -
  obtain c where c: "c \<in> T" "current_thread (client k) = Some c" "st (client k) c = RT_THREAD_RUNNING"
    using kernel_invD(7)[OF inv l] by (auto simp: on_top_def)
  then show thesis
    using that kernel_object[OF kernel_invD(1)[OF inv] c(1)] by (simp add: self_thread_def)
qed

lemma thread_sleep_ok:
  assumes inv: "kernel_inv idle k L T xs" and l: "lock_nest (client k) = 0"
    and c: "current_thread (client k) = Some c" "c \<noteq> idle" and n: "0 < n" "n < HALF_TICK"
  obtains k' L' xs' where "rt_thread_sleep n k = Inr k'" "kernel_inv idle k' L' T xs'"
    "same_setup (client k) (client k')" "rt_tick k' = rt_tick k"
    "\<And>x. cls (client k') x = (if x = c then RT_THREAD_SUSPEND else cls (client k) x)"
    "set xs' = insert (timer_of k c) (set xs)" "left k' (timer_of k c) = uint n"
    "\<And>i. sems (client k) i \<noteq> None \<Longrightarrow> L' (Waiters i) = L (Waiters i)"
    "\<And>x. th_error (threads (client k') x) = th_error (threads (client k) x)"
proof -
  note iv = kernel_invD[OF inv]
  have so: "sched_ok (client k) L T" using kernel_okD(1)[OF iv(1)] .
  have cr: "c \<in> T" "st (client k) c = RT_THREAD_RUNNING" "self_thread k = Inr c" "assert_thread c k = Inr ()"
    using running_thread[OF inv l] c(1) by (metis option.inject)+
  obtain k1 where k1: "rt_thread_suspend c k = Inr (RT_EOK, k1)" "kernel_ok k1 (off c L) T xs"
    "in_no_list (heads (client k1)) (off c L) c" "sched_frame (client k) (client k1)"
    "threads (client k1) = (threads (client k))(c := set_stat RT_THREAD_SUSPEND (threads (client k) c))"
    "rt_tick k1 = rt_tick k" "\<And>x. x \<in> set xs \<Longrightarrow> tm_timer k1 x = tm_timer k x" "st (client k1) c = RT_THREAD_SUSPEND"
    by (rule thread_suspend_ok[OF iv(1) cr(1)]) (use cr(2) in auto)
  note fr = sched_frameD[OF k1(4)]
  have se1: "same_setup (client k) (client k1)" by (rule same_setup_frame[OF k1(4,5)])
  have y: "timer_of k1 c = timer_of k c" using se1 by (simp add: same_setup_def)
  have offw: "off c L (Waiters i) = L (Waiters i)" if "sems (client k) i \<noteq> None" for i
    using off_idem[OF no_list_if_stat[OF ok_core[OF so]], of c "Waiters i"] cr(2) that by simp
  have sm: "sems_ok (client k1) (off c L)" using sems_ok_same[OF iv(3) se1] offw by blast
  have cls1: "cls (client k1) x = (if x = c then RT_THREAD_SUSPEND else cls (client k) x)" for x
    by (simp add: cls_def k1(5) stat_set)
  have nd: "none_due k1 xs" by (rule none_due_same[OF iv(2) k1(6)]) (use k1(7) in blast)
  have na: "timer_of k1 c \<notin> set xs" using kernel_inactive[OF iv(1) cr(1)] cr(2) by (simp add: y)
  have ci: "cls (client k1) idle = RT_THREAD_READY" using iv(5) c(2) by (simp add: cls1)
  have cu: "current_thread (client k1) \<noteq> None" using c(1) fr(5) by simp
  obtain k' L' xs' where k': "bindE (start_if (Some n) c k1) (on_sched rt_schedule) = Inr k'" "kernel_inv idle k' L' T xs'"
    "rescheduled (client k1) (off c L) T (client k') L'" "rt_tick k' = rt_tick k1"
    "set xs' = (if Some n = None then set xs else insert (timer_of k1 c) (set xs))"
    "\<And>m. Some n = Some m \<Longrightarrow> left k' (timer_of k1 c) = uint m" "\<And>x. x \<in> set xs \<Longrightarrow> left k' x = left k1 x"
    by (rule inv_block[OF k1(2) nd sm cr(1) k1(8) na iv(4) ci cu, of "Some n"]) (use n in auto)
  note re = rescheduledD[OF k'(3)]
  have "rt_thread_sleep n k = Inr k'" using k'(1) cr(3,4) k1(1) by (simp add: rt_thread_sleep_def start_if_def)
  moreover have "same_setup (client k) (client k')" using se1 same_setup_stat[OF re(1)] by (rule same_setup_trans)
  moreover have "L' (Waiters i) = L (Waiters i)" if "sems (client k) i \<noteq> None" for i
    using re(3)[of i] offw[OF that] that fr(1) by simp
  moreover have "th_error (threads (client k') x) = th_error (threads (client k) x)" for x
    using same_but_stat_thread(3)[OF re(1)] by (simp add: k1(5))
  ultimately show thesis using that[of k' L' xs'] k'(2,4-6) re(2) cls1 k1(6) y by simp
qed

end
