(* ===== verification/Sem_Facts.thy ===== *)
theory Sem_Facts
  imports Ipc_Facts
begin

text \<open>
  The semaphores on a kernel that keeps its invariant: \<open>rt_sem_take\<close> in its three cases,
  \<open>rt_sem_release\<close> with and without waiting threads, and the start of a thread.
\<close>

section \<open>Taking\<close>

lemma upd_sem_simps [simp]:
  "sc_links (upd_sem i f s) = sc_links s" "ready_group (upd_sem i f s) = ready_group s"
  "threads (upd_sem i f s) = threads s" "timer_param (upd_sem i f s) = timer_param s"
  "current_thread (upd_sem i f s) = current_thread s" "lock_nest (upd_sem i f s) = lock_nest s"
  "interrupt_nest (upd_sem i f s) = interrupt_nest s"
  "sems (upd_sem i f s) = (sems s)(i := map_option f (sems s i))"
  by (simp_all add: upd_sem_def)

lemma kernel_upd_sem:
  assumes ok: "kernel_ok k L T xs"
  shows "kernel_ok (upd_sched (upd_sem i f) k) L T xs"
proof -
  have h: "heads (upd_sem i f (client k)) = heads (client k)" by (auto simp: heads_def dom_def)
  have "sched_core (upd_sem i f (client k)) L T"
    using ok_core[OF kernel_okD(1)[OF ok]] unfolding sched_core_def h by simp
  then have "sched_ok (upd_sem i f (client k)) L T"
  proof (rule sched_okI)
    fix c assume "current_thread (upd_sem i f (client k)) = Some c"
    then show "st (upd_sem i f (client k)) c \<noteq> RT_THREAD_READY \<and> st (upd_sem i f (client k)) c \<noteq> RT_THREAD_INIT
      \<and> (st (upd_sem i f (client k)) c = RT_THREAD_RUNNING \<longrightarrow> c \<in> T)"
      using ok_current[OF kernel_okD(1)[OF ok], of c] by simp
  qed (use ok_ready[OF kernel_okD(1)[OF ok]] ok_running[OF kernel_okD(1)[OF ok]] in simp)+
  moreover have "timers_match (k\<lparr>client := upd_sem i f (client k)\<rparr>) T xs"
    by (intro timers_match_client[OF kernel_okD(2)[OF ok]]) simp_all
  ultimately show ?thesis by (simp add: kernel_ok_def upd_sched_def)
qed

lemma inv_upd_sem:
  assumes inv: "kernel_inv idle k L T xs" and s: "sems (client k) i = Some sem"
    and f: "sem_ok (client k) (f sem) (L (Waiters i))"
  shows "kernel_inv idle (upd_sched (upd_sem i f) k) L T xs"
proof -
  note iv = kernel_invD[OF inv]
  have "sems_ok (upd_sem i f (client k)) L"
    using iv(3) s f by (auto simp: sems_ok_def sem_ok_def)
  moreover have "none_due (upd_sched (upd_sem i f) k) xs" by (rule none_due_same[OF iv(2)]) simp_all
  moreover have "on_top (upd_sem i f (client k)) T = on_top (client k) T" by (simp add: on_top_def)
  moreover have "cls (upd_sem i f (client k)) idle = cls (client k) idle" by (simp add: cls_def)
  ultimately show ?thesis using iv kernel_upd_sem[OF iv(1)] by (simp add: kernel_inv_def)
qed

lemma sem_take_value:
  assumes inv: "kernel_inv idle k L T xs" and s: "sems (client k) i = Some sem" "sem_value sem > 0"
  defines "k' \<equiv> upd_sched (upd_sem i (\<lambda>sem. sem\<lparr>sem_value := sem_value sem - 1\<rparr>)) k"
  shows "rt_sem_take i time k = Inr (Returned RT_EOK, k')" "kernel_inv idle k' L T xs"
proof -
  show "rt_sem_take i time k = Inr (Returned RT_EOK, k')"
    using s by (simp add: rt_sem_take_def get_sem_def k'_def)
  have "sem_ok (client k) sem (L (Waiters i))" using kernel_invD(3)[OF inv] s by (simp add: sems_ok_def)
  then have "sem_ok (client k) (sem\<lparr>sem_value := sem_value sem - 1\<rparr>) (L (Waiters i))"
    using s(2) by (auto simp: sem_ok_def)
  then show "kernel_inv idle k' L T xs" unfolding k'_def by (rule inv_upd_sem[OF inv s(1)])
qed

lemma sorted_prio_insert:
  assumes "sorted (map (\<lambda>x. unat (current_priority (ths x))) ws)"
  shows "sorted (map (\<lambda>x. unat (current_priority (ths x))) (prio_insert ths (current_priority (ths t)) t ws))"
proof -
  define f where "f = (\<lambda>x. uint (current_priority (ths x)))"
  have le: "unat a \<le> unat b \<longleftrightarrow> uint a \<le> uint b" for a b :: u8
    using word_le_nat_alt[of a b] word_le_def[of a b] by simp
  have "sorted (map f ws)" using assms by (simp add: f_def sorted_map le)
  then have "sorted (map f (takeWhile (\<lambda>x. f x \<le> f t) ws @ t # dropWhile (\<lambda>x. f x \<le> f t) ws))" by (rule sorted_insert)
  moreover have "(\<lambda>x. f x \<le> f t) = (\<lambda>x. current_priority (ths x) \<le> current_priority (ths t))"
    by (simp add: f_def word_le_def)
  ultimately show ?thesis unfolding prio_insert_def by (simp only: f_def sorted_map le)
qed

text \<open>The current thread, in the waiting list \<open>ws\<close> of a semaphore without a value, starts its timer and gives up
  the processor.\<close>

lemma wait_listed:
  assumes inv: "kernel_inv idle k L T xs" and l: "lock_nest (client k) = 0"
    and c: "current_thread (client k) = Some c" "c \<noteq> idle"
    and s: "sems (client k) i = Some sem" "sem_value sem = 0" and w: "time \<noteq> 0" "time < 2147483647"
    and so: "sem_flag sem = RT_IPC_FLAG_PRIO \<Longrightarrow> sorted (map (prio (client k)) ws)"
    and k0: "k0 = upd_sched (upd_thread c (\<lambda>th. th\<lparr>th_error := RT_EOK\<rparr>)) k"
    and k1: "kernel_ok k1 (L(Waiters i := ws)) T xs" "sched_frame (client k0) (client k1)"
    "threads (client k1) = (threads (client k0))(c := set_stat RT_THREAD_SUSPEND (threads (client k0) c))"
    "rt_tick k1 = rt_tick k0" "\<And>x. x \<in> set xs \<Longrightarrow> tm_timer k1 x = tm_timer k0 x"
  obtains k' L' xs' where "bindE (if time > 0 then start_thread_timer c (to_u32 time) k1 else Inr k1) (on_sched rt_schedule) = Inr k'"
    "kernel_inv idle k' L' T xs'"
    "same_setup (client k) (client k')" "rt_tick k' = rt_tick k"
    "\<And>x. cls (client k') x = (if x = c then RT_THREAD_SUSPEND else cls (client k) x)"
    "set xs' = (if time > 0 then insert (timer_of k c) (set xs) else set xs)"
    "time > 0 \<Longrightarrow> left k' (timer_of k c) = time"
    "\<And>j. sems (client k) j \<noteq> None \<Longrightarrow> L' (Waiters j) = (if j = i then ws else L (Waiters j))"
    "\<And>x. th_error (threads (client k') x) = (if x = c then RT_EOK else th_error (threads (client k) x))"
proof -
  note iv = kernel_invD[OF inv]
  have cr: "c \<in> T" "st (client k) c = RT_THREAD_RUNNING"
    using running_thread[OF inv l] c(1) by (metis option.inject)+
  define f where "f = (\<lambda>th. th\<lparr>th_error := RT_EOK\<rparr> :: rt_thread)"
  have fs: "same_sched f" "\<And>th. th_timer (f th) = th_timer th" "\<And>th. stat_of (f th) = stat_of th"
    "\<And>th. current_priority (f th) = current_priority th"
    using same_sched_error by (simp_all add: f_def stat_of_def)
  have t0: "threads (client k0) = (threads (client k))(c := f (threads (client k) c))" by (simp add: k0 f_def)
  have p0: "current_priority (threads (client k0) x) = current_priority (threads (client k) x)" for x
    using fs(4) by (simp add: t0)
  have sk: "sem_ok (client k) sem (L (Waiters i))" using iv(3) s(1) by (simp add: sems_ok_def)
  have fl: "sem_flag sem = RT_IPC_FLAG_FIFO \<or> sem_flag sem = RT_IPC_FLAG_PRIO" using sk by (simp add: sem_ok_def)
  note fr = sched_frameD[OF k1(2)]
  have se1: "same_setup (client k) (client k1)"
    using fr by (simp add: same_setup_def k1(3) p0) (simp add: k0 fs f_def[symmetric])
  have y: "timer_of k1 c = timer_of k c" using se1 by (simp add: same_setup_def)
  have pr: "prio (client k1) x = prio (client k) x" for x using se1 by (simp add: same_setup_def)
  have sm: "sems_ok (client k1) (L(Waiters i := ws))"
    unfolding sems_ok_def
  proof (intro allI impI)
    fix j sm assume "sems (client k1) j = Some sm"
    then have j: "sems (client k) j = Some sm" using se1 by (simp add: same_setup_def)
    show "sem_ok (client k1) sm ((L(Waiters i := ws)) (Waiters j))"
    proof (cases "j = i")
      case True
      then show ?thesis using j s fl so by (simp add: sem_ok_def pr)
    next
      case False
      then show ?thesis using iv(3) j by (simp add: sems_ok_def sem_ok_def pr)
    qed
  qed
  have st1: "st (client k1) c = RT_THREAD_SUSPEND" by (simp add: k1(3) stat_set)
  have cls1: "cls (client k1) x = (if x = c then RT_THREAD_SUSPEND else cls (client k) x)" for x
    by (simp add: cls_def k1(3) stat_set t0)
  have nd: "none_due k1 xs" by (rule none_due_same[OF iv(2)]) (use k1(4,5) in \<open>simp_all add: k0\<close>)
  have na: "timer_of k1 c \<notin> set xs" using kernel_inactive[OF iv(1) cr(1)] cr(2) by (simp add: y)
  have ci: "cls (client k1) idle = RT_THREAD_READY" using iv(5) c(2) by (simp add: cls1)
  have cu: "current_thread (client k1) \<noteq> None" using c(1) fr(5) by (simp add: k0)
  define tw where "tw = (if time > 0 then Some (to_u32 time) else None)"
  have ut: "uint (to_u32 time) = time" if "time > 0" using that w(2) by (intro uint_to_u32) simp_all
  have ow: "0 < m \<and> m < HALF_TICK" if "tw = Some m" for m
  proof -
    have m: "m = to_u32 time" "time > 0" using that by (simp_all add: tw_def split: if_splits)
    then have "uint m = time" using ut by simp
    then show ?thesis using m(2) w(2) by (simp add: word_less_def)
  qed
  obtain k' L' xs' where k': "bindE (start_if tw c k1) (on_sched rt_schedule) = Inr k'" "kernel_inv idle k' L' T xs'"
    "rescheduled (client k1) (L(Waiters i := ws)) T (client k') L'" "rt_tick k' = rt_tick k1"
    "set xs' = (if tw = None then set xs else insert (timer_of k1 c) (set xs))"
    "\<And>m. tw = Some m \<Longrightarrow> left k' (timer_of k1 c) = uint m" "\<And>x. x \<in> set xs \<Longrightarrow> left k' x = left k1 x"
    by (rule inv_block[OF k1(1) nd sm cr(1) st1 na iv(4) ci cu ow]) blast+
  note re = rescheduledD[OF k'(3)]
  have st: "(if time > 0 then start_thread_timer c (to_u32 time) k1 else Inr k1) = start_if tw c k1"
    by (simp add: start_if_def tw_def)
  show thesis
  proof (rule that[OF _ k'(2)])
    show "bindE (if time > 0 then start_thread_timer c (to_u32 time) k1 else Inr k1) (on_sched rt_schedule) = Inr k'"
      using k'(1) unfolding st .
    show "same_setup (client k) (client k')" using se1 same_setup_stat[OF re(1)] by (rule same_setup_trans)
    show "rt_tick k' = rt_tick k" using k'(4) k1(4) by (simp add: k0)
    show "cls (client k') x = (if x = c then RT_THREAD_SUSPEND else cls (client k) x)" for x by (simp add: re(2) cls1)
    show "set xs' = (if time > 0 then insert (timer_of k c) (set xs) else set xs)" using k'(5) by (simp add: tw_def y)
    show "time > 0 \<Longrightarrow> left k' (timer_of k c) = time" using k'(6) ut by (simp add: tw_def y)
    show "L' (Waiters j) = (if j = i then ws else L (Waiters j))" if "sems (client k) j \<noteq> None" for j
      using re(3)[of j] that se1 by (simp add: same_setup_def)
    show "th_error (threads (client k') x) = (if x = c then RT_EOK else th_error (threads (client k) x))" for x
      using same_but_stat_thread(3)[OF re(1)] by (simp add: k1(3) t0 f_def)
  qed
qed

lemma sem_take_waits:
  assumes inv: "kernel_inv idle k L T xs" and l: "lock_nest (client k) = 0" "interrupt_nest (client k) = 0"
    and c: "current_thread (client k) = Some c" "c \<noteq> idle"
    and s: "sems (client k) i = Some sem" "sem_value sem = 0" and w: "time \<noteq> 0" "time < 2147483647"
  obtains k' L' xs' where "rt_sem_take i time k = Inr (Waits, k')" "kernel_inv idle k' L' T xs'"
    "same_setup (client k) (client k')" "rt_tick k' = rt_tick k"
    "\<And>x. cls (client k') x = (if x = c then RT_THREAD_SUSPEND else cls (client k) x)"
    "set xs' = (if time > 0 then insert (timer_of k c) (set xs) else set xs)"
    "time > 0 \<Longrightarrow> left k' (timer_of k c) = time"
    "\<And>j. sems (client k) j \<noteq> None \<Longrightarrow> L' (Waiters j) = (if j = i
       then queue_in (sem_flag sem) (threads (client k)) (current_priority (threads (client k) c)) c (L (Waiters i))
       else L (Waiters j))"
    "\<And>x. th_error (threads (client k') x) = (if x = c then RT_EOK else th_error (threads (client k) x))"
proof -
  note iv = kernel_invD[OF inv]
  have so: "sched_ok (client k) L T" using kernel_okD(1)[OF iv(1)] .
  have cr: "c \<in> T" "st (client k) c = RT_THREAD_RUNNING" "self_thread k = Inr c"
    using running_thread[OF inv l(1)] c(1) by (metis option.inject)+
  have sk: "sem_ok (client k) sem (L (Waiters i))" using iv(3) s(1) by (simp add: sems_ok_def)
  define f where "f = (\<lambda>th. th\<lparr>th_error := RT_EOK\<rparr> :: rt_thread)"
  have fs: "same_sched f" "\<And>th. th_timer (f th) = th_timer th" "\<And>th. stat_of (f th) = stat_of th"
    "\<And>th. current_priority (f th) = current_priority th"
    using same_sched_error by (simp_all add: f_def stat_of_def)
  define k0 where "k0 = upd_sched (upd_thread c f) k"
  have ok0: "kernel_ok k0 L T xs" unfolding k0_def by (rule kernel_upd_thread[OF iv(1) fs(1,2)])
  have t0: "threads (client k0) = (threads (client k))(c := f (threads (client k) c))" by (simp add: k0_def)
  have p0: "current_priority (threads (client k0) x) = current_priority (threads (client k) x)" for x
    using fs(4) by (simp add: t0)
  have st0: "st (client k0) c = RT_THREAD_RUNNING" using cr(2) fs(3) by (simp add: t0)
  have i0: "sems (client k0) i \<noteq> None" using s(1) by (simp add: k0_def)
  have fl: "sem_flag sem = RT_IPC_FLAG_FIFO \<or> sem_flag sem = RT_IPC_FLAG_PRIO" using sk by (simp add: sem_ok_def)
  define ws where "ws = queue_in (sem_flag sem) (threads (client k)) (current_priority (threads (client k) c)) c (L (Waiters i))"
  have q0: "queue_in (sem_flag sem) (threads (client k0)) (current_priority (threads (client k0) c)) c (L (Waiters i)) = ws"
    by (simp add: ws_def queue_in_def prio_insert_def p0)
  obtain k1 where k1: "rt_ipc_list_suspend (Waiters i) c (sem_flag sem) k0 = Inr k1"
    "kernel_ok k1 (L(Waiters i := ws)) T xs" "sched_frame (client k0) (client k1)"
    "threads (client k1) = (threads (client k0))(c := set_stat RT_THREAD_SUSPEND (threads (client k0) c))"
    "rt_tick k1 = rt_tick k0" "\<And>x. x \<in> set xs \<Longrightarrow> tm_timer k1 x = tm_timer k0 x"
    by (rule ipc_list_suspend_ok[OF ok0 cr(1) st0 i0 fl, unfolded q0]) blast
  have sd: "sorted (map (prio (client k)) ws)" if "sem_flag sem = RT_IPC_FLAG_PRIO"
    using sorted_prio_insert[of "threads (client k)" "L (Waiters i)" c] sk that
    by (simp add: ws_def queue_in_def sem_ok_def)
  obtain k' L' xs' where k': "bindE (if time > 0 then start_thread_timer c (to_u32 time) k1 else Inr k1) (on_sched rt_schedule) = Inr k'"
    "kernel_inv idle k' L' T xs'" "same_setup (client k) (client k')" "rt_tick k' = rt_tick k"
    "\<And>x. cls (client k') x = (if x = c then RT_THREAD_SUSPEND else cls (client k) x)"
    "set xs' = (if time > 0 then insert (timer_of k c) (set xs) else set xs)"
    "time > 0 \<Longrightarrow> left k' (timer_of k c) = time"
    "\<And>j. sems (client k) j \<noteq> None \<Longrightarrow> L' (Waiters j) = (if j = i then ws else L (Waiters j))"
    "\<And>x. th_error (threads (client k') x) = (if x = c then RT_EOK else th_error (threads (client k) x))"
    by (rule wait_listed[OF inv l(1) c s w sd k0_def[unfolded f_def] k1(2-6)]) blast+
  have "rt_sem_take i time k = Inr (Waits, k')"
    using k'(1) cr(3) k1(1) s w l(2)
    by (simp add: rt_sem_take_def get_sem_def not_in_interrupt_def assertE_def Let_def f_def[symmetric]
        k0_def[symmetric] bindE_assoc[symmetric])
  then show thesis using that k'(2-9) unfolding ws_def by blast
qed

section \<open>Making threads ready\<close>

text \<open>The invariant inside of a call, before it schedules.\<close>

definition kernel_pre :: "nat \<Rightarrow> kernel \<Rightarrow> (snode \<Rightarrow> nat list) \<Rightarrow> nat set \<Rightarrow> nat list \<Rightarrow> bool" where
  "kernel_pre idle k L T xs \<longleftrightarrow> kernel_ok k L T xs \<and> none_due k xs \<and> sems_ok (client k) L
     \<and> idle \<in> T \<and> cls (client k) idle = RT_THREAD_READY \<and> current_thread (client k) \<noteq> None"

lemma inv_pre: "kernel_inv idle k L T xs \<Longrightarrow> kernel_pre idle k L T xs"
  by (simp add: kernel_inv_def kernel_pre_def)

lemma kernel_preD:
  assumes "kernel_pre idle k L T xs"
  shows "kernel_ok k L T xs" "none_due k xs" "sems_ok (client k) L" "idle \<in> T"
    "cls (client k) idle = RT_THREAD_READY" "current_thread (client k) \<noteq> None"
  using assms by (simp_all add: kernel_pre_def)

lemma pre_schedule:
  assumes pre: "kernel_pre idle k L T xs"
  obtains k' L' where "on_sched rt_schedule k = Inr k'" "kernel_inv idle k' L' T xs"
    "rescheduled (client k) L T (client k') L'" "rt_tick k' = rt_tick k" "\<And>x. left k' x = left k x"
proof -
  note p = kernel_preD[OF pre]
  have nw: "0 < m \<and> m < HALF_TICK" if "None = Some m" for m :: u32 using that by simp
  obtain s' L' where s': "on_sched rt_schedule k = Inr (k\<lparr>client := s'\<rparr>)" "kernel_ok (k\<lparr>client := s'\<rparr>) L' T xs"
    "rescheduled (client k) L T s' L'"
    by (rule kernel_schedule[OF p(1,6)])
  note re = rescheduledD[OF s'(3)]
  have "sems_ok s' L'" using sems_ok_same[OF p(3) same_setup_stat[OF re(1)]] re(3) by blast
  moreover have "none_due (k\<lparr>client := s'\<rparr>) xs" by (rule none_due_same[OF p(2)]) simp_all
  moreover have "busy (client k) T" using p(4,5) by (auto simp: busy_def)
  then have "lock_nest s' = 0 \<Longrightarrow> on_top s' T" using re(4) same_but_statD(3)[OF re(1)] by simp
  ultimately have "kernel_inv idle (k\<lparr>client := s'\<rparr>) L' T xs" using s'(2) p(4,5) re(2,6) by (simp add: kernel_inv_def)
  then show thesis using that[of "k\<lparr>client := s'\<rparr>" L'] s' by (simp add: left_def)
qed

lemma made_ready_sems:
  assumes "sched_core s L T" "sems s i \<noteq> None"
  shows "made_ready s L t (Waiters i) = filter (\<lambda>x. x \<noteq> t) (L (Waiters i))"
proof -
  have "distinct (L (Waiters i))" using sc_distinct[OF core_lists[OF assms(1)], of "Waiters i"] assms(2) by simp
  then show ?thesis by (simp add: made_ready_waiters distinct_remove1_removeAll removeAll_filter_not_eq neq_commute)
qed

lemma pre_resume:
  assumes pre: "kernel_pre idle k L T xs" and t: "t \<in> T" "st (client k) t = RT_THREAD_SUSPEND"
  obtains k' L' xs' where "rt_thread_resume t k = Inr (RT_EOK, k')" "kernel_pre idle k' L' T xs'"
    "same_setup (client k) (client k')" "rt_tick k' = rt_tick k"
    "current_thread (client k') = current_thread (client k)"
    "\<And>x. cls (client k') x = (if x = t then RT_THREAD_READY else cls (client k) x)"
    "\<And>i. sems (client k) i \<noteq> None \<Longrightarrow> L' (Waiters i) = filter (\<lambda>x. x \<noteq> t) (L (Waiters i))"
    "\<And>x. th_error (threads (client k') x) = th_error (threads (client k) x)"
    "xs' = remove1 (timer_of k t) xs" "\<And>x. x \<in> set xs' \<Longrightarrow> left k' x = left k x"
    "\<And>x. x \<noteq> t \<Longrightarrow> st (client k') x = st (client k) x"
proof -
  note p = kernel_preD[OF pre]
  have so: "sched_ok (client k) L T" and tm: "timers_match k T xs" using kernel_okD[OF p(1)] by simp_all
  obtain k' where k': "rt_thread_resume t k = Inr (RT_EOK, k')"
    "kernel_ok k' (made_ready (client k) L t) T (remove1 (timer_of k t) xs)" "sched_frame (client k) (client k')"
    "threads (client k') = (threads (client k))(t := set_stat (ready_stat (client k) t) (threads (client k) t))"
    "rt_tick k' = rt_tick k" "\<And>x. x \<noteq> timer_of k t \<Longrightarrow> tm_timer k' x = tm_timer k x"
    by (rule thread_resume_ok[OF p(1) t]) blast
  define L' where "L' = made_ready (client k) L t"
  define xs' where "xs' = remove1 (timer_of k t) xs"
  have xs: "set xs' = set xs - {timer_of k t}" using match_distinct[OF tm] by (simp add: xs'_def)
  have se: "same_setup (client k) (client k')" by (rule same_setup_frame[OF k'(3,4)])
  have w: "L' (Waiters i) = filter (\<lambda>x. x \<noteq> t) (L (Waiters i))" if "sems (client k) i \<noteq> None" for i
    using made_ready_sems[OF ok_core[OF so] that] by (simp add: L'_def)
  have stx: "st (client k') x = (if x = t then ready_stat (client k) t else st (client k) x)" for x
    by (simp add: k'(4) stat_ready)
  then have cl: "cls (client k') x = (if x = t then RT_THREAD_READY else cls (client k) x)" for x
    by (cases "x = t") (simp_all add: cls_def ready_stat_def)
  have nd: "none_due k' xs'" by (rule none_due_same[OF p(2) k'(5)]) (use k'(6) xs in auto)
  have "sems_ok (client k') L'"
    unfolding sems_ok_def
  proof (intro allI impI)
    fix j sem assume "sems (client k') j = Some sem"
    then have j: "sems (client k) j = Some sem" using se by (simp add: same_setup_def)
    then have "sem_ok (client k) sem (L' (Waiters j))" using p(3) w[of j] by (simp add: sems_ok_def sem_ok_filter)
    then show "sem_ok (client k') sem (L' (Waiters j))" using se by (simp add: sem_ok_def same_setup_def)
  qed
  moreover have cu: "current_thread (client k') = current_thread (client k)" using sched_frameD(5)[OF k'(3)] .
  ultimately have "kernel_pre idle k' L' T xs'"
    using k'(2) nd p(4-6) cl by (simp add: kernel_pre_def L'_def xs'_def)
  moreover have "left k' x = left k x" if "x \<in> set xs'" for x using that xs k'(5,6) by (simp add: left_def)
  moreover have "th_error (threads (client k') x) = th_error (threads (client k) x)" for x by (simp add: k'(4))
  ultimately show thesis using that[of k' L' xs'] k'(1,5) se cl w cu stx by (simp add: xs'_def)
qed

section \<open>Releasing\<close>

lemma sem_release_value:
  assumes inv: "kernel_inv idle k L T xs" and s: "sems (client k) i = Some sem" and e: "L (Waiters i) = []"
  defines "k' \<equiv> upd_sched (upd_sem i (\<lambda>sem. sem\<lparr>sem_value := sem_value sem + 1\<rparr>)) k"
  shows "rt_sem_release i k = Inr (RT_EOK, k')" "kernel_inv idle k' L T xs"
proof -
  have co: "sched_core (client k) L T" using ok_core[OF kernel_okD(1)[OF kernel_invD(1)[OF inv]]] .
  have "rt_list_isempty (Waiters i) (sc_links (client k))"
    using sc_isempty[OF core_lists[OF co], of "Waiters i"] s e by simp
  then show "rt_sem_release i k = Inr (RT_EOK, k')" using s by (simp add: rt_sem_release_def get_sem_def k'_def)
  have "sem_ok (client k) sem (L (Waiters i))" using kernel_invD(3)[OF inv] s by (simp add: sems_ok_def)
  then have "sem_ok (client k) (sem\<lparr>sem_value := sem_value sem + 1\<rparr>) (L (Waiters i))" by (simp add: sem_ok_def e)
  then show "kernel_inv idle k' L T xs" unfolding k'_def by (rule inv_upd_sem[OF inv s])
qed

lemma waiter_first:
  assumes ok: "kernel_ok k L T xs" and s: "sems (client k) i \<noteq> None" and w: "L (Waiters i) = t # ws"
  shows "\<not> rt_list_isempty (Waiters i) (sc_links (client k))" "nxt (sc_links (client k)) (Waiters i) = Thread t"
    "t \<in> T" "st (client k) t = RT_THREAD_SUSPEND" "t \<notin> set ws"
    "\<And>j. sems (client k) j \<noteq> None \<Longrightarrow> j \<noteq> i \<Longrightarrow> t \<notin> set (L (Waiters j))"
proof -
  have co: "sched_core (client k) L T" using ok_core[OF kernel_okD(1)[OF ok]] .
  note li = core_lists[OF co]
  show "\<not> rt_list_isempty (Waiters i) (sc_links (client k))" using sc_isempty[OF li, of "Waiters i"] s w by simp
  show "nxt (sc_links (client k)) (Waiters i) = Thread t" using sc_first[OF li _ w] s by simp
  show "t \<in> T" using sc_subset[OF li, of "Waiters i" t] s w by simp
  show "st (client k) t = RT_THREAD_SUSPEND" using core_stat[OF co, of "Waiters i" t] s w by simp
  show "t \<notin> set ws" using sc_distinct[OF li, of "Waiters i"] s w by simp
  show "t \<notin> set (L (Waiters j))" if "sems (client k) j \<noteq> None" "j \<noteq> i" for j
    using sc_unique[OF li, of "Waiters i" "Waiters j" t] s w that by auto
qed

lemma sem_release_waiter:
  assumes inv: "kernel_inv idle k L T xs" and s: "sems (client k) i \<noteq> None" and w: "L (Waiters i) = t # ws"
  obtains k' L' xs' where "rt_sem_release i k = Inr (RT_EOK, k')" "kernel_inv idle k' L' T xs'"
    "same_setup (client k) (client k')" "rt_tick k' = rt_tick k"
    "\<And>x. cls (client k') x = (if x = t then RT_THREAD_READY else cls (client k) x)"
    "\<And>j. sems (client k) j \<noteq> None \<Longrightarrow> L' (Waiters j) = (if j = i then ws else L (Waiters j))"
    "\<And>x. th_error (threads (client k') x) = th_error (threads (client k) x)"
    "xs' = remove1 (timer_of k t) xs" "\<And>x. x \<in> set xs' \<Longrightarrow> left k' x = left k x"
proof -
  note f = waiter_first[OF kernel_invD(1)[OF inv] s w]
  obtain sem where sem: "sems (client k) i = Some sem" using s by blast
  obtain k1 L1 xs1 where k1: "rt_thread_resume t k = Inr (RT_EOK, k1)" "kernel_pre idle k1 L1 T xs1"
    "same_setup (client k) (client k1)" "rt_tick k1 = rt_tick k"
    "current_thread (client k1) = current_thread (client k)"
    "\<And>x. cls (client k1) x = (if x = t then RT_THREAD_READY else cls (client k) x)"
    "\<And>i. sems (client k) i \<noteq> None \<Longrightarrow> L1 (Waiters i) = filter (\<lambda>x. x \<noteq> t) (L (Waiters i))"
    "\<And>x. th_error (threads (client k1) x) = th_error (threads (client k) x)"
    "xs1 = remove1 (timer_of k t) xs" "\<And>x. x \<in> set xs1 \<Longrightarrow> left k1 x = left k x"
    "\<And>x. x \<noteq> t \<Longrightarrow> st (client k1) x = st (client k) x"
    by (rule pre_resume[OF inv_pre[OF inv] f(3,4)]) blast
  obtain k' L' where k': "on_sched rt_schedule k1 = Inr k'" "kernel_inv idle k' L' T xs1"
    "rescheduled (client k1) L1 T (client k') L'" "rt_tick k' = rt_tick k1" "\<And>x. left k' x = left k1 x"
    by (rule pre_schedule[OF k1(2)]) blast
  note re = rescheduledD[OF k'(3)]
  have run: "rt_sem_release i k = Inr (RT_EOK, k')"
    using f(1,2) sem k1(1) k'(1) by (simp add: rt_sem_release_def get_sem_def rt_ipc_list_resume_def)
  show thesis
  proof (rule that[OF run k'(2)])
    show "same_setup (client k) (client k')" using k1(3) same_setup_stat[OF re(1)] by (rule same_setup_trans)
    show "L' (Waiters j) = (if j = i then ws else L (Waiters j))" if "sems (client k) j \<noteq> None" for j
    proof -
      have "L' (Waiters j) = filter (\<lambda>x. x \<noteq> t) (L (Waiters j))"
        using re(3)[of j] k1(3) k1(7)[OF that] that by (simp add: same_setup_def)
      moreover have "filter (\<lambda>x. x \<noteq> t) (L (Waiters j)) = L (Waiters j)" if "j \<noteq> i"
        using f(6)[OF \<open>sems (client k) j \<noteq> None\<close> that] by (auto simp: filter_id_conv)
      moreover have "filter (\<lambda>x. x \<noteq> t) ws = ws" using f(5) by (auto simp: filter_id_conv)
      ultimately show ?thesis using w by simp
    qed
    show "th_error (threads (client k') x) = th_error (threads (client k) x)" for x
      using same_but_stat_thread(3)[OF re(1)] k1(8) by simp
  qed (use k1 k' re in auto)
qed

end
