(* ===== verification/Start_Facts.thy ===== *)
theory Start_Facts
  imports Sem_Facts
begin

text \<open>
  Threads that are created and started: a new thread joins the set of threads, and starting it
  makes it ready with its own priority.
\<close>

section \<open>A new thread\<close>

lemma thread_obj_init_ok:
  assumes ok: "kernel_ok k L T xs" and t: "t \<notin> T" "current_thread (client k) \<noteq> Some t"
    and m: "tm_obj k m = None" "timer_param (client k) m = None" and p: "unat p < 32"
    and o: "th_object (threads (client k) t)"
  obtains k' where "thread_obj_init t m p tick True k = Inr k'" "kernel_ok k' L (insert t T) xs"
    "st (client k') t = RT_THREAD_INIT" "init_priority (threads (client k') t) = p" "timer_of k' t = m"
    "\<And>x. x \<noteq> t \<Longrightarrow> threads (client k') x = threads (client k) x" "sems (client k') = sems (client k)"
    "current_thread (client k') = current_thread (client k)" "lock_nest (client k') = lock_nest (client k)"
    "interrupt_nest (client k') = interrupt_nest (client k)"
    "tm_obj k' = (tm_obj k)(m \<mapsto> True)" "timer_param (client k') = (timer_param (client k))(m \<mapsto> t)"
    "rt_tick k' = rt_tick k" "\<And>x. x \<noteq> m \<Longrightarrow> tm_timer k' x = tm_timer k x"
    "tm_timer k' m = clear_flag RT_TIMER_FLAG_ACTIVATED \<lparr>tm_flag = 0, init_tick = 0, timeout_tick = 0\<rparr>"
    "tm_links k' = rt_list_init (Row m) (tm_links k)" "soft_waits k' = soft_waits k"
proof -
  define f where "f = (\<lambda>th. th\<lparr>th_cleanup := False, th_stat := RT_THREAD_INIT,
                current_priority := p, init_priority := p, number_mask := 0,
                th_init_tick := tick, remaining_tick := tick, th_error := RT_EOK, th_timer := m,
                stack_intact := True\<rparr> :: rt_thread)"
  define s1 where "s1 = upd_thread t f (upd_sc_links (rt_list_init (Thread t)) (client k))"
  define s2 where "s2 = s1\<lparr>timer_param := (timer_param s1)(m \<mapsto> t)\<rparr>"
  define k1 where "k1 = k\<lparr>client := s2\<rparr>"
  define k' where "k' = rt_timer_init m 0 0 k1"
  have so: "sched_ok (client k) L T" and tm: "timers_match k T xs" using kernel_okD[OF ok] by simp_all
  have run: "thread_obj_init t m p tick True k = Inr k'"
    using p by (simp add: thread_obj_init_def assertE_def word_less_nat_alt Let_def k'_def k1_def s2_def s1_def
        f_def upd_sched_def)
  have th2: "threads s2 = (threads (client k))(t := f (threads (client k) t))" by (simp add: s2_def s1_def)
  have f2: "sems s2 = sems (client k)" "current_thread s2 = current_thread (client k)" "heads s2 = heads (client k)"
    "ready_group s2 = ready_group (client k)" "timer_param s2 = (timer_param (client k))(m \<mapsto> t)"
    "lock_nest s2 = lock_nest (client k)" "interrupt_nest s2 = interrupt_nest (client k)"
    by (simp_all add: s2_def s1_def heads_def)
  have st2: "st s2 t = RT_THREAD_INIT" by (simp add: th2 f_def stat_of_def)
  have eq: "threads s2 x = threads (client k) x" if "x \<noteq> t" for x using that by (simp add: th2)
  have inT: "x \<noteq> t" if "x \<in> set (L h)" "h \<in> heads (client k)" for x h
    using sc_subset[OF core_lists[OF ok_core[OF so]] that(2,1)] t by blast
  have co: "sched_core s2 L (insert t T)"
  proof -
    have "sc_lists (sc_links s2) (heads s2) L (insert t T)"
      using sc_init_thread[OF core_lists[OF ok_core[OF so]] t(1)] unfolding f2(3) by (simp add: s2_def s1_def)
    moreover have "th_ok (threads s2 x)" if "x \<in> insert t T" for x
      using that core_thread[OF ok_core[OF so], of x] o p by (cases "x = t") (auto simp: th2 th_ok_def f_def stat_of_def)
    moreover have "st s2 x = head_stat h" if "h \<in> heads s2" "x \<in> set (L h)" for h x
      using core_stat[OF ok_core[OF so]] that inT[OF that(2)] by (simp add: f2(3) eq)
    moreover have "prio s2 x = q" if "q < 32" "x \<in> set (L (Ready q))" for q x
      using core_prio[OF ok_core[OF so] that] inT[OF that(2)] that(1) by (simp add: eq)
    moreover have "\<forall>q<32. bit (ready_group s2) q \<longleftrightarrow> L (Ready q) \<noteq> []"
      using ok_core[OF so] by (simp add: f2 sched_core_def)
    ultimately show ?thesis unfolding sched_core_def by blast
  qed
  have sok: "sched_ok s2 L (insert t T)"
  proof (rule sched_okI[OF co])
    fix x assume x: "x \<in> insert t T" "st s2 x = RT_THREAD_READY"
    then have "x \<noteq> t" using st2 by auto
    then show "x \<in> set (L (Ready (prio s2 x)))" using ok_ready[OF so, of x] x by (simp add: eq)
  next
    fix x assume x: "x \<in> insert t T" "st s2 x = RT_THREAD_RUNNING"
    then have "x \<noteq> t" using st2 by auto
    then show "current_thread s2 = Some x" using ok_running[OF so, of x] x by (simp add: eq f2)
  next
    fix c assume "current_thread s2 = Some c"
    then have c: "current_thread (client k) = Some c" "c \<noteq> t" using t(2) by (auto simp: f2)
    from ok_current[OF so c(1)] c(2) show "st s2 c \<noteq> RT_THREAD_READY \<and> st s2 c \<noteq> RT_THREAD_INIT
      \<and> (st s2 c = RT_THREAD_RUNNING \<longrightarrow> c \<in> insert t T)" by (simp add: eq)
  qed
  have c': "client k' = s2" "tm_obj k' = (tm_obj k)(m \<mapsto> True)" "rt_tick k' = rt_tick k"
    "tm_timer k' = (tm_timer k)(m := clear_flag RT_TIMER_FLAG_ACTIVATED \<lparr>tm_flag = 0, init_tick = 0, timeout_tick = 0\<rparr>)"
    "tm_links k' = rt_list_init (Row m) (tm_links k)" "soft_waits k' = soft_waits k"
    by (simp_all add: k'_def k1_def rt_timer_init_def timer_obj_init_def upd_obj_def upd_links_def upd_timer_def)
  have "tm_ok k1 xs []" using tm by (simp add: timers_match_def k1_def tm_ok_client)
  moreover have "tm_obj k1 m = None" using m by (simp add: k1_def)
  ultimately have tok: "tm_ok k' xs []" unfolding k'_def rt_timer_init_def by (intro timer_obj_init_ok)
  have mT: "timer_of k x \<noteq> m" if "x \<in> T" for x using thread_timerD(1)[OF match_timer[OF tm that]] m(1) by auto
  have mx: "m \<notin> set xs" using tm m(1) by (auto simp: timers_match_def tm_ok_def tm_lists_def)
  have "timers_match k' (insert t T) xs"
    unfolding timers_match_def
  proof (intro conjI ballI allI impI)
    show "tm_ok k' xs []" by (rule tok)
    fix x assume x: "x \<in> insert t T"
    show "thread_timer k' x"
    proof (cases "x = t")
      case True
      have "\<not> has_flag b (clear_flag RT_TIMER_FLAG_ACTIVATED \<lparr>tm_flag = 0, init_tick = 0, timeout_tick = 0\<rparr>)" for b
        by (simp add: has_flag_def clear_flag_def)
      then show ?thesis using True by (simp add: thread_timer_def c' f2 th2 f_def)
    next
      case False
      then have "x \<in> T" using x by simp
      then show ?thesis
        using thread_timerD[OF match_timer[OF tm \<open>x \<in> T\<close>]] mT[OF \<open>x \<in> T\<close>] False
        by (simp add: thread_timer_def Let_def c' f2 eq)
    qed
  next
    fix y x assume y: "y \<in> set xs" "timer_param (client k') y = Some x"
    then have "y \<noteq> m" using mx by auto
    then have "timer_param (client k) y = Some x" using y(2) by (simp add: c' f2)
    from match_suspended[OF tm y(1) this] have "x \<in> T" "timer_of k x = y" "st (client k) x = RT_THREAD_SUSPEND" by auto
    moreover from this have "x \<noteq> t" using t by auto
    ultimately show "x \<in> insert t T" "timer_of k' x = y" "st (client k') x = RT_THREAD_SUSPEND" by (simp_all add: c' eq)
  qed
  then have "kernel_ok k' L (insert t T) xs" using sok by (simp add: kernel_ok_def c')
  then show thesis
    using that[OF run] st2 c' f2 eq by (simp add: th2 f_def)
qed

section \<open>Starting\<close>

text \<open>The thread gets the priority it was created with, and is suspended for a moment.\<close>

definition awake :: "rt_thread \<Rightarrow> rt_thread" where
  "awake th = th\<lparr>current_priority := init_priority th, number_mask := push_bit (unat (init_priority th)) 1,
     th_stat := RT_THREAD_SUSPEND\<rparr>"

lemma awake_ok:
  assumes ok: "kernel_ok k L T xs" and t: "t \<in> T" "st (client k) t = RT_THREAD_INIT"
  shows "kernel_ok (upd_sched (upd_thread t awake) k) L T xs"
    "st (client (upd_sched (upd_thread t awake) k)) t = RT_THREAD_SUSPEND"
proof -
  have so: "sched_ok (client k) L T" using kernel_okD(1)[OF ok] .
  define s' where "s' = upd_thread t awake (client k)"
  have a: "th_timer (awake th) = th_timer th" "stat_of (awake th) = RT_THREAD_SUSPEND" for th
    by (simp_all add: awake_def stat_of_def)
  show s: "st (client (upd_sched (upd_thread t awake) k)) t = RT_THREAD_SUSPEND" by (simp add: a)
  have nl: "in_no_list (heads (client k)) L t" using no_list_if_stat[OF ok_core[OF so]] t(2) by simp
  have "th_ok (awake (threads (client k) t))"
    using core_thread[OF ok_core[OF so] t(1)] by (simp add: th_ok_def awake_def masked_def)
  then have co: "sched_core s' L T" unfolding s'_def by (intro core_upd_thread[OF ok_core[OF so] nl])
  have st': "st s' t = RT_THREAD_SUSPEND" by (simp add: s'_def a)
  have eq: "threads s' x = threads (client k) x" if "x \<noteq> t" for x using that by (simp add: s'_def)
  have "sched_ok s' L T"
  proof (rule sched_okI[OF co])
    fix x assume x: "x \<in> T" "st s' x = RT_THREAD_READY"
    then have "x \<noteq> t" using st' by auto
    then show "x \<in> set (L (Ready (prio s' x)))" using ok_ready[OF so x(1)] x(2) by (simp add: eq)
  next
    fix x assume x: "x \<in> T" "st s' x = RT_THREAD_RUNNING"
    then have "x \<noteq> t" using st' by auto
    then show "current_thread s' = Some x" using ok_running[OF so x(1)] x(2) by (simp add: eq s'_def)
  next
    fix c assume "current_thread s' = Some c"
    then have c: "current_thread (client k) = Some c" by (simp add: s'_def)
    then have "c \<noteq> t" using ok_current(2)[OF so c] t(2) by auto
    then show "st s' c \<noteq> RT_THREAD_READY \<and> st s' c \<noteq> RT_THREAD_INIT
      \<and> (st s' c = RT_THREAD_RUNNING \<longrightarrow> c \<in> T)" using ok_current[OF so c] by (simp add: eq)
  qed
  moreover have "timers_match (k\<lparr>client := s'\<rparr>) T xs"
  proof (rule timers_match_client[OF kernel_okD(2)[OF ok]])
    show "th_timer (threads s' x) = timer_of k x" for x by (simp add: s'_def a)
    show "st s' x = RT_THREAD_SUSPEND" if "st (client k) x = RT_THREAD_SUSPEND" for x
      using that st' by (cases "x = t") (simp_all add: eq)
  qed (simp add: s'_def)
  ultimately show "kernel_ok (upd_sched (upd_thread t awake) k) L T xs"
    by (simp add: kernel_ok_def upd_sched_def s'_def)
qed

lemma startup_unfold:
  assumes "kernel_ok k L T xs" "t \<in> T" "st (client k) t = RT_THREAD_INIT"
  shows "rt_thread_startup t k = bindE (rt_thread_resume t (upd_sched (upd_thread t awake) k)) (\<lambda>(_, k2).
     if current_thread (client k2) \<noteq> None then bindE (on_sched rt_schedule k2) (\<lambda>k3. Inr (RT_EOK, k3))
     else Inr (RT_EOK, k2))"
  using assms(3) kernel_object[OF assms(1,2)]
  by (simp add: rt_thread_startup_def assertE_def awake_def[abs_def])

lemma sem_ok_cong:
  assumes "sem_ok s sem ws" "\<And>x. x \<in> set ws \<Longrightarrow> prio s' x = prio s x"
  shows "sem_ok s' sem ws"
proof -
  have "map (prio s') ws = map (prio s) ws" using assms(2) by simp
  then show ?thesis using assms(1) by (simp add: sem_ok_def del: map_eq_conv)
qed

lemma pre_awake:
  assumes pre: "kernel_pre idle k L T xs" and t: "t \<in> T" "st (client k) t = RT_THREAD_INIT"
  shows "kernel_pre idle (upd_sched (upd_thread t awake) k) L T xs"
proof -
  note p = kernel_preD[OF pre]
  have so: "sched_ok (client k) L T" using kernel_okD(1)[OF p(1)] .
  define s' where "s' = upd_thread t awake (client k)"
  have eq: "threads s' x = threads (client k) x" if "x \<noteq> t" for x using that by (simp add: s'_def)
  have nw: "t \<notin> set (L (Waiters i))" if "sems (client k) i \<noteq> None" for i
    using no_list_if_stat[OF ok_core[OF so], of t] t(2) that by (auto simp: in_no_list_def)
  moreover have "sems s' = sems (client k)" by (simp add: s'_def)
  ultimately have "sem_ok s' sem (L (Waiters i))" if "sems s' i = Some sem" for i sem
  proof -
    have i: "sems (client k) i = Some sem" using that \<open>sems s' = sems (client k)\<close> by simp
    then have "t \<notin> set (L (Waiters i))" using nw by simp
    moreover have "sem_ok (client k) sem (L (Waiters i))" using p(3) i by (simp add: sems_ok_def)
    moreover have "prio s' x = prio (client k) x" if "x \<in> set (L (Waiters i))" for x
      using that calculation(1) eq[of x] by metis
    ultimately show ?thesis using sem_ok_cong[of "client k" sem "L (Waiters i)" s'] by blast
  qed
  then have "sems_ok s' L" by (simp add: sems_ok_def)
  moreover have "idle \<noteq> t" using p(5) t(2) by (auto simp: cls_def)
  then have "cls s' idle = cls (client k) idle" using eq by (simp add: cls_def)
  then have "cls s' idle = RT_THREAD_READY" using p(5) by simp
  moreover have "none_due (upd_sched (upd_thread t awake) k) xs" by (rule none_due_same[OF p(2)]) simp_all
  ultimately show ?thesis using awake_ok(1)[OF p(1) t] p(4,6) by (simp add: kernel_pre_def s'_def)
qed

lemma inv_startup:
  assumes inv: "kernel_inv idle k L T xs" and t: "t \<in> T" "st (client k) t = RT_THREAD_INIT"
  obtains k' L' xs' where "rt_thread_startup t k = Inr (RT_EOK, k')" "kernel_inv idle k' L' T xs'"
    "\<And>x. cls (client k') x = (if x = t then RT_THREAD_READY else cls (client k) x)"
    "current_priority (threads (client k') t) = init_priority (threads (client k) t)"
    "lock_nest (client k') = lock_nest (client k)" "interrupt_nest (client k') = interrupt_nest (client k)"
    "sems (client k') = sems (client k)"
proof -
  define k1 where "k1 = upd_sched (upd_thread t awake) k"
  have p1: "kernel_pre idle k1 L T xs" unfolding k1_def by (rule pre_awake[OF inv_pre[OF inv] t])
  have s1: "st (client k1) t = RT_THREAD_SUSPEND"
    unfolding k1_def by (rule awake_ok(2)[OF kernel_invD(1)[OF inv] t])
  obtain k2 L2 xs2 where k2: "rt_thread_resume t k1 = Inr (RT_EOK, k2)" "kernel_pre idle k2 L2 T xs2"
    "same_setup (client k1) (client k2)" "rt_tick k2 = rt_tick k1"
    "current_thread (client k2) = current_thread (client k1)"
    "\<And>x. cls (client k2) x = (if x = t then RT_THREAD_READY else cls (client k1) x)"
    "\<And>i. sems (client k1) i \<noteq> None \<Longrightarrow> L2 (Waiters i) = filter (\<lambda>x. x \<noteq> t) (L (Waiters i))"
    "\<And>x. th_error (threads (client k2) x) = th_error (threads (client k1) x)"
    "xs2 = remove1 (timer_of k1 t) xs" "\<And>x. x \<in> set xs2 \<Longrightarrow> left k2 x = left k1 x"
    "\<And>x. x \<noteq> t \<Longrightarrow> st (client k2) x = st (client k1) x"
    by (rule pre_resume[OF p1 t(1) s1]) blast
  obtain k' L' where k': "on_sched rt_schedule k2 = Inr k'" "kernel_inv idle k' L' T xs2"
    "rescheduled (client k2) L2 T (client k') L'" "rt_tick k' = rt_tick k2" "\<And>x. left k' x = left k2 x"
    by (rule pre_schedule[OF k2(2)]) blast
  note re = rescheduledD[OF k'(3)]
  have c2: "current_thread (client k2) \<noteq> None" using kernel_preD(6)[OF k2(2)] .
  then have "rt_thread_startup t k = Inr (RT_EOK, k')"
    using k2(1) k'(1) by (simp add: startup_unfold[OF kernel_invD(1)[OF inv] t] flip: k1_def)
  moreover have "cls (client k') x = (if x = t then RT_THREAD_READY else cls (client k) x)" for x
    by (simp add: re(2) k2(6)) (simp add: k1_def cls_def)
  moreover have "current_priority (threads (client k') t) = init_priority (threads (client k) t)"
    using k2(3) same_but_stat_thread(1)[OF re(1), of t] by (simp add: same_setup_def k1_def awake_def)
  moreover have "lock_nest (client k') = lock_nest (client k)" "interrupt_nest (client k') = interrupt_nest (client k)"
    "sems (client k') = sems (client k)"
    using k2(3) re(1) by (simp_all add: same_setup_def same_but_stat_def k1_def)
  ultimately show thesis using that k'(2) by blast
qed

section \<open>Yielding and locking\<close>

lemma inv_yield:
  assumes inv: "kernel_inv idle k L T xs"
  obtains k' L' where "rt_thread_yield k = Inr (RT_EOK, k')" "kernel_inv idle k' L' T xs"
    "rescheduled (client k) L T (client k') L'"
proof -
  obtain k' L' where k': "on_sched rt_schedule k = Inr k'" "kernel_inv idle k' L' T xs"
    "rescheduled (client k) L T (client k') L'" "rt_tick k' = rt_tick k" "\<And>x. left k' x = left k x"
    by (rule pre_schedule[OF inv_pre[OF inv]]) blast
  then show thesis using that by (simp add: rt_thread_yield_def)
qed

lemma sched_ok_locks:
  "sched_ok (s\<lparr>lock_nest := n\<rparr>) L T = sched_ok s L T"
  by (simp add: sched_ok_def sched_core_def heads_def)

lemma pre_lock:
  assumes pre: "kernel_pre idle k L T xs"
  shows "kernel_pre idle (upd_sched (\<lambda>s. s\<lparr>lock_nest := n\<rparr>) k) L T xs"
proof -
  note p = kernel_preD[OF pre]
  have "timers_match (k\<lparr>client := (client k)\<lparr>lock_nest := n\<rparr>\<rparr>) T xs"
    by (rule timers_match_client[OF kernel_okD(2)[OF p(1)]]) simp_all
  then have "kernel_ok (upd_sched (\<lambda>s. s\<lparr>lock_nest := n\<rparr>) k) L T xs"
    using kernel_okD(1)[OF p(1)] by (simp add: kernel_ok_def upd_sched_def sched_ok_locks)
  moreover have "none_due (upd_sched (\<lambda>s. s\<lparr>lock_nest := n\<rparr>) k) xs" by (rule none_due_same[OF p(2)]) simp_all
  moreover have "sems_ok ((client k)\<lparr>lock_nest := n\<rparr>) L" using p(3) by (simp add: sems_ok_def sem_ok_def)
  moreover have "cls ((client k)\<lparr>lock_nest := n\<rparr>) idle = cls (client k) idle" by (simp add: cls_def)
  ultimately show ?thesis using p(4-6) by (simp add: kernel_pre_def)
qed

lemma inv_enter_critical:
  assumes inv: "kernel_inv idle k L T xs" and n: "0 \<le> lock_nest (client k)" "lock_nest (client k) < 32767"
  shows "kernel_inv idle (upd_sched rt_enter_critical k) L T xs"
    "lock_nest (client (upd_sched rt_enter_critical k)) = lock_nest (client k) + 1"
proof -
  have l: "to_s16 (lock_nest (client k) + 1) = lock_nest (client k) + 1"
    using n by (intro to_s16_id) simp_all
  then have e: "upd_sched rt_enter_critical k = upd_sched (\<lambda>s. s\<lparr>lock_nest := lock_nest (client k) + 1\<rparr>) k"
    by (simp add: upd_sched_def rt_enter_critical_def)
  show "kernel_inv idle (upd_sched rt_enter_critical k) L T xs"
    using pre_lock[OF inv_pre[OF inv], of "lock_nest (client k) + 1"] n unfolding e kernel_inv_def kernel_pre_def by simp
  show "lock_nest (client (upd_sched rt_enter_critical k)) = lock_nest (client k) + 1" unfolding e by simp
qed

lemma inv_exit_critical:
  assumes inv: "kernel_inv idle k L T xs" and n: "0 < lock_nest (client k)" "lock_nest (client k) < 32768"
  obtains k' L' where "on_sched rt_exit_critical k = Inr k'" "kernel_inv idle k' L' T xs"
    "lock_nest (client k') = lock_nest (client k) - 1"
    "\<And>x. cls (client k') x = cls (client k) x" "interrupt_nest (client k') = interrupt_nest (client k)"
proof -
  define m where "m = lock_nest (client k) - 1"
  have l: "to_s16 (lock_nest (client k) - 1) = m" unfolding m_def using n by (intro to_s16_id) simp_all
  define k1 where "k1 = upd_sched (\<lambda>s. s\<lparr>lock_nest := m\<rparr>) k"
  have p1: "kernel_pre idle k1 L T xs" unfolding k1_def by (rule pre_lock[OF inv_pre[OF inv]])
  have c: "current_thread (client k) \<noteq> None" using kernel_invD(6)[OF inv] .
  show thesis
  proof (cases "m = 0")
    case False
    then have "rt_exit_critical (client k) = Inr ((client k)\<lparr>lock_nest := m\<rparr>)"
      using n l by (simp add: rt_exit_critical_def Let_def m_def)
    then have "on_sched rt_exit_critical k = Inr k1" by (simp add: on_sched_def k1_def upd_sched_def)
    moreover have "kernel_inv idle k1 L T xs" using p1 False by (simp add: kernel_inv_def kernel_pre_def k1_def)
    ultimately show thesis using that[of k1 L] by (simp add: k1_def m_def cls_def)
  next
    case True
    obtain k' L' where k': "on_sched rt_schedule k1 = Inr k'" "kernel_inv idle k' L' T xs"
      "rescheduled (client k1) L T (client k') L'" "rt_tick k' = rt_tick k1" "\<And>x. left k' x = left k1 x"
      by (rule pre_schedule[OF p1]) blast
    note re = rescheduledD[OF k'(3)]
    have "rt_exit_critical (client k) = rt_schedule ((client k)\<lparr>lock_nest := 0\<rparr>)"
      using l True c by (simp add: rt_exit_critical_def Let_def)
    then have "on_sched rt_exit_critical k = on_sched rt_schedule k1"
      using True by (simp add: on_sched_def k1_def upd_sched_def)
    then show thesis
      using that[of k' L'] k'(1,2) re(2) same_but_statD(3,4)[OF re(1)] by (simp add: k1_def m_def cls_def)
  qed
qed

end
