(* ===== verification/Boot_Facts.thy ===== *)
theory Boot_Facts
  imports Boot Start_Facts
begin

text \<open>
  The start of the kernel leads to a state that keeps the invariant, with the main thread, the
  thread of the soft timers and the idle thread, from any memory in which no timer exists and the
  semaphores there are have no waiting threads.
\<close>

section \<open>The scheduler at its start\<close>

lemma ready_heads_init:
  assumes "sc_lists ls H (\<lambda>_. []) {}" "distinct ps" "\<And>p. p \<in> set ps \<Longrightarrow> Ready p \<notin> H"
  shows "sc_lists (fold (\<lambda>p. rt_list_init (Ready p)) ps ls) (H \<union> Ready ` set ps) (\<lambda>_. []) {}"
  using assms
proof (induction ps arbitrary: ls H)
  case Nil
  then show ?case by simp
next
  case (Cons p ps)
  have "sc_lists (rt_list_init (Ready p) ls) (insert (Ready p) H) (\<lambda>_. []) {}"
    using sc_init_head[OF Cons.prems(1), of "Ready p"] Cons.prems(3) by (simp add: fun_upd_idem)
  then have "sc_lists (fold (\<lambda>p. rt_list_init (Ready p)) ps (rt_list_init (Ready p) ls))
      (insert (Ready p) H \<union> Ready ` set ps) (\<lambda>_. []) {}"
    using Cons.prems(2,3) by (intro Cons.IH) auto
  then show ?case by simp
qed

definition idle_sems :: "sched \<Rightarrow> bool" where
  "idle_sems s \<longleftrightarrow> (\<forall>i sem. sems s i = Some sem \<longrightarrow> dlist (sc_links s) (Waiters i) []
     \<and> (sem_flag sem = RT_IPC_FLAG_FIFO \<or> sem_flag sem = RT_IPC_FLAG_PRIO))"

lemma scheduler_init_ok:
  assumes c: "current_thread s = None" and i: "idle_sems s"
  shows "sched_ok (rt_system_scheduler_init s) (\<lambda>_. []) {}" "sems_ok (rt_system_scheduler_init s) (\<lambda>_. [])"
proof -
  define ls where "ls = fold (\<lambda>p. rt_list_init (Ready p)) [0..<32] (sc_links s)"
  define s' where "s' = rt_system_scheduler_init s"
  have f: "sc_links s' = rt_list_init Defunct ls" "ready_group s' = 0" "sems s' = sems s" "current_thread s' = None"
    using c by (simp_all add: s'_def rt_system_scheduler_init_def ls_def)
  have "sc_lists (sc_links s) (Waiters ` dom (sems s)) (\<lambda>_. []) {}"
    using i by (auto simp: sc_lists_def idle_sems_def)
  then have "sc_lists ls (Waiters ` dom (sems s) \<union> Ready ` set [0..<32]) (\<lambda>_. []) {}"
    unfolding ls_def by (intro ready_heads_init) auto
  then have "sc_lists (sc_links s') (insert Defunct (Waiters ` dom (sems s) \<union> Ready ` set [0..<32])) (\<lambda>_. []) {}"
    using sc_init_head[of ls _ "\<lambda>_. []" "{}" Defunct] by (auto simp: f(1) fun_upd_idem)
  moreover have "heads s' = insert Defunct (Waiters ` dom (sems s) \<union> Ready ` set [0..<32])"
    by (auto simp: heads_def f(3))
  ultimately have "sched_core s' (\<lambda>_. []) {}" by (simp add: sched_core_def f(2))
  then have "sched_ok s' (\<lambda>_. []) {}" by (rule sched_okI) (simp_all add: f(4))
  then show "sched_ok (rt_system_scheduler_init s) (\<lambda>_. []) {}" by (simp add: s'_def)
  have "sems_ok s' (\<lambda>_. [])" using i by (auto simp: sems_ok_def sem_ok_def idle_sems_def f(3))
  then show "sems_ok (rt_system_scheduler_init s) (\<lambda>_. [])" by (simp add: s'_def)
qed

section \<open>The first thread\<close>

lemma sched_core_current: "sched_core (s\<lparr>current_thread := c\<rparr>) L T = sched_core s L T"
  by (simp add: sched_core_def heads_def)

lemma scheduler_start_ok:
  assumes ok: "kernel_ok k L T xs" and nd: "none_due k xs" and se: "sems_ok (client k) L"
    and n: "current_thread (client k) = None" and i: "idle \<in> T" "st (client k) idle = RT_THREAD_READY"
  obtains k' L' where "on_sched rt_system_scheduler_start k = Inr k'" "kernel_inv idle k' L' T xs"
    "lock_nest (client k') = lock_nest (client k)" "interrupt_nest (client k') = interrupt_nest (client k)"
    "\<And>x. cls (client k') x = cls (client k) x" "\<And>j. sems (client k) j \<noteq> None \<Longrightarrow> L' (Waiters j) = L (Waiters j)"
    "sems (client k') = sems (client k)"
    "\<And>x. current_priority (threads (client k') x) = current_priority (threads (client k) x)"
proof -
  define s where "s = client k"
  have so: "sched_ok s L T" using kernel_okD(1)[OF ok] by (simp add: s_def)
  have co: "sched_core s L T" using ok_core[OF so] .
  have "idle \<in> set (L (Ready (prio s idle)))" using ok_ready[OF so i(1)] i(2) by (simp add: s_def)
  then have "L (Ready (prio s idle)) \<noteq> []" by auto
  then have g: "ready_group s \<noteq> 0" using group_zero[OF co] ready_prio[OF co i(1)] by blast
  obtain t p ts where t: "get_highest_priority_thread s = Inr (t, p)" "p < 32" "L (Ready p) = t # ts"
    "\<forall>q<p. L (Ready q) = []" by (rule get_highest_ok[OF co g])
  have tL: "t \<in> set (L (Ready p))" using t(3) by simp
  have tst: "st s t = RT_THREAD_READY" "prio s t = p" using core_stat[OF co _ tL] core_prio[OF co t(2) tL] t(2) by simp_all
  have tT: "t \<in> T" using sc_subset[OF core_lists[OF co] _ tL] t(2) by simp
  define s0 where "s0 = s\<lparr>current_thread := Some t\<rparr>"
  have co0: "sched_core s0 L T" using co by (simp add: s0_def sched_core_current)
  have m0: "masked (threads s0 t)" using core_thread[OF co tT] tst by (simp add: th_ok_def s0_def)
  obtain s1 where s1: "rt_schedule_remove_thread t s0 = Inr s1" "sched_core s1 (off t L) T" "relinked s0 s1"
    using core_remove[OF co0 tT] m0 by blast
  note r = relinkedD[OF s1(3)]
  define f where "f = (\<lambda>th. th\<lparr>th_stat := RT_THREAD_RUNNING\<rparr> :: rt_thread)"
  define s' where "s' = upd_thread t f s1"
  have nl: "in_no_list (heads s1) (off t L) t" using in_no_list_off[OF core_lists[OF co0]] r(7) by simp
  have "th_ok (f (threads s1 t))"
    using core_thread[OF co tT] m0 by (simp add: th_ok_def f_def r s0_def masked_def stat_of_def)
  then have co': "sched_core s' (off t L) T" unfolding s'_def by (intro core_upd_thread[OF s1(2) nl])
  have eq: "threads s' x = threads s x" if "x \<noteq> t" for x using that by (simp add: s'_def r s0_def)
  have st': "st s' t = RT_THREAD_RUNNING" by (simp add: s'_def f_def stat_of_def)
  have pr: "current_priority (threads s' x) = current_priority (threads s x)"
    "th_timer (threads s' x) = th_timer (threads s x)" for x by (simp_all add: s'_def f_def r s0_def)
  have fr: "current_thread s' = Some t" "sems s' = sems s" "timer_param s' = timer_param s" "lock_nest s' = lock_nest s"
    "interrupt_nest s' = interrupt_nest s" by (simp_all add: s'_def r s0_def)
  have ok': "sched_ok s' (off t L) T"
  proof (rule sched_okI[OF co'])
    fix x assume x: "x \<in> T" "st s' x = RT_THREAD_READY"
    then have "x \<noteq> t" using st' by auto
    then show "x \<in> set (off t L (Ready (prio s' x)))" using ok_ready[OF so x(1)] x(2) by (simp add: eq off_def)
  next
    fix x assume x: "x \<in> T" "st s' x = RT_THREAD_RUNNING"
    have "x = t"
    proof (rule ccontr)
      assume "x \<noteq> t"
      then have "current_thread s = Some x" using ok_running[OF so x(1)] x(2) by (simp add: eq)
      then show False using n by (simp add: s_def)
    qed
    then show "current_thread s' = Some x" by (simp add: fr)
  next
    fix c assume "current_thread s' = Some c"
    then show "st s' c \<noteq> RT_THREAD_READY \<and> st s' c \<noteq> RT_THREAD_INIT \<and> (st s' c = RT_THREAD_RUNNING \<longrightarrow> c \<in> T)"
      using st' tT by (simp add: fr)
  qed
  have cl: "cls s' x = cls s x" for x using st' tst(1) eq by (cases "x = t") (simp_all add: cls_def)
  have w: "off t L (Waiters j) = L (Waiters j)" if "sems s j \<noteq> None" for j
  proof -
    have "t \<notin> set (L (Waiters j))" using core_stat[OF co, of "Waiters j" t] that tst(1) by auto
    then show ?thesis by (simp add: off_def remove1_idem)
  qed
  have top: "on_top s' T"
  proof -
    have "p \<le> prio s x" if x: "x \<in> T" "st s' x = RT_THREAD_READY" for x
    proof -
      have "x \<noteq> t" using x(2) st' by auto
      then have "x \<in> set (L (Ready (prio s x)))" using ok_ready[OF so x(1)] x(2) by (simp add: eq)
      then have "L (Ready (prio s x)) \<noteq> []" by auto
      then show ?thesis using t(4) by (meson not_le)
    qed
    then show ?thesis using tT st' tst(2) by (auto simp: on_top_def fr pr)
  qed
  define k' where "k' = k\<lparr>client := s'\<rparr>"
  have tm: "timers_match k' T xs"
    unfolding k'_def
  proof (rule timers_match_client[OF kernel_okD(2)[OF ok]])
    show "st s' x = RT_THREAD_SUSPEND" if "st (client k) x = RT_THREAD_SUSPEND" for x
      using cls_eq_suspend[OF cl] that by (simp add: s_def)
  qed (simp_all add: fr pr s_def)
  have "sems_ok s' (off t L)"
  proof (rule sems_ok_same[OF se])
    show "same_setup (client k) s'" by (simp add: same_setup_def fr pr s_def)
  qed (use w in \<open>simp add: s_def\<close>)
  moreover have "none_due k' xs" by (rule none_due_same[OF nd]) (simp_all add: k'_def)
  moreover have "cls s' idle = RT_THREAD_READY" using cl i(2) by (simp add: cls_def s_def)
  ultimately have inv: "kernel_inv idle k' (off t L) T xs"
    using ok' tm top i(1) by (simp add: kernel_inv_def kernel_ok_def k'_def fr)
  have "on_sched rt_system_scheduler_start k = Inr k'"
    using t(1) s1(1) by (simp add: on_sched_def rt_system_scheduler_start_def s_def[symmetric] s0_def[symmetric]
        k'_def s'_def f_def)
  then show thesis using that[of k' "off t L"] inv cl w by (simp add: k'_def fr pr flip: s_def)
qed

section \<open>Before the soft timers have their list\<close>

text \<open>The main thread is created and started before the list of the soft timers is initialised:
  neither looks at that list.\<close>

definition soft_init :: "kernel \<Rightarrow> kernel" where
  "soft_init k = upd_links (rt_list_init Soft_List) k"

lemma soft_init_simps [simp]:
  "client (soft_init k) = client k" "tm_obj (soft_init k) = tm_obj k" "tm_timer (soft_init k) = tm_timer k"
  "rt_tick (soft_init k) = rt_tick k" "soft_init (upd_sched f k) = upd_sched f (soft_init k)"
  "soft_init (k\<lparr>client := s\<rparr>) = (soft_init k)\<lparr>client := s\<rparr>"
  by (simp_all add: soft_init_def upd_sched_def upd_links_def)

lemma soft_init_obj: "thread_obj_init t m p tick b (soft_init k) = map_sum id soft_init (thread_obj_init t m p tick b k)"
proof -
  have "rt_list_init (Row m) (rt_list_init Soft_List ls) = rt_list_init Soft_List (rt_list_init (Row m) ls)" for ls
    by (simp add: rt_list_init_def set_next_def set_prev_def fun_upd_twist)
  then have e: "rt_timer_init m 0 0 (soft_init k) = soft_init (rt_timer_init m 0 0 k)" for k :: kernel
    by (simp add: rt_timer_init_def timer_obj_init_def soft_init_def upd_links_def upd_timer_def upd_obj_def)
  show ?thesis by (simp add: thread_obj_init_def assertE_def Let_def flip: e)
qed

lemma insert_keeps_current: "rt_schedule_insert_thread t s = Inr s' \<Longrightarrow> current_thread s' = current_thread s"
  by (auto simp: rt_schedule_insert_thread_def ready_head_def Let_def split: if_splits)

lemma startup_inactive:
  assumes "st (client k) t = RT_THREAD_INIT" "th_object (threads (client k) t)" "current_thread (client k) = None"
    "tm_obj k (timer_of k t) \<noteq> None" "\<not> has_flag RT_TIMER_FLAG_ACTIVATED (tm_timer k (timer_of k t))"
  shows "rt_thread_startup t k
    = bindE (rt_schedule_insert_thread t (upd_sc_links (rt_list_remove (Thread t)) (upd_thread t awake (client k))))
        (\<lambda>s. Inr (RT_EOK, k\<lparr>client := s\<rparr>))"
proof -
  define k1 where "k1 = upd_sched (upd_thread t awake) k"
  define s where "s = upd_sc_links (rt_list_remove (Thread t)) (upd_thread t awake (client k))"
  have a: "th_timer (awake th) = th_timer th" "stat_of (awake th) = RT_THREAD_SUSPEND"
    "th_object (awake th) = th_object th" for th by (simp_all add: awake_def stat_of_def)
  have "rt_thread_startup t k = bindE (rt_thread_resume t k1) (\<lambda>(_, k2).
     if current_thread (client k2) \<noteq> None then bindE (on_sched rt_schedule k2) (\<lambda>k3. Inr (RT_EOK, k3))
     else Inr (RT_EOK, k2))"
    using assms(1,2) by (simp add: rt_thread_startup_def assertE_def assert_thread_def k1_def awake_def[abs_def])
  moreover have "rt_thread_resume t k1 = bindE (rt_schedule_insert_thread t s) (\<lambda>s'. Inr (RT_EOK, k\<lparr>client := s'\<rparr>))"
    using assms(2,4,5)
    by (cases "rt_schedule_insert_thread t s")
      (auto simp: rt_thread_resume_def assert_thread_def assertE_def k1_def a stop_thread_timer_def rt_timer_stop_def
        on_sched_def s_def upd_sched_def)
  moreover have "current_thread s' = None" if "rt_schedule_insert_thread t s = Inr s'" for s'
    using insert_keeps_current[OF that] assms(3) by (simp add: s_def)
  ultimately show ?thesis by (cases "rt_schedule_insert_thread t s") (simp_all add: s_def)
qed

lemma create_unfold:
  "rt_thread_create (Some (t, m)) (Some True) p tick k
    = bindE (thread_obj_init t m p tick True (upd_sched (upd_thread t (\<lambda>th. th\<lparr>th_object := True, th_static := False\<rparr>)) k))
        (\<lambda>k1. Inr (Some t, k1))"
  by (simp add: rt_thread_create_def)

text \<open>A new thread is created, or initialised, and started while no thread runs yet.\<close>

definition boot_inv :: "kernel \<Rightarrow> (snode \<Rightarrow> nat list) \<Rightarrow> nat set \<Rightarrow> bool" where
  "boot_inv k L T \<longleftrightarrow> kernel_ok k L T [] \<and> sems_ok (client k) L \<and> current_thread (client k) = None
     \<and> (\<forall>m. tm_obj k m = None \<longrightarrow> timer_param (client k) m = None)"

lemma kernel_upd_outside:
  assumes ok: "kernel_ok k L T xs" and t: "t \<notin> T" and f: "\<And>th. stat_of (f th) = stat_of th"
    "\<And>th. th_timer (f th) = th_timer th"
  shows "kernel_ok (upd_sched (upd_thread t f) k) L T xs"
proof -
  note so = kernel_okD(1)[OF ok]
  have nl: "in_no_list (heads (client k)) L t"
    using sc_subset[OF core_lists[OF ok_core[OF so]]] t by (auto simp: in_no_list_def)
  have co: "sched_core (upd_thread t f (client k)) L T" using t by (intro core_upd_thread[OF ok_core[OF so] nl]) simp
  have st: "st (upd_thread t f (client k)) x = st (client k) x" for x by (simp add: f)
  have pr: "prio (upd_thread t f (client k)) x = prio (client k) x" if "x \<in> T" for x using that t by auto
  have "sched_ok (upd_thread t f (client k)) L T"
  proof (rule sched_okI[OF co])
    fix x assume x: "x \<in> T" "st (upd_thread t f (client k)) x = RT_THREAD_READY"
    then show "x \<in> set (L (Ready (prio (upd_thread t f (client k)) x)))"
      using ok_ready[OF so x(1)] pr[OF x(1)] by (simp only: st)
  next
    fix x assume x: "x \<in> T" "st (upd_thread t f (client k)) x = RT_THREAD_RUNNING"
    then show "current_thread (upd_thread t f (client k)) = Some x" using ok_running[OF so x(1)] by (simp only: st) simp
  next
    fix c assume "current_thread (upd_thread t f (client k)) = Some c"
    then have "current_thread (client k) = Some c" by simp
    from ok_current[OF so this] show "st (upd_thread t f (client k)) c \<noteq> RT_THREAD_READY
      \<and> st (upd_thread t f (client k)) c \<noteq> RT_THREAD_INIT \<and> (st (upd_thread t f (client k)) c = RT_THREAD_RUNNING \<longrightarrow> c \<in> T)"
      by (simp only: st) simp
  qed
  moreover have "timers_match (k\<lparr>client := upd_thread t f (client k)\<rparr>) T xs"
    using t by (intro timers_match_client[OF kernel_okD(2)[OF ok]]) (auto simp: f)
  ultimately show ?thesis by (simp add: kernel_ok_def upd_sched_def)
qed

lemma boot_thread:
  fixes static :: bool
  assumes b: "boot_inv k L T" and t: "t \<notin> T" and m: "tm_obj k m = None" and p: "unat p < 32"
  defines "k0 \<equiv> upd_sched (upd_thread t (\<lambda>th. th\<lparr>th_object := True, th_static := static\<rparr>)) k"
  obtains k1 k' L' where "thread_obj_init t m p tick True k0 = Inr k1"
    "rt_thread_startup t k1 = Inr (RT_EOK, k')" "boot_inv k' L' (insert t T)" "st (client k') t = RT_THREAD_READY"
    "st (client k1) t = RT_THREAD_INIT" "th_object (threads (client k1) t)" "current_thread (client k1) = None"
    "tm_obj k1 (timer_of k1 t) \<noteq> None" "\<not> has_flag RT_TIMER_FLAG_ACTIVATED (tm_timer k1 (timer_of k1 t))"
    "\<And>x. x \<noteq> t \<Longrightarrow> st (client k') x = st (client k) x" "lock_nest (client k') = lock_nest (client k)"
    "interrupt_nest (client k') = interrupt_nest (client k)" "sems (client k') = sems (client k)"
    "tm_obj k' = (tm_obj k)(m \<mapsto> True)"
    "\<And>i. sems (client k) i \<noteq> None \<Longrightarrow> L' (Waiters i) = L (Waiters i)"
    "prio (client k') t = unat p" "\<And>x. x \<noteq> t \<Longrightarrow> prio (client k') x = prio (client k) x"
proof -
  have bi: "kernel_ok k L T []" "sems_ok (client k) L" "current_thread (client k) = None"
    "timer_param (client k) m = None" using b m by (simp_all add: boot_inv_def)
  have ok0: "kernel_ok k0 L T []" unfolding k0_def by (rule kernel_upd_outside[OF bi(1) t]) (simp_all add: stat_of_def)
  have f0: "current_thread (client k0) \<noteq> Some t" "tm_obj k0 m = None" "timer_param (client k0) m = None"
    "th_object (threads (client k0) t)" using bi m by (simp_all add: k0_def)
  obtain k1 where k1: "thread_obj_init t m p tick True k0 = Inr k1" "kernel_ok k1 L (insert t T) []"
    "st (client k1) t = RT_THREAD_INIT" "init_priority (threads (client k1) t) = p" "timer_of k1 t = m"
    "\<And>x. x \<noteq> t \<Longrightarrow> threads (client k1) x = threads (client k0) x" "sems (client k1) = sems (client k0)"
    "current_thread (client k1) = current_thread (client k0)" "lock_nest (client k1) = lock_nest (client k0)"
    "interrupt_nest (client k1) = interrupt_nest (client k0)"
    "tm_obj k1 = (tm_obj k0)(m \<mapsto> True)" "timer_param (client k1) = (timer_param (client k0))(m \<mapsto> t)"
    "rt_tick k1 = rt_tick k0" "\<And>x. x \<noteq> m \<Longrightarrow> tm_timer k1 x = tm_timer k0 x"
    "tm_timer k1 m = clear_flag RT_TIMER_FLAG_ACTIVATED \<lparr>tm_flag = 0, init_tick = 0, timeout_tick = 0\<rparr>"
    "tm_links k1 = rt_list_init (Row m) (tm_links k0)" "soft_waits k1 = soft_waits k0"
    by (rule thread_obj_init_ok[OF ok0 t f0(1-3) p f0(4)]) blast
  have t1: "t \<in> insert t T" by simp
  define k2 where "k2 = upd_sched (upd_thread t awake) k1"
  have ok2: "kernel_ok k2 L (insert t T) []" "st (client k2) t = RT_THREAD_SUSPEND"
    unfolding k2_def by (rule awake_ok[OF k1(2) t1 k1(3)])+
  obtain k' where k': "rt_thread_resume t k2 = Inr (RT_EOK, k')"
    "kernel_ok k' (made_ready (client k2) L t) (insert t T) (remove1 (timer_of k2 t) [])" "sched_frame (client k2) (client k')"
    "threads (client k') = (threads (client k2))(t := set_stat (ready_stat (client k2) t) (threads (client k2) t))"
    "rt_tick k' = rt_tick k2" "\<And>x. x \<noteq> timer_of k2 t \<Longrightarrow> tm_timer k' x = tm_timer k2 x"
    by (rule thread_resume_ok[OF ok2(1) t1 ok2(2)]) blast
  note fr = sched_frameD[OF k'(3)]
  have c2: "current_thread (client k2) = None" "timer_of k2 t = m"
    using bi(3) by (simp_all add: k2_def k1(8) k0_def awake_def k1(5))
  have c': "current_thread (client k') = None" using fr(5) c2 by simp
  have na: "\<not> has_flag RT_TIMER_FLAG_ACTIVATED (tm_timer k1 (timer_of k1 t))" by (simp add: k1(5,15))
  have ob: "tm_obj k1 (timer_of k1 t) \<noteq> None" by (simp add: k1(5,11))
  have th1: "th_object (threads (client k1) t)"
    using core_thread[OF ok_core[OF kernel_okD(1)[OF k1(2)]] t1] by (simp add: th_ok_def)
  have run: "rt_thread_startup t k1 = Inr (RT_EOK, k')"
    using k'(1) c' by (simp add: startup_unfold[OF k1(2) t1 k1(3)] flip: k2_def)
  have rs: "ready_stat (client k2) t = RT_THREAD_READY" by (simp add: ready_stat_def c2)
  have stx: "threads (client k') x = threads (client k) x" if "x \<noteq> t" for x
    using that by (simp add: k'(4) k2_def k1(6)) (simp add: k0_def)
  have stt: "st (client k') t = RT_THREAD_READY" by (simp add: k'(4) rs stat_set)
  have ptt: "prio (client k') t = unat p" by (simp add: k'(4) k2_def awake_def k1(4))
  have obj: "tm_obj k' = (tm_obj k)(m \<mapsto> True)"
  proof -
    have "stop_thread_timer t (upd_sched f k1) = Inr (upd_sched f k1)" if "timer_of (upd_sched f k1) t = m" for f
      using that na ob by (auto simp: stop_thread_timer_def rt_timer_stop_def k1(5) assertE_def)
    then have "rt_thread_startup t k1 = bindE (rt_schedule_insert_thread t
        (upd_sc_links (rt_list_remove (Thread t)) (upd_thread t awake (client k1)))) (\<lambda>s. Inr (RT_EOK, k1\<lparr>client := s\<rparr>))"
      using startup_inactive[OF k1(3) th1 _ ob na] bi(3) by (simp add: k1(8) k0_def)
    then have "tm_obj k' = tm_obj k1" using run
      by (cases "rt_schedule_insert_thread t (upd_sc_links (rt_list_remove (Thread t)) (upd_thread t awake (client k1)))") auto
    then show ?thesis by (simp add: k1(11) k0_def)
  qed
  define L' where "L' = made_ready (client k2) L t"
  have lw: "L' (Waiters i) = L (Waiters i)" if "sems (client k) i \<noteq> None" for i
  proof -
    have "t \<notin> set (L (Waiters i))"
      using sc_subset[OF core_lists[OF ok_core[OF kernel_okD(1)[OF bi(1)]]], of "Waiters i" t] that t by auto
    then show ?thesis by (simp add: L'_def made_ready_waiters remove1_idem)
  qed
  have ss: "sems (client k') = sems (client k)" using fr(1) by (simp add: k2_def k1(7) k0_def)
  have "sems_ok (client k') L'"
    unfolding sems_ok_def
  proof (intro allI impI)
    fix i sem assume "sems (client k') i = Some sem"
    then have i: "sems (client k) i = Some sem" by (simp add: ss)
    have "x \<noteq> t" if "x \<in> set (L (Waiters i))" for x
      using sc_subset[OF core_lists[OF ok_core[OF kernel_okD(1)[OF bi(1)]]], of "Waiters i" x] that i t by auto
    then have "prio (client k') x = prio (client k) x" if "x \<in> set (L (Waiters i))" for x
      using that stx by simp
    moreover have "sem_ok (client k) sem (L (Waiters i))" using bi(2) i by (simp add: sems_ok_def)
    ultimately have "sem_ok (client k') sem (L (Waiters i))"
      using sem_ok_cong[of "client k" sem "L (Waiters i)" "client k'"] by blast
    then show "sem_ok (client k') sem (L' (Waiters i))" using lw[of i] i by simp
  qed
  moreover have "timer_param (client k') = (timer_param (client k))(m \<mapsto> t)"
    using fr(2) by (simp add: k2_def k1(12) k0_def)
  ultimately have "boot_inv k' L' (insert t T)"
    using k'(2) c' b by (simp add: boot_inv_def obj L'_def)
  then show thesis
    using that[OF k1(1) run, of L'] stt k1(3) th1 c' ob na stx ss obj lw ptt fr(3,4) k1(8,9,10) bi(3)
    by (simp add: k2_def k0_def)
qed

section \<open>The whole start\<close>

text \<open>Nothing exists yet but semaphores without waiting threads.\<close>

definition before_start :: "kernel \<Rightarrow> bool" where
  "before_start k \<longleftrightarrow> tm_obj k = (\<lambda>_. None) \<and> timer_param (client k) = (\<lambda>_. None)
     \<and> current_thread (client k) = None \<and> interrupt_nest (client k) = 0 \<and> idle_sems (client k)"

lemma boot_initial:
  assumes b: "before_start k"
  defines "k1 \<equiv> upd_sched rt_system_scheduler_init (rt_system_timer_init k)"
  shows "boot_inv (soft_init k1) (\<lambda>_. []) {}" "tm_obj k1 = (\<lambda>_. None)" "lock_nest (client k1) = 0"
    "interrupt_nest (client k1) = 0" "sems (client k1) = sems (client k)"
proof -
  have i: "idle_sems (client k)" "current_thread (client k) = None" using b by (simp_all add: before_start_def)
  have f: "client k1 = rt_system_scheduler_init (client k)" "tm_obj k1 = (\<lambda>_. None)"
    "tm_links k1 = rt_list_init Hard_List (tm_links k)"
    using b by (simp_all add: k1_def rt_system_timer_init_def before_start_def)
  have g: "timer_param (client k1) = (\<lambda>_. None)" "current_thread (client k1) = None" "lock_nest (client k1) = 0"
    "interrupt_nest (client k1) = 0" "sems (client k1) = sems (client k)"
    using b by (simp_all add: f(1) rt_system_scheduler_init_def before_start_def)
  show "tm_obj k1 = (\<lambda>_. None)" "lock_nest (client k1) = 0" "interrupt_nest (client k1) = 0"
    "sems (client k1) = sems (client k)" using f g by simp_all
  have "dlist (rt_list_init Soft_List (rt_list_init Hard_List (tm_links k))) Hard_List (map Row [])"
    by (simp add: dlist_def rt_list_init_def)
  moreover have "dlist (rt_list_init Soft_List (rt_list_init Hard_List (tm_links k))) Soft_List (map Row [])"
    by (simp add: dlist_def rt_list_init_def)
  ultimately have "tm_lists (soft_init k1) [] []"
    unfolding tm_lists_def by (simp add: f soft_init_def)
  then have "timers_match (soft_init k1) {} []" by (simp add: timers_match_def tm_ok_def)
  then show "boot_inv (soft_init k1) (\<lambda>_. []) {}"
    using scheduler_init_ok[OF i(2,1)] by (simp add: boot_inv_def kernel_ok_def f(1)[symmetric] g)
qed

lemma boot_ok:
  assumes b: "before_start k" and d: "distinct [main, tt, idle]" "distinct [m0, m1, m2]"
  obtains k' L where "rtthread_startup (tt, m1) (idle, m2) (Some (main, m0)) (Some True) k = Inr k'"
    "kernel_inv idle k' L {main, tt, idle} []" "lock_nest (client k') = 0" "interrupt_nest (client k') = 0"
    "sems (client k') = sems (client k)" "\<And>i. sems (client k) i \<noteq> None \<Longrightarrow> L (Waiters i) = []"
    "prio (client k') main = 10" "prio (client k') tt = 0" "prio (client k') idle = 31"
    "\<And>t. t \<in> {main, tt, idle} \<Longrightarrow> cls (client k') t = RT_THREAD_READY"
    "tm_obj k' = [m0 \<mapsto> True, m1 \<mapsto> True, m2 \<mapsto> True]"
proof -
  define k1 where "k1 = upd_sched rt_system_scheduler_init (rt_system_timer_init k)"
  note k1 = boot_initial[OF b, folded k1_def]
  define g where "g = (\<lambda>k. upd_sched (upd_thread main (\<lambda>th. th\<lparr>th_object := True, th_static := False\<rparr>)) k)"
  have pr32: "unat (10 :: u8) < 32" "unat (0 :: u8) < 32" "unat (31 :: u8) < 32" by simp_all
  have nt0: "main \<notin> {}" by simp
  have o1: "tm_obj (soft_init k1) m0 = None" by (simp add: k1(2))
  obtain ka kb La where a: "thread_obj_init main m0 10 20 True (g (soft_init k1)) = Inr ka"
    "rt_thread_startup main ka = Inr (RT_EOK, kb)" "boot_inv kb La (insert main {})" "st (client kb) main = RT_THREAD_READY"
    "st (client ka) main = RT_THREAD_INIT" "th_object (threads (client ka) main)" "current_thread (client ka) = None"
    "tm_obj ka (timer_of ka main) \<noteq> None" "\<not> has_flag RT_TIMER_FLAG_ACTIVATED (tm_timer ka (timer_of ka main))"
    "lock_nest (client kb) = lock_nest (client (soft_init k1))"
    "interrupt_nest (client kb) = interrupt_nest (client (soft_init k1))" "sems (client kb) = sems (client (soft_init k1))"
    "tm_obj kb = (tm_obj (soft_init k1))(m0 \<mapsto> True)"
    "\<And>i. sems (client (soft_init k1)) i \<noteq> None \<Longrightarrow> La (Waiters i) = []"
    "prio (client kb) main = unat (10 :: u8)"
    unfolding g_def by (rule boot_thread[OF k1(1) nt0 o1 pr32(1), where static = False and tick = 20]) blast
  have gs: "g (soft_init k1) = soft_init (g k1)" by (simp add: g_def)
  obtain ka' where a': "thread_obj_init main m0 10 20 True (g k1) = Inr ka'" "ka = soft_init ka'"
    using a(1) soft_init_obj[of main m0 10 20 True "g k1"]
    by (cases "thread_obj_init main m0 10 20 True (g k1)") (simp_all add: gs)
  have su: "rt_thread_startup main ka' = Inr (RT_EOK, kb') \<and> soft_init kb' = kb" if "kb' = ka'\<lparr>client := client kb\<rparr>" for kb'
  proof -
    define I where "I = rt_schedule_insert_thread main (upd_sc_links (rt_list_remove (Thread main))
      (upd_thread main awake (client ka')))"
    have "rt_thread_startup main ka' = bindE I (\<lambda>s. Inr (RT_EOK, ka'\<lparr>client := s\<rparr>))"
      unfolding I_def using a(5-9) by (intro startup_inactive) (simp_all add: a'(2))
    moreover have "rt_thread_startup main ka = bindE I (\<lambda>s. Inr (RT_EOK, ka\<lparr>client := s\<rparr>))"
      unfolding I_def using startup_inactive[OF a(5,6,7,8,9)] by (simp add: a'(2))
    ultimately show ?thesis using a(2) that by (cases I) (auto simp: a'(2))
  qed
  define kb' where "kb' = ka'\<lparr>client := client kb\<rparr>"
  note su = su[OF kb'_def]
  have app: "rt_application_init (Some (main, m0)) (Some True) k1 = Inr kb'"
    using a'(1) su by (simp add: rt_application_init_def create_unfold g_def)
  have nt: "tt \<notin> insert main {}" "idle \<notin> insert tt (insert main {})" using d(1) by auto
  have o2: "tm_obj kb m1 = None" using d(2) by (simp add: a(13) k1(2))
  obtain kc kd Ld where e: "thread_obj_init tt m1 0 10 True
      (upd_sched (upd_thread tt (\<lambda>th. th\<lparr>th_object := True, th_static := True\<rparr>)) kb) = Inr kc"
    "rt_thread_startup tt kc = Inr (RT_EOK, kd)" "boot_inv kd Ld (insert tt (insert main {}))"
    "st (client kd) tt = RT_THREAD_READY"
    "\<And>x. x \<noteq> tt \<Longrightarrow> st (client kd) x = st (client kb) x" "lock_nest (client kd) = lock_nest (client kb)"
    "interrupt_nest (client kd) = interrupt_nest (client kb)" "sems (client kd) = sems (client kb)"
    "tm_obj kd = (tm_obj kb)(m1 \<mapsto> True)"
    "\<And>i. sems (client kb) i \<noteq> None \<Longrightarrow> Ld (Waiters i) = La (Waiters i)"
    "prio (client kd) tt = unat (0 :: u8)" "\<And>x. x \<noteq> tt \<Longrightarrow> prio (client kd) x = prio (client kb) x"
    by (rule boot_thread[OF a(3) nt(1) o2 pr32(2), where static = True and tick = 10]) blast
  have tti: "rt_system_timer_thread_init tt m1 True kb' = Inr kd"
    using e(1,2) su by (simp add: rt_system_timer_thread_init_def rt_thread_init_def soft_init_def)
  have o3: "tm_obj kd m2 = None" using d(2) o2 by (simp add: e(9) a(13) k1(2))
  obtain kf kg Lg where h: "thread_obj_init idle m2 31 32 True
      (upd_sched (upd_thread idle (\<lambda>th. th\<lparr>th_object := True, th_static := True\<rparr>)) kd) = Inr kf"
    "rt_thread_startup idle kf = Inr (RT_EOK, kg)" "boot_inv kg Lg (insert idle (insert tt (insert main {})))"
    "st (client kg) idle = RT_THREAD_READY"
    "\<And>x. x \<noteq> idle \<Longrightarrow> st (client kg) x = st (client kd) x" "lock_nest (client kg) = lock_nest (client kd)"
    "interrupt_nest (client kg) = interrupt_nest (client kd)" "sems (client kg) = sems (client kd)"
    "tm_obj kg = (tm_obj kd)(m2 \<mapsto> True)"
    "\<And>i. sems (client kd) i \<noteq> None \<Longrightarrow> Lg (Waiters i) = Ld (Waiters i)"
    "prio (client kg) idle = unat (31 :: u8)" "\<And>x. x \<noteq> idle \<Longrightarrow> prio (client kg) x = prio (client kd) x"
    by (rule boot_thread[OF e(3) nt(2) o3 pr32(3), where static = True and tick = 32]) blast
  have idi: "rt_thread_idle_init idle m2 True kd = Inr kg"
    using h(1,2) by (simp add: rt_thread_idle_init_def rt_thread_init_def)
  have T: "insert idle (insert tt (insert main {})) = {main, tt, idle}" by auto
  note bg = h(3)[unfolded boot_inv_def T]
  have okg: "kernel_ok kg Lg {main, tt, idle} []" and seg: "sems_ok (client kg) Lg"
    and cug: "current_thread (client kg) = None" and idl: "idle \<in> {main, tt, idle}" using bg by simp_all
  have ndg: "none_due kg []" by (simp add: none_due_def)
  obtain k' L' where k': "on_sched rt_system_scheduler_start kg = Inr k'" "kernel_inv idle k' L' {main, tt, idle} []"
    "lock_nest (client k') = lock_nest (client kg)" "interrupt_nest (client k') = interrupt_nest (client kg)"
    "\<And>x. cls (client k') x = cls (client kg) x" "\<And>j. sems (client kg) j \<noteq> None \<Longrightarrow> L' (Waiters j) = Lg (Waiters j)"
    "sems (client k') = sems (client kg)"
    "\<And>x. current_priority (threads (client k') x) = current_priority (threads (client kg) x)"
    by (rule scheduler_start_ok[OF okg ndg seg cug idl h(4)]) blast
  have run: "rtthread_startup (tt, m1) (idle, m2) (Some (main, m0)) (Some True) k = Inr k'"
    using app tti idi k'(1) by (simp add: rtthread_startup_def Let_def flip: k1_def)
  have ready: "st (client kg) main = RT_THREAD_READY" "st (client kg) tt = RT_THREAD_READY"
    using d(1) a(4) e(4,5) h(5) by auto
  have obj: "tm_obj k' = tm_obj kg"
    using k'(1) by (cases "rt_system_scheduler_start (client kg)") (auto simp: on_sched_def)
  have pr: "prio (client k') x = prio (client kg) x" for x by (simp add: k'(8))
  show thesis
  proof (rule that[OF run k'(2)])
    show "prio (client k') main = 10" "prio (client k') tt = 0" "prio (client k') idle = 31"
      using d(1) a(15) e(11,12) h(11,12) by (auto simp: pr)
    show "cls (client k') t = RT_THREAD_READY" if "t \<in> {main, tt, idle}" for t
    proof -
      have "st (client kg) t = RT_THREAD_READY" using that ready h(4) by auto
      then show ?thesis unfolding k'(5) by (simp add: cls_def)
    qed
    show "tm_obj k' = [m0 \<mapsto> True, m1 \<mapsto> True, m2 \<mapsto> True]"
      by (simp add: obj h(9) e(9) a(13) k1(2))
    show "L' (Waiters i) = []" if "sems (client k) i \<noteq> None" for i
      using that k'(6)[of i] h(10)[of i] e(10)[of i] a(14)[of i] h(8) e(8) a(12) k1(5) by simp
  qed (use k'(3,4,7) h(6-8) e(6-8) a(10-12) k1(3-5) in simp_all)
qed

end
