(* ===== verification/Kernel_Reach.thy ===== *)
theory Kernel_Reach
  imports Boot_Facts
begin

text \<open>
  The kernel as a state machine: from its start, by the tick interrupt and the calls of the running
  thread. Every state it reaches keeps the invariant.
\<close>

section \<open>The tick interrupt\<close>

lemma sched_ok_nest: "sched_ok (s\<lparr>interrupt_nest := n\<rparr>) L T = sched_ok s L T"
  by (simp add: sched_ok_def sched_core_def heads_def)

lemma inv_interrupt:
  assumes inv: "kernel_inv idle k L T xs"
  shows "kernel_inv idle (upd_sched (\<lambda>s. s\<lparr>interrupt_nest := n\<rparr>) k) L T xs"
proof -
  note p = kernel_invD[OF inv]
  define s where "s = (client k)\<lparr>interrupt_nest := n\<rparr>"
  have so: "sched_ok s L T" using kernel_okD(1)[OF p(1)] unfolding s_def sched_ok_nest .
  have "timers_match (k\<lparr>client := s\<rparr>) T xs"
    by (rule timers_match_client[OF kernel_okD(2)[OF p(1)]]) (simp_all add: s_def)
  then have "kernel_ok (upd_sched (\<lambda>s. s\<lparr>interrupt_nest := n\<rparr>) k) L T xs"
    using so by (simp add: kernel_ok_def upd_sched_def s_def)
  moreover have "none_due (upd_sched (\<lambda>s. s\<lparr>interrupt_nest := n\<rparr>) k) xs" by (rule none_due_same[OF p(2)]) simp_all
  moreover have "sems_ok s L" using p(3) by (simp add: sems_ok_def sem_ok_def s_def)
  moreover have "cls s idle = cls (client k) idle" "on_top s T = on_top (client k) T"
    by (simp_all add: cls_def on_top_def s_def)
  ultimately show ?thesis using p(4-7) by (simp add: kernel_inv_def s_def)
qed

text \<open>The interrupt is served when no other is.\<close>

lemma inv_systick:
  assumes inv: "kernel_inv idle k L T xs" and n: "interrupt_nest (client k) = 0"
  obtains k' L' xs' where "SysTick_Handler no_other k = Inr k'" "kernel_inv idle k' L' T xs'"
    "lock_nest (client k') = lock_nest (client k)" "interrupt_nest (client k') = 0" "sems (client k') = sems (client k)"
    "\<And>t. cls (client k') t = (if last_tick k T xs t then RT_THREAD_READY else cls (client k) t)"
    "\<And>i. sems (client k) i \<noteq> None \<Longrightarrow> L' (Waiters i) = filter (\<lambda>t. \<not> last_tick k T xs t) (L (Waiters i))"
    "\<And>t. th_error (threads (client k') t) = (if last_tick k T xs t then - RT_ETIMEOUT else th_error (threads (client k) t))"
    "\<And>t. timer_of k' t = timer_of k t"
    "\<And>x. x \<in> set xs \<Longrightarrow> left k x \<noteq> 1 \<Longrightarrow> x \<in> set xs' \<and> left k' x = left k x - 1"
proof -
  define k0 where "k0 = upd_sched rt_interrupt_enter k"
  have k0: "k0 = upd_sched (\<lambda>s. s\<lparr>interrupt_nest := 1\<rparr>) k" using n by (simp add: k0_def upd_sched_def rt_interrupt_enter_def)
  have inv0: "kernel_inv idle k0 L T xs" unfolding k0 by (rule inv_interrupt[OF inv])
  obtain k1 L' xs' where k1: "kernel_tick no_other k0 = Inr k1" "kernel_inv idle k1 L' T xs'"
    "timed_out (last_tick k0 T xs) (client k0) L T (client k1) L'" "rt_tick k1 = rt_tick k0 + 1"
    "\<And>x. x \<in> set xs \<Longrightarrow> left k0 x \<noteq> 1 \<Longrightarrow> x \<in> set xs' \<and> left k1 x = left k0 x - 1"
    by (rule kernel_inv_tick[OF inv0]) blast
  have f0: "threads (client k0) = threads (client k)" "sems (client k0) = sems (client k)" "lock_nest (client k0) = lock_nest (client k)"
    "interrupt_nest (client k0) = 1" "\<And>x. left k0 x = left k x" by (simp_all add: k0 left_def)
  have lt: "last_tick k0 T xs = last_tick k T xs" by (simp add: last_tick_def f0 fun_eq_iff)
  note to = k1(3)[unfolded timed_out_def same_setup_def lt]
  define k' where "k' = upd_sched rt_interrupt_leave k1"
  have n1: "interrupt_nest (client k1) = 1" using to by (simp add: f0)
  have k': "k' = upd_sched (\<lambda>s. s\<lparr>interrupt_nest := 0\<rparr>) k1" using n1 by (simp add: k'_def upd_sched_def rt_interrupt_leave_def)
  have inv': "kernel_inv idle k' L' T xs'" unfolding k' by (rule inv_interrupt[OF k1(2)])
  have run: "SysTick_Handler no_other k = Inr k'" using k1(1) by (simp add: SysTick_Handler_def k'_def flip: k0_def)
  have g1: "lock_nest (client k') = lock_nest (client k)" "interrupt_nest (client k') = 0" "sems (client k') = sems (client k)"
    using to by (simp_all add: k' f0)
  have g2: "cls (client k') t = (if last_tick k T xs t then RT_THREAD_READY else cls (client k) t)" for t
  proof -
    have "cls (client k') t = cls (client k1) t" "cls (client k0) t = cls (client k) t" by (simp_all add: k' k0 cls_def)
    moreover have "cls (client k1) t = (if last_tick k T xs t then RT_THREAD_READY else cls (client k0) t)" using to by blast
    ultimately show ?thesis by simp
  qed
  have g3: "L' (Waiters i) = filter (\<lambda>t. \<not> last_tick k T xs t) (L (Waiters i))" if "sems (client k) i \<noteq> None" for i
    using to that by (simp add: f0)
  have g4: "th_error (threads (client k') t) = (if last_tick k T xs t then - RT_ETIMEOUT else th_error (threads (client k) t))" for t
    using to by (simp add: k' f0)
  have g5: "timer_of k' t = timer_of k t" for t using to by (simp add: k' f0)
  have g6: "x \<in> set xs' \<and> left k' x = left k x - 1" if "x \<in> set xs" "left k x \<noteq> 1" for x
    using k1(5)[OF that(1)] that(2) f0(5) by (simp add: k' left_def)
  show thesis using that[OF run inv' g1] g2 g3 g4 g5 g6 by blast
qed

section \<open>Reachable states\<close>

text \<open>\<open>T\<close> are the threads there are. A call that blocks is made by a thread other than the idle one,
  with the scheduler not locked; times are below half the range of the tick.\<close>

inductive reach :: "nat \<Rightarrow> nat set \<Rightarrow> kernel \<Rightarrow> bool" where
  start: "before_start k \<Longrightarrow> distinct [main, tt, idle] \<Longrightarrow> distinct [m0, m1, m2]
    \<Longrightarrow> rtthread_startup (tt, m1) (idle, m2) (Some (main, m0)) (Some True) k = Inr k' \<Longrightarrow> reach idle {main, tt, idle} k'"
| tick: "reach idle T k \<Longrightarrow> SysTick_Handler no_other k = Inr k' \<Longrightarrow> reach idle T k'"
| sleep: "reach idle T k \<Longrightarrow> lock_nest (client k) = 0 \<Longrightarrow> current_thread (client k) \<noteq> Some idle
    \<Longrightarrow> 0 < n \<Longrightarrow> n < HALF_TICK \<Longrightarrow> rt_thread_sleep n k = Inr k' \<Longrightarrow> reach idle T k'"
| sem_take: "reach idle T k \<Longrightarrow> sems (client k) i \<noteq> None \<Longrightarrow> time < 2147483647
    \<Longrightarrow> time = 0 \<or> lock_nest (client k) = 0 \<and> current_thread (client k) \<noteq> Some idle
    \<Longrightarrow> rt_sem_take i time k = Inr (r, k') \<Longrightarrow> reach idle T k'"
| sem_release: "reach idle T k \<Longrightarrow> sems (client k) i \<noteq> None \<Longrightarrow> rt_sem_release i k = Inr (r, k') \<Longrightarrow> reach idle T k'"
| sem_init: "reach idle T k \<Longrightarrow> sems (client k) i = None \<Longrightarrow> flag = RT_IPC_FLAG_FIFO \<or> flag = RT_IPC_FLAG_PRIO
    \<Longrightarrow> rt_sem_init i v flag k = Inr (r, k') \<Longrightarrow> reach idle T k'"
| yield: "reach idle T k \<Longrightarrow> rt_thread_yield k = Inr (r, k') \<Longrightarrow> reach idle T k'"
| enter: "reach idle T k \<Longrightarrow> lock_nest (client k) < 32767 \<Longrightarrow> reach idle T (upd_sched rt_enter_critical k)"
| exit: "reach idle T k \<Longrightarrow> 0 < lock_nest (client k) \<Longrightarrow> on_sched rt_exit_critical k = Inr k' \<Longrightarrow> reach idle T k'"
| create: "reach idle T k \<Longrightarrow> lock_nest (client k) = 0 \<Longrightarrow> t \<notin> T \<Longrightarrow> tm_obj k m = None \<Longrightarrow> timer_param (client k) m = None
    \<Longrightarrow> rt_thread_init t m p ticks True k = Inr (r, k') \<Longrightarrow> reach idle (insert t T) k'"
| startup: "reach idle T k \<Longrightarrow> t \<in> T \<Longrightarrow> st (client k) t = RT_THREAD_INIT
    \<Longrightarrow> rt_thread_startup t k = Inr (r, k') \<Longrightarrow> reach idle T k'"

definition kernel_good :: "nat \<Rightarrow> nat set \<Rightarrow> kernel \<Rightarrow> bool" where
  "kernel_good idle T k \<longleftrightarrow> (\<exists>L xs. kernel_inv idle k L T xs) \<and> interrupt_nest (client k) = 0
     \<and> 0 \<le> lock_nest (client k) \<and> lock_nest (client k) < 32768"

lemma kernel_goodI:
  assumes "kernel_inv idle k L T xs" "interrupt_nest (client k) = 0" "0 \<le> lock_nest (client k)" "lock_nest (client k) < 32768"
  shows "kernel_good idle T k"
  using assms unfolding kernel_good_def by blast

lemma kernel_goodE:
  assumes "kernel_good idle T k"
  obtains L xs where "kernel_inv idle k L T xs" "interrupt_nest (client k) = 0" "0 \<le> lock_nest (client k)"
    "lock_nest (client k) < 32768"
  using assms unfolding kernel_good_def by blast

lemma good_start:
  assumes b: "before_start k" "distinct [main, tt, idle]" "distinct [m0, m1, m2]"
  shows "\<exists>k'. rtthread_startup (tt, m1) (idle, m2) (Some (main, m0)) (Some True) k = Inr k'
    \<and> kernel_good idle {main, tt, idle} k'"
  by (rule boot_ok[OF b]) (auto intro: kernel_goodI)

lemma good_tick:
  assumes "kernel_good idle T k"
  shows "\<exists>k'. SysTick_Handler no_other k = Inr k' \<and> kernel_good idle T k'"
proof -
  obtain L xs where g: "kernel_inv idle k L T xs" "interrupt_nest (client k) = 0" "0 \<le> lock_nest (client k)"
    "lock_nest (client k) < 32768" by (rule kernel_goodE[OF assms])
  obtain k' L' xs' where k': "SysTick_Handler no_other k = Inr k'" "kernel_inv idle k' L' T xs'"
    "lock_nest (client k') = lock_nest (client k)" "interrupt_nest (client k') = 0"
    by (rule inv_systick[OF g(1,2)]) blast
  have "kernel_good idle T k'" by (rule kernel_goodI[OF k'(2)]) (simp_all add: k' g)
  then show ?thesis using k'(1) by blast
qed

lemma same_setup_nests: "same_setup s s' \<Longrightarrow> lock_nest s' = lock_nest s \<and> interrupt_nest s' = interrupt_nest s"
  by (simp add: same_setup_def)

lemma good_sleep:
  assumes "kernel_good idle T k" and l: "lock_nest (client k) = 0" and c: "current_thread (client k) \<noteq> Some idle"
    and n: "0 < n" "n < HALF_TICK"
  shows "\<exists>k'. rt_thread_sleep n k = Inr k' \<and> kernel_good idle T k'"
proof -
  obtain L xs where g: "kernel_inv idle k L T xs" "interrupt_nest (client k) = 0" "0 \<le> lock_nest (client k)"
    "lock_nest (client k) < 32768" by (rule kernel_goodE[OF assms(1)])
  obtain c where cu: "current_thread (client k) = Some c" using kernel_invD(6)[OF g(1)] by blast
  then have ci: "c \<noteq> idle" using c by simp
  obtain k' L' xs' where k': "rt_thread_sleep n k = Inr k'" "kernel_inv idle k' L' T xs'"
    "same_setup (client k) (client k')"
    by (rule thread_sleep_ok[OF g(1) l cu ci n]) blast
  have "kernel_good idle T k'" by (rule kernel_goodI[OF k'(2)]) (simp_all add: same_setup_nests[OF k'(3)] g)
  then show ?thesis using k'(1) by blast
qed

lemma good_sem_take:
  assumes "kernel_good idle T k" and s: "sems (client k) i \<noteq> None" and t: "time < 2147483647"
    and c: "time = 0 \<or> lock_nest (client k) = 0 \<and> current_thread (client k) \<noteq> Some idle"
  shows "\<exists>r k'. rt_sem_take i time k = Inr (r, k') \<and> kernel_good idle T k'"
proof -
  obtain L xs where g: "kernel_inv idle k L T xs" "interrupt_nest (client k) = 0" "0 \<le> lock_nest (client k)"
    "lock_nest (client k) < 32768" by (rule kernel_goodE[OF assms(1)])
  obtain sem where sem: "sems (client k) i = Some sem" using s by blast
  consider "sem_value sem > 0" | "sem_value sem = 0" "time = 0" | "sem_value sem = 0" "time \<noteq> 0"
    by (auto simp: word_gt_0)
  then show ?thesis
  proof cases
    case 1
    note v = sem_take_value[OF g(1) sem 1]
    have "kernel_good idle T (upd_sched (upd_sem i (\<lambda>sem. sem\<lparr>sem_value := sem_value sem - 1\<rparr>)) k)"
      by (rule kernel_goodI[OF v(2)]) (simp_all add: g)
    then show ?thesis using v(1) by blast
  next
    case 2
    then show ?thesis using assms(1) sem by (simp add: rt_sem_take_def get_sem_def)
  next
    case 3
    obtain c where cu: "current_thread (client k) = Some c" using kernel_invD(6)[OF g(1)] by blast
    then have ci: "c \<noteq> idle" "lock_nest (client k) = 0" using c 3(2) by auto
    obtain k' L' xs' where k': "rt_sem_take i time k = Inr (Waits, k')" "kernel_inv idle k' L' T xs'"
      "same_setup (client k) (client k')"
      by (rule sem_take_waits[OF g(1) ci(2) g(2) cu ci(1) sem 3(1,2) t]) blast
    have "kernel_good idle T k'" by (rule kernel_goodI[OF k'(2)]) (simp_all add: same_setup_nests[OF k'(3)] g)
    then show ?thesis using k'(1) by blast
  qed
qed

lemma good_sem_release:
  assumes "kernel_good idle T k" and s: "sems (client k) i \<noteq> None"
  shows "\<exists>k'. rt_sem_release i k = Inr (RT_EOK, k') \<and> kernel_good idle T k'"
proof -
  obtain L xs where g: "kernel_inv idle k L T xs" "interrupt_nest (client k) = 0" "0 \<le> lock_nest (client k)"
    "lock_nest (client k) < 32768" by (rule kernel_goodE[OF assms(1)])
  obtain sem where sem: "sems (client k) i = Some sem" using s by blast
  show ?thesis
  proof (cases "L (Waiters i)")
    case Nil
    note v = sem_release_value[OF g(1) sem Nil]
    have "kernel_good idle T (upd_sched (upd_sem i (\<lambda>sem. sem\<lparr>sem_value := sem_value sem + 1\<rparr>)) k)"
      by (rule kernel_goodI[OF v(2)]) (simp_all add: g)
    then show ?thesis using v(1) by blast
  next
    case (Cons t ws)
    obtain k' L' xs' where k': "rt_sem_release i k = Inr (RT_EOK, k')" "kernel_inv idle k' L' T xs'"
      "same_setup (client k) (client k')"
      by (rule sem_release_waiter[OF g(1) s Cons]) blast
    have "kernel_good idle T k'" by (rule kernel_goodI[OF k'(2)]) (simp_all add: same_setup_nests[OF k'(3)] g)
    then show ?thesis using k'(1) by blast
  qed
qed

lemma good_yield:
  assumes "kernel_good idle T k"
  shows "\<exists>k'. rt_thread_yield k = Inr (RT_EOK, k') \<and> kernel_good idle T k'"
proof -
  obtain L xs where g: "kernel_inv idle k L T xs" "interrupt_nest (client k) = 0" "0 \<le> lock_nest (client k)"
    "lock_nest (client k) < 32768" by (rule kernel_goodE[OF assms(1)])
  obtain k' L' where k': "rt_thread_yield k = Inr (RT_EOK, k')" "kernel_inv idle k' L' T xs"
    "rescheduled (client k) L T (client k') L'"
    by (rule inv_yield[OF g(1)]) blast
  have "kernel_good idle T k'"
    by (rule kernel_goodI[OF k'(2)]) (use rescheduledD(1)[OF k'(3)] g in \<open>simp_all add: same_but_stat_def\<close>)
  then show ?thesis using k'(1) by blast
qed

lemma good_enter:
  assumes "kernel_good idle T k" "lock_nest (client k) < 32767"
  shows "kernel_good idle T (upd_sched rt_enter_critical k)"
proof -
  obtain L xs where g: "kernel_inv idle k L T xs" "interrupt_nest (client k) = 0" "0 \<le> lock_nest (client k)"
    "lock_nest (client k) < 32768" by (rule kernel_goodE[OF assms(1)])
  note e = inv_enter_critical[OF g(1,3) assms(2)]
  have "interrupt_nest (client (upd_sched rt_enter_critical k)) = 0" using g(2) by (simp add: rt_enter_critical_def)
  then show ?thesis by (rule kernel_goodI[OF e(1)]) (use g e(2) assms(2) in linarith)+
qed

lemma good_exit:
  assumes "kernel_good idle T k" "0 < lock_nest (client k)"
  shows "\<exists>k'. on_sched rt_exit_critical k = Inr k' \<and> kernel_good idle T k'"
proof -
  obtain L xs where g: "kernel_inv idle k L T xs" "interrupt_nest (client k) = 0" "0 \<le> lock_nest (client k)"
    "lock_nest (client k) < 32768" by (rule kernel_goodE[OF assms(1)])
  obtain k' L' where k': "on_sched rt_exit_critical k = Inr k'" "kernel_inv idle k' L' T xs"
    "lock_nest (client k') = lock_nest (client k) - 1" "interrupt_nest (client k') = interrupt_nest (client k)"
    by (rule inv_exit_critical[OF g(1) assms(2) g(4)]) blast
  have "kernel_good idle T k'" by (rule kernel_goodI[OF k'(2)]) (use k'(3,4) assms(2) g in simp_all)
  then show ?thesis using k'(1) by blast
qed

lemma good_thread_startup:
  assumes "kernel_good idle T k" "t \<in> T" "st (client k) t = RT_THREAD_INIT"
  shows "\<exists>k'. rt_thread_startup t k = Inr (RT_EOK, k') \<and> kernel_good idle T k'"
proof -
  obtain L xs where g: "kernel_inv idle k L T xs" "interrupt_nest (client k) = 0" "0 \<le> lock_nest (client k)"
    "lock_nest (client k) < 32768" by (rule kernel_goodE[OF assms(1)])
  obtain k' L' xs' where k': "rt_thread_startup t k = Inr (RT_EOK, k')" "kernel_inv idle k' L' T xs'"
    "lock_nest (client k') = lock_nest (client k)" "interrupt_nest (client k') = interrupt_nest (client k)"
    by (rule inv_startup[OF g(1) assms(2,3)]) blast
  have "kernel_good idle T k'" by (rule kernel_goodI[OF k'(2)]) (simp_all add: k' g)
  then show ?thesis using k'(1) by blast
qed

lemma good_sem_init:
  assumes "kernel_good idle T k" and s: "sems (client k) i = None"
    and f: "flag = RT_IPC_FLAG_FIFO \<or> flag = RT_IPC_FLAG_PRIO" and v: "v < 0x10000"
  shows "\<exists>k'. rt_sem_init i v flag k = Inr (RT_EOK, k') \<and> kernel_good idle T k'"
proof -
  obtain L xs where g: "kernel_inv idle k L T xs" "interrupt_nest (client k) = 0" "0 \<le> lock_nest (client k)"
    "lock_nest (client k) < 32768" by (rule kernel_goodE[OF assms(1)])
  define sem where "sem = \<lparr>sem_static = True, sem_flag = flag, sem_value = ucast v\<rparr>"
  define s' where "s' = (upd_sc_links (rt_list_init (Waiters i)) (client k))\<lparr>sems := (sems (client k))(i \<mapsto> sem)\<rparr>"
  define k' where "k' = k\<lparr>client := s'\<rparr>"
  define L' where "L' = L(Waiters i := [])"
  note p = kernel_invD[OF g(1)]
  note so = kernel_okD(1)[OF p(1)]
  have r: "L' (Ready p) = L (Ready p)" for p by (simp add: L'_def)
  have same: "threads s' = threads (client k)" "current_thread s' = current_thread (client k)"
    "ready_group s' = ready_group (client k)" "timer_param s' = timer_param (client k)"
    "lock_nest s' = lock_nest (client k)" "interrupt_nest s' = interrupt_nest (client k)"
    by (simp_all add: s'_def)
  have hd: "heads s' = insert (Waiters i) (heads (client k))" by (auto simp: heads_def s'_def)
  have "Waiters i \<notin> heads (client k)" using s by (auto simp: heads_def)
  then have "sc_lists (sc_links s') (heads s') L' T"
    using sc_init_head[OF core_lists[OF ok_core[OF so]], of "Waiters i"] by (simp add: hd L'_def) (simp add: s'_def)
  then have co: "sched_core s' L' T"
    using ok_core[OF so] by (simp add: sched_core_def same hd r) (simp add: L'_def)
  have so': "sched_ok s' L' T" using so co unfolding sched_ok_def same r by blast
  have "timers_match k' T xs" unfolding k'_def
    by (rule timers_match_client[OF kernel_okD(2)[OF p(1)]]) (simp_all add: same)
  then have "kernel_ok k' L' T xs" using so' by (simp add: kernel_ok_def k'_def)
  moreover have "none_due k' xs" by (rule none_due_same[OF p(2)]) (simp_all add: k'_def)
  moreover have "sems_ok s' L'"
    using p(3) f by (simp add: sems_ok_def sem_ok_def same) (simp add: s'_def L'_def sem_def)
  moreover have "cls s' idle = cls (client k) idle" "on_top s' T = on_top (client k) T"
    by (simp_all add: cls_def on_top_def same)
  ultimately have "kernel_inv idle k' L' T xs" using p(4-7) by (simp add: kernel_inv_def k'_def same)
  then have "kernel_good idle T k'" by (rule kernel_goodI) (simp_all add: k'_def same g)
  moreover have "rt_sem_init i v flag k = Inr (RT_EOK, k')"
    using v by (simp add: rt_sem_init_def assertE_def sem_obj_init_def k'_def s'_def sem_def upd_sched_def)
  ultimately show ?thesis by blast
qed

lemma good_create:
  assumes "kernel_good idle T k" and t: "t \<notin> T" "current_thread (client k) \<noteq> Some t"
    and m: "tm_obj k m = None" "timer_param (client k) m = None" and p: "unat p < 32"
  shows "\<exists>k'. rt_thread_init t m p ticks True k = Inr (RT_EOK, k') \<and> kernel_good idle (insert t T) k'"
proof -
  obtain L xs where g: "kernel_inv idle k L T xs" "interrupt_nest (client k) = 0" "0 \<le> lock_nest (client k)"
    "lock_nest (client k) < 32768" by (rule kernel_goodE[OF assms(1)])
  note iv = kernel_invD[OF g(1)]
  define k0 where "k0 = upd_sched (upd_thread t (\<lambda>th. th\<lparr>th_object := True, th_static := True\<rparr>)) k"
  have ok0: "kernel_ok k0 L T xs"
    unfolding k0_def by (rule kernel_upd_outside[OF iv(1) t(1)]) (simp_all add: stat_of_def)
  have f0: "current_thread (client k0) \<noteq> Some t" "tm_obj k0 m = None" "timer_param (client k0) m = None"
    "th_object (threads (client k0) t)" using t m by (simp_all add: k0_def)
  obtain k' where k': "thread_obj_init t m p ticks True k0 = Inr k'" "kernel_ok k' L (insert t T) xs"
    "st (client k') t = RT_THREAD_INIT" "\<And>x. x \<noteq> t \<Longrightarrow> threads (client k') x = threads (client k0) x"
    "sems (client k') = sems (client k0)" "current_thread (client k') = current_thread (client k0)"
    "lock_nest (client k') = lock_nest (client k0)" "interrupt_nest (client k') = interrupt_nest (client k0)"
    "rt_tick k' = rt_tick k0" "\<And>x. x \<noteq> m \<Longrightarrow> tm_timer k' x = tm_timer k0 x"
    by (rule thread_obj_init_ok[OF ok0 t(1) f0(1-3) p f0(4)]) blast
  have th: "threads (client k') x = threads (client k) x" if "x \<in> T" for x
    using that t(1) k'(4)[of x] by (auto simp: k0_def)
  have m_out: "m \<notin> set xs"
    using kernel_okD(2)[OF iv(1)] m(1) by (auto simp: timers_match_def tm_ok_def tm_lists_def)
  have nd: "none_due k' xs"
  proof (rule none_due_same[OF iv(2)])
    show "rt_tick k' = rt_tick k" using k'(9) by (simp add: k0_def)
    fix x assume x: "x \<in> set xs"
    then have "x \<noteq> m" using m_out by auto
    then show "x \<in> set xs \<and> tm_timer k' x = tm_timer k x" using k'(10)[of x] x by (simp add: k0_def)
  qed
  have "sems_ok (client k') L"
    unfolding sems_ok_def
  proof (intro allI impI)
    fix i sem assume "sems (client k') i = Some sem"
    then have i: "sems (client k) i = Some sem" by (simp add: k'(5) k0_def)
    then have "sem_ok (client k) sem (L (Waiters i))" using iv(3) by (simp add: sems_ok_def)
    moreover have "prio (client k') x = prio (client k) x" if "x \<in> set (L (Waiters i))" for x
      using sc_subset[OF core_lists[OF ok_core[OF kernel_okD(1)[OF iv(1)]]], of "Waiters i" x] that i th by simp
    ultimately show "sem_ok (client k') sem (L (Waiters i))" by (rule sem_ok_cong)
  qed
  moreover have "cls (client k') idle = RT_THREAD_READY" using iv(5) unfolding cls_def th[OF iv(4)] .
  moreover have "on_top (client k') (insert t T)" if ot: "on_top (client k) T"
  proof -
    obtain c where c: "c \<in> T" "current_thread (client k) = Some c" "st (client k) c = RT_THREAD_RUNNING"
      "\<forall>t\<in>T. st (client k) t = RT_THREAD_READY \<longrightarrow> prio (client k) c \<le> prio (client k) t"
      using ot unfolding on_top_def by blast
    have "current_thread (client k') = Some c" using c(2) by (simp add: k'(6) k0_def)
    then show ?thesis using c th k'(3) by (auto simp: on_top_def)
  qed
  ultimately have "kernel_inv idle k' L (insert t T) xs"
    using k'(2) nd iv(4,6,7) by (simp add: kernel_inv_def k'(6,7)) (simp add: k0_def)
  then have "kernel_good idle (insert t T) k'"
    by (rule kernel_goodI) (use k'(7,8) g in \<open>simp_all add: k0_def\<close>)
  moreover have "rt_thread_init t m p ticks True k = Inr (RT_EOK, k')"
    using k'(1) by (simp add: rt_thread_init_def k0_def)
  ultimately show ?thesis by blast
qed

text \<open>In every state the kernel reaches the invariant holds.\<close>

lemma reach_good: "reach idle T k \<Longrightarrow> kernel_good idle T k"
proof (induction rule: reach.induct)
  case (start k main tt idle m0 m1 m2 k')
  then show ?case using good_start[OF start(1-3)] by auto
next
  case (tick idle T k k')
  then show ?case using good_tick by fastforce
next
  case (sleep idle T k n k')
  then show ?case using good_sleep by fastforce
next
  case (sem_take idle T k i time r k')
  then show ?case using good_sem_take by fastforce
next
  case (sem_release idle T k i r k')
  then show ?case using good_sem_release by fastforce
next
  case (sem_init idle T k i flag v r k')
  then have "v < 0x10000" by (auto simp: rt_sem_init_def assertE_def split: if_splits)
  then show ?case using sem_init(2-4) good_sem_init[OF sem_init.IH sem_init(2,3), of v] by auto
next
  case (yield idle T k r k')
  then show ?case using good_yield by fastforce
next
  case (enter idle T k)
  show ?case by (rule good_enter[OF enter.IH enter(2)])
next
  case (exit idle T k k')
  then show ?case using good_exit by fastforce
next
  case (create idle T k t m p ticks r k')
  then have p: "unat p < 32"
    by (auto simp: rt_thread_init_def thread_obj_init_def assertE_def word_less_nat_alt split: if_splits)
  have "current_thread (client k) \<noteq> Some t"
  proof -
    obtain L xs where "kernel_inv idle k L T xs" using create.IH by (rule kernel_goodE)
    from kernel_invD(7)[OF this create(2)] show ?thesis using create(3) by (auto simp: on_top_def)
  qed
  from good_create[OF create.IH create(3) this create(4,5) p, of ticks] show ?case using create(6) by auto
next
  case (startup idle T k t r k')
  then show ?case using good_thread_startup by fastforce
qed

end
