(* ===== verification/Sem_Spec.thy ===== *)
theory Sem_Spec
  imports Prelude
begin

text \<open>
  What a semaphore of the kernel promises to those who use it.
\<close>

text \<open>The specification of a semaphore: a value, and a queue that is empty while it has one. The
  result of a release is also the thread it wakes.\<close>

fun sem_spec_release :: "u16 \<times> nat list \<Rightarrow> nat option \<times> u16 \<times> nat list" where
  "sem_spec_release (v, []) = (None, v + 1, [])"
| "sem_spec_release (v, w # ws) = (Some w, v, ws)"

definition sem_spec_take :: "(nat list \<Rightarrow> nat list) \<Rightarrow> u16 \<times> nat list \<Rightarrow> bool \<times> u16 \<times> nat list" where
  "sem_spec_take enqueue = (\<lambda>(v, ws). if v > 0 then (True, v - 1, ws) else (False, v, enqueue ws))"

end
