(* ===== verification/Kernel_Props.thy ===== *)
theory Kernel_Props
  imports Kernel_Reach Sem_Spec
begin

text \<open>
  What the kernel promises to its threads, in every state it reaches: the thread that runs, the
  semaphores against their specification, waiting with a time limit, and the time slice.
\<close>

section \<open>A semaphore seen from outside\<close>

text \<open>The value of a semaphore and the threads that wait for it, the first one first.\<close>

definition sem_view :: "kernel \<Rightarrow> nat \<Rightarrow> u16 \<Rightarrow> nat list \<Rightarrow> bool" where
  "sem_view k i v ws \<longleftrightarrow> map_option sem_value (sems (client k) i) = Some v
     \<and> dlist (sc_links (client k)) (Waiters i) (map Thread ws)"

lemma inv_sem_view:
  assumes inv: "kernel_inv idle k L T xs" and s: "sems (client k) i = Some sem"
  shows "sem_view k i v ws \<longleftrightarrow> v = sem_value sem \<and> ws = L (Waiters i)"
proof -
  have "dlist (sc_links (client k)) (Waiters i) (map Thread (L (Waiters i)))"
    using sc_dlist[OF core_lists[OF ok_core[OF kernel_okD(1)[OF kernel_invD(1)[OF inv]]]], of "Waiters i"] s by simp
  then show ?thesis using s dlist_threads by (auto simp: sem_view_def)
qed

section \<open>A state to start from\<close>

text \<open>Memory before the start, and the start in it: thread 0 is the main thread, 1 the thread of the
  soft timers, 2 the idle thread.\<close>

definition cold :: kernel where
  "cold = \<lparr>tm_links = \<lparr>nxt = \<lambda>_. Hard_List, prv = \<lambda>_. Hard_List\<rparr>, tm_obj = \<lambda>_. None,
     tm_timer = \<lambda>_. \<lparr>tm_flag = 0, init_tick = 0, timeout_tick = 0\<rparr>, rt_tick = 0, soft_waits = False,
     client = \<lparr>sc_links = \<lparr>nxt = \<lambda>_. Defunct, prv = \<lambda>_. Defunct\<rparr>, ready_group = 0,
       threads = \<lambda>_. \<lparr>th_object = False, th_static = False, th_cleanup = False, th_stat = 0, current_priority = 0,
         init_priority = 0, number_mask = 0, th_init_tick = 0, remaining_tick = 0, th_error = 0, th_timer = 0,
         stack_intact = True\<rparr>,
       timer_param = \<lambda>_. None, current_thread = None, rt_current_priority = 0, lock_nest = 0,
       interrupt_nest = 0, sems = \<lambda>_. None\<rparr>\<rparr>"

lemma cold_ok: "before_start cold"
  by (simp add: before_start_def cold_def idle_sems_def)

text \<open>After the start the thread of the soft timers runs.\<close>

lemma top_runs:
  assumes ok: "sched_ok s L T" and top: "on_top s T" and t: "t \<in> T" "cls s t = RT_THREAD_READY"
    "\<And>x. x \<in> T \<Longrightarrow> x \<noteq> t \<Longrightarrow> prio s t < prio s x"
  shows "current_thread s = Some t" "st s t = RT_THREAD_RUNNING"
proof -
  obtain c where c: "c \<in> T" "current_thread s = Some c" "st s c = RT_THREAD_RUNNING"
    "\<forall>t\<in>T. st s t = RT_THREAD_READY \<longrightarrow> prio s c \<le> prio s t" using top by (auto simp: on_top_def)
  have "c = t"
  proof (rule ccontr)
    assume n: "c \<noteq> t"
    then have "st s t \<noteq> RT_THREAD_RUNNING" using ok_running[OF ok t(1)] c(2) by auto
    then have "st s t = RT_THREAD_READY" using t(2) by (auto simp: cls_def split: if_splits)
    then have "prio s c \<le> prio s t" using c(4) t(1) by blast
    then show False using t(3)[OF c(1) n] by simp
  qed
  then show "current_thread s = Some t" "st s t = RT_THREAD_RUNNING" using c by simp_all
qed

lemma boot_runs:
  assumes b: "before_start k" and d: "distinct [main, tt, idle]" "distinct [m0, m1, m2]"
  obtains k' L where "rtthread_startup (tt, m1) (idle, m2) (Some (main, m0)) (Some True) k = Inr k'"
    "kernel_inv idle k' L {main, tt, idle} []" "lock_nest (client k') = 0" "interrupt_nest (client k') = 0"
    "sems (client k') = sems (client k)" "current_thread (client k') = Some tt" "st (client k') tt = RT_THREAD_RUNNING"
    "st (client k') main = RT_THREAD_READY" "st (client k') idle = RT_THREAD_READY"
    "prio (client k') main = 10" "prio (client k') tt = 0" "prio (client k') idle = 31"
    "tm_obj k' = [m0 \<mapsto> True, m1 \<mapsto> True, m2 \<mapsto> True]"
proof -
  obtain k' L where k': "rtthread_startup (tt, m1) (idle, m2) (Some (main, m0)) (Some True) k = Inr k'"
    "kernel_inv idle k' L {main, tt, idle} []" "lock_nest (client k') = 0" "interrupt_nest (client k') = 0"
    "sems (client k') = sems (client k)" "prio (client k') main = 10" "prio (client k') tt = 0" "prio (client k') idle = 31"
    "\<And>t. t \<in> {main, tt, idle} \<Longrightarrow> cls (client k') t = RT_THREAD_READY"
    "tm_obj k' = [m0 \<mapsto> True, m1 \<mapsto> True, m2 \<mapsto> True]"
    by (rule boot_ok[OF b d]) blast
  note so = kernel_okD(1)[OF kernel_invD(1)[OF k'(2)]]
  have r: "current_thread (client k') = Some tt" "st (client k') tt = RT_THREAD_RUNNING"
    by (rule top_runs[OF so kernel_invD(7)[OF k'(2,3)]]; use k' d in auto)+
  have "st (client k') x = RT_THREAD_READY" if "x = main \<or> x = idle" for x
  proof -
    have x: "x \<in> {main, tt, idle}" "x \<noteq> tt" using that d(1) by auto
    have "st (client k') x \<noteq> RT_THREAD_RUNNING" using ok_running[OF so x(1)] r(1) x(2) by auto
    then show ?thesis using k'(9)[OF x(1)] by (simp add: cls_def split: if_splits)
  qed
  then show thesis using that[OF k'(1-5) r] k'(6-8,10) by blast
qed

lemma ex_reach:
  obtains k where "reach 2 {0, 1, 2} k" "lock_nest (client k) = 0" "interrupt_nest (client k) = 0"
    "current_thread (client k) = Some 1" "sems (client k) = (\<lambda>_. None)"
proof -
  have d: "distinct [0, 1, 2 :: nat]" by simp
  obtain k' L where k': "rtthread_startup (1, 1) (2, 2) (Some (0, 0)) (Some True) cold = Inr k'"
    "lock_nest (client k') = 0" "interrupt_nest (client k') = 0" "sems (client k') = sems (client cold)"
    "current_thread (client k') = Some 1"
    by (rule boot_runs[OF cold_ok d d]) blast
  have "reach 2 {0, 1, 2} k'" by (rule reach.start[OF cold_ok d d k'(1)])
  then show thesis using that k' by (simp add: cold_def)
qed

text \<open>The same with a semaphore that has a value \<open>v\<close>.\<close>

lemma ex_reach_sem:
  fixes v :: u32
  assumes f: "flag = RT_IPC_FLAG_FIFO \<or> flag = RT_IPC_FLAG_PRIO" and v: "v < 0x10000"
  obtains k where "reach 2 {0, 1, 2} k" "lock_nest (client k) = 0" "interrupt_nest (client k) = 0"
    "current_thread (client k) = Some 1" "sems (client k) 0 = Some \<lparr>sem_static = True, sem_flag = flag, sem_value = ucast v\<rparr>"
    "sem_view k 0 (ucast v) []"
proof -
  obtain k where k: "reach 2 {0, 1, 2} k" "lock_nest (client k) = 0" "interrupt_nest (client k) = 0"
    "current_thread (client k) = Some 1" "sems (client k) = (\<lambda>_. None)" by (rule ex_reach)
  define k' where "k' = sem_obj_init 0 True v flag k"
  have "rt_sem_init 0 v flag k = Inr (RT_EOK, k')" using v by (simp add: rt_sem_init_def assertE_def k'_def)
  then have "reach 2 {0, 1, 2} k'" using reach.sem_init[OF k(1) _ f] k(5) by simp
  moreover have "sem_view k' 0 (ucast v) []" by (simp add: sem_view_def k'_def sem_obj_init_def rt_list_init_dlist)
  ultimately show thesis using that[of k'] k by (simp add: k'_def sem_obj_init_def)
qed

section \<open>Which thread runs\<close>

text \<open>The start of the kernel: the thread of the soft timers runs, as it has the highest
  priority, and the main thread and the idle thread are ready behind it, in whatever memory the
  kernel starts.\<close>

lemma kernel_boots:
  assumes "before_start k" "distinct [main, tt, idle]" "distinct [m0, m1, m2]"
  shows "\<exists>k'. rtthread_startup (tt, m1) (idle, m2) (Some (main, m0)) (Some True) k = Inr k'
    \<and> current_thread (client k') = Some tt \<and> st (client k') tt = RT_THREAD_RUNNING
    \<and> st (client k') main = RT_THREAD_READY \<and> st (client k') idle = RT_THREAD_READY
    \<and> map (prio (client k')) [tt, main, idle] = [0, 10, 31] \<and> reach idle {main, tt, idle} k'"
proof -
  obtain k' L where k': "rtthread_startup (tt, m1) (idle, m2) (Some (main, m0)) (Some True) k = Inr k'"
    "current_thread (client k') = Some tt" "st (client k') tt = RT_THREAD_RUNNING"
    "st (client k') main = RT_THREAD_READY" "st (client k') idle = RT_THREAD_READY"
    "prio (client k') main = 10" "prio (client k') tt = 0" "prio (client k') idle = 31"
    by (rule boot_runs[OF assms]) blast
  then show ?thesis using reach.start[OF assms k'(1)] by simp
qed

lemma kernel_boots_witness:
  "\<exists>k'. rtthread_startup (1, 1) (2, 2) (Some (0, 0)) (Some True) cold = Inr k' \<and> current_thread (client k') = Some 1"
  using kernel_boots[OF cold_ok, of 0 1 2 0 1 2] by auto

text \<open>C20: The scheduler keeps the processor with the thread of the highest priority: whenever the
  scheduler is not locked, the current thread is one that runs, no other thread is marked running,
  and no ready thread has a higher priority (a smaller number).\<close>

lemma runs_highest:
  assumes "reach idle T k" "lock_nest (client k) = 0"
  shows "\<exists>c\<in>T. current_thread (client k) = Some c \<and> st (client k) c = RT_THREAD_RUNNING
    \<and> (\<forall>t\<in>T. st (client k) t = RT_THREAD_RUNNING \<longrightarrow> t = c)
    \<and> (\<forall>t\<in>T. st (client k) t = RT_THREAD_READY \<longrightarrow> prio (client k) c \<le> prio (client k) t)"
proof -
  obtain L xs where inv: "kernel_inv idle k L T xs" by (rule kernel_goodE[OF reach_good[OF assms(1)]])
  obtain c where c: "c \<in> T" "current_thread (client k) = Some c" "st (client k) c = RT_THREAD_RUNNING"
    "\<forall>t\<in>T. st (client k) t = RT_THREAD_READY \<longrightarrow> prio (client k) c \<le> prio (client k) t"
    using kernel_invD(7)[OF inv assms(2)] unfolding on_top_def by blast
  moreover have "\<forall>t\<in>T. st (client k) t = RT_THREAD_RUNNING \<longrightarrow> t = c"
    using ok_running[OF kernel_okD(1)[OF kernel_invD(1)[OF inv]]] c(2) by auto
  ultimately show ?thesis by blast
qed

lemma runs_highest_witness:
  "\<exists>k. reach 2 {0, 1, 2} k \<and> (\<exists>c\<in>{0, 1, 2}. current_thread (client k) = Some c \<and> st (client k) c = RT_THREAD_RUNNING)"
proof -
  obtain k where k: "reach 2 {0, 1, 2} k" "lock_nest (client k) = 0" by (rule ex_reach)
  show ?thesis using runs_highest[OF k] k(1) by blast
qed

text \<open>C24: The kernel's lists are well formed: the ready list of every priority holds, once each, the
  threads that are ready with it, and the bit of the ready group tells whether there are any.\<close>

lemma ready_lists:
  assumes "reach idle T k" "p < 32"
  shows "\<exists>ws. dlist (sc_links (client k)) (Ready p) (map Thread ws)
    \<and> set ws = {t \<in> T. st (client k) t = RT_THREAD_READY \<and> prio (client k) t = p}
    \<and> (bit (ready_group (client k)) p \<longleftrightarrow> ws \<noteq> [])"
proof -
  obtain L xs where inv: "kernel_inv idle k L T xs" by (rule kernel_goodE[OF reach_good[OF assms(1)]])
  note so = kernel_okD(1)[OF kernel_invD(1)[OF inv]]
  have co: "sched_core (client k) L T" by (rule ok_core[OF so])
  have h: "Ready p \<in> heads (client k)" using assms(2) by (auto simp: heads_def)
  have "t \<in> T \<and> st (client k) t = RT_THREAD_READY \<and> prio (client k) t = p" if "t \<in> set (L (Ready p))" for t
    using sc_subset[OF core_lists[OF co] h that] core_stat[OF co h that] core_prio[OF co assms(2) that] by simp
  moreover have "t \<in> set (L (Ready p))" if "t \<in> T" "st (client k) t = RT_THREAD_READY" "prio (client k) t = p" for t
    using ok_ready[OF so that(1,2)] that(3) by simp
  ultimately have "set (L (Ready p)) = {t \<in> T. st (client k) t = RT_THREAD_READY \<and> prio (client k) t = p}" by blast
  moreover have "bit (ready_group (client k)) p \<longleftrightarrow> L (Ready p) \<noteq> []" using co assms(2) by (simp add: sched_core_def)
  ultimately show ?thesis using sc_dlist[OF core_lists[OF co] h] by blast
qed

lemma ready_lists_witness:
  "\<exists>k ws. reach 2 {0, 1, 2} k \<and> dlist (sc_links (client k)) (Ready 10) (map Thread ws)
    \<and> (bit (ready_group (client k)) 10 \<longleftrightarrow> ws \<noteq> [])"
proof -
  obtain k where k: "reach 2 {0, 1, 2} k" by (rule ex_reach)
  show ?thesis using ready_lists[OF k, of 10] k by auto
qed

section \<open>No call faults\<close>

text \<open>C21: In every state the kernel reaches, the tick interrupt and the calls return: no assertion
  fails, no list is walked past its end and no loop runs for ever. The calls that wait are those of
  a thread other than the idle one, with the scheduler not locked.\<close>

lemma kernel_no_fault:
  assumes r: "reach idle T k"
  shows "(\<exists>k'. SysTick_Handler no_other k = Inr k' \<and> reach idle T k')
    \<and> (\<exists>k'. rt_thread_yield k = Inr (RT_EOK, k') \<and> reach idle T k')
    \<and> (\<forall>i. sems (client k) i \<noteq> None \<longrightarrow> (\<exists>k'. rt_sem_release i k = Inr (RT_EOK, k') \<and> reach idle T k'))
    \<and> (\<forall>i. sems (client k) i \<noteq> None \<longrightarrow> (\<exists>v k'. rt_sem_trytake i k = Inr (Returned v, k') \<and> reach idle T k'))
    \<and> (\<forall>i time. lock_nest (client k) = 0 \<longrightarrow> current_thread (client k) \<noteq> Some idle \<longrightarrow> sems (client k) i \<noteq> None
         \<longrightarrow> time < 2147483647 \<longrightarrow> (\<exists>v k'. rt_sem_take i time k = Inr (v, k') \<and> reach idle T k'))
    \<and> (\<forall>n. lock_nest (client k) = 0 \<longrightarrow> current_thread (client k) \<noteq> Some idle \<longrightarrow> 0 < n \<longrightarrow> n < HALF_TICK
         \<longrightarrow> (\<exists>k'. rt_thread_sleep n k = Inr k' \<and> reach idle T k'))"
proof -
  note g = reach_good[OF r]
  have 1: "\<exists>k'. SysTick_Handler no_other k = Inr k' \<and> reach idle T k'" using good_tick[OF g] reach.tick[OF r] by blast
  have 2: "\<exists>k'. rt_thread_yield k = Inr (RT_EOK, k') \<and> reach idle T k'" using good_yield[OF g] reach.yield[OF r] by blast
  have 3: "\<exists>k'. rt_sem_release i k = Inr (RT_EOK, k') \<and> reach idle T k'" if i: "sems (client k) i \<noteq> None" for i
    using good_sem_release[OF g i] reach.sem_release[OF r i] by blast
  have 4: "\<exists>v k'. rt_sem_take i time k = Inr (v, k') \<and> reach idle T k'"
    if "sems (client k) i \<noteq> None" "time < 2147483647"
      "time = 0 \<or> lock_nest (client k) = 0 \<and> current_thread (client k) \<noteq> Some idle" for i time
    using good_sem_take[OF g that] reach.sem_take[OF r that] by blast
  have 5: "\<exists>v k'. rt_sem_trytake i k = Inr (Returned v, k') \<and> reach idle T k'" if i: "sems (client k) i \<noteq> None" for i
  proof -
    obtain v k' where "rt_sem_take i 0 k = Inr (v, k')" "reach idle T k'" using 4[OF i, of 0] by auto
    moreover obtain sem where "sems (client k) i = Some sem" using i by blast
    ultimately show ?thesis
      by (auto simp: rt_sem_trytake_def rt_sem_take_def get_sem_def split: if_splits)
  qed
  have 6: "\<exists>k'. rt_thread_sleep n k = Inr k' \<and> reach idle T k'"
    if "lock_nest (client k) = 0" "current_thread (client k) \<noteq> Some idle" "0 < n" "n < HALF_TICK" for n
    using good_sleep[OF g that] reach.sleep[OF r that] by blast
  show ?thesis using 1 2 3 4 5 6 by blast
qed

lemma kernel_no_fault_witness:
  "\<exists>k. reach 2 {0, 1, 2} k \<and> (\<exists>k'. SysTick_Handler no_other k = Inr k' \<and> reach 2 {0, 1, 2} k')
    \<and> (\<exists>k'. rt_thread_sleep 5 k = Inr k' \<and> reach 2 {0, 1, 2} k')"
proof -
  obtain k where k: "reach 2 {0, 1, 2} k" "lock_nest (client k) = 0" "current_thread (client k) = Some 1" by (rule ex_reach)
  show ?thesis using kernel_no_fault[OF k(1)] k by auto
qed

text \<open>What the calls above leave out: a sleep of the idle thread, which the drivers reach when they delay
  inside of the tick interrupt that has interrupted it. When no other thread can run, the call returns with
  no thread left that runs or is ready, and the idle thread goes on although it is suspended.\<close>

lemma idle_sleep_leaves_nobody:
  assumes r: "reach idle T k" and l: "lock_nest (client k) = 0" and c: "current_thread (client k) = Some idle"
    and alone: "\<forall>x\<in>T. x \<noteq> idle \<longrightarrow> st (client k) x \<noteq> RT_THREAD_READY" and n: "0 < n" "n < HALF_TICK"
  shows "\<exists>k'. rt_thread_sleep n k = Inr k' \<and> st (client k') idle = RT_THREAD_SUSPEND
    \<and> (\<forall>x\<in>T. st (client k') x \<noteq> RT_THREAD_READY \<and> st (client k') x \<noteq> RT_THREAD_RUNNING)"
proof -
  obtain L xs where inv: "kernel_inv idle k L T xs" by (rule kernel_goodE[OF reach_good[OF r]])
  note iv = kernel_invD[OF inv]
  have so: "sched_ok (client k) L T" by (rule kernel_okD(1)[OF iv(1)])
  have cr: "idle \<in> T" "st (client k) idle = RT_THREAD_RUNNING" "self_thread k = Inr idle" "assert_thread idle k = Inr ()"
    using running_thread[OF inv l] c by (metis option.inject)+
  obtain k1 where k1: "rt_thread_suspend idle k = Inr (RT_EOK, k1)" "kernel_ok k1 (off idle L) T xs"
    "sched_frame (client k) (client k1)"
    "threads (client k1) = (threads (client k))(idle := set_stat RT_THREAD_SUSPEND (threads (client k) idle))"
    "rt_tick k1 = rt_tick k" "\<And>x. x \<in> set xs \<Longrightarrow> tm_timer k1 x = tm_timer k x" "st (client k1) idle = RT_THREAD_SUSPEND"
    by (rule thread_suspend_ok[OF iv(1) cr(1)]) (use cr(2) in auto)
  have y: "timer_of k1 idle = timer_of k idle" using same_setup_frame[OF k1(3,4)] by (simp add: same_setup_def)
  have nd: "none_due k1 xs" by (rule none_due_same[OF iv(2) k1(5)]) (use k1(6) in blast)
  have na: "timer_of k1 idle \<notin> set xs" using kernel_inactive[OF iv(1) cr(1)] cr(2) by (simp add: y)
  have cu: "current_thread (client k1) \<noteq> None" using c sched_frameD(5)[OF k1(3)] by simp
  obtain k' L' xs' where k': "bindE (start_if (Some n) idle k1) (on_sched rt_schedule) = Inr k'"
    "rescheduled (client k1) (off idle L) T (client k') L'"
    by (rule block_schedule[OF k1(2) nd cr(1) k1(7) na cu, of "Some n"]) (use n in auto)
  have run: "rt_thread_sleep n k = Inr k'" using k'(1) cr(3,4) k1(1) by (simp add: rt_thread_sleep_def start_if_def)
  have cl: "cls (client k') x = (if x = idle then RT_THREAD_SUSPEND else st (client k) x)" if x: "x \<in> T" for x
  proof -
    have "st (client k) x \<noteq> RT_THREAD_RUNNING" if "x \<noteq> idle" using ok_running[OF so x] c that by auto
    then show ?thesis using rescheduledD(2)[OF k'(2), of x] k1(4) by (simp add: cls_def stat_set)
  qed
  have "st (client k') x \<noteq> RT_THREAD_READY \<and> st (client k') x \<noteq> RT_THREAD_RUNNING" if "x \<in> T" for x
  proof -
    have "cls (client k') x \<noteq> RT_THREAD_READY" using cl[OF that] alone that by simp
    then show ?thesis by (auto simp: cls_def)
  qed
  then show ?thesis using run cl[OF cr(1)] cls_suspend by (metis (full_types))
qed

lemma idle_sleep_leaves_nobody_witness:
  "\<exists>k k'. reach 2 {0, 1, 2} k \<and> current_thread (client k) = Some 2 \<and> rt_thread_sleep 1 k = Inr k'
    \<and> (\<forall>x\<in>{0, 1, 2}. st (client k') x \<noteq> RT_THREAD_READY \<and> st (client k') x \<noteq> RT_THREAD_RUNNING)"
proof -
  have d: "distinct [0, 1, 2 :: nat]" by simp
  obtain k L where k: "rtthread_startup (1, 1) (2, 2) (Some (0, 0)) (Some True) cold = Inr k"
    "kernel_inv 2 k L {0, 1, 2} []" "lock_nest (client k) = 0" "current_thread (client k) = Some 1"
    "prio (client k) 0 = 10" "prio (client k) 1 = 0" "prio (client k) 2 = 31"
    "st (client k) 0 = RT_THREAD_READY" "st (client k) 2 = RT_THREAD_READY"
    by (rule boot_runs[OF cold_ok d d]) blast
  have h: "0 < (5 :: u32)" "(5 :: u32) < HALF_TICK" "0 < (1 :: u32)" "(1 :: u32) < HALF_TICK" by simp_all
  obtain k1 L1 xs1 where k1: "rt_thread_sleep 5 k = Inr k1" "kernel_inv 2 k1 L1 {0, 1, 2} xs1" "same_setup (client k) (client k1)"
    "\<And>x. cls (client k1) x = (if x = 1 then RT_THREAD_SUSPEND else cls (client k) x)"
    by (rule thread_sleep_ok[OF k(2-4) _ h(1,2)]) auto
  have l1: "lock_nest (client k1) = 0" using k1(3) k(3) by (simp add: same_setup_def)
  have c0: "cls (client k1) 0 = RT_THREAD_READY" "cls (client k1) 1 = RT_THREAD_SUSPEND" "cls (client k1) 2 = RT_THREAD_READY"
    using k1(4) k(8,9) by (simp_all add: cls_def)
  have p1: "prio (client k1) x = prio (client k) x" for x using k1(3) by (simp add: same_setup_def)
  obtain c where c: "c \<in> {0, 1, 2}" "current_thread (client k1) = Some c" "st (client k1) c = RT_THREAD_RUNNING"
    "\<forall>t\<in>{0, 1, 2}. st (client k1) t = RT_THREAD_READY \<longrightarrow> prio (client k1) c \<le> prio (client k1) t"
    using kernel_invD(7)[OF k1(2) l1] by (auto simp: on_top_def)
  have "st (client k1) 0 = RT_THREAD_READY" if "c = 2"
    using ok_running[OF kernel_okD(1)[OF kernel_invD(1)[OF k1(2)]], of 0] c(2) that c0(1) by (auto simp: cls_def split: if_splits)
  then have "c \<noteq> 2" using c(4) p1 k(5,7) by auto
  moreover have "c \<noteq> 1" using c(3) c0(2) by (auto simp: cls_def)
  ultimately have c1: "current_thread (client k1) = Some 0" using c(1,2) by auto
  obtain k2 L2 xs2 where k2: "rt_thread_sleep 5 k1 = Inr k2" "kernel_inv 2 k2 L2 {0, 1, 2} xs2" "same_setup (client k1) (client k2)"
    "\<And>x. cls (client k2) x = (if x = 0 then RT_THREAD_SUSPEND else cls (client k1) x)"
    by (rule thread_sleep_ok[OF k1(2) l1 c1 _ h(1,2)]) auto
  have l2: "lock_nest (client k2) = 0" using k2(3) l1 by (simp add: same_setup_def)
  have st2: "st (client k2) 0 = RT_THREAD_SUSPEND" "st (client k2) 1 = RT_THREAD_SUSPEND"
    using k2(4)[of 0] k2(4)[of 1] c0(2) cls_suspend[of "client k2" 1] by simp_all
  have c2: "current_thread (client k2) = Some 2"
    using kernel_invD(7)[OF k2(2) l2] st2 by (auto simp: on_top_def)
  have "reach 2 {0, 1, 2} k" by (rule reach.start[OF cold_ok d d k(1)])
  then have "reach 2 {0, 1, 2} k1" by (rule reach.sleep) (use k(3,4) k1(1) h in auto)
  then have r2: "reach 2 {0, 1, 2} k2" by (rule reach.sleep) (use l1 c1 k2(1) h in auto)
  obtain k3 where "rt_thread_sleep 1 k2 = Inr k3"
    "\<forall>x\<in>{0, 1, 2}. st (client k3) x \<noteq> RT_THREAD_READY \<and> st (client k3) x \<noteq> RT_THREAD_RUNNING"
    using idle_sleep_leaves_nobody[OF r2 l2 c2 _ h(3,4)] st2 by auto
  then show ?thesis using r2 c2 by blast
qed

section \<open>Semaphores\<close>

text \<open>A semaphore never has both a value and waiting threads; the threads in its list are
  suspended and there once each; when it serves by priority they are in the order of priority.\<close>

lemma sem_list_ok:
  assumes "reach idle T k" "sems (client k) i = Some sem"
  shows "\<exists>ws. sem_view k i (sem_value sem) ws \<and> distinct ws
    \<and> (\<forall>t\<in>set ws. t \<in> T \<and> st (client k) t = RT_THREAD_SUSPEND)
    \<and> (ws \<noteq> [] \<longrightarrow> sem_value sem = 0)
    \<and> (sem_flag sem = RT_IPC_FLAG_PRIO \<longrightarrow> sorted (map (prio (client k)) ws))"
proof -
  obtain L xs where inv: "kernel_inv idle k L T xs" by (rule kernel_goodE[OF reach_good[OF assms(1)]])
  have co: "sched_core (client k) L T" by (rule ok_core[OF kernel_okD(1)[OF kernel_invD(1)[OF inv]]])
  define ws where "ws = L (Waiters i)"
  have h: "Waiters i \<in> heads (client k)" using assms(2) by (auto simp: heads_def)
  have "sem_view k i (sem_value sem) ws" using inv_sem_view[OF inv assms(2)] by (simp add: ws_def)
  moreover have "distinct ws" using sc_distinct[OF core_lists[OF co] h] by (simp add: ws_def)
  moreover have "t \<in> T \<and> st (client k) t = RT_THREAD_SUSPEND" if "t \<in> set ws" for t
    using sc_subset[OF core_lists[OF co] h] core_stat[OF co h] that by (simp add: ws_def)
  moreover have "sem_ok (client k) sem ws" using kernel_invD(3)[OF inv] assms(2) by (simp add: sems_ok_def ws_def)
  ultimately show ?thesis unfolding sem_ok_def by blast
qed

text \<open>C23: \<open>rt_sem_release\<close> is the release of the specification: the first thread in the list gets the
  semaphore and is ready, with the success its own call then returns as the error of its thread is
  kept, or without a waiting thread the value is one more (a 16-bit number, so at 65535 it wraps to 0).
  No other semaphore changes.\<close>

lemma sem_release_refines:
  assumes "reach idle T k" "sem_view k i v ws"
  shows "\<exists>k' w v' ws'. rt_sem_release i k = Inr (RT_EOK, k') \<and> sem_spec_release (v, ws) = (w, v', ws')
    \<and> sem_view k' i v' ws'
    \<and> (\<forall>t. th_error (threads (client k') t) = th_error (threads (client k) t))
    \<and> (\<forall>t. st (client k') t = RT_THREAD_SUSPEND \<longleftrightarrow> st (client k) t = RT_THREAD_SUSPEND \<and> w \<noteq> Some t)
    \<and> (\<forall>j u us. j \<noteq> i \<longrightarrow> sem_view k j u us \<longrightarrow> sem_view k' j u us)"
proof -
  obtain L xs where inv: "kernel_inv idle k L T xs" by (rule kernel_goodE[OF reach_good[OF assms(1)]])
  obtain sem where s: "sems (client k) i = Some sem" using assms(2) by (auto simp: sem_view_def)
  have vw: "v = sem_value sem" "ws = L (Waiters i)" using assms(2) inv_sem_view[OF inv s] by simp_all
  show ?thesis
  proof (cases ws)
    case Nil
    have e: "L (Waiters i) = []" using vw(2) Nil by simp
    define k' where "k' = upd_sched (upd_sem i (\<lambda>sem. sem\<lparr>sem_value := sem_value sem + 1\<rparr>)) k"
    note r = sem_release_value[OF inv s e, folded k'_def]
    have "sem_view k' i (v + 1) []" using assms(2) Nil s by (simp add: sem_view_def k'_def)
    moreover have "sem_view k' j u us" if "j \<noteq> i" "sem_view k j u us" for j u us
      using that by (simp add: sem_view_def k'_def)
    ultimately show ?thesis using r(1) Nil by (simp add: k'_def)
  next
    case (Cons w ws')
    have e: "L (Waiters i) = w # ws'" using vw(2) Cons by simp
    have s': "sems (client k) i \<noteq> None" using s by simp
    obtain k' L' xs' where k': "rt_sem_release i k = Inr (RT_EOK, k')" "kernel_inv idle k' L' T xs'"
      "same_setup (client k) (client k')"
      "\<And>x. cls (client k') x = (if x = w then RT_THREAD_READY else cls (client k) x)"
      "\<And>j. sems (client k) j \<noteq> None \<Longrightarrow> L' (Waiters j) = (if j = i then ws' else L (Waiters j))"
      "\<And>x. th_error (threads (client k') x) = th_error (threads (client k) x)"
      by (rule sem_release_waiter[OF inv s' e]) blast
    have ss: "sems (client k') = sems (client k)" using k'(3) by (simp add: same_setup_def)
    have "sem_view k' j u us \<longleftrightarrow> u = sem_value sj \<and> us = (if j = i then ws' else L (Waiters j))"
      if "sems (client k) j = Some sj" for j u us sj
      using inv_sem_view[OF k'(2)] that k'(5)[of j] by (simp add: ss)
    note view = this
    have "sem_view k' j u us" if ji: "j \<noteq> i" "sem_view k j u us" for j u us
    proof -
      obtain sj where sj: "sems (client k) j = Some sj" using ji(2) by (auto simp: sem_view_def)
      then show ?thesis using view[OF sj] inv_sem_view[OF inv sj] ji by simp
    qed
    moreover have "sem_view k' i v ws'" using view[OF s] vw(1) by simp
    moreover have "st (client k') t = RT_THREAD_SUSPEND \<longleftrightarrow> st (client k) t = RT_THREAD_SUSPEND \<and> Some w \<noteq> Some t" for t
      using k'(4)[of t] cls_suspend[of "client k'" t] cls_suspend[of "client k" t] by (auto split: if_splits)
    ultimately show ?thesis using k'(1,6) Cons by simp
  qed
qed

text \<open>C22: \<open>rt_sem_take\<close> with a wait for ever is the take of the specification: with a value it takes one
  and returns at once, without one the thread is suspended and its place is the last one, or with
  \<open>RT_IPC_FLAG_PRIO\<close> the one before the first thread of a lower priority. No other semaphore changes.\<close>

lemma sem_take_refines:
  assumes "reach idle T k" "sem_view k i v ws" "sems (client k) i = Some sem" "lock_nest (client k) = 0"
    "current_thread (client k) = Some c" "c \<noteq> idle"
  shows "\<exists>r k' now v' ws'. rt_sem_take i (-1) k = Inr (r, k')
    \<and> sem_spec_take (queue_in (sem_flag sem) (threads (client k)) (current_priority (threads (client k) c)) c) (v, ws)
        = (now, v', ws')
    \<and> sem_view k' i v' ws' \<and> r = (if now then Returned RT_EOK else Waits)
    \<and> (\<forall>t. st (client k') t = RT_THREAD_SUSPEND \<longleftrightarrow> st (client k) t = RT_THREAD_SUSPEND \<or> \<not> now \<and> t = c)
    \<and> (\<forall>j u us. j \<noteq> i \<longrightarrow> sem_view k j u us \<longrightarrow> sem_view k' j u us)"
proof -
  obtain L xs where inv: "kernel_inv idle k L T xs" and nest: "interrupt_nest (client k) = 0"
    by (rule kernel_goodE[OF reach_good[OF assms(1)]])
  note s = assms(3)
  have vw: "v = sem_value sem" "ws = L (Waiters i)" using assms(2) inv_sem_view[OF inv s] by simp_all
  show ?thesis
  proof (cases "v > 0")
    case True
    define k' where "k' = upd_sched (upd_sem i (\<lambda>sem. sem\<lparr>sem_value := sem_value sem - 1\<rparr>)) k"
    note r = sem_take_value[OF inv s True[unfolded vw(1)], folded k'_def]
    have "sem_view k' i (v - 1) ws" using assms(2) s by (simp add: sem_view_def k'_def)
    moreover have "sem_view k' j u us" if "j \<noteq> i" "sem_view k j u us" for j u us
      using that by (simp add: sem_view_def k'_def)
    moreover have "threads (client k') = threads (client k)" by (simp add: k'_def)
    ultimately show ?thesis
      using r(1)[of "-1"] True
      by (intro exI[of _ "Returned RT_EOK"] exI[of _ k'] exI[of _ True] exI[of _ "v - 1"] exI[of _ ws])
        (simp add: sem_spec_take_def)
  next
    case False
    then have z: "sem_value sem = 0" using vw(1) by (simp add: word_gt_0)
    obtain k' L' xs' where k': "rt_sem_take i (-1) k = Inr (Waits, k')" "kernel_inv idle k' L' T xs'"
      "same_setup (client k) (client k')"
      "\<And>x. cls (client k') x = (if x = c then RT_THREAD_SUSPEND else cls (client k) x)"
      "\<And>j. sems (client k) j \<noteq> None \<Longrightarrow> L' (Waiters j) = (if j = i
         then queue_in (sem_flag sem) (threads (client k)) (current_priority (threads (client k) c)) c (L (Waiters i))
         else L (Waiters j))"
      by (rule sem_take_waits[OF inv assms(4) nest assms(5,6) s z, of "-1"]) auto
    have ss: "sems (client k') = sems (client k)" using k'(3) by (simp add: same_setup_def)
    have view: "sem_view k' j u us \<longleftrightarrow> u = sem_value sj \<and> us = (if j = i
         then queue_in (sem_flag sem) (threads (client k)) (current_priority (threads (client k) c)) c (L (Waiters i))
         else L (Waiters j))"
      if "sems (client k) j = Some sj" for j u us sj
      using inv_sem_view[OF k'(2)] that k'(5)[of j] by (simp add: ss)
    have "sem_view k' j u us" if ji: "j \<noteq> i" "sem_view k j u us" for j u us
    proof -
      obtain sj where sj: "sems (client k) j = Some sj" using ji(2) by (auto simp: sem_view_def)
      then show ?thesis using view[OF sj] inv_sem_view[OF inv sj] ji by simp
    qed
    moreover have "sem_view k' i v (queue_in (sem_flag sem) (threads (client k)) (current_priority (threads (client k) c)) c ws)"
      using view[OF s] vw by simp
    moreover have "st (client k') t = RT_THREAD_SUSPEND \<longleftrightarrow> st (client k) t = RT_THREAD_SUSPEND \<or> t = c" for t
      using k'(4)[of t] cls_suspend[of "client k'" t] cls_suspend[of "client k" t] by (auto split: if_splits)
    ultimately show ?thesis
      using k'(1) False by (intro exI[of _ Waits] exI[of _ k'] exI[of _ False]) (simp add: sem_spec_take_def)
  qed
qed

lemma sem_take_refines_witness:
  "\<exists>k k'. reach 2 {0, 1, 2} k \<and> sem_view k 0 0 [] \<and> rt_sem_take 0 (-1) k = Inr (Waits, k') \<and> sem_view k' 0 0 [1]"
proof -
  obtain k where k: "reach 2 {0, 1, 2} k" "lock_nest (client k) = 0" "current_thread (client k) = Some 1"
    "sems (client k) 0 = Some \<lparr>sem_static = True, sem_flag = RT_IPC_FLAG_PRIO, sem_value = ucast (0 :: u32)\<rparr>"
    "sem_view k 0 (ucast (0 :: u32)) []" by (rule ex_reach_sem[of RT_IPC_FLAG_PRIO 0]) simp_all
  then have v: "sem_view k 0 0 []" by simp
  show ?thesis
    using sem_take_refines[OF k(1) v k(4,2,3)] k(1) v by (auto simp: sem_spec_take_def queue_in_def prio_insert_def)
qed

text \<open>A state with a waiting thread.\<close>

lemma ex_reach_waiting:
  obtains k where "reach 2 {0, 1, 2} k" "sem_view k 0 0 [1]"
proof -
  obtain k where k: "reach 2 {0, 1, 2} k" "lock_nest (client k) = 0" "interrupt_nest (client k) = 0"
    "current_thread (client k) = Some 1"
    "sems (client k) 0 = Some \<lparr>sem_static = True, sem_flag = RT_IPC_FLAG_FIFO, sem_value = ucast (0 :: u32)\<rparr>"
    "sem_view k 0 (ucast (0 :: u32)) []" by (rule ex_reach_sem[of RT_IPC_FLAG_FIFO 0]) simp_all
  obtain L xs where inv: "kernel_inv 2 k L {0, 1, 2} xs" by (rule kernel_goodE[OF reach_good[OF k(1)]])
  have e: "L (Waiters 0) = []" using inv_sem_view[OF inv k(5)] k(6) by auto
  obtain k' L' xs' where k': "rt_sem_take 0 (-1) k = Inr (Waits, k')" "kernel_inv 2 k' L' {0, 1, 2} xs'"
    "same_setup (client k) (client k')"
    "\<And>j. sems (client k) j \<noteq> None \<Longrightarrow> L' (Waiters j) = (if j = 0
       then queue_in RT_IPC_FLAG_FIFO (threads (client k)) (current_priority (threads (client k) 1)) 1 (L (Waiters 0))
       else L (Waiters j))"
    by (rule sem_take_waits[OF inv k(2-4) _ k(5), of "-1"]) auto
  have "reach 2 {0, 1, 2} k'" using reach.sem_take[OF k(1) _ _ _ k'(1)] k by simp
  moreover have "sems (client k') 0 = sems (client k) 0" using k'(3) by (simp add: same_setup_def)
  then have "sem_view k' 0 0 [1]" using inv_sem_view[OF k'(2)] k'(4)[of 0] k(5) e by (simp add: queue_in_def)
  ultimately show thesis using that by blast
qed

lemma sem_release_refines_witness:
  "\<exists>k k'. reach 2 {0, 1, 2} k \<and> sem_view k 0 0 [1] \<and> rt_sem_release 0 k = Inr (RT_EOK, k')
    \<and> sem_view k' 0 0 [] \<and> st (client k') 1 \<noteq> RT_THREAD_SUSPEND"
proof -
  obtain k where k: "reach 2 {0, 1, 2} k" "sem_view k 0 0 [1]" by (rule ex_reach_waiting)
  show ?thesis using sem_release_refines[OF k] k by auto
qed

lemma sem_list_ok_witness: "\<exists>k. reach 2 {0, 1, 2} k \<and> sem_view k 0 0 [1] \<and> st (client k) 1 = RT_THREAD_SUSPEND"
proof -
  obtain k where k: "reach 2 {0, 1, 2} k" "sem_view k 0 0 [1]" by (rule ex_reach_waiting)
  then obtain sem where s: "sems (client k) 0 = Some sem" by (auto simp: sem_view_def)
  obtain ws where "sem_view k 0 (sem_value sem) ws" "\<forall>t\<in>set ws. st (client k) t = RT_THREAD_SUSPEND"
    using sem_list_ok[OF k(1) s] by blast
  moreover from this have "ws = [1]" using k(2) dlist_threads by (auto simp: sem_view_def)
  ultimately show ?thesis using k by auto
qed

end
