(* ===== verification/Kernel_Time.thy ===== *)
theory Kernel_Time
  imports Kernel_Props
begin

text \<open>
  Time: sleeping and waiting with a limit over the ticks that follow, the time slice between threads
  of one priority, and the thread of the soft timers.
\<close>

section \<open>Some ticks\<close>

fun ticks :: "nat \<Rightarrow> kernel \<Rightarrow> kernel res" where
  "ticks 0 k = Inr k"
| "ticks (Suc n) k = bindE (ticks n k) (SysTick_Handler no_other)"

text \<open>A thread waits with a running timer; \<open>P\<close> tells the semaphores whose lists it is in.\<close>

definition waits_for :: "nat \<Rightarrow> nat \<Rightarrow> nat set \<Rightarrow> int \<Rightarrow> (nat \<Rightarrow> bool) \<Rightarrow> kernel \<Rightarrow> bool" where
  "waits_for idle c T n P k \<longleftrightarrow> (\<exists>L xs. kernel_inv idle k L T xs \<and> interrupt_nest (client k) = 0 \<and> c \<in> T
     \<and> timer_of k c \<in> set xs \<and> left k (timer_of k c) = n \<and> st (client k) c = RT_THREAD_SUSPEND
     \<and> (\<forall>i. sems (client k) i \<noteq> None \<longrightarrow> (c \<in> set (L (Waiters i)) \<longleftrightarrow> P i)))"

lemma waits_tick:
  assumes w: "waits_for idle c T n P k" and n: "1 < n"
  shows "\<exists>k'. SysTick_Handler no_other k = Inr k' \<and> waits_for idle c T (n - 1) P k' \<and> sems (client k') = sems (client k)"
proof -
  obtain L xs where k: "kernel_inv idle k L T xs" "interrupt_nest (client k) = 0" "c \<in> T"
    "timer_of k c \<in> set xs" "left k (timer_of k c) = n" "st (client k) c = RT_THREAD_SUSPEND"
    "\<forall>i. sems (client k) i \<noteq> None \<longrightarrow> (c \<in> set (L (Waiters i)) \<longleftrightarrow> P i)"
    using w unfolding waits_for_def by blast
  obtain k' L' xs' where k': "SysTick_Handler no_other k = Inr k'" "kernel_inv idle k' L' T xs'"
    "interrupt_nest (client k') = 0" "sems (client k') = sems (client k)"
    "\<And>t. cls (client k') t = (if last_tick k T xs t then RT_THREAD_READY else cls (client k) t)"
    "\<And>i. sems (client k) i \<noteq> None \<Longrightarrow> L' (Waiters i) = filter (\<lambda>t. \<not> last_tick k T xs t) (L (Waiters i))"
    "\<And>t. timer_of k' t = timer_of k t"
    "\<And>x. x \<in> set xs \<Longrightarrow> left k x \<noteq> 1 \<Longrightarrow> x \<in> set xs' \<and> left k' x = left k x - 1"
    by (rule inv_systick[OF k(1,2)]) blast
  have nl: "\<not> last_tick k T xs c" using n k(5) by (simp add: last_tick_def)
  have "st (client k') c = RT_THREAD_SUSPEND"
    using k'(5)[of c] nl k(6) cls_suspend[of "client k'" c] cls_suspend[of "client k" c] by simp
  moreover have "timer_of k' c \<in> set xs'" "left k' (timer_of k' c) = n - 1"
    using k'(8)[OF k(4)] n k(5) by (simp_all add: k'(7))
  moreover have "c \<in> set (L' (Waiters i)) \<longleftrightarrow> P i" if "sems (client k') i \<noteq> None" for i
    using that k'(6)[of i] k(7) nl by (simp add: k'(4))
  ultimately show ?thesis using k'(1-4) k(3) unfolding waits_for_def by blast
qed

lemma waits_ends:
  assumes w: "waits_for idle c T 1 P k"
  shows "\<exists>k'. SysTick_Handler no_other k = Inr k' \<and> st (client k') c \<in> {RT_THREAD_READY, RT_THREAD_RUNNING}
    \<and> th_error (threads (client k') c) = - RT_ETIMEOUT
    \<and> (\<forall>i v ws. sem_view k' i v ws \<longrightarrow> c \<notin> set ws)"
proof -
  obtain L xs where k: "kernel_inv idle k L T xs" "interrupt_nest (client k) = 0" "c \<in> T"
    "timer_of k c \<in> set xs" "left k (timer_of k c) = 1"
    using w unfolding waits_for_def by blast
  obtain k' L' xs' where k': "SysTick_Handler no_other k = Inr k'" "kernel_inv idle k' L' T xs'"
    "interrupt_nest (client k') = 0" "sems (client k') = sems (client k)"
    "\<And>t. cls (client k') t = (if last_tick k T xs t then RT_THREAD_READY else cls (client k) t)"
    "\<And>i. sems (client k) i \<noteq> None \<Longrightarrow> L' (Waiters i) = filter (\<lambda>t. \<not> last_tick k T xs t) (L (Waiters i))"
    "\<And>t. th_error (threads (client k') t) = (if last_tick k T xs t then - RT_ETIMEOUT else th_error (threads (client k) t))"
    "lock_nest (client k') = lock_nest (client k)"
    by (rule inv_systick[OF k(1,2)]) blast
  have nl: "last_tick k T xs c" using k by (simp add: last_tick_def)
  have "cls (client k') c = RT_THREAD_READY" using k'(5)[of c] nl by simp
  then have "st (client k') c \<in> {RT_THREAD_READY, RT_THREAD_RUNNING}" by (auto simp: cls_def split: if_splits)
  moreover have "c \<notin> set ws" if v: "sem_view k' i u ws" for i u ws
  proof -
    obtain sem where s: "sems (client k') i = Some sem" using v by (auto simp: sem_view_def)
    then have "ws = L' (Waiters i)" using inv_sem_view[OF k'(2)] v by blast
    then show ?thesis using k'(6)[of i] s nl by (simp add: k'(4))
  qed
  ultimately show ?thesis using k'(1) k'(7)[of c] nl by auto
qed

lemma waits_ticks:
  assumes "waits_for idle c T n P k" "int m < n"
  shows "\<exists>k'. ticks m k = Inr k' \<and> waits_for idle c T (n - int m) P k' \<and> sems (client k') = sems (client k)"
  using assms(2)
proof (induction m)
  case 0
  then show ?case using assms(1) by simp
next
  case (Suc m)
  then obtain k1 where k1: "ticks m k = Inr k1" "waits_for idle c T (n - int m) P k1" "sems (client k1) = sems (client k)" by auto
  have "1 < n - int m" using Suc.prems by simp
  from waits_tick[OF k1(2) this] obtain k' where "SysTick_Handler no_other k1 = Inr k'"
    "waits_for idle c T (n - int m - 1) P k'" "sems (client k') = sems (client k1)" by blast
  then show ?case using k1 by (simp add: algebra_simps)
qed

lemma waits_over:
  assumes "waits_for idle c T (int n) P k" "0 < n"
  shows "\<exists>k'. ticks n k = Inr k' \<and> st (client k') c \<in> {RT_THREAD_READY, RT_THREAD_RUNNING}
    \<and> th_error (threads (client k') c) = - RT_ETIMEOUT \<and> (\<forall>i v ws. sem_view k' i v ws \<longrightarrow> c \<notin> set ws)"
proof -
  obtain m where m: "n = Suc m" using assms(2) by (cases n) auto
  obtain k1 where k1: "ticks m k = Inr k1" "waits_for idle c T (int n - int m) P k1"
    using waits_ticks[OF assms(1), of m] m by auto
  then have "waits_for idle c T 1 P k1" by (simp add: m)
  from waits_ends[OF this] show ?thesis using k1(1) by (simp add: m)
qed

lemma waits_suspended: "waits_for idle c T n P k \<Longrightarrow> st (client k) c = RT_THREAD_SUSPEND"
  by (auto simp: waits_for_def)

lemma waits_queued:
  assumes "waits_for idle c T n P k" "sem_view k i v ws"
  shows "c \<in> set ws \<longleftrightarrow> P i"
proof -
  obtain L xs where k: "kernel_inv idle k L T xs" "\<forall>i. sems (client k) i \<noteq> None \<longrightarrow> (c \<in> set (L (Waiters i)) \<longleftrightarrow> P i)"
    using assms(1) unfolding waits_for_def by blast
  obtain sem where s: "sems (client k) i = Some sem" using assms(2) by (auto simp: sem_view_def)
  then show ?thesis using inv_sem_view[OF k(1) s] assms(2) k(2) by auto
qed

lemma same_setup_timer:
  "same_setup s s' \<Longrightarrow> th_timer (threads s' t) = th_timer (threads s t)" "same_setup s s' \<Longrightarrow> sems s' = sems s"
  unfolding same_setup_def by blast+

section \<open>Sleeping\<close>

text \<open>C25: A thread that sleeps \<open>n\<close> ticks is suspended until the \<open>n\<close>-th tick interrupt and ready, or
  running, after it; \<open>n\<close> is below half the range of the tick.\<close>

lemma sleep_wakes:
  assumes r: "reach idle T k" and l: "lock_nest (client k) = 0" and c: "current_thread (client k) = Some c" "c \<noteq> idle"
    and n: "0 < n" "n < HALF_TICK"
  shows "\<exists>k1. rt_thread_sleep n k = Inr k1
    \<and> (\<forall>m < unat n. \<exists>k2. ticks m k1 = Inr k2 \<and> st (client k2) c = RT_THREAD_SUSPEND)
    \<and> (\<exists>k2. ticks (unat n) k1 = Inr k2 \<and> st (client k2) c \<in> {RT_THREAD_READY, RT_THREAD_RUNNING}
         \<and> fst (rt_thread_sleep_back c k2) = RT_EOK)"
proof -
  obtain L xs where inv: "kernel_inv idle k L T xs" and nest: "interrupt_nest (client k) = 0"
    by (rule kernel_goodE[OF reach_good[OF r]])
  obtain k1 L' xs' where k1: "rt_thread_sleep n k = Inr k1" "kernel_inv idle k1 L' T xs'"
    "same_setup (client k) (client k1)"
    "\<And>x. cls (client k1) x = (if x = c then RT_THREAD_SUSPEND else cls (client k) x)"
    "set xs' = insert (timer_of k c) (set xs)" "left k1 (timer_of k c) = uint n"
    by (rule thread_sleep_ok[OF inv l c n]) blast
  have cT: "c \<in> T" using kernel_invD(7)[OF inv l] c(1) by (auto simp: on_top_def)
  have sc: "st (client k1) c = RT_THREAD_SUSPEND" using k1(4)[of c] cls_suspend[of "client k1" c] by simp
  have y: "timer_of k1 c = timer_of k c" "interrupt_nest (client k1) = 0"
    using same_setup_timer[OF k1(3)] same_setup_nests[OF k1(3)] nest by simp_all
  have "timer_of k1 c \<in> set xs'" "left k1 (timer_of k1 c) = int (unat n)" using k1(5,6) by (simp_all add: y)
  then have w: "waits_for idle c T (int (unat n)) (\<lambda>i. c \<in> set (L' (Waiters i))) k1"
    unfolding waits_for_def using k1(2) cT sc y(2) by blast
  have "0 < unat n" using n(1) by (simp add: unat_gt_0)
  from waits_over[OF w this] obtain k2 where k2: "ticks (unat n) k1 = Inr k2"
    "st (client k2) c \<in> {RT_THREAD_READY, RT_THREAD_RUNNING}" by blast
  have "\<exists>k2. ticks m k1 = Inr k2 \<and> st (client k2) c = RT_THREAD_SUSPEND" if "m < unat n" for m
  proof -
    have "int m < int (unat n)" using that by (simp only: of_nat_less_iff)
    from waits_ticks[OF w this] show ?thesis using waits_suspended by blast
  qed
  then show ?thesis using k1(1) k2 by (simp add: rt_thread_sleep_back_def)
qed

lemma sleep_wakes_witness:
  "\<exists>k k1 k2. reach 2 {0, 1, 2} k \<and> rt_thread_sleep 3 k = Inr k1 \<and> ticks 3 k1 = Inr k2
    \<and> st (client k2) 1 \<in> {RT_THREAD_READY, RT_THREAD_RUNNING}"
proof -
  obtain k where k: "reach 2 {0, 1, 2} k" "lock_nest (client k) = 0" "current_thread (client k) = Some 1" by (rule ex_reach)
  show ?thesis using sleep_wakes[OF k, of 3] k(1) by auto
qed

text \<open>A wait for a semaphore that is not released ends with the last tick of its limit: until then
  the thread is suspended and in the semaphore's list, then it is ready, in no list, and its call
  returns \<open>-RT_ETIMEOUT\<close>.\<close>

lemma sem_wait_ends:
  assumes r: "reach idle T k" and l: "lock_nest (client k) = 0" and c: "current_thread (client k) = Some c" "c \<noteq> idle"
    and s: "sem_view k i 0 ws" and n: "0 < time" "time < 2147483647"
  shows "\<exists>k1. rt_sem_take i time k = Inr (Waits, k1)
    \<and> (\<forall>m < nat time. \<exists>k2 us. ticks m k1 = Inr k2 \<and> st (client k2) c = RT_THREAD_SUSPEND \<and> sem_view k2 i 0 us \<and> c \<in> set us)
    \<and> (\<exists>k2. ticks (nat time) k1 = Inr k2 \<and> st (client k2) c \<in> {RT_THREAD_READY, RT_THREAD_RUNNING}
         \<and> rt_sem_take_back c k2 = - RT_ETIMEOUT \<and> (\<forall>j v us. sem_view k2 j v us \<longrightarrow> c \<notin> set us))"
proof -
  obtain L xs where inv: "kernel_inv idle k L T xs" and nest: "interrupt_nest (client k) = 0"
    by (rule kernel_goodE[OF reach_good[OF r]])
  obtain sem where sem: "sems (client k) i = Some sem" "sem_value sem = 0" using s by (auto simp: sem_view_def)
  have t0: "time \<noteq> 0" using n by simp
  obtain k1 L' xs' where k1: "rt_sem_take i time k = Inr (Waits, k1)" "kernel_inv idle k1 L' T xs'"
    "same_setup (client k) (client k1)"
    "\<And>x. cls (client k1) x = (if x = c then RT_THREAD_SUSPEND else cls (client k) x)"
    "set xs' = (if time > 0 then insert (timer_of k c) (set xs) else set xs)"
    "time > 0 \<Longrightarrow> left k1 (timer_of k c) = time"
    "\<And>j. sems (client k) j \<noteq> None \<Longrightarrow> L' (Waiters j) = (if j = i
       then queue_in (sem_flag sem) (threads (client k)) (current_priority (threads (client k) c)) c (L (Waiters i))
       else L (Waiters j))"
    by (rule sem_take_waits[OF inv l nest c sem t0 n(2)]) blast
  have cT: "c \<in> T" using kernel_invD(7)[OF inv l] c(1) by (auto simp: on_top_def)
  have sc: "st (client k1) c = RT_THREAD_SUSPEND" using k1(4)[of c] cls_suspend[of "client k1" c] by simp
  have y: "timer_of k1 c = timer_of k c" "interrupt_nest (client k1) = 0" "sems (client k1) = sems (client k)"
    using same_setup_timer[OF k1(3)] same_setup_nests[OF k1(3)] nest by simp_all
  have "timer_of k1 c \<in> set xs'" "left k1 (timer_of k1 c) = int (nat time)" using k1(5,6) n(1) by (simp_all add: y)
  then have w: "waits_for idle c T (int (nat time)) (\<lambda>j. c \<in> set (L' (Waiters j))) k1"
    unfolding waits_for_def using k1(2) cT sc y(2) by blast
  have q: "c \<in> set (L' (Waiters i))" using k1(7)[of i] sem(1) by simp
  have "0 < nat time" using n(1) by simp
  from waits_over[OF w this] obtain k2 where k2: "ticks (nat time) k1 = Inr k2"
    "st (client k2) c \<in> {RT_THREAD_READY, RT_THREAD_RUNNING}" "th_error (threads (client k2) c) = - RT_ETIMEOUT"
    "\<forall>i v ws. sem_view k2 i v ws \<longrightarrow> c \<notin> set ws" by blast
  have "\<exists>k2 us. ticks m k1 = Inr k2 \<and> st (client k2) c = RT_THREAD_SUSPEND \<and> sem_view k2 i 0 us \<and> c \<in> set us"
    if m: "m < nat time" for m
  proof -
    obtain k2 where k2: "ticks m k1 = Inr k2" "waits_for idle c T (int (nat time) - int m) (\<lambda>j. c \<in> set (L' (Waiters j))) k2"
      "sems (client k2) = sems (client k1)" 
    proof -
      have "int m < int (nat time)" using m by (simp only: of_nat_less_iff)
      from waits_ticks[OF w this] show thesis using that by blast
    qed
    obtain L2 xs2 where "kernel_inv idle k2 L2 T xs2" using k2(2) unfolding waits_for_def by blast
    then have "sem_view k2 i 0 (L2 (Waiters i))" using inv_sem_view[of idle k2 L2 T xs2 i sem] sem k2(3) y(3) by simp
    then show ?thesis using k2 waits_suspended[OF k2(2)] waits_queued[OF k2(2)] q by blast
  qed
  then show ?thesis using k1(1) k2 by (simp add: rt_sem_take_back_def)
qed

lemma sem_wait_ends_witness:
  "\<exists>k k1 k2. reach 2 {0, 1, 2} k \<and> rt_sem_take 0 2 k = Inr (Waits, k1) \<and> ticks 2 k1 = Inr k2
    \<and> rt_sem_take_back 1 k2 = - RT_ETIMEOUT"
proof -
  obtain k where k: "reach 2 {0, 1, 2} k" "lock_nest (client k) = 0" "current_thread (client k) = Some 1"
    "sem_view k 0 (ucast (0 :: u32)) []" by (rule ex_reach_sem[of RT_IPC_FLAG_FIFO 0]) simp_all
  then have v: "sem_view k 0 0 []" by simp
  show ?thesis using sem_wait_ends[OF k(1-3) _ v, of 2] k(1) by auto
qed

section \<open>Threads of one priority\<close>

text \<open>Two threads of priority 5: thread 0 runs its last tick, thread 1 is ready. Two soft timers, 0 and
  1, are due.\<close>

definition pair_thread :: "u8 \<Rightarrow> rt_thread" where
  "pair_thread stat = \<lparr>th_object = True, th_static = True, th_cleanup = False, th_stat = stat, current_priority = 5,
     init_priority = 5, number_mask = 32, th_init_tick = 10, remaining_tick = 1, th_error = 0, th_timer = 0,
     stack_intact = True\<rparr>"

definition pair_sched :: sched where
  "pair_sched = \<lparr>sc_links = \<lparr>nxt = (\<lambda>n. n)(Ready 5 := Thread 1, Thread 1 := Ready 5),
       prv = (\<lambda>n. n)(Ready 5 := Thread 1, Thread 1 := Ready 5)\<rparr>, ready_group = 32,
     threads = (\<lambda>_. pair_thread RT_THREAD_READY)(0 := pair_thread RT_THREAD_RUNNING),
     timer_param = \<lambda>_. None, current_thread = Some 0, rt_current_priority = 5, lock_nest = 0, interrupt_nest = 0,
     sems = \<lambda>_. None\<rparr>"

definition pair :: kernel where
  "pair = cold\<lparr>client := pair_sched,
     tm_links := \<lparr>nxt = (\<lambda>n. n)(Soft_List := Row 0, Row 0 := Row 1, Row 1 := Soft_List),
       prv = (\<lambda>n. n)(Soft_List := Row 1, Row 0 := Soft_List, Row 1 := Row 0)\<rparr>,
     tm_obj := \<lambda>_. Some True,
     tm_timer := \<lambda>_. \<lparr>tm_flag = RT_TIMER_FLAG_SOFT_TIMER OR RT_TIMER_FLAG_ACTIVATED, init_tick = 5, timeout_tick = 0\<rparr>\<rparr>"

definition pair_lists :: "snode \<Rightarrow> nat list" where
  "pair_lists = (\<lambda>_. [])(Ready 5 := [1])"

lemma pair_stat: "st pair_sched 0 = RT_THREAD_RUNNING" "t \<noteq> 0 \<Longrightarrow> st pair_sched t = RT_THREAD_READY"
  "prio pair_sched t = 5"
  by (simp_all add: pair_sched_def pair_thread_def stat_of_def)

lemma pair_ok: "sched_ok pair_sched pair_lists {0, 1}"
proof -
  have h: "heads pair_sched = Ready ` {..<32} \<union> {Defunct}" by (simp add: heads_def pair_sched_def)
  have "sc_lists (sc_links pair_sched) (heads pair_sched) pair_lists {0, 1}"
    unfolding h by (auto simp: sc_lists_def pair_lists_def pair_sched_def dlist_def lone_def is_head_def)
  moreover have "bit (ready_group pair_sched) p \<longleftrightarrow> pair_lists (Ready p) \<noteq> []" for p
    using bit_push_bit_iff[of 5 "1 :: u32" p] by (auto simp: pair_sched_def pair_lists_def bit_1_iff)
  moreover have "th_ok (threads pair_sched t)" for t
    by (simp add: pair_sched_def pair_thread_def th_ok_def masked_def)
  moreover have "st pair_sched t = head_stat g" if "t \<in> set (pair_lists g)" for g t
    using that pair_stat(2)[of t] by (auto simp: pair_lists_def split: if_splits)
  moreover have "prio pair_sched t = p" if "t \<in> set (pair_lists (Ready p))" for p t
    using that pair_stat(3) by (auto simp: pair_lists_def split: if_splits)
  ultimately have co: "sched_core pair_sched pair_lists {0, 1}" by (simp add: sched_core_def)
  show ?thesis
  proof (rule sched_okI[OF co])
    fix t assume "t \<in> {0, 1 :: nat}" "st pair_sched t = RT_THREAD_READY"
    then have "t = 1" using pair_stat(1) by auto
    then show "t \<in> set (pair_lists (Ready (prio pair_sched t)))" using pair_stat(3) by (simp add: pair_lists_def)
  next
    fix t assume "t \<in> {0, 1 :: nat}" "st pair_sched t = RT_THREAD_RUNNING"
    then have "t = 0" using pair_stat(2)[of t] by (cases "t = 0") auto
    then show "current_thread pair_sched = Some t" by (simp add: pair_sched_def)
  next
    fix c assume "current_thread pair_sched = Some c"
    then have "c = 0" by (simp add: pair_sched_def)
    then show "st pair_sched c \<noteq> RT_THREAD_READY \<and> st pair_sched c \<noteq> RT_THREAD_INIT
      \<and> (st pair_sched c = RT_THREAD_RUNNING \<longrightarrow> c \<in> {0, 1})" using pair_stat(1) by simp
  qed
qed

lemma pair_top: "on_top pair_sched {0, 1}"
  unfolding on_top_def using pair_stat(1,3) by (simp add: pair_sched_def)

lemma pair_simps [simp]: "client pair = pair_sched" "lock_nest pair_sched = 0" "current_thread pair_sched = Some 0"
  by (simp_all add: pair_def pair_sched_def)

text \<open>\<open>rt_thread_yield\<close> does not yield: the state is the same after it, also when a thread of the same
  priority is ready. It calls the scheduler without the flag that gives up the processor.\<close>

lemma yield_stays:
  assumes ok: "sched_ok (client k) L T" "on_top (client k) T"
    and c: "current_thread (client k) = Some c" "\<not> yields (threads (client k) c)"
  shows "rt_thread_yield k = Inr (RT_EOK, k)"
proof -
  have co: "sched_core (client k) L T" using ok_core[OF ok(1)] .
  have run: "st (client k) c = RT_THREAD_RUNNING"
    "\<forall>t\<in>T. st (client k) t = RT_THREAD_READY \<longrightarrow> prio (client k) c \<le> prio (client k) t"
    using ok(2) c(1) by (auto simp: on_top_def)
  have "prio (client k) c \<le> p" if p: "p < 32" "L (Ready p) \<noteq> []" for p
  proof -
    obtain t where t: "t \<in> set (L (Ready p))" using p(2) by (meson last_in_set)
    have "t \<in> T" "st (client k) t = RT_THREAD_READY" "prio (client k) t = p"
      using sc_subset[OF core_lists[OF co] _ t] core_stat[OF co _ t] core_prio[OF co p(1) t] p(1) by simp_all
    then show ?thesis using run(2) by blast
  qed
  then have "keeps_running (client k) L c" using run(1) c(2) by (simp add: keeps_running_def)
  then have "rt_schedule (client k) = Inr (client k)" by (rule schedule_same[OF ok(1) c(1)])
  then show ?thesis by (simp add: rt_thread_yield_def on_sched_def)
qed

lemma yield_stays_witness:
  "rt_thread_yield pair = Inr (RT_EOK, pair) \<and> current_thread (client pair) = Some 0
    \<and> st (client pair) 1 = RT_THREAD_READY \<and> prio (client pair) 1 = prio (client pair) 0"
  using yield_stays[of pair pair_lists "{0, 1}" 0] pair_ok pair_top pair_stat
  by (simp add: yields_def) (simp add: pair_sched_def pair_thread_def)

text \<open>The time slice: with the last tick of its slice the running thread goes to the end of the ready
  list of its priority, with a new slice, and the first thread of that list runs.\<close>

lemma slice_rotates:
  assumes ok: "sched_ok (client k) L T" "on_top (client k) T" and l: "lock_nest (client k) = 0"
    and c: "current_thread (client k) = Some c" "remaining_tick (threads (client k) c) = 1"
    and ts: "L (Ready (prio (client k) c)) = t # ts"
  shows "\<exists>k'. thread_slice k = Inr k' \<and> current_thread (client k') = Some t
    \<and> st (client k') t = RT_THREAD_RUNNING \<and> st (client k') c = RT_THREAD_READY
    \<and> dlist (sc_links (client k')) (Ready (prio (client k) c)) (map Thread (ts @ [c]))
    \<and> remaining_tick (threads (client k') c) = th_init_tick (threads (client k) c)"
proof -
  define f where "f = (\<lambda>th. th\<lparr>remaining_tick := remaining_tick th - 1\<rparr> :: rt_thread)"
  define g where "g = (\<lambda>th. th\<lparr>remaining_tick := th_init_tick th, th_stat := th_stat th OR RT_THREAD_STAT_YIELD\<rparr> :: rt_thread)"
  define s where "s = upd_thread c g (upd_thread c f (client k))"
  have fs: "same_sched f" "same_sched g" unfolding f_def g_def by (rule same_sched_ticks, rule same_sched_yield)
  have so: "sched_ok s L T" unfolding s_def by (rule same_sched_ok[OF same_sched_ok[OF ok(1) fs(1)] fs(2)])
  have co: "sched_core s L T" by (rule ok_core[OF so])
  have eq: "st s x = st (client k) x" "prio s x = prio (client k) x" for x
    using fs by (simp_all add: s_def same_sched_def)
  have cu: "current_thread s = Some c" "lock_nest s = 0" using c(1) l by (simp_all add: s_def)
  have run: "st s c = RT_THREAD_RUNNING" "\<forall>t\<in>T. st s t = RT_THREAD_READY \<longrightarrow> prio s c \<le> prio s t"
    using ok(2) c(1) unfolding eq by (auto simp: on_top_def)
  have y: "yields (threads s c)"
    by (simp add: s_def g_def yields_def bit.conj_disj_distrib2)
  define p where "p = prio s c"
  have Lp: "L (Ready p) = t # ts" using ts by (simp add: p_def eq)
  have p32: "p < 32"
  proof -
    have "c \<in> T" using ok_current[OF so cu(1)] run(1) by blast
    then show ?thesis using core_thread[OF co] by (simp add: th_ok_def p_def)
  qed
  have nk: "\<not> keeps_running s L c"
    using cu(2) Lp p32 run(1) y by (auto simp: keeps_running_def p_def)
  obtain s' t' p' ts' where s': "rt_schedule s = Inr s'" "L (Ready p') = t' # ts'" "p' < 32" "\<forall>q<p'. L (Ready q) = []"
    "sched_ok s' (handed_over s L c t') T" "current_thread s' = Some t'" "same_but_stat s s'"
    "\<forall>x. st s' x = (if x = t' then RT_THREAD_RUNNING
       else if x = c \<and> st s c = RT_THREAD_RUNNING then RT_THREAD_READY else st s x)"
    by (rule schedule_switch[OF so cu(1) nk]) blast
  have t': "t' \<in> T" "st s t' = RT_THREAD_READY" "prio s t' = p'"
    using sc_subset[OF core_lists[OF co], of "Ready p'" t'] core_stat[OF co, of "Ready p'" t']
      core_prio[OF co s'(3), of t'] s'(2,3) by simp_all
  have "p' = p"
  proof (rule antisym)
    show "p' \<le> p"
    proof (rule ccontr)
      assume "\<not> p' \<le> p"
      then show False using s'(4) Lp by simp
    qed
    show "p \<le> p'" using run(2) t' by (auto simp: p_def)
  qed
  then have tt: "t' = t" "ts' = ts" using s'(2) Lp by simp_all
  have ct: "c \<noteq> t" using t'(2) run(1) tt(1) by auto
  have "handed_over s L c t (Ready p) = ts @ [c]"
    using run(1) Lp ct by (simp add: handed_over_def off_def p_def)
  then have "dlist (sc_links s') (Ready p) (map Thread (ts @ [c]))"
    using sc_dlist[OF core_lists[OF ok_core[OF s'(5)]], of "Ready p"] p32 tt(1) by simp
  moreover have "remaining_tick (threads s' c) = th_init_tick (threads (client k) c)"
    using same_but_stat_thread(5)[OF s'(7)] by (simp add: s_def g_def f_def)
  moreover have "thread_slice k = Inr (k\<lparr>client := s'\<rparr>)"
  proof -
    define k1 where "k1 = upd_sched (upd_thread c f) k"
    have "remaining_tick (threads (client k1) c) = 0" by (simp add: k1_def f_def c(2))
    moreover have "client (upd_sched (upd_thread c g) k1) = s" by (simp add: k1_def s_def)
    moreover have "k1\<lparr>client := s'\<rparr> = k\<lparr>client := s'\<rparr>" by (simp add: k1_def upd_sched_def)
    ultimately show ?thesis using c(1) s'(1)
      by (simp add: thread_slice_def Let_def rt_thread_yield_def on_sched_def f_def[symmetric] g_def[symmetric] k1_def[symmetric])
        (simp add: upd_sched_def)
  qed
  moreover have "st s' t = RT_THREAD_RUNNING" "st s' c = RT_THREAD_READY" using s'(8) tt(1) ct run(1) by simp_all
  ultimately show ?thesis using s'(6) tt(1) by (simp add: p_def eq)
qed

lemma slice_rotates_witness:
  "\<exists>k'. thread_slice pair = Inr k' \<and> current_thread (client k') = Some 1 \<and> st (client k') 0 = RT_THREAD_READY
    \<and> dlist (sc_links (client k')) (Ready 5) (map Thread [0])"
proof -
  have "remaining_tick (threads (client pair) 0) = 1" by (simp add: pair_sched_def pair_thread_def)
  moreover have "pair_lists (Ready (prio (client pair) 0)) = 1 # []" using pair_stat(3) by (simp add: pair_lists_def)
  ultimately show ?thesis
    using slice_rotates[of pair pair_lists "{0, 1}" 0 1 "[]"] pair_ok pair_top pair_stat(3) by auto
qed

section \<open>The thread of the soft timers\<close>

text \<open>The function of timer \<open>a\<close> stops timer \<open>b\<close>; other functions do nothing.\<close>

definition stops :: "nat \<Rightarrow> nat \<Rightarrow> nat \<Rightarrow> kernel \<Rightarrow> kernel res" where
  "stops a b m k = (if m = a then bindE (rt_timer_stop b k) (\<lambda>(_, k1). Inr k1) else Inr k)"

text \<open>The loop at the row of a timer that is in no list.\<close>

definition at_lone :: "sched \<Rightarrow> nat \<Rightarrow> u32 \<Rightarrow> tnode \<Rightarrow> kernel \<Rightarrow> bool" where
  "at_lone s b now n k \<longleftrightarrow> n = Row b \<and> lone (tm_links k) n \<and> now = rt_tick k
     \<and> now - timeout_tick (tm_timer k b) < HALF_TICK \<and> \<not> has_flag RT_TIMER_FLAG_PERIODIC (tm_timer k b)
     \<and> client k = s\<lparr>lock_nest := 1\<rparr>"

lemma clear_periodic: "\<not> has_flag RT_TIMER_FLAG_PERIODIC tm \<Longrightarrow> \<not> has_flag RT_TIMER_FLAG_PERIODIC (clear_flag v tm)"
  by (simp add: has_flag_def clear_flag_def and.assoc and.commute and.left_commute)

lemma clear_tick: "timeout_tick (clear_flag v tm) = timeout_tick tm"
  by (simp add: clear_flag_def)

lemma soft_exit:
  assumes l: "lock_nest s = 0" and c: "current_thread s = Some c" and r: "rt_schedule s = Inr s" and k: "client k = s\<lparr>lock_nest := 1\<rparr>"
  shows "on_sched rt_exit_critical k = Inr (k\<lparr>client := s\<rparr>)"
proof -
  have "s\<lparr>lock_nest := 0\<rparr> = s" using l by simp
  then show ?thesis using c r by (simp add: on_sched_def rt_exit_critical_def k to_s16_id)
qed

lemma lone_step:
  assumes l: "lock_nest s = 0" and c: "current_thread s = Some c" and r: "rt_schedule s = Inr s"
    and a: "at_lone s b now n k" and ab: "b \<noteq> a"
  shows "now - timeout_tick (tm_timer k b) < HALF_TICK" "n = Row b"
    "\<exists>now' k'. soft_fire (stops a b) b k = Inr (now', k') \<and> at_lone s b now' (nxt (tm_links k) n) k'"
proof -
  note k = a[unfolded at_lone_def]
  show "now - timeout_tick (tm_timer k b) < HALF_TICK" "n = Row b" using k by blast+
  have "rt_list_remove (Row b) (tm_links k) = tm_links k" using k by (intro remove_lone) blast
  then have rem: "rt_timer_remove b k = k" by (simp add: rt_timer_remove_def upd_links_def)
  have ex: "on_sched rt_exit_critical k = Inr (k\<lparr>client := s\<rparr>)" using soft_exit[OF l c r] k by blast
  define k' where "k' = upd_timer b (clear_flag RT_TIMER_FLAG_ACTIVATED) k"
  have en: "upd_sched rt_enter_critical (k\<lparr>client := s\<rparr>) = k"
    using k l by (simp add: upd_sched_def rt_enter_critical_def to_s16_id)
  have "soft_fire (stops a b) b k = Inr (rt_tick k, k')"
    using k ab by (simp add: soft_fire_def rem ex stops_def Let_def en k'_def)
  moreover have "nxt (tm_links k) n = Row b" using k by (auto simp: lone_def)
  then have "at_lone s b (rt_tick k) (nxt (tm_links k) n) k'"
    unfolding at_lone_def using k clear_periodic by (auto simp: k'_def clear_tick)
  ultimately show "\<exists>now' k'. soft_fire (stops a b) b k = Inr (now', k') \<and> at_lone s b now' (nxt (tm_links k) n) k'" by blast
qed

lemma lone_loop:
  assumes l: "lock_nest s = 0" and c: "current_thread s = Some c" and r: "rt_schedule s = Inr s" and ab: "b \<noteq> a"
  shows "soft_loop f now n k = Some y \<Longrightarrow> \<not> (f = stops a b \<and> at_lone s b now n k)"
proof (rule soft_loop.raw_induct[of "\<lambda>f now n k y. \<not> (f = stops a b \<and> at_lone s b now n k)"], goal_cases)
  case (1 loop f now n k y)
  show ?case
  proof
    assume a: "f = stops a b \<and> at_lone s b now n k"
    note st = lone_step[OF l c r conjunct2[OF a] ab]
    obtain now' k' where k': "soft_fire (stops a b) b k = Inr (now', k')" "at_lone s b now' (nxt (tm_links k) n) k'"
      using st(3) by blast
    have "loop (stops a b) now' (nxt (tm_links k) n) k' = Some y" using 1 a st(1) k'(1) by (simp add: st(2))
    then show False using 1 k'(2) by blast
  qed
qed

text \<open>When the function of a soft timer stops the timer behind it that is due as well, the thread of
  the soft timers calls the function of the stopped timer for ever: it goes on from the stopped
  timer's row, whose links lead to itself.\<close>

lemma soft_timer_hangs:
  assumes ok: "sched_ok (client k) L T" "on_top (client k) T" and l: "lock_nest (client k) = 0"
    and c: "current_thread (client k) = Some c" "\<not> yields (threads (client k) c)"
    and d: "dlist (tm_links k) Soft_List [Row a, Row b]" "tm_obj k b \<noteq> None"
    and f: "\<not> has_flag RT_TIMER_FLAG_PERIODIC (tm_timer k a)" "\<not> has_flag RT_TIMER_FLAG_PERIODIC (tm_timer k b)"
      "has_flag RT_TIMER_FLAG_ACTIVATED (tm_timer k b)"
    and due: "rt_tick k - timeout_tick (tm_timer k a) < HALF_TICK" "rt_tick k - timeout_tick (tm_timer k b) < HALF_TICK"
  shows "rt_soft_timer_check (stops a b) k = Inl No_Return"
proof -
  define s where "s = client k"
  have r: "rt_schedule s = Inr s"
  proof (cases "rt_schedule s")
    case (Inr s')
    then show ?thesis using yield_stays[OF ok c] by (simp add: s_def rt_thread_yield_def on_sched_def) (metis tmsys.select_convs(6) tmsys.surjective tmsys.update_convs(6))
  qed (use yield_stays[OF ok c] in \<open>simp add: s_def rt_thread_yield_def on_sched_def\<close>)
  have sl: "lock_nest s = 0" "current_thread s = Some c" using l c(1) by (simp_all add: s_def)
  have ab: "b \<noteq> a" using d(1) by (auto simp: dlist_def)
  define k1 where "k1 = upd_sched rt_enter_critical k"
  have k1: "client k1 = s\<lparr>lock_nest := 1\<rparr>" "tm_links k1 = tm_links k" "tm_timer k1 = tm_timer k" "rt_tick k1 = rt_tick k"
    "tm_obj k1 = tm_obj k" using l by (simp_all add: k1_def s_def rt_enter_critical_def to_s16_id)
  define k2 where "k2 = (rt_timer_remove a k1)\<lparr>client := s\<rparr>"
  have k2: "on_sched rt_exit_critical (rt_timer_remove a k1) = Inr k2"
    unfolding k2_def by (rule soft_exit[OF sl r]) (simp add: rt_timer_remove_def k1)
  have d2: "dlist (tm_links k2) Soft_List [Row b]"
    using remove_dlist[of "tm_links k" Soft_List "[]" "Row a" "[Row b]"] d(1) by (simp add: k2_def rt_timer_remove_def k1)
  define k3 where "k3 = upd_timer b (clear_flag RT_TIMER_FLAG_ACTIVATED) (rt_timer_remove b k2)"
  have t2: "tm_timer k2 = tm_timer k" "tm_obj k2 = tm_obj k" "rt_tick k2 = rt_tick k" "client k2 = s"
    by (simp_all add: k2_def rt_timer_remove_def k1)
  have "rt_timer_stop b k2 = Inr (RT_EOK, k3)"
    using d(2) f(3) by (simp add: rt_timer_stop_def assertE_def t2 k3_def)
  then have k3: "stops a b a k2 = Inr k3" by (simp add: stops_def)
  have t3: "tm_timer k3 = (tm_timer k)(b := clear_flag RT_TIMER_FLAG_ACTIVATED (tm_timer k b))" "rt_tick k3 = rt_tick k"
    "client k3 = s" "lone (tm_links k3) (Row b)"
    using remove_is_lone by (simp_all add: k3_def rt_timer_remove_def t2)
  define k4 where "k4 = upd_timer a (clear_flag RT_TIMER_FLAG_ACTIVATED) (upd_sched rt_enter_critical k3)"
  have "soft_fire (stops a b) a k1 = Inr (rt_tick k, k4)"
    using f(1) ab by (simp add: soft_fire_def k2 k3 Let_def t3 k4_def)
  moreover have "at_lone s b (rt_tick k) (Row b) k4"
    unfolding at_lone_def using t3 due(2) f(2) ab l clear_periodic
    by (simp add: k4_def rt_enter_critical_def to_s16_id s_def clear_tick)
  then have "soft_loop (stops a b) (rt_tick k) (Row b) k4 = None"
    using lone_loop[OF sl r ab] by (cases "soft_loop (stops a b) (rt_tick k) (Row b) k4") blast+
  moreover have "nxt (tm_links k1) Soft_List = Row a" "nxt (tm_links k1) (Row a) = Row b"
    using d(1) by (simp_all add: dlist_def k1)
  ultimately have "soft_loop (stops a b) (rt_tick k) (nxt (tm_links k1) Soft_List) k1 = None"
    using due(1) by (subst soft_loop.simps) (simp add: k1)
  then show ?thesis by (simp add: rt_soft_timer_check_def Let_def flip: k1_def)
qed

lemma pair_timers:
  "dlist (tm_links pair) Soft_List [Row 0, Row 1]" "tm_obj pair 1 \<noteq> None" "\<not> yields (threads (client pair) 0)"
  "\<not> has_flag RT_TIMER_FLAG_PERIODIC (tm_timer pair m)" "has_flag RT_TIMER_FLAG_ACTIVATED (tm_timer pair m)"
  "rt_tick pair - timeout_tick (tm_timer pair m) < HALF_TICK"
  by (simp_all add: pair_def dlist_def has_flag_def cold_def pair_sched_def pair_thread_def yields_def)

lemma soft_timer_hangs_witness: "rt_soft_timer_check (stops 0 1) pair = Inl No_Return"
  by (rule soft_timer_hangs[of pair pair_lists "{0, 1}" 0]) (use pair_ok pair_top pair_timers in simp_all)

end
