(* ===== verification/Ipc_Objects.thy ===== *)
theory Ipc_Objects
  imports Ipc_Sem
begin

text \<open>
  The IPC objects beside the semaphores (\<open>rt-thread/src/ipc.c\<close>): their data, and what their operations
  share. The state is the kernel with the objects by their numbers; a list of waiting threads has a
  number as well, that of the object for the list in its \<open>parent\<close>, and another one for the list of
  the senders of a mailbox or a message queue.
\<close>

section \<open>The data\<close>

abbreviation (input) RT_EINTR :: int where "RT_EINTR \<equiv> 9"

abbreviation RT_EVENT_FLAG_AND :: u8 where "RT_EVENT_FLAG_AND \<equiv> 1"
abbreviation RT_EVENT_FLAG_OR :: u8 where "RT_EVENT_FLAG_OR \<equiv> 2"
abbreviation RT_EVENT_FLAG_CLEAR :: u8 where "RT_EVENT_FLAG_CLEAR \<equiv> 4"

record rt_mutex =
  mtx_static :: bool
  mtx_flag :: u8
  mtx_value :: u16
  original_priority :: u8
  mtx_hold :: u8
  mtx_owner :: "nat option"

record rt_event =
  ev_static :: bool
  ev_flag :: u8
  ev_set :: u32

record rt_mailbox =
  mb_static :: bool
  mb_flag :: u8
  mb_pool :: "u32 list"
  mb_size :: u16
  mb_entry :: u16
  mb_in :: u16
  mb_out :: u16
  mb_senders :: nat

text \<open>The messages of a queue are the slots of its pool, by their numbers; each has its link and its
  bytes.\<close>

record rt_messagequeue =
  mq_static :: bool
  mq_flag :: u8
  mq_next :: "nat \<Rightarrow> nat option"
  mq_data :: "nat \<Rightarrow> u8 list"
  mq_msg_size :: u16
  mq_max_msgs :: u16
  mq_entry :: u16
  mq_head :: "nat option"
  mq_tail :: "nat option"
  mq_free :: "nat option"
  mq_senders :: nat

text \<open>\<open>event_set\<close> and \<open>event_info\<close> are fields of the thread.\<close>

record ipc =
  kern :: kernel
  mutexes :: "nat \<Rightarrow> rt_mutex option"
  events :: "nat \<Rightarrow> rt_event option"
  mailboxes :: "nat \<Rightarrow> rt_mailbox option"
  queues :: "nat \<Rightarrow> rt_messagequeue option"
  event_set :: "nat \<Rightarrow> u32"
  event_info :: "nat \<Rightarrow> u8"

definition on_kern :: "(kernel \<Rightarrow> kernel res) \<Rightarrow> ipc \<Rightarrow> ipc res" where
  "on_kern f S = bindE (f (kern S)) (\<lambda>k. Inr (S\<lparr>kern := k\<rparr>))"

definition upd_kern :: "(kernel \<Rightarrow> kernel) \<Rightarrow> ipc \<Rightarrow> ipc" where
  "upd_kern f S = S\<lparr>kern := f (kern S)\<rparr>"

section \<open>What the operations share\<close>

text \<open>\<open>RT_DEBUG_IN_THREAD_CONTEXT\<close>, with the current thread.\<close>

definition in_thread_context :: "kernel \<Rightarrow> nat res" where
  "in_thread_context k = bindE (self_thread k) (\<lambda>t. bindE (not_in_interrupt k) (\<lambda>_. Inr t))"

definition set_error :: "nat \<Rightarrow> int \<Rightarrow> kernel \<Rightarrow> kernel" where
  "set_error t e = upd_sched (upd_thread t (\<lambda>th. th\<lparr>th_error := e\<rparr>))"

text \<open>\<open>rt_ipc_object_init\<close>.\<close>

definition rt_ipc_object_init :: "nat \<Rightarrow> kernel \<Rightarrow> kernel" where
  "rt_ipc_object_init h = upd_sched (upd_sc_links (rt_list_init (Waiters h)))"

text \<open>A thread goes into the list of waiting threads, starts its timer when there is a limit, and gives
  up the processor.\<close>

definition wait_in :: "nat \<Rightarrow> nat \<Rightarrow> u8 \<Rightarrow> int \<Rightarrow> kernel \<Rightarrow> kernel res" where
  "wait_in h t flag time k =
     bindE (rt_ipc_list_suspend (Waiters h) t flag k) (\<lambda>k1.
     bindE (if time > 0 then start_thread_timer t (to_u32 time) k1 else Inr k1) (on_sched rt_schedule))"

text \<open>The first thread of a list goes on, if there is one.\<close>

definition nobody_in :: "nat \<Rightarrow> kernel \<Rightarrow> bool" where
  "nobody_in h k = rt_list_isempty (Waiters h) (sc_links (client k))"

definition wake_in :: "nat \<Rightarrow> kernel \<Rightarrow> kernel res" where
  "wake_in h k = bindE (rt_ipc_list_resume (Waiters h) k) (on_sched rt_schedule)"

definition wake_all :: "nat \<Rightarrow> kernel \<Rightarrow> kernel res" where
  "wake_all h k = returns (rt_ipc_list_resume_all (Waiters h) k)"

text \<open>What is left of a limit when the thread runs again: \<open>timeout -= tick_delta\<close> at the width of the
  signed \<open>timeout\<close>, and not below 0.\<close>

definition time_left :: "int \<Rightarrow> u32 \<Rightarrow> u32 \<Rightarrow> int" where
  "time_left timeout start now =
     (if timeout > 0 then max 0 (sint (to_u32 timeout - (now - start))) else timeout)"

section \<open>Mutexes\<close>

definition upd_mutex :: "nat \<Rightarrow> (rt_mutex \<Rightarrow> rt_mutex) \<Rightarrow> ipc \<Rightarrow> ipc" where
  "upd_mutex i f S = S\<lparr>mutexes := (mutexes S)(i := map_option f (mutexes S i))\<rparr>"

definition get_mutex :: "nat \<Rightarrow> ipc \<Rightarrow> rt_mutex res" where
  "get_mutex i S = (case mutexes S i of None \<Rightarrow> Inl Assert_Failed | Some m \<Rightarrow> Inr m)"

definition mutex_obj_init :: "nat \<Rightarrow> bool \<Rightarrow> u8 \<Rightarrow> ipc \<Rightarrow> ipc" where
  "mutex_obj_init i static flag S =
     upd_kern (rt_ipc_object_init i) (S\<lparr>mutexes := (mutexes S)(i \<mapsto> \<lparr>mtx_static = static, mtx_flag = flag,
       mtx_value = 1, original_priority = 0xFF, mtx_hold = 0, mtx_owner = None\<rparr>)\<rparr>)"

definition rt_mutex_init :: "nat \<Rightarrow> u8 \<Rightarrow> ipc \<Rightarrow> int \<times> ipc" where
  "rt_mutex_init i flag S = (RT_EOK, mutex_obj_init i True flag S)"

definition rt_mutex_create :: "nat option \<Rightarrow> u8 \<Rightarrow> ipc \<Rightarrow> (nat option \<times> ipc) res" where
  "rt_mutex_create alloc flag S =
     bindE (not_in_interrupt (kern S)) (\<lambda>_.
     case alloc of None \<Rightarrow> Inr (None, S) | Some i \<Rightarrow> Inr (Some i, mutex_obj_init i False flag S))"

definition rt_mutex_detach :: "nat \<Rightarrow> ipc \<Rightarrow> (int \<times> ipc) res" where
  "rt_mutex_detach i S =
     bindE (get_mutex i S) (\<lambda>m.
     bindE (assertE (mtx_static m)) (\<lambda>_.
     bindE (on_kern (wake_all i) S) (\<lambda>S1. Inr (RT_EOK, S1\<lparr>mutexes := (mutexes S1)(i := None)\<rparr>))))"

definition rt_mutex_delete :: "nat \<Rightarrow> ipc \<Rightarrow> (int \<times> ipc) res" where
  "rt_mutex_delete i S =
     bindE (not_in_interrupt (kern S)) (\<lambda>_.
     bindE (get_mutex i S) (\<lambda>m.
     bindE (assertE (\<not> mtx_static m)) (\<lambda>_.
     bindE (on_kern (wake_all i) S) (\<lambda>S1. Inr (RT_EOK, S1\<lparr>mutexes := (mutexes S1)(i := None)\<rparr>)))))"

text \<open>\<open>rt_thread_control\<close> with \<open>RT_THREAD_CTRL_CHANGE_PRIORITY\<close>; its result is not used.\<close>

definition give_priority :: "nat \<Rightarrow> u8 \<Rightarrow> kernel \<Rightarrow> kernel res" where
  "give_priority t p k = bindE (rt_thread_control t (Change_Priority p) k) (\<lambda>(_, k1). Inr k1)"

text \<open>From the label \<open>__again\<close>: the mutex is free, or the thread waits for it; the owner gets the
  priority of a thread of a higher one that waits.\<close>

definition mutex_again :: "nat \<Rightarrow> nat \<Rightarrow> int \<Rightarrow> ipc \<Rightarrow> (outcome \<times> ipc) res" where
  "mutex_again i t time S =
     bindE (get_mutex i S) (\<lambda>m.
     let p = current_priority (threads (client (kern S)) t) in
     if mtx_value m > 0
     then Inr (Returned RT_EOK, upd_mutex i (\<lambda>m. m\<lparr>mtx_value := mtx_value m - 1, mtx_owner := Some t,
            original_priority := p, mtx_hold := mtx_hold m + 1\<rparr>) S)
     else if time = 0 then Inr (Returned (- RT_ETIMEOUT), upd_kern (set_error t (- RT_ETIMEOUT)) S)
     else (case mtx_owner m of
         None \<Rightarrow> Inl Null_Deref
       | Some ow \<Rightarrow>
           bindE (if p < current_priority (threads (client (kern S)) ow) then on_kern (give_priority ow p) S else Inr S)
             (\<lambda>S1. bindE (on_kern (wait_in i t (mtx_flag m) time) S1) (\<lambda>S2. Inr (Waits, S2)))))"

definition rt_mutex_take :: "nat \<Rightarrow> int \<Rightarrow> ipc \<Rightarrow> (outcome \<times> ipc) res" where
  "rt_mutex_take i time S =
     bindE (in_thread_context (kern S)) (\<lambda>t.
     bindE (get_mutex i S) (\<lambda>m.
     let S1 = upd_kern (set_error t RT_EOK) S in
     if mtx_owner m = Some t
     then Inr (Returned RT_EOK, upd_mutex i (\<lambda>m. m\<lparr>mtx_hold := mtx_hold m + 1\<rparr>) S1)
     else mutex_again i t time S1))"

definition rt_mutex_take_back :: "nat \<Rightarrow> nat \<Rightarrow> int \<Rightarrow> ipc \<Rightarrow> (outcome \<times> ipc) res" where
  "rt_mutex_take_back i t time S =
     (let e = th_error (threads (client (kern S)) t) in
      if e = - RT_EINTR then mutex_again i t time S else Inr (Returned e, S))"

definition rt_mutex_release :: "nat \<Rightarrow> ipc \<Rightarrow> (int \<times> ipc) res" where
  "rt_mutex_release i S =
     bindE (get_mutex i S) (\<lambda>m.
     bindE (in_thread_context (kern S)) (\<lambda>t.
     if mtx_owner m \<noteq> Some t then Inr (- RT_ERROR, upd_kern (set_error t (- RT_ERROR)) S)
     else
       let S1 = upd_mutex i (\<lambda>m. m\<lparr>mtx_hold := mtx_hold m - 1\<rparr>) S in
       if mtx_hold m - 1 \<noteq> 0 then Inr (RT_EOK, S1)
       else
         bindE (if original_priority m \<noteq> current_priority (threads (client (kern S1)) t)
                then on_kern (give_priority t (original_priority m)) S1 else Inr S1) (\<lambda>S2.
         if \<not> nobody_in i (kern S2)
         then (case nxt (sc_links (client (kern S2))) (Waiters i) of
             Thread w \<Rightarrow>
               let S3 = upd_mutex i (\<lambda>m. m\<lparr>mtx_owner := Some w, mtx_hold := mtx_hold m + 1,
                          original_priority := current_priority (threads (client (kern S2)) w)\<rparr>) S2 in
               bindE (on_kern (wake_in i) S3) (\<lambda>S4. Inr (RT_EOK, S4))
           | _ \<Rightarrow> Inl Out_Of_Bounds)
         else Inr (RT_EOK, upd_mutex i (\<lambda>m. m\<lparr>mtx_value := mtx_value m + 1, mtx_owner := None,
                original_priority := 0xff\<rparr>) S2))))"

definition rt_mutex_control :: "nat \<Rightarrow> ipc \<Rightarrow> (int \<times> ipc) res" where
  "rt_mutex_control i S = bindE (get_mutex i S) (\<lambda>_. Inr (- RT_ERROR, S))"

end
