(* ===== verification/Ipc_Comm.thy ===== *)
theory Ipc_Comm
  imports Ipc_Objects
begin

text \<open>
  Events, mailboxes and message queues (\<open>rt-thread/src/ipc.c\<close>). A call that waits is split where its
  thread gives up the processor; the part behind is the definition \<open>\<dots>_back\<close>, which gets the limit
  the call had and the tick at which it began to wait.
\<close>

section \<open>Events\<close>

definition upd_event :: "nat \<Rightarrow> (rt_event \<Rightarrow> rt_event) \<Rightarrow> ipc \<Rightarrow> ipc" where
  "upd_event i f S = S\<lparr>events := (events S)(i := map_option f (events S i))\<rparr>"

definition get_event :: "nat \<Rightarrow> ipc \<Rightarrow> rt_event res" where
  "get_event i S = (case events S i of None \<Rightarrow> Inl Assert_Failed | Some ev \<Rightarrow> Inr ev)"

definition event_obj_init :: "nat \<Rightarrow> bool \<Rightarrow> u8 \<Rightarrow> ipc \<Rightarrow> ipc" where
  "event_obj_init i static flag S =
     upd_kern (rt_ipc_object_init i) (S\<lparr>events := (events S)(i \<mapsto> \<lparr>ev_static = static, ev_flag = flag, ev_set = 0\<rparr>)\<rparr>)"

definition rt_event_init :: "nat \<Rightarrow> u8 \<Rightarrow> ipc \<Rightarrow> int \<times> ipc" where
  "rt_event_init i flag S = (RT_EOK, event_obj_init i True flag S)"

definition rt_event_create :: "nat option \<Rightarrow> u8 \<Rightarrow> ipc \<Rightarrow> (nat option \<times> ipc) res" where
  "rt_event_create alloc flag S =
     bindE (not_in_interrupt (kern S)) (\<lambda>_.
     case alloc of None \<Rightarrow> Inr (None, S) | Some i \<Rightarrow> Inr (Some i, event_obj_init i False flag S))"

definition rt_event_detach :: "nat \<Rightarrow> ipc \<Rightarrow> (int \<times> ipc) res" where
  "rt_event_detach i S =
     bindE (get_event i S) (\<lambda>ev.
     bindE (assertE (ev_static ev)) (\<lambda>_.
     bindE (on_kern (wake_all i) S) (\<lambda>S1. Inr (RT_EOK, S1\<lparr>events := (events S1)(i := None)\<rparr>))))"

definition rt_event_delete :: "nat \<Rightarrow> ipc \<Rightarrow> (int \<times> ipc) res" where
  "rt_event_delete i S =
     bindE (get_event i S) (\<lambda>ev.
     bindE (assertE (\<not> ev_static ev)) (\<lambda>_.
     bindE (not_in_interrupt (kern S)) (\<lambda>_.
     bindE (on_kern (wake_all i) S) (\<lambda>S1. Inr (RT_EOK, S1\<lparr>events := (events S1)(i := None)\<rparr>)))))"

text \<open>Whether a thread that waits for \<open>wanted\<close> goes on when \<open>set\<close> is there; for one that waits for any of
  its events, what it got takes the place of what it waits for.\<close>

definition event_got :: "u8 \<Rightarrow> u32 \<Rightarrow> u32 \<Rightarrow> bool \<times> u32" where
  "event_got info wanted es =
     (if info AND RT_EVENT_FLAG_AND \<noteq> 0 then (wanted AND es = wanted, wanted)
      else if info AND RT_EVENT_FLAG_OR \<noteq> 0
      then (if wanted AND es \<noteq> 0 then (True, wanted AND es) else (False, wanted))
      else (False, wanted))"

text \<open>The walk over the waiting threads; the flag is \<open>need_schedule\<close>.\<close>

partial_function (option) event_walk :: "nat \<Rightarrow> snode \<Rightarrow> bool \<Rightarrow> ipc \<Rightarrow> (bool \<times> ipc) res option" where
  "event_walk i n need S =
     (if n = Waiters i then Some (Inr (need, S))
      else (case (n, events S i) of
          (Thread t, Some ev) \<Rightarrow>
            (let (got, got_set) = event_got (event_info S t) (event_set S t) (ev_set ev);
                 S1 = S\<lparr>event_set := (event_set S)(t := got_set)\<rparr>;
                 n' = nxt (sc_links (client (kern S))) n in
             if got
             then (let S2 = (if event_info S t AND RT_EVENT_FLAG_CLEAR \<noteq> 0
                             then upd_event i (\<lambda>ev. ev\<lparr>ev_set := ev_set ev AND NOT got_set\<rparr>) S1 else S1) in
                   case rt_thread_resume t (kern S2) of
                     Inl e \<Rightarrow> Some (Inl e)
                   | Inr (_, k) \<Rightarrow> event_walk i n' True (S2\<lparr>kern := k\<rparr>))
             else event_walk i n' need S1)
        | _ \<Rightarrow> Some (Inl Out_Of_Bounds)))"

definition rt_event_send :: "nat \<Rightarrow> u32 \<Rightarrow> ipc \<Rightarrow> (int \<times> ipc) res" where
  "rt_event_send i es S =
     bindE (get_event i S) (\<lambda>_.
     if es = 0 then Inr (- RT_ERROR, S)
     else
       let S1 = upd_event i (\<lambda>ev. ev\<lparr>ev_set := ev_set ev OR es\<rparr>) S in
       bindE (if \<not> nobody_in i (kern S1)
              then returns (event_walk i (nxt (sc_links (client (kern S1))) (Waiters i)) False S1)
              else Inr (False, S1)) (\<lambda>(need, S2).
       bindE (if need then on_kern (on_sched rt_schedule) S2 else Inr S2) (\<lambda>S3. Inr (RT_EOK, S3))))"

text \<open>The result has what \<open>*recved\<close> is es to, if it is.\<close>

definition rt_event_recv :: "nat \<Rightarrow> u32 \<Rightarrow> u8 \<Rightarrow> int \<Rightarrow> ipc \<Rightarrow> (outcome \<times> u32 option \<times> ipc) res" where
  "rt_event_recv i es opt timeout S =
     bindE (in_thread_context (kern S)) (\<lambda>t.
     bindE (get_event i S) (\<lambda>ev.
     if es = 0 then Inr (Returned (- RT_ERROR), None, S)
     else
       let S1 = upd_kern (set_error t RT_EOK) S in
       bindE (if opt AND RT_EVENT_FLAG_AND \<noteq> 0 then Inr (ev_set ev AND es = es)
              else if opt AND RT_EVENT_FLAG_OR \<noteq> 0 then Inr (ev_set ev AND es \<noteq> 0)
              else Inl Assert_Failed) (\<lambda>ok.
       if ok
       then Inr (Returned RT_EOK, Some (ev_set ev AND es),
              if opt AND RT_EVENT_FLAG_CLEAR \<noteq> 0 then upd_event i (\<lambda>ev. ev\<lparr>ev_set := ev_set ev AND NOT es\<rparr>) S1 else S1)
       else if timeout = 0
       then Inr (Returned (- RT_ETIMEOUT), None, upd_kern (set_error t (- RT_ETIMEOUT)) S1)
       else
         let S2 = S1\<lparr>event_set := (event_set S1)(t := es), event_info := (event_info S1)(t := opt)\<rparr> in
         bindE (on_kern (wait_in i t (ev_flag ev) timeout) S2) (\<lambda>S3. Inr (Waits, None, S3)))))"

definition rt_event_recv_back :: "nat \<Rightarrow> ipc \<Rightarrow> int \<times> u32 option" where
  "rt_event_recv_back t S =
     (let e = th_error (threads (client (kern S)) t) in
      if e \<noteq> RT_EOK then (e, None) else (e, Some (event_set S t)))"

text \<open>The reset command, or another one.\<close>

definition rt_event_control :: "nat \<Rightarrow> bool \<Rightarrow> ipc \<Rightarrow> (int \<times> ipc) res" where
  "rt_event_control i reset S =
     bindE (get_event i S) (\<lambda>_.
     if reset
     then bindE (on_kern (wake_all i) S) (\<lambda>S1.
          bindE (on_kern (on_sched rt_schedule) (upd_event i (\<lambda>ev. ev\<lparr>ev_set := 0\<rparr>) S1)) (\<lambda>S2. Inr (RT_EOK, S2)))
     else Inr (- RT_ERROR, S))"

section \<open>Mailboxes\<close>

definition upd_mb :: "nat \<Rightarrow> (rt_mailbox \<Rightarrow> rt_mailbox) \<Rightarrow> ipc \<Rightarrow> ipc" where
  "upd_mb i f S = S\<lparr>mailboxes := (mailboxes S)(i := map_option f (mailboxes S i))\<rparr>"

definition get_mb :: "nat \<Rightarrow> ipc \<Rightarrow> rt_mailbox res" where
  "get_mb i S = (case mailboxes S i of None \<Rightarrow> Inl Assert_Failed | Some mb \<Rightarrow> Inr mb)"

text \<open>\<open>senders\<close> is the number of the list of the senders, \<open>pool\<close> the words the pool holds; the size is
  stored in 16 bits.\<close>

definition mb_obj_init :: "nat \<Rightarrow> nat \<Rightarrow> bool \<Rightarrow> u32 list \<Rightarrow> u32 \<Rightarrow> u8 \<Rightarrow> ipc \<Rightarrow> ipc" where
  "mb_obj_init i senders static pool sz flag S =
     upd_kern (rt_ipc_object_init senders) (upd_kern (rt_ipc_object_init i)
       (S\<lparr>mailboxes := (mailboxes S)(i \<mapsto> \<lparr>mb_static = static, mb_flag = flag, mb_pool = pool, mb_size = ucast sz,
          mb_entry = 0, mb_in = 0, mb_out = 0, mb_senders = senders\<rparr>)\<rparr>))"

definition rt_mb_init :: "nat \<Rightarrow> nat \<Rightarrow> u32 list \<Rightarrow> u32 \<Rightarrow> u8 \<Rightarrow> ipc \<Rightarrow> int \<times> ipc" where
  "rt_mb_init i senders pool sz flag S = (RT_EOK, mb_obj_init i senders True pool sz flag S)"

text \<open>The allocations of the object and of its pool are arguments.\<close>

definition rt_mb_create :: "(nat \<times> nat) option \<Rightarrow> u32 list option \<Rightarrow> u32 \<Rightarrow> u8 \<Rightarrow> ipc \<Rightarrow> (nat option \<times> ipc) res" where
  "rt_mb_create obj pool sz flag S =
     bindE (not_in_interrupt (kern S)) (\<lambda>_.
     case obj of None \<Rightarrow> Inr (None, S)
     | Some (i, senders) \<Rightarrow>
         (case pool of None \<Rightarrow> Inr (None, upd_kern (rt_ipc_object_init i) S)
          | Some ws \<Rightarrow> Inr (Some i, mb_obj_init i senders False ws sz flag S)))"

definition rt_mb_detach :: "nat \<Rightarrow> ipc \<Rightarrow> (int \<times> ipc) res" where
  "rt_mb_detach i S =
     bindE (get_mb i S) (\<lambda>mb.
     bindE (assertE (mb_static mb)) (\<lambda>_.
     bindE (on_kern (wake_all i) S) (\<lambda>S1.
     bindE (on_kern (wake_all (mb_senders mb)) S1) (\<lambda>S2.
     Inr (RT_EOK, S2\<lparr>mailboxes := (mailboxes S2)(i := None)\<rparr>)))))"

definition rt_mb_delete :: "nat \<Rightarrow> ipc \<Rightarrow> (int \<times> ipc) res" where
  "rt_mb_delete i S =
     bindE (not_in_interrupt (kern S)) (\<lambda>_.
     bindE (get_mb i S) (\<lambda>mb.
     bindE (assertE (\<not> mb_static mb)) (\<lambda>_.
     bindE (on_kern (wake_all i) S) (\<lambda>S1.
     bindE (on_kern (wake_all (mb_senders mb)) S1) (\<lambda>S2.
     Inr (RT_EOK, S2\<lparr>mailboxes := (mailboxes S2)(i := None)\<rparr>))))))"

text \<open>The write to the pool and the step of the offset; the read and its step.\<close>

definition mb_put :: "u32 \<Rightarrow> rt_mailbox \<Rightarrow> rt_mailbox res" where
  "mb_put v mb =
     (if unat (mb_in mb) < length (mb_pool mb)
      then Inr (mb\<lparr>mb_pool := (mb_pool mb)[unat (mb_in mb) := v],
             mb_in := (if mb_in mb + 1 \<ge> mb_size mb then 0 else mb_in mb + 1), mb_entry := mb_entry mb + 1\<rparr>)
      else Inl Out_Of_Bounds)"

definition mb_get :: "rt_mailbox \<Rightarrow> (u32 \<times> rt_mailbox) res" where
  "mb_get mb =
     (if unat (mb_out mb) < length (mb_pool mb)
      then Inr (mb_pool mb ! unat (mb_out mb), mb\<lparr>mb_out := (if mb_out mb + 1 \<ge> mb_size mb then 0 else mb_out mb + 1),
             mb_entry := mb_entry mb - 1\<rparr>)
      else Inl Out_Of_Bounds)"

text \<open>The loop from its head: wait for room, or store the mail and let a receiver go on.\<close>

definition mb_send_loop :: "nat \<Rightarrow> u32 \<Rightarrow> int \<Rightarrow> ipc \<Rightarrow> (outcome \<times> ipc) res" where
  "mb_send_loop i v timeout S =
     bindE (get_mb i S) (\<lambda>mb.
     if mb_entry mb = mb_size mb
     then (case current_thread (client (kern S)) of
         None \<Rightarrow> Inl Null_Deref
       | Some t \<Rightarrow>
           let S1 = upd_kern (set_error t RT_EOK) S in
           if timeout = 0 then Inr (Returned (- RT_EFULL), S1)
           else bindE (in_thread_context (kern S1)) (\<lambda>_.
                bindE (on_kern (wait_in (mb_senders mb) t (mb_flag mb) timeout) S1) (\<lambda>S2. Inr (Waits, S2))))
     else
       bindE (mb_put v mb) (\<lambda>mb1.
       let S1 = upd_mb i (\<lambda>_. mb1) S in
       if \<not> nobody_in i (kern S1)
       then bindE (on_kern (wake_in i) S1) (\<lambda>S2. Inr (Returned RT_EOK, S2))
       else Inr (Returned RT_EOK, S1)))"

definition rt_mb_send_wait :: "nat \<Rightarrow> u32 \<Rightarrow> int \<Rightarrow> ipc \<Rightarrow> (outcome \<times> ipc) res" where
  "rt_mb_send_wait i v timeout S =
     bindE (get_mb i S) (\<lambda>mb.
     if mb_entry mb = mb_size mb \<and> timeout = 0 then Inr (Returned (- RT_EFULL), S)
     else mb_send_loop i v timeout S)"

definition rt_mb_send_back :: "nat \<Rightarrow> nat \<Rightarrow> u32 \<Rightarrow> int \<Rightarrow> u32 \<Rightarrow> ipc \<Rightarrow> (outcome \<times> ipc) res" where
  "rt_mb_send_back t i v timeout start S =
     (let e = th_error (threads (client (kern S)) t) in
      if e \<noteq> RT_EOK then Inr (Returned e, S)
      else mb_send_loop i v (time_left timeout start (rt_tick (kern S))) S)"

definition rt_mb_send :: "nat \<Rightarrow> u32 \<Rightarrow> ipc \<Rightarrow> (outcome \<times> ipc) res" where
  "rt_mb_send i v S = rt_mb_send_wait i v 0 S"

definition mb_recv_loop :: "nat \<Rightarrow> int \<Rightarrow> ipc \<Rightarrow> (outcome \<times> u32 option \<times> ipc) res" where
  "mb_recv_loop i timeout S =
     bindE (get_mb i S) (\<lambda>mb.
     if mb_entry mb = 0
     then (case current_thread (client (kern S)) of
         None \<Rightarrow> Inl Null_Deref
       | Some t \<Rightarrow>
           if timeout = 0 then Inr (Returned (- RT_ETIMEOUT), None, upd_kern (set_error t (- RT_ETIMEOUT)) S)
           else
             let S1 = upd_kern (set_error t RT_EOK) S in
             bindE (in_thread_context (kern S1)) (\<lambda>_.
             bindE (on_kern (wait_in i t (mb_flag mb) timeout) S1) (\<lambda>S2. Inr (Waits, None, S2))))
     else
       bindE (mb_get mb) (\<lambda>(v, mb1).
       let S1 = upd_mb i (\<lambda>_. mb1) S in
       if \<not> nobody_in (mb_senders mb) (kern S1)
       then bindE (on_kern (wake_in (mb_senders mb)) S1) (\<lambda>S2. Inr (Returned RT_EOK, Some v, S2))
       else Inr (Returned RT_EOK, Some v, S1)))"

definition rt_mb_recv :: "nat \<Rightarrow> int \<Rightarrow> ipc \<Rightarrow> (outcome \<times> u32 option \<times> ipc) res" where
  "rt_mb_recv i timeout S =
     bindE (get_mb i S) (\<lambda>mb.
     if mb_entry mb = 0 \<and> timeout = 0 then Inr (Returned (- RT_ETIMEOUT), None, S)
     else mb_recv_loop i timeout S)"

definition rt_mb_recv_back :: "nat \<Rightarrow> nat \<Rightarrow> int \<Rightarrow> u32 \<Rightarrow> ipc \<Rightarrow> (outcome \<times> u32 option \<times> ipc) res" where
  "rt_mb_recv_back t i timeout start S =
     (let e = th_error (threads (client (kern S)) t) in
      if e \<noteq> RT_EOK then Inr (Returned e, None, S)
      else mb_recv_loop i (time_left timeout start (rt_tick (kern S))) S)"

definition rt_mb_control :: "nat \<Rightarrow> bool \<Rightarrow> ipc \<Rightarrow> (int \<times> ipc) res" where
  "rt_mb_control i reset S =
     bindE (get_mb i S) (\<lambda>mb.
     if reset
     then bindE (on_kern (wake_all i) S) (\<lambda>S1.
          bindE (on_kern (wake_all (mb_senders mb)) S1) (\<lambda>S2.
          bindE (on_kern (on_sched rt_schedule)
              (upd_mb i (\<lambda>mb. mb\<lparr>mb_entry := 0, mb_in := 0, mb_out := 0\<rparr>) S2)) (\<lambda>S3. Inr (RT_EOK, S3))))
     else Inr (- RT_ERROR, S))"

end
