(* ===== verification/Ipc_Mq.thy ===== *)
theory Ipc_Mq
  imports Ipc_Comm
begin

text \<open>
  Message queues (\<open>rt-thread/src/ipc.c\<close>): the slots of a pool, each in the list of the free ones or in
  that of the messages. The interrupts are enabled while the bytes of a message are copied; its slot is
  then in neither list, and the two stretches around the copying are one step here.
\<close>

definition upd_mq :: "nat \<Rightarrow> (rt_messagequeue \<Rightarrow> rt_messagequeue) \<Rightarrow> ipc \<Rightarrow> ipc" where
  "upd_mq i f S = S\<lparr>queues := (queues S)(i := map_option f (queues S i))\<rparr>"

definition get_mq :: "nat \<Rightarrow> ipc \<Rightarrow> rt_messagequeue res" where
  "get_mq i S = (case queues S i of None \<Rightarrow> Inl Assert_Failed | Some mq \<Rightarrow> Inr mq)"

definition set_mnext :: "nat \<Rightarrow> nat option \<Rightarrow> rt_messagequeue \<Rightarrow> rt_messagequeue" where
  "set_mnext n v mq = mq\<lparr>mq_next := (mq_next mq)(n := v)\<rparr>"

section \<open>Creation\<close>

text \<open>The loop over the slots puts each one in front of the free list.\<close>

definition free_slots :: "nat \<Rightarrow> rt_messagequeue \<Rightarrow> rt_messagequeue" where
  "free_slots n mq = fold (\<lambda>j mq. (set_mnext j (mq_free mq) mq)\<lparr>mq_free := Some j\<rparr>) [0..<n] mq"

definition new_mq :: "nat \<Rightarrow> bool \<Rightarrow> (nat \<Rightarrow> u8 list) \<Rightarrow> u16 \<Rightarrow> u16 \<Rightarrow> u8 \<Rightarrow> rt_messagequeue" where
  "new_mq senders static data msz maxm flag =
     free_slots (unat maxm) \<lparr>mq_static = static, mq_flag = flag, mq_next = \<lambda>_. None, mq_data = data,
       mq_msg_size = msz, mq_max_msgs = maxm, mq_entry = 0, mq_head = None, mq_tail = None, mq_free = None,
       mq_senders = senders\<rparr>"

definition mq_obj_init :: "nat \<Rightarrow> nat \<Rightarrow> rt_messagequeue \<Rightarrow> ipc \<Rightarrow> ipc" where
  "mq_obj_init i senders mq S =
     upd_kern (rt_ipc_object_init senders) (upd_kern (rt_ipc_object_init i) (S\<lparr>queues := (queues S)(i \<mapsto> mq)\<rparr>))"

text \<open>\<open>RT_ALIGN_SIZE\<close> and the link in front of a message are 4 bytes; sizes are stored in 16 bits. The
  argument \<open>data\<close> is what the slots of the pool hold.\<close>

definition rt_mq_init :: "nat \<Rightarrow> nat \<Rightarrow> (nat \<Rightarrow> u8 list) \<Rightarrow> u32 \<Rightarrow> u32 \<Rightarrow> u8 \<Rightarrow> ipc \<Rightarrow> int \<times> ipc" where
  "rt_mq_init i senders data msg_size pool_size flag S =
     (let msz = ucast ((msg_size + 3) AND NOT 3) :: u16;
          maxm = ucast (pool_size div (ucast msz + 4)) :: u16 in
      (RT_EOK, mq_obj_init i senders (new_mq senders True data msz maxm flag) S))"

definition rt_mq_create ::
    "(nat \<times> nat) option \<Rightarrow> (nat \<Rightarrow> u8 list) option \<Rightarrow> u32 \<Rightarrow> u32 \<Rightarrow> u8 \<Rightarrow> ipc \<Rightarrow> (nat option \<times> ipc) res" where
  "rt_mq_create obj pool msg_size max_msgs flag S =
     bindE (not_in_interrupt (kern S)) (\<lambda>_.
     case obj of None \<Rightarrow> Inr (None, S)
     | Some (i, senders) \<Rightarrow>
         (case pool of None \<Rightarrow> Inr (None, upd_kern (rt_ipc_object_init i) S)
          | Some data \<Rightarrow> Inr (Some i, mq_obj_init i senders
              (new_mq senders False data (ucast ((msg_size + 3) AND NOT 3)) (ucast max_msgs) flag) S)))"

definition rt_mq_detach :: "nat \<Rightarrow> ipc \<Rightarrow> (int \<times> ipc) res" where
  "rt_mq_detach i S =
     bindE (get_mq i S) (\<lambda>mq.
     bindE (assertE (mq_static mq)) (\<lambda>_.
     bindE (on_kern (wake_all i) S) (\<lambda>S1.
     bindE (on_kern (wake_all (mq_senders mq)) S1) (\<lambda>S2.
     Inr (RT_EOK, S2\<lparr>queues := (queues S2)(i := None)\<rparr>)))))"

definition rt_mq_delete :: "nat \<Rightarrow> ipc \<Rightarrow> (int \<times> ipc) res" where
  "rt_mq_delete i S =
     bindE (not_in_interrupt (kern S)) (\<lambda>_.
     bindE (get_mq i S) (\<lambda>mq.
     bindE (assertE (\<not> mq_static mq)) (\<lambda>_.
     bindE (on_kern (wake_all i) S) (\<lambda>S1.
     bindE (on_kern (wake_all (mq_senders mq)) S1) (\<lambda>S2.
     Inr (RT_EOK, S2\<lparr>queues := (queues S2)(i := None)\<rparr>))))))"

section \<open>The lists of slots\<close>

text \<open>A free slot is taken, and its bytes are written; it goes to the end of the messages, or to their
  front.\<close>

definition mq_take_free :: "rt_messagequeue \<Rightarrow> (nat \<times> rt_messagequeue) option" where
  "mq_take_free mq = (case mq_free mq of None \<Rightarrow> None | Some n \<Rightarrow> Some (n, mq\<lparr>mq_free := mq_next mq n\<rparr>))"

definition mq_copy :: "nat \<Rightarrow> u8 list \<Rightarrow> rt_messagequeue \<Rightarrow> rt_messagequeue" where
  "mq_copy n buf mq = mq\<lparr>mq_data := (mq_data mq)(n := buf @ drop (length buf) (mq_data mq n))\<rparr>"

definition mq_append :: "nat \<Rightarrow> rt_messagequeue \<Rightarrow> rt_messagequeue" where
  "mq_append n mq =
     (let mq1 = (case mq_tail mq of None \<Rightarrow> mq | Some l \<Rightarrow> set_mnext l (Some n) mq);
          mq2 = mq1\<lparr>mq_tail := Some n\<rparr>;
          mq3 = (if mq_head mq2 = None then mq2\<lparr>mq_head := Some n\<rparr> else mq2) in
      mq3\<lparr>mq_entry := mq_entry mq3 + 1\<rparr>)"

definition mq_prepend :: "nat \<Rightarrow> rt_messagequeue \<Rightarrow> rt_messagequeue" where
  "mq_prepend n mq =
     (let mq1 = (set_mnext n (mq_head mq) mq)\<lparr>mq_head := Some n\<rparr>;
          mq2 = (if mq_tail mq1 = None then mq1\<lparr>mq_tail := Some n\<rparr> else mq1) in
      mq2\<lparr>mq_entry := mq_entry mq2 + 1\<rparr>)"

text \<open>The first message leaves the list; its slot becomes free.\<close>

definition mq_unlink :: "rt_messagequeue \<Rightarrow> (nat \<times> rt_messagequeue) res" where
  "mq_unlink mq =
     (case mq_head mq of None \<Rightarrow> Inl Null_Deref
      | Some n \<Rightarrow>
          let mq1 = mq\<lparr>mq_head := mq_next mq n\<rparr> in
          Inr (n, if mq_tail mq1 = Some n then mq1\<lparr>mq_tail := None\<rparr> else mq1))"

definition mq_release :: "nat \<Rightarrow> rt_messagequeue \<Rightarrow> rt_messagequeue" where
  "mq_release n mq = (set_mnext n (mq_free mq) mq)\<lparr>mq_free := Some n\<rparr>"

section \<open>Sending and receiving\<close>

definition mq_store :: "nat \<Rightarrow> rt_messagequeue \<Rightarrow> ipc \<Rightarrow> (outcome \<times> ipc) res" where
  "mq_store i mq S =
     (let S1 = upd_mq i (\<lambda>_. mq) S in
      if \<not> nobody_in i (kern S1)
      then bindE (on_kern (wake_in i) S1) (\<lambda>S2. Inr (Returned RT_EOK, S2))
      else Inr (Returned RT_EOK, S1))"

definition mq_send_loop :: "nat \<Rightarrow> u8 list \<Rightarrow> int \<Rightarrow> ipc \<Rightarrow> (outcome \<times> ipc) res" where
  "mq_send_loop i buf timeout S =
     bindE (get_mq i S) (\<lambda>mq.
     case mq_take_free mq of
       None \<Rightarrow>
         (case current_thread (client (kern S)) of
            None \<Rightarrow> Inl Null_Deref
          | Some t \<Rightarrow>
              let S1 = upd_kern (set_error t RT_EOK) S in
              if timeout = 0 then Inr (Returned (- RT_EFULL), S1)
              else bindE (in_thread_context (kern S1)) (\<lambda>_.
                   bindE (on_kern (wait_in (mq_senders mq) t (mq_flag mq) timeout) S1) (\<lambda>S2. Inr (Waits, S2))))
     | Some (n, mq1) \<Rightarrow> mq_store i (mq_append n (mq_copy n buf (set_mnext n None mq1))) S)"

text \<open>\<open>buf\<close> are the \<open>size\<close> bytes behind \<open>buffer\<close>.\<close>

definition rt_mq_send_wait :: "nat \<Rightarrow> u8 list \<Rightarrow> int \<Rightarrow> ipc \<Rightarrow> (outcome \<times> ipc) res" where
  "rt_mq_send_wait i buf timeout S =
     bindE (get_mq i S) (\<lambda>mq.
     bindE (assertE (buf \<noteq> [])) (\<lambda>_.
     if length buf > unat (mq_msg_size mq) then Inr (Returned (- RT_ERROR), S)
     else if mq_free mq = None \<and> timeout = 0 then Inr (Returned (- RT_EFULL), S)
     else mq_send_loop i buf timeout S))"

definition rt_mq_send_back :: "nat \<Rightarrow> nat \<Rightarrow> u8 list \<Rightarrow> int \<Rightarrow> u32 \<Rightarrow> ipc \<Rightarrow> (outcome \<times> ipc) res" where
  "rt_mq_send_back t i buf timeout start S =
     (let e = th_error (threads (client (kern S)) t) in
      if e \<noteq> RT_EOK then Inr (Returned e, S)
      else mq_send_loop i buf (time_left timeout start (rt_tick (kern S))) S)"

definition rt_mq_send :: "nat \<Rightarrow> u8 list \<Rightarrow> ipc \<Rightarrow> (outcome \<times> ipc) res" where
  "rt_mq_send i buf S = rt_mq_send_wait i buf 0 S"

definition rt_mq_urgent :: "nat \<Rightarrow> u8 list \<Rightarrow> ipc \<Rightarrow> (outcome \<times> ipc) res" where
  "rt_mq_urgent i buf S =
     bindE (get_mq i S) (\<lambda>mq.
     bindE (assertE (buf \<noteq> [])) (\<lambda>_.
     if length buf > unat (mq_msg_size mq) then Inr (Returned (- RT_ERROR), S)
     else (case mq_take_free mq of
         None \<Rightarrow> Inr (Returned (- RT_EFULL), S)
       | Some (n, mq1) \<Rightarrow> mq_store i (mq_prepend n (mq_copy n buf mq1)) S)))"

text \<open>\<open>sz\<close> is the size of the buffer; the result has the bytes copied there.\<close>

definition mq_recv_loop :: "nat \<Rightarrow> nat \<Rightarrow> int \<Rightarrow> ipc \<Rightarrow> (outcome \<times> u8 list \<times> ipc) res" where
  "mq_recv_loop i sz timeout S =
     bindE (get_mq i S) (\<lambda>mq.
     if mq_entry mq = 0
     then
       bindE (in_thread_context (kern S)) (\<lambda>t.
       if timeout = 0 then Inr (Returned (- RT_ETIMEOUT), [], upd_kern (set_error t (- RT_ETIMEOUT)) S)
       else
         bindE (on_kern (wait_in i t (mq_flag mq) timeout) (upd_kern (set_error t RT_EOK) S)) (\<lambda>S1. Inr (Waits, [], S1)))
     else
       bindE (mq_unlink mq) (\<lambda>(n, mq1).
       let buf = take (min sz (unat (mq_msg_size mq))) (mq_data mq n);
           S1 = upd_mq i (\<lambda>_. mq_release n (mq1\<lparr>mq_entry := mq_entry mq1 - 1\<rparr>)) S in
       if \<not> nobody_in (mq_senders mq) (kern S1)
       then bindE (on_kern (wake_in (mq_senders mq)) S1) (\<lambda>S2. Inr (Returned RT_EOK, buf, S2))
       else Inr (Returned RT_EOK, buf, S1)))"

definition rt_mq_recv :: "nat \<Rightarrow> nat \<Rightarrow> int \<Rightarrow> ipc \<Rightarrow> (outcome \<times> u8 list \<times> ipc) res" where
  "rt_mq_recv i sz timeout S =
     bindE (get_mq i S) (\<lambda>mq.
     bindE (assertE (sz \<noteq> 0)) (\<lambda>_.
     if mq_entry mq = 0 \<and> timeout = 0 then Inr (Returned (- RT_ETIMEOUT), [], S)
     else mq_recv_loop i sz timeout S))"

definition rt_mq_recv_back :: "nat \<Rightarrow> nat \<Rightarrow> nat \<Rightarrow> int \<Rightarrow> u32 \<Rightarrow> ipc \<Rightarrow> (outcome \<times> u8 list \<times> ipc) res" where
  "rt_mq_recv_back t i sz timeout start S =
     (let e = th_error (threads (client (kern S)) t) in
      if e \<noteq> RT_EOK then Inr (Returned e, [], S)
      else mq_recv_loop i sz (time_left timeout start (rt_tick (kern S))) S)"

text \<open>The reset: every message's slot becomes free.\<close>

partial_function (option) mq_flush :: "rt_messagequeue \<Rightarrow> rt_messagequeue res option" where
  "mq_flush mq =
     (if mq_head mq = None then Some (Inr mq)
      else (case mq_unlink mq of Inl e \<Rightarrow> Some (Inl e) | Inr (n, mq1) \<Rightarrow> mq_flush (mq_release n mq1)))"

definition rt_mq_control :: "nat \<Rightarrow> bool \<Rightarrow> ipc \<Rightarrow> (int \<times> ipc) res" where
  "rt_mq_control i reset S =
     bindE (get_mq i S) (\<lambda>mq.
     if reset
     then bindE (on_kern (wake_all i) S) (\<lambda>S1.
          bindE (on_kern (wake_all (mq_senders mq)) S1) (\<lambda>S2.
          bindE (returns (mq_flush mq)) (\<lambda>mq1.
          bindE (on_kern (on_sched rt_schedule) (upd_mq i (\<lambda>_. mq1\<lparr>mq_entry := 0\<rparr>) S2)) (\<lambda>S3.
          Inr (RT_EOK, S3)))))
     else Inr (- RT_ERROR, S))"

end
