(* ===== verification/Ipc_Frame.thy ===== *)
theory Ipc_Frame
  imports Ipc_Mq Start_Facts
begin

text \<open>
  The waiting lists of the other IPC objects: the scheduler and the operations on threads and waiting
  lists never look at the semaphores, so a list that belongs to no semaphore behaves as that of a
  semaphore without a value (\<open>ghost\<close>). What is known of the waiting lists of semaphores therefore
  holds for all of them.
\<close>

section \<open>Operations that do not look at the semaphores\<close>

definition with_sems :: "(nat \<Rightarrow> rt_sem option) \<Rightarrow> sched \<Rightarrow> sched" where
  "with_sems g s = s\<lparr>sems := g\<rparr>"

definition ghost :: "(nat \<Rightarrow> rt_sem option) \<Rightarrow> kernel \<Rightarrow> kernel" where
  "ghost g = upd_sched (with_sems g)"

lemma with_sems_simps [simp]:
  "sc_links (with_sems g s) = sc_links s" "ready_group (with_sems g s) = ready_group s"
  "threads (with_sems g s) = threads s" "timer_param (with_sems g s) = timer_param s"
  "current_thread (with_sems g s) = current_thread s" "lock_nest (with_sems g s) = lock_nest s"
  "interrupt_nest (with_sems g s) = interrupt_nest s" "sems (with_sems g s) = g"
  "upd_thread t f (with_sems g s) = with_sems g (upd_thread t f s)"
  "upd_sc_links h (with_sems g s) = with_sems g (upd_sc_links h s)"
  "(with_sems g s)\<lparr>ready_group := w\<rparr> = with_sems g (s\<lparr>ready_group := w\<rparr>)"
  "(with_sems g s)\<lparr>rt_current_priority := p, current_thread := c\<rparr>
    = with_sems g (s\<lparr>rt_current_priority := p, current_thread := c\<rparr>)"
  by (simp_all add: with_sems_def upd_thread_def upd_sc_links_def)

lemma ghost_simps [simp]:
  "client (ghost g k) = with_sems g (client k)" "tm_obj (ghost g k) = tm_obj k" "tm_timer (ghost g k) = tm_timer k"
  "rt_tick (ghost g k) = rt_tick k" "tm_links (ghost g k) = tm_links k" "soft_waits (ghost g k) = soft_waits k"
  "left (ghost g k) x = left k x"
  by (simp_all add: ghost_def left_def)

lemma ghost_upd:
  "upd_sched (upd_thread t f) (ghost g k) = ghost g (upd_sched (upd_thread t f) k)"
  "upd_sched (upd_sc_links h) (ghost g k) = ghost g (upd_sched (upd_sc_links h) k)"
  "upd_links l (ghost g k) = ghost g (upd_links l k)" "upd_timer m fm (ghost g k) = ghost g (upd_timer m fm k)"
  "(ghost g k)\<lparr>soft_waits := b\<rparr> = ghost g (k\<lparr>soft_waits := b\<rparr>)"
  "(ghost g k)\<lparr>client := with_sems g s\<rparr> = ghost g (k\<lparr>client := s\<rparr>)"
  by (simp_all add: ghost_def upd_sched_def upd_links_def upd_timer_def with_sems_def upd_thread_def upd_sc_links_def)

lemma bind_map: "bindE (map_sum id h r) f = bindE r (\<lambda>a. f (h a))"
  by (cases r) simp_all

lemma map_bind: "map_sum id h (bindE r f) = bindE r (\<lambda>a. map_sum id h (f a))"
  by (cases r) simp_all

lemmas blind = bind_map map_bind Let_def

lemma insert_blind: "rt_schedule_insert_thread t (with_sems g s) = map_sum id (with_sems g) (rt_schedule_insert_thread t s)"
  by (simp add: rt_schedule_insert_thread_def blind)

lemma remove_blind: "rt_schedule_remove_thread t (with_sems g s) = map_sum id (with_sems g) (rt_schedule_remove_thread t s)"
  by (simp add: rt_schedule_remove_thread_def blind if_distrib[of "with_sems g"] cong: if_cong)

lemma highest_blind: "get_highest_priority_thread (with_sems g s) = get_highest_priority_thread s"
  by (simp add: get_highest_priority_thread_def Let_def)

lemma switch_blind: "switch_thread c b t p (with_sems g s) = map_sum id (with_sems g) (switch_thread c b t p s)"
  by (simp add: switch_thread_def blind insert_blind remove_blind rt_scheduler_stack_check_def)

lemma schedule_blind: "rt_schedule (with_sems g s) = map_sum id (with_sems g) (rt_schedule s)"
proof (cases "lock_nest s \<noteq> 0 \<or> ready_group s = 0")
  case True
  then show ?thesis by (auto simp: rt_schedule_def)
next
  case False
  then show ?thesis
    by (cases "get_highest_priority_thread s"; cases "current_thread s")
      (auto simp: rt_schedule_def blind highest_blind switch_blind remove_blind if_distrib[of "with_sems g"] cong: if_cong)
qed

lemma on_sched_blind:
  assumes "\<And>s. f (with_sems g s) = map_sum id (with_sems g) (f s)"
  shows "on_sched f (ghost g k) = map_sum id (ghost g) (on_sched f k)"
  by (simp add: on_sched_def assms blind ghost_upd)

lemma assert_thread_blind [simp]: "assert_thread t (ghost g k) = assert_thread t k"
  by (simp add: assert_thread_def)

lemma timer_stop_blind: "rt_timer_stop m (ghost g k) = map_sum id (map_prod id (ghost g)) (rt_timer_stop m k)"
  by (simp add: rt_timer_stop_def blind rt_timer_remove_def ghost_upd)

lemma stop_timer_blind: "stop_thread_timer t (ghost g k) = map_sum id (ghost g) (stop_thread_timer t k)"
  by (simp add: stop_thread_timer_def blind timer_stop_blind case_prod_unfold)

lemma timer_start_blind: "rt_timer_start m (ghost g k) = map_sum id (map_prod id (ghost g)) (rt_timer_start m k)"
proof -
  define k1 where "k1 = upd_timer m (clear_flag RT_TIMER_FLAG_ACTIVATED) (rt_timer_remove m k)"
  define k2 where "k2 = upd_timer m (\<lambda>tm. tm\<lparr>timeout_tick := rt_tick k1 + init_tick tm\<rparr>) k1"
  have g: "upd_timer m (clear_flag RT_TIMER_FLAG_ACTIVATED) (rt_timer_remove m (ghost g k)) = ghost g k1"
    "upd_timer m (\<lambda>tm. tm\<lparr>timeout_tick := rt_tick k1 + init_tick tm\<rparr>) (ghost g k1) = ghost g k2"
    by (simp_all add: k1_def k2_def rt_timer_remove_def ghost_upd)
  show ?thesis
    by (simp add: rt_timer_start_def blind g ghost_upd if_distrib[of "ghost g"] flip: k1_def k2_def cong: if_cong)
qed

lemma start_timer_blind: "start_thread_timer t n (ghost g k) = map_sum id (ghost g) (start_thread_timer t n k)"
  by (simp add: start_thread_timer_def rt_timer_control_def blind ghost_upd timer_start_blind bindE_assoc case_prod_unfold)

lemma suspend_blind: "rt_thread_suspend t (ghost g k) = map_sum id (map_prod id (ghost g)) (rt_thread_suspend t k)"
  by (simp add: rt_thread_suspend_def blind ghost_upd stop_timer_blind on_sched_blind remove_blind)

lemma resume_blind: "rt_thread_resume t (ghost g k) = map_sum id (map_prod id (ghost g)) (rt_thread_resume t k)"
  by (simp add: rt_thread_resume_def blind ghost_upd stop_timer_blind on_sched_blind insert_blind)

lemma list_suspend_blind:
  "rt_ipc_list_suspend h t flag (ghost g k) = map_sum id (ghost g) (rt_ipc_list_suspend h t flag k)"
  by (cases "rt_thread_suspend t k") (auto simp: rt_ipc_list_suspend_def blind ghost_upd suspend_blind)

lemma list_resume_blind: "rt_ipc_list_resume h (ghost g k) = map_sum id (ghost g) (rt_ipc_list_resume h k)"
  by (simp add: rt_ipc_list_resume_def blind resume_blind case_prod_unfold split: snode.split)

lemma wait_blind: "wait_in h t flag time (ghost g k) = map_sum id (ghost g) (wait_in h t flag time k)"
  by (cases "time > 0") (simp_all add: wait_in_def blind list_suspend_blind start_timer_blind on_sched_blind schedule_blind)

lemma wake_blind: "wake_in h (ghost g k) = map_sum id (ghost g) (wake_in h k)"
  by (simp add: wake_in_def blind list_resume_blind on_sched_blind schedule_blind)

lemma schedule_kernel_blind: "on_sched rt_schedule (ghost g k) = map_sum id (ghost g) (on_sched rt_schedule k)"
  by (rule on_sched_blind) (rule schedule_blind)

section \<open>The invariant with all waiting lists\<close>

text \<open>What stands for a waiting list that belongs to no semaphore.\<close>

definition dummy :: "u8 \<Rightarrow> rt_sem" where
  "dummy flag = \<lparr>sem_static = True, sem_flag = flag, sem_value = 0\<rparr>"

lemma dummy_simps [simp]: "sem_value (dummy f) = 0" "sem_flag (dummy f) = f"
  by (simp_all add: dummy_def)

lemma ghost_map: "map_sum id (ghost g) r = Inr kg \<longleftrightarrow> (\<exists>k'. r = Inr k' \<and> kg = ghost g k')"
  by (cases r) auto

text \<open>A thread waits in a list.\<close>

lemma wait_in_ok:
  assumes inv: "kernel_inv idle (ghost g k) L T xs" and l: "lock_nest (client k) = 0" "interrupt_nest (client k) = 0"
    and c: "current_thread (client k) = Some c" "c \<noteq> idle" and h: "g h = Some (dummy flag)"
    and w: "time \<noteq> 0" "time < 2147483647"
  obtains k' L' xs' where "wait_in h c flag time (set_error c RT_EOK k) = Inr k'" "kernel_inv idle (ghost g k') L' T xs'"
    "same_setup (with_sems g (client k)) (with_sems g (client k'))" "rt_tick k' = rt_tick k"
    "\<And>x. cls (client k') x = (if x = c then RT_THREAD_SUSPEND else cls (client k) x)"
    "\<And>j. g j \<noteq> None \<Longrightarrow> L' (Waiters j) = (if j = h
       then queue_in flag (threads (client k)) (current_priority (threads (client k) c)) c (L (Waiters h))
       else L (Waiters j))"
    "\<And>x. th_error (threads (client k') x) = (if x = c then RT_EOK else th_error (threads (client k) x))"
    "set xs' = (if time > 0 then insert (timer_of k c) (set xs) else set xs)"
    "time > 0 \<Longrightarrow> left k' (timer_of k c) = time"
proof -
  define kg where "kg = ghost g k"
  have a: "lock_nest (client kg) = 0" "interrupt_nest (client kg) = 0" "current_thread (client kg) = Some c"
    "sems (client kg) h = Some (dummy flag)" "sem_value (dummy flag) = 0" using l c h by (simp_all add: kg_def)
  obtain kg' L' xs' where kg': "rt_sem_take h time kg = Inr (Waits, kg')" "kernel_inv idle kg' L' T xs'"
    "same_setup (client kg) (client kg')" "rt_tick kg' = rt_tick kg"
    "\<And>x. cls (client kg') x = (if x = c then RT_THREAD_SUSPEND else cls (client kg) x)"
    "set xs' = (if time > 0 then insert (timer_of kg c) (set xs) else set xs)"
    "time > 0 \<Longrightarrow> left kg' (timer_of kg c) = time"
    "\<And>j. sems (client kg) j \<noteq> None \<Longrightarrow> L' (Waiters j) = (if j = h
       then queue_in (sem_flag (dummy flag)) (threads (client kg)) (current_priority (threads (client kg) c)) c (L (Waiters h))
       else L (Waiters j))"
    "\<And>x. th_error (threads (client kg') x) = (if x = c then RT_EOK else th_error (threads (client kg) x))"
    by (rule sem_take_waits[OF inv[folded kg_def] a(1-3) c(2) a(4,5) w]) blast
  have "rt_sem_take h time kg = bindE (wait_in h c flag time (set_error c RT_EOK kg)) (\<lambda>k4. Inr (Waits, k4))"
    using a w(1) by (simp add: rt_sem_take_def get_sem_def self_thread_def not_in_interrupt_def wait_in_def Let_def
        set_error_def bindE_assoc)
  then have "wait_in h c flag time (set_error c RT_EOK kg) = Inr kg'"
    using kg'(1) by (cases "wait_in h c flag time (set_error c RT_EOK kg)") simp_all
  moreover have "set_error c RT_EOK kg = ghost g (set_error c RT_EOK k)" by (simp add: kg_def set_error_def ghost_upd)
  ultimately obtain k' where k': "wait_in h c flag time (set_error c RT_EOK k) = Inr k'" "kg' = ghost g k'"
    by (auto simp: wait_blind ghost_map)
  have cl: "cls (with_sems g s) x = cls s x" for s x by (simp add: cls_def)
  show thesis
    using that[OF k'(1)] kg' unfolding k'(2) kg_def by (simp add: cl)
qed

text \<open>The first thread of a list goes on.\<close>

lemma wake_in_ok:
  assumes inv: "kernel_inv idle (ghost g k) L T xs" and h: "g h \<noteq> None" and w: "L (Waiters h) = t # ws"
  obtains k' L' xs' where "wake_in h k = Inr k'" "kernel_inv idle (ghost g k') L' T xs'"
    "same_setup (with_sems g (client k)) (with_sems g (client k'))" "rt_tick k' = rt_tick k"
    "\<And>x. cls (client k') x = (if x = t then RT_THREAD_READY else cls (client k) x)"
    "\<And>j. g j \<noteq> None \<Longrightarrow> L' (Waiters j) = (if j = h then ws else L (Waiters j))"
    "\<And>x. th_error (threads (client k') x) = th_error (threads (client k) x)"
proof -
  define kg where "kg = ghost g k"
  have i: "sems (client kg) h \<noteq> None" using h by (simp add: kg_def)
  obtain kg' L' xs' where kg': "rt_sem_release h kg = Inr (RT_EOK, kg')" "kernel_inv idle kg' L' T xs'"
    "same_setup (client kg) (client kg')" "rt_tick kg' = rt_tick kg"
    "\<And>x. cls (client kg') x = (if x = t then RT_THREAD_READY else cls (client kg) x)"
    "\<And>j. sems (client kg) j \<noteq> None \<Longrightarrow> L' (Waiters j) = (if j = h then ws else L (Waiters j))"
    "\<And>x. th_error (threads (client kg') x) = th_error (threads (client kg) x)"
    by (rule sem_release_waiter[OF inv[folded kg_def] i w]) blast
  have ne: "\<not> rt_list_isempty (Waiters h) (sc_links (client kg))"
    using waiter_first(1)[OF kernel_invD(1)[OF inv[folded kg_def]] i w] .
  obtain sm where "sems (client kg) h = Some sm" using i by blast
  then have "rt_sem_release h kg = bindE (wake_in h kg) (\<lambda>k2. Inr (RT_EOK, k2))"
    using ne by (simp add: rt_sem_release_def get_sem_def wake_in_def bindE_assoc)
  then have "wake_in h kg = Inr kg'" using kg'(1) by (cases "wake_in h kg") simp_all
  then obtain k' where k': "wake_in h k = Inr k'" "kg' = ghost g k'"
    by (auto simp: kg_def wake_blind ghost_map)
  have cl: "cls (with_sems g s) x = cls s x" for s x by (simp add: cls_def)
  show thesis
    using that[OF k'(1)] kg' unfolding k'(2) kg_def by (simp add: cl)
qed

lemma nobody_iff:
  assumes inv: "kernel_inv idle (ghost g k) L T xs" and h: "g h \<noteq> None"
  shows "nobody_in h k \<longleftrightarrow> L (Waiters h) = []"
proof -
  have "dlist (sc_links (client k)) (Waiters h) (map Thread (L (Waiters h)))"
    using sc_dlist[OF core_lists[OF ok_core[OF kernel_okD(1)[OF kernel_invD(1)[OF inv]]]], of "Waiters h"] h by simp
  then show ?thesis using dlist_empty[of _ "Waiters h"] by (simp add: nobody_in_def)
qed

end
