(* ===== verification/Ipc_Queue.thy ===== *)
theory Ipc_Queue
  imports Ipc_Frame
begin

text \<open>
  The contract of a bounded queue of messages that does not wait, and its interpretation on the
  mailboxes and on the message queues: between the threads of the kernel a call also makes a waiting
  thread ready, which leaves the messages alone.
\<close>

section \<open>The contract of a bounded queue\<close>

datatype 'm mail_op = Msend 'm | Mrecv

text \<open>A run of operations: the messages that were accepted, those handed out, the state.\<close>

fun run_mail :: "('m \<Rightarrow> 's \<Rightarrow> (bool \<times> 's) res) \<Rightarrow> ('s \<Rightarrow> ('m option \<times> 's) res)
    \<Rightarrow> 'm mail_op list \<Rightarrow> 's \<Rightarrow> ('m list \<times> 'm list \<times> 's) res" where
  "run_mail send recv [] s = Inr ([], [], s)"
| "run_mail send recv (Msend m # ops) s =
     bindE (send m s) (\<lambda>(b, s1).
     bindE (run_mail send recv ops s1) (\<lambda>(a, r, s2). Inr ((if b then m # a else a), r, s2)))"
| "run_mail send recv (Mrecv # ops) s =
     bindE (recv s) (\<lambda>(v, s1).
     bindE (run_mail send recv ops s1) (\<lambda>(a, r, s2). Inr (a, (case v of None \<Rightarrow> r | Some m \<Rightarrow> m # r), s2)))"

definition mail_good :: "('m \<Rightarrow> bool) \<Rightarrow> 'm mail_op \<Rightarrow> bool" where
  "mail_good P c = (case c of Msend m \<Rightarrow> P m | Mrecv \<Rightarrow> True)"

locale mail_queue =
  fixes send :: "'m \<Rightarrow> 's \<Rightarrow> (bool \<times> 's) res" and recv :: "'s \<Rightarrow> ('m option \<times> 's) res"
    and ok :: "'s \<Rightarrow> bool" and queued :: "'s \<Rightarrow> 'm list" and cap :: "'s \<Rightarrow> nat" and good :: "'s \<Rightarrow> 'm \<Rightarrow> bool"
  assumes send: "ok s \<Longrightarrow> good s m \<Longrightarrow>
      \<exists>s'. send m s = Inr (length (queued s) < cap s, s') \<and> ok s' \<and> cap s' = cap s \<and> good s' = good s
         \<and> queued s' = (if length (queued s) < cap s then queued s @ [m] else queued s)"
    and recv: "ok s \<Longrightarrow>
      \<exists>s'. recv s = Inr (case queued s of [] \<Rightarrow> None | m # _ \<Rightarrow> Some m, s') \<and> ok s' \<and> cap s' = cap s
         \<and> good s' = good s \<and> queued s' = tl (queued s)"
    and bounded: "ok s \<Longrightarrow> length (queued s) \<le> cap s"
begin

lemma fifo:
  "ok s \<Longrightarrow> list_all (mail_good (good s)) ops \<Longrightarrow>
   \<exists>a r s'. run_mail send recv ops s = Inr (a, r, s') \<and> ok s' \<and> cap s' = cap s
     \<and> queued s @ a = r @ queued s' \<and> length (queued s') \<le> cap s"
proof (induction ops arbitrary: s)
  case Nil
  then show ?case using bounded by simp
next
  case (Cons c ops)
  show ?case
  proof (cases c)
    case (Msend m)
    have gm: "good s m" using Cons.prems Msend by (simp add: mail_good_def)
    obtain s1 where s1: "send m s = Inr (length (queued s) < cap s, s1)" "ok s1" "cap s1 = cap s" "good s1 = good s"
      "queued s1 = (if length (queued s) < cap s then queued s @ [m] else queued s)"
      using send[OF Cons.prems(1) gm] by blast
    then obtain a r s2 where "run_mail send recv ops s1 = Inr (a, r, s2)" "ok s2" "cap s2 = cap s"
      "queued s1 @ a = r @ queued s2" "length (queued s2) \<le> cap s"
      using Cons.IH[OF s1(2)] Cons.prems by auto
    then show ?thesis using s1(1,5) Msend by (simp split: if_splits)
  next
    case Mrecv
    obtain s1 where s1: "recv s = Inr (case queued s of [] \<Rightarrow> None | m # _ \<Rightarrow> Some m, s1)" "ok s1" "cap s1 = cap s"
      "good s1 = good s" "queued s1 = tl (queued s)"
      using recv[OF Cons.prems(1)] by blast
    then obtain a r s2 where "run_mail send recv ops s1 = Inr (a, r, s2)" "ok s2" "cap s2 = cap s"
      "queued s1 @ a = r @ queued s2" "length (queued s2) \<le> cap s"
      using Cons.IH[OF s1(2)] Cons.prems by auto
    then show ?thesis using s1(1,5) Mrecv by (cases "queued s") simp_all
  qed
qed

end

text \<open>A queue that also takes urgent messages, in front of all others.\<close>

locale urgent_queue = mail_queue +
  fixes urgent :: "'m \<Rightarrow> 's \<Rightarrow> (bool \<times> 's) res"
  assumes urgent: "ok s \<Longrightarrow> good s m \<Longrightarrow>
      \<exists>s'. urgent m s = Inr (length (queued s) < cap s, s') \<and> ok s' \<and> cap s' = cap s \<and> good s' = good s
         \<and> queued s' = (if length (queued s) < cap s then m # queued s else queued s)"
begin

lemma urgent_first:
  assumes "ok s" "good s m" "length (queued s) < cap s"
  shows "\<exists>s1 s2. urgent m s = Inr (True, s1) \<and> recv s1 = Inr (Some m, s2) \<and> ok s2 \<and> queued s2 = queued s"
proof -
  obtain s1 where s1: "urgent m s = Inr (True, s1)" "ok s1" "queued s1 = m # queued s"
    using urgent[OF assms(1,2)] assms(3) by auto
  then show ?thesis using recv[OF s1(2)] by auto
qed

end

section \<open>Waking whoever waits\<close>

lemma wake_maybe:
  assumes inv: "kernel_inv idle (ghost g k) L T xs" and h: "g h \<noteq> None"
  obtains k' L' xs' where "(if \<not> nobody_in h k then wake_in h k else Inr k) = Inr k'" "kernel_inv idle (ghost g k') L' T xs'"
    "\<And>x. th_error (threads (client k') x) = th_error (threads (client k) x)"
    "\<And>x. cls (client k') x = (if L (Waiters h) \<noteq> [] \<and> x = hd (L (Waiters h)) then RT_THREAD_READY else cls (client k) x)"
    "\<And>j. g j \<noteq> None \<Longrightarrow> L' (Waiters j) = (if j = h then tl (L (Waiters h)) else L (Waiters j))"
proof (cases "L (Waiters h)")
  case Nil
  then have "nobody_in h k" using nobody_iff[OF inv h] by simp
  then show thesis using that[of k L xs] inv Nil by simp
next
  case (Cons t ws)
  then have n: "\<not> nobody_in h k" using nobody_iff[OF inv h] by simp
  obtain k' L' xs' where k': "wake_in h k = Inr k'" "kernel_inv idle (ghost g k') L' T xs'"
    "\<And>x. cls (client k') x = (if x = t then RT_THREAD_READY else cls (client k) x)"
    "\<And>j. g j \<noteq> None \<Longrightarrow> L' (Waiters j) = (if j = h then ws else L (Waiters j))"
    "\<And>x. th_error (threads (client k') x) = th_error (threads (client k) x)"
    by (rule wake_in_ok[OF inv h Cons]) blast
  then show thesis using that[of k' L' xs'] n Cons by simp
qed

lemma resume_ghost:
  assumes pre: "kernel_pre idle (ghost g k) L T xs" and t: "t \<in> T" "st (client k) t = RT_THREAD_SUSPEND"
  obtains k' L' xs' where "rt_thread_resume t k = Inr (RT_EOK, k')" "kernel_pre idle (ghost g k') L' T xs'"
    "\<And>x. cls (client k') x = (if x = t then RT_THREAD_READY else cls (client k) x)"
    "\<And>i. g i \<noteq> None \<Longrightarrow> L' (Waiters i) = filter (\<lambda>x. x \<noteq> t) (L (Waiters i))"
    "\<And>x. th_error (threads (client k') x) = th_error (threads (client k) x)"
    "\<And>x. x \<noteq> t \<Longrightarrow> st (client k') x = st (client k) x"
    "\<And>x. current_priority (threads (client k') x) = current_priority (threads (client k) x)"
proof -
  define kg where "kg = ghost g k"
  have tg: "st (client kg) t = RT_THREAD_SUSPEND" using t(2) by (simp add: kg_def)
  obtain kg' L' xs' where kg': "rt_thread_resume t kg = Inr (RT_EOK, kg')" "kernel_pre idle kg' L' T xs'"
    "same_setup (client kg) (client kg')" "rt_tick kg' = rt_tick kg" "current_thread (client kg') = current_thread (client kg)"
    "\<And>x. cls (client kg') x = (if x = t then RT_THREAD_READY else cls (client kg) x)"
    "\<And>i. sems (client kg) i \<noteq> None \<Longrightarrow> L' (Waiters i) = filter (\<lambda>x. x \<noteq> t) (L (Waiters i))"
    "\<And>x. th_error (threads (client kg') x) = th_error (threads (client kg) x)"
    "xs' = remove1 (timer_of kg t) xs" "\<And>x. x \<in> set xs' \<Longrightarrow> left kg' x = left kg x"
    "\<And>x. x \<noteq> t \<Longrightarrow> st (client kg') x = st (client kg) x"
    by (rule pre_resume[OF pre[folded kg_def] t(1) tg]) blast
  obtain k' where k': "rt_thread_resume t k = Inr (RT_EOK, k')" "kg' = ghost g k'"
    using kg'(1) unfolding kg_def resume_blind by (cases "rt_thread_resume t k") auto
  have cl: "cls (with_sems g s) x = cls s x" for s x by (simp add: cls_def)
  show thesis
    using that[OF k'(1)] kg' unfolding k'(2) kg_def by (simp add: cl same_setup_def)
qed

lemma waiting_next:
  assumes "kernel_pre idle (ghost g k) L T xs" "g i \<noteq> None" "L (Waiters i) = us @ v # vs"
  shows "nxt (sc_links (client k)) (Thread v) = hd (map Thread vs @ [Waiters i])" "v \<in> T"
    "st (client k) v = RT_THREAD_SUSPEND" "v \<notin> set us" "v \<notin> set vs"
proof -
  have co: "sched_core (client (ghost g k)) L T" by (rule ok_core[OF kernel_okD(1)[OF kernel_preD(1)[OF assms(1)]]])
  have h: "Waiters i \<in> heads (client (ghost g k))" using assms(2) by simp
  have v: "v \<in> set (L (Waiters i))" using assms(3) by simp
  have "dlist (sc_links (client k)) (Waiters i) (map Thread us @ Thread v # map Thread vs)"
    using sc_dlist[OF core_lists[OF co] h] assms(3) by simp
  then have "chain (sc_links (client k)) (Thread v) (map Thread vs) (Waiters i)" by (simp add: dlist_def chain_app)
  then show "nxt (sc_links (client k)) (Thread v) = hd (map Thread vs @ [Waiters i])" by (simp add: chain_ends)
  show "v \<in> T" by (rule sc_subset[OF core_lists[OF co] h v])
  show "st (client k) v = RT_THREAD_SUSPEND" using core_stat[OF co h v] by simp
  have "distinct (us @ v # vs)" using sc_distinct[OF core_lists[OF co] h] assms(3) by simp
  then show "v \<notin> set us" "v \<notin> set vs" by auto
qed

lemma schedule_ghost:
  assumes pre: "kernel_pre idle (ghost g k) L T xs"
  obtains k' L' where "on_sched rt_schedule k = Inr k'" "kernel_inv idle (ghost g k') L' T xs"
    "\<And>x. cls (client k') x = cls (client k) x" "\<And>i. g i \<noteq> None \<Longrightarrow> L' (Waiters i) = L (Waiters i)"
    "\<And>x. th_error (threads (client k') x) = th_error (threads (client k) x)"
    "\<And>x. current_priority (threads (client k') x) = current_priority (threads (client k) x)"
proof -
  obtain kg' L' where kg': "on_sched rt_schedule (ghost g k) = Inr kg'" "kernel_inv idle kg' L' T xs"
    "rescheduled (client (ghost g k)) L T (client kg') L'"
    by (rule pre_schedule[OF pre]) blast
  obtain k' where k': "on_sched rt_schedule k = Inr k'" "kg' = ghost g k'"
    using kg'(1) by (auto simp: schedule_kernel_blind ghost_map)
  note re = rescheduledD[OF kg'(3)] same_but_stat_thread[OF rescheduledD(1)[OF kg'(3)]]
  have cl: "cls (with_sems g s) x = cls s x" for s x by (simp add: cls_def)
  show thesis
  proof (rule that[OF k'(1)])
    show "kernel_inv idle (ghost g k') L' T xs" using kg'(2) k'(2) by simp
    show "cls (client k') x = cls (client k) x" for x using re(2)[of x] by (simp add: k'(2) cl)
    show "L' (Waiters i) = L (Waiters i)" if "g i \<noteq> None" for i using re(3)[of i] that by (simp add: k'(2))
    show "th_error (threads (client k') x) = th_error (threads (client k) x)"
      "current_priority (threads (client k') x) = current_priority (threads (client k) x)" for x
      using re(8-13)[of x] by (simp_all add: k'(2))
  qed
qed

text \<open>Waking the first of a list inside of a call.\<close>

lemma wake_pre:
  assumes pre: "kernel_pre idle (ghost g k) L T xs" and h: "g h \<noteq> None" and w: "L (Waiters h) = t # ws"
  obtains k' L' xs' where "wake_in h k = Inr k'" "kernel_inv idle (ghost g k') L' T xs'"
    "\<And>x. cls (client k') x = (if x = t then RT_THREAD_READY else cls (client k) x)"
    "L' (Waiters h) = ws"
    "\<And>x. current_priority (threads (client k') x) = current_priority (threads (client k) x)"
proof -
  have w': "L (Waiters h) = [] @ t # ws" using w by simp
  note n = waiting_next[OF pre h w']
  obtain k1 L1 xs1 where k1: "rt_thread_resume t k = Inr (RT_EOK, k1)" "kernel_pre idle (ghost g k1) L1 T xs1"
    "\<And>x. cls (client k1) x = (if x = t then RT_THREAD_READY else cls (client k) x)"
    "\<And>i. g i \<noteq> None \<Longrightarrow> L1 (Waiters i) = filter (\<lambda>x. x \<noteq> t) (L (Waiters i))"
    "\<And>x. current_priority (threads (client k1) x) = current_priority (threads (client k) x)"
    by (rule resume_ghost[OF pre n(2,3)]) blast
  obtain k' L' where k': "on_sched rt_schedule k1 = Inr k'" "kernel_inv idle (ghost g k') L' T xs1"
    "\<And>x. cls (client k') x = cls (client k1) x" "\<And>i. g i \<noteq> None \<Longrightarrow> L' (Waiters i) = L1 (Waiters i)"
    "\<And>x. current_priority (threads (client k') x) = current_priority (threads (client k1) x)"
    by (rule schedule_ghost[OF k1(2)]) blast
  have f: "nxt (sc_links (client k)) (Waiters h) = Thread t"
    using sc_dlist[OF core_lists[OF ok_core[OF kernel_okD(1)[OF kernel_preD(1)[OF pre]]]], of "Waiters h"] h w
    by (simp add: dlist_def)
  show thesis
  proof (rule that)
    show "wake_in h k = Inr k'" using f k1(1) k'(1) by (simp add: wake_in_def rt_ipc_list_resume_def)
    show "L' (Waiters h) = ws" using k'(4)[OF h] k1(4)[OF h] w n(5) by (auto simp: filter_id_conv)
  qed (use k' k1 in simp_all)
qed

end
