(* ===== verification/Mailbox.thy ===== *)
theory Mailbox
  imports Ipc_Queue
begin

text \<open>
  Mailboxes: the ring of words is a bounded queue, whatever threads wait at either end; full and
  empty mailboxes make their callers wait.
\<close>

section \<open>The ring\<close>

definition mb_ok :: "rt_mailbox \<Rightarrow> bool" where
  "mb_ok mb \<longleftrightarrow> length (mb_pool mb) = unat (mb_size mb) \<and> 0 < mb_size mb \<and> mb_entry mb \<le> mb_size mb
     \<and> mb_in mb < mb_size mb \<and> mb_out mb < mb_size mb
     \<and> unat (mb_in mb) = (unat (mb_out mb) + unat (mb_entry mb)) mod unat (mb_size mb)"

definition mb_list :: "rt_mailbox \<Rightarrow> u32 list" where
  "mb_list mb = map (\<lambda>j. mb_pool mb ! ((unat (mb_out mb) + j) mod unat (mb_size mb))) [0..<unat (mb_entry mb)]"

lemma mb_list_length [simp]: "length (mb_list mb) = unat (mb_entry mb)"
  by (simp add: mb_list_def)

lemma mod_inj_below:
  fixes a x y n :: nat
  assumes "(a + x) mod n = (a + y) mod n" "x \<le> y" "y - x < n"
  shows "x = y"
proof -
  have "n dvd (a + y) - (a + x)" using assms(1,2) mod_eq_dvd_iff_nat[of "a + x" "a + y" n] by simp
  then have "n dvd y - x" using assms(2) by simp
  then show ?thesis using assms(2,3) by (metis diff_is_0_eq' dvd_imp_le le_antisym not_le zero_less_diff)
qed

lemma mb_put_ok:
  assumes ok: "mb_ok mb" and room: "mb_entry mb \<noteq> mb_size mb"
  obtains mb' where "mb_put v mb = Inr mb'" "mb_ok mb'" "mb_list mb' = mb_list mb @ [v]"
    "mb_size mb' = mb_size mb" "mb_senders mb' = mb_senders mb" "mb_flag mb' = mb_flag mb"
proof -
  define sz where "sz = unat (mb_size mb)"
  define e where "e = unat (mb_entry mb)"
  have f: "length (mb_pool mb) = sz" "mb_in mb < mb_size mb" "mb_out mb < mb_size mb"
    "unat (mb_in mb) = (unat (mb_out mb) + e) mod sz" "0 < sz"
    using ok by (simp_all add: mb_ok_def sz_def e_def word_less_nat_alt)
  have e_sz: "e < sz"
  proof -
    have "mb_entry mb < mb_size mb" using ok room by (simp add: mb_ok_def order.strict_iff_order)
    then show ?thesis by (simp add: word_less_nat_alt e_def sz_def)
  qed
  have e1: "unat (mb_entry mb + 1) = e + 1"
    using e_sz u16_bound[of "mb_size mb"] by (simp add: e_def sz_def unat_word_ariths)
  define mb' where "mb' = mb\<lparr>mb_pool := (mb_pool mb)[unat (mb_in mb) := v],
    mb_in := (if mb_in mb + 1 \<ge> mb_size mb then 0 else mb_in mb + 1), mb_entry := mb_entry mb + 1\<rparr>"
  have inn: "unat (mb_in mb) < sz" using f(2) by (simp add: word_less_nat_alt sz_def)
  have put: "mb_put v mb = Inr mb'" using inn f(1) by (simp add: mb_put_def mb'_def)
  have fs: "mb_size mb' = mb_size mb" "mb_out mb' = mb_out mb" "mb_entry mb' = mb_entry mb + 1"
    "mb_senders mb' = mb_senders mb" "mb_flag mb' = mb_flag mb"
    "mb_pool mb' = (mb_pool mb)[(unat (mb_out mb) + e) mod sz := v]"
    "unat (mb_in mb') = (unat (mb_in mb) + 1) mod sz" "mb_in mb' < mb_size mb'"
    using ring_next[OF f(2)] ring_next_less[OF f(2)] f(4) by (simp_all add: mb'_def sz_def)
  have "unat (mb_in mb') = (unat (mb_out mb) + (e + 1)) mod sz" using fs(7) f(4) by (simp add: mod_simps)
  moreover have "mb_entry mb' \<le> mb_size mb'" using e_sz e1 by (simp add: fs word_le_nat_alt sz_def)
  ultimately have ok': "mb_ok mb'" using ok f fs e1 by (simp add: mb_ok_def sz_def)
  have ne: "(unat (mb_out mb) + j) mod sz \<noteq> (unat (mb_out mb) + e) mod sz" if "j < e" for j
    using mod_inj_below[of "unat (mb_out mb)" j sz e] that e_sz less_imp_diff_less[OF e_sz, of j] by auto
  have nth: "(mb_pool mb)[(unat (mb_out mb) + e) mod sz := v] ! ((unat (mb_out mb) + j) mod sz)
    = mb_pool mb ! ((unat (mb_out mb) + j) mod sz)" if "j < e" for j
    using nth_list_update_neq[OF not_sym[OF ne[OF that]]] .
  have "mb_list mb' = map (\<lambda>j. (mb_pool mb)[(unat (mb_out mb) + e) mod sz := v] ! ((unat (mb_out mb) + j) mod sz)) [0..<e + 1]"
    by (simp add: mb_list_def fs e1 flip: sz_def)
  also have "\<dots> = map (\<lambda>j. mb_pool mb ! ((unat (mb_out mb) + j) mod sz)) [0..<e] @ [v]"
    using nth f(1,5) by simp
  also have "\<dots> = mb_list mb @ [v]" by (simp add: mb_list_def e_def sz_def)
  finally show thesis using that[OF put ok'] fs by simp
qed

lemma mb_get_ok:
  assumes ok: "mb_ok mb" and some: "mb_entry mb \<noteq> 0"
  obtains v mb' where "mb_get mb = Inr (v, mb')" "mb_ok mb'" "mb_list mb = v # mb_list mb'"
    "mb_size mb' = mb_size mb" "mb_senders mb' = mb_senders mb" "mb_flag mb' = mb_flag mb"
proof -
  define sz where "sz = unat (mb_size mb)"
  define e where "e = unat (mb_entry mb)"
  have f: "length (mb_pool mb) = sz" "mb_in mb < mb_size mb" "mb_out mb < mb_size mb"
    "unat (mb_in mb) = (unat (mb_out mb) + e) mod sz" "0 < sz" "e \<le> sz"
    using ok by (simp_all add: mb_ok_def sz_def e_def word_less_nat_alt word_le_nat_alt)
  obtain d where d: "e = Suc d" using some by (metis e_def not0_implies_Suc unat_0_iff)
  have e1: "unat (mb_entry mb - 1) = d"
  proof -
    have "unat (mb_entry mb - 1) = unat (mb_entry mb) - 1" using some by (simp add: unat_minus_one)
    then show ?thesis using d by (simp add: e_def)
  qed
  define mb' where "mb' = mb\<lparr>mb_out := (if mb_out mb + 1 \<ge> mb_size mb then 0 else mb_out mb + 1), mb_entry := mb_entry mb - 1\<rparr>"
  have out: "unat (mb_out mb) < sz" using f(3) by (simp add: word_less_nat_alt sz_def)
  have get: "mb_get mb = Inr (mb_pool mb ! unat (mb_out mb), mb')" using out f(1) by (simp add: mb_get_def mb'_def)
  have fs: "mb_size mb' = mb_size mb" "mb_in mb' = mb_in mb" "mb_entry mb' = mb_entry mb - 1"
    "mb_senders mb' = mb_senders mb" "mb_flag mb' = mb_flag mb" "mb_pool mb' = mb_pool mb"
    "unat (mb_out mb') = (unat (mb_out mb) + 1) mod sz" "mb_out mb' < mb_size mb'"
    using ring_next[OF f(3)] ring_next_less[OF f(3)] by (simp_all add: mb'_def sz_def)
  have "(unat (mb_out mb') + d) mod sz = unat (mb_in mb)" using fs(7) f(4) d by (simp add: mod_simps)
  moreover have "mb_entry mb' \<le> mb_size mb'" using f(6) d e1 by (simp add: fs word_le_nat_alt sz_def)
  ultimately have ok': "mb_ok mb'" using ok f fs e1 by (simp add: mb_ok_def sz_def)
  have "mb_list mb = map (\<lambda>j. mb_pool mb ! ((unat (mb_out mb) + j) mod sz)) (0 # map Suc [0..<d])"
    using d by (simp add: mb_list_def e_def[symmetric] sz_def[symmetric] upt_conv_Cons map_Suc_upt del: upt_Suc)
  also have "\<dots> = mb_pool mb ! unat (mb_out mb) # map (\<lambda>j. mb_pool mb ! ((unat (mb_out mb') + j) mod sz)) [0..<d]"
    using out by (simp add: fs(7) mod_simps)
  also have "\<dots> = mb_pool mb ! unat (mb_out mb) # mb_list mb'" by (simp add: mb_list_def fs e1 flip: sz_def)
  finally show thesis using that[OF get ok'] fs by simp
qed

section \<open>The mailbox among the threads\<close>

text \<open>The kernel keeps its invariant, with the two lists of the mailbox among the waiting lists.\<close>

definition mbox_ok :: "nat \<Rightarrow> (nat \<Rightarrow> rt_sem option) \<Rightarrow> nat set \<Rightarrow> nat \<Rightarrow> ipc \<Rightarrow> bool" where
  "mbox_ok idle g T i S \<longleftrightarrow> (\<exists>L xs. kernel_inv idle (ghost g (kern S)) L T xs)
     \<and> (\<exists>mb. mailboxes S i = Some mb \<and> mb_ok mb \<and> g i = Some (dummy (mb_flag mb))
          \<and> g (mb_senders mb) = Some (dummy (mb_flag mb)))"

definition mbox_list :: "nat \<Rightarrow> ipc \<Rightarrow> u32 list" where
  "mbox_list i S = (case mailboxes S i of None \<Rightarrow> [] | Some mb \<Rightarrow> mb_list mb)"

definition mbox_size :: "nat \<Rightarrow> ipc \<Rightarrow> nat" where
  "mbox_size i S = (case mailboxes S i of None \<Rightarrow> 0 | Some mb \<Rightarrow> unat (mb_size mb))"

lemma mbox_full:
  assumes "mb_ok mb"
  shows "mb_entry mb = mb_size mb \<longleftrightarrow> \<not> length (mb_list mb) < unat (mb_size mb)" "length (mb_list mb) \<le> unat (mb_size mb)"
    "mb_entry mb = 0 \<longleftrightarrow> mb_list mb = []"
proof -
  have "mb_entry mb \<le> mb_size mb" using assms by (simp add: mb_ok_def)
  then show "mb_entry mb = mb_size mb \<longleftrightarrow> \<not> length (mb_list mb) < unat (mb_size mb)" "length (mb_list mb) \<le> unat (mb_size mb)"
    by (auto simp: word_le_nat_alt simp flip: word_unat_eq_iff)
  show "mb_entry mb = 0 \<longleftrightarrow> mb_list mb = []"
    using mb_list_length[of mb] by (metis length_0_conv unat_0_iff)
qed

text \<open>A mail is stored and the first thread that waits for one goes on.\<close>

lemma mb_store_ok:
  assumes inv: "kernel_inv idle (ghost g (kern S)) L T xs" and mb: "mailboxes S i = Some mb" "mb_ok mb"
    and g: "g i = Some (dummy (mb_flag mb))" "g (mb_senders mb) = Some (dummy (mb_flag mb))"
    and room: "length (mb_list mb) < unat (mb_size mb)"
  obtains S' where "mb_send_loop i v timeout S = Inr (Returned RT_EOK, S')" "mbox_ok idle g T i S'"
    "mbox_list i S' = mb_list mb @ [v]" "mbox_size i S' = unat (mb_size mb)"
    "\<And>x. cls (client (kern S')) x = (if L (Waiters i) \<noteq> [] \<and> x = hd (L (Waiters i)) then RT_THREAD_READY else cls (client (kern S)) x)"
proof -
  have nf: "mb_entry mb \<noteq> mb_size mb" using room mbox_full(1)[OF mb(2)] by blast
  obtain mb' where mb': "mb_put v mb = Inr mb'" "mb_ok mb'" "mb_list mb' = mb_list mb @ [v]"
    "mb_size mb' = mb_size mb" "mb_senders mb' = mb_senders mb" "mb_flag mb' = mb_flag mb"
    by (rule mb_put_ok[OF mb(2) nf]) blast
  define S1 where "S1 = upd_mb i (\<lambda>_. mb') S"
  have S1: "kern S1 = kern S" "mailboxes S1 i = Some mb'" using mb(1) by (simp_all add: S1_def upd_mb_def)
  have gi: "g i \<noteq> None" using g(1) by simp
  obtain k' L' xs' where k': "(if \<not> nobody_in i (kern S) then wake_in i (kern S) else Inr (kern S)) = Inr k'"
    "kernel_inv idle (ghost g k') L' T xs'"
    "\<And>x. cls (client k') x = (if L (Waiters i) \<noteq> [] \<and> x = hd (L (Waiters i)) then RT_THREAD_READY else cls (client (kern S)) x)"
    by (rule wake_maybe[OF inv gi]) blast
  define S' where "S' = S1\<lparr>kern := k'\<rparr>"
  have "(if \<not> nobody_in i (kern S1) then bindE (on_kern (wake_in i) S1) (\<lambda>S2. Inr (Returned RT_EOK, S2))
     else Inr (Returned RT_EOK, S1)) = Inr (Returned RT_EOK, S')"
    using k'(1) by (auto simp: S1(1) on_kern_def S'_def split: if_splits)
  then have "mb_send_loop i v timeout S = Inr (Returned RT_EOK, S')"
    using mb(1) nf mb'(1) by (simp add: mb_send_loop_def get_mb_def Let_def flip: S1_def split del: if_split cong: if_cong)
  moreover have "mbox_ok idle g T i S'"
    unfolding mbox_ok_def using k'(2) S1(2) mb' g by (auto simp: S'_def)
  moreover have "mbox_list i S' = mb_list mb @ [v]" "mbox_size i S' = unat (mb_size mb)"
    using S1(2) mb'(3,4) by (simp_all add: S'_def mbox_list_def mbox_size_def)
  ultimately show thesis using that[of S'] k'(3) by (simp add: S'_def)
qed

lemma mb_fetch_ok:
  assumes inv: "kernel_inv idle (ghost g (kern S)) L T xs" and mb: "mailboxes S i = Some mb" "mb_ok mb"
    and g: "g i = Some (dummy (mb_flag mb))" "g (mb_senders mb) = Some (dummy (mb_flag mb))"
    and some: "mb_list mb = v # q"
  obtains S' where "mb_recv_loop i timeout S = Inr (Returned RT_EOK, Some v, S')" "mbox_ok idle g T i S'"
    "mbox_list i S' = q" "mbox_size i S' = unat (mb_size mb)"
    "\<And>x. cls (client (kern S')) x = (if L (Waiters (mb_senders mb)) \<noteq> [] \<and> x = hd (L (Waiters (mb_senders mb)))
       then RT_THREAD_READY else cls (client (kern S)) x)"
    "\<And>x. th_error (threads (client (kern S')) x) = th_error (threads (client (kern S)) x)"
proof -
  have ne: "mb_entry mb \<noteq> 0" using some mbox_full(3)[OF mb(2)] by simp
  obtain v' mb' where mb': "mb_get mb = Inr (v', mb')" "mb_ok mb'" "mb_list mb = v' # mb_list mb'"
    "mb_size mb' = mb_size mb" "mb_senders mb' = mb_senders mb" "mb_flag mb' = mb_flag mb"
    by (rule mb_get_ok[OF mb(2) ne]) blast
  have v: "v' = v" "mb_list mb' = q" using mb'(3) some by simp_all
  define h where "h = mb_senders mb"
  define S1 where "S1 = upd_mb i (\<lambda>_. mb') S"
  have S1: "kern S1 = kern S" "mailboxes S1 i = Some mb'" using mb(1) by (simp_all add: S1_def upd_mb_def)
  have gi: "g h \<noteq> None" using g(2) by (simp add: h_def)
  obtain k' L' xs' where k': "(if \<not> nobody_in h (kern S) then wake_in h (kern S) else Inr (kern S)) = Inr k'"
    "kernel_inv idle (ghost g k') L' T xs'"
    "\<And>x. th_error (threads (client k') x) = th_error (threads (client (kern S)) x)"
    "\<And>x. cls (client k') x = (if L (Waiters h) \<noteq> [] \<and> x = hd (L (Waiters h)) then RT_THREAD_READY else cls (client (kern S)) x)"
    by (rule wake_maybe[OF inv gi]) blast
  define S' where "S' = S1\<lparr>kern := k'\<rparr>"
  have "(if \<not> nobody_in h (kern S1) then bindE (on_kern (wake_in h) S1) (\<lambda>S2. Inr (Returned RT_EOK, Some v, S2))
     else Inr (Returned RT_EOK, Some v, S1)) = Inr (Returned RT_EOK, Some v, S')"
    using k'(1) by (auto simp: S1(1) on_kern_def S'_def split: if_splits)
  then have "mb_recv_loop i timeout S = Inr (Returned RT_EOK, Some v, S')"
    using mb(1) ne mb'(1) by (simp add: mb_recv_loop_def get_mb_def Let_def v flip: S1_def h_def split del: if_split cong: if_cong)
  moreover have "mbox_ok idle g T i S'"
    unfolding mbox_ok_def using k'(2) S1(2) mb' g by (auto simp: S'_def)
  moreover have "mbox_list i S' = q" "mbox_size i S' = unat (mb_size mb)"
    using S1(2) v mb'(4) by (simp_all add: S'_def mbox_list_def mbox_size_def)
  ultimately show thesis using that[of S'] k'(3,4) by (simp add: S'_def h_def)
qed

text \<open>A full mailbox: the sender waits among the senders.\<close>

lemma mb_full_ok:
  assumes inv: "kernel_inv idle (ghost g (kern S)) L T xs" and mb: "mailboxes S i = Some mb" "mb_ok mb"
    and g: "g i = Some (dummy (mb_flag mb))" "g (mb_senders mb) = Some (dummy (mb_flag mb))"
    and full: "length (mb_list mb) = unat (mb_size mb)"
    and l: "lock_nest (client (kern S)) = 0" "interrupt_nest (client (kern S)) = 0"
    and c: "current_thread (client (kern S)) = Some c" "c \<noteq> idle" and t: "timeout \<noteq> 0" "timeout < 2147483647"
  obtains S' L' xs' where "mb_send_loop i v timeout S = Inr (Waits, S')" "kernel_inv idle (ghost g (kern S')) L' T xs'"
    "mailboxes S' = mailboxes S" "L' (Waiters (mb_senders mb)) = queue_in (mb_flag mb) (threads (client (kern S)))
       (current_priority (threads (client (kern S)) c)) c (L (Waiters (mb_senders mb)))"
    "st (client (kern S')) c = RT_THREAD_SUSPEND" "th_error (threads (client (kern S')) c) = RT_EOK"
proof -
  define h where "h = mb_senders mb"
  have gh: "g h = Some (dummy (mb_flag mb))" using g(2) by (simp add: h_def)
  obtain k' L' xs' where k': "wait_in h c (mb_flag mb) timeout (set_error c RT_EOK (kern S)) = Inr k'"
    "kernel_inv idle (ghost g k') L' T xs'" "\<And>x. cls (client k') x = (if x = c then RT_THREAD_SUSPEND else cls (client (kern S)) x)"
    "\<And>j. g j \<noteq> None \<Longrightarrow> L' (Waiters j) = (if j = h then queue_in (mb_flag mb) (threads (client (kern S)))
       (current_priority (threads (client (kern S)) c)) c (L (Waiters h)) else L (Waiters j))"
    "\<And>x. th_error (threads (client k') x) = (if x = c then RT_EOK else th_error (threads (client (kern S)) x))"
    by (rule wait_in_ok[OF inv l c gh t]) blast
  have fu: "mb_entry mb = mb_size mb" using full mbox_full(1)[OF mb(2)] by simp
  have cx: "in_thread_context (set_error c RT_EOK (kern S)) = Inr c"
    using c(1) l(2) by (simp add: in_thread_context_def self_thread_def not_in_interrupt_def set_error_def)
  have "mb_send_loop i v timeout S = Inr (Waits, S\<lparr>kern := k'\<rparr>)"
    using mb(1) fu c(1) t(1) cx k'(1)
    by (simp add: mb_send_loop_def get_mb_def Let_def upd_kern_def on_kern_def flip: h_def)
  moreover have "st (client k') c = RT_THREAD_SUSPEND" using k'(3)[of c] cls_suspend[of "client k'" c] by simp
  ultimately show thesis using that[of "S\<lparr>kern := k'\<rparr>" L' xs'] k'(2,5) k'(4)[of h] gh by (simp add: h_def)
qed

section \<open>A mailbox is a bounded queue\<close>

text \<open>The client's view of the calls that do not wait.\<close>

definition mb_try_send :: "nat \<Rightarrow> u32 \<Rightarrow> ipc \<Rightarrow> (bool \<times> ipc) res" where
  "mb_try_send i v S = bindE (rt_mb_send i v S) (\<lambda>(r, S'). Inr (r = Returned RT_EOK, S'))"

definition mb_try_recv :: "nat \<Rightarrow> ipc \<Rightarrow> (u32 option \<times> ipc) res" where
  "mb_try_recv i S = bindE (rt_mb_recv i 0 S) (\<lambda>(_, v, S'). Inr (v, S'))"

interpretation mbq: mail_queue "mb_try_send i" "mb_try_recv i" "mbox_ok idle g T i" "mbox_list i" "mbox_size i" "\<lambda>_ _. True"
  for i idle g T
proof
  fix S v assume "mbox_ok idle g T i S"
  then obtain L xs mb where o: "kernel_inv idle (ghost g (kern S)) L T xs" "mailboxes S i = Some mb" "mb_ok mb"
    "g i = Some (dummy (mb_flag mb))" "g (mb_senders mb) = Some (dummy (mb_flag mb))" by (auto simp: mbox_ok_def)
  have l: "mbox_list i S = mb_list mb" "mbox_size i S = unat (mb_size mb)" using o(2) by (simp_all add: mbox_list_def mbox_size_def)
  show "\<exists>S'. mb_try_send i v S = Inr (length (mbox_list i S) < mbox_size i S, S') \<and> mbox_ok idle g T i S'
      \<and> mbox_size i S' = mbox_size i S \<and> (\<lambda>_. True) = (\<lambda>_ :: u32. True)
      \<and> mbox_list i S' = (if length (mbox_list i S) < mbox_size i S then mbox_list i S @ [v] else mbox_list i S)"
  proof (cases "length (mb_list mb) < unat (mb_size mb)")
    case True
    obtain S' where "mb_send_loop i v 0 S = Inr (Returned RT_EOK, S')" "mbox_ok idle g T i S'"
      "mbox_list i S' = mb_list mb @ [v]" "mbox_size i S' = unat (mb_size mb)"
      by (rule mb_store_ok[OF o True]) blast
    then show ?thesis
      using True o(2) mbox_full(1)[OF o(3)] by (simp add: mb_try_send_def rt_mb_send_def rt_mb_send_wait_def get_mb_def l)
  next
    case False
    then show ?thesis
      using \<open>mbox_ok idle g T i S\<close> o(2) mbox_full(1)[OF o(3)]
      by (simp add: mb_try_send_def rt_mb_send_def rt_mb_send_wait_def get_mb_def l)
  qed
next
  fix S assume "mbox_ok idle g T i S"
  then obtain L xs mb where o: "kernel_inv idle (ghost g (kern S)) L T xs" "mailboxes S i = Some mb" "mb_ok mb"
    "g i = Some (dummy (mb_flag mb))" "g (mb_senders mb) = Some (dummy (mb_flag mb))" by (auto simp: mbox_ok_def)
  have l: "mbox_list i S = mb_list mb" "mbox_size i S = unat (mb_size mb)" using o(2) by (simp_all add: mbox_list_def mbox_size_def)
  show "\<exists>S'. mb_try_recv i S = Inr (case mbox_list i S of [] \<Rightarrow> None | m # _ \<Rightarrow> Some m, S') \<and> mbox_ok idle g T i S'
      \<and> mbox_size i S' = mbox_size i S \<and> (\<lambda>_. True) = (\<lambda>_ :: u32. True) \<and> mbox_list i S' = tl (mbox_list i S)"
  proof (cases "mb_list mb")
    case Nil
    then show ?thesis
      using \<open>mbox_ok idle g T i S\<close> o(2) mbox_full(3)[OF o(3)] by (simp add: mb_try_recv_def rt_mb_recv_def get_mb_def l)
  next
    case (Cons v q)
    obtain S' where "mb_recv_loop i 0 S = Inr (Returned RT_EOK, Some v, S')" "mbox_ok idle g T i S'"
      "mbox_list i S' = q" "mbox_size i S' = unat (mb_size mb)"
      by (rule mb_fetch_ok[OF o Cons]) blast
    then show ?thesis
      using Cons o(2) mbox_full(3)[OF o(3)] by (simp add: mb_try_recv_def rt_mb_recv_def get_mb_def l)
  qed
next
  fix S assume "mbox_ok idle g T i S"
  then show "length (mbox_list i S) \<le> mbox_size i S"
    using mbox_full(2) by (auto simp: mbox_ok_def mbox_list_def mbox_size_def)
qed

end
