(* ===== verification/Msg_Queue.thy ===== *)
theory Msg_Queue
  imports Mailbox
begin

text \<open>
  Message queues: every slot of the pool is in the list of the free ones or of the messages, once,
  and the messages are a bounded queue that takes urgent ones in front.
\<close>

section \<open>The slots\<close>

fun mchain :: "(nat \<Rightarrow> nat option) \<Rightarrow> nat option \<Rightarrow> nat list \<Rightarrow> bool" where
  "mchain nx h [] = (h = None)"
| "mchain nx h (n # ns) = (h = Some n \<and> mchain nx (nx n) ns)"

lemma mchain_upd: "n \<notin> set ns \<Longrightarrow> mchain (nx(n := v)) h ns = mchain nx h ns"
  by (induction ns arbitrary: h) auto

lemma mchain_snoc:
  "mchain nx h ns \<Longrightarrow> ns \<noteq> [] \<Longrightarrow> distinct (ns @ [n]) \<Longrightarrow> nx n = None \<Longrightarrow> mchain (nx(last ns := Some n)) h (ns @ [n])"
proof (induction ns arbitrary: h)
  case (Cons m ns)
  show ?case
  proof (cases ns)
    case Nil
    then show ?thesis using Cons.prems by auto
  next
    case (Cons m' ns')
    then have ne: "ns \<noteq> []" by simp
    have "mchain nx (nx m) ns" "distinct (ns @ [n])" using Cons.prems by simp_all
    from Cons.IH[OF this(1) ne this(2) Cons.prems(4)]
    have IH: "mchain (nx(last ns := Some n)) (nx m) (ns @ [n])" .
    define nx' where "nx' = nx(last (m # ns) := Some n)"
    have "last ns \<in> set ns" using ne by simp
    then have "m \<noteq> last ns" using Cons.prems(3) by auto
    then have "nx' m = nx m" "mchain nx' (nx m) (ns @ [n])" using IH ne by (simp_all add: nx'_def)
    then have "mchain nx' h ((m # ns) @ [n])" using Cons.prems(1) by simp
    then show ?thesis by (simp only: nx'_def)
  qed
qed simp

lemma mchain_head: "mchain nx h ns \<Longrightarrow> h = (case ns of [] \<Rightarrow> None | n # _ \<Rightarrow> Some n)"
  by (cases ns) auto

definition mq_slots :: "rt_messagequeue \<Rightarrow> nat list \<Rightarrow> nat list \<Rightarrow> bool" where
  "mq_slots mq ms fs \<longleftrightarrow> mchain (mq_next mq) (mq_head mq) ms \<and> mchain (mq_next mq) (mq_free mq) fs
     \<and> distinct (ms @ fs) \<and> set (ms @ fs) = {0..<unat (mq_max_msgs mq)}
     \<and> mq_tail mq = (if ms = [] then None else Some (last ms)) \<and> length ms = unat (mq_entry mq)
     \<and> (\<forall>n < unat (mq_max_msgs mq). length (mq_data mq n) = unat (mq_msg_size mq))"

lemma slots_count: "mq_slots mq ms fs \<Longrightarrow> length ms + length fs = unat (mq_max_msgs mq)"
  unfolding mq_slots_def using distinct_card[of "ms @ fs"] by simp

lemma take_free_ok:
  assumes s: "mq_slots mq ms (n # fs)"
  shows "mq_take_free mq = Some (n, mq\<lparr>mq_free := mq_next mq n\<rparr>)" "n \<notin> set ms" "n \<notin> set fs"
    "mchain (mq_next mq) (mq_next mq n) fs" "n < unat (mq_max_msgs mq)"
  using s by (auto simp: mq_slots_def mq_take_free_def)

lemma u16_count: "a < unat (m :: u16) \<Longrightarrow> unat (e :: u16) = a \<Longrightarrow> unat (e + 1) = a + 1"
  using u16_bound[of m] by (simp add: unat_word_ariths)

definition mq_same :: "rt_messagequeue \<Rightarrow> rt_messagequeue \<Rightarrow> bool" where
  "mq_same mq mq' \<longleftrightarrow> mq_flag mq' = mq_flag mq \<and> mq_senders mq' = mq_senders mq
     \<and> mq_msg_size mq' = mq_msg_size mq \<and> mq_max_msgs mq' = mq_max_msgs mq"

lemma append_ok:
  assumes s: "mq_slots mq ms (n # fs)" and b: "length buf \<le> unat (mq_msg_size mq)"
  defines "mq' \<equiv> mq_append n (mq_copy n buf (set_mnext n None (mq\<lparr>mq_free := mq_next mq n\<rparr>)))"
  shows "mq_slots mq' (ms @ [n]) fs" "mq_same mq mq'"
    "mq_data mq' = (mq_data mq)(n := buf @ drop (length buf) (mq_data mq n))"
proof -
  note t = take_free_ok[OF s]
  define nx where "nx = (mq_next mq)(n := None)"
  have d: "distinct (ms @ n # fs)" "set (ms @ n # fs) = {0..<unat (mq_max_msgs mq)}" "length ms = unat (mq_entry mq)"
    "mq_tail mq = (if ms = [] then None else Some (last ms))" "mchain (mq_next mq) (mq_head mq) ms"
    "\<forall>n < unat (mq_max_msgs mq). length (mq_data mq n) = unat (mq_msg_size mq)" using s by (simp_all add: mq_slots_def)
  have c: "length ms < unat (mq_max_msgs mq)" using slots_count[OF s] by simp
  have m0: "mchain nx (mq_head mq) ms" "mchain nx (mq_next mq n) fs"
    using d(5) t(2-4) by (simp_all add: nx_def mchain_upd)
  have f: "mq_free mq' = mq_next mq n" "mq_tail mq' = Some n" "mq_head mq' = (if ms = [] then Some n else mq_head mq)"
    "mq_entry mq' = mq_entry mq + 1" "mq_next mq' = (if ms = [] then nx else nx(last ms := Some n))"
    using mchain_head[OF d(5)] d(4)
    by (auto simp: mq'_def mq_append_def mq_copy_def set_mnext_def nx_def Let_def split: list.splits)
  show sm: "mq_same mq mq'"
    by (simp add: mq'_def mq_same_def mq_append_def mq_copy_def set_mnext_def Let_def split: option.split)
  show da: "mq_data mq' = (mq_data mq)(n := buf @ drop (length buf) (mq_data mq n))"
    by (simp add: mq'_def mq_append_def mq_copy_def set_mnext_def Let_def split: option.split)
  have "mchain (mq_next mq') (mq_head mq') (ms @ [n])"
  proof (cases "ms = []")
    case True
    then show ?thesis by (simp add: f nx_def)
  next
    case False
    then show ?thesis using mchain_snoc[OF m0(1) False, of n] d(1) by (simp add: f) (simp add: nx_def)
  qed
  moreover have "mchain (mq_next mq') (mq_free mq') fs"
  proof (cases "ms = []")
    case True
    then show ?thesis using m0(2) by (simp add: f)
  next
    case False
    then have "last ms \<in> set ms" by simp
    then have "last ms \<notin> set fs" using d(1) by auto
    then show ?thesis using m0(2) False by (simp add: f mchain_upd)
  qed
  moreover have "unat (mq_entry mq') = length ms + 1" using u16_count[OF c d(3)[symmetric]] by (simp add: f)
  ultimately show "mq_slots mq' (ms @ [n]) fs"
    using d(1,2,6) b t(5) sm by (auto simp: mq_slots_def f(2) da mq_same_def)
qed

lemma prepend_ok:
  assumes s: "mq_slots mq ms (n # fs)" and b: "length buf \<le> unat (mq_msg_size mq)"
  defines "mq' \<equiv> mq_prepend n (mq_copy n buf (mq\<lparr>mq_free := mq_next mq n\<rparr>))"
  shows "mq_slots mq' (n # ms) fs" "mq_same mq mq'"
    "mq_data mq' = (mq_data mq)(n := buf @ drop (length buf) (mq_data mq n))"
proof -
  note t = take_free_ok[OF s]
  have d: "distinct (ms @ n # fs)" "set (ms @ n # fs) = {0..<unat (mq_max_msgs mq)}" "length ms = unat (mq_entry mq)"
    "mq_tail mq = (if ms = [] then None else Some (last ms))" "mchain (mq_next mq) (mq_head mq) ms"
    "\<forall>n < unat (mq_max_msgs mq). length (mq_data mq n) = unat (mq_msg_size mq)" using s by (simp_all add: mq_slots_def)
  have c: "length ms < unat (mq_max_msgs mq)" using slots_count[OF s] by simp
  have f: "mq_free mq' = mq_next mq n" "mq_tail mq' = (if ms = [] then Some n else Some (last ms))" "mq_head mq' = Some n"
    "mq_entry mq' = mq_entry mq + 1" "mq_next mq' = (mq_next mq)(n := mq_head mq)"
    using d(4) by (auto simp: mq'_def mq_prepend_def mq_copy_def set_mnext_def Let_def)
  show sm: "mq_same mq mq'"
    by (simp add: mq'_def mq_same_def mq_prepend_def mq_copy_def set_mnext_def Let_def)
  show da: "mq_data mq' = (mq_data mq)(n := buf @ drop (length buf) (mq_data mq n))"
    by (simp add: mq'_def mq_prepend_def mq_copy_def set_mnext_def Let_def)
  have "mchain (mq_next mq') (mq_head mq') (n # ms)" "mchain (mq_next mq') (mq_free mq') fs"
    using d(5) t(2-4) by (simp_all add: f mchain_upd)
  moreover have "unat (mq_entry mq') = length ms + 1" using u16_count[OF c d(3)[symmetric]] by (simp add: f)
  ultimately show "mq_slots mq' (n # ms) fs"
    using d(1,2,6) b t(5) sm by (auto simp: mq_slots_def f(2) da mq_same_def)
qed

lemma unlink_ok:
  assumes s: "mq_slots mq (n # ms) fs"
  obtains mq1 where "mq_unlink mq = Inr (n, mq1)"
    "mq_slots (mq_release n (mq1\<lparr>mq_entry := mq_entry mq1 - 1\<rparr>)) ms (n # fs)"
    "mq_same mq (mq_release n (mq1\<lparr>mq_entry := mq_entry mq1 - 1\<rparr>))"
    "mq_data (mq_release n (mq1\<lparr>mq_entry := mq_entry mq1 - 1\<rparr>)) = mq_data mq"
proof -
  have d: "distinct (n # ms @ fs)" "set (n # ms @ fs) = {0..<unat (mq_max_msgs mq)}" "Suc (length ms) = unat (mq_entry mq)"
    "mq_tail mq = Some (last (n # ms))" "mq_head mq = Some n" "mchain (mq_next mq) (mq_next mq n) ms"
    "mchain (mq_next mq) (mq_free mq) fs"
    "\<forall>n < unat (mq_max_msgs mq). length (mq_data mq n) = unat (mq_msg_size mq)" using s by (simp_all add: mq_slots_def)
  define mq0 where "mq0 = mq\<lparr>mq_head := mq_next mq n\<rparr>"
  define mq1 where "mq1 = (if mq_tail mq0 = Some n then mq0\<lparr>mq_tail := None\<rparr> else mq0)"
  define mq' where "mq' = mq_release n (mq1\<lparr>mq_entry := mq_entry mq1 - 1\<rparr>)"
  have u: "mq_unlink mq = Inr (n, mq1)" using d(5) by (simp add: mq_unlink_def mq1_def mq0_def)
  have tl: "last (n # ms) = n \<longleftrightarrow> ms = []" using d(1) by (metis append_self_conv2 distinct.simps(2) last_ConsL last_ConsR last_in_set list.set_intros(1) set_append Un_iff)
  have f: "mq_free mq' = Some n" "mq_head mq' = mq_next mq n" "mq_next mq' = (mq_next mq)(n := mq_free mq)"
    "mq_tail mq' = (if ms = [] then None else Some (last ms))" "mq_entry mq' = mq_entry mq - 1"
    using d(4) tl by (auto simp: mq'_def mq1_def mq0_def mq_release_def set_mnext_def)
  have sm: "mq_same mq mq'" by (simp add: mq'_def mq1_def mq0_def mq_release_def set_mnext_def mq_same_def)
  have da: "mq_data mq' = mq_data mq" by (simp add: mq'_def mq1_def mq0_def mq_release_def set_mnext_def)
  have e: "unat (mq_entry mq') = length ms"
  proof -
    have "mq_entry mq \<noteq> 0" using d(3) by auto
    then show ?thesis using d(3) by (simp add: f unat_minus_one)
  qed
  have "mchain (mq_next mq') (mq_head mq') ms" "mchain (mq_next mq') (mq_free mq') (n # fs)"
    using d(1,6,7) by (auto simp: f mchain_upd)
  then have "mq_slots mq' ms (n # fs)"
    using d(1,2,8) sm e by (auto simp: mq_slots_def f(4) da mq_same_def)
  then show thesis using that[OF u] sm da by (simp add: mq'_def)
qed

text \<open>A new queue has all its slots free.\<close>

lemma free_slots_ok:
  assumes "mchain (mq_next mq) (mq_free mq) []"
  shows "\<exists>fs. mchain (mq_next (free_slots n mq)) (mq_free (free_slots n mq)) fs \<and> distinct fs \<and> set fs = {0..<n}
    \<and> mq_head (free_slots n mq) = mq_head mq \<and> mq_tail (free_slots n mq) = mq_tail mq
    \<and> mq_entry (free_slots n mq) = mq_entry mq \<and> mq_data (free_slots n mq) = mq_data mq \<and> mq_same mq (free_slots n mq)"
proof (induction n)
  case 0
  then show ?case using assms by (simp add: free_slots_def mq_same_def)
next
  case (Suc n)
  then obtain fs where fs: "mchain (mq_next (free_slots n mq)) (mq_free (free_slots n mq)) fs" "distinct fs" "set fs = {0..<n}"
    "mq_head (free_slots n mq) = mq_head mq" "mq_tail (free_slots n mq) = mq_tail mq"
    "mq_entry (free_slots n mq) = mq_entry mq" "mq_data (free_slots n mq) = mq_data mq" "mq_same mq (free_slots n mq)"
    by blast
  have e: "free_slots (Suc n) mq = (set_mnext n (mq_free (free_slots n mq)) (free_slots n mq))\<lparr>mq_free := Some n\<rparr>"
    by (simp add: free_slots_def)
  have "n \<notin> set fs" using fs(3) by simp
  then have "mchain (mq_next (free_slots (Suc n) mq)) (mq_free (free_slots (Suc n) mq)) (n # fs)"
    using fs(1) by (simp add: e set_mnext_def mchain_upd)
  moreover have "set (n # fs) = {0..<Suc n}" using fs(3) by auto
  moreover have "distinct (n # fs)" using fs(2,3) by simp
  moreover have "mq_head (free_slots (Suc n) mq) = mq_head mq \<and> mq_tail (free_slots (Suc n) mq) = mq_tail mq
    \<and> mq_entry (free_slots (Suc n) mq) = mq_entry mq \<and> mq_data (free_slots (Suc n) mq) = mq_data mq
    \<and> mq_same mq (free_slots (Suc n) mq)"
    using fs by (simp add: e set_mnext_def mq_same_def)
  ultimately show ?case by blast
qed

lemma new_mq_ok:
  assumes "\<forall>n < unat maxm. length (data n) = unat msz"
  shows "\<exists>fs. mq_slots (new_mq senders static data msz maxm flag) [] fs"
    "mq_flag (new_mq senders static data msz maxm flag) = flag" "mq_senders (new_mq senders static data msz maxm flag) = senders"
    "mq_msg_size (new_mq senders static data msz maxm flag) = msz" "mq_max_msgs (new_mq senders static data msz maxm flag) = maxm"
proof -
  define mq where "mq = \<lparr>mq_static = static, mq_flag = flag, mq_next = \<lambda>_. None, mq_data = data,
    mq_msg_size = msz, mq_max_msgs = maxm, mq_entry = 0, mq_head = None, mq_tail = None, mq_free = None, mq_senders = senders\<rparr>"
  have m: "mchain (mq_next mq) (mq_free mq) []" by (simp add: mq_def)
  obtain fs where fs: "mchain (mq_next (free_slots (unat maxm) mq)) (mq_free (free_slots (unat maxm) mq)) fs" "distinct fs"
    "set fs = {0..<unat maxm}"
    "mq_head (free_slots (unat maxm) mq) = mq_head mq" "mq_tail (free_slots (unat maxm) mq) = mq_tail mq"
    "mq_entry (free_slots (unat maxm) mq) = mq_entry mq" "mq_data (free_slots (unat maxm) mq) = mq_data mq"
    "mq_same mq (free_slots (unat maxm) mq)"
    using free_slots_ok[OF m] by blast
  have n: "new_mq senders static data msz maxm flag = free_slots (unat maxm) mq" by (simp add: new_mq_def mq_def)
  show "\<exists>fs. mq_slots (new_mq senders static data msz maxm flag) [] fs"
    using fs assms unfolding n by (intro exI[of _ fs]) (simp add: mq_slots_def mq_same_def mq_def)
  show "mq_flag (new_mq senders static data msz maxm flag) = flag" "mq_senders (new_mq senders static data msz maxm flag) = senders"
    "mq_msg_size (new_mq senders static data msz maxm flag) = msz" "mq_max_msgs (new_mq senders static data msz maxm flag) = maxm"
    using fs(8) unfolding n by (simp_all add: mq_same_def mq_def)
qed

section \<open>The queue among the threads\<close>

fun slots_from :: "(nat \<Rightarrow> nat option) \<Rightarrow> nat option \<Rightarrow> nat \<Rightarrow> nat list" where
  "slots_from nx h 0 = []"
| "slots_from nx None (Suc k) = []"
| "slots_from nx (Some n) (Suc k) = n # slots_from nx (nx n) k"

lemma slots_from_chain: "mchain nx h ns \<Longrightarrow> slots_from nx h (length ns) = ns"
  by (induction ns arbitrary: h) simp_all

text \<open>The bytes of the messages, the first one first.\<close>

definition mq_list :: "rt_messagequeue \<Rightarrow> u8 list list" where
  "mq_list mq = map (mq_data mq) (slots_from (mq_next mq) (mq_head mq) (unat (mq_entry mq)))"

lemma mq_list_slots:
  assumes "mq_slots mq ms fs"
  shows "mq_list mq = map (mq_data mq) ms"
proof -
  have "mchain (mq_next mq) (mq_head mq) ms" "length ms = unat (mq_entry mq)" using assms by (simp_all add: mq_slots_def)
  then show ?thesis using slots_from_chain[of "mq_next mq" "mq_head mq" ms] by (simp add: mq_list_def)
qed

definition queue_ok :: "nat \<Rightarrow> (nat \<Rightarrow> rt_sem option) \<Rightarrow> nat set \<Rightarrow> nat \<Rightarrow> ipc \<Rightarrow> bool" where
  "queue_ok idle g T i S \<longleftrightarrow> (\<exists>L xs. kernel_inv idle (ghost g (kern S)) L T xs)
     \<and> (\<exists>mq ms fs. queues S i = Some mq \<and> mq_slots mq ms fs \<and> 0 < mq_msg_size mq \<and> g i = Some (dummy (mq_flag mq))
          \<and> g (mq_senders mq) = Some (dummy (mq_flag mq)))"

definition queue_list :: "nat \<Rightarrow> ipc \<Rightarrow> u8 list list" where
  "queue_list i S = (case queues S i of None \<Rightarrow> [] | Some mq \<Rightarrow> mq_list mq)"

definition queue_cap :: "nat \<Rightarrow> ipc \<Rightarrow> nat" where
  "queue_cap i S = (case queues S i of None \<Rightarrow> 0 | Some mq \<Rightarrow> unat (mq_max_msgs mq))"

definition queue_size :: "nat \<Rightarrow> ipc \<Rightarrow> nat" where
  "queue_size i S = (case queues S i of None \<Rightarrow> 0 | Some mq \<Rightarrow> unat (mq_msg_size mq))"

lemma queue_okE:
  assumes "queue_ok idle g T i S"
  obtains L xs mq ms fs where "kernel_inv idle (ghost g (kern S)) L T xs" "queues S i = Some mq" "mq_slots mq ms fs"
    "0 < mq_msg_size mq" "g i = Some (dummy (mq_flag mq))" "g (mq_senders mq) = Some (dummy (mq_flag mq))"
  using assms unfolding queue_ok_def by blast

text \<open>A queue with a new message is put back, and the first receiver goes on.\<close>

lemma mq_store_ok:
  assumes inv: "kernel_inv idle (ghost g (kern S)) L T xs" and q: "queues S i = Some mq" "0 < mq_msg_size mq"
    and g: "g i = Some (dummy (mq_flag mq))" "g (mq_senders mq) = Some (dummy (mq_flag mq))"
    and s: "mq_slots mq' ms fs" "mq_same mq mq'"
  obtains S' where "mq_store i mq' S = Inr (Returned RT_EOK, S')" "queue_ok idle g T i S'" "queues S' i = Some mq'"
    "\<And>x. cls (client (kern S')) x = (if L (Waiters i) \<noteq> [] \<and> x = hd (L (Waiters i)) then RT_THREAD_READY else cls (client (kern S)) x)"
    "\<And>x. th_error (threads (client (kern S')) x) = th_error (threads (client (kern S)) x)"
proof -
  define S1 where "S1 = upd_mq i (\<lambda>_. mq') S"
  have S1: "kern S1 = kern S" "queues S1 i = Some mq'" using q(1) by (simp_all add: S1_def upd_mq_def)
  have gi: "g i \<noteq> None" using g(1) by simp
  obtain k' L' xs' where k': "(if \<not> nobody_in i (kern S) then wake_in i (kern S) else Inr (kern S)) = Inr k'"
    "kernel_inv idle (ghost g k') L' T xs'"
    "\<And>x. cls (client k') x = (if L (Waiters i) \<noteq> [] \<and> x = hd (L (Waiters i)) then RT_THREAD_READY else cls (client (kern S)) x)"
    "\<And>x. th_error (threads (client k') x) = th_error (threads (client (kern S)) x)"
    by (rule wake_maybe[OF inv gi]) blast
  define S' where "S' = S1\<lparr>kern := k'\<rparr>"
  have "mq_store i mq' S = Inr (Returned RT_EOK, S')"
    using k'(1) by (auto simp: mq_store_def S1(1) on_kern_def S'_def Let_def simp flip: S1_def split: if_splits)
  moreover have "queue_ok idle g T i S'"
    unfolding queue_ok_def using k'(2) S1(2) s q(2) g by (auto simp: S'_def mq_same_def)
  ultimately show thesis using that[of S'] S1(2) k'(3,4) by (simp add: S'_def)
qed

lemma queue_sends:
  assumes ok: "queue_ok idle g T i S" and m: "m \<noteq> []" "length m \<le> queue_size i S"
  shows "length (queue_list i S) < queue_cap i S \<Longrightarrow>
      \<exists>S' rest. rt_mq_send i m S = Inr (Returned RT_EOK, S') \<and> queue_ok idle g T i S' \<and> queue_cap i S' = queue_cap i S
        \<and> queue_size i S' = queue_size i S \<and> queue_list i S' = queue_list i S @ [m @ rest] \<and> length (m @ rest) = queue_size i S"
    "length (queue_list i S) < queue_cap i S \<Longrightarrow>
      \<exists>S' rest. rt_mq_urgent i m S = Inr (Returned RT_EOK, S') \<and> queue_ok idle g T i S' \<and> queue_cap i S' = queue_cap i S
        \<and> queue_size i S' = queue_size i S \<and> queue_list i S' = (m @ rest) # queue_list i S \<and> length (m @ rest) = queue_size i S"
    "\<not> length (queue_list i S) < queue_cap i S \<Longrightarrow> rt_mq_send i m S = Inr (Returned (- RT_EFULL), S)
       \<and> rt_mq_urgent i m S = Inr (Returned (- RT_EFULL), S)"
    "length (queue_list i S) \<le> queue_cap i S"
proof -
  obtain L xs mq ms fs where o: "kernel_inv idle (ghost g (kern S)) L T xs" "queues S i = Some mq" "mq_slots mq ms fs"
    "0 < mq_msg_size mq" "g i = Some (dummy (mq_flag mq))" "g (mq_senders mq) = Some (dummy (mq_flag mq))"
    by (rule queue_okE[OF ok])
  have l: "queue_list i S = map (mq_data mq) ms" "queue_cap i S = unat (mq_max_msgs mq)" "queue_size i S = unat (mq_msg_size mq)"
    using o(2) mq_list_slots[OF o(3)] by (simp_all add: queue_list_def queue_cap_def queue_size_def)
  have fl: "length (queue_list i S) < queue_cap i S \<longleftrightarrow> fs \<noteq> []" "length (queue_list i S) \<le> queue_cap i S"
    using slots_count[OF o(3)] by (cases fs; simp add: l)+
  have b: "length m \<le> unat (mq_msg_size mq)" using m(2) by (simp add: l)
  show "length (queue_list i S) \<le> queue_cap i S" by (rule fl(2))
  have md: "map (f(n := v)) ms = map f ms" if "n \<notin> set ms" for f :: "nat \<Rightarrow> u8 list" and n v
    using that by auto
  show "\<exists>S' rest. rt_mq_send i m S = Inr (Returned RT_EOK, S') \<and> queue_ok idle g T i S' \<and> queue_cap i S' = queue_cap i S
    \<and> queue_size i S' = queue_size i S \<and> queue_list i S' = queue_list i S @ [m @ rest] \<and> length (m @ rest) = queue_size i S"
    if room: "length (queue_list i S) < queue_cap i S"
  proof -
    obtain n fs' where fs: "fs = n # fs'" using room fl by (cases fs) auto
    note s = o(3)[unfolded fs]
    note t = take_free_ok[OF s]
    define mq' where "mq' = mq_append n (mq_copy n m (set_mnext n None (mq\<lparr>mq_free := mq_next mq n\<rparr>)))"
    note a = append_ok[OF s b, folded mq'_def]
    obtain S' where S': "mq_store i mq' S = Inr (Returned RT_EOK, S')" "queue_ok idle g T i S'" "queues S' i = Some mq'"
      by (rule mq_store_ok[OF o(1,2,4-6) a(1,2)]) blast
    have "mq_free mq \<noteq> None" using t(1) by (cases "mq_free mq") (simp_all add: mq_take_free_def)
    then have "rt_mq_send i m S = Inr (Returned RT_EOK, S')"
      using o(2) m(1) b t(1) S'(1) by (simp add: rt_mq_send_def rt_mq_send_wait_def get_mq_def mq_send_loop_def mq'_def)
    moreover have "length (mq_data mq n) = unat (mq_msg_size mq)" using s t(5) by (simp add: mq_slots_def)
    moreover have "queue_list i S' = queue_list i S @ [m @ drop (length m) (mq_data mq n)]"
      using S'(3) mq_list_slots[OF a(1)] md[OF t(2)] by (simp add: queue_list_def[of i S'] l a(3))
    moreover have "queue_cap i S' = queue_cap i S" "queue_size i S' = queue_size i S"
      using S'(3) a(2) by (simp_all add: queue_cap_def[of i S'] queue_size_def[of i S'] l mq_same_def)
    ultimately show ?thesis using S'(2) b by (intro exI[of _ S'] exI[of _ "drop (length m) (mq_data mq n)"]) (simp add: l)
  qed
  show "\<exists>S' rest. rt_mq_urgent i m S = Inr (Returned RT_EOK, S') \<and> queue_ok idle g T i S' \<and> queue_cap i S' = queue_cap i S
    \<and> queue_size i S' = queue_size i S \<and> queue_list i S' = (m @ rest) # queue_list i S \<and> length (m @ rest) = queue_size i S"
    if room: "length (queue_list i S) < queue_cap i S"
  proof -
    obtain n fs' where fs: "fs = n # fs'" using room fl by (cases fs) auto
    note s = o(3)[unfolded fs]
    note t = take_free_ok[OF s]
    define mq' where "mq' = mq_prepend n (mq_copy n m (mq\<lparr>mq_free := mq_next mq n\<rparr>))"
    note a = prepend_ok[OF s b, folded mq'_def]
    obtain S' where S': "mq_store i mq' S = Inr (Returned RT_EOK, S')" "queue_ok idle g T i S'" "queues S' i = Some mq'"
      by (rule mq_store_ok[OF o(1,2,4-6) a(1,2)]) blast
    have "rt_mq_urgent i m S = Inr (Returned RT_EOK, S')"
      using o(2) m(1) b t(1) S'(1) by (simp add: rt_mq_urgent_def get_mq_def mq'_def)
    moreover have "length (mq_data mq n) = unat (mq_msg_size mq)" using s t(5) by (simp add: mq_slots_def)
    moreover have "queue_list i S' = (m @ drop (length m) (mq_data mq n)) # queue_list i S"
      using S'(3) mq_list_slots[OF a(1)] md[OF t(2)] by (simp add: queue_list_def[of i S'] l a(3))
    moreover have "queue_cap i S' = queue_cap i S" "queue_size i S' = queue_size i S"
      using S'(3) a(2) by (simp_all add: queue_cap_def[of i S'] queue_size_def[of i S'] l mq_same_def)
    ultimately show ?thesis using S'(2) b by (intro exI[of _ S'] exI[of _ "drop (length m) (mq_data mq n)"]) (simp add: l)
  qed
  show "rt_mq_send i m S = Inr (Returned (- RT_EFULL), S) \<and> rt_mq_urgent i m S = Inr (Returned (- RT_EFULL), S)"
    if "\<not> length (queue_list i S) < queue_cap i S"
  proof -
    have "mq_free mq = None" using that fl o(3) by (simp add: mq_slots_def)
    then show ?thesis using o(2) m(1) b
      by (simp add: rt_mq_send_def rt_mq_send_wait_def rt_mq_urgent_def get_mq_def mq_take_free_def)
  qed
qed

text \<open>Receiving: the first message, as much of it as the buffer takes.\<close>

lemma queue_receives:
  assumes ok: "queue_ok idle g T i S" and q: "queue_list i S = m # q"
  shows "\<exists>S'. mq_recv_loop i sz timeout S = Inr (Returned RT_EOK, take sz m, S') \<and> queue_ok idle g T i S'
    \<and> queue_cap i S' = queue_cap i S \<and> queue_size i S' = queue_size i S \<and> queue_list i S' = q"
proof -
  obtain L xs mq ms fs where o: "kernel_inv idle (ghost g (kern S)) L T xs" "queues S i = Some mq" "mq_slots mq ms fs"
    "0 < mq_msg_size mq" "g i = Some (dummy (mq_flag mq))" "g (mq_senders mq) = Some (dummy (mq_flag mq))"
    by (rule queue_okE[OF ok])
  have l: "queue_list i S = map (mq_data mq) ms" "queue_cap i S = unat (mq_max_msgs mq)" "queue_size i S = unat (mq_msg_size mq)"
    using o(2) mq_list_slots[OF o(3)] by (simp_all add: queue_list_def queue_cap_def queue_size_def)
  obtain n ms' where ms: "ms = n # ms'" "m = mq_data mq n" "q = map (mq_data mq) ms'" using q l(1) by (cases ms) auto
  note s = o(3)[unfolded ms(1)]
  obtain mq1 where u: "mq_unlink mq = Inr (n, mq1)"
    "mq_slots (mq_release n (mq1\<lparr>mq_entry := mq_entry mq1 - 1\<rparr>)) ms' (n # fs)"
    "mq_same mq (mq_release n (mq1\<lparr>mq_entry := mq_entry mq1 - 1\<rparr>))"
    "mq_data (mq_release n (mq1\<lparr>mq_entry := mq_entry mq1 - 1\<rparr>)) = mq_data mq"
    by (rule unlink_ok[OF s])
  define mq' where "mq' = mq_release n (mq1\<lparr>mq_entry := mq_entry mq1 - 1\<rparr>)"
  have ne: "mq_entry mq \<noteq> 0" using s by (auto simp: mq_slots_def)
  have nl1: "n < unat (mq_max_msgs mq)" using s by (auto simp: mq_slots_def)
  then have nl: "n < unat (mq_max_msgs mq)" "length (mq_data mq n) = unat (mq_msg_size mq)" using s by (simp_all add: mq_slots_def)
  define h where "h = mq_senders mq"
  define S1 where "S1 = upd_mq i (\<lambda>_. mq') S"
  have S1: "kern S1 = kern S" "queues S1 i = Some mq'" using o(2) by (simp_all add: S1_def upd_mq_def)
  have gi: "g h \<noteq> None" using o(6) by (simp add: h_def)
  obtain k' L' xs' where k': "(if \<not> nobody_in h (kern S) then wake_in h (kern S) else Inr (kern S)) = Inr k'"
    "kernel_inv idle (ghost g k') L' T xs'"
    by (rule wake_maybe[OF o(1) gi]) blast
  define S' where "S' = S1\<lparr>kern := k'\<rparr>"
  have buf: "take (min sz (unat (mq_msg_size mq))) (mq_data mq n) = take sz m"
    using nl(2) ms(2) by (simp add: min_def)
  have "(if \<not> nobody_in h (kern S1) then bindE (on_kern (wake_in h) S1) (\<lambda>S2. Inr (Returned RT_EOK, take sz m, S2))
     else Inr (Returned RT_EOK, take sz m, S1)) = Inr (Returned RT_EOK, take sz m, S')"
    using k'(1) by (auto simp: S1(1) on_kern_def S'_def split: if_splits)
  then have "mq_recv_loop i sz timeout S = Inr (Returned RT_EOK, take sz m, S')"
    using o(2) ne u(1)
    by (simp add: mq_recv_loop_def get_mq_def Let_def buf flip: mq'_def S1_def h_def split del: if_split cong: if_cong)
  moreover have "queue_ok idle g T i S'"
    unfolding queue_ok_def using k'(2) S1(2) u(2,3)[folded mq'_def] o(4-6) by (auto simp: S'_def mq_same_def)
  moreover have "queue_list i S' = q" "queue_cap i S' = queue_cap i S" "queue_size i S' = queue_size i S"
    using S1(2) mq_list_slots[OF u(2)[folded mq'_def]] u(3,4)[folded mq'_def] ms(3)
    by (simp_all add: S'_def queue_list_def[of i "S1\<lparr>kern := k'\<rparr>"] queue_cap_def[of i "S1\<lparr>kern := k'\<rparr>"]
        queue_size_def[of i "S1\<lparr>kern := k'\<rparr>"] l mq_same_def)
  ultimately show ?thesis by blast
qed

section \<open>A message queue is a bounded queue that takes urgent messages\<close>

definition mq_try_send :: "nat \<Rightarrow> u8 list \<Rightarrow> ipc \<Rightarrow> (bool \<times> ipc) res" where
  "mq_try_send i m S = bindE (rt_mq_send i m S) (\<lambda>(r, S'). Inr (r = Returned RT_EOK, S'))"

definition mq_try_urgent :: "nat \<Rightarrow> u8 list \<Rightarrow> ipc \<Rightarrow> (bool \<times> ipc) res" where
  "mq_try_urgent i m S = bindE (rt_mq_urgent i m S) (\<lambda>(r, S'). Inr (r = Returned RT_EOK, S'))"

definition mq_try_recv :: "nat \<Rightarrow> nat \<Rightarrow> ipc \<Rightarrow> (u8 list option \<times> ipc) res" where
  "mq_try_recv i sz S =
     bindE (rt_mq_recv i sz 0 S) (\<lambda>(r, buf, S'). Inr (if r = Returned RT_EOK then Some buf else None, S'))"

definition queue_of :: "nat \<Rightarrow> (nat \<Rightarrow> rt_sem option) \<Rightarrow> nat set \<Rightarrow> nat \<Rightarrow> nat \<Rightarrow> ipc \<Rightarrow> bool" where
  "queue_of idle g T i sz S \<longleftrightarrow> queue_ok idle g T i S \<and> queue_size i S = sz \<and> 0 < sz \<and> (\<forall>m\<in>set (queue_list i S). length m = sz)"

interpretation mqq: urgent_queue "mq_try_send i" "mq_try_recv i sz" "queue_of idle g T i sz" "queue_list i" "queue_cap i"
    "\<lambda>_ m. length m = sz" "mq_try_urgent i"
  for i sz idle g T
proof
  fix S and m :: "u8 list" assume a: "queue_of idle g T i sz S" "length m = sz"
  then have o: "queue_ok idle g T i S" "m \<noteq> []" "length m \<le> queue_size i S" "queue_size i S = sz"
    "\<forall>m\<in>set (queue_list i S). length m = sz" by (auto simp: queue_of_def)
  show "\<exists>S'. mq_try_send i m S = Inr (length (queue_list i S) < queue_cap i S, S') \<and> queue_of idle g T i sz S'
      \<and> queue_cap i S' = queue_cap i S \<and> (\<lambda>m. length m = sz) = (\<lambda>m :: u8 list. length m = sz)
      \<and> queue_list i S' = (if length (queue_list i S) < queue_cap i S then queue_list i S @ [m] else queue_list i S)"
    using queue_sends(1,3)[OF o(1-3)] a o(4,5)
    by (cases "length (queue_list i S) < queue_cap i S") (auto simp: mq_try_send_def queue_of_def)
next
  fix S assume a: "queue_of idle g T i sz S"
  then have o: "queue_ok idle g T i S" "queue_size i S = sz" "0 < sz" "\<forall>m\<in>set (queue_list i S). length m = sz"
    by (auto simp: queue_of_def)
  obtain L xs mq ms fs where q: "queues S i = Some mq" "mq_slots mq ms fs" by (rule queue_okE[OF o(1)])
  have e: "mq_entry mq = 0 \<longleftrightarrow> queue_list i S = []"
    using q mq_list_slots[OF q(2)] by (auto simp: queue_list_def mq_slots_def unat_eq_zero)
  show "\<exists>S'. mq_try_recv i sz S = Inr (case queue_list i S of [] \<Rightarrow> None | m # _ \<Rightarrow> Some m, S') \<and> queue_of idle g T i sz S'
      \<and> queue_cap i S' = queue_cap i S \<and> (\<lambda>m. length m = sz) = (\<lambda>m :: u8 list. length m = sz)
      \<and> queue_list i S' = tl (queue_list i S)"
  proof (cases "queue_list i S")
    case Nil
    then show ?thesis using a e q(1) o(3) by (simp add: mq_try_recv_def rt_mq_recv_def get_mq_def)
  next
    case (Cons m q')
    obtain S' where S': "mq_recv_loop i sz 0 S = Inr (Returned RT_EOK, take sz m, S')" "queue_ok idle g T i S'"
      "queue_cap i S' = queue_cap i S" "queue_size i S' = queue_size i S" "queue_list i S' = q'"
      using queue_receives[OF o(1) Cons] by blast
    moreover have "take sz m = m" using o(4) Cons by simp
    ultimately show ?thesis
      using Cons e q(1) o by (auto simp: mq_try_recv_def rt_mq_recv_def get_mq_def queue_of_def)
  qed
next
  fix S assume "queue_of idle g T i sz S"
  then have ok: "queue_ok idle g T i S" "replicate sz 0 \<noteq> ([] :: u8 list)" "length (replicate sz (0 :: u8)) \<le> queue_size i S"
    by (auto simp: queue_of_def)
  show "length (queue_list i S) \<le> queue_cap i S" by (rule queue_sends(4)[OF ok])
next
  fix S and m :: "u8 list" assume a: "queue_of idle g T i sz S" "length m = sz"
  then have o: "queue_ok idle g T i S" "m \<noteq> []" "length m \<le> queue_size i S" "queue_size i S = sz"
    "\<forall>m\<in>set (queue_list i S). length m = sz" by (auto simp: queue_of_def)
  show "\<exists>S'. mq_try_urgent i m S = Inr (length (queue_list i S) < queue_cap i S, S') \<and> queue_of idle g T i sz S'
      \<and> queue_cap i S' = queue_cap i S \<and> (\<lambda>m. length m = sz) = (\<lambda>m :: u8 list. length m = sz)
      \<and> queue_list i S' = (if length (queue_list i S) < queue_cap i S then m # queue_list i S else queue_list i S)"
    using queue_sends(2,3)[OF o(1-3)] a o(4,5)
    by (cases "length (queue_list i S) < queue_cap i S") (auto simp: mq_try_urgent_def queue_of_def)
qed

section \<open>Sessions with messages and buffers of any size\<close>

datatype mq_op = Qsend "u8 list" | Qurgent "u8 list" | Qrecv nat

datatype mq_answer = Sent outcome | Got outcome "u8 list"

definition mq_do :: "nat \<Rightarrow> mq_op \<Rightarrow> ipc \<Rightarrow> (mq_answer \<times> ipc) res" where
  "mq_do i c S = (case c of
       Qsend m \<Rightarrow> bindE (rt_mq_send i m S) (\<lambda>(r, S'). Inr (Sent r, S'))
     | Qurgent m \<Rightarrow> bindE (rt_mq_urgent i m S) (\<lambda>(r, S'). Inr (Sent r, S'))
     | Qrecv n \<Rightarrow> bindE (rt_mq_recv i n 0 S) (\<lambda>(r, buf, S'). Inr (Got r buf, S')))"

fun run_mq :: "nat \<Rightarrow> mq_op list \<Rightarrow> ipc \<Rightarrow> (mq_answer list \<times> ipc) res" where
  "run_mq i [] S = Inr ([], S)"
| "run_mq i (c # cs) S = bindE (mq_do i c S) (\<lambda>(a, S1). bindE (run_mq i cs S1) (\<lambda>(as, S2). Inr (a # as, S2)))"

text \<open>A message is stored in a slot when it is the start of what the slot has.\<close>

definition slot_of :: "nat \<Rightarrow> u8 list \<Rightarrow> u8 list \<Rightarrow> bool" where
  "slot_of sz m d \<longleftrightarrow> length d = sz \<and> take (length m) d = m"

text \<open>What a call may answer and leave, on the list of the slots with the oldest message first: a message
  longer than a slot and one too many are refused with an error of their own.\<close>

definition mq_sends :: "nat \<Rightarrow> nat \<Rightarrow> u8 list \<Rightarrow> u8 list list \<Rightarrow> (u8 list \<Rightarrow> u8 list list) \<Rightarrow> mq_answer \<Rightarrow> u8 list list \<Rightarrow> bool" where
  "mq_sends sz cap m q put a q' =
     (if sz < length m then a = Sent (Returned (- RT_ERROR)) \<and> q' = q
      else if length q < cap then a = Sent (Returned RT_EOK) \<and> (\<exists>d. slot_of sz m d \<and> q' = put d)
      else a = Sent (Returned (- RT_EFULL)) \<and> q' = q)"

fun mq_step :: "nat \<Rightarrow> nat \<Rightarrow> mq_op \<Rightarrow> u8 list list \<Rightarrow> mq_answer \<Rightarrow> u8 list list \<Rightarrow> bool" where
  "mq_step sz cap (Qsend m) q a q' = mq_sends sz cap m q (\<lambda>d. q @ [d]) a q'"
| "mq_step sz cap (Qurgent m) q a q' = mq_sends sz cap m q (\<lambda>d. d # q) a q'"
| "mq_step sz cap (Qrecv n) [] a q' = (a = Got (Returned (- RT_ETIMEOUT)) [] \<and> q' = [])"
| "mq_step sz cap (Qrecv n) (d # q) a q' = (a = Got (Returned RT_EOK) (take n d) \<and> q' = q)"

inductive mq_runs :: "nat \<Rightarrow> nat \<Rightarrow> u8 list list \<Rightarrow> mq_op list \<Rightarrow> mq_answer list \<Rightarrow> u8 list list \<Rightarrow> bool" for sz cap where
  mq_runs_nil: "mq_runs sz cap q [] [] q"
| mq_runs_step: "mq_step sz cap c q a q1 \<Longrightarrow> mq_runs sz cap q1 cs as q2 \<Longrightarrow> mq_runs sz cap q (c # cs) (a # as) q2"

inductive_simps mq_runs_simps: "mq_runs sz cap q [] as q'" "mq_runs sz cap q (c # cs) as q'"

text \<open>No bytes and no room are arguments the code asserts against.\<close>

fun mq_sane :: "mq_op \<Rightarrow> bool" where
  "mq_sane (Qsend m) = (m \<noteq> [])"
| "mq_sane (Qurgent m) = (m \<noteq> [])"
| "mq_sane (Qrecv n) = (n \<noteq> 0)"

lemma queue_empty:
  assumes "queue_ok idle g T i S" "queues S i = Some mq"
  shows "mq_entry mq = 0 \<longleftrightarrow> queue_list i S = []"
proof -
  obtain ms fs where s: "mq_slots mq ms fs" using assms by (auto elim!: queue_okE)
  then show ?thesis using assms(2) mq_list_slots[OF s] by (auto simp: queue_list_def mq_slots_def unat_eq_zero)
qed

lemma mq_do_ok:
  assumes ok: "queue_ok idle g T i S"
  shows "mq_sane c \<Longrightarrow> \<exists>a S'. mq_do i c S = Inr (a, S') \<and> queue_ok idle g T i S' \<and> queue_cap i S' = queue_cap i S
      \<and> queue_size i S' = queue_size i S \<and> mq_step (queue_size i S) (queue_cap i S) c (queue_list i S) a (queue_list i S')"
    "rt_mq_send i [] S = Inl Assert_Failed" "rt_mq_urgent i [] S = Inl Assert_Failed" "rt_mq_recv i 0 0 S = Inl Assert_Failed"
    "length (queue_list i S) \<le> queue_cap i S"
proof -
  obtain L xs mq ms fs where q: "queues S i = Some mq" "mq_slots mq ms fs" "0 < mq_msg_size mq" by (rule queue_okE[OF ok])
  have sz: "queue_size i S = unat (mq_msg_size mq)" using q(1) by (simp add: queue_size_def)
  have s1: "[0] \<noteq> ([] :: u8 list)" "length [0 :: u8] \<le> queue_size i S"
    using q(3) by (simp_all add: sz word_less_nat_alt)
  show "length (queue_list i S) \<le> queue_cap i S" by (rule queue_sends(4)[OF ok s1])
  show "\<exists>a S'. mq_do i c S = Inr (a, S') \<and> queue_ok idle g T i S' \<and> queue_cap i S' = queue_cap i S
      \<and> queue_size i S' = queue_size i S \<and> mq_step (queue_size i S) (queue_cap i S) c (queue_list i S) a (queue_list i S')"
    if sane: "mq_sane c"
  proof (cases "\<exists>m. (c = Qsend m \<or> c = Qurgent m) \<and> queue_size i S < length m")
    case True
    then show ?thesis using q(1) sane ok
      by (auto simp: mq_do_def mq_sends_def rt_mq_send_def rt_mq_send_wait_def rt_mq_urgent_def get_mq_def sz assertE_def)
  next
    case False
    show ?thesis
    proof (cases c)
      case (Qsend m)
      then have m: "m \<noteq> []" "length m \<le> queue_size i S" using False sane by auto
      show ?thesis
      proof (cases "length (queue_list i S) < queue_cap i S")
        case True
        from queue_sends(1)[OF ok m True] obtain S' rest where "rt_mq_send i m S = Inr (Returned RT_EOK, S')"
          "queue_ok idle g T i S'" "queue_cap i S' = queue_cap i S" "queue_size i S' = queue_size i S"
          "queue_list i S' = queue_list i S @ [m @ rest]" "length (m @ rest) = queue_size i S" by blast
        then show ?thesis using True m Qsend by (auto simp: mq_do_def mq_sends_def slot_of_def)
      next
        case False
        then show ?thesis using queue_sends(3)[OF ok m False] m ok Qsend by (simp add: mq_do_def mq_sends_def)
      qed
    next
      case (Qurgent m)
      then have m: "m \<noteq> []" "length m \<le> queue_size i S" using False sane by auto
      show ?thesis
      proof (cases "length (queue_list i S) < queue_cap i S")
        case True
        from queue_sends(2)[OF ok m True] obtain S' rest where "rt_mq_urgent i m S = Inr (Returned RT_EOK, S')"
          "queue_ok idle g T i S'" "queue_cap i S' = queue_cap i S" "queue_size i S' = queue_size i S"
          "queue_list i S' = (m @ rest) # queue_list i S" "length (m @ rest) = queue_size i S" by blast
        then show ?thesis using True m Qurgent by (auto simp: mq_do_def mq_sends_def slot_of_def)
      next
        case False
        then show ?thesis using queue_sends(3)[OF ok m False] m ok Qurgent by (simp add: mq_do_def mq_sends_def)
      qed
    next
      case (Qrecv n)
      have e: "mq_entry mq = 0 \<longleftrightarrow> queue_list i S = []" by (rule queue_empty[OF ok q(1)])
      show ?thesis
      proof (cases "queue_list i S")
        case Nil
        then show ?thesis using e q(1) ok sane Qrecv by (simp add: mq_do_def rt_mq_recv_def get_mq_def assertE_def)
      next
        case (Cons d q')
        obtain S' where "mq_recv_loop i n 0 S = Inr (Returned RT_EOK, take n d, S')" "queue_ok idle g T i S'"
          "queue_cap i S' = queue_cap i S" "queue_size i S' = queue_size i S" "queue_list i S' = q'"
          using queue_receives[OF ok Cons] by blast
        then show ?thesis using e Cons q(1) sane Qrecv by (simp add: mq_do_def rt_mq_recv_def get_mq_def assertE_def)
      qed
    qed
  qed
  show "rt_mq_send i [] S = Inl Assert_Failed" "rt_mq_urgent i [] S = Inl Assert_Failed" "rt_mq_recv i 0 0 S = Inl Assert_Failed"
    using q(1) by (simp_all add: rt_mq_send_def rt_mq_send_wait_def rt_mq_urgent_def rt_mq_recv_def get_mq_def assertE_def)
qed

lemma run_mq_ok:
  "queue_ok idle g T i S \<Longrightarrow> list_all mq_sane cs \<Longrightarrow>
   \<exists>as S'. run_mq i cs S = Inr (as, S') \<and> queue_ok idle g T i S' \<and> queue_cap i S' = queue_cap i S
     \<and> queue_size i S' = queue_size i S \<and> mq_runs (queue_size i S) (queue_cap i S) (queue_list i S) cs as (queue_list i S')"
proof (induction cs arbitrary: S)
  case Nil
  then show ?case by (simp add: mq_runs_nil)
next
  case (Cons c cs)
  then have sane: "mq_sane c" "list_all mq_sane cs" by simp_all
  obtain a S1 where S1: "mq_do i c S = Inr (a, S1)" "queue_ok idle g T i S1" "queue_cap i S1 = queue_cap i S"
    "queue_size i S1 = queue_size i S" "mq_step (queue_size i S) (queue_cap i S) c (queue_list i S) a (queue_list i S1)"
    using mq_do_ok(1)[OF Cons.prems(1) sane(1)] by blast
  obtain as S2 where S2: "run_mq i cs S1 = Inr (as, S2)" "queue_ok idle g T i S2" "queue_cap i S2 = queue_cap i S1"
    "queue_size i S2 = queue_size i S1" "mq_runs (queue_size i S1) (queue_cap i S1) (queue_list i S1) cs as (queue_list i S2)"
    using Cons.IH[OF S1(2) sane(2)] by blast
  have "mq_runs (queue_size i S) (queue_cap i S) (queue_list i S) (c # cs) (a # as) (queue_list i S2)"
    using mq_runs_step[OF S1(5)] S2(5) S1(3,4) by simp
  then show ?case using S1 S2 by simp
qed

end
