(* ===== verification/Event.thy ===== *)
theory Event
  imports Ipc_Queue
begin

text \<open>
  Events: what a send does to the threads that wait, against a specification over sets of event numbers
  that goes over the threads in the order of the list.
\<close>

section \<open>The specification\<close>

text \<open>The events of a word, by their numbers.\<close>

definition events_in :: "u32 \<Rightarrow> nat set" where
  "events_in w = set (filter (bit w) [0..<32])"

text \<open>What a thread is granted: one that wants all of its events gets them when all are there, one that
  wants any of them gets those that are there, and nothing else lets it go on. Bit 0 of the options asks
  for all, bit 1 for any, and all goes first.\<close>

definition event_grant :: "u8 \<Rightarrow> nat set \<Rightarrow> nat set \<Rightarrow> nat set option" where
  "event_grant info wanted present =
     (if bit info 0 then (if wanted \<subseteq> present then Some wanted else None)
      else if bit info 1 then (if wanted \<inter> present \<noteq> {} then Some (wanted \<inter> present) else None)
      else None)"

text \<open>The threads that go on, with the events they get, and the events that are left: a thread that
  clears (bit 2) takes its events from those behind it.\<close>

fun event_spec :: "(nat \<Rightarrow> u8) \<Rightarrow> (nat \<Rightarrow> nat set) \<Rightarrow> nat list \<Rightarrow> nat set \<Rightarrow> (nat \<times> nat set) list \<times> nat set" where
  "event_spec info want [] es = ([], es)"
| "event_spec info want (t # ts) es =
     (case event_grant (info t) (want t) es of
        None \<Rightarrow> event_spec info want ts es
      | Some w \<Rightarrow> (let (r, rest) = event_spec info want ts (if bit (info t) 2 then es - w else es) in ((t, w) # r, rest)))"

section \<open>The words of the code\<close>

text \<open>The same on words, with the match of the code.\<close>

fun event_words :: "(nat \<Rightarrow> u8) \<Rightarrow> (nat \<Rightarrow> u32) \<Rightarrow> nat list \<Rightarrow> u32 \<Rightarrow> (nat \<times> u32) list \<times> u32" where
  "event_words info want [] es = ([], es)"
| "event_words info want (t # ts) es =
     (let (got, w) = event_got (info t) (want t) es in
      if got
      then (let (r, rest) = event_words info want ts (if info t AND RT_EVENT_FLAG_CLEAR \<noteq> 0 then es AND NOT w else es)
            in ((t, w) # r, rest))
      else event_words info want ts es)"

lemma in_events_in: "n \<in> events_in w \<longleftrightarrow> bit w n"
  using bit_imp_le_length[of w n] by (auto simp: events_in_def)

lemma events_in_ops:
  "events_in (v OR w) = events_in v \<union> events_in w" "events_in (v AND w) = events_in v \<inter> events_in w"
  "events_in (v AND NOT w) = events_in v - events_in w"
  unfolding set_eq_iff in_events_in Un_iff Int_iff Diff_iff
  using bit_imp_le_length[of v] by (auto simp: bit_simps)

lemma events_in_eq: "events_in v = events_in w \<longleftrightarrow> v = w"
  unfolding set_eq_iff in_events_in bit_eq_iff using bit_imp_le_length[of v] bit_imp_le_length[of w] by auto

lemma events_in_0: "events_in v = {} \<longleftrightarrow> v = 0"
  using events_in_eq[of v 0] by (simp add: events_in_def)

lemma events_in_subset: "events_in v \<subseteq> events_in w \<longleftrightarrow> v AND w = v"
  unfolding events_in_eq[of "v AND w" v, symmetric] events_in_ops by auto

lemma flag_bit: "w AND push_bit n 1 \<noteq> 0 \<longleftrightarrow> bit w n" for w :: "'a :: len word"
  by (metis and_exp_eq_0_iff_not_bit push_bit_of_1)

lemma event_flags:
  "info AND RT_EVENT_FLAG_AND \<noteq> 0 \<longleftrightarrow> bit info 0" "info AND RT_EVENT_FLAG_OR \<noteq> 0 \<longleftrightarrow> bit info 1"
  "info AND RT_EVENT_FLAG_CLEAR \<noteq> 0 \<longleftrightarrow> bit info 2" for info :: u8
  using flag_bit[of info 0] flag_bit[of info 1] flag_bit[of info 2] by simp_all

text \<open>The match of the code grants what the specification grants.\<close>

lemma event_got_grant:
  "event_got info wanted es = (got, v) \<Longrightarrow>
   event_grant info (events_in wanted) (events_in es) = (if got then Some (events_in v) else None)"
  by (auto simp: event_got_def event_grant_def events_in_subset event_flags events_in_0 simp flip: events_in_ops(2)
      split: if_splits)

lemma event_words_spec:
  "event_words info want ts es = (r, rest) \<Longrightarrow>
   event_spec info (\<lambda>t. events_in (want t)) ts (events_in es) = (map (\<lambda>(t, w). (t, events_in w)) r, events_in rest)"
proof (induction ts arbitrary: es r rest)
  case (Cons t ts)
  obtain got v where gv: "event_got (info t) (want t) es = (got, v)" by (rule prod.exhaust)
  note grant = event_got_grant[OF gv]
  define es' where "es' = (if info t AND RT_EVENT_FLAG_CLEAR \<noteq> 0 then es AND NOT v else es)"
  obtain r' rest' where r': "event_words info want ts es' = (r', rest')" by (rule prod.exhaust)
  have e: "events_in es' = (if bit (info t) 2 then events_in es - events_in v else events_in es)"
    by (simp add: es'_def event_flags events_in_ops(3))
  show ?case
  proof (cases got)
    case True
    then have "r = (t, v) # r'" "rest = rest'" using Cons.prems gv r' by (simp_all add: Let_def flip: es'_def)
    then show ?thesis using True grant Cons.IH[OF r'] by (simp add: e)
  next
    case False
    then have "event_words info want ts es = (r, rest)" using Cons.prems gv by simp
    then show ?thesis using False grant Cons.IH by simp
  qed
qed simp

lemma event_words_thread: "(t, w) \<in> set (fst (event_words info want ts es)) \<Longrightarrow> t \<in> set ts"
proof (induction ts arbitrary: es)
  case (Cons u ts)
  obtain got v where gv: "event_got (info u) (want u) es = (got, v)" by (rule prod.exhaust)
  define es' where "es' = (if info u AND RT_EVENT_FLAG_CLEAR \<noteq> 0 then es AND NOT v else es)"
  obtain r rest where r: "event_words info want ts es' = (r, rest)" by (rule prod.exhaust)
  show ?case
  proof (cases got)
    case True
    then have "(t, w) = (u, v) \<or> (t, w) \<in> set r" using Cons.prems gv r by (simp add: Let_def flip: es'_def)
    then show ?thesis using Cons.IH[of es'] r by auto
  next
    case False
    then show ?thesis using Cons.IH[of es] Cons.prems gv by simp
  qed
qed simp

lemma event_words_threads: "fst ` set (fst (event_words info want ts es)) \<subseteq> set ts"
  using event_words_thread by fastforce

lemma event_words_cong: "\<forall>t\<in>set ts. info t = info' t \<and> want t = want' t \<Longrightarrow> event_words info want ts es = event_words info' want' ts es"
  by (induction ts arbitrary: es) (simp_all add: Let_def split: prod.splits)

lemma event_got_not: "event_got info w es = (False, v) \<Longrightarrow> v = w"
  by (auto simp: event_got_def split: if_splits)

section \<open>The walk\<close>

lemma event_walk_ok:
  assumes "kernel_pre idle (ghost g (kern S)) L T xs" "events S i = Some ev" "g i \<noteq> None" "L (Waiters i) = us @ vs"
    "event_words (event_info S) (event_set S) vs (ev_set ev) = (woken, rest)"
  shows "\<exists>S' L' xs'. event_walk i (hd (map Thread vs @ [Waiters i])) need S = Some (Inr (need \<or> woken \<noteq> [], S'))
    \<and> kernel_pre idle (ghost g (kern S')) L' T xs' \<and> events S' i = Some (ev\<lparr>ev_set := rest\<rparr>)
    \<and> L' (Waiters i) = us @ filter (\<lambda>t. t \<notin> fst ` set woken) vs
    \<and> (\<forall>x. cls (client (kern S')) x = (if x \<in> fst ` set woken then RT_THREAD_READY else cls (client (kern S)) x))
    \<and> (\<forall>x. th_error (threads (client (kern S')) x) = th_error (threads (client (kern S)) x))
    \<and> (\<forall>(t, w) \<in> set woken. event_set S' t = w) \<and> (\<forall>t. t \<notin> fst ` set woken \<longrightarrow> event_set S' t = event_set S t)
    \<and> (woken = [] \<longrightarrow> kern S' = kern S)"
  using assms
proof (induction vs arbitrary: S L xs us ev need woken)
  case Nil
  then have "woken = []" "rest = ev_set ev" by simp_all
  then show ?case using Nil.prems by (subst event_walk.simps) auto
next
  case (Cons v vs)
  note n = waiting_next[OF Cons.prems(1,3,4)]
  obtain got w where gw: "event_got (event_info S v) (event_set S v) (ev_set ev) = (got, w)" by (rule prod.exhaust)
  have hd: "hd (map Thread (v # vs) @ [Waiters i]) = Thread v" by simp
  show ?case
  proof (cases got)
    case False
    then have w: "w = event_set S v" using gw event_got_not[of "event_info S v" "event_set S v" "ev_set ev" w] by simp
    then have S1: "S\<lparr>event_set := (event_set S)(v := w)\<rparr> = S" by simp
    have sp: "event_words (event_info S) (event_set S) vs (ev_set ev) = (woken, rest)" using Cons.prems(5) gw False by simp
    have L: "L (Waiters i) = (us @ [v]) @ vs" using Cons.prems(4) by simp
    have nv: "v \<notin> fst ` set woken" using event_words_threads[of "event_info S" "event_set S" vs "ev_set ev"] sp n(5) by auto
    have "event_walk i (Thread v) need S = event_walk i (hd (map Thread vs @ [Waiters i])) need S"
      using Cons.prems(2) gw False S1 n(1) by (subst event_walk.simps) (simp add: Let_def)
    then show ?thesis using Cons.IH[OF Cons.prems(1-3) L sp, of need] nv unfolding hd by simp
  next
    case True
    define es where "es = (if event_info S v AND RT_EVENT_FLAG_CLEAR \<noteq> 0 then ev_set ev AND NOT w else ev_set ev)"
    obtain r where sp: "event_words (event_info S) (event_set S) vs es = (r, rest)" "woken = (v, w) # r"
      using Cons.prems(5) gw True by (auto simp: Let_def es_def split: prod.splits)
    define S1 where "S1 = S\<lparr>event_set := (event_set S)(v := w)\<rparr>"
    define S2 where "S2 = (if event_info S v AND RT_EVENT_FLAG_CLEAR \<noteq> 0
      then upd_event i (\<lambda>ev. ev\<lparr>ev_set := ev_set ev AND NOT w\<rparr>) S1 else S1)"
    have S2: "kern S2 = kern S" "events S2 i = Some (ev\<lparr>ev_set := es\<rparr>)" "event_set S2 = (event_set S)(v := w)"
      "event_info S2 = event_info S"
      using Cons.prems(2) by (simp_all add: S2_def S1_def upd_event_def es_def)
    obtain k' L' xs' where k': "rt_thread_resume v (kern S) = Inr (RT_EOK, k')" "kernel_pre idle (ghost g k') L' T xs'"
      "\<And>x. cls (client k') x = (if x = v then RT_THREAD_READY else cls (client (kern S)) x)"
      "\<And>i. g i \<noteq> None \<Longrightarrow> L' (Waiters i) = filter (\<lambda>x. x \<noteq> v) (L (Waiters i))"
      "\<And>x. th_error (threads (client k') x) = th_error (threads (client (kern S)) x)"
      by (rule resume_ghost[OF Cons.prems(1) n(2,3)]) blast
    define S3 where "S3 = S2\<lparr>kern := k'\<rparr>"
    have S3: "kern S3 = k'" "events S3 i = Some (ev\<lparr>ev_set := es\<rparr>)" "event_set S3 = (event_set S)(v := w)"
      "event_info S3 = event_info S" using S2 by (simp_all add: S3_def)
    have keep: "filter (\<lambda>x. x \<noteq> v) us = us" "filter (\<lambda>x. x \<noteq> v) vs = vs" using n(4,5) by (auto simp: filter_id_conv)
    have L': "L' (Waiters i) = us @ vs" using k'(4)[OF Cons.prems(3)] Cons.prems(4) keep by simp
    have sp3: "event_words (event_info S3) (event_set S3) vs (ev_set (ev\<lparr>ev_set := es\<rparr>)) = (r, rest)"
      using sp(1) event_words_cong[of vs "event_info S3" "event_info S" "event_set S3" "event_set S" es] n(5)
      by (auto simp: S3)
    have pre3: "kernel_pre idle (ghost g (kern S3)) L' T xs'" using k'(2) by (simp add: S3)
    have step: "event_walk i (Thread v) need S = event_walk i (hd (map Thread vs @ [Waiters i])) True S3"
      using Cons.prems(2) gw True k'(1) n(1) S2(1)
      by (subst event_walk.simps) (simp add: Let_def S3_def S2_def S1_def upd_event_def split del: if_split cong: if_cong)
    obtain S' L'' xs'' where S': "event_walk i (hd (map Thread vs @ [Waiters i])) True S3 = Some (Inr (True, S'))"
      "kernel_pre idle (ghost g (kern S')) L'' T xs''" "events S' i = Some (ev\<lparr>ev_set := rest\<rparr>)"
      "L'' (Waiters i) = us @ filter (\<lambda>t. t \<notin> fst ` set r) vs"
      "\<forall>x. cls (client (kern S')) x = (if x \<in> fst ` set r then RT_THREAD_READY else cls (client (kern S3)) x)"
      "\<forall>x. th_error (threads (client (kern S')) x) = th_error (threads (client (kern S3)) x)"
      "\<forall>(t, w) \<in> set r. event_set S' t = w" "\<forall>t. t \<notin> fst ` set r \<longrightarrow> event_set S' t = event_set S3 t"
      using Cons.IH[OF pre3 S3(2) Cons.prems(3) L' sp3, of True] by auto
    have nr: "v \<notin> fst ` set r" using event_words_threads[of "event_info S" "event_set S" vs es] sp(1) n(5) by auto
    have "filter (\<lambda>t. t \<notin> fst ` set woken) (v # vs) = filter (\<lambda>t. t \<notin> fst ` set r) vs"
      using n(5) by (auto simp: sp(2) intro: filter_cong)
    moreover have "cls (client (kern S')) x = (if x \<in> fst ` set woken then RT_THREAD_READY else cls (client (kern S)) x)" for x
      using S'(5) k'(3) by (simp add: sp(2) S3(1))
    moreover have "th_error (threads (client (kern S')) x) = th_error (threads (client (kern S)) x)" for x
      using S'(6) k'(5) by (simp add: S3(1))
    moreover have "\<forall>(t, w) \<in> set woken. event_set S' t = w" "\<forall>t. t \<notin> fst ` set woken \<longrightarrow> event_set S' t = event_set S t"
      using S'(7,8) nr by (auto simp: sp(2) S3(3))
    ultimately show ?thesis
      using S'(1-4) step by (intro exI[of _ S'] exI[of _ L''] exI[of _ xs'']) (simp add: sp(2))
  qed
qed

section \<open>A send\<close>

definition event_ok :: "nat \<Rightarrow> (nat \<Rightarrow> rt_sem option) \<Rightarrow> nat set \<Rightarrow> nat \<Rightarrow> ipc \<Rightarrow> (snode \<Rightarrow> nat list) \<Rightarrow> bool" where
  "event_ok idle g T i S L \<longleftrightarrow> (\<exists>xs. kernel_inv idle (ghost g (kern S)) L T xs)
     \<and> (\<exists>ev. events S i = Some ev \<and> g i = Some (dummy (ev_flag ev)))"

lemma event_walked:
  assumes ok: "event_ok idle g T i S L" and ev: "events S i = Some ev"
    and sp: "event_words (event_info S) (event_set S) (L (Waiters i)) (ev_set ev) = (woken, rest)"
  obtains S' L' xs' where
    "(if \<not> nobody_in i (kern S) then returns (event_walk i (nxt (sc_links (client (kern S))) (Waiters i)) False S)
      else Inr (False, S)) = Inr (woken \<noteq> [], S')"
    "kernel_pre idle (ghost g (kern S')) L' T xs'" "events S' i = Some (ev\<lparr>ev_set := rest\<rparr>)"
    "L' (Waiters i) = filter (\<lambda>t. t \<notin> fst ` set woken) (L (Waiters i))"
    "\<And>x. cls (client (kern S')) x = (if x \<in> fst ` set woken then RT_THREAD_READY else cls (client (kern S)) x)"
    "\<And>x. th_error (threads (client (kern S')) x) = th_error (threads (client (kern S)) x)"
    "\<And>t w. (t, w) \<in> set woken \<Longrightarrow> event_set S' t = w" "\<And>t. t \<notin> fst ` set woken \<Longrightarrow> event_set S' t = event_set S t"
    "woken = [] \<Longrightarrow> kern S' = kern S"
proof -
  obtain xs where inv: "kernel_inv idle (ghost g (kern S)) L T xs" using ok by (auto simp: event_ok_def)
  have gi: "g i \<noteq> None" using ok by (auto simp: event_ok_def)
  note pre = inv_pre[OF inv]
  have n: "nobody_in i (kern S) \<longleftrightarrow> L (Waiters i) = []" by (rule nobody_iff[OF inv gi])
  have hd: "nxt (sc_links (client (kern S))) (Waiters i) = hd (map Thread (L (Waiters i)) @ [Waiters i])"
    using sc_dlist[OF core_lists[OF ok_core[OF kernel_okD(1)[OF kernel_invD(1)[OF inv]]]], of "Waiters i"] gi
    by (simp add: dlist_def chain_ends)
  obtain S' L' xs' where S': "event_walk i (nxt (sc_links (client (kern S))) (Waiters i)) False S = Some (Inr (woken \<noteq> [], S'))"
    "kernel_pre idle (ghost g (kern S')) L' T xs'" "events S' i = Some (ev\<lparr>ev_set := rest\<rparr>)"
    "L' (Waiters i) = filter (\<lambda>t. t \<notin> fst ` set woken) (L (Waiters i))"
    "\<forall>x. cls (client (kern S')) x = (if x \<in> fst ` set woken then RT_THREAD_READY else cls (client (kern S)) x)"
    "\<forall>x. th_error (threads (client (kern S')) x) = th_error (threads (client (kern S)) x)"
    "\<forall>(t, w) \<in> set woken. event_set S' t = w" "\<forall>t. t \<notin> fst ` set woken \<longrightarrow> event_set S' t = event_set S t"
    "woken = [] \<longrightarrow> kern S' = kern S"
    using event_walk_ok[OF pre ev gi _ sp, of "[]" False] unfolding hd by auto
  show thesis
  proof (cases "L (Waiters i) = []")
    case True
    then have "woken = []" "S' = S" using sp S'(1) hd by (auto simp: event_walk.simps)
    then show thesis using that[of S' L' xs'] S' True n by simp
  next
    case False
    then have run: "(if \<not> nobody_in i (kern S) then returns (event_walk i (nxt (sc_links (client (kern S))) (Waiters i)) False S)
      else Inr (False, S)) = Inr (woken \<noteq> [], S')" using S'(1) n by (simp add: returns_def)
    have w: "event_set S' t = w" if "(t, w) \<in> set woken" for t w using S'(7) that by (auto dest: bspec)
    show thesis using that[OF run S'(2-4)] w S'(5,6,8,9) by simp
  qed
qed

lemma event_send_ok:
  assumes ok: "event_ok idle g T i S L" and ev: "events S i = Some ev" and es: "es \<noteq> 0"
    and sp: "event_words (event_info S) (event_set S) (L (Waiters i)) (ev_set ev OR es) = (woken, rest)"
  obtains S' L' where "rt_event_send i es S = Inr (RT_EOK, S')" "event_ok idle g T i S' L'"
    "events S' i = Some (ev\<lparr>ev_set := rest\<rparr>)"
    "L' (Waiters i) = filter (\<lambda>t. t \<notin> fst ` set woken) (L (Waiters i))"
    "\<And>x. cls (client (kern S')) x = (if x \<in> fst ` set woken then RT_THREAD_READY else cls (client (kern S)) x)"
    "\<And>x. th_error (threads (client (kern S')) x) = th_error (threads (client (kern S)) x)"
    "\<And>t w. (t, w) \<in> set woken \<Longrightarrow> event_set S' t = w" "\<And>t. t \<notin> fst ` set woken \<Longrightarrow> event_set S' t = event_set S t"
proof -
  define S1 where "S1 = upd_event i (\<lambda>ev. ev\<lparr>ev_set := ev_set ev OR es\<rparr>) S"
  have S1: "kern S1 = kern S" "events S1 i = Some (ev\<lparr>ev_set := ev_set ev OR es\<rparr>)" "event_set S1 = event_set S"
    "event_info S1 = event_info S" using ev by (simp_all add: S1_def upd_event_def)
  have ok1: "event_ok idle g T i S1 L" using ok ev S1 by (auto simp: event_ok_def)
  have sp1: "event_words (event_info S1) (event_set S1) (L (Waiters i)) (ev_set (ev\<lparr>ev_set := ev_set ev OR es\<rparr>)) = (woken, rest)"
    using sp S1 by simp
  obtain S2 L2 xs2 where S2: "(if \<not> nobody_in i (kern S1) then returns (event_walk i (nxt (sc_links (client (kern S1))) (Waiters i)) False S1)
      else Inr (False, S1)) = Inr (woken \<noteq> [], S2)"
    "kernel_pre idle (ghost g (kern S2)) L2 T xs2" "events S2 i = Some (ev\<lparr>ev_set := ev_set ev OR es, ev_set := rest\<rparr>)"
    "L2 (Waiters i) = filter (\<lambda>t. t \<notin> fst ` set woken) (L (Waiters i))"
    "\<And>x. cls (client (kern S2)) x = (if x \<in> fst ` set woken then RT_THREAD_READY else cls (client (kern S1)) x)"
    "\<And>x. th_error (threads (client (kern S2)) x) = th_error (threads (client (kern S1)) x)"
    "\<And>t w. (t, w) \<in> set woken \<Longrightarrow> event_set S2 t = w" "\<And>t. t \<notin> fst ` set woken \<Longrightarrow> event_set S2 t = event_set S1 t"
    "woken = [] \<Longrightarrow> kern S2 = kern S1"
    by (rule event_walked[OF ok1 S1(2) sp1]) blast
  have ev2: "events S2 i = Some (ev\<lparr>ev_set := rest\<rparr>)" using S2(3) by simp
  have gi: "g i = Some (dummy (ev_flag ev))" using ok ev by (auto simp: event_ok_def)
  have run: "rt_event_send i es S = bindE (if woken \<noteq> [] then on_kern (on_sched rt_schedule) S2 else Inr S2) (\<lambda>S3. Inr (RT_EOK, S3))"
    using ev es S2(1) unfolding rt_event_send_def get_event_def
    by (simp add: Let_def flip: S1_def split del: if_split cong: if_cong)
  show thesis
  proof (cases "woken = []")
    case True
    then have "rt_event_send i es S = Inr (RT_EOK, S2)" using run by simp
    moreover have "event_ok idle g T i S2 L" using ok1 S2(9)[OF True] ev2 gi by (auto simp: event_ok_def S1(1))
    moreover have "L2 (Waiters i) = L (Waiters i)" using S2(4) True by simp
    ultimately show thesis using that[of S2 L] ev2 S2 S1 True by simp
  next
    case False
    obtain k' L' where k': "on_sched rt_schedule (kern S2) = Inr k'" "kernel_inv idle (ghost g k') L' T xs2"
      "\<And>x. cls (client k') x = cls (client (kern S2)) x" "\<And>i. g i \<noteq> None \<Longrightarrow> L' (Waiters i) = L2 (Waiters i)"
      "\<And>x. th_error (threads (client k') x) = th_error (threads (client (kern S2)) x)"
      by (rule schedule_ghost[OF S2(2)]) blast
    define S' where "S' = S2\<lparr>kern := k'\<rparr>"
    have "rt_event_send i es S = Inr (RT_EOK, S')" using run False k'(1) by (simp add: on_kern_def S'_def)
    moreover have "event_ok idle g T i S' L'" using k'(2) ev2 gi by (auto simp: event_ok_def S'_def)
    moreover have "L' (Waiters i) = L2 (Waiters i)" using k'(4)[of i] gi by simp
    ultimately show thesis using that[of S' L'] ev2 S2 S1 k'(3,5) by (simp add: S'_def)
  qed
qed

end
