(* ===== verification/Priority_Facts.thy ===== *)
theory Priority_Facts
  imports Ipc_Frame
begin

text \<open>
  A change of the priority of a thread that is ready or that runs (\<open>rt_thread_control\<close>), on the
  well-formed kernel: a ready thread goes to the end of the list of its new priority, the running one
  stays where it is.
\<close>

section \<open>On the scheduler\<close>

definition with_prio :: "u8 \<Rightarrow> rt_thread \<Rightarrow> rt_thread" where
  "with_prio p th = th\<lparr>current_priority := p, number_mask := push_bit (unat p) 1\<rparr>"

lemma with_prio_simps [simp]:
  "current_priority (with_prio p th) = p" "stat_of (with_prio p th) = stat_of th" "th_timer (with_prio p th) = th_timer th"
  "th_error (with_prio p th) = th_error th" "set_stat v (with_prio p th) = with_prio p (set_stat v th)"
  "masked (with_prio p th)"
  by (simp_all add: with_prio_def stat_of_def set_stat_def masked_def)

lemma with_prio_fold:
  "upd_thread t (\<lambda>th. th\<lparr>current_priority := p, number_mask := 2 ^ unat p\<rparr>) = upd_thread t (with_prio p)"
  by (simp add: upd_thread_def with_prio_def fun_eq_iff)

lemma th_ok_prio: "th_ok th \<Longrightarrow> unat p < 32 \<Longrightarrow> th_ok (with_prio p th)"
  by (simp add: th_ok_def with_prio_def masked_def)

text \<open>A thread that is not ready stays where it is, in a list of waiting threads or in none.\<close>

lemma still_prio:
  assumes ok: "sched_ok s L T" and t: "t \<in> T" "st s t \<noteq> RT_THREAD_READY" and p: "unat p < 32"
  shows "sched_ok (upd_thread t (with_prio p) s) L T"
proof -
  define s' where "s' = upd_thread t (with_prio p) s"
  have co: "sched_core s L T" by (rule ok_core[OF ok])
  have same: "st s' x = st s x" for x by (simp add: s'_def)
  have h: "heads s' = heads s" "sc_links s' = sc_links s" "ready_group s' = ready_group s" "current_thread s' = current_thread s"
    by (simp_all add: heads_def s'_def)
  have nr: "t \<notin> set (L (Ready q))" if "q < 32" for q
    using core_stat[OF co, of "Ready q" t] t(2) that by auto
  have "th_ok (threads s' x)" if "x \<in> T" for x
    using core_thread[OF co that] th_ok_prio[OF _ p] by (cases "x = t") (simp_all add: s'_def)
  moreover have "prio s' x = q" if "q < 32" "x \<in> set (L (Ready q))" for q x
    using core_prio[OF co that] nr[OF that(1)] that(2) by (cases "x = t") (simp_all add: s'_def)
  ultimately have co': "sched_core s' L T" using co h same unfolding sched_core_def by simp
  have "sched_ok s' L T"
  proof (rule sched_okI[OF co'])
    show "x \<in> set (L (Ready (prio s' x)))" if "x \<in> T" "st s' x = RT_THREAD_READY" for x
      using ok_ready[OF ok that(1)] that(2) t(2) by (cases "x = t") (simp_all add: s'_def)
    show "current_thread s' = Some x" if "x \<in> T" "st s' x = RT_THREAD_RUNNING" for x
      using that ok_running[OF ok] by (simp add: same h)
    show "st s' c \<noteq> RT_THREAD_READY \<and> st s' c \<noteq> RT_THREAD_INIT \<and> (st s' c = RT_THREAD_RUNNING \<longrightarrow> c \<in> T)"
      if "current_thread s' = Some c" for c
      using ok_current[OF ok, of c] that by (simp add: same h)
  qed
  then show ?thesis by (simp add: s'_def)
qed

definition moved :: "sched \<Rightarrow> (snode \<Rightarrow> nat list) \<Rightarrow> nat \<Rightarrow> u8 \<Rightarrow> snode \<Rightarrow> nat list" where
  "moved s L t p = (off t L)(Ready (unat p) := off t L (Ready (unat p)) @ [t])"

lemma ready_prio_sched:
  assumes ok: "sched_ok s L T" and t: "t \<in> T" "st s t = RT_THREAD_READY" and p: "unat p < 32"
  obtains s1 s' where "rt_schedule_remove_thread t s = Inr s1"
    "rt_schedule_insert_thread t (upd_thread t (with_prio p) s1) = Inr s'" "sched_ok s' (moved s L t p) T"
    "sched_frame s s'" "threads s' = (threads s)(t := with_prio p (threads s t))"
proof -
  have co: "sched_core s L T" by (rule ok_core[OF ok])
  have th: "th_ok (threads s t)" by (rule core_thread[OF co t(1)])
  have m: "masked (threads s t)" using th t(2) by (simp add: th_ok_def)
  obtain s1 where s1: "rt_schedule_remove_thread t s = Inr s1" "sched_core s1 (off t L) T" "relinked s s1"
    using core_remove[OF co t(1)] m by blast
  note r = relinkedD[OF s1(3)]
  have n: "in_no_list (heads s1) (off t L) t" using in_no_list_off[OF core_lists[OF co]] r(7) by simp
  define s2 where "s2 = upd_thread t (with_prio p) s1"
  have s2: "heads s2 = heads s1" "threads s2 = (threads s)(t := with_prio p (threads s t))" "current_thread s2 = current_thread s"
    by (simp_all add: s2_def r heads_def)
  have co2: "sched_core s2 (off t L) T"
    unfolding s2_def by (rule core_upd_thread[OF s1(2) n]) (simp add: r th_ok_prio[OF th p])
  have cur: "current_thread s2 \<noteq> Some t" using ok_current(1)[OF ok] t(2) by (auto simp: s2(3))
  obtain s' where s': "rt_schedule_insert_thread t s2 = Inr s'"
    "sched_core s' ((off t L)(Ready (prio s2 t) := off t L (Ready (prio s2 t)) @ [t])) T"
    "relinked (upd_thread t (set_stat RT_THREAD_READY) s2) s'"
    by (rule core_insert[OF co2 t(1) _ _ cur]) (use n s2 in simp_all)
  note r' = relinkedD[OF s'(3)]
  have co': "sched_core s' (moved s L t p) T" using s'(2) by (simp add: moved_def s2(2))
  have fr: "sched_frame s s'" using r r' by (simp add: sched_frame_def s2_def)
  have ths: "threads s' = (threads s)(t := with_prio p (threads s t))"
    using r'(1) s2(2) set_stat_idem[OF t(2)] by simp
  have "sched_ok s' (moved s L t p) T"
  proof (rule sched_okI[OF co'])
    show "x \<in> set (moved s L t p (Ready (prio s' x)))" if x: "x \<in> T" "st s' x = RT_THREAD_READY" for x
    proof (cases "x = t")
      case False
      then have "x \<in> set (L (Ready (prio s x)))" using ok_ready[OF ok x(1)] x(2) by (simp add: ths)
      then show ?thesis using False by (auto simp: ths moved_def off_def)
    qed (simp add: ths moved_def)
    show "current_thread s' = Some x" if x: "x \<in> T" "st s' x = RT_THREAD_RUNNING" for x
      using x ok_running[OF ok x(1)] sched_frameD(5)[OF fr] t(2) by (cases "x = t") (simp_all add: ths)
    show "st s' c \<noteq> RT_THREAD_READY \<and> st s' c \<noteq> RT_THREAD_INIT \<and> (st s' c = RT_THREAD_RUNNING \<longrightarrow> c \<in> T)"
      if c: "current_thread s' = Some c" for c
      using ok_current[OF ok, of c] c sched_frameD(5)[OF fr] by (cases "c = t") (simp_all add: ths)
  qed
  then show thesis using that[OF s1(1) _ _ fr ths] s'(1) by (simp add: s2_def)
qed

section \<open>On the kernel\<close>

text \<open>The lists served by priority stay sorted when the thread waits in none of them.\<close>

definition out_of_order :: "sched \<Rightarrow> (snode \<Rightarrow> nat list) \<Rightarrow> nat \<Rightarrow> bool" where
  "out_of_order s L t \<longleftrightarrow> (\<forall>i sem. sems s i = Some sem \<longrightarrow> sem_flag sem = RT_IPC_FLAG_PRIO \<longrightarrow> t \<notin> set (L (Waiters i)))"

lemma awake_out_of_order: "sched_core s L T \<Longrightarrow> st s t \<noteq> RT_THREAD_SUSPEND \<Longrightarrow> out_of_order s L t"
  using core_stat[of s L T "Waiters _" t] by (fastforce simp: out_of_order_def)

lemma prio_sems_ok:
  assumes se: "sems_ok s L" and t: "out_of_order s L t"
    and s': "sems s' = sems s" "threads s' = (threads s)(t := with_prio p (threads s t))"
    and L': "\<And>i. sems s i \<noteq> None \<Longrightarrow> L' (Waiters i) = L (Waiters i)"
  shows "sems_ok s' L'"
  unfolding sems_ok_def
proof (intro allI impI)
  fix i sem assume "sems s' i = Some sem"
  then have i: "sems s i = Some sem" by (simp add: s'(1))
  then have ok: "sem_ok s sem (L (Waiters i))" "L' (Waiters i) = L (Waiters i)" using se L'[of i] by (simp_all add: sems_ok_def)
  show "sem_ok s' sem (L' (Waiters i))"
  proof (cases "sem_flag sem = RT_IPC_FLAG_PRIO")
    case True
    then have "t \<notin> set (L (Waiters i))" using t i by (simp add: out_of_order_def)
    then have "prio s' x = prio s x" if "x \<in> set (L (Waiters i))" for x using that s'(2) by (cases "x = t") simp_all
    then show ?thesis using sem_ok_cong ok by metis
  next
    case False
    then show ?thesis using ok by (simp add: sem_ok_def)
  qed
qed

lemma moved_waiters:
  assumes co: "sched_core s L T" and t: "st s t = RT_THREAD_READY" and i: "sems s i \<noteq> None"
  shows "moved s L t p (Waiters i) = L (Waiters i)"
proof -
  have "t \<notin> set (L (Waiters i))" using core_stat[OF co, of "Waiters i" t] t i by auto
  then show ?thesis by (simp add: moved_def off_def remove1_idem)
qed

lemma timer_prio:
  assumes m: "timers_match k T xs" and p: "timer_param s = timer_param (client k)"
    and t: "threads s = (threads (client k))(t := with_prio p (threads (client k) t))"
  shows "timers_match (k\<lparr>client := s\<rparr>) T xs"
  by (rule timers_match_client[OF m p]) (auto simp: t)

text \<open>The owner of a mutex gets the priority of the running thread.\<close>

lemma give_ready_ok:
  assumes inv: "kernel_inv idle k L T xs" and l: "lock_nest (client k) = 0" and c: "current_thread (client k) = Some c"
    and t: "t \<in> T" "st (client k) t = RT_THREAD_READY"
    and p: "p = current_priority (threads (client k) c)"
  obtains k' where "give_priority t p k = Inr k'" "kernel_inv idle k' (moved (client k) L t p) T xs"
    "sched_frame (client k) (client k')" "rt_tick k' = rt_tick k" "tm_timer k' = tm_timer k"
    "threads (client k') = (threads (client k))(t := with_prio p (threads (client k) t))"
proof -
  note i = kernel_invD[OF inv]
  have so: "sched_ok (client k) L T" and tm: "timers_match k T xs" using kernel_okD[OF i(1)] by simp_all
  note co = ok_core[OF so]
  have top: "c \<in> T" "st (client k) c = RT_THREAD_RUNNING"
    "\<And>x. x \<in> T \<Longrightarrow> st (client k) x = RT_THREAD_READY \<Longrightarrow> prio (client k) c \<le> prio (client k) x"
    using i(7)[OF l] c by (auto simp: on_top_def)
  have p32: "unat p < 32" using core_thread[OF co top(1)] by (simp add: th_ok_def p)
  obtain s1 s' where s: "rt_schedule_remove_thread t (client k) = Inr s1"
    "rt_schedule_insert_thread t (upd_thread t (with_prio p) s1) = Inr s'" "sched_ok s' (moved (client k) L t p) T"
    "sched_frame (client k) s'" "threads s' = (threads (client k))(t := with_prio p (threads (client k) t))"
    by (rule ready_prio_sched[OF so t p32]) blast
  define k' where "k' = k\<lparr>client := s'\<rparr>"
  have ob: "th_object (threads (client k) t)" using core_thread[OF co t(1)] by (simp add: th_ok_def)
  have run: "give_priority t p k = Inr k'"
    using s(1,2) t(2) ob
    by (simp add: give_priority_def rt_thread_control_def change_priority_def assert_thread_def on_sched_def with_prio_fold
        upd_sched_def k'_def)
  note fr = sched_frameD[OF s(4)]
  have "sems_ok s' (moved (client k) L t p)"
    by (rule prio_sems_ok[OF i(3) awake_out_of_order[OF co] fr(1) s(5)]) (use t(2) moved_waiters[OF co t(2)] in simp_all)
  moreover have "timers_match k' T xs" unfolding k'_def by (rule timer_prio[OF tm fr(2) s(5)])
  moreover have "none_due k' xs" by (rule none_due_same[OF i(2)]) (simp_all add: k'_def)
  moreover have "cls s' x = cls (client k) x" for x by (cases "x = t") (simp_all add: cls_def s(5))
  moreover have "on_top s' T"
  proof -
    have "prio s' c \<le> prio s' x" if x: "x \<in> T" "st s' x = RT_THREAD_READY" for x
      using top(2,3) x t(2) by (cases "x = t"; cases "c = t") (simp_all add: s(5) p)
    then show ?thesis unfolding on_top_def using top(1,2) t(2) c fr(5) by (intro bexI[of _ c]) (auto simp: s(5))
  qed
  ultimately have "kernel_inv idle k' (moved (client k) L t p) T xs"
    using s(3) i fr by (simp add: kernel_inv_def kernel_ok_def k'_def)
  then show thesis using that[OF run] s(4,5) by (simp add: k'_def)
qed

text \<open>A thread that is not ready only gets the new priority; when it is the running thread, the invariant
  holds but for the choice of the thread, until the next scheduling.\<close>

lemma give_still_ok:
  assumes inv: "kernel_inv idle k L T xs" and t: "t \<in> T" "st (client k) t \<noteq> RT_THREAD_READY" "out_of_order (client k) L t"
    and p: "unat p < 32"
  obtains k' where "give_priority t p k = Inr k'" "kernel_pre idle k' L T xs"
    "current_thread (client k) \<noteq> Some t \<Longrightarrow> kernel_inv idle k' L T xs"
    "k' = upd_sched (upd_thread t (with_prio p)) k"
proof -
  note i = kernel_invD[OF inv]
  have so: "sched_ok (client k) L T" and tm: "timers_match k T xs" using kernel_okD[OF i(1)] by simp_all
  note co = ok_core[OF so]
  define s' where "s' = upd_thread t (with_prio p) (client k)"
  define k' where "k' = upd_sched (upd_thread t (with_prio p)) k"
  have k': "k' = k\<lparr>client := s'\<rparr>" by (simp add: k'_def s'_def upd_sched_def)
  have s': "sems s' = sems (client k)" "timer_param s' = timer_param (client k)"
    "threads s' = (threads (client k))(t := with_prio p (threads (client k) t))" "current_thread s' = current_thread (client k)"
    "lock_nest s' = lock_nest (client k)"
    by (simp_all add: s'_def)
  have ob: "th_object (threads (client k) t)" using core_thread[OF co t(1)] by (simp add: th_ok_def)
  have run: "give_priority t p k = Inr k'"
    using t(2) ob
    by (simp add: give_priority_def rt_thread_control_def change_priority_def assert_thread_def with_prio_fold k'_def)
  have "sched_ok s' L T" unfolding s'_def by (rule still_prio[OF so t(1,2) p])
  moreover have "sems_ok s' L" by (rule prio_sems_ok[OF i(3) t(3) s'(1,3)]) simp
  moreover have "timers_match k' T xs" unfolding k' by (rule timer_prio[OF tm s'(2,3)])
  moreover have "none_due k' xs" by (rule none_due_same[OF i(2)]) (simp_all add: k')
  moreover have "cls s' x = cls (client k) x" for x by (cases "x = t") (simp_all add: cls_def s'(3))
  ultimately have pre: "kernel_pre idle k' L T xs" using i s'(4) by (simp add: kernel_pre_def kernel_ok_def k')
  moreover have "kernel_inv idle k' L T xs" if c: "current_thread (client k) \<noteq> Some t"
  proof -
    have "on_top s' T" if l: "lock_nest (client k) = 0"
    proof -
      obtain c where c': "c \<in> T" "current_thread (client k) = Some c" "st (client k) c = RT_THREAD_RUNNING"
        "\<And>x. x \<in> T \<Longrightarrow> st (client k) x = RT_THREAD_READY \<Longrightarrow> prio (client k) c \<le> prio (client k) x"
        using i(7)[OF l] by (auto simp: on_top_def)
      have ct: "c \<noteq> t" using c c'(2) by auto
      have "prio s' c \<le> prio s' x" if "x \<in> T" "st s' x = RT_THREAD_READY" for x
        using c'(4)[OF that(1)] that(2) t(2) ct by (cases "x = t") (simp_all add: s'(3))
      then show ?thesis unfolding on_top_def using c'(1-3) ct by (intro bexI[of _ c]) (auto simp: s'(3,4))
    qed
    then show ?thesis using pre s'(5) by (simp add: kernel_inv_def kernel_pre_def k')
  qed
  ultimately show thesis using that[OF run] by (simp add: k'_def)
qed

section \<open>Beside the semaphores\<close>

lemma give_blind: "give_priority t p (ghost g k) = map_sum id (ghost g) (give_priority t p k)"
  by (simp add: give_priority_def rt_thread_control_def change_priority_def blind ghost_upd on_sched_blind
      remove_blind insert_blind bindE_assoc)

end
