(* ===== verification/Mutex.thy ===== *)
theory Mutex
  imports Priority_Facts Ipc_Queue
begin

text \<open>
  Mutexes: the invariant of a mutex, a lock with its owner, its depth and its waiting threads as
  specification, and the calls against it, with the priority the owner gets.
\<close>

section \<open>The specification\<close>

type_synonym lock = "nat option \<times> nat \<times> nat list"

text \<open>\<open>enq\<close> puts the thread among those that wait.\<close>

definition lock_take :: "nat \<Rightarrow> (nat list \<Rightarrow> nat list) \<Rightarrow> lock \<Rightarrow> bool \<times> lock" where
  "lock_take c enq v = (case v of (ow, n, ws) \<Rightarrow>
     (case ow of None \<Rightarrow> (True, Some c, 1, ws)
      | Some x \<Rightarrow> if x = c then (True, ow, n + 1, ws) else (False, ow, n, enq ws)))"

definition lock_release :: "lock \<Rightarrow> lock" where
  "lock_release v = (case v of (ow, n, ws) \<Rightarrow>
     if n > 1 then (ow, n - 1, ws) else (case ws of [] \<Rightarrow> (None, 0, []) | w # us \<Rightarrow> (Some w, 1, us)))"

section \<open>The invariant\<close>

definition mutex_wf :: "nat set \<Rightarrow> rt_mutex \<Rightarrow> nat list \<Rightarrow> bool" where
  "mutex_wf T m ws \<longleftrightarrow> (case mtx_owner m of
     None \<Rightarrow> mtx_value m = 1 \<and> mtx_hold m = 0 \<and> ws = []
   | Some x \<Rightarrow> mtx_value m = 0 \<and> mtx_hold m \<noteq> 0 \<and> x \<in> T \<and> x \<notin> set ws \<and> unat (original_priority m) < 32)"

definition mutex_ok :: "nat \<Rightarrow> (nat \<Rightarrow> rt_sem option) \<Rightarrow> nat set \<Rightarrow> nat \<Rightarrow> ipc \<Rightarrow> bool" where
  "mutex_ok idle g T i S \<longleftrightarrow> (\<exists>L xs m. kernel_inv idle (ghost g (kern S)) L T xs
     \<and> mutexes S i = Some m \<and> g i = Some (dummy (mtx_flag m)) \<and> mutex_wf T m (L (Waiters i)))"

text \<open>The same without that the running thread has the highest priority, which the next scheduling brings
  back.\<close>

definition mutex_pre :: "nat \<Rightarrow> (nat \<Rightarrow> rt_sem option) \<Rightarrow> nat set \<Rightarrow> nat \<Rightarrow> ipc \<Rightarrow> bool" where
  "mutex_pre idle g T i S \<longleftrightarrow> (\<exists>L xs m. kernel_pre idle (ghost g (kern S)) L T xs
     \<and> mutexes S i = Some m \<and> g i = Some (dummy (mtx_flag m)) \<and> mutex_wf T m (L (Waiters i)))"

lemma mutex_ok_pre: "mutex_ok idle g T i S \<Longrightarrow> mutex_pre idle g T i S"
  using inv_pre unfolding mutex_ok_def mutex_pre_def by blast

text \<open>The scheduling that follows.\<close>

lemma mutex_pre_schedule:
  assumes "mutex_pre idle g T i S"
  obtains k' where "on_sched rt_schedule (kern S) = Inr k'" "mutex_ok idle g T i (S\<lparr>kern := k'\<rparr>)"
proof -
  obtain L xs m where m: "kernel_pre idle (ghost g (kern S)) L T xs" "mutexes S i = Some m" "g i = Some (dummy (mtx_flag m))"
    "mutex_wf T m (L (Waiters i))" using assms by (auto simp: mutex_pre_def)
  obtain k' L' where k': "on_sched rt_schedule (kern S) = Inr k'" "kernel_inv idle (ghost g k') L' T xs"
    "\<And>j. g j \<noteq> None \<Longrightarrow> L' (Waiters j) = L (Waiters j)"
    by (rule schedule_ghost[OF m(1)]) blast
  have "L' (Waiters i) = L (Waiters i)" using k'(3)[of i] m(3) by simp
  then have "mutex_ok idle g T i (S\<lparr>kern := k'\<rparr>)" unfolding mutex_ok_def using k'(2) m(2-4) by auto
  then show thesis by (rule that[OF k'(1)])
qed

definition lock_view :: "ipc \<Rightarrow> nat \<Rightarrow> lock \<Rightarrow> bool" where
  "lock_view S i v \<longleftrightarrow> (case v of (ow, n, ws) \<Rightarrow>
     map_option (\<lambda>m. (mtx_owner m, unat (mtx_hold m))) (mutexes S i) = Some (ow, n)
     \<and> dlist (sc_links (client (kern S))) (Waiters i) (map Thread ws))"

lemma ghost_waiters:
  assumes inv: "kernel_inv idle (ghost g k) L T xs" and i: "g i \<noteq> None"
  shows "dlist (sc_links (client k)) (Waiters i) (map Thread ws) \<longleftrightarrow> ws = L (Waiters i)"
proof -
  have d: "dlist (sc_links (client k)) (Waiters i) (map Thread (L (Waiters i)))"
    using sc_dlist[OF core_lists[OF ok_core[OF kernel_okD(1)[OF kernel_invD(1)[OF inv]]]], of "Waiters i"] i by simp
  then show ?thesis using dlist_threads by blast
qed

lemma mutex_okE:
  assumes "mutex_ok idle g T i S" "lock_view S i (ow, n, ws)"
  obtains L xs m where "kernel_inv idle (ghost g (kern S)) L T xs" "mutexes S i = Some m" "g i = Some (dummy (mtx_flag m))"
    "mutex_wf T m ws" "L (Waiters i) = ws" "mtx_owner m = ow" "unat (mtx_hold m) = n"
  using assms ghost_waiters unfolding mutex_ok_def lock_view_def by fastforce

lemma mutex_okI:
  assumes inv: "kernel_inv idle (ghost g (kern S)) L T xs" and m: "mutexes S i = Some m" "g i = Some (dummy (mtx_flag m))"
    and wf: "mutex_wf T m (L (Waiters i))"
  shows "mutex_ok idle g T i S \<and> lock_view S i (mtx_owner m, unat (mtx_hold m), L (Waiters i))"
  using assms ghost_waiters[OF inv, of i "L (Waiters i)"] unfolding mutex_ok_def lock_view_def by auto

section \<open>The running thread\<close>

lemma error_kept:
  assumes inv: "kernel_inv idle (ghost g k) L T xs"
  shows "kernel_inv idle (ghost g (set_error c e k)) L T xs"
proof -
  note i = kernel_invD[OF inv]
  define f where "f = (\<lambda>th. th\<lparr>th_error := e\<rparr> :: rt_thread)"
  have fs: "same_sched f" "\<And>th. th_timer (f th) = th_timer th" "\<And>th. stat_of (f th) = stat_of th"
    "\<And>th. current_priority (f th) = current_priority th" using same_sched_error by (simp_all add: f_def stat_of_def)
  define k' where "k' = upd_sched (upd_thread c f) (ghost g k)"
  have k': "ghost g (set_error c e k) = k'" by (simp add: k'_def set_error_def f_def ghost_upd)
  have ok: "kernel_ok k' L T xs" unfolding k'_def by (rule kernel_upd_thread[OF i(1) fs(1,2)])
  have same: "st (client k') x = st (client (ghost g k)) x" "prio (client k') x = prio (client (ghost g k)) x"
    "cls (client k') x = cls (client (ghost g k)) x" for x
    using fs by (simp_all add: k'_def cls_def)
  have "same_setup (client (ghost g k)) (client k')" using fs by (simp add: same_setup_def k'_def)
  then have "sems_ok (client k') L" by (rule sems_ok_same[OF i(3)]) simp
  moreover have "none_due k' xs" by (rule none_due_same[OF i(2)]) (simp_all add: k'_def)
  moreover have "lock_nest (client k') = 0 \<longrightarrow> on_top (client k') T"
    using i(7) same unfolding on_top_def by (auto simp: k'_def)
  ultimately show ?thesis unfolding k' using ok i(4-6) same by (simp add: kernel_inv_def k'_def)
qed

lemma running_ghost:
  assumes inv: "kernel_inv idle (ghost g k) L T xs" and l: "lock_nest (client k) = 0" and c: "current_thread (client k) = Some c"
  shows "c \<in> T" "st (client k) c = RT_THREAD_RUNNING" "unat (current_priority (threads (client k) c)) < 32"
proof -
  show t: "c \<in> T" "st (client k) c = RT_THREAD_RUNNING" using kernel_invD(7)[OF inv] l c by (auto simp: on_top_def)
  show "unat (current_priority (threads (client k) c)) < 32"
    using core_thread[OF ok_core[OF kernel_okD(1)[OF kernel_invD(1)[OF inv]]] t(1)] by (simp add: th_ok_def)
qed

lemma set_error_simps [simp]:
  "sc_links (client (set_error c e k)) = sc_links (client k)" "lock_nest (client (set_error c e k)) = lock_nest (client k)"
  "interrupt_nest (client (set_error c e k)) = interrupt_nest (client k)"
  "current_thread (client (set_error c e k)) = current_thread (client k)"
  "st (client (set_error c e k)) x = st (client k) x"
  "current_priority (threads (client (set_error c e k)) x) = current_priority (threads (client k) x)"
  "th_error (threads (client (set_error c e k)) x) = (if x = c then e else th_error (threads (client k) x))"
  by (simp_all add: set_error_def stat_of_def)

lemma set_error_same: "th_error (threads (client k) c) = e \<Longrightarrow> set_error c e k = k"
  by (auto simp: set_error_def upd_sched_def upd_thread_def fun_upd_idem_iff)

section \<open>Taking\<close>

text \<open>The owner gets the priority of the running thread, if it has a lower one: a ready owner moves to the
  list of its new priority, one that waits stays where it is.\<close>

lemma boost_ok:
  assumes inv: "kernel_inv idle (ghost g k) L T xs" and l: "lock_nest (client k) = 0" and c: "current_thread (client k) = Some c"
    and x: "x \<in> T" "x \<noteq> c" "out_of_order (with_sems g (client k)) L x"
  defines "p \<equiv> current_priority (threads (client k) c)"
  obtains k' L' where
    "(if p < current_priority (threads (client k) x) then give_priority x p k else Inr k) = Inr k'"
    "kernel_inv idle (ghost g k') L' T xs" "\<And>j. g j \<noteq> None \<Longrightarrow> L' (Waiters j) = L (Waiters j)"
    "lock_nest (client k') = 0" "interrupt_nest (client k') = interrupt_nest (client k)" "current_thread (client k') = Some c"
    "\<And>y. y \<noteq> x \<Longrightarrow> threads (client k') y = threads (client k) y" "st (client k') x = st (client k) x"
    "current_priority (threads (client k') x) = min p (current_priority (threads (client k) x))"
proof (cases "p < current_priority (threads (client k) x)")
  case False
  then show thesis using that[of k L] inv l c x by (simp add: min_def)
next
  case True
  define kg where "kg = ghost g k"
  have a: "lock_nest (client kg) = 0" "current_thread (client kg) = Some c" "out_of_order (client kg) L x"
    "p = current_priority (threads (client kg) c)" using l c x by (simp_all add: kg_def p_def)
  note so = kernel_okD(1)[OF kernel_invD(1)[OF inv[folded kg_def]]]
  have "\<exists>kg' L'. give_priority x p kg = Inr kg' \<and> kernel_inv idle kg' L' T xs
    \<and> (\<forall>j. g j \<noteq> None \<longrightarrow> L' (Waiters j) = L (Waiters j)) \<and> sched_frame (client kg) (client kg')
    \<and> threads (client kg') = (threads (client kg))(x := with_prio p (threads (client kg) x))"
  proof (cases "st (client kg) x = RT_THREAD_READY")
    case True
    obtain kg' where "give_priority x p kg = Inr kg'" "kernel_inv idle kg' (moved (client kg) L x p) T xs"
      "sched_frame (client kg) (client kg')" "threads (client kg') = (threads (client kg))(x := with_prio p (threads (client kg) x))"
      by (rule give_ready_ok[OF inv[folded kg_def] a(1,2) x(1) True a(4)]) blast
    moreover have "moved (client kg) L x p (Waiters j) = L (Waiters j)" if "g j \<noteq> None" for j
      by (rule moved_waiters[OF ok_core[OF so] True]) (simp add: kg_def that)
    ultimately show ?thesis by blast
  next
    case False
    have "unat p < 32" using running_ghost(3)[OF inv l c] by (simp add: p_def)
    then obtain kg' where "give_priority x p kg = Inr kg'" "kernel_inv idle kg' L T xs" "kg' = upd_sched (upd_thread x (with_prio p)) kg"
      using give_still_ok[OF inv[folded kg_def] x(1) False a(3)] a(2) x(2) by (metis option.inject)
    then show ?thesis by (intro exI[of _ kg'] exI[of _ L]) (auto simp: sched_frame_def)
  qed
  then obtain kg' L' where kg': "give_priority x p kg = Inr kg'" "kernel_inv idle kg' L' T xs"
    "\<And>j. g j \<noteq> None \<Longrightarrow> L' (Waiters j) = L (Waiters j)" "sched_frame (client kg) (client kg')"
    "threads (client kg') = (threads (client kg))(x := with_prio p (threads (client kg) x))" by blast
  obtain k' where k': "give_priority x p k = Inr k'" "kg' = ghost g k'" using kg'(1) by (auto simp: kg_def give_blind ghost_map)
  note fr = sched_frameD[OF kg'(4)]
  show thesis
  proof (rule that[of k' L'])
    show "(if p < current_priority (threads (client k) x) then give_priority x p k else Inr k) = Inr k'" using True k'(1) by simp
    show "kernel_inv idle (ghost g k') L' T xs" using kg'(2) k'(2) by simp
    show "L' (Waiters j) = L (Waiters j)" if "g j \<noteq> None" for j by (rule kg'(3)[OF that])
    show "lock_nest (client k') = 0" "interrupt_nest (client k') = interrupt_nest (client k)" "current_thread (client k') = Some c"
      using fr l c by (simp_all add: kg_def k'(2))
    show "threads (client k') y = threads (client k) y" if "y \<noteq> x" for y using kg'(5) that by (simp add: kg_def k'(2))
    show "st (client k') x = st (client k) x" using kg'(5) by (simp add: kg_def k'(2))
    show "current_priority (threads (client k') x) = min p (current_priority (threads (client k) x))"
      using kg'(5) True by (simp add: kg_def k'(2) min_absorb1)
  qed
qed

lemma take_context:
  assumes "current_thread (client (kern S)) = Some c" "interrupt_nest (client (kern S)) = 0"
  shows "in_thread_context (kern S) = Inr c"
  using assms by (simp add: in_thread_context_def self_thread_def not_in_interrupt_def)

lemma hold_next: "unat (h :: u8) < 255 \<Longrightarrow> unat (h + 1) = unat h + 1 \<and> h + 1 \<noteq> 0"
proof -
  assume "unat h < 255"
  then have "unat (h + 1) = unat h + 1" by (simp add: unat_word_ariths)
  then show ?thesis by (metis Suc_eq_plus1 nat.distinct(1) unat_0)
qed

lemma take_now_ok:
  assumes ok: "mutex_ok idle g T i S" and v: "lock_view S i (ow, n, ws)"
    and l: "lock_nest (client (kern S)) = 0" "interrupt_nest (client (kern S)) = 0"
    and c: "current_thread (client (kern S)) = Some c" and n: "n < 255" and ow: "ow = None \<or> ow = Some c"
  obtains S' where "rt_mutex_take i time S = Inr (Returned RT_EOK, S')" "mutex_ok idle g T i S'"
    "lock_view S' i (Some c, n + 1, ws)"
proof -
  obtain L xs m where m: "kernel_inv idle (ghost g (kern S)) L T xs" "mutexes S i = Some m" "g i = Some (dummy (mtx_flag m))"
    "mutex_wf T m ws" "L (Waiters i) = ws" "mtx_owner m = ow" "unat (mtx_hold m) = n" by (rule mutex_okE[OF ok v])
  note r = running_ghost[OF m(1) l(1) c]
  have h: "unat (mtx_hold m + 1) = n + 1" "mtx_hold m + 1 \<noteq> 0" using hold_next[of "mtx_hold m"] n m(7) by simp_all
  define m' where "m' = (if ow = None then m\<lparr>mtx_value := mtx_value m - 1, mtx_owner := Some c,
    original_priority := current_priority (threads (client (kern S)) c), mtx_hold := mtx_hold m + 1\<rparr>
    else m\<lparr>mtx_hold := mtx_hold m + 1\<rparr>)"
  define S' where "S' = upd_mutex i (\<lambda>_. m') (upd_kern (set_error c RT_EOK) S)"
  have S': "kern S' = set_error c RT_EOK (kern S)" "mutexes S' i = Some m'" using m(2) by (simp_all add: S'_def upd_mutex_def upd_kern_def)
  have wf: "mutex_wf T m' (L (Waiters i))" "mtx_flag m' = mtx_flag m" "mtx_owner m' = Some c" "mtx_hold m' = mtx_hold m + 1"
    using ow m(4-6) r h by (auto simp: mutex_wf_def m'_def)
  have u: "upd_mutex i f (upd_kern h S) = upd_mutex i (\<lambda>_. f m) (upd_kern h S)" for f h
    using m(2) by (simp add: upd_mutex_def upd_kern_def)
  have "rt_mutex_take i time S = Inr (Returned RT_EOK, S')"
  proof (cases "ow = None")
    case True
    then have "mtx_value m = 1" using m(4,6) by (simp add: mutex_wf_def)
    then show ?thesis using True m(2,6) take_context[OF c l(2)]
      by (simp add: rt_mutex_take_def get_mutex_def Let_def mutex_again_def S'_def m'_def upd_mutex_def upd_kern_def)
  next
    case False
    then have "ow = Some c" using ow by blast
    moreover from this have "S' = upd_mutex i (\<lambda>m. m\<lparr>mtx_hold := mtx_hold m + 1\<rparr>) (upd_kern (set_error c RT_EOK) S)"
      unfolding S'_def m'_def by (subst u) simp
    ultimately show ?thesis using m(2,6) take_context[OF c l(2)] by (simp add: rt_mutex_take_def get_mutex_def Let_def)
  qed
  moreover have "mutex_ok idle g T i S' \<and> lock_view S' i (mtx_owner m', unat (mtx_hold m'), L (Waiters i))"
    by (rule mutex_okI[OF _ S'(2)]) (use error_kept[OF m(1)] wf m(3) in \<open>simp_all add: S'(1)\<close>)
  ultimately show thesis using that[of S'] wf h m(5) by simp
qed

text \<open>Another thread has it: the thread waits, and the owner runs with its priority at least.\<close>

lemma take_waits_ok:
  assumes ok: "mutex_ok idle g T i S" and v: "lock_view S i (Some x, n, ws)"
    and l: "lock_nest (client (kern S)) = 0" "interrupt_nest (client (kern S)) = 0"
    and c: "current_thread (client (kern S)) = Some c" "c \<noteq> idle"
    and x: "x \<noteq> c" "\<And>L xs. kernel_inv idle (ghost g (kern S)) L T xs \<Longrightarrow> out_of_order (with_sems g (client (kern S))) L x"
    and f: "mutexes S i = Some m" and time: "time \<noteq> 0" "time < 2147483647"
  defines "p \<equiv> current_priority (threads (client (kern S)) c)"
  obtains S' where "rt_mutex_take i time S = Inr (Waits, S')" "mutex_ok idle g T i S'"
    "lock_view S' i (Some x, n, queue_in (mtx_flag m) (threads (client (kern S))) p c ws)"
    "st (client (kern S')) c = RT_THREAD_SUSPEND"
    "current_priority (threads (client (kern S')) x) = min p (current_priority (threads (client (kern S)) x))"
proof -
  obtain L xs where m: "kernel_inv idle (ghost g (kern S)) L T xs" "g i = Some (dummy (mtx_flag m))"
    "mutex_wf T m ws" "L (Waiters i) = ws" "mtx_owner m = Some x" "unat (mtx_hold m) = n"
    by (rule mutex_okE[OF ok v]) (use f in simp)
  have xT: "x \<in> T" "mtx_value m = 0" "x \<notin> set ws" using m(3,5) by (simp_all add: mutex_wf_def)
  note r = running_ghost[OF m(1) l(1) c(1)]
  define k0 where "k0 = set_error c RT_EOK (kern S)"
  have k0: "lock_nest (client k0) = 0" "interrupt_nest (client k0) = 0" "current_thread (client k0) = Some c"
    "out_of_order (with_sems g (client k0)) L x"
    "\<And>y. current_priority (threads (client k0) y) = current_priority (threads (client (kern S)) y)"
    "th_error (threads (client k0) c) = RT_EOK"
    using l c x(2)[OF m(1)] by (simp_all add: k0_def out_of_order_def)
  have p0: "current_priority (threads (client k0) c) = p" by (simp add: k0_def p_def)
  have i0: "kernel_inv idle (ghost g k0) L T xs" unfolding k0_def by (rule error_kept[OF m(1)])
  obtain k1 L1 where k1: "(if p < current_priority (threads (client k0) x) then give_priority x p k0 else Inr k0) = Inr k1"
    "kernel_inv idle (ghost g k1) L1 T xs" "\<And>j. g j \<noteq> None \<Longrightarrow> L1 (Waiters j) = L (Waiters j)"
    "lock_nest (client k1) = 0" "interrupt_nest (client k1) = 0" "current_thread (client k1) = Some c"
    "\<And>y. y \<noteq> x \<Longrightarrow> threads (client k1) y = threads (client k0) y" "st (client k1) x = st (client k0) x"
    "current_priority (threads (client k1) x) = min p (current_priority (threads (client k0) x))"
    by (rule boost_ok[OF i0 k0(1,3) xT(1) x(1) k0(4), unfolded k0(2) p0]) blast
  have e1: "set_error c RT_EOK k1 = k1" using k1(7)[of c] x(1) k0(6) by (intro set_error_same) simp
  obtain k2 L2 xs2 where k2: "wait_in i c (mtx_flag m) time k1 = Inr k2" "kernel_inv idle (ghost g k2) L2 T xs2"
    "same_setup (with_sems g (client k1)) (with_sems g (client k2))"
    "\<And>y. cls (client k2) y = (if y = c then RT_THREAD_SUSPEND else cls (client k1) y)"
    "\<And>j. g j \<noteq> None \<Longrightarrow> L2 (Waiters j) = (if j = i
       then queue_in (mtx_flag m) (threads (client k1)) (current_priority (threads (client k1) c)) c (L1 (Waiters i))
       else L1 (Waiters j))"
    by (rule wait_in_ok[OF k1(2,4-6) c(2) m(2) time, unfolded e1]) blast
  have gi: "g i \<noteq> None" using m(2) by simp
  have pr: "current_priority (threads (client k1) y) = current_priority (threads (client (kern S)) y)" if "y \<noteq> x" for y
    using k1(7)[OF that] k0(5) by simp
  have pw: "current_priority (threads (client k1) y) = current_priority (threads (client (kern S)) y)" if "y \<in> set ws" for y
    using pr[of y] xT(3) that by blast
  have q: "queue_in (mtx_flag m) (threads (client k1)) (current_priority (threads (client k1) c)) c ws
      = queue_in (mtx_flag m) (threads (client (kern S))) p c ws"
    unfolding p_def queue_in_def prio_insert_def pr[OF not_sym[OF x(1)]]
    by (intro if_cong refl arg_cong2[of _ _ _ _ append] takeWhile_cong arg_cong[of _ _ "Cons c"] dropWhile_cong)
      (simp_all add: pw)
  define S' where "S' = S\<lparr>kern := k2\<rparr>"
  have "rt_mutex_take i time S = Inr (Waits, S')"
    using f m(5) x(1) xT(2) time(1) take_context[OF c(1) l(2)] k1(1) k2(1)
    by (auto simp: rt_mutex_take_def get_mutex_def Let_def mutex_again_def upd_kern_def on_kern_def S'_def p_def k0_def
        split: if_splits)
  moreover have "mutex_ok idle g T i S' \<and> lock_view S' i (mtx_owner m, unat (mtx_hold m), L2 (Waiters i))"
  proof (rule mutex_okI)
    show "kernel_inv idle (ghost g (kern S')) L2 T xs2" "mutexes S' i = Some m" "g i = Some (dummy (mtx_flag m))"
      using k2(2) f m(2) by (simp_all add: S'_def)
    show "mutex_wf T m (L2 (Waiters i))"
      using m(3-5) k2(5)[OF gi] k1(3)[OF gi] x(1) by (simp add: mutex_wf_def)
  qed
  moreover have "L2 (Waiters i) = queue_in (mtx_flag m) (threads (client (kern S))) p c ws"
    using k2(5)[OF gi] k1(3)[OF gi] m(4) q by simp
  moreover have "st (client k2) c = RT_THREAD_SUSPEND" using k2(4)[of c] cls_suspend[of "client k2" c] by simp
  moreover have "current_priority (threads (client k2) x) = min p (current_priority (threads (client (kern S)) x))"
    using k2(3) k1(9) k0(5) by (simp add: same_setup_def)
  ultimately show thesis using that[of S'] m(5,6) by (simp add: S'_def)
qed

section \<open>Releasing\<close>

lemma release_nested_ok:
  assumes ok: "mutex_ok idle g T i S" and v: "lock_view S i (Some c, n, ws)"
    and l: "interrupt_nest (client (kern S)) = 0"
    and c: "current_thread (client (kern S)) = Some c" and n: "n > 1"
  obtains S' where "rt_mutex_release i S = Inr (RT_EOK, S')" "mutex_ok idle g T i S'" "lock_view S' i (Some c, n - 1, ws)"
    "kern S' = kern S"
proof -
  obtain L xs m where m: "kernel_inv idle (ghost g (kern S)) L T xs" "mutexes S i = Some m" "g i = Some (dummy (mtx_flag m))"
    "mutex_wf T m ws" "L (Waiters i) = ws" "mtx_owner m = Some c" "unat (mtx_hold m) = n" by (rule mutex_okE[OF ok v])
  have nz: "mtx_hold m \<noteq> 0" using n m(7) by auto
  then have h: "unat (mtx_hold m - 1) = n - 1" using m(7) by (simp add: unat_minus_one)
  then have h0: "mtx_hold m - 1 \<noteq> 0" using n by (metis nat_neq_iff unat_0 zero_less_diff)
  define S' where "S' = upd_mutex i (\<lambda>m. m\<lparr>mtx_hold := mtx_hold m - 1\<rparr>) S"
  have S': "kern S' = kern S" "mutexes S' i = Some (m\<lparr>mtx_hold := mtx_hold m - 1\<rparr>)" using m(2) by (simp_all add: S'_def upd_mutex_def)
  have "rt_mutex_release i S = Inr (RT_EOK, S')"
    using m(2,6) h0 take_context[OF c l] by (simp add: rt_mutex_release_def get_mutex_def S'_def)
  moreover have "mutex_ok idle g T i S' \<and> lock_view S' i (mtx_owner (m\<lparr>mtx_hold := mtx_hold m - 1\<rparr>),
      unat (mtx_hold (m\<lparr>mtx_hold := mtx_hold m - 1\<rparr>)), L (Waiters i))"
    by (rule mutex_okI[OF _ S'(2)]) (use m h0 in \<open>simp_all add: S'(1) mutex_wf_def\<close>)
  ultimately show thesis using that[of S'] S'(1) m(5,6) h by simp
qed

text \<open>The last release gives the owner its priority back, on the kernel before it schedules.\<close>

lemma lower_ok:
  assumes inv: "kernel_inv idle (ghost g k) L T xs" and t: "t \<in> T" "st (client k) t = RT_THREAD_RUNNING" and q: "unat q < 32"
  obtains k' where "(if q \<noteq> current_priority (threads (client k) t) then give_priority t q k else Inr k) = Inr k'"
    "kernel_pre idle (ghost g k') L T xs" "sc_links (client k') = sc_links (client k)"
    "current_thread (client k') = current_thread (client k)"
    "\<And>x. st (client k') x = st (client k) x" "\<And>x. x \<noteq> t \<Longrightarrow> threads (client k') x = threads (client k) x"
    "current_priority (threads (client k') t) = q" "q = current_priority (threads (client k) t) \<Longrightarrow> k' = k"
proof (cases "q = current_priority (threads (client k) t)")
  case True
  show thesis by (rule that[of k]) (use inv_pre[OF inv] in \<open>simp_all add: True\<close>)
next
  case False
  define kg where "kg = ghost g k"
  have tg: "st (client kg) t = RT_THREAD_RUNNING" using t(2) by (simp add: kg_def)
  obtain kg' where kg': "give_priority t q kg = Inr kg'" "kernel_pre idle kg' L T xs" "kg' = upd_sched (upd_thread t (with_prio q)) kg"
    by (rule give_still_ok[OF inv[folded kg_def] t(1) _ _ q])
      (use tg awake_out_of_order[OF ok_core[OF kernel_okD(1)[OF kernel_invD(1)[OF inv[folded kg_def]]]]] in auto)
  define k' where "k' = upd_sched (upd_thread t (with_prio q)) k"
  have e: "kg' = ghost g k'" by (simp add: kg'(3) k'_def kg_def ghost_upd)
  have "th_object (threads (client k) t)"
    using core_thread[OF ok_core[OF kernel_okD(1)[OF kernel_invD(1)[OF inv]]] t(1)] by (simp add: th_ok_def)
  then have "give_priority t q k = Inr k'"
    using t(2) by (simp add: give_priority_def rt_thread_control_def change_priority_def assert_thread_def with_prio_fold k'_def)
  then have "(if q \<noteq> current_priority (threads (client k) t) then give_priority t q k else Inr k) = Inr k'" using False by simp
  then show thesis
    by (rule that) (use False kg'(2) e in \<open>simp_all add: k'_def\<close>)
qed

lemma last_hold: "unat (h :: u8) = 1 \<Longrightarrow> h = 1"
  by (metis unat_1 word_unat_eq_iff)

text \<open>Until the list of the waiting threads is looked at.\<close>

lemma release_last_run:
  assumes m: "mutexes S i = Some m" "mtx_owner m = Some c" "mtx_hold m = 1"
    and c: "current_thread (client (kern S)) = Some c" "interrupt_nest (client (kern S)) = 0"
    and q: "(if original_priority m \<noteq> current_priority (threads (client (kern S)) c)
      then give_priority c (original_priority m) (kern S) else Inr (kern S)) = Inr k'"
  defines "S2 \<equiv> (upd_mutex i (\<lambda>m. m\<lparr>mtx_hold := mtx_hold m - 1\<rparr>) S)\<lparr>kern := k'\<rparr>"
  shows "rt_mutex_release i S = (if \<not> nobody_in i k'
     then (case nxt (sc_links (client k')) (Waiters i) of
         Thread w \<Rightarrow> bindE (on_kern (wake_in i) (upd_mutex i (\<lambda>m. m\<lparr>mtx_owner := Some w, mtx_hold := mtx_hold m + 1,
             original_priority := current_priority (threads (client k') w)\<rparr>) S2)) (\<lambda>S4. Inr (RT_EOK, S4))
       | _ \<Rightarrow> Inl Out_Of_Bounds)
     else Inr (RT_EOK, upd_mutex i (\<lambda>m. m\<lparr>mtx_value := mtx_value m + 1, mtx_owner := None, original_priority := 0xff\<rparr>) S2))"
proof -
  define S1 where "S1 = upd_mutex i (\<lambda>m. m\<lparr>mtx_hold := mtx_hold m - 1\<rparr>) S"
  have S1: "kern S1 = kern S" by (simp add: S1_def upd_mutex_def)
  have "(if original_priority m \<noteq> current_priority (threads (client (kern S1)) c)
      then on_kern (give_priority c (original_priority m)) S1 else Inr S1) = Inr S2"
    using q by (auto simp: S1 on_kern_def S2_def S1_def upd_mutex_def split: if_splits)
  moreover have "kern S2 = k'" by (simp add: S2_def)
  ultimately show ?thesis
    using m take_context[OF c]
    by (simp add: rt_mutex_release_def get_mutex_def Let_def flip: S1_def split del: if_split cong: if_cong snode.case_cong)
qed

lemma release_hands_over_ok:
  assumes ok: "mutex_ok idle g T i S" and v: "lock_view S i (Some c, 1, w # us)"
    and l: "lock_nest (client (kern S)) = 0" "interrupt_nest (client (kern S)) = 0"
    and c: "current_thread (client (kern S)) = Some c" and f: "mutexes S i = Some m"
  obtains S' where "rt_mutex_release i S = Inr (RT_EOK, S')" "mutex_ok idle g T i S'" "lock_view S' i (Some w, 1, us)"
    "cls (client (kern S')) w = RT_THREAD_READY" "current_priority (threads (client (kern S')) c) = original_priority m"
proof -
  obtain L xs where m: "kernel_inv idle (ghost g (kern S)) L T xs" "g i = Some (dummy (mtx_flag m))"
    "mutex_wf T m (w # us)" "L (Waiters i) = w # us" "mtx_owner m = Some c" "unat (mtx_hold m) = 1"
    by (rule mutex_okE[OF ok v]) (use f in simp)
  have gi: "g i \<noteq> None" using m(2) by simp
  have wf: "mtx_value m = 0" "c \<notin> set (w # us)" "unat (original_priority m) < 32" using m(3,5) by (simp_all add: mutex_wf_def)
  note r = running_ghost[OF m(1) l(1) c]
  have h: "mtx_hold m = 1" by (rule last_hold[OF m(6)])
  obtain k' where k': "(if original_priority m \<noteq> current_priority (threads (client (kern S)) c)
      then give_priority c (original_priority m) (kern S) else Inr (kern S)) = Inr k'"
    "kernel_pre idle (ghost g k') L T xs" "sc_links (client k') = sc_links (client (kern S))"
    "current_priority (threads (client k') c) = original_priority m"
    by (rule lower_ok[OF m(1) r(1,2) wf(3)]) blast
  have w': "L (Waiters i) = [] @ w # us" using m(4) by simp
  note n = waiting_next[OF k'(2) gi w']
  obtain k2 L2 xs2 where k2: "wake_in i k' = Inr k2" "kernel_inv idle (ghost g k2) L2 T xs2"
    "\<And>x. cls (client k2) x = (if x = w then RT_THREAD_READY else cls (client k') x)" "L2 (Waiters i) = us"
    "\<And>x. current_priority (threads (client k2) x) = current_priority (threads (client k') x)"
    by (rule wake_pre[OF k'(2) gi m(4)]) blast
  have f1: "nxt (sc_links (client k')) (Waiters i) = Thread w" "\<not> nobody_in i k'"
    using ghost_waiters[where ws = "w # us", OF m(1) gi] m(4) nobody_iff[OF m(1) gi] k'(3) by (simp_all add: dlist_def nobody_in_def)
  define m' where "m' = m\<lparr>mtx_owner := Some w, mtx_hold := 1, original_priority := current_priority (threads (client k') w)\<rparr>"
  define S' where "S' = S\<lparr>mutexes := (mutexes S)(i \<mapsto> m'), kern := k2\<rparr>"
  have run: "rt_mutex_release i S = Inr (RT_EOK, S')"
    unfolding release_last_run[OF f m(5) h c l(2) k'(1)] using f1 k2(1) f h
    by (simp add: on_kern_def upd_mutex_def S'_def m'_def)
  have "unat (current_priority (threads (client k') w)) < 32"
    using core_thread[OF ok_core[OF kernel_okD(1)[OF kernel_preD(1)[OF k'(2)]]] n(2)] by (simp add: th_ok_def)
  then have "mutex_wf T m' (L2 (Waiters i))"
    using wf n(2,5) by (simp add: mutex_wf_def m'_def k2(4))
  then have "mutex_ok idle g T i S' \<and> lock_view S' i (mtx_owner m', unat (mtx_hold m'), L2 (Waiters i))"
    using k2(2) m(2) by (intro mutex_okI) (simp_all add: S'_def m'_def)
  then show thesis using that[OF run] k2(3)[of w] k2(4,5) k'(4) by (simp add: S'_def m'_def)
qed

lemma release_frees_ok:
  assumes ok: "mutex_ok idle g T i S" and v: "lock_view S i (Some c, 1, [])"
    and l: "lock_nest (client (kern S)) = 0" "interrupt_nest (client (kern S)) = 0"
    and c: "current_thread (client (kern S)) = Some c" and f: "mutexes S i = Some m"
  obtains S' where "rt_mutex_release i S = Inr (RT_EOK, S')" "lock_view S' i (None, 0, [])" "mutex_pre idle g T i S'"
    "original_priority m = current_priority (threads (client (kern S)) c) \<Longrightarrow> mutex_ok idle g T i S' \<and> kern S' = kern S"
    "current_thread (client (kern S')) = Some c" "current_priority (threads (client (kern S')) c) = original_priority m"
    "\<And>x. st (client (kern S')) x = st (client (kern S)) x"
    "\<And>x. x \<noteq> c \<Longrightarrow> threads (client (kern S')) x = threads (client (kern S)) x"
proof -
  obtain L xs where m: "kernel_inv idle (ghost g (kern S)) L T xs" "g i = Some (dummy (mtx_flag m))"
    "mutex_wf T m []" "L (Waiters i) = []" "mtx_owner m = Some c" "unat (mtx_hold m) = 1"
    by (rule mutex_okE[OF ok v]) (use f in simp)
  have gi: "g i \<noteq> None" using m(2) by simp
  have wf: "mtx_value m = 0" "unat (original_priority m) < 32" using m(3,5) by (simp_all add: mutex_wf_def)
  note r = running_ghost[OF m(1) l(1) c]
  have h: "mtx_hold m = 1" by (rule last_hold[OF m(6)])
  obtain k' where k': "(if original_priority m \<noteq> current_priority (threads (client (kern S)) c)
      then give_priority c (original_priority m) (kern S) else Inr (kern S)) = Inr k'"
    "kernel_pre idle (ghost g k') L T xs" "sc_links (client k') = sc_links (client (kern S))" "current_thread (client k') = current_thread (client (kern S))"
    "\<And>x. st (client k') x = st (client (kern S)) x" "\<And>x. x \<noteq> c \<Longrightarrow> threads (client k') x = threads (client (kern S)) x"
    "current_priority (threads (client k') c) = original_priority m"
    "original_priority m = current_priority (threads (client (kern S)) c) \<Longrightarrow> k' = kern S"
    by (rule lower_ok[OF m(1) r(1,2) wf(2)]) blast
  have nb: "nobody_in i k'" using nobody_iff[OF m(1) gi] m(4) k'(3) by (simp add: nobody_in_def)
  define m' where "m' = m\<lparr>mtx_hold := 0, mtx_value := 1, mtx_owner := None, original_priority := 0xff\<rparr>"
  define S' where "S' = S\<lparr>mutexes := (mutexes S)(i \<mapsto> m'), kern := k'\<rparr>"
  have run: "rt_mutex_release i S = Inr (RT_EOK, S')"
    unfolding release_last_run[OF f m(5) h c l(2) k'(1)] using nb f h wf(1)
    by (simp add: upd_mutex_def S'_def m'_def)
  have wf': "mutex_wf T m' (L (Waiters i))" by (simp add: mutex_wf_def m'_def m(4))
  have lv: "lock_view S' i (None, 0, [])"
    using v k'(3) by (simp add: lock_view_def S'_def m'_def)
  have mp: "mutex_pre idle g T i S'"
    using wf' m(2) k'(2) unfolding mutex_pre_def S'_def by (auto simp: m'_def)
  have "mutex_ok idle g T i S' \<and> kern S' = kern S" if "original_priority m = current_priority (threads (client (kern S)) c)"
    using mutex_okI[of idle g S' L T xs i m'] wf' m(1,2) k'(8)[OF that] by (simp add: S'_def m'_def)
  then show thesis using that[OF run lv mp] k' c by (simp add: S'_def)
qed

end
