(* ===== verification/Ipc_Props.thy ===== *)
theory Ipc_Props
  imports Kernel_Time Msg_Queue Event Mutex
begin

text \<open>
  The properties of mutexes, events, mailboxes and message queues among the threads of the kernel, and
  the states they start from: each object just initialised meets its invariant.
\<close>

section \<open>Initialised objects\<close>

text \<open>The kernel with the waiting lists of the objects.\<close>

definition ipc_good :: "nat \<Rightarrow> (nat \<Rightarrow> rt_sem option) \<Rightarrow> nat set \<Rightarrow> ipc \<Rightarrow> bool" where
  "ipc_good idle g T S \<longleftrightarrow> kernel_good idle T (ghost g (kern S))"

abbreviation fifo_or_prio :: "u8 \<Rightarrow> bool" where
  "fifo_or_prio flag \<equiv> flag = RT_IPC_FLAG_FIFO \<or> flag = RT_IPC_FLAG_PRIO"

lemma good_list_init:
  assumes "kernel_good idle T (ghost g k)" "g h = None" "fifo_or_prio flag"
  shows "kernel_good idle T (ghost (g(h \<mapsto> dummy flag)) (rt_ipc_object_init h k))"
proof -
  define k' where "k' = ghost (g(h \<mapsto> dummy flag)) (rt_ipc_object_init h k)"
  have "rt_sem_init h 0 flag (ghost g k) = Inr (RT_EOK, k')"
    by (simp add: rt_sem_init_def assertE_def sem_obj_init_def k'_def ghost_def rt_ipc_object_init_def upd_sched_def
        with_sems_def upd_sc_links_def dummy_def)
  moreover have "sems (client (ghost g k)) h = None" using assms(2) by simp
  ultimately show ?thesis using good_sem_init[OF assms(1) _ assms(3), of h 0] by (auto simp: k'_def)
qed

lemma list_init_simps [simp]:
  "threads (client (rt_ipc_object_init h k)) = threads (client k)"
  "current_thread (client (rt_ipc_object_init h k)) = current_thread (client k)"
  "lock_nest (client (rt_ipc_object_init h k)) = lock_nest (client k)"
  "interrupt_nest (client (rt_ipc_object_init h k)) = interrupt_nest (client k)"
  by (simp_all add: rt_ipc_object_init_def)

lemma list_init_empty: "dlist (sc_links (client (rt_ipc_object_init h k))) (Waiters h) []"
  by (simp add: rt_ipc_object_init_def rt_list_init_dlist)

lemma good_empty:
  assumes "kernel_good idle T (ghost g k)" "g h \<noteq> None" "dlist (sc_links (client k)) (Waiters h) []"
  obtains L xs where "kernel_inv idle (ghost g k) L T xs" "L (Waiters h) = []"
proof -
  obtain L xs where inv: "kernel_inv idle (ghost g k) L T xs" by (rule kernel_goodE[OF assms(1)])
  moreover have "L (Waiters h) = []" using ghost_waiters[where ws = "[]", OF inv assms(2)] assms(3) by simp
  ultimately show thesis by (rule that)
qed

lemma mutex_init_ok:
  assumes "ipc_good idle g T S" "g i = None" "fifo_or_prio flag"
  shows "mutex_ok idle (g(i \<mapsto> dummy flag)) T i (snd (rt_mutex_init i flag S))
    \<and> lock_view (snd (rt_mutex_init i flag S)) i (None, 0, [])"
proof -
  define S' where "S' = snd (rt_mutex_init i flag S)"
  have S': "kern S' = rt_ipc_object_init i (kern S)"
    "mutexes S' i = Some \<lparr>mtx_static = True, mtx_flag = flag, mtx_value = 1, original_priority = 0xFF, mtx_hold = 0, mtx_owner = None\<rparr>"
    by (simp_all add: S'_def rt_mutex_init_def mutex_obj_init_def upd_kern_def)
  obtain L xs where inv: "kernel_inv idle (ghost (g(i \<mapsto> dummy flag)) (rt_ipc_object_init i (kern S))) L T xs" "L (Waiters i) = []"
    by (rule good_empty[where h = i, OF good_list_init[OF assms(1)[unfolded ipc_good_def] assms(2,3)] _ list_init_empty]) auto
  show ?thesis
    unfolding S'_def[symmetric]
    using mutex_okI[of idle "g(i \<mapsto> dummy flag)" S' L T xs i] inv S' by (simp add: mutex_wf_def)
qed

lemma mb_init_ok:
  assumes g: "ipc_good idle g T S" "g i = None" "g s = None" "i \<noteq> s" and f: "fifo_or_prio flag"
    and p: "length pool = unat sz" "0 < sz" "sz < 0x10000"
  shows "mbox_ok idle (g(i \<mapsto> dummy flag, s \<mapsto> dummy flag)) T i (snd (rt_mb_init i s pool sz flag S))
    \<and> mbox_list i (snd (rt_mb_init i s pool sz flag S)) = [] \<and> mbox_size i (snd (rt_mb_init i s pool sz flag S)) = unat sz"
proof -
  define mb where "mb = \<lparr>mb_static = True, mb_flag = flag, mb_pool = pool, mb_size = ucast sz,
    mb_entry = 0, mb_in = 0, mb_out = 0, mb_senders = s\<rparr>"
  define S' where "S' = snd (rt_mb_init i s pool sz flag S)"
  have S': "kern S' = rt_ipc_object_init s (rt_ipc_object_init i (kern S))" "mailboxes S' i = Some mb"
    by (simp_all add: S'_def mb_def rt_mb_init_def mb_obj_init_def upd_kern_def)
  have "kernel_good idle T (ghost (g(i \<mapsto> dummy flag, s \<mapsto> dummy flag)) (kern S'))"
    unfolding S'(1) using assms by (intro good_list_init) (simp_all add: ipc_good_def)
  then obtain L xs where "kernel_inv idle (ghost (g(i \<mapsto> dummy flag, s \<mapsto> dummy flag)) (kern S')) L T xs" by (rule kernel_goodE)
  moreover have u: "unat (ucast sz :: u16) = unat sz" using p(3) by (simp add: word_less_nat_alt unsigned_ucast_eq take_bit_nat_eq_self)
  then have "mb_ok mb" using p by (simp add: mb_ok_def mb_def word_less_nat_alt)
  moreover have "mb_list mb = []" by (simp add: mb_list_def mb_def)
  ultimately show ?thesis
    using g(4) S'(2) u unfolding S'_def[symmetric] mbox_ok_def mbox_list_def mbox_size_def
    by (auto simp: mb_def)
qed

lemma mq_init_ok:
  assumes g: "ipc_good idle g T S" "g i = None" "g s = None" "i \<noteq> s" and f: "fifo_or_prio flag"
    and d: "\<forall>n < 2. length (data n) = 4"
  shows "queue_of idle (g(i \<mapsto> dummy flag, s \<mapsto> dummy flag)) T i 4 (snd (rt_mq_init i s data 4 16 flag S))
    \<and> queue_list i (snd (rt_mq_init i s data 4 16 flag S)) = [] \<and> queue_cap i (snd (rt_mq_init i s data 4 16 flag S)) = 2"
proof -
  define mq where "mq = new_mq s True data 4 2 flag"
  define S' where "S' = snd (rt_mq_init i s data 4 16 flag S)"
  have "(7 :: u32) AND NOT 3 = 4" by simp
  then have S': "kern S' = rt_ipc_object_init s (rt_ipc_object_init i (kern S))" "queues S' i = Some mq"
    by (simp_all add: S'_def mq_def rt_mq_init_def mq_obj_init_def upd_kern_def Let_def)
  have "kernel_good idle T (ghost (g(i \<mapsto> dummy flag, s \<mapsto> dummy flag)) (kern S'))"
    unfolding S'(1) using assms by (intro good_list_init) (simp_all add: ipc_good_def)
  then obtain L xs where inv: "kernel_inv idle (ghost (g(i \<mapsto> dummy flag, s \<mapsto> dummy flag)) (kern S')) L T xs" by (rule kernel_goodE)
  have "\<forall>n < unat (2 :: u16). length (data n) = unat (4 :: u16)" using d by simp
  note n = new_mq_ok[where senders = s and static = True and flag = flag, OF this, folded mq_def]
  obtain fs where fs: "mq_slots mq [] fs" using n(1) by blast
  have l: "mq_list mq = []" using mq_list_slots[OF fs] by simp
  have "queue_ok idle (g(i \<mapsto> dummy flag, s \<mapsto> dummy flag)) T i S'"
    unfolding queue_ok_def using inv S'(2) fs n g(4) by auto
  then show ?thesis
    unfolding S'_def[symmetric] queue_of_def using S'(2) n l by (simp add: queue_list_def queue_cap_def queue_size_def)
qed

text \<open>The kernel just started, with no objects.\<close>

definition no_objects :: "kernel \<Rightarrow> ipc" where
  "no_objects k = \<lparr>kern = k, mutexes = \<lambda>_. None, events = \<lambda>_. None, mailboxes = \<lambda>_. None, queues = \<lambda>_. None,
     event_set = \<lambda>_. 0, event_info = \<lambda>_. 0\<rparr>"

lemma ex_ipc:
  obtains S where "ipc_good 2 (\<lambda>_. None) {0, 1, 2} S" "lock_nest (client (kern S)) = 0" "interrupt_nest (client (kern S)) = 0"
    "current_thread (client (kern S)) = Some 1" "st (client (kern S)) 0 = RT_THREAD_READY" "prio (client (kern S)) 0 = 10"
    "prio (client (kern S)) 1 = 0"
proof -
  have d: "distinct [0, 1, 2 :: nat]" by simp
  obtain k L where k: "kernel_inv 2 k L {0, 1, 2} []" "lock_nest (client k) = 0" "interrupt_nest (client k) = 0"
    "sems (client k) = sems (client cold)" "current_thread (client k) = Some 1"
    "st (client k) 0 = RT_THREAD_READY" "prio (client k) 0 = 10" "prio (client k) 1 = 0"
    by (rule boot_runs[OF cold_ok d d]) blast
  have "ghost (\<lambda>_. None) k = k"
    using k(4) by (simp add: ghost_def with_sems_def upd_sched_def cold_def)
  then have "kernel_good 2 {0, 1, 2} (ghost (\<lambda>_. None) k)" using kernel_goodI[OF k(1)] k by simp
  then show thesis using that[of "no_objects k"] k by (simp add: ipc_good_def no_objects_def)
qed

section \<open>Mailboxes\<close>

text \<open>C29: A mailbox is a bounded queue of words: whatever is sent and received in turn without waiting,
  and whoever waits for mails or for room, nothing faults, the words come out in the order in which they
  were accepted, no word is lost, and there are never more than the size of the mailbox.\<close>

lemma mailbox_fifo:
  assumes "mbox_ok idle g T i S"
  shows "\<exists>a r S'. run_mail (mb_try_send i) (mb_try_recv i) ops S = Inr (a, r, S') \<and> mbox_ok idle g T i S'
    \<and> mbox_size i S' = mbox_size i S \<and> mbox_list i S @ a = r @ mbox_list i S' \<and> length (mbox_list i S') \<le> mbox_size i S"
  by (rule mbq.fifo[OF assms]) (simp add: list_all_iff mail_good_def split: mail_op.split)

lemma mailbox_fifo_witness:
  "\<exists>S g. mbox_ok 2 g {0, 1, 2} 7 S \<and> mbox_size 7 S = 2 \<and> mbox_list 7 S = []
    \<and> (\<exists>a r S'. run_mail (mb_try_send 7) (mb_try_recv 7) [Msend 5, Msend 6, Msend 7, Mrecv] S = Inr (a, r, S')
         \<and> a = r @ mbox_list 7 S')"
proof -
  obtain S where S: "ipc_good 2 (\<lambda>_. None) {0, 1, 2} S" by (rule ex_ipc)
  define g where "g = (\<lambda>_ :: nat. None)(7 \<mapsto> dummy RT_IPC_FLAG_FIFO, 8 \<mapsto> dummy RT_IPC_FLAG_FIFO)"
  define S1 where "S1 = snd (rt_mb_init 7 8 [0, 0] 2 RT_IPC_FLAG_FIFO S)"
  have m: "mbox_ok 2 g {0, 1, 2} 7 S1" "mbox_list 7 S1 = []" "mbox_size 7 S1 = 2"
    using mb_init_ok[OF S, of 7 8 RT_IPC_FLAG_FIFO "[0, 0]" 2] unfolding g_def S1_def by simp_all
  then show ?thesis using mailbox_fifo[OF m(1), of "[Msend 5, Msend 6, Msend 7, Mrecv]"] by auto
qed

text \<open>The threads that wait to send, the first one first.\<close>

definition mb_waiting :: "ipc \<Rightarrow> nat \<Rightarrow> nat list \<Rightarrow> bool" where
  "mb_waiting S i ws \<longleftrightarrow> (\<exists>mb. mailboxes S i = Some mb
     \<and> dlist (sc_links (client (kern S))) (Waiters (mb_senders mb)) (map Thread ws))"

text \<open>C30: Sending to a full mailbox with a wait suspends the sender and leaves the mails alone; the next
  receive returns the oldest mail and makes the sender ready; and when the sender goes on, its mail is
  stored behind the others, with success as its result.\<close>

lemma mailbox_blocked_sender:
  assumes ok: "mbox_ok idle g T i S" and full: "mbox_list i S = v0 # q" "length (v0 # q) = mbox_size i S" and w: "mb_waiting S i []"
    and l: "lock_nest (client (kern S)) = 0" "interrupt_nest (client (kern S)) = 0"
    and c: "current_thread (client (kern S)) = Some c" "c \<noteq> idle" and t: "timeout \<noteq> 0" "timeout < 2147483647"
  shows "\<exists>S1 S2 S3. rt_mb_send_wait i v timeout S = Inr (Waits, S1) \<and> st (client (kern S1)) c = RT_THREAD_SUSPEND
    \<and> mbox_list i S1 = v0 # q
    \<and> rt_mb_recv i 0 S1 = Inr (Returned RT_EOK, Some v0, S2) \<and> cls (client (kern S2)) c = RT_THREAD_READY
    \<and> rt_mb_send_back c i v timeout (rt_tick (kern S)) S2 = Inr (Returned RT_EOK, S3)
    \<and> mbox_ok idle g T i S3 \<and> mbox_list i S3 = q @ [v]"
proof -
  obtain L xs mb where o: "kernel_inv idle (ghost g (kern S)) L T xs" "mailboxes S i = Some mb" "mb_ok mb"
    "g i = Some (dummy (mb_flag mb))" "g (mb_senders mb) = Some (dummy (mb_flag mb))" using ok by (auto simp: mbox_ok_def)
  have m: "mb_list mb = v0 # q" "length (mb_list mb) = unat (mb_size mb)"
    using full o(2) by (simp_all add: mbox_list_def mbox_size_def)
  have gs: "g (mb_senders mb) \<noteq> None" using o(5) by simp
  have e: "L (Waiters (mb_senders mb)) = []"
    using w ghost_waiters[where ws = "[]", OF o(1) gs] o(2) by (simp add: mb_waiting_def)
  obtain S1 L1 xs1 where S1: "mb_send_loop i v timeout S = Inr (Waits, S1)" "kernel_inv idle (ghost g (kern S1)) L1 T xs1"
    "mailboxes S1 = mailboxes S" "L1 (Waiters (mb_senders mb)) = [c]"
    "st (client (kern S1)) c = RT_THREAD_SUSPEND" "th_error (threads (client (kern S1)) c) = RT_EOK"
    by (rule mb_full_ok[where v = v, OF o m(2) l c t, unfolded e]) (simp add: queue_in_def prio_insert_def)
  have mb1: "mailboxes S1 i = Some mb" using S1(3) o(2) by simp
  obtain S2 where S2: "mb_recv_loop i 0 S1 = Inr (Returned RT_EOK, Some v0, S2)" "mbox_ok idle g T i S2" "mbox_list i S2 = q"
    "mbox_size i S2 = unat (mb_size mb)"
    "\<And>x. cls (client (kern S2)) x = (if L1 (Waiters (mb_senders mb)) \<noteq> [] \<and> x = hd (L1 (Waiters (mb_senders mb)))
       then RT_THREAD_READY else cls (client (kern S1)) x)"
    "\<And>x. th_error (threads (client (kern S2)) x) = th_error (threads (client (kern S1)) x)"
    by (rule mb_fetch_ok[OF S1(2) mb1 o(3-5) m(1)]) blast
  obtain L2 xs2 mb2 where o2: "kernel_inv idle (ghost g (kern S2)) L2 T xs2" "mailboxes S2 i = Some mb2" "mb_ok mb2"
    "g i = Some (dummy (mb_flag mb2))" "g (mb_senders mb2) = Some (dummy (mb_flag mb2))" using S2(2) by (auto simp: mbox_ok_def)
  have m2: "mb_list mb2 = q" "length (mb_list mb2) < unat (mb_size mb2)"
    using S2(3,4) o2(2) m by (simp_all add: mbox_list_def mbox_size_def)
  obtain S3 where S3: "mb_send_loop i v (time_left timeout (rt_tick (kern S)) (rt_tick (kern S2))) S2 = Inr (Returned RT_EOK, S3)"
    "mbox_ok idle g T i S3" "mbox_list i S3 = mb_list mb2 @ [v]"
    by (rule mb_store_ok[OF o2 m2(2)]) blast
  have "rt_mb_send_wait i v timeout S = Inr (Waits, S1)" using S1(1) o(2) t(1) by (simp add: rt_mb_send_wait_def get_mb_def)
  moreover have "mbox_list i S1 = v0 # q" using mb1 m(1) by (simp add: mbox_list_def)
  moreover have "mb_entry mb \<noteq> 0" using mbox_full(3)[OF o(3)] m(1) by simp
  then have "rt_mb_recv i 0 S1 = Inr (Returned RT_EOK, Some v0, S2)" using S2(1) mb1 by (simp add: rt_mb_recv_def get_mb_def)
  moreover have "rt_mb_send_back c i v timeout (rt_tick (kern S)) S2 = Inr (Returned RT_EOK, S3)"
    using S3(1) S2(6) S1(6) by (simp add: rt_mb_send_back_def)
  moreover have "cls (client (kern S2)) c = RT_THREAD_READY" using S2(5) S1(4) by simp
  ultimately show ?thesis using S1(5) S3(2,3) m2(1) by blast
qed

lemma ex_mailbox:
  obtains S g where "mbox_ok 2 g {0, 1, 2} 7 S" "mbox_size 7 S = 1" "mbox_list 7 S = [5]" "mb_waiting S 7 []"
    "lock_nest (client (kern S)) = 0" "interrupt_nest (client (kern S)) = 0" "current_thread (client (kern S)) = Some 1"
proof -
  obtain S where S: "ipc_good 2 (\<lambda>_. None) {0, 1, 2} S" "lock_nest (client (kern S)) = 0" "interrupt_nest (client (kern S)) = 0"
    "current_thread (client (kern S)) = Some 1" by (rule ex_ipc)
  define g where "g = (\<lambda>_ :: nat. None)(7 \<mapsto> dummy RT_IPC_FLAG_FIFO, 8 \<mapsto> dummy RT_IPC_FLAG_FIFO)"
  define S1 where "S1 = snd (rt_mb_init 7 8 [0] 1 RT_IPC_FLAG_FIFO S)"
  define mb where "mb = \<lparr>mb_static = True, mb_flag = RT_IPC_FLAG_FIFO, mb_pool = [5], mb_size = 1,
    mb_entry = 1, mb_in = 0, mb_out = 0, mb_senders = 8\<rparr>"
  define S2 where "S2 = S1\<lparr>mailboxes := (mailboxes S1)(7 \<mapsto> mb)\<rparr>"
  have m: "mbox_ok 2 g {0, 1, 2} 7 S1"
    using mb_init_ok[OF S(1), of 7 8 RT_IPC_FLAG_FIFO "[0]" 1] unfolding g_def S1_def by simp
  have k: "kern S2 = rt_ipc_object_init 8 (rt_ipc_object_init 7 (kern S))"
    by (simp add: S2_def S1_def rt_mb_init_def mb_obj_init_def upd_kern_def)
  have "kern S2 = kern S1" "mailboxes S2 7 = Some mb" by (simp_all add: S2_def)
  moreover have "mb_ok mb" "mb_list mb = [5]" by (simp_all add: mb_ok_def mb_def mb_list_def)
  ultimately have "mbox_ok 2 g {0, 1, 2} 7 S2" "mbox_size 7 S2 = 1" "mbox_list 7 S2 = [5]"
    using m by (auto simp: mbox_ok_def mbox_size_def mbox_list_def) (simp_all add: g_def mb_def)
  moreover have "mb_waiting S2 7 []"
    using list_init_empty[of 8] by (simp add: mb_waiting_def k) (simp add: S2_def mb_def)
  ultimately show thesis using that[of g S2] S k by simp
qed

lemma mailbox_blocked_sender_witness:
  "\<exists>S g S1 S2 S3. mbox_ok 2 g {0, 1, 2} 7 S \<and> rt_mb_send_wait 7 6 (-1) S = Inr (Waits, S1)
    \<and> rt_mb_recv 7 0 S1 = Inr (Returned RT_EOK, Some 5, S2)
    \<and> rt_mb_send_back 1 7 6 (-1) (rt_tick (kern S)) S2 = Inr (Returned RT_EOK, S3) \<and> mbox_list 7 S3 = [6]"
proof -
  obtain S g where S: "mbox_ok 2 g {0, 1, 2} 7 S" "mbox_size 7 S = 1" "mbox_list 7 S = [5]" "mb_waiting S 7 []"
    "lock_nest (client (kern S)) = 0" "interrupt_nest (client (kern S)) = 0" "current_thread (client (kern S)) = Some 1"
    by (rule ex_mailbox)
  then show ?thesis using mailbox_blocked_sender[OF S(1,3) _ S(4-7), of "-1" 6] by auto
qed

section \<open>Message queues\<close>

text \<open>C31: A message queue refines the list of its slots, the oldest message first, for every sequence of
  sends, urgent sends and receives that do not wait, whoever waits: a message of any size up to the slot's
  is stored as the start of a slot, behind the others or, when urgent, in front; a longer one and one too
  many are refused, each with its error; a receive returns the start of the oldest slot, as much of it as
  the buffer takes, or the timeout error when there is none. Nothing faults, and there are never more
  messages than slots. No bytes to send and no room to receive are met by the assertion of the code.\<close>

lemma mq_fifo:
  assumes "queue_ok idle g T i S"
  shows "(list_all mq_sane cs \<longrightarrow> (\<exists>as S'. run_mq i cs S = Inr (as, S') \<and> queue_ok idle g T i S' \<and> queue_cap i S' = queue_cap i S
      \<and> queue_size i S' = queue_size i S \<and> mq_runs (queue_size i S) (queue_cap i S) (queue_list i S) cs as (queue_list i S')
      \<and> length (queue_list i S') \<le> queue_cap i S))
    \<and> rt_mq_send i [] S = Inl Assert_Failed \<and> rt_mq_urgent i [] S = Inl Assert_Failed \<and> rt_mq_recv i 0 0 S = Inl Assert_Failed"
  using run_mq_ok[OF assms] mq_do_ok(2-4)[OF assms] mq_do_ok(5)[of idle g T i] by metis

lemma ex_queue:
  obtains S g where "queue_of 2 g {0, 1, 2} 7 4 S" "queue_cap 7 S = 2" "queue_list 7 S = []"
proof -
  obtain S where S: "ipc_good 2 (\<lambda>_. None) {0, 1, 2} S" by (rule ex_ipc)
  then show thesis
    using that mq_init_ok[OF S, of 7 8 RT_IPC_FLAG_FIFO "\<lambda>_. [0, 0, 0, 0]"] by auto
qed

text \<open>A short message, one that is too long, an urgent one, and one too many; then a receive into a
  small buffer and one into a large buffer.\<close>

lemma mq_fifo_witness:
  "\<exists>S g r S'. queue_ok 2 g {0, 1, 2} 7 S \<and> queue_cap 7 S = 2 \<and> queue_list 7 S = []
    \<and> run_mq 7 [Qsend [1, 2], Qsend [1, 2, 3, 4, 5], Qurgent [6, 7, 8, 9], Qsend [5], Qrecv 3, Qrecv 9] S
      = Inr ([Sent (Returned RT_EOK), Sent (Returned (- RT_ERROR)), Sent (Returned RT_EOK), Sent (Returned (- RT_EFULL)),
          Got (Returned RT_EOK) [6, 7, 8], Got (Returned RT_EOK) r], S')
    \<and> take 2 r = [1, 2] \<and> length r = 4 \<and> queue_list 7 S' = []"
proof -
  obtain S g where S: "queue_of 2 g {0, 1, 2} 7 4 S" "queue_cap 7 S = 2" "queue_list 7 S = []" by (rule ex_queue)
  then have ok: "queue_ok 2 g {0, 1, 2} 7 S" "queue_size 7 S = 4" by (simp_all add: queue_of_def)
  obtain as S' where as: "run_mq 7 [Qsend [1, 2], Qsend [1, 2, 3, 4, 5], Qurgent [6, 7, 8, 9], Qsend [5], Qrecv 3, Qrecv 9] S = Inr (as, S')"
    "mq_runs 4 2 [] [Qsend [1, 2], Qsend [1, 2, 3, 4, 5], Qurgent [6, 7, 8, 9], Qsend [5], Qrecv 3, Qrecv 9] as (queue_list 7 S')"
    using mq_fifo[OF ok(1), of "[Qsend [1, 2], Qsend [1, 2, 3, 4, 5], Qurgent [6, 7, 8, 9], Qsend [5], Qrecv 3, Qrecv 9]"] S ok
    by auto
  from as(2) obtain r where "as = [Sent (Returned RT_EOK), Sent (Returned (- RT_ERROR)), Sent (Returned RT_EOK),
      Sent (Returned (- RT_EFULL)), Got (Returned RT_EOK) [6, 7, 8], Got (Returned RT_EOK) r]"
    "take 2 r = [1, 2]" "length r = 4" "queue_list 7 S' = []"
    by (auto simp: mq_runs_simps mq_sends_def slot_of_def numeral_2_eq_2)
  then show ?thesis using S ok as(1) by blast
qed

text \<open>An urgent message overtakes all others: when the queue has room, the next message received is
  the urgent one, and the messages that were there stay in their order behind it.\<close>

lemma mq_urgent_first:
  assumes "queue_of idle g T i sz S" "length m = sz" "length (queue_list i S) < queue_cap i S"
  shows "\<exists>S1 S2. mq_try_urgent i m S = Inr (True, S1) \<and> mq_try_recv i sz S1 = Inr (Some m, S2)
    \<and> queue_of idle g T i sz S2 \<and> queue_list i S2 = queue_list i S"
  by (rule mqq.urgent_first[OF assms])

lemma mq_urgent_first_witness:
  "\<exists>S g S1 S2. queue_of 2 g {0, 1, 2} 7 4 S \<and> mq_try_urgent 7 [9, 9, 9, 9] S = Inr (True, S1)
    \<and> mq_try_recv 7 4 S1 = Inr (Some [9, 9, 9, 9], S2) \<and> queue_list 7 S2 = []"
proof -
  obtain S g where S: "queue_of 2 g {0, 1, 2} 7 4 S" "queue_cap 7 S = 2" "queue_list 7 S = []" by (rule ex_queue)
  then show ?thesis using mq_urgent_first[OF S(1), of "[9, 9, 9, 9]"] by auto
qed

section \<open>Events\<close>

text \<open>The events that are there and the threads that wait, the first one first.\<close>

definition event_good :: "nat \<Rightarrow> (nat \<Rightarrow> rt_sem option) \<Rightarrow> nat set \<Rightarrow> nat \<Rightarrow> ipc \<Rightarrow> bool" where
  "event_good idle g T i S \<longleftrightarrow> (\<exists>L. event_ok idle g T i S L)"

definition event_view :: "ipc \<Rightarrow> nat \<Rightarrow> u32 \<Rightarrow> nat list \<Rightarrow> bool" where
  "event_view S i es ws \<longleftrightarrow> map_option ev_set (events S i) = Some es \<and> dlist (sc_links (client (kern S))) (Waiters i) (map Thread ws)"

lemma event_goodE:
  assumes "event_good idle g T i S" "event_view S i es ws"
  obtains L ev where "event_ok idle g T i S L" "events S i = Some ev" "ev_set ev = es" "L (Waiters i) = ws"
    "g i = Some (dummy (ev_flag ev))"
  using assms ghost_waiters[of idle g "kern S" _ T _ i ws] unfolding event_good_def event_view_def event_ok_def by fastforce

lemma event_goodI:
  assumes "event_ok idle g T i S L" "events S i = Some ev"
  shows "event_good idle g T i S \<and> event_view S i (ev_set ev) (L (Waiters i))"
proof -
  obtain xs where "kernel_inv idle (ghost g (kern S)) L T xs" "g i \<noteq> None" using assms(1) by (auto simp: event_ok_def)
  then show ?thesis using ghost_waiters assms unfolding event_good_def event_view_def by force
qed

lemma event_init_ok:
  assumes "ipc_good idle g T S" "g i = None" "fifo_or_prio flag"
  shows "event_good idle (g(i \<mapsto> dummy flag)) T i (snd (rt_event_init i flag S))
    \<and> event_view (snd (rt_event_init i flag S)) i 0 []"
proof -
  define S' where "S' = snd (rt_event_init i flag S)"
  have S': "kern S' = rt_ipc_object_init i (kern S)" "events S' i = Some \<lparr>ev_static = True, ev_flag = flag, ev_set = 0\<rparr>"
    by (simp_all add: S'_def rt_event_init_def event_obj_init_def upd_kern_def)
  obtain L xs where inv: "kernel_inv idle (ghost (g(i \<mapsto> dummy flag)) (rt_ipc_object_init i (kern S))) L T xs" "L (Waiters i) = []"
    by (rule good_empty[where h = i, OF good_list_init[OF assms(1)[unfolded ipc_good_def] assms(2,3)] _ list_init_empty]) auto
  then have "event_ok idle (g(i \<mapsto> dummy flag)) T i S' L" using S' by (auto simp: event_ok_def)
  from event_goodI[OF this S'(2)] show ?thesis using inv(2) by (simp add: S'_def)
qed

lemma event_recv_waits:
  assumes ok: "event_good idle g T i S" "event_view S i have ws" "events S i = Some ev"
    and l: "lock_nest (client (kern S)) = 0" "interrupt_nest (client (kern S)) = 0"
    and c: "current_thread (client (kern S)) = Some c" "c \<noteq> idle"
    and es: "es \<noteq> 0" "have AND es = 0" "opt AND (RT_EVENT_FLAG_AND OR RT_EVENT_FLAG_OR) \<noteq> 0" and t: "timeout \<noteq> 0" "timeout < 2147483647"
  obtains S' where "rt_event_recv i es opt timeout S = Inr (Waits, None, S')" "event_good idle g T i S'"
    "event_view S' i have (queue_in (ev_flag ev) (threads (client (kern S))) (current_priority (threads (client (kern S)) c)) c ws)"
    "event_set S' = (event_set S)(c := es)" "event_info S' = (event_info S)(c := opt)" "events S' = events S"
    "th_error (threads (client (kern S')) c) = RT_EOK" "st (client (kern S')) c = RT_THREAD_SUSPEND"
proof -
  obtain L ev' where o: "event_ok idle g T i S L" "events S i = Some ev'" "ev_set ev' = have" "L (Waiters i) = ws"
    "g i = Some (dummy (ev_flag ev'))" by (rule event_goodE[OF ok(1,2)])
  have ev: "ev' = ev" using o(2) ok(3) by simp
  obtain xs where inv: "kernel_inv idle (ghost g (kern S)) L T xs" using o(1) by (auto simp: event_ok_def)
  obtain k' L' xs' where k': "wait_in i c (ev_flag ev) timeout (set_error c RT_EOK (kern S)) = Inr k'"
    "kernel_inv idle (ghost g k') L' T xs'" "\<And>x. cls (client k') x = (if x = c then RT_THREAD_SUSPEND else cls (client (kern S)) x)"
    "\<And>j. g j \<noteq> None \<Longrightarrow> L' (Waiters j) = (if j = i then queue_in (ev_flag ev) (threads (client (kern S)))
       (current_priority (threads (client (kern S)) c)) c (L (Waiters i)) else L (Waiters j))"
    "\<And>x. th_error (threads (client k') x) = (if x = c then RT_EOK else th_error (threads (client (kern S)) x))"
    by (rule wait_in_ok[OF inv l c o(5)[unfolded ev] t]) blast
  define S' where "S' = S\<lparr>kern := k', event_set := (event_set S)(c := es), event_info := (event_info S)(c := opt)\<rparr>"
  have "opt AND RT_EVENT_FLAG_AND \<noteq> 0 \<or> opt AND RT_EVENT_FLAG_OR \<noteq> 0"
    using es(3) unfolding bit.conj_disj_distrib by auto
  then have "rt_event_recv i es opt timeout S = Inr (Waits, None, S')"
    using take_context[OF c(1) l(2)] o(2,3) ev es(1,2) t(1) k'(1)
    by (auto simp: rt_event_recv_def get_event_def Let_def upd_kern_def on_kern_def S'_def and.commute)
  moreover have "event_ok idle g T i S' L'" using k'(2) o(2,5) by (auto simp: event_ok_def S'_def)
  from event_goodI[OF this] have "event_good idle g T i S' \<and> event_view S' i have (L' (Waiters i))"
    using o(2,3) by (auto simp: S'_def)
  moreover have "L' (Waiters i) = queue_in (ev_flag ev) (threads (client (kern S)))
       (current_priority (threads (client (kern S)) c)) c ws" using k'(4)[of i] o(4,5) by simp
  moreover have "st (client k') c = RT_THREAD_SUSPEND" using k'(3)[of c] cls_suspend[of "client k'" c] by simp
  ultimately show thesis using that[of S'] k'(5) by (simp add: S'_def)
qed

text \<open>C28: A send of events refines the specification over sets of events that goes over the waiting threads
  in their order: it lets go on exactly the threads whose events are there (all of them for one that asks
  for all, some of them for one that asks for any), a thread that clears takes its events from those behind
  it, each gets the events it was granted as the result of its call, the others keep waiting in their order
  with what they wait for, and what is left stays for later.\<close>

lemma event_send_refines:
  assumes "event_good idle g T i S" "event_view S i have ws" "es \<noteq> 0"
    and sp: "event_spec (event_info S) (\<lambda>t. events_in (event_set S t)) ws (events_in have \<union> events_in es) = (woken, left_over)"
  shows "\<exists>S' have'. rt_event_send i es S = Inr (RT_EOK, S') \<and> event_good idle g T i S'
    \<and> event_view S' i have' (filter (\<lambda>t. t \<notin> fst ` set woken) ws) \<and> events_in have' = left_over
    \<and> (\<forall>(t, w) \<in> set woken. cls (client (kern S')) t = RT_THREAD_READY
        \<and> (th_error (threads (client (kern S)) t) = RT_EOK
           \<longrightarrow> (\<exists>v. rt_event_recv_back t S' = (RT_EOK, Some v) \<and> events_in v = w)))
    \<and> (\<forall>t. t \<notin> fst ` set woken \<longrightarrow> cls (client (kern S')) t = cls (client (kern S)) t \<and> event_set S' t = event_set S t)"
proof -
  obtain L ev where o: "event_ok idle g T i S L" "events S i = Some ev" "ev_set ev = have" "L (Waiters i) = ws"
    by (rule event_goodE[OF assms(1,2)])
  obtain r rest where r: "event_words (event_info S) (event_set S) (L (Waiters i)) (ev_set ev OR es) = (r, rest)" by (rule prod.exhaust)
  have w: "woken = map (\<lambda>(t, w). (t, events_in w)) r" "left_over = events_in rest"
    using event_words_spec[OF r] sp o(3,4) by (simp_all add: events_in_ops)
  have f: "fst ` set woken = fst ` set r" unfolding w by force
  obtain S' L' where S': "rt_event_send i es S = Inr (RT_EOK, S')" "event_ok idle g T i S' L'"
    "events S' i = Some (ev\<lparr>ev_set := rest\<rparr>)" "L' (Waiters i) = filter (\<lambda>t. t \<notin> fst ` set r) (L (Waiters i))"
    "\<And>x. cls (client (kern S')) x = (if x \<in> fst ` set r then RT_THREAD_READY else cls (client (kern S)) x)"
    "\<And>x. th_error (threads (client (kern S')) x) = th_error (threads (client (kern S)) x)"
    "\<And>t w. (t, w) \<in> set r \<Longrightarrow> event_set S' t = w" "\<And>t. t \<notin> fst ` set r \<Longrightarrow> event_set S' t = event_set S t"
    by (rule event_send_ok[OF o(1,2) assms(3) r]) blast
  have "\<forall>(t, w) \<in> set woken. cls (client (kern S')) t = RT_THREAD_READY
        \<and> (th_error (threads (client (kern S)) t) = RT_EOK
           \<longrightarrow> (\<exists>v. rt_event_recv_back t S' = (RT_EOK, Some v) \<and> events_in v = w))"
    using S'(5-7) unfolding w by (force simp: rt_event_recv_back_def)
  moreover have "event_good idle g T i S' \<and> event_view S' i rest (filter (\<lambda>t. t \<notin> fst ` set woken) ws)"
    using event_goodI[OF S'(2,3)] S'(4) o(4) f by simp
  ultimately show ?thesis using S'(1,5,8) w(2) f by (intro exI[of _ S'] exI[of _ rest]) simp
qed

lemma event_send_refines_witness:
  "\<exists>S g S'. event_good 2 g {0, 1, 2} 7 S \<and> event_view S 7 0 [1] \<and> rt_event_send 7 1 S = Inr (RT_EOK, S')
    \<and> event_view S' 7 0 [] \<and> rt_event_recv_back 1 S' = (RT_EOK, Some 1)"
proof -
  obtain S where S: "ipc_good 2 (\<lambda>_. None) {0, 1, 2} S" "lock_nest (client (kern S)) = 0" "interrupt_nest (client (kern S)) = 0"
    "current_thread (client (kern S)) = Some 1" by (rule ex_ipc)
  define g where "g = (\<lambda>_ :: nat. None)(7 \<mapsto> dummy RT_IPC_FLAG_FIFO)"
  define S1 where "S1 = snd (rt_event_init 7 RT_IPC_FLAG_FIFO S)"
  have e: "event_good 2 g {0, 1, 2} 7 S1" "event_view S1 7 0 []"
    using event_init_ok[where i = 7 and flag = RT_IPC_FLAG_FIFO, OF S(1)] unfolding g_def S1_def by simp_all
  have S1: "events S1 7 = Some \<lparr>ev_static = True, ev_flag = RT_IPC_FLAG_FIFO, ev_set = 0\<rparr>" "kern S1 = rt_ipc_object_init 7 (kern S)"
    by (simp_all add: S1_def rt_event_init_def event_obj_init_def upd_kern_def)
  have l: "lock_nest (client (kern S1)) = 0" "interrupt_nest (client (kern S1)) = 0" "current_thread (client (kern S1)) = Some 1"
    using S by (simp_all add: S1(2))
  obtain S2 where S2: "rt_event_recv 7 3 6 (-1) S1 = Inr (Waits, None, S2)" "event_good 2 g {0, 1, 2} 7 S2"
    "event_view S2 7 0 [1]" "event_set S2 = (event_set S1)(1 := 3)" "event_info S2 = (event_info S1)(1 := 6)"
    "th_error (threads (client (kern S2)) 1) = RT_EOK"
    by (rule event_recv_waits[OF e S1(1) l(1,2,3), of 3 6 "-1"]) (simp_all add: queue_in_def)
  have ev: "events_in 0 = {}" "events_in 1 = {0}" "events_in 3 = {0, 1}" "bit (6 :: u8) 1" "bit (6 :: u8) 2" "\<not> bit (6 :: u8) 0"
    by (simp_all add: events_in_def upt_rec)
  have "event_spec (event_info S2) (\<lambda>t. events_in (event_set S2 t)) [1] (events_in 0 \<union> events_in 1) = ([(1, {0})], {})"
    by (simp add: S2(4,5) event_grant_def ev)
  from event_send_refines[OF S2(2,3) _ this] obtain S3 h v where S3: "rt_event_send 7 1 S2 = Inr (RT_EOK, S3)"
    "event_view S3 7 h []" "events_in h = {}" "rt_event_recv_back 1 S3 = (RT_EOK, Some v)" "events_in v = {0}"
    using S2(6) by auto
  then have "h = 0" "v = 1" using events_in_eq ev(1,2) by metis+
  then show ?thesis using S2(2,3) S3 by blast
qed

section \<open>Mutexes\<close>

text \<open>A mutex that the thread \<open>x\<close> has, once.\<close>

lemma ex_mutex:
  assumes x: "x \<in> {0, 1}" and p: "p < 32"
  obtains S g m where "mutex_ok 2 g {0, 1, 2} 7 S" "lock_view S 7 (Some x, 1, [])" "mutexes S 7 = Some m"
    "mtx_flag m = RT_IPC_FLAG_FIFO" "original_priority m = p"
    "lock_nest (client (kern S)) = 0" "interrupt_nest (client (kern S)) = 0" "current_thread (client (kern S)) = Some 1"
    "st (client (kern S)) 0 = RT_THREAD_READY" "prio (client (kern S)) 0 = 10" "prio (client (kern S)) 1 = 0"
proof -
  obtain S where S: "ipc_good 2 (\<lambda>_. None) {0, 1, 2} S" "lock_nest (client (kern S)) = 0" "interrupt_nest (client (kern S)) = 0"
    "current_thread (client (kern S)) = Some 1" "st (client (kern S)) 0 = RT_THREAD_READY" "prio (client (kern S)) 0 = 10"
    "prio (client (kern S)) 1 = 0" by (rule ex_ipc)
  define g where "g = (\<lambda>_ :: nat. None)(7 \<mapsto> dummy RT_IPC_FLAG_FIFO)"
  define S1 where "S1 = snd (rt_mutex_init 7 RT_IPC_FLAG_FIFO S)"
  have o: "mutex_ok 2 g {0, 1, 2} 7 S1" "lock_view S1 7 (None, 0, [])"
    using mutex_init_ok[where i = 7 and flag = RT_IPC_FLAG_FIFO, OF S(1)] unfolding g_def S1_def by simp_all
  obtain L xs where inv: "kernel_inv 2 (ghost g (kern S1)) L {0, 1, 2} xs" "L (Waiters 7) = []" by (rule mutex_okE[OF o]) blast
  define m where "m = \<lparr>mtx_static = True, mtx_flag = RT_IPC_FLAG_FIFO, mtx_value = 0, original_priority = p, mtx_hold = 1,
    mtx_owner = Some x\<rparr>"
  define S2 where "S2 = S1\<lparr>mutexes := (mutexes S1)(7 \<mapsto> m)\<rparr>"
  have k: "kern S2 = rt_ipc_object_init 7 (kern S)" "kern S2 = kern S1"
    by (simp_all add: S2_def S1_def rt_mutex_init_def mutex_obj_init_def upd_kern_def)
  have "mutex_wf {0, 1, 2} m (L (Waiters 7))" using x p by (auto simp: mutex_wf_def m_def inv(2) word_less_nat_alt)
  then have "mutex_ok 2 g {0, 1, 2} 7 S2 \<and> lock_view S2 7 (mtx_owner m, unat (mtx_hold m), L (Waiters 7))"
    using inv(1) by (intro mutex_okI) (simp_all add: k(2), simp_all add: S2_def g_def m_def)
  moreover have "mutexes S2 7 = Some m" by (simp add: S2_def)
  ultimately show thesis using that[of g S2 m] inv(2) S by (simp add: k(1) m_def)
qed

text \<open>The threads that wait at the list \<open>h\<close>, and that a thread waits in no list that is served by priority.\<close>

definition waits_by_priority :: "(nat \<Rightarrow> rt_sem option) \<Rightarrow> ipc \<Rightarrow> nat \<Rightarrow> bool" where
  "waits_by_priority g S x \<longleftrightarrow> (\<exists>h sem ws. g h = Some sem \<and> sem_flag sem = RT_IPC_FLAG_PRIO
     \<and> dlist (sc_links (client (kern S))) (Waiters h) (map Thread ws) \<and> x \<in> set ws)"

lemma not_by_priority:
  assumes "\<not> waits_by_priority g S x" "kernel_inv idle (ghost g (kern S)) L T xs"
  shows "out_of_order (with_sems g (client (kern S))) L x"
  using assms(1) ghost_waiters[OF assms(2)] unfolding waits_by_priority_def out_of_order_def by fastforce

text \<open>C26: Taking a mutex with a wait for ever, by a thread that is not the idle one, with the scheduler not
  locked and fewer than 255 nested takes, refines the take of a lock: a free one is taken, its owner nests,
  another thread waits in the order of the mutex, suspended. When it begins to wait the owner, be it ready,
  asleep or waiting itself in a list served in the order of arrival, gets its priority if that is higher; an
  owner that waits in a list served by priority is not covered.\<close>

lemma mutex_take_refines:
  assumes "mutex_ok idle g T i S" "lock_view S i (ow, n, ws)" "mutexes S i = Some m"
    and "lock_nest (client (kern S)) = 0" "interrupt_nest (client (kern S)) = 0"
    and "current_thread (client (kern S)) = Some c" "c \<noteq> idle" "n < 255"
    and waits: "\<forall>x. ow = Some x \<longrightarrow> x \<noteq> c \<longrightarrow> \<not> waits_by_priority g S x"
  defines "p \<equiv> current_priority (threads (client (kern S)) c)"
  shows "\<exists>r S' v'. rt_mutex_take i (-1) S = Inr (if r then Returned RT_EOK else Waits, S')
    \<and> lock_take c (queue_in (mtx_flag m) (threads (client (kern S))) p c) (ow, n, ws) = (r, v')
    \<and> mutex_ok idle g T i S' \<and> lock_view S' i v'
    \<and> (\<not> r \<longrightarrow> st (client (kern S')) c = RT_THREAD_SUSPEND
        \<and> current_priority (threads (client (kern S')) (the ow)) = min p (current_priority (threads (client (kern S)) (the ow))))"
proof (cases "ow = None \<or> ow = Some c")
  case True
  obtain S' where S': "rt_mutex_take i (-1) S = Inr (Returned RT_EOK, S')" "mutex_ok idle g T i S'" "lock_view S' i (Some c, n + 1, ws)"
    by (rule take_now_ok[OF assms(1,2,4-6,8) True]) blast
  have "n = 0" if "ow = None"
    using that by (auto intro: mutex_okE[OF assms(1,2)] simp: mutex_wf_def)
  then have "lock_take c (queue_in (mtx_flag m) (threads (client (kern S))) p c) (ow, n, ws) = (True, Some c, n + 1, ws)"
    using True by (auto simp: lock_take_def)
  then show ?thesis using S' by (intro exI[of _ True] exI[of _ S']) auto
next
  case False
  then obtain x where x: "ow = Some x" "x \<noteq> c" by auto
  have v: "lock_view S i (Some x, n, ws)" using assms(2) x(1) by simp
  have xo: "out_of_order (with_sems g (client (kern S))) L x" if "kernel_inv idle (ghost g (kern S)) L T xs" for L xs
    using not_by_priority[OF _ that] waits x by blast
  obtain S' where "rt_mutex_take i (-1) S = Inr (Waits, S')" "mutex_ok idle g T i S'"
    "lock_view S' i (Some x, n, queue_in (mtx_flag m) (threads (client (kern S))) p c ws)"
    "st (client (kern S')) c = RT_THREAD_SUSPEND"
    "current_priority (threads (client (kern S')) x) = min p (current_priority (threads (client (kern S)) x))"
    unfolding p_def by (rule take_waits_ok[where time = "-1", OF assms(1) v assms(4-7) x(2) xo assms(3)]) simp_all
  then show ?thesis using x by (intro exI[of _ False] exI[of _ S']) (simp add: lock_take_def)
qed

lemma mutex_take_refines_witness:
  "\<exists>S g S'. mutex_ok 2 g {0, 1, 2} 7 S \<and> lock_view S 7 (Some 0, 1, []) \<and> prio (client (kern S)) 0 = 10
    \<and> rt_mutex_take 7 (-1) S = Inr (Waits, S') \<and> lock_view S' 7 (Some 0, 1, [1]) \<and> prio (client (kern S')) 0 = 0"
proof -
  obtain S g m where S: "mutex_ok 2 g {0, 1, 2} 7 S" "lock_view S 7 (Some 0, 1, [])" "mutexes S 7 = Some m"
    "mtx_flag m = RT_IPC_FLAG_FIFO" "lock_nest (client (kern S)) = 0" "interrupt_nest (client (kern S)) = 0"
    "current_thread (client (kern S)) = Some 1"
    "st (client (kern S)) 0 = RT_THREAD_READY" "prio (client (kern S)) 0 = 10" "prio (client (kern S)) 1 = 0"
    by (rule ex_mutex[of 0 10]) simp_all
  have p: "current_priority (threads (client (kern S)) 1) = 0" using S(10) by (simp add: unat_eq_zero)
  obtain L xs where L: "kernel_inv 2 (ghost g (kern S)) L {0, 1, 2} xs" by (rule mutex_okE[OF S(1,2)])
  have "sched_core (client (ghost g (kern S))) L {0, 1, 2}" by (rule ok_core[OF kernel_okD(1)[OF kernel_invD(1)[OF L]]])
  then have "\<not> waits_by_priority g S 0"
    using awake_out_of_order[of "client (ghost g (kern S))" L "{0, 1, 2}" 0] S(8) ghost_waiters[OF L]
    unfolding waits_by_priority_def out_of_order_def by auto
  then show ?thesis using mutex_take_refines[OF S(1-3,5-7)] S p by (auto simp: lock_take_def queue_in_def min_def)
qed



text \<open>An owner that had got a higher priority from a thread that no longer waits goes on after its last
  release with its own low priority, although a thread of a higher one is ready: without a waiting thread
  the release does not schedule.\<close>

lemma mutex_release_keeps_processor:
  "\<exists>S g S'. mutex_ok 2 g {0, 1, 2} 7 S \<and> prio (client (kern S)) 1 = 0 \<and> rt_mutex_release 7 S = Inr (RT_EOK, S')
    \<and> current_thread (client (kern S')) = Some 1 \<and> prio (client (kern S')) 1 = 20
    \<and> st (client (kern S')) 0 = RT_THREAD_READY \<and> prio (client (kern S')) 0 = 10"
proof -
  obtain S g m where S: "mutex_ok 2 g {0, 1, 2} 7 S" "lock_view S 7 (Some 1, 1, [])" "mutexes S 7 = Some m"
    "original_priority m = 20" "lock_nest (client (kern S)) = 0" "interrupt_nest (client (kern S)) = 0"
    "current_thread (client (kern S)) = Some 1" "st (client (kern S)) 0 = RT_THREAD_READY" "prio (client (kern S)) 0 = 10"
    "prio (client (kern S)) 1 = 0"
    by (rule ex_mutex[of 1 20]) simp_all
  obtain S' where S': "rt_mutex_release 7 S = Inr (RT_EOK, S')" "current_thread (client (kern S')) = Some 1"
    "current_priority (threads (client (kern S')) 1) = original_priority m"
    "\<And>x. st (client (kern S')) x = st (client (kern S)) x"
    "\<And>x. x \<noteq> 1 \<Longrightarrow> threads (client (kern S')) x = threads (client (kern S)) x"
    by (rule release_frees_ok[OF S(1,2,5-7,3)]) blast
  have "threads (client (kern S')) 0 = threads (client (kern S)) 0" by (rule S'(5)) simp
  moreover have "prio (client (kern S')) 1 = 20" using S'(3) S(4) by simp
  ultimately show ?thesis using S S'(1,2) by auto
qed

end
