(* ===== verification/Kstring.thy ===== *)
theory Kstring
  imports Prelude
begin

text \<open>
  The memory and string functions of the kernel (\<open>rt-thread/src/kservice.c\<close>), on a memory that is a
  list of bytes: a pointer is an index (index 0 is at an aligned address), and an access behind the end is
  a fault. The elements are
  bytes (\<open>u8\<close>), or characters where the code only moves them and looks for the zero byte.
\<close>

section \<open>Accesses\<close>

text \<open>The zero byte, also as the character that ends a string.\<close>

instantiation char :: zero
begin

definition zero_char :: char where
  "zero_char = CHR 0x00"

instance ..

end

definition rd :: "'a list \<Rightarrow> nat \<Rightarrow> 'a res" where
  "rd b i = (if i < length b then Inr (b ! i) else Inl Out_Of_Bounds)"

definition wr :: "'a list \<Rightarrow> nat \<Rightarrow> 'a \<Rightarrow> 'a list res" where
  "wr b i v = (if i < length b then Inr (b[i := v]) else Inl Out_Of_Bounds)"

lemma rd_in [simp]: "i < length b \<Longrightarrow> rd b i = Inr (b ! i)"
  by (simp add: rd_def)

lemma wr_in [simp]: "i < length b \<Longrightarrow> wr b i v = Inr (b[i := v])"
  by (simp add: wr_def)

section \<open>Copying\<close>

text \<open>\<open>n\<close> bytes one after the other, from below, and from above.\<close>

fun copy_up :: "nat \<Rightarrow> nat \<Rightarrow> nat \<Rightarrow> 'a list \<Rightarrow> 'a list res" where
  "copy_up d s 0 b = Inr b"
| "copy_up d s (Suc n) b = bindE (rd b s) (\<lambda>v. bindE (wr b d v) (copy_up (Suc d) (Suc s) n))"

fun copy_down :: "nat \<Rightarrow> nat \<Rightarrow> nat \<Rightarrow> 'a list \<Rightarrow> 'a list res" where
  "copy_down d s 0 b = Inr b"
| "copy_down d s (Suc n) b = bindE (rd b (s + n)) (\<lambda>v. bindE (wr b (d + n) v) (copy_down d s n))"

definition rt_memmove :: "nat \<Rightarrow> nat \<Rightarrow> nat \<Rightarrow> 'a list \<Rightarrow> 'a list res" where
  "rt_memmove d s n b = (if s < d \<and> d < s + n then copy_down d s n b else copy_up d s n b)"

text \<open>A word of four bytes is read, and then written.\<close>

definition copy_word :: "nat \<Rightarrow> nat \<Rightarrow> 'a list \<Rightarrow> 'a list res" where
  "copy_word d s b =
     bindE (rd b s) (\<lambda>v0. bindE (rd b (s + 1)) (\<lambda>v1. bindE (rd b (s + 2)) (\<lambda>v2. bindE (rd b (s + 3)) (\<lambda>v3.
     bindE (wr b d v0) (\<lambda>b. bindE (wr b (d + 1) v1) (\<lambda>b. bindE (wr b (d + 2) v2) (\<lambda>b. wr b (d + 3) v3)))))))"

fun copy_words :: "nat \<Rightarrow> nat \<Rightarrow> nat \<Rightarrow> 'a list \<Rightarrow> 'a list res" where
  "copy_words 0 d s b = Inr b"
| "copy_words (Suc k) d s b = bindE (copy_word d s b) (copy_words k (d + 4) (s + 4))"

text \<open>Blocks of four words, then words, then bytes; only bytes when the pointers are not aligned or there
  are fewer than 16.\<close>

definition rt_memcpy :: "nat \<Rightarrow> nat \<Rightarrow> nat \<Rightarrow> 'a list \<Rightarrow> 'a list res" where
  "rt_memcpy d s n b =
     (if n \<ge> 16 \<and> d mod 4 = 0 \<and> s mod 4 = 0
      then bindE (copy_words (4 * (n div 16)) d s b) (\<lambda>b1.
           let done = 16 * (n div 16); left = n mod 16 in
           bindE (copy_words (left div 4) (d + done) (s + done) b1) (\<lambda>b2.
           let done = done + 4 * (left div 4) in
           copy_up (d + done) (s + done) (left mod 4) b2))
      else copy_up d s n b)"

section \<open>Filling\<close>

fun fill_bytes :: "nat \<Rightarrow> nat \<Rightarrow> 'a \<Rightarrow> 'a list \<Rightarrow> 'a list res" where
  "fill_bytes s 0 v b = Inr b"
| "fill_bytes s (Suc n) v b = bindE (wr b s v) (fill_bytes (Suc s) n v)"

text \<open>A word is stored as its four bytes, the lowest first.\<close>

definition word_bytes :: "u32 \<Rightarrow> u8 list" where
  "word_bytes w = [ucast w, ucast (drop_bit 8 w), ucast (drop_bit 16 w), ucast (drop_bit 24 w)]"

fun write_all :: "nat \<Rightarrow> 'a list \<Rightarrow> 'a list \<Rightarrow> 'a list res" where
  "write_all s [] b = Inr b"
| "write_all s (v # vs) b = bindE (wr b s v) (write_all (Suc s) vs)"

fun fill_words :: "nat \<Rightarrow> nat \<Rightarrow> u32 \<Rightarrow> u8 list \<Rightarrow> u8 list res" where
  "fill_words 0 s w b = Inr b"
| "fill_words (Suc k) s w b = bindE (write_all s (word_bytes w) b) (fill_words k (s + 4) w)"

definition rt_memset :: "nat \<Rightarrow> int \<Rightarrow> nat \<Rightarrow> u8 list \<Rightarrow> u8 list res" where
  "rt_memset s c n b =
     (let d = to_u32 c AND 0xff in
      if n \<ge> 4 \<and> s mod 4 = 0
      then
        let half = push_bit 8 d OR d; buffer = half OR push_bit 16 half in
        bindE (fill_words (4 * (n div 16)) s buffer b) (\<lambda>b1.
        bindE (fill_words (n mod 16 div 4) (s + 16 * (n div 16)) buffer b1)
          (fill_bytes (s + 4 * (n div 4)) (n mod 4) (ucast d)))
      else fill_bytes s n (ucast d) b)"

section \<open>Comparing and searching\<close>

text \<open>The difference of the first bytes that differ.\<close>

fun rt_memcmp :: "nat \<Rightarrow> nat \<Rightarrow> nat \<Rightarrow> u8 list \<Rightarrow> int res" where
  "rt_memcmp s t 0 b = Inr 0"
| "rt_memcmp s t (Suc n) b = bindE (rd b s) (\<lambda>x. bindE (rd b t) (\<lambda>y.
     if uint x - uint y \<noteq> 0 then Inr (uint x - uint y) else rt_memcmp (Suc s) (Suc t) n b))"

text \<open>The loop to the zero byte; the distance to the end of the memory bounds it.\<close>

function strlen_from :: "nat \<Rightarrow> nat \<Rightarrow> 'a::zero list \<Rightarrow> nat res" where
  "strlen_from s sc b = bindE (rd b sc) (\<lambda>c. if c \<noteq> 0 then strlen_from s (sc + 1) b else Inr (sc - s))"
  by auto
termination
  by (relation "measure (\<lambda>(s, sc, b). length b - sc)") (auto simp: rd_def split: if_splits)

definition rt_strlen :: "nat \<Rightarrow> 'a::zero list \<Rightarrow> nat res" where
  "rt_strlen s b = strlen_from s s b"

function strnlen_from :: "nat \<Rightarrow> nat \<Rightarrow> nat \<Rightarrow> 'a::zero list \<Rightarrow> nat res" where
  "strnlen_from s sc m b = bindE (rd b sc) (\<lambda>c. if c \<noteq> 0 \<and> sc - s < m then strnlen_from s (sc + 1) m b else Inr (sc - s))"
  by auto
termination
  by (relation "measure (\<lambda>(s, sc, m, b). length b - sc)") (auto simp: rd_def split: if_splits)

definition rt_strnlen :: "nat \<Rightarrow> nat \<Rightarrow> 'a::zero list \<Rightarrow> nat res" where
  "rt_strnlen s m b = strnlen_from s s m b"

function rt_strcmp :: "nat \<Rightarrow> nat \<Rightarrow> u8 list \<Rightarrow> int res" where
  "rt_strcmp cs ct b = bindE (rd b cs) (\<lambda>x. bindE (rd b ct) (\<lambda>y.
     if x \<noteq> 0 \<and> x = y then rt_strcmp (cs + 1) (ct + 1) b else Inr (uint x - uint y)))"
  by auto
termination
  by (relation "measure (\<lambda>(cs, ct, b). length b - cs)") (auto simp: rd_def split: if_splits)

text \<open>The result is kept in a signed byte.\<close>

fun rt_strncmp :: "nat \<Rightarrow> nat \<Rightarrow> nat \<Rightarrow> u8 list \<Rightarrow> int res" where
  "rt_strncmp cs ct 0 b = Inr 0"
| "rt_strncmp cs ct (Suc n) b = bindE (rd b cs) (\<lambda>x. bindE (rd b ct) (\<lambda>y.
     let r = sint (to_u8 (uint x - uint y)) in
     if r \<noteq> 0 \<or> x = 0 then Inr r else rt_strncmp (cs + 1) (ct + 1) n b))"

text \<open>The loop of \<open>rt_strncpy\<close>, from one object to another: \<open>n\<close> bytes are left, and a zero byte is
  repeated.\<close>

fun strncpy_loop :: "'a::zero list \<Rightarrow> nat \<Rightarrow> nat \<Rightarrow> nat \<Rightarrow> 'a list \<Rightarrow> 'a list res" where
  "strncpy_loop src s d 0 b = Inr b"
| "strncpy_loop src s d (Suc n) b = bindE (rd src s) (\<lambda>c. bindE (wr b d c) (\<lambda>b1.
     if c = 0 then fill_bytes (d + 1) n 0 b1 else strncpy_loop src (s + 1) (d + 1) n b1))"

definition rt_strncpy :: "nat \<Rightarrow> 'a::zero list \<Rightarrow> nat \<Rightarrow> nat \<Rightarrow> 'a list \<Rightarrow> 'a list res" where
  "rt_strncpy d src s n b = strncpy_loop src s d n b"

fun strstr_loop :: "nat \<Rightarrow> nat \<Rightarrow> nat \<Rightarrow> nat \<Rightarrow> u8 list \<Rightarrow> nat option res" where
  "strstr_loop l1 l2 s t b =
     (if l1 \<ge> l2 \<and> l1 > 0
      then bindE (rt_memcmp s t l2 b) (\<lambda>r. if r = 0 then Inr (Some s) else strstr_loop (l1 - 1) l2 (s + 1) t b)
      else Inr None)"

definition rt_strstr :: "nat \<Rightarrow> nat \<Rightarrow> u8 list \<Rightarrow> nat option res" where
  "rt_strstr s t b =
     bindE (rt_strlen t b) (\<lambda>l2.
     if l2 = 0 then Inr (Some s)
     else bindE (rt_strlen s b) (\<lambda>l1. strstr_loop l1 l2 s t b))"

definition lower :: "u8 \<Rightarrow> u8" where
  "lower c = (if 0x41 \<le> c \<and> c \<le> 0x5A then c + 0x20 else c)"

function rt_strcasecmp :: "nat \<Rightarrow> nat \<Rightarrow> u8 list \<Rightarrow> int res" where
  "rt_strcasecmp x y b = bindE (rd b x) (\<lambda>c. bindE (rd b y) (\<lambda>d.
     if lower c = lower d \<and> lower c \<noteq> 0 then rt_strcasecmp (x + 1) (y + 1) b
     else Inr (uint (lower c) - uint (lower d))))"
  by auto
termination
  by (relation "measure (\<lambda>(x, y, b). length b - x)") (auto simp: rd_def split: if_splits)

declare strlen_from.simps [simp del] strnlen_from.simps [simp del] rt_strcmp.simps [simp del]
  rt_strcasecmp.simps [simp del] strstr_loop.simps [simp del]

end
