(* ===== verification/Msh.thy ===== *)
theory Msh
  imports Kstring
begin

text \<open>
  The command interpreter of the shell (\<open>components/finsh/msh.c\<close>), with the configuration of
  \<open>rtconfig.h\<close> (\<open>FINSH_USING_MSH_ONLY\<close>, no \<open>RT_USING_DFS\<close>): a line is split in place into the arguments
  of a command, looked up in the symbol table and run. The line is in an array \<open>b\<close> of characters, a
  pointer into it is an index, and an access behind the array is a fault. The functions of the commands
  are a parameter.
\<close>

section \<open>The symbol table\<close>

text \<open>An entry of the symbol table: the exported name, the description, and the function.\<close>

record 'f finsh_syscall =
  sc_name :: string
  sc_desc :: string
  sc_func :: 'f

definition msh_is_used :: bool where
  "msh_is_used = True"

abbreviation FINSH_ARG_MAX :: nat where "FINSH_ARG_MAX \<equiv> 10"

abbreviation NUL :: char where "NUL \<equiv> CHR 0x00"
abbreviation TAB :: char where "TAB \<equiv> CHR 0x09"
abbreviation QUOTE :: char where "QUOTE \<equiv> CHR 0x22"
abbreviation BACKSLASH :: char where "BACKSLASH \<equiv> CHR 0x5C"

definition is_blank :: "char \<Rightarrow> bool" where
  "is_blank c \<longleftrightarrow> c = CHR '' '' \<or> c = TAB"

declare zero_char_def [simp]

text \<open>Whether \<open>strncmp\<close> of \<open>n\<close> characters at the start of two objects is zero.\<close>

fun strncmp_eq :: "nat \<Rightarrow> string \<Rightarrow> string \<Rightarrow> bool res" where
  "strncmp_eq 0 xs ys = Inr True"
| "strncmp_eq (Suc n) (x # xs) (y # ys) =
     (if x \<noteq> y then Inr False else if x = NUL then Inr True else strncmp_eq n xs ys)"
| "strncmp_eq (Suc n) xs ys = Inl Out_Of_Bounds"

text \<open>A string literal of the program, with its final zero.\<close>

definition c_str :: "string \<Rightarrow> string" where
  "c_str s = s @ [NUL]"

definition is_command :: "'f finsh_syscall \<Rightarrow> bool res" where
  "is_command e = strncmp_eq 6 (c_str (sc_name e)) (c_str ''__cmd_'')"

text \<open>The string at a pointer, up to its zero.\<close>

definition string_at :: "string \<Rightarrow> nat \<Rightarrow> string res" where
  "string_at b p = bindE (rt_strlen p b) (\<lambda>n. Inr (take n (drop p b)))"

section \<open>Splitting a line\<close>

text \<open>\<open>ptr\<close> is \<open>cmd + position\<close> all along; \<open>c\<close> is \<open>cmd\<close>. Each loop reads the character before it
  compares the position with the length.\<close>

function split_blanks :: "nat \<Rightarrow> nat \<Rightarrow> nat \<Rightarrow> string \<Rightarrow> (nat \<times> string) res" where
  "split_blanks c len position b = bindE (rd b (c + position)) (\<lambda>x.
     if is_blank x \<and> position < len
     then bindE (wr b (c + position) NUL) (split_blanks c len (position + 1))
     else Inr (position, b))"
  by auto
termination
  by (relation "measure (\<lambda>(c, len, position, b). len - position)") auto

function split_quoted :: "nat \<Rightarrow> nat \<Rightarrow> nat \<Rightarrow> string \<Rightarrow> nat res" where
  "split_quoted c len position b = bindE (rd b (c + position)) (\<lambda>x.
     if x \<noteq> QUOTE \<and> position < len
     then
       if x = BACKSLASH
       then bindE (rd b (c + position + 1)) (\<lambda>y.
              split_quoted c len (if y = QUOTE then position + 2 else position + 1) b)
       else split_quoted c len (position + 1) b
     else Inr position)"
  by auto
termination
  by (relation "measure (\<lambda>(c, len, position, b). len - position)") auto

function split_word :: "nat \<Rightarrow> nat \<Rightarrow> nat \<Rightarrow> string \<Rightarrow> nat res" where
  "split_word c len position b = bindE (rd b (c + position)) (\<lambda>x.
     if \<not> is_blank x \<and> position < len then split_word c len (position + 1) b else Inr position)"
  by auto
termination
  by (relation "measure (\<lambda>(c, len, position, b). len - position)") auto

text \<open>The main loop; \<open>argv\<close> holds the pointers so far. When there are too many arguments the first
  \<open>FINSH_ARG_MAX\<close> are printed and kept.\<close>

function split_loop :: "nat \<Rightarrow> nat \<Rightarrow> nat \<Rightarrow> nat list \<Rightarrow> string \<Rightarrow> (nat list \<times> string) res" where
  "split_loop c len position argv b =
     (if \<not> position < len then Inr (argv, b)
      else bindE (split_blanks c len position b) (\<lambda>(position, b).
        if length argv \<ge> FINSH_ARG_MAX then Inr (argv, b)
        else if position \<ge> len then Inr (argv, b)
        else bindE (rd b (c + position)) (\<lambda>x.
          if x = QUOTE
          then
            let position = position + 1; argv = argv @ [c + position] in
            bindE (split_quoted c len position b) (\<lambda>position.
              if position \<ge> len then Inr (argv, b)
              else bindE (wr b (c + position) NUL) (split_loop c len (position + 1) argv))
          else
            let argv = argv @ [c + position] in
            bindE (split_word c len position b) (\<lambda>position.
              if position \<ge> len then Inr (argv, b) else split_loop c len position argv b))))"
  by auto
termination
  by (relation "measure (\<lambda>(c, len, position, argv, b). FINSH_ARG_MAX - length argv)") auto

definition msh_split :: "nat \<Rightarrow> nat \<Rightarrow> string \<Rightarrow> (nat list \<times> string) res" where
  "msh_split c len b = split_loop c len 0 [] b"

declare split_blanks.simps [simp del] split_quoted.simps [simp del] split_word.simps [simp del]
  split_loop.simps [simp del]

section \<open>Running a command\<close>

text \<open>The first command whose name is the first \<open>n\<close> characters at \<open>cmd\<close>.\<close>

fun msh_get_cmd :: "'f finsh_syscall list \<Rightarrow> nat \<Rightarrow> nat \<Rightarrow> string \<Rightarrow> 'f option res" where
  "msh_get_cmd [] c n b = Inr None"
| "msh_get_cmd (e # tab) c n b = bindE (is_command e) (\<lambda>k.
     if \<not> k then msh_get_cmd tab c n b
     else bindE (strncmp_eq n (drop 6 (c_str (sc_name e))) (drop c b)) (\<lambda>eq.
       if \<not> eq then msh_get_cmd tab c n b
       else bindE (rd (c_str (sc_name e)) (6 + n)) (\<lambda>x.
         if x = NUL then Inr (Some (sc_func e)) else msh_get_cmd tab c n b)))"

text \<open>The size of the first word: the loop of \<open>_msh_exec_cmd\<close> is the one of the split.\<close>

definition cmd0_size :: "nat \<Rightarrow> nat \<Rightarrow> string \<Rightarrow> nat res" where
  "cmd0_size c len b = split_word c len 0 b"

fun strings_at :: "string \<Rightarrow> nat list \<Rightarrow> string list res" where
  "strings_at b [] = Inr []"
| "strings_at b (p # ps) = bindE (string_at b p) (\<lambda>s. bindE (strings_at b ps) (\<lambda>ss. Inr (s # ss)))"

text \<open>\<open>run\<close> gives the result of a command's function on its arguments. The result is the return value,
  the value stored through \<open>retp\<close> and the line after the split.\<close>

definition msh_exec_cmd ::
  "'f finsh_syscall list \<Rightarrow> ('f \<Rightarrow> string list \<Rightarrow> 'w \<Rightarrow> (int \<times> 'w) res) \<Rightarrow> nat \<Rightarrow> nat \<Rightarrow> string \<Rightarrow> 'w
   \<Rightarrow> (int \<times> int option \<times> string \<times> 'w) res" where
  "msh_exec_cmd tab run c len b w =
     bindE (cmd0_size c len b) (\<lambda>n.
     if n = 0 then Inr (- RT_ERROR, None, b, w)
     else bindE (msh_get_cmd tab c n b) (\<lambda>f. case f of
       None \<Rightarrow> Inr (- RT_ERROR, None, b, w)
     | Some f \<Rightarrow> bindE (msh_split c len b) (\<lambda>(argv, b).
         if argv = [] then Inr (- RT_ERROR, None, b, w)
         else bindE (strings_at b argv) (\<lambda>args. bindE (run f args w) (\<lambda>(r, w).
           Inr (0, Some r, b, w))))))"

text \<open>The blanks at the start; \<open>length\<close> wraps around.\<close>

function strip_start :: "nat \<Rightarrow> u32 \<Rightarrow> string \<Rightarrow> (nat \<times> u32) res" where
  "strip_start c len b = bindE (rd b c) (\<lambda>x.
     if is_blank x then strip_start (c + 1) (len - 1) b else Inr (c, len))"
  by auto
termination
  by (relation "measure (\<lambda>(c, len, b). length b - c)") (auto simp: rd_def split: if_splits)

text \<open>The end of the name in the message of a command that is not found.\<close>

function name_end :: "nat \<Rightarrow> string \<Rightarrow> nat res" where
  "name_end t b = bindE (rd b t) (\<lambda>x. if x \<noteq> CHR '' '' \<and> x \<noteq> NUL then name_end (t + 1) b else Inr t)"
  by auto
termination
  by (relation "measure (\<lambda>(t, b). length b - t)") (auto simp: rd_def split: if_splits)

declare strip_start.simps [simp del] name_end.simps [simp del]

text \<open>The return value, the name printed with \<open>command not found\<close> if any, the line and the world.\<close>

definition msh_exec ::
  "'f finsh_syscall list \<Rightarrow> ('f \<Rightarrow> string list \<Rightarrow> 'w \<Rightarrow> (int \<times> 'w) res) \<Rightarrow> nat \<Rightarrow> u32 \<Rightarrow> string \<Rightarrow> 'w
   \<Rightarrow> (int \<times> string option \<times> string \<times> 'w) res" where
  "msh_exec tab run c len b w =
     bindE (strip_start c len b) (\<lambda>(c, len).
     if len = 0 then Inr (0, None, b, w)
     else bindE (msh_exec_cmd tab run c (unat len) b w) (\<lambda>(r, ret, b, w).
       if r = 0 then (case ret of None \<Rightarrow> Inl Uninit_Read | Some v \<Rightarrow> Inr (v, None, b, w))
       else
         bindE (name_end c b) (\<lambda>t. bindE (wr b t NUL) (\<lambda>b.
         bindE (string_at b c) (\<lambda>name. Inr (-1, Some name, b, w))))))"

section \<open>Completion\<close>

text \<open>The length of the common prefix of two strings.\<close>

function str_common_from :: "nat \<Rightarrow> string \<Rightarrow> nat \<Rightarrow> string \<Rightarrow> nat res" where
  "str_common_from i s j t = bindE (rd s i) (\<lambda>x.
     if x = NUL then Inr i else bindE (rd t j) (\<lambda>y.
     if y \<noteq> NUL \<and> x = y then str_common_from (i + 1) s (j + 1) t else Inr i))"
  by auto
termination
  by (relation "measure (\<lambda>(i, s, j, t). length s - i)") (auto simp: rd_def split: if_splits)

declare str_common_from.simps [simp del]

definition str_common :: "string \<Rightarrow> string \<Rightarrow> nat res" where
  "str_common s t = str_common_from 0 s 0 t"

text \<open>The names of the commands, as \<open>msh_help\<close> prints them.\<close>

fun msh_help :: "'f finsh_syscall list \<Rightarrow> string list res" where
  "msh_help [] = Inr []"
| "msh_help (e # tab) = bindE (is_command e) (\<lambda>k. bindE (msh_help tab) (\<lambda>out.
     Inr (if k then drop 6 (sc_name e) # out else out)))"

text \<open>The loop over the table: \<open>name_ptr\<close> is the first command that matches, and \<open>min_length\<close> the
  length of the common prefix so far.\<close>

fun complete_loop :: "'f finsh_syscall list \<Rightarrow> string \<Rightarrow> string option \<Rightarrow> nat \<Rightarrow> string list
    \<Rightarrow> (string option \<times> nat \<times> string list) res" where
  "complete_loop [] b name_ptr min_length out = Inr (name_ptr, min_length, out)"
| "complete_loop (e # tab) b name_ptr min_length out = bindE (is_command e) (\<lambda>k.
     if \<not> k then complete_loop tab b name_ptr min_length out
     else let cmd_name = drop 6 (sc_name e) in
       bindE (rt_strlen 0 b) (\<lambda>n. bindE (strncmp_eq n b (c_str cmd_name)) (\<lambda>eq.
       if \<not> eq then complete_loop tab b name_ptr min_length out
       else
         let name_ptr1 = (if min_length = 0 then Some cmd_name else name_ptr);
             min_length1 = (if min_length = 0 then length cmd_name else min_length) in
         (case name_ptr1 of None \<Rightarrow> Inl Null_Deref
          | Some name \<Rightarrow> bindE (str_common (c_str name) (c_str cmd_name)) (\<lambda>n1.
              complete_loop tab b name_ptr1 (if n1 < min_length1 then n1 else min_length1) (out @ [cmd_name]))))))"

text \<open>The line after the completion, and the lines printed.\<close>

definition msh_auto_complete :: "'f finsh_syscall list \<Rightarrow> string \<Rightarrow> (string list \<times> string) res" where
  "msh_auto_complete tab b =
     bindE (rd b 0) (\<lambda>x.
     if x = NUL then bindE (msh_help tab) (\<lambda>out. Inr (out, b))
     else bindE (complete_loop tab b None 0 []) (\<lambda>(name_ptr, min_length, out).
       case name_ptr of None \<Rightarrow> Inr (out, b)
       | Some name \<Rightarrow> bindE (rt_strncpy 0 (c_str name) 0 min_length b) (\<lambda>b1. Inr (out, b1))))"

end
