(* ===== verification/Finsh.thy ===== *)
theory Finsh
  imports Msh
begin

text \<open>
  The shell thread (\<open>components/finsh/shell.c\<close>): the line the user edits, the history of the last lines,
  and what every key does to them. A key is one turn of the loop of \<open>finsh_thread_entry\<close>. The arrays are
  lists of their declared size; an access behind one is a fault. What is printed is not kept, but a
  string that is printed is read to its zero.
\<close>

section \<open>The shell\<close>

abbreviation FINSH_CMD_SIZE :: nat where "FINSH_CMD_SIZE \<equiv> 80"
abbreviation FINSH_HISTORY_LINES :: nat where "FINSH_HISTORY_LINES \<equiv> 5"

datatype input_stat = WAIT_NORMAL | WAIT_SPEC_KEY | WAIT_FUNC_KEY

text \<open>\<open>echo_mode\<close> and \<open>prompt_mode\<close> are bit fields of one bit.\<close>

record finsh_shell =
  sh_stat :: input_stat
  sh_echo_mode :: "1 word"
  sh_prompt_mode :: "1 word"
  sh_current_history :: u16
  sh_history_count :: u16
  sh_cmd_history :: "string list"
  sh_line :: string
  sh_line_position :: u16
  sh_line_curpos :: u16

definition empty_line :: string where
  "empty_line = replicate FINSH_CMD_SIZE NUL"

text \<open>The shell is zeroed when it is allocated, then the prompt and the echo are switched on.\<close>

definition finsh_shell_init :: finsh_shell where
  "finsh_shell_init =
     \<lparr>sh_stat = WAIT_NORMAL, sh_echo_mode = 1, sh_prompt_mode = 1, sh_current_history = 0, sh_history_count = 0,
      sh_cmd_history = replicate FINSH_HISTORY_LINES empty_line, sh_line = empty_line, sh_line_position = 0,
      sh_line_curpos = 0\<rparr>"

definition finsh_set_echo :: "u32 \<Rightarrow> finsh_shell \<Rightarrow> finsh_shell" where
  "finsh_set_echo echo sh = sh\<lparr>sh_echo_mode := ucast (ucast echo :: u8)\<rparr>"

definition finsh_get_echo :: "finsh_shell \<Rightarrow> u32" where
  "finsh_get_echo sh = ucast (sh_echo_mode sh)"

definition finsh_set_prompt_mode :: "u32 \<Rightarrow> finsh_shell \<Rightarrow> finsh_shell" where
  "finsh_set_prompt_mode prompt_mode sh = sh\<lparr>sh_prompt_mode := ucast prompt_mode\<rparr>"

definition finsh_get_prompt_mode :: "finsh_shell \<Rightarrow> u32" where
  "finsh_get_prompt_mode sh = ucast (sh_prompt_mode sh)"

text \<open>The prompt; \<open>custom\<close> is the one set with \<open>finsh_set_prompt\<close>, which \<open>strncpy\<close> cuts at the buffer's
  size.\<close>

definition finsh_get_prompt :: "string option \<Rightarrow> finsh_shell \<Rightarrow> string" where
  "finsh_get_prompt custom sh =
     (if sh_prompt_mode sh = 0 then ''''
      else case custom of Some p \<Rightarrow> take 128 p
      | None \<Rightarrow> (if msh_is_used then ''msh '' else ''finsh '') @ ''>'')"

section \<open>Helpers\<close>

text \<open>\<open>memcpy\<close> of \<open>n\<close> characters from the start of one array to the start of another.\<close>

definition copy_array :: "nat \<Rightarrow> string \<Rightarrow> string \<Rightarrow> string res" where
  "copy_array n src dst =
     (if n \<le> length src \<and> n \<le> length dst then Inr (take n src @ drop n dst) else Inl Out_Of_Bounds)"

text \<open>\<open>line_curpos = line_position = strlen(line)\<close>.\<close>

definition set_positions :: "finsh_shell \<Rightarrow> finsh_shell res" where
  "set_positions sh = bindE (rt_strlen 0 (sh_line sh)) (\<lambda>n.
     Inr (sh\<lparr>sh_line_position := of_nat n, sh_line_curpos := of_nat n\<rparr>))"

text \<open>A string printed with \<open>%s\<close> is read up to its zero.\<close>

definition print_str :: "string \<Rightarrow> nat \<Rightarrow> unit res" where
  "print_str b p = bindE (string_at b p) (\<lambda>_. Inr ())"

section \<open>The history\<close>

definition shell_handle_history :: "finsh_shell \<Rightarrow> unit res" where
  "shell_handle_history sh = print_str (sh_line sh) 0"

text \<open>The entry \<open>i\<close> of the history becomes the line.\<close>

definition recall :: "finsh_shell \<Rightarrow> finsh_shell res" where
  "recall sh =
     (if unat (sh_current_history sh) < length (sh_cmd_history sh)
      then bindE (copy_array FINSH_CMD_SIZE (sh_cmd_history sh ! unat (sh_current_history sh)) (sh_line sh)) (\<lambda>l.
           bindE (set_positions (sh\<lparr>sh_line := l\<rparr>)) (\<lambda>sh.
           bindE (shell_handle_history sh) (\<lambda>_. Inr sh)))
      else Inl Out_Of_Bounds)"

definition key_up :: "finsh_shell \<Rightarrow> finsh_shell res" where
  "key_up sh =
     (if sh_current_history sh > 0 then recall (sh\<lparr>sh_current_history := sh_current_history sh - 1\<rparr>)
      else Inr (sh\<lparr>sh_current_history := 0\<rparr>))"

definition key_down :: "finsh_shell \<Rightarrow> finsh_shell res" where
  "key_down sh =
     (if uint (sh_current_history sh) < uint (sh_history_count sh) - 1
      then recall (sh\<lparr>sh_current_history := sh_current_history sh + 1\<rparr>)
      else if sh_history_count sh \<noteq> 0 then recall (sh\<lparr>sh_current_history := sh_history_count sh - 1\<rparr>)
      else Inr sh)"

text \<open>Entry \<open>i\<close> is zeroed, and the line is copied into it.\<close>

definition store_line :: "nat \<Rightarrow> finsh_shell \<Rightarrow> string list \<Rightarrow> string list res" where
  "store_line i sh hist =
     (if i < length hist
      then bindE (copy_array (unat (sh_line_position sh)) (sh_line sh) empty_line) (\<lambda>e. Inr (hist[i := e]))
      else Inl Out_Of_Bounds)"

text \<open>The move of the history by one line: entry \<open>index + 1\<close> into entry \<open>index\<close>.\<close>

fun move_history :: "nat \<Rightarrow> nat \<Rightarrow> string list \<Rightarrow> string list" where
  "move_history index 0 hist = hist"
| "move_history index (Suc n) hist = move_history (index + 1) n (hist[index := hist ! (index + 1)])"

definition shell_push_history :: "finsh_shell \<Rightarrow> finsh_shell res" where
  "shell_push_history sh =
     bindE
      (if sh_line_position sh \<noteq> 0
       then
         if unat (sh_history_count sh) \<ge> FINSH_HISTORY_LINES
         then
           if sh_cmd_history sh ! (FINSH_HISTORY_LINES - 1) \<noteq> sh_line sh
           then bindE (store_line (FINSH_HISTORY_LINES - 1) sh
                    (move_history 0 (FINSH_HISTORY_LINES - 1) (sh_cmd_history sh))) (\<lambda>hist.
                Inr (sh\<lparr>sh_cmd_history := hist, sh_history_count := of_nat FINSH_HISTORY_LINES\<rparr>))
           else Inr sh
         else
           if sh_history_count sh = 0 \<or> sh_cmd_history sh ! (unat (sh_history_count sh) - 1) \<noteq> sh_line sh
           then bindE (store_line (unat (sh_history_count sh)) sh (sh_cmd_history sh)) (\<lambda>hist.
                Inr (sh\<lparr>sh_current_history := sh_history_count sh, sh_cmd_history := hist,
                       sh_history_count := sh_history_count sh + 1\<rparr>))
           else Inr sh
       else Inr sh)
      (\<lambda>sh. Inr (sh\<lparr>sh_current_history := sh_history_count sh\<rparr>))"

section \<open>Editing keys\<close>

definition key_left :: "finsh_shell \<Rightarrow> finsh_shell" where
  "key_left sh = (if sh_line_curpos sh \<noteq> 0 then sh\<lparr>sh_line_curpos := sh_line_curpos sh - 1\<rparr> else sh)"

definition key_right :: "finsh_shell \<Rightarrow> finsh_shell res" where
  "key_right sh =
     (if sh_line_curpos sh < sh_line_position sh
      then bindE (rd (sh_line sh) (unat (sh_line_curpos sh))) (\<lambda>_.
           Inr (sh\<lparr>sh_line_curpos := sh_line_curpos sh + 1\<rparr>))
      else Inr sh)"

definition shell_auto_complete :: "'f finsh_syscall list \<Rightarrow> string \<Rightarrow> string res" where
  "shell_auto_complete tab prefix =
     bindE (msh_auto_complete tab prefix) (\<lambda>(_, b). bindE (print_str b 0) (\<lambda>_. Inr b))"

definition key_tab :: "'f finsh_syscall list \<Rightarrow> finsh_shell \<Rightarrow> finsh_shell res" where
  "key_tab tab sh = bindE (shell_auto_complete tab (sh_line sh)) (\<lambda>b. set_positions (sh\<lparr>sh_line := b\<rparr>))"

definition key_backspace :: "finsh_shell \<Rightarrow> finsh_shell res" where
  "key_backspace sh =
     (if sh_line_curpos sh = 0 then Inr sh
      else
        let position = sh_line_position sh - 1; curpos = sh_line_curpos sh - 1;
            sh = sh\<lparr>sh_line_position := position, sh_line_curpos := curpos\<rparr> in
        if position > curpos
        then bindE (rt_memmove (unat curpos) (unat curpos + 1) (unat position - unat curpos) (sh_line sh)) (\<lambda>b.
             bindE (wr b (unat position) NUL) (\<lambda>b.
             bindE (print_str b (unat curpos)) (\<lambda>_. Inr (sh\<lparr>sh_line := b\<rparr>))))
        else bindE (wr (sh_line sh) (unat position) NUL) (\<lambda>b. Inr (sh\<lparr>sh_line := b\<rparr>)))"

text \<open>The end of the line: the history, the command, and an empty line.\<close>

definition key_enter ::
  "'f finsh_syscall list \<Rightarrow> ('f \<Rightarrow> string list \<Rightarrow> 'w \<Rightarrow> (int \<times> 'w) res) \<Rightarrow> finsh_shell \<Rightarrow> 'w
   \<Rightarrow> (finsh_shell \<times> 'w) res" where
  "key_enter tab run sh w =
     bindE (shell_push_history sh) (\<lambda>sh.
     bindE (if msh_is_used
            then bindE (msh_exec tab run 0 (ucast (sh_line_position sh)) (sh_line sh) w) (\<lambda>(_, _, b, w). Inr (b, w))
            else Inr (sh_line sh, w)) (\<lambda>(b, w).
     Inr (sh\<lparr>sh_line := replicate (length b) NUL, sh_line_position := 0, sh_line_curpos := 0\<rparr>, w)))"

text \<open>Any other character goes into the line. A line that has become too long is discarded by setting the
  positions to zero, with its characters left in place.\<close>

definition key_char :: "char \<Rightarrow> finsh_shell \<Rightarrow> finsh_shell res" where
  "key_char ch sh =
     (let position = (if unat (sh_line_position sh) \<ge> FINSH_CMD_SIZE then 0 else sh_line_position sh);
          curpos = sh_line_curpos sh in
      bindE
       (if curpos < position
        then bindE (rt_memmove (unat curpos + 1) (unat curpos) (unat position - unat curpos) (sh_line sh)) (\<lambda>b.
             bindE (wr b (unat curpos) ch) (\<lambda>b.
             if sh_echo_mode sh \<noteq> 0 then bindE (print_str b (unat curpos)) (\<lambda>_. Inr b) else Inr b))
        else wr (sh_line sh) (unat position) ch)
       (\<lambda>b.
        let position = position + 1; curpos = curpos + 1 in
        if unat position \<ge> FINSH_CMD_SIZE
        then Inr (sh\<lparr>sh_line := b, sh_line_position := 0, sh_line_curpos := 0\<rparr>)
        else Inr (sh\<lparr>sh_line := b, sh_line_position := position, sh_line_curpos := curpos\<rparr>)))"

section \<open>A key\<close>

definition plain_key ::
  "'f finsh_syscall list \<Rightarrow> ('f \<Rightarrow> string list \<Rightarrow> 'w \<Rightarrow> (int \<times> 'w) res) \<Rightarrow> char \<Rightarrow> finsh_shell \<Rightarrow> 'w
   \<Rightarrow> (finsh_shell \<times> 'w) res" where
  "plain_key tab run ch sh w =
     (if ch = NUL \<or> ch = CHR 0xFF then Inr (sh, w)
      else if ch = TAB then bindE (key_tab tab sh) (\<lambda>sh. Inr (sh, w))
      else if ch = CHR 0x7F \<or> ch = CHR 0x08 then bindE (key_backspace sh) (\<lambda>sh. Inr (sh, w))
      else if ch = CHR 0x0D \<or> ch = CHR 0x0A then key_enter tab run sh w
      else bindE (key_char ch sh) (\<lambda>sh. Inr (sh, w)))"

text \<open>The keys of three bytes: escape, \<open>[\<close>, and a letter.\<close>

definition finsh_key ::
  "'f finsh_syscall list \<Rightarrow> ('f \<Rightarrow> string list \<Rightarrow> 'w \<Rightarrow> (int \<times> 'w) res) \<Rightarrow> char \<Rightarrow> finsh_shell \<Rightarrow> 'w
   \<Rightarrow> (finsh_shell \<times> 'w) res" where
  "finsh_key tab run ch sh w =
     (if ch = CHR 0x1B then Inr (sh\<lparr>sh_stat := WAIT_SPEC_KEY\<rparr>, w)
      else case sh_stat sh of
        WAIT_SPEC_KEY \<Rightarrow>
          if ch = CHR ''['' then Inr (sh\<lparr>sh_stat := WAIT_FUNC_KEY\<rparr>, w)
          else plain_key tab run ch (sh\<lparr>sh_stat := WAIT_NORMAL\<rparr>) w
      | WAIT_FUNC_KEY \<Rightarrow>
          let sh = sh\<lparr>sh_stat := WAIT_NORMAL\<rparr> in
          if ch = CHR ''A'' then bindE (key_up sh) (\<lambda>sh. Inr (sh, w))
          else if ch = CHR ''B'' then bindE (key_down sh) (\<lambda>sh. Inr (sh, w))
          else if ch = CHR ''D'' then Inr (key_left sh, w)
          else if ch = CHR ''C'' then bindE (key_right sh) (\<lambda>sh. Inr (sh, w))
          else plain_key tab run ch sh w
      | WAIT_NORMAL \<Rightarrow> plain_key tab run ch sh w)"

fun finsh_keys ::
  "'f finsh_syscall list \<Rightarrow> ('f \<Rightarrow> string list \<Rightarrow> 'w \<Rightarrow> (int \<times> 'w) res) \<Rightarrow> string \<Rightarrow> finsh_shell \<Rightarrow> 'w
   \<Rightarrow> (finsh_shell \<times> 'w) res" where
  "finsh_keys tab run [] sh w = Inr (sh, w)"
| "finsh_keys tab run (ch # cs) sh w = bindE (finsh_key tab run ch sh w) (\<lambda>(sh, w). finsh_keys tab run cs sh w)"

end
