(* ===== verification/Kstring_Facts.thy ===== *)
theory Kstring_Facts
  imports Kstring
begin

text \<open>
  The functions on memory against plain copies and fills of a list: the words and blocks of
  \<open>rt_memcpy\<close> and \<open>rt_memset\<close> are copies and fills byte by byte, \<open>rt_memmove\<close> copies overlapping ranges
  as if through a second buffer, \<open>rt_strstr\<close> finds the first occurrence.
\<close>

section \<open>Copying byte by byte\<close>

lemma copy_up_length: "copy_up d s n b = Inr b' \<Longrightarrow> length b' = length b"
proof (induction n arbitrary: d s b)
  case (Suc n)
  then show ?case by (fastforce simp: bindE_Inr_iff rd_def wr_def split: if_splits)
qed simp

lemma copy_up_fault: "n > 0 \<Longrightarrow> length b < s + n \<or> length b < d + n \<Longrightarrow> copy_up d s n b = Inl Out_Of_Bounds"
proof (induction n arbitrary: d s b)
  case (Suc n)
  show ?case
  proof (cases "s < length b \<and> d < length b")
    case True
    then have "n > 0" using Suc.prems(2) by (cases n) auto
    then show ?thesis using Suc.IH[of "b[d := b ! s]" "Suc s" "Suc d"] Suc.prems(2) True by simp
  next
    case False
    then show ?thesis by (auto simp: rd_def wr_def)
  qed
qed simp

lemma copy_up_plus: "copy_up d s (m + n) b = bindE (copy_up d s m b) (copy_up (d + m) (s + m) n)"
proof (induction m arbitrary: d s b)
  case (Suc m)
  then show ?case by (simp add: bindE_assoc cong: bindE_cong)
qed simp

lemma copy_up_nth:
  assumes "s + n \<le> length b" "d + n \<le> length b" "d \<le> s \<or> s + n \<le> d"
  shows "\<exists>b'. copy_up d s n b = Inr b' \<and> length b' = length b
    \<and> (\<forall>i < length b. b' ! i = (if d \<le> i \<and> i < d + n then b ! (s + (i - d)) else b ! i))"
  using assms
proof (induction n arbitrary: d s b)
  case (Suc n)
  define b1 where "b1 = b[d := b ! s]"
  obtain b' where b': "copy_up (Suc d) (Suc s) n b1 = Inr b'" "length b' = length b1"
    "\<forall>i < length b1. b' ! i = (if Suc d \<le> i \<and> i < Suc d + n then b1 ! (Suc s + (i - Suc d)) else b1 ! i)"
    using Suc.IH[of "Suc s" b1 "Suc d"] Suc.prems by (auto simp: b1_def)
  have "b' ! i = (if d \<le> i \<and> i < d + Suc n then b ! (s + (i - d)) else b ! i)" if i: "i < length b" for i
  proof (cases "Suc d \<le> i \<and> i < Suc d + n")
    case True
    then have a: "Suc s + (i - Suc d) = s + (i - d)" by arith
    have e: "b' ! i = (if Suc d \<le> i \<and> i < Suc d + n then b1 ! (Suc s + (i - Suc d)) else b1 ! i)"
      by (rule b'(3)[rule_format]) (simp add: b1_def i)
    have "b' ! i = b1 ! (s + (i - d))" unfolding e a using True by (rule if_P)
    moreover have "s + (i - d) \<noteq> d" using True Suc.prems(3) by auto
    ultimately show ?thesis using True by (simp add: b1_def)
  next
    case False
    then have o: "i < d \<or> i = d \<or> d + Suc n \<le> i" by arith
    have "b' ! i = (if Suc d \<le> i \<and> i < Suc d + n then b1 ! (Suc s + (i - Suc d)) else b1 ! i)"
      by (rule b'(3)[rule_format]) (simp add: b1_def i)
    then have "b' ! i = b1 ! i" unfolding if_not_P[OF False] .
    then show ?thesis using o i by (elim disjE) (simp_all add: b1_def)
  qed
  moreover have "copy_up d s (Suc n) b = Inr b'" using b'(1) Suc.prems by (simp add: b1_def)
  ultimately show ?case using b'(2) by (simp add: b1_def)
qed auto

lemma copy_down_nth:
  assumes "s + n \<le> length b" "d + n \<le> length b" "s \<le> d"
  shows "\<exists>b'. copy_down d s n b = Inr b' \<and> length b' = length b
    \<and> (\<forall>i < length b. b' ! i = (if d \<le> i \<and> i < d + n then b ! (s + (i - d)) else b ! i))"
  using assms
proof (induction n arbitrary: b)
  case (Suc n)
  define b1 where "b1 = b[d + n := b ! (s + n)]"
  obtain b' where b': "copy_down d s n b1 = Inr b'" "length b' = length b1"
    "\<forall>i < length b1. b' ! i = (if d \<le> i \<and> i < d + n then b1 ! (s + (i - d)) else b1 ! i)"
    using Suc.IH[of b1] Suc.prems by (auto simp: b1_def)
  have "b' ! i = (if d \<le> i \<and> i < d + Suc n then b ! (s + (i - d)) else b ! i)" if i: "i < length b" for i
  proof (cases "d \<le> i \<and> i < d + n")
    case True
    have e: "b' ! i = (if d \<le> i \<and> i < d + n then b1 ! (s + (i - d)) else b1 ! i)"
      by (rule b'(3)[rule_format]) (simp add: b1_def i)
    have "b' ! i = b1 ! (s + (i - d))" unfolding e using True by (rule if_P)
    moreover have "s + (i - d) \<noteq> d + n" using True Suc.prems(3) by auto
    ultimately show ?thesis using True by (simp add: b1_def)
  next
    case False
    then have o: "i < d \<or> i = d + n \<or> d + Suc n \<le> i" by arith
    have "b' ! i = (if d \<le> i \<and> i < d + n then b1 ! (s + (i - d)) else b1 ! i)"
      by (rule b'(3)[rule_format]) (simp add: b1_def i)
    then have "b' ! i = b1 ! i" unfolding if_not_P[OF False] .
    then show ?thesis using o i by (elim disjE) (simp_all add: b1_def)
  qed
  moreover have "copy_down d s (Suc n) b = Inr b'" using b'(1) Suc.prems by (simp add: b1_def)
  ultimately show ?case using b'(2) by (simp add: b1_def)
qed auto

lemma moved_list:
  assumes "s + n \<le> length b" "d + n \<le> length b" "length b' = length b"
    "\<forall>i < length b. b' ! i = (if d \<le> i \<and> i < d + n then b ! (s + (i - d)) else b ! i)"
  shows "b' = take d b @ take n (drop s b) @ drop (d + n) b"
proof (rule nth_equalityI)
  show "length b' = length (take d b @ take n (drop s b) @ drop (d + n) b)" using assms by simp
  fix i assume "i < length b'"
  then have i: "i < length b" "b' ! i = (if d \<le> i \<and> i < d + n then b ! (s + (i - d)) else b ! i)" using assms(3,4) by simp_all
  consider "i < d" | "d \<le> i" "i < d + n" | "d + n \<le> i" by linarith
  then show "b' ! i = (take d b @ take n (drop s b) @ drop (d + n) b) ! i"
  proof cases
    case 3
    have l: "length (take d b @ take n (drop s b)) = d + n" using assms(1,2) by simp
    have "(take d b @ take n (drop s b) @ drop (d + n) b) ! i = drop (d + n) b ! (i - (d + n))"
      using 3 l by (metis append.assoc nth_append not_less)
    also have "\<dots> = b ! i" using 3 i assms(2) by (subst nth_drop) simp_all
    finally show ?thesis using 3 i by simp
  next
    case 2
    then have "i - d < n" "i - d < length (drop s b)" using assms(1) by simp_all
    then show ?thesis using 2 i assms(1,2) by (simp add: nth_append)
  qed (use i assms(1,2) in \<open>simp add: nth_append\<close>)
qed

lemma copy_up_spec:
  assumes "s + n \<le> length b" "d + n \<le> length b" "d \<le> s \<or> s + n \<le> d"
  shows "copy_up d s n b = Inr (take d b @ take n (drop s b) @ drop (d + n) b)"
  using copy_up_nth[OF assms] moved_list[OF assms(1,2)] by auto

lemma memmove_spec:
  assumes "s + n \<le> length b" "d + n \<le> length b"
  shows "rt_memmove d s n b = Inr (take d b @ take n (drop s b) @ drop (d + n) b)"
proof (cases "s < d \<and> d < s + n")
  case True
  then have "s \<le> d" by simp
  then show ?thesis using True copy_down_nth[OF assms] moved_list[OF assms] by (auto simp: rt_memmove_def)
next
  case False
  then have "d \<le> s \<or> s + n \<le> d" by auto
  from copy_up_spec[OF assms this] show ?thesis unfolding rt_memmove_def if_not_P[OF False] .
qed

section \<open>Words\<close>

lemma copy_word_bytes:
  assumes "d mod 4 = 0" "s mod 4 = 0"
  shows "copy_word d s b = copy_up d s 4 b"
proof (cases "s + 4 \<le> length b \<and> d + 4 \<le> length b")
  case True
  have "d = s \<or> d + 4 \<le> s \<or> s + 4 \<le> d" using assms by presburger
  moreover have "copy_word d s b = Inr (b[d := b ! s, d + 1 := b ! (s + 1), d + 2 := b ! (s + 2), d + 3 := b ! (s + 3)])"
    using True by (simp add: copy_word_def)
  moreover have "copy_up d s 4 b = copy_up d s (Suc (Suc (Suc (Suc 0)))) b" by (simp add: numeral_eq_Suc)
  ultimately show ?thesis using True by (auto simp: numeral_eq_Suc)
next
  case False
  have "copy_up d s 4 b = Inl Out_Of_Bounds" using copy_up_fault[of 4 b s d] False by auto
  moreover have "copy_word d s b = Inl Out_Of_Bounds" using False by (auto simp: copy_word_def rd_def wr_def bindE_Inl_iff)
  ultimately show ?thesis by simp
qed

lemma copy_words_bytes: "d mod 4 = 0 \<Longrightarrow> s mod 4 = 0 \<Longrightarrow> copy_words k d s b = copy_up d s (4 * k) b"
proof (induction k arbitrary: d s b)
  case (Suc k)
  have "copy_words (Suc k) d s b = bindE (copy_up d s 4 b) (copy_words k (d + 4) (s + 4))"
    by (simp only: copy_words.simps copy_word_bytes[OF Suc.prems])
  also have "\<dots> = bindE (copy_up d s 4 b) (copy_up (d + 4) (s + 4) (4 * k))"
    using Suc.IH[of "d + 4" "s + 4"] Suc.prems by (intro bindE_cong refl) simp
  also have "\<dots> = copy_up d s (4 + 4 * k) b" by (simp add: copy_up_plus)
  finally show ?case by simp
qed simp

lemma memcpy_bytes: "rt_memcpy d s n b = copy_up d s n b"
proof (cases "n \<ge> 16 \<and> d mod 4 = 0 \<and> s mod 4 = 0")
  case True
  define p where "p = 16 * (n div 16)"
  define q where "q = 4 * (n mod 16 div 4)"
  have al: "d mod 4 = 0" "s mod 4 = 0" "(d + p) mod 4 = 0" "(s + p) mod 4 = 0" using True by (simp_all add: p_def) presburger+
  have w: "4 * (4 * (n div 16)) = p" by (simp add: p_def)
  have n: "n = p + (q + n mod 16 mod 4)" by (simp add: p_def q_def)
  have "rt_memcpy d s n b = bindE (copy_up d s p b) (\<lambda>b1. bindE (copy_up (d + p) (s + p) q b1)
      (copy_up (d + (p + q)) (s + (p + q)) (n mod 16 mod 4)))"
    unfolding rt_memcpy_def Let_def if_P[OF True] p_def[symmetric] q_def[symmetric] copy_words_bytes[OF al(1,2)]
      copy_words_bytes[OF al(3,4)] w by (simp only: add.assoc)
  also have "\<dots> = copy_up d s (p + (q + n mod 16 mod 4)) b"
    by (simp add: copy_up_plus[of _ _ p] copy_up_plus[of _ _ q] add.assoc cong: bindE_cong)
  finally show ?thesis using n by simp
qed (auto simp: rt_memcpy_def)

lemma fill_bytes_plus: "fill_bytes s (m + n) v b = bindE (fill_bytes s m v b) (fill_bytes (s + m) n v)"
  by (induction m arbitrary: s b) (simp_all add: bindE_assoc cong: bindE_cong)

lemma fill_bytes_spec: "s + n \<le> length b \<Longrightarrow> fill_bytes s n v b = Inr (take s b @ replicate n v @ drop (s + n) b)"
proof (induction n arbitrary: s b)
  case (Suc n)
  then have "fill_bytes s (Suc n) v b = Inr (take (Suc s) (b[s := v]) @ replicate n v @ drop (Suc s + n) (b[s := v]))" by simp
  also have "take (Suc s) (b[s := v]) = take s b @ [v]" using Suc.prems by (simp add: take_Suc_conv_app_nth)
  finally show ?case by simp
qed simp

lemma fill_words_bytes:
  assumes "word_bytes w = [v, v, v, v]"
  shows "fill_words k s w b = fill_bytes s (4 * k) v b"
proof (induction k arbitrary: s b)
  case (Suc k)
  have "fill_words (Suc k) s w b = bindE (fill_bytes s 4 v b) (fill_words k (s + 4) w)"
    using assms by (simp add: numeral_eq_Suc bindE_assoc)
  also have "\<dots> = bindE (fill_bytes s 4 v b) (fill_bytes (s + 4) (4 * k) v)" by (intro bindE_cong refl) (rule Suc.IH)
  also have "\<dots> = fill_bytes s (4 + 4 * k) v b" by (rule fill_bytes_plus[symmetric])
  finally show ?case by simp
qed simp

lemma byte_word: "word_bytes (let half = push_bit 8 (ucast v) OR ucast v in half OR push_bit 16 half) = [v, v, v, v]"
proof -
  define w :: u32 where "w = (let half = push_bit 8 (ucast v) OR ucast v in half OR push_bit 16 half)"
  have lt: "n < 8" if "bit v n" for n using bit_imp_le_length[OF that] by simp
  have b: "bit w n \<longleftrightarrow> bit v (n mod 8)" if "n < 32" for n
  proof -
    consider "n < 8" | "8 \<le> n" "n < 16" | "16 \<le> n" "n < 24" | "24 \<le> n" using that by linarith
    then show ?thesis
    proof cases
      case 1
      then show ?thesis by (auto simp: w_def Let_def bit_simps dest: lt)
    next
      case 2
      then have "n mod 8 = n - 8" by (simp add: mod_if)
      then show ?thesis using 2 by (auto simp: w_def Let_def bit_simps dest: lt)
    next
      case 3
      then have "n mod 8 = n - 16" by (simp add: mod_if)
      then show ?thesis using 3 by (auto simp: w_def Let_def bit_simps dest: lt)
    next
      case 4
      then have "n mod 8 = n - 24" using that by (simp add: mod_if)
      then show ?thesis using 4 that by (auto simp: w_def Let_def bit_simps dest: lt)
    qed
  qed
  have "ucast (drop_bit (8 * j) w) = v" if "j < 4" for j
    using that by (intro bit_eqI) (simp add: bit_ucast_iff bit_drop_bit_eq b)
  from this[of 0] this[of 1] this[of 2] this[of 3] show ?thesis unfolding w_def[symmetric] by (simp add: word_bytes_def)
qed

lemma low_byte: "to_u32 c AND 0xff = ucast (to_u8 c)"
proof -
  have m: "bit (0xff :: u32) n \<longleftrightarrow> n < 8" if "n < 32" for n
  proof -
    have "(0xff :: u32) = mask 8" by (simp add: mask_eq_exp_minus_1)
    then show ?thesis using that by (simp only: bit_mask_iff) simp
  qed
  show ?thesis
  proof (rule bit_word_eqI)
    fix n assume "n < LENGTH(32)"
    then have n: "n < 32" by simp
    show "bit (to_u32 c AND 0xff) n = bit (ucast (to_u8 c) :: u32) n"
      using n by (simp only: bit_and_iff m[OF n]) (auto simp: to_u32_def to_u8_def bit_simps)
  qed
qed

lemma split_count:
  fixes n :: nat
  shows "16 * (n div 16) + (4 * (n mod 16 div 4) + n mod 4) = n" "4 * (n div 4) = 16 * (n div 16) + 4 * (n mod 16 div 4)"
    "4 * (4 * (n div 16)) = 16 * (n div 16)"
proof -
  define a r where "a = n div 16" and "r = n mod 16"
  have n: "n = 16 * a + r" by (simp add: a_def r_def)
  have d: "n div 4 = 4 * a + r div 4" "n mod 4 = r mod 4" unfolding n by presburger+
  have r: "4 * (r div 4) + r mod 4 = r" by simp
  show "16 * (n div 16) + (4 * (n mod 16 div 4) + n mod 4) = n"
    unfolding d a_def[symmetric] r_def[symmetric] r by (rule n[symmetric])
  show "4 * (n div 4) = 16 * (n div 16) + 4 * (n mod 16 div 4)"
    unfolding d a_def[symmetric] r_def[symmetric] by simp
qed simp

lemma byte_of_word: "ucast (ucast (v :: u8) :: u32) = v"
  by (intro bit_word_eqI) (simp add: bit_simps)

lemma memset_bytes: "rt_memset s c n b = fill_bytes s n (to_u8 c) b"
proof (cases "n \<ge> 4 \<and> s mod 4 = 0")
  case True
  note w = byte_word[of "to_u8 c", unfolded Let_def]
  define p where "p = 16 * (n div 16)"
  define q where "q = 4 * (n mod 16 div 4)"
  have e: "4 * (4 * (n div 16)) = p" "s + 4 * (n div 4) = s + p + q" "n = p + (q + n mod 4)"
    unfolding p_def q_def using split_count[of n] by (simp_all only: mult.assoc[symmetric] add.assoc)
  have "rt_memset s c n b = bindE (fill_bytes s p (to_u8 c) b) (\<lambda>b1. bindE (fill_bytes (s + p) q (to_u8 c) b1)
      (fill_bytes (s + p + q) (n mod 4) (to_u8 c)))"
    unfolding rt_memset_def Let_def low_byte if_P[OF True] fill_words_bytes[OF w] e(1,2) byte_of_word
    unfolding p_def q_def ..
  also have "\<dots> = fill_bytes s (p + (q + n mod 4)) (to_u8 c) b"
    unfolding fill_bytes_plus[of _ p] fill_bytes_plus[of _ q] ..
  finally show ?thesis unfolding e(3)[symmetric] .
qed (auto simp: rt_memset_def low_byte byte_of_word)

section \<open>Strings\<close>

text \<open>The string \<open>xs\<close> and its zero byte are at \<open>s\<close>.\<close>

definition is_cstr :: "'a::zero list \<Rightarrow> nat \<Rightarrow> 'a list \<Rightarrow> bool" where
  "is_cstr b s xs \<longleftrightarrow> s + length xs < length b \<and> take (length xs) (drop s b) = xs \<and> b ! (s + length xs) = 0 \<and> 0 \<notin> set xs"

lemma cstr_nth: "is_cstr b s xs \<Longrightarrow> i < length xs \<Longrightarrow> b ! (s + i) = xs ! i"
proof -
  assume a: "is_cstr b s xs" "i < length xs"
  then have "b ! (s + i) = take (length xs) (drop s b) ! i" unfolding is_cstr_def by (subst nth_take) simp_all
  then show ?thesis using a unfolding is_cstr_def by (simp only:)
qed

lemma strlen_ok:
  assumes "is_cstr b s xs"
  shows "rt_strlen s b = Inr (length xs)"
proof -
  have "strlen_from s (s + k) b = Inr (length xs)" if "k \<le> length xs" for k
    using that
  proof (induction "length xs - k" arbitrary: k)
    case 0
    then show ?case using assms by (subst strlen_from.simps) (simp add: is_cstr_def)
  next
    case (Suc m)
    then have k: "k < length xs" by simp
    then have "b ! (s + k) \<noteq> 0" using cstr_nth[OF assms k] assms by (metis is_cstr_def nth_mem)
    moreover have "s + k < length b" using assms k by (simp add: is_cstr_def)
    moreover have "strlen_from s (s + Suc k) b = Inr (length xs)" using Suc.hyps(1)[of "Suc k"] Suc.hyps(2) k by simp
    ultimately show ?case by (subst strlen_from.simps) simp
  qed
  from this[of 0] show ?thesis by (simp add: rt_strlen_def)
qed

lemma memcmp_eq:
  assumes "s + n \<le> length b" "t + n \<le> length b"
  shows "\<exists>r. rt_memcmp s t n b = Inr r \<and> (r = 0 \<longleftrightarrow> take n (drop s b) = take n (drop t b))"
  using assms
proof (induction n arbitrary: s t)
  case (Suc n)
  have h: "drop s b = b ! s # drop (Suc s) b" "drop t b = b ! t # drop (Suc t) b" using Suc.prems by (simp_all add: Cons_nth_drop_Suc)
  have "uint (b ! s) - uint (b ! t) = 0 \<longleftrightarrow> b ! s = b ! t" by (simp add: word_uint_eq_iff)
  then show ?case using Suc.IH[of "Suc s" "Suc t"] Suc.prems h by auto
qed simp

lemma strstr_loop_ok:
  assumes x: "is_cstr b s xs" and y: "is_cstr b t ys" "ys \<noteq> []" and k: "k \<le> length xs"
  shows "strstr_loop (length xs - k) (length ys) (s + k) t b
    = Inr (map_option (\<lambda>i. s + i) (find (\<lambda>i. take (length ys) (drop i xs) = ys) [k..<Suc (length xs) - length ys]))"
  using k
proof (induction "length xs - k" arbitrary: k)
  case 0
  then show ?case using y(2) by (subst strstr_loop.simps) (cases ys, simp_all)
next
  case (Suc m)
  show ?case
  proof (cases "length xs - k \<ge> length ys")
    case False
    then show ?thesis by (subst strstr_loop.simps) simp
  next
    case True
    then have "k < Suc (length xs) - length ys" using Suc.hyps(2) by arith
    then have k1: "[k..<Suc (length xs) - length ys] = k # [Suc k..<Suc (length xs) - length ys]" by (rule upt_conv_Cons)
    have l: "s + k + length ys \<le> length b" "t + length ys \<le> length b"
      using x y(1) True Suc.hyps(2) unfolding is_cstr_def by linarith+
    obtain r where r: "rt_memcmp (s + k) t (length ys) b = Inr r"
      "r = 0 \<longleftrightarrow> take (length ys) (drop (s + k) b) = take (length ys) (drop t b)"
      using memcmp_eq[of "s + k" "length ys" b t] l by auto
    have "take (length ys) (drop k xs) = take (length ys) (drop k (take (length xs) (drop s b)))" using x by (simp add: is_cstr_def)
    also have "\<dots> = take (length ys) (drop (s + k) b)" using True by (simp add: drop_take add.commute min_def)
    finally have r0: "r = 0 \<longleftrightarrow> take (length ys) (drop k xs) = ys" using r(2) y(1) by (simp add: is_cstr_def)
    have "strstr_loop (length xs - Suc k) (length ys) (s + Suc k) t b
      = Inr (map_option (\<lambda>i. s + i) (find (\<lambda>i. take (length ys) (drop i xs) = ys) [Suc k..<Suc (length xs) - length ys]))"
      using Suc.hyps(1)[of "Suc k"] Suc.hyps(2) Suc.prems by simp
    moreover have "length xs - k - 1 = length xs - Suc k" "s + k + 1 = s + Suc k" by simp_all
    moreover have "length ys \<le> length xs - k \<and> 0 < length xs - k" using True Suc.hyps(2) by simp
    ultimately show ?thesis
      using r(1) r0 unfolding k1 by (subst strstr_loop.simps) (simp only: if_True bindE.simps find.simps, simp)
  qed
qed

lemma strstr_ok:
  assumes x: "is_cstr b s xs" and y: "is_cstr b t ys"
  shows "rt_strstr s t b
    = Inr (map_option (\<lambda>i. s + i) (find (\<lambda>i. take (length ys) (drop i xs) = ys) [0..<Suc (length xs) - length ys]))"
proof (cases "ys = []")
  case True
  moreover have "[0..<Suc (length xs)] = 0 # [1..<Suc (length xs)]" by (simp add: upt_conv_Cons del: upt_Suc)
  ultimately show ?thesis using strlen_ok[OF y] by (simp add: rt_strstr_def del: upt_Suc)
next
  case False
  then show ?thesis using strlen_ok[OF x] strlen_ok[OF y] strstr_loop_ok[OF x y False, of 0] by (simp add: rt_strstr_def)
qed

section \<open>What they do\<close>

text \<open>C38: within the memory, \<open>rt_memmove\<close> copies a range as it was before, overlapping or not; \<open>rt_memcpy\<close>, by
  blocks of words or by bytes, does the same unless the target begins inside the source; \<open>rt_memset\<close>, by
  words or by bytes, fills a range with the low byte of the value.\<close>

theorem memory_functions_spec:
  assumes "s + n \<le> length b" "d + n \<le> length b" "k + m \<le> length v"
  shows "rt_memmove d s n b = Inr (take d b @ take n (drop s b) @ drop (d + n) b)
    \<and> (d \<le> s \<or> s + n \<le> d \<longrightarrow> rt_memcpy d s n b = Inr (take d b @ take n (drop s b) @ drop (d + n) b))
    \<and> rt_memset k c m v = Inr (take k v @ replicate m (to_u8 c) @ drop (k + m) v)"
  using memmove_spec[OF assms(1,2)] copy_up_spec[OF assms(1,2)] fill_bytes_spec[OF assms(3)]
  unfolding memcpy_bytes memset_bytes by blast

lemma memory_functions_spec_witness:
  "rt_memmove 1 0 3 [1, 2, 3, 4, 5 :: u8] = Inr [1, 1, 2, 3, 5] \<and> rt_memcpy 0 4 4 [1, 2, 3, 4, 5, 6, 7, 8 :: u8] = Inr [5, 6, 7, 8, 5, 6, 7, 8]
    \<and> rt_memset 0 65 4 [1, 2, 3, 4, 5] = Inr [65, 65, 65, 65, 5]"
  using memory_functions_spec[of 0 3 "[1, 2, 3, 4, 5 :: u8]" 1 0 4 "[1, 2, 3, 4, 5]" "65"]
    memory_functions_spec[of 4 4 "[1, 2, 3, 4, 5, 6, 7, 8 :: u8]" 0 0 4 "[1, 2, 3, 4, 5]" "65"]
  by (simp add: to_u8_def eval_nat_numeral)

end
