(* ===== verification/Tokens.thy ===== *)
theory Tokens
  imports Msh Kstring_Facts
begin

text \<open>
  What a line of the shell means: the reference tokenizer on the text of the line, and the proof that
  the in-place split of \<open>msh.c\<close> gives the first \<open>FINSH_ARG_MAX\<close> of its tokens.
\<close>

section \<open>The reference tokenizer\<close>

text \<open>A quoted token runs to the next quote without a backslash before it; the backslash stays in it.\<close>

fun quoted :: "string \<Rightarrow> string \<times> string" where
  "quoted [] = ([], [])"
| "quoted (x # cs) =
     (if x = QUOTE then ([], cs)
      else if x = BACKSLASH \<and> cs \<noteq> [] \<and> hd cs = QUOTE
      then let (q, r) = quoted (tl cs) in (x # QUOTE # q, r)
      else let (q, r) = quoted cs in (x # q, r))"

lemma quoted_length: "length (snd (quoted s)) \<le> length s"
  by (induction s rule: quoted.induct) (auto split: prod.splits)

function tokens :: "string \<Rightarrow> string list" where
  "tokens s = (case dropWhile is_blank s of
       [] \<Rightarrow> []
     | x # cs \<Rightarrow>
         if x = QUOTE then fst (quoted cs) # tokens (snd (quoted cs))
         else takeWhile (\<lambda>y. \<not> is_blank y) (x # cs) # tokens (dropWhile (\<lambda>y. \<not> is_blank y) (x # cs)))"
  by auto
termination
proof (relation "measure length", simp)
  fix s x cs assume s: "dropWhile is_blank s = x # cs"
  then have l: "length cs < length s" using length_dropWhile_le[of is_blank s] by simp
  show "(snd (quoted cs), s) \<in> measure length" using quoted_length[of cs] l by simp
  have "\<not> is_blank x" using s by (simp add: dropWhile_eq_Cons_conv)
  then show "(dropWhile (\<lambda>y. \<not> is_blank y) (x # cs), s) \<in> measure length"
    using length_dropWhile_le[of "\<lambda>y. \<not> is_blank y" cs] l by simp
qed

declare tokens.simps [simp del]

lemma tokens_Nil [simp]: "tokens [] = []"
  by (simp add: tokens.simps)

lemma tokens_blanks: "list_all is_blank s \<Longrightarrow> tokens (s @ r) = tokens r"
  by (subst (1 2) tokens.simps) (simp add: list_all_iff dropWhile_append2)

lemma tokens_quote: "tokens (QUOTE # cs) = fst (quoted cs) # tokens (snd (quoted cs))"
  by (subst tokens.simps) (simp add: is_blank_def)

lemma tokens_word:
  assumes "w \<noteq> []" "hd w \<noteq> QUOTE" "list_all (\<lambda>y. \<not> is_blank y) w" "r = [] \<or> is_blank (hd r)"
  shows "tokens (w @ r) = w # tokens r"
proof -
  obtain x w' where w: "w = x # w'" using assms(1) by (cases w) auto
  have "takeWhile (\<lambda>y. \<not> is_blank y) (w @ r) = w \<and> dropWhile (\<lambda>y. \<not> is_blank y) (w @ r) = r"
    using assms(3,4) by (cases r) (auto simp: list_all_iff)
  moreover have "dropWhile is_blank (w @ r) = x # (w' @ r)" using assms(3) w by simp
  ultimately show ?thesis using assms(2) w by (subst tokens.simps) auto
qed

section \<open>The loops of the split\<close>

text \<open>\<open>X\<close> is what lies before the rest of the line, and the zero byte follows it.\<close>

lemma rd_mid: "i = length X \<Longrightarrow> rd (X @ y # Z) i = Inr y"
  by simp

lemma rd_mid2: "i = Suc (length X) \<Longrightarrow> rd (X @ x # y # Z) i = Inr y"
  by (simp add: nth_append)

lemma wr_mid: "i = length X \<Longrightarrow> wr (X @ y # Z) i v = Inr (X @ v # Z)"
  by (simp add: list_update_append)

declare rd_in [simp del] wr_in [simp del]

lemma split_blanks_ok:
  assumes "list_all is_blank s" "r = [] \<or> \<not> is_blank (hd r)" "length X = c + pos" "len = pos + length (s @ r)"
  shows "split_blanks c len pos (X @ s @ r @ NUL # Z)
    = Inr (pos + length s, X @ replicate (length s) NUL @ r @ NUL # Z)"
  using assms
proof (induction s arbitrary: X pos)
  case Nil
  then show ?case by (cases r) (subst split_blanks.simps, simp add: rd_mid)+
next
  case (Cons x s)
  have "split_blanks c len pos (X @ (x # s) @ r @ NUL # Z) = split_blanks c len (pos + 1) (X @ NUL # s @ r @ NUL # Z)"
    using Cons.prems by (subst split_blanks.simps) (simp add: rd_mid wr_mid)
  also have "\<dots> = Inr (pos + 1 + length s, (X @ [NUL]) @ replicate (length s) NUL @ r @ NUL # Z)"
    using Cons.IH[of "X @ [NUL]" "pos + 1"] Cons.prems by simp
  finally show ?case by simp
qed

lemma split_word_ok:
  assumes "list_all (\<lambda>y. \<not> is_blank y) w" "r = [] \<or> is_blank (hd r)" "length X = c + pos" "len = pos + length (w @ r)"
  shows "split_word c len pos (X @ w @ r @ NUL # Z) = Inr (pos + length w)"
  using assms
proof (induction w arbitrary: X pos)
  case Nil
  then show ?case by (cases r) (subst split_word.simps, simp add: rd_mid)+
next
  case (Cons x w)
  have "split_word c len pos (X @ (x # w) @ r @ NUL # Z) = split_word c len (pos + 1) (X @ x # w @ r @ NUL # Z)"
    using Cons.prems by (subst split_word.simps) (simp add: rd_mid)
  then show ?case using Cons.IH[of "X @ [x]" "pos + 1"] Cons.prems by simp
qed

lemma split_quoted_ok:
  assumes "length X = c + pos" "len = pos + length s"
  shows "split_quoted c len pos (X @ s @ NUL # Z) = Inr (pos + length (fst (quoted s)))"
  using assms
proof (induction s arbitrary: X pos rule: quoted.induct)
  case 1
  then show ?case by (subst split_quoted.simps) (simp add: rd_mid)
next
  case (2 x cs)
  consider "x = QUOTE" | ds where "x = BACKSLASH" "cs = QUOTE # ds"
    | "x \<noteq> QUOTE" "\<not> (x = BACKSLASH \<and> cs \<noteq> [] \<and> hd cs = QUOTE)" by (cases cs) auto
  then show ?case
  proof cases
    case 1
    then show ?thesis using 2(3,4) by (subst split_quoted.simps) (simp add: rd_mid)
  next
    case (2 ds)
    have "split_quoted c len pos (X @ (x # cs) @ NUL # Z) = split_quoted c len (pos + 2) ((X @ [x, QUOTE]) @ ds @ NUL # Z)"
      using 2 \<open>length X = c + pos\<close> \<open>len = pos + length (x # cs)\<close>
      by (subst split_quoted.simps) (simp add: rd_mid rd_mid2)
    then show ?thesis using 2 "2.IH"(1)[of "X @ [x, QUOTE]" "pos + 2"] "2.prems" by (simp split: prod.splits)
  next
    case 3
    have "split_quoted c len pos (X @ (x # cs) @ NUL # Z) = split_quoted c len (pos + 1) ((X @ [x]) @ cs @ NUL # Z)"
      using 3 "2.prems" by (subst split_quoted.simps) (cases cs, auto simp: rd_mid rd_mid2)
    then show ?thesis using 3 "2.IH"(2)[of "X @ [x]" "pos + 1"] "2.prems" by (auto split: prod.splits)
  qed
qed

section \<open>The whole split\<close>

text \<open>The string at the end of \<open>X\<close> is \<open>s\<close>.\<close>

lemma string_at_mid:
  assumes "NUL \<notin> set s" "p = length X"
  shows "string_at (X @ s @ NUL # Z) p = Inr s"
proof -
  have "is_cstr (X @ s @ NUL # Z) p s" using assms by (auto simp: is_cstr_def nth_append)
  then show ?thesis using assms by (simp add: string_at_def strlen_ok)
qed

lemma strings_at_append: "strings_at b (ps @ qs) = bindE (strings_at b ps) (\<lambda>ss. bindE (strings_at b qs) (\<lambda>ts. Inr (ss @ ts)))"
  by (induction ps) (simp_all add: bindE_assoc)

lemma span_facts: "list_all P (takeWhile P r)" "dropWhile P r = [] \<or> \<not> P (hd (dropWhile P r))"
  using hd_dropWhile[of P r] by (auto simp: list_all_iff dest: set_takeWhileD)

lemma quoted_cases:
  obtains "snd (quoted s) = []" "fst (quoted s) = s" | r where "quoted s = (fst (quoted s), r)" "s = fst (quoted s) @ QUOTE # r"
proof -
  have "(snd (quoted s) = [] \<and> fst (quoted s) = s) \<or> s = fst (quoted s) @ QUOTE # snd (quoted s)"
  proof (induction s rule: quoted.induct)
    case (2 x cs)
    then show ?case by (cases cs) (auto split: prod.splits)
  qed simp
  then show ?thesis using that by force
qed

lemma split_loop_end: "len \<le> pos \<Longrightarrow> split_loop c len pos argv b = Inr (argv, b)"
  by (subst split_loop.simps) simp

text \<open>One turn of the loop: the blanks, a word, a quoted token that is closed, and one that is not.\<close>

lemma split_loop_blanks:
  assumes "list_all is_blank s" "t = [] \<or> \<not> is_blank (hd t)" "length X = c + pos" "len = pos + length (s @ t)"
  shows "split_loop c len pos argv (X @ s @ t @ NUL # Z)
    = split_loop c len (pos + length s) argv ((X @ replicate (length s) NUL) @ t @ NUL # Z)"
proof (cases "t = []")
  case True
  then show ?thesis using split_blanks_ok[OF assms(1,2,3), of len Z] assms(4)
    by (subst (1 2) split_loop.simps) (cases s, auto)
next
  case False
  have "split_blanks c len (pos + length s) ((X @ replicate (length s) NUL) @ [] @ t @ NUL # Z)
      = Inr (pos + length s, (X @ replicate (length s) NUL) @ t @ NUL # Z)"
    using split_blanks_ok[of "[]" t "X @ replicate (length s) NUL" c "pos + length s" len Z] assms by simp
  then show ?thesis using split_blanks_ok[OF assms(1,2,3), of len Z] assms(4) False
    by (subst (1 2) split_loop.simps) simp
qed

lemma split_loop_token:
  assumes "length X = c + p" "len = p + length (x # cs)" "\<not> is_blank x" "length argv < FINSH_ARG_MAX"
  shows "split_loop c len p argv (X @ x # cs @ NUL # Z) = (if x = QUOTE
      then bindE (split_quoted c len (p + 1) (X @ x # cs @ NUL # Z)) (\<lambda>q.
        if q \<ge> len then Inr (argv @ [c + (p + 1)], X @ x # cs @ NUL # Z)
        else bindE (wr (X @ x # cs @ NUL # Z) (c + q) NUL) (split_loop c len (q + 1) (argv @ [c + (p + 1)])))
      else bindE (split_word c len p (X @ x # cs @ NUL # Z)) (\<lambda>q. split_loop c len q (argv @ [c + p]) (X @ x # cs @ NUL # Z)))"
proof -
  have "split_blanks c len p (X @ x # cs @ NUL # Z) = Inr (p, X @ x # cs @ NUL # Z)"
    using split_blanks_ok[of "[]" "x # cs" X c p len Z] assms by simp
  moreover have "(if len \<le> p' then Inr (argv', b') else split_loop c len p' argv' b') = split_loop c len p' argv' b'" for p' argv' b'
    using split_loop_end by simp
  ultimately show ?thesis using assms by (subst split_loop.simps) (simp add: rd_mid Let_def cong: if_cong)
qed

lemma split_loop_word:
  assumes "length X = c + p" "len = p + length (w @ u)" "length argv < FINSH_ARG_MAX"
    "w \<noteq> []" "hd w \<noteq> QUOTE" "list_all (\<lambda>y. \<not> is_blank y) w" "u = [] \<or> is_blank (hd u)"
  shows "split_loop c len p argv (X @ w @ u @ NUL # Z) = split_loop c len (p + length w) (argv @ [c + p]) ((X @ w) @ u @ NUL # Z)"
proof -
  obtain x w' where w: "w = x # w'" using assms(4) by (cases w) auto
  have "split_word c len p (X @ x # (w' @ u) @ NUL # Z) = Inr (p + length w)"
    using split_word_ok[OF assms(6,7,1,2), of Z] w by simp
  then show ?thesis using split_loop_token[of X c p len x "w' @ u" argv Z] assms w by simp
qed

lemma split_loop_closed:
  assumes "length X = c + p" "len = p + 1 + length (q @ QUOTE # r)" "length argv < FINSH_ARG_MAX" "fst (quoted (q @ QUOTE # r)) = q"
  shows "split_loop c len p argv (X @ QUOTE # (q @ QUOTE # r) @ NUL # Z)
    = split_loop c len (p + 2 + length q) (argv @ [c + (p + 1)]) ((X @ QUOTE # q @ [NUL]) @ r @ NUL # Z)"
proof -
  have s: "split_quoted c len (p + 1) (X @ QUOTE # (q @ QUOTE # r) @ NUL # Z) = Inr (p + 1 + length q)"
    using split_quoted_ok[of "X @ [QUOTE]" c "p + 1" len "q @ QUOTE # r" Z] assms by simp
  have "wr ((X @ QUOTE # q) @ QUOTE # r @ NUL # Z) (c + (p + 1 + length q)) NUL = Inr ((X @ QUOTE # q) @ NUL # r @ NUL # Z)"
    using assms(1) by (intro wr_mid) simp
  then show ?thesis using split_loop_token[of X c p len QUOTE "q @ QUOTE # r" argv Z] s assms(1-3)
    by (simp add: is_blank_def)
qed

lemma split_loop_open:
  assumes "length X = c + p" "len = p + 1 + length q" "length argv < FINSH_ARG_MAX" "fst (quoted q) = q"
  shows "split_loop c len p argv (X @ QUOTE # q @ NUL # Z) = Inr (argv @ [c + (p + 1)], X @ QUOTE # q @ NUL # Z)"
  using split_quoted_ok[of "X @ [QUOTE]" c "p + 1" len q Z] split_loop_token[of X c p len QUOTE q argv Z] assms
  by (simp add: is_blank_def)

text \<open>What a run of the loop from \<open>pos\<close> gives: the rest \<open>r\<close> of the line becomes \<open>Y\<close>, in which the new
  pointers are at the tokens of \<open>r\<close>; a blank at the start has become a zero byte.\<close>

definition split_gives :: "nat \<Rightarrow> nat \<Rightarrow> nat list \<Rightarrow> string \<Rightarrow> string \<Rightarrow> string \<Rightarrow> string \<Rightarrow> nat list \<Rightarrow> bool" where
  "split_gives c pos argv X r Z Y ps \<longleftrightarrow>
     split_loop c (pos + length r) pos argv (X @ r @ NUL # Z) = Inr (argv @ ps, X @ Y @ NUL # Z) \<and> length Y = length r
     \<and> strings_at (X @ Y @ NUL # Z) ps = Inr (take (FINSH_ARG_MAX - length argv) (tokens r))
     \<and> (r \<noteq> [] \<longrightarrow> is_blank (hd r) \<longrightarrow> hd Y = NUL)"

lemma split_gives_blanks:
  assumes "split_gives c (pos + length s) argv (X @ replicate (length s) NUL) t Z Y ps"
    "list_all is_blank s" "t = [] \<or> \<not> is_blank (hd t)" "length X = c + pos"
  shows "split_gives c pos argv X (s @ t) Z (replicate (length s) NUL @ Y) ps"
  using assms split_loop_blanks[OF assms(2-4) refl, of argv Z] tokens_blanks[OF assms(2), of t]
  by (cases s) (auto simp: split_gives_def add.assoc)

lemma split_gives_word:
  assumes "split_gives c (p + length w) (argv @ [c + p]) (X @ w) u Z Y ps" "length X = c + p" "length argv < FINSH_ARG_MAX"
    "w \<noteq> []" "hd w \<noteq> QUOTE" "list_all (\<lambda>y. \<not> is_blank y) w" "u = [] \<or> is_blank (hd u)" "NUL \<notin> set w"
  shows "split_gives c p argv X (w @ u) Z (w @ Y) ((c + p) # ps)"
proof -
  obtain Y' where "Y @ NUL # Z = NUL # Y'"
    using assms(1,7) by (cases Y; cases u) (auto simp: split_gives_def)
  then have "string_at (X @ w @ Y @ NUL # Z) (c + p) = Inr w" using string_at_mid[OF assms(8), of "c + p" X Y'] assms(2) by simp
  moreover have "is_blank (hd (w @ u)) \<Longrightarrow> False" using assms(4,6) by (cases w) auto
  ultimately show ?thesis
    using assms(1,3) split_loop_word[OF assms(2) refl assms(3-7), of Z] tokens_word[OF assms(4-7)]
    by (auto simp: split_gives_def take_Cons' add.assoc)
qed

lemma split_gives_closed:
  assumes "split_gives c (p + 2 + length q) (argv @ [c + (p + 1)]) (X @ QUOTE # q @ [NUL]) r Z Y ps" "length X = c + p"
    "length argv < FINSH_ARG_MAX" "quoted (q @ QUOTE # r) = (q, r)" "NUL \<notin> set q"
  shows "split_gives c p argv X (QUOTE # q @ QUOTE # r) Z (QUOTE # q @ NUL # Y) ((c + (p + 1)) # ps)"
proof -
  have "string_at (X @ (QUOTE # q @ NUL # Y) @ NUL # Z) (c + (p + 1)) = Inr q"
    using string_at_mid[OF assms(5), of "c + (p + 1)" "X @ [QUOTE]" "Y @ NUL # Z"] assms(2) by simp
  then show ?thesis
    using assms(1,3,4) split_loop_closed[OF assms(2) refl assms(3), of q r Z]
    by (auto simp: split_gives_def take_Cons' tokens_quote is_blank_def add.assoc)
qed

lemma split_gives_open:
  assumes "length X = c + p" "length argv < FINSH_ARG_MAX" "quoted q = (q, [])" "NUL \<notin> set q"
  shows "split_gives c p argv X (QUOTE # q) Z (QUOTE # q) [c + (p + 1)]"
  using split_loop_open[OF assms(1) refl assms(2), of q Z] assms string_at_mid[OF assms(4), of "c + (p + 1)" "X @ [QUOTE]" Z]
  by (simp add: split_gives_def take_Cons' tokens_quote is_blank_def)

lemma split_loop_ok:
  assumes "length X = c + pos" "NUL \<notin> set r" "length argv \<le> FINSH_ARG_MAX"
  shows "\<exists>Y ps. split_gives c pos argv X r Z Y ps"
  using assms
proof (induction "FINSH_ARG_MAX - length argv" arbitrary: X pos r argv rule: less_induct)
  case less
  define s t where "s = takeWhile is_blank r" and "t = dropWhile is_blank r"
  have r: "r = s @ t" "list_all is_blank s" "t = [] \<or> \<not> is_blank (hd t)"
    unfolding s_def t_def by (rule takeWhile_dropWhile_id[symmetric], rule span_facts, rule span_facts)
  define X1 p where "X1 = X @ replicate (length s) NUL" and "p = pos + length s"
  have X1: "length X1 = c + p" using less.prems(1) by (simp add: X1_def p_def)
  have nul: "NUL \<notin> set t" using less.prems(2) r(1) by simp
  have ind: "FINSH_ARG_MAX - length (argv @ [i]) < FINSH_ARG_MAX - length argv" if "length argv < FINSH_ARG_MAX" for i :: nat
    using that by simp
  have "\<exists>Y ps. split_gives c p argv X1 t Z Y ps"
  proof (cases "t = [] \<or> length argv = FINSH_ARG_MAX")
    case True
    have "split_gives c p argv X1 t Z t []" using True r(3) X1 split_blanks_ok[of "[]" t X1 c p "p + length t" Z]
      by (auto simp: split_gives_def split_loop_end) (subst split_loop.simps, auto)
    then show ?thesis by blast
  next
    case False
    then have n: "length argv < FINSH_ARG_MAX" "t \<noteq> []" using less.prems(3) by auto
    show ?thesis
    proof (cases "hd t = QUOTE")
      case True
      then obtain cs where t: "t = QUOTE # cs" using n(2) by (cases t) auto
      show ?thesis
      proof (cases rule: quoted_cases[of cs])
        case 1
        then have "quoted cs = (cs, [])" by (metis prod.collapse)
        then show ?thesis using split_gives_open[OF X1 n(1), of cs Z] nul unfolding t by auto
      next
        case (2 rr)
        define q where "q = fst (quoted cs)"
        have cs: "cs = q @ QUOTE # rr" "quoted (q @ QUOTE # rr) = (q, rr)" using 2 by (simp_all add: q_def)
        obtain Y ps where "split_gives c (p + 2 + length q) (argv @ [c + (p + 1)]) (X1 @ QUOTE # q @ [NUL]) rr Z Y ps"
          using less.hyps[OF ind[OF n(1)], of "X1 @ QUOTE # q @ [NUL]" "p + 2 + length q" rr "c + (p + 1)"] X1 nul n(1) t cs(1) by auto
        from split_gives_closed[OF this X1 n(1) cs(2)] have "split_gives c p argv X1 (QUOTE # q @ QUOTE # rr) Z (QUOTE # q @ NUL # Y) ((c + (p + 1)) # ps)"
          using nul t cs(1) by simp
        then show ?thesis unfolding t cs(1) by blast
      qed
    next
      case F: False
      define w u where "w = takeWhile (\<lambda>y. \<not> is_blank y) t" and "u = dropWhile (\<lambda>y. \<not> is_blank y) t"
      have w: "t = w @ u" "list_all (\<lambda>y. \<not> is_blank y) w" "u = [] \<or> is_blank (hd u)"
        using span_facts[of "\<lambda>y. \<not> is_blank y" t] unfolding w_def u_def by simp_all
      have wx: "w \<noteq> []" "hd w \<noteq> QUOTE" using r(3) n(2) F by (cases t; auto simp: w_def)+
      obtain Y ps where "split_gives c (p + length w) (argv @ [c + p]) (X1 @ w) u Z Y ps"
        using less.hyps[OF ind[OF n(1)], of "X1 @ w" "p + length w" u "c + p"] X1 nul n(1) w(1) by auto
      from split_gives_word[OF this X1 n(1) wx w(2,3)] have "split_gives c p argv X1 (w @ u) Z (w @ Y) ((c + p) # ps)"
        using nul w(1) by simp
      then show ?thesis unfolding w(1) by blast
    qed
  qed
  then show ?case using split_gives_blanks[OF _ r(2,3) less.prems(1)] unfolding X1_def p_def r(1)[symmetric] by blast
qed

lemma msh_split_ok:
  assumes "length X = c" "NUL \<notin> set s"
  shows "\<exists>Y ps. msh_split c (length s) (X @ s @ NUL # Z) = Inr (ps, X @ Y @ NUL # Z) \<and> length Y = length s
    \<and> strings_at (X @ Y @ NUL # Z) ps = Inr (take FINSH_ARG_MAX (tokens s))"
  using split_loop_ok[of X c 0 s "[]" Z] assms by (auto simp: split_gives_def msh_split_def)

end
