(* ===== verification/Msh_Facts.thy ===== *)
theory Msh_Facts
  imports Tokens "HOL-Library.Sublist"
begin

text \<open>
  Running a line and completing it, on the text of the line: the command that is found, its arguments,
  the name in the message when there is none, and the completion to the longest common prefix of the
  commands that match.
\<close>

section \<open>The commands of the symbol table\<close>

text \<open>The entries with the prefix of commands, as pairs of the command's name and its function.\<close>

definition commands :: "'f finsh_syscall list \<Rightarrow> (string \<times> 'f) list" where
  "commands tab = map (\<lambda>e. (drop 6 (sc_name e), sc_func e)) (filter (\<lambda>e. prefix ''__cmd_'' (sc_name e)) tab)"

definition wf_tab :: "'f finsh_syscall list \<Rightarrow> bool" where
  "wf_tab tab \<longleftrightarrow> list_all (\<lambda>e. NUL \<notin> set (sc_name e)) tab"

lemma commands_Nil [simp]: "commands [] = []"
  by (simp add: commands_def)

lemma commands_Cons: "commands (e # tab)
    = (if prefix ''__cmd_'' (sc_name e) then [(drop 6 (sc_name e), sc_func e)] else []) @ commands tab"
  by (simp add: commands_def)

lemma wf_tab_Cons [simp]: "wf_tab (e # tab) \<longleftrightarrow> NUL \<notin> set (sc_name e) \<and> wf_tab tab"
  by (simp add: wf_tab_def)

lemma strncmp_eq_sym: "strncmp_eq n xs ys = strncmp_eq n ys xs"
proof (induction n arbitrary: xs ys)
  case (Suc n)
  then show ?case by (cases xs; cases ys) auto
qed simp

lemma strncmp_eq_prefix:
  assumes "NUL \<notin> set v" "NUL \<notin> set w"
  shows "strncmp_eq (length w) (c_str v) (w @ Y) = Inr (prefix w v)"
  using assms
proof (induction w arbitrary: v)
  case (Cons x w)
  then show ?case by (cases v) (auto simp: c_str_def)
qed simp

lemma is_command_ok: "NUL \<notin> set (sc_name e) \<Longrightarrow> is_command e = Inr (prefix ''__cmd_'' (sc_name e))"
  using strncmp_eq_prefix[of "sc_name e" "''__cmd_''" "[NUL]"] by (simp add: is_command_def c_str_def numeral_eq_Suc)

lemma command_name:
  assumes "prefix ''__cmd_'' n" "NUL \<notin> set n"
  shows "drop 6 (c_str n) = c_str (drop 6 n)" "NUL \<notin> set (drop 6 n)" "6 \<le> length n"
  using assms by (auto simp: prefix_def c_str_def)

lemma name_complete:
  assumes "prefix w (drop 6 n)" "6 \<le> length n" "NUL \<notin> set n"
  shows "\<exists>x. rd (c_str n) (6 + length w) = Inr x \<and> (x = NUL \<longleftrightarrow> drop 6 n = w)"
proof -
  obtain r where r: "drop 6 n = w @ r" using assms(1) by (auto simp: prefix_def)
  then have "n = take 6 n @ w @ r" by (metis append_take_drop_id)
  then have c: "c_str n = (take 6 n @ w) @ r @ [NUL]" by (simp add: c_str_def)
  have l: "6 + length w = length (take 6 n @ w)" using assms(2) by simp
  have "NUL \<notin> set r" using r assms(3) in_set_dropD[of NUL 6 n] by auto
  then show ?thesis unfolding c r using rd_mid[OF l] by (cases r) auto
qed

lemma msh_get_cmd_ok:
  assumes "wf_tab tab" "NUL \<notin> set v" "length X = c"
  shows "msh_get_cmd tab c (length v) (X @ v @ Y) = Inr (map_of (commands tab) v)"
  using assms(1)
proof (induction tab)
  case (Cons e tab)
  then have n: "NUL \<notin> set (sc_name e)" by simp
  show ?case
  proof (cases "prefix ''__cmd_'' (sc_name e)")
    case True
    note k = command_name[OF True n]
    have d: "drop c (X @ v @ Y) = v @ Y" using assms(3) by simp
    show ?thesis
    proof (cases "prefix v (drop 6 (sc_name e))")
      case p: True
      from name_complete[OF p k(3) n] show ?thesis
        using Cons True n k d p strncmp_eq_prefix[OF k(2) assms(2), of Y] by (auto simp: is_command_ok commands_Cons)
    next
      case False
      then have "drop 6 (sc_name e) \<noteq> v" by auto
      then show ?thesis using Cons True n k d False strncmp_eq_prefix[OF k(2) assms(2), of Y]
        by (auto simp: is_command_ok commands_Cons)
    qed
  qed (use Cons n in \<open>simp add: is_command_ok commands_Cons\<close>)
qed simp

section \<open>Running a line\<close>

definition first_word :: "string \<Rightarrow> string" where
  "first_word s = takeWhile (\<lambda>x. \<not> is_blank x) s"

text \<open>The reference: blanks at the start are skipped, the first word is looked up, and the command gets
  the first tokens of the line; otherwise the name is printed.\<close>

definition exec_line ::
  "'f finsh_syscall list \<Rightarrow> ('f \<Rightarrow> string list \<Rightarrow> 'w \<Rightarrow> (int \<times> 'w) res) \<Rightarrow> string \<Rightarrow> 'w
   \<Rightarrow> (int \<times> string option \<times> 'w) res" where
  "exec_line tab run s w =
     (let t = dropWhile is_blank s in
      if t = [] then Inr (0, None, w)
      else case map_of (commands tab) (first_word t) of
        None \<Rightarrow> Inr (-1, Some (takeWhile (\<lambda>x. x \<noteq> CHR '' '') t), w)
      | Some f \<Rightarrow> bindE (run f (take FINSH_ARG_MAX (tokens t)) w) (\<lambda>(r, w). Inr (r, None, w)))"

lemma strip_start_ok:
  assumes "list_all is_blank s" "\<not> is_blank x" "length X = c"
  shows "strip_start c len (X @ s @ x # Z) = Inr (c + length s, len - of_nat (length s))"
  using assms
proof (induction s arbitrary: X c len)
  case Nil
  then show ?case by (subst strip_start.simps) (simp add: rd_mid)
next
  case (Cons y s)
  have "strip_start c len (X @ (y # s) @ x # Z) = strip_start (c + 1) (len - 1) ((X @ [y]) @ s @ x # Z)"
    using Cons.prems by (subst strip_start.simps) (simp add: rd_mid)
  then show ?case using Cons.IH[of "X @ [y]" "c + 1" "len - 1"] Cons.prems by simp
qed

lemma name_end_ok:
  assumes "list_all (\<lambda>x. x \<noteq> CHR '' '' \<and> x \<noteq> NUL) s" "y = CHR '' '' \<or> y = NUL" "length X = c"
  shows "name_end c (X @ s @ y # Z) = Inr (c + length s)"
  using assms
proof (induction s arbitrary: X c)
  case Nil
  then show ?case by (subst name_end.simps) (auto simp: rd_mid)
next
  case (Cons x s)
  have "name_end c (X @ (x # s) @ y # Z) = name_end (c + 1) ((X @ [x]) @ s @ y # Z)"
    using Cons.prems by (subst name_end.simps) (simp add: rd_mid)
  then show ?case using Cons.IH[of "X @ [x]" "c + 1"] Cons.prems by simp
qed

lemma unat_u32: "n < 2 ^ 32 \<Longrightarrow> unat (of_nat n :: u32) = n"
  by (simp add: unat_of_nat)

lemma tokens_nonempty: "t \<noteq> [] \<Longrightarrow> \<not> is_blank (hd t) \<Longrightarrow> tokens t \<noteq> []"
  by (cases t; subst tokens.simps) auto

lemma msh_exec_cmd_ok:
  assumes "wf_tab tab" "NUL \<notin> set t" "t \<noteq> []" "\<not> is_blank (hd t)" "length X = c"
  shows "\<exists>Y. length Y = length t \<and> msh_exec_cmd tab run c (length t) (X @ t @ NUL # Z) w
    = (case map_of (commands tab) (first_word t) of
        None \<Rightarrow> Inr (-1, None, X @ t @ NUL # Z, w)
      | Some f \<Rightarrow> bindE (run f (take FINSH_ARG_MAX (tokens t)) w) (\<lambda>(r, w). Inr (0, Some r, X @ Y @ NUL # Z, w)))"
proof -
  define v u where "v = first_word t" and "u = dropWhile (\<lambda>x. \<not> is_blank x) t"
  have t: "t = v @ u" "list_all (\<lambda>x. \<not> is_blank x) v" "u = [] \<or> is_blank (hd u)"
    using span_facts[of "\<lambda>x. \<not> is_blank x" t] unfolding v_def u_def first_word_def by simp_all
  have v: "v \<noteq> []" using assms(3,4) by (cases t) (auto simp: v_def first_word_def)
  have n: "cmd0_size c (length t) (X @ t @ NUL # Z) = Inr (length v)"
    using split_word_ok[OF t(2,3), of X c 0 "length t" Z] assms(5) t(1) by (simp add: cmd0_size_def)
  have g: "msh_get_cmd tab c (length v) (X @ t @ NUL # Z) = Inr (map_of (commands tab) v)"
    using msh_get_cmd_ok[OF assms(1) _ assms(5), of v "u @ NUL # Z"] assms(2) t(1) by simp
  obtain Y ps where s: "msh_split c (length t) (X @ t @ NUL # Z) = Inr (ps, X @ Y @ NUL # Z)" "length Y = length t"
    "strings_at (X @ Y @ NUL # Z) ps = Inr (take FINSH_ARG_MAX (tokens t))"
    using msh_split_ok[OF assms(5,2)] by blast
  have "ps \<noteq> []" using s(3) tokens_nonempty[OF assms(3,4)] by (cases ps) auto
  then show ?thesis using n g s v
    by (intro exI[of _ Y]) (auto simp: msh_exec_cmd_def v_def[symmetric] split: option.splits intro: bindE_cong)
qed

lemma msh_exec_ok:
  assumes "wf_tab tab" "NUL \<notin> set s" "length s < 2 ^ 32"
  shows "\<exists>b'. length b' = length s + 1 + length Z \<and> msh_exec tab run 0 (of_nat (length s)) (s @ NUL # Z) w
    = bindE (exec_line tab run s w) (\<lambda>(r, out, w). Inr (r, out, b', w))"
proof -
  define v t where "v = takeWhile is_blank s" and "t = dropWhile is_blank s"
  have s: "s = v @ t" "list_all is_blank v" "t = [] \<or> \<not> is_blank (hd t)"
    using span_facts[of is_blank s] unfolding v_def t_def by simp_all
  have len: "(of_nat (length s) :: u32) - of_nat (length v) = of_nat (length t)" using s(1) by simp
  show ?thesis
  proof (cases "t = []")
    case True
    have "strip_start 0 (of_nat (length s)) (s @ NUL # Z) = Inr (length v, 0)"
      using strip_start_ok[OF s(2), of NUL "[]" 0 "of_nat (length s)" Z] s(1) True by (simp add: is_blank_def)
    then show ?thesis using True by (intro exI[of _ "s @ NUL # Z"]) (simp add: msh_exec_def exec_line_def t_def)
  next
    case False
    then obtain x t' where t: "t = x # t'" "\<not> is_blank x" using s(3) by (cases t) auto
    have st: "strip_start 0 (of_nat (length s)) (s @ NUL # Z) = Inr (length v, of_nat (length t))"
      using strip_start_ok[OF s(2) t(2), of "[]" 0 "of_nat (length s)" "t' @ NUL # Z"] s(1) t(1) len by simp
    have ul: "unat (of_nat (length t) :: u32) = length t" "(of_nat (length t) :: u32) \<noteq> 0"
      using unat_u32[of "length t"] assms(3) s(1) False by (auto simp: unat_eq_zero[symmetric])
    have nul: "NUL \<notin> set t" using assms(2) s(1) by simp
    define p q where "p = takeWhile (\<lambda>x. x \<noteq> CHR '' '') t" and "q = dropWhile (\<lambda>x. x \<noteq> CHR '' '') t"
    have pq: "t = p @ q" "list_all (\<lambda>x. x \<noteq> CHR '' '') p" "q = [] \<or> hd q = CHR '' ''"
      using span_facts[of "\<lambda>x. x \<noteq> CHR '' ''" t] unfolding p_def q_def by simp_all
    obtain y Z' where y: "q @ NUL # Z = y # Z'" "y = CHR '' '' \<or> y = NUL" using pq(3) by (cases q) auto
    have b: "s @ NUL # Z = v @ p @ y # Z'" using s(1) pq(1) y(1) by simp
    have ne: "name_end (length v) (s @ NUL # Z) = Inr (length v + length p)"
      unfolding b using pq nul y(2) by (intro name_end_ok) (auto simp: list_all_iff)
    have w: "wr (s @ NUL # Z) (length v + length p) NUL = Inr ((v @ p) @ NUL # Z')"
      unfolding b using wr_mid[of "length v + length p" "v @ p" y Z' NUL] by simp
    have sa: "string_at ((v @ p) @ NUL # Z') (length v) = Inr p" using string_at_mid[of p "length v" v Z'] nul pq(1) by simp
    have nb: "\<not> is_blank (hd t)" using s(3) False by simp
    obtain Y where Y: "length Y = length t" "msh_exec_cmd tab run (length v) (length t) (v @ t @ NUL # Z) w
        = (case map_of (commands tab) (first_word t) of None \<Rightarrow> Inr (-1, None, v @ t @ NUL # Z, w)
           | Some f \<Rightarrow> bindE (run f (take FINSH_ARG_MAX (tokens t)) w) (\<lambda>(r, w). Inr (0, Some r, v @ Y @ NUL # Z, w)))"
      using msh_exec_cmd_ok[OF assms(1) nul False nb, where X = v and c = "length v" and run = run and Z = Z and w = w] by auto
    have sv: "v @ t @ NUL # Z = s @ NUL # Z" using s(1) by simp
    have "length (q @ NUL # Z) = length (y # Z')" using y(1) by (rule arg_cong)
    then have lb: "length ((v @ p) @ NUL # Z') = length s + 1 + length Z" unfolding s(1) pq(1) length_append length_Cons by linarith
    have e: "msh_exec tab run 0 (of_nat (length s)) (s @ NUL # Z) w
      = bindE (msh_exec_cmd tab run (length v) (length t) (s @ NUL # Z) w) (\<lambda>(r, ret, b, w).
          if r = 0 then (case ret of None \<Rightarrow> Inl Uninit_Read | Some v \<Rightarrow> Inr (v, None, b, w))
          else bindE (name_end (length v) b) (\<lambda>t. bindE (wr b t NUL) (\<lambda>b.
            bindE (string_at b (length v)) (\<lambda>name. Inr (-1, Some name, b, w)))))"
      by (simp add: msh_exec_def st ul)
    show ?thesis
    proof (cases "map_of (commands tab) (first_word t)")
      case None
      have "exec_line tab run s w = Inr (-1, Some p, w)"
        using False None by (simp add: exec_line_def t_def[symmetric] p_def[symmetric])
      moreover have "msh_exec tab run 0 (of_nat (length s)) (s @ NUL # Z) w = Inr (-1, Some p, (v @ p) @ NUL # Z', w)"
        unfolding e using Y(2) None ne w sa unfolding sv by simp
      ultimately show ?thesis using lb by auto
    next
      case (Some f)
      have "exec_line tab run s w = bindE (run f (take FINSH_ARG_MAX (tokens t)) w) (\<lambda>(r, w). Inr (r, None, w))"
        using False Some by (simp add: exec_line_def t_def[symmetric])
      moreover have "msh_exec tab run 0 (of_nat (length s)) (s @ NUL # Z) w
          = bindE (run f (take FINSH_ARG_MAX (tokens t)) w) (\<lambda>(r, w). Inr (r, None, v @ Y @ NUL # Z, w))"
        unfolding e using Y(2) Some unfolding sv by (cases "run f (take FINSH_ARG_MAX (tokens t)) w") auto
      moreover have "length (v @ Y @ NUL # Z) = length s + 1 + length Z" using Y(1) s(1) by simp
      ultimately show ?thesis
        by (intro exI[of _ "v @ Y @ NUL # Z"]) (cases "run f (take FINSH_ARG_MAX (tokens t)) w", auto)
    qed
  qed
qed

section \<open>Completion\<close>

lemma str_common_from_ok:
  assumes "NUL \<notin> set s" "length X = i" "length Y = j"
  shows "str_common_from i (X @ c_str s) j (Y @ c_str t) = Inr (i + length (longest_common_prefix s t))"
  using assms
proof (induction s arbitrary: t X Y i j)
  case Nil
  then show ?case by (subst str_common_from.simps) (simp add: c_str_def rd_mid)
next
  case (Cons x s)
  show ?case
  proof (cases t)
    case Nil
    then show ?thesis using Cons.prems by (subst str_common_from.simps) (simp add: c_str_def rd_mid)
  next
    case t: (Cons y t')
    have "X @ c_str (x # s) = (X @ [x]) @ c_str s" "Y @ c_str (y # t') = (Y @ [y]) @ c_str t'" by (simp_all add: c_str_def)
    then show ?thesis using Cons.IH[of "X @ [x]" "i + 1" "Y @ [y]" "j + 1" t'] Cons.prems t
      by (subst str_common_from.simps) (auto simp: c_str_def rd_mid)
  qed
qed

lemma str_common_ok: "NUL \<notin> set s \<Longrightarrow> str_common (c_str s) (c_str t) = Inr (length (longest_common_prefix s t))"
  using str_common_from_ok[of s "[]" 0 "[]" 0 t] by (simp add: str_common_def)

definition matches :: "'f finsh_syscall list \<Rightarrow> string \<Rightarrow> string list" where
  "matches tab p = filter (prefix p) (map fst (commands tab))"

lemma lcp_longest: "prefix p s \<Longrightarrow> prefix p t \<Longrightarrow> length p \<le> length (longest_common_prefix s t)"
  using longest_common_prefix_max_prefix prefix_length_le by blast

text \<open>Once there is a match \<open>n0\<close>, the loop keeps it and takes the shortest of the common prefixes with it.\<close>

abbreviation shortest :: "string \<Rightarrow> string list \<Rightarrow> nat \<Rightarrow> nat" where
  "shortest n0 ns m \<equiv> fold (\<lambda>n m. min m (length (longest_common_prefix n0 n))) ns m"

lemma le_shortest: "k \<le> shortest n0 ns m \<longleftrightarrow> k \<le> m \<and> (\<forall>n \<in> set ns. k \<le> length (longest_common_prefix n0 n))"
  by (induction ns arbitrary: m) auto

lemma complete_step:
  assumes "NUL \<notin> set (sc_name e)" "p \<noteq> []" "NUL \<notin> set p"
  shows "complete_loop (e # tab) (p @ NUL # Z) np m out =
    (if prefix ''__cmd_'' (sc_name e) \<and> prefix p (drop 6 (sc_name e))
     then let cmd_name = drop 6 (sc_name e); np1 = (if m = 0 then Some cmd_name else np);
              m1 = (if m = 0 then length cmd_name else m) in
       (case np1 of None \<Rightarrow> Inl Null_Deref
        | Some name \<Rightarrow> bindE (str_common (c_str name) (c_str cmd_name)) (\<lambda>n1.
            complete_loop tab (p @ NUL # Z) np1 (if n1 < m1 then n1 else m1) (out @ [cmd_name])))
     else complete_loop tab (p @ NUL # Z) np m out)"
proof -
  have "is_cstr (p @ NUL # Z) 0 p" using assms(3) by (simp add: is_cstr_def nth_append)
  then have l: "rt_strlen 0 (p @ NUL # Z) = Inr (length p)" by (rule strlen_ok)
  have "strncmp_eq (length p) (p @ NUL # Z) (c_str (drop 6 (sc_name e))) = Inr (prefix p (drop 6 (sc_name e)))"
    using strncmp_eq_prefix[of "drop 6 (sc_name e)" p "NUL # Z"] assms(1,3) in_set_dropD[of NUL 6 "sc_name e"]
    by (auto simp: strncmp_eq_sym)
  then show ?thesis using l is_command_ok[OF assms(1)] by (simp add: Let_def)
qed

declare complete_loop.simps(2) [simp del]

lemma matches_Cons: "matches (e # tab) p = (if prefix ''__cmd_'' (sc_name e) \<and> prefix p (drop 6 (sc_name e))
    then [drop 6 (sc_name e)] else []) @ matches tab p"
  by (simp add: matches_def commands_Cons)

lemma complete_loop_some:
  assumes "wf_tab tab" "p \<noteq> []" "NUL \<notin> set p" "NUL \<notin> set n0" "prefix p n0" "0 < m"
  shows "complete_loop tab (p @ NUL # Z) (Some n0) m out = Inr (Some n0, shortest n0 (matches tab p) m, out @ matches tab p)"
  using assms(1,6)
proof (induction tab arbitrary: m out)
  case (Cons e tab)
  show ?case
  proof (cases "prefix ''__cmd_'' (sc_name e) \<and> prefix p (drop 6 (sc_name e))")
    case True
    define n where "n = drop 6 (sc_name e)"
    have "0 < length (longest_common_prefix n0 n)" using lcp_longest[OF assms(5), of n] assms(2) True by (auto simp: n_def)
    then have pos: "0 < min m (length (longest_common_prefix n0 n))" using Cons.prems(2) by simp
    have mn: "(if l < m then l else m) = min m l" for l :: nat by simp
    show ?thesis
      using Cons.IH[OF _ pos, of "out @ [n]"] Cons.prems True
      by (simp add: complete_step assms(2,3) n_def[symmetric] str_common_ok[OF assms(4)] mn matches_Cons
          del: min_def) 
  next
    case False
    have "matches (e # tab) p = matches tab p" unfolding matches_Cons if_not_P[OF False] by simp
    moreover have "complete_loop (e # tab) (p @ NUL # Z) (Some n0) m out = complete_loop tab (p @ NUL # Z) (Some n0) m out"
      using Cons.prems complete_step[of e p tab Z] assms(2,3) unfolding if_not_P[OF False] by simp
    ultimately show ?thesis using Cons by simp
  qed
qed (simp add: matches_def)

lemma complete_loop_ok:
  assumes "wf_tab tab" "p \<noteq> []" "NUL \<notin> set p"
  shows "complete_loop tab (p @ NUL # Z) None 0 [] = Inr (case matches tab p of
      [] \<Rightarrow> (None, 0, []) | n # ns \<Rightarrow> (Some n, shortest n (n # ns) (length n), n # ns))"
  using assms(1)
proof (induction tab)
  case (Cons e tab)
  show ?case
  proof (cases "prefix ''__cmd_'' (sc_name e) \<and> prefix p (drop 6 (sc_name e))")
    case True
    define n where "n = drop 6 (sc_name e)"
    have n: "NUL \<notin> set n" "prefix p n" "0 < length n"
      using Cons.prems True assms(2) in_set_dropD[of NUL 6 "sc_name e"] by (auto simp: n_def simp flip: length_greater_0_conv dest: prefix_length_le)
    have l: "longest_common_prefix n n = n" by (induction n) auto
    show ?thesis
      using complete_loop_some[OF _ assms(2,3) n, of tab Z "[n]"] Cons.prems True
      by (simp add: complete_step assms(2,3) n_def[symmetric] str_common_ok[OF n(1)] l matches_Cons)
  next
    case False
    have "matches (e # tab) p = matches tab p" unfolding matches_Cons if_not_P[OF False] by simp
    moreover have "complete_loop (e # tab) (p @ NUL # Z) None 0 [] = complete_loop tab (p @ NUL # Z) None 0 []"
      using Cons.prems complete_step[of e p tab Z] assms(2,3) unfolding if_not_P[OF False] by simp
    ultimately show ?thesis using Cons by simp
  qed
qed (simp add: matches_def)

lemma take_prefix: "prefix q n \<Longrightarrow> k \<le> length q \<Longrightarrow> take k n = take k q"
  by (auto simp: prefix_def)

lemma shortest_lcp:
  assumes "n \<in> set ns"
  shows "take (shortest n ns (length n)) n = Longest_common_prefix (set ns)"
proof -
  define k where "k = shortest n ns (length n)"
  have k: "k \<le> length n" "\<forall>x \<in> set ns. k \<le> length (longest_common_prefix n x)"
    using le_shortest[of k n ns "length n"] by (simp_all add: k_def)
  have "prefix (take k n) x" if x: "x \<in> set ns" for x
  proof -
    have "prefix (longest_common_prefix n x) n" "prefix (longest_common_prefix n x) x"
      by (rule longest_common_prefix_prefix1, rule longest_common_prefix_prefix2)
    then have "take k n = take k (longest_common_prefix n x)" using k(2) x by (intro take_prefix) auto
    then show ?thesis using \<open>prefix (longest_common_prefix n x) x\<close> take_is_prefix prefix_order.trans by metis
  qed
  moreover have "length qs \<le> length (take k n)" if q: "\<forall>x \<in> set ns. prefix qs x" for qs
  proof -
    have "prefix qs n" using q assms by blast
    then have "length qs \<le> k" unfolding k_def le_shortest using q lcp_longest prefix_length_le by blast
    then show ?thesis using k(1) by simp
  qed
  moreover have "set ns \<noteq> {}" using assms by auto
  ultimately show ?thesis unfolding k_def by (intro Longest_common_prefix_eq[symmetric]) auto
qed

lemma strncpy_ok:
  assumes "length B = d" "s + n \<le> length src" "n \<le> length b" "0 \<notin> set (take n (drop s src))"
  shows "rt_strncpy d src s n (B @ b) = Inr (B @ take n (drop s src) @ drop n b)"
  unfolding rt_strncpy_def using assms
proof (induction n arbitrary: B b s d)
  case (Suc n)
  obtain y b' where b: "b = y # b'" using Suc.prems(3) by (cases b) auto
  have d: "drop s src = src ! s # drop (Suc s) src" using Suc.prems(2) by (simp add: Cons_nth_drop_Suc)
  have "strncpy_loop src s d (Suc n) (B @ b) = strncpy_loop src (s + 1) (d + 1) n ((B @ [src ! s]) @ b')"
    using Suc.prems b d by (simp add: rd_in wr_mid)
  then show ?case using Suc.IH[of "B @ [src ! s]" "d + 1" "s + 1" b'] Suc.prems b d by simp
qed simp

lemma auto_complete_ok:
  assumes "wf_tab tab" "p \<noteq> []" "NUL \<notin> set p" "\<forall>n \<in> set (matches tab p). length n \<le> length p + 1 + length Z"
  shows "msh_auto_complete tab (p @ NUL # Z) = Inr (matches tab p,
    if matches tab p = [] then p @ NUL # Z
    else (let l = Longest_common_prefix (set (matches tab p)) in l @ drop (length l) (p @ NUL # Z)))"
proof (cases "matches tab p")
  case Nil
  then show ?thesis using complete_loop_ok[OF assms(1-3), of Z] assms(2,3)
    by (cases p) (auto simp: msh_auto_complete_def rd_in)
next
  case (Cons n ns)
  define k where "k = shortest n (n # ns) (length n)"
  have k: "k \<le> length n" using le_shortest[of k n "n # ns" "length n"] by (simp add: k_def)
  have t: "take k n = Longest_common_prefix (set (n # ns))" unfolding k_def by (rule shortest_lcp) simp
  have "n \<in> set (map fst (commands tab))" using Cons unfolding matches_def by (metis filter_eq_ConsD in_set_conv_decomp)
  then have nul: "NUL \<notin> set n" using assms(1) by (auto simp: commands_def wf_tab_def list_all_iff dest: in_set_dropD)
  have b: "k \<le> length (p @ NUL # Z)" using k assms(4) Cons by simp
  have "rt_strncpy 0 (c_str n) 0 k ([] @ (p @ NUL # Z)) = Inr ([] @ take k (drop 0 (c_str n)) @ drop k (p @ NUL # Z))"
    using k b nul by (intro strncpy_ok) (auto simp: c_str_def dest: in_set_takeD)
  moreover have "take k (c_str n) = take k n" using k by (simp add: c_str_def)
  moreover have "length (take k n) = k" using k by simp
  moreover have "rd (p @ NUL # Z) 0 = Inr (hd p)" "hd p \<noteq> NUL" using assms(2,3) by (cases p; auto simp: rd_in)+
  moreover have "complete_loop tab (p @ NUL # Z) None 0 [] = Inr (Some n, k, n # ns)"
    using complete_loop_ok[OF assms(1-3), of Z] unfolding Cons k_def by (simp only: list.case)
  ultimately show ?thesis using Cons t by (simp add: msh_auto_complete_def Let_def)
qed

end
