(* ===== verification/Editor.thy ===== *)
theory Editor
  imports Finsh Msh_Facts
begin

text \<open>
  What the shell is for its user: a line editor. The text of the line is what is before and what is after
  the cursor, the history holds the last lines, and a key is one of the operations below. The shell of
  \<open>shell.c\<close> is this editor, with the texts in zero-filled arrays and the positions as 16-bit words.
\<close>

section \<open>The editor\<close>

record editor =
  ed_stat :: input_stat
  ed_before :: string
  ed_after :: string
  ed_hist :: "string list"
  ed_pos :: nat
  ed_echo :: "1 word"
  ed_prompt :: "1 word"

definition ed_text :: "editor \<Rightarrow> string" where
  "ed_text e = ed_before e @ ed_after e"

datatype key = Key_Up | Key_Down | Key_Left | Key_Right | Key_Tab | Key_Backspace | Key_Enter | Key_Char char | Key_None

definition plain_code :: "char \<Rightarrow> key" where
  "plain_code ch =
     (if ch = NUL \<or> ch = CHR 0xFF then Key_None
      else if ch = TAB then Key_Tab
      else if ch = CHR 0x7F \<or> ch = CHR 0x08 then Key_Backspace
      else if ch = CHR 0x0D \<or> ch = CHR 0x0A then Key_Enter
      else Key_Char ch)"

text \<open>The decoder of the key sequences: the next state and the key.\<close>

fun decode_key :: "input_stat \<Rightarrow> char \<Rightarrow> input_stat \<times> key" where
  "decode_key WAIT_NORMAL ch = (if ch = CHR 0x1B then (WAIT_SPEC_KEY, Key_None) else (WAIT_NORMAL, plain_code ch))"
| "decode_key WAIT_SPEC_KEY ch =
     (if ch = CHR 0x1B then (WAIT_SPEC_KEY, Key_None)
      else if ch = CHR ''['' then (WAIT_FUNC_KEY, Key_None) else (WAIT_NORMAL, plain_code ch))"
| "decode_key WAIT_FUNC_KEY ch =
     (if ch = CHR 0x1B then (WAIT_SPEC_KEY, Key_None)
      else (WAIT_NORMAL,
        if ch = CHR ''A'' then Key_Up else if ch = CHR ''B'' then Key_Down
        else if ch = CHR ''D'' then Key_Left else if ch = CHR ''C'' then Key_Right else plain_code ch))"

text \<open>The completion of a text, and the history with one more line.\<close>

definition completed :: "'f finsh_syscall list \<Rightarrow> string \<Rightarrow> string" where
  "completed tab p = (if p = [] \<or> matches tab p = [] then p else Longest_common_prefix (set (matches tab p)))"

definition push :: "string \<Rightarrow> string list \<Rightarrow> string list" where
  "push s h = (if s = [] \<or> (h \<noteq> [] \<and> last h = s) then h
     else if length h < FINSH_HISTORY_LINES then h @ [s] else tl h @ [s])"

definition ed_recall :: "nat \<Rightarrow> editor \<Rightarrow> editor" where
  "ed_recall i e = e\<lparr>ed_before := ed_hist e ! i, ed_after := [], ed_pos := i\<rparr>"

fun ed_do ::
  "'f finsh_syscall list \<Rightarrow> ('f \<Rightarrow> string list \<Rightarrow> 'w \<Rightarrow> (int \<times> 'w) res) \<Rightarrow> key \<Rightarrow> editor \<Rightarrow> 'w \<Rightarrow> (editor \<times> 'w) res" where
  "ed_do tab run Key_None e w = Inr (e, w)"
| "ed_do tab run Key_Up e w = Inr (if ed_pos e > 0 then ed_recall (ed_pos e - 1) e else e, w)"
| "ed_do tab run Key_Down e w = Inr (
     if ed_hist e = [] then e
     else if ed_pos e + 1 < length (ed_hist e) then ed_recall (ed_pos e + 1) e
     else ed_recall (length (ed_hist e) - 1) e, w)"
| "ed_do tab run Key_Left e w = Inr (
     if ed_before e = [] then e
     else e\<lparr>ed_before := butlast (ed_before e), ed_after := last (ed_before e) # ed_after e\<rparr>, w)"
| "ed_do tab run Key_Right e w = Inr (
     case ed_after e of [] \<Rightarrow> e | x # xs \<Rightarrow> e\<lparr>ed_before := ed_before e @ [x], ed_after := xs\<rparr>, w)"
| "ed_do tab run Key_Tab e w = Inr (e\<lparr>ed_before := completed tab (ed_text e), ed_after := []\<rparr>, w)"
| "ed_do tab run Key_Backspace e w = Inr (e\<lparr>ed_before := butlast (ed_before e)\<rparr>, w)"
| "ed_do tab run (Key_Char ch) e w = Inr (e\<lparr>ed_before := ed_before e @ [ch]\<rparr>, w)"
| "ed_do tab run Key_Enter e w = bindE (exec_line tab run (ed_text e) w) (\<lambda>(_, _, w).
     let h = push (ed_text e) (ed_hist e) in
     Inr (e\<lparr>ed_before := [], ed_after := [], ed_hist := h, ed_pos := length h\<rparr>, w))"

definition ed_key ::
  "'f finsh_syscall list \<Rightarrow> ('f \<Rightarrow> string list \<Rightarrow> 'w \<Rightarrow> (int \<times> 'w) res) \<Rightarrow> char \<Rightarrow> editor \<Rightarrow> 'w \<Rightarrow> (editor \<times> 'w) res" where
  "ed_key tab run ch e w = (let (st, k) = decode_key (ed_stat e) ch in ed_do tab run k (e\<lparr>ed_stat := st\<rparr>) w)"

section \<open>The editor as a shell\<close>

definition pad :: "string \<Rightarrow> string" where
  "pad s = s @ replicate (FINSH_CMD_SIZE - length s) NUL"

definition conc :: "editor \<Rightarrow> finsh_shell" where
  "conc e =
     \<lparr>sh_stat = ed_stat e, sh_echo_mode = ed_echo e, sh_prompt_mode = ed_prompt e,
      sh_current_history = of_nat (ed_pos e), sh_history_count = of_nat (length (ed_hist e)),
      sh_cmd_history = map pad (ed_hist e) @ replicate (FINSH_HISTORY_LINES - length (ed_hist e)) empty_line,
      sh_line = pad (ed_text e), sh_line_position = of_nat (length (ed_text e)),
      sh_line_curpos = of_nat (length (ed_before e))\<rparr>"

text \<open>The lines that fit: no zero byte, and room for the one at the end.\<close>

definition fits :: "string \<Rightarrow> bool" where
  "fits s \<longleftrightarrow> length s < FINSH_CMD_SIZE \<and> NUL \<notin> set s"

definition ed_wf :: "editor \<Rightarrow> bool" where
  "ed_wf e \<longleftrightarrow> fits (ed_text e) \<and> list_all fits (ed_hist e) \<and> length (ed_hist e) \<le> FINSH_HISTORY_LINES
     \<and> ed_pos e \<le> length (ed_hist e)"

definition ed_init :: editor where
  "ed_init = \<lparr>ed_stat = WAIT_NORMAL, ed_before = [], ed_after = [], ed_hist = [], ed_pos = 0, ed_echo = 1, ed_prompt = 1\<rparr>"

lemma ed_init_simps [simp]: "ed_stat ed_init = WAIT_NORMAL" "ed_before ed_init = []" "ed_after ed_init = []"
  "ed_hist ed_init = []" "ed_pos ed_init = 0" "ed_text ed_init = []" "ed_wf ed_init"
  by (simp_all add: ed_init_def ed_text_def ed_wf_def fits_def)

lemma conc_init: "finsh_shell_init = conc ed_init"
  by (simp add: finsh_shell_init_def conc_def pad_def ed_text_def empty_line_def ed_init_def)

section \<open>Small words and padded lines\<close>

lemma small_u16 [simp]: "n \<le> 80 \<Longrightarrow> unat (of_nat n :: u16) = n"
  by (simp add: unat_of_nat)

lemma small_u16_less [simp]: "a \<le> 80 \<Longrightarrow> b \<le> 80 \<Longrightarrow> (of_nat a :: u16) < of_nat b \<longleftrightarrow> a < b"
  by (simp add: word_less_nat_alt)

lemma small_u16_zero [simp]: "n \<le> 80 \<Longrightarrow> (of_nat n :: u16) = 0 \<longleftrightarrow> n = 0"
  unfolding unat_eq_zero[symmetric] by simp

lemma small_u16_pred: "0 < n \<Longrightarrow> (of_nat n :: u16) - 1 = of_nat (n - 1)"
  by (simp add: of_nat_diff)

lemma pad_length [simp]: "length s \<le> 80 \<Longrightarrow> length (pad s) = 80"
  by (simp add: pad_def)

lemma pad_split: "length s < 80 \<Longrightarrow> pad s = s @ NUL # replicate (79 - length s) NUL"
proof -
  assume "length s < 80"
  then have "80 - length s = Suc (79 - length s)" by simp
  then show ?thesis by (simp only: pad_def replicate_Suc)
qed

lemma pad_inj: "fits s \<Longrightarrow> fits t \<Longrightarrow> pad s = pad t \<longleftrightarrow> s = t"
proof
  assume a: "fits s" "fits t" "pad s = pad t"
  have t: "takeWhile (\<lambda>x. x \<noteq> NUL) (pad u) = u" if "fits u" for u
  proof -
    have "takeWhile (\<lambda>x. x \<noteq> NUL) (u @ NUL # replicate (79 - length u) NUL) = u @ takeWhile (\<lambda>x. x \<noteq> NUL) (NUL # replicate (79 - length u) NUL)"
      using that unfolding fits_def by (intro takeWhile_append2) auto
    then show ?thesis using that unfolding fits_def by (simp add: pad_split)
  qed
  show "s = t" using t[OF a(1)] unfolding a(3) t[OF a(2)] by (rule sym)
qed simp

lemma string_at_pad: "fits (xs @ ys) \<Longrightarrow> string_at (pad (xs @ ys)) (length xs) = Inr ys"
  using string_at_mid[of ys "length xs" xs] unfolding fits_def by (subst pad_split) auto

lemma print_str_pad: "fits (xs @ ys) \<Longrightarrow> print_str (pad (xs @ ys)) (length xs) = Inr ()"
  by (simp add: print_str_def string_at_pad)

lemma print_str_start: "fits s \<Longrightarrow> print_str (pad s) 0 = Inr ()"
  using print_str_pad[of "[]" s] by simp

lemma strlen_pad: "fits s \<Longrightarrow> rt_strlen 0 (pad s) = Inr (length s)"
  by (rule strlen_ok) (auto simp: is_cstr_def fits_def pad_split nth_append)

lemma empty_line_pad: "empty_line = pad []"
  by (simp add: empty_line_def pad_def)

end
