(* ===== verification/Editor_Facts.thy ===== *)
theory Editor_Facts
  imports Editor
begin

text \<open>
  Every key of the shell is the key of the editor: one lemma per key, on the shell that stands for an
  editor, and the whole loop over a sequence of keys.
\<close>

section \<open>Moving characters in a padded line\<close>

lemma memmove_left:
  "rt_memmove (length xs) (length xs + 1) (length ys) (xs @ x # ys @ Z) = Inr (xs @ ys @ last (x # ys) # Z)"
proof -
  have "rt_memmove (length xs) (length xs + 1) (length ys) (xs @ x # ys @ Z)
      = Inr (xs @ ys @ drop (length xs + length ys) (xs @ x # ys @ Z))"
    by (subst memmove_spec) simp_all
  moreover have "drop (length ys) (x # ys @ Z) = last (x # ys) # Z"
  proof (induction ys arbitrary: x)
    case (Cons y ys)
    then show ?case by simp
  qed simp
  ultimately show ?thesis by simp
qed

lemma memmove_right:
  "rt_memmove (length xs + 1) (length xs) (length ys) (xs @ ys @ z # Z) = Inr (xs @ hd (ys @ [z]) # ys @ Z)"
proof -
  have "rt_memmove (length xs + 1) (length xs) (length ys) (xs @ ys @ z # Z)
      = Inr (take (length xs + 1) (xs @ ys @ z # Z) @ ys @ drop (length xs + 1 + length ys) (xs @ ys @ z # Z))"
    by (subst memmove_spec) simp_all
  moreover have "take (length xs + 1) (xs @ ys @ z # Z) = xs @ [hd (ys @ [z])]" by (cases ys) auto
  moreover have "drop (length xs + 1 + length ys) (xs @ ys @ z # Z) = Z" by simp
  ultimately show ?thesis by simp
qed

lemma pad_less: "length s < 79 \<Longrightarrow> pad s = s @ NUL # NUL # replicate (78 - length s) NUL"
proof -
  assume "length s < 79"
  then have "79 - length s = Suc (78 - length s)" by simp
  then show ?thesis using \<open>length s < 79\<close> by (subst pad_split) simp_all
qed

lemma pad_snoc: "length s < 80 \<Longrightarrow> pad (s @ [x]) = s @ x # replicate (79 - length s) NUL"
  by (simp add: pad_def)

section \<open>The keys\<close>

lemma conc_simps [simp]:
  "sh_stat (conc e) = ed_stat e" "sh_line (conc e) = pad (ed_text e)" "sh_line_position (conc e) = of_nat (length (ed_text e))"
  "sh_line_curpos (conc e) = of_nat (length (ed_before e))" "sh_current_history (conc e) = of_nat (ed_pos e)"
  "sh_history_count (conc e) = of_nat (length (ed_hist e))" "sh_echo_mode (conc e) = ed_echo e"
  "sh_cmd_history (conc e) = map pad (ed_hist e) @ replicate (FINSH_HISTORY_LINES - length (ed_hist e)) empty_line"
  by (simp_all add: conc_def)

lemma conc_stat: "(conc e)\<lparr>sh_stat := st\<rparr> = conc (e\<lparr>ed_stat := st\<rparr>)"
  by (simp add: conc_def ed_text_def)

lemma wf_bounds:
  assumes "ed_wf e"
  shows "length (ed_text e) \<le> 79" "length (ed_before e) \<le> 79" "length (ed_after e) \<le> 79" "length (ed_hist e) \<le> 5"
    "ed_pos e \<le> length (ed_hist e)" "fits (ed_text e)" "NUL \<notin> set (ed_before e)" "NUL \<notin> set (ed_after e)"
  using assms by (auto simp: ed_wf_def fits_def ed_text_def)

lemma recall_ok:
  assumes "ed_wf e" "i < length (ed_hist e)" "sh = (conc e)\<lparr>sh_current_history := of_nat i\<rparr>"
  shows "recall sh = Inr (conc (ed_recall i e))" "ed_wf (ed_recall i e)"
proof -
  have f: "fits (ed_hist e ! i)" using assms(1,2) by (auto simp: ed_wf_def list_all_length)
  then have l: "length (ed_hist e ! i) < 80" by (simp add: fits_def)
  have i: "i \<le> 80" using assms(2) wf_bounds(4)[OF assms(1)] by simp
  have c: "copy_array FINSH_CMD_SIZE (pad (ed_hist e ! i)) (pad (ed_text e)) = Inr (pad (ed_hist e ! i))"
    using l wf_bounds(1)[OF assms(1)] by (simp add: copy_array_def)
  show "recall sh = Inr (conc (ed_recall i e))"
    using assms(2) i c f l strlen_pad[OF f] print_str_start[OF f]
    by (simp add: assms(3) recall_def nth_append set_positions_def shell_handle_history_def)
      (simp add: conc_def ed_recall_def ed_text_def)
  show "ed_wf (ed_recall i e)" using assms(1,2) f by (simp add: ed_wf_def ed_recall_def ed_text_def)
qed

lemma key_up_ok:
  assumes "ed_wf e"
  shows "key_up (conc e) = Inr (conc (if ed_pos e > 0 then ed_recall (ed_pos e - 1) e else e))"
proof (cases "ed_pos e")
  case 0
  then show ?thesis by (simp add: key_up_def conc_def)
next
  case (Suc n)
  then have n: "n < length (ed_hist e)" "Suc n \<le> 80" using wf_bounds(4,5)[OF assms] by simp_all
  have "(of_nat (Suc n) :: u16) > 0" using small_u16_less[of 0 "Suc n"] n(2) by simp
  then show ?thesis using recall_ok(1)[OF assms n(1) refl] Suc by (simp add: key_up_def)
qed

lemma key_down_ok:
  assumes "ed_wf e"
  shows "key_down (conc e) = Inr (conc (if ed_hist e = [] then e
     else if ed_pos e + 1 < length (ed_hist e) then ed_recall (ed_pos e + 1) e else ed_recall (length (ed_hist e) - 1) e))"
proof -
  have b: "length (ed_hist e) \<le> 80" "ed_pos e \<le> 80" using wf_bounds(4,5)[OF assms] by simp_all
  have u: "uint (of_nat (ed_pos e) :: u16) = int (ed_pos e)" "uint (of_nat (length (ed_hist e)) :: u16) = int (length (ed_hist e))"
    using small_u16[OF b(1)] small_u16[OF b(2)] by (simp_all add: uint_nat)
  consider "ed_hist e = []" | "ed_hist e \<noteq> []" "ed_pos e + 1 < length (ed_hist e)" | "ed_hist e \<noteq> []" "\<not> ed_pos e + 1 < length (ed_hist e)"
    by blast
  then show ?thesis
  proof cases
    case 1
    then show ?thesis using u by (simp add: key_down_def)
  next
    case 2
    then have "int (ed_pos e) < int (length (ed_hist e)) - 1" by simp
    then show ?thesis using 2 recall_ok(1)[OF assms 2(2) refl] u by (simp add: key_down_def add.commute)
  next
    case 3
    then have "\<not> int (ed_pos e) < int (length (ed_hist e)) - 1" "length (ed_hist e) - 1 < length (ed_hist e)"
      "(of_nat (length (ed_hist e)) :: u16) \<noteq> 0" using b by simp_all
    then show ?thesis using 3 recall_ok(1)[OF assms _ refl, of "length (ed_hist e) - 1"] u
      by (simp add: key_down_def small_u16_pred)
  qed
qed

lemma key_left_ok:
  assumes "ed_wf e"
  shows "key_left (conc e) = conc (if ed_before e = [] then e
     else e\<lparr>ed_before := butlast (ed_before e), ed_after := last (ed_before e) # ed_after e\<rparr>)"
proof (cases "ed_before e" rule: rev_cases)
  case (snoc xs x)
  have "(of_nat (length (xs @ [x])) :: u16) \<noteq> 0" using small_u16_zero[of "length (xs @ [x])"] wf_bounds(2)[OF assms] snoc by simp
  then show ?thesis using snoc by (simp add: key_left_def) (simp add: conc_def ed_text_def)
qed (simp add: key_left_def)

lemma key_right_ok:
  assumes "ed_wf e"
  shows "key_right (conc e) = Inr (conc (case ed_after e of [] \<Rightarrow> e
     | x # xs \<Rightarrow> e\<lparr>ed_before := ed_before e @ [x], ed_after := xs\<rparr>))"
proof (cases "ed_after e")
  case Nil
  then show ?thesis by (simp add: key_right_def ed_text_def)
next
  case (Cons x xs)
  have l: "(of_nat (length (ed_before e)) :: u16) < of_nat (length (ed_text e))"
    using wf_bounds(1,2)[OF assms] Cons by (subst small_u16_less) (simp_all add: ed_text_def)
  have "length (ed_before e) < length (pad (ed_text e))" using wf_bounds(1,2)[OF assms] by simp
  then show ?thesis using Cons l wf_bounds(2)[OF assms] by (simp add: key_right_def rd_in) (simp add: conc_def ed_text_def add.commute)
qed

lemma completed_fits:
  assumes "fits p" "\<forall>n \<in> set (map fst (commands tab)). fits n"
  shows "fits (completed tab p)"
proof (cases "p = [] \<or> matches tab p = []")
  case False
  then obtain n where n: "n \<in> set (matches tab p)" by (cases "matches tab p") auto
  then have "fits n" using assms(2) by (auto simp: matches_def)
  moreover have "prefix (Longest_common_prefix (set (matches tab p))) n" using n by (rule Longest_common_prefix_prefix)
  ultimately have "fits (Longest_common_prefix (set (matches tab p)))" by (auto simp: fits_def prefix_def)
  then show ?thesis using False by (simp add: completed_def)
qed (use assms(1) in \<open>simp add: completed_def\<close>)

lemma completed_extends:
  assumes "p \<noteq> []" "matches tab p \<noteq> []"
  shows "prefix p (completed tab p)"
proof -
  have "\<forall>x \<in> set (matches tab p). prefix p x" by (auto simp: matches_def)
  moreover have "set (matches tab p) \<noteq> {}" using assms(2) by simp
  ultimately show ?thesis using assms by (auto simp: completed_def intro: Longest_common_prefix_max_prefix)
qed

lemma msh_help_ok: "wf_tab tab \<Longrightarrow> msh_help tab = Inr (map fst (commands tab))"
  by (induction tab) (auto simp: is_command_ok commands_Cons)

lemma auto_complete_pad:
  assumes "wf_tab tab" "fits p" "\<forall>n \<in> set (map fst (commands tab)). fits n"
  shows "\<exists>out. msh_auto_complete tab (pad p) = Inr (out, pad (completed tab p))"
proof (cases "p = []")
  case True
  then show ?thesis using msh_help_ok[OF assms(1)] by (simp add: msh_auto_complete_def pad_def completed_def rd_in)
next
  case False
  have p: "pad p = p @ NUL # replicate (79 - length p) NUL" using assms(2) by (simp add: pad_split fits_def)
  have "\<forall>n \<in> set (matches tab p). length n \<le> length p + 1 + length (replicate (79 - length p) NUL)"
    using assms(2,3) by (auto simp: matches_def fits_def)
  note a = auto_complete_ok[OF assms(1) False _ this]
  define l where "l = Longest_common_prefix (set (matches tab p))"
  have "l @ drop (length l) (pad p) = pad l" if "matches tab p \<noteq> []"
  proof -
    have "completed tab p = l" using that False by (simp add: completed_def l_def)
    then have "prefix p l" "length l < 80" using completed_extends[OF False that] completed_fits[OF assms(2,3)] by (simp_all add: fits_def)
    then have "length p \<le> length l" by (simp add: prefix_length_le)
    then show ?thesis using \<open>length l < 80\<close> by (simp add: pad_def)
  qed
  then show ?thesis using a assms(2) False unfolding p[symmetric] by (auto simp: completed_def l_def fits_def Let_def)
qed

lemma key_tab_ok:
  assumes "wf_tab tab" "ed_wf e" "\<forall>n \<in> set (map fst (commands tab)). fits n"
  shows "key_tab tab (conc e) = Inr (conc (e\<lparr>ed_before := completed tab (ed_text e), ed_after := []\<rparr>))"
proof -
  note f = completed_fits[OF wf_bounds(6)[OF assms(2)] assms(3)]
  from auto_complete_pad[OF assms(1) wf_bounds(6)[OF assms(2)] assms(3)] show ?thesis
    using print_str_start[OF f] strlen_pad[OF f]
    by (auto simp: key_tab_def shell_auto_complete_def set_positions_def conc_def ed_text_def)
qed

lemma key_backspace_ok:
  assumes "ed_wf e"
  shows "key_backspace (conc e) = Inr (conc (e\<lparr>ed_before := butlast (ed_before e)\<rparr>))"
proof (cases "ed_before e" rule: rev_cases)
  case Nil
  then show ?thesis by (simp add: key_backspace_def) (simp add: conc_def ed_text_def)
next
  case (snoc xs x)
  define ys where "ys = ed_after e"
  have t: "ed_text e = xs @ x # ys" using snoc by (simp add: ed_text_def ys_def)
  have l: "length xs + length ys \<le> 78" using wf_bounds(1)[OF assms] t by simp
  have f: "fits (xs @ ys)" using wf_bounds(6)[OF assms] t by (simp add: fits_def)
  have "length (xs @ x # ys) < 80" using l by simp
  then have p: "pad (xs @ x # ys) = xs @ x # ys @ NUL # replicate (79 - length (xs @ x # ys)) NUL" using pad_split by force
  have q: "pad (xs @ ys) = xs @ ys @ NUL # NUL # replicate (79 - length (xs @ x # ys)) NUL" using pad_less[of "xs @ ys"] l by simp
  have w: "(of_nat (length (xs @ [x])) :: u16) - 1 = of_nat (length xs)" "(of_nat (length (xs @ x # ys)) :: u16) - 1 = of_nat (length xs + length ys)"
    using small_u16_pred[of "length (xs @ [x])"] small_u16_pred[of "length (xs @ x # ys)"] by simp_all
  have nz: "(of_nat (length (xs @ [x])) :: u16) \<noteq> 0" using small_u16_zero[of "length (xs @ [x])"] l by simp
  have c: "(conc e)\<lparr>sh_line_position := of_nat (length xs + length ys), sh_line_curpos := of_nat (length xs), sh_line := pad (xs @ ys)\<rparr>
      = conc (e\<lparr>ed_before := butlast (ed_before e)\<rparr>)"
    using snoc by (simp add: conc_def ed_text_def ys_def)
  show ?thesis
  proof (cases "ys = []")
    case True
    have "wr (pad (ed_text e)) (length xs) NUL = Inr (pad (xs @ ys))"
      using True q unfolding t p by (simp add: wr_mid)
    then show ?thesis using True w nz c l snoc t by (simp add: key_backspace_def Let_def)
  next
    case False
    have m: "rt_memmove (length xs) (length xs + 1) (length ys) (pad (ed_text e))
        = Inr ((xs @ ys) @ last (x # ys) # NUL # replicate (79 - length (xs @ x # ys)) NUL)"
      unfolding t p using memmove_left[of xs ys x] by simp
    have wr: "wr ((xs @ ys) @ last (x # ys) # NUL # replicate (79 - length (xs @ x # ys)) NUL) (length xs + length ys) NUL = Inr (pad (xs @ ys))"
      unfolding q by (subst wr_mid) simp_all
    have lt: "(of_nat (length xs) :: u16) < of_nat (length xs + length ys)" using False l by (subst small_u16_less) simp_all
    have e: "sh_line_position (conc e) = of_nat (length (xs @ x # ys))" "sh_line_curpos (conc e) = of_nat (length (xs @ [x]))"
      using snoc t by simp_all
    have u: "unat (of_nat (length xs) :: u16) = length xs" "unat (of_nat (length xs + length ys) :: u16) = length xs + length ys"
      using l by (intro small_u16; simp)+
    show ?thesis
      unfolding key_backspace_def e Let_def w if_not_P[OF nz] if_P[OF lt] u using m wr print_str_pad[OF f] c by (simp del: append_assoc)
  qed
qed

text \<open>Insertion: there must be room for the character and for the zero behind it.\<close>

lemma key_char_ok:
  assumes "ed_wf e" "length (ed_text e) < 79" "ch \<noteq> NUL"
  shows "key_char ch (conc e) = Inr (conc (e\<lparr>ed_before := ed_before e @ [ch]\<rparr>))"
proof -
  define xs ys where "xs = ed_before e" and "ys = ed_after e"
  have t: "ed_text e = xs @ ys" by (simp add: ed_text_def xs_def ys_def)
  have l: "length xs + length ys < 79" using assms(2) t by simp
  have f: "fits (xs @ ch # ys)" using wf_bounds(6)[OF assms(1)] t l assms(3) by (simp add: fits_def)
  have p: "pad (xs @ ys) = xs @ ys @ NUL # NUL # replicate (78 - length (xs @ ys)) NUL" using pad_less[of "xs @ ys"] l by simp
  have q: "pad (xs @ ch # ys) = xs @ ch # ys @ NUL # replicate (78 - length (xs @ ys)) NUL"
    using pad_split[of "xs @ ch # ys"] l by simp
  have w: "(of_nat (length xs) :: u16) + 1 = of_nat (length xs + 1)" "(of_nat (length (xs @ ys)) :: u16) + 1 = of_nat (length xs + length ys + 1)"
    by simp_all
  have c: "(conc e)\<lparr>sh_line := pad (xs @ ch # ys), sh_line_position := of_nat (length xs + length ys + 1), sh_line_curpos := of_nat (length xs + 1)\<rparr>
      = conc (e\<lparr>ed_before := ed_before e @ [ch]\<rparr>)"
    by (simp add: conc_def ed_text_def xs_def ys_def)
  have e: "sh_line_position (conc e) = of_nat (length (xs @ ys))" "sh_line_curpos (conc e) = of_nat (length xs)" "sh_line (conc e) = pad (xs @ ys)"
    using t by (simp_all add: xs_def)
  have u: "unat (of_nat (length xs) :: u16) = length xs" "unat (of_nat (length (xs @ ys)) :: u16) = length (xs @ ys)"
    "unat (of_nat (length xs + length ys + 1) :: u16) = length xs + length ys + 1"
    using l by (intro small_u16; simp)+
  have pos: "\<not> FINSH_CMD_SIZE \<le> length (xs @ ys)" "\<not> FINSH_CMD_SIZE \<le> length xs + length ys + 1" using l by simp_all
  have line: "(if (of_nat (length xs) :: u16) < of_nat (length (xs @ ys))
        then bindE (rt_memmove (length xs + 1) (length xs) (length (xs @ ys) - length xs) (pad (xs @ ys))) (\<lambda>b.
             bindE (wr b (length xs) ch) (\<lambda>b.
             if sh_echo_mode (conc e) \<noteq> 0 then bindE (print_str b (length xs)) (\<lambda>_. Inr b) else Inr b))
        else wr (pad (xs @ ys)) (length (xs @ ys)) ch) = Inr (pad (xs @ ch # ys))"
  proof (cases "ys = []")
    case True
    have "wr (pad (xs @ ys)) (length (xs @ ys)) ch = Inr (pad (xs @ ch # ys))" unfolding p q using True by (simp add: wr_mid)
    then show ?thesis using True by simp
  next
    case False
    have lt: "(of_nat (length xs) :: u16) < of_nat (length (xs @ ys))" using False l by (subst small_u16_less) simp_all
    have "rt_memmove (length xs + 1) (length xs) (length ys) (pad (xs @ ys))
        = Inr (xs @ hd (ys @ [NUL]) # ys @ NUL # replicate (78 - length (xs @ ys)) NUL)"
      unfolding p using memmove_right[of xs ys NUL] by simp
    moreover have "wr (xs @ hd (ys @ [NUL]) # ys @ NUL # replicate (78 - length (xs @ ys)) NUL) (length xs) ch = Inr (pad (xs @ ch # ys))"
      unfolding q by (simp add: wr_mid)
    ultimately show ?thesis unfolding if_P[OF lt] using print_str_pad[OF f] by simp
  qed
  show ?thesis
    unfolding key_char_def e u if_not_P[OF pos(1)] Let_def line bindE.simps w u if_not_P[OF pos(2)] c ..
qed

section \<open>The history\<close>

lemma move_history_ok: "move_history i n (xs @ h # hs @ ys) = xs @ hs @ (if n = 0 then h else last (h # hs)) # ys"
  if "length xs = i" "length hs = n" for xs hs ys
  using that
proof (induction n arbitrary: i xs h hs)
  case (Suc n)
  then obtain g gs where hs: "hs = g # gs" by (cases hs) auto
  have "move_history i (Suc n) (xs @ h # hs @ ys) = move_history (i + 1) n ((xs @ [g]) @ g # gs @ ys)"
    using Suc.prems hs by (simp add: nth_append list_update_append)
  then show ?case using Suc.IH[of "xs @ [g]" "i + 1" gs g] Suc.prems hs by (cases gs) auto
qed simp

lemma push_wf:
  assumes "fits s" "list_all fits h" "length h \<le> FINSH_HISTORY_LINES"
  shows "list_all fits (push s h) \<and> length (push s h) \<le> FINSH_HISTORY_LINES"
  using assms by (cases h) (auto simp: push_def)

lemma store_line_ok:
  assumes "ed_wf e" "i < length hist"
  shows "store_line i (conc e) hist = Inr (hist[i := pad (ed_text e)])"
proof -
  have "length (ed_text e) < 80" using wf_bounds(1)[OF assms(1)] by simp
  then have "copy_array (length (ed_text e)) (pad (ed_text e)) empty_line = Inr (pad (ed_text e))"
    by (simp add: copy_array_def pad_def empty_line_def)
  then show ?thesis using assms(2) wf_bounds(1)[OF assms(1)] by (simp add: store_line_def)
qed

lemma shell_push_history_ok:
  assumes "ed_wf e"
  shows "shell_push_history (conc e) = Inr (conc (e\<lparr>ed_hist := push (ed_text e) (ed_hist e),
    ed_pos := length (push (ed_text e) (ed_hist e))\<rparr>))"
proof -
  define s h where "s = ed_text e" and "h = ed_hist e"
  have hl: "length h \<le> 5" "unat (of_nat (length h) :: u16) = length h" using wf_bounds(4)[OF assms] by (simp_all add: h_def)
  have hf: "fits s" "list_all fits h" using assms by (simp_all add: ed_wf_def s_def h_def)
  have s0: "(of_nat (length s) :: u16) = 0 \<longleftrightarrow> s = []" using wf_bounds(1)[OF assms] by (simp add: s_def)
  have same: "pad (last h) = pad s \<longleftrightarrow> last h = s" if "h \<noteq> []"
    using that hf last_in_set[OF that] by (intro pad_inj) (auto simp: list_all_iff)
  have h0: "(of_nat (length h) :: u16) = 0 \<longleftrightarrow> h = []" using hl(1) by simp
  have e: "sh_line_position (conc e) = of_nat (length s)" "sh_history_count (conc e) = of_nat (length h)" "sh_line (conc e) = pad s"
    "sh_cmd_history (conc e) = map pad h @ replicate (5 - length h) empty_line"
    by (simp_all add: s_def h_def)
  have new: "(conc e)\<lparr>sh_cmd_history := map pad h' @ replicate (5 - length h') empty_line, sh_history_count := of_nat (length h'),
      sh_current_history := of_nat (length h')\<rparr> = conc (e\<lparr>ed_hist := h', ed_pos := length h'\<rparr>)" for h'
    by (simp add: conc_def ed_text_def)
  have old: "(conc e)\<lparr>sh_current_history := of_nat (length h)\<rparr> = conc (e\<lparr>ed_hist := h, ed_pos := length h\<rparr>)"
    by (simp add: conc_def ed_text_def h_def)
  have last: "(map pad h @ replicate (5 - length h) empty_line) ! (length h - 1) = pad (last h)" if "h \<noteq> []"
    using that by (simp add: nth_append last_conv_nth)
  have "shell_push_history (conc e) = Inr (conc (e\<lparr>ed_hist := push s h, ed_pos := length (push s h)\<rparr>))"
  proof (cases "s = [] \<or> (h \<noteq> [] \<and> last h = s)")
    case True
    then have p: "push s h = h" by (simp add: push_def)
    have "shell_push_history (conc e) = Inr ((conc e)\<lparr>sh_current_history := of_nat (length h)\<rparr>)"
    proof (cases "s = []")
      case True
      then have c: "\<not> (of_nat (length s) :: u16) \<noteq> 0" by simp
      show ?thesis unfolding shell_push_history_def e if_not_P[OF c] bindE.simps ..
    next
      case False
      then have s1: "(of_nat (length s) :: u16) \<noteq> 0" and h1: "h \<noteq> []" "pad (last h) = pad s" using s0 True by auto
      show ?thesis
      proof (cases "length h = 5")
        case True
        have c: "FINSH_HISTORY_LINES \<le> unat (of_nat (length h) :: u16)" unfolding hl(2) using True by simp
        have d: "\<not> (map pad h @ replicate (5 - length h) empty_line) ! (FINSH_HISTORY_LINES - 1) \<noteq> pad s"
          using last h1 True by simp
        show ?thesis unfolding shell_push_history_def e if_P[OF s1] if_P[OF c] if_not_P[OF d] bindE.simps ..
      next
        case False
        have c: "\<not> FINSH_HISTORY_LINES \<le> unat (of_nat (length h) :: u16)" unfolding hl(2) using False hl(1) by simp
        have d: "\<not> ((of_nat (length h) :: u16) = 0 \<or> (map pad h @ replicate (5 - length h) empty_line) ! (unat (of_nat (length h) :: u16) - 1) \<noteq> pad s)"
          unfolding hl(2) h0 using last h1 by auto
        show ?thesis unfolding shell_push_history_def e if_P[OF s1] if_not_P[OF c] if_not_P[OF d] bindE.simps ..
      qed
    qed
    then show ?thesis unfolding old p .
  next
    case F: False
    then have s1: "(of_nat (length s) :: u16) \<noteq> 0" and ne: "h \<noteq> [] \<Longrightarrow> pad (last h) \<noteq> pad s" using s0 same by auto
    show ?thesis
    proof (cases "length h = 5")
      case True
      then obtain a hs where h: "h = a # hs" "length hs = 4" by (cases h) auto
      have c: "FINSH_HISTORY_LINES \<le> unat (of_nat (length h) :: u16)" unfolding hl(2) using True by simp
      have d: "(map pad h @ replicate (5 - length h) empty_line) ! (FINSH_HISTORY_LINES - 1) \<noteq> pad s"
        using last ne True h(1) by simp
      have "move_history 0 4 (map pad h) = map pad hs @ [last (pad a # map pad hs)]"
        using move_history_ok[of "[]" 0 "map pad hs" 4 "pad a" "[]"] h by simp
      then have m: "store_line (FINSH_HISTORY_LINES - 1) (conc e) (move_history 0 (FINSH_HISTORY_LINES - 1)
          (map pad h @ replicate (5 - length h) empty_line)) = Inr (map pad (hs @ [s]) @ replicate (5 - length (hs @ [s])) empty_line)"
        using store_line_ok[OF assms, of 4 "map pad hs @ [last (pad a # map pad hs)]"] h True by (simp add: list_update_append s_def)
      have p: "push s h = hs @ [s]" "length (hs @ [s]) = FINSH_HISTORY_LINES" using F True h by (auto simp: push_def)
      show ?thesis unfolding shell_push_history_def e if_P[OF s1] if_P[OF c] if_P[OF d] m bindE.simps p(1) using new[of "hs @ [s]"] p(2) by simp
    next
      case False
      have c: "\<not> FINSH_HISTORY_LINES \<le> unat (of_nat (length h) :: u16)" unfolding hl(2) using False hl(1) by simp
      have d: "(of_nat (length h) :: u16) = 0 \<or> (map pad h @ replicate (5 - length h) empty_line) ! (unat (of_nat (length h) :: u16) - 1) \<noteq> pad s"
        unfolding hl(2) h0 using last ne by auto
      have r: "replicate (5 - length h) empty_line = empty_line # replicate (4 - length h) empty_line" using False hl(1)
        by (simp flip: replicate_Suc add: Suc_diff_le)
      have m: "store_line (unat (of_nat (length h) :: u16)) (conc e) (map pad h @ replicate (5 - length h) empty_line)
          = Inr (map pad (h @ [s]) @ replicate (5 - length (h @ [s])) empty_line)"
        unfolding hl(2) using store_line_ok[OF assms, of "length h" "map pad h @ replicate (5 - length h) empty_line"] r False
        by (simp add: list_update_append s_def)
      have p: "push s h = h @ [s]" using F False hl(1) by (auto simp: push_def)
      show ?thesis unfolding shell_push_history_def e if_P[OF s1] if_not_P[OF c] if_P[OF d] m bindE.simps p new[symmetric]
        by (simp add: add.commute)
    qed
  qed
  then show ?thesis by (simp add: s_def h_def)
qed

section \<open>Every key\<close>

lemma key_enter_ok:
  assumes "wf_tab tab" "ed_wf e"
  shows "key_enter tab run (conc e) w = bindE (ed_do tab run Key_Enter e w) (\<lambda>(e', w'). Inr (conc e', w'))"
proof -
  define s h where "s = ed_text e" and "h = push (ed_text e) (ed_hist e)"
  define e1 where "e1 = e\<lparr>ed_hist := h, ed_pos := length h\<rparr>"
  have h: "push s (ed_hist e) = h" by (simp add: s_def h_def)
  have s: "length s < 80" "NUL \<notin> set s" using wf_bounds(6)[OF assms(2)] by (simp_all add: s_def fits_def)
  have l: "ucast (of_nat (length s) :: u16) = (of_nat (length s) :: u32)"
    using small_u16[of "length s"] s(1) by (simp add: unsigned_of_nat take_bit_nat_eq_self)
  obtain b' where b': "length b' = length s + 1 + length (replicate (79 - length s) NUL)"
    "msh_exec tab run 0 (of_nat (length s)) (pad s) w = bindE (exec_line tab run s w) (\<lambda>(r, out, w). Inr (r, out, b', w))"
    using msh_exec_ok[OF assms(1) s(2), of "replicate (79 - length s) NUL" run w] s(1) by (auto simp: pad_split)
  have b: "length b' = 80" using b'(1) s(1) by simp
  have p: "shell_push_history (conc e) = Inr (conc e1)" using shell_push_history_ok[OF assms(2)] by (simp add: e1_def h_def)
  have e1: "sh_line (conc e1) = pad s" "sh_line_position (conc e1) = of_nat (length s)"
    by (simp_all add: e1_def s_def ed_text_def)
  have c: "(conc e1)\<lparr>sh_line := replicate 80 NUL, sh_line_position := 0, sh_line_curpos := 0\<rparr>
      = conc (e\<lparr>ed_before := [], ed_after := [], ed_hist := h, ed_pos := length h\<rparr>)"
    by (simp add: e1_def conc_def ed_text_def pad_def)
  show ?thesis
    unfolding key_enter_def p bindE.simps e1 l b'(2) msh_is_used_def ed_do.simps s_def[symmetric] h_def[symmetric] Let_def
    by (cases "exec_line tab run s w") (auto simp: b c h)
qed

definition has_room :: "char \<Rightarrow> editor \<Rightarrow> bool" where
  "has_room ch e \<longleftrightarrow> (case snd (decode_key (ed_stat e) ch) of Key_Char _ \<Rightarrow> length (ed_text e) < 79 | _ \<Rightarrow> True)"

text \<open>A command table whose names fit a line.\<close>

definition tab_fits :: "'f finsh_syscall list \<Rightarrow> bool" where
  "tab_fits tab \<longleftrightarrow> wf_tab tab \<and> list_all (\<lambda>e. length (sc_name e) < FINSH_CMD_SIZE) tab"

lemma tab_fits_names: "tab_fits tab \<Longrightarrow> wf_tab tab \<and> (\<forall>n \<in> set (map fst (commands tab)). fits n)"
  by (auto simp: tab_fits_def wf_tab_def commands_def fits_def list_all_iff dest: in_set_dropD)

lemma plain_key_ok:
  assumes "tab_fits tab" "ed_wf e" "case plain_code ch of Key_Char _ \<Rightarrow> length (ed_text e) < 79 | _ \<Rightarrow> True"
  shows "plain_key tab run ch (conc e) w = bindE (ed_do tab run (plain_code ch) e w) (\<lambda>(e', w'). Inr (conc e', w'))"
proof -
  note t = tab_fits_names[OF assms(1), THEN conjunct1] tab_fits_names[OF assms(1), THEN conjunct2]
  consider "ch = NUL \<or> ch = CHR 0xFF" | "ch = TAB" | "ch = CHR 0x7F \<or> ch = CHR 0x08" | "ch = CHR 0x0D \<or> ch = CHR 0x0A"
    | "ch \<noteq> NUL" "ch \<noteq> CHR 0xFF" "ch \<noteq> TAB" "ch \<noteq> CHR 0x7F" "ch \<noteq> CHR 0x08" "ch \<noteq> CHR 0x0D" "ch \<noteq> CHR 0x0A" by blast
  then show ?thesis
  proof cases
    case 1
    then show ?thesis by (auto simp: plain_key_def plain_code_def)
  next
    case 2
    then show ?thesis using key_tab_ok[OF t(1) assms(2) t(2)] by (simp add: plain_key_def plain_code_def)
  next
    case 3
    then show ?thesis using key_backspace_ok[OF assms(2)] by (auto simp: plain_key_def plain_code_def)
  next
    case 4
    then show ?thesis using key_enter_ok[OF t(1) assms(2), of run w] by (elim disjE) (simp_all add: plain_key_def plain_code_def)
  next
    case 5
    then have "length (ed_text e) < 79" using assms(3) by (simp add: plain_code_def)
    then show ?thesis using 5 key_char_ok[OF assms(2), of ch] by (simp add: plain_key_def plain_code_def)
  qed
qed

lemma ed_wf_stat: "ed_wf (e\<lparr>ed_stat := st\<rparr>) \<longleftrightarrow> ed_wf e"
  by (simp add: ed_wf_def ed_text_def)

lemma finsh_key_ok:
  assumes "tab_fits tab" "ed_wf e" "has_room ch e"
  shows "finsh_key tab run ch (conc e) w = bindE (ed_key tab run ch e w) (\<lambda>(e', w'). Inr (conc e', w'))"
proof (cases "ch = CHR 0x1B")
  case True
  then show ?thesis by (cases "ed_stat e") (simp_all add: finsh_key_def ed_key_def conc_stat)
next
  case False
  define e1 where "e1 = e\<lparr>ed_stat := WAIT_NORMAL\<rparr>"
  have e1: "ed_wf e1" "ed_text e1 = ed_text e" using assms(2) by (simp_all add: e1_def ed_wf_stat ed_text_def)
  have same: "e\<lparr>ed_stat := WAIT_NORMAL\<rparr> = e" if "ed_stat e = WAIT_NORMAL" using that by (cases e) simp
  have pl: "plain_key tab run ch (conc e1) w = bindE (ed_do tab run (plain_code ch) e1 w) (\<lambda>(e', w'). Inr (conc e', w'))"
    if "snd (decode_key (ed_stat e) ch) = plain_code ch"
    using plain_key_ok[OF assms(1) e1(1), of ch run w] assms(3) unfolding that e1(2) has_room_def by blast
  show ?thesis
  proof (cases "ed_stat e")
    case WAIT_NORMAL
    note s = same[OF WAIT_NORMAL]
    show ?thesis using pl False WAIT_NORMAL unfolding e1_def s by (simp add: finsh_key_def ed_key_def s)
  next
    case WAIT_SPEC_KEY
    then show ?thesis using pl False by (simp add: finsh_key_def ed_key_def conc_stat e1_def)
  next
    case WAIT_FUNC_KEY
    consider "ch = CHR ''A''" | "ch = CHR ''B''" | "ch = CHR ''D''" | "ch = CHR ''C''"
      | "ch \<noteq> CHR ''A''" "ch \<noteq> CHR ''B''" "ch \<noteq> CHR ''C''" "ch \<noteq> CHR ''D''" by blast
    then show ?thesis
    proof cases
      case 1
      then show ?thesis using WAIT_FUNC_KEY key_up_ok[OF e1(1)] by (simp add: finsh_key_def ed_key_def conc_stat e1_def)
    next
      case 2
      then show ?thesis using WAIT_FUNC_KEY key_down_ok[OF e1(1)] by (simp add: finsh_key_def ed_key_def conc_stat e1_def)
    next
      case 3
      then show ?thesis using WAIT_FUNC_KEY key_left_ok[OF e1(1)] by (simp add: finsh_key_def ed_key_def conc_stat e1_def)
    next
      case 4
      then show ?thesis using WAIT_FUNC_KEY key_right_ok[OF e1(1)] unfolding e1_def by (simp add: finsh_key_def ed_key_def conc_stat)
    next
      case 5
      then show ?thesis using pl False WAIT_FUNC_KEY by (simp add: finsh_key_def ed_key_def conc_stat e1_def Let_def)
    qed
  qed
qed

text \<open>The editor keeps its bounds.\<close>

lemma ed_do_wf:
  assumes "tab_fits tab" "ed_wf e" "case k of Key_Char ch \<Rightarrow> length (ed_text e) < 79 \<and> ch \<noteq> NUL | _ \<Rightarrow> True"
    "ed_do tab run k e w = Inr (e', w')"
  shows "ed_wf e'"
proof (cases k)
  case Key_Up
  then show ?thesis using assms(2,4) recall_ok(2)[OF assms(2) _ refl, of "ed_pos e - 1"] wf_bounds(5)[OF assms(2)] by (auto split: if_splits)
next
  case Key_Down
  then show ?thesis using assms(2,4) recall_ok(2)[OF assms(2) _ refl, of "ed_pos e + 1"] recall_ok(2)[OF assms(2) _ refl, of "length (ed_hist e) - 1"]
    by (auto split: if_splits)
next
  case Key_Left
  then show ?thesis using assms(2,4) by (cases "ed_before e" rule: rev_cases) (auto simp: ed_wf_def ed_text_def)
next
  case Key_Right
  then show ?thesis using assms(2,4) by (auto simp: ed_wf_def ed_text_def split: list.splits)
next
  case Key_Tab
  have "fits (completed tab (ed_text e))" using completed_fits[OF wf_bounds(6)[OF assms(2)]] tab_fits_names[OF assms(1)] by blast
  then show ?thesis using Key_Tab assms(2,4) by (auto simp: ed_wf_def ed_text_def)
next
  case Key_Backspace
  then show ?thesis using assms(2,4) by (auto simp: ed_wf_def ed_text_def fits_def dest: in_set_butlastD)
next
  case Key_Enter
  have "list_all fits (push (ed_text e) (ed_hist e)) \<and> length (push (ed_text e) (ed_hist e)) \<le> FINSH_HISTORY_LINES"
    using assms(2) by (intro push_wf) (simp_all add: ed_wf_def)
  then show ?thesis using Key_Enter assms(4) by (auto simp: bindE_Inr_iff Let_def ed_wf_def ed_text_def fits_def)
next
  case (Key_Char x)
  then show ?thesis using assms(2-4) by (auto simp: ed_wf_def ed_text_def fits_def)
next
  case Key_None
  then show ?thesis using assms(2,4) by simp
qed

lemma plain_code_char: "plain_code ch = Key_Char x \<Longrightarrow> x = ch \<and> ch \<noteq> NUL"
  by (auto simp: plain_code_def split: if_splits)

lemma ed_key_wf:
  assumes "tab_fits tab" "ed_wf e" "has_room ch e" "ed_key tab run ch e w = Inr (e', w')"
  shows "ed_wf e'"
proof -
  obtain st k where k: "decode_key (ed_stat e) ch = (st, k)" by (cases "decode_key (ed_stat e) ch")
  have "case k of Key_Char x \<Rightarrow> length (ed_text (e\<lparr>ed_stat := st\<rparr>)) < 79 \<and> x \<noteq> NUL | _ \<Rightarrow> True"
  proof (cases k)
    case (Key_Char x)
    have "k = plain_code ch" using k Key_Char by (cases "ed_stat e") (auto split: if_splits)
    then have "x \<noteq> NUL" using Key_Char plain_code_char[of ch x] by simp
    then show ?thesis using assms(3) k Key_Char by (simp add: has_room_def ed_text_def)
  qed simp_all
  then show ?thesis using ed_do_wf[OF assms(1), of "e\<lparr>ed_stat := st\<rparr>" k run w e' w'] assms(2,4) k
    by (simp add: ed_key_def ed_wf_stat)
qed

section \<open>Typing a line\<close>

definition plain_char :: "char \<Rightarrow> bool" where
  "plain_char c \<longleftrightarrow> c \<noteq> CHR 0x1B \<and> plain_code c = Key_Char c"

fun ed_keys ::
  "'f finsh_syscall list \<Rightarrow> ('f \<Rightarrow> string list \<Rightarrow> 'w \<Rightarrow> (int \<times> 'w) res) \<Rightarrow> string \<Rightarrow> editor \<Rightarrow> 'w
   \<Rightarrow> (editor \<times> 'w) res" where
  "ed_keys tab run [] e w = Inr (e, w)"
| "ed_keys tab run (ch # cs) e w = bindE (ed_key tab run ch e w) (\<lambda>(e, w). ed_keys tab run cs e w)"

lemma finsh_keys_append: "finsh_keys tab run (cs @ ds) sh w = bindE (finsh_keys tab run cs sh w) (\<lambda>(sh, w). finsh_keys tab run ds sh w)"
  by (induction cs arbitrary: sh w) (auto simp: bindE_assoc intro!: bindE_cong)

lemma type_text:
  assumes "tab_fits tab" "ed_wf e" "ed_stat e = WAIT_NORMAL" "list_all plain_char s" "length (ed_text e) + length s \<le> 79"
  shows "finsh_keys tab run s (conc e) w = Inr (conc (e\<lparr>ed_before := ed_before e @ s\<rparr>), w)
    \<and> ed_wf (e\<lparr>ed_before := ed_before e @ s\<rparr>)"
  using assms(2-5)
proof (induction s arbitrary: e)
  case (Cons x s)
  have k: "ed_key tab run x e w = Inr (e\<lparr>ed_before := ed_before e @ [x]\<rparr>, w)" and r: "has_room x e"
    using Cons.prems by (simp_all add: ed_key_def plain_char_def has_room_def)
  have wf: "ed_wf (e\<lparr>ed_before := ed_before e @ [x]\<rparr>)" by (rule ed_key_wf[OF assms(1) Cons.prems(1) r k])
  show ?case using Cons.IH[OF wf] Cons.prems finsh_key_ok[OF assms(1) Cons.prems(1) r, of run w] k
    by (simp add: ed_text_def)
qed (simp add: conc_def ed_text_def)

lemma type_line:
  assumes "tab_fits tab" "ed_wf e" "ed_stat e = WAIT_NORMAL" "ed_text e = []" "list_all plain_char s" "length s \<le> 79"
  shows "finsh_keys tab run (s @ [CHR 0x0D]) (conc e) w = bindE (exec_line tab run s w) (\<lambda>(_, _, w').
    Inr (conc (e\<lparr>ed_hist := push s (ed_hist e), ed_pos := length (push s (ed_hist e))\<rparr>), w'))"
proof -
  define e1 where "e1 = e\<lparr>ed_before := s\<rparr>"
  have a: "ed_before e = []" "ed_after e = []" using assms(4) by (simp_all add: ed_text_def)
  have t: "finsh_keys tab run s (conc e) w = Inr (conc e1, w)" "ed_wf e1"
    using type_text[OF assms(1-3,5), of run w] assms(4,6) a by (simp_all add: e1_def)
  have st: "e\<lparr>ed_stat := WAIT_NORMAL, ed_before := x, ed_after := y, ed_hist := h, ed_pos := n\<rparr>
      = e\<lparr>ed_before := x, ed_after := y, ed_hist := h, ed_pos := n\<rparr>" for x y h n
    using assms(3) by (cases e) simp
  have r: "has_room (CHR 0x0D) e1" using assms(3) by (simp add: has_room_def e1_def plain_code_def)
  have "ed_key tab run (CHR 0x0D) e1 w = bindE (exec_line tab run s w) (\<lambda>(_, _, w').
      Inr (e\<lparr>ed_before := [], ed_after := [], ed_hist := push s (ed_hist e), ed_pos := length (push s (ed_hist e))\<rparr>, w'))"
    using assms(3) a by (simp add: ed_key_def plain_code_def e1_def ed_text_def Let_def st)
  moreover have "e\<lparr>ed_before := [], ed_after := [], ed_hist := h, ed_pos := n\<rparr> = e\<lparr>ed_hist := h, ed_pos := n\<rparr>" for h n
    using a by (cases e) simp
  ultimately show ?thesis using t(1) finsh_key_ok[OF assms(1) t(2) r, of run w]
    by (cases "exec_line tab run s w") (auto simp: finsh_keys_append)
qed

end
