(* ===== verification/Shell_App.thy ===== *)
theory Shell_App
  imports Editor_Facts App_Main
begin

text \<open>
  The commands the application exports to the shell (\<open>MSH_CMD_EXPORT\<close> in \<open>applications/\<close>), in front of the
  functions of \<open>App_Main\<close>. The symbol table of the firmware also holds the commands of the kernel, which
  are a parameter. Before them: writing the arguments of a command so that they are read back.
\<close>

section \<open>The text of a command\<close>

text \<open>Writing the arguments of a command as a line, and reading them back.\<close>

definition plain_arg :: "string \<Rightarrow> bool" where
  "plain_arg a \<longleftrightarrow> a \<noteq> [] \<and> hd a \<noteq> QUOTE \<and> list_all (\<lambda>x. \<not> is_blank x) a"

text \<open>What can stand between quotes: no quote, and no backslash before the one that ends it.\<close>

definition quotable :: "string \<Rightarrow> bool" where
  "quotable a \<longleftrightarrow> QUOTE \<notin> set a \<and> (a = [] \<or> last a \<noteq> BACKSLASH)"

definition show_arg :: "string \<Rightarrow> string" where
  "show_arg a = (if plain_arg a then a else QUOTE # a @ [QUOTE])"

fun show_args :: "string list \<Rightarrow> string" where
  "show_args [] = []"
| "show_args [a] = show_arg a"
| "show_args (a # b # as) = show_arg a @ CHR '' '' # show_args (b # as)"

lemma quoted_quotable: "quotable a \<Longrightarrow> quoted (a @ QUOTE # r) = (a, r)"
proof (induction a)
  case (Cons x a)
  have q: "quotable a" using Cons.prems by (cases a) (auto simp: quotable_def)
  show ?case using Cons.IH[OF q] Cons.prems by (cases a) (auto simp: quotable_def)
qed simp

lemma tokens_show_arg:
  assumes "plain_arg a \<or> quotable a" "r = [] \<or> is_blank (hd r)"
  shows "tokens (show_arg a @ r) = a # tokens r"
proof (cases "plain_arg a")
  case True
  then show ?thesis using tokens_word[of a r] assms(2) by (simp add: show_arg_def plain_arg_def)
next
  case False
  then show ?thesis using quoted_quotable[of a r] assms(1) by (simp add: show_arg_def tokens_quote)
qed

lemma tokens_show_args:
  assumes "list_all (\<lambda>a. plain_arg a \<or> quotable a) as"
  shows "tokens (show_args as) = as"
  using assms
proof (induction as rule: show_args.induct)
  case (2 a)
  then show ?case using tokens_show_arg[of a "[]"] by simp
next
  case (3 a b as)
  have "tokens (CHR '' '' # show_args (b # as)) = tokens (show_args (b # as))"
    using tokens_blanks[of "'' ''" "show_args (b # as)"] by (simp add: is_blank_def)
  then show ?case using 3 tokens_show_arg[of a "CHR '' '' # show_args (b # as)"] by (simp add: is_blank_def)
qed simp

lemma show_args_first:
  assumes "plain_arg a"
  shows "first_word (show_args (a # as)) = a" "dropWhile is_blank (show_args (a # as)) = show_args (a # as)"
    "show_args (a # as) \<noteq> []"
proof -
  have w: "list_all (\<lambda>x. \<not> is_blank x) a" "a \<noteq> []" using assms by (simp_all add: plain_arg_def)
  obtain r where r: "show_args (a # as) = a @ r" "r = [] \<or> hd r = CHR '' ''"
    using assms by (cases as) (auto simp: show_arg_def)
  have "takeWhile (\<lambda>x. \<not> is_blank x) (a @ r) = a @ takeWhile (\<lambda>x. \<not> is_blank x) r"
    using w(1) by (intro takeWhile_append2) (auto simp: list_all_iff)
  moreover have "takeWhile (\<lambda>x. \<not> is_blank x) r = []" using r(2) by (cases r) (auto simp: is_blank_def)
  ultimately show "first_word (show_args (a # as)) = a" unfolding first_word_def r(1) by simp
  obtain x a' where "a = x # a'" using w(2) by (cases a) auto
  then show "dropWhile is_blank (show_args (a # as)) = show_args (a # as)" "show_args (a # as) \<noteq> []"
    unfolding r(1) using w(1) by simp_all
qed

text \<open>A line written from a command's name and its arguments runs the command on them.\<close>

lemma exec_show_args:
  assumes "plain_arg n" "list_all (\<lambda>a. plain_arg a \<or> quotable a) as" "length as < FINSH_ARG_MAX"
    "map_of (commands tab) n = Some f"
  shows "exec_line tab run (show_args (n # as)) w = bindE (run f (n # as) w) (\<lambda>(r, w). Inr (r, None, w))"
proof -
  have "tokens (show_args (n # as)) = n # as" using assms(1,2) by (intro tokens_show_args) simp
  then show ?thesis using show_args_first[OF assms(1), of as] assms(3,4) by (simp add: exec_line_def)
qed

section \<open>The commands\<close>

datatype app_fn =
    Fn_show_pin_sts | Fn_led_set_freq | Fn_led_set_vol | Fn_att | Fn_atrd | Fn_atwr
  | Fn_wr_reg_map | Fn_rd_reg_map | Fn_bat_volt | Fn_dac_set_val

text \<open>\<open>MSH_CMD_EXPORT(command, desc)\<close>: the name in the table has the prefix of commands.\<close>

definition msh_cmd_export :: "string \<Rightarrow> string \<Rightarrow> 'f \<Rightarrow> 'f finsh_syscall" where
  "msh_cmd_export command desc f = \<lparr>sc_name = ''__cmd_'' @ command, sc_desc = desc, sc_func = f\<rparr>"

definition app_symtab :: "app_fn finsh_syscall list" where
  "app_symtab =
     [msh_cmd_export ''show_pin_sts'' ''get input pin status'' Fn_show_pin_sts,
      msh_cmd_export ''led_set_freq'' ''freq led set'' Fn_led_set_freq,
      msh_cmd_export ''led_set_vol'' ''vol led set'' Fn_led_set_vol,
      msh_cmd_export ''att'' ''at test1.'' Fn_att,
      msh_cmd_export ''atrd'' ''at rd.'' Fn_atrd,
      msh_cmd_export ''atwr'' ''at wr.'' Fn_atwr,
      msh_cmd_export ''wr_reg_map'' ''write data into conf registers.'' Fn_wr_reg_map,
      msh_cmd_export ''rd_reg_map'' ''show registers map.'' Fn_rd_reg_map,
      msh_cmd_export ''bat_volt'' ''get bat volt.'' Fn_bat_volt,
      msh_cmd_export ''dac_set_val'' ''set dac'' Fn_dac_set_val]"

text \<open>A command's function. The commands return nothing: the value the shell gets is not used, and is 0
  here. The AT commands only send to the modem.\<close>

fun app_run :: "app_fn \<Rightarrow> string list \<Rightarrow> world \<Rightarrow> (int \<times> world) res" where
  "app_run Fn_show_pin_sts argv w = bindE (shell Show_Pin_Sts w) (\<lambda>w. Inr (0, w))"
| "app_run Fn_led_set_freq argv w = bindE (shell (Led_Set_Freq argv) w) (\<lambda>w. Inr (0, w))"
| "app_run Fn_led_set_vol argv w = bindE (shell (Led_Set_Vol argv) w) (\<lambda>w. Inr (0, w))"
| "app_run Fn_att argv w = Inr (0, w)"
| "app_run Fn_atrd argv w = bindE (atrd argv) (\<lambda>_. Inr (0, w))"
| "app_run Fn_atwr argv w = bindE (atwr argv) (\<lambda>_. Inr (0, w))"
| "app_run Fn_wr_reg_map argv w = bindE (shell (Wr_Reg_Map argv) w) (\<lambda>w. Inr (0, w))"
| "app_run Fn_rd_reg_map argv w = bindE (rd_reg_map argv w) (\<lambda>_. Inr (0, w))"
| "app_run Fn_bat_volt argv w = bindE (shell Bat_Volt w) (\<lambda>w. Inr (0, w))"
| "app_run Fn_dac_set_val argv w = bindE (shell (Dac_Set_Val argv) w) (\<lambda>w. Inr (0, w))"

lemma app_symtab_fits: "tab_fits app_symtab"
  by (simp add: tab_fits_def wf_tab_def app_symtab_def msh_cmd_export_def)

lemma app_commands: "commands app_symtab =
    [(''show_pin_sts'', Fn_show_pin_sts), (''led_set_freq'', Fn_led_set_freq), (''led_set_vol'', Fn_led_set_vol),
     (''att'', Fn_att), (''atrd'', Fn_atrd), (''atwr'', Fn_atwr), (''wr_reg_map'', Fn_wr_reg_map),
     (''rd_reg_map'', Fn_rd_reg_map), (''bat_volt'', Fn_bat_volt), (''dac_set_val'', Fn_dac_set_val)]"
  by (simp add: app_symtab_def msh_cmd_export_def commands_def)

text \<open>A command from its keys to the registers.\<close>

lemma dac_command_keys: "\<exists>sh. finsh_keys app_symtab app_run (''dac_set_val 5'' @ [CHR 0x0D]) finsh_shell_init w = Inr (sh, dac_set 5 w)"
proof -
  have e: "ed_wf ed_init" "ed_stat ed_init = WAIT_NORMAL" "ed_text ed_init = []"
    by (simp_all add: ed_init_def ed_wf_def ed_text_def fits_def)
  have "exec_line app_symtab app_run (show_args [''dac_set_val'', ''5'']) w
      = bindE (app_run Fn_dac_set_val [''dac_set_val'', ''5''] w) (\<lambda>(r, w). Inr (r, None, w))"
    by (rule exec_show_args) (simp_all add: plain_arg_def is_blank_def app_commands)
  also have "app_run Fn_dac_set_val [''dac_set_val'', ''5''] w = Inr (0, dac_set 5 w)"
    by (simp add: dac_set_val_def atoi_def c_isspace_def c_isdigit_def of_char_def to_u32_def)
  also have "show_args [''dac_set_val'', ''5''] = ''dac_set_val 5''" by (simp add: show_arg_def plain_arg_def is_blank_def)
  finally show ?thesis
    using type_line[OF app_symtab_fits e, of "''dac_set_val 5''" app_run w] by (simp add: plain_char_def plain_code_def conc_init)
qed

end
