(* ===== verification/Shell_Props.thy ===== *)
theory Shell_Props
  imports Shell_App
begin

text \<open>
  What the shell promises: a typed line runs its command with the arguments it was written from, every key
  is the key of the line editor, the completion, and what goes wrong with a line of 80 characters.
\<close>

section \<open>Lines that are too long\<close>

lemma strlen_fault: "NUL \<notin> set (drop i b) \<Longrightarrow> strlen_from s i b = Inl Out_Of_Bounds"
proof (induction "length b - i" arbitrary: i)
  case 0
  then show ?case by (subst strlen_from.simps) (simp add: rd_def)
next
  case (Suc m)
  then have i: "i < length b" by simp
  then have d: "drop i b = b ! i # drop (Suc i) b" by (simp add: Cons_nth_drop_Suc)
  have "m = length b - Suc i" "NUL \<notin> set (drop (Suc i) b)" using Suc.hyps(2) Suc.prems d by simp_all
  then have "strlen_from s (i + 1) b = Inl Out_Of_Bounds" using Suc.hyps(1)[of "Suc i"] by simp
  moreover have "b ! i \<noteq> NUL" using Suc.prems d by auto
  ultimately show ?case using i by (subst strlen_from.simps) (simp add: rd_in)
qed

lemma strip_start_fault: "list_all is_blank (drop i b) \<Longrightarrow> strip_start i len b = Inl Out_Of_Bounds"
proof (induction "length b - i" arbitrary: i len)
  case 0
  then show ?case by (subst strip_start.simps) (simp add: rd_def)
next
  case (Suc m)
  then have i: "i < length b" by simp
  then have d: "drop i b = b ! i # drop (Suc i) b" by (simp add: Cons_nth_drop_Suc)
  have "m = length b - Suc i" "list_all is_blank (drop (Suc i) b)" using Suc.hyps(2) Suc.prems d by simp_all
  then have "strip_start (i + 1) (len - 1) b = Inl Out_Of_Bounds" using Suc.hyps(1)[of "Suc i" "len - 1"] by simp
  moreover have "is_blank (b ! i)" using Suc.prems d by auto
  ultimately show ?case using i by (subst strip_start.simps) (simp add: rd_in)
qed

text \<open>The 80th character at the end of the line: the positions are 0 and the line is full.\<close>

lemma type_too_long:
  assumes "tab_fits tab" "list_all plain_char s" "length s = FINSH_CMD_SIZE"
  shows "finsh_keys tab run s finsh_shell_init w = Inr (finsh_shell_init\<lparr>sh_line := s\<rparr>, w)"
proof -
  obtain t x where s: "s = t @ [x]" using assms(3) by (cases s rule: rev_cases) auto
  have t: "length t = 79" "list_all plain_char t" "plain_char x" using assms(2,3) s by simp_all
  have ty: "finsh_keys tab run t (conc ed_init) w = Inr (conc (ed_init\<lparr>ed_before := t\<rparr>), w)"
    using type_text[OF assms(1), of ed_init t run w] t by simp
  define sh where "sh = conc (ed_init\<lparr>ed_before := t\<rparr>)"
  have f: "sh_stat sh = WAIT_NORMAL" "sh_line_position sh = 79" "sh_line_curpos sh = 79" "sh_line sh = t @ [NUL]"
    using t(1) by (simp_all add: sh_def conc_def ed_text_def pad_def)
  have p: "x \<noteq> CHR 0x1B" "x \<noteq> NUL" "x \<noteq> CHR 0xFF" "x \<noteq> TAB" "x \<noteq> CHR 0x7F" "x \<noteq> CHR 0x08" "x \<noteq> CHR 0x0D" "x \<noteq> CHR 0x0A"
    using t(3) by (auto simp: plain_char_def plain_code_def split: if_splits)
  have "wr (t @ [NUL]) 79 x = Inr s" using t(1) s wr_mid[of 79 t NUL "[]" x] by simp
  then have "key_char x sh = Inr (sh\<lparr>sh_line := s, sh_line_position := 0, sh_line_curpos := 0\<rparr>)"
    using f by (simp add: key_char_def)
  moreover have "sh\<lparr>sh_line := s, sh_line_position := 0, sh_line_curpos := 0\<rparr> = finsh_shell_init\<lparr>sh_line := s\<rparr>"
    by (simp add: sh_def conc_init conc_def ed_text_def)
  ultimately have "finsh_key tab run x sh w = Inr (finsh_shell_init\<lparr>sh_line := s\<rparr>, w)"
    using f p by (simp add: finsh_key_def plain_key_def)
  then show ?thesis unfolding conc_init using ty s
    by (simp add: finsh_keys_append sh_def[symmetric])
qed

text \<open>Then the completion reads behind the array: where it takes the length of the line, or else where the
  line is printed.\<close>

lemma complete_loop_too_long:
  assumes "wf_tab tab" "NUL \<notin> set s"
  shows "complete_loop tab s None 0 [] = Inl Out_Of_Bounds \<or> complete_loop tab s None 0 [] = Inr (None, 0, [])"
  using assms(1)
proof (induction tab)
  case (Cons e tab)
  have "rt_strlen 0 s = Inl Out_Of_Bounds" using strlen_fault[of 0 s 0] assms(2) by (simp add: rt_strlen_def)
  then show ?case using Cons is_command_ok[of e] by (simp add: complete_loop.simps Let_def)
qed simp

lemma plain_no_nul: "list_all plain_char s \<Longrightarrow> NUL \<notin> set s"
proof
  assume "list_all plain_char s" "NUL \<in> set s"
  then have "plain_code NUL = Key_Char NUL" by (simp add: list_all_iff plain_char_def)
  from plain_code_char[OF this] show False by simp
qed

lemma key_tab_too_long:
  assumes "tab_fits tab" "list_all plain_char s" "length s = FINSH_CMD_SIZE" "sh_line sh = s"
  shows "key_tab tab sh = Inl Out_Of_Bounds"
proof -
  have n: "NUL \<notin> set s" by (rule plain_no_nul[OF assms(2)])
  have z: "rd s 0 = Inr (s ! 0)" "s ! 0 \<noteq> NUL" using assms(3) n by (cases s, auto simp: rd_def)+
  have p: "print_str s 0 = Inl Out_Of_Bounds"
    using strlen_fault[of 0 s 0] n by (simp add: print_str_def string_at_def rt_strlen_def)
  have "wf_tab tab" using assms(1) by (simp add: tab_fits_def)
  then show ?thesis using complete_loop_too_long[OF _ n, of tab] z p assms(4)
    by (auto simp: key_tab_def shell_auto_complete_def msh_auto_complete_def)
qed

section \<open>Properties\<close>

text \<open>C32: typing a line written from the name of a command and its arguments, quoted where they need it,
  and the return key runs the command on exactly these arguments, and leaves an empty line and the line in
  the history.\<close>

theorem typed_command_runs:
  assumes "tab_fits tab" "map_of (commands tab) n = Some f" "plain_arg n"
    "list_all (\<lambda>a. plain_arg a \<or> quotable a) as" "length as < FINSH_ARG_MAX"
    "list_all plain_char (show_args (n # as))" "length (show_args (n # as)) < FINSH_CMD_SIZE"
    "ed_wf e" "ed_stat e = WAIT_NORMAL" "ed_text e = []"
  shows "finsh_keys tab run (show_args (n # as) @ [CHR 0x0D]) (conc e) w = bindE (run f (n # as) w) (\<lambda>(_, w').
    Inr (conc (e\<lparr>ed_hist := push (show_args (n # as)) (ed_hist e),
                 ed_pos := length (push (show_args (n # as)) (ed_hist e))\<rparr>), w'))"
proof -
  have l: "length (show_args (n # as)) \<le> 79" using assms(7) by simp
  show ?thesis
    unfolding type_line[OF assms(1,8,9,10,6) l] exec_show_args[OF assms(3,4,5,2)]
    by (cases "run f (n # as) w") auto
qed

lemma typed_command_runs_witness: "finsh_keys app_symtab app_run (''wr_reg_map 3 '' @ [QUOTE] @ ''7 '' @ [QUOTE, CHR 0x0D]) (conc ed_init) (reset_world 0 (\<lambda>_. 0))
    = bindE (app_run Fn_wr_reg_map [''wr_reg_map'', ''3'', ''7 ''] (reset_world 0 (\<lambda>_. 0))) (\<lambda>(_, w').
    Inr (conc (ed_init\<lparr>ed_hist := [''wr_reg_map 3 '' @ [QUOTE] @ ''7 '' @ [QUOTE]], ed_pos := 1\<rparr>), w'))"
proof -
  have s: "show_args [''wr_reg_map'', ''3'', ''7 ''] = ''wr_reg_map 3 '' @ [QUOTE] @ ''7 '' @ [QUOTE]"
    by (simp add: show_arg_def plain_arg_def is_blank_def)
  have p: "list_all plain_char (show_args [''wr_reg_map'', ''3'', ''7 ''])" "length (show_args [''wr_reg_map'', ''3'', ''7 '']) < 80"
    unfolding s by (simp_all add: plain_char_def plain_code_def)
  have a: "plain_arg ''wr_reg_map''" "list_all (\<lambda>a. plain_arg a \<or> quotable a) [''3'', ''7 '']"
    by (simp_all add: plain_arg_def is_blank_def quotable_def)
  have e: "ed_wf ed_init" "ed_stat ed_init = WAIT_NORMAL" "ed_text ed_init = []" "ed_hist ed_init = []"
    by (simp_all add: ed_init_def ed_wf_def ed_text_def fits_def)
  have "map_of (commands app_symtab) ''wr_reg_map'' = Some Fn_wr_reg_map" by (simp add: app_commands)
  from typed_command_runs[OF app_symtab_fits this a _ p e(1-3), of app_run "reset_world 0 (\<lambda>_. 0)"] show ?thesis
    unfolding s e(4) by (simp add: push_def)
qed

text \<open>C33: every key of the shell is the key of the line editor, as long as a character that is inserted
  leaves room for the zero behind the line, and the editor keeps its bounds.\<close>

theorem finsh_key_refines:
  assumes "tab_fits tab" "ed_wf e" "has_room ch e"
  shows "finsh_key tab run ch (conc e) w = bindE (ed_key tab run ch e w) (\<lambda>(e', w'). Inr (conc e', w'))
    \<and> (case ed_key tab run ch e w of Inl _ \<Rightarrow> True | Inr (e', w') \<Rightarrow> ed_wf e')"
  using finsh_key_ok[OF assms, of run w] ed_key_wf[OF assms, of run w] by (auto split: sum.splits prod.splits)

lemma finsh_key_refines_witness: "finsh_key app_symtab app_run (CHR 0x08) (conc (ed_init\<lparr>ed_before := ''ab'', ed_after := ''c''\<rparr>)) (reset_world 0 (\<lambda>_. 0))
    = Inr (conc (ed_init\<lparr>ed_before := ''a'', ed_after := ''c''\<rparr>), reset_world 0 (\<lambda>_. 0))"
proof -
  define e where "e = ed_init\<lparr>ed_before := ''ab'', ed_after := ''c''\<rparr>"
  have e: "ed_wf e" "has_room (CHR 0x08) e" by (simp_all add: e_def ed_init_def ed_wf_def ed_text_def fits_def has_room_def plain_code_def)
  have "ed_key app_symtab app_run (CHR 0x08) e (reset_world 0 (\<lambda>_. 0)) = Inr (ed_init\<lparr>ed_before := ''a'', ed_after := ''c''\<rparr>, reset_world 0 (\<lambda>_. 0))"
    by (simp add: e_def ed_init_def ed_key_def plain_code_def)
  then show ?thesis using finsh_key_refines[OF app_symtab_fits e, of app_run "reset_world 0 (\<lambda>_. 0)"] by (simp add: e_def)
qed

text \<open>C34: the split in place of a line of any text without a zero byte gives pointers to the first ten
  tokens of the text, and changes nothing outside the line.\<close>

theorem msh_split_tokens:
  assumes "length X = c" "NUL \<notin> set s"
  shows "\<exists>Y ps. msh_split c (length s) (X @ s @ NUL # Z) = Inr (ps, X @ Y @ NUL # Z) \<and> length Y = length s
    \<and> strings_at (X @ Y @ NUL # Z) ps = Inr (take FINSH_ARG_MAX (tokens s))"
  using msh_split_ok[OF assms] .

lemma msh_split_tokens_witness: "\<exists>Y ps. msh_split 2 11 (''> wr '' @ [QUOTE] @ ''a b'' @ [QUOTE] @ ''x 1'' @ [NUL]) = Inr (ps, ''> '' @ Y @ [NUL])
    \<and> strings_at (''> '' @ Y @ [NUL]) ps = Inr [''wr'', ''a b'', ''x'', ''1'']"
proof -
  have t: "tokens (''wr '' @ [QUOTE] @ ''a b'' @ [QUOTE] @ ''x 1'') = [''wr'', ''a b'', ''x'', ''1'']"
    by (simp add: tokens.simps is_blank_def)
  show ?thesis using msh_split_tokens[of "''> ''" 2 "''wr '' @ [QUOTE] @ ''a b'' @ [QUOTE] @ ''x 1''" "[]"] unfolding t by (auto simp: eval_nat_numeral)
qed

text \<open>C35: completion of a text that is not empty prints the commands it is a prefix of, and replaces it by
  their longest common prefix.\<close>

theorem auto_complete_lcp:
  assumes "tab_fits tab" "fits p" "p \<noteq> []"
  shows "msh_auto_complete tab (pad p) = Inr (filter (prefix p) (map fst (commands tab)),
    if filter (prefix p) (map fst (commands tab)) = [] then pad p
    else pad (Longest_common_prefix (set (filter (prefix p) (map fst (commands tab))))))"
proof -
  have n: "\<forall>n \<in> set (map fst (commands tab)). fits n" "wf_tab tab" using tab_fits_names[OF assms(1)] by auto
  obtain out where "msh_auto_complete tab (pad p) = Inr (out, pad (completed tab p))"
    using auto_complete_pad[OF n(2) assms(2) n(1)] by blast
  moreover have "\<exists>b. msh_auto_complete tab (pad p) = Inr (matches tab p, b)"
  proof -
    have p: "pad p = p @ NUL # replicate (79 - length p) NUL" using assms(2) by (simp add: pad_split fits_def)
    have "\<forall>n \<in> set (matches tab p). length n \<le> length p + 1 + length (replicate (79 - length p) NUL)"
      using assms(2) n(1) by (auto simp: matches_def fits_def)
    then show ?thesis unfolding p using auto_complete_ok[OF n(2) assms(3)] assms(2) by (simp add: fits_def)
  qed
  ultimately show ?thesis using assms(3) by (auto simp: completed_def matches_def)
qed

lemma auto_complete_lcp_witness: "msh_auto_complete app_symtab (pad ''led'') = Inr ([''led_set_freq'', ''led_set_vol''], pad ''led_set_'')"
proof -
  have m: "filter (prefix ''led'') (map fst (commands app_symtab)) = [''led_set_freq'', ''led_set_vol'']"
    by (simp add: app_commands)
  have "Longest_common_prefix (set [''led_set_freq'', ''led_set_vol'']) = ''led_set_''"
    using shortest_lcp[of "''led_set_freq''" "[''led_set_freq'', ''led_set_vol'']"] by simp
  then show ?thesis using auto_complete_lcp[OF app_symtab_fits, of "''led''"] unfolding m by (simp add: fits_def)
qed

text \<open>C36: after 80 characters the line is discarded by its positions only: the characters stay in the array
  without a zero behind them, so that the completion key reads behind the array; with blanks the return key
  does.\<close>

theorem long_line_faults:
  assumes "tab_fits tab" "list_all plain_char s" "length s = FINSH_CMD_SIZE"
  shows "finsh_keys tab run s finsh_shell_init w = Inr (finsh_shell_init\<lparr>sh_line := s\<rparr>, w)
    \<and> finsh_keys tab run (s @ [TAB]) finsh_shell_init w = Inl Out_Of_Bounds
    \<and> (list_all is_blank s \<longrightarrow> finsh_keys tab run (s @ [CHR 0x0D]) finsh_shell_init w = Inl Out_Of_Bounds)"
proof -
  define sh where "sh = finsh_shell_init\<lparr>sh_line := s\<rparr>"
  have f: "sh_stat sh = WAIT_NORMAL" "sh_line sh = s" "sh_line_position sh = 0" "sh_history_count sh = 0"
    by (simp_all add: sh_def finsh_shell_init_def)
  have ty: "finsh_keys tab run s finsh_shell_init w = Inr (sh, w)" using type_too_long[OF assms] by (simp add: sh_def)
  have "finsh_key tab run TAB sh w = Inl Out_Of_Bounds"
    using key_tab_too_long[OF assms f(2)] f(1) by (simp add: finsh_key_def plain_key_def)
  moreover have "finsh_key tab run (CHR 0x0D) sh w = Inl Out_Of_Bounds" if "list_all is_blank s"
    using strip_start_fault[of 0 s "ucast (0 :: u16)"] that f
    by (simp add: finsh_key_def plain_key_def key_enter_def shell_push_history_def msh_exec_def msh_is_used_def)
  ultimately show ?thesis unfolding finsh_keys_append ty by (simp add: sh_def)
qed

lemma long_line_faults_witness: "finsh_keys app_symtab app_run (replicate 80 CHR '' '' @ [CHR 0x0D]) finsh_shell_init (reset_world 0 (\<lambda>_. 0)) = Inl Out_Of_Bounds"
  using long_line_faults[OF app_symtab_fits, of "replicate 80 CHR '' ''" app_run "reset_world 0 (\<lambda>_. 0)"]
  by (simp add: list_all_iff plain_char_def plain_code_def is_blank_def)

end
