(* ===== verification/Serial.thy ===== *)
theory Serial
  imports Prelude
begin

text \<open>
  The serial driver of RT-Thread (\<open>components/drivers/serial/serial.c\<close>) over the UART of the board
  (\<open>libraries/HAL_Drivers/drv_usart.c\<close>), without DMA as \<open>rtconfig.h\<close> configures it. The UART has received
  the bytes \<open>sd_pending\<close>, which the interrupt takes out, and has sent \<open>sd_sent\<close>. The end of the wait in the
  loops of the UART is left to the hardware.
\<close>

section \<open>State\<close>

abbreviation (input) FLAG_SUSPENDED :: u16 where "FLAG_SUSPENDED \<equiv> 0x020"
abbreviation (input) FLAG_STREAM :: u16 where "FLAG_STREAM \<equiv> 0x040"
abbreviation (input) FLAG_INT_RX :: u16 where "FLAG_INT_RX \<equiv> 0x100"
abbreviation (input) FLAG_DMA_RX :: u16 where "FLAG_DMA_RX \<equiv> 0x200"
abbreviation (input) FLAG_INT_TX :: u16 where "FLAG_INT_TX \<equiv> 0x400"
abbreviation (input) FLAG_DMA_TX :: u16 where "FLAG_DMA_TX \<equiv> 0x800"

abbreviation (input) RT_EIO :: int where "RT_EIO \<equiv> 8"

record rt_serial_rx_fifo =
  rx_buffer :: "u8 list"
  rx_put_index :: u16
  rx_get_index :: u16
  rx_is_full :: bool

text \<open>\<open>bufsz\<close> is the only part of the configuration the code on top of the UART reads. \<open>sd_tx\<close> tells whether
  there is a transmit structure.\<close>

record serial =
  sd_flag :: u16
  sd_open_flag :: u16
  sd_ref_count :: u8
  sd_bufsz :: u16
  sd_rx :: "rt_serial_rx_fifo option"
  sd_tx :: bool
  sd_rx_indicate :: bool
  sd_rxne_it :: bool
  sd_pending :: "u8 list"
  sd_sent :: "u8 list"

section \<open>The UART\<close>

fun stm32_getc :: "serial \<Rightarrow> u8 option \<times> serial" where
  "stm32_getc s = (case sd_pending s of [] \<Rightarrow> (None, s) | x # xs \<Rightarrow> (Some x, s\<lparr>sd_pending := xs\<rparr>))"

definition stm32_putc :: "u8 \<Rightarrow> serial \<Rightarrow> serial" where
  "stm32_putc c s = s\<lparr>sd_sent := sd_sent s @ [c]\<rparr>"

text \<open>The commands \<open>RT_DEVICE_CTRL_SET_INT\<close> (0x10) and \<open>RT_DEVICE_CTRL_CLR_INT\<close> (0x11).\<close>

definition stm32_control :: "int \<Rightarrow> serial \<Rightarrow> int \<times> serial" where
  "stm32_control cmd s =
     (if cmd = 0x11 then (RT_EOK, s\<lparr>sd_rxne_it := False\<rparr>)
      else if cmd = 0x10 then (RT_EOK, s\<lparr>sd_rxne_it := True\<rparr>)
      else (RT_EOK, s))"

section \<open>Receiving and sending\<close>

fun serial_poll_rx :: "nat \<Rightarrow> serial \<Rightarrow> u8 list \<times> serial" where
  "serial_poll_rx 0 s = ([], s)"
| "serial_poll_rx (Suc n) s = (case stm32_getc s of
     (None, s) \<Rightarrow> ([], s)
   | (Some ch, s) \<Rightarrow>
       if ch = 10 then ([ch], s)
       else let (data, s) = serial_poll_rx n s in (ch # data, s))"

fun serial_poll_tx :: "u8 list \<Rightarrow> serial \<Rightarrow> serial" where
  "serial_poll_tx [] s = s"
| "serial_poll_tx (c # data) s =
     serial_poll_tx data (stm32_putc c
       (if c = 10 \<and> sd_open_flag s AND FLAG_STREAM \<noteq> 0 then stm32_putc 13 s else s))"

text \<open>One byte out of the software FIFO.\<close>

definition fifo_get :: "u16 \<Rightarrow> rt_serial_rx_fifo \<Rightarrow> (u8 option \<times> rt_serial_rx_fifo) res" where
  "fifo_get bufsz f =
     (if rx_get_index f = rx_put_index f \<and> \<not> rx_is_full f then Inr (None, f)
      else bindE (arr_get (rx_buffer f) (unat (rx_get_index f))) (\<lambda>ch.
        let get_index = rx_get_index f + 1 in
        Inr (Some ch, f\<lparr>rx_get_index := (if get_index \<ge> bufsz then 0 else get_index), rx_is_full := False\<rparr>)))"

fun int_rx_loop :: "nat \<Rightarrow> u16 \<Rightarrow> rt_serial_rx_fifo \<Rightarrow> (u8 list \<times> rt_serial_rx_fifo) res" where
  "int_rx_loop 0 bufsz f = Inr ([], f)"
| "int_rx_loop (Suc n) bufsz f = bindE (fifo_get bufsz f) (\<lambda>(ch, f). case ch of
     None \<Rightarrow> Inr ([], f)
   | Some c \<Rightarrow> bindE (int_rx_loop n bufsz f) (\<lambda>(data, f). Inr (c # data, f)))"

definition serial_int_rx :: "nat \<Rightarrow> serial \<Rightarrow> (u8 list \<times> serial) res" where
  "serial_int_rx len s = (case sd_rx s of
     None \<Rightarrow> Inl Assert_Failed
   | Some f \<Rightarrow> bindE (int_rx_loop len (sd_bufsz s) f) (\<lambda>(data, f). Inr (data, s\<lparr>sd_rx := Some f\<rparr>)))"

text \<open>\<open>stm32_putc\<close> never returns -1, so that the transmit loop does not wait.\<close>

fun serial_int_tx :: "u8 list \<Rightarrow> serial \<Rightarrow> serial res" where
  "serial_int_tx data s = (if \<not> sd_tx s then Inl Assert_Failed else Inr (fold stm32_putc data s))"

section \<open>The device\<close>

definition rt_serial_init :: "serial \<Rightarrow> int \<times> serial" where
  "rt_serial_init s = (RT_EOK, s\<lparr>sd_rx := None, sd_tx := False\<rparr>)"

definition new_fifo :: "u16 \<Rightarrow> rt_serial_rx_fifo" where
  "new_fifo bufsz = \<lparr>rx_buffer = replicate (unat bufsz) 0, rx_put_index = 0, rx_get_index = 0, rx_is_full = False\<rparr>"

text \<open>The two allocations of \<open>rt_serial_open\<close>: \<open>m_rx\<close> and \<open>m_tx\<close> tell whether they succeed.\<close>

definition open_rx :: "bool \<Rightarrow> u16 \<Rightarrow> serial \<Rightarrow> serial res" where
  "open_rx m_rx oflag s =
     (if sd_rx s = None
      then
        if oflag AND FLAG_INT_RX \<noteq> 0
        then bindE (assertE m_rx) (\<lambda>_. Inr (snd (stm32_control 0x10
               (s\<lparr>sd_rx := Some (new_fifo (sd_bufsz s)), sd_open_flag := sd_open_flag s OR FLAG_INT_RX\<rparr>))))
        else Inr s
      else if oflag AND FLAG_INT_RX \<noteq> 0 then Inr (s\<lparr>sd_open_flag := sd_open_flag s OR FLAG_INT_RX\<rparr>)
      else Inr s)"

definition open_tx :: "bool \<Rightarrow> u16 \<Rightarrow> serial \<Rightarrow> serial res" where
  "open_tx m_tx oflag s =
     (if \<not> sd_tx s
      then
        if oflag AND FLAG_INT_TX \<noteq> 0
        then bindE (assertE m_tx) (\<lambda>_. Inr (snd (stm32_control 0x10
               (s\<lparr>sd_tx := True, sd_open_flag := sd_open_flag s OR FLAG_INT_TX\<rparr>))))
        else Inr s
      else if oflag AND FLAG_INT_TX \<noteq> 0 then Inr (s\<lparr>sd_open_flag := sd_open_flag s OR FLAG_INT_TX\<rparr>)
      else Inr s)"

definition rt_serial_open :: "bool \<Rightarrow> bool \<Rightarrow> u16 \<Rightarrow> serial \<Rightarrow> (int \<times> serial) res" where
  "rt_serial_open m_rx m_tx oflag s =
     (if oflag AND FLAG_DMA_RX \<noteq> 0 \<and> sd_flag s AND FLAG_DMA_RX = 0 then Inr (- RT_EIO, s)
      else if oflag AND FLAG_DMA_TX \<noteq> 0 \<and> sd_flag s AND FLAG_DMA_TX = 0 then Inr (- RT_EIO, s)
      else if oflag AND FLAG_INT_RX \<noteq> 0 \<and> sd_flag s AND FLAG_INT_RX = 0 then Inr (- RT_EIO, s)
      else if oflag AND FLAG_INT_TX \<noteq> 0 \<and> sd_flag s AND FLAG_INT_TX = 0 then Inr (- RT_EIO, s)
      else
        let stream_flag = (if oflag AND FLAG_STREAM \<noteq> 0 \<or> sd_open_flag s AND FLAG_STREAM \<noteq> 0 then FLAG_STREAM else 0) in
        bindE (open_rx m_rx oflag (s\<lparr>sd_open_flag := oflag AND 0xff\<rparr>)) (\<lambda>s.
        bindE (open_tx m_tx oflag s) (\<lambda>s.
        Inr (RT_EOK, s\<lparr>sd_open_flag := sd_open_flag s OR stream_flag\<rparr>))))"

definition rt_serial_close :: "serial \<Rightarrow> (int \<times> serial) res" where
  "rt_serial_close s =
     (if sd_ref_count s > 1 then Inr (RT_EOK, s)
      else
        bindE
          (if sd_open_flag s AND FLAG_INT_RX \<noteq> 0
           then bindE (assertE (sd_rx s \<noteq> None)) (\<lambda>_. Inr (snd (stm32_control 0x11
                  (s\<lparr>sd_rx := None, sd_open_flag := sd_open_flag s AND NOT FLAG_INT_RX\<rparr>))))
           else Inr s) (\<lambda>s.
        bindE
          (if sd_open_flag s AND FLAG_INT_TX \<noteq> 0
           then bindE (assertE (sd_tx s)) (\<lambda>_. Inr (snd (stm32_control 0x11
                  (s\<lparr>sd_tx := False, sd_open_flag := sd_open_flag s AND NOT FLAG_INT_TX\<rparr>))))
           else Inr s) (\<lambda>s.
        Inr (RT_EOK, s))))"

definition rt_serial_read :: "nat \<Rightarrow> serial \<Rightarrow> (u8 list \<times> serial) res" where
  "rt_serial_read n s =
     (if n = 0 then Inr ([], s)
      else if sd_open_flag s AND FLAG_INT_RX \<noteq> 0 then serial_int_rx n s
      else Inr (serial_poll_rx n s))"

definition rt_serial_write :: "u8 list \<Rightarrow> serial \<Rightarrow> (nat \<times> serial) res" where
  "rt_serial_write data s =
     (if data = [] then Inr (0, s)
      else if sd_open_flag s AND FLAG_INT_TX \<noteq> 0
      then bindE (serial_int_tx data s) (\<lambda>s. Inr (length data, s))
      else Inr (length data, serial_poll_tx data s))"

text \<open>\<open>args\<close> is the configuration of the command \<open>RT_DEVICE_CTRL_CONFIG\<close>, of which the buffer size is kept.
  The error is not negated.\<close>

definition rt_serial_control :: "int \<Rightarrow> u16 option \<Rightarrow> serial \<Rightarrow> int \<times> serial" where
  "rt_serial_control cmd args s =
     (if cmd = 0x02 then (RT_EOK, s\<lparr>sd_flag := sd_flag s OR FLAG_SUSPENDED\<rparr>)
      else if cmd = 0x01 then (RT_EOK, s\<lparr>sd_flag := sd_flag s AND NOT FLAG_SUSPENDED\<rparr>)
      else if cmd = 0x03
      then case args of None \<Rightarrow> (RT_EOK, s)
        | Some bufsz \<Rightarrow>
            if bufsz \<noteq> sd_bufsz s \<and> sd_ref_count s \<noteq> 0 then (RT_EBUSY, s)
            else (RT_EOK, s\<lparr>sd_bufsz := bufsz\<rparr>)
      else stm32_control cmd s)"

section \<open>The interrupt\<close>

definition fifo_put :: "u16 \<Rightarrow> u8 \<Rightarrow> rt_serial_rx_fifo \<Rightarrow> rt_serial_rx_fifo res" where
  "fifo_put bufsz ch f =
     bindE (arr_set (rx_buffer f) (unat (rx_put_index f)) ch) (\<lambda>b.
     let put_index = rx_put_index f + 1;
         put_index = (if put_index \<ge> bufsz then 0 else put_index);
         f = f\<lparr>rx_buffer := b, rx_put_index := put_index\<rparr> in
     if put_index = rx_get_index f
     then let get_index = rx_get_index f + 1 in
       Inr (f\<lparr>rx_get_index := (if get_index \<ge> bufsz then 0 else get_index), rx_is_full := True\<rparr>)
     else Inr f)"

text \<open>The loop takes every byte the UART has.\<close>

fun isr_loop :: "u16 \<Rightarrow> u8 list \<Rightarrow> rt_serial_rx_fifo \<Rightarrow> rt_serial_rx_fifo res" where
  "isr_loop bufsz [] f = Inr f"
| "isr_loop bufsz (ch # chs) f = bindE (fifo_put bufsz ch f) (isr_loop bufsz chs)"

definition fifo_length :: "u16 \<Rightarrow> rt_serial_rx_fifo \<Rightarrow> int" where
  "fifo_length bufsz f =
     (if rx_put_index f \<ge> rx_get_index f then uint (rx_put_index f) - uint (rx_get_index f)
      else uint bufsz - (uint (rx_get_index f) - uint (rx_put_index f)))"

text \<open>The event \<open>RT_SERIAL_EVENT_RX_IND\<close>; the second result is the length \<open>rx_indicate\<close> is called with, if it
  is called.\<close>

definition rt_hw_serial_isr :: "serial \<Rightarrow> (serial \<times> int option) res" where
  "rt_hw_serial_isr s = (case sd_rx s of
     None \<Rightarrow> Inl Assert_Failed
   | Some f \<Rightarrow> bindE (isr_loop (sd_bufsz s) (sd_pending s) f) (\<lambda>f.
       let n = fifo_length (sd_bufsz s) f in
       Inr (s\<lparr>sd_rx := Some f, sd_pending := []\<rparr>, if sd_rx_indicate s \<and> n \<noteq> 0 then Some n else None)))"

definition uart_isr :: "serial \<Rightarrow> (serial \<times> int option) res" where
  "uart_isr s = (if sd_pending s \<noteq> [] \<and> sd_rxne_it s then rt_hw_serial_isr s else Inr (s, None))"

end
