(* ===== verification/Console.thy ===== *)
theory Console
  imports Serial Finsh Sem_Spec
begin

text \<open>
  The way of a character from the UART to the shell: the device layer over the serial driver
  (\<open>device.c\<close>), the console device (\<open>kservice.c\<close>), and the end of the shell thread that reads
  (\<open>finsh_set_device\<close>, \<open>finsh_rx_ind\<close>, \<open>finsh_getchar\<close> of \<open>shell.c\<close>). The semaphore of the shell is its
  specification \<open>sem_spec_take\<close>, \<open>sem_spec_release\<close>, which \<open>sem_take_refines\<close> and \<open>sem_release_refines\<close>
  connect to the kernel's; the only thread in its queue is the shell, with the number 0. The interrupt of
  a UART may come between any two steps of the shell thread.
\<close>

section \<open>The device layer over the serial driver\<close>

abbreviation (input) FLAG_RDWR :: u16 where "FLAG_RDWR \<equiv> 0x003"
abbreviation (input) FLAG_STANDALONE :: u16 where "FLAG_STANDALONE \<equiv> 0x008"
abbreviation (input) FLAG_ACTIVATED :: u16 where "FLAG_ACTIVATED \<equiv> 0x010"
abbreviation (input) OFLAG_OPEN :: u16 where "OFLAG_OPEN \<equiv> 0x008"

abbreviation (input) RT_SERIAL_RB_BUFSZ :: u16 where "RT_SERIAL_RB_BUFSZ \<equiv> 64"

text \<open>A UART after \<open>rt_hw_usart_init\<close>.\<close>

definition rt_hw_serial_register :: "u16 \<Rightarrow> u16 \<Rightarrow> serial" where
  "rt_hw_serial_register bufsz flag =
     \<lparr>sd_flag = flag, sd_open_flag = 0, sd_ref_count = 0, sd_bufsz = bufsz, sd_rx = None, sd_tx = False,
      sd_rx_indicate = False, sd_rxne_it = False, sd_pending = [], sd_sent = []\<rparr>"

definition rt_hw_usart_init :: serial where
  "rt_hw_usart_init = rt_hw_serial_register RT_SERIAL_RB_BUFSZ (FLAG_RDWR OR FLAG_INT_RX OR FLAG_INT_TX)"

definition serial_device_open :: "bool \<Rightarrow> bool \<Rightarrow> u16 \<Rightarrow> serial \<Rightarrow> (int \<times> serial) res" where
  "serial_device_open m_rx m_tx oflag s =
     (let (r, s) = (if sd_flag s AND FLAG_ACTIVATED = 0 then rt_serial_init s else (RT_EOK, s)) in
      if r \<noteq> RT_EOK then Inr (r, s)
      else
        let s = s\<lparr>sd_flag := sd_flag s OR FLAG_ACTIVATED\<rparr> in
        if sd_flag s AND FLAG_STANDALONE \<noteq> 0 \<and> sd_open_flag s AND OFLAG_OPEN \<noteq> 0 then Inr (- RT_EBUSY, s)
        else bindE (rt_serial_open m_rx m_tx oflag s) (\<lambda>(r, s).
          if r = RT_EOK \<or> r = - RT_ENOSYS
          then let s = s\<lparr>sd_open_flag := sd_open_flag s OR OFLAG_OPEN, sd_ref_count := sd_ref_count s + 1\<rparr> in
            bindE (assertE (sd_ref_count s \<noteq> 0)) (\<lambda>_. Inr (r, s))
          else Inr (r, s)))"

definition serial_device_close :: "serial \<Rightarrow> (int \<times> serial) res" where
  "serial_device_close s =
     (if sd_ref_count s = 0 then Inr (- RT_ERROR, s)
      else
        let s = s\<lparr>sd_ref_count := sd_ref_count s - 1\<rparr> in
        if sd_ref_count s \<noteq> 0 then Inr (RT_EOK, s)
        else bindE (rt_serial_close s) (\<lambda>(r, s).
          Inr (r, if r = RT_EOK \<or> r = - RT_ENOSYS then s\<lparr>sd_open_flag := 0\<rparr> else s)))"

definition serial_device_read :: "nat \<Rightarrow> serial \<Rightarrow> (u8 list \<times> serial) res" where
  "serial_device_read n s = (if sd_ref_count s = 0 then Inr ([], s) else rt_serial_read n s)"

definition serial_set_rx_indicate :: "bool \<Rightarrow> serial \<Rightarrow> serial" where
  "serial_set_rx_indicate cb s = s\<lparr>sd_rx_indicate := cb\<rparr>"

section \<open>The console\<close>

text \<open>\<open>con_devs\<close> are the serial devices by their name, \<open>con_console\<close> is \<open>_console_device\<close> of \<open>kservice.c\<close>,
  \<open>con_device\<close> is \<open>shell->device\<close>. \<open>con_taking\<close>: the shell thread has read nothing and is about to take the
  semaphore. \<open>con_world\<close> is what the commands act on.\<close>

record 'w console =
  con_devs :: "string \<Rightarrow> serial option"
  con_console :: "string option"
  con_device :: "string option"
  con_shell :: finsh_shell
  con_sem :: "u16 \<times> nat list"
  con_taking :: bool
  con_world :: 'w

text \<open>The device that the code has a pointer to.\<close>

definition dev_at :: "string option \<Rightarrow> 'w console \<Rightarrow> serial res" where
  "dev_at d c = (case d of None \<Rightarrow> Inl Assert_Failed
     | Some n \<Rightarrow> (case con_devs c n of None \<Rightarrow> Inl Assert_Failed | Some s \<Rightarrow> Inr s))"

definition set_dev :: "string \<Rightarrow> serial \<Rightarrow> 'w console \<Rightarrow> 'w console" where
  "set_dev n s c = c\<lparr>con_devs := (con_devs c)(n \<mapsto> s)\<rparr>"

text \<open>The result of the open is not looked at.\<close>

definition rt_console_set_device :: "bool \<Rightarrow> string \<Rightarrow> 'w console \<Rightarrow> (string option \<times> 'w console) res" where
  "rt_console_set_device m name c =
     (let old_device = con_console c in
      if con_devs c name = None then Inr (old_device, c)
      else bindE
        (case old_device of None \<Rightarrow> Inr c
         | Some old \<Rightarrow> bindE (dev_at (Some old) c) (\<lambda>s. bindE (serial_device_close s) (\<lambda>(_, s). Inr (set_dev old s c)))) (\<lambda>c.
        bindE (dev_at (Some name) c) (\<lambda>s.
        bindE (serial_device_open m m (FLAG_RDWR OR FLAG_STREAM) s) (\<lambda>(_, s).
        Inr (old_device, (set_dev name s c)\<lparr>con_console := Some name\<rparr>)))))"

definition finsh_set_device :: "bool \<Rightarrow> string \<Rightarrow> 'w console \<Rightarrow> 'w console res" where
  "finsh_set_device m device_name c = (case con_devs c device_name of
     None \<Rightarrow> Inr c
   | Some d \<Rightarrow>
       if con_device c = Some device_name then Inr c
       else bindE (serial_device_open m m (FLAG_RDWR OR FLAG_INT_RX OR FLAG_STREAM) d) (\<lambda>(r, d).
         let c = set_dev device_name d c in
         if r = RT_EOK
         then bindE
           (case con_device c of None \<Rightarrow> Inr c
            | Some old \<Rightarrow> bindE (dev_at (Some old) c) (\<lambda>s. bindE (serial_device_close s) (\<lambda>(_, s).
                Inr (set_dev old (serial_set_rx_indicate False s) c)))) (\<lambda>c.
           let c = c\<lparr>con_shell := (con_shell c)\<lparr>sh_line := empty_line, sh_line_position := 0, sh_line_curpos := 0\<rparr>,
                     con_device := Some device_name\<rparr> in
           bindE (dev_at (Some device_name) c) (\<lambda>s. Inr (set_dev device_name (serial_set_rx_indicate True s) c)))
         else Inr c))"

definition finsh_rx_ind :: "'w console \<Rightarrow> 'w console" where
  "finsh_rx_ind c = (let (_, sem) = sem_spec_release (con_sem c) in c\<lparr>con_sem := sem\<rparr>)"

text \<open>The shell thread up to its loop.\<close>

definition finsh_entry :: "bool \<Rightarrow> 'w console \<Rightarrow> 'w console res" where
  "finsh_entry m c =
     (if con_device c = None
      then case con_console c of None \<Rightarrow> Inr c | Some console \<Rightarrow> finsh_set_device m console c
      else Inr c)"

text \<open>One step of the shell thread: a read of one character in \<open>finsh_getchar\<close>, with what its key does
  when there is one, or the take of the semaphore. After the take the thread reads again, at once or when
  the semaphore is released. While it waits it makes no step.\<close>

definition finsh_turn ::
  "'f finsh_syscall list \<Rightarrow> ('f \<Rightarrow> string list \<Rightarrow> 'w \<Rightarrow> (int \<times> 'w) res) \<Rightarrow> 'w console \<Rightarrow> 'w console res" where
  "finsh_turn tab run c =
     (if snd (con_sem c) \<noteq> [] then Inr c
      else if con_taking c
      then let (_, sem) = sem_spec_take (\<lambda>ws. ws @ [0]) (con_sem c) in Inr (c\<lparr>con_sem := sem, con_taking := False\<rparr>)
      else bindE (dev_at (con_device c) c) (\<lambda>s.
        bindE (serial_device_read 1 s) (\<lambda>(data, s).
        let c = set_dev (the (con_device c)) s c in
        case data of
          [ch] \<Rightarrow> bindE (finsh_key tab run (char_of (unat ch)) (con_shell c) (con_world c)) (\<lambda>(sh, w).
            Inr (c\<lparr>con_shell := sh, con_world := w\<rparr>))
        | _ \<Rightarrow> Inr (c\<lparr>con_taking := True\<rparr>))))"

text \<open>The interrupt of the UART \<open>name\<close>, which has received \<open>bs\<close>.\<close>

definition uart_interrupt :: "string \<Rightarrow> u8 list \<Rightarrow> 'w console \<Rightarrow> 'w console res" where
  "uart_interrupt name bs c =
     bindE (dev_at (Some name) c) (\<lambda>s.
     bindE (uart_isr (s\<lparr>sd_pending := sd_pending s @ bs\<rparr>)) (\<lambda>(s, ind).
     let c = set_dev name s c in
     Inr (if ind = None then c else finsh_rx_ind c)))"

datatype con_event = Uart_Rx "u8 list" | Shell_Turn

fun con_run ::
  "'f finsh_syscall list \<Rightarrow> ('f \<Rightarrow> string list \<Rightarrow> 'w \<Rightarrow> (int \<times> 'w) res) \<Rightarrow> string \<Rightarrow> con_event list
   \<Rightarrow> 'w console \<Rightarrow> 'w console res" where
  "con_run tab run name [] c = Inr c"
| "con_run tab run name (Uart_Rx bs # es) c = bindE (uart_interrupt name bs c) (con_run tab run name es)"
| "con_run tab run name (Shell_Turn # es) c = bindE (finsh_turn tab run c) (con_run tab run name es)"

text \<open>The start: no device is open, the console is set, and the shell takes it over.\<close>

definition console_start :: "string \<Rightarrow> (string \<Rightarrow> serial option) \<Rightarrow> 'w \<Rightarrow> 'w console res" where
  "console_start name devs w =
     bindE (rt_console_set_device True name
       \<lparr>con_devs = devs, con_console = None, con_device = None, con_shell = finsh_shell_init, con_sem = (0, []),
        con_taking = False, con_world = w\<rparr>) (\<lambda>(_, c). finsh_entry True c)"

end
