(* ===== verification/Serial_Facts.thy ===== *)
theory Serial_Facts
  imports Serial Ringbuffer_Facts
begin

text \<open>
  The software FIFO of the serial driver is a queue of at most \<open>bufsz - 1\<close> bytes that forgets its oldest
  byte when it is full. The locale is the contract of such a queue; what a client gets of it does not
  depend on the driver.
\<close>

section \<open>Queues that forget\<close>

definition latest :: "nat \<Rightarrow> 'a list \<Rightarrow> 'a list" where
  "latest n xs = drop (length xs - n) xs"

lemma latest_all [simp]: "length xs \<le> n \<Longrightarrow> latest n xs = xs"
  by (simp add: latest_def)

lemma length_latest [simp]: "length (latest n xs) = min n (length xs)"
  by (simp add: latest_def)

lemma latest_append: "latest n (latest n xs @ ys) = latest n (xs @ ys)"
proof (cases "length xs \<le> n")
  case False
  then have "length xs - n + (n + length ys - n) = length xs + length ys - n" by simp
  moreover have "drop (length ys) (drop (length xs - n) xs @ ys) = drop (length xs + length ys - n) (xs @ ys)"
    using False by (simp add: add.commute)
  ultimately show ?thesis using False by (simp add: latest_def)
qed simp

locale lossy_queue =
  fixes put :: "'a \<Rightarrow> 's \<Rightarrow> 's res"
    and get :: "'s \<Rightarrow> ('a option \<times> 's) res"
    and ok :: "'s \<Rightarrow> bool"
    and held :: "'s \<Rightarrow> 'a list"
    and cap :: nat
  assumes put_last: "ok s \<Longrightarrow> \<exists>s'. put x s = Inr s' \<and> ok s' \<and> held s' = latest cap (held s @ [x])"
    and held_le: "ok s \<Longrightarrow> length (held s) \<le> cap"
    and get_none: "ok s \<Longrightarrow> held s = [] \<Longrightarrow> get s = Inr (None, s)"
    and get_first: "ok s \<Longrightarrow> held s = x # xs \<Longrightarrow> \<exists>s'. get s = Inr (Some x, s') \<and> ok s' \<and> held s' = xs"
begin

text \<open>Many puts, and up to \<open>n\<close> gets.\<close>

fun puts :: "'a list \<Rightarrow> 's \<Rightarrow> 's res" where
  "puts [] s = Inr s"
| "puts (x # xs) s = bindE (put x s) (puts xs)"

fun gets :: "nat \<Rightarrow> 's \<Rightarrow> ('a list \<times> 's) res" where
  "gets 0 s = Inr ([], s)"
| "gets (Suc n) s = bindE (get s) (\<lambda>(r, s). case r of
     None \<Rightarrow> Inr ([], s)
   | Some x \<Rightarrow> bindE (gets n s) (\<lambda>(xs, s). Inr (x # xs, s)))"

lemma puts_latest: "ok s \<Longrightarrow> \<exists>s'. puts xs s = Inr s' \<and> ok s' \<and> held s' = latest cap (held s @ xs)"
proof (induction xs arbitrary: s)
  case Nil
  then show ?case using held_le[of s] by simp
next
  case (Cons x xs)
  obtain s1 where s1: "put x s = Inr s1" "ok s1" "held s1 = latest cap (held s @ [x])" using put_last[OF Cons.prems] by blast
  obtain s2 where s2: "puts xs s1 = Inr s2" "ok s2" "held s2 = latest cap (held s1 @ xs)" using Cons.IH[OF s1(2)] by blast
  have "held s2 = latest cap (held s @ x # xs)" unfolding s2(3) s1(3) latest_append by simp
  then show ?case using s1 s2 by simp
qed

lemma gets_take: "ok s \<Longrightarrow> \<exists>s'. gets n s = Inr (take n (held s), s') \<and> ok s' \<and> held s' = drop n (held s)"
proof (induction n arbitrary: s)
  case (Suc n)
  show ?case
  proof (cases "held s")
    case Nil
    then show ?thesis using get_none[OF Suc.prems] Suc.prems by simp
  next
    case (Cons x xs)
    then obtain s1 where s1: "get s = Inr (Some x, s1)" "ok s1" "held s1 = xs" using get_first Suc.prems by blast
    then show ?thesis using Suc.IH[OF s1(2)] Cons by auto
  qed
qed simp

end

section \<open>The FIFO of the driver\<close>

definition fifo_count :: "u16 \<Rightarrow> rt_serial_rx_fifo \<Rightarrow> nat" where
  "fifo_count n f = (unat (rx_put_index f) + unat n - unat (rx_get_index f)) mod unat n"

definition fifo_data :: "u16 \<Rightarrow> rt_serial_rx_fifo \<Rightarrow> u8 list" where
  "fifo_data n f = ring (rx_buffer f) (unat n) (unat (rx_get_index f)) (fifo_count n f)"

definition fifo_ok :: "u16 \<Rightarrow> rt_serial_rx_fifo \<Rightarrow> bool" where
  "fifo_ok n f \<longleftrightarrow> 2 \<le> n \<and> length (rx_buffer f) = unat n \<and> rx_put_index f < n \<and> rx_get_index f < n
     \<and> (rx_put_index f = rx_get_index f \<longrightarrow> \<not> rx_is_full f)"

lemma count_mod:
  fixes a k n :: nat
  assumes "a < n" "k < n"
  shows "((a + k) mod n + n - a) mod n = k"
proof (cases "a + k < n")
  case True
  then show ?thesis using assms by simp
next
  case False
  then have "(a + k) mod n = a + k - n" using assms by (simp add: mod_if)
  then show ?thesis using assms False by simp
qed

lemma put_from_get:
  fixes a b n :: nat
  assumes "a < n" "b < n"
  shows "b = (a + (b + n - a) mod n) mod n"
proof -
  have "(a + (b + n - a) mod n) mod n = (a + (b + n - a)) mod n" by (simp add: mod_add_right_eq)
  then show ?thesis using assms by simp
qed

lemma mod_add_one_left:
  fixes g k n :: nat
  assumes "0 < k"
  shows "((g + 1) mod n + (k - 1)) mod n = (g + k) mod n"
proof -
  have "((g + 1) mod n + (k - 1)) mod n = (g + 1 + (k - 1)) mod n" by (rule mod_add_left_eq)
  also have "g + 1 + (k - 1) = g + k" using assms by simp
  finally show ?thesis .
qed

lemma new_fifo_ok: "2 \<le> n \<Longrightarrow> fifo_ok n (new_fifo n) \<and> fifo_data n (new_fifo n) = []"
  by (auto simp: fifo_ok_def new_fifo_def fifo_data_def fifo_count_def word_le_nat_alt word_less_nat_alt)

lemma fifo_put_ok:
  assumes "fifo_ok n f"
  shows "\<exists>f'. fifo_put n ch f = Inr f' \<and> fifo_ok n f' \<and> fifo_data n f' = latest (unat n - 1) (fifo_data n f @ [ch])"
proof -
  define N g k where "N = unat n" and "g = unat (rx_get_index f)" and "k = fifo_count n f"
  have b: "2 \<le> N" "g < N" "unat (rx_put_index f) < N" "length (rx_buffer f) = N"
    using assms by (simp_all add: fifo_ok_def N_def g_def word_le_nat_alt word_less_nat_alt)
  have k: "k < N" using b by (simp add: k_def fifo_count_def N_def[symmetric])
  have p: "unat (rx_put_index f) = (g + k) mod N"
    unfolding k_def fifo_count_def g_def N_def using put_from_get b by (simp add: g_def N_def)
  define q where "q = (rx_buffer f)[unat (rx_put_index f) := ch]"
  define p1 where "p1 = (if rx_put_index f + 1 \<ge> n then 0 else rx_put_index f + 1)"
  define g1 where "g1 = (if rx_get_index f + 1 \<ge> n then 0 else rx_get_index f + 1)"
  have lt: "rx_put_index f < n" "rx_get_index f < n" using assms by (simp_all add: fifo_ok_def)
  have p1: "unat p1 = (g + (k + 1)) mod N" "p1 < n"
    using ring_next[OF lt(1)] ring_next_less[OF lt(1)] p by (simp_all add: p1_def N_def mod_Suc_eq)
  have g1: "unat g1 = (g + 1) mod N" "g1 < n"
    using ring_next[OF lt(2)] ring_next_less[OF lt(2)] by (simp_all add: g1_def N_def g_def)
  have q: "ring q N g (k + 1) = fifo_data n f @ [ch]"
    using ring_append[of k "[ch]" N q g "rx_buffer f"] k b p by (simp add: q_def fifo_data_def N_def g_def k_def)
  have put: "fifo_put n ch f = Inr (if p1 = rx_get_index f
      then f\<lparr>rx_buffer := q, rx_put_index := p1, rx_get_index := g1, rx_is_full := True\<rparr>
      else f\<lparr>rx_buffer := q, rx_put_index := p1\<rparr>)"
    using b by (simp add: fifo_put_def arr_set_in q_def p1_def g1_def Let_def)
  have ld: "length (fifo_data n f) = k" by (simp add: fifo_data_def k_def)
  have eq: "p1 = rx_get_index f \<longleftrightarrow> k + 1 = N"
  proof -
    have "p1 = rx_get_index f \<longleftrightarrow> (g + (k + 1)) mod N = g" unfolding g_def p1(1)[symmetric, unfolded g_def] by (rule word_unat_eq_iff)
    also have "\<dots> \<longleftrightarrow> k + 1 = N"
    proof (cases "k + 1 = N")
      case False
      then have "(g + 0) mod N \<noteq> (g + (k + 1)) mod N" using k b by (intro mod_neq_within) simp_all
      then show ?thesis using False b by simp
    qed (use b in simp)
    finally show ?thesis .
  qed
  show ?thesis
  proof (cases "k + 1 = N")
    case True
    define f' where "f' = f\<lparr>rx_buffer := q, rx_put_index := p1, rx_get_index := g1, rx_is_full := True\<rparr>"
    have pg: "unat p1 = g" using eq True by (simp add: g_def)
    have c: "fifo_count n f' = N - 1"
    proof -
      have "unat p1 = ((g + 1) mod N + (N - 1)) mod N" unfolding p1(1) True using b by (intro mod_add_one_left[symmetric]) simp
      then show ?thesis using count_mod[of "(g + 1) mod N" N "N - 1"] b g1 by (simp add: fifo_count_def f'_def N_def)
    qed
    have "fifo_data n f' = drop 1 (ring q N g (k + 1))"
      unfolding ring_drop fifo_data_def c using True g1(1) by (simp add: f'_def N_def)
    also have "\<dots> = latest (N - 1) (fifo_data n f @ [ch])" unfolding q latest_def using ld True by simp
    finally have d: "fifo_data n f' = latest (unat n - 1) (fifo_data n f @ [ch])" by (simp add: N_def)
    have "p1 \<noteq> g1"
    proof
      assume "p1 = g1"
      then have "(g + 0) mod N = (g + 1) mod N" using pg g1(1) b by simp
      then show False using mod_neq_within[of 0 N 1 g] b by simp
    qed
    then have "fifo_ok n f'" using assms b p1(2) g1(2) by (simp add: fifo_ok_def f'_def q_def)
    then show ?thesis using put eq True d by (auto simp: f'_def)
  next
    case False
    define f' where "f' = f\<lparr>rx_buffer := q, rx_put_index := p1\<rparr>"
    have c: "fifo_count n f' = k + 1"
      using count_mod[of g N "k + 1"] b k False p1(1) by (simp add: fifo_count_def f'_def N_def g_def)
    have "fifo_data n f' = fifo_data n f @ [ch]" unfolding fifo_data_def[of n f'] c using q by (simp add: f'_def N_def g_def)
    then have d: "fifo_data n f' = latest (unat n - 1) (fifo_data n f @ [ch])" using ld k False by (simp add: N_def)
    have "fifo_ok n f'" using assms b p1(2) eq False by (simp add: fifo_ok_def f'_def q_def)
    then show ?thesis using put eq False d by (auto simp: f'_def)
  qed
qed

lemma fifo_get_ok:
  assumes "fifo_ok n f"
  shows "fifo_data n f = [] \<Longrightarrow> fifo_get n f = Inr (None, f)"
    and "fifo_data n f = x # xs \<Longrightarrow> \<exists>f'. fifo_get n f = Inr (Some x, f') \<and> fifo_ok n f' \<and> fifo_data n f' = xs"
proof -
  define N g k where "N = unat n" and "g = unat (rx_get_index f)" and "k = fifo_count n f"
  have b: "2 \<le> N" "g < N" "unat (rx_put_index f) < N" "length (rx_buffer f) = N"
    using assms by (simp_all add: fifo_ok_def N_def g_def word_le_nat_alt word_less_nat_alt)
  have k: "k < N" using b by (simp add: k_def fifo_count_def N_def[symmetric])
  have p: "unat (rx_put_index f) = (g + k) mod N"
    unfolding k_def fifo_count_def g_def N_def using put_from_get b by (simp add: g_def N_def)
  have lt: "rx_get_index f < n" using assms by (simp add: fifo_ok_def)
  have ld: "length (fifo_data n f) = k" by (simp add: fifo_data_def k_def)
  have eq: "rx_get_index f = rx_put_index f \<longleftrightarrow> k = 0"
  proof -
    have "rx_get_index f = rx_put_index f \<longleftrightarrow> g = (g + k) mod N" unfolding g_def p[symmetric, unfolded g_def] by (rule word_unat_eq_iff)
    also have "\<dots> \<longleftrightarrow> k = 0"
    proof (cases "k = 0")
      case False
      then have "(g + 0) mod N \<noteq> (g + k) mod N" using k b by (intro mod_neq_within) simp_all
      then show ?thesis using False b by simp
    qed (use b in simp)
    finally show ?thesis .
  qed
  show "fifo_data n f = [] \<Longrightarrow> fifo_get n f = Inr (None, f)"
    using eq ld assms by (auto simp: fifo_get_def fifo_ok_def)
  assume d: "fifo_data n f = x # xs"
  define g1 where "g1 = (if rx_get_index f + 1 \<ge> n then 0 else rx_get_index f + 1)"
  define f' where "f' = f\<lparr>rx_get_index := g1, rx_is_full := False\<rparr>"
  have k0: "0 < k" using d ld by auto
  have g1: "unat g1 = (g + 1) mod N" "g1 < n"
    using ring_next[OF lt] ring_next_less[OF lt] by (simp_all add: g1_def N_def g_def)
  have x: "x = rx_buffer f ! g"
    using d k0 b ring_nth[of 0 k "rx_buffer f" N g] by (simp add: fifo_data_def N_def g_def k_def)
  have "unat (rx_put_index f) = ((g + 1) mod N + (k - 1)) mod N" using p mod_add_one_left[OF k0] by simp
  then have c: "fifo_count n f' = k - 1"
    using count_mod[of "(g + 1) mod N" N "k - 1"] b k g1 by (simp add: fifo_count_def f'_def N_def)
  have "fifo_data n f' = drop 1 (fifo_data n f)"
    unfolding fifo_data_def[of n f] ring_drop unfolding fifo_data_def c using g1(1) by (simp add: f'_def N_def g_def k_def)
  then have d': "fifo_data n f' = xs" using d by simp
  have "fifo_get n f = Inr (Some x, f')"
    using eq k0 b x by (simp add: fifo_get_def arr_get_in f'_def g1_def g_def Let_def)
  moreover have "fifo_ok n f'" using assms g1(2) by (simp add: fifo_ok_def f'_def)
  ultimately show "\<exists>f'. fifo_get n f = Inr (Some x, f') \<and> fifo_ok n f' \<and> fifo_data n f' = xs" using d' by blast
qed

lemma fifo_data_le: "fifo_ok n f \<Longrightarrow> length (fifo_data n f) \<le> unat n - 1"
proof -
  assume "fifo_ok n f"
  then have "0 < unat n" by (simp add: fifo_ok_def word_le_nat_alt)
  then have "fifo_count n f < unat n" unfolding fifo_count_def by (rule mod_less_divisor)
  then show ?thesis by (simp add: fifo_data_def)
qed

interpretation rxq: lossy_queue "fifo_put n" "fifo_get n" "fifo_ok n" "fifo_data n" "unat n - 1" for n
  by unfold_locales (rule fifo_put_ok, assumption, rule fifo_data_le, assumption, rule fifo_get_ok(1), assumption+,
    rule fifo_get_ok(2), assumption+)

section \<open>The device\<close>

lemma isr_loop_puts: "isr_loop n chs = rxq.puts n chs"
  by (induction chs) (rule ext, simp)+

lemma int_rx_loop_gets: "int_rx_loop k n = rxq.gets n k"
proof (induction k)
  case (Suc k)
  show ?case by (rule ext) (unfold int_rx_loop.simps rxq.gets.simps Suc.IH, rule refl)
qed (rule ext, simp)

text \<open>What the interrupt tells the client is the length of the data.\<close>

lemma fifo_length_data: "fifo_ok n f \<Longrightarrow> fifo_length n f = int (length (fifo_data n f))"
proof -
  assume "fifo_ok n f"
  define i j N where "i = unat (rx_put_index f)" and "j = unat (rx_get_index f)" and "N = unat n"
  have u: "uint (rx_put_index f) = int i" "uint (rx_get_index f) = int j" "uint n = int N"
    by (simp_all add: i_def j_def N_def)
  have b: "i < N" "j < N" using \<open>fifo_ok n f\<close> by (simp_all add: fifo_ok_def word_less_nat_alt i_def j_def N_def)
  have l: "fifo_length n f = (if j \<le> i then int i - int j else int N - (int j - int i))"
    unfolding fifo_length_def u by (simp add: word_le_nat_alt i_def j_def)
  have d: "length (fifo_data n f) = (i + N - j) mod N" by (simp add: fifo_data_def fifo_count_def i_def j_def N_def)
  show ?thesis
  proof (cases "j \<le> i")
    case True
    then have "i + N - j = (i - j) + N" by simp
    then have "(i + N - j) mod N = i - j" using b by (simp only: mod_add_self2) simp
    then show ?thesis using True l d by simp
  next
    case False
    then show ?thesis using b l d by simp
  qed
qed

definition serial_held :: "serial \<Rightarrow> u8 list" where
  "serial_held s = (case sd_rx s of None \<Rightarrow> [] | Some f \<Rightarrow> fifo_data (sd_bufsz s) f)"

text \<open>A device that receives by interrupts.\<close>

definition serial_ok :: "serial \<Rightarrow> bool" where
  "serial_ok s \<longleftrightarrow> (case sd_rx s of None \<Rightarrow> False | Some f \<Rightarrow> fifo_ok (sd_bufsz s) f)
     \<and> sd_open_flag s AND FLAG_INT_RX \<noteq> 0 \<and> sd_rxne_it s \<and> sd_pending s = []"

lemma uart_isr_latest:
  assumes "serial_ok s"
  obtains f where
    "uart_isr (s\<lparr>sd_pending := bs\<rparr>) =
       Inr (s\<lparr>sd_rx := Some f\<rparr>, if bs \<noteq> [] \<and> sd_rx_indicate s then Some (int (length (fifo_data (sd_bufsz s) f))) else None)"
    "serial_ok (s\<lparr>sd_rx := Some f\<rparr>)" "fifo_data (sd_bufsz s) f = latest (unat (sd_bufsz s) - 1) (serial_held s @ bs)"
proof -
  obtain f where f: "sd_rx s = Some f" "fifo_ok (sd_bufsz s) f" using assms by (auto simp: serial_ok_def split: option.splits)
  obtain f' where f': "isr_loop (sd_bufsz s) bs f = Inr f'" "fifo_ok (sd_bufsz s) f'"
    "fifo_data (sd_bufsz s) f' = latest (unat (sd_bufsz s) - 1) (fifo_data (sd_bufsz s) f @ bs)"
    using rxq.puts_latest[OF f(2)] unfolding isr_loop_puts by blast
  have b: "2 \<le> unat (sd_bufsz s)" using f(2) by (simp add: fifo_ok_def word_le_nat_alt)
  show thesis
  proof (rule that[of f'])
    show "uart_isr (s\<lparr>sd_pending := bs\<rparr>) =
       Inr (s\<lparr>sd_rx := Some f'\<rparr>, if bs \<noteq> [] \<and> sd_rx_indicate s then Some (int (length (fifo_data (sd_bufsz s) f'))) else None)"
    proof (cases "bs = []")
      case True
      then have "f' = f" "sd_pending s = []" using f' assms by (simp_all add: serial_ok_def)
      then show ?thesis using True f by (simp add: uart_isr_def)
    next
      case False
      have "length (fifo_data (sd_bufsz s) f') \<noteq> 0" unfolding f'(3) using False b by simp
      then show ?thesis using False f f' assms
        by (simp add: uart_isr_def rt_hw_serial_isr_def serial_ok_def fifo_length_data Let_def)
    qed
  qed (use assms f f' in \<open>simp_all add: serial_ok_def serial_held_def\<close>)
qed

lemma serial_read_take:
  assumes "serial_ok s"
  obtains f where "rt_serial_read n s = Inr (take n (serial_held s), s\<lparr>sd_rx := Some f\<rparr>)"
    "serial_ok (s\<lparr>sd_rx := Some f\<rparr>)" "fifo_data (sd_bufsz s) f = drop n (serial_held s)"
proof -
  obtain f where f: "sd_rx s = Some f" "fifo_ok (sd_bufsz s) f" using assms by (auto simp: serial_ok_def split: option.splits)
  obtain f' where f': "int_rx_loop n (sd_bufsz s) f = Inr (take n (fifo_data (sd_bufsz s) f), f')"
    "fifo_ok (sd_bufsz s) f'" "fifo_data (sd_bufsz s) f' = drop n (fifo_data (sd_bufsz s) f)"
    using rxq.gets_take[OF f(2)] unfolding int_rx_loop_gets by blast
  have "rt_serial_read n s = Inr (take n (serial_held s), s\<lparr>sd_rx := Some f'\<rparr>)"
  proof (cases "n = 0")
    case True
    then have "f' = f" using f' by simp
    then show ?thesis using True f by (simp add: rt_serial_read_def)
  qed (use assms f f' in \<open>simp add: rt_serial_read_def serial_int_rx_def serial_ok_def serial_held_def\<close>)
  then show thesis using that[of f'] assms f f' by (simp add: serial_ok_def serial_held_def)
qed

end
