(* ===== verification/Console_Facts.thy ===== *)
theory Console_Facts
  imports Console Serial_Facts Editor_Facts
begin

text \<open>
  The steps of the UART and of the shell thread on the bytes between them: what has been received and not
  read, and how many steps the shell is away from its wait for the semaphore.
\<close>

section \<open>The invariant\<close>

definition unread :: "string \<Rightarrow> 'w console \<Rightarrow> u8 list" where
  "unread name c = (case con_devs c name of None \<Rightarrow> [] | Some s \<Rightarrow> serial_held s)"

definition waiting :: "'w console \<Rightarrow> bool" where
  "waiting c \<longleftrightarrow> snd (con_sem c) \<noteq> []"

definition device_ready :: "serial \<Rightarrow> bool" where
  "device_ready s \<longleftrightarrow> serial_ok s \<and> sd_bufsz s = 64 \<and> sd_ref_count s \<noteq> 0 \<and> sd_rx_indicate s"

text \<open>The shell only waits when there is nothing to read, and no wake-up is lost: when it is about to take
  the semaphore and there is something to read, the semaphore has a value.\<close>

definition console_ok :: "string \<Rightarrow> 'w console \<Rightarrow> bool" where
  "console_ok name c \<longleftrightarrow> con_device c = Some name
     \<and> (case con_devs c name of None \<Rightarrow> False | Some s \<Rightarrow> device_ready s)
     \<and> (waiting c \<longrightarrow> con_sem c = (0, [0]) \<and> unread name c = [] \<and> \<not> con_taking c)
     \<and> (con_taking c \<and> unread name c \<noteq> [] \<longrightarrow> fst (con_sem c) \<noteq> 0)"

text \<open>The steps to the wait.\<close>

definition steps_left :: "string \<Rightarrow> 'w console \<Rightarrow> nat" where
  "steps_left name c = (if waiting c then 0
     else length (unread name c) + 2 * unat (fst (con_sem c)) + (if con_taking c then 1 else 2))"

lemma console_okE:
  assumes "console_ok name c"
  obtains s where "con_device c = Some name" "con_devs c name = Some s" "serial_ok s" "sd_bufsz s = 64"
    "sd_ref_count s \<noteq> 0" "sd_rx_indicate s" "unread name c = serial_held s" "device_ready s"
  using assms by (auto simp: console_ok_def device_ready_def unread_def split: option.splits)

lemma console_okI:
  assumes "con_device c = Some name" "con_devs c name = Some s" "device_ready s"
    "snd (con_sem c) = [] \<or> con_sem c = (0, [0]) \<and> unread name c = [] \<and> \<not> con_taking c"
    "con_taking c \<Longrightarrow> unread name c \<noteq> [] \<Longrightarrow> fst (con_sem c) \<noteq> 0"
  shows "console_ok name c"
  using assms by (auto simp: console_ok_def waiting_def)

lemma frame [simp]:
  "console_ok name (c\<lparr>con_shell := sh, con_world := w\<rparr>) = console_ok name c"
  "unread name (c\<lparr>con_shell := sh, con_world := w\<rparr>) = unread name c"
  "steps_left name (c\<lparr>con_shell := sh, con_world := w\<rparr>) = steps_left name c"
  by (simp_all add: console_ok_def unread_def steps_left_def waiting_def)

lemma unat_pred: "v \<noteq> 0 \<Longrightarrow> unat (v - 1) = unat v - 1" for v :: u16
  by (subst unat_sub) (simp_all add: word_le_nat_alt unat_gt_0 Suc_le_eq)

lemma serial_held_rx: "serial_held (s\<lparr>sd_rx := Some f\<rparr>) = fifo_data (sd_bufsz s) f"
  by (simp add: serial_held_def)

section \<open>The interrupt\<close>

lemma interrupt_result:
  assumes "console_ok name c" "length (unread name c @ bs) \<le> 63"
  obtains s where "uart_interrupt name bs c = Inr (if bs = [] then set_dev name s c else finsh_rx_ind (set_dev name s c))"
    "device_ready s" "serial_held s = unread name c @ bs"
proof -
  obtain s where s: "con_device c = Some name" "con_devs c name = Some s" "serial_ok s" "sd_bufsz s = 64"
    "sd_ref_count s \<noteq> 0" "sd_rx_indicate s" "unread name c = serial_held s" "device_ready s" by (rule console_okE[OF assms(1)])
  obtain f where f: "uart_isr (s\<lparr>sd_pending := bs\<rparr>) =
       Inr (s\<lparr>sd_rx := Some f\<rparr>, if bs \<noteq> [] \<and> sd_rx_indicate s then Some (int (length (fifo_data (sd_bufsz s) f))) else None)"
    "serial_ok (s\<lparr>sd_rx := Some f\<rparr>)" "fifo_data (sd_bufsz s) f = latest (unat (sd_bufsz s) - 1) (serial_held s @ bs)"
    by (rule uart_isr_latest[OF s(3)])
  have p: "sd_pending s = []" using s(3) by (simp add: serial_ok_def)
  have "serial_held (s\<lparr>sd_rx := Some f\<rparr>) = unread name c @ bs" using f(3) s(4,7) assms(2) by (simp add: serial_held_rx)
  then show thesis using that[of "s\<lparr>sd_rx := Some f\<rparr>"] s f(1,2) p
    by (simp add: uart_interrupt_def dev_at_def device_ready_def Let_def)
qed

lemma set_dev_simps [simp]:
  "con_devs (set_dev name s c) name = Some s" "con_device (set_dev name s c) = con_device c"
  "con_shell (set_dev name s c) = con_shell c" "con_world (set_dev name s c) = con_world c"
  "con_sem (set_dev name s c) = con_sem c" "con_taking (set_dev name s c) = con_taking c"
  by (simp_all add: set_dev_def)

lemma interrupt_step:
  assumes "console_ok name c" "length (unread name c @ bs) \<le> 63" "unat (fst (con_sem c)) < 65535"
  shows "\<exists>c'. uart_interrupt name bs c = Inr c' \<and> console_ok name c' \<and> unread name c' = unread name c @ bs
    \<and> con_shell c' = con_shell c \<and> con_world c' = con_world c \<and> unat (fst (con_sem c')) \<le> unat (fst (con_sem c)) + 1
    \<and> steps_left name c' \<le> steps_left name c + length bs + 2
    \<and> (\<not> waiting c \<and> bs \<noteq> [] \<longrightarrow> con_sem c' = (fst (con_sem c) + 1, []) \<and> con_taking c' = con_taking c)"
proof -
  obtain s where s: "uart_interrupt name bs c = Inr (if bs = [] then set_dev name s c else finsh_rx_ind (set_dev name s c))"
    "device_ready s" "serial_held s = unread name c @ bs" by (rule interrupt_result[OF assms(1,2)])
  have dev: "con_device c = Some name" using assms(1) by (simp add: console_ok_def)
  define c1 where "c1 = set_dev name s c"
  obtain v ws where sem: "con_sem c = (v, ws)" by (cases "con_sem c")
  define c2 where "c2 = c1\<lparr>con_sem := (case ws of [] \<Rightarrow> (v + 1, []) | w # ws' \<Rightarrow> (v, ws'))\<rparr>"
  have ind: "finsh_rx_ind c1 = c2"
    by (cases ws) (simp_all add: finsh_rx_ind_def c1_def c2_def sem)
  have u1: "unread name c1 = unread name c @ bs" using s(3) by (simp add: unread_def c1_def)
  have u2: "unread name c2 = unread name c @ bs" using u1 by (simp add: unread_def c2_def)
  have v1: "v + 1 \<noteq> 0" "unat (v + 1) = unat v + 1" using u16_bound[of v] assms(3) sem
    by (simp_all add: unat_word_ariths unat_eq_zero[symmetric])
  show ?thesis
  proof (cases "bs = []")
    case True
    have "console_ok name c1"
      by (rule console_okI[OF _ _ s(2)]) (use assms(1) u1 True in \<open>auto simp: console_ok_def waiting_def c1_def\<close>)
    moreover have "steps_left name c1 = steps_left name c" using u1 True by (simp add: steps_left_def waiting_def c1_def)
    ultimately show ?thesis using s(1) u1 True by (simp add: c1_def)
  next
    case False
    have w: "ws = [] \<or> ws = [0] \<and> v = 0 \<and> unread name c = [] \<and> \<not> con_taking c"
      using assms(1) sem by (auto simp: console_ok_def waiting_def)
    have ok: "console_ok name c2"
      by (rule console_okI[OF _ _ s(2)]) (use w dev v1 in \<open>auto simp: c2_def c1_def\<close>)
    have st: "steps_left name c2 \<le> steps_left name c + length bs + 2" using w u2 v1 sem
      by (auto simp: steps_left_def waiting_def c2_def c1_def)
    have val: "unat (fst (con_sem c2)) \<le> unat (fst (con_sem c)) + 1"
      "\<not> waiting c \<longrightarrow> con_sem c2 = (fst (con_sem c) + 1, []) \<and> con_taking c2 = con_taking c"
      using w v1 sem by (auto simp: c2_def c1_def waiting_def)
    have "con_shell c2 = con_shell c" "con_world c2 = con_world c" by (simp_all add: c2_def c1_def)
    then show ?thesis using s(1) ind ok u2 st val False by (auto simp: c1_def)
  qed
qed

section \<open>The shell thread\<close>

definition key_chars :: "u8 list \<Rightarrow> string" where
  "key_chars bs = map (\<lambda>b. char_of (unat b)) bs"

lemma read_result:
  assumes "console_ok name c" "\<not> waiting c" "\<not> con_taking c"
  obtains s where "device_ready s" "serial_held s = drop 1 (unread name c)"
    "finsh_turn tab run c = (case unread name c of [] \<Rightarrow> Inr ((set_dev name s c)\<lparr>con_taking := True\<rparr>)
       | b # _ \<Rightarrow> bindE (finsh_keys tab run (key_chars [b]) (con_shell c) (con_world c)) (\<lambda>(sh, w).
           Inr ((set_dev name s c)\<lparr>con_shell := sh, con_world := w\<rparr>)))"
proof -
  obtain s where s: "con_device c = Some name" "con_devs c name = Some s" "serial_ok s" "sd_bufsz s = 64"
    "sd_ref_count s \<noteq> 0" "sd_rx_indicate s" "unread name c = serial_held s" "device_ready s" by (rule console_okE[OF assms(1)])
  obtain f where f: "rt_serial_read 1 s = Inr (take 1 (serial_held s), s\<lparr>sd_rx := Some f\<rparr>)"
    "serial_ok (s\<lparr>sd_rx := Some f\<rparr>)" "fifo_data (sd_bufsz s) f = drop 1 (serial_held s)"
    by (rule serial_read_take[OF s(3)])
  have "device_ready (s\<lparr>sd_rx := Some f\<rparr>)" using s f(2) by (simp add: device_ready_def)
  moreover have "finsh_turn tab run c = (case unread name c of [] \<Rightarrow> Inr ((set_dev name (s\<lparr>sd_rx := Some f\<rparr>) c)\<lparr>con_taking := True\<rparr>)
       | b # _ \<Rightarrow> bindE (finsh_keys tab run (key_chars [b]) (con_shell c) (con_world c)) (\<lambda>(sh, w).
           Inr ((set_dev name (s\<lparr>sd_rx := Some f\<rparr>) c)\<lparr>con_shell := sh, con_world := w\<rparr>)))"
  proof (cases "serial_held s")
    case Nil
    then show ?thesis using assms(2,3) s f(1)
      by (simp add: finsh_turn_def waiting_def dev_at_def serial_device_read_def Let_def)
  next
    case (Cons b q)
    then show ?thesis using assms(2,3) s f(1)
      by (cases "finsh_key tab run (char_of (unat b)) (con_shell c) (con_world c)")
        (auto simp: finsh_turn_def waiting_def dev_at_def serial_device_read_def Let_def key_chars_def)
  qed
  ultimately show thesis using that[of "s\<lparr>sd_rx := Some f\<rparr>"] f(3) s(7) by (simp add: serial_held_rx)
qed

lemma turn_step:
  fixes c :: "'w console"
  assumes "console_ok name c"
  shows "\<exists>ds (c' :: 'w console). unread name c = ds @ unread name c'
    \<and> finsh_turn tab run c = bindE (finsh_keys tab run (key_chars ds) (con_shell c) (con_world c)) (\<lambda>(sh, w).
        Inr (c'\<lparr>con_shell := sh, con_world := w\<rparr>))
    \<and> console_ok name c' \<and> unat (fst (con_sem c')) \<le> unat (fst (con_sem c)) \<and> steps_left name c' \<le> steps_left name c - 1"
proof -
  have dev: "con_device c = Some name" using assms by (simp add: console_ok_def)
  obtain s0 where s0: "con_devs c name = Some s0" "device_ready s0" using assms by (auto simp: console_ok_def split: option.splits)
  obtain v ws where sem: "con_sem c = (v, ws)" by (cases "con_sem c")
  have same: "c'\<lparr>con_shell := con_shell c, con_world := con_world c\<rparr> = c'"
    if "con_shell c' = con_shell c" "con_world c' = con_world c" for c' :: "'w console" using that by simp
  consider (Wait) "ws \<noteq> []" | (Take) "ws = []" "con_taking c" | (Read) "ws = []" "\<not> con_taking c" by blast
  then show ?thesis
  proof cases
    case Wait
    then have "finsh_turn tab run c = Inr c" "steps_left name c = 0"
      using sem by (simp_all add: finsh_turn_def steps_left_def waiting_def)
    then show ?thesis using assms same[of c] by (intro exI[of _ "[]"] exI[of _ c]) (simp add: key_chars_def)
  next
    case Take
    define c' where "c' = c\<lparr>con_sem := (if v > 0 then (v - 1, []) else (0, [0])), con_taking := False\<rparr>"
    have t: "finsh_turn tab run c = Inr c'" using Take sem
      by (auto simp: finsh_turn_def sem_spec_take_def c'_def word_gt_0)
    have u: "unread name c' = unread name c" by (simp add: unread_def c'_def)
    have v0: "v = 0 \<Longrightarrow> unread name c = []" using assms Take sem by (auto simp: console_ok_def)
    have "console_ok name c'"
      by (rule console_okI[OF _ _ s0(2)]) (use dev s0(1) u v0 in \<open>auto simp: c'_def word_gt_0\<close>)
    moreover have "steps_left name c' \<le> steps_left name c - 1 \<and> unat (fst (con_sem c')) \<le> unat (fst (con_sem c))"
    proof (cases "v = 0")
      case False
      then have "0 < unat v" "unat (v - 1) = unat v - 1" by (simp_all add: unat_gt_0 unat_pred)
      then show ?thesis using Take sem u False by (simp add: steps_left_def waiting_def c'_def word_gt_0)
    qed (simp add: steps_left_def waiting_def c'_def)
    ultimately show ?thesis using t u same[of c']
      by (intro exI[of _ "[]"] exI[of _ c']) (simp add: key_chars_def c'_def)
  next
    case Read
    have nw: "\<not> waiting c" using Read sem by (simp add: waiting_def)
    obtain s where s: "device_ready s" "serial_held s = drop 1 (unread name c)"
      "finsh_turn tab run c = (case unread name c of [] \<Rightarrow> Inr ((set_dev name s c)\<lparr>con_taking := True\<rparr>)
       | b # _ \<Rightarrow> bindE (finsh_keys tab run (key_chars [b]) (con_shell c) (con_world c)) (\<lambda>(sh, w).
           Inr ((set_dev name s c)\<lparr>con_shell := sh, con_world := w\<rparr>)))" by (rule read_result[OF assms nw Read(2)])
    have u1: "unread name (set_dev name s c) = drop 1 (unread name c)" using s(2) by (simp add: unread_def)
    show ?thesis
    proof (cases "unread name c")
      case Nil
      define c' where "c' = (set_dev name s c)\<lparr>con_taking := True\<rparr>"
      have u: "unread name c' = []" using u1 Nil by (simp add: unread_def c'_def)
      have "console_ok name c'"
        by (rule console_okI[OF _ _ s(1)]) (use dev u Read sem in \<open>simp_all add: c'_def\<close>)
      moreover have "steps_left name c' \<le> steps_left name c - 1" "con_sem c' = con_sem c"
        using Read sem u Nil by (simp_all add: steps_left_def waiting_def c'_def)
      ultimately show ?thesis using s(3) u Nil same[of c']
        by (intro exI[of _ "[]"] exI[of _ c']) (simp add: key_chars_def c'_def)
    next
      case (Cons b q)
      have "console_ok name (set_dev name s c)"
        by (rule console_okI[OF _ _ s(1)]) (use dev Read sem in simp_all)
      moreover have "steps_left name (set_dev name s c) \<le> steps_left name c - 1"
        using Read sem u1 Cons by (simp add: steps_left_def waiting_def)
      ultimately show ?thesis using s(3) u1 Cons by (intro exI[of _ "[b]"] exI[of _ "set_dev name s c"]) simp
    qed
  qed
qed

section \<open>Runs\<close>

fun received :: "con_event list \<Rightarrow> u8 list" where
  "received [] = []"
| "received (Uart_Rx bs # es) = bs @ received es"
| "received (Shell_Turn # es) = received es"

text \<open>Whenever bytes arrive there is room for them.\<close>

fun keeps_up ::
  "'f finsh_syscall list \<Rightarrow> ('f \<Rightarrow> string list \<Rightarrow> 'w \<Rightarrow> (int \<times> 'w) res) \<Rightarrow> string \<Rightarrow> con_event list \<Rightarrow> 'w console
   \<Rightarrow> bool" where
  "keeps_up tab run name [] c \<longleftrightarrow> True"
| "keeps_up tab run name (Uart_Rx bs # es) c \<longleftrightarrow> length (unread name c @ bs) \<le> 63
     \<and> (case uart_interrupt name bs c of Inl _ \<Rightarrow> True | Inr c \<Rightarrow> keeps_up tab run name es c)"
| "keeps_up tab run name (Shell_Turn # es) c \<longleftrightarrow>
     (case finsh_turn tab run c of Inl _ \<Rightarrow> True | Inr c \<Rightarrow> keeps_up tab run name es c)"

fun cost :: "con_event \<Rightarrow> nat" where
  "cost (Uart_Rx bs) = length bs + 2"
| "cost Shell_Turn = 0"

text \<open>The result \<open>r\<close> of a run from \<open>c\<close> in which the shell has done the keys \<open>ds\<close>, and \<open>rest\<close> is unread.\<close>

definition served ::
  "'f finsh_syscall list \<Rightarrow> ('f \<Rightarrow> string list \<Rightarrow> 'w \<Rightarrow> (int \<times> 'w) res) \<Rightarrow> string \<Rightarrow> 'w console \<Rightarrow> u8 list \<Rightarrow> u8 list
   \<Rightarrow> nat \<Rightarrow> 'w console res \<Rightarrow> bool" where
  "served tab run name c ds rest m r \<longleftrightarrow>
     (case finsh_keys tab run (key_chars ds) (con_shell c) (con_world c) of
        Inl e \<Rightarrow> r = Inl e
      | Inr (sh, w) \<Rightarrow> \<exists>c'. r = Inr c' \<and> con_shell c' = sh \<and> con_world c' = w \<and> console_ok name c'
          \<and> unread name c' = rest \<and> steps_left name c' \<le> m)"

lemma served_step:
  assumes "console_ok name c1" "unread name c = ds @ unread name c1"
    "\<And>sh w. \<exists>ds' rest. unread name c1 @ new = ds' @ rest \<and> served tab run name (c1\<lparr>con_shell := sh, con_world := w\<rparr>) ds' rest m
       (R (c1\<lparr>con_shell := sh, con_world := w\<rparr>))"
  shows "\<exists>ds' rest. unread name c @ new = ds' @ rest
    \<and> served tab run name c ds' rest m (bindE (bindE (finsh_keys tab run (key_chars ds) (con_shell c) (con_world c))
        (\<lambda>(sh, w). Inr (c1\<lparr>con_shell := sh, con_world := w\<rparr>))) R)"
proof (cases "finsh_keys tab run (key_chars ds) (con_shell c) (con_world c)")
  case (Inl e)
  then show ?thesis using assms(2)
    by (intro exI[of _ ds] exI[of _ "unread name c1 @ new"]) (simp add: served_def)
next
  case (Inr p)
  obtain sh w where p: "p = (sh, w)" by (cases p)
  define c2 where "c2 = c1\<lparr>con_shell := sh, con_world := w\<rparr>"
  obtain ds' rest where d: "unread name c1 @ new = ds' @ rest" "served tab run name c2 ds' rest m (R c2)"
    unfolding c2_def using assms(3) by blast
  have k: "finsh_keys tab run (key_chars (ds @ ds')) (con_shell c) (con_world c)
      = finsh_keys tab run (key_chars ds') (con_shell c2) (con_world c2)"
    using Inr p by (simp add: key_chars_def finsh_keys_append c2_def)
  have "served tab run name c (ds @ ds') rest m (R c2)" using d(2) unfolding served_def k .
  then show ?thesis using Inr p d(1) assms(2)
    by (intro exI[of _ "ds @ ds'"] exI[of _ rest]) (simp add: c2_def)
qed

lemma run_served:
  assumes "console_ok name c" "keeps_up tab run name es c" "unat (fst (con_sem c)) + length es < 65536"
  shows "\<exists>ds rest. unread name c @ received es = ds @ rest
    \<and> served tab run name c ds rest (steps_left name c + sum_list (map cost es)) (con_run tab run name es c)"
  using assms
proof (induction es arbitrary: c)
  case Nil
  then show ?case by (intro exI[of _ "[]"] exI[of _ "unread name c"]) (simp add: served_def key_chars_def)
next
  case (Cons e es)
  show ?case
  proof (cases e)
    case (Uart_Rx bs)
    have l: "length (unread name c @ bs) \<le> 63" "unat (fst (con_sem c)) < 65535" using Cons.prems(2,3) Uart_Rx by simp_all
    obtain c1 where c1: "uart_interrupt name bs c = Inr c1" "console_ok name c1" "unread name c1 = unread name c @ bs"
      "con_shell c1 = con_shell c" "con_world c1 = con_world c" "unat (fst (con_sem c1)) \<le> unat (fst (con_sem c)) + 1"
      "steps_left name c1 \<le> steps_left name c + length bs + 2" using interrupt_step[OF Cons.prems(1) l] by blast
    have "keeps_up tab run name es c1" "unat (fst (con_sem c1)) + length es < 65536" using Cons.prems(2,3) Uart_Rx c1 by simp_all
    then obtain ds rest where d: "unread name c1 @ received es = ds @ rest"
      "served tab run name c1 ds rest (steps_left name c1 + sum_list (map cost es)) (con_run tab run name es c1)"
      using Cons.IH[OF c1(2)] by blast
    have "served tab run name c ds rest (steps_left name c + sum_list (map cost (e # es))) (con_run tab run name (e # es) c)"
      using d(2) c1 Uart_Rx by (auto simp: served_def split: sum.splits)
    then show ?thesis using d(1) c1(3) Uart_Rx by auto
  next
    case Shell_Turn
    obtain ds c1 where c1: "unread name c = ds @ unread name c1"
      "finsh_turn tab run c = bindE (finsh_keys tab run (key_chars ds) (con_shell c) (con_world c)) (\<lambda>(sh, w).
        Inr (c1\<lparr>con_shell := sh, con_world := w\<rparr>))"
      "console_ok name c1" "unat (fst (con_sem c1)) \<le> unat (fst (con_sem c))" "steps_left name c1 \<le> steps_left name c - 1"
      using turn_step[OF Cons.prems(1)] by blast
    show ?thesis
    proof (cases "finsh_turn tab run c")
      case (Inl x)
      then have "finsh_keys tab run (key_chars ds) (con_shell c) (con_world c) = Inl x" using c1(2)
        by (cases "finsh_keys tab run (key_chars ds) (con_shell c) (con_world c)") auto
      then show ?thesis using Inl Shell_Turn c1(1)
        by (intro exI[of _ ds] exI[of _ "unread name c1 @ received es"]) (simp add: served_def)
    next
      case (Inr c2)
      then obtain sh w where k: "finsh_keys tab run (key_chars ds) (con_shell c) (con_world c) = Inr (sh, w)"
        "c2 = c1\<lparr>con_shell := sh, con_world := w\<rparr>" using c1(2) by (auto simp: bindE_Inr_iff)
      have p: "console_ok name c2" "keeps_up tab run name es c2" "unat (fst (con_sem c2)) + length es < 65536"
        "steps_left name c2 \<le> steps_left name c" "unread name c2 = unread name c1"
        using Cons.prems(2,3) Shell_Turn Inr c1(3-5) k(2) by simp_all
      obtain ds' rest where d: "unread name c2 @ received es = ds' @ rest"
        "served tab run name c2 ds' rest (steps_left name c2 + sum_list (map cost es)) (con_run tab run name es c2)"
        using Cons.IH[OF p(1-3)] by blast
      have q: "finsh_keys tab run (key_chars (ds @ ds')) (con_shell c) (con_world c)
          = finsh_keys tab run (key_chars ds') (con_shell c2) (con_world c2)"
        using k by (simp add: key_chars_def finsh_keys_append)
      have "served tab run name c (ds @ ds') rest (steps_left name c + sum_list (map cost (e # es))) (con_run tab run name (e # es) c)"
        using d(2) p(4) Inr Shell_Turn unfolding served_def q by (auto split: sum.splits)
      then show ?thesis using d(1) c1(1) p(5) Shell_Turn by (intro exI[of _ "ds @ ds'"] exI[of _ rest]) simp
    qed
  qed
qed

lemma turns_served:
  assumes "console_ok name c"
  shows "\<exists>ds rest. unread name c = ds @ rest
    \<and> served tab run name c ds rest (steps_left name c - n) (con_run tab run name (replicate n Shell_Turn) c)"
  using assms
proof (induction n arbitrary: c)
  case 0
  then show ?case by (intro exI[of _ "[]"] exI[of _ "unread name c"]) (simp add: served_def key_chars_def)
next
  case (Suc n)
  obtain ds c1 where c1: "unread name c = ds @ unread name c1"
    "finsh_turn tab run c = bindE (finsh_keys tab run (key_chars ds) (con_shell c) (con_world c)) (\<lambda>(sh, w).
      Inr (c1\<lparr>con_shell := sh, con_world := w\<rparr>))"
    "console_ok name c1" "steps_left name c1 \<le> steps_left name c - 1" using turn_step[OF Suc.prems] by blast
  have "\<exists>ds' rest. unread name c1 @ [] = ds' @ rest \<and> served tab run name (c1\<lparr>con_shell := sh, con_world := w\<rparr>) ds' rest
      (steps_left name c - Suc n) (con_run tab run name (replicate n Shell_Turn) (c1\<lparr>con_shell := sh, con_world := w\<rparr>))" for sh w
  proof -
    obtain ds' rest where d: "unread name c1 = ds' @ rest" "served tab run name (c1\<lparr>con_shell := sh, con_world := w\<rparr>) ds' rest
      (steps_left name c1 - n) (con_run tab run name (replicate n Shell_Turn) (c1\<lparr>con_shell := sh, con_world := w\<rparr>))"
      using Suc.IH[of "c1\<lparr>con_shell := sh, con_world := w\<rparr>"] c1(3) by auto
    have "steps_left name c1 - n \<le> steps_left name c - Suc n" using c1(4) by simp
    then show ?thesis using d by (intro exI[of _ ds'] exI[of _ rest]) (fastforce simp: served_def split: sum.splits)
  qed
  from served_step[OF c1(3,1) this] show ?case using c1(2) by simp
qed

lemma con_run_append: "con_run tab run name (es @ fs) c = bindE (con_run tab run name es c) (con_run tab run name fs)"
proof (induction es arbitrary: c)
  case (Cons e es)
  have f: "con_run tab run name (es @ fs) = (\<lambda>c. bindE (con_run tab run name es c) (con_run tab run name fs))"
    using Cons.IH by (rule ext)
  show ?case by (cases e) (simp_all add: f bindE_assoc)
qed simp

text \<open>A step of a shell that has nothing to read.\<close>

lemma keeps_up_turn:
  assumes "console_ok name c" "unread name c = []"
    "\<And>c. console_ok name c \<Longrightarrow> unread name c = [] \<Longrightarrow> keeps_up tab run name es c"
  shows "keeps_up tab run name (Shell_Turn # es) c"
  using turn_step[OF assms(1), of tab run] assms(2,3) by (auto simp: key_chars_def)

end
