(* ===== verification/Console_Props.thy ===== *)
theory Console_Props
  imports Console_Facts Shell_App
begin

text \<open>
  What arrives at the UART arrives at the shell: the queue of the serial driver, the start of the console,
  and the shell thread that follows the interrupts.
\<close>

section \<open>The start\<close>

lemma console_start_ok:
  assumes "devs name = Some rt_hw_usart_init"
  shows "\<exists>c. console_start name devs w = Inr c \<and> console_ok name c \<and> unread name c = [] \<and> con_shell c = finsh_shell_init
    \<and> con_world c = w \<and> con_sem c = (0, []) \<and> \<not> con_taking c"
proof -
  define s where "s = rt_hw_usart_init\<lparr>sd_flag := 0x513, sd_open_flag := 0x14B, sd_ref_count := 2,
    sd_rx := Some (new_fifo 64), sd_rxne_it := True, sd_rx_indicate := True\<rparr>"
  define c where "c = \<lparr>con_devs = devs(name \<mapsto> s), con_console = Some name, con_device = Some name,
    con_shell = finsh_shell_init, con_sem = (0, []), con_taking = False, con_world = w\<rparr>"
  have o1: "serial_device_open True True (FLAG_RDWR OR FLAG_STREAM) rt_hw_usart_init
      = Inr (RT_EOK, rt_hw_usart_init\<lparr>sd_flag := 0x513, sd_open_flag := 0x4B, sd_ref_count := 1\<rparr>)"
    by (simp add: serial_device_open_def rt_hw_usart_init_def rt_hw_serial_register_def rt_serial_init_def
      rt_serial_open_def open_rx_def open_tx_def Let_def)
  have o2: "serial_device_open True True (FLAG_RDWR OR FLAG_INT_RX OR FLAG_STREAM)
      (rt_hw_usart_init\<lparr>sd_flag := 0x513, sd_open_flag := 0x4B, sd_ref_count := 1\<rparr>)
      = Inr (RT_EOK, s\<lparr>sd_rx_indicate := False\<rparr>)"
    by (simp add: s_def serial_device_open_def rt_hw_usart_init_def rt_hw_serial_register_def rt_serial_init_def
      rt_serial_open_def open_rx_def open_tx_def stm32_control_def Let_def)
  have "console_start name devs w = Inr c"
    using assms o1 o2 by (simp add: console_start_def rt_console_set_device_def dev_at_def set_dev_def finsh_entry_def
      finsh_set_device_def serial_set_rx_indicate_def Let_def c_def s_def finsh_shell_init_def)
  moreover have n: "fifo_ok 64 (new_fifo 64)" "fifo_data 64 (new_fifo 64) = []" using new_fifo_ok[of 64] by simp_all
  have r: "device_ready s" using n
    by (simp add: s_def rt_hw_usart_init_def rt_hw_serial_register_def device_ready_def serial_ok_def)
  moreover have "unread name c = []" using n
    by (simp add: c_def s_def rt_hw_usart_init_def rt_hw_serial_register_def unread_def serial_held_def)
  moreover have "console_ok name c" by (rule console_okI[OF _ _ r]) (simp_all add: c_def)
  ultimately show ?thesis by (intro exI[of _ c]) (simp add: c_def)
qed

section \<open>Opening twice\<close>

text \<open>A second open that does not ask for interrupts drops the flag, and the reads then poll the UART, while its
  interrupt goes on to fill the queue.\<close>

lemma reopen_polls:
  assumes "sd_rx s = Some f" "\<not> sd_tx s" "sd_open_flag s AND FLAG_STREAM = 0" "n \<noteq> 0"
  shows "\<exists>s'. rt_serial_open m_rx m_tx FLAG_RDWR s = Inr (RT_EOK, s') \<and> sd_rx s' = Some f \<and> sd_rxne_it s' = sd_rxne_it s
    \<and> rt_serial_read n s' = Inr (serial_poll_rx n s')"
  using assms by (simp add: rt_serial_open_def open_rx_def open_tx_def rt_serial_read_def Let_def)

section \<open>A lost wake-up\<close>

text \<open>A zero byte is a key that does nothing. Bytes that come while the shell is not waiting add to the value of
  the semaphore, which only the shell that finds nothing to read takes back.\<close>

lemma nul_key: "sh_stat sh = WAIT_NORMAL \<Longrightarrow> finsh_keys tab run (key_chars [0]) sh w = Inr (sh, w)"
  by (simp add: key_chars_def finsh_key_def plain_key_def char_of_def)

lemma burst:
  assumes "console_ok name c" "\<not> waiting c" "\<not> con_taking c" "unread name c = []" "sh_stat (con_shell c) = WAIT_NORMAL"
    "unat (fst (con_sem c)) + k \<le> 65535"
  shows "\<exists>c'. con_run tab run name (concat (replicate k [Uart_Rx [0], Shell_Turn])) c = Inr c'
    \<and> console_ok name c' \<and> \<not> waiting c' \<and> \<not> con_taking c' \<and> unread name c' = []
    \<and> unat (fst (con_sem c')) = unat (fst (con_sem c)) + k"
  using assms
proof (induction k arbitrary: c)
  case (Suc k)
  obtain c1 where c1: "uart_interrupt name [0] c = Inr c1" "console_ok name c1" "unread name c1 = [0]"
    "con_shell c1 = con_shell c" "con_sem c1 = (fst (con_sem c) + 1, [])" "\<not> con_taking c1"
    using interrupt_step[OF Suc.prems(1), of "[0]"] Suc.prems(2-6) by auto
  have nw: "\<not> waiting c1" using c1(5) by (simp add: waiting_def)
  obtain s where s: "device_ready s" "serial_held s = drop 1 (unread name c1)"
    "finsh_turn tab run c1 = (case unread name c1 of [] \<Rightarrow> Inr ((set_dev name s c1)\<lparr>con_taking := True\<rparr>)
       | b # _ \<Rightarrow> bindE (finsh_keys tab run (key_chars [b]) (con_shell c1) (con_world c1)) (\<lambda>(sh, w).
           Inr ((set_dev name s c1)\<lparr>con_shell := sh, con_world := w\<rparr>)))" by (rule read_result[OF c1(2) nw c1(6)])
  define c2 where "c2 = set_dev name s c1"
  have t: "finsh_turn tab run c1 = Inr c2"
    unfolding s(3) c1(3) using nul_key[of "con_shell c1" tab run "con_world c1"] c1(4) Suc.prems(5) by (simp add: c2_def set_dev_def)
  have "console_ok name c2"
    by (rule console_okI[OF _ _ s(1)]) (use c1(2,5,6) in \<open>simp_all add: c2_def console_ok_def\<close>)
  moreover have "unread name c2 = []" using s(2) c1(3) by (simp add: c2_def unread_def)
  moreover have "unat (fst (con_sem c) + 1) = unat (fst (con_sem c)) + 1" using Suc.prems(6) by (simp add: unat_word_ariths)
  ultimately show ?case using Suc.IH[of c2] Suc.prems(5,6) c1 t by (simp add: c2_def waiting_def)
qed simp

text \<open>After 65535 such bytes the next one, between the read that finds nothing and the take, sets the value to 0,
  and the shell waits with a byte it has not read.\<close>

theorem wakeup_lost:
  assumes "devs name = Some rt_hw_usart_init"
  shows "\<exists>c c'. console_start name devs w = Inr c
    \<and> con_run tab run name (concat (replicate 65535 [Uart_Rx [0], Shell_Turn]) @ [Shell_Turn, Uart_Rx [b], Shell_Turn]) c = Inr c'
    \<and> waiting c' \<and> unread name c' = [b]"
proof -
  obtain c where c: "console_start name devs w = Inr c" "console_ok name c" "unread name c = []"
    "con_shell c = finsh_shell_init" "con_sem c = (0, [])" "\<not> con_taking c" using console_start_ok[of devs name w] assms by blast
  obtain c1 where c1: "con_run tab run name (concat (replicate 65535 [Uart_Rx [0], Shell_Turn])) c = Inr c1"
    "console_ok name c1" "\<not> waiting c1" "\<not> con_taking c1" "unread name c1 = []" "unat (fst (con_sem c1)) = 65535"
    using burst[OF c(2), of 65535 tab run] c by (auto simp: waiting_def finsh_shell_init_def)
  obtain s where s: "device_ready s" "serial_held s = drop 1 (unread name c1)"
    "finsh_turn tab run c1 = (case unread name c1 of [] \<Rightarrow> Inr ((set_dev name s c1)\<lparr>con_taking := True\<rparr>)
       | b # _ \<Rightarrow> bindE (finsh_keys tab run (key_chars [b]) (con_shell c1) (con_world c1)) (\<lambda>(sh, w).
           Inr ((set_dev name s c1)\<lparr>con_shell := sh, con_world := w\<rparr>)))" by (rule read_result[OF c1(2-4)])
  define c2 where "c2 = (set_dev name s c1)\<lparr>con_taking := True\<rparr>"
  have t2: "finsh_turn tab run c1 = Inr c2" unfolding s(3) c1(5) by (simp add: c2_def)
  have u2: "unread name c2 = []" using s(2) c1(5) by (simp add: c2_def unread_def)
  have ok2: "console_ok name c2"
    by (rule console_okI[OF _ _ s(1)]) (use c1(2,3,6) u2 in \<open>auto simp: c2_def console_ok_def waiting_def\<close>)
  obtain s' where s': "uart_interrupt name [b] c2 = Inr (finsh_rx_ind (set_dev name s' c2))" "serial_held s' = [b]"
    using interrupt_result[OF ok2, of "[b]"] u2 by auto
  define c3 where "c3 = finsh_rx_ind (set_dev name s' c2)"
  have v: "fst (con_sem c1) + 1 = 0" using c1(6) by (simp add: word_unat_eq_iff unat_word_ariths)
  obtain v where sem: "con_sem c2 = (v, [])" "con_sem c1 = (v, [])" using c1(3) by (cases "con_sem c1") (simp add: c2_def waiting_def)
  have c3: "con_sem c3 = (0, [])" "con_taking c3" "con_devs c3 name = Some s'"
    using sem v by (simp_all add: c3_def finsh_rx_ind_def) (simp add: c2_def)
  define c4 where "c4 = c3\<lparr>con_sem := (0, [0]), con_taking := False\<rparr>"
  have t4: "finsh_turn tab run c3 = Inr c4" using c3 by (simp add: finsh_turn_def sem_spec_take_def c4_def)
  have "con_run tab run name [Shell_Turn, Uart_Rx [b], Shell_Turn] c1 = Inr c4"
    using t2 s'(1) t4 by (simp add: c3_def)
  moreover have "waiting c4" "unread name c4 = [b]" using c3(3) s'(2) by (simp_all add: waiting_def unread_def c4_def)
  ultimately show ?thesis using c(1) c1(1) by (intro exI[of _ c] exI[of _ c4]) (simp add: con_run_append del: con_run.simps)
qed

section \<open>Properties\<close>

text \<open>C39: the queue of a serial device that receives by interrupts: an interrupt leaves the latest bytes,
  one fewer than the buffer has, of what was unread and what arrived, and tells the client how many these
  are; a read returns the first of them and leaves the others.\<close>

theorem serial_receive_refines:
  assumes "serial_ok s"
  shows "(\<exists>s'. uart_isr (s\<lparr>sd_pending := bs\<rparr>)
        = Inr (s', if bs \<noteq> [] \<and> sd_rx_indicate s then Some (int (length (serial_held s'))) else None)
      \<and> serial_ok s' \<and> serial_held s' = latest (unat (sd_bufsz s) - 1) (serial_held s @ bs))
    \<and> (\<exists>s'. rt_serial_read n s = Inr (take n (serial_held s), s') \<and> serial_ok s' \<and> serial_held s' = drop n (serial_held s))"
proof
  obtain f where "uart_isr (s\<lparr>sd_pending := bs\<rparr>) =
       Inr (s\<lparr>sd_rx := Some f\<rparr>, if bs \<noteq> [] \<and> sd_rx_indicate s then Some (int (length (fifo_data (sd_bufsz s) f))) else None)"
    "serial_ok (s\<lparr>sd_rx := Some f\<rparr>)" "fifo_data (sd_bufsz s) f = latest (unat (sd_bufsz s) - 1) (serial_held s @ bs)"
    by (rule uart_isr_latest[OF assms])
  then show "\<exists>s'. uart_isr (s\<lparr>sd_pending := bs\<rparr>)
        = Inr (s', if bs \<noteq> [] \<and> sd_rx_indicate s then Some (int (length (serial_held s'))) else None)
      \<and> serial_ok s' \<and> serial_held s' = latest (unat (sd_bufsz s) - 1) (serial_held s @ bs)"
    by (intro exI[of _ "s\<lparr>sd_rx := Some f\<rparr>"]) (simp add: serial_held_rx)
  obtain f where "rt_serial_read n s = Inr (take n (serial_held s), s\<lparr>sd_rx := Some f\<rparr>)"
    "serial_ok (s\<lparr>sd_rx := Some f\<rparr>)" "fifo_data (sd_bufsz s) f = drop n (serial_held s)"
    by (rule serial_read_take[OF assms])
  then show "\<exists>s'. rt_serial_read n s = Inr (take n (serial_held s), s') \<and> serial_ok s' \<and> serial_held s' = drop n (serial_held s)"
    by (intro exI[of _ "s\<lparr>sd_rx := Some f\<rparr>"]) (simp add: serial_held_rx)
qed

lemma serial_receive_refines_witness: "\<exists>s s' s''. serial_ok s \<and> unat (sd_bufsz s) = 4
    \<and> uart_isr (s\<lparr>sd_pending := [1, 2, 3, 4, 5]\<rparr>) = Inr (s', Some 3) \<and> rt_serial_read 2 s' = Inr ([3, 4], s'')"
proof -
  define s where "s = (rt_hw_serial_register 4 0x103)\<lparr>sd_open_flag := FLAG_INT_RX, sd_rx := Some (new_fifo 4),
    sd_rxne_it := True, sd_rx_indicate := True\<rparr>"
  have n: "fifo_ok 4 (new_fifo 4)" "fifo_data 4 (new_fifo 4) = []" using new_fifo_ok[of 4] by simp_all
  have s: "serial_ok s" "serial_held s = []" "sd_bufsz s = 4" "sd_rx_indicate s"
    using n by (simp_all add: s_def serial_ok_def serial_held_def rt_hw_serial_register_def)
  obtain s' where s': "uart_isr (s\<lparr>sd_pending := [1, 2, 3, 4, 5]\<rparr>) = Inr (s', Some (int (length (serial_held s'))))"
    "serial_ok s'" "serial_held s' = latest 3 [1, 2, 3, 4, 5]"
    using serial_receive_refines[OF s(1), of "[1, 2, 3, 4, 5]" 0] s by auto
  have h: "serial_held s' = [3, 4, 5]" using s'(3) by (simp add: latest_def)
  then obtain s'' where "rt_serial_read 2 s' = Inr ([3, 4], s'')"
    using serial_receive_refines[OF s'(2), of "[]" 2] by (auto simp: numeral_2_eq_2)
  then show ?thesis using s s'(1) h by (intro exI[of _ s] exI[of _ s'] exI[of _ s'']) simp
qed

text \<open>C40: from the start of the console on, and in any order of interrupts and steps of the shell thread in
  which no more than 63 bytes are unread: once the shell has made as many steps as there are bytes, two
  more for each interrupt and two at last, it has done the keys of exactly the bytes received, in their
  order, with what their commands do to the world, and waits for the next; or it has stopped in the key
  that faults.\<close>

theorem console_delivers:
  assumes "devs name = Some rt_hw_usart_init" "length es < 65536" "sum_list (map cost es) + 2 \<le> n"
  shows "\<exists>c. console_start name devs w = Inr c \<and> (keeps_up tab run name es c \<longrightarrow>
    (case finsh_keys tab run (key_chars (received es)) finsh_shell_init w of
       Inl e \<Rightarrow> con_run tab run name (es @ replicate n Shell_Turn) c = Inl e
     | Inr (sh, w') \<Rightarrow> \<exists>c'. con_run tab run name (es @ replicate n Shell_Turn) c = Inr c'
         \<and> con_shell c' = sh \<and> con_world c' = w' \<and> waiting c' \<and> unread name c' = []))"
proof -
  obtain c where c: "console_start name devs w = Inr c" "console_ok name c" "unread name c = []"
    "con_shell c = finsh_shell_init" "con_world c = w" "con_sem c = (0, [])" "\<not> con_taking c"
    using console_start_ok[of devs name w] assms(1) by blast
  have st: "steps_left name c = 2" using c by (simp add: steps_left_def waiting_def)
  show ?thesis
  proof (intro exI[of _ c] conjI c(1) impI)
    assume "keeps_up tab run name es c"
    then obtain ds rest where d: "received es = ds @ rest"
      "served tab run name c ds rest (2 + sum_list (map cost es)) (con_run tab run name es c)"
      using run_served[OF c(2), of tab run es] c(3,6) assms(2) st by auto
    let ?K = "finsh_keys tab run (key_chars (received es)) finsh_shell_init w"
    have K: "?K = bindE (finsh_keys tab run (key_chars ds) finsh_shell_init w) (\<lambda>(sh, w). finsh_keys tab run (key_chars rest) sh w)"
      using d(1) by (simp add: key_chars_def finsh_keys_append)
    show "case ?K of Inl e \<Rightarrow> con_run tab run name (es @ replicate n Shell_Turn) c = Inl e
     | Inr (sh, w') \<Rightarrow> \<exists>c'. con_run tab run name (es @ replicate n Shell_Turn) c = Inr c'
         \<and> con_shell c' = sh \<and> con_world c' = w' \<and> waiting c' \<and> unread name c' = []"
    proof (cases "con_run tab run name es c")
      case (Inl e)
      then have "?K = Inl e" using d(2) K c(4,5) by (auto simp: served_def split: sum.splits)
      then show ?thesis using Inl by (simp add: con_run_append)
    next
      case (Inr c1)
      then have c1: "?K = finsh_keys tab run (key_chars rest) (con_shell c1) (con_world c1)" "console_ok name c1"
        "unread name c1 = rest" "steps_left name c1 \<le> n" using d(2) K c(4,5) assms(3) by (auto simp: served_def split: sum.splits)
      obtain ds' rest' where d': "rest = ds' @ rest'"
        "served tab run name c1 ds' rest' 0 (con_run tab run name (replicate n Shell_Turn) c1)"
        using turns_served[OF c1(2), of tab run n] c1(3,4) by auto
      have K': "?K = bindE (finsh_keys tab run (key_chars ds') (con_shell c1) (con_world c1)) (\<lambda>(sh, w). finsh_keys tab run (key_chars rest') sh w)"
        using c1(1) d'(1) by (simp add: key_chars_def finsh_keys_append)
      show ?thesis
      proof (cases "con_run tab run name (replicate n Shell_Turn) c1")
        case (Inl e)
        then have "?K = Inl e" using d'(2) K' by (auto simp: served_def split: sum.splits)
        then show ?thesis using Inr Inl by (simp add: con_run_append)
      next
        case (Inr c2)
        then have c2: "finsh_keys tab run (key_chars ds') (con_shell c1) (con_world c1) = Inr (con_shell c2, con_world c2)"
          "console_ok name c2" "unread name c2 = rest'" "steps_left name c2 = 0" using d'(2) by (auto simp: served_def split: sum.splits)
        have w: "waiting c2" using c2(4) by (auto simp: steps_left_def split: if_splits)
        then have e: "unread name c2 = []" using c2(2) by (simp add: console_ok_def)
        have "?K = Inr (con_shell c2, con_world c2)" using K' c2(1,3) e by (simp add: key_chars_def)
        then show ?thesis using Inr \<open>con_run tab run name es c = Inr c1\<close> w e by (simp add: con_run_append)
      qed
    qed
  qed
qed

text \<open>The command \<open>dac_set_val 5\<close> comes over the line while the shell waits.\<close>

lemma console_delivers_witness: "\<exists>w c c'. app_reachable w \<and> console_start ''uart1'' [''uart1'' \<mapsto> rt_hw_usart_init] w = Inr c
    \<and> con_run app_symtab app_run ''uart1'' ([Shell_Turn, Shell_Turn, Uart_Rx (map (\<lambda>ch. of_nat (of_char ch)) (''dac_set_val 5'' @ [CHR 0x0D]))]
        @ replicate 20 Shell_Turn) c = Inr c' \<and> con_world c' = dac_set 5 w \<and> waiting c'"
proof -
  obtain w where w: "app_reachable w" using main_start_ok reach_start by metis
  obtain sh where k: "finsh_keys app_symtab app_run (''dac_set_val 5'' @ [CHR 0x0D]) finsh_shell_init w = Inr (sh, dac_set 5 w)"
    using dac_command_keys[of w] by blast
  define bs :: "u8 list" where "bs = map (\<lambda>ch. of_nat (of_char ch)) (''dac_set_val 5'' @ [CHR 0x0D])"
  define es where "es = [Shell_Turn, Shell_Turn, Uart_Rx bs]"
  have kc: "key_chars (received es) = ''dac_set_val 5'' @ [CHR 0x0D]"
    by (simp add: es_def bs_def key_chars_def of_char_def char_of_def bit_0)
  have n: "length bs = 14" by (simp add: bs_def)
  obtain c where c: "console_start ''uart1'' [''uart1'' \<mapsto> rt_hw_usart_init] w = Inr c"
    "keeps_up app_symtab app_run ''uart1'' es c \<longrightarrow>
    (case finsh_keys app_symtab app_run (key_chars (received es)) finsh_shell_init w of
       Inl e \<Rightarrow> con_run app_symtab app_run ''uart1'' (es @ replicate 20 Shell_Turn) c = Inl e
     | Inr (sh, w') \<Rightarrow> \<exists>c'. con_run app_symtab app_run ''uart1'' (es @ replicate 20 Shell_Turn) c = Inr c'
         \<and> con_shell c' = sh \<and> con_world c' = w' \<and> waiting c' \<and> unread ''uart1'' c' = [])"
    using console_delivers[of "[''uart1'' \<mapsto> rt_hw_usart_init]" "''uart1''" es 20 w app_symtab app_run] n by (auto simp: es_def)
  have ok: "console_ok ''uart1'' c" "unread ''uart1'' c = []"
    using console_start_ok[of "[''uart1'' \<mapsto> rt_hw_usart_init]" "''uart1''" w] c(1) by auto
  have "keeps_up app_symtab app_run ''uart1'' es c"
    unfolding es_def by (rule keeps_up_turn[OF ok], rule keeps_up_turn) (simp_all add: n split: sum.split)
  then obtain c' where "con_run app_symtab app_run ''uart1'' (es @ replicate 20 Shell_Turn) c = Inr c'"
    "con_world c' = dac_set 5 w" "waiting c'" using c(2) k unfolding kc by auto
  then show ?thesis using w c(1) unfolding es_def bs_def by blast
qed

end
