(* ===== verification/Mempool.thy ===== *)
theory Mempool
  imports Ipc_Objects Mem
begin

text \<open>
  The memory pools (\<open>rt-thread/src/mempool.c\<close>): blocks of one size, each behind a word that points to the next
  free block while it is free, and to its pool while it is in use. A call that waits is split where its
  thread gives up the processor, as in \<open>Ipc_Objects\<close>.
\<close>

section \<open>State\<close>

datatype mp_word = Next_Free "u32 option" | Of_Pool nat

text \<open>The list of waiting threads \<open>suspend_thread\<close> of the pool \<open>i\<close> is \<open>Waiters i\<close>.\<close>

record rt_mempool =
  mp_static :: bool
  mp_start_address :: u32
  mp_size :: u32
  mp_block_size :: u32
  mp_block_list :: "u32 option"
  mp_total_count :: u32
  mp_free_count :: u32

record pools =
  mp_kern :: kernel
  mp_pools :: "nat \<Rightarrow> rt_mempool option"
  mp_mem :: "u32 \<Rightarrow> mp_word"

definition get_mp :: "nat \<Rightarrow> pools \<Rightarrow> rt_mempool res" where
  "get_mp i S = (case mp_pools S i of None \<Rightarrow> Inl Assert_Failed | Some mp \<Rightarrow> Inr mp)"

definition set_mp :: "nat \<Rightarrow> rt_mempool \<Rightarrow> pools \<Rightarrow> pools" where
  "set_mp i mp S = S\<lparr>mp_pools := (mp_pools S)(i \<mapsto> mp)\<rparr>"

definition set_word :: "u32 \<Rightarrow> mp_word \<Rightarrow> pools \<Rightarrow> pools" where
  "set_word a w S = S\<lparr>mp_mem := (mp_mem S)(a := w)\<rparr>"

definition mp_upd_kern :: "(kernel \<Rightarrow> kernel) \<Rightarrow> pools \<Rightarrow> pools" where
  "mp_upd_kern f S = S\<lparr>mp_kern := f (mp_kern S)\<rparr>"

definition mp_on_kern :: "(kernel \<Rightarrow> kernel res) \<Rightarrow> pools \<Rightarrow> pools res" where
  "mp_on_kern f S = bindE (f (mp_kern S)) (\<lambda>k. Inr (S\<lparr>mp_kern := k\<rparr>))"

section \<open>Making a pool\<close>

text \<open>A word of the pool at \<open>start\<close> with \<open>sz\<close> bytes.\<close>

definition put_word :: "u32 \<Rightarrow> u32 \<Rightarrow> u32 \<Rightarrow> mp_word \<Rightarrow> pools \<Rightarrow> pools res" where
  "put_word start sz a w S =
     (if unat start \<le> unat a \<and> unat a + 4 \<le> unat start + unat sz then Inr (set_word a w S) else Inl Out_Of_Bounds)"

text \<open>The loop over the blocks: \<open>n\<close> are left, from \<open>offset\<close> on, at a distance of \<open>d\<close>.\<close>

fun link_blocks :: "u32 \<Rightarrow> u32 \<Rightarrow> u32 \<Rightarrow> nat \<Rightarrow> u32 \<Rightarrow> pools \<Rightarrow> pools res" where
  "link_blocks start sz d 0 offset S = Inr S"
| "link_blocks start sz d (Suc n) offset S =
     bindE (put_word start sz (start + offset * d) (Next_Free (Some (start + (offset + 1) * d))) S)
       (link_blocks start sz d n (offset + 1))"

text \<open>What \<open>rt_mp_init\<close> and \<open>rt_mp_create\<close> do when the sizes are known. The last block is that before
  \<open>offset\<close>, which the loop leaves at the number of blocks.\<close>

definition mp_obj_init :: "nat \<Rightarrow> rt_mempool \<Rightarrow> pools \<Rightarrow> pools res" where
  "mp_obj_init i mp S =
     (let start = mp_start_address mp; d = mp_block_size mp + 4; total = mp_total_count mp in
      bindE (link_blocks start (mp_size mp) d (unat total) 0 (mp_upd_kern (rt_ipc_object_init i) S)) (\<lambda>S.
      bindE (put_word start (mp_size mp) (start + (total - 1) * d) (Next_Free None) S) (\<lambda>S.
      Inr (set_mp i mp S))))"

definition rt_mp_init :: "nat \<Rightarrow> u32 \<Rightarrow> u32 \<Rightarrow> u32 \<Rightarrow> pools \<Rightarrow> (int \<times> pools) res" where
  "rt_mp_init i start pool_size block_size S =
     bindE (assertE (start \<noteq> 0)) (\<lambda>_.
     bindE (assertE (pool_size > 0 \<and> block_size > 0)) (\<lambda>_.
     let sz = rt_align_down pool_size; bs = rt_align block_size in
     if bs + 4 = 0 then Inl Div_By_Zero
     else
       let total = sz div (bs + 4) in
       bindE (mp_obj_init i \<lparr>mp_static = True, mp_start_address = start, mp_size = sz, mp_block_size = bs,
         mp_block_list = Some start, mp_total_count = total, mp_free_count = total\<rparr> S) (\<lambda>S. Inr (RT_EOK, S))))"

text \<open>\<open>alloc\<close> is the new object, \<open>mem\<close> what \<open>rt_malloc\<close> returns for the product of the sizes.\<close>

definition rt_mp_create :: "nat option \<Rightarrow> (u32 \<Rightarrow> u32 option) \<Rightarrow> u32 \<Rightarrow> u32 \<Rightarrow> pools \<Rightarrow> (nat option \<times> pools) res" where
  "rt_mp_create alloc mem block_count block_size S =
     bindE (not_in_interrupt (mp_kern S)) (\<lambda>_.
     bindE (assertE (block_count > 0 \<and> block_size > 0)) (\<lambda>_.
     case alloc of None \<Rightarrow> Inr (None, S)
     | Some i \<Rightarrow>
         let bs = rt_align block_size; sz = (bs + 4) * block_count in
         (case mem sz of None \<Rightarrow> Inr (None, S)
          | Some start \<Rightarrow>
              bindE (mp_obj_init i \<lparr>mp_static = False, mp_start_address = start, mp_size = sz, mp_block_size = bs,
                mp_block_list = Some start, mp_total_count = block_count, mp_free_count = block_count\<rparr> S)
                (\<lambda>S. Inr (Some i, S)))))"

definition rt_mp_detach :: "nat \<Rightarrow> pools \<Rightarrow> (int \<times> pools) res" where
  "rt_mp_detach i S =
     bindE (get_mp i S) (\<lambda>mp.
     bindE (assertE (mp_static mp)) (\<lambda>_.
     bindE (mp_on_kern (wake_all i) S) (\<lambda>S. Inr (RT_EOK, S\<lparr>mp_pools := (mp_pools S)(i := None)\<rparr>))))"

text \<open>The release of the blocks' memory is the caller's: the last result is the address.\<close>

definition rt_mp_delete :: "nat \<Rightarrow> pools \<Rightarrow> (int \<times> pools \<times> u32) res" where
  "rt_mp_delete i S =
     bindE (not_in_interrupt (mp_kern S)) (\<lambda>_.
     bindE (get_mp i S) (\<lambda>mp.
     bindE (assertE (\<not> mp_static mp)) (\<lambda>_.
     bindE (mp_on_kern (wake_all i) S) (\<lambda>S.
     Inr (RT_EOK, S\<lparr>mp_pools := (mp_pools S)(i := None)\<rparr>, mp_start_address mp)))))"

section \<open>Taking a block\<close>

text \<open>\<open>rt_set_errno\<close>: without a thread, or in an interrupt, the global error is set, which is not kept.\<close>

definition rt_set_errno :: "int \<Rightarrow> kernel \<Rightarrow> kernel" where
  "rt_set_errno error k =
     (if interrupt_nest (client k) \<noteq> 0 then k
      else case current_thread (client k) of None \<Rightarrow> k | Some tid \<Rightarrow> set_error tid error k)"

datatype mp_outcome = Block "u32 option" | Mp_Waits

text \<open>The waiting thread goes to the front of the list.\<close>

definition mp_wait :: "nat \<Rightarrow> nat \<Rightarrow> int \<Rightarrow> kernel \<Rightarrow> kernel res" where
  "mp_wait i t time k =
     bindE (rt_thread_suspend t k) (\<lambda>(_, k).
     let k = upd_sched (upd_sc_links (rt_list_insert_after (Waiters i) (Thread t))) k in
     bindE (if time > 0 then start_thread_timer t (to_u32 time) k else Inr k) (on_sched rt_schedule))"

definition mp_take :: "nat \<Rightarrow> rt_mempool \<Rightarrow> pools \<Rightarrow> (u32 \<times> pools) res" where
  "mp_take i mp S = (case mp_block_list mp of
     None \<Rightarrow> Inl Assert_Failed
   | Some block_ptr \<Rightarrow> (case mp_mem S block_ptr of
       Of_Pool _ \<Rightarrow> Inl Out_Of_Bounds
     | Next_Free n \<Rightarrow> Inr (block_ptr + 4, set_word block_ptr (Of_Pool i)
         (set_mp i (mp\<lparr>mp_free_count := mp_free_count mp - 1, mp_block_list := n\<rparr>) S))))"

definition rt_mp_alloc :: "nat \<Rightarrow> int \<Rightarrow> pools \<Rightarrow> (mp_outcome \<times> pools) res" where
  "rt_mp_alloc i time S =
     bindE (get_mp i S) (\<lambda>mp.
     if mp_free_count mp = 0
     then
       if time = 0 then Inr (Block None, mp_upd_kern (rt_set_errno (- RT_ETIMEOUT)) S)
       else bindE (in_thread_context (mp_kern S)) (\<lambda>t.
         bindE (mp_on_kern (mp_wait i t time) (mp_upd_kern (set_error t RT_EOK) S)) (\<lambda>S. Inr (Mp_Waits, S)))
     else bindE (mp_take i mp S) (\<lambda>(p, S). Inr (Block (Some p), S)))"

text \<open>The thread runs again: the loop goes on with what is left of its limit.\<close>

definition rt_mp_alloc_back :: "nat \<Rightarrow> nat \<Rightarrow> int \<Rightarrow> u32 \<Rightarrow> pools \<Rightarrow> (mp_outcome \<times> pools) res" where
  "rt_mp_alloc_back t i time start S =
     (if th_error (threads (client (mp_kern S)) t) \<noteq> RT_EOK then Inr (Block None, S)
      else rt_mp_alloc i (time_left time start (rt_tick (mp_kern S))) S)"

section \<open>Releasing a block\<close>

definition mp_wake :: "nat \<Rightarrow> kernel \<Rightarrow> kernel res" where
  "mp_wake i k = (case nxt (sc_links (client k)) (Waiters i) of
     Thread t \<Rightarrow> bindE (rt_thread_resume t (set_error t RT_EOK k)) (\<lambda>(_, k). on_sched rt_schedule k)
   | _ \<Rightarrow> Inl Out_Of_Bounds)"

text \<open>A word in front of the block that is not the address of a pool is taken as one.\<close>

definition rt_mp_free :: "u32 \<Rightarrow> pools \<Rightarrow> pools res" where
  "rt_mp_free block S =
     (if block = 0 then Inr S
      else
        let block_ptr = block - 4 in
        (case mp_mem S block_ptr of
           Next_Free _ \<Rightarrow> Inl Out_Of_Bounds
         | Of_Pool i \<Rightarrow>
             bindE (get_mp i S) (\<lambda>mp.
             let S = set_word block_ptr (Next_Free (mp_block_list mp))
                 (set_mp i (mp\<lparr>mp_free_count := mp_free_count mp + 1, mp_block_list := Some block_ptr\<rparr>) S) in
             if \<not> nobody_in i (mp_kern S) then mp_on_kern (mp_wake i) S else Inr S)))"

end
