(* ===== verification/Mempool_Props.thy ===== *)
theory Mempool_Props
  imports Mempool Mem_Client Ipc_Props
begin

text \<open>
  What the memory pools promise. The words in front of the blocks form the chain of the free ones and the
  marks of the others, and the pools are an allocator for blocks of their size (\<open>mpool\<close>): callers that do not
  wait get distinct blocks as long as there are any. Threads that wait are served in the opposite order of
  their arrival.
\<close>

section \<open>Blocks\<close>

text \<open>The addresses of the words in front of the blocks.\<close>

definition blk :: "rt_mempool \<Rightarrow> nat \<Rightarrow> u32" where
  "blk mp j = mp_start_address mp + of_nat j * (mp_block_size mp + 4)"

definition blks :: "rt_mempool \<Rightarrow> u32 set" where
  "blks mp = blk mp ` {..<unat (mp_total_count mp)}"

definition stride :: "rt_mempool \<Rightarrow> nat" where
  "stride mp = unat (mp_block_size mp) + 4"

definition fits_in :: "rt_mempool \<Rightarrow> bool" where
  "fits_in mp \<longleftrightarrow> 0 < unat (mp_total_count mp) \<and> unat (mp_total_count mp) * stride mp \<le> unat (mp_size mp)
     \<and> unat (mp_start_address mp) + unat (mp_size mp) < 4294967296
     \<and> 4 dvd unat (mp_start_address mp) \<and> 4 dvd unat (mp_block_size mp)"

lemma unat_blk:
  assumes "fits_in mp" "j \<le> unat (mp_total_count mp)"
  shows "unat (blk mp j) = unat (mp_start_address mp) + j * stride mp"
proof -
  have "j * stride mp \<le> unat (mp_total_count mp) * stride mp" using assms(2) by (rule mult_le_mono1)
  then have b: "unat (mp_start_address mp) + j * stride mp < 4294967296" using assms(1) unfolding fits_in_def by linarith
  have "blk mp j = of_nat (unat (mp_start_address mp) + j * stride mp)" by (simp add: blk_def stride_def)
  then have "unat (blk mp j) = (unat (mp_start_address mp) + j * stride mp) mod 4294967296"
    by (simp only: unat_of_nat) simp
  then show ?thesis using b by simp
qed

lemma blk_inj:
  assumes "fits_in mp" "j \<le> unat (mp_total_count mp)" "l \<le> unat (mp_total_count mp)" "blk mp j = blk mp l"
  shows "j = l"
proof -
  have "unat (mp_start_address mp) + j * stride mp = unat (mp_start_address mp) + l * stride mp"
    unfolding unat_blk[OF assms(1,2), symmetric] unat_blk[OF assms(1,3), symmetric] by (simp only: assms(4))
  then show ?thesis by (simp add: stride_def)
qed

lemma blk_end:
  assumes "fits_in mp" "j < unat (mp_total_count mp)"
  shows "unat (blk mp j) + stride mp \<le> unat (mp_start_address mp) + unat (mp_size mp)"
proof -
  have "Suc j * stride mp \<le> unat (mp_total_count mp) * stride mp" using assms(2) by (intro mult_le_mono1) simp
  then show ?thesis using assms(1) unat_blk[OF assms(1), of j] assms(2) by (simp add: fits_in_def)
qed

lemma card_blks: "fits_in mp \<Longrightarrow> card (blks mp) = unat (mp_total_count mp)"
  unfolding blks_def by (subst card_image) (auto intro!: inj_onI intro: blk_inj)

lemma finite_blks [simp]: "finite (blks mp)"
  by (simp add: blks_def)

section \<open>The invariant of a pool\<close>

fun free_chain :: "(u32 \<Rightarrow> mp_word) \<Rightarrow> u32 option \<Rightarrow> u32 list \<Rightarrow> bool" where
  "free_chain m p [] \<longleftrightarrow> p = None"
| "free_chain m p (b # bs) \<longleftrightarrow> p = Some b \<and> (case m b of Next_Free n \<Rightarrow> free_chain m n bs | Of_Pool _ \<Rightarrow> False)"

lemma free_chain_upd: "b \<notin> set bs \<Longrightarrow> free_chain (m(b := w)) p bs = free_chain m p bs"
  by (induction bs arbitrary: p) (auto split: mp_word.splits)

definition pool_ok :: "nat \<Rightarrow> rt_mempool \<Rightarrow> (u32 \<Rightarrow> mp_word) \<Rightarrow> u32 list \<Rightarrow> bool" where
  "pool_ok i mp m fs \<longleftrightarrow> fits_in mp \<and> free_chain m (mp_block_list mp) fs \<and> distinct fs \<and> set fs \<subseteq> blks mp
     \<and> (\<forall>b\<in>blks mp - set fs. m b = Of_Pool i) \<and> unat (mp_free_count mp) = length fs"

text \<open>What is in use: the addresses of the blocks, with their size.\<close>

definition mp_live :: "rt_mempool \<Rightarrow> u32 list \<Rightarrow> u32 \<Rightarrow> nat option" where
  "mp_live mp fs = (\<lambda>a. if a - 4 \<in> blks mp - set fs then Some (unat (mp_block_size mp)) else None)"

lemma pool_free_total: "pool_ok i mp m fs \<Longrightarrow> length fs \<le> unat (mp_total_count mp)"
  unfolding pool_ok_def by (metis card_blks card_mono distinct_card finite_blks)

lemma mp_take_ok:
  assumes "pool_ok i mp (mp_mem S) (b # fs)"
  shows "\<exists>n. mp_take i mp S = Inr (b + 4, set_word b (Of_Pool i) (set_mp i (mp\<lparr>mp_free_count := mp_free_count mp - 1, mp_block_list := n\<rparr>) S))
    \<and> pool_ok i (mp\<lparr>mp_free_count := mp_free_count mp - 1, mp_block_list := n\<rparr>) ((mp_mem S)(b := Of_Pool i)) fs"
proof -
  obtain n where n: "mp_block_list mp = Some b" "mp_mem S b = Next_Free n" "free_chain (mp_mem S) n fs"
    using assms by (auto simp: pool_ok_def split: mp_word.splits)
  define mp' where "mp' = mp\<lparr>mp_free_count := mp_free_count mp - 1, mp_block_list := n\<rparr>"
  have same: "fits_in mp' = fits_in mp" "blks mp' = blks mp" by (simp_all add: mp'_def fits_in_def stride_def blks_def blk_def)
  have c: "unat (mp_free_count mp) = Suc (length fs)" using assms by (simp add: pool_ok_def)
  then have "unat (mp_free_count mp - 1) = length fs" by (subst unat_sub) (simp_all add: word_le_nat_alt)
  then have "pool_ok i mp' ((mp_mem S)(b := Of_Pool i)) fs"
    using assms n(3) by (auto simp: pool_ok_def same free_chain_upd) (simp add: mp'_def free_chain_upd)+
  then show ?thesis using n(1,2) unfolding mp'_def by (intro exI[of _ n]) (simp add: mp_take_def)
qed

lemma mp_put_ok:
  assumes "pool_ok i mp m fs" "b \<in> blks mp" "b \<notin> set fs"
  shows "pool_ok i (mp\<lparr>mp_free_count := mp_free_count mp + 1, mp_block_list := Some b\<rparr>)
    (m(b := Next_Free (mp_block_list mp))) (b # fs)"
proof -
  define mp' where "mp' = mp\<lparr>mp_free_count := mp_free_count mp + 1, mp_block_list := Some b\<rparr>"
  have same: "fits_in mp' = fits_in mp" "blks mp' = blks mp" by (simp_all add: mp'_def fits_in_def stride_def blks_def blk_def)
  have "card (set (b # fs)) \<le> card (blks mp)" using assms by (intro card_mono) (auto simp: pool_ok_def)
  then have "Suc (length fs) \<le> unat (mp_total_count mp)"
    using assms by (simp add: pool_ok_def distinct_card card_blks)
  then have "unat (mp_free_count mp) + 1 < 4294967296"
    using assms(1) unat_u32_less[of "mp_total_count mp"] unat_u32_less[of "mp_free_count mp"]
    by (simp add: pool_ok_def fits_in_def stride_def)
  then have "unat (mp_free_count mp + 1) = Suc (length fs)" using assms(1) by (simp add: pool_ok_def unat_word_ariths)
  then have "pool_ok i mp' (m(b := Next_Free (mp_block_list mp))) (b # fs)"
    using assms by (auto simp: pool_ok_def same free_chain_upd) (simp_all add: mp'_def free_chain_upd)
  then show ?thesis by (simp add: mp'_def)
qed

section \<open>The pools as an allocator\<close>

text \<open>A caller that does not wait.\<close>

definition mp_try :: "nat \<Rightarrow> u32 \<Rightarrow> pools \<Rightarrow> (u32 option \<times> pools) res" where
  "mp_try i n S = bindE (rt_mp_alloc i 0 S) (\<lambda>(r, S). case r of Block p \<Rightarrow> Inr (p, S) | Mp_Waits \<Rightarrow> Inl Assert_Failed)"

definition mp_release :: "u32 option \<Rightarrow> pools \<Rightarrow> pools res" where
  "mp_release p S = (case p of None \<Rightarrow> rt_mp_free 0 S | Some a \<Rightarrow> rt_mp_free a S)"

definition geometry :: "rt_mempool \<Rightarrow> u32 \<times> u32 \<times> u32 \<times> u32" where
  "geometry mp = (mp_start_address mp, mp_size mp, mp_block_size mp, mp_total_count mp)"

definition mp_holds :: "nat \<Rightarrow> u32 \<times> u32 \<times> u32 \<times> u32 \<Rightarrow> pools \<Rightarrow> (u32 \<Rightarrow> nat option) \<Rightarrow> bool" where
  "mp_holds i g S m \<longleftrightarrow> (\<exists>mp fs. mp_pools S i = Some mp \<and> geometry mp = g \<and> pool_ok i mp (mp_mem S) fs
     \<and> nobody_in i (mp_kern S) \<and> m = mp_live mp fs)"

lemma errno_links [simp]: "sc_links (client (rt_set_errno e k)) = sc_links (client k)"
  by (simp add: rt_set_errno_def set_error_def upd_sched_def upd_thread_def split: option.split)

lemma nobody_errno [simp]: "nobody_in i (rt_set_errno e k) = nobody_in i k"
  by (simp add: nobody_in_def)

lemma pool_simps [simp]:
  "mp_pools (set_word a w S) = mp_pools S" "mp_kern (set_word a w S) = mp_kern S" "mp_mem (set_word a w S) = (mp_mem S)(a := w)"
  "mp_pools (set_mp i mp S) = (mp_pools S)(i \<mapsto> mp)" "mp_kern (set_mp i mp S) = mp_kern S" "mp_mem (set_mp i mp S) = mp_mem S"
  "mp_pools (mp_upd_kern f S) = mp_pools S" "mp_mem (mp_upd_kern f S) = mp_mem S" "mp_kern (mp_upd_kern f S) = f (mp_kern S)"
  by (simp_all add: set_word_def set_mp_def mp_upd_kern_def)

lemma try_law:
  assumes "mp_holds i g S m"
  shows "\<exists>p S' m'. mp_try i n S = Inr (p, S') \<and> mp_holds i g S' m' \<and>
    (case p of None \<Rightarrow> m' = m | Some a \<Rightarrow> m a = None \<and> (\<exists>k. unat (fst (snd (snd g))) \<le> k \<and> m' = m(a \<mapsto> k)))"
proof -
  obtain mp fs where o: "mp_pools S i = Some mp" "geometry mp = g" "pool_ok i mp (mp_mem S) fs" "nobody_in i (mp_kern S)"
    "m = mp_live mp fs" using assms by (auto simp: mp_holds_def)
  have z: "mp_free_count mp = 0 \<longleftrightarrow> fs = []" using o(3) by (auto simp: pool_ok_def unat_eq_0)
  show ?thesis
  proof (cases fs)
    case Nil
    then have "mp_try i n S = Inr (None, mp_upd_kern (rt_set_errno (- RT_ETIMEOUT)) S)"
      using o(1) z by (simp add: mp_try_def rt_mp_alloc_def get_mp_def)
    then show ?thesis using assms by (auto simp: mp_holds_def)
  next
    case (Cons b fs')
    obtain n' where t: "mp_take i mp S = Inr (b + 4, set_word b (Of_Pool i) (set_mp i (mp\<lparr>mp_free_count := mp_free_count mp - 1, mp_block_list := n'\<rparr>) S))"
      "pool_ok i (mp\<lparr>mp_free_count := mp_free_count mp - 1, mp_block_list := n'\<rparr>) ((mp_mem S)(b := Of_Pool i)) fs'"
      using mp_take_ok[of i mp S b fs'] o(3) Cons by blast
    define mp' where "mp' = mp\<lparr>mp_free_count := mp_free_count mp - 1, mp_block_list := n'\<rparr>"
    define S' where "S' = set_word b (Of_Pool i) (set_mp i mp' S)"
    have b: "b \<in> blks mp" "b \<notin> set fs'" using o(3) Cons by (auto simp: pool_ok_def)
    have same: "geometry mp' = g" "blks mp' = blks mp" "mp_block_size mp' = mp_block_size mp"
      using o(2) by (simp_all add: mp'_def geometry_def blks_def blk_def)
    have "mp_try i n S = Inr (Some (b + 4), S')"
      using o(1) z Cons t(1) by (simp add: mp_try_def rt_mp_alloc_def get_mp_def S'_def mp'_def)
    moreover have "mp_live mp' fs' = m(b + 4 \<mapsto> unat (mp_block_size mp))"
      using b Cons unfolding o(5) by (auto simp: mp_live_def same fun_eq_iff)
    moreover have "m (b + 4) = None" using Cons by (simp add: o(5) mp_live_def)
    moreover have "mp_holds i g S' (mp_live mp' fs')"
      using t(2) o(4) same(1) unfolding mp_holds_def by (intro exI[of _ mp'] exI[of _ fs']) (simp add: S'_def mp'_def)
    moreover have "fst (snd (snd g)) = mp_block_size mp" using o(2) by (auto simp: geometry_def)
    ultimately show ?thesis by (intro exI[of _ "Some (b + 4)"] exI[of _ S'] exI[of _ "mp_live mp' fs'"]) auto
  qed
qed

lemma release_law:
  assumes "mp_holds i g S m" "m a = Some k"
  shows "\<exists>S'. mp_release (Some a) S = Inr S' \<and> mp_holds i g S' (m(a := None))"
proof -
  obtain mp fs where o: "mp_pools S i = Some mp" "geometry mp = g" "pool_ok i mp (mp_mem S) fs" "nobody_in i (mp_kern S)"
    "m = mp_live mp fs" using assms(1) by (auto simp: mp_holds_def)
  have b: "a - 4 \<in> blks mp" "a - 4 \<notin> set fs" using assms(2) by (auto simp: o(5) mp_live_def split: if_splits)
  have w: "mp_mem S (a - 4) = Of_Pool i" using o(3) b by (simp add: pool_ok_def)
  have a0: "a \<noteq> 0"
  proof
    assume "a = 0"
    then obtain j where j: "blk mp j = - 4" "j < unat (mp_total_count mp)" using b(1) by (auto simp: blks_def)
    have "fits_in mp" using o(3) by (simp add: pool_ok_def)
    then show False using blk_end[OF _ j(2)] j(1) by (simp add: fits_in_def stride_def)
  qed
  define mp' where "mp' = mp\<lparr>mp_free_count := mp_free_count mp + 1, mp_block_list := Some (a - 4)\<rparr>"
  define S' where "S' = set_word (a - 4) (Next_Free (mp_block_list mp)) (set_mp i mp' S)"
  have r: "mp_release (Some a) S = Inr S'"
    using a0 w o(1,4) by (simp add: mp_release_def rt_mp_free_def get_mp_def S'_def mp'_def Let_def)
  have same: "geometry mp' = g" "blks mp' = blks mp" "mp_block_size mp' = mp_block_size mp"
    using o(2) by (simp_all add: mp'_def geometry_def blks_def blk_def)
  have "pool_ok i mp' (mp_mem S') ((a - 4) # fs)" using mp_put_ok[OF o(3) b] by (simp add: S'_def mp'_def)
  moreover have "mp_live mp' ((a - 4) # fs) = m(a := None)" unfolding o(5) by (auto simp: mp_live_def same fun_eq_iff)
  ultimately have "mp_holds i g S' (m(a := None))"
    using o(4) same(1) unfolding mp_holds_def by (intro exI[of _ mp'] exI[of _ "(a - 4) # fs"]) (simp add: S'_def)
  then show ?thesis using r by blast
qed

lemma live_blk:
  assumes "pool_ok i mp m fs" "mp_live mp fs a = Some k"
  obtains j where "j < unat (mp_total_count mp)" "unat a = unat (mp_start_address mp) + j * stride mp + 4"
    "k + 4 = stride mp" "a - 4 = blk mp j"
proof -
  have f: "fits_in mp" using assms(1) by (simp add: pool_ok_def)
  obtain j where j: "a - 4 = blk mp j" "j < unat (mp_total_count mp)" "k = unat (mp_block_size mp)"
    using assms(2) by (auto simp: mp_live_def blks_def split: if_splits)
  have a: "a = blk mp j + 4" using j(1) by (simp add: algebra_simps)
  have "unat (blk mp j) + 4 < 4294967296" using blk_end[OF f j(2)] f by (simp add: fits_in_def stride_def)
  then have "unat a = unat (blk mp j) + 4" by (simp add: a unat_word_ariths)
  then show thesis using that[OF j(2)] unat_blk[OF f, of j] j by (simp add: stride_def)
qed

lemma apart_law:
  assumes "mp_holds i g S m" "m a = Some j" "m b = Some k" "a \<noteq> b"
  shows "unat a + j \<le> unat b \<or> unat b + k \<le> unat a"
proof -
  obtain mp fs where o: "pool_ok i mp (mp_mem S) fs" "m = mp_live mp fs" using assms(1) by (auto simp: mp_holds_def)
  obtain x where x: "unat a = unat (mp_start_address mp) + x * stride mp + 4" "j + 4 = stride mp" "a - 4 = blk mp x"
    by (rule live_blk[OF o(1) assms(2)[unfolded o(2)]]) blast
  obtain y where y: "unat b = unat (mp_start_address mp) + y * stride mp + 4" "k + 4 = stride mp" "b - 4 = blk mp y"
    by (rule live_blk[OF o(1) assms(3)[unfolded o(2)]]) blast
  have "x \<noteq> y" using x(1) y(1) assms(4) by (auto simp: word_unat_eq_iff)
  then consider "Suc x \<le> y" | "Suc y \<le> x" by linarith
  then show ?thesis
  proof cases
    case 1
    then have "Suc x * stride mp \<le> y * stride mp" by (rule mult_le_mono1)
    then show ?thesis using x y by simp
  next
    case 2
    then have "Suc y * stride mp \<le> x * stride mp" by (rule mult_le_mono1)
    then show ?thesis using x y by simp
  qed
qed

lemma place_law:
  assumes "mp_holds i g S m" "m a = Some k"
  shows "unat (fst g) \<le> unat a \<and> unat a + k \<le> unat (fst g) + unat (fst (snd g)) \<and> 4 dvd unat a"
proof -
  obtain mp fs where o: "pool_ok i mp (mp_mem S) fs" "m = mp_live mp fs" "geometry mp = g" using assms(1) by (auto simp: mp_holds_def)
  have f: "fits_in mp" using o(1) by (simp add: pool_ok_def)
  obtain x where x: "x < unat (mp_total_count mp)" "unat a = unat (mp_start_address mp) + x * stride mp + 4" "k + 4 = stride mp" "a - 4 = blk mp x"
    by (rule live_blk[OF o(1) assms(2)[unfolded o(2)]]) blast
  have "4 dvd stride mp" using f by (simp add: fits_in_def stride_def)
  then have "4 dvd unat a" using f unfolding x(2) fits_in_def by (meson dvd_add dvd_mult dvd_refl)
  then show ?thesis using blk_end[OF f x(1)] unat_blk[OF f, of x] x o(3) by (auto simp: geometry_def)
qed

interpretation mpool: allocator "mp_try i" mp_release "mp_holds i g" "\<lambda>_. unat (fst (snd (snd g)))" "unat (fst g)"
    "unat (fst g) + unat (fst (snd g))" for i g
  by unfold_locales (rule try_law, assumption, rule release_law, assumption+, rule apart_law, assumption+, rule place_law, assumption+)

lemma try_none:
  assumes "mp_holds i g S m" "mp_pools S i = Some mp"
  shows "\<exists>p S'. mp_try i n S = Inr (p, S') \<and> (p = None \<longleftrightarrow> mp_free_count mp = 0)"
proof (cases "mp_free_count mp = 0")
  case True
  then show ?thesis using assms(2) by (simp add: mp_try_def rt_mp_alloc_def get_mp_def)
next
  case False
  obtain fs where fs: "pool_ok i mp (mp_mem S) fs" using assms by (auto simp: mp_holds_def)
  then obtain b fs' where "fs = b # fs'" using False by (cases fs) (auto simp: pool_ok_def unat_eq_0)
  then show ?thesis using mp_take_ok[of i mp S b fs'] fs False assms(2) by (auto simp: mp_try_def rt_mp_alloc_def get_mp_def)
qed

section \<open>A new pool\<close>

lemma link_blocks_ok:
  assumes "fits_in mp" "o1 + n = unat (mp_total_count mp)"
  shows "\<exists>S'. link_blocks (mp_start_address mp) (mp_size mp) (mp_block_size mp + 4) n (of_nat o1) S = Inr S'
    \<and> mp_pools S' = mp_pools S \<and> mp_kern S' = mp_kern S
    \<and> (\<forall>j. o1 \<le> j \<and> j < unat (mp_total_count mp) \<longrightarrow> mp_mem S' (blk mp j) = Next_Free (Some (blk mp (j + 1))))
    \<and> (\<forall>a. a \<notin> blk mp ` {o1..<unat (mp_total_count mp)} \<longrightarrow> mp_mem S' a = mp_mem S a)"
  using assms(2)
proof (induction n arbitrary: o1 S)
  case 0
  then show ?case by (intro exI[of _ S]) auto
next
  case (Suc n)
  let ?N = "unat (mp_total_count mp)"
  define S1 where "S1 = set_word (blk mp o1) (Next_Free (Some (blk mp (o1 + 1)))) S"
  have lt: "o1 < ?N" using Suc.prems by simp
  have put: "put_word (mp_start_address mp) (mp_size mp) (blk mp o1) w S = Inr (set_word (blk mp o1) w S)" for w
    using blk_end[OF assms(1) lt] unat_blk[OF assms(1), of o1] lt by (simp add: put_word_def stride_def)
  obtain S' where S': "link_blocks (mp_start_address mp) (mp_size mp) (mp_block_size mp + 4) n (of_nat (o1 + 1)) S1 = Inr S'"
    "mp_pools S' = mp_pools S1" "mp_kern S' = mp_kern S1"
    "\<forall>j. o1 + 1 \<le> j \<and> j < ?N \<longrightarrow> mp_mem S' (blk mp j) = Next_Free (Some (blk mp (j + 1)))"
    "\<forall>a. a \<notin> blk mp ` {o1 + 1..<?N} \<longrightarrow> mp_mem S' a = mp_mem S1 a"
    using Suc.IH[of "o1 + 1" S1] Suc.prems by auto
  have nin: "blk mp o1 \<notin> blk mp ` {o1 + 1..<?N}" 
  proof
    assume "blk mp o1 \<in> blk mp ` {o1 + 1..<?N}"
    then obtain j where "blk mp o1 = blk mp j" "o1 + 1 \<le> j" "j < ?N" by auto
    then show False using blk_inj[OF assms(1), of o1 j] lt by simp
  qed
  have "link_blocks (mp_start_address mp) (mp_size mp) (mp_block_size mp + 4) (Suc n) (of_nat o1) S = Inr S'"
    using put[of "Next_Free (Some (blk mp (o1 + 1)))"] S'(1) by (simp add: blk_def S1_def add.commute)
  moreover have "mp_mem S' (blk mp j) = Next_Free (Some (blk mp (j + 1)))" if "o1 \<le> j" "j < ?N" for j
  proof (cases "j = o1")
    case True
    then show ?thesis using S'(5) nin by (simp add: S1_def)
  qed (use S'(4) that in simp)
  moreover have "mp_mem S' a = mp_mem S a" if "a \<notin> blk mp ` {o1..<?N}" for a
  proof -
    have "a \<noteq> blk mp o1" "a \<notin> blk mp ` {o1 + 1..<?N}" using that lt by auto
    then show ?thesis using S'(5) by (simp add: S1_def)
  qed
  ultimately show ?case using S'(2,3) by (intro exI[of _ S']) (simp add: S1_def)
qed

lemma free_chain_blks:
  assumes "fits_in mp" "o1 \<le> unat (mp_total_count mp)"
    "\<And>j. j < unat (mp_total_count mp) \<Longrightarrow> m (blk mp j) = Next_Free (if j + 1 < unat (mp_total_count mp) then Some (blk mp (j + 1)) else None)"
  shows "free_chain m (if o1 < unat (mp_total_count mp) then Some (blk mp o1) else None) (map (blk mp) [o1..<unat (mp_total_count mp)])"
  using assms(2)
proof (induction "unat (mp_total_count mp) - o1" arbitrary: o1)
  case (Suc d)
  then have lt: "o1 < unat (mp_total_count mp)" by simp
  then have "d = unat (mp_total_count mp) - (o1 + 1)" "o1 + 1 \<le> unat (mp_total_count mp)" using Suc(2) by simp_all
  from Suc(1)[OF this] show ?case using lt assms(3)[OF lt] by (simp add: upt_conv_Cons)
qed simp

lemma mp_obj_init_ok:
  assumes f: "fits_in mp" and l: "mp_block_list mp = Some (mp_start_address mp)" and c: "mp_free_count mp = mp_total_count mp"
  shows "\<exists>S'. mp_obj_init i mp S = Inr S' \<and> mp_holds i (geometry mp) S' (\<lambda>_. None)
    \<and> mp_pools S' = (mp_pools S)(i \<mapsto> mp) \<and> mp_kern S' = rt_ipc_object_init i (mp_kern S)"
proof -
  let ?N = "unat (mp_total_count mp)"
  have n: "0 < ?N" using f by (simp add: fits_in_def)
  obtain S1 where S1: "link_blocks (mp_start_address mp) (mp_size mp) (mp_block_size mp + 4) ?N 0 (mp_upd_kern (rt_ipc_object_init i) S) = Inr S1"
    "mp_pools S1 = mp_pools S" "mp_kern S1 = rt_ipc_object_init i (mp_kern S)"
    "\<forall>j. j < ?N \<longrightarrow> mp_mem S1 (blk mp j) = Next_Free (Some (blk mp (j + 1)))"
    using link_blocks_ok[OF f, of 0 ?N "mp_upd_kern (rt_ipc_object_init i) S"] by auto
  define lst where "lst = blk mp (?N - 1)"
  have a: "mp_start_address mp + (mp_total_count mp - 1) * (mp_block_size mp + 4) = lst"
    using n by (simp add: lst_def blk_def of_nat_diff)
  have put: "put_word (mp_start_address mp) (mp_size mp) lst w S1 = Inr (set_word lst w S1)" for w
    using blk_end[OF f, of "?N - 1"] unat_blk[OF f, of "?N - 1"] n by (simp add: put_word_def stride_def lst_def)
  define S' where "S' = set_mp i mp (set_word lst (Next_Free None) S1)"
  have i: "mp_obj_init i mp S = Inr S'" using S1(1) a put by (simp add: mp_obj_init_def Let_def S'_def)
  define fs where "fs = map (blk mp) [0..<?N]"
  have ne: "blk mp j \<noteq> lst" if "j + 1 < ?N" for j
    using blk_inj[OF f, of j "?N - 1"] that by (auto simp: lst_def)
  have m: "mp_mem S' (blk mp j) = Next_Free (if j + 1 < ?N then Some (blk mp (j + 1)) else None)" if "j < ?N" for j
  proof (cases "j + 1 < ?N")
    case True
    then show ?thesis using S1(4) ne that by (simp add: S'_def)
  next
    case False
    then have "j = ?N - 1" using that by simp
    then have "blk mp j = lst" by (simp add: lst_def)
    then show ?thesis using False by (simp add: S'_def)
  qed
  have "free_chain (mp_mem S') (Some (blk mp 0)) fs" using free_chain_blks[OF f, of 0 "mp_mem S'"] m n by (simp add: fs_def)
  moreover have "blk mp 0 = mp_start_address mp" by (simp add: blk_def)
  moreover have "distinct fs" unfolding fs_def distinct_map by (auto intro!: inj_onI intro: blk_inj[OF f])
  moreover have s: "set fs = blks mp" by (auto simp: fs_def blks_def)
  ultimately have p: "pool_ok i mp (mp_mem S') fs" using f l c by (simp add: pool_ok_def) (simp add: fs_def)
  have "mp_live mp fs = (\<lambda>_. None)" by (simp add: mp_live_def s)
  moreover have "nobody_in i (mp_kern S')"
    using S1(3) by (simp add: S'_def nobody_in_def rt_list_isempty_def rt_ipc_object_init_def rt_list_init_def upd_sched_def upd_sc_links_def)
  ultimately have "mp_holds i (geometry mp) S' (\<lambda>_. None)"
    using p unfolding mp_holds_def by (intro exI[of _ mp] exI[of _ fs]) (simp add: S'_def)
  then show ?thesis using i S1(2,3) by (intro exI[of _ S']) (simp add: S'_def)
qed

text \<open>What is free and what is in use make up the pool.\<close>

lemma holds_count:
  assumes "mp_holds i g S m" "mpool.holds g m held"
  shows "\<exists>mp. mp_pools S i = Some mp \<and> unat (mp_free_count mp) + length held = unat (snd (snd (snd g)))"
proof -
  obtain mp fs where o: "mp_pools S i = Some mp" "geometry mp = g" "pool_ok i mp (mp_mem S) fs" "m = mp_live mp fs"
    using assms(1) by (auto simp: mp_holds_def)
  have fi: "fits_in mp" using o(3) by (simp add: pool_ok_def)
  have "dom m = (\<lambda>b. b + 4) ` (blks mp - set fs)"
  proof
    show "dom m \<subseteq> (\<lambda>b. b + 4) ` (blks mp - set fs)"
    proof
      fix a assume "a \<in> dom m"
      then have "a - 4 \<in> blks mp - set fs" by (auto simp: o(4) mp_live_def split: if_splits)
      then show "a \<in> (\<lambda>b. b + 4) ` (blks mp - set fs)" by (rule rev_image_eqI) simp
    qed
  qed (auto simp: o(4) mp_live_def)
  then have "card (dom m) = card (blks mp - set fs)" by (simp add: card_image inj_on_def)
  also have "\<dots> = unat (mp_total_count mp) - length fs"
    using o(3) by (subst card_Diff_subset) (auto simp: pool_ok_def card_blks distinct_card)
  finally have "card (dom m) + length fs = unat (mp_total_count mp)" using pool_free_total[OF o(3)] by simp
  moreover have "card (dom m) = length held"
  proof -
    have h: "distinct (map fst held)" "dom m = set (map fst held)" using assms(2) by (simp_all add: mpool.holds_def)
    show ?thesis unfolding h(2) distinct_card[OF h(1)] by simp
  qed
  ultimately have "unat (mp_free_count mp) + length held = unat (mp_total_count mp)" using o(3) by (simp add: pool_ok_def)
  then show ?thesis using o(1,2) by (auto simp: geometry_def)
qed

section \<open>Waiting in front\<close>

lemma insert_front:
  assumes "dlist ls (Waiters i) (map Thread ws)" "t \<notin> set ws"
  shows "rt_list_insert_after (Waiters i) (Thread t) ls = rt_list_insert_before (hd (map Thread ws @ [Waiters i])) (Thread t) ls"
proof -
  define m where "m = hd (map Thread ws @ [Waiters i])"
  have m: "nxt ls (Waiters i) = m" "m \<noteq> Thread t" "links.prv ls m = Waiters i"
  proof -
    show "nxt ls (Waiters i) = m" using assms(1) chain_ends[of ls "Waiters i" "map Thread ws" "Waiters i"] by (simp add: dlist_def m_def)
    show "m \<noteq> Thread t" using assms(2) by (cases ws) (auto simp: m_def)
    show "links.prv ls m = Waiters i" using assms(1) by (cases ws) (simp_all add: m_def dlist_def)
  qed
  show ?thesis unfolding m_def[symmetric] using m
    by (simp add: rt_list_insert_after_def rt_list_insert_before_def Let_def set_next_def set_prev_def fun_eq_iff fun_upd_def)
qed

lemma mp_wait_kernel:
  assumes inv: "kernel_inv idle k L T xs" and l: "lock_nest (client k) = 0"
    and c: "current_thread (client k) = Some c" "c \<noteq> idle"
    and s: "sems (client k) i = Some (dummy RT_IPC_FLAG_FIFO)" and w: "time \<noteq> 0" "time < 2147483647"
  obtains k' L' xs' where "mp_wait i c time (set_error c RT_EOK k) = Inr k'" "kernel_inv idle k' L' T xs'"
    "\<And>x. cls (client k') x = (if x = c then RT_THREAD_SUSPEND else cls (client k) x)"
    "\<And>j. sems (client k) j \<noteq> None \<Longrightarrow> L' (Waiters j) = (if j = i then c # L (Waiters i) else L (Waiters j))"
    "\<And>x. th_error (threads (client k') x) = (if x = c then RT_EOK else th_error (threads (client k) x))"
    "same_setup (client k) (client k')"
proof -
  note iv = kernel_invD[OF inv]
  have cr: "c \<in> T" "st (client k) c = RT_THREAD_RUNNING"
    using running_thread[OF inv l] c(1) by (metis option.inject)+
  define k0 where "k0 = upd_sched (upd_thread c (\<lambda>th. th\<lparr>th_error := RT_EOK\<rparr>)) k"
  have k0': "set_error c RT_EOK k = k0" by (simp add: k0_def set_error_def)
  have ok0: "kernel_ok k0 L T xs" unfolding k0_def by (rule kernel_upd_thread[OF iv(1) same_sched_error]) simp
  have st0: "st (client k0) c = RT_THREAD_RUNNING" using cr(2) by (simp add: k0'[symmetric])
  obtain k1 where k1: "rt_thread_suspend c k0 = Inr (RT_EOK, k1)" "kernel_ok k1 L T xs"
    "in_no_list (heads (client k1)) L c" "st (client k1) c = RT_THREAD_SUSPEND" "sched_frame (client k0) (client k1)"
    "threads (client k1) = (threads (client k0))(c := set_stat RT_THREAD_SUSPEND (threads (client k0) c))"
    "rt_tick k1 = rt_tick k0" "\<And>x. x \<in> set xs \<Longrightarrow> tm_timer k1 x = tm_timer k0 x"
    by (rule suspend_running_ok[OF ok0 cr(1) st0]) blast
  define k2 where "k2 = upd_sched (upd_sc_links (rt_list_insert_after (Waiters i) (Thread c))) k1"
  have s0: "sems (client k0) i \<noteq> None" using s by (simp add: k0_def)
  then have i1: "sems (client k1) i \<noteq> None" using sched_frameD(1)[OF k1(5)] by simp
  have h: "Waiters i \<in> heads (client k1)" using i1 by simp
  have d: "dlist (sc_links (client k1)) (Waiters i) (map Thread (L (Waiters i)))"
    using sc_dlist[OF core_lists[OF ok_core[OF kernel_okD(1)[OF k1(2)]]] h] by simp
  have nc: "c \<notin> set (L (Waiters i))" using k1(3) h by (simp add: in_no_list_def)
  have L: "L (Waiters i) = [] @ L (Waiters i)" by simp
  have "k2 = upd_sched (upd_sc_links (rt_list_insert_before (hd (map Thread (L (Waiters i)) @ [Waiters i])) (Thread c))) k1"
    using insert_front[OF d nc] by (simp add: k2_def upd_sched_def upd_sc_links_def)
  then have ok2: "kernel_ok k2 (L(Waiters i := c # L (Waiters i))) T xs"
    using kernel_enqueue[OF k1(2) cr(1) k1(4,3) i1 L] by simp
  have f2: "sched_frame (client k0) (client k2)" "threads (client k2) = threads (client k1)" "rt_tick k2 = rt_tick k1"
    "tm_timer k2 = tm_timer k1" using k1(5) by (simp_all add: k2_def sched_frame_def)
  have v: "sem_value (dummy RT_IPC_FLAG_FIFO) = 0" by simp
  have so: "sem_flag (dummy RT_IPC_FLAG_FIFO) = RT_IPC_FLAG_PRIO \<Longrightarrow> sorted (map (prio (client k)) (c # L (Waiters i)))" by simp
  obtain k' L' xs' where k': "bindE (if time > 0 then start_thread_timer c (to_u32 time) k2 else Inr k2) (on_sched rt_schedule) = Inr k'"
    "kernel_inv idle k' L' T xs'" "same_setup (client k) (client k')" "rt_tick k' = rt_tick k"
    "\<And>x. cls (client k') x = (if x = c then RT_THREAD_SUSPEND else cls (client k) x)"
    "set xs' = (if time > 0 then insert (timer_of k c) (set xs) else set xs)"
    "time > 0 \<Longrightarrow> left k' (timer_of k c) = time"
    "\<And>j. sems (client k) j \<noteq> None \<Longrightarrow> L' (Waiters j) = (if j = i then c # L (Waiters i) else L (Waiters j))"
    "\<And>x. th_error (threads (client k') x) = (if x = c then RT_EOK else th_error (threads (client k) x))"
    by (rule wait_listed[OF inv l c s v w so k0_def ok2 f2(1)]) (use f2(2-4) k1(6-8) in simp_all)
  have "mp_wait i c time (set_error c RT_EOK k) = Inr k'" using k1(1) k'(1)
    by (cases "time > 0") (simp_all add: mp_wait_def k0' Let_def k2_def[symmetric])
  then show thesis using that k'(2,3,5,8,9) by blast
qed

lemma mp_wait_blind: "mp_wait i t time (ghost g k) = map_sum id (ghost g) (mp_wait i t time k)"
  by (cases "time > 0") (simp_all add: mp_wait_def blind suspend_blind ghost_upd start_timer_blind on_sched_blind schedule_blind case_prod_unfold)

lemma mp_wait_ok:
  assumes inv: "kernel_inv idle (ghost g k) L T xs" and l: "lock_nest (client k) = 0"
    and c: "current_thread (client k) = Some c" "c \<noteq> idle" and h: "g i = Some (dummy RT_IPC_FLAG_FIFO)"
    and w: "time \<noteq> 0" "time < 2147483647"
  obtains k' L' xs' where "mp_wait i c time (set_error c RT_EOK k) = Inr k'" "kernel_inv idle (ghost g k') L' T xs'"
    "\<And>x. cls (client k') x = (if x = c then RT_THREAD_SUSPEND else cls (client k) x)"
    "L' (Waiters i) = c # L (Waiters i)"
    "\<And>x. th_error (threads (client k') x) = (if x = c then RT_EOK else th_error (threads (client k) x))"
proof -
  have a: "lock_nest (client (ghost g k)) = 0" "current_thread (client (ghost g k)) = Some c"
    "sems (client (ghost g k)) i = Some (dummy RT_IPC_FLAG_FIFO)" using l c h by simp_all
  obtain kg' L' xs' where kg': "mp_wait i c time (set_error c RT_EOK (ghost g k)) = Inr kg'" "kernel_inv idle kg' L' T xs'"
    "\<And>x. cls (client kg') x = (if x = c then RT_THREAD_SUSPEND else cls (client (ghost g k)) x)"
    "\<And>j. sems (client (ghost g k)) j \<noteq> None \<Longrightarrow> L' (Waiters j) = (if j = i then c # L (Waiters i) else L (Waiters j))"
    "\<And>x. th_error (threads (client kg') x) = (if x = c then RT_EOK else th_error (threads (client (ghost g k)) x))"
    by (rule mp_wait_kernel[OF inv a(1,2) c(2) a(3) w]) blast
  have "set_error c RT_EOK (ghost g k) = ghost g (set_error c RT_EOK k)" by (simp add: set_error_def ghost_upd)
  then obtain k' where k': "mp_wait i c time (set_error c RT_EOK k) = Inr k'" "kg' = ghost g k'"
    using kg'(1) by (auto simp: mp_wait_blind ghost_map)
  have cl: "cls (with_sems g s) x = cls s x" for s x by (simp add: cls_def)
  show thesis using that[OF k'(1)] kg'(2-5) h unfolding k'(2) by (simp add: cl)
qed

lemma mp_wake_ok:
  assumes inv: "kernel_inv idle (ghost g k) L T xs" and h: "g i \<noteq> None" and w: "L (Waiters i) = t # ws"
  obtains k' L' xs' where "mp_wake i k = Inr k'" "kernel_inv idle (ghost g k') L' T xs'"
    "\<And>x. cls (client k') x = (if x = t then RT_THREAD_READY else cls (client k) x)"
    "L' (Waiters i) = ws"
    "\<And>x. th_error (threads (client k') x) = (if x = t then RT_EOK else th_error (threads (client k) x))"
proof -
  have inv': "kernel_inv idle (ghost g (set_error t RT_EOK k)) L T xs" by (rule error_kept[OF inv])
  obtain k' L' xs' where k': "wake_in i (set_error t RT_EOK k) = Inr k'" "kernel_inv idle (ghost g k') L' T xs'"
    "\<And>x. cls (client k') x = (if x = t then RT_THREAD_READY else cls (client (set_error t RT_EOK k)) x)"
    "\<And>j. g j \<noteq> None \<Longrightarrow> L' (Waiters j) = (if j = i then ws else L (Waiters j))"
    "\<And>x. th_error (threads (client k') x) = th_error (threads (client (set_error t RT_EOK k)) x)"
    by (rule wake_in_ok[OF inv' h w]) blast
  have f: "nxt (sc_links (client k)) (Waiters i) = Thread t"
  proof -
    have "t # ws = L (Waiters i)" using w by simp
    then have "dlist (sc_links (client k)) (Waiters i) (map Thread (t # ws))" unfolding ghost_waiters[OF inv h] .
    then show ?thesis by (simp add: dlist_first)
  qed
  have "mp_wake i k = wake_in i (set_error t RT_EOK k)"
    using f by (simp add: mp_wake_def wake_in_def rt_ipc_list_resume_def bindE_assoc case_prod_unfold)
  then show thesis using that k' h by (simp add: cls_def)
qed

section \<open>Pools and the kernel\<close>

definition mp_good :: "nat \<Rightarrow> (nat \<Rightarrow> rt_sem option) \<Rightarrow> nat set \<Rightarrow> nat \<Rightarrow> pools \<Rightarrow> bool" where
  "mp_good idle g T i S \<longleftrightarrow> g i = Some (dummy RT_IPC_FLAG_FIFO)
     \<and> (\<exists>L xs. kernel_inv idle (ghost g (mp_kern S)) L T xs) \<and> (\<exists>mp fs. mp_pools S i = Some mp \<and> pool_ok i mp (mp_mem S) fs)"

definition mp_waiters :: "pools \<Rightarrow> nat \<Rightarrow> nat list \<Rightarrow> bool" where
  "mp_waiters S i ws \<longleftrightarrow> dlist (sc_links (client (mp_kern S))) (Waiters i) (map Thread ws)"

definition mp_room :: "nat \<Rightarrow> pools \<Rightarrow> nat" where
  "mp_room i S = (case mp_pools S i of None \<Rightarrow> 0 | Some mp \<Rightarrow> unat (mp_free_count mp))"

text \<open>\<open>a\<close> is the address of a block of the pool that is in use.\<close>

definition mp_used :: "nat \<Rightarrow> pools \<Rightarrow> u32 \<Rightarrow> bool" where
  "mp_used i S a \<longleftrightarrow> (case mp_pools S i of None \<Rightarrow> False | Some mp \<Rightarrow> a - 4 \<in> blks mp \<and> mp_mem S (a - 4) = Of_Pool i)"

lemma used_not_free:
  assumes "free_chain m p fs" "b \<in> set fs"
  shows "\<exists>n. m b = Next_Free n"
  using assms by (induction fs arbitrary: p) (auto split: mp_word.splits)

lemma used_blk:
  assumes "pool_ok i mp m fs" "a - 4 \<in> blks mp" "m (a - 4) = Of_Pool i"
  shows "a - 4 \<notin> set fs" "a \<noteq> 0"
proof -
  show nf: "a - 4 \<notin> set fs" using assms(1,3) used_not_free by (fastforce simp: pool_ok_def)
  have "mp_live mp fs a = Some (unat (mp_block_size mp))" using assms(2) nf by (simp add: mp_live_def)
  then obtain j where "unat a = unat (mp_start_address mp) + j * stride mp + 4" by (rule live_blk[OF assms(1)]) blast
  then show "a \<noteq> 0" by auto
qed

lemma mp_exhausted:
  assumes "mp_good idle g T i S" "mp_room i S = 0"
  obtains L xs mp where "kernel_inv idle (ghost g (mp_kern S)) L T xs" "mp_pools S i = Some mp" "pool_ok i mp (mp_mem S) []"
    "mp_free_count mp = 0"
proof -
  obtain L xs mp fs where o: "kernel_inv idle (ghost g (mp_kern S)) L T xs" "mp_pools S i = Some mp" "pool_ok i mp (mp_mem S) fs"
    using assms(1) by (auto simp: mp_good_def)
  have "mp_free_count mp = 0" using assms(2) o(2) by (simp add: mp_room_def unat_eq_0)
  moreover from this have "fs = []" using o(3) by (simp add: pool_ok_def)
  ultimately show thesis using that o by simp
qed

section \<open>Properties\<close>

text \<open>C3: a new pool with room for a block, in aligned memory that ends below the top of the address space, and a
  caller that never waits and releases only what it holds: whatever it does, no call faults, the blocks it
  holds lie in the pool, aligned, as large as the block size, and apart; with those that are free they are
  all blocks of the pool, and only when it holds all of them it gets no more.\<close>

theorem mempool_sessions_safe:
  assumes st: "start \<noteq> 0" "4 dvd unat start" "unat start + unat pool_size < 4294967296"
    and bs: "0 < block_size" "unat block_size < 4294967289"
    and room: "unat (rt_align block_size) + 4 \<le> unat (rt_align_down pool_size)"
  shows "\<exists>S0 held S' mp. rt_mp_init i start pool_size block_size S = Inr (RT_EOK, S0)
    \<and> session (mp_try i) mp_release rs [] S0 = Inr (held, S')
    \<and> (\<forall>(a, n)\<in>set held. unat start \<le> unat a \<and> unat a + unat block_size \<le> unat start + unat pool_size \<and> 4 dvd unat a)
    \<and> (\<forall>j l. j < length held \<and> l < length held \<and> j \<noteq> l \<longrightarrow>
        (case (held ! j, held ! l) of ((a, n), (b, k)) \<Rightarrow>
           unat a + unat block_size \<le> unat b \<or> unat b + unat block_size \<le> unat a))
    \<and> mp_pools S' i = Some mp
    \<and> unat (mp_free_count mp) + length held = unat (rt_align_down pool_size) div (unat (rt_align block_size) + 4)
    \<and> (\<exists>p S''. mp_try i n S' = Inr (p, S'') \<and> (p = None \<longleftrightarrow> mp_free_count mp = 0))"
proof -
  define sz b where "sz = rt_align_down pool_size" and "b = rt_align block_size"
  define mp0 where "mp0 = \<lparr>mp_static = True, mp_start_address = start, mp_size = sz, mp_block_size = b,
         mp_block_list = Some start, mp_total_count = sz div (b + 4), mp_free_count = sz div (b + 4)\<rparr>"
  have ub: "unat b = 4 * ((unat block_size + 3) div 4)" using bs(2) by (simp add: b_def unat_rt_align)
  have b1: "unat block_size \<le> unat b" "unat b + 4 < 4294967296" "4 dvd unat b" using bs(2) unfolding ub by simp_all
  then have b4: "unat (b + 4) = unat b + 4" by (simp add: unat_word_ariths)
  have us: "unat sz \<le> unat pool_size" unfolding sz_def rt_align_down_def and_not_3 by simp
  have p0: "0 < pool_size"
  proof (rule ccontr)
    assume "\<not> 0 < pool_size"
    then have "pool_size = 0" by (simp add: word_gt_0)
    then have "unat sz \<le> 0" using us by (simp only: unat_0)
    then show False using room unfolding sz_def[symmetric] by linarith
  qed
  have tot: "unat (sz div (b + 4)) = unat sz div (unat b + 4)" by (simp add: unat_div b4)
  have f: "fits_in mp0"
  proof -
    have "0 < unat sz div (unat b + 4)" using room by (simp add: sz_def b_def div_greater_zero_iff)
    moreover have "unat sz div (unat b + 4) * (unat b + 4) \<le> unat sz" by simp
    ultimately show ?thesis using st us b1(3) by (simp add: fits_in_def mp0_def stride_def tot)
  qed
  obtain S0 where S0: "mp_obj_init i mp0 S = Inr S0" "mp_holds i (geometry mp0) S0 (\<lambda>_. None)"
    using mp_obj_init_ok[OF f, of i S] by (auto simp: mp0_def)
  have nz: "b + 4 \<noteq> 0" using b4 by auto
  have init: "rt_mp_init i start pool_size block_size S = Inr (RT_EOK, S0)"
    using st(1) bs(1) p0 nz S0(1) by (simp add: rt_mp_init_def sz_def[symmetric] b_def[symmetric] mp0_def Let_def)
  have g: "geometry mp0 = (start, sz, b, sz div (b + 4))" by (simp add: geometry_def mp0_def)
  note h0 = S0(2)[unfolded g]
  let ?g = "(start, sz, b, sz div (b + 4))"
  have "mpool.holds ?g (\<lambda>_. None) []" by (simp only: mpool.holds_def) simp
  then obtain held S' m where s: "session (mp_try i) mp_release rs [] S0 = Inr (held, S')" "mp_holds i ?g S' m" "mpool.holds ?g m held"
    using mpool.session_ok[OF h0] by blast
  obtain mp where mp: "mp_pools S' i = Some mp" "unat (mp_free_count mp) + length held = unat sz div (unat b + 4)"
    using holds_count[OF s(2,3)] tot by auto
  have place: "unat start \<le> unat a \<and> unat a + unat block_size \<le> unat start + unat pool_size \<and> 4 dvd unat a" if "(a, n) \<in> set held" for a n
    using mpool.holds_place[OF s(2,3) that] b1(1) us by auto
  have apart: "unat a + unat block_size \<le> unat c \<or> unat c + unat block_size \<le> unat a"
    if "j < length held" "l < length held" "j \<noteq> l" "held ! j = (a, n)" "held ! l = (c, k)" for j l a n c k
    using mpool.holds_apart[OF s(2,3) that] b1(1) by auto
  have ask: "\<exists>p S''. mp_try i n S' = Inr (p, S'') \<and> (p = None \<longleftrightarrow> mp_free_count mp = 0)"
    by (rule try_none[OF s(2) mp(1)])
  show ?thesis
    using init s(1) place apart mp ask unfolding sz_def[symmetric] b_def[symmetric]
    by (intro exI[of _ S0] exI[of _ held] exI[of _ S'] exI[of _ mp]) (fastforce split: prod.split)
qed

lemma mempool_sessions_safe_witness:
  "\<forall>S. \<exists>S0 held S' mp. rt_mp_init 3 0x20000000 100 10 S = Inr (RT_EOK, S0)
     \<and> session (mp_try 3) mp_release [Alloc 0, Alloc 0, Release 1, Alloc 0] [] S0 = Inr (held, S')
     \<and> mp_pools S' 3 = Some mp \<and> unat (mp_free_count mp) + length held = 6"
proof
  fix S :: pools
  have a: "rt_align 10 = 12" "rt_align_down 100 = 100" by (simp_all add: rt_align_def rt_align_down_def)
  have "unat (rt_align 10) + 4 \<le> unat (rt_align_down 100)" by (simp add: a)
  from mempool_sessions_safe[where start = "0x20000000" and i = 3 and S = S and n = 0
      and rs = "[Alloc 0, Alloc 0, Release 1, Alloc 0]", OF _ _ _ _ _ this]
  show "\<exists>S0 held S' mp. rt_mp_init 3 0x20000000 100 10 S = Inr (RT_EOK, S0)
     \<and> session (mp_try 3) mp_release [Alloc 0, Alloc 0, Release 1, Alloc 0] [] S0 = Inr (held, S')
     \<and> mp_pools S' 3 = Some mp \<and> unat (mp_free_count mp) + length held = 6"
    unfolding a by (simp del: session.simps) blast
qed

text \<open>C37: the last thread that waits for a block is the first to get one: on a pool without free blocks a thread
  that asks for one with a wait goes to the front of those that wait, \<open>ws\<close>; the next release makes it ready, and
  when it goes on before anyone else takes a block it gets the one released, while those before it still
  wait (for a thread that is not the idle one, with the scheduler not locked).\<close>

theorem mp_last_served_first:
  assumes ok: "mp_good idle g T i S" "mp_room i S = 0" and ws: "mp_waiters S i ws" and a: "mp_used i S a"
    and l: "lock_nest (client (mp_kern S)) = 0" "interrupt_nest (client (mp_kern S)) = 0"
    and c: "current_thread (client (mp_kern S)) = Some c" "c \<noteq> idle" and t: "time \<noteq> 0" "time < 2147483647"
  shows "\<exists>S1 S2 S3. rt_mp_alloc i time S = Inr (Mp_Waits, S1) \<and> cls (client (mp_kern S1)) c = RT_THREAD_SUSPEND
    \<and> mp_waiters S1 i (c # ws)
    \<and> rt_mp_free a S1 = Inr S2 \<and> cls (client (mp_kern S2)) c = RT_THREAD_READY \<and> mp_waiters S2 i ws
    \<and> rt_mp_alloc_back c i time (rt_tick (mp_kern S)) S2 = Inr (Block (Some a), S3)
    \<and> mp_good idle g T i S3 \<and> mp_room i S3 = 0 \<and> mp_used i S3 a \<and> mp_waiters S3 i ws"
proof -
  obtain L xs mp where o: "kernel_inv idle (ghost g (mp_kern S)) L T xs" "mp_pools S i = Some mp" "pool_ok i mp (mp_mem S) []"
    "mp_free_count mp = 0" by (rule mp_exhausted[OF ok])
  have gi: "g i = Some (dummy RT_IPC_FLAG_FIFO)" "g i \<noteq> None" using ok(1) by (simp_all add: mp_good_def)
  have L: "L (Waiters i) = ws" using ws ghost_waiters[OF o(1) gi(2)] by (simp add: mp_waiters_def)
  obtain k1 L1 xs1 where k1: "mp_wait i c time (set_error c RT_EOK (mp_kern S)) = Inr k1" "kernel_inv idle (ghost g k1) L1 T xs1"
    "\<And>x. cls (client k1) x = (if x = c then RT_THREAD_SUSPEND else cls (client (mp_kern S)) x)"
    "L1 (Waiters i) = c # L (Waiters i)"
    "\<And>x. th_error (threads (client k1) x) = (if x = c then RT_EOK else th_error (threads (client (mp_kern S)) x))"
    by (rule mp_wait_ok[OF o(1) l(1) c gi(1) t]) blast
  define S1 where "S1 = S\<lparr>mp_kern := k1\<rparr>"
  have cx: "in_thread_context (mp_kern S) = Inr c"
    using c(1) l(2) by (simp add: in_thread_context_def self_thread_def not_in_interrupt_def)
  have alloc: "rt_mp_alloc i time S = Inr (Mp_Waits, S1)"
    using o(2,4) t(1) cx k1(1) by (simp add: rt_mp_alloc_def get_mp_def mp_on_kern_def S1_def mp_upd_kern_def)
  have a': "a - 4 \<in> blks mp" "mp_mem S (a - 4) = Of_Pool i" using a o(2) by (simp_all add: mp_used_def)
  have a0: "a \<noteq> 0" using used_blk[OF o(3) a'] by simp
  have w1: "L1 (Waiters i) = c # ws" using k1(4) L by simp
  obtain k2 L2 xs2 where k2: "mp_wake i k1 = Inr k2" "kernel_inv idle (ghost g k2) L2 T xs2"
    "\<And>x. cls (client k2) x = (if x = c then RT_THREAD_READY else cls (client k1) x)" "L2 (Waiters i) = ws"
    "\<And>x. th_error (threads (client k2) x) = (if x = c then RT_EOK else th_error (threads (client k1) x))"
    by (rule mp_wake_ok[OF k1(2) gi(2) w1]) blast
  define mp2 where "mp2 = mp\<lparr>mp_free_count := mp_free_count mp + 1, mp_block_list := Some (a - 4)\<rparr>"
  define S2 where "S2 = (set_word (a - 4) (Next_Free (mp_block_list mp)) (set_mp i mp2 S))\<lparr>mp_kern := k2\<rparr>"
  have nb: "\<not> nobody_in i k1" using nobody_iff[OF k1(2) gi(2)] w1 by simp
  have free: "rt_mp_free a S1 = Inr S2"
    using a0 a'(2) o(2) nb k2(1)
    by (simp add: rt_mp_free_def get_mp_def mp_on_kern_def S1_def S2_def mp2_def Let_def set_word_def set_mp_def)
  have p2: "pool_ok i mp2 (mp_mem S2) [a - 4]"
    using mp_put_ok[OF o(3) a'(1)] by (simp add: S2_def mp2_def)
  obtain n where n: "mp_take i mp2 S2 = Inr (a - 4 + 4, set_word (a - 4) (Of_Pool i) (set_mp i (mp2\<lparr>mp_free_count := mp_free_count mp2 - 1, mp_block_list := n\<rparr>) S2))"
    "pool_ok i (mp2\<lparr>mp_free_count := mp_free_count mp2 - 1, mp_block_list := n\<rparr>) ((mp_mem S2)(a - 4 := Of_Pool i)) []"
    using mp_take_ok[OF p2] by blast
  define mp3 where "mp3 = mp2\<lparr>mp_free_count := mp_free_count mp2 - 1, mp_block_list := n\<rparr>"
  define S3 where "S3 = set_word (a - 4) (Of_Pool i) (set_mp i mp3 S2)"
  have f2: "mp_pools S2 i = Some mp2" "mp_free_count mp2 = 1" "mp_kern S2 = k2" using o(4) by (simp_all add: S2_def mp2_def)
  have goes_on: "rt_mp_alloc_back c i time (rt_tick (mp_kern S)) S2 = Inr (Block (Some a), S3)"
    using f2 k2(5)[of c] n(1) by (simp add: rt_mp_alloc_back_def rt_mp_alloc_def get_mp_def S3_def mp3_def)
  have k3: "mp_kern S3 = k2" "mp_pools S3 i = Some mp3" "mp_free_count mp3 = 0" using f2 by (simp_all add: S3_def mp3_def)
  have "mp_good idle g T i S3"
    using gi(1) k2(2) k3(1,2) n(2) unfolding mp_good_def by (auto simp: S3_def mp3_def)
  moreover have "blks mp3 = blks mp" by (simp add: mp3_def mp2_def blks_def blk_def)
  then have "mp_used i S3 a" using k3(2) a'(1) by (simp add: mp_used_def) (simp add: S3_def)
  moreover have "mp_waiters S1 i (c # ws)" "mp_waiters S2 i ws" "mp_waiters S3 i ws"
    using ghost_waiters[OF k1(2) gi(2), of "c # ws"] ghost_waiters[OF k2(2) gi(2), of ws] w1 k2(4) f2(3) k3(1)
    by (simp_all add: mp_waiters_def S1_def)
  moreover have "cls (client (mp_kern S1)) c = RT_THREAD_SUSPEND" "cls (client (mp_kern S2)) c = RT_THREAD_READY" "mp_room i S3 = 0"
    using k1(3) k2(3) f2(3) k3 by (simp_all add: S1_def mp_room_def)
  ultimately show ?thesis using alloc free goes_on by blast
qed

lemma mp_last_served_first_witness:
  "\<exists>S g S1 S2 S3. mp_good 2 g {0, 1, 2} 7 S \<and> rt_mp_alloc 7 (-1) S = Inr (Mp_Waits, S1) \<and> mp_waiters S1 7 [1]
    \<and> rt_mp_free 0x20000004 S1 = Inr S2
    \<and> rt_mp_alloc_back 1 7 (-1) (rt_tick (mp_kern S)) S2 = Inr (Block (Some 0x20000004), S3)"
proof -
  obtain S0 where S0: "ipc_good 2 (\<lambda>_. None) {0, 1, 2} S0" "lock_nest (client (kern S0)) = 0" "interrupt_nest (client (kern S0)) = 0"
    "current_thread (client (kern S0)) = Some 1" by (rule ex_ipc)
  define g where "g = (\<lambda>_ :: nat. None)(7 \<mapsto> dummy RT_IPC_FLAG_FIFO)"
  define mp where "mp = \<lparr>mp_static = True, mp_start_address = 0x20000000, mp_size = 16, mp_block_size = 12,
    mp_block_list = None, mp_total_count = 1, mp_free_count = 0\<rparr>"
  define S where "S = \<lparr>mp_kern = rt_ipc_object_init 7 (kern S0), mp_pools = [7 \<mapsto> mp], mp_mem = (\<lambda>_. Of_Pool 7)\<rparr>"
  have "kernel_good 2 {0, 1, 2} (ghost g (mp_kern S))"
    using good_list_init[of 2 "{0, 1, 2}" "\<lambda>_. None" "kern S0" 7 RT_IPC_FLAG_FIFO] S0(1) by (simp add: S_def g_def ipc_good_def)
  then obtain L xs where inv: "kernel_inv 2 (ghost g (mp_kern S)) L {0, 1, 2} xs" by (rule kernel_goodE)
  have b: "blks mp = {0x20000000}" by (auto simp: blks_def blk_def mp_def lessThan_Suc)
  have "pool_ok 7 mp (mp_mem S) []" by (simp add: pool_ok_def fits_in_def stride_def b S_def) (simp add: mp_def)
  then have ok: "mp_good 2 g {0, 1, 2} 7 S" "mp_room 7 S = 0"
    using inv by (auto simp: mp_good_def mp_room_def S_def g_def mp_def)
  have w: "mp_waiters S 7 []" using list_init_empty by (simp add: mp_waiters_def S_def)
  have u: "mp_used 7 S 0x20000004" by (simp add: mp_used_def S_def b)
  have l: "lock_nest (client (mp_kern S)) = 0" "interrupt_nest (client (mp_kern S)) = 0" "current_thread (client (mp_kern S)) = Some 1"
    using S0 by (simp_all add: S_def)
  show ?thesis using mp_last_served_first[OF ok w u l, of "-1"] ok(1) by auto
qed

section \<open>A pool without blocks\<close>

text \<open>When there is no room for a block, the word before the first one is written.\<close>

lemma mp_init_small:
  assumes "0 < pool_size" "0 < block_size" "unat block_size < 4294967289"
    and "unat (rt_align_down pool_size) < unat (rt_align block_size) + 4" "unat (rt_align block_size) + 4 \<le> unat start"
  shows "rt_mp_init i start pool_size block_size S = Inl Out_Of_Bounds"
proof -
  define sz b where "sz = rt_align_down pool_size" and "b = rt_align block_size"
  have "unat b = 4 * ((unat block_size + 3) div 4)" using assms(3) by (simp add: b_def unat_rt_align)
  then have "unat b + 4 < 4294967296" using assms(3) by simp
  then have b4: "unat (b + 4) = unat b + 4" by (simp add: unat_word_ariths)
  then have "unat (sz div (b + 4)) = 0" using assms(4) by (simp add: unat_div sz_def b_def)
  then have z: "sz div (b + 4) = 0" by (simp add: unat_eq_0)
  have nz: "b + 4 \<noteq> 0" using b4 by auto
  have s0: "start \<noteq> 0" using assms(5) by auto
  have le: "b + 4 \<le> start" using assms(5) b4 by (simp add: word_le_nat_alt b_def)
  have "unat (start - (b + 4)) = unat start - unat (b + 4)" using le by (rule unat_sub)
  then have "unat (start - (b + 4)) < unat start" using b4 assms(5) unfolding b_def[symmetric] by linarith
  moreover have "start + (0 - 1) * (b + 4) = start - (b + 4)" by simp
  ultimately have "put_word start sz (start + (0 - 1) * (b + 4)) w S' = Inl Out_Of_Bounds" for w S'
    by (simp only: put_word_def) simp
  then show ?thesis using assms(1,2) nz s0
    by (simp add: rt_mp_init_def sz_def[symmetric] b_def[symmetric] z mp_obj_init_def Let_def del: minus_add_distrib)
qed

end
