(* ===== verification/Spec2Isabelle.thy ===== *)
theory Spec2Isabelle
  imports App_Props Gpio_Irq Ringbuffer_Props Rt_Timer_Props Mem_Props Ipc_Props Shell_Props Console_Props
    Mempool_Props
begin

text \<open>
  The firmware of a tone transmitter on an STM32F103RC with RT-Thread 4.0.2: the application under
  \<open>src/applications/\<close>, and the parts of RT-Thread, of its STM32 drivers and of the STM32 HAL the
  application rests on. Paths below are relative to \<open>src/\<close>.

  \<^bold>\<open>How the parts interact.\<close> \<open>main.c\<close> sets the registers up and runs the idle loop. The registers
  are two tables of pointers into the global \<open>g_sys\<close> (\<open>gvar.c\<close>); a write checks limits, stores, and
  runs the action behind the register (\<open>reg_chk.c\<close>), which drives the output stage (\<open>dac_drv.c\<close>): a
  DAC level and a wave that the callback of a hardware timer makes by toggling two pins. The timer
  is a device of the framework \<open>hwtimer.c\<close> over the driver \<open>drv_hwtimer.c\<close>. Buttons are sampled by
  a kernel timer (\<open>pb_drv.c\<close>) and run the same actions; the battery is read through the ADC
  (\<open>bat_drv.c\<close>); LEDs show the state (\<open>led_drv.c\<close>). Shell commands reach the registers and the AT
  client: the interrupt of the UART queues a byte (\<open>serial.c\<close>) and releases a semaphore, the shell thread
  reads it, edits a line, splits it, and calls the command. Underneath are the kernel timers and lists,
  the ring buffer and the kernel heap.

  \<^bold>\<open>Conventions.\<close> \<open>Prelude\<close>: unsigned integers are words of their width (they wrap), C \<open>int\<close> values
  are integers brought to their width where the code converts them; a fallible operation returns
  \<open>fault + 'a\<close>, where a fault is an undefined behaviour, a failed \<open>RT_ASSERT\<close> (which spins), the
  requested reset, or \<open>No_Return\<close> for a loop that never ends. State is passed explicitly, in records
  with the C field names. A floating-point value is the rational it stands for, and every operation
  rounds (\<open>Ieee_Float\<close>). No fuel is used: a loop whose end is not structural is a
  \<open>partial_function (option)\<close>, and the lemmas prove that it returns (or, for
  \<open>zero_period_hangs\<close>, \<open>soft_timer_hangs\<close> and \<open>tiny_heap_hangs\<close>, that it does not).

  \<^bold>\<open>Theories and sources.\<close>
  \<^item> \<open>Gpio\<close>, \<open>Gpio_Irq\<close>: HAL GPIO, \<open>drv_gpio.c\<close>, \<open>pin.c\<close>; pins, and the NVIC interrupts shared by lines.
  \<^item> \<open>Sys_Conf\<close>, \<open>Gvar\<close>, \<open>Gvar_Facts\<close>, \<open>Gvar_Props\<close>: \<open>sys_conf.h\<close>, \<open>gvar.c\<close>; tables, defaults, register
    reads and writes. The lemmas show what a write stores, what it leaves, and when it fails.
  \<^item> \<open>Reg_Chk\<close>, \<open>App_Inv\<close>: \<open>reg_chk.c\<close> and the invariant \<open>app_inv\<close> every action keeps: configuration
    and indices within their limits, the timer device open and ready, a frequency it can make.
  \<^item> \<open>Hwtimer\<close>, \<open>Timeout_Calc\<close>, \<open>Hwtimer_Period\<close>: \<open>hwtimer.c\<close>, \<open>drv_hwtimer.c\<close>, \<open>device.c\<close>, HAL TIM. The
    period is proved for 2..65000 microseconds, what the frequencies 8..32767 Hz of the registers
    ask for, and for every number of interrupts up to 2147483647, the range of the cycle counter.
  \<^item> \<open>Board\<close>, \<open>Dac_Drv\<close>, \<open>Led_Drv\<close>, \<open>Adc\<close>, \<open>Bat_Drv\<close>, \<open>Bat_Facts\<close>, \<open>Pb_Drv\<close>: the state of the
    board and the drivers of \<open>applications/\<close>, \<open>adc.c\<close>, \<open>drv_adc.c\<close> (\<open>atoi\<close> is in \<open>Prelude\<close>). The lemmas show the wave,
    the patterns of the LEDs, the rounding of the conversions, the moving average as a mean, and
    the debouncing of the buttons.
  \<^item> \<open>App_Main\<close>, \<open>App_Props\<close>: \<open>main.c\<close>; the application as a state machine (\<open>app_step\<close>) with its
    reachable states. A delay of a thread (\<open>rt_thread_delay\<close> of \<open>Board\<close>) only counts the ticks there: the
    application's state has no threads, and the call is taken as returning after them. That is so for a
    thread, but the buttons reach the same delay inside of the tick interrupt, where it suspends the thread
    that was interrupted; \<open>idle_sleep_leaves_nobody\<close> (\<open>Kernel_Props\<close>) shows on the kernel what that does
    to the idle thread. So nothing here says that the button timer cannot fail there.
  \<^item> \<open>Ringbuffer\<close>, \<open>Ringbuffer_Facts\<close>, \<open>Ringbuffer_Props\<close>: \<open>ringbuffer.c\<close>; the locale \<open>byte_queue\<close> is the
    contract of a queue, \<open>rbq\<close> its interpretation on the ring buffer.
  \<^item> \<open>Rt_List\<close>, \<open>Rt_Timer\<close>, \<open>Rt_Timer_Facts\<close>, \<open>Rt_Timer_Props\<close>: \<open>rtservice.h\<close>, \<open>timer.c\<close>, \<open>clock.c\<close>;
    doubly linked lists on a store of links, the sorted list of started timers, the check in the
    tick interrupt. Times left are below half the range of the tick counter (2147483647 ticks), so
    that the wrap-around of the counter does not matter. The locale \<open>timer_clients\<close> states what a
    timer's function must leave alone; \<open>logged\<close> and \<open>buttons\<close> interpret it.
  \<^item> \<open>Mem\<close>, \<open>Mem_Layout\<close>, \<open>Mem_Facts\<close>, \<open>Mem_Realloc\<close>, \<open>Mem_Client\<close>, \<open>Mem_Props\<close>: \<open>mem.c\<close>; block headers in a
    store, their refinement to a sequence of blocks (\<open>layout\<close>, \<open>heap_ok\<close>), first fit, joining of free
    blocks, resizing. The locale \<open>allocator\<close> is what callers rely on, \<open>kheap\<close> its interpretation.

  \<^item> \<open>Sched\<close>, \<open>Rt_Thread\<close>, \<open>Ipc_Sem\<close>, \<open>Boot\<close>: \<open>scheduler.c\<close>, \<open>irq.c\<close>, \<open>thread.c\<close>, \<open>ipc.c\<close>, \<open>components.c\<close>,
    \<open>idle.c\<close>, the tick interrupt of \<open>drv_common.c\<close>: the kernel's state is the client of the timers'
    state. A context switch is the change of the current thread; a call that blocks is split where
    its thread gives up the processor.
  \<^item> \<open>Sched_Lists\<close>, \<open>Sched_Facts\<close>, \<open>Kernel_Facts\<close>, \<open>Kernel_Calls\<close>, \<open>Ipc_Facts\<close>, \<open>Sem_Facts\<close>,
    \<open>Start_Facts\<close>, \<open>Boot_Facts\<close>: the invariant of the kernel, layer by layer: the ready, waiting and
    defunct lists on one store of links (\<open>sc_lists\<close>), the scheduler (\<open>sched_ok\<close>), the threads' timers
    (\<open>kernel_ok\<close>), the semaphores and the idle thread (\<open>kernel_inv\<close>); each layer shows that the
    operations keep it and what they change.
  \<^item> \<open>Kernel_Reach\<close>, \<open>Kernel_Props\<close>, \<open>Kernel_Time\<close>: the kernel as a state machine (\<open>reach\<close>: its start, the
    tick interrupt, and the calls of the running thread), and what it promises: the highest priority
    runs, no call faults, semaphores refine their specification, sleeping and waiting end in time.

  \<^item> \<open>Ipc_Objects\<close>, \<open>Ipc_Comm\<close>, \<open>Ipc_Mq\<close>: the mutexes, events, mailboxes and message queues of \<open>ipc.c\<close>. A
    state \<open>ipc\<close> is the kernel with these objects; the part of a call behind its wait is a definition
    \<open>\<dots>_back\<close>.
  \<^item> \<open>Ipc_Frame\<close>, \<open>Priority_Facts\<close>, \<open>Ipc_Queue\<close>, \<open>Mailbox\<close>, \<open>Msg_Queue\<close>, \<open>Event\<close>, \<open>Mutex\<close>, \<open>Ipc_Props\<close>: the
    operations on threads do not look at semaphores, so that the waiting list of any other object is as
    good as that of a semaphore (\<open>ghost\<close>); changes of priority. The locales \<open>mail_queue\<close> and
    \<open>urgent_queue\<close> are the contract of a bounded queue of messages, \<open>mbq\<close> and \<open>mqq\<close> their
    interpretations on mailboxes and on message queues with messages of the size of a slot; sessions with
    messages and buffers of any size refine a list of slots (\<open>mq_runs\<close>); events refine a walk over a plain
    list with sets of event numbers (\<open>event_spec\<close>, \<open>event_grant\<close>), mutexes a lock with owner, depth and
    queue (\<open>lock_take\<close>, \<open>lock_release\<close>). \<open>mutex_ok\<close> is the invariant between the calls, \<open>mutex_pre\<close> that of
    a kernel that still has to choose its thread, in which the release that frees a mutex may return.
  \<^item> \<open>Mempool\<close>, \<open>Mempool_Props\<close>: \<open>mempool.c\<close>; the chain of free blocks (\<open>pool_ok\<close>), the pools
    as another interpretation of \<open>allocator\<close> (\<open>mpool\<close>), and the threads that wait for a block.

  \<^item> \<open>Kstring\<close>, \<open>Kstring_Facts\<close>: the memory and string functions of \<open>kservice.c\<close> on a memory that is a list;
    the loops over words are the loops over bytes.
  \<^item> \<open>Msh\<close>, \<open>Tokens\<close>, \<open>Msh_Facts\<close>: \<open>msh.c\<close>; the split of a line in place against a reference
    tokenizer (\<open>tokens\<close>), the look-up and the run of a command (\<open>exec_line\<close>), completion, and writing
    arguments so that they are read back. A loop over the line reads a character before it compares the
    position with the length, as in the code, and a read behind the array is a fault.
  \<^item> \<open>Finsh\<close>, \<open>Editor\<close>, \<open>Editor_Facts\<close>, \<open>Shell_App\<close>, \<open>Shell_Props\<close>: \<open>shell.c\<close>; the shell's line, history and
    keys refine a line editor (\<open>ed_key\<close>; \<open>conc\<close> lays an editor out in the arrays of the shell); the commands
    of the application behind it.

  \<^item> \<open>Serial\<close>, \<open>Serial_Facts\<close>: \<open>serial.c\<close>, \<open>drv_usart.c\<close>; the queue the interrupt fills. The locale
    \<open>lossy_queue\<close> is the contract of a queue that forgets its oldest elements, \<open>rxq\<close> its interpretation.
  \<^item> \<open>Sem_Spec\<close>, \<open>Console\<close>, \<open>Console_Facts\<close>, \<open>Console_Props\<close>: \<open>device.c\<close> over the serial driver, the console of
    \<open>kservice.c\<close>, and \<open>finsh_set_device\<close>, \<open>finsh_rx_ind\<close>, \<open>finsh_getchar\<close> of \<open>shell.c\<close>. The interrupt may come
    between any two steps of the shell thread (\<open>con_run\<close>): a read with its key, or a take of the
    semaphore, which is the specification that \<open>sem_take_refines\<close> and \<open>sem_release_refines\<close> connect to
    \<open>ipc.c\<close>. A key with its command is one step: a byte that arrives during it only goes into the queue.
    Up to 65535 events the 16-bit value of the semaphore does not wrap; \<open>wakeup_lost\<close> is a run in which
    it does.

  \<^bold>\<open>Not modelled.\<close> The AT client and the socket layer; the output of the shell and its prompt are not kept,
  and the length of a device name is not cut; board start-up and clock tree (one
  sequence of register writes: the bus clock is a parameter); the end of a thread is modelled but not
  among the steps of \<open>reach\<close>, nor are the calls on mutexes, events, mailboxes, message queues and pools, whose
  properties start from any state with the kernel's invariant; vendor code
  for peripherals that are not used; and the packages, file systems and network stacks that
  \<open>rtconfig.h\<close> leaves out.
\<close>

end
